(* ===== verification/Prelude.thy ===== *)
theory Prelude
  imports Main "HOL-Library.List_Lexorder" "HOL-Library.Char_ord" "HOL-Library.Multiset"
begin

text \<open>
  Shared vocabulary of the development.

  \<^item> The result type \<open>'e + 'a\<close> (\<open>Inl\<close> an error) and its sequencing \<open>rbind\<close>.
  \<^item> Go slices: \<open>slice_get\<close> is an index expression, \<open>None\<close> where Go panics.
  \<^item> \<open>sort_search\<close>: the bisection of Go's \<open>sort.Search\<close>, with its
    contract for monotone predicates.
  \<^item> Ordered stores: a KV store (or a Go map whose keys are sorted before use) is an
    association list ordered by key; \<open>kv_set\<close> and \<open>kv_del\<close> are \<open>Set\<close>
    and \<open>Delete\<close>, \<open>map_of\<close> is \<open>Get\<close>, and the list order is the order of an
    iterator. The locale \<open>ordered_store\<close> states the contract the keepers rely on.
  \<^item> Prefix sums and a few facts on sums of lists.
\<close>

named_theorems kv_simps \<open>lookup after update in an ordered store\<close>
named_theorems slice_simps \<open>index expressions in range\<close>

type_synonym denom = string
type_synonym addr = string
type_synonym dec = int

subsection \<open>Results\<close>

definition rbind :: "'e + 'a \<Rightarrow> ('a \<Rightarrow> 'e + 'b) \<Rightarrow> 'e + 'b" where
  "rbind r f = (case r of Inl e \<Rightarrow> Inl e | Inr a \<Rightarrow> f a)"

lemma rbind_simps [simp]: "rbind (Inl e) f = Inl e" "rbind (Inr a) f = f a"
  by (simp_all add: rbind_def)

lemma rbind_Inr_iff: "rbind r f = Inr b \<longleftrightarrow> (\<exists>a. r = Inr a \<and> f a = Inr b)"
  by (cases r) auto

lemma rbind_Inl_iff: "rbind r f = Inl e \<longleftrightarrow> r = Inl e \<or> (\<exists>a. r = Inr a \<and> f a = Inl e)"
  by (cases r) auto

definition is_ok :: "'e + 'a \<Rightarrow> bool" where
  "is_ok r = (case r of Inl _ \<Rightarrow> False | Inr _ \<Rightarrow> True)"

lemma is_ok_simps [simp]: "\<not> is_ok (Inl e)" "is_ok (Inr a)"
  by (simp_all add: is_ok_def)

lemma is_ok_iff: "is_ok r \<longleftrightarrow> (\<exists>a. r = Inr a)"
  by (cases r) auto

subsection \<open>Slices\<close>

definition slice_get :: "'a list \<Rightarrow> int \<Rightarrow> 'a option" where
  "slice_get xs i = (if 0 \<le> i \<and> i < int (length xs) then Some (xs ! nat i) else None)"

lemma slice_get_nat [slice_simps]: "i < length xs \<Longrightarrow> slice_get xs (int i) = Some (xs ! i)"
  by (simp add: slice_get_def)

lemma slice_get_Some: "slice_get xs i = Some x \<longleftrightarrow> 0 \<le> i \<and> nat i < length xs \<and> xs ! nat i = x"
  by (auto simp: slice_get_def)

lemma slice_get_set: "slice_get xs i = Some x \<Longrightarrow> x \<in> set xs"
  by (auto simp: slice_get_Some)

definition remove_nth :: "nat \<Rightarrow> 'a list \<Rightarrow> 'a list" where
  "remove_nth i xs = take i xs @ drop (Suc i) xs"

lemma length_remove_nth [simp]: "i < length xs \<Longrightarrow> length (remove_nth i xs) = length xs - 1"
  by (simp add: remove_nth_def)

lemma set_remove_nth_subset: "set (remove_nth i xs) \<subseteq> set xs"
  by (auto simp: remove_nth_def dest: in_set_takeD in_set_dropD)

lemma remove_nth_append [simp]: "remove_nth (length xs) (xs @ x # ys) = xs @ ys"
  by (simp add: remove_nth_def)

lemma sorted_wrt_remove_nth: "sorted_wrt P xs \<Longrightarrow> sorted_wrt P (remove_nth i xs)"
proof (induction xs arbitrary: i)
  case Nil
  then show ?case by (simp add: remove_nth_def)
next
  case (Cons x xs)
  show ?case
  proof (cases i)
    case 0
    with Cons.prems show ?thesis by (simp add: remove_nth_def)
  next
    case (Suc j)
    have "remove_nth i (x # xs) = x # remove_nth j xs"
      by (simp add: Suc remove_nth_def)
    with Cons show ?thesis using set_remove_nth_subset [of j xs] by auto
  qed
qed

subsection \<open>Binary search\<close>

text \<open>
  Go's \<open>sort.Search(n, f)\<close>: \<open>i, j := 0, n; for i < j \{ h := (i+j)/2; if !f(h) \{ i = h+1 \}
  else \{ j = h \} \}; return i\<close>.
\<close>

function sort_search_loop :: "(nat \<Rightarrow> bool) \<Rightarrow> nat \<Rightarrow> nat \<Rightarrow> nat" where
  "sort_search_loop f i j =
     (if i < j then
        (let h = (i + j) div 2
         in if \<not> f h then sort_search_loop f (Suc h) j else sort_search_loop f i h)
      else i)"
  by pat_completeness auto
termination
  by (relation "measure (\<lambda>(f, i, j). j - i)") auto

declare sort_search_loop.simps [simp del]

definition sort_search :: "nat \<Rightarrow> (nat \<Rightarrow> bool) \<Rightarrow> nat" where
  "sort_search n f = sort_search_loop f 0 n"

lemma sort_search_loop_spec:
  assumes "i \<le> j" and "\<And>k. k < i \<Longrightarrow> \<not> f k"
    and "\<And>k. j \<le> k \<Longrightarrow> k < n \<Longrightarrow> f k" and "j \<le> n"
    and "\<And>k l. k \<le> l \<Longrightarrow> l < n \<Longrightarrow> f k \<Longrightarrow> f l"
  shows "let r = sort_search_loop f i j in
    i \<le> r \<and> r \<le> j \<and> (\<forall>k<r. \<not> f k) \<and> (\<forall>k. r \<le> k \<longrightarrow> k < n \<longrightarrow> f k)"
  using assms
proof (induction f i j rule: sort_search_loop.induct)
  case (1 f i j)
  show ?case
  proof (cases "i < j")
    case False
    then have "sort_search_loop f i j = i" by (subst sort_search_loop.simps) simp
    with False "1.prems" show ?thesis by (auto simp: Let_def)
  next
    case True
    define h where "h = (i + j) div 2"
    have h: "i \<le> h" "h < j" using True by (auto simp: h_def)
    show ?thesis
    proof (cases "f h")
      case False
      then have "\<not> f k" if "k < Suc h" for k
        using that h "1.prems"(4) "1.prems"(5) [of k h] by auto
      with "1.IH"(1) [OF True h_def False] "1.prems" h
      show ?thesis
        by (simp add: sort_search_loop.simps [of f i j] True h_def [symmetric] False Let_def)
    next
      case fh: True
      have "f k" if "h \<le> k" "k < n" for k
        using that fh "1.prems"(5) by blast
      with "1.IH"(2) [OF True h_def] fh "1.prems" h
      show ?thesis
        by (simp add: sort_search_loop.simps [of f i j] True h_def [symmetric] Let_def)
    qed
  qed
qed

lemma sort_search_spec:
  assumes "\<And>k l. k \<le> l \<Longrightarrow> l < n \<Longrightarrow> f k \<Longrightarrow> f l"
  shows "sort_search n f \<le> n" and "\<And>k. k < sort_search n f \<Longrightarrow> \<not> f k"
    and "\<And>k. sort_search n f \<le> k \<Longrightarrow> k < n \<Longrightarrow> f k"
  using sort_search_loop_spec [of 0 n f n] assms by (auto simp: sort_search_def Let_def)

lemma sort_search_loop_le: "i \<le> j \<Longrightarrow> sort_search_loop f i j \<le> j"
proof (induction f i j rule: sort_search_loop.induct)
  case (1 f i j)
  then show ?case by (subst sort_search_loop.simps) (force simp: Let_def)
qed

lemma sort_search_le: "sort_search n f \<le> n"
  by (simp add: sort_search_def sort_search_loop_le)

lemma sort_search_unique:
  assumes "\<And>k l. k \<le> l \<Longrightarrow> l < n \<Longrightarrow> f k \<Longrightarrow> f l"
    and "m \<le> n" and "\<And>k. k < m \<Longrightarrow> \<not> f k" and "m < n \<Longrightarrow> f m"
  shows "sort_search n f = m"
proof (rule antisym)
  show "sort_search n f \<le> m"
    using sort_search_spec [of n f] assms by (metis linorder_not_less order_less_le)
  show "m \<le> sort_search n f"
    using sort_search_spec [of n f] assms by (metis linorder_not_less order_less_le_trans order_refl)
qed

subsection \<open>Ordered stores\<close>

type_synonym ('k, 'v) kv = "('k \<times> 'v) list"

fun kv_set :: "'k::linorder \<Rightarrow> 'v \<Rightarrow> ('k, 'v) kv \<Rightarrow> ('k, 'v) kv" where
  "kv_set k v [] = [(k, v)]"
| "kv_set k v ((a, b) # m) =
     (if k < a then (k, v) # (a, b) # m
      else if k = a then (k, v) # m
      else (a, b) # kv_set k v m)"

definition kv_del :: "'k \<Rightarrow> ('k, 'v) kv \<Rightarrow> ('k, 'v) kv" where
  "kv_del k m = filter (\<lambda>p. fst p \<noteq> k) m"

definition kv_keys :: "('k, 'v) kv \<Rightarrow> 'k list" where
  "kv_keys m = map fst m"

definition kv_ok :: "('k::linorder, 'v) kv \<Rightarrow> bool" where
  "kv_ok m = sorted_wrt (<) (map fst m)"

text \<open>The contract of a store that a keeper reads, writes and iterates.\<close>

locale ordered_store =
  fixes empty :: "'m"
    and upd :: "'k::linorder \<Rightarrow> 'v \<Rightarrow> 'm \<Rightarrow> 'm"
    and del :: "'k \<Rightarrow> 'm \<Rightarrow> 'm"
    and get :: "'m \<Rightarrow> 'k \<Rightarrow> 'v option"
    and keys :: "'m \<Rightarrow> 'k list"
    and ok :: "'m \<Rightarrow> bool"
  assumes get_empty: "get empty k = None"
    and get_upd: "get (upd k v m) = (get m)(k \<mapsto> v)"
    and get_del: "get (del k m) = (get m)(k := None)"
    and keys_get: "set (keys m) = dom (get m)"
    and keys_sorted: "ok m \<Longrightarrow> sorted (keys m) \<and> distinct (keys m)"
    and ok_empty: "ok empty"
    and ok_upd: "ok m \<Longrightarrow> ok (upd k v m)"
    and ok_del: "ok m \<Longrightarrow> ok (del k m)"
begin

lemma get_upd_same: "get (upd k v m) k = Some v"
  by (simp add: get_upd)

lemma get_upd_other: "k' \<noteq> k \<Longrightarrow> get (upd k v m) k' = get m k'"
  by (simp add: get_upd)

lemma set_keys_upd: "set (keys (upd k v m)) = insert k (set (keys m))"
  by (simp add: keys_get get_upd)

lemma set_keys_del: "set (keys (del k m)) = set (keys m) - {k}"
  by (simp add: keys_get get_del)

lemma keys_determined:
  assumes "ok m" and "ok m'" and "dom (get m) = dom (get m')"
  shows "keys m = keys m'"
proof -
  have "set (keys m) = set (keys m')"
    using assms(3) by (simp add: keys_get)
  with assms(1,2) show ?thesis
    by (meson keys_sorted sorted_distinct_set_unique)
qed

end

lemma map_of_kv_set: "map_of (kv_set k v m) = (map_of m)(k \<mapsto> v)"
  by (induction k v m rule: kv_set.induct) auto

lemma map_of_kv_del: "map_of (kv_del k m) = (map_of m)(k := None)"
  by (induction m) (auto simp: kv_del_def)

lemma set_kv_set: "fst ` set (kv_set k v m) = insert k (fst ` set m)"
  by (induction k v m rule: kv_set.induct) auto

lemma kv_ok_Nil [simp]: "kv_ok []"
  by (simp add: kv_ok_def)

lemma kv_ok_Cons: "kv_ok ((a, b) # m) \<longleftrightarrow> (\<forall>x\<in>fst ` set m. a < x) \<and> kv_ok m"
  by (auto simp: kv_ok_def)

lemma kv_ok_set: "kv_ok m \<Longrightarrow> kv_ok (kv_set k v m)"
proof (induction k v m rule: kv_set.induct)
  case (1 k v)
  then show ?case by (simp add: kv_ok_def)
next
  case (2 k v a b m)
  then show ?case
    by (simp add: kv_ok_Cons set_kv_set del: map_of_kv_set) (meson order.strict_trans not_less_iff_gr_or_eq)
qed

lemma kv_ok_del: "kv_ok m \<Longrightarrow> kv_ok (kv_del k m)"
  by (induction m) (auto simp: kv_ok_def kv_del_def)

lemma kv_ok_distinct: "kv_ok m \<Longrightarrow> distinct (map fst m)"
  by (simp add: kv_ok_def strict_sorted_iff)

interpretation kv: ordered_store "[]" kv_set kv_del map_of kv_keys kv_ok
proof unfold_locales
  show "set (kv_keys m) = dom (map_of m)" for m :: "('k::linorder, 'v) kv"
    by (simp add: kv_keys_def dom_map_of_conv_image_fst)
  show "kv_ok m \<Longrightarrow> sorted (kv_keys m) \<and> distinct (kv_keys m)" for m :: "('k::linorder, 'v) kv"
    by (simp add: kv_ok_def kv_keys_def strict_sorted_iff)
qed (simp_all add: map_of_kv_set map_of_kv_del kv_ok_set kv_ok_del)

declare map_of_kv_set [simp, kv_simps] map_of_kv_del [simp, kv_simps]

subsection \<open>Loops that may panic\<close>

fun ofold :: "('a \<Rightarrow> 's \<Rightarrow> 's option) \<Rightarrow> 'a list \<Rightarrow> 's \<Rightarrow> 's option" where
  "ofold f [] s = Some s"
| "ofold f (x # xs) s = (case f x s of None \<Rightarrow> None | Some s' \<Rightarrow> ofold f xs s')"

lemma ofold_append: "ofold f (xs @ ys) s = (case ofold f xs s of None \<Rightarrow> None | Some s' \<Rightarrow> ofold f ys s')"
  by (induction xs arbitrary: s) (auto split: option.splits)

lemma ofold_invariant:
  assumes "ofold f xs s = Some s'" and "P s" and "\<And>x t t'. x \<in> set xs \<Longrightarrow> P t \<Longrightarrow> f x t = Some t' \<Longrightarrow> P t'"
  shows "P s'"
  using assms
proof (induction xs arbitrary: s)
  case (Cons x xs)
  then obtain t where t: "f x s = Some t" "ofold f xs t = Some s'" by (auto split: option.splits)
  have "P t" by (rule Cons.prems(3) [OF _ Cons.prems(2) t(1)]) simp
  then show ?case
  proof (rule Cons.IH [OF t(2)])
    show "P u'" if "y \<in> set xs" "P u" "f y u = Some u'" for y u u'
      by (rule Cons.prems(3) [OF _ that(2,3)]) (use that(1) in simp)
  qed
qed simp

subsection \<open>Sums\<close>

fun prefix_sums :: "int \<Rightarrow> int list \<Rightarrow> int list" where
  "prefix_sums a [] = []"
| "prefix_sums a (x # xs) = (a + x) # prefix_sums (a + x) xs"

lemma length_prefix_sums [simp]: "length (prefix_sums a xs) = length xs"
  by (induction xs arbitrary: a) auto

lemma nth_prefix_sums:
  "i < length xs \<Longrightarrow> prefix_sums a xs ! i = a + sum_list (take (Suc i) xs)"
  by (induction xs arbitrary: a i) (auto simp: less_Suc_eq_0_disj)

lemma sum_list_nonneg_take_mono:
  fixes xs :: "int list"
  assumes "\<forall>x\<in>set xs. 0 \<le> x" and "i \<le> j"
  shows "sum_list (take i xs) \<le> sum_list (take j xs)"
proof -
  have "take j xs = take i xs @ take (j - i) (drop i xs)"
    using assms(2) by (metis le_add_diff_inverse take_add)
  moreover have "0 \<le> sum_list (take (j - i) (drop i xs))"
    using assms(1) by (intro sum_list_nonneg) (auto dest!: in_set_takeD in_set_dropD)
  ultimately show ?thesis by simp
qed

lemma sum_list_nonneg_drop_antimono:
  fixes xs :: "int list"
  assumes "\<forall>x\<in>set xs. 0 \<le> x" and "i \<le> j"
  shows "sum_list (drop j xs) \<le> sum_list (drop i xs)"
proof -
  have "drop i xs = take (j - i) (drop i xs) @ drop j xs"
    using assms(2) by (metis append_take_drop_id drop_drop le_add_diff_inverse2)
  then have "sum_list (drop i xs) = sum_list (take (j - i) (drop i xs)) + sum_list (drop j xs)"
    by (metis sum_list_append)
  moreover have "0 \<le> sum_list (take (j - i) (drop i xs))"
    using assms(1) by (intro sum_list_nonneg) (auto dest!: in_set_takeD in_set_dropD)
  ultimately show ?thesis by simp
qed

text \<open>Sums over the values of a store.\<close>

definition kv_sum :: "('v \<Rightarrow> int) \<Rightarrow> ('k, 'v) kv \<Rightarrow> int" where
  "kv_sum f m = sum_list (map (\<lambda>p. f (snd p)) m)"

definition kv_val :: "('v \<Rightarrow> int) \<Rightarrow> ('k, 'v) kv \<Rightarrow> 'k \<Rightarrow> int" where
  "kv_val f m k = (case map_of m k of None \<Rightarrow> 0 | Some v \<Rightarrow> f v)"

lemma kv_sum_Nil [simp]: "kv_sum f [] = 0"
  by (simp add: kv_sum_def)

lemma kv_sum_Cons [simp]: "kv_sum f ((k, v) # m) = f v + kv_sum f m"
  by (simp add: kv_sum_def)

lemma kv_del_absent: "k \<notin> fst ` set m \<Longrightarrow> kv_del k m = m"
  by (auto simp: kv_del_def filter_id_conv image_iff)

lemma kv_sum_set: "kv_ok m \<Longrightarrow> kv_sum f (kv_set k v m) = kv_sum f m - kv_val f m k + f v"
proof (induction k v m rule: kv_set.induct)
  case (2 k v a b m)
  have "map_of m k = None" if "k \<le> a"
    using "2.prems" that by (force simp: kv_ok_Cons map_of_eq_None_iff)
  with 2 show ?case by (auto simp: kv_val_def kv_ok_Cons)
qed (simp add: kv_val_def)

lemma kv_sum_del: "kv_ok m \<Longrightarrow> kv_sum f (kv_del k m) = kv_sum f m - kv_val f m k"
proof (induction m)
  case (Cons p m)
  obtain a b where p: "p = (a, b)" by force
  have "kv_del a m = m"
    using Cons.prems p by (intro kv_del_absent) (force simp: kv_ok_Cons)
  with Cons p show ?case by (auto simp: kv_val_def kv_ok_Cons kv_del_def)
qed (simp add: kv_val_def kv_del_def)

lemma kv_vals_set: "\<forall>p\<in>set m. P (snd p) \<Longrightarrow> P v \<Longrightarrow> \<forall>p\<in>set (kv_set k v m). P (snd p)"
  by (induction k v m rule: kv_set.induct) auto

lemma kv_vals_del: "\<forall>p\<in>set m. P (snd p) \<Longrightarrow> \<forall>p\<in>set (kv_del k m). P (snd p)"
  by (auto simp: kv_del_def)

lemma kv_vals_get: "\<forall>p\<in>set m. P (snd p) \<Longrightarrow> map_of m k = Some v \<Longrightarrow> P v"
  by (fastforce dest: map_of_SomeD)

lemma length_kv_set: "kv_ok m \<Longrightarrow> map_of m k \<noteq> None \<Longrightarrow> length (kv_set k v m) = length m"
proof (induction k v m rule: kv_set.induct)
  case (2 k v a b m)
  have "map_of m k = None" if "k < a"
    using "2.prems" that by (force simp: kv_ok_Cons map_of_eq_None_iff)
  with 2 show ?case by (auto simp: kv_ok_Cons split: if_splits)
qed simp

lemma kv_set_append: "\<forall>x\<in>fst ` set m. x < k \<Longrightarrow> kv_set k v m = m @ [(k, v)]"
  by (induction k v m rule: kv_set.induct) (auto simp: not_less_iff_gr_or_eq)

lemma fold_kv_set_sorted:
  "kv_ok (m @ m') \<Longrightarrow> fold (\<lambda>p. kv_set (fst p) (snd p)) m' m = m @ m'"
proof (induction m' arbitrary: m)
  case (Cons p m')
  obtain k v where p: "p = (k, v)" by force
  have "kv_set k v m = m @ [(k, v)]"
    using Cons.prems p by (intro kv_set_append) (auto simp: kv_ok_def sorted_wrt_append)
  with Cons.IH [of "m @ [(k, v)]"] Cons.prems p show ?case by simp
qed simp

subsection \<open>Step relations\<close>

lemma kv_from_keys: "kv_ok m \<Longrightarrow> map (\<lambda>k. (k, the (map_of m k))) (kv_keys m) = m"
  unfolding kv_keys_def map_map by (rule map_idI) (force simp: kv_ok_distinct)

lemma kv_ext:
  assumes "kv_ok m" and "kv_ok m'" and "map_of m = map_of m'"
  shows "m = m'"
proof -
  have "kv_keys m = kv_keys m'" using assms by (intro kv.keys_determined) simp_all
  then show ?thesis using kv_from_keys [OF assms(1)] kv_from_keys [OF assms(2)] assms(3) by metis
qed

text \<open>Writing a set of entries back: an absent value deletes the key.\<close>

definition kv_put :: "'k::linorder \<Rightarrow> 'v option \<Rightarrow> ('k, 'v) kv \<Rightarrow> ('k, 'v) kv" where
  "kv_put k v m = (case v of None \<Rightarrow> kv_del k m | Some x \<Rightarrow> kv_set k x m)"

lemma kv_put_all:
  shows "map_of (fold (\<lambda>k. kv_put k (f k)) ks m) k = (if k \<in> set ks then f k else map_of m k)"
    and "kv_ok m \<Longrightarrow> kv_ok (fold (\<lambda>k. kv_put k (f k)) ks m)"
  by (induction ks arbitrary: m) (auto simp: kv_put_def kv_ok_set kv_ok_del split: option.splits)

text \<open>A step relation that keeps an invariant and, on states satisfying it, a quantity.\<close>

locale conserving_steps =
  fixes step :: "'s \<Rightarrow> 's \<Rightarrow> bool"
    and inv :: "'s \<Rightarrow> bool"
    and quantity :: "'s \<Rightarrow> 'q"
  assumes step_inv: "inv s \<Longrightarrow> step s s' \<Longrightarrow> inv s'"
    and step_quantity: "inv s \<Longrightarrow> step s s' \<Longrightarrow> quantity s' = quantity s"
begin

lemma reachable: "step\<^sup>*\<^sup>* s s' \<Longrightarrow> inv s \<Longrightarrow> inv s' \<and> quantity s' = quantity s"
  by (induction rule: rtranclp_induct) (auto simp: step_quantity intro: step_inv)

end

text \<open>The weaker contract: the quantity may grow.\<close>

locale growing_steps =
  fixes step :: "'s \<Rightarrow> 's \<Rightarrow> bool"
    and inv :: "'s \<Rightarrow> bool"
    and quantity :: "'s \<Rightarrow> 'q :: order"
  assumes step_inv: "inv s \<Longrightarrow> step s s' \<Longrightarrow> inv s'"
    and step_grows: "inv s \<Longrightarrow> step s s' \<Longrightarrow> quantity s \<le> quantity s'"
begin

lemma reachable: "step\<^sup>*\<^sup>* s s' \<Longrightarrow> inv s \<Longrightarrow> inv s' \<and> quantity s \<le> quantity s'"
  by (induction rule: rtranclp_induct) (auto intro: step_inv order_trans [OF _ step_grows])

end

end
