(* ===== verification/Sdk.thy ===== *)
theory Sdk
  imports Prelude
begin

text \<open>
  The parts of the Cosmos SDK that the modules call and that are not in this repository:
  decimals (\<open>sdk.Dec\<close>), coin lists (\<open>sdk.SysCoins\<close>) and the bank and supply keepers.
  They are parameters of the model, fields of the record \<open>sdk\<close>, and what the
  modules rely on is stated as the named predicates \<open>dec_laws\<close>, \<open>coins_laws\<close> and
  \<open>bank_laws\<close>, which theorems take as hypotheses.

  A decimal is its integer number of smallest units; \<open>Add\<close>, \<open>Sub\<close> and the
  comparisons of \<open>sdk.Dec\<close> are exact, so they are \<open>+\<close>, \<open>-\<close> and the order of \<open>int\<close>.
  \<open>Mul\<close>, \<open>Quo\<close> and \<open>RoundDecimal\<close> round and are fields of the record.
  A coin is a pair of denomination and amount.
\<close>

type_synonym coin = "denom \<times> dec"
type_synonym coins = "coin list"

record 'b sdk =
  d_unit :: dec
  d_mul :: "dec \<Rightarrow> dec \<Rightarrow> dec"
  d_quo :: "dec \<Rightarrow> dec \<Rightarrow> dec"
  d_round :: "dec \<Rightarrow> int \<Rightarrow> dec"
  d_str :: "dec \<Rightarrow> string"
  d_of_str :: "string \<Rightarrow> dec option"
  c_add2 :: "coins \<Rightarrow> coins \<Rightarrow> coins"
  c_safe_sub :: "coins \<Rightarrow> coins \<Rightarrow> coins \<times> bool"
  c_sort :: "coins \<Rightarrow> coins"
  c_str :: "coins \<Rightarrow> string"
  c_parse :: "string \<Rightarrow> coins option"
  c_to_coins :: "coin \<Rightarrow> coins"
  c_zero_fee :: coin
  c_coin_valid :: "coin \<Rightarrow> bool"
  c_valid :: "coins \<Rightarrow> bool"
  c_all_positive :: "coins \<Rightarrow> bool"
  b_coins :: "'b \<Rightarrow> addr \<Rightarrow> coins"
  b_supply :: "'b \<Rightarrow> denom \<Rightarrow> dec"
  b_mod_addr :: "string \<Rightarrow> addr"
  b_send :: "'b \<Rightarrow> addr \<Rightarrow> addr \<Rightarrow> coins \<Rightarrow> string + 'b"
  b_acc_to_mod :: "'b \<Rightarrow> addr \<Rightarrow> string \<Rightarrow> coins \<Rightarrow> string + 'b"
  b_mod_to_acc :: "'b \<Rightarrow> string \<Rightarrow> addr \<Rightarrow> coins \<Rightarrow> string + 'b"
  b_mint :: "'b \<Rightarrow> string \<Rightarrow> coins \<Rightarrow> string + 'b"
  b_burn :: "'b \<Rightarrow> string \<Rightarrow> coins \<Rightarrow> string + 'b"
  b_blacklisted :: "addr \<Rightarrow> bool"
  b_send_enabled :: "'b \<Rightarrow> bool"
  b_code_hash :: "'b \<Rightarrow> addr \<Rightarrow> string option"
  k_keccak_empty :: string
  s_mercury :: "int \<Rightarrow> bool"
  s_validate_denom :: "string \<Rightarrow> bool"

text \<open>The amount of a denomination in a coin list.\<close>

definition amt :: "coins \<Rightarrow> denom \<Rightarrow> dec" where
  "amt cs d = sum_list (map snd (filter (\<lambda>c. fst c = d) cs))"

lemma amt_Nil [simp]: "amt [] d = 0"
  by (simp add: amt_def)

lemma amt_Cons [simp]: "amt ((d', x) # cs) d = (if d' = d then x else 0) + amt cs d"
  by (simp add: amt_def)

lemma amt_append [simp]: "amt (cs @ cs') d = amt cs d + amt cs' d"
  by (simp add: amt_def)

text \<open>\<open>SysCoins.IsZero\<close>: every coin of the list is zero.\<close>

definition coins_is_zero :: "coins \<Rightarrow> bool" where
  "coins_is_zero cs = list_all (\<lambda>c. snd c = 0) cs"

lemma amt_coins_is_zero: "coins_is_zero cs \<Longrightarrow> amt cs d = 0"
  by (induction cs) (auto simp: coins_is_zero_def)

text \<open>
  \<open>SysCoins.Sub\<close> is \<open>SafeSub\<close> with a panic (here \<open>None\<close>) where the difference is negative.
\<close>

definition coins_sub :: "'b sdk \<Rightarrow> coins \<Rightarrow> coins \<Rightarrow> coins option" where
  "coins_sub S a b = (let (c, neg) = c_safe_sub S a b in if neg then None else Some c)"

subsection \<open>What the modules rely on\<close>

text \<open>
  Decimals: the unit is positive; \<open>Mul\<close> keeps signs, is monotone on non-negative
  factors, has the unit as neutral element and is exact whenever the product is a whole
  number of smallest units; \<open>RoundDecimal\<close> keeps signs.
\<close>

definition dec_laws :: "'b sdk \<Rightarrow> bool" where
  "dec_laws S \<longleftrightarrow>
     0 < d_unit S
     \<and> (\<forall>a b. d_unit S dvd a * b \<longrightarrow> d_mul S a b = a * b div d_unit S)
     \<and> (\<forall>a b. 0 \<le> a \<longrightarrow> 0 \<le> b \<longrightarrow> 0 \<le> d_mul S a b)
     \<and> (\<forall>a b c. 0 \<le> c \<longrightarrow> a \<le> b \<longrightarrow> d_mul S a c \<le> d_mul S b c)
     \<and> (\<forall>a b. d_mul S a b = d_mul S b a)
     \<and> (\<forall>a n. 0 \<le> a \<longrightarrow> 0 \<le> d_round S a n)"

text \<open>
  Coin lists: the operations are used on lists sorted by denomination without
  duplicates (\<open>coins_ok\<close>); there \<open>Add2\<close> and \<open>SafeSub\<close> work per denomination,
  \<open>SafeSub\<close> reports a negative amount, and sorting changes nothing. \<open>ToCoins\<close> keeps the amount and the
  coin of \<open>ZeroFee\<close> is zero.
\<close>

definition coins_ok :: "coins \<Rightarrow> bool" where
  "coins_ok cs \<longleftrightarrow> sorted_wrt (<) (map fst cs)"

lemma coins_ok_single [simp]: "coins_ok [c]" "coins_ok []"
  by (simp_all add: coins_ok_def)

definition coins_laws :: "'b sdk \<Rightarrow> bool" where
  "coins_laws S \<longleftrightarrow>
     (\<forall>a b. coins_ok a \<longrightarrow> coins_ok b \<longrightarrow>
        coins_ok (c_add2 S a b) \<and> (\<forall>d. amt (c_add2 S a b) d = amt a d + amt b d)
        \<and> coins_ok (fst (c_safe_sub S a b)) \<and> (\<forall>d. amt (fst (c_safe_sub S a b)) d = amt a d - amt b d)
        \<and> (snd (c_safe_sub S a b) \<longleftrightarrow> (\<exists>d. amt a d < amt b d)))
     \<and> (\<forall>a. coins_ok a \<longrightarrow> c_sort S a = a)
     \<and> (\<forall>c d. coins_ok (c_to_coins S c) \<and> amt (c_to_coins S c) d = amt [c] d)
     \<and> snd (c_zero_fee S) = 0"

definition bank_bal :: "'b sdk \<Rightarrow> 'b \<Rightarrow> addr \<Rightarrow> denom \<Rightarrow> dec" where
  "bank_bal S b a d = amt (b_coins S b a) d"

text \<open>A successful transfer moves exactly the coins and leaves every supply alone.\<close>

definition moves :: "'b sdk \<Rightarrow> 'b \<Rightarrow> addr \<Rightarrow> addr \<Rightarrow> coins \<Rightarrow> 'b \<Rightarrow> bool" where
  "moves S b src dst cs b' \<longleftrightarrow>
     (\<forall>a d. bank_bal S b' a d =
        bank_bal S b a d + (if a = dst then amt cs d else 0) - (if a = src then amt cs d else 0))
     \<and> (\<forall>d. b_supply S b' d = b_supply S b d)"

definition bank_laws :: "'b sdk \<Rightarrow> bool" where
  "bank_laws S \<longleftrightarrow>
     (\<forall>b src dst cs b'. b_send S b src dst cs = Inr b' \<longrightarrow> moves S b src dst cs b')
     \<and> (\<forall>b src m cs b'. b_acc_to_mod S b src m cs = Inr b' \<longrightarrow> moves S b src (b_mod_addr S m) cs b')
     \<and> (\<forall>b m dst cs b'. b_mod_to_acc S b m dst cs = Inr b' \<longrightarrow> moves S b (b_mod_addr S m) dst cs b')
     \<and> (\<forall>b m cs b'. b_mint S b m cs = Inr b' \<longrightarrow>
          (\<forall>a d. bank_bal S b' a d = bank_bal S b a d + (if a = b_mod_addr S m then amt cs d else 0))
          \<and> (\<forall>d. b_supply S b' d = b_supply S b d + amt cs d))
     \<and> (\<forall>b m cs b'. b_burn S b m cs = Inr b' \<longrightarrow>
          (\<forall>a d. bank_bal S b' a d = bank_bal S b a d - (if a = b_mod_addr S m then amt cs d else 0))
          \<and> (\<forall>d. b_supply S b' d = b_supply S b d - amt cs d))"

definition sdk_laws :: "'b sdk \<Rightarrow> bool" where
  "sdk_laws S \<longleftrightarrow> dec_laws S \<and> coins_laws S \<and> bank_laws S"

lemma sdk_lawsD: "sdk_laws S \<Longrightarrow> dec_laws S" "sdk_laws S \<Longrightarrow> coins_laws S" "sdk_laws S \<Longrightarrow> bank_laws S"
  by (simp_all add: sdk_laws_def)

lemma dec_unit_pos: "dec_laws S \<Longrightarrow> 0 < d_unit S"
  by (simp add: dec_laws_def)

lemma d_mul_exact: "dec_laws S \<Longrightarrow> d_unit S dvd a * b \<Longrightarrow> d_mul S a b = a * b div d_unit S"
  by (simp add: dec_laws_def)

lemma d_mul_nonneg: "dec_laws S \<Longrightarrow> 0 \<le> a \<Longrightarrow> 0 \<le> b \<Longrightarrow> 0 \<le> d_mul S a b"
  by (simp add: dec_laws_def)

lemma d_mul_mono: "dec_laws S \<Longrightarrow> 0 \<le> c \<Longrightarrow> a \<le> b \<Longrightarrow> d_mul S a c \<le> d_mul S b c"
  by (simp add: dec_laws_def)

lemma d_mul_commute: "dec_laws S \<Longrightarrow> d_mul S a b = d_mul S b a"
  unfolding dec_laws_def by blast

lemma coins_add2:
  assumes "coins_laws S" and "coins_ok a" and "coins_ok b"
  shows "coins_ok (c_add2 S a b)" and "amt (c_add2 S a b) d = amt a d + amt b d"
  using assms by (auto simp: coins_laws_def)

lemma coins_safe_sub:
  assumes "coins_laws S" and "coins_ok a" and "coins_ok b"
  shows "coins_ok (fst (c_safe_sub S a b))"
    and "amt (fst (c_safe_sub S a b)) d = amt a d - amt b d"
    and "snd (c_safe_sub S a b) \<longleftrightarrow> (\<exists>d. amt a d < amt b d)"
  using assms by (auto simp: coins_laws_def)

lemma coins_sort_id: "coins_laws S \<Longrightarrow> coins_ok a \<Longrightarrow> c_sort S a = a"
  by (simp add: coins_laws_def)

lemma coins_to_coins: "coins_laws S \<Longrightarrow> coins_ok (c_to_coins S c)"
  "coins_laws S \<Longrightarrow> amt (c_to_coins S c) d = amt [c] d"
  unfolding coins_laws_def by blast+

lemma bank_moves:
  assumes "bank_laws S"
  shows "b_send S b src dst cs = Inr b' \<Longrightarrow> moves S b src dst cs b'"
    and "b_acc_to_mod S b src m cs = Inr b' \<Longrightarrow> moves S b src (b_mod_addr S m) cs b'"
    and "b_mod_to_acc S b m dst cs = Inr b' \<Longrightarrow> moves S b (b_mod_addr S m) dst cs b'"
  using assms by (auto simp: bank_laws_def)

lemma moves_bal:
  "moves S b src dst cs b' \<Longrightarrow> bank_bal S b' a d =
     bank_bal S b a d + (if a = dst then amt cs d else 0) - (if a = src then amt cs d else 0)"
  by (simp add: moves_def)

lemma moves_supply: "moves S b src dst cs b' \<Longrightarrow> b_supply S b' d = b_supply S b d"
  by (simp add: moves_def)

lemma coins_fold:
  assumes "sdk_laws S" and "\<And>x. x \<in> set xs \<Longrightarrow> coins_ok (f x)" and "coins_ok acc"
  shows "coins_ok (fold (\<lambda>x acc. c_add2 S acc (f x)) xs acc)"
    and "amt (fold (\<lambda>x acc. c_add2 S acc (f x)) xs acc) d = amt acc d + sum_list (map (\<lambda>x. amt (f x) d) xs)"
  using assms(2,3) coins_add2 [OF sdk_lawsD(2) [OF assms(1)]] by (induction xs arbitrary: acc) auto

subsection \<open>A reference instance\<close>

text \<open>
  A concrete bank that meets every law, for evaluation: decimals with two digits, coin
  lists merged by denomination, and a ledger of balances and supplies.
\<close>

fun merge_coins :: "coins \<Rightarrow> coins \<Rightarrow> coins" where
  "merge_coins [] bs = bs"
| "merge_coins (a # as) [] = a # as"
| "merge_coins ((d, x) # as) ((e, y) # bs) =
     (if d < e then (d, x) # merge_coins as ((e, y) # bs)
      else if e < d then (e, y) # merge_coins ((d, x) # as) bs
      else if x + y = 0 then merge_coins as bs
      else (d, x + y) # merge_coins as bs)"

lemma amt_merge_coins: "amt (merge_coins as bs) d = amt as d + amt bs d"
  by (induction as bs rule: merge_coins.induct) auto

lemma merge_coins_denoms: "fst ` set (merge_coins as bs) \<subseteq> fst ` set as \<union> fst ` set bs"
proof (induction as bs rule: merge_coins.induct)
  case (3 d x as e y bs)
  then show ?case by (cases d e rule: linorder_cases) (simp_all, blast+)
qed auto

lemma coins_ok_Cons: "coins_ok ((d, x) # cs) \<longleftrightarrow> (\<forall>e\<in>fst ` set cs. d < e) \<and> coins_ok cs"
  by (auto simp: coins_ok_def)

lemma coins_ok_merge: "coins_ok as \<Longrightarrow> coins_ok bs \<Longrightarrow> coins_ok (merge_coins as bs)"
proof (induction as bs rule: merge_coins.induct)
  case (3 d x as e y bs)
  note m = merge_coins_denoms [of as "(e, y) # bs"] merge_coins_denoms [of "(d, x) # as" bs]
    merge_coins_denoms [of as bs]
  show ?case
  proof (cases d e rule: linorder_cases)
    case less
    with 3 have "\<forall>c\<in>fst ` set (merge_coins as ((e, y) # bs)). d < c"
      using m(1) by (fastforce simp: coins_ok_Cons)
    with less 3 show ?thesis by (simp add: coins_ok_Cons)
  next
    case greater
    with 3 have "\<forall>c\<in>fst ` set (merge_coins ((d, x) # as) bs). e < c"
      using m(2) by (fastforce simp: coins_ok_Cons)
    with greater 3 show ?thesis by (simp add: coins_ok_Cons)
  next
    case equal
    with 3 have "\<forall>c\<in>fst ` set (merge_coins as bs). d < c"
      using m(3) by (fastforce simp: coins_ok_Cons)
    with equal 3 show ?thesis by (simp add: coins_ok_Cons)
  qed
qed simp_all

definition neg_coins :: "coins \<Rightarrow> coins" where
  "neg_coins cs = map (\<lambda>(d, x). (d, - x)) cs"

lemma amt_neg_coins [simp]: "amt (neg_coins cs) d = - amt cs d"
  by (induction cs) (auto simp: neg_coins_def)

lemma coins_ok_neg [simp]: "coins_ok (neg_coins cs) \<longleftrightarrow> coins_ok cs"
  by (simp add: coins_ok_def neg_coins_def comp_def case_prod_unfold)

lemma coins_ok_amt:
  "coins_ok cs \<Longrightarrow> (d, x) \<in> set cs \<Longrightarrow> amt cs d = x"
proof (induction cs)
  case (Cons c cs)
  obtain e y where c: "c = (e, y)" by force
  have "amt cs e = 0" if "\<forall>d\<in>fst ` set cs. e < d"
    using that by (auto simp: amt_def filter_empty_conv intro!: sum_list_0)
      (metis (mono_tags, lifting) filter_False fst_conv image_eqI list.map(1) order_less_irrefl sum_list.Nil)
  with Cons c show ?case by (auto simp: coins_ok_Cons)
qed simp

lemma some_negative:
  assumes "coins_ok cs"
  shows "list_ex (\<lambda>c. snd c < 0) cs \<longleftrightarrow> (\<exists>d. amt cs d < 0)"
proof
  assume "list_ex (\<lambda>c. snd c < 0) cs"
  then obtain d x where "(d, x) \<in> set cs" "x < 0" by (auto simp: list_ex_iff)
  then show "\<exists>d. amt cs d < 0" using coins_ok_amt [OF assms] by metis
next
  assume "\<exists>d. amt cs d < 0"
  then obtain d where "amt cs d < 0" ..
  then have "filter (\<lambda>c. fst c = d) cs \<noteq> []" by (auto simp: amt_def)
  then obtain x where "(d, x) \<in> set cs" by (auto simp: filter_empty_conv)
  moreover from this have "x < 0" using \<open>amt cs d < 0\<close> coins_ok_amt [OF assms] by metis
  ultimately show "list_ex (\<lambda>c. snd c < 0) cs" unfolding list_ex_iff by (metis snd_conv)
qed

record ref_bank =
  rb_bal :: "(addr, coins) kv"
  rb_sup :: coins

definition rb_get :: "ref_bank \<Rightarrow> addr \<Rightarrow> coins" where
  "rb_get b a = (case map_of (rb_bal b) a of Some cs \<Rightarrow> cs | None \<Rightarrow> [])"

definition rb_put :: "addr \<Rightarrow> coins \<Rightarrow> ref_bank \<Rightarrow> ref_bank" where
  "rb_put a cs b = b\<lparr>rb_bal := kv_set a cs (rb_bal b)\<rparr>"

definition rb_pays :: "ref_bank \<Rightarrow> addr \<Rightarrow> coins \<Rightarrow> bool" where
  "rb_pays b a cs \<longleftrightarrow> coins_ok cs \<and> list_all (\<lambda>c. 0 < snd c) cs
     \<and> \<not> list_ex (\<lambda>c. snd c < 0) (merge_coins (rb_get b a) (neg_coins cs))"

definition rb_add :: "addr \<Rightarrow> coins \<Rightarrow> ref_bank \<Rightarrow> ref_bank" where
  "rb_add a cs b = rb_put a (merge_coins (rb_get b a) cs) b"

definition rb_move :: "ref_bank \<Rightarrow> addr \<Rightarrow> addr \<Rightarrow> coins \<Rightarrow> string + ref_bank" where
  "rb_move b src dst cs =
     (if rb_pays b src cs then Inr (rb_add dst cs (rb_add src (neg_coins cs) b))
      else Inl ''insufficient funds'')"

definition rb_mod :: "string \<Rightarrow> addr" where
  "rb_mod m = CHR ''@'' # m"

definition rb_mint :: "ref_bank \<Rightarrow> string \<Rightarrow> coins \<Rightarrow> string + ref_bank" where
  "rb_mint b m cs = Inr ((rb_add (rb_mod m) cs b)\<lparr>rb_sup := merge_coins (rb_sup b) cs\<rparr>)"

definition rb_burn :: "ref_bank \<Rightarrow> string \<Rightarrow> coins \<Rightarrow> string + ref_bank" where
  "rb_burn b m cs =
     (if rb_pays b (rb_mod m) cs
      then Inr ((rb_add (rb_mod m) (neg_coins cs) b)\<lparr>rb_sup := merge_coins (rb_sup b) (neg_coins cs)\<rparr>)
      else Inl ''insufficient funds'')"

definition ref_sdk :: "ref_bank sdk" where
  "ref_sdk =
     \<lparr>d_unit = 100, d_mul = (\<lambda>a b. a * b div 100), d_quo = (\<lambda>a b. a * 100 div b),
      d_round = (\<lambda>a n. a), d_str = (\<lambda>a. []), d_of_str = (\<lambda>s. Some (100 * int (length s))),
      c_add2 = merge_coins,
      c_safe_sub = (\<lambda>a b. let c = merge_coins a (neg_coins b) in (c, list_ex (\<lambda>c. snd c < 0) c)),
      c_sort = (\<lambda>a. a), c_str = (\<lambda>a. []), c_parse = (\<lambda>s. None),
      c_to_coins = (\<lambda>c. if snd c = 0 then [] else [c]), c_zero_fee = (''okt'', 0), c_coin_valid = (\<lambda>c. 0 \<le> snd c),
      c_valid = (\<lambda>cs. list_all (\<lambda>c. 0 < snd c) cs), c_all_positive = (\<lambda>cs. list_all (\<lambda>c. 0 < snd c) cs),
      b_coins = rb_get, b_supply = (\<lambda>b d. amt (rb_sup b) d), b_mod_addr = rb_mod,
      b_send = rb_move, b_acc_to_mod = (\<lambda>b a m cs. rb_move b a (rb_mod m) cs),
      b_mod_to_acc = (\<lambda>b m a cs. rb_move b (rb_mod m) a cs), b_mint = rb_mint, b_burn = rb_burn,
      b_blacklisted = (\<lambda>a. False), b_send_enabled = (\<lambda>b. True), b_code_hash = (\<lambda>b a. None),
      k_keccak_empty = [], s_mercury = (\<lambda>h. False), s_validate_denom = (\<lambda>d. d \<noteq> [])\<rparr>"

lemma amt_rb_get_add:
  "amt (rb_get (rb_add a cs b) a') d = amt (rb_get b a') d + (if a' = a then amt cs d else 0)"
  by (simp add: rb_get_def rb_add_def rb_put_def amt_merge_coins)

lemma rb_sup_add [simp]: "rb_sup (rb_add a cs b) = rb_sup b"
  by (simp add: rb_add_def rb_put_def)

lemma rb_get_sup [simp]: "rb_get (b\<lparr>rb_sup := x\<rparr>) = rb_get b"
  by (rule ext) (simp add: rb_get_def)

lemma ref_moves: "rb_move b src dst cs = Inr b' \<Longrightarrow> moves ref_sdk b src dst cs b'"
  by (auto simp: rb_move_def moves_def bank_bal_def ref_sdk_def amt_rb_get_add split: if_splits)

lemma ref_dec_laws: "dec_laws ref_sdk"
  by (auto simp: dec_laws_def ref_sdk_def mult.commute pos_imp_zdiv_nonneg_iff intro!: zdiv_mono1 mult_right_mono)

lemma ref_coins_laws: "coins_laws ref_sdk"
proof -
  have "coins_ok (merge_coins a (neg_coins b)) \<and>
    (list_ex (\<lambda>c. snd c < 0) (merge_coins a (neg_coins b)) \<longleftrightarrow> (\<exists>d. amt a d < amt b d))"
    if "coins_ok a" "coins_ok b" for a b
    using that some_negative [of "merge_coins a (neg_coins b)"]
    by (simp add: coins_ok_merge amt_merge_coins)
  then show ?thesis
    by (simp add: coins_laws_def ref_sdk_def Let_def coins_ok_merge amt_merge_coins)
qed

lemma ref_bank_laws: "bank_laws ref_sdk"
proof -
  have mint: "b' = (rb_add (rb_mod m) cs b)\<lparr>rb_sup := merge_coins (rb_sup b) cs\<rparr>"
    if "b_mint ref_sdk b m cs = Inr b'" for b m cs b'
    using that by (simp add: ref_sdk_def rb_mint_def)
  have burn: "b' = (rb_add (rb_mod m) (neg_coins cs) b)\<lparr>rb_sup := merge_coins (rb_sup b) (neg_coins cs)\<rparr>"
    if "b_burn ref_sdk b m cs = Inr b'" for b m cs b'
    using that by (simp add: ref_sdk_def rb_burn_def split: if_splits)
  have mv: "b_send ref_sdk b src dst cs = rb_move b src dst cs"
    "b_acc_to_mod ref_sdk b src m cs = rb_move b src (b_mod_addr ref_sdk m) cs"
    "b_mod_to_acc ref_sdk b m dst cs = rb_move b (b_mod_addr ref_sdk m) dst cs" for b src dst m cs
    by (simp_all add: ref_sdk_def)
  have proj: "bank_bal ref_sdk b a d = amt (rb_get b a) d" "b_supply ref_sdk b d = amt (rb_sup b) d"
    "b_mod_addr ref_sdk m = rb_mod m" for b a d m
    by (simp_all add: bank_bal_def ref_sdk_def)
  show ?thesis
    unfolding bank_laws_def mv using ref_moves
    by (auto simp: proj amt_rb_get_add amt_merge_coins dest!: mint burn)
qed

lemma ref_sdk_laws: "sdk_laws ref_sdk"
  by (simp add: sdk_laws_def ref_dec_laws ref_coins_laws ref_bank_laws)

end
