(* ===== verification/OrderTypes.thy ===== *)
theory OrderTypes
  imports Sdk
begin

text \<open>
  The data of the order module: \<open>x/order/types/order.go\<close>, \<open>const.go\<close>, \<open>product_lock.go\<close>,
  \<open>params.go\<close>, \<open>errors.go\<close>, and the life cycle of one order (\<open>NewOrder\<close>, \<open>Fill\<close>, \<open>Cancel\<close>, \<open>Expire\<close>,
  \<open>Unlock\<close>). The JSON object in \<open>ExtraInfo\<close> is the ordered store it encodes.
\<close>

definition BuyOrder :: string where "BuyOrder = ''BUY''"
definition SellOrder :: string where "SellOrder = ''SELL''"

lemma sides_differ [simp]: "BuyOrder \<noteq> SellOrder" "SellOrder \<noteq> BuyOrder"
  by (simp_all add: BuyOrder_def SellOrder_def)

datatype fee_type = FeeTypeOrderNew | FeeTypeOrderCancel | FeeTypeOrderExpire
  | FeeTypeOrderDeal | FeeTypeOrderReceive

datatype order_status = OrderStatusOpen | OrderStatusFilled | OrderStatusCancelled
  | OrderStatusExpired | OrderStatusPartialFilledCancelled | OrderStatusPartialFilledExpired

datatype order_error =
    ErrInvalidAddress string | ErrInvalidSizeParam nat | ErrTokenPairNotExist string
  | ErrSendCoinsFailed string string | ErrTradingPairIsDelisting string
  | ErrPriceOverAccuracy dec int | ErrQuantityOverAccuracy dec int
  | ErrMsgQuantityLessThan string | ErrOrderIsNotExist string
  | ErrCheckTokenPairUnderDexDelistFailed | ErrIsProductLocked string
  | ErrNoOrdersIsCanceled | ErrOrderStatusIsNotOpen | ErrOrderIsNotExistOrClosed string
  | ErrUnknownOrderQueryType | ErrOrderItemCountsBiggerThanLimit nat
  | ErrOrderItemCountsIsEmpty | ErrOrderItemProductCountsIsEmpty | ErrOrderItemProductFormat
  | ErrOrderItemProductSymbolIsEqual | ErrOrderItemSideIsNotBuyAndSell
  | ErrOrderItemPriceOrQuantityIsNotPositive | ErrOrderIDsIsEmpty
  | ErrCancelOrderBiggerThanLimit nat | ErrOrderIDsHasDuplicatedID
  | ErrUserInputOrderIDIsEmpty | ErrNotOrderOwner string | ErrAllOrderFailedToExecute
  | ErrToken string

record order =
  o_TxHash :: string
  o_OrderID :: string
  o_Sender :: addr
  o_Product :: string
  o_Side :: string
  o_Price :: dec
  o_Quantity :: dec
  o_Status :: order_status
  o_FilledAvgPrice :: dec
  o_RemainQuantity :: dec
  o_RemainLocked :: dec
  o_Timestamp :: int
  o_OrderExpireBlocks :: int
  o_FeePerBlock :: coin
  o_ExtraInfo :: "(string, string) kv"

record order_params =
  p_OrderExpireBlocks :: int
  p_MaxDealsPerBlock :: int
  p_FeePerBlock :: coin
  p_TradeFeeRate :: dec
  p_NewOrderMsgGasUnit :: nat
  p_CancelOrderMsgGasUnit :: nat

record product_lock =
  l_BlockHeight :: int
  l_Price :: dec
  l_Quantity :: dec
  l_BuyExecuted :: dec
  l_SellExecuted :: dec

text \<open>The codec stores the nil \<open>FilledAvgPrice\<close> of a new order as zero.\<close>

definition NewOrder :: "'b sdk \<Rightarrow> string \<Rightarrow> addr \<Rightarrow> string \<Rightarrow> string \<Rightarrow> dec \<Rightarrow> dec \<Rightarrow> int \<Rightarrow> int \<Rightarrow> coin \<Rightarrow> order" where
  "NewOrder S txHash sender product side price quantity timestamp expireBlocks feePerBlock =
     \<lparr>o_TxHash = txHash, o_OrderID = [], o_Sender = sender, o_Product = product, o_Side = side,
      o_Price = price, o_Quantity = quantity, o_Status = OrderStatusOpen, o_FilledAvgPrice = 0,
      o_RemainQuantity = quantity,
      o_RemainLocked = (if side = BuyOrder then d_mul S price quantity else quantity),
      o_Timestamp = timestamp, o_OrderExpireBlocks = expireBlocks, o_FeePerBlock = feePerBlock,
      o_ExtraInfo = []\<rparr>"

subsection \<open>Extra info\<close>

definition setExtraInfoWithKeyValue :: "string \<Rightarrow> string \<Rightarrow> order \<Rightarrow> order" where
  "setExtraInfoWithKeyValue key val ord = ord\<lparr>o_ExtraInfo := kv_set key val (o_ExtraInfo ord)\<rparr>"

definition GetExtraInfoWithKey :: "order \<Rightarrow> string \<Rightarrow> string" where
  "GetExtraInfoWithKey ord key = (case map_of (o_ExtraInfo ord) key of Some v \<Rightarrow> v | None \<Rightarrow> [])"

definition RecordOrderNewFee :: "'b sdk \<Rightarrow> coins \<Rightarrow> order \<Rightarrow> order" where
  "RecordOrderNewFee S fee = setExtraInfoWithKeyValue ''newFee'' (c_str S fee)"

definition RecordOrderReceiveFee :: "'b sdk \<Rightarrow> coins \<Rightarrow> order \<Rightarrow> order" where
  "RecordOrderReceiveFee S fee = setExtraInfoWithKeyValue ''receiveFee'' (c_str S fee)"

definition RecordOrderDealFee :: "'b sdk \<Rightarrow> coins \<Rightarrow> order \<Rightarrow> order" where
  "RecordOrderDealFee S fee ord =
     (let oldValue = GetExtraInfoWithKey ord ''dealFee''
      in if oldValue = [] then setExtraInfoWithKeyValue ''dealFee'' (c_str S fee) ord
         else (case c_parse S oldValue of
                 None \<Rightarrow> ord
               | Some oldFee \<Rightarrow>
                   setExtraInfoWithKeyValue ''dealFee'' (c_str S (c_add2 S oldFee fee)) ord))"

subsection \<open>Life cycle\<close>

text \<open>\<open>Fill\<close> divides by the filled quantity; \<open>None\<close> is the panic of a zero divisor.\<close>

definition Fill :: "'b sdk \<Rightarrow> dec \<Rightarrow> dec \<Rightarrow> order \<Rightarrow> order option" where
  "Fill S price fillAmount ord =
     (let filledSum = d_mul S (o_FilledAvgPrice ord) (o_Quantity ord - o_RemainQuantity ord);
          newFilledSum = filledSum + d_mul S price fillAmount;
          remain = o_RemainQuantity ord - fillAmount;
          filled = o_Quantity ord - remain
      in if filled = 0 then None
         else Some (ord\<lparr>
           o_RemainQuantity := remain,
           o_FilledAvgPrice := d_quo S newFilledSum filled,
           o_RemainLocked := (if o_Side ord = BuyOrder
              then o_RemainLocked ord - d_mul S price fillAmount
              else o_RemainLocked ord - fillAmount),
           o_Status := (if remain = 0 then OrderStatusFilled else o_Status ord)\<rparr>))"

definition Cancel :: "order \<Rightarrow> order" where
  "Cancel ord = ord\<lparr>o_Status :=
     (if o_RemainQuantity ord = o_Quantity ord then OrderStatusCancelled
      else OrderStatusPartialFilledCancelled)\<rparr>"

definition Expire :: "order \<Rightarrow> order" where
  "Expire ord = ord\<lparr>o_Status :=
     (if o_RemainQuantity ord = o_Quantity ord then OrderStatusExpired
      else OrderStatusPartialFilledExpired)\<rparr>"

definition Unlock :: "order \<Rightarrow> order" where
  "Unlock ord = ord\<lparr>o_RemainLocked := 0\<rparr>"

subsection \<open>Products\<close>

text \<open>\<open>strings.Split(product, \"_\")\<close>.\<close>

fun split_on :: "char \<Rightarrow> string \<Rightarrow> string list" where
  "split_on c [] = [[]]"
| "split_on c (x # xs) =
     (if x = c then [] # split_on c xs
      else (case split_on c xs of [] \<Rightarrow> [[x]] | y # ys \<Rightarrow> (x # y) # ys))"

definition symbols :: "string \<Rightarrow> string list" where
  "symbols product = split_on CHR ''_'' product"

lemma split_on_nonempty [simp]: "split_on c xs \<noteq> []"
  by (induction xs) (auto split: list.splits)

lemma split_on_join:
  "c \<notin> set xs \<Longrightarrow> split_on c (xs @ c # ys) = xs # split_on c ys"
  by (induction xs) auto

lemma split_on_none: "c \<notin> set xs \<Longrightarrow> split_on c xs = [xs]"
  by (induction xs) auto

text \<open>
  \<open>NeedLockCoins\<close> and \<open>NeedUnlockCoins\<close>; \<open>symbols[1]\<close> panics (\<open>None\<close>) when the product
  has no separator.
\<close>

definition NeedLockCoins :: "'b sdk \<Rightarrow> order \<Rightarrow> coins option" where
  "NeedLockCoins S ord =
     (if o_Side ord = BuyOrder
      then map_option (\<lambda>token. [(token, d_mul S (o_Price ord) (o_Quantity ord))])
             (slice_get (symbols (o_Product ord)) 1)
      else map_option (\<lambda>token. [(token, o_Quantity ord)]) (slice_get (symbols (o_Product ord)) 0))"

definition NeedUnlockCoins :: "order \<Rightarrow> coins option" where
  "NeedUnlockCoins ord =
     map_option (\<lambda>token. [(token, o_RemainLocked ord)])
       (slice_get (symbols (o_Product ord)) (if o_Side ord = BuyOrder then 1 else 0))"

end
