(* ===== verification/DepthBook.thy ===== *)
theory DepthBook
  imports OrderTypes
begin

text \<open>
  The depth book of a product (\<open>x/order/types/depth_book.go\<close>): price levels with their
  buy and sell quantities, highest price first. \<open>book_ok\<close> is the invariant, \<open>level\<close> the
  abstraction to a function from prices to quantities, against which every operation is
  specified.
\<close>

record deal =
  deal_OrderID :: string
  deal_Side :: string
  deal_Quantity :: dec
  deal_Fee :: string
  deal_FeeReceiver :: string

record match_result =
  m_BlockHeight :: int
  m_Price :: dec
  m_Quantity :: dec
  m_Deals :: "deal list"

record book_item =
  i_Price :: dec
  i_BuyQuantity :: dec
  i_SellQuantity :: dec

type_synonym depth_book = "book_item list"

subsection \<open>Operations\<close>

definition InsertOrder :: "order \<Rightarrow> depth_book \<Rightarrow> depth_book" where
  "InsertOrder ord items =
     (let bookLength = length items;
          newItem = \<lparr>i_Price = o_Price ord,
                     i_BuyQuantity = (if o_Side ord = BuyOrder then o_RemainQuantity ord else 0),
                     i_SellQuantity = (if o_Side ord = BuyOrder then 0 else o_RemainQuantity ord)\<rparr>
      in if bookLength = 0 \<or> o_Price ord < i_Price (items ! (bookLength - 1))
         then items @ [newItem]
         else
           (let index = sort_search bookLength (\<lambda>i. i_Price (items ! i) \<le> o_Price ord)
            in if o_Price ord = i_Price (items ! index)
               then (if o_Side ord = BuyOrder
                     then items[index := (items ! index)\<lparr>i_BuyQuantity :=
                            i_BuyQuantity (items ! index) + o_RemainQuantity ord\<rparr>]
                     else items[index := (items ! index)\<lparr>i_SellQuantity :=
                            i_SellQuantity (items ! index) + o_RemainQuantity ord\<rparr>])
               else take index items @ newItem # drop index items))"

text \<open>\<open>Sub\<close> and \<open>RemoveIfEmpty\<close> index the slice: \<open>None\<close> is the panic out of range.\<close>

definition Sub :: "nat \<Rightarrow> dec \<Rightarrow> string \<Rightarrow> depth_book \<Rightarrow> depth_book option" where
  "Sub index num side items =
     (if side = BuyOrder then
        (if index < length items
         then Some (items[index := (items ! index)\<lparr>i_BuyQuantity := i_BuyQuantity (items ! index) - num\<rparr>])
         else None)
      else if side = SellOrder then
        (if index < length items
         then Some (items[index := (items ! index)\<lparr>i_SellQuantity := i_SellQuantity (items ! index) - num\<rparr>])
         else None)
      else Some items)"

definition RemoveIfEmpty :: "nat \<Rightarrow> depth_book \<Rightarrow> (depth_book \<times> bool) option" where
  "RemoveIfEmpty index items =
     (if index < length items then
        (let res = i_BuyQuantity (items ! index) = 0 \<and> i_SellQuantity (items ! index) = 0
         in Some (if res then remove_nth index items else items, res))
      else None)"

definition RemoveOrder :: "order \<Rightarrow> depth_book \<Rightarrow> depth_book" where
  "RemoveOrder ord items =
     (let index = sort_search (length items) (\<lambda>i. i_Price (items ! i) \<le> o_Price ord)
      in if index < length items \<and> i_Price (items ! index) = o_Price ord
         then (let items' =
                 (if o_Side ord = BuyOrder
                  then items[index := (items ! index)\<lparr>i_BuyQuantity :=
                         i_BuyQuantity (items ! index) - o_RemainQuantity ord\<rparr>]
                  else if o_Side ord = SellOrder
                  then items[index := (items ! index)\<lparr>i_SellQuantity :=
                         i_SellQuantity (items ! index) - o_RemainQuantity ord\<rparr>]
                  else items)
               in (case RemoveIfEmpty index items' of Some (items'', _) \<Rightarrow> items'' | None \<Rightarrow> items'))
         else items)"

subsection \<open>Invariant and abstraction\<close>

definition book_ok :: "depth_book \<Rightarrow> bool" where
  "book_ok items \<longleftrightarrow>
     sorted_wrt (\<lambda>x y. i_Price y < i_Price x) items
     \<and> (\<forall>x\<in>set items. 0 \<le> i_BuyQuantity x \<and> 0 \<le> i_SellQuantity x
          \<and> (0 < i_BuyQuantity x \<or> 0 < i_SellQuantity x))"

definition level :: "depth_book \<Rightarrow> dec \<Rightarrow> dec \<times> dec" where
  "level items p =
     (case find (\<lambda>x. i_Price x = p) items of
        Some x \<Rightarrow> (i_BuyQuantity x, i_SellQuantity x)
      | None \<Rightarrow> (0, 0))"

lemma book_ok_Nil [simp]: "book_ok []"
  by (simp add: book_ok_def)

abbreviation desc :: "depth_book \<Rightarrow> bool" where
  "desc items \<equiv> sorted_wrt (\<lambda>x y. i_Price y < i_Price x) items"

lemma book_ok_desc: "book_ok items \<Longrightarrow> desc items"
  by (simp add: book_ok_def)

lemma desc_mono: "desc items \<Longrightarrow> k \<le> l \<Longrightarrow> l < length items \<Longrightarrow> i_Price (items ! l) \<le> i_Price (items ! k)"
  using sorted_wrt_nth_less [of "\<lambda>x y. i_Price y < i_Price x" items k l]
  by (cases "k = l") auto

text \<open>
  The reference operations are structural: \<open>add_level\<close> and \<open>sub_level\<close> walk the levels from
  the highest price. The binary searches of the code agree with them on a sorted book.
\<close>

fun add_level :: "dec \<Rightarrow> dec \<Rightarrow> dec \<Rightarrow> depth_book \<Rightarrow> depth_book" where
  "add_level p b s [] = [\<lparr>i_Price = p, i_BuyQuantity = b, i_SellQuantity = s\<rparr>]"
| "add_level p b s (x # xs) =
     (if i_Price x < p then \<lparr>i_Price = p, i_BuyQuantity = b, i_SellQuantity = s\<rparr> # x # xs
      else if i_Price x = p
      then x\<lparr>i_BuyQuantity := i_BuyQuantity x + b, i_SellQuantity := i_SellQuantity x + s\<rparr> # xs
      else x # add_level p b s xs)"

fun sub_level :: "dec \<Rightarrow> dec \<Rightarrow> dec \<Rightarrow> depth_book \<Rightarrow> depth_book" where
  "sub_level p b s [] = []"
| "sub_level p b s (x # xs) =
     (if i_Price x = p
      then (if i_BuyQuantity x = b \<and> i_SellQuantity x = s then xs
            else x\<lparr>i_BuyQuantity := i_BuyQuantity x - b, i_SellQuantity := i_SellQuantity x - s\<rparr> # xs)
      else x # sub_level p b s xs)"

lemma search_takeWhile:
  assumes "desc items"
  shows "sort_search (length items) (\<lambda>i. i_Price (items ! i) \<le> p)
    = length (takeWhile (\<lambda>x. p < i_Price x) items)"
proof (rule sort_search_unique)
  show "i_Price (items ! l) \<le> p"
    if "k \<le> l" "l < length items" "i_Price (items ! k) \<le> p" for k l
    using desc_mono [OF assms that(1,2)] that(3) by simp
  show "length (takeWhile (\<lambda>x. p < i_Price x) items) \<le> length items"
    by (rule length_takeWhile_le)
  show "\<not> i_Price (items ! k) \<le> p" if "k < length (takeWhile (\<lambda>x. p < i_Price x) items)" for k
    using that by (metis linorder_not_less nth_mem set_takeWhileD takeWhile_nth)
  show "i_Price (items ! length (takeWhile (\<lambda>x. p < i_Price x) items)) \<le> p"
    if "length (takeWhile (\<lambda>x. p < i_Price x) items) < length items"
    using nth_length_takeWhile [OF that] by simp
qed

lemma desc_hd_le: "desc lo \<Longrightarrow> (lo \<noteq> [] \<Longrightarrow> i_Price (hd lo) \<le> p) \<Longrightarrow> \<forall>x\<in>set lo. i_Price x \<le> p"
  by (cases lo) force+

lemma book_split:
  assumes "desc items"
  obtains hi lo where "items = hi @ lo" and "\<forall>x\<in>set hi. p < i_Price x"
    and "lo \<noteq> [] \<Longrightarrow> i_Price (hd lo) \<le> p" and "\<forall>x\<in>set lo. i_Price x \<le> p"
    and "sort_search (length items) (\<lambda>i. i_Price (items ! i) \<le> p) = length hi"
proof
  let ?hi = "takeWhile (\<lambda>x. p < i_Price x) items" and ?lo = "dropWhile (\<lambda>x. p < i_Price x) items"
  show "items = ?hi @ ?lo" by simp
  show hi: "\<forall>x\<in>set ?hi. p < i_Price x" by (auto dest: set_takeWhileD)
  show hd: "i_Price (hd ?lo) \<le> p" if "?lo \<noteq> []" using hd_dropWhile [OF that] by simp
  have "desc ?lo" using assms by (metis sorted_wrt_append takeWhile_dropWhile_id)
  then show "\<forall>x\<in>set ?lo. i_Price x \<le> p"
    using hd by (rule desc_hd_le)
  show "sort_search (length items) (\<lambda>i. i_Price (items ! i) \<le> p) = length ?hi"
    by (rule search_takeWhile [OF assms])
qed

lemma add_level_append: "\<forall>x\<in>set hi. p < i_Price x \<Longrightarrow> add_level p b s (hi @ lo) = hi @ add_level p b s lo"
  by (induction hi) auto

lemma sub_level_append: "\<forall>x\<in>set hi. p < i_Price x \<Longrightarrow> sub_level p b s (hi @ lo) = hi @ sub_level p b s lo"
  by (induction hi) auto

lemma sub_level_absent: "\<forall>x\<in>set lo. i_Price x \<noteq> p \<Longrightarrow> sub_level p b s lo = lo"
  by (induction lo) auto

definition side_qty :: "string \<Rightarrow> dec \<Rightarrow> dec \<times> dec" where
  "side_qty side q = (if side = BuyOrder then (q, 0) else (0, q))"

lemma InsertOrder_add_level:
  assumes "desc items" and "side_qty (o_Side ord) (o_RemainQuantity ord) = (b, s)"
  shows "InsertOrder ord items = add_level (o_Price ord) b s items"
proof -
  let ?p = "o_Price ord"
  obtain hi lo where split: "items = hi @ lo" "\<forall>x\<in>set hi. ?p < i_Price x"
    "lo \<noteq> [] \<Longrightarrow> i_Price (hd lo) \<le> ?p" "\<forall>x\<in>set lo. i_Price x \<le> ?p"
    "sort_search (length items) (\<lambda>i. i_Price (items ! i) \<le> ?p) = length hi"
    using book_split [OF assms(1), of ?p] by metis
  show ?thesis
  proof (cases lo)
    case Nil
    then have "items = [] \<or> ?p < i_Price (items ! (length items - 1))"
      using split(1,2) by (cases "items = []") (simp_all add: last_conv_nth [symmetric])
    with Nil split(1,2) assms(2) show ?thesis
      by (auto simp: InsertOrder_def Let_def side_qty_def add_level_append [where lo = "[]", simplified]
          split: if_splits)
  next
    case (Cons y ys)
    have "items ! (length items - 1) = last lo"
      using split(1) Cons last_conv_nth [of items] by simp
    then have "items ! (length items - 1) \<in> set lo"
      using Cons by simp
    then have "\<not> ?p < i_Price (items ! (length items - 1))"
      using split(4) by force
    moreover have "items ! length hi = y" "take (length hi) items = hi" "drop (length hi) items = lo"
      using split(1) Cons by simp_all
    ultimately show ?thesis
      using Cons split assms(2)
      by (auto simp: InsertOrder_def Let_def side_qty_def add_level_append list_update_append
          split: if_splits)
  qed
qed

lemma RemoveOrder_sub_level:
  assumes "desc items" and "o_Side ord = BuyOrder \<or> o_Side ord = SellOrder"
    and "side_qty (o_Side ord) (o_RemainQuantity ord) = (b, s)"
  shows "RemoveOrder ord items = sub_level (o_Price ord) b s items"
proof -
  let ?p = "o_Price ord"
  obtain hi lo where split: "items = hi @ lo" "\<forall>x\<in>set hi. ?p < i_Price x"
    "lo \<noteq> [] \<Longrightarrow> i_Price (hd lo) \<le> ?p" "\<forall>x\<in>set lo. i_Price x \<le> ?p"
    "sort_search (length items) (\<lambda>i. i_Price (items ! i) \<le> ?p) = length hi"
    using book_split [OF assms(1), of ?p] by metis
  show ?thesis
  proof (cases lo)
    case Nil
    with split show ?thesis
      by (simp add: RemoveOrder_def Let_def sub_level_append [where lo = "[]", simplified])
  next
    case (Cons y ys)
    have ys: "\<forall>x\<in>set ys. i_Price x \<noteq> ?p"
      using assms(1) split(1,3) Cons by (auto simp: sorted_wrt_append)
    have y: "items ! length hi = y" using split(1) Cons by simp
    show ?thesis
    proof (cases "i_Price y = ?p")
      case False
      with split Cons y ys show ?thesis
        by (simp add: RemoveOrder_def Let_def sub_level_append sub_level_absent)
    next
      case True
      with split Cons y ys assms(2,3) show ?thesis
        by (auto simp: RemoveOrder_def RemoveIfEmpty_def Let_def sub_level_append side_qty_def
            list_update_append split: if_splits)
    qed
  qed
qed

subsection \<open>Levels and the invariant\<close>

lemma level_Nil [simp]: "level [] p = (0, 0)"
  by (simp add: level_def)

lemma level_Cons [simp]:
  "level (x # xs) p = (if i_Price x = p then (i_BuyQuantity x, i_SellQuantity x) else level xs p)"
  by (simp add: level_def)

lemma level_absent: "p \<notin> i_Price ` set items \<Longrightarrow> level items p = (0, 0)"
  by (induction items) auto

lemma prices_add_level: "i_Price ` set (add_level p b s items) = insert p (i_Price ` set items)"
  by (induction items) auto

lemma prices_sub_level: "i_Price ` set (sub_level p b s items) \<subseteq> i_Price ` set items"
  by (induction items) auto

lemma desc_Cons_prices: "desc (x # xs) \<longleftrightarrow> (\<forall>q\<in>i_Price ` set xs. q < i_Price x) \<and> desc xs"
  by auto

lemma desc_add_level: "desc items \<Longrightarrow> desc (add_level p b s items)"
proof (induction items)
  case Nil
  then show ?case by simp
next
  case (Cons x xs)
  show ?case
  proof (cases "i_Price x \<le> p")
    case True
    with Cons.prems show ?thesis by (cases "i_Price x = p") fastforce+
  next
    case False
    with Cons have "\<forall>q\<in>i_Price ` set (add_level p b s xs). q < i_Price x"
      by (simp add: prices_add_level)
    with Cons False show ?thesis by (simp add: desc_Cons_prices)
  qed
qed

lemma desc_sub_level: "desc items \<Longrightarrow> desc (sub_level p b s items)"
proof (induction items)
  case (Cons x xs)
  then have "\<forall>q\<in>i_Price ` set (sub_level p b s xs). q < i_Price x"
    using prices_sub_level [of p b s xs] by force
  with Cons show ?case by (auto simp: desc_Cons_prices)
qed simp

lemma level_add_level:
  "desc items \<Longrightarrow> level (add_level p b s items) q =
     (if q = p then (fst (level items p) + b, snd (level items p) + s) else level items q)"
proof (induction items)
  case (Cons x xs)
  have "level xs p = (0, 0)" if "i_Price x < p"
    using Cons.prems that by (intro level_absent) auto
  with Cons show ?case by auto
qed simp

lemma level_sub_level:
  "desc items \<Longrightarrow> p \<in> i_Price ` set items \<Longrightarrow> level (sub_level p b s items) q =
     (if q = p then (fst (level items p) - b, snd (level items p) - s) else level items q)"
proof (induction items)
  case (Cons x xs)
  have "level xs p = (0, 0)" if "i_Price x = p"
    using Cons.prems that by (intro level_absent) auto
  with Cons show ?case by auto
qed simp

lemma book_ok_Cons:
  "book_ok (x # xs) \<longleftrightarrow> (\<forall>q\<in>i_Price ` set xs. q < i_Price x) \<and> book_ok xs
     \<and> 0 \<le> i_BuyQuantity x \<and> 0 \<le> i_SellQuantity x \<and> (0 < i_BuyQuantity x \<or> 0 < i_SellQuantity x)"
  by (auto simp: book_ok_def)

lemma book_ok_add_level:
  "book_ok items \<Longrightarrow> 0 \<le> b \<Longrightarrow> 0 \<le> s \<Longrightarrow> 0 < b \<or> 0 < s \<Longrightarrow> book_ok (add_level p b s items)"
proof (induction items)
  case (Cons x xs)
  then show ?case
    by (cases "i_Price x < p"; cases "i_Price x = p") (force simp: book_ok_Cons prices_add_level)+
qed (simp add: book_ok_Cons)

lemma book_ok_sub_level:
  "book_ok items \<Longrightarrow> b \<le> fst (level items p) \<Longrightarrow> s \<le> snd (level items p)
     \<Longrightarrow> book_ok (sub_level p b s items)"
proof (induction items)
  case (Cons x xs)
  then show ?case
    using prices_sub_level [of p b s xs] by (cases "i_Price x = p") (auto simp: book_ok_Cons)
qed simp

lemma level_nonneg: "book_ok items \<Longrightarrow> 0 \<le> fst (level items p) \<and> 0 \<le> snd (level items p)"
  by (induction items) (auto simp: book_ok_Cons)

lemma sub_add_level:
  "book_ok items \<Longrightarrow> 0 \<le> b \<Longrightarrow> 0 \<le> s \<Longrightarrow> 0 < b \<or> 0 < s
     \<Longrightarrow> sub_level p b s (add_level p b s items) = items"
  by (induction items) (auto simp: book_ok_Cons)

text \<open>The quantity a book holds for a price and side.\<close>

definition book_qty :: "depth_book \<Rightarrow> dec \<times> string \<Rightarrow> dec" where
  "book_qty items k =
     (if snd k = BuyOrder then fst (level items (fst k))
      else if snd k = SellOrder then snd (level items (fst k)) else 0)"

definition order_key :: "order \<Rightarrow> dec \<times> string" where
  "order_key ord = (o_Price ord, o_Side ord)"

definition order_live :: "order \<Rightarrow> bool" where
  "order_live ord \<longleftrightarrow> (o_Side ord = BuyOrder \<or> o_Side ord = SellOrder) \<and> 0 < o_RemainQuantity ord"

subsection \<open>The book as a ledger of quantities\<close>

text \<open>
  What the order cache relies on: insertion adds the quantity of an order at its key,
  removal takes it off again, and both keep the book well formed. The client lemma sums
  over a sequence of insertions.
\<close>

locale quantity_ledger =
  fixes ins rem :: "'o \<Rightarrow> 'l \<Rightarrow> 'l"
    and qty :: "'l \<Rightarrow> 'k \<Rightarrow> int"
    and key :: "'o \<Rightarrow> 'k"
    and amount :: "'o \<Rightarrow> int"
    and ok :: "'l \<Rightarrow> bool"
    and live :: "'o \<Rightarrow> bool"
  assumes amount_pos: "live x \<Longrightarrow> 0 < amount x"
    and qty_nonneg: "ok l \<Longrightarrow> 0 \<le> qty l k"
    and qty_ins: "ok l \<Longrightarrow> live x \<Longrightarrow> qty (ins x l) k = qty l k + (if k = key x then amount x else 0)"
    and ok_ins: "ok l \<Longrightarrow> live x \<Longrightarrow> ok (ins x l)"
    and qty_rem: "ok l \<Longrightarrow> live x \<Longrightarrow> amount x \<le> qty l (key x) \<Longrightarrow>
       qty (rem x l) k = qty l k - (if k = key x then amount x else 0)"
    and ok_rem: "ok l \<Longrightarrow> live x \<Longrightarrow> amount x \<le> qty l (key x) \<Longrightarrow> ok (rem x l)"
    and rem_ins: "ok l \<Longrightarrow> live x \<Longrightarrow> rem x (ins x l) = l"
begin

lemma ok_fold_ins: "ok l \<Longrightarrow> \<forall>x\<in>set xs. live x \<Longrightarrow> ok (fold ins xs l)"
  by (induction xs arbitrary: l) (auto simp: ok_ins)

lemma qty_fold_ins:
  "ok l \<Longrightarrow> \<forall>x\<in>set xs. live x \<Longrightarrow>
     qty (fold ins xs l) k = qty l k + sum_list (map amount (filter (\<lambda>x. key x = k) xs))"
  by (induction xs arbitrary: l) (auto simp: qty_ins ok_ins)

lemma rem_after_ins_other:
  assumes "ok l" and "live x" and "live y" and "amount x \<le> qty l (key x)"
  shows "qty (rem x (ins y l)) k = qty (ins y (rem x l)) k"
proof -
  have "amount x \<le> qty (ins y l) (key x)"
    using assms amount_pos [of y] by (auto simp: qty_ins)
  with assms show ?thesis by (simp add: qty_ins qty_rem ok_ins ok_rem)
qed

end

lemma side_qty_sum:
  "order_live ord \<Longrightarrow> side_qty (o_Side ord) (o_RemainQuantity ord) = (b, s) \<Longrightarrow>
     0 \<le> b \<and> 0 \<le> s \<and> (0 < b \<or> 0 < s)"
  by (auto simp: order_live_def side_qty_def split: if_splits)

lemma book_qty_pos_price:
  "book_ok items \<Longrightarrow> 0 < book_qty items (p, side) \<Longrightarrow> p \<in> i_Price ` set items"
  by (rule ccontr) (auto simp: book_qty_def level_absent split: if_splits)

interpretation book: quantity_ledger InsertOrder RemoveOrder book_qty order_key o_RemainQuantity book_ok order_live
proof unfold_locales
  fix l :: depth_book and x :: order and k :: "dec \<times> string"
  show "order_live x \<Longrightarrow> 0 < o_RemainQuantity x" by (simp add: order_live_def)
  assume ok: "book_ok l"
  show "0 \<le> book_qty l k" using level_nonneg [OF ok] by (simp add: book_qty_def)
  assume live: "order_live x"
  obtain b s where bs: "side_qty (o_Side x) (o_RemainQuantity x) = (b, s)" by force
  have pos: "0 \<le> b \<and> 0 \<le> s \<and> (0 < b \<or> 0 < s)" by (rule side_qty_sum [OF live bs])
  have ins: "InsertOrder x l = add_level (o_Price x) b s l"
    by (rule InsertOrder_add_level [OF book_ok_desc [OF ok] bs])
  show "book_qty (InsertOrder x l) k = book_qty l k + (if k = order_key x then o_RemainQuantity x else 0)"
    using live bs by (cases k) (auto simp: ins level_add_level [OF book_ok_desc [OF ok]] book_qty_def
        order_key_def side_qty_def order_live_def split: if_splits)
  show ok': "book_ok (InsertOrder x l)" using ok pos by (simp add: ins book_ok_add_level)
  show "RemoveOrder x (InsertOrder x l) = l"
    using RemoveOrder_sub_level [OF book_ok_desc [OF ok'] _ bs] live ok pos
    by (simp add: order_live_def ins sub_add_level)
  assume le: "o_RemainQuantity x \<le> book_qty l (order_key x)"
  have mem: "o_Price x \<in> i_Price ` set l"
    using book_qty_pos_price [OF ok, of "o_Price x" "o_Side x"] le live
    by (simp add: order_key_def order_live_def)
  have rem: "RemoveOrder x l = sub_level (o_Price x) b s l"
    using RemoveOrder_sub_level [OF book_ok_desc [OF ok] _ bs] live by (simp add: order_live_def)
  show "book_qty (RemoveOrder x l) k = book_qty l k - (if k = order_key x then o_RemainQuantity x else 0)"
    using live bs by (cases k) (auto simp: rem level_sub_level [OF book_ok_desc [OF ok] mem] book_qty_def
        order_key_def side_qty_def order_live_def split: if_splits)
  show "book_ok (RemoveOrder x l)"
    unfolding rem using ok le live bs level_nonneg [OF ok, of "o_Price x"]
    by (intro book_ok_sub_level)
      (auto simp: book_qty_def order_key_def side_qty_def order_live_def split: if_splits)
qed

subsection \<open>Properties\<close>

text \<open>
  C24. The depth book implements a map from prices to buy and sell quantities: on a well-formed book the
  insertion and the removal by binary search are the reference walks over the levels, an insertion adds the remaining
  quantity of the order at its price and side and changes no other level, the book stays strictly sorted
  without empty levels, and removing the order again gives the very same book.
\<close>

theorem depth_book_refines:
  assumes "book_ok items" and "order_live x" and "side_qty (o_Side x) (o_RemainQuantity x) = (b, s)"
  shows "InsertOrder x items = add_level (o_Price x) b s items
     \<and> RemoveOrder x items = sub_level (o_Price x) b s items
     \<and> book_ok (InsertOrder x items)
     \<and> (\<forall>p. level (InsertOrder x items) p =
          (if p = o_Price x then (fst (level items p) + b, snd (level items p) + s) else level items p))
     \<and> RemoveOrder x (InsertOrder x items) = items"
  using InsertOrder_add_level [OF book_ok_desc [OF assms(1)] assms(3)]
    RemoveOrder_sub_level [OF book_ok_desc [OF assms(1)] _ assms(3)] assms(2)
    book.ok_ins [OF assms(1,2)] book.rem_ins [OF assms(1,2)]
  by (simp add: order_live_def level_add_level [OF book_ok_desc [OF assms(1)]])

theorem depth_book_refines_witness:
  "\<exists>x. o_Price x = 7 \<and> RemoveOrder x (InsertOrder x [\<lparr>i_Price = 9, i_BuyQuantity = 0, i_SellQuantity = 2\<rparr>]) =
     [\<lparr>i_Price = 9, i_BuyQuantity = 0, i_SellQuantity = 2\<rparr>]"
proof -
  define x where "x = (NewOrder (undefined::unit sdk) [] [] [] BuyOrder 7 5 0 0 ([], 0))\<lparr>o_RemainLocked := 0\<rparr>"
  have x: "order_live x" "side_qty (o_Side x) (o_RemainQuantity x) = (5, 0)" "o_Price x = 7"
    by (simp_all add: x_def NewOrder_def order_live_def side_qty_def)
  have "book_ok [\<lparr>i_Price = 9, i_BuyQuantity = 0, i_SellQuantity = 2\<rparr>]" by (simp add: book_ok_def)
  from depth_book_refines [OF this x(1,2)] x(3) show ?thesis by blast
qed

end
