(* ===== verification/OrderId.thy ===== *)
theory OrderId
  imports OrderTypes "HOL-Library.Sublist"
begin

text \<open>
  Order identifiers (\<open>FormatOrderID\<close>, \<open>FormatOrderIDPrefix\<close>, \<open>GetBlockHeightFromOrderID\<close> of
  \<open>x/order/types/order.go\<close>). Decimal printing is Go's \<open>%d\<close> and \<open>%010d\<close>; the scanner is
  \<open>fmt.Sscanf\<close> with the format \<open>ID%d-%d\<close>, without the blanks and digit separators that the
  printer never emits. Reading an identifier back gives the height it was made from, so the prefix
  iterator of the expiry code visits exactly the orders of one block.
\<close>

subsection \<open>Decimal numbers\<close>

definition digit_char :: "nat \<Rightarrow> char" where
  "digit_char d = char_of (48 + d)"

definition is_digit :: "char \<Rightarrow> bool" where
  "is_digit c \<longleftrightarrow> 48 \<le> (of_char c :: nat) \<and> (of_char c :: nat) \<le> 57"

definition digit_val :: "char \<Rightarrow> nat" where
  "digit_val c = of_char c - 48"

fun digits :: "nat \<Rightarrow> string" where
  "digits n = (if n < 10 then [digit_char n] else digits (n div 10) @ [digit_char (n mod 10)])"

declare digits.simps [simp del]

definition value_of :: "string \<Rightarrow> nat" where
  "value_of ds = foldl (\<lambda>v c. 10 * v + digit_val c) 0 ds"

definition fmt_d :: "int \<Rightarrow> string" where
  "fmt_d i = (if i < 0 then CHR ''-'' # digits (nat (- i)) else digits (nat i))"

definition fmt_010d :: "int \<Rightarrow> string" where
  "fmt_010d i =
     (let ds = digits (nat \<bar>i\<bar>)
      in if i < 0 then CHR ''-'' # replicate (9 - length ds) (CHR ''0'') @ ds
         else replicate (10 - length ds) (CHR ''0'') @ ds)"

subsection \<open>Identifiers\<close>

definition FormatOrderIDPrefix :: "int \<Rightarrow> string" where
  "FormatOrderIDPrefix blockHeight =
     ''ID'' @ (if blockHeight > 9999999999 then fmt_d blockHeight else fmt_010d blockHeight) @ ''-''"

definition FormatOrderID :: "int \<Rightarrow> int \<Rightarrow> string" where
  "FormatOrderID blockHeight orderNum =
     (if blockHeight > 9999999999 then ''ID'' @ fmt_d blockHeight @ ''-'' @ fmt_d orderNum
      else ''ID'' @ fmt_010d blockHeight @ ''-'' @ fmt_d orderNum)"

definition scan_d :: "string \<Rightarrow> (int \<times> string) option" where
  "scan_d s =
     (let (neg, s') = (case s of [] \<Rightarrow> (False, [])
                       | c # cs \<Rightarrow> if c = CHR ''-'' then (True, cs)
                                  else if c = CHR ''+'' then (False, cs) else (False, c # cs));
          ds = takeWhile is_digit s'
      in if ds = [] then None
         else Some (if neg then - int (value_of ds) else int (value_of ds), dropWhile is_digit s'))"

definition scan_lit :: "string \<Rightarrow> string \<Rightarrow> string option" where
  "scan_lit l s = (if prefix l s then Some (drop (length l) s) else None)"

definition scan_height :: "string \<Rightarrow> (int \<times> string) option" where
  "scan_height s =
     (case scan_lit ''ID'' s of None \<Rightarrow> None
      | Some s1 \<Rightarrow> (case scan_d s1 of None \<Rightarrow> None
         | Some (h, s2) \<Rightarrow> (case scan_lit ''-'' s2 of None \<Rightarrow> None | Some s3 \<Rightarrow> Some (h, s3))))"

definition GetBlockHeightFromOrderID :: "string \<Rightarrow> int" where
  "GetBlockHeightFromOrderID orderID =
     (case scan_height orderID of None \<Rightarrow> 0
      | Some (blockHeight, s) \<Rightarrow> (case scan_d s of None \<Rightarrow> 0 | Some _ \<Rightarrow> blockHeight))"

subsection \<open>Printing and scanning\<close>

lemma digit_char_props:
  assumes "d < 10"
  shows "is_digit (digit_char d)" and "digit_val (digit_char d) = d"
  using assms by (simp_all add: is_digit_def digit_val_def digit_char_def)

lemma digits_nonempty [simp]: "digits n \<noteq> []"
  by (subst digits.simps) simp

lemma digits_all: "c \<in> set (digits n) \<Longrightarrow> is_digit c"
proof (induction n rule: digits.induct)
  case (1 n)
  then show ?case
    by (subst (asm) (2) digits.simps) (auto simp: digit_char_props split: if_splits)
qed

lemma value_of_snoc [simp]: "value_of (ds @ [c]) = 10 * value_of ds + digit_val c"
  by (simp add: value_of_def)

lemma value_of_digits [simp]: "value_of (digits n) = n"
proof (induction n rule: digits.induct)
  case (1 n)
  show ?case
  proof (cases "n < 10")
    case True
    then show ?thesis by (subst digits.simps) (simp add: value_of_def digit_char_props)
  next
    case False
    with 1 show ?thesis by (subst digits.simps) (simp add: digit_char_props)
  qed
qed

lemma value_of_zeros [simp]: "value_of (replicate k (CHR ''0'') @ ds) = value_of ds"
  by (induction k) (simp_all add: value_of_def digit_val_def)

lemma not_digit [simp]: "\<not> is_digit (CHR ''-'')" "\<not> is_digit (CHR ''+'')" "is_digit (CHR ''0'')"
  by (simp_all add: is_digit_def)

lemma scan_digits:
  assumes "ds \<noteq> []" and "\<forall>c\<in>set ds. is_digit c" and "rest = [] \<or> \<not> is_digit (hd rest)"
  shows "scan_d (ds @ rest) = Some (int (value_of ds), rest)"
    and "scan_d (CHR ''-'' # ds @ rest) = Some (- int (value_of ds), rest)"
proof -
  have tw: "takeWhile is_digit (ds @ rest) = ds" "dropWhile is_digit (ds @ rest) = rest"
    using assms(2,3) by (cases rest; simp add: takeWhile_append dropWhile_append)+
  obtain c cs where ds: "ds = c # cs" using assms(1) by (cases ds) auto
  then have "is_digit c" using assms(2) by simp
  then have "c \<noteq> CHR ''-''" "c \<noteq> CHR ''+''" using not_digit by metis+
  with tw ds show "scan_d (ds @ rest) = Some (int (value_of ds), rest)"
    by (simp add: scan_d_def)
  show "scan_d (CHR ''-'' # ds @ rest) = Some (- int (value_of ds), rest)"
    using tw assms(1) by (simp add: scan_d_def)
qed

lemma scan_fmt:
  assumes "rest = [] \<or> \<not> is_digit (hd rest)"
  shows "scan_d (fmt_d i @ rest) = Some (i, rest)" and "scan_d (fmt_010d i @ rest) = Some (i, rest)"
proof -
  have d: "\<forall>c\<in>set (digits n). is_digit c" "\<forall>c\<in>set (replicate k (CHR ''0'') @ digits n). is_digit c" for n k
    using digits_all by auto
  show "scan_d (fmt_d i @ rest) = Some (i, rest)"
    using scan_digits [OF digits_nonempty d(1) assms] by (simp add: fmt_d_def)
  show "scan_d (fmt_010d i @ rest) = Some (i, rest)"
    using scan_digits [OF _ d(2) assms] by (simp add: fmt_010d_def Let_def)
qed

lemma FormatOrderID_prefix: "FormatOrderID h n = FormatOrderIDPrefix h @ fmt_d n"
  by (simp add: FormatOrderID_def FormatOrderIDPrefix_def)

lemma scan_height_prefix [simp]: "scan_height (FormatOrderIDPrefix h @ rest) = Some (h, rest)"
  using scan_fmt [of "CHR ''-'' # rest" h]
  by (simp add: scan_height_def FormatOrderIDPrefix_def scan_lit_def)

lemma FormatOrderIDPrefix_nonempty [simp]: "FormatOrderIDPrefix h \<noteq> []"
  by (simp add: FormatOrderIDPrefix_def)

lemma height_of_FormatOrderID: "GetBlockHeightFromOrderID (FormatOrderID h n) = h"
  using scan_fmt(1) [of "[]" n] by (simp add: GetBlockHeightFromOrderID_def FormatOrderID_prefix)

lemma prefix_FormatOrderID: "prefix (FormatOrderIDPrefix h) (FormatOrderID h' n) \<longleftrightarrow> h = h'"
proof
  assume "prefix (FormatOrderIDPrefix h) (FormatOrderID h' n)"
  then obtain r where "FormatOrderID h' n = FormatOrderIDPrefix h @ r" by (auto simp: prefix_def)
  then have "scan_height (FormatOrderIDPrefix h' @ fmt_d n) = scan_height (FormatOrderIDPrefix h @ r)"
    by (simp add: FormatOrderID_prefix)
  then show "h = h'" by simp
qed (simp add: FormatOrderID_prefix)

lemma FormatOrderID_inject: "FormatOrderID h n = FormatOrderID h' n' \<longleftrightarrow> h = h' \<and> n = n'"
proof
  assume eq: "FormatOrderID h n = FormatOrderID h' n'"
  then have "h = h'" by (metis height_of_FormatOrderID)
  moreover from eq this have "fmt_d n = fmt_d n'" by (simp add: FormatOrderID_prefix)
  then have "n = n'" using scan_fmt(1) [of "[]" n] scan_fmt(1) [of "[]" n'] by simp
  ultimately show "h = h' \<and> n = n'" ..
qed simp

subsection \<open>Properties\<close>

text \<open>
  Order identifiers are unambiguous: the height scanned from an identifier is the height
  it was formatted with, two identifiers agree only if both numbers agree, and the
  prefix of a height selects exactly the identifiers of that height (also beyond ten digits).
\<close>

theorem order_id_roundtrip:
  "GetBlockHeightFromOrderID (FormatOrderID h n) = h
   \<and> (FormatOrderID h n = FormatOrderID h' n' \<longleftrightarrow> h = h' \<and> n = n')
   \<and> (prefix (FormatOrderIDPrefix h) (FormatOrderID h' n') \<longleftrightarrow> h = h')"
  by (simp add: height_of_FormatOrderID FormatOrderID_inject prefix_FormatOrderID)

end
