(* ===== verification/Chain.thy ===== *)
theory Chain
  imports DepthBook OrderId "HOL-Library.Product_Lexorder"
begin

text \<open>
  The state the modules share. A record per KV store (one field per key prefix of
  \<open>types/keys.go\<close>), a record per in-memory cache, and \<open>chain\<close>, which holds them beside
  the bank state \<open>'b\<close> of the Cosmos SDK. The block header, the transaction hash and the node's configuration
  are the record \<open>env\<close>. The caches of the keepers are not part of the multistore: a
  discarded cache context (\<open>discard_kv\<close>) restores the stores but keeps them.
\<close>

record env =
  e_Height :: int
  e_Time :: int
  e_TxHash :: string
  e_TxHashUpper :: string
  e_CheckTx :: bool
  e_Backend :: bool
  e_FeeCollector :: string

subsection \<open>Token module\<close>

record token =
  tk_Description :: string
  tk_Symbol :: string
  tk_OriginalSymbol :: string
  tk_WholeName :: string
  tk_OriginalTotalSupply :: dec
  tk_Type :: int
  tk_Owner :: addr
  tk_Mintable :: bool

record token_confirm =
  co_Symbol :: string
  co_Address :: addr
  co_Expire :: int

record token_params =
  tp_FeeIssue :: coin
  tp_FeeMint :: coin
  tp_FeeBurn :: coin
  tp_FeeModify :: coin
  tp_FeeChown :: coin
  tp_OwnershipConfirmWindow :: int

record fee_detail =
  fd_Address :: string
  fd_Receiver :: string
  fd_Fee :: string
  fd_FeeType :: fee_type
  fd_Timestamp :: int

record token_store =
  ts_tokens :: "(string, token) kv"
  ts_tokenNum :: nat
  ts_locked :: "(addr, coins) kv"
  ts_userTokens :: "(addr \<times> string, unit) kv"
  ts_lockedFee :: "(addr, coins) kv"
  ts_confirm :: "(string, token_confirm) kv"

subsection \<open>Dex module\<close>

record token_pair =
  pr_Base :: string
  pr_Quote :: string
  pr_InitPrice :: dec
  pr_MaxPriceDigit :: int
  pr_MaxQuantityDigit :: int
  pr_MinQuantity :: dec
  pr_ID :: nat
  pr_Delisting :: bool
  pr_Owner :: addr
  pr_Deposits :: coin
  pr_BlockHeight :: int

record withdraw_info =
  wi_Owner :: addr
  wi_Deposits :: coin
  wi_CompleteTime :: int

record dex_operator =
  op_Address :: addr
  op_HandlingFeeAddress :: addr
  op_Website :: string
  op_InitHeight :: int
  op_TxHash :: string

record dex_confirm =
  dc_Product :: string
  dc_FromAddress :: addr
  dc_ToAddress :: addr
  dc_Expire :: int

record dex_params =
  dp_ListFee :: coin
  dp_TransferOwnershipFee :: coin
  dp_RegisterOperatorFee :: coin
  dp_DelistMaxDepositPeriod :: int
  dp_DelistMinDeposit :: coins
  dp_DelistVotingPeriod :: int
  dp_WithdrawPeriod :: int
  dp_OwnershipConfirmWindow :: int

record dex_store =
  ds_pairs :: "(string, token_pair) kv"
  ds_maxPairID :: nat
  ds_locks :: "(string, product_lock) kv"
  ds_userPairs :: "(addr \<times> string, unit) kv"
  ds_withdraws :: "(addr, withdraw_info) kv"
  ds_withdrawTimes :: "(int \<times> addr, unit) kv"
  ds_operators :: "(addr, dex_operator) kv"
  ds_confirm :: "(string, dex_confirm) kv"

subsection \<open>Order module\<close>

text \<open>
  \<open>FormatOrderIDsKey\<close> prints product, price and side separated by colons, which occur in none
  of them; the key is the triple.
\<close>

type_synonym ids_key = "string \<times> dec \<times> string"

definition FormatOrderIDsKey :: "string \<Rightarrow> dec \<Rightarrow> string \<Rightarrow> ids_key" where
  "FormatOrderIDsKey product price side = (product, price, side)"

record order_store =
  os_orders :: "(string, order) kv"
  os_depth :: "(string, depth_book) kv"
  os_ids :: "(ids_key, string list) kv"
  os_price :: "(string, dec) kv"
  os_expire :: "(int, int list) kv"
  os_orderNum :: "(int, int) kv"
  os_closed :: "string list option"
  os_lastExpired :: "int option"
  os_openNum :: "int option"
  os_storeNum :: "int option"

record disk_cache =
  dk_books :: "(string, depth_book) kv"
  dk_booksUpdated :: "(string, unit) kv"
  dk_booksNew :: "(string, unit) kv"
  dk_ids :: "(ids_key, string list) kv"
  dk_idsUpdated :: "(ids_key, unit) kv"
  dk_price :: "(string, dec) kv"
  dk_storeOrderNum :: int
  dk_openNum :: int
  dk_closed :: "string list"

record block_match_result =
  bm_BlockHeight :: int
  bm_ResultMap :: "(string, match_result) kv"
  bm_TimeStamp :: int

record mem_cache =
  mc_updated :: "string list"
  mc_result :: "block_match_result option"
  mc_txResults :: "nat list list"
  mc_cancelNum :: int
  mc_expireNum :: int
  mc_partialFillNum :: int
  mc_fullFillNum :: int

subsection \<open>The chain\<close>

record 'b chain =
  bank :: 'b
  tok :: token_store
  tokP :: token_params
  feeDetails :: "fee_detail list"
  dex :: dex_store
  dexP :: dex_params
  ord :: order_store
  ordP :: order_params
  dcache :: disk_cache
  mcache :: mem_cache

definition discard_kv :: "'b chain \<Rightarrow> 'b chain \<Rightarrow> 'b chain" where
  "discard_kv s s' = s'\<lparr>bank := bank s, tok := tok s, tokP := tokP s, dex := dex s, dexP := dexP s,
     ord := ord s, ordP := ordP s\<rparr>"

text \<open>Module names (\<open>types/keys.go\<close>), the native token and the black hole (\<open>x/common\<close>).\<close>

definition tokenModule :: string where "tokenModule = ''token''"
definition dexModule :: string where "dexModule = ''dex''"
definition NativeToken :: denom where "NativeToken = ''okt''"
definition BlackHoleAddress :: addr where "BlackHoleAddress = replicate 20 (char_of (0::nat))"

end
