(* ===== verification/Token.thy ===== *)
theory Token
  imports Chain
begin

text \<open>
  The token module: keeper (\<open>x/token/keeper.go\<close>), fee-detail cache (\<open>memory_cache.go\<close>), genesis
  (\<open>genesis.go\<close>) and the parts of \<open>types\<close> they use. A keeper call that reports an error
  returns the state it leaves behind beside the error, because its callers do not always abort.

  The locale \<open>coin_escrow\<close> is the contract the order module relies on (\<open>TokenKeeper\<close> of
  \<open>x/order/keeper/expect_keepers.go\<close>): locking and unlocking keep the difference between the coins
  of the module account and the recorded locks, and \<open>BalanceAccount\<close> moves it by exactly the coins that
  come in less those that go out.
\<close>

datatype token_error =
    ErrBlockedRecipient string | ErrBlockedContractRecipient string | ErrSendDisabled
  | ErrSendCoinsFromAccountToModuleFailed string | ErrUnrecognizedLockCoinsType int
  | ErrFailedToUnlockAddress coins addr | ErrUpdateLockedCoins | ErrBank string
  | ErrAmountBiggerThanTotalSupplyUpperbound | ErrInvalidCoins string | ErrMintCoinsFailed string
  | ErrSendCoinsFromModuleToAccountFailed string | ErrInputOwnerIsNotEqualTokenOwner addr
  | ErrBurnCoinsFailed string | ErrTokenIsNotMintable | ErrCodeTotalsupplyExceedsTheUpperLimit dec int
  | ErrSendCoinsFromAccountToAccountFailed token_error
  | ErrCodeinputFromAddressIsNotEqualTokenInfoOwner addr
  | ErrConfirmOwnershipNotExistOrBlockTimeAfter | ErrGetConfirmOwnership
  | ErrCodeConfirmOwnershipAddressNotEqualsMsgAddress addr
  | ErrWholeNameAndDescriptionIsNotModified | ErrGetDecimalFromDecimalStringFailed string
  | ErrAddressIsRequired | ErrUserInputSymbolIsEmpty | ErrNotAllowedOriginalSymbol string
  | ErrWholeNameIsNotValidl | ErrDescLenBiggerThanLimit | ErrTotalSupplyOutOfRange
  | ErrInsufficientCoins string | ErrAmountIsNotValid string
  | ErrMsgTransfersAmountBiggerThanSendLimit | ErrMsgSymbolIsEmpty | ErrUnknownRequest

definition LockCoinsTypeQuantity :: int where "LockCoinsTypeQuantity = 1"
definition LockCoinsTypeFee :: int where "LockCoinsTypeFee = 2"

subsection \<open>Tokens\<close>

definition zero_token :: token where
  "zero_token = \<lparr>tk_Description = [], tk_Symbol = [], tk_OriginalSymbol = [], tk_WholeName = [],
     tk_OriginalTotalSupply = 0, tk_Type = 0, tk_Owner = [], tk_Mintable = False\<rparr>"

definition GetTokenInfo :: "'b chain \<Rightarrow> string \<Rightarrow> token" where
  "GetTokenInfo s symbol = (case map_of (ts_tokens (tok s)) symbol of None \<Rightarrow> zero_token | Some t \<Rightarrow> t)"

definition GetTokenTotalSupply :: "'b sdk \<Rightarrow> 'b chain \<Rightarrow> string \<Rightarrow> dec" where
  "GetTokenTotalSupply S s symbol = b_supply S (bank s) symbol"

definition TokenExist :: "'b chain \<Rightarrow> string \<Rightarrow> bool" where
  "TokenExist s symbol = (map_of (ts_tokens (tok s)) symbol \<noteq> None)"

definition GetTokensInfo :: "'b chain \<Rightarrow> token list" where
  "GetTokensInfo s = map snd (ts_tokens (tok s))"

definition GetUserTokensInfo :: "'b chain \<Rightarrow> addr \<Rightarrow> token list" where
  "GetUserTokensInfo s owner =
     map (\<lambda>((a, symbol), _). GetTokenInfo s symbol) (filter (\<lambda>((a, _), _). a = owner) (ts_userTokens (tok s)))"

definition GetCurrenciesInfo :: "'b sdk \<Rightarrow> 'b chain \<Rightarrow> (string \<times> string \<times> dec) list" where
  "GetCurrenciesInfo S s =
     map (\<lambda>(_, t). (tk_Description t, tk_Symbol t, b_supply S (bank s) (tk_Symbol t))) (ts_tokens (tok s))"

definition DeleteUserToken :: "addr \<Rightarrow> string \<Rightarrow> 'b chain \<Rightarrow> 'b chain" where
  "DeleteUserToken owner symbol s =
     s\<lparr>tok := (tok s)\<lparr>ts_userTokens := kv_del (owner, symbol) (ts_userTokens (tok s))\<rparr>\<rparr>"

definition getTokenNum :: "'b chain \<Rightarrow> nat" where
  "getTokenNum s = ts_tokenNum (tok s)"

text \<open>The token number is a \<open>uint64\<close> and wraps.\<close>

definition NewToken :: "token \<Rightarrow> 'b chain \<Rightarrow> 'b chain" where
  "NewToken t s =
     s\<lparr>tok := (tok s)\<lparr>
        ts_tokens := kv_set (tk_Symbol t) t (ts_tokens (tok s)),
        ts_userTokens := kv_set (tk_Owner t, tk_Symbol t) () (ts_userTokens (tok s)),
        ts_tokenNum := (getTokenNum s + 1) mod 2 ^ 64\<rparr>\<rparr>"

definition UpdateToken :: "token \<Rightarrow> 'b chain \<Rightarrow> 'b chain" where
  "UpdateToken t s = s\<lparr>tok := (tok s)\<lparr>ts_tokens := kv_set (tk_Symbol t) t (ts_tokens (tok s))\<rparr>\<rparr>"

definition GetConfirmOwnership :: "'b chain \<Rightarrow> string \<Rightarrow> token_confirm option" where
  "GetConfirmOwnership s symbol = map_of (ts_confirm (tok s)) symbol"

definition SetConfirmOwnership :: "token_confirm \<Rightarrow> 'b chain \<Rightarrow> 'b chain" where
  "SetConfirmOwnership c s = s\<lparr>tok := (tok s)\<lparr>ts_confirm := kv_set (co_Symbol c) c (ts_confirm (tok s))\<rparr>\<rparr>"

definition DeleteConfirmOwnership :: "string \<Rightarrow> 'b chain \<Rightarrow> 'b chain" where
  "DeleteConfirmOwnership symbol s = s\<lparr>tok := (tok s)\<lparr>ts_confirm := kv_del symbol (ts_confirm (tok s))\<rparr>\<rparr>"

text \<open>
  \<open>addTokenSuffix\<close>: three-character windows of the transaction hash, from the last to the
  first, until a free name is found.
\<close>

fun token_suffix_loop :: "'b sdk \<Rightarrow> 'b chain \<Rightarrow> string \<Rightarrow> string \<Rightarrow> nat \<Rightarrow> string option" where
  "token_suffix_loop S s hash originalSymbol 0 = None"
| "token_suffix_loop S s hash originalSymbol (Suc i) =
     (let name = originalSymbol @ ''-'' @ take 3 (drop (3 * i) hash)
      in if \<not> s_validate_denom S name then None
         else if \<not> TokenExist s name then Some name
         else token_suffix_loop S s hash originalSymbol i)"

definition addTokenSuffix :: "'b sdk \<Rightarrow> env \<Rightarrow> 'b chain \<Rightarrow> string \<Rightarrow> string option" where
  "addTokenSuffix S e s originalSymbol =
     token_suffix_loop S s (e_TxHash e) originalSymbol (length (e_TxHash e) div 3)"

subsection \<open>Transfers and locks\<close>

type_synonym 'b kres = "'b chain \<times> token_error option"

definition IsContractAddress :: "'b sdk \<Rightarrow> 'b chain \<Rightarrow> addr \<Rightarrow> bool" where
  "IsContractAddress S s a =
     (case b_code_hash S (bank s) a of None \<Rightarrow> False | Some h \<Rightarrow> h \<noteq> k_keccak_empty S)"

definition SendCoinsFromAccountToAccount ::
  "'b sdk \<Rightarrow> env \<Rightarrow> 'b chain \<Rightarrow> addr \<Rightarrow> addr \<Rightarrow> coins \<Rightarrow> 'b kres" where
  "SendCoinsFromAccountToAccount S e s src dst cs =
     (if b_blacklisted S dst then (s, Some (ErrBlockedRecipient dst))
      else if s_mercury S (e_Height e) \<and> IsContractAddress S s dst
      then (s, Some (ErrBlockedContractRecipient dst))
      else (case b_send S (bank s) src dst cs of
              Inl er \<Rightarrow> (s, Some (ErrBank er))
            | Inr b \<Rightarrow> (s\<lparr>bank := b\<rparr>, None)))"

text \<open>The lock store of a lock type; the two types have different key prefixes.\<close>

definition lock_store :: "'b chain \<Rightarrow> int \<Rightarrow> (addr, coins) kv" where
  "lock_store s t = (if t = LockCoinsTypeQuantity then ts_locked (tok s) else ts_lockedFee (tok s))"

definition set_lock_store :: "int \<Rightarrow> (addr, coins) kv \<Rightarrow> 'b chain \<Rightarrow> 'b chain" where
  "set_lock_store t m s =
     (if t = LockCoinsTypeQuantity then s\<lparr>tok := (tok s)\<lparr>ts_locked := m\<rparr>\<rparr>
      else s\<lparr>tok := (tok s)\<lparr>ts_lockedFee := m\<rparr>\<rparr>)"

definition updateLockedCoins ::
  "'b sdk \<Rightarrow> 'b chain \<Rightarrow> addr \<Rightarrow> coins \<Rightarrow> bool \<Rightarrow> int \<Rightarrow> 'b kres" where
  "updateLockedCoins S s a cs doAdd lockCoinsType =
     (if lockCoinsType \<noteq> LockCoinsTypeQuantity \<and> lockCoinsType \<noteq> LockCoinsTypeFee
      then (s, Some (ErrUnrecognizedLockCoinsType lockCoinsType))
      else
        (let store = lock_store s lockCoinsType;
             newCoins =
               (if doAdd
                then Some (case map_of store a of None \<Rightarrow> cs | Some oldCoins \<Rightarrow> c_add2 S oldCoins cs)
                else (case map_of store a of
                        None \<Rightarrow> None
                      | Some oldCoins \<Rightarrow>
                          (let (c, isNegative) = c_safe_sub S oldCoins cs
                           in if isNegative then None else Some c)))
         in case newCoins of
              None \<Rightarrow> (s, Some (ErrFailedToUnlockAddress cs a))
            | Some c \<Rightarrow>
                (let c' = c_sort S c
                 in (set_lock_store lockCoinsType
                       (if c' \<noteq> [] then kv_set a c' store else kv_del a store) s, None))))"

definition LockCoins :: "'b sdk \<Rightarrow> 'b chain \<Rightarrow> addr \<Rightarrow> coins \<Rightarrow> int \<Rightarrow> 'b kres" where
  "LockCoins S s a cs lockCoinsType =
     (case b_acc_to_mod S (bank s) a tokenModule cs of
        Inl er \<Rightarrow> (s, Some (ErrSendCoinsFromAccountToModuleFailed er))
      | Inr b \<Rightarrow> updateLockedCoins S (s\<lparr>bank := b\<rparr>) a cs True lockCoinsType)"

definition UnlockCoins :: "'b sdk \<Rightarrow> 'b chain \<Rightarrow> addr \<Rightarrow> coins \<Rightarrow> int \<Rightarrow> 'b kres" where
  "UnlockCoins S s a cs lockCoinsType =
     (case updateLockedCoins S s a cs False lockCoinsType of
        (s', Some er) \<Rightarrow> (s', Some er)
      | (s', None) \<Rightarrow>
          (case b_mod_to_acc S (bank s') tokenModule a cs of
             Inl er \<Rightarrow> (s', Some (ErrSendCoinsFromModuleToAccountFailed er))
           | Inr b \<Rightarrow> (s'\<lparr>bank := b\<rparr>, None)))"

definition BalanceAccount :: "'b sdk \<Rightarrow> 'b chain \<Rightarrow> addr \<Rightarrow> coins \<Rightarrow> coins \<Rightarrow> 'b kres" where
  "BalanceAccount S s a outputCoins inputCoins =
     (case (if \<not> coins_is_zero outputCoins
            then updateLockedCoins S s a outputCoins False LockCoinsTypeQuantity else (s, None)) of
        (s', Some _) \<Rightarrow> (s', Some ErrUpdateLockedCoins)
      | (s', None) \<Rightarrow>
          if \<not> coins_is_zero inputCoins
          then (case b_mod_to_acc S (bank s') tokenModule a inputCoins of
                  Inl er \<Rightarrow> (s', Some (ErrBank er))
                | Inr b \<Rightarrow> (s'\<lparr>bank := b\<rparr>, None))
          else (s', None))"

definition GetLockedCoins :: "'b chain \<Rightarrow> addr \<Rightarrow> coins" where
  "GetLockedCoins s a = (case map_of (ts_locked (tok s)) a of None \<Rightarrow> [] | Some cs \<Rightarrow> cs)"

definition GetAllLockedCoins :: "'b chain \<Rightarrow> (addr \<times> coins) list" where
  "GetAllLockedCoins s = ts_locked (tok s)"

definition IterateLockedFees :: "'b chain \<Rightarrow> (addr \<times> coins) list" where
  "IterateLockedFees s = ts_lockedFee (tok s)"

definition GetCoins :: "'b sdk \<Rightarrow> 'b chain \<Rightarrow> addr \<Rightarrow> coins" where
  "GetCoins S s a = b_coins S (bank s) a"

definition AddFeeDetail :: "'b sdk \<Rightarrow> env \<Rightarrow> string \<Rightarrow> coins \<Rightarrow> fee_type \<Rightarrow> string \<Rightarrow> 'b chain \<Rightarrow> 'b chain" where
  "AddFeeDetail S e src fee feeType receiver s =
     (if e_Backend e
      then s\<lparr>feeDetails := feeDetails s @
             [\<lparr>fd_Address = src, fd_Receiver = receiver, fd_Fee = c_str S fee, fd_FeeType = feeType,
               fd_Timestamp = e_Time e\<rparr>]\<rparr>
      else s)"

definition token_beginBlocker :: "'b chain \<Rightarrow> 'b chain" where
  "token_beginBlocker s = s\<lparr>feeDetails := []\<rparr>"

text \<open>\<open>MergeCoinInfo\<close>: available and locked amounts by denomination, sorted by symbol.\<close>

record coin_info =
  ci_Symbol :: string
  ci_Available :: string
  ci_Locked :: string

definition MergeCoinInfo :: "'b sdk \<Rightarrow> coins \<Rightarrow> coins \<Rightarrow> coin_info list" where
  "MergeCoinInfo S availableCoins lockedCoins =
     (let m1 = fold (\<lambda>(d, x) m. case map_of m d of
                 None \<Rightarrow> kv_set d \<lparr>ci_Symbol = d, ci_Available = d_str S x, ci_Locked = ''0''\<rparr> m
               | Some _ \<Rightarrow> m) availableCoins [];
          m2 = fold (\<lambda>(d, x) m. case map_of m d of
                 Some c \<Rightarrow> kv_set d (c\<lparr>ci_Locked := d_str S x\<rparr>) m
               | None \<Rightarrow> kv_set d \<lparr>ci_Symbol = d, ci_Available = ''0'', ci_Locked = d_str S x\<rparr> m)
               lockedCoins m1
      in map snd m2)"

definition GetCoinsInfo :: "'b sdk \<Rightarrow> 'b chain \<Rightarrow> addr \<Rightarrow> coin_info list" where
  "GetCoinsInfo S s a = MergeCoinInfo S (GetCoins S s a) (GetLockedCoins s a)"

subsection \<open>The escrow\<close>

text \<open>
  What the module account holds beyond the recorded locks, per denomination. The module
  invariant of \<open>x/order/keeper/invariant.go\<close> says it is zero.
\<close>

abbreviation token_acc :: "'b sdk \<Rightarrow> addr" where
  "token_acc S \<equiv> b_mod_addr S tokenModule"

definition locked_sum :: "'b chain \<Rightarrow> denom \<Rightarrow> dec" where
  "locked_sum s d = kv_sum (\<lambda>cs. amt cs d) (ts_locked (tok s)) + kv_sum (\<lambda>cs. amt cs d) (ts_lockedFee (tok s))"

definition escrow_gap :: "'b sdk \<Rightarrow> 'b chain \<Rightarrow> denom \<Rightarrow> dec" where
  "escrow_gap S s d = bank_bal S (bank s) (token_acc S) d - locked_sum s d"

definition locks_ok :: "'b chain \<Rightarrow> bool" where
  "locks_ok s \<longleftrightarrow> kv_ok (ts_locked (tok s)) \<and> kv_ok (ts_lockedFee (tok s))
     \<and> (\<forall>p\<in>set (ts_locked (tok s)). coins_ok (snd p)) \<and> (\<forall>p\<in>set (ts_lockedFee (tok s)). coins_ok (snd p))"

text \<open>What an account has locked under a lock type.\<close>

definition locked_of :: "'b chain \<Rightarrow> addr \<Rightarrow> int \<Rightarrow> denom \<Rightarrow> dec" where
  "locked_of s a t d = kv_val (\<lambda>cs. amt cs d) (lock_store s t) a"

definition lock_type_ok :: "int \<Rightarrow> bool" where
  "lock_type_ok t \<longleftrightarrow> t = LockCoinsTypeQuantity \<or> t = LockCoinsTypeFee"

lemma lock_types_differ [simp]: "LockCoinsTypeQuantity \<noteq> LockCoinsTypeFee" "LockCoinsTypeFee \<noteq> LockCoinsTypeQuantity"
  by (simp_all add: LockCoinsTypeQuantity_def LockCoinsTypeFee_def)

lemma lock_store_set [simp]:
  "lock_type_ok t \<Longrightarrow> lock_type_ok t' \<Longrightarrow>
     lock_store (set_lock_store t m s) t' = (if t = t' then m else lock_store s t')"
  by (auto simp: lock_store_def set_lock_store_def lock_type_ok_def)

lemma bank_set_lock_store [simp]: "bank (set_lock_store t m s) = bank s"
  by (simp add: set_lock_store_def)

lemma lock_store_bank [simp]: "lock_store (s\<lparr>bank := b\<rparr>) t = lock_store s t"
  by (simp add: lock_store_def)

lemma locked_sum_stores:
  "locked_sum s d = kv_sum (\<lambda>cs. amt cs d) (lock_store s LockCoinsTypeQuantity)
     + kv_sum (\<lambda>cs. amt cs d) (lock_store s LockCoinsTypeFee)"
  by (simp add: locked_sum_def lock_store_def)

lemma locks_ok_stores:
  "locks_ok s \<longleftrightarrow> (\<forall>t. lock_type_ok t \<longrightarrow> kv_ok (lock_store s t) \<and> (\<forall>p\<in>set (lock_store s t). coins_ok (snd p)))"
  by (auto simp: locks_ok_def lock_store_def lock_type_ok_def split: if_splits)

text \<open>A successful update changes one account's lock by exactly the coins.\<close>

lemma updateLockedCoins_ok:
  assumes up: "updateLockedCoins S s a cs doAdd t = (s', None)"
    and laws: "coins_laws S" and ok: "locks_ok s" and cs: "coins_ok cs"
  obtains m where "s' = set_lock_store t m s" and "lock_type_ok t" and "kv_ok m"
    and "\<forall>p\<in>set m. coins_ok (snd p)"
    and "\<And>d. kv_sum (\<lambda>cs. amt cs d) m = kv_sum (\<lambda>cs. amt cs d) (lock_store s t) + (if doAdd then amt cs d else - amt cs d)"
    and "\<And>d. kv_val (\<lambda>cs. amt cs d) m a = kv_val (\<lambda>cs. amt cs d) (lock_store s t) a
       + (if doAdd then amt cs d else - amt cs d)"
    and "\<And>b d. b \<noteq> a \<Longrightarrow> kv_val (\<lambda>cs. amt cs d) m b = kv_val (\<lambda>cs. amt cs d) (lock_store s t) b"
    and "doAdd \<or> (\<forall>d. amt cs d \<le> kv_val (\<lambda>cs. amt cs d) (lock_store s t) a)"
proof -
  let ?m = "lock_store s t"
  have t: "lock_type_ok t" using up by (auto simp: updateLockedCoins_def lock_type_ok_def split: if_splits)
  then have m: "kv_ok ?m" "\<forall>p\<in>set ?m. coins_ok (snd p)" using ok by (auto simp: locks_ok_stores)
  obtain c where c: "coins_ok c"
    "\<And>d. amt c d = kv_val (\<lambda>cs. amt cs d) ?m a + (if doAdd then amt cs d else - amt cs d)"
    "s' = set_lock_store t (if c \<noteq> [] then kv_set a c ?m else kv_del a ?m) s"
    "doAdd \<or> (\<forall>d. amt cs d \<le> kv_val (\<lambda>cs. amt cs d) ?m a)"
  proof (cases "map_of ?m a")
    case None
    with up t laws cs have "doAdd" "s' = set_lock_store t (if cs \<noteq> [] then kv_set a cs ?m else kv_del a ?m) s"
      by (auto simp: updateLockedCoins_def lock_type_ok_def coins_sort_id Let_def split: if_splits)
    with None cs that [of cs] show ?thesis by (simp add: kv_val_def)
  next
    case (Some old)
    then have old: "coins_ok old" using kv_vals_get [OF m(2)] by blast
    show ?thesis
    proof (cases doAdd)
      case True
      with Some up t laws coins_add2 [OF laws old cs] that [of "c_add2 S old cs"] show ?thesis
        by (auto simp: updateLockedCoins_def lock_type_ok_def coins_sort_id Let_def kv_val_def split: if_splits)
    next
      case False
      obtain c neg where c: "c_safe_sub S old cs = (c, neg)" by force
      with False Some up t laws coins_safe_sub [OF laws old cs] that [of c] show ?thesis
        by (auto simp: updateLockedCoins_def lock_type_ok_def coins_sort_id Let_def kv_val_def not_less
            split: if_splits)
    qed
  qed
  let ?m' = "if c \<noteq> [] then kv_set a c ?m else kv_del a ?m"
  show thesis
  proof (rule that [OF c(3) t])
    show "kv_ok ?m'" using m(1) by (simp add: kv_ok_set kv_ok_del)
    show "\<forall>p\<in>set ?m'. coins_ok (snd p)" 
      using kv_vals_set [of ?m coins_ok, OF m(2) c(1)] kv_vals_del [of ?m coins_ok, OF m(2)] by simp
    show "kv_sum (\<lambda>cs. amt cs d) ?m' = kv_sum (\<lambda>cs. amt cs d) ?m + (if doAdd then amt cs d else - amt cs d)" for d
      using m(1) c(2) [of d] by (auto simp: kv_sum_set kv_sum_del)
    show "kv_val (\<lambda>cs. amt cs d) ?m' a = kv_val (\<lambda>cs. amt cs d) ?m a
       + (if doAdd then amt cs d else - amt cs d)" for d
      using c(2) [of d] by (auto simp: kv_val_def)
    show "kv_val (\<lambda>cs. amt cs d) ?m' b = kv_val (\<lambda>cs. amt cs d) ?m b" if "b \<noteq> a" for b d
      using that by (simp add: kv_val_def)
  qed (use c(4) in blast)
qed

lemma set_lock_store_props:
  assumes "lock_type_ok t" and "locks_ok s" and "kv_ok m" and "\<forall>p\<in>set m. coins_ok (snd p)"
  shows "locks_ok (set_lock_store t m s)"
    and "locked_sum (set_lock_store t m s) d =
      locked_sum s d - kv_sum (\<lambda>cs. amt cs d) (lock_store s t) + kv_sum (\<lambda>cs. amt cs d) m"
    and "lock_type_ok t' \<Longrightarrow> locked_of (set_lock_store t m s) a t' d =
      (if t' = t then kv_val (\<lambda>cs. amt cs d) m a else locked_of s a t' d)"
  using assms by (auto simp: locks_ok_stores locked_sum_stores locked_of_def lock_type_ok_def)

definition user_acc :: "'b sdk \<Rightarrow> addr \<Rightarrow> bool" where
  "user_acc S a \<longleftrightarrow> a \<noteq> token_acc S"

abbreviation escrow_ok :: "'b sdk \<Rightarrow> 'b chain \<Rightarrow> bool" where
  "escrow_ok S s \<equiv> sdk_laws S \<and> locks_ok s"

abbreviation free_of :: "'b sdk \<Rightarrow> 'b chain \<Rightarrow> addr \<Rightarrow> denom \<Rightarrow> dec" where
  "free_of S s \<equiv> bank_bal S (bank s)"

lemma LockCoins_ok:
  assumes "escrow_ok S s" and "user_acc S a" and "coins_ok cs" and "LockCoins S s a cs t = (s', None)"
  shows "locks_ok s'" and "escrow_gap S s' d = escrow_gap S s d" and "lock_type_ok t"
    and "lock_type_ok t' \<Longrightarrow> locked_of s' b t' d = locked_of s b t' d + (if b = a \<and> t' = t then amt cs d else 0)"
    and "user_acc S b \<Longrightarrow> free_of S s' b d = free_of S s b d - (if b = a then amt cs d else 0)"
proof -
  obtain bk where bk: "b_acc_to_mod S (bank s) a tokenModule cs = Inr bk"
    and up: "updateLockedCoins S (s\<lparr>bank := bk\<rparr>) a cs True t = (s', None)"
    using assms(4) by (auto simp: LockCoins_def split: sum.splits)
  have mv: "moves S (bank s) a (token_acc S) cs bk"
    using assms(1) bk by (simp add: bank_moves(2) sdk_laws_def)
  have ok: "locks_ok (s\<lparr>bank := bk\<rparr>)" using assms(1) by (simp add: locks_ok_def)
  obtain m where m: "s' = set_lock_store t m (s\<lparr>bank := bk\<rparr>)" "lock_type_ok t" "kv_ok m"
    "\<forall>p\<in>set m. coins_ok (snd p)"
    "\<And>d. kv_sum (\<lambda>cs. amt cs d) m = kv_sum (\<lambda>cs. amt cs d) (lock_store s t) + amt cs d"
    "\<And>b d. kv_val (\<lambda>cs. amt cs d) m b = kv_val (\<lambda>cs. amt cs d) (lock_store s t) b + (if b = a then amt cs d else 0)"
    by (rule updateLockedCoins_ok [OF up sdk_lawsD(2) [OF conjunct1 [OF assms(1)]] ok assms(3)])
      (rule that; auto)
  note set = set_lock_store_props [OF m(2) ok m(3,4)]
  show "locks_ok s'" "lock_type_ok t" using set(1) m(1,2) by simp_all
  show "escrow_gap S s' d = escrow_gap S s d"
    using assms(2) m(1) m(5) [of d] set(2) [of d] moves_bal [OF mv]
    by (simp add: escrow_gap_def user_acc_def locked_sum_def)
  show "locked_of s' b t' d = locked_of s b t' d + (if b = a \<and> t' = t then amt cs d else 0)"
    if "lock_type_ok t'" using set(3) [OF that] m(1) m(6) [of d b] by (simp add: locked_of_def)
  show "free_of S s' b d = free_of S s b d - (if b = a then amt cs d else 0)" if "user_acc S b"
    using that m(1) moves_bal [OF mv] by (simp add: user_acc_def)
qed

lemma UnlockCoins_ok:
  assumes "escrow_ok S s" and "user_acc S a" and "coins_ok cs" and "UnlockCoins S s a cs t = (s', None)"
  shows "locks_ok s'" and "escrow_gap S s' d = escrow_gap S s d" and "lock_type_ok t"
    and "lock_type_ok t' \<Longrightarrow> locked_of s' b t' d = locked_of s b t' d - (if b = a \<and> t' = t then amt cs d else 0)"
    and "user_acc S b \<Longrightarrow> free_of S s' b d = free_of S s b d + (if b = a then amt cs d else 0)"
    and "amt cs d \<le> locked_of s a t d"
proof -
  obtain s1 bk where up: "updateLockedCoins S s a cs False t = (s1, None)"
    and bk: "b_mod_to_acc S (bank s1) tokenModule a cs = Inr bk" and s': "s' = s1\<lparr>bank := bk\<rparr>"
    using assms(4) by (auto simp: UnlockCoins_def split: prod.splits option.splits sum.splits)
  have mv: "moves S (bank s1) (token_acc S) a cs bk"
    using assms(1) bk by (simp add: bank_moves(3) sdk_laws_def)
  have ok: "locks_ok s" using assms(1) by simp
  obtain m where m: "s1 = set_lock_store t m s" "lock_type_ok t" "kv_ok m"
    "\<forall>p\<in>set m. coins_ok (snd p)"
    "\<And>d. kv_sum (\<lambda>cs. amt cs d) m = kv_sum (\<lambda>cs. amt cs d) (lock_store s t) - amt cs d"
    "\<And>b d. kv_val (\<lambda>cs. amt cs d) m b = kv_val (\<lambda>cs. amt cs d) (lock_store s t) b - (if b = a then amt cs d else 0)"
    "\<And>d. amt cs d \<le> kv_val (\<lambda>cs. amt cs d) (lock_store s t) a"
    by (rule updateLockedCoins_ok [OF up sdk_lawsD(2) [OF conjunct1 [OF assms(1)]] ok assms(3)])
      (rule that; auto)
  note set = set_lock_store_props [OF m(2) ok m(3,4)]
  show "locks_ok s'" "lock_type_ok t" using set(1) m(1,2) s' by (simp_all add: locks_ok_def)
  show "escrow_gap S s' d = escrow_gap S s d"
    using assms(2) m(1) m(5) [of d] set(2) [of d] moves_bal [OF mv] s'
    by (simp add: escrow_gap_def user_acc_def locked_sum_def)
  show "locked_of s' b t' d = locked_of s b t' d - (if b = a \<and> t' = t then amt cs d else 0)"
    if "lock_type_ok t'" using set(3) [OF that] m(1) m(6) [of d b] s' by (simp add: locked_of_def)
  show "free_of S s' b d = free_of S s b d + (if b = a then amt cs d else 0)" if "user_acc S b"
    using that m(1) moves_bal [OF mv] s' by (simp add: user_acc_def)
  show "amt cs d \<le> locked_of s a t d" using m(7) by (simp add: locked_of_def)
qed

lemma BalanceAccount_ok:
  assumes "escrow_ok S s" and "user_acc S a" and "coins_ok out" and "BalanceAccount S s a out inp = (s', None)"
  shows "locks_ok s'" and "escrow_gap S s' d = escrow_gap S s d + amt out d - amt inp d"
    and "lock_type_ok t' \<Longrightarrow> locked_of s' b t' d =
      locked_of s b t' d - (if b = a \<and> t' = LockCoinsTypeQuantity then amt out d else 0)"
    and "user_acc S b \<Longrightarrow> free_of S s' b d = free_of S s b d + (if b = a then amt inp d else 0)"
proof -
  let ?t = LockCoinsTypeQuantity
  have t: "lock_type_ok ?t" by (simp add: lock_type_ok_def)
  obtain s1 where up: "(if \<not> coins_is_zero out then updateLockedCoins S s a out False ?t else (s, None)) = (s1, None)"
    and fin: "(if \<not> coins_is_zero inp then (case b_mod_to_acc S (bank s1) tokenModule a inp of
        Inl er \<Rightarrow> (s1, Some (ErrBank er)) | Inr b \<Rightarrow> (s1\<lparr>bank := b\<rparr>, None)) else (s1, None)) = (s', None)"
    using assms(4) by (auto simp: BalanceAccount_def split: prod.splits option.splits)
  have ok: "locks_ok s" using assms(1) by simp
  obtain m where m: "s1 = set_lock_store ?t m s" "kv_ok m" "\<forall>p\<in>set m. coins_ok (snd p)"
    "\<And>d. kv_sum (\<lambda>cs. amt cs d) m = kv_sum (\<lambda>cs. amt cs d) (lock_store s ?t) - amt out d"
    "\<And>b d. kv_val (\<lambda>cs. amt cs d) m b = kv_val (\<lambda>cs. amt cs d) (lock_store s ?t) b - (if b = a then amt out d else 0)"
  proof (cases "coins_is_zero out")
    case True
    with up that [of "lock_store s ?t"] ok show ?thesis
      by (auto simp: amt_coins_is_zero set_lock_store_def lock_store_def locks_ok_def)
  next
    case False
    with up have "updateLockedCoins S s a out False ?t = (s1, None)" by simp
    then show ?thesis
      by (rule updateLockedCoins_ok [OF _ sdk_lawsD(2) [OF conjunct1 [OF assms(1)]] ok assms(3)])
        (rule that; auto)
  qed
  obtain bk where s': "s' = s1\<lparr>bank := bk\<rparr>" and bal: "bank_bal S bk c d = bank_bal S (bank s1) c d
     + (if c = a then amt inp d else 0) - (if c = token_acc S then amt inp d else 0)" for c d
  proof (cases "coins_is_zero inp")
    case True
    with fin that [of "bank s1"] show ?thesis by (simp add: amt_coins_is_zero)
  next
    case False
    with fin obtain bk where bk: "b_mod_to_acc S (bank s1) tokenModule a inp = Inr bk" "s' = s1\<lparr>bank := bk\<rparr>"
      by (auto split: sum.splits)
    then have "moves S (bank s1) (token_acc S) a inp bk" using assms(1) by (simp add: bank_moves(3) sdk_laws_def)
    from moves_bal [OF this] bk(2) that [of bk] show ?thesis by simp
  qed
  note set = set_lock_store_props [OF t ok m(2,3)]
  show "locks_ok s'" using set(1) m(1) s' by (simp add: locks_ok_def)
  show "escrow_gap S s' d = escrow_gap S s d + amt out d - amt inp d"
    using assms(2) m(1) m(4) [of d] set(2) [of d] bal s'
    by (simp add: escrow_gap_def user_acc_def locked_sum_def)
  show "locked_of s' b t' d = locked_of s b t' d - (if b = a \<and> t' = ?t then amt out d else 0)"
    if "lock_type_ok t'" using set(3) [OF that] m(1) m(5) [of d b] s' by (simp add: locked_of_def)
  show "free_of S s' b d = free_of S s b d + (if b = a then amt inp d else 0)" if "user_acc S b"
    using that m(1) bal s' by (simp add: user_acc_def)
qed

subsection \<open>The contract of the token keeper\<close>

locale coin_escrow =
  fixes lock unlock :: "'s \<Rightarrow> addr \<Rightarrow> coins \<Rightarrow> int \<Rightarrow> 's \<times> 'e option"
    and balance :: "'s \<Rightarrow> addr \<Rightarrow> coins \<Rightarrow> coins \<Rightarrow> 's \<times> 'e option"
    and gap :: "'s \<Rightarrow> denom \<Rightarrow> int"
    and held :: "'s \<Rightarrow> addr \<Rightarrow> int \<Rightarrow> denom \<Rightarrow> int"
    and free :: "'s \<Rightarrow> addr \<Rightarrow> denom \<Rightarrow> int"
    and ok :: "'s \<Rightarrow> bool"
    and user :: "addr \<Rightarrow> bool"
  assumes lock_law: "ok s \<Longrightarrow> user a \<Longrightarrow> coins_ok cs \<Longrightarrow> lock s a cs t = (s', None) \<Longrightarrow>
      ok s' \<and> lock_type_ok t \<and> (\<forall>d. gap s' d = gap s d)
      \<and> (\<forall>b t' d. lock_type_ok t' \<longrightarrow> held s' b t' d = held s b t' d + (if b = a \<and> t' = t then amt cs d else 0))
      \<and> (\<forall>b d. user b \<longrightarrow> free s' b d = free s b d - (if b = a then amt cs d else 0))"
    and unlock_law: "ok s \<Longrightarrow> user a \<Longrightarrow> coins_ok cs \<Longrightarrow> unlock s a cs t = (s', None) \<Longrightarrow>
      ok s' \<and> lock_type_ok t \<and> (\<forall>d. gap s' d = gap s d) \<and> (\<forall>d. amt cs d \<le> held s a t d)
      \<and> (\<forall>b t' d. lock_type_ok t' \<longrightarrow> held s' b t' d = held s b t' d - (if b = a \<and> t' = t then amt cs d else 0))
      \<and> (\<forall>b d. user b \<longrightarrow> free s' b d = free s b d + (if b = a then amt cs d else 0))"
    and balance_law: "ok s \<Longrightarrow> user a \<Longrightarrow> coins_ok out \<Longrightarrow> balance s a out inp = (s', None) \<Longrightarrow>
      ok s' \<and> (\<forall>d. gap s' d = gap s d + amt out d - amt inp d)
      \<and> (\<forall>b t' d. lock_type_ok t' \<longrightarrow>
            held s' b t' d = held s b t' d - (if b = a \<and> t' = LockCoinsTypeQuantity then amt out d else 0))
      \<and> (\<forall>b d. user b \<longrightarrow> free s' b d = free s b d + (if b = a then amt inp d else 0))"
begin

text \<open>What is locked comes back: nothing of the account or of the escrow has changed.\<close>

lemma lock_unlock:
  assumes "ok s" and "user a" and "coins_ok cs"
    and "lock s a cs t = (s1, None)" and "unlock s1 a cs t = (s2, None)" and "lock_type_ok t'" and "user b"
  shows "ok s2 \<and> gap s2 d = gap s d \<and> held s2 b t' d = held s b t' d \<and> free s2 b d = free s b d"
proof -
  from lock_law [OF assms(1-4)] have l: "ok s1" "lock_type_ok t" "gap s1 d = gap s d"
    "held s1 b t' d = held s b t' d + (if b = a \<and> t' = t then amt cs d else 0)"
    "free s1 b d = free s b d - (if b = a then amt cs d else 0)"
    using assms(6,7) by simp_all
  from unlock_law [OF l(1) assms(2,3,5)] have u: "ok s2" "gap s2 d = gap s1 d"
    "held s2 b t' d = held s1 b t' d - (if b = a \<and> t' = t then amt cs d else 0)"
    "free s2 b d = free s1 b d + (if b = a then amt cs d else 0)"
    using assms(6,7) by simp_all
  show ?thesis using l u by simp
qed

text \<open>
  A settlement is a list of exchanges \<open>(account, out, in)\<close>; it succeeds when each of them does.
\<close>

primrec settle :: "'s \<Rightarrow> (addr \<times> coins \<times> coins) list \<Rightarrow> 's option" where
  "settle s [] = Some s"
| "settle s (x # xs) =
     (case balance s (fst x) (fst (snd x)) (snd (snd x)) of
        (s', None) \<Rightarrow> settle s' xs | (s', Some e) \<Rightarrow> None)"

lemma settle_gap:
  assumes "settle s xs = Some s'" and "ok s" and "\<forall>x\<in>set xs. user (fst x) \<and> coins_ok (fst (snd x))"
  shows "ok s' \<and> gap s' d = gap s d
     + sum_list (map (\<lambda>x. amt (fst (snd x)) d) xs) - sum_list (map (\<lambda>x. amt (snd (snd x)) d) xs)"
  using assms
proof (induction xs arbitrary: s)
  case (Cons x xs)
  then obtain s1 where s1: "balance s (fst x) (fst (snd x)) (snd (snd x)) = (s1, None)" "settle s1 xs = Some s'"
    by (auto split: prod.splits option.splits)
  with balance_law [of s "fst x" "fst (snd x)" "snd (snd x)" s1] Cons.prems
  have "ok s1" "gap s1 d = gap s d + amt (fst (snd x)) d - amt (snd (snd x)) d" by simp_all
  with Cons.IH [OF s1(2)] Cons.prems(3) show ?case by simp
qed simp

end

interpretation escrow: coin_escrow "LockCoins S" "UnlockCoins S" "BalanceAccount S" "escrow_gap S"
  locked_of "free_of S" "escrow_ok S" "user_acc S" for S
proof unfold_locales
  fix s :: "'a chain" and a cs t s' inp
  assume s: "escrow_ok S s" and a: "user_acc S a" and cs: "coins_ok cs"
  have S: "sdk_laws S" using s by simp
  show "escrow_ok S s' \<and> lock_type_ok t \<and> (\<forall>d. escrow_gap S s' d = escrow_gap S s d)
      \<and> (\<forall>b t' d. lock_type_ok t' \<longrightarrow>
           locked_of s' b t' d = locked_of s b t' d + (if b = a \<and> t' = t then amt cs d else 0))
      \<and> (\<forall>b d. user_acc S b \<longrightarrow> free_of S s' b d = free_of S s b d - (if b = a then amt cs d else 0))"
    if "LockCoins S s a cs t = (s', None)"
    by (intro conjI allI impI S LockCoins_ok [OF s a cs that])
  show "escrow_ok S s' \<and> lock_type_ok t \<and> (\<forall>d. escrow_gap S s' d = escrow_gap S s d)
      \<and> (\<forall>d. amt cs d \<le> locked_of s a t d)
      \<and> (\<forall>b t' d. lock_type_ok t' \<longrightarrow>
           locked_of s' b t' d = locked_of s b t' d - (if b = a \<and> t' = t then amt cs d else 0))
      \<and> (\<forall>b d. user_acc S b \<longrightarrow> free_of S s' b d = free_of S s b d + (if b = a then amt cs d else 0))"
    if "UnlockCoins S s a cs t = (s', None)"
    by (intro conjI allI impI S UnlockCoins_ok [OF s a cs that])
  show "escrow_ok S s' \<and> (\<forall>d. escrow_gap S s' d = escrow_gap S s d + amt cs d - amt inp d)
      \<and> (\<forall>b t' d. lock_type_ok t' \<longrightarrow>
            locked_of s' b t' d = locked_of s b t' d - (if b = a \<and> t' = LockCoinsTypeQuantity then amt cs d else 0))
      \<and> (\<forall>b d. user_acc S b \<longrightarrow> free_of S s' b d = free_of S s b d + (if b = a then amt inp d else 0))"
    if "BalanceAccount S s a cs inp = (s', None)"
    by (intro conjI allI impI S BalanceAccount_ok [OF s a cs that])
qed

end
