(* ===== verification/TokenHandler.thy ===== *)
theory TokenHandler
  imports Token
begin

text \<open>
  The messages of the token module with their stateless validation (\<open>x/token/types/msgs.go\<close>,
  \<open>util.go\<close>), their handlers (\<open>x/token/handler.go\<close>) and genesis (\<open>x/token/genesis.go\<close>). A handler
  that fails returns the error; the transaction's writes are then discarded by the application.
  Shown here: the registry invariant (every token is stored under its symbol and indexed under its
  owner), that ownership changes hands only with the consent of both sides, and how each message
  changes the supply.
\<close>

subsection \<open>Messages\<close>

record msg_issue =
  mi_Description :: string
  mi_Symbol :: string
  mi_OriginalSymbol :: string
  mi_WholeName :: string
  mi_TotalSupply :: string
  mi_Owner :: addr
  mi_Mintable :: bool

record msg_modify =
  mm_Owner :: addr
  mm_Symbol :: string
  mm_Description :: string
  mm_WholeName :: string
  mm_IsDescriptionModified :: bool
  mm_IsWholeNameModified :: bool

datatype token_msg =
    MsgTokenIssue msg_issue
  | MsgTokenBurn coin addr
  | MsgTokenMint coin addr
  | MsgMultiSend addr "(addr \<times> coins) list"
  | MsgSend addr addr coins
  | MsgTransferOwnership addr addr string
  | MsgConfirmOwnership string addr
  | MsgTokenModify msg_modify
  | MsgOther

definition DescLenLimit :: nat where "DescLenLimit = 256"
definition MultiSendLimit :: nat where "MultiSendLimit = 1000"
definition TotalSupplyUpperbound :: int where "TotalSupplyUpperbound = 90000000000"

definition is_lower :: "char \<Rightarrow> bool" where
  "is_lower c \<longleftrightarrow> 97 \<le> (of_char c :: nat) \<and> (of_char c :: nat) \<le> 122"

definition is_upper :: "char \<Rightarrow> bool" where
  "is_upper c \<longleftrightarrow> 65 \<le> (of_char c :: nat) \<and> (of_char c :: nat) \<le> 90"

definition is_space :: "char \<Rightarrow> bool" where
  "is_space c \<longleftrightarrow> (of_char c :: nat) = 32 \<or> 9 \<le> (of_char c :: nat) \<and> (of_char c :: nat) \<le> 13"

text \<open>The regular expressions of \<open>util.go\<close>, read as predicates.\<close>

definition NotAllowedOriginSymbol :: "string \<Rightarrow> bool" where
  "NotAllowedOriginSymbol name = prefix ''ammswap'' name"

definition ValidOriginalSymbol :: "string \<Rightarrow> bool" where
  "ValidOriginalSymbol name \<longleftrightarrow> \<not> NotAllowedOriginSymbol name \<and>
     (case name of [] \<Rightarrow> False
      | c # cs \<Rightarrow> is_lower c \<and> length cs \<le> 5 \<and> list_all (\<lambda>x. is_lower x \<or> is_digit x) cs)"

definition wholeNameValid :: "string \<Rightarrow> bool" where
  "wholeNameValid name \<longleftrightarrow> 1 \<le> length name \<and> length name \<le> 30 \<and>
     list_all (\<lambda>x. is_lower x \<or> is_upper x \<or> is_digit x \<or> is_space x) name"

definition MsgTokenIssue_ValidateBasic :: "'b sdk \<Rightarrow> msg_issue \<Rightarrow> token_error option" where
  "MsgTokenIssue_ValidateBasic S msg =
     (if mi_Owner msg = [] then Some ErrAddressIsRequired
      else if mi_OriginalSymbol msg = [] then Some ErrUserInputSymbolIsEmpty
      else if \<not> ValidOriginalSymbol (mi_OriginalSymbol msg)
      then Some (ErrNotAllowedOriginalSymbol (mi_OriginalSymbol msg))
      else if \<not> wholeNameValid (mi_WholeName msg) then Some ErrWholeNameIsNotValidl
      else if length (mi_Description msg) > DescLenLimit then Some ErrDescLenBiggerThanLimit
      else (case d_of_str S (mi_TotalSupply msg) of
              None \<Rightarrow> Some (ErrGetDecimalFromDecimalStringFailed (mi_TotalSupply msg))
            | Some totalSupply \<Rightarrow>
                if totalSupply > TotalSupplyUpperbound * d_unit S \<or> totalSupply \<le> 0
                then Some ErrTotalSupplyOutOfRange else None))"

definition MsgTokenBurn_ValidateBasic :: "'b sdk \<Rightarrow> coin \<Rightarrow> addr \<Rightarrow> token_error option" where
  "MsgTokenBurn_ValidateBasic S amount owner =
     (if owner = [] then Some ErrAddressIsRequired
      else if \<not> c_coin_valid S amount then Some (ErrInsufficientCoins (c_str S [amount])) else None)"

definition MsgTokenMint_ValidateBasic :: "'b sdk \<Rightarrow> coin \<Rightarrow> addr \<Rightarrow> token_error option" where
  "MsgTokenMint_ValidateBasic S amount owner =
     (if owner = [] then Some ErrAddressIsRequired
      else if snd amount > TotalSupplyUpperbound * d_unit S then Some ErrAmountBiggerThanTotalSupplyUpperbound
      else if \<not> c_coin_valid S amount then Some (ErrAmountIsNotValid (c_str S [amount])) else None)"

definition MsgMultiSend_ValidateBasic :: "'b sdk \<Rightarrow> addr \<Rightarrow> (addr \<times> coins) list \<Rightarrow> token_error option" where
  "MsgMultiSend_ValidateBasic S src transfers =
     (if src = [] then Some ErrAddressIsRequired
      else if length transfers > MultiSendLimit then Some ErrMsgTransfersAmountBiggerThanSendLimit
      else (case find (\<lambda>(dst, cs). \<not> c_all_positive S cs \<or> \<not> c_valid S cs \<or> dst = []) transfers of
              None \<Rightarrow> None
            | Some (dst, cs) \<Rightarrow>
                if \<not> c_all_positive S cs \<or> \<not> c_valid S cs then Some (ErrInvalidCoins (c_str S cs))
                else Some ErrAddressIsRequired))"

definition MsgSend_ValidateBasic :: "'b sdk \<Rightarrow> addr \<Rightarrow> addr \<Rightarrow> coins \<Rightarrow> token_error option" where
  "MsgSend_ValidateBasic S src dst cs =
     (if src = [] then Some ErrAddressIsRequired
      else if dst = [] then Some ErrAddressIsRequired
      else if \<not> c_valid S cs then Some (ErrInvalidCoins (c_str S cs))
      else if \<not> c_all_positive S cs then Some (ErrInsufficientCoins (c_str S cs)) else None)"

definition MsgTransferOwnership_ValidateBasic :: "'b sdk \<Rightarrow> addr \<Rightarrow> addr \<Rightarrow> string \<Rightarrow> token_error option" where
  "MsgTransferOwnership_ValidateBasic S src dst symbol =
     (if src = [] then Some ErrAddressIsRequired
      else if dst = [] then Some ErrAddressIsRequired
      else if symbol = [] then Some ErrMsgSymbolIsEmpty
      else if \<not> s_validate_denom S symbol then Some ErrConfirmOwnershipNotExistOrBlockTimeAfter else None)"

definition MsgConfirmOwnership_ValidateBasic :: "'b sdk \<Rightarrow> string \<Rightarrow> addr \<Rightarrow> token_error option" where
  "MsgConfirmOwnership_ValidateBasic S symbol a =
     (if a = [] then Some ErrAddressIsRequired
      else if symbol = [] then Some ErrMsgSymbolIsEmpty
      else if \<not> s_validate_denom S symbol then Some (ErrNotAllowedOriginalSymbol symbol) else None)"

definition MsgTokenModify_ValidateBasic :: "'b sdk \<Rightarrow> msg_modify \<Rightarrow> token_error option" where
  "MsgTokenModify_ValidateBasic S msg =
     (if mm_Owner msg = [] then Some ErrAddressIsRequired
      else if mm_Symbol msg = [] then Some ErrMsgSymbolIsEmpty
      else if \<not> s_validate_denom S (mm_Symbol msg) then Some (ErrNotAllowedOriginalSymbol (mm_Symbol msg))
      else if mm_IsWholeNameModified msg \<and> \<not> wholeNameValid (mm_WholeName msg) then Some ErrWholeNameIsNotValidl
      else if mm_IsDescriptionModified msg \<and> length (mm_Description msg) > DescLenLimit
      then Some ErrDescLenBiggerThanLimit else None)"

fun token_ValidateBasic :: "'b sdk \<Rightarrow> token_msg \<Rightarrow> token_error option" where
  "token_ValidateBasic S (MsgTokenIssue msg) = MsgTokenIssue_ValidateBasic S msg"
| "token_ValidateBasic S (MsgTokenBurn amount owner) = MsgTokenBurn_ValidateBasic S amount owner"
| "token_ValidateBasic S (MsgTokenMint amount owner) = MsgTokenMint_ValidateBasic S amount owner"
| "token_ValidateBasic S (MsgMultiSend src transfers) = MsgMultiSend_ValidateBasic S src transfers"
| "token_ValidateBasic S (MsgSend src dst cs) = MsgSend_ValidateBasic S src dst cs"
| "token_ValidateBasic S (MsgTransferOwnership src dst symbol) = MsgTransferOwnership_ValidateBasic S src dst symbol"
| "token_ValidateBasic S (MsgConfirmOwnership symbol a) = MsgConfirmOwnership_ValidateBasic S symbol a"
| "token_ValidateBasic S (MsgTokenModify msg) = MsgTokenModify_ValidateBasic S msg"
| "token_ValidateBasic S MsgOther = Some ErrUnknownRequest"

declare
  MsgTokenIssue_ValidateBasic_def [simp]
  MsgTokenBurn_ValidateBasic_def [simp]
  MsgTokenMint_ValidateBasic_def [simp]
  MsgMultiSend_ValidateBasic_def [simp]
  MsgSend_ValidateBasic_def [simp]
  MsgTransferOwnership_ValidateBasic_def [simp]
  MsgConfirmOwnership_ValidateBasic_def [simp]
  MsgTokenModify_ValidateBasic_def [simp]

subsection \<open>Handlers\<close>

text \<open>The fee every message deducts from an account for the fee collector.\<close>

definition deduct_fee ::
  "'b sdk \<Rightarrow> env \<Rightarrow> addr \<Rightarrow> coin \<Rightarrow> (string \<Rightarrow> 'e) \<Rightarrow> 'b chain \<Rightarrow> 'e + 'b chain" where
  "deduct_fee S e a fee mk s =
     (case b_acc_to_mod S (bank s) a (e_FeeCollector e) (c_to_coins S fee) of
        Inl er \<Rightarrow> Inl (mk er) | Inr b \<Rightarrow> Inr (s\<lparr>bank := b\<rparr>))"

definition mint_to :: "'b sdk \<Rightarrow> addr \<Rightarrow> coins \<Rightarrow> 'b chain \<Rightarrow> token_error + 'b chain" where
  "mint_to S a cs s =
     (case b_mint S (bank s) tokenModule cs of
        Inl er \<Rightarrow> Inl (ErrMintCoinsFailed er)
      | Inr b \<Rightarrow> (case b_mod_to_acc S b tokenModule a cs of
            Inl er \<Rightarrow> Inl (ErrSendCoinsFromModuleToAccountFailed er)
          | Inr b' \<Rightarrow> Inr (s\<lparr>bank := b'\<rparr>)))"

definition handleMsgTokenIssue :: "'b sdk \<Rightarrow> env \<Rightarrow> msg_issue \<Rightarrow> 'b chain \<Rightarrow> token_error + 'b chain" where
  "handleMsgTokenIssue S e msg s =
     (case d_of_str S (mi_TotalSupply msg) of
        None \<Rightarrow> Inl (ErrGetDecimalFromDecimalStringFailed (mi_TotalSupply msg))
      | Some totalSupply \<Rightarrow>
          if totalSupply > TotalSupplyUpperbound * d_unit S then Inl ErrAmountBiggerThanTotalSupplyUpperbound
          else (case addTokenSuffix S e s (mi_OriginalSymbol msg) of
                  None \<Rightarrow> Inl (ErrInvalidCoins (mi_OriginalSymbol msg))
                | Some newName \<Rightarrow>
                    (let t = \<lparr>tk_Description = mi_Description msg, tk_Symbol = newName,
                              tk_OriginalSymbol = mi_OriginalSymbol msg, tk_WholeName = mi_WholeName msg,
                              tk_OriginalTotalSupply = totalSupply, tk_Type = 0, tk_Owner = mi_Owner msg,
                              tk_Mintable = mi_Mintable msg\<rparr>
                     in rbind (mint_to S (tk_Owner t) (c_to_coins S (newName, totalSupply)) s)
                          (\<lambda>s1. deduct_fee S e (tk_Owner t) (tp_FeeIssue (tokP s))
                              ErrSendCoinsFromAccountToModuleFailed (NewToken t s1)))))"

definition handleMsgTokenBurn :: "'b sdk \<Rightarrow> env \<Rightarrow> coin \<Rightarrow> addr \<Rightarrow> 'b chain \<Rightarrow> token_error + 'b chain" where
  "handleMsgTokenBurn S e amount owner s =
     (if tk_Owner (GetTokenInfo s (fst amount)) \<noteq> owner then Inl (ErrInputOwnerIsNotEqualTokenOwner owner)
      else (case b_acc_to_mod S (bank s) owner tokenModule (c_to_coins S amount) of
              Inl er \<Rightarrow> Inl (ErrSendCoinsFromAccountToModuleFailed er)
            | Inr b \<Rightarrow> (case b_burn S b tokenModule (c_to_coins S amount) of
                  Inl er \<Rightarrow> Inl (ErrBurnCoinsFailed er)
                | Inr b' \<Rightarrow> deduct_fee S e owner (tp_FeeBurn (tokP s))
                    (\<lambda>_. ErrSendCoinsFromAccountToModuleFailed (c_str S (c_to_coins S (tp_FeeBurn (tokP s)))))
                    (s\<lparr>bank := b'\<rparr>))))"

definition handleMsgTokenMint :: "'b sdk \<Rightarrow> env \<Rightarrow> coin \<Rightarrow> addr \<Rightarrow> 'b chain \<Rightarrow> token_error + 'b chain" where
  "handleMsgTokenMint S e amount owner s =
     (let t = GetTokenInfo s (fst amount)
      in if tk_Owner t \<noteq> owner then Inl (ErrInputOwnerIsNotEqualTokenOwner owner)
         else if \<not> tk_Mintable t then Inl ErrTokenIsNotMintable
         else
           (let totalSupplyAfterMint = b_supply S (bank s) (fst amount) + snd amount
            in if totalSupplyAfterMint > TotalSupplyUpperbound * d_unit S
               then Inl (ErrCodeTotalsupplyExceedsTheUpperLimit totalSupplyAfterMint TotalSupplyUpperbound)
               else rbind (mint_to S owner (c_to_coins S amount) s)
                 (deduct_fee S e owner (tp_FeeMint (tokP s))
                   (\<lambda>_. ErrSendCoinsFromAccountToModuleFailed (c_str S (c_to_coins S (tp_FeeMint (tokP s))))))))"

fun multi_send_loop ::
  "'b sdk \<Rightarrow> env \<Rightarrow> addr \<Rightarrow> (addr \<times> coins) list \<Rightarrow> 'b chain \<Rightarrow> token_error + 'b chain" where
  "multi_send_loop S e src [] s = Inr s"
| "multi_send_loop S e src ((dst, cs) # rest) s =
     (case SendCoinsFromAccountToAccount S e s src dst cs of
        (_, Some er) \<Rightarrow> Inl (ErrSendCoinsFromAccountToAccountFailed er)
      | (s', None) \<Rightarrow> multi_send_loop S e src rest s')"

definition handleMsgMultiSend ::
  "'b sdk \<Rightarrow> env \<Rightarrow> addr \<Rightarrow> (addr \<times> coins) list \<Rightarrow> 'b chain \<Rightarrow> token_error + 'b chain" where
  "handleMsgMultiSend S e src transfers s =
     (if \<not> b_send_enabled S (bank s) then Inl ErrSendDisabled else multi_send_loop S e src transfers s)"

definition handleMsgSend :: "'b sdk \<Rightarrow> env \<Rightarrow> addr \<Rightarrow> addr \<Rightarrow> coins \<Rightarrow> 'b chain \<Rightarrow> token_error + 'b chain" where
  "handleMsgSend S e src dst cs s =
     (if \<not> b_send_enabled S (bank s) then Inl ErrSendDisabled
      else (case SendCoinsFromAccountToAccount S e s src dst cs of
              (_, Some er) \<Rightarrow> Inl (ErrSendCoinsFromAccountToAccountFailed er)
            | (s', None) \<Rightarrow> Inr s'))"

definition handleMsgTransferOwnership ::
  "'b sdk \<Rightarrow> env \<Rightarrow> addr \<Rightarrow> addr \<Rightarrow> string \<Rightarrow> 'b chain \<Rightarrow> token_error + 'b chain" where
  "handleMsgTransferOwnership S e src dst symbol s =
     (let tokenInfo = GetTokenInfo s symbol
      in if tk_Owner tokenInfo \<noteq> src then Inl (ErrCodeinputFromAddressIsNotEqualTokenInfoOwner src)
         else if (case GetConfirmOwnership s symbol of None \<Rightarrow> False | Some c \<Rightarrow> \<not> e_Time e > co_Expire c)
         then Inl ErrConfirmOwnershipNotExistOrBlockTimeAfter
         else
           (let s1 = (if dst = BlackHoleAddress
                      then NewToken (tokenInfo\<lparr>tk_Owner := dst\<rparr>)
                             (DeleteUserToken (tk_Owner tokenInfo) (tk_Symbol tokenInfo) s)
                      else SetConfirmOwnership \<lparr>co_Symbol = symbol, co_Address = dst,
                             co_Expire = e_Time e + tp_OwnershipConfirmWindow (tokP s)\<rparr> s)
            in deduct_fee S e src (tp_FeeChown (tokP s)) ErrSendCoinsFromAccountToModuleFailed s1))"

text \<open>
  The expired request is deleted before the error is returned; the error makes the application discard
  that write with the rest of the transaction.
\<close>

definition handleMsgConfirmOwnership :: "env \<Rightarrow> string \<Rightarrow> addr \<Rightarrow> 'b chain \<Rightarrow> token_error + 'b chain" where
  "handleMsgConfirmOwnership e symbol a s =
     (case GetConfirmOwnership s symbol of
        None \<Rightarrow> Inl ErrGetConfirmOwnership
      | Some c \<Rightarrow>
          if e_Time e > co_Expire c then Inl ErrConfirmOwnershipNotExistOrBlockTimeAfter
          else if co_Address c \<noteq> a then Inl (ErrCodeConfirmOwnershipAddressNotEqualsMsgAddress a)
          else
            (let tokenInfo = GetTokenInfo s symbol
             in Inr (DeleteConfirmOwnership (co_Symbol c)
                  (NewToken (tokenInfo\<lparr>tk_Owner := a\<rparr>)
                     (DeleteUserToken (tk_Owner tokenInfo) (tk_Symbol tokenInfo) s)))))"

definition handleMsgTokenModify :: "'b sdk \<Rightarrow> env \<Rightarrow> msg_modify \<Rightarrow> 'b chain \<Rightarrow> token_error + 'b chain" where
  "handleMsgTokenModify S e msg s =
     (let t = GetTokenInfo s (mm_Symbol msg)
      in if tk_Owner t \<noteq> mm_Owner msg then Inl (ErrInputOwnerIsNotEqualTokenOwner (mm_Owner msg))
         else if \<not> mm_IsWholeNameModified msg \<and> \<not> mm_IsDescriptionModified msg
         then Inl ErrWholeNameAndDescriptionIsNotModified
         else
           (let t1 = (if mm_IsWholeNameModified msg then t\<lparr>tk_WholeName := mm_WholeName msg\<rparr> else t);
                t2 = (if mm_IsDescriptionModified msg then t1\<lparr>tk_Description := mm_Description msg\<rparr> else t1)
            in deduct_fee S e (mm_Owner msg) (tp_FeeModify (tokP s))
                 (\<lambda>_. ErrSendCoinsFromAccountToModuleFailed (c_str S (c_to_coins S (tp_FeeModify (tokP s)))))
                 (UpdateToken t2 s)))"

fun token_handler :: "'b sdk \<Rightarrow> env \<Rightarrow> token_msg \<Rightarrow> 'b chain \<Rightarrow> token_error + 'b chain" where
  "token_handler S e (MsgTokenIssue msg) s = handleMsgTokenIssue S e msg s"
| "token_handler S e (MsgTokenBurn amount owner) s = handleMsgTokenBurn S e amount owner s"
| "token_handler S e (MsgTokenMint amount owner) s = handleMsgTokenMint S e amount owner s"
| "token_handler S e (MsgMultiSend src transfers) s = handleMsgMultiSend S e src transfers s"
| "token_handler S e (MsgSend src dst cs) s = handleMsgSend S e src dst cs s"
| "token_handler S e (MsgTransferOwnership src dst symbol) s = handleMsgTransferOwnership S e src dst symbol s"
| "token_handler S e (MsgConfirmOwnership symbol a) s = handleMsgConfirmOwnership e symbol a s"
| "token_handler S e (MsgTokenModify msg) s = handleMsgTokenModify S e msg s"
| "token_handler S e MsgOther s = Inl ErrUnknownRequest"

subsection \<open>Genesis\<close>

record token_genesis =
  tg_Params :: token_params
  tg_Tokens :: "token list"
  tg_LockedAssets :: "(addr \<times> coins) list"
  tg_LockedFees :: "(addr \<times> coins) list"

text \<open>\<open>None\<close> is the panic of \<open>initGenesis\<close> when a lock cannot be recorded.\<close>

definition init_locks :: "'b sdk \<Rightarrow> int \<Rightarrow> (addr \<times> coins) list \<Rightarrow> 'b chain \<Rightarrow> 'b chain option" where
  "init_locks S t locks s =
     foldl (\<lambda>r (a, cs). case r of None \<Rightarrow> None
        | Some s' \<Rightarrow> (case updateLockedCoins S s' a cs True t of
            (s'', None) \<Rightarrow> Some s'' | (_, Some _) \<Rightarrow> None)) (Some s) locks"

definition token_initGenesis :: "'b sdk \<Rightarrow> token_genesis \<Rightarrow> 'b chain \<Rightarrow> 'b chain option" where
  "token_initGenesis S g s =
     (let s1 = fold NewToken (tg_Tokens g) (s\<lparr>tokP := tg_Params g\<rparr>)
      in case init_locks S LockCoinsTypeQuantity (tg_LockedAssets g) s1 of
           None \<Rightarrow> None
         | Some s2 \<Rightarrow> init_locks S LockCoinsTypeFee (tg_LockedFees g) s2)"

definition token_ExportGenesis :: "'b chain \<Rightarrow> token_genesis" where
  "token_ExportGenesis s =
     \<lparr>tg_Params = tokP s, tg_Tokens = GetTokensInfo s, tg_LockedAssets = GetAllLockedCoins s,
      tg_LockedFees = IterateLockedFees s\<rparr>"

subsection \<open>The registry\<close>

definition token_reg_ok :: "'b chain \<Rightarrow> bool" where
  "token_reg_ok s \<longleftrightarrow>
     (\<forall>symb t. map_of (ts_tokens (tok s)) symb = Some t \<longrightarrow> tk_Symbol t = symb)
     \<and> (\<forall>a symb. map_of (ts_userTokens (tok s)) (a, symb) \<noteq> None \<longleftrightarrow>
          (\<exists>t. map_of (ts_tokens (tok s)) symb = Some t \<and> tk_Owner t = a))
     \<and> (\<forall>symb c. map_of (ts_confirm (tok s)) symb = Some c \<longrightarrow>
          co_Symbol c = symb \<and> map_of (ts_tokens (tok s)) symb \<noteq> None)"

lemma token_reg_bank [simp]: "token_reg_ok (s\<lparr>bank := b\<rparr>) = token_reg_ok s"
  by (simp add: token_reg_ok_def)

lemma deduct_fee_Inr: "deduct_fee S e a fee mk s = Inr s' \<Longrightarrow>
   \<exists>b. b_acc_to_mod S (bank s) a (e_FeeCollector e) (c_to_coins S fee) = Inr b \<and> s' = s\<lparr>bank := b\<rparr>"
  by (auto simp: deduct_fee_def split: sum.splits)

lemma deduct_fee_tok: "deduct_fee S e a fee mk s = Inr s' \<Longrightarrow> tok s' = tok s"
  by (auto dest: deduct_fee_Inr)

lemma mint_to_Inr: "mint_to S a cs s = Inr s' \<Longrightarrow>
   \<exists>b b'. b_mint S (bank s) tokenModule cs = Inr b \<and> b_mod_to_acc S b tokenModule a cs = Inr b' \<and> s' = s\<lparr>bank := b'\<rparr>"
  by (auto simp: mint_to_def split: sum.splits)

lemma multi_send_tok: "multi_send_loop S e src ts s = Inr s' \<Longrightarrow> tok s' = tok s"
  by (induction S e src ts s rule: multi_send_loop.induct)
    (auto simp: SendCoinsFromAccountToAccount_def split: prod.splits option.splits if_splits sum.splits)

lemma addTokenSuffix_fresh: "addTokenSuffix S e s symb = Some name \<Longrightarrow> \<not> TokenExist s name"
proof -
  have "token_suffix_loop S s h symb n = Some name \<Longrightarrow> \<not> TokenExist s name" for h n
    by (induction n) (auto simp: Let_def split: if_splits)
  then show "addTokenSuffix S e s symb = Some name \<Longrightarrow> \<not> TokenExist s name"
    by (simp add: addTokenSuffix_def)
qed

text \<open>The state change of a token handler on the token store.\<close>

definition change_owner :: "string \<Rightarrow> addr \<Rightarrow> 'b chain \<Rightarrow> 'b chain" where
  "change_owner symbol a s =
     NewToken ((GetTokenInfo s symbol)\<lparr>tk_Owner := a\<rparr>)
       (DeleteUserToken (tk_Owner (GetTokenInfo s symbol)) (tk_Symbol (GetTokenInfo s symbol)) s)"

lemma token_reg_new:
  "token_reg_ok s \<Longrightarrow> \<not> TokenExist s (tk_Symbol t) \<Longrightarrow> token_reg_ok (NewToken t s)"
  by (auto simp: token_reg_ok_def NewToken_def TokenExist_def)

lemma token_reg_update:
  assumes "token_reg_ok s" and "map_of (ts_tokens (tok s)) symb = Some t0" and "tk_Owner t = tk_Owner t0"
    and "tk_Symbol t = symb"
  shows "token_reg_ok (UpdateToken t s)"
  using assms by (auto simp: token_reg_ok_def UpdateToken_def)

lemma token_reg_change_owner:
  assumes "token_reg_ok s" and "map_of (ts_tokens (tok s)) symb = Some t"
  shows "token_reg_ok (change_owner symb a s)"
proof -
  have "tk_Symbol t = symb" using assms by (simp add: token_reg_ok_def)
  then show ?thesis
    using assms unfolding token_reg_ok_def change_owner_def NewToken_def DeleteUserToken_def GetTokenInfo_def
    by auto
qed

lemma token_reg_confirm:
  assumes "token_reg_ok s"
  shows "map_of (ts_tokens (tok s)) (co_Symbol c) \<noteq> None \<Longrightarrow> token_reg_ok (SetConfirmOwnership c s)"
    and "token_reg_ok (DeleteConfirmOwnership symb s)"
  using assms by (auto simp: token_reg_ok_def SetConfirmOwnership_def DeleteConfirmOwnership_def)

lemma GetTokenInfo_owner:
  "tk_Owner (GetTokenInfo s symb) = a \<Longrightarrow> a \<noteq> [] \<Longrightarrow> \<exists>t. map_of (ts_tokens (tok s)) symb = Some t \<and> GetTokenInfo s symb = t"
  by (auto simp: GetTokenInfo_def zero_token_def split: option.splits)

lemma token_reg_tok: "tok s' = tok s \<Longrightarrow> token_reg_ok s' = token_reg_ok s"
  by (simp add: token_reg_ok_def)

lemma handleMsgTokenIssue_Inr:
  assumes "handleMsgTokenIssue S e m s = Inr s'"
  obtains total t s1 where "d_of_str S (mi_TotalSupply m) = Some total"
    and "total \<le> TotalSupplyUpperbound * d_unit S"
    and "addTokenSuffix S e s (mi_OriginalSymbol m) = Some (tk_Symbol t)"
    and "mint_to S (mi_Owner m) (c_to_coins S (tk_Symbol t, total)) s = Inr s1"
    and "deduct_fee S e (mi_Owner m) (tp_FeeIssue (tokP s)) ErrSendCoinsFromAccountToModuleFailed (NewToken t s1) = Inr s'"
proof -
  let ?t = "\<lambda>nm total. \<lparr>tk_Description = mi_Description m, tk_Symbol = nm, tk_OriginalSymbol = mi_OriginalSymbol m,
    tk_WholeName = mi_WholeName m, tk_OriginalTotalSupply = total, tk_Type = 0, tk_Owner = mi_Owner m,
    tk_Mintable = mi_Mintable m\<rparr>"
  from assms obtain total nm s1 where *: "d_of_str S (mi_TotalSupply m) = Some total"
    "total \<le> TotalSupplyUpperbound * d_unit S" "addTokenSuffix S e s (mi_OriginalSymbol m) = Some nm"
    "mint_to S (mi_Owner m) (c_to_coins S (nm, total)) s = Inr s1"
    "deduct_fee S e (mi_Owner m) (tp_FeeIssue (tokP s)) ErrSendCoinsFromAccountToModuleFailed
       (NewToken (?t nm total) s1) = Inr s'"
    by (auto simp: handleMsgTokenIssue_def rbind_Inr_iff Let_def not_less split: option.splits if_splits)
  then show thesis using that [of total "?t nm total" s1] by simp
qed

lemma NewToken_tok: "tok s1 = tok s \<Longrightarrow> tok (NewToken t s1) = tok (NewToken t s)"
  by (simp add: NewToken_def getTokenNum_def)

text \<open>What a successful message does to the token store.\<close>

lemma token_handler_tok:
  assumes "token_handler S e msg s = Inr s'" and "token_ValidateBasic S msg = None"
  obtains (same) "tok s' = tok s"
  | (issue) t where "\<not> TokenExist s (tk_Symbol t)" and "tok s' = tok (NewToken t s)"
  | (modify) symb t0 t where "map_of (ts_tokens (tok s)) symb = Some t0" and "tk_Owner t = tk_Owner t0"
      and "tk_Symbol t = tk_Symbol t0" and "tok s' = tok (UpdateToken t s)"
  | (request) t0 dst symb where "msg = MsgTransferOwnership (tk_Owner t0) dst symb"
      and "dst \<noteq> BlackHoleAddress" and "map_of (ts_tokens (tok s)) symb = Some t0"
      and "tok s' = tok (SetConfirmOwnership \<lparr>co_Symbol = symb, co_Address = dst,
             co_Expire = e_Time e + tp_OwnershipConfirmWindow (tokP s)\<rparr> s)"
  | (burn_owner) t0 symb where "msg = MsgTransferOwnership (tk_Owner t0) BlackHoleAddress symb"
      and "map_of (ts_tokens (tok s)) symb = Some t0" and "tok s' = tok (change_owner symb BlackHoleAddress s)"
  | (confirm) c symb a where "msg = MsgConfirmOwnership symb a" and "map_of (ts_confirm (tok s)) symb = Some c"
      and "co_Address c = a" and "e_Time e \<le> co_Expire c"
      and "tok s' = tok (DeleteConfirmOwnership (co_Symbol c) (change_owner symb a s))"
proof (cases msg)
  case (MsgTokenIssue m)
  with assms(1) have "handleMsgTokenIssue S e m s = Inr s'" by simp
  then show ?thesis
  proof (rule handleMsgTokenIssue_Inr)
    fix total t s1
    assume "addTokenSuffix S e s (mi_OriginalSymbol m) = Some (tk_Symbol t)"
      and "mint_to S (mi_Owner m) (c_to_coins S (tk_Symbol t, total)) s = Inr s1"
      and "deduct_fee S e (mi_Owner m) (tp_FeeIssue (tokP s)) ErrSendCoinsFromAccountToModuleFailed (NewToken t s1) = Inr s'"
    then have "\<not> TokenExist s (tk_Symbol t)" "tok s1 = tok s" "tok s' = tok (NewToken t s1)"
      by (auto dest: deduct_fee_tok mint_to_Inr addTokenSuffix_fresh)
    with NewToken_tok [of s1 s t] show ?thesis by (intro issue) simp_all
  qed
next
  case (MsgTokenBurn c a)
  with assms(1) have "tok s' = tok s"
    by (auto simp: handleMsgTokenBurn_def split: if_splits sum.splits dest!: deduct_fee_tok)
  then show ?thesis by (rule same)
next
  case (MsgTokenMint c a)
  with assms(1) have "tok s' = tok s"
    by (auto simp: handleMsgTokenMint_def rbind_Inr_iff Let_def split: if_splits dest!: deduct_fee_tok mint_to_Inr)
  then show ?thesis by (rule same)
next
  case (MsgMultiSend a ts)
  with assms(1) have "tok s' = tok s"
    by (auto simp: handleMsgMultiSend_def split: if_splits dest: multi_send_tok)
  then show ?thesis by (rule same)
next
  case (MsgSend a b cs)
  with assms(1) have "tok s' = tok s"
    by (auto simp: handleMsgSend_def SendCoinsFromAccountToAccount_def split: if_splits sum.splits)
  then show ?thesis by (rule same)
next
  case (MsgTransferOwnership src dst symb)
  with assms have src: "src \<noteq> []" "tk_Owner (GetTokenInfo s symb) = src"
    by (auto simp: handleMsgTransferOwnership_def Let_def split: if_splits)
  then obtain t0 where t0: "map_of (ts_tokens (tok s)) symb = Some t0" "GetTokenInfo s symb = t0"
    using GetTokenInfo_owner by metis
  show ?thesis
  proof (cases "dst = BlackHoleAddress")
    case True
    with MsgTransferOwnership assms(1) have "tok s' = tok (change_owner symb BlackHoleAddress s)"
      by (auto simp: handleMsgTransferOwnership_def change_owner_def Let_def split: if_splits dest!: deduct_fee_tok)
    with True MsgTransferOwnership src t0 show ?thesis by (intro burn_owner) auto
  next
    case False
    with MsgTransferOwnership assms(1) have "tok s' = tok (SetConfirmOwnership \<lparr>co_Symbol = symb, co_Address = dst,
             co_Expire = e_Time e + tp_OwnershipConfirmWindow (tokP s)\<rparr> s)"
      by (auto simp: handleMsgTransferOwnership_def Let_def split: if_splits dest!: deduct_fee_tok)
    with False MsgTransferOwnership src t0 show ?thesis by (intro request) auto
  qed
next
  case (MsgConfirmOwnership symb a)
  with assms(1) obtain c where "map_of (ts_confirm (tok s)) symb = Some c" "co_Address c = a"
    "e_Time e \<le> co_Expire c" "tok s' = tok (DeleteConfirmOwnership (co_Symbol c) (change_owner symb a s))"
    by (auto simp: handleMsgConfirmOwnership_def GetConfirmOwnership_def change_owner_def Let_def not_less
        split: option.splits if_splits)
  then show ?thesis by (rule confirm [OF MsgConfirmOwnership])
next
  case (MsgTokenModify m)
  with assms have own: "mm_Owner m \<noteq> []" "tk_Owner (GetTokenInfo s (mm_Symbol m)) = mm_Owner m"
    by (auto simp: handleMsgTokenModify_def Let_def split: if_splits)
  then obtain t0 where t0: "map_of (ts_tokens (tok s)) (mm_Symbol m) = Some t0" "GetTokenInfo s (mm_Symbol m) = t0"
    using GetTokenInfo_owner by metis
  define t1 where "t1 = (if mm_IsWholeNameModified m then t0\<lparr>tk_WholeName := mm_WholeName m\<rparr> else t0)"
  define t2 where "t2 = (if mm_IsDescriptionModified m then t1\<lparr>tk_Description := mm_Description m\<rparr> else t1)"
  have "tok s' = tok (UpdateToken t2 s)"
    using MsgTokenModify assms(1) t0
    by (auto simp: handleMsgTokenModify_def Let_def t1_def t2_def split: if_splits dest!: deduct_fee_tok)
  moreover have "tk_Owner t2 = tk_Owner t0" "tk_Symbol t2 = tk_Symbol t0" by (simp_all add: t1_def t2_def)
  ultimately show ?thesis using modify [OF t0(1)] by blast
next
  case MsgOther
  with assms(1) show ?thesis by simp
qed

lemma token_reg_handler:
  assumes reg: "token_reg_ok s" and "token_ValidateBasic S msg = None" and "token_handler S e msg s = Inr s'"
  shows "token_reg_ok s'"
  using assms(3,2)
proof (cases rule: token_handler_tok)
  case same
  then show ?thesis using reg token_reg_tok by metis
next
  case (issue t)
  then show ?thesis using token_reg_new [OF reg] token_reg_tok by metis
next
  case (modify symb t0 t)
  then show ?thesis using token_reg_update [OF reg modify(1,2)] token_reg_tok reg
    by (metis token_reg_ok_def)
next
  case (request t0 dst symb)
  then show ?thesis using token_reg_confirm(1) [OF reg] token_reg_tok by (metis option.distinct(1) token_confirm.select_convs(1))
next
  case (burn_owner t0 symb)
  then show ?thesis using token_reg_change_owner [OF reg] token_reg_tok by metis
next
  case (confirm c symb a)
  then obtain t where "map_of (ts_tokens (tok s)) symb = Some t" using reg unfolding token_reg_ok_def by blast
  then show ?thesis
    using confirm token_reg_confirm(2) [OF token_reg_change_owner [OF reg]] token_reg_tok by metis
qed

lemma change_owner_tokens:
  assumes "token_reg_ok s" and "map_of (ts_tokens (tok s)) symb = Some t"
  shows "map_of (ts_tokens (tok (change_owner symb a s))) =
    (map_of (ts_tokens (tok s)))(symb \<mapsto> t\<lparr>tk_Owner := a\<rparr>)"
  using assms by (simp add: change_owner_def NewToken_def DeleteUserToken_def GetTokenInfo_def token_reg_ok_def)

subsection \<open>Supply\<close>

text \<open>The supply a message adds to a denomination.\<close>

fun supply_delta :: "'b sdk \<Rightarrow> env \<Rightarrow> 'b chain \<Rightarrow> token_msg \<Rightarrow> denom \<Rightarrow> dec" where
  "supply_delta S e s (MsgTokenIssue m) d =
     (if addTokenSuffix S e s (mi_OriginalSymbol m) = Some d
      then (case d_of_str S (mi_TotalSupply m) of Some x \<Rightarrow> x | None \<Rightarrow> 0) else 0)"
| "supply_delta S e s (MsgTokenBurn c a) d = (if d = fst c then - snd c else 0)"
| "supply_delta S e s (MsgTokenMint c a) d = (if d = fst c then snd c else 0)"
| "supply_delta S e s _ d = 0"

lemma deduct_fee_supply:
  assumes "sdk_laws S" and "deduct_fee S e a fee mk s = Inr s'"
  shows "b_supply S (bank s') d = b_supply S (bank s) d"
  using deduct_fee_Inr [OF assms(2)] assms(1) bank_moves(2) moves_supply sdk_lawsD(3) by fastforce

lemma bank_mint_supply: "bank_laws S \<Longrightarrow> b_mint S b m cs = Inr b' \<Longrightarrow> b_supply S b' d = b_supply S b d + amt cs d"
  by (simp add: bank_laws_def)

lemma bank_burn_supply: "bank_laws S \<Longrightarrow> b_burn S b m cs = Inr b' \<Longrightarrow> b_supply S b' d = b_supply S b d - amt cs d"
  by (simp add: bank_laws_def)

lemma mint_to_supply:
  assumes "sdk_laws S" and "mint_to S a cs s = Inr s'"
  shows "b_supply S (bank s') d = b_supply S (bank s) d + amt cs d"
  using mint_to_Inr [OF assms(2)] assms(1) bank_mint_supply bank_moves(3) moves_supply sdk_lawsD(3) by fastforce

lemma send_supply:
  assumes "sdk_laws S" and "SendCoinsFromAccountToAccount S e s src dst cs = (s', None)"
  shows "b_supply S (bank s') d = b_supply S (bank s) d"
  using assms bank_moves(1) [OF sdk_lawsD(3) [OF assms(1)]] moves_supply
  by (fastforce simp: SendCoinsFromAccountToAccount_def split: if_splits sum.splits)

lemma multi_send_supply:
  assumes "sdk_laws S"
  shows "multi_send_loop S e src ts s = Inr s' \<Longrightarrow> b_supply S (bank s') d = b_supply S (bank s) d"
  using assms
proof (induction S e src ts s rule: multi_send_loop.induct)
  case (2 S e src dst cs rest s)
  then obtain s1 where "SendCoinsFromAccountToAccount S e s src dst cs = (s1, None)"
    "multi_send_loop S e src rest s1 = Inr s'" by (auto split: prod.splits option.splits)
  with 2 send_supply show ?case by fastforce
qed simp

lemma token_supply:
  assumes S: "sdk_laws S" and h: "token_handler S e msg s = Inr s'"
  shows "b_supply S (bank s') d = b_supply S (bank s) d + supply_delta S e s msg d"
proof (cases msg)
  case (MsgTokenIssue m)
  with h have "handleMsgTokenIssue S e m s = Inr s'" by simp
  then show ?thesis
  proof (rule handleMsgTokenIssue_Inr)
    fix total t s1
    assume m: "d_of_str S (mi_TotalSupply m) = Some total"
      "addTokenSuffix S e s (mi_OriginalSymbol m) = Some (tk_Symbol t)"
      "mint_to S (mi_Owner m) (c_to_coins S (tk_Symbol t, total)) s = Inr s1"
      "deduct_fee S e (mi_Owner m) (tp_FeeIssue (tokP s)) ErrSendCoinsFromAccountToModuleFailed (NewToken t s1) = Inr s'"
    show ?thesis
      using deduct_fee_supply [OF S m(4)] mint_to_supply [OF S m(3)] m(1,2) MsgTokenIssue
      by (simp add: NewToken_def coins_to_coins(2) [OF sdk_lawsD(2) [OF S]])
  qed
next
  case (MsgTokenBurn c a)
  with h obtain b b' where b: "b_acc_to_mod S (bank s) a tokenModule (c_to_coins S c) = Inr b"
    "b_burn S b tokenModule (c_to_coins S c) = Inr b'" "b_supply S (bank s') d = b_supply S b' d"
    by (auto simp: handleMsgTokenBurn_def split: if_splits sum.splits dest!: deduct_fee_supply [OF S, where d = d])
  with MsgTokenBurn show ?thesis
    using bank_burn_supply [OF sdk_lawsD(3) [OF S] b(2)] moves_supply [OF bank_moves(2) [OF sdk_lawsD(3) [OF S] b(1)]]
    by (cases c) (simp add: coins_to_coins(2) [OF sdk_lawsD(2) [OF S]])
next
  case (MsgTokenMint c a)
  with h obtain s1 where s1: "mint_to S a (c_to_coins S c) s = Inr s1" "b_supply S (bank s') d = b_supply S (bank s1) d"
    by (auto simp: handleMsgTokenMint_def rbind_Inr_iff Let_def split: if_splits dest!: deduct_fee_supply [OF S, where d = d])
  with MsgTokenMint show ?thesis
    by (cases c) (simp add: mint_to_supply [OF S s1(1)] coins_to_coins(2) [OF sdk_lawsD(2) [OF S]])
next
  case (MsgMultiSend a ts)
  with h multi_send_supply [OF S] show ?thesis
    by (auto simp: handleMsgMultiSend_def split: if_splits)
next
  case (MsgSend a b cs)
  with h send_supply [OF S] show ?thesis
    by (auto simp: handleMsgSend_def split: if_splits prod.splits option.splits)
next
  case (MsgTransferOwnership src dst symb)
  with h deduct_fee_supply [OF S] show ?thesis
    by (fastforce simp: handleMsgTransferOwnership_def Let_def NewToken_def DeleteUserToken_def SetConfirmOwnership_def
        split: if_splits)
next
  case (MsgConfirmOwnership symb a)
  with h show ?thesis
    by (auto simp: handleMsgConfirmOwnership_def Let_def NewToken_def DeleteUserToken_def DeleteConfirmOwnership_def
        split: if_splits option.splits)
next
  case (MsgTokenModify m)
  with h deduct_fee_supply [OF S] show ?thesis
    by (fastforce simp: handleMsgTokenModify_def Let_def UpdateToken_def split: if_splits)
next
  case MsgOther
  with h show ?thesis by simp
qed

subsection \<open>Properties\<close>

text \<open>A small chain for evaluation: one token \<open>abc\<close> owned by \<open>alice\<close>, who has funds.\<close>

definition demo_token :: token where
  "demo_token = zero_token\<lparr>tk_Symbol := ''abc'', tk_Owner := ''alice'', tk_Mintable := True\<rparr>"

definition demo_coin :: coin where "demo_coin = (NativeToken, 0)"

definition demo_chain :: "ref_bank chain" where
  "demo_chain =
     \<lparr>bank = \<lparr>rb_bal = [(''alice'', [(''abc'', 500), (''okt'', 1000)])], rb_sup = [(''abc'', 500), (''okt'', 1000)]\<rparr>,
      tok = \<lparr>ts_tokens = [(''abc'', demo_token)], ts_tokenNum = 1, ts_locked = [],
             ts_userTokens = [((''alice'', ''abc''), ())], ts_lockedFee = [], ts_confirm = []\<rparr>,
      tokP = \<lparr>tp_FeeIssue = demo_coin, tp_FeeMint = demo_coin, tp_FeeBurn = demo_coin,
              tp_FeeModify = demo_coin, tp_FeeChown = demo_coin, tp_OwnershipConfirmWindow = 10\<rparr>,
      feeDetails = [],
      dex = \<lparr>ds_pairs = [], ds_maxPairID = 0, ds_locks = [], ds_userPairs = [], ds_withdraws = [],
             ds_withdrawTimes = [], ds_operators = [], ds_confirm = []\<rparr>,
      dexP = \<lparr>dp_ListFee = demo_coin, dp_TransferOwnershipFee = demo_coin, dp_RegisterOperatorFee = demo_coin,
              dp_DelistMaxDepositPeriod = 1, dp_DelistMinDeposit = [], dp_DelistVotingPeriod = 1,
              dp_WithdrawPeriod = 5, dp_OwnershipConfirmWindow = 10\<rparr>,
      ord = \<lparr>os_orders = [], os_depth = [], os_ids = [], os_price = [], os_expire = [], os_orderNum = [],
             os_closed = None, os_lastExpired = None, os_openNum = None, os_storeNum = None\<rparr>,
      ordP = \<lparr>p_OrderExpireBlocks = 3, p_MaxDealsPerBlock = 10, p_FeePerBlock = demo_coin, p_TradeFeeRate = 0,
              p_NewOrderMsgGasUnit = 1, p_CancelOrderMsgGasUnit = 1\<rparr>,
      dcache = \<lparr>dk_books = [], dk_booksUpdated = [], dk_booksNew = [], dk_ids = [], dk_idsUpdated = [],
                dk_price = [], dk_storeOrderNum = 0, dk_openNum = 0, dk_closed = []\<rparr>,
      mcache = \<lparr>mc_updated = [], mc_result = None, mc_txResults = [], mc_cancelNum = 0, mc_expireNum = 0,
                mc_partialFillNum = 0, mc_fullFillNum = 0\<rparr>\<rparr>"

definition demo_env :: env where
  "demo_env = \<lparr>e_Height = 5, e_Time = 100, e_TxHash = ''0a1b2c'', e_TxHashUpper = ''0A1B2C'', e_CheckTx = False,
     e_Backend = True, e_FeeCollector = ''fee''\<rparr>"

lemma demo_reg: "token_reg_ok demo_chain"
  by (simp add: token_reg_ok_def demo_chain_def demo_token_def)

text \<open>
  The token registry stays consistent: after every successful, statelessly valid message each
  token is stored under its own symbol, the owner index lists exactly the pairs (owner, symbol) of the
  stored tokens, and every pending transfer belongs to a stored token.
\<close>

theorem token_registry_invariant:
  assumes "token_reg_ok s" and "token_ValidateBasic S msg = None" and "token_handler S e msg s = Inr s'"
  shows "token_reg_ok s'"
  by (rule token_reg_handler [OF assms])

theorem token_registry_invariant_witness:
  "\<exists>s'. token_handler ref_sdk demo_env (MsgTransferOwnership ''alice'' ''bob'' ''abc'') demo_chain = Inr s'
     \<and> token_reg_ok s'"
proof -
  let ?m = "MsgTransferOwnership ''alice'' ''bob'' ''abc''"
  have "token_ValidateBasic ref_sdk ?m = None" by (simp add: ref_sdk_def)
  moreover have "is_ok (token_handler ref_sdk demo_env ?m demo_chain)" by code_simp
  then obtain s' where "token_handler ref_sdk demo_env ?m demo_chain = Inr s'" unfolding is_ok_iff ..
  ultimately show ?thesis using token_registry_invariant [OF demo_reg] by blast
qed

text \<open>
  C27. Ownership changes hands only with consent: after a successful, valid message every token still
  exists, and its owner is the same unless the owner himself gave it to the black hole or the new owner
  confirmed a pending, unexpired request naming him; and a request that appears was made by the owner, for
  the configured window.
\<close>

theorem token_owner_consent:
  assumes "token_reg_ok s" and "token_ValidateBasic S msg = None" and "token_handler S e msg s = Inr s'"
    and "map_of (ts_tokens (tok s)) symb = Some t"
  shows "(\<exists>t'. map_of (ts_tokens (tok s')) symb = Some t' \<and>
       (tk_Owner t' = tk_Owner t
        \<or> msg = MsgTransferOwnership (tk_Owner t) BlackHoleAddress symb \<and> tk_Owner t' = BlackHoleAddress
        \<or> (\<exists>c. msg = MsgConfirmOwnership symb (tk_Owner t') \<and> map_of (ts_confirm (tok s)) symb = Some c
             \<and> co_Address c = tk_Owner t' \<and> e_Time e \<le> co_Expire c)))
     \<and> (\<forall>c. map_of (ts_confirm (tok s')) symb = Some c \<and> map_of (ts_confirm (tok s)) symb \<noteq> Some c \<longrightarrow>
          msg = MsgTransferOwnership (tk_Owner t) (co_Address c) symb
          \<and> co_Expire c = e_Time e + tp_OwnershipConfirmWindow (tokP s))"
  using assms(3,2)
proof (cases rule: token_handler_tok)
  case same
  with assms(4) show ?thesis by simp
next
  case (issue t1)
  with assms(4) show ?thesis by (auto simp: TokenExist_def NewToken_def)
next
  case (modify symb1 t0 t1)
  moreover from this have "tk_Symbol t0 = symb1" using assms(1) unfolding token_reg_ok_def by blast
  ultimately show ?thesis using assms(4) by (auto simp: UpdateToken_def)
next
  case (request t0 dst symb1)
  with assms(4) show ?thesis by (auto simp: SetConfirmOwnership_def)
next
  case (burn_owner t0 symb1)
  with assms(4) change_owner_tokens [OF assms(1) burn_owner(2)] show ?thesis
    by (auto simp: change_owner_def NewToken_def DeleteUserToken_def)
next
  case (confirm c symb1 a)
  then obtain t1 where t1: "map_of (ts_tokens (tok s)) symb1 = Some t1" using assms(1) unfolding token_reg_ok_def by blast
  have "ts_tokens (tok s') = ts_tokens (tok (change_owner symb1 a s))"
    "ts_confirm (tok s') = kv_del (co_Symbol c) (ts_confirm (tok s))"
    using confirm(5) by (simp_all add: DeleteConfirmOwnership_def change_owner_def NewToken_def DeleteUserToken_def)
  with assms(4) confirm t1 change_owner_tokens [OF assms(1) t1] show ?thesis by auto
qed

theorem token_owner_consent_witness:
  "\<exists>s' t'. token_handler ref_sdk demo_env (MsgTransferOwnership ''alice'' ''bob'' ''abc'') demo_chain = Inr s'
     \<and> map_of (ts_tokens (tok s')) ''abc'' = Some t' \<and> tk_Owner t' = ''alice''"
proof -
  let ?m = "MsgTransferOwnership ''alice'' ''bob'' ''abc''"
  have v: "token_ValidateBasic ref_sdk ?m = None" by (simp add: ref_sdk_def)
  have "is_ok (token_handler ref_sdk demo_env ?m demo_chain)" by code_simp
  then obtain s' where s': "token_handler ref_sdk demo_env ?m demo_chain = Inr s'" unfolding is_ok_iff ..
  have "map_of (ts_tokens (tok demo_chain)) ''abc'' = Some demo_token" "tk_Owner demo_token = ''alice''"
    by (simp_all add: demo_chain_def demo_token_def)
  moreover have "''bob'' \<noteq> BlackHoleAddress" by code_simp
  ultimately show ?thesis using token_owner_consent [OF demo_reg v s', of "''abc''" demo_token] s' by auto
qed

text \<open>
  C28. Only issuing, minting and burning change the supply, by exactly the amount of the message, and
  no successful mint takes a supply above ninety billion.
\<close>

theorem token_supply_accounting:
  assumes "sdk_laws S" and "token_handler S e msg s = Inr s'"
  shows "b_supply S (bank s') d = b_supply S (bank s) d + supply_delta S e s msg d
     \<and> (\<forall>c a. msg = MsgTokenMint c a \<longrightarrow> b_supply S (bank s') (fst c) \<le> TotalSupplyUpperbound * d_unit S)"
proof (intro conjI allI impI)
  show "b_supply S (bank s') d = b_supply S (bank s) d + supply_delta S e s msg d"
    by (rule token_supply [OF assms])
  fix c a assume m: "msg = MsgTokenMint c a"
  with assms(2) have "b_supply S (bank s) (fst c) + snd c \<le> TotalSupplyUpperbound * d_unit S"
    by (auto simp: handleMsgTokenMint_def Let_def not_less split: if_splits)
  with token_supply [OF assms, of "fst c"] m
  show "b_supply S (bank s') (fst c) \<le> TotalSupplyUpperbound * d_unit S" by simp
qed

theorem token_supply_accounting_witness:
  "\<exists>s'. token_handler ref_sdk demo_env (MsgTokenMint (''abc'', 70) ''alice'') demo_chain = Inr s'
     \<and> b_supply ref_sdk (bank s') ''abc'' = 570"
proof -
  have "is_ok (token_handler ref_sdk demo_env (MsgTokenMint (''abc'', 70) ''alice'') demo_chain)" by code_simp
  then obtain s' where s': "token_handler ref_sdk demo_env (MsgTokenMint (''abc'', 70) ''alice'') demo_chain = Inr s'"
    unfolding is_ok_iff ..
  moreover have "b_supply ref_sdk (bank demo_chain) ''abc'' = 500" by code_simp
  ultimately show ?thesis using token_supply_accounting [OF ref_sdk_laws s', of "''abc''"] by simp
qed

text \<open>
  Confirming a transfer of ownership registers no token but advances the token number: after
  it the number differs from the number of stored tokens, which it matched before.
\<close>

theorem confirm_overcounts_tokens:
  assumes "token_reg_ok s" and "kv_ok (ts_tokens (tok s))" and "length (ts_tokens (tok s)) < 2 ^ 64 - 1"
    and "ts_tokenNum (tok s) = length (ts_tokens (tok s))"
    and "token_handler S e (MsgConfirmOwnership symb a) s = Inr s'"
  shows "ts_tokenNum (tok s') = length (ts_tokens (tok s')) + 1"
proof -
  from assms(5) obtain c where c: "map_of (ts_confirm (tok s)) symb = Some c"
    "s' = DeleteConfirmOwnership (co_Symbol c) (change_owner symb a s)"
    by (auto simp: handleMsgConfirmOwnership_def GetConfirmOwnership_def change_owner_def Let_def
        split: option.splits if_splits)
  then obtain t where t: "map_of (ts_tokens (tok s)) symb = Some t" "tk_Symbol t = symb"
    using assms(1) unfolding token_reg_ok_def by blast
  have "ts_tokens (tok s') = kv_set symb (t\<lparr>tk_Owner := a\<rparr>) (ts_tokens (tok s))"
    "ts_tokenNum (tok s') = (ts_tokenNum (tok s) + 1) mod 2 ^ 64"
    using c(2) t by (simp_all add: DeleteConfirmOwnership_def change_owner_def NewToken_def DeleteUserToken_def
        GetTokenInfo_def getTokenNum_def)
  with length_kv_set [OF assms(2), of symb "t\<lparr>tk_Owner := a\<rparr>"] t(1) assms(3,4) show ?thesis by simp
qed

theorem confirm_overcounts_tokens_witness:
  "\<exists>s s'. token_handler ref_sdk demo_env (MsgConfirmOwnership ''abc'' ''bob'') s = Inr s'
     \<and> ts_tokenNum (tok s') = length (ts_tokens (tok s')) + 1"
proof -
  let ?s = "demo_chain\<lparr>tok := (tok demo_chain)\<lparr>ts_confirm :=
     [(''abc'', \<lparr>co_Symbol = ''abc'', co_Address = ''bob'', co_Expire = 105\<rparr>)]\<rparr>\<rparr>"
  have "is_ok (token_handler ref_sdk demo_env (MsgConfirmOwnership ''abc'' ''bob'') ?s)"
    by (simp add: handleMsgConfirmOwnership_def GetConfirmOwnership_def demo_chain_def demo_env_def Let_def)
  then obtain s' where s': "token_handler ref_sdk demo_env (MsgConfirmOwnership ''abc'' ''bob'') ?s = Inr s'"
    unfolding is_ok_iff ..
  have "token_reg_ok ?s" using demo_reg by (simp add: token_reg_ok_def demo_chain_def demo_token_def)
  moreover have "kv_ok (ts_tokens (tok ?s))" "length (ts_tokens (tok ?s)) < 2 ^ 64 - 1"
    "ts_tokenNum (tok ?s) = length (ts_tokens (tok ?s))" by (simp_all add: kv_ok_def demo_chain_def)
  ultimately show ?thesis using confirm_overcounts_tokens [OF _ _ _ _ s'] s' by blast
qed

text \<open>
  What is locked comes back: locking coins of a user account and unlocking them again restores
  every user's balance, every recorded lock and the surplus of the module account over the recorded
  locks, for every denomination.
\<close>

theorem lock_unlock_restores:
  assumes "sdk_laws S" and "locks_ok s" and "user_acc S a" and "coins_ok cs"
    and "LockCoins S s a cs t = (s1, None)" and "UnlockCoins S s1 a cs t = (s2, None)"
    and "lock_type_ok t'" and "user_acc S b"
  shows "escrow_gap S s2 d = escrow_gap S s d \<and> locked_of s2 b t' d = locked_of s b t' d
     \<and> free_of S s2 b d = free_of S s b d"
  using escrow.lock_unlock [OF _ assms(3-8)] assms(1,2) by blast

definition ok_state :: "'s \<times> 'e option \<Rightarrow> bool" where
  "ok_state r = (snd r = None)"

lemma ok_stateE: "ok_state r \<Longrightarrow> r = (fst r, None)"
  by (cases r) (simp add: ok_state_def)

theorem lock_unlock_restores_witness:
  "\<exists>s1 s2. LockCoins ref_sdk demo_chain ''alice'' [(''abc'', 200)] LockCoinsTypeQuantity = (s1, None)
     \<and> UnlockCoins ref_sdk s1 ''alice'' [(''abc'', 200)] LockCoinsTypeQuantity = (s2, None)
     \<and> free_of ref_sdk s2 ''alice'' ''abc'' = free_of ref_sdk demo_chain ''alice'' ''abc''"
proof -
  let ?l = "LockCoins ref_sdk demo_chain ''alice'' [(''abc'', 200)] LockCoinsTypeQuantity"
  let ?u = "UnlockCoins ref_sdk (fst ?l) ''alice'' [(''abc'', 200)] LockCoinsTypeQuantity"
  have "ok_state ?l" by code_simp
  then have l: "?l = (fst ?l, None)" by (rule ok_stateE)
  have "ok_state ?u" by code_simp
  then have u: "?u = (fst ?u, None)" by (rule ok_stateE)
  have "locks_ok demo_chain" by (simp add: locks_ok_def demo_chain_def kv_ok_def)
  moreover have "user_acc ref_sdk ''alice''" by (simp add: user_acc_def ref_sdk_def rb_mod_def)
  ultimately have "free_of ref_sdk (fst ?u) ''alice'' ''abc'' = free_of ref_sdk demo_chain ''alice'' ''abc''"
    using lock_unlock_restores [OF ref_sdk_laws _ _ _ l u, of LockCoinsTypeQuantity "''alice''"]
    by (simp add: lock_type_ok_def)
  with l u show ?thesis by metis
qed

subsection \<open>Genesis round trip\<close>

definition token_store_empty :: token_store where
  "token_store_empty = \<lparr>ts_tokens = [], ts_tokenNum = 0, ts_locked = [], ts_userTokens = [], ts_lockedFee = [],
     ts_confirm = []\<rparr>"

lemma fold_NewToken:
  "ts_tokens (tok (fold NewToken ts s)) = fold (\<lambda>t. kv_set (tk_Symbol t) t) ts (ts_tokens (tok s))
   \<and> ts_locked (tok (fold NewToken ts s)) = ts_locked (tok s)
   \<and> ts_lockedFee (tok (fold NewToken ts s)) = ts_lockedFee (tok s)
   \<and> tokP (fold NewToken ts s) = tokP s"
  by (induction ts arbitrary: s) (auto simp: NewToken_def)

lemma init_locks_sorted:
  assumes "coins_laws S" and "lock_type_ok t"
    and "kv_ok (lock_store s t @ m)" and "\<forall>p\<in>set m. coins_ok (snd p) \<and> snd p \<noteq> []"
  shows "init_locks S t m s = Some (set_lock_store t (lock_store s t @ m) s)"
  using assms(3,4)
proof (induction m arbitrary: s)
  case Nil
  then show ?case by (simp add: init_locks_def set_lock_store_def lock_store_def)
next
  case (Cons p m)
  obtain a cs where p: "p = (a, cs)" by force
  have lt: "\<forall>x\<in>fst ` set (lock_store s t). x < a"
    using Cons.prems(1) p by (auto simp: kv_ok_def sorted_wrt_append)
  then have "map_of (lock_store s t) a = None"
    by (auto simp: map_of_eq_None_iff)
  then have "updateLockedCoins S s a cs True t = (set_lock_store t (lock_store s t @ [(a, cs)]) s, None)"
    using assms(1,2) Cons.prems(2) p kv_set_append [OF lt, of cs]
    by (auto simp: updateLockedCoins_def lock_type_ok_def coins_sort_id Let_def)
  with Cons.IH [of "set_lock_store t (lock_store s t @ [(a, cs)]) s"] Cons.prems p assms(2)
  show ?case by (simp add: init_locks_def) (simp add: set_lock_store_def)
qed

text \<open>
  Exporting the token module and initialising an empty token store from the export gives back the
  same tokens, locked coins, locked fees and parameters, without a panic.
\<close>

theorem token_genesis_roundtrip:
  assumes "coins_laws S" and "token_reg_ok s" and "kv_ok (ts_tokens (tok s))" and "locks_ok s"
    and "\<forall>p\<in>set (ts_locked (tok s)) \<union> set (ts_lockedFee (tok s)). snd p \<noteq> []"
    and "tok s0 = token_store_empty"
  shows "\<exists>s'. token_initGenesis S (token_ExportGenesis s) s0 = Some s'
     \<and> ts_tokens (tok s') = ts_tokens (tok s) \<and> ts_locked (tok s') = ts_locked (tok s)
     \<and> ts_lockedFee (tok s') = ts_lockedFee (tok s) \<and> tokP s' = tokP s"
proof -
  let ?s1 = "fold NewToken (GetTokensInfo s) (s0\<lparr>tokP := tokP s\<rparr>)"
  have sym: "tk_Symbol (snd p) = fst p" if "p \<in> set (ts_tokens (tok s))" for p
    using that assms(2,3) kv_ok_distinct [OF assms(3)]
    by (metis token_reg_ok_def map_of_eq_Some_iff prod.collapse)
  have "fold (\<lambda>t. kv_set (tk_Symbol t) t) (GetTokensInfo s) []
      = fold (\<lambda>p. kv_set (fst p) (snd p)) (ts_tokens (tok s)) []"
    unfolding GetTokensInfo_def fold_map comp_def by (rule fold_cong) (simp_all add: sym)
  also have "\<dots> = ts_tokens (tok s)" using fold_kv_set_sorted [of "[]"] assms(3) by simp
  finally have s1: "ts_tokens (tok ?s1) = ts_tokens (tok s)" "ts_locked (tok ?s1) = []"
    "ts_lockedFee (tok ?s1) = []" "tokP ?s1 = tokP s"
    using fold_NewToken [of "GetTokensInfo s" "s0\<lparr>tokP := tokP s\<rparr>"] assms(6) by (simp_all add: token_store_empty_def)
  let ?s2 = "set_lock_store LockCoinsTypeQuantity (ts_locked (tok s)) ?s1"
  have "init_locks S LockCoinsTypeQuantity (ts_locked (tok s)) ?s1 = Some ?s2"
    using init_locks_sorted [OF assms(1), of LockCoinsTypeQuantity ?s1 "ts_locked (tok s)"] s1 assms(4,5)
    by (simp add: lock_type_ok_def lock_store_def locks_ok_def)
  moreover have "init_locks S LockCoinsTypeFee (ts_lockedFee (tok s)) ?s2
      = Some (set_lock_store LockCoinsTypeFee (ts_lockedFee (tok s)) ?s2)"
    using init_locks_sorted [OF assms(1), of LockCoinsTypeFee ?s2 "ts_lockedFee (tok s)"] s1 assms(4,5)
    by (simp add: lock_type_ok_def lock_store_def locks_ok_def set_lock_store_def)
  ultimately show ?thesis
    using s1 by (simp add: token_initGenesis_def token_ExportGenesis_def GetAllLockedCoins_def
        IterateLockedFees_def set_lock_store_def)
qed

theorem token_genesis_roundtrip_witness:
  "\<exists>s'. token_initGenesis ref_sdk (token_ExportGenesis demo_chain) (demo_chain\<lparr>tok := token_store_empty\<rparr>) = Some s'
     \<and> ts_tokens (tok s') = [(''abc'', demo_token)]"
proof -
  have "kv_ok (ts_tokens (tok demo_chain))" "locks_ok demo_chain"
    "\<forall>p\<in>set (ts_locked (tok demo_chain)) \<union> set (ts_lockedFee (tok demo_chain)). snd p \<noteq> []"
    by (simp_all add: kv_ok_def locks_ok_def demo_chain_def)
  from token_genesis_roundtrip [OF sdk_lawsD(2) [OF ref_sdk_laws] demo_reg this, of "demo_chain\<lparr>tok := token_store_empty\<rparr>"]
  show ?thesis by (auto simp: demo_chain_def)
qed

end
