(* ===== verification/Dex.thy ===== *)
theory Dex
  imports TokenHandler
begin

text \<open>
  The dex module's keeper (\<open>x/dex/keeper/keeper.go\<close>, \<open>product_lock.go\<close>, \<open>proposal.go\<close>), the order on token
  pairs (\<open>x/dex/types/pair.go\<close>) and its end blocker. Notifications of the stream plugin have no effect on
  the state and are left out. \<open>sort.Sort\<close> is the insertion sort that Go's library runs on short slices; on a
  strict total order every comparison sort gives the same result.
\<close>

datatype dex_error =
    ErrInvalidTokenPair string | ErrMustTokenPairOwner addr string | ErrDepositOnlySupportDenom denom
  | ErrInsufficientDepositCoins string | ErrWithdrawOnlySupportDenom denom
  | ErrInsufficientWithdrawCoins coin coin | ErrInvalidDexAddress addr | ErrTokenPairNotFound string
  | ErrTokenOfPairNotExist string string | ErrUnknownOperator addr | ErrTokenPairExisted string string
  | ErrInsufficientFeeCoins coins | ErrIsTransferringOwner string | ErrDepositFailed dex_error
  | ErrWithdrawFailed dex_error | ErrUnauthorized addr string | ErrRepeatedTransferOwner string
  | ErrGetConfirmOwnershipNotExist addr | ErrIsTransferOwnerExpired int | ErrExistOperator addr
  | ErrUnauthorizedOperator addr addr | ErrDexInsufficientCoins string | ErrDexUnknownMsgType
  | ErrIsTokenPairLocked string | ErrInvalidProposer | ErrInvalidAsset coins | ErrBalanceNotEnough addr coins
  | ErrDexInvalidCoins | ErrInitPriceIsNotPositive | ErrDexAddressIsRequired string | ErrTokenPairIsRequired
  | ErrInvalidWebsiteLength nat nat | ErrInvalidWebsiteURL string | ErrInternal string

subsection \<open>Sorting\<close>

text \<open>\<open>insertionSort\<close>: the element at \<open>i\<close> moves left while it is \<open>Less\<close> than its left neighbour.\<close>

fun sink :: "('a \<Rightarrow> 'a \<Rightarrow> bool) \<Rightarrow> 'a \<Rightarrow> 'a list \<Rightarrow> 'a list" where
  "sink cmp x [] = [x]"
| "sink cmp x (y # ys) = (if cmp x y then y # sink cmp x ys else x # y # ys)"

definition go_sort :: "('a \<Rightarrow> 'a \<Rightarrow> bool) \<Rightarrow> 'a list \<Rightarrow> 'a list" where
  "go_sort cmp xs = rev (foldl (\<lambda>acc x. sink cmp x acc) [] xs)"

lemma mset_sink [simp]: "mset (sink cmp x ys) = add_mset x (mset ys)"
  by (induction ys) auto

lemma mset_foldl_sink: "mset (foldl (\<lambda>acc x. sink cmp x acc) acc xs) = mset acc + mset xs"
  by (induction xs arbitrary: acc) auto

lemma mset_go_sort [simp]: "mset (go_sort cmp xs) = mset xs"
  by (simp add: go_sort_def mset_foldl_sink)

lemma set_go_sort [simp]: "set (go_sort cmp xs) = set xs"
  using mset_go_sort [of cmp xs] by (metis set_mset_mset)

lemma length_go_sort [simp]: "length (go_sort cmp xs) = length xs"
  using mset_go_sort [of cmp xs] by (metis size_mset)

subsection \<open>Token pairs\<close>

definition pair_name :: "token_pair \<Rightarrow> string" where
  "pair_name tp = pr_Base tp @ ''_'' @ pr_Quote tp"

definition IsGT :: "token_pair \<Rightarrow> token_pair \<Rightarrow> bool" where
  "IsGT tp other =
     (if snd (pr_Deposits tp) < snd (pr_Deposits other) then False
      else if snd (pr_Deposits tp) \<noteq> snd (pr_Deposits other) then True
      else if pr_BlockHeight tp < pr_BlockHeight other then True
      else if pr_BlockHeight tp > pr_BlockHeight other then False
      else pr_Base tp < pr_Base other \<or> pr_Quote tp < pr_Quote other)"

definition GetTokenPair :: "'b chain \<Rightarrow> string \<Rightarrow> token_pair option" where
  "GetTokenPair s product = map_of (ds_pairs (dex s)) product"

definition GetTokenPairs :: "'b chain \<Rightarrow> token_pair list" where
  "GetTokenPairs s = map snd (ds_pairs (dex s))"

definition GetUserTokenPairs :: "'b chain \<Rightarrow> addr \<Rightarrow> token_pair list" where
  "GetUserTokenPairs s owner =
     List.map_filter (\<lambda>((a, product), _). if a = owner then GetTokenPair s product else None)
       (ds_userPairs (dex s))"

definition GetTokenPairsOrdered :: "'b chain \<Rightarrow> token_pair list" where
  "GetTokenPairsOrdered s = go_sort IsGT (GetTokenPairs s)"

definition UpdateTokenPair :: "string \<Rightarrow> token_pair \<Rightarrow> 'b chain \<Rightarrow> 'b chain" where
  "UpdateTokenPair product tp s = s\<lparr>dex := (dex s)\<lparr>ds_pairs := kv_set product tp (ds_pairs (dex s))\<rparr>\<rparr>"

definition UpdateUserTokenPair :: "string \<Rightarrow> addr \<Rightarrow> addr \<Rightarrow> 'b chain \<Rightarrow> 'b chain" where
  "UpdateUserTokenPair product owner dst s =
     s\<lparr>dex := (dex s)\<lparr>ds_userPairs := kv_set (dst, product) () (kv_del (owner, product) (ds_userPairs (dex s)))\<rparr>\<rparr>"

definition DeleteTokenPairByName :: "addr \<Rightarrow> string \<Rightarrow> 'b chain \<Rightarrow> 'b chain" where
  "DeleteTokenPairByName owner product s =
     s\<lparr>dex := (dex s)\<lparr>ds_pairs := kv_del product (ds_pairs (dex s)),
        ds_userPairs := kv_del (owner, product) (ds_userPairs (dex s))\<rparr>\<rparr>"

text \<open>Pair numbers are \<open>uint64\<close>.\<close>

definition SaveTokenPair :: "token_pair \<Rightarrow> 'b chain \<Rightarrow> 'b chain" where
  "SaveTokenPair tp s =
     (let maxTokenPairID = ds_maxPairID (dex s);
          tp' = (if pr_ID tp = 0 then tp\<lparr>pr_ID := (maxTokenPairID + 1) mod 2 ^ 64\<rparr> else tp);
          keyPair = pair_name tp'
      in s\<lparr>dex := (dex s)\<lparr>
           ds_maxPairID := (if pr_ID tp' > maxTokenPairID then pr_ID tp' else maxTokenPairID),
           ds_pairs := kv_set keyPair tp' (ds_pairs (dex s)),
           ds_userPairs := kv_set (pr_Owner tp', keyPair) () (ds_userPairs (dex s))\<rparr>\<rparr>)"

definition CheckTokenPairUnderDexDelist :: "'b chain \<Rightarrow> string \<Rightarrow> bool \<times> dex_error option" where
  "CheckTokenPairUnderDexDelist s product =
     (case GetTokenPair s product of
        Some tp \<Rightarrow> (pr_Delisting tp, None)
      | None \<Rightarrow> (True, Some (ErrTokenPairNotFound product)))"

text \<open>
  \<open>SortProducts\<close> writes the sorted names over the beginning of the slice and leaves the rest as it was.
\<close>

definition SortProducts :: "'b chain \<Rightarrow> string list \<Rightarrow> string list" where
  "SortProducts s products =
     (let tokenPairs = go_sort IsGT (List.map_filter (GetTokenPair s) products)
      in map pair_name tokenPairs @ drop (length tokenPairs) products)"

subsection \<open>Product locks\<close>

definition getProductLock :: "'b chain \<Rightarrow> string \<Rightarrow> product_lock option" where
  "getProductLock s product = map_of (ds_locks (dex s)) product"

definition IsTokenPairLocked :: "'b chain \<Rightarrow> string \<Rightarrow> bool" where
  "IsTokenPairLocked s product = (getProductLock s product \<noteq> None)"

definition LockTokenPair :: "string \<Rightarrow> product_lock \<Rightarrow> 'b chain \<Rightarrow> 'b chain" where
  "LockTokenPair product lock s = s\<lparr>dex := (dex s)\<lparr>ds_locks := kv_set product lock (ds_locks (dex s))\<rparr>\<rparr>"

definition UnlockTokenPair :: "string \<Rightarrow> 'b chain \<Rightarrow> 'b chain" where
  "UnlockTokenPair product s = s\<lparr>dex := (dex s)\<lparr>ds_locks := kv_del product (ds_locks (dex s))\<rparr>\<rparr>"

definition LoadProductLocks :: "'b chain \<Rightarrow> (string, product_lock) kv" where
  "LoadProductLocks s = ds_locks (dex s)"

definition GetLockedProductsCopy :: "'b chain \<Rightarrow> (string, product_lock) kv" where
  "GetLockedProductsCopy s = LoadProductLocks s"

definition IsAnyProductLocked :: "'b chain \<Rightarrow> bool" where
  "IsAnyProductLocked s = (LoadProductLocks s \<noteq> [])"

subsection \<open>Operators and pending transfers\<close>

definition GetOperator :: "'b chain \<Rightarrow> addr \<Rightarrow> dex_operator option" where
  "GetOperator s a = map_of (ds_operators (dex s)) a"

definition SetOperator :: "dex_operator \<Rightarrow> 'b chain \<Rightarrow> 'b chain" where
  "SetOperator op s = s\<lparr>dex := (dex s)\<lparr>ds_operators := kv_set (op_Address op) op (ds_operators (dex s))\<rparr>\<rparr>"

definition dex_GetConfirmOwnership :: "'b chain \<Rightarrow> string \<Rightarrow> dex_confirm option" where
  "dex_GetConfirmOwnership s product = map_of (ds_confirm (dex s)) product"

definition dex_SetConfirmOwnership :: "dex_confirm \<Rightarrow> 'b chain \<Rightarrow> 'b chain" where
  "dex_SetConfirmOwnership c s = s\<lparr>dex := (dex s)\<lparr>ds_confirm := kv_set (dc_Product c) c (ds_confirm (dex s))\<rparr>\<rparr>"

definition dex_DeleteConfirmOwnership :: "string \<Rightarrow> 'b chain \<Rightarrow> 'b chain" where
  "dex_DeleteConfirmOwnership product s = s\<lparr>dex := (dex s)\<lparr>ds_confirm := kv_del product (ds_confirm (dex s))\<rparr>\<rparr>"

subsection \<open>Deposits\<close>

definition GetWithdrawInfo :: "'b chain \<Rightarrow> addr \<Rightarrow> withdraw_info option" where
  "GetWithdrawInfo s a = map_of (ds_withdraws (dex s)) a"

definition SetWithdrawInfo :: "withdraw_info \<Rightarrow> 'b chain \<Rightarrow> 'b chain" where
  "SetWithdrawInfo w s = s\<lparr>dex := (dex s)\<lparr>ds_withdraws := kv_set (wi_Owner w) w (ds_withdraws (dex s))\<rparr>\<rparr>"

definition deleteWithdrawInfo :: "addr \<Rightarrow> 'b chain \<Rightarrow> 'b chain" where
  "deleteWithdrawInfo a s = s\<lparr>dex := (dex s)\<lparr>ds_withdraws := kv_del a (ds_withdraws (dex s))\<rparr>\<rparr>"

definition SetWithdrawCompleteTimeAddress :: "int \<Rightarrow> addr \<Rightarrow> 'b chain \<Rightarrow> 'b chain" where
  "SetWithdrawCompleteTimeAddress t a s =
     s\<lparr>dex := (dex s)\<lparr>ds_withdrawTimes := kv_set (t, a) () (ds_withdrawTimes (dex s))\<rparr>\<rparr>"

definition DeleteWithdrawCompleteTimeAddress :: "int \<Rightarrow> addr \<Rightarrow> 'b chain \<Rightarrow> 'b chain" where
  "DeleteWithdrawCompleteTimeAddress t a s =
     s\<lparr>dex := (dex s)\<lparr>ds_withdrawTimes := kv_del (t, a) (ds_withdrawTimes (dex s))\<rparr>\<rparr>"

definition Deposit :: "'b sdk \<Rightarrow> string \<Rightarrow> addr \<Rightarrow> coin \<Rightarrow> 'b chain \<Rightarrow> dex_error + 'b chain" where
  "Deposit S product src amount s =
     (case GetTokenPair s product of
        None \<Rightarrow> Inl (ErrInvalidTokenPair product)
      | Some tp \<Rightarrow>
          if pr_Owner tp \<noteq> src then Inl (ErrMustTokenPairOwner src product)
          else if fst amount \<noteq> NativeToken then Inl (ErrDepositOnlySupportDenom NativeToken)
          else (case b_acc_to_mod S (bank s) src dexModule (c_to_coins S amount) of
                  Inl er \<Rightarrow> Inl (ErrInsufficientDepositCoins (c_str S (c_to_coins S amount)))
                | Inr b \<Rightarrow> Inr (UpdateTokenPair product
                    (tp\<lparr>pr_Deposits := (fst (pr_Deposits tp), snd (pr_Deposits tp) + snd amount)\<rparr>) (s\<lparr>bank := b\<rparr>))))"

definition Withdraw :: "env \<Rightarrow> string \<Rightarrow> addr \<Rightarrow> coin \<Rightarrow> 'b chain \<Rightarrow> dex_error + 'b chain" where
  "Withdraw e product dst amount s =
     (case GetTokenPair s product of
        None \<Rightarrow> Inl (ErrInvalidTokenPair product)
      | Some tp \<Rightarrow>
          if pr_Owner tp \<noteq> dst then Inl (ErrMustTokenPairOwner dst product)
          else if fst amount \<noteq> NativeToken then Inl (ErrWithdrawOnlySupportDenom NativeToken)
          else if snd (pr_Deposits tp) < snd amount then Inl (ErrInsufficientWithdrawCoins (pr_Deposits tp) amount)
          else
            (let completeTime = e_Time e + dp_WithdrawPeriod (dexP s);
                 (w, s1) = (case GetWithdrawInfo s dst of
                     None \<Rightarrow> (\<lparr>wi_Owner = dst, wi_Deposits = amount, wi_CompleteTime = completeTime\<rparr>, s)
                   | Some w0 \<Rightarrow>
                       (w0\<lparr>wi_Deposits := (fst (wi_Deposits w0), snd (wi_Deposits w0) + snd amount),
                           wi_CompleteTime := completeTime\<rparr>,
                        DeleteWithdrawCompleteTimeAddress (wi_CompleteTime w0) dst s));
                 s2 = SetWithdrawCompleteTimeAddress completeTime dst (SetWithdrawInfo w s1)
             in Inr (UpdateTokenPair product
                  (tp\<lparr>pr_Deposits := (fst (pr_Deposits tp), snd (pr_Deposits tp) - snd amount)\<rparr>) s2)))"

definition CompleteWithdraw :: "'b sdk \<Rightarrow> addr \<Rightarrow> 'b chain \<Rightarrow> dex_error + 'b chain" where
  "CompleteWithdraw S a s =
     (case GetWithdrawInfo s a of
        None \<Rightarrow> Inl (ErrInvalidDexAddress a)
      | Some w \<Rightarrow>
          (case b_mod_to_acc S (bank s) dexModule (wi_Owner w) (c_to_coins S (wi_Deposits w)) of
             Inl er \<Rightarrow> Inl (ErrInsufficientDepositCoins (c_str S (c_to_coins S (wi_Deposits w))))
           | Inr b \<Rightarrow> Inr (deleteWithdrawInfo a (s\<lparr>bank := b\<rparr>))))"

text \<open>The end blocker completes every withdrawal whose time has come; one that fails stays queued.\<close>

definition complete_one :: "'b sdk \<Rightarrow> int \<times> addr \<Rightarrow> 'b chain \<Rightarrow> 'b chain" where
  "complete_one S k s =
     (case CompleteWithdraw S (snd k) s of
        Inl _ \<Rightarrow> s
      | Inr s' \<Rightarrow> DeleteWithdrawCompleteTimeAddress (fst k) (snd k) s')"

definition due_withdraws :: "'b chain \<Rightarrow> int \<Rightarrow> (int \<times> addr) list" where
  "due_withdraws s now = filter (\<lambda>k. fst k \<le> now) (kv_keys (ds_withdrawTimes (dex s)))"

definition dex_EndBlocker :: "'b sdk \<Rightarrow> env \<Rightarrow> 'b chain \<Rightarrow> 'b chain" where
  "dex_EndBlocker S e s = fold (complete_one S) (due_withdraws s (e_Time e)) s"

end
