(* ===== verification/DexHandler.thy ===== *)
theory DexHandler
  imports Dex
begin

text \<open>
  The messages of the dex module and their stateless validation (\<open>x/dex/types/msgs.go\<close>), the handlers
  (\<open>x/dex/handler.go\<close>), the delisting proposal (\<open>x/dex/keeper/proposal.go\<close>, \<open>x/dex/proposal_handler.go\<close>) and
  genesis (\<open>x/dex/genesis.go\<close>). The staking and governance keepers that a proposal consults, and URL parsing, are
  arguments. Shown here: the deposits of all pairs and the pending withdrawals are backed coin for coin by the
  module account, the withdrawal queue mirrors the pending withdrawals, and nothing is paid before its time.
\<close>

subsection \<open>Messages\<close>

record msg_list =
  ml_Owner :: addr
  ml_ListAsset :: string
  ml_QuoteAsset :: string
  ml_InitPrice :: dec

datatype dex_msg =
    MsgList msg_list
  | MsgDeposit string coin addr
  | MsgWithdraw string coin addr
  | DexMsgTransferOwnership addr addr string
  | DexMsgConfirmOwnership string addr
  | MsgCreateOperator addr string addr
  | MsgUpdateOperator addr string addr
  | DexMsgOther

definition checkWebsite :: "(string \<Rightarrow> string option) \<Rightarrow> string \<Rightarrow> dex_error option" where
  "checkWebsite urlScheme website =
     (if length website = 0 then None
      else if length website > 1024 then Some (ErrInvalidWebsiteLength (length website) 1024)
      else (case urlScheme website of
              None \<Rightarrow> Some (ErrInvalidWebsiteURL website)
            | Some scheme \<Rightarrow>
                if scheme \<noteq> ''http'' \<and> scheme \<noteq> ''https'' then Some (ErrInvalidWebsiteURL scheme) else None))"

definition dex_MsgList_ValidateBasic :: "'b sdk \<Rightarrow> (string \<Rightarrow> string option) \<Rightarrow> msg_list \<Rightarrow> dex_error option" where
  "dex_MsgList_ValidateBasic S urlScheme m =
     (if ml_ListAsset m = ml_QuoteAsset m then Some ErrDexInvalidCoins
      else if \<not> 0 < ml_InitPrice m then Some ErrInitPriceIsNotPositive
      else if ml_Owner m = [] then Some (ErrDexAddressIsRequired ''owner'') else None)"

definition dex_MsgDeposit_ValidateBasic :: "'b sdk \<Rightarrow> (string \<Rightarrow> string option) \<Rightarrow> string \<Rightarrow> coin \<Rightarrow> addr \<Rightarrow> dex_error option" where
  "dex_MsgDeposit_ValidateBasic S urlScheme product amount depositor =
     (if depositor = [] then Some (ErrDexAddressIsRequired ''depositor'')
      else if \<not> c_coin_valid S amount \<or> \<not> 0 < snd amount then Some ErrDexInvalidCoins else None)"

definition dex_MsgWithdraw_ValidateBasic :: "'b sdk \<Rightarrow> (string \<Rightarrow> string option) \<Rightarrow> string \<Rightarrow> coin \<Rightarrow> addr \<Rightarrow> dex_error option" where
  "dex_MsgWithdraw_ValidateBasic S urlScheme product amount depositor =
     (if depositor = [] then Some (ErrDexAddressIsRequired ''depositor'')
      else if \<not> c_coin_valid S amount \<or> \<not> 0 < snd amount then Some ErrDexInvalidCoins else None)"

definition dex_MsgTransferOwnership_ValidateBasic :: "'b sdk \<Rightarrow> (string \<Rightarrow> string option) \<Rightarrow> addr \<Rightarrow> addr \<Rightarrow> string \<Rightarrow> dex_error option" where
  "dex_MsgTransferOwnership_ValidateBasic S urlScheme src dst product =
     (if src = [] then Some (ErrDexAddressIsRequired ''sender'')
      else if dst = [] then Some (ErrDexAddressIsRequired ''recipient'')
      else if product = [] then Some ErrTokenPairIsRequired else None)"

definition dex_MsgConfirmOwnership_ValidateBasic :: "'b sdk \<Rightarrow> (string \<Rightarrow> string option) \<Rightarrow> string \<Rightarrow> addr \<Rightarrow> dex_error option" where
  "dex_MsgConfirmOwnership_ValidateBasic S urlScheme product a =
     (if a = [] then Some (ErrDexAddressIsRequired ''sender'')
      else if length product = 0 then Some ErrTokenPairIsRequired else None)"

definition dex_MsgCreateOperator_ValidateBasic :: "'b sdk \<Rightarrow> (string \<Rightarrow> string option) \<Rightarrow> addr \<Rightarrow> string \<Rightarrow> addr \<Rightarrow> dex_error option" where
  "dex_MsgCreateOperator_ValidateBasic S urlScheme owner website feeAddr =
     (if owner = [] then Some (ErrDexAddressIsRequired ''owner'')
      else if feeAddr = [] then Some (ErrDexAddressIsRequired ''handling fee'')
      else checkWebsite urlScheme website)"

definition dex_MsgUpdateOperator_ValidateBasic :: "'b sdk \<Rightarrow> (string \<Rightarrow> string option) \<Rightarrow> addr \<Rightarrow> string \<Rightarrow> addr \<Rightarrow> dex_error option" where
  "dex_MsgUpdateOperator_ValidateBasic S urlScheme owner website feeAddr =
     (if feeAddr = [] then Some (ErrDexAddressIsRequired ''handling fee'')
      else checkWebsite urlScheme website)"

fun dex_ValidateBasic :: "'b sdk \<Rightarrow> (string \<Rightarrow> string option) \<Rightarrow> dex_msg \<Rightarrow> dex_error option" where
  "dex_ValidateBasic S urlScheme (MsgList m) = dex_MsgList_ValidateBasic S urlScheme m"
| "dex_ValidateBasic S urlScheme (MsgDeposit product amount depositor) = dex_MsgDeposit_ValidateBasic S urlScheme product amount depositor"
| "dex_ValidateBasic S urlScheme (MsgWithdraw product amount depositor) = dex_MsgWithdraw_ValidateBasic S urlScheme product amount depositor"
| "dex_ValidateBasic S urlScheme (DexMsgTransferOwnership src dst product) = dex_MsgTransferOwnership_ValidateBasic S urlScheme src dst product"
| "dex_ValidateBasic S urlScheme (DexMsgConfirmOwnership product a) = dex_MsgConfirmOwnership_ValidateBasic S urlScheme product a"
| "dex_ValidateBasic S urlScheme (MsgCreateOperator owner website feeAddr) = dex_MsgCreateOperator_ValidateBasic S urlScheme owner website feeAddr"
| "dex_ValidateBasic S urlScheme (MsgUpdateOperator owner website feeAddr) = dex_MsgUpdateOperator_ValidateBasic S urlScheme owner website feeAddr"
| "dex_ValidateBasic S urlScheme DexMsgOther = Some ErrDexUnknownMsgType"

declare
  dex_MsgList_ValidateBasic_def [simp]
  dex_MsgDeposit_ValidateBasic_def [simp]
  dex_MsgWithdraw_ValidateBasic_def [simp]
  dex_MsgTransferOwnership_ValidateBasic_def [simp]
  dex_MsgConfirmOwnership_ValidateBasic_def [simp]
  dex_MsgCreateOperator_ValidateBasic_def [simp]
  dex_MsgUpdateOperator_ValidateBasic_def [simp]

subsection \<open>Handlers\<close>

definition pay_fee :: "'b sdk \<Rightarrow> env \<Rightarrow> addr \<Rightarrow> coin \<Rightarrow> 'b chain \<Rightarrow> dex_error + 'b chain" where
  "pay_fee S e a fee = deduct_fee S e a fee (\<lambda>_. ErrInsufficientFeeCoins (c_to_coins S fee))"

definition handleMsgList :: "'b sdk \<Rightarrow> env \<Rightarrow> msg_list \<Rightarrow> 'b chain \<Rightarrow> dex_error + 'b chain" where
  "handleMsgList S e m s =
     (if \<not> TokenExist s (ml_ListAsset m) \<or> \<not> TokenExist s (ml_QuoteAsset m)
      then Inl (ErrTokenOfPairNotExist (ml_ListAsset m) (ml_QuoteAsset m))
      else if GetOperator s (ml_Owner m) = None then Inl (ErrUnknownOperator (ml_Owner m))
      else
        (let tp = \<lparr>pr_Base = ml_ListAsset m, pr_Quote = ml_QuoteAsset m, pr_InitPrice = ml_InitPrice m,
                   pr_MaxPriceDigit = 4, pr_MaxQuantityDigit = 4, pr_MinQuantity = d_unit S div 10 ^ 8, pr_ID = 0,
                   pr_Delisting = False, pr_Owner = ml_Owner m, pr_Deposits = (NativeToken, 0),
                   pr_BlockHeight = e_Height e\<rparr>
         in if GetTokenPair s (pr_Base tp @ ''_'' @ pr_Quote tp) \<noteq> None
               \<or> GetTokenPair s (pr_Quote tp @ ''_'' @ pr_Base tp) \<noteq> None
            then Inl (ErrTokenPairExisted (pr_Base tp) (pr_Quote tp))
            else rbind (pay_fee S e (ml_Owner m) (dp_ListFee (dexP s)) s) (\<lambda>s1. Inr (SaveTokenPair tp s1))))"

definition pending_transfer :: "env \<Rightarrow> 'b chain \<Rightarrow> string \<Rightarrow> bool" where
  "pending_transfer e s product =
     (case dex_GetConfirmOwnership s product of None \<Rightarrow> False | Some c \<Rightarrow> \<not> e_Time e > dc_Expire c)"

definition handleMsgDeposit :: "'b sdk \<Rightarrow> env \<Rightarrow> string \<Rightarrow> coin \<Rightarrow> addr \<Rightarrow> 'b chain \<Rightarrow> dex_error + 'b chain" where
  "handleMsgDeposit S e product amount depositor s =
     (if pending_transfer e s product then Inl (ErrIsTransferringOwner product)
      else (case Deposit S product depositor amount s of
              Inl er \<Rightarrow> Inl (ErrDepositFailed er) | Inr s' \<Rightarrow> Inr s'))"

definition handleMsgWithDraw :: "env \<Rightarrow> string \<Rightarrow> coin \<Rightarrow> addr \<Rightarrow> 'b chain \<Rightarrow> dex_error + 'b chain" where
  "handleMsgWithDraw e product amount depositor s = Withdraw e product depositor amount s"

definition withdraw_all :: "env \<Rightarrow> string \<Rightarrow> addr \<Rightarrow> coin \<Rightarrow> 'b chain \<Rightarrow> dex_error + 'b chain" where
  "withdraw_all e product owner deposits s =
     (if 0 < snd deposits
      then (case Withdraw e product owner deposits s of
              Inl er \<Rightarrow> Inl (ErrWithdrawFailed er) | Inr s' \<Rightarrow> Inr s')
      else Inr s)"

definition dex_handleMsgTransferOwnership ::
  "'b sdk \<Rightarrow> env \<Rightarrow> addr \<Rightarrow> addr \<Rightarrow> string \<Rightarrow> 'b chain \<Rightarrow> dex_error + 'b chain" where
  "dex_handleMsgTransferOwnership S e src dst product s =
     (case GetTokenPair s product of
        None \<Rightarrow> Inl (ErrTokenPairNotFound product)
      | Some tp \<Rightarrow>
          if pr_Owner tp \<noteq> src then Inl (ErrUnauthorized src product)
          else if GetOperator s dst = None then Inl (ErrUnknownOperator dst)
          else if pending_transfer e s product then Inl (ErrRepeatedTransferOwner product)
          else
            rbind (withdraw_all e product src (pr_Deposits tp) s) (\<lambda>s1.
            rbind (pay_fee S e src (dp_TransferOwnershipFee (dexP s)) s1) (\<lambda>s2.
              Inr (dex_SetConfirmOwnership
                \<lparr>dc_Product = product, dc_FromAddress = src, dc_ToAddress = dst,
                 dc_Expire = e_Time e + dp_OwnershipConfirmWindow (dexP s)\<rparr> s2))))"

definition dex_handleMsgConfirmOwnership :: "env \<Rightarrow> string \<Rightarrow> addr \<Rightarrow> 'b chain \<Rightarrow> dex_error + 'b chain" where
  "dex_handleMsgConfirmOwnership e product a s =
     (case dex_GetConfirmOwnership s product of
        None \<Rightarrow> Inl (ErrGetConfirmOwnershipNotExist a)
      | Some c \<Rightarrow>
          if e_Time e > dc_Expire c then Inl (ErrIsTransferOwnerExpired (dc_Expire c))
          else if dc_ToAddress c \<noteq> a then Inl (ErrUnauthorized (dc_ToAddress c) product)
          else (case GetTokenPair s product of
                  None \<Rightarrow> Inl (ErrTokenPairNotFound product)
                | Some tp \<Rightarrow>
                    Inr (dex_DeleteConfirmOwnership (dc_Product c)
                      (UpdateUserTokenPair product (dc_FromAddress c) a
                        (UpdateTokenPair product (tp\<lparr>pr_Owner := a\<rparr>) s)))))"

definition handleMsgCreateOperator ::
  "'b sdk \<Rightarrow> env \<Rightarrow> addr \<Rightarrow> string \<Rightarrow> addr \<Rightarrow> 'b chain \<Rightarrow> dex_error + 'b chain" where
  "handleMsgCreateOperator S e owner website feeAddr s =
     (if GetOperator s owner \<noteq> None then Inl (ErrExistOperator owner)
      else deduct_fee S e owner (dp_RegisterOperatorFee (dexP s)) ErrDexInsufficientCoins
             (SetOperator \<lparr>op_Address = owner, op_HandlingFeeAddress = feeAddr, op_Website = website,
                op_InitHeight = e_Height e, op_TxHash = e_TxHashUpper e\<rparr> s))"

definition handleMsgUpdateOperator :: "addr \<Rightarrow> string \<Rightarrow> addr \<Rightarrow> 'b chain \<Rightarrow> dex_error + 'b chain" where
  "handleMsgUpdateOperator owner website feeAddr s =
     (case GetOperator s owner of
        None \<Rightarrow> Inl (ErrUnknownOperator owner)
      | Some op \<Rightarrow>
          if op_Address op \<noteq> owner then Inl (ErrUnauthorizedOperator (op_Address op) owner)
          else Inr (SetOperator (op\<lparr>op_HandlingFeeAddress := feeAddr, op_Website := website\<rparr>) s))"

fun dex_handler :: "'b sdk \<Rightarrow> env \<Rightarrow> dex_msg \<Rightarrow> 'b chain \<Rightarrow> dex_error + 'b chain" where
  "dex_handler S e (MsgList m) s = handleMsgList S e m s"
| "dex_handler S e (MsgDeposit product amount a) s = handleMsgDeposit S e product amount a s"
| "dex_handler S e (MsgWithdraw product amount a) s = handleMsgWithDraw e product amount a s"
| "dex_handler S e (DexMsgTransferOwnership src dst product) s = dex_handleMsgTransferOwnership S e src dst product s"
| "dex_handler S e (DexMsgConfirmOwnership product a) s = dex_handleMsgConfirmOwnership e product a s"
| "dex_handler S e (MsgCreateOperator owner website feeAddr) s = handleMsgCreateOperator S e owner website feeAddr s"
| "dex_handler S e (MsgUpdateOperator owner website feeAddr) s = handleMsgUpdateOperator owner website feeAddr s"
| "dex_handler S e DexMsgOther s = Inl ErrDexUnknownMsgType"

subsection \<open>Delisting\<close>

record delist_proposal =
  dl_Proposer :: addr
  dl_BaseAsset :: string
  dl_QuoteAsset :: string

definition delist_name :: "delist_proposal \<Rightarrow> string" where
  "delist_name p = dl_BaseAsset p @ ''_'' @ dl_QuoteAsset p"

text \<open>\<open>HasSufficientCoins\<close> of \<open>x/common/util.go\<close>.\<close>

definition HasSufficientCoins :: "'b sdk \<Rightarrow> coins \<Rightarrow> coins \<Rightarrow> bool" where
  "HasSufficientCoins S availableCoins cs \<longleftrightarrow>
     c_valid S cs \<and> c_valid S availableCoins \<and> \<not> snd (c_safe_sub S availableCoins cs)"

definition checkMsgDelistProposal ::
  "'b sdk \<Rightarrow> (addr \<Rightarrow> bool) \<Rightarrow> (coins \<Rightarrow> coins) \<Rightarrow> 'b chain \<Rightarrow> delist_proposal \<Rightarrow> addr \<Rightarrow> coins \<Rightarrow> dex_error option" where
  "checkMsgDelistProposal S isValidator tenth s p proposer initialDeposit =
     (if \<not> isValidator proposer then Some ErrInvalidProposer
      else if proposer \<noteq> dl_Proposer p then Some ErrInvalidProposer
      else if GetTokenPair s (delist_name p) = None then Some (ErrTokenPairNotFound (delist_name p))
      else
        (let localMinDeposit = tenth (dp_DelistMinDeposit (dexP s))
         in if \<not> HasSufficientCoins S initialDeposit localMinDeposit then Some (ErrInvalidAsset localMinDeposit)
            else if \<not> HasSufficientCoins S (b_coins S (bank s) proposer) initialDeposit
            then Some (ErrBalanceNotEnough proposer initialDeposit) else None))"

definition dex_VoteHandler :: "'b chain \<Rightarrow> delist_proposal \<Rightarrow> dex_error option" where
  "dex_VoteHandler s p =
     (if IsTokenPairLocked s (delist_name p) then Some (ErrInternal (delist_name p)) else None)"

definition set_delisting :: "bool \<Rightarrow> delist_proposal \<Rightarrow> 'b chain \<Rightarrow> 'b chain" where
  "set_delisting b p s =
     (case GetTokenPair s (delist_name p) of
        None \<Rightarrow> s
      | Some tp \<Rightarrow> UpdateTokenPair (delist_name p) (tp\<lparr>pr_Delisting := b\<rparr>) s)"

definition RejectedHandler :: "delist_proposal \<Rightarrow> 'b chain \<Rightarrow> 'b chain" where
  "RejectedHandler p s = set_delisting False p s"

definition AfterDepositPeriodPassed :: "delist_proposal \<Rightarrow> 'b chain \<Rightarrow> 'b chain" where
  "AfterDepositPeriodPassed p s = set_delisting True p s"

text \<open>Removing the proposal from the queue of the governance module is left to that module.\<close>

definition handleDelistProposal :: "env \<Rightarrow> delist_proposal \<Rightarrow> 'b chain \<Rightarrow> dex_error + 'b chain" where
  "handleDelistProposal e p s =
     (case GetTokenPair s (delist_name p) of
        None \<Rightarrow> Inl (ErrTokenPairNotFound (delist_name p))
      | Some tp \<Rightarrow>
          if IsTokenPairLocked s (delist_name p) then Inl (ErrIsTokenPairLocked (delist_name p))
          else rbind (withdraw_all e (pair_name tp) (pr_Owner tp) (pr_Deposits tp) s)
                 (\<lambda>s1. Inr (DeleteTokenPairByName (pr_Owner tp) (delist_name p) s1)))"

subsection \<open>Genesis\<close>

record dex_genesis =
  dg_Params :: dex_params
  dg_TokenPairs :: "token_pair list"
  dg_WithdrawInfos :: "withdraw_info list"
  dg_ProductLocks :: "(string, product_lock) kv"
  dg_Operators :: "dex_operator list"
  dg_MaxTokenPairID :: nat

definition dex_ValidateGenesis :: "dex_genesis \<Rightarrow> bool" where
  "dex_ValidateGenesis g = list_all (\<lambda>p. 0 < pr_ID p) (dg_TokenPairs g)"

definition dex_InitGenesis :: "dex_genesis \<Rightarrow> 'b chain \<Rightarrow> 'b chain" where
  "dex_InitGenesis g s =
     (let s1 = fold SetOperator (dg_Operators g) (s\<lparr>dexP := dg_Params g\<rparr>);
          s2 = s1\<lparr>dex := (dex s1)\<lparr>ds_maxPairID := dg_MaxTokenPairID g\<rparr>\<rparr>;
          s3 = fold SaveTokenPair (dg_TokenPairs g) s2;
          s4 = fold (\<lambda>w st. SetWithdrawCompleteTimeAddress (wi_CompleteTime w) (wi_Owner w) (SetWithdrawInfo w st))
                 (dg_WithdrawInfos g) s3
      in fold (\<lambda>(product, lock). LockTokenPair product lock) (dg_ProductLocks g) s4)"

definition dex_ExportGenesis :: "'b chain \<Rightarrow> dex_genesis" where
  "dex_ExportGenesis s =
     \<lparr>dg_Params = dexP s, dg_TokenPairs = GetTokenPairs s, dg_WithdrawInfos = map snd (ds_withdraws (dex s)),
      dg_ProductLocks = LoadProductLocks s, dg_Operators = map snd (ds_operators (dex s)),
      dg_MaxTokenPairID = ds_maxPairID (dex s)\<rparr>"

subsection \<open>The module account\<close>

abbreviation dex_acc :: "'b sdk \<Rightarrow> addr" where
  "dex_acc S \<equiv> b_mod_addr S dexModule"

abbreviation deposit_of :: "token_pair \<Rightarrow> dec" where
  "deposit_of tp \<equiv> snd (pr_Deposits tp)"

abbreviation withdrawal_of :: "withdraw_info \<Rightarrow> dec" where
  "withdrawal_of w \<equiv> snd (wi_Deposits w)"

text \<open>What the module account holds beyond deposits and pending withdrawals.\<close>

definition dex_gap :: "'b sdk \<Rightarrow> 'b chain \<Rightarrow> dec" where
  "dex_gap S s = bank_bal S (bank s) (dex_acc S) NativeToken
     - kv_sum deposit_of (ds_pairs (dex s)) - kv_sum withdrawal_of (ds_withdraws (dex s))"

definition dex_ok :: "'b sdk \<Rightarrow> 'b chain \<Rightarrow> bool" where
  "dex_ok S s \<longleftrightarrow>
     kv_ok (ds_pairs (dex s)) \<and> kv_ok (ds_withdraws (dex s)) \<and> kv_ok (ds_withdrawTimes (dex s))
     \<and> (\<forall>k tp. map_of (ds_pairs (dex s)) k = Some tp \<longrightarrow>
          pair_name tp = k \<and> fst (pr_Deposits tp) = NativeToken \<and> 0 \<le> deposit_of tp \<and> pr_Owner tp \<noteq> dex_acc S)
     \<and> (\<forall>a w. map_of (ds_withdraws (dex s)) a = Some w \<longrightarrow>
          wi_Owner w = a \<and> fst (wi_Deposits w) = NativeToken \<and> a \<noteq> dex_acc S)
     \<and> (\<forall>t a. map_of (ds_withdrawTimes (dex s)) (t, a) \<noteq> None \<longleftrightarrow>
          (\<exists>w. map_of (ds_withdraws (dex s)) a = Some w \<and> wi_CompleteTime w = t))"

lemma dex_okD:
  assumes "dex_ok S s"
  shows "kv_ok (ds_pairs (dex s))" and "kv_ok (ds_withdraws (dex s))"
    and "map_of (ds_pairs (dex s)) k = Some tp \<Longrightarrow> pair_name tp = k"
    and "map_of (ds_pairs (dex s)) k = Some tp \<Longrightarrow> fst (pr_Deposits tp) = NativeToken"
    and "map_of (ds_pairs (dex s)) k = Some tp \<Longrightarrow> 0 \<le> deposit_of tp"
    and "map_of (ds_pairs (dex s)) k = Some tp \<Longrightarrow> pr_Owner tp \<noteq> dex_acc S"
    and "map_of (ds_withdraws (dex s)) a = Some w \<Longrightarrow> wi_Owner w = a"
    and "map_of (ds_withdraws (dex s)) a = Some w \<Longrightarrow> fst (wi_Deposits w) = NativeToken"
    and "map_of (ds_withdraws (dex s)) a = Some w \<Longrightarrow> a \<noteq> dex_acc S"
    and "map_of (ds_withdrawTimes (dex s)) (t, a) = Some () \<longleftrightarrow>
          (\<exists>w. map_of (ds_withdraws (dex s)) a = Some w \<and> wi_CompleteTime w = t)"
  using assms unfolding dex_ok_def by auto

lemma dex_ok_bank [simp]: "dex_ok S (s\<lparr>bank := b\<rparr>) = dex_ok S s"
  by (simp add: dex_ok_def)

lemma dex_frame:
  assumes "ds_pairs (dex s') = ds_pairs (dex s)" and "ds_withdraws (dex s') = ds_withdraws (dex s)"
    and "ds_withdrawTimes (dex s') = ds_withdrawTimes (dex s)"
  shows "dex_ok S s' = dex_ok S s" and "bank s' = bank s \<Longrightarrow> dex_gap S s' = dex_gap S s"
  using assms by (simp_all add: dex_ok_def dex_gap_def)

lemma pair_name_simps [simp]:
  "pair_name (tp\<lparr>pr_Deposits := x\<rparr>) = pair_name tp" "pair_name (tp\<lparr>pr_Owner := a\<rparr>) = pair_name tp"
  "pair_name (tp\<lparr>pr_Delisting := b\<rparr>) = pair_name tp" "pair_name (tp\<lparr>pr_ID := n\<rparr>) = pair_name tp"
  by (simp_all add: pair_name_def)

text \<open>Replacing a stored pair by one of the same name with an admissible deposit and owner.\<close>

lemma UpdateTokenPair_ok:
  assumes "dex_ok S s" and "pair_name tp = product" and "fst (pr_Deposits tp) = NativeToken"
    and "0 \<le> deposit_of tp" and "pr_Owner tp \<noteq> dex_acc S"
  shows "dex_ok S (UpdateTokenPair product tp s)"
    and "dex_gap S (UpdateTokenPair product tp s) =
      dex_gap S s + kv_val deposit_of (ds_pairs (dex s)) product - deposit_of tp"
  using assms by (auto simp: dex_ok_def UpdateTokenPair_def kv_ok_set dex_gap_def kv_sum_set)

lemma Deposit_ok:
  assumes "sdk_laws S" and "dex_ok S s" and "src \<noteq> dex_acc S" and "Deposit S product src amount s = Inr s'"
    and "0 \<le> snd amount"
  shows "dex_ok S s' \<and> dex_gap S s' = dex_gap S s"
proof -
  obtain tp b where tp: "map_of (ds_pairs (dex s)) product = Some tp" "pr_Owner tp = src" "fst amount = NativeToken"
    and b: "b_acc_to_mod S (bank s) src dexModule (c_to_coins S amount) = Inr b"
    and s': "s' = UpdateTokenPair product (tp\<lparr>pr_Deposits := (fst (pr_Deposits tp), deposit_of tp + snd amount)\<rparr>) (s\<lparr>bank := b\<rparr>)"
    using assms(4) by (auto simp: Deposit_def GetTokenPair_def split: option.splits if_splits sum.splits)
  have "amt (c_to_coins S amount) NativeToken = snd amount"
    using coins_to_coins(2) [OF sdk_lawsD(2) [OF assms(1)], of amount NativeToken] tp(3) by (cases amount) simp
  then have bal: "bank_bal S b (dex_acc S) NativeToken = bank_bal S (bank s) (dex_acc S) NativeToken + snd amount"
    using moves_bal [OF bank_moves(2) [OF sdk_lawsD(3) [OF assms(1)] b]] assms(3) by simp
  have ok: "dex_ok S (s\<lparr>bank := b\<rparr>)" using assms(2) by simp
  show ?thesis
    using UpdateTokenPair_ok [OF ok, of "tp\<lparr>pr_Deposits := (fst (pr_Deposits tp), deposit_of tp + snd amount)\<rparr>" product]
      dex_okD(3-6) [OF assms(2) tp(1)] bal s' tp(1) assms(5)
    by (simp add: dex_gap_def kv_val_def)
qed

text \<open>Queueing a withdrawal moves the amount from the pair to the withdrawal of its owner.\<close>

definition queue_withdraw :: "int \<Rightarrow> addr \<Rightarrow> coin \<Rightarrow> 'b chain \<Rightarrow> 'b chain" where
  "queue_withdraw completeTime dst amount s =
     (let (w, s1) = (case GetWithdrawInfo s dst of
         None \<Rightarrow> (\<lparr>wi_Owner = dst, wi_Deposits = amount, wi_CompleteTime = completeTime\<rparr>, s)
       | Some w0 \<Rightarrow>
           (w0\<lparr>wi_Deposits := (fst (wi_Deposits w0), snd (wi_Deposits w0) + snd amount), wi_CompleteTime := completeTime\<rparr>,
            DeleteWithdrawCompleteTimeAddress (wi_CompleteTime w0) dst s))
      in SetWithdrawCompleteTimeAddress completeTime dst (SetWithdrawInfo w s1))"

lemma queue_withdraw_ok:
  assumes "dex_ok S s" and "dst \<noteq> dex_acc S" and "fst amount = NativeToken"
  shows "dex_ok S (queue_withdraw ct dst amount s)"
    and "dex_gap S (queue_withdraw ct dst amount s) = dex_gap S s - snd amount"
    and "ds_pairs (dex (queue_withdraw ct dst amount s)) = ds_pairs (dex s)"
proof -
  note q = queue_withdraw_def GetWithdrawInfo_def SetWithdrawInfo_def SetWithdrawCompleteTimeAddress_def
    DeleteWithdrawCompleteTimeAddress_def Let_def
  have own: "wi_Owner w0 = dst" "fst (wi_Deposits w0) = NativeToken" if "map_of (ds_withdraws (dex s)) dst = Some w0" for w0
    using dex_okD(7,8) [OF assms(1) that] by auto
  show "ds_pairs (dex (queue_withdraw ct dst amount s)) = ds_pairs (dex s)"
    by (simp add: q split: option.splits)
  show "dex_gap S (queue_withdraw ct dst amount s) = dex_gap S s - snd amount"
    using dex_okD(2) [OF assms(1)] own by (auto simp: q dex_gap_def kv_sum_set kv_val_def split: option.splits)
  show "dex_ok S (queue_withdraw ct dst amount s)"
  proof (cases "map_of (ds_withdraws (dex s)) dst")
    case None
    with assms show ?thesis by (auto simp: q dex_ok_def kv_ok_set kv_ok_del)
  next
    case (Some w0)
    with assms own [OF Some] show ?thesis by (auto simp: q dex_ok_def kv_ok_set kv_ok_del)
  qed
qed

lemma Withdraw_Inr:
  assumes "Withdraw e product dst amount s = Inr s'"
  obtains tp where "map_of (ds_pairs (dex s)) product = Some tp" and "pr_Owner tp = dst"
    and "fst amount = NativeToken" and "snd amount \<le> deposit_of tp"
    and "s' = UpdateTokenPair product (tp\<lparr>pr_Deposits := (fst (pr_Deposits tp), deposit_of tp - snd amount)\<rparr>)
       (queue_withdraw (e_Time e + dp_WithdrawPeriod (dexP s)) dst amount s)"
  using assms by (auto simp: Withdraw_def GetTokenPair_def queue_withdraw_def Let_def not_less
      split: option.splits if_splits prod.splits)

lemma Withdraw_ok:
  assumes "dex_ok S s" and "Withdraw e product dst amount s = Inr s'"
  shows "dex_ok S s'" and "dex_gap S s' = dex_gap S s"
proof -
  obtain tp where tp: "map_of (ds_pairs (dex s)) product = Some tp" "pr_Owner tp = dst"
    "fst amount = NativeToken" "snd amount \<le> deposit_of tp"
    and s': "s' = UpdateTokenPair product (tp\<lparr>pr_Deposits := (fst (pr_Deposits tp), deposit_of tp - snd amount)\<rparr>)
       (queue_withdraw (e_Time e + dp_WithdrawPeriod (dexP s)) dst amount s)"
    by (rule Withdraw_Inr [OF assms(2)])
  have "dst \<noteq> dex_acc S" using dex_okD(6) [OF assms(1) tp(1)] tp(2) by simp
  note q = queue_withdraw_ok [OF assms(1) this tp(3)]
  note u = UpdateTokenPair_ok [OF q(1), of "tp\<lparr>pr_Deposits := (fst (pr_Deposits tp), deposit_of tp - snd amount)\<rparr>" product]
  show "dex_ok S s'" "dex_gap S s' = dex_gap S s"
    using u dex_okD(3-6) [OF assms(1) tp(1)] s' tp(1,4) by (simp_all add: q(2,3) kv_val_def)
qed

lemma withdraw_all_ok:
  assumes "dex_ok S s" and "withdraw_all e product owner dep s = Inr s'"
  shows "dex_ok S s' \<and> dex_gap S s' = dex_gap S s"
  using assms Withdraw_ok [OF assms(1)] by (auto simp: withdraw_all_def split: if_splits sum.splits)

lemma pay_fee_ok:
  assumes "sdk_laws S" and "dex_ok S s" and "a \<noteq> dex_acc S" and "b_mod_addr S (e_FeeCollector e) \<noteq> dex_acc S"
    and "deduct_fee S e a fee mk s = Inr s'"
  shows "dex_ok S s' \<and> dex_gap S s' = dex_gap S s"
proof -
  obtain b where b: "b_acc_to_mod S (bank s) a (e_FeeCollector e) (c_to_coins S fee) = Inr b" "s' = s\<lparr>bank := b\<rparr>"
    using deduct_fee_Inr [OF assms(5)] by blast
  have "dex_ok S s'" using assms(2) b(2) by simp
  with moves_bal [OF bank_moves(2) [OF sdk_lawsD(3) [OF assms(1)] b(1)]] assms(3,4) b(2) show ?thesis
    by (simp add: dex_gap_def)
qed

lemma SaveTokenPair_ok:
  assumes "dex_ok S s" and "map_of (ds_pairs (dex s)) (pair_name tp) = None"
    and "pr_Deposits tp = (NativeToken, 0)" and "pr_Owner tp \<noteq> dex_acc S"
  shows "dex_ok S (SaveTokenPair tp s) \<and> dex_gap S (SaveTokenPair tp s) = dex_gap S s"
proof -
  define tp' where "tp' = (if pr_ID tp = 0 then tp\<lparr>pr_ID := (ds_maxPairID (dex s) + 1) mod 2 ^ 64\<rparr> else tp)"
  have tp': "pair_name tp' = pair_name tp" "pr_Deposits tp' = pr_Deposits tp" "pr_Owner tp' = pr_Owner tp"
    by (simp_all add: tp'_def)
  note u = UpdateTokenPair_ok [OF assms(1), of tp' "pair_name tp"]
  let ?s' = "UpdateTokenPair (pair_name tp) tp' s"
  have "ds_pairs (dex (SaveTokenPair tp s)) = ds_pairs (dex ?s')"
    "ds_withdraws (dex (SaveTokenPair tp s)) = ds_withdraws (dex ?s')"
    "ds_withdrawTimes (dex (SaveTokenPair tp s)) = ds_withdrawTimes (dex ?s')" "bank (SaveTokenPair tp s) = bank ?s'"
    unfolding SaveTokenPair_def UpdateTokenPair_def Let_def tp'_def [symmetric] by (simp_all add: tp')
  note f = dex_frame [OF this(1-3)] this(4)
  show ?thesis using u tp' assms(2-4) f by (simp add: kv_val_def)
qed

lemma DeleteTokenPair_ok:
  assumes "dex_ok S s"
  shows "dex_ok S (DeleteTokenPairByName owner product s)"
    and "dex_gap S (DeleteTokenPairByName owner product s) = dex_gap S s + kv_val deposit_of (ds_pairs (dex s)) product"
  using assms by (auto simp: DeleteTokenPairByName_def dex_ok_def dex_gap_def kv_ok_del kv_sum_del)

lemma dex_confirm_ok [simp]:
  "dex_ok S (dex_SetConfirmOwnership c s) = dex_ok S s" "dex_gap S (dex_SetConfirmOwnership c s) = dex_gap S s"
  "dex_ok S (dex_DeleteConfirmOwnership k s) = dex_ok S s" "dex_gap S (dex_DeleteConfirmOwnership k s) = dex_gap S s"
  "dex_ok S (SetOperator op s) = dex_ok S s" "dex_gap S (SetOperator op s) = dex_gap S s"
  "dex_ok S (UpdateUserTokenPair k a b s) = dex_ok S s" "dex_gap S (UpdateUserTokenPair k a b s) = dex_gap S s"
  by (simp_all add: dex_ok_def dex_gap_def dex_SetConfirmOwnership_def dex_DeleteConfirmOwnership_def SetOperator_def
      UpdateUserTokenPair_def)

text \<open>The account that signs a message.\<close>

fun dex_signer :: "dex_msg \<Rightarrow> addr" where
  "dex_signer (MsgList m) = ml_Owner m"
| "dex_signer (MsgDeposit product amount a) = a"
| "dex_signer (MsgWithdraw product amount a) = a"
| "dex_signer (DexMsgTransferOwnership src dst product) = src"
| "dex_signer (DexMsgConfirmOwnership product a) = a"
| "dex_signer (MsgCreateOperator owner website feeAddr) = owner"
| "dex_signer (MsgUpdateOperator owner website feeAddr) = owner"
| "dex_signer DexMsgOther = []"

lemma dex_handler_ok:
  assumes S: "sdk_laws S" and ok: "dex_ok S s" and signer: "dex_signer msg \<noteq> dex_acc S"
    and fee: "b_mod_addr S (e_FeeCollector e) \<noteq> dex_acc S"
    and valid: "dex_ValidateBasic S urlScheme msg = None" and h: "dex_handler S e msg s = Inr s'"
  shows "dex_ok S s' \<and> dex_gap S s' = dex_gap S s"
proof (cases msg)
  case (MsgList m)
  define tp where "tp = \<lparr>pr_Base = ml_ListAsset m, pr_Quote = ml_QuoteAsset m, pr_InitPrice = ml_InitPrice m,
     pr_MaxPriceDigit = 4, pr_MaxQuantityDigit = 4, pr_MinQuantity = d_unit S div 10 ^ 8, pr_ID = 0,
     pr_Delisting = False, pr_Owner = ml_Owner m, pr_Deposits = (NativeToken, 0), pr_BlockHeight = e_Height e\<rparr>"
  from MsgList h obtain s1 where s1: "deduct_fee S e (ml_Owner m) (dp_ListFee (dexP s))
      (\<lambda>_. ErrInsufficientFeeCoins (c_to_coins S (dp_ListFee (dexP s)))) s = Inr s1"
    "GetTokenPair s (pair_name tp) = None" "s' = SaveTokenPair tp s1"
    by (auto simp: handleMsgList_def pay_fee_def pair_name_def tp_def Let_def rbind_Inr_iff split: if_splits)
  have "dex s1 = dex s" using deduct_fee_Inr [OF s1(1)] by auto
  with SaveTokenPair_ok [of S s1 tp] pay_fee_ok [OF S ok _ fee s1(1)] s1(2,3) signer MsgList show ?thesis
    by (simp add: GetTokenPair_def tp_def)
next
  case (MsgDeposit product amount a)
  with h valid signer Deposit_ok [OF S ok] show ?thesis
    by (auto simp: handleMsgDeposit_def split: if_splits sum.splits)
next
  case (MsgWithdraw product amount a)
  with h Withdraw_ok [OF ok] show ?thesis by (auto simp: handleMsgWithDraw_def)
next
  case (DexMsgTransferOwnership src dst product)
  let ?fee = "dp_TransferOwnershipFee (dexP s)"
  from h DexMsgTransferOwnership obtain tp where "GetTokenPair s product = Some tp"
    by (cases "GetTokenPair s product") (auto simp: dex_handleMsgTransferOwnership_def)
  with h DexMsgTransferOwnership have
    "rbind (withdraw_all e product src (pr_Deposits tp) s) (\<lambda>s1. rbind (pay_fee S e src ?fee s1) (\<lambda>s2.
       Inr (dex_SetConfirmOwnership \<lparr>dc_Product = product, dc_FromAddress = src, dc_ToAddress = dst,
       dc_Expire = e_Time e + dp_OwnershipConfirmWindow (dexP s)\<rparr> s2))) = Inr s'"
    by (auto simp: dex_handleMsgTransferOwnership_def split: if_splits)
  then obtain s1 s2 c where t: "withdraw_all e product src (pr_Deposits tp) s = Inr s1"
    "deduct_fee S e src ?fee (\<lambda>_. ErrInsufficientFeeCoins (c_to_coins S ?fee)) s1 = Inr s2"
    "s' = dex_SetConfirmOwnership c s2"
    unfolding rbind_Inr_iff pay_fee_def by blast
  with withdraw_all_ok [OF ok t(1)] pay_fee_ok [OF S _ _ fee t(2)] signer DexMsgTransferOwnership show ?thesis by simp
next
  case (DexMsgConfirmOwnership product a)
  with h obtain tp where tp: "map_of (ds_pairs (dex s)) product = Some tp"
    "dex_ok S s' = dex_ok S (UpdateTokenPair product (tp\<lparr>pr_Owner := a\<rparr>) s)"
    "dex_gap S s' = dex_gap S (UpdateTokenPair product (tp\<lparr>pr_Owner := a\<rparr>) s)"
    by (auto simp: dex_handleMsgConfirmOwnership_def GetTokenPair_def split: option.splits if_splits)
  with UpdateTokenPair_ok [OF ok, of "tp\<lparr>pr_Owner := a\<rparr>" product] dex_okD(3-5) [OF ok tp(1)] signer DexMsgConfirmOwnership
  show ?thesis by (simp add: kv_val_def)
next
  case (MsgCreateOperator owner website feeAddr)
  with h obtain op where op: "deduct_fee S e owner (dp_RegisterOperatorFee (dexP s)) ErrDexInsufficientCoins
      (SetOperator op s) = Inr s'"
    by (auto simp: handleMsgCreateOperator_def split: if_splits)
  from ok have "dex_ok S (SetOperator op s)" by simp
  from pay_fee_ok [OF S this _ fee op] signer MsgCreateOperator show ?thesis by simp
next
  case (MsgUpdateOperator owner website feeAddr)
  with h ok show ?thesis by (auto simp: handleMsgUpdateOperator_def split: option.splits if_splits)
next
  case DexMsgOther
  with h show ?thesis by simp
qed

lemma handleDelist_ok:
  assumes ok: "dex_ok S s" and h: "handleDelistProposal e p s = Inr s'"
  shows "dex_ok S s' \<and> dex_gap S s' = dex_gap S s"
proof -
  obtain tp s1 where tp: "map_of (ds_pairs (dex s)) (delist_name p) = Some tp"
    and s1: "withdraw_all e (pair_name tp) (pr_Owner tp) (pr_Deposits tp) s = Inr s1"
    and s': "s' = DeleteTokenPairByName (pr_Owner tp) (delist_name p) s1"
    using h by (auto simp: handleDelistProposal_def GetTokenPair_def rbind_Inr_iff split: option.splits if_splits)
  have name: "pair_name tp = delist_name p" using dex_okD(3) [OF ok tp] .
  have zero: "kv_val deposit_of (ds_pairs (dex s1)) (delist_name p) = 0"
  proof (cases "0 < deposit_of tp")
    case True
    with s1 name have "Withdraw e (delist_name p) (pr_Owner tp) (pr_Deposits tp) s = Inr s1"
      by (auto simp: withdraw_all_def split: sum.splits)
    then show ?thesis by (rule Withdraw_Inr) (use tp in \<open>simp add: kv_val_def UpdateTokenPair_def\<close>)
  next
    case False
    with s1 tp dex_okD(5) [OF ok tp] show ?thesis by (simp add: withdraw_all_def kv_val_def)
  qed
  show ?thesis
    using withdraw_all_ok [OF ok s1] DeleteTokenPair_ok [of S s1] zero s' by simp
qed

lemma complete_one_ok:
  assumes S: "sdk_laws S" and ok: "dex_ok S s" and k: "map_of (ds_withdrawTimes (dex s)) k \<noteq> None"
  shows "dex_ok S (complete_one S k s) \<and> dex_gap S (complete_one S k s) = dex_gap S s"
proof (cases "CompleteWithdraw S (snd k) s")
  case (Inl er)
  with ok show ?thesis by (simp add: complete_one_def)
next
  case (Inr s1)
  then obtain w b where w: "map_of (ds_withdraws (dex s)) (snd k) = Some w"
    and b: "b_mod_to_acc S (bank s) dexModule (wi_Owner w) (c_to_coins S (wi_Deposits w)) = Inr b"
    and s1: "s1 = deleteWithdrawInfo (snd k) (s\<lparr>bank := b\<rparr>)"
    by (auto simp: CompleteWithdraw_def GetWithdrawInfo_def split: option.splits sum.splits)
  have time: "wi_CompleteTime w = fst k" using dex_okD(10) [OF ok, of "fst k" "snd k"] k w by simp
  have "amt (c_to_coins S (wi_Deposits w)) NativeToken = withdrawal_of w"
    using coins_to_coins(2) [OF sdk_lawsD(2) [OF S], of "wi_Deposits w" NativeToken] dex_okD(8) [OF ok w]
    by (cases "wi_Deposits w") simp
  then have "bank_bal S b (dex_acc S) NativeToken = bank_bal S (bank s) (dex_acc S) NativeToken - withdrawal_of w"
    using moves_bal [OF bank_moves(3) [OF sdk_lawsD(3) [OF S] b]] dex_okD(7,9) [OF ok w] by simp
  then show ?thesis
    using Inr s1 w time ok
    by (auto simp: complete_one_def deleteWithdrawInfo_def DeleteWithdrawCompleteTimeAddress_def dex_ok_def dex_gap_def
        kv_ok_del kv_sum_del kv_val_def)
qed

lemma complete_one_queue:
  "k' \<noteq> k \<Longrightarrow> map_of (ds_withdrawTimes (dex (complete_one S k s))) k' = map_of (ds_withdrawTimes (dex s)) k'"
  by (auto simp: complete_one_def CompleteWithdraw_def deleteWithdrawInfo_def DeleteWithdrawCompleteTimeAddress_def
      split: sum.splits option.splits)

lemma complete_all_ok:
  assumes "sdk_laws S" and "dex_ok S s" and "distinct ks" and "\<forall>k\<in>set ks. map_of (ds_withdrawTimes (dex s)) k \<noteq> None"
  shows "dex_ok S (fold (complete_one S) ks s) \<and> dex_gap S (fold (complete_one S) ks s) = dex_gap S s"
  using assms(2-4)
proof (induction ks arbitrary: s)
  case (Cons k ks)
  have "\<forall>k'\<in>set ks. map_of (ds_withdrawTimes (dex (complete_one S k s))) k' \<noteq> None"
    using Cons.prems(2,3) complete_one_queue [of _ k S s] by force
  with Cons complete_one_ok [OF assms(1) Cons.prems(1), of k] show ?case by simp
qed simp

lemma dex_EndBlocker_ok:
  assumes "sdk_laws S" and "dex_ok S s"
  shows "dex_ok S (dex_EndBlocker S e s) \<and> dex_gap S (dex_EndBlocker S e s) = dex_gap S s"
proof -
  let ?ks = "due_withdraws s (e_Time e)"
  have "kv_ok (ds_withdrawTimes (dex s))" using assms(2) by (simp add: dex_ok_def)
  then have "distinct ?ks" unfolding due_withdraws_def by (intro distinct_filter conjunct2 [OF kv.keys_sorted])
  moreover have "\<forall>k\<in>set ?ks. map_of (ds_withdrawTimes (dex s)) k \<noteq> None"
    using kv.keys_get [of "ds_withdrawTimes (dex s)"] by (auto simp: due_withdraws_def)
  ultimately show ?thesis
    unfolding dex_EndBlocker_def using complete_all_ok [OF assms] by blast
qed

lemma set_delisting_ok:
  assumes "dex_ok S s"
  shows "dex_ok S (set_delisting b p s) \<and> dex_gap S (set_delisting b p s) = dex_gap S s"
proof (cases "map_of (ds_pairs (dex s)) (delist_name p)")
  case None
  with assms show ?thesis by (simp add: set_delisting_def GetTokenPair_def)
next
  case (Some tp)
  with UpdateTokenPair_ok [OF assms, of "tp\<lparr>pr_Delisting := b\<rparr>" "delist_name p"] dex_okD(3-6) [OF assms Some]
  show ?thesis by (simp add: set_delisting_def GetTokenPair_def kv_val_def)
qed

subsection \<open>The module as a state machine\<close>

text \<open>
  The transitions of the dex module: messages signed by accounts other than the module's, the end of a
  block, and the hooks of a delisting proposal.
\<close>

inductive dex_step :: "'b sdk \<Rightarrow> 'b chain \<Rightarrow> 'b chain \<Rightarrow> bool" for S where
  message: "dex_ValidateBasic S urlScheme msg = None \<Longrightarrow> dex_signer msg \<noteq> dex_acc S \<Longrightarrow>
     b_mod_addr S (e_FeeCollector e) \<noteq> dex_acc S \<Longrightarrow> dex_handler S e msg s = Inr s' \<Longrightarrow> dex_step S s s'"
| end_block: "dex_step S s (dex_EndBlocker S e s)"
| delist: "handleDelistProposal e p s = Inr s' \<Longrightarrow> dex_step S s s'"
| rejected: "dex_step S s (RejectedHandler p s)"
| voting: "dex_step S s (AfterDepositPeriodPassed p s)"

lemma dex_step_ok:
  assumes "dex_step S s s'" and "sdk_laws S" and "dex_ok S s"
  shows "dex_ok S s' \<and> dex_gap S s' = dex_gap S s"
  using assms
proof cases
  case (message urlScheme msg e)
  with dex_handler_ok assms(2,3) show ?thesis by blast
next
  case (end_block e)
  with dex_EndBlocker_ok [OF assms(2,3)] show ?thesis by blast
next
  case (delist e p)
  with handleDelist_ok [OF assms(3)] show ?thesis by blast
next
  case (rejected p)
  with set_delisting_ok [OF assms(3)] show ?thesis by (metis RejectedHandler_def)
next
  case (voting p)
  with set_delisting_ok [OF assms(3)] show ?thesis by (metis AfterDepositPeriodPassed_def)
qed

interpretation dex_machine: conserving_steps "dex_step S" "\<lambda>s. sdk_laws S \<and> dex_ok S s" "dex_gap S" for S
  by unfold_locales (auto dest: dex_step_ok)

lemma due_not_early: "k \<in> set (due_withdraws s now) \<Longrightarrow> fst k \<le> now"
  by (simp add: due_withdraws_def)

lemma complete_one_other:
  assumes "sdk_laws S" and "dex_ok S s" and "a \<noteq> snd k" and "a \<noteq> dex_acc S"
  shows "map_of (ds_withdraws (dex (complete_one S k s))) a = map_of (ds_withdraws (dex s)) a"
    and "bank_bal S (bank (complete_one S k s)) a d = bank_bal S (bank s) a d"
proof -
  show "map_of (ds_withdraws (dex (complete_one S k s))) a = map_of (ds_withdraws (dex s)) a"
    using assms(3) by (auto simp: complete_one_def CompleteWithdraw_def deleteWithdrawInfo_def
        DeleteWithdrawCompleteTimeAddress_def split: sum.splits option.splits)
  show "bank_bal S (bank (complete_one S k s)) a d = bank_bal S (bank s) a d"
  proof (cases "CompleteWithdraw S (snd k) s")
    case (Inr s1)
    then obtain w b where w: "map_of (ds_withdraws (dex s)) (snd k) = Some w"
      and b: "b_mod_to_acc S (bank s) dexModule (wi_Owner w) (c_to_coins S (wi_Deposits w)) = Inr b"
      and s1: "s1 = deleteWithdrawInfo (snd k) (s\<lparr>bank := b\<rparr>)"
      by (auto simp: CompleteWithdraw_def GetWithdrawInfo_def split: option.splits sum.splits)
    have "wi_Owner w = snd k" using dex_okD(7) [OF assms(2) w] .
    with Inr s1 moves_bal [OF bank_moves(3) [OF sdk_lawsD(3) [OF assms(1)] b]] assms(3,4) show ?thesis
      by (simp add: complete_one_def deleteWithdrawInfo_def DeleteWithdrawCompleteTimeAddress_def)
  qed (simp add: complete_one_def)
qed

lemma complete_all_other:
  assumes "sdk_laws S" and "dex_ok S s" and "distinct ks"
    and "\<forall>k\<in>set ks. map_of (ds_withdrawTimes (dex s)) k \<noteq> None" and "\<forall>k\<in>set ks. a \<noteq> snd k" and "a \<noteq> dex_acc S"
  shows "map_of (ds_withdraws (dex (fold (complete_one S) ks s))) a = map_of (ds_withdraws (dex s)) a
     \<and> bank_bal S (bank (fold (complete_one S) ks s)) a d = bank_bal S (bank s) a d"
  using assms(2-5)
proof (induction ks arbitrary: s)
  case (Cons k ks)
  have "\<forall>k'\<in>set ks. map_of (ds_withdrawTimes (dex (complete_one S k s))) k' \<noteq> None"
    using Cons.prems(2,3) complete_one_queue [of _ k S s] by force
  with Cons complete_one_ok [OF assms(1) Cons.prems(1), of k] complete_one_other [OF assms(1) Cons.prems(1) _ assms(6), of k]
  show ?case by simp
qed simp

lemma EndBlocker_not_early:
  assumes "sdk_laws S" and "dex_ok S s" and "map_of (ds_withdraws (dex s)) a = Some w" and "e_Time e < wi_CompleteTime w"
  shows "map_of (ds_withdraws (dex (dex_EndBlocker S e s))) a = Some w
     \<and> bank_bal S (bank (dex_EndBlocker S e s)) a d = bank_bal S (bank s) a d"
proof -
  let ?ks = "due_withdraws s (e_Time e)"
  have ks: "\<forall>k\<in>set ?ks. map_of (ds_withdrawTimes (dex s)) k \<noteq> None"
    using kv.keys_get [of "ds_withdrawTimes (dex s)"] by (auto simp: due_withdraws_def)
  have "kv_ok (ds_withdrawTimes (dex s))" using assms(2) by (simp add: dex_ok_def)
  then have dist: "distinct ?ks" unfolding due_withdraws_def by (intro distinct_filter conjunct2 [OF kv.keys_sorted])
  have "\<forall>k\<in>set ?ks. a \<noteq> snd k"
  proof
    fix k assume k: "k \<in> set ?ks"
    then have "fst k \<le> e_Time e" by (rule due_not_early)
    moreover from ks k have "map_of (ds_withdrawTimes (dex s)) (fst k, snd k) = Some ()" by auto
    ultimately have "fst k \<le> e_Time e" "map_of (ds_withdrawTimes (dex s)) (fst k, snd k) = Some ()" by simp_all
    with dex_okD(10) [OF assms(2), of "fst k" "snd k"] assms(3,4) show "a \<noteq> snd k" by auto
  qed
  from complete_all_other [OF assms(1,2) dist ks this dex_okD(9) [OF assms(2,3)]] assms(3) show ?thesis
    by (simp add: dex_EndBlocker_def)
qed

subsection \<open>Properties\<close>

text \<open>A pair \<open>abc_okt\<close> of \<open>alice\<close> with a deposit, and a pending withdrawal of \<open>bob\<close>.\<close>

definition demo_pair :: token_pair where
  "demo_pair = \<lparr>pr_Base = ''abc'', pr_Quote = ''okt'', pr_InitPrice = 1000, pr_MaxPriceDigit = 4, pr_MaxQuantityDigit = 4,
     pr_MinQuantity = 1, pr_ID = 1, pr_Delisting = False, pr_Owner = ''alice'', pr_Deposits = (NativeToken, 30),
     pr_BlockHeight = 1\<rparr>"

definition demo_dex_chain :: "ref_bank chain" where
  "demo_dex_chain = demo_chain\<lparr>
     bank := \<lparr>rb_bal = [(''@dex'', [(''okt'', 50)]), (''alice'', [(''abc'', 500), (''okt'', 1000)])],
              rb_sup = [(''abc'', 500), (''okt'', 1050)]\<rparr>,
     dex := (dex demo_chain)\<lparr>ds_pairs := [(''abc_okt'', demo_pair)], ds_maxPairID := 1,
        ds_userPairs := [((''alice'', ''abc_okt''), ())],
        ds_withdraws := [(''bob'', \<lparr>wi_Owner = ''bob'', wi_Deposits = (NativeToken, 20), wi_CompleteTime = 100\<rparr>)],
        ds_withdrawTimes := [((100, ''bob''), ())],
        ds_operators := [(''alice'', \<lparr>op_Address = ''alice'', op_HandlingFeeAddress = ''alice'', op_Website = [],
           op_InitHeight = 1, op_TxHash = []\<rparr>)]\<rparr>\<rparr>"

lemma demo_dex_ok: "dex_ok ref_sdk demo_dex_chain"
  by (auto simp: dex_ok_def demo_dex_chain_def demo_chain_def demo_pair_def kv_ok_def pair_name_def NativeToken_def
      ref_sdk_def rb_mod_def split: if_splits)

lemma demo_dex_gap: "dex_gap ref_sdk demo_dex_chain = 0"
  by code_simp

text \<open>
  C29. Deposits are backed: over every sequence of dex messages, block ends and delisting hooks, what the
  module account holds in the native token less the deposits of all pairs and the pending withdrawals never
  changes; started balanced, the module invariant holds in every reachable state.
\<close>

theorem dex_deposits_backed:
  assumes "sdk_laws S" and "dex_ok S s" and "dex_gap S s = 0" and "(dex_step S)\<^sup>*\<^sup>* s s'"
  shows "dex_ok S s' \<and> bank_bal S (bank s') (dex_acc S) NativeToken
     = kv_sum deposit_of (ds_pairs (dex s')) + kv_sum withdrawal_of (ds_withdraws (dex s'))"
  using dex_machine.reachable [OF assms(4)] assms(1-3) by (simp add: dex_gap_def)

theorem dex_deposits_backed_witness:
  "bank_bal ref_sdk (bank (dex_EndBlocker ref_sdk demo_env demo_dex_chain)) (dex_acc ref_sdk) NativeToken = 30
   \<and> kv_sum deposit_of (ds_pairs (dex (dex_EndBlocker ref_sdk demo_env demo_dex_chain)))
     + kv_sum withdrawal_of (ds_withdraws (dex (dex_EndBlocker ref_sdk demo_env demo_dex_chain))) = 30"
proof -
  have "(dex_step ref_sdk)\<^sup>*\<^sup>* demo_dex_chain (dex_EndBlocker ref_sdk demo_env demo_dex_chain)"
    by (rule r_into_rtranclp) (rule dex_step.end_block)
  from dex_deposits_backed [OF ref_sdk_laws demo_dex_ok demo_dex_gap this]
  have "bank_bal ref_sdk (bank (dex_EndBlocker ref_sdk demo_env demo_dex_chain)) (dex_acc ref_sdk) NativeToken =
    kv_sum deposit_of (ds_pairs (dex (dex_EndBlocker ref_sdk demo_env demo_dex_chain)))
    + kv_sum withdrawal_of (ds_withdraws (dex (dex_EndBlocker ref_sdk demo_env demo_dex_chain)))" by simp
  moreover have "kv_sum deposit_of (ds_pairs (dex (dex_EndBlocker ref_sdk demo_env demo_dex_chain)))
    + kv_sum withdrawal_of (ds_withdraws (dex (dex_EndBlocker ref_sdk demo_env demo_dex_chain))) = 30" by code_simp
  ultimately show ?thesis by simp
qed

text \<open>
  No withdrawal is paid early: a withdrawal whose time has not come survives the end of a block
  unchanged, and its owner's balance does not move.
\<close>

theorem withdrawal_not_early:
  assumes "sdk_laws S" and "dex_ok S s" and "map_of (ds_withdraws (dex s)) a = Some w"
    and "e_Time e < wi_CompleteTime w"
  shows "map_of (ds_withdraws (dex (dex_EndBlocker S e s))) a = Some w
     \<and> bank_bal S (bank (dex_EndBlocker S e s)) a d = bank_bal S (bank s) a d"
  by (rule EndBlocker_not_early [OF assms])

theorem withdrawal_not_early_witness:
  "map_of (ds_withdraws (dex (dex_EndBlocker ref_sdk (demo_env\<lparr>e_Time := 99\<rparr>) demo_dex_chain))) ''bob'' =
     Some \<lparr>wi_Owner = ''bob'', wi_Deposits = (NativeToken, 20), wi_CompleteTime = 100\<rparr>"
proof -
  have "map_of (ds_withdraws (dex demo_dex_chain)) ''bob'' =
      Some \<lparr>wi_Owner = ''bob'', wi_Deposits = (NativeToken, 20), wi_CompleteTime = 100\<rparr>"
    by (simp add: demo_dex_chain_def)
  from withdrawal_not_early [OF ref_sdk_laws demo_dex_ok this, of "demo_env\<lparr>e_Time := 99\<rparr>"] show ?thesis by simp
qed

text \<open>
  The order on token pairs is not asymmetric: two pairs with equal deposits, listed in the
  same block, can each be greater than the other, and then sorting them keeps neither order: the result
  depends on the order in which they arrive.
\<close>

theorem pair_order_not_asymmetric:
  "\<exists>p q. IsGT p q \<and> IsGT q p \<and> go_sort IsGT [p, q] \<noteq> go_sort IsGT [q, p]"
proof -
  let ?p = "demo_pair\<lparr>pr_Base := ''a'', pr_Quote := ''z''\<rparr>" and ?q = "demo_pair\<lparr>pr_Base := ''b'', pr_Quote := ''c''\<rparr>"
  have "IsGT ?p ?q \<and> IsGT ?q ?p" by code_simp
  moreover from this have "go_sort IsGT [?p, ?q] = [?q, ?p]" "go_sort IsGT [?q, ?p] = [?p, ?q]"
    by (simp_all add: go_sort_def)
  moreover have "pr_Base ?p \<noteq> pr_Base ?q" by simp
  then have "?p \<noteq> ?q" by (rule contrapos_nn) (rule arg_cong [where f = pr_Base])
  ultimately show ?thesis by (intro exI [of _ ?p] exI [of _ ?q]) simp
qed

text \<open>
  A pending transfer survives the delisting of its pair: the nominee of the former owner
  can confirm it after the pair was listed again by someone else and so takes the pair without the consent of its
  owner, whose entry in the owner index remains.
\<close>

theorem stale_transfer_takes_pair:
  assumes "map_of (ds_pairs (dex s)) product = Some tp"
    and "map_of (ds_confirm (dex s)) product = Some c" and "e_Time e \<le> dc_Expire c"
    and "dc_FromAddress c \<noteq> pr_Owner tp"
    and "map_of (ds_userPairs (dex s)) (pr_Owner tp, product) = Some ()"
  shows "\<exists>s' tp'. dex_handler S e (DexMsgConfirmOwnership product (dc_ToAddress c)) s = Inr s'
     \<and> map_of (ds_pairs (dex s')) product = Some tp' \<and> pr_Owner tp' = dc_ToAddress c
     \<and> map_of (ds_userPairs (dex s')) (pr_Owner tp, product) = Some ()"
  using assms
  by (simp add: dex_handleMsgConfirmOwnership_def dex_GetConfirmOwnership_def GetTokenPair_def UpdateUserTokenPair_def
      dex_DeleteConfirmOwnership_def UpdateTokenPair_def)

theorem stale_transfer_takes_pair_witness:
  "\<exists>s s' tp'. pr_Owner demo_pair = ''alice'' \<and> map_of (ds_pairs (dex s)) ''abc_okt'' = Some demo_pair
     \<and> dex_handler ref_sdk demo_env (DexMsgConfirmOwnership ''abc_okt'' ''mallory'') s = Inr s'
     \<and> map_of (ds_pairs (dex s')) ''abc_okt'' = Some tp' \<and> pr_Owner tp' = ''mallory''"
proof -
  let ?c = "\<lparr>dc_Product = ''abc_okt'', dc_FromAddress = ''eve'', dc_ToAddress = ''mallory'', dc_Expire = 105\<rparr>"
  let ?s = "demo_dex_chain\<lparr>dex := (dex demo_dex_chain)\<lparr>ds_confirm := [(''abc_okt'', ?c)]\<rparr>\<rparr>"
  have "map_of (ds_pairs (dex ?s)) ''abc_okt'' = Some demo_pair" "map_of (ds_confirm (dex ?s)) ''abc_okt'' = Some ?c"
    "e_Time demo_env \<le> dc_Expire ?c" "dc_FromAddress ?c \<noteq> pr_Owner demo_pair"
    "map_of (ds_userPairs (dex ?s)) (pr_Owner demo_pair, ''abc_okt'') = Some ()"
    by (simp_all add: demo_dex_chain_def demo_env_def demo_pair_def)
  note hyps = this
  have owner: "pr_Owner demo_pair = ''alice''" by (simp add: demo_pair_def)
  from stale_transfer_takes_pair [OF hyps, of ref_sdk] obtain s' tp' where
    "dex_handler ref_sdk demo_env (DexMsgConfirmOwnership ''abc_okt'' ''mallory'') ?s = Inr s'"
    "map_of (ds_pairs (dex s')) ''abc_okt'' = Some tp'" "pr_Owner tp' = ''mallory''" by auto
  with hyps(1) owner show ?thesis by blast
qed

end
