(* ===== verification/OrderCache.thy ===== *)
theory OrderCache
  imports DexHandler
begin

text \<open>
  The caches of the order keeper: \<open>x/order/keeper/disk_cache.go\<close>, the flush and reset of
  \<open>keeper.go\<close> and the setters of \<open>disk_cache_keeper.go\<close>, and \<open>memory_cache.go\<close>. Go maps are ordered
  stores; a loop over a map that feeds a sorted slice or a keyed store does not depend on the order.

  \<open>cache_ok\<close> is the consistency of the disk cache: every book is well formed and the quantity of each level and
  side is the sum of the remaining quantities of the orders queued there. \<open>cache_synced\<close> says that
  the store holds what the cache holds outside the entries marked as updated; flushing
  restores it, which makes a restart transparent.
\<close>

subsection \<open>Disk cache\<close>

definition newDiskCache :: disk_cache where
  "newDiskCache = \<lparr>dk_books = [], dk_booksUpdated = [], dk_booksNew = [], dk_ids = [], dk_idsUpdated = [],
     dk_price = [], dk_storeOrderNum = 0, dk_openNum = 0, dk_closed = []\<rparr>"

definition dk_reset :: "disk_cache \<Rightarrow> disk_cache" where
  "dk_reset c = c\<lparr>dk_closed := [], dk_idsUpdated := [], dk_booksUpdated := [], dk_booksNew := []\<rparr>"

definition dk_setLastPrice :: "string \<Rightarrow> dec \<Rightarrow> disk_cache \<Rightarrow> disk_cache" where
  "dk_setLastPrice product price c = c\<lparr>dk_price := kv_set product price (dk_price c)\<rparr>"

definition dk_getLastPrice :: "disk_cache \<Rightarrow> string \<Rightarrow> dec" where
  "dk_getLastPrice c product = (case map_of (dk_price c) product of Some p \<Rightarrow> p | None \<Rightarrow> 0)"

text \<open>A missing key reads as the nil slice, which has no elements.\<close>

definition getOrderIDs :: "disk_cache \<Rightarrow> ids_key \<Rightarrow> string list" where
  "getOrderIDs c key = (case map_of (dk_ids c) key of Some ids \<Rightarrow> ids | None \<Rightarrow> [])"

definition getDepthBook :: "disk_cache \<Rightarrow> string \<Rightarrow> depth_book option" where
  "getDepthBook c product = map_of (dk_books c) product"

definition addOrderIDs :: "ids_key \<Rightarrow> string list \<Rightarrow> disk_cache \<Rightarrow> disk_cache" where
  "addOrderIDs key ids c = c\<lparr>dk_ids := kv_set key ids (dk_ids c)\<rparr>"

definition addDepthBook :: "string \<Rightarrow> depth_book \<Rightarrow> disk_cache \<Rightarrow> disk_cache" where
  "addDepthBook product book c = c\<lparr>dk_books := kv_set product book (dk_books c)\<rparr>"

definition setOrderIDs :: "ids_key \<Rightarrow> string list \<Rightarrow> disk_cache \<Rightarrow> disk_cache" where
  "setOrderIDs key ids c =
     c\<lparr>dk_ids := (if ids = [] then kv_del key (dk_ids c) else kv_set key ids (dk_ids c)),
       dk_idsUpdated := kv_set key () (dk_idsUpdated c)\<rparr>"

definition setDepthBook :: "string \<Rightarrow> depth_book \<Rightarrow> disk_cache \<Rightarrow> disk_cache" where
  "setDepthBook product book c =
     c\<lparr>dk_books := (if book \<noteq> [] then kv_set product book (dk_books c) else kv_del product (dk_books c)),
       dk_booksUpdated := kv_set product () (dk_booksUpdated c)\<rparr>"

definition GetUpdatedOrderIDKeys :: "disk_cache \<Rightarrow> ids_key list" where
  "GetUpdatedOrderIDKeys c = map fst (dk_idsUpdated c)"

definition GetUpdatedDepthbookKeys :: "disk_cache \<Rightarrow> string list" where
  "GetUpdatedDepthbookKeys c = map fst (dk_booksUpdated c)"

definition GetNewDepthbookKeys :: "disk_cache \<Rightarrow> string list" where
  "GetNewDepthbookKeys c = map fst (dk_booksNew c)"

definition getProductsFromDepthBookMap :: "disk_cache \<Rightarrow> string list" where
  "getProductsFromDepthBookMap c = map fst (dk_books c)"

definition GetOrderIDsMapCopy :: "disk_cache \<Rightarrow> (ids_key, string list) kv" where
  "GetOrderIDsMapCopy c = fold (\<lambda>(k, v) m. kv_set k v m) (dk_ids c) []"

definition DecreaseStoreOrderNum :: "int \<Rightarrow> disk_cache \<Rightarrow> disk_cache" where
  "DecreaseStoreOrderNum num c = c\<lparr>dk_storeOrderNum := dk_storeOrderNum c - num\<rparr>"

definition insertOrder :: "order \<Rightarrow> disk_cache \<Rightarrow> disk_cache" where
  "insertOrder x c =
     (let depthBook = (case map_of (dk_books c) (o_Product x) of Some b \<Rightarrow> b | None \<Rightarrow> []);
          key = FormatOrderIDsKey (o_Product x) (o_Price x) (o_Side x);
          orderIDs = (case map_of (dk_ids c) key of Some ids \<Rightarrow> ids | None \<Rightarrow> [])
      in c\<lparr>dk_books := kv_set (o_Product x) (InsertOrder x depthBook) (dk_books c),
           dk_booksUpdated := kv_set (o_Product x) () (dk_booksUpdated c),
           dk_booksNew := kv_set (o_Product x) () (dk_booksNew c),
           dk_ids := kv_set key (orderIDs @ [o_OrderID x]) (dk_ids c),
           dk_idsUpdated := kv_set key () (dk_idsUpdated c),
           dk_openNum := dk_openNum c + 1, dk_storeOrderNum := dk_storeOrderNum c + 1\<rparr>)"

definition closeOrder :: "string \<Rightarrow> disk_cache \<Rightarrow> disk_cache" where
  "closeOrder orderID c = c\<lparr>dk_closed := dk_closed c @ [orderID], dk_openNum := dk_openNum c - 1\<rparr>"

text \<open>The loop removes the first occurrence of the order id and leaves the rest alone when there is none.\<close>

definition removeOrder :: "order \<Rightarrow> disk_cache \<Rightarrow> disk_cache" where
  "removeOrder x c =
     (let c1 = (case getDepthBook c (o_Product x) of
                  Some depthBook \<Rightarrow> setDepthBook (o_Product x) (RemoveOrder x depthBook) c
                | None \<Rightarrow> c);
          key = FormatOrderIDsKey (o_Product x) (o_Price x) (o_Side x);
          orderIDs = getOrderIDs c1 key;
          c2 = (if o_OrderID x \<in> set orderIDs then setOrderIDs key (remove1 (o_OrderID x) orderIDs) c1 else c1)
      in closeOrder (o_OrderID x) c2)"

subsection \<open>Memory cache\<close>

definition NewCache :: mem_cache where
  "NewCache = \<lparr>mc_updated = [], mc_result = None, mc_txResults = [], mc_cancelNum = 0, mc_expireNum = 0,
     mc_partialFillNum = 0, mc_fullFillNum = 0\<rparr>"

definition empty_block_match_result :: block_match_result where
  "empty_block_match_result = \<lparr>bm_BlockHeight = 0, bm_ResultMap = [], bm_TimeStamp = 0\<rparr>"

definition mc_reset :: "mem_cache \<Rightarrow> mem_cache" where
  "mc_reset c = \<lparr>mc_updated = [], mc_result = Some empty_block_match_result, mc_txResults = [], mc_cancelNum = 0,
     mc_expireNum = 0, mc_partialFillNum = 0, mc_fullFillNum = 0\<rparr>"

definition IncreaseCancelNum :: "mem_cache \<Rightarrow> mem_cache" where
  "IncreaseCancelNum c = c\<lparr>mc_cancelNum := mc_cancelNum c + 1\<rparr>"

definition IncreaseExpireNum :: "mem_cache \<Rightarrow> mem_cache" where
  "IncreaseExpireNum c = c\<lparr>mc_expireNum := mc_expireNum c + 1\<rparr>"

definition IncreaseFullFillNum :: "mem_cache \<Rightarrow> mem_cache" where
  "IncreaseFullFillNum c = c\<lparr>mc_fullFillNum := mc_fullFillNum c + 1\<rparr>"

definition IncreasePartialFillNum :: "mem_cache \<Rightarrow> mem_cache" where
  "IncreasePartialFillNum c = c\<lparr>mc_partialFillNum := mc_partialFillNum c + 1\<rparr>"

definition toggleCopyTxHandlerMsgResult :: "mem_cache \<Rightarrow> nat list list \<times> mem_cache" where
  "toggleCopyTxHandlerMsgResult c = (mc_txResults c, c\<lparr>mc_txResults := []\<rparr>)"

subsection \<open>Store setters\<close>

abbreviation upd_ord :: "(order_store \<Rightarrow> order_store) \<Rightarrow> 'b chain \<Rightarrow> 'b chain" where
  "upd_ord f s \<equiv> s\<lparr>ord := f (ord s)\<rparr>"

abbreviation upd_dc :: "(disk_cache \<Rightarrow> disk_cache) \<Rightarrow> 'b chain \<Rightarrow> 'b chain" where
  "upd_dc f s \<equiv> s\<lparr>dcache := f (dcache s)\<rparr>"

abbreviation upd_mc :: "(mem_cache \<Rightarrow> mem_cache) \<Rightarrow> 'b chain \<Rightarrow> 'b chain" where
  "upd_mc f s \<equiv> s\<lparr>mcache := f (mcache s)\<rparr>"

definition SetBlockOrderNum :: "int \<Rightarrow> int \<Rightarrow> 'b chain \<Rightarrow> 'b chain" where
  "SetBlockOrderNum blockHeight orderNum = upd_ord (\<lambda>q. q\<lparr>os_orderNum := kv_set blockHeight orderNum (os_orderNum q)\<rparr>)"

definition DropBlockOrderNum :: "int \<Rightarrow> 'b chain \<Rightarrow> 'b chain" where
  "DropBlockOrderNum blockHeight = upd_ord (\<lambda>q. q\<lparr>os_orderNum := kv_del blockHeight (os_orderNum q)\<rparr>)"

definition SetExpireBlockHeight :: "int \<Rightarrow> int list \<Rightarrow> 'b chain \<Rightarrow> 'b chain" where
  "SetExpireBlockHeight blockHeight hs = upd_ord (\<lambda>q. q\<lparr>os_expire := kv_set blockHeight hs (os_expire q)\<rparr>)"

definition DropExpireBlockHeight :: "int \<Rightarrow> 'b chain \<Rightarrow> 'b chain" where
  "DropExpireBlockHeight blockHeight = upd_ord (\<lambda>q. q\<lparr>os_expire := kv_del blockHeight (os_expire q)\<rparr>)"

definition SetOrder :: "string \<Rightarrow> order \<Rightarrow> 'b chain \<Rightarrow> 'b chain" where
  "SetOrder orderID x = upd_ord (\<lambda>q. q\<lparr>os_orders := kv_set orderID x (os_orders q)\<rparr>)"

definition DropOrder :: "string \<Rightarrow> 'b chain \<Rightarrow> 'b chain" where
  "DropOrder orderID = upd_ord (\<lambda>q. q\<lparr>os_orders := kv_del orderID (os_orders q)\<rparr>)"

definition StoreDepthBook :: "string \<Rightarrow> depth_book option \<Rightarrow> 'b chain \<Rightarrow> 'b chain" where
  "StoreDepthBook product depthBook = upd_ord (\<lambda>q. q\<lparr>os_depth :=
     (case depthBook of None \<Rightarrow> kv_del product (os_depth q)
      | Some b \<Rightarrow> if b = [] then kv_del product (os_depth q) else kv_set product b (os_depth q))\<rparr>)"

definition SetLastPrice :: "string \<Rightarrow> dec \<Rightarrow> 'b chain \<Rightarrow> 'b chain" where
  "SetLastPrice product price s =
     upd_dc (dk_setLastPrice product price) (upd_ord (\<lambda>q. q\<lparr>os_price := kv_set product price (os_price q)\<rparr>) s)"

definition StoreOrderIDsMap :: "ids_key \<Rightarrow> string list \<Rightarrow> 'b chain \<Rightarrow> 'b chain" where
  "StoreOrderIDsMap key ids = upd_ord (\<lambda>q. q\<lparr>os_ids :=
     (if ids = [] then kv_del key (os_ids q) else kv_set key ids (os_ids q))\<rparr>)"

definition SetLastExpiredBlockHeight :: "int \<Rightarrow> 'b chain \<Rightarrow> 'b chain" where
  "SetLastExpiredBlockHeight h = upd_ord (\<lambda>q. q\<lparr>os_lastExpired := Some h\<rparr>)"

definition setOpenOrderNum :: "int \<Rightarrow> 'b chain \<Rightarrow> 'b chain" where
  "setOpenOrderNum n = upd_ord (\<lambda>q. q\<lparr>os_openNum := Some n\<rparr>)"

definition setStoreOrderNum :: "int \<Rightarrow> 'b chain \<Rightarrow> 'b chain" where
  "setStoreOrderNum n = upd_ord (\<lambda>q. q\<lparr>os_storeNum := Some n\<rparr>)"

text \<open>An empty list first deletes the entry and is then stored like any other.\<close>

definition SetLastClosedOrderIDs :: "string list \<Rightarrow> 'b chain \<Rightarrow> 'b chain" where
  "SetLastClosedOrderIDs ids s =
     upd_ord (\<lambda>q. q\<lparr>os_closed := Some ids\<rparr>) (if ids = [] then upd_ord (\<lambda>q. q\<lparr>os_closed := None\<rparr>) s else s)"

definition GetOpenOrderNum :: "'b chain \<Rightarrow> int" where
  "GetOpenOrderNum s = (case os_openNum (ord s) of None \<Rightarrow> 0 | Some n \<Rightarrow> n)"

definition GetStoreOrderNum :: "'b chain \<Rightarrow> int" where
  "GetStoreOrderNum s = (case os_storeNum (ord s) of None \<Rightarrow> 0 | Some n \<Rightarrow> n)"

subsection \<open>Flush and reset\<close>

definition Cache2Disk :: "'b chain \<Rightarrow> 'b chain" where
  "Cache2Disk s =
     (let s1 = setStoreOrderNum (dk_storeOrderNum (dcache s)) (setOpenOrderNum (dk_openNum (dcache s))
                 (SetLastClosedOrderIDs (dk_closed (dcache s)) s));
          s2 = fold (\<lambda>key t. StoreDepthBook key (getDepthBook (dcache s) key) t)
                 (GetUpdatedDepthbookKeys (dcache s)) s1
      in fold (\<lambda>key t. StoreOrderIDsMap key (getOrderIDs (dcache s) key) t) (GetUpdatedOrderIDKeys (dcache s)) s2)"

text \<open>
  \<open>ResetCache\<close> loads the stores once per process (\<open>sync.Once\<close>): \<open>startUp\<close> says whether this is the
  first call.
\<close>

definition load_stores :: "order_store \<Rightarrow> disk_cache \<Rightarrow> disk_cache" where
  "load_stores q c =
     fold (\<lambda>(key, ids). addOrderIDs key ids) (os_ids q) (fold (\<lambda>(product, b). addDepthBook product b) (os_depth q) c)"

definition ResetCache :: "bool \<Rightarrow> 'b chain \<Rightarrow> 'b chain" where
  "ResetCache startUp s =
     (let s1 = (if startUp then upd_dc (load_stores (ord s)) s else s);
          s2 = upd_dc dk_reset (upd_mc mc_reset s1)
      in upd_dc (\<lambda>c. c\<lparr>dk_openNum := GetOpenOrderNum s2, dk_storeOrderNum := GetStoreOrderNum s2\<rparr>) s2)"

subsection \<open>What the caches hold\<close>

definition book_of :: "disk_cache \<Rightarrow> string \<Rightarrow> depth_book" where
  "book_of c p = (case map_of (dk_books c) p of Some b \<Rightarrow> b | None \<Rightarrow> [])"

abbreviation key_of :: "order \<Rightarrow> ids_key" where
  "key_of x \<equiv> (o_Product x, o_Price x, o_Side x)"

lemma InsertOrder_nonempty [simp]: "InsertOrder x b \<noteq> []"
  by (auto simp: InsertOrder_def Let_def)

lemma RemoveOrder_Nil [simp]: "RemoveOrder x [] = []"
  by (simp add: RemoveOrder_def Let_def)

lemma book_of_set [simp]: "book_of (setDepthBook p b c) q = (if q = p then b else book_of c q)"
  by (simp add: book_of_def setDepthBook_def)

lemma ids_set [simp]: "getOrderIDs (setOrderIDs k ids c) k' = (if k' = k then ids else getOrderIDs c k')"
  by (simp add: getOrderIDs_def setOrderIDs_def)

lemma book_of_setOrderIDs [simp]: "book_of (setOrderIDs k ids c) p = book_of c p"
  by (simp add: book_of_def setOrderIDs_def)

lemma ids_setDepthBook [simp]: "getOrderIDs (setDepthBook p b c) k = getOrderIDs c k"
  by (simp add: getOrderIDs_def setDepthBook_def)

lemma cache_closeOrder [simp]: "book_of (closeOrder i c) = book_of c" "getOrderIDs (closeOrder i c) = getOrderIDs c"
  "dk_books (closeOrder i c) = dk_books c" "dk_ids (closeOrder i c) = dk_ids c"
  "dk_booksUpdated (closeOrder i c) = dk_booksUpdated c" "dk_idsUpdated (closeOrder i c) = dk_idsUpdated c"
  by (auto simp: fun_eq_iff book_of_def getOrderIDs_def closeOrder_def)

lemma book_of_insert [simp]:
  "book_of (insertOrder x c) p = (if p = o_Product x then InsertOrder x (book_of c p) else book_of c p)"
  by (simp add: book_of_def insertOrder_def Let_def)

lemma ids_insert [simp]:
  "getOrderIDs (insertOrder x c) k = getOrderIDs c k @ (if k = key_of x then [o_OrderID x] else [])"
  by (simp add: getOrderIDs_def insertOrder_def FormatOrderIDsKey_def Let_def)

lemma book_of_remove [simp]:
  "book_of (removeOrder x c) p = (if p = o_Product x then RemoveOrder x (book_of c p) else book_of c p)"
  by (auto simp: removeOrder_def Let_def getDepthBook_def book_of_def setDepthBook_def setOrderIDs_def closeOrder_def
      split: option.splits)

lemma ids_remove [simp]:
  "getOrderIDs (removeOrder x c) k =
     (if k = key_of x then remove1 (o_OrderID x) (getOrderIDs c k) else getOrderIDs c k)"
  by (auto simp: removeOrder_def Let_def FormatOrderIDsKey_def remove1_idem getDepthBook_def split: option.splits)

subsection \<open>Consistency of the disk cache\<close>

text \<open>An order id is queued under a key when the store has a live open order of that key.\<close>

definition queued :: "(string \<Rightarrow> order option) \<Rightarrow> ids_key \<Rightarrow> string \<Rightarrow> bool" where
  "queued look k i \<longleftrightarrow> (case look i of None \<Rightarrow> False
     | Some x \<Rightarrow> o_OrderID x = i \<and> key_of x = k \<and> o_Status x = OrderStatusOpen \<and> order_live x)"

definition remain_of :: "(string \<Rightarrow> order option) \<Rightarrow> string \<Rightarrow> dec" where
  "remain_of look i = (case look i of None \<Rightarrow> 0 | Some x \<Rightarrow> o_RemainQuantity x)"

definition queue_sum :: "(string \<Rightarrow> order option) \<Rightarrow> string list \<Rightarrow> dec" where
  "queue_sum look ids = sum_list (map (remain_of look) ids)"

definition stores_ok :: "disk_cache \<Rightarrow> bool" where
  "stores_ok c \<longleftrightarrow> kv_ok (dk_books c) \<and> kv_ok (dk_ids c) \<and> (\<forall>k. map_of (dk_ids c) k \<noteq> Some [])
     \<and> (\<forall>p. map_of (dk_books c) p \<noteq> Some [])"

definition cache_ok :: "(string \<Rightarrow> order option) \<Rightarrow> disk_cache \<Rightarrow> bool" where
  "cache_ok look c \<longleftrightarrow> stores_ok c \<and> (\<forall>p. book_ok (book_of c p))
     \<and> (\<forall>k. distinct (getOrderIDs c k) \<and> (\<forall>i\<in>set (getOrderIDs c k). queued look k i))
     \<and> (\<forall>p k. book_qty (book_of c p) k = queue_sum look (getOrderIDs c (p, k)))"

lemma stores_ok_ops [simp]:
  assumes "stores_ok c"
  shows "stores_ok (insertOrder x c)" and "stores_ok (removeOrder x c)" and "stores_ok (setOrderIDs k ids c)"
    and "stores_ok (setDepthBook p b c)" and "stores_ok (closeOrder i c)"
proof -
  have set: "stores_ok (setOrderIDs k ids c)" "stores_ok (setDepthBook p b c)" "stores_ok (closeOrder i c)"
    if "stores_ok c" for k ids p b i c
    using that by (auto simp: stores_ok_def setOrderIDs_def setDepthBook_def closeOrder_def kv_ok_set kv_ok_del)
  show "stores_ok (insertOrder x c)"
    using assms by (auto simp: stores_ok_def insertOrder_def Let_def kv_ok_set)
  show "stores_ok (removeOrder x c)"
    using assms by (auto simp: removeOrder_def Let_def set split: option.splits)
  show "stores_ok (setOrderIDs k ids c)" "stores_ok (setDepthBook p b c)" "stores_ok (closeOrder i c)"
    using assms by (simp_all add: set)
qed

lemma cache_okD:
  assumes "cache_ok look c"
  shows "stores_ok c" and "book_ok (book_of c p)" and "distinct (getOrderIDs c k)"
    and "i \<in> set (getOrderIDs c k) \<Longrightarrow> queued look k i"
    and "book_qty (book_of c p) k' = queue_sum look (getOrderIDs c (p, k'))"
  using assms unfolding cache_ok_def by blast+

lemma queuedE:
  assumes "queued look k i"
  obtains x where "look i = Some x" and "o_OrderID x = i" and "key_of x = k" and "o_Status x = OrderStatusOpen"
    and "order_live x"
  using assms by (auto simp: queued_def split: option.splits)

lemma queued_unique: "queued look k i \<Longrightarrow> queued look k' i \<Longrightarrow> k = k'"
  by (elim queuedE) simp

lemma queue_sum_simps [simp]:
  "queue_sum look [] = 0" "queue_sum look (i # ids) = remain_of look i + queue_sum look ids"
  "queue_sum look (ids @ ids') = queue_sum look ids + queue_sum look ids'"
  by (simp_all add: queue_sum_def)

lemma queue_sum_other [simp]: "i \<notin> set ids \<Longrightarrow> queue_sum (look(i := v)) ids = queue_sum look ids"
  by (auto simp: queue_sum_def remain_of_def intro!: arg_cong [of _ _ sum_list])

lemma queued_other [simp]: "i \<noteq> j \<Longrightarrow> queued (look(j := v)) k i = queued look k i"
  by (simp add: queued_def)

lemma queue_sum_remove1: "i \<in> set ids \<Longrightarrow> queue_sum look (remove1 i ids) = queue_sum look ids - remain_of look i"
  by (induction ids) auto

lemma queue_sum_nonneg:
  "\<forall>i\<in>set ids. queued look k i \<Longrightarrow> 0 \<le> queue_sum look ids"
  by (induction ids) (auto simp: queued_def remain_of_def order_live_def split: option.splits)

lemma queue_sum_mem:
  assumes "\<forall>i\<in>set ids. queued look k i" and "i \<in> set ids"
  shows "remain_of look i \<le> queue_sum look ids"
  using queue_sum_nonneg [of "remove1 i ids" look k] assms queue_sum_remove1 [of i ids look]
  by (auto dest: set_remove1_subset [THEN subsetD])

text \<open>Placing an order under a fresh id keeps the cache consistent.\<close>

lemma cache_ok_insert:
  assumes ok: "cache_ok look c" and x: "order_live x" "o_Status x = OrderStatusOpen"
    and fresh: "\<And>k. o_OrderID x \<notin> set (getOrderIDs c k)"
  shows "cache_ok (look(o_OrderID x \<mapsto> x)) (insertOrder x c)"
  unfolding cache_ok_def
proof (intro conjI allI ballI)
  let ?look = "look(o_OrderID x \<mapsto> x)"
  note D = cache_okD [OF ok]
  show "stores_ok (insertOrder x c)" using D(1) by simp
  show "book_ok (book_of (insertOrder x c) p)" for p using D(2) x(1) by (simp add: book.ok_ins)
  show "distinct (getOrderIDs (insertOrder x c) k)" for k using D(3) fresh by simp
  have new: "queued ?look (key_of x) (o_OrderID x)" using x by (simp add: queued_def)
  show "queued ?look k i" if "i \<in> set (getOrderIDs (insertOrder x c) k)" for k i
    using that D(4) [of i k] fresh [of k] new by (cases "i = o_OrderID x") (auto split: if_splits)
  show "book_qty (book_of (insertOrder x c) p) k = queue_sum ?look (getOrderIDs (insertOrder x c) (p, k))" for p k
  proof -
    have "queue_sum ?look (getOrderIDs c (p, k)) = book_qty (book_of c p) k"
      using fresh [of "(p, k)"] D(5) by (simp del: fun_upd_apply)
    then show ?thesis
      using book.qty_ins [OF D(2) x(1), of "o_Product x"] 
      by (auto simp: order_key_def remain_of_def simp del: queue_sum_other)
  qed
qed

text \<open>
  Removing a queued order, whatever is stored for it afterwards, keeps the cache consistent. The
  order handed to the cache may differ from the stored one in its status and locked amounts.
\<close>

lemma cache_ok_remove:
  assumes ok: "cache_ok look c" and x: "look i = Some x" and mem: "i \<in> set (getOrderIDs c k)"
    and y: "o_OrderID y = i" "key_of y = key_of x" "o_RemainQuantity y = o_RemainQuantity x"
  shows "cache_ok (look(i \<mapsto> z)) (removeOrder y c)"
  unfolding cache_ok_def
proof (intro conjI allI ballI)
  let ?look = "look(i \<mapsto> z)"
  note D = cache_okD [OF ok]
  have q: "key_of x = k" "order_live x" using D(4) [OF mem] x by (auto simp: queued_def)
  have live: "order_live y" using q(2) y by (simp add: order_live_def)
  have other: "i \<notin> set (getOrderIDs c k')" if "k' \<noteq> k" for k'
    using D(4) [OF mem] D(4) [of i k'] queued_unique that by blast
  have ki: "getOrderIDs c (o_Product y, order_key y) = getOrderIDs c k" using q(1) y(2) by (simp add: order_key_def)
  have "o_RemainQuantity x \<le> queue_sum look (getOrderIDs c k)"
    using queue_sum_mem [of "getOrderIDs c k" look k i] D(4) mem x by (simp add: remain_of_def)
  then have le: "o_RemainQuantity y \<le> book_qty (book_of c (o_Product y)) (order_key y)"
    using D(5) ki y(3) by simp
  show "stores_ok (removeOrder y c)" using D(1) by simp
  show "book_ok (book_of (removeOrder y c) p)" for p using D(2) le live by (auto simp: book.ok_rem)
  show "distinct (getOrderIDs (removeOrder y c) k')" for k' using D(3) by simp
  show "queued ?look k' j" if "j \<in> set (getOrderIDs (removeOrder y c) k')" for k' j
  proof -
    have "j \<in> set (getOrderIDs c k') \<and> j \<noteq> i"
      using that D(3) [of k'] other [of k'] q(1) y by (auto split: if_splits)
    with D(4) [of j k'] show ?thesis by simp
  qed
  show "book_qty (book_of (removeOrder y c) p) k' = queue_sum ?look (getOrderIDs (removeOrder y c) (p, k'))" for p k'
  proof (cases "(p, k') = k")
    case True
    with q(1) y have k': "p = o_Product y" "k' = order_key y" "(p, k') = key_of y" by (auto simp: order_key_def)
    have "i \<notin> set (remove1 i (getOrderIDs c k))" using D(3) by simp
    then show ?thesis
      using k' y True book.qty_rem [OF D(2) live le] D(5) [of p k'] queue_sum_remove1 [OF mem, of look] x
      by (simp add: remain_of_def del: fun_upd_apply)
  next
    case False
    with q(1) y have "\<not> (p = o_Product y \<and> k' = order_key y)" "(p, k') \<noteq> key_of y" by (auto simp: order_key_def)
    then show ?thesis
      using other [OF False] book.qty_rem [OF D(2) live le] D(5) [of p k'] by (auto simp del: fun_upd_apply)
  qed
qed

subsection \<open>The cache and the store\<close>

text \<open>Outside the entries marked as updated, the store holds what the cache holds.\<close>

definition cache_synced :: "order_store \<Rightarrow> disk_cache \<Rightarrow> bool" where
  "cache_synced q c \<longleftrightarrow> kv_ok (os_depth q) \<and> kv_ok (os_ids q)
     \<and> (\<forall>p. map_of (dk_booksUpdated c) p = None \<longrightarrow> map_of (os_depth q) p = map_of (dk_books c) p)
     \<and> (\<forall>k. map_of (dk_idsUpdated c) k = None \<longrightarrow> map_of (os_ids q) k = map_of (dk_ids c) k)"

lemma cache_synced_ops:
  assumes "cache_synced q c"
  shows "cache_synced q (insertOrder x c)" and "cache_synced q (removeOrder x c)"
    and "cache_synced q (setOrderIDs k ids c)" and "cache_synced q (setDepthBook p b c)"
    and "cache_synced q (closeOrder i c)"
proof -
  have set: "cache_synced q (setOrderIDs k ids c)" "cache_synced q (setDepthBook p b c)" "cache_synced q (closeOrder i c)"
    if "cache_synced q c" for k ids p b i c
    using that by (auto simp: cache_synced_def setOrderIDs_def setDepthBook_def)
  show "cache_synced q (insertOrder x c)"
    using assms by (auto simp: cache_synced_def insertOrder_def Let_def)
  show "cache_synced q (removeOrder x c)"
    using assms by (auto simp: removeOrder_def Let_def set split: option.splits)
  show "cache_synced q (setOrderIDs k ids c)" "cache_synced q (setDepthBook p b c)" "cache_synced q (closeOrder i c)"
    using assms by (simp_all add: set)
qed

lemma StoreDepthBook_put: "b \<noteq> Some [] \<Longrightarrow> ord (StoreDepthBook p b s) = (ord s)\<lparr>os_depth := kv_put p b (os_depth (ord s))\<rparr>"
  by (auto simp: StoreDepthBook_def kv_put_def split: option.splits)

lemma StoreOrderIDsMap_put:
  "map_of (dk_ids c) k \<noteq> Some [] \<Longrightarrow> ord (StoreOrderIDsMap k (getOrderIDs c k) s) =
     (ord s)\<lparr>os_ids := kv_put k (map_of (dk_ids c) k) (os_ids (ord s))\<rparr>"
  by (auto simp: StoreOrderIDsMap_def getOrderIDs_def kv_put_def split: option.splits)

lemma flush_books:
  assumes "stores_ok c"
  shows "ord (fold (\<lambda>p t. StoreDepthBook p (getDepthBook c p) t) ps s) =
    (ord s)\<lparr>os_depth := fold (\<lambda>p. kv_put p (map_of (dk_books c) p)) ps (os_depth (ord s))\<rparr>"
  using assms
  by (induction ps arbitrary: s) (simp_all add: StoreDepthBook_put getDepthBook_def stores_ok_def)

lemma flush_ids:
  assumes "stores_ok c"
  shows "ord (fold (\<lambda>k t. StoreOrderIDsMap k (getOrderIDs c k) t) ks s) =
    (ord s)\<lparr>os_ids := fold (\<lambda>k. kv_put k (map_of (dk_ids c) k)) ks (os_ids (ord s))\<rparr>"
proof -
  have "map_of (dk_ids c) k \<noteq> Some []" for k using assms unfolding stores_ok_def by blast
  then show ?thesis by (induction ks arbitrary: s) (simp_all add: StoreOrderIDsMap_put)
qed

lemma put_updated:
  assumes "kv_ok m" and "kv_ok new" and "\<And>k. map_of u k = None \<Longrightarrow> map_of m k = map_of new k"
  shows "fold (\<lambda>k. kv_put k (map_of new k)) (map fst u) m = new"
proof (rule kv_ext)
  show "map_of (fold (\<lambda>k. kv_put k (map_of new k)) (map fst u) m) = map_of new"
    using assms(3) by (auto simp: fun_eq_iff kv_put_all(1) map_of_eq_None_iff)
qed (simp_all add: assms(1,2) kv_put_all(2))

lemma Cache2Disk_store:
  assumes "stores_ok (dcache s)" and "cache_synced (ord s) (dcache s)"
  shows "ord (Cache2Disk s) = (ord s)\<lparr>os_depth := dk_books (dcache s), os_ids := dk_ids (dcache s),
     os_closed := Some (dk_closed (dcache s)), os_openNum := Some (dk_openNum (dcache s)),
     os_storeNum := Some (dk_storeOrderNum (dcache s))\<rparr>"
proof -
  have books: "fold (\<lambda>p. kv_put p (map_of (dk_books (dcache s)) p)) (map fst (dk_booksUpdated (dcache s))) (os_depth (ord s))
      = dk_books (dcache s)"
    using assms by (intro put_updated) (auto simp: stores_ok_def cache_synced_def)
  have ids: "fold (\<lambda>k. kv_put k (map_of (dk_ids (dcache s)) k)) (map fst (dk_idsUpdated (dcache s))) (os_ids (ord s))
      = dk_ids (dcache s)"
    using assms by (intro put_updated) (auto simp: stores_ok_def cache_synced_def)
  show ?thesis
    using books ids
    by (simp add: Cache2Disk_def Let_def flush_books [OF assms(1)] flush_ids [OF assms(1)] GetUpdatedDepthbookKeys_def
        GetUpdatedOrderIDKeys_def setStoreOrderNum_def setOpenOrderNum_def SetLastClosedOrderIDs_def)
qed

lemma fold_StoreDepthBook_other [simp]:
  "dcache (fold (\<lambda>p t. StoreDepthBook p (f p) t) ps s) = dcache s"
  "dcache (fold (\<lambda>k t. StoreOrderIDsMap k (g k) t) ks s) = dcache s"
  by (induction ps arbitrary: s, simp_all add: StoreDepthBook_def)
    (induction ks arbitrary: s, simp_all add: StoreOrderIDsMap_def)

lemma dcache_Cache2Disk [simp]: "dcache (Cache2Disk s) = dcache s"
  by (simp add: Cache2Disk_def Let_def setStoreOrderNum_def setOpenOrderNum_def SetLastClosedOrderIDs_def)

lemma load_books:
  "fold (\<lambda>(p, b). addDepthBook p b) m c = c\<lparr>dk_books := fold (\<lambda>p. kv_set (fst p) (snd p)) m (dk_books c)\<rparr>"
  by (induction m arbitrary: c) (auto simp: addDepthBook_def)

lemma load_ids:
  "fold (\<lambda>(k, ids). addOrderIDs k ids) m c = c\<lparr>dk_ids := fold (\<lambda>p. kv_set (fst p) (snd p)) m (dk_ids c)\<rparr>"
  by (induction m arbitrary: c) (auto simp: addOrderIDs_def)

lemma load_stores_new:
  "kv_ok (os_depth q) \<Longrightarrow> kv_ok (os_ids q) \<Longrightarrow>
     load_stores q newDiskCache = newDiskCache\<lparr>dk_books := os_depth q, dk_ids := os_ids q\<rparr>"
  using fold_kv_set_sorted [of "[]" "os_depth q"] fold_kv_set_sorted [of "[]" "os_ids q"]
  by (simp add: load_stores_def load_books load_ids newDiskCache_def)

subsection \<open>Properties\<close>

definition demo_order :: order where
  "demo_order = \<lparr>o_TxHash = [], o_OrderID = ''ID1'', o_Sender = ''bob'', o_Product = ''abc_okt'', o_Side = BuyOrder,
     o_Price = 200, o_Quantity = 300, o_Status = OrderStatusOpen, o_FilledAvgPrice = 0, o_RemainQuantity = 300,
     o_RemainLocked = 600, o_Timestamp = 0, o_OrderExpireBlocks = 10, o_FeePerBlock = (NativeToken, 0),
     o_ExtraInfo = []\<rparr>"

lemma cache_ok_new: "cache_ok look newDiskCache"
  by (simp add: cache_ok_def stores_ok_def newDiskCache_def book_of_def getOrderIDs_def book_qty_def queue_sum_def)

text \<open>
  The depth book and the order queues stay consistent: when an order is placed under a fresh id and later
  leaves (with the status and amounts the store then has), every book stays well formed, every queued id is a live
  open order of its key, the quantity of every level and side is the sum of the remaining quantities queued there,
  and books and queues are what they were before the order came.
\<close>

theorem cache_consistent:
  assumes "cache_ok look c" and "order_live x" and "o_Status x = OrderStatusOpen"
    and "\<And>k. o_OrderID x \<notin> set (getOrderIDs c k)"
    and "o_OrderID y = o_OrderID x" and "key_of y = key_of x" and "o_RemainQuantity y = o_RemainQuantity x"
  shows "cache_ok (look(o_OrderID x \<mapsto> x)) (insertOrder x c)
     \<and> cache_ok (look(o_OrderID x \<mapsto> y)) (removeOrder y (insertOrder x c))
     \<and> book_of (removeOrder y (insertOrder x c)) p = book_of c p
     \<and> getOrderIDs (removeOrder y (insertOrder x c)) k = getOrderIDs c k"
proof (intro conjI)
  show ok: "cache_ok (look(o_OrderID x \<mapsto> x)) (insertOrder x c)" by (rule cache_ok_insert [OF assms(1-4)])
  have "o_OrderID x \<in> set (getOrderIDs (insertOrder x c) (key_of x))" by simp
  from cache_ok_remove [OF ok _ this assms(5-7), of y]
  show "cache_ok (look(o_OrderID x \<mapsto> y)) (removeOrder y (insertOrder x c))" by simp
  have "RemoveOrder y b = RemoveOrder x b" for b
    using assms(6,7) by (simp only: RemoveOrder_def prod.inject)
  with book.rem_ins [OF cache_okD(2) [OF assms(1)] assms(2)] assms(6)
  show "book_of (removeOrder y (insertOrder x c)) p = book_of c p" by simp
  show "getOrderIDs (removeOrder y (insertOrder x c)) k = getOrderIDs c k"
    using assms(4) [of k] assms(5,6) by (auto simp: remove1_append remove1_idem)
qed

theorem cache_consistent_witness:
  "cache_ok [''ID1'' \<mapsto> demo_order] (insertOrder demo_order newDiskCache)
     \<and> book_of (removeOrder (Cancel demo_order) (insertOrder demo_order newDiskCache)) ''abc_okt'' = []"
proof -
  have x: "order_live demo_order" "o_Status demo_order = OrderStatusOpen" "o_OrderID demo_order = ''ID1''"
    by (simp_all add: demo_order_def order_live_def)
  have y: "o_OrderID (Cancel demo_order) = o_OrderID demo_order" "key_of (Cancel demo_order) = key_of demo_order"
    "o_RemainQuantity (Cancel demo_order) = o_RemainQuantity demo_order" by (simp_all add: Cancel_def)
  have "o_OrderID demo_order \<notin> set (getOrderIDs newDiskCache k)" for k
    by (simp add: getOrderIDs_def newDiskCache_def)
  from cache_consistent [OF cache_ok_new [of Map.empty] x(1,2) this y, of "''abc_okt''"] x(3) show ?thesis
    by (simp add: book_of_def newDiskCache_def)
qed

text \<open>
  A restart is transparent: after the flush at the end of a block the store holds exactly the
  books and queues of the cache, so the next block begins with the same disk cache whether the node goes on or was
  restarted and loads the store, the price memo apart, and the cache and the store agree again.
\<close>

theorem restart_transparent:
  assumes "stores_ok (dcache s)" and "cache_synced (ord s) (dcache s)"
  shows "os_depth (ord (Cache2Disk s)) = dk_books (dcache s) \<and> os_ids (ord (Cache2Disk s)) = dk_ids (dcache s)
     \<and> dcache (ResetCache True ((Cache2Disk s)\<lparr>dcache := newDiskCache\<rparr>)) =
         (dcache (ResetCache False (Cache2Disk s)))\<lparr>dk_price := []\<rparr>
     \<and> cache_synced (ord (ResetCache False (Cache2Disk s))) (dcache (ResetCache False (Cache2Disk s)))"
proof -
  note st = Cache2Disk_store [OF assms]
  have ok: "kv_ok (os_depth (ord (Cache2Disk s)))" "kv_ok (os_ids (ord (Cache2Disk s)))"
    using assms(1) st by (simp_all add: stores_ok_def)
  have "cache_synced (ord (Cache2Disk s)) (dk_reset (dcache s))"
    using ok st by (simp add: cache_synced_def dk_reset_def)
  then have "cache_synced (ord (ResetCache False (Cache2Disk s))) (dcache (ResetCache False (Cache2Disk s)))"
    by (simp add: ResetCache_def Let_def cache_synced_def)
  moreover have "dcache (ResetCache True ((Cache2Disk s)\<lparr>dcache := newDiskCache\<rparr>)) =
      (dcache (ResetCache False (Cache2Disk s)))\<lparr>dk_price := []\<rparr>"
    by (simp add: ResetCache_def Let_def load_stores_new [OF ok] GetOpenOrderNum_def GetStoreOrderNum_def)
      (simp add: st dk_reset_def newDiskCache_def)
  ultimately show ?thesis using st by simp
qed

theorem restart_transparent_witness:
  "os_depth (ord (Cache2Disk (demo_dex_chain\<lparr>dcache := insertOrder demo_order (dcache demo_dex_chain)\<rparr>))) =
     [(''abc_okt'', [\<lparr>i_Price = 200, i_BuyQuantity = 300, i_SellQuantity = 0\<rparr>])]"
proof -
  let ?s = "demo_dex_chain\<lparr>dcache := insertOrder demo_order (dcache demo_dex_chain)\<rparr>"
  have "stores_ok (dcache demo_dex_chain)" "cache_synced (ord demo_dex_chain) (dcache demo_dex_chain)"
    by (simp_all add: stores_ok_def cache_synced_def demo_dex_chain_def demo_chain_def)
  then have "stores_ok (dcache ?s)" "cache_synced (ord ?s) (dcache ?s)" by (simp_all add: cache_synced_ops)
  from restart_transparent [OF this]
  have "os_depth (ord (Cache2Disk ?s)) = dk_books (insertOrder demo_order (dcache demo_dex_chain))" by simp
  then show ?thesis
    by (simp add: insertOrder_def Let_def demo_dex_chain_def demo_chain_def demo_order_def InsertOrder_def)
qed

end
