(* ===== verification/OrderKeeper.thy ===== *)
theory OrderKeeper
  imports OrderCache
begin

text \<open>
  The order keeper: the accessors of \<open>x/order/keeper/keeper.go\<close>, the fees of \<open>fee.go\<close>, the
  placing, cancelling and expiring of orders of \<open>order.go\<close> and the product locks of \<open>product_lock.go\<close>.
  \<open>None\<close> is a panic of the code: a product without separator, or a fee list that goes
  negative. Failed unlocks and fee transfers are only logged by the code, so the model goes on with
  the state they leave.
\<close>

subsection \<open>Accessors\<close>

definition GetExpireBlockHeight :: "'b chain \<Rightarrow> int \<Rightarrow> int list" where
  "GetExpireBlockHeight s h = (case map_of (os_expire (ord s)) h of None \<Rightarrow> [] | Some hs \<Rightarrow> hs)"

definition GetOrder :: "'b chain \<Rightarrow> string \<Rightarrow> order option" where
  "GetOrder s orderID = map_of (os_orders (ord s)) orderID"

text \<open>\<open>GetLastPrice\<close> stores the initial price of the pair when there is no price yet.\<close>

definition GetLastPrice :: "string \<Rightarrow> 'b chain \<Rightarrow> dec \<times> 'b chain" where
  "GetLastPrice product s =
     (let price = dk_getLastPrice (dcache s) product
      in if 0 < price then (price, s)
         else (case map_of (os_price (ord s)) product of
                 None \<Rightarrow> (case GetTokenPair s product of
                            None \<Rightarrow> (0, s)
                          | Some tokenPair \<Rightarrow> (pr_InitPrice tokenPair, SetLastPrice product (pr_InitPrice tokenPair) s))
               | Some p \<Rightarrow> (p, s)))"

definition GetDepthBookCopy :: "'b chain \<Rightarrow> string \<Rightarrow> depth_book" where
  "GetDepthBookCopy s product = (case getDepthBook (dcache s) product of None \<Rightarrow> [] | Some book \<Rightarrow> book)"

definition SetDepthBook :: "string \<Rightarrow> depth_book \<Rightarrow> 'b chain \<Rightarrow> 'b chain" where
  "SetDepthBook product book = upd_dc (setDepthBook product book)"

definition SetOrderIDs :: "ids_key \<Rightarrow> string list \<Rightarrow> 'b chain \<Rightarrow> 'b chain" where
  "SetOrderIDs key ids = upd_dc (setOrderIDs key ids)"

definition GetDepthBookFromDB :: "'b chain \<Rightarrow> string \<Rightarrow> depth_book" where
  "GetDepthBookFromDB s product = (case map_of (os_depth (ord s)) product of None \<Rightarrow> [] | Some book \<Rightarrow> book)"

definition GetProductPriceOrderIDs :: "'b chain \<Rightarrow> ids_key \<Rightarrow> string list" where
  "GetProductPriceOrderIDs s key = getOrderIDs (dcache s) key"

definition GetProductPriceOrderIDsFromDB :: "'b chain \<Rightarrow> ids_key \<Rightarrow> string list" where
  "GetProductPriceOrderIDsFromDB s key = (case map_of (os_ids (ord s)) key of None \<Rightarrow> [] | Some ids \<Rightarrow> ids)"

definition GetBlockOrderNum :: "'b chain \<Rightarrow> int \<Rightarrow> int" where
  "GetBlockOrderNum s h = (case map_of (os_orderNum (ord s)) h of None \<Rightarrow> 0 | Some n \<Rightarrow> n)"

definition GetLastExpiredBlockHeight :: "'b chain \<Rightarrow> int" where
  "GetLastExpiredBlockHeight s = (case os_lastExpired (ord s) of None \<Rightarrow> 0 | Some h \<Rightarrow> h)"

definition GetLastClosedOrderIDs :: "'b chain \<Rightarrow> string list" where
  "GetLastClosedOrderIDs s = (case os_closed (ord s) of None \<Rightarrow> [] | Some ids \<Rightarrow> ids)"

definition addUpdatedOrderID :: "env \<Rightarrow> string \<Rightarrow> 'b chain \<Rightarrow> 'b chain" where
  "addUpdatedOrderID e orderID s =
     (if e_Backend e then upd_mc (\<lambda>c. c\<lparr>mc_updated := mc_updated c @ [orderID]\<rparr>) s else s)"

definition SetBlockMatchResult :: "env \<Rightarrow> block_match_result \<Rightarrow> 'b chain \<Rightarrow> 'b chain" where
  "SetBlockMatchResult e result s = (if e_Backend e then upd_mc (\<lambda>c. c\<lparr>mc_result := Some result\<rparr>) s else s)"

definition AddTxHandlerMsgResult :: "env \<Rightarrow> nat list \<Rightarrow> 'b chain \<Rightarrow> 'b chain" where
  "AddTxHandlerMsgResult e resultSet s =
     (if e_Backend e then upd_mc (\<lambda>c. c\<lparr>mc_txResults := mc_txResults c @ [resultSet]\<rparr>) s else s)"

definition GetTxHandlerMsgResult :: "env \<Rightarrow> 'b chain \<Rightarrow> nat list list \<times> 'b chain" where
  "GetTxHandlerMsgResult e s =
     (if \<not> e_Backend e then ([], s)
      else (let (rs, c) = toggleCopyTxHandlerMsgResult (mcache s) in (rs, s\<lparr>mcache := c\<rparr>)))"

definition FilterDelistedProducts :: "'b chain \<Rightarrow> string list \<Rightarrow> string list" where
  "FilterDelistedProducts s products = filter (\<lambda>p. GetTokenPair s p \<noteq> None) products"

definition GetBestBidAndAsk :: "'b chain \<Rightarrow> string \<Rightarrow> dec \<times> dec" where
  "GetBestBidAndAsk s product =
     fold (\<lambda>item (bestBid, bestAsk).
         (if 0 < i_BuyQuantity item \<and> bestBid < i_Price item then i_Price item else bestBid,
          if 0 < i_SellQuantity item \<and> i_Price item < bestAsk then i_Price item else bestAsk))
       (GetDepthBookFromDB s product) (0, 0)"

subsection \<open>Coins and fees\<close>

definition order_LockCoins :: "'b sdk \<Rightarrow> 'b chain \<Rightarrow> addr \<Rightarrow> coins \<Rightarrow> int \<Rightarrow> 'b kres" where
  "order_LockCoins S s a cs t = (if coins_is_zero cs then (s, None) else LockCoins S s a cs t)"

definition order_UnlockCoins :: "'b sdk \<Rightarrow> addr \<Rightarrow> coins \<Rightarrow> int \<Rightarrow> 'b chain \<Rightarrow> 'b chain" where
  "order_UnlockCoins S a cs t s = (if coins_is_zero cs then s else fst (UnlockCoins S s a cs t))"

definition order_BalanceAccount :: "'b sdk \<Rightarrow> addr \<Rightarrow> coins \<Rightarrow> coins \<Rightarrow> 'b chain \<Rightarrow> 'b chain" where
  "order_BalanceAccount S a outputCoins inputCoins s = fst (BalanceAccount S s a outputCoins inputCoins)"

definition GetProductFeeReceiver :: "'b chain \<Rightarrow> string \<Rightarrow> order_error + addr" where
  "GetProductFeeReceiver s product =
     (case GetTokenPair s product of
        None \<Rightarrow> Inl (ErrTokenPairNotExist product)
      | Some tokenPair \<Rightarrow>
          (case GetOperator s (pr_Owner tokenPair) of
             Some operator \<Rightarrow> Inr (op_HandlingFeeAddress operator)
           | None \<Rightarrow> Inr (pr_Owner tokenPair)))"

definition order_AddFeeDetail :: "'b sdk \<Rightarrow> env \<Rightarrow> addr \<Rightarrow> coins \<Rightarrow> fee_type \<Rightarrow> 'b chain \<Rightarrow> 'b chain" where
  "order_AddFeeDetail S e src cs feeType s =
     (if coins_is_zero cs then s else AddFeeDetail S e src cs feeType [] s)"

definition SendFeesToProductOwner ::
  "'b sdk \<Rightarrow> env \<Rightarrow> coins \<Rightarrow> addr \<Rightarrow> fee_type \<Rightarrow> string \<Rightarrow> 'b chain \<Rightarrow> (order_error + string) \<times> 'b chain" where
  "SendFeesToProductOwner S e cs src feeType product s =
     (if coins_is_zero cs then (Inr [], s)
      else (case GetProductFeeReceiver s product of
              Inl er \<Rightarrow> (Inl er, s)
            | Inr dst \<Rightarrow>
                (case SendCoinsFromAccountToAccount S e (AddFeeDetail S e src cs feeType [] s) src dst cs of
                   (s', Some _) \<Rightarrow> (Inl (ErrSendCoinsFailed (c_str S cs) dst), s')
                 | (s', None) \<Rightarrow> (Inr dst, s'))))"

definition AddCollectedFees ::
  "'b sdk \<Rightarrow> env \<Rightarrow> coins \<Rightarrow> addr \<Rightarrow> fee_type \<Rightarrow> bool \<Rightarrow> 'b chain \<Rightarrow> 'b chain \<times> string option" where
  "AddCollectedFees S e cs src feeType hasFeeDetail s =
     (if coins_is_zero cs then (s, None)
      else (let s1 = (if hasFeeDetail then AddFeeDetail S e src cs feeType (e_FeeCollector e) s else s)
            in case b_acc_to_mod S (bank s1) src (e_FeeCollector e) cs of
                 Inl er \<Rightarrow> (s1, Some er)
               | Inr b \<Rightarrow> (s1\<lparr>bank := b\<rparr>, None)))"

definition GetOrderNewFee :: "'b sdk \<Rightarrow> order \<Rightarrow> coins" where
  "GetOrderNewFee S x =
     [(fst (o_FeePerBlock x), d_mul S (snd (o_FeePerBlock x)) (o_OrderExpireBlocks x * d_unit S))]"

definition GetZeroFee :: "'b sdk \<Rightarrow> coins" where
  "GetZeroFee S = [c_zero_fee S]"

definition GetOrderCostFee :: "'b sdk \<Rightarrow> env \<Rightarrow> order \<Rightarrow> coins" where
  "GetOrderCostFee S e x =
     (let blockNum = e_Height e - GetBlockHeightFromOrderID (o_OrderID x)
      in if blockNum < 0 then GetZeroFee S
         else (let n = (if o_OrderExpireBlocks x < blockNum then o_OrderExpireBlocks x else blockNum)
               in [(fst (o_FeePerBlock x), d_mul S (snd (o_FeePerBlock x)) (n * d_unit S))]))"

definition minFee :: "'b sdk \<Rightarrow> dec" where
  "minFee S = d_unit S div 10 ^ 8"

definition GetDealFee :: "'b sdk \<Rightarrow> order \<Rightarrow> dec \<Rightarrow> dec \<Rightarrow> 'b chain \<Rightarrow> (coins \<times> 'b chain) option" where
  "GetDealFee S x fillAmt tradeFeeRate s =
     (let (symbol, quantity, s1) =
            (if o_Side x = SellOrder
             then (let (price, s1) = GetLastPrice (o_Product x) s
                   in (slice_get (symbols (o_Product x)) 1, d_mul S fillAmt price, s1))
             else (slice_get (symbols (o_Product x)) 0, fillAmt, s));
          feeAmt = d_mul S quantity tradeFeeRate
      in map_option (\<lambda>d. ([(d, if minFee S < feeAmt then feeAmt else minFee S)], s1)) symbol)"

subsection \<open>Product locks\<close>

definition IsProductLocked :: "'b chain \<Rightarrow> string \<Rightarrow> bool" where
  "IsProductLocked s product = IsTokenPairLocked s product"

definition SetProductLock :: "string \<Rightarrow> product_lock \<Rightarrow> 'b chain \<Rightarrow> 'b chain" where
  "SetProductLock product lock s = LockTokenPair product lock s"

definition UnlockProduct :: "string \<Rightarrow> 'b chain \<Rightarrow> 'b chain" where
  "UnlockProduct product s = UnlockTokenPair product s"

definition AnyProductLocked :: "'b chain \<Rightarrow> bool" where
  "AnyProductLocked s = IsAnyProductLocked s"

subsection \<open>Orders\<close>

definition RemoveOrderFromDepthBook :: "env \<Rightarrow> order \<Rightarrow> fee_type \<Rightarrow> 'b chain \<Rightarrow> 'b chain" where
  "RemoveOrderFromDepthBook e x feeType s =
     (let s1 = addUpdatedOrderID e (o_OrderID x) s;
          s2 = (if feeType = FeeTypeOrderCancel then upd_mc IncreaseCancelNum s1
                else if feeType = FeeTypeOrderExpire then upd_mc IncreaseExpireNum s1 else s1)
      in upd_dc (removeOrder x) s2)"

definition UpdateOrder :: "env \<Rightarrow> order \<Rightarrow> 'b chain \<Rightarrow> 'b chain" where
  "UpdateOrder e x s =
     (let s1 = addUpdatedOrderID e (o_OrderID x) (SetOrder (o_OrderID x) x s)
      in if o_Status x = OrderStatusFilled
         then upd_mc IncreaseFullFillNum (upd_dc (closeOrder (o_OrderID x)) s1)
         else upd_mc IncreasePartialFillNum s1)"

definition InsertOrderIntoDepthBook :: "order \<Rightarrow> 'b chain \<Rightarrow> 'b chain" where
  "InsertOrderIntoDepthBook x = upd_dc (insertOrder x)"

text \<open>The results of the fallible keeper calls: the state left behind, the value, the error.\<close>

definition TryPlaceOrder ::
  "'b sdk \<Rightarrow> order \<Rightarrow> 'b chain \<Rightarrow> ('b chain \<times> coins \<times> token_error option) option" where
  "TryPlaceOrder S x s =
     (case NeedLockCoins S x of
        None \<Rightarrow> None
      | Some needLockCoins \<Rightarrow>
          (case order_LockCoins S s (o_Sender x) needLockCoins LockCoinsTypeQuantity of
             (s1, Some er) \<Rightarrow> Some (s1, [], Some er)
           | (s1, None) \<Rightarrow>
               (let fee = GetOrderNewFee S x;
                    (s2, er) = order_LockCoins S s1 (o_Sender x) fee LockCoinsTypeFee
                in Some (s2, fee, er))))"

definition PlaceOrder ::
  "'b sdk \<Rightarrow> env \<Rightarrow> order \<Rightarrow> 'b chain \<Rightarrow> ('b chain \<times> order \<times> token_error option) option" where
  "PlaceOrder S e x s =
     (case TryPlaceOrder S x s of
        None \<Rightarrow> None
      | Some (s1, fee, Some er) \<Rightarrow> Some (s1, x, Some er)
      | Some (s1, fee, None) \<Rightarrow>
          (let s2 = order_AddFeeDetail S e (o_Sender x) fee FeeTypeOrderNew s1;
               orderNum = GetBlockOrderNum s2 (e_Height e);
               x' = (RecordOrderNewFee S fee x)\<lparr>o_OrderID := FormatOrderID (e_Height e) (orderNum + 1)\<rparr>;
               s3 = SetOrder (o_OrderID x') x' (SetBlockOrderNum (e_Height e) (orderNum + 1) s2)
           in Some (InsertOrderIntoDepthBook x' s3, x', None)))"

definition quitOrder ::
  "'b sdk \<Rightarrow> env \<Rightarrow> order \<Rightarrow> fee_type \<Rightarrow> 'b chain \<Rightarrow> ('b chain \<times> coins) option" where
  "quitOrder S e x0 feeType s =
     (if feeType \<noteq> FeeTypeOrderCancel \<and> feeType \<noteq> FeeTypeOrderExpire then Some (s, [])
      else
        (let x = (if feeType = FeeTypeOrderCancel then Cancel x0 else Expire x0)
         in case NeedUnlockCoins x of
              None \<Rightarrow> None
            | Some needUnlockCoins \<Rightarrow>
                (let s1 = order_UnlockCoins S (o_Sender x) needUnlockCoins LockCoinsTypeQuantity s;
                     lockedFee = GetOrderNewFee S x;
                     fee = GetOrderCostFee S e x
                 in case coins_sub S lockedFee fee of
                      None \<Rightarrow> None
                    | Some receiveFee \<Rightarrow>
                        (let s2 = order_UnlockCoins S (o_Sender x) lockedFee LockCoinsTypeFee s1;
                             s3 = order_AddFeeDetail S e (o_Sender x) receiveFee FeeTypeOrderReceive s2;
                             x1 = RecordOrderReceiveFee S receiveFee x;
                             s4 = fst (AddCollectedFees S e fee (o_Sender x) feeType False s3);
                             x2 = Unlock x1
                         in Some (RemoveOrderFromDepthBook e x2 feeType (SetOrder (o_OrderID x2) x2 s4), fee)))))"

definition ExpireOrder :: "'b sdk \<Rightarrow> env \<Rightarrow> order \<Rightarrow> 'b chain \<Rightarrow> 'b chain option" where
  "ExpireOrder S e x s = map_option fst (quitOrder S e x FeeTypeOrderExpire s)"

definition CancelOrder :: "'b sdk \<Rightarrow> env \<Rightarrow> order \<Rightarrow> 'b chain \<Rightarrow> ('b chain \<times> coins) option" where
  "CancelOrder S e x s = quitOrder S e x FeeTypeOrderCancel s"

text \<open>
  The iterator ranges over the stored orders whose id has the prefix of the height. Quitting one of
  them rewrites only its own entry, so the loop sees the values of the start.
\<close>

definition expire_if_open :: "'b sdk \<Rightarrow> env \<Rightarrow> order \<Rightarrow> 'b chain \<Rightarrow> 'b chain option" where
  "expire_if_open S e x s =
     (if o_Status x = OrderStatusOpen \<and> \<not> IsProductLocked s (o_Product x) then ExpireOrder S e x s else Some s)"

definition DropExpiredOrdersByBlockHeight :: "'b sdk \<Rightarrow> env \<Rightarrow> int \<Rightarrow> 'b chain \<Rightarrow> 'b chain option" where
  "DropExpiredOrdersByBlockHeight S e h s =
     ofold (expire_if_open S e)
       (map snd (filter (\<lambda>p. prefix (FormatOrderIDPrefix h) (fst p)) (os_orders (ord s)))) s"

subsection \<open>Frames\<close>

text \<open>A call that moves coins touches the bank, the token store and the fee details only.\<close>

definition coins_only :: "'b chain \<Rightarrow> 'b chain \<Rightarrow> bool" where
  "coins_only s s' \<longleftrightarrow> s' = s\<lparr>bank := bank s', tok := tok s', feeDetails := feeDetails s'\<rparr>"

lemma coins_only_refl [simp]: "coins_only s s"
  by (simp add: coins_only_def)

lemma coins_only_trans [trans]: "coins_only s s' \<Longrightarrow> coins_only s' s'' \<Longrightarrow> coins_only s s''"
  unfolding coins_only_def by (cases s; cases s'; cases s'') simp

lemma coins_onlyD:
  assumes "coins_only s s'"
  shows "ord s' = ord s" and "dcache s' = dcache s" and "mcache s' = mcache s" and "dex s' = dex s"
    and "dexP s' = dexP s" and "ordP s' = ordP s" and "tokP s' = tokP s"
proof -
  have s': "s' = s\<lparr>bank := bank s', tok := tok s', feeDetails := feeDetails s'\<rparr>" using assms by (simp add: coins_only_def)
  show "ord s' = ord s" "dcache s' = dcache s" "mcache s' = mcache s" "dex s' = dex s"
    "dexP s' = dexP s" "ordP s' = ordP s" "tokP s' = tokP s" by (subst s', simp)+
qed

lemma coins_only_upd [simp]:
  "coins_only s (s\<lparr>bank := b\<rparr>)" "coins_only s (set_lock_store t m s)" "coins_only s (AddFeeDetail S e a cs f r s)"
  "coins_only s (order_AddFeeDetail S e a cs f s)"
  by (simp_all add: coins_only_def set_lock_store_def AddFeeDetail_def order_AddFeeDetail_def)

lemma coins_only_updateLocked: "coins_only s (fst (updateLockedCoins S s a cs b t))"
  by (simp add: updateLockedCoins_def Let_def split: option.splits)

lemma coins_only_LockCoins: "coins_only s (fst (LockCoins S s a cs t))"
  by (auto simp: LockCoins_def coins_only_trans [OF _ coins_only_updateLocked] split: sum.splits)

lemma coins_only_UnlockCoins: "coins_only s (fst (UnlockCoins S s a cs t))"
  using coins_only_updateLocked [of s S a cs False t]
  by (auto simp: UnlockCoins_def intro: coins_only_trans split: prod.splits option.splits sum.splits)

lemma coins_only_BalanceAccount: "coins_only s (fst (BalanceAccount S s a out inp))"
  using coins_only_updateLocked [of s S a out False LockCoinsTypeQuantity]
  by (auto simp: BalanceAccount_def intro: coins_only_trans split: prod.splits option.splits sum.splits)

lemma coins_only_order [simp]:
  "coins_only s (fst (order_LockCoins S s a cs t))" "coins_only s (order_UnlockCoins S a cs t s)"
  "coins_only s (order_BalanceAccount S a out inp s)" "coins_only s (fst (AddCollectedFees S e cs a f h s))"
  by (auto simp: order_LockCoins_def order_UnlockCoins_def order_BalanceAccount_def AddCollectedFees_def Let_def
      coins_only_LockCoins coins_only_UnlockCoins coins_only_BalanceAccount
      coins_only_trans [OF coins_only_upd(3) coins_only_upd(1)] split: sum.splits)

lemma coins_only_TryPlaceOrder: "TryPlaceOrder S x s = Some (s', fee, er) \<Longrightarrow> coins_only s s'"
  using coins_only_order(1) [of s S "o_Sender x"]
  by (auto simp: TryPlaceOrder_def Let_def split: option.splits prod.splits)
    (metis coins_only_order(1) coins_only_trans fst_conv)+

lemma SetOrder_simps [simp]:
  "GetOrder (SetOrder i x s) = (GetOrder s)(i \<mapsto> x)" "dcache (SetOrder i x s) = dcache s"
  "GetBlockOrderNum (SetOrder i x s) h = GetBlockOrderNum s h"
  by (auto simp: SetOrder_def GetOrder_def GetBlockOrderNum_def fun_eq_iff)

lemma SetBlockOrderNum_simps [simp]:
  "GetOrder (SetBlockOrderNum h n s) = GetOrder s" "dcache (SetBlockOrderNum h n s) = dcache s"
  "GetBlockOrderNum (SetBlockOrderNum h n s) h' = (if h' = h then n else GetBlockOrderNum s h')"
  by (auto simp: SetBlockOrderNum_def GetOrder_def GetBlockOrderNum_def fun_eq_iff)

lemma coins_only_orders:
  assumes "coins_only s s'"
  shows "GetOrder s' = GetOrder s" and "GetBlockOrderNum s' = GetBlockOrderNum s" and "dcache s' = dcache s"
  using coins_onlyD [OF assms] by (auto simp: GetOrder_def GetBlockOrderNum_def fun_eq_iff)

lemma UpdateOrder_simps [simp]:
  "GetOrder (UpdateOrder e x s) = (GetOrder s)(o_OrderID x \<mapsto> x)"
  "book_of (dcache (UpdateOrder e x s)) = book_of (dcache s)"
  "getOrderIDs (dcache (UpdateOrder e x s)) = getOrderIDs (dcache s)"
  by (auto simp: UpdateOrder_def addUpdatedOrderID_def Let_def GetOrder_def SetOrder_def fun_eq_iff)

lemma RemoveOrderFromDepthBook_simps [simp]:
  "GetOrder (RemoveOrderFromDepthBook e x f s) = GetOrder s"
  "dcache (RemoveOrderFromDepthBook e x f s) = removeOrder x (dcache s)"
  "GetBlockOrderNum (RemoveOrderFromDepthBook e x f s) = GetBlockOrderNum s"
  by (auto simp: RemoveOrderFromDepthBook_def addUpdatedOrderID_def Let_def GetOrder_def GetBlockOrderNum_def fun_eq_iff)

subsection \<open>Fees\<close>

text \<open>Whole numbers of blocks multiply exactly.\<close>

lemma d_mul_whole: "dec_laws S \<Longrightarrow> d_mul S a (n * d_unit S) = a * n"
  using dec_unit_pos [of S] by (simp add: d_mul_exact mult.assoc [symmetric])

lemma GetOrderNewFee_amt: "dec_laws S \<Longrightarrow> GetOrderNewFee S x = [(fst (o_FeePerBlock x), snd (o_FeePerBlock x) * o_OrderExpireBlocks x)]"
  by (simp add: GetOrderNewFee_def d_mul_whole)

definition order_fees_ok :: "order \<Rightarrow> bool" where
  "order_fees_ok x \<longleftrightarrow> 0 \<le> snd (o_FeePerBlock x) \<and> 0 \<le> o_OrderExpireBlocks x"

lemma cost_fee_bounds:
  assumes S: "sdk_laws S" and x: "order_fees_ok x"
  shows "0 \<le> amt (GetOrderCostFee S e x) d \<and> amt (GetOrderCostFee S e x) d \<le> amt (GetOrderNewFee S x) d"
proof -
  let ?n = "e_Height e - GetBlockHeightFromOrderID (o_OrderID x)"
  have z: "snd (c_zero_fee S) = 0" using S by (simp add: sdk_laws_def coins_laws_def)
  have zero: "amt (GetZeroFee S) d = 0" using z by (cases "c_zero_fee S") (simp add: GetZeroFee_def)
  have mono: "snd (o_FeePerBlock x) * k \<le> snd (o_FeePerBlock x) * o_OrderExpireBlocks x" if "k \<le> o_OrderExpireBlocks x" for k
    using that x by (simp add: order_fees_ok_def mult_left_mono)
  show ?thesis
    using x zero mono [of ?n] by (auto simp: GetOrderCostFee_def Let_def GetOrderNewFee_amt d_mul_whole sdk_lawsD(1) [OF S] order_fees_ok_def)
qed

lemma fee_sub_total:
  assumes S: "sdk_laws S" and x: "order_fees_ok x"
  obtains r where "coins_sub S (GetOrderNewFee S x) (GetOrderCostFee S e x) = Some r" and "coins_ok r"
    and "\<And>d. amt r d = amt (GetOrderNewFee S x) d - amt (GetOrderCostFee S e x) d"
proof -
  have ok: "coins_ok (GetOrderNewFee S x)" "coins_ok (GetOrderCostFee S e x)"
    by (simp_all add: GetOrderNewFee_def GetOrderCostFee_def GetZeroFee_def Let_def)
  note sub = coins_safe_sub [OF sdk_lawsD(2) [OF S] ok]
  have "\<not> snd (c_safe_sub S (GetOrderNewFee S x) (GetOrderCostFee S e x))"
    using sub(3) cost_fee_bounds [OF S x, of e] by (metis not_less)
  with sub(1,2) that [of "fst (c_safe_sub S (GetOrderNewFee S x) (GetOrderCostFee S e x))"] show thesis
    by (simp add: coins_sub_def case_prod_beta Let_def)
qed

subsection \<open>Placing and quitting\<close>

definition ids_fresh :: "int \<Rightarrow> 'b chain \<Rightarrow> bool" where
  "ids_fresh h s \<longleftrightarrow> (\<forall>n. GetBlockOrderNum s h < n \<longrightarrow> GetOrder s (FormatOrderID h n) = None)"

definition orders_consistent :: "'b chain \<Rightarrow> bool" where
  "orders_consistent s \<longleftrightarrow> cache_ok (GetOrder s) (dcache s)"

lemma PlaceOrder_success:
  assumes "PlaceOrder S e x s = Some (s', x', None)"
  obtains s1 s2 fee where "TryPlaceOrder S x s = Some (s1, fee, None)"
    and "s2 = order_AddFeeDetail S e (o_Sender x) fee FeeTypeOrderNew s1"
    and "x' = (RecordOrderNewFee S fee x)\<lparr>o_OrderID := FormatOrderID (e_Height e) (GetBlockOrderNum s (e_Height e) + 1)\<rparr>"
    and "s' = InsertOrderIntoDepthBook x' (SetOrder (o_OrderID x') x'
           (SetBlockOrderNum (e_Height e) (GetBlockOrderNum s (e_Height e) + 1) s2))"
proof -
  obtain s1 fee where tp: "TryPlaceOrder S x s = Some (s1, fee, None)"
    using assms by (auto simp: PlaceOrder_def split: option.splits prod.splits)
  let ?s2 = "order_AddFeeDetail S e (o_Sender x) fee FeeTypeOrderNew s1"
  have "coins_only s ?s2" using coins_only_TryPlaceOrder [OF tp] by (rule coins_only_trans) simp
  then have num: "GetBlockOrderNum ?s2 = GetBlockOrderNum s" by (rule coins_only_orders(2))
  show thesis
    by (rule that [OF tp refl]) (use assms num in \<open>auto simp: PlaceOrder_def tp Let_def\<close>)
qed

lemma cache_ok_fresh:
  assumes "cache_ok look c" and "look i = None"
  shows "i \<notin> set (getOrderIDs c k)"
  using cache_okD(4) [OF assms(1), of i k] assms(2) by (auto simp: queued_def)

lemma PlaceOrder_consistent:
  assumes ok: "orders_consistent s" and fresh: "ids_fresh (e_Height e) s"
    and x: "order_live x" "o_Status x = OrderStatusOpen" and p: "PlaceOrder S e x s = Some (s', x', None)"
  shows "orders_consistent s'" and "ids_fresh (e_Height e) s'"
    and "GetOrder s (o_OrderID x') = None" and "GetOrder s' = (GetOrder s)(o_OrderID x' \<mapsto> x')"
    and "dcache s' = insertOrder x' (dcache s)"
proof -
  obtain s1 s2 fee where r: "TryPlaceOrder S x s = Some (s1, fee, None)"
    "s2 = order_AddFeeDetail S e (o_Sender x) fee FeeTypeOrderNew s1"
    "x' = (RecordOrderNewFee S fee x)\<lparr>o_OrderID := FormatOrderID (e_Height e) (GetBlockOrderNum s (e_Height e) + 1)\<rparr>"
    "s' = InsertOrderIntoDepthBook x' (SetOrder (o_OrderID x') x'
           (SetBlockOrderNum (e_Height e) (GetBlockOrderNum s (e_Height e) + 1) s2))"
    by (rule PlaceOrder_success [OF p])
  have "coins_only s s2" unfolding r(2) using coins_only_TryPlaceOrder [OF r(1)] by (rule coins_only_trans) simp
  note c = coins_only_orders [OF this]
  have x': "order_live x'" "o_Status x' = OrderStatusOpen"
    using x unfolding r(3) by (simp_all add: order_live_def RecordOrderNewFee_def setExtraInfoWithKeyValue_def)
  show new: "GetOrder s (o_OrderID x') = None" using fresh by (simp add: r(3) ids_fresh_def)
  have d: "dcache s' = insertOrder x' (dcache s)" using c by (simp add: r(4) InsertOrderIntoDepthBook_def)
  have g: "GetOrder s' = (GetOrder s)(o_OrderID x' \<mapsto> x')"
    using c by (simp add: r(4) InsertOrderIntoDepthBook_def GetOrder_def SetOrder_def SetBlockOrderNum_def fun_eq_iff)
  show "GetOrder s' = (GetOrder s)(o_OrderID x' \<mapsto> x')" "dcache s' = insertOrder x' (dcache s)" by (rule g, rule d)
  show "orders_consistent s'"
    using cache_ok_insert [of "GetOrder s" "dcache s" x'] ok x' cache_ok_fresh [of "GetOrder s" "dcache s", OF _ new]
    by (simp add: orders_consistent_def g d)
  have "GetBlockOrderNum s' (e_Height e) = GetBlockOrderNum s (e_Height e) + 1"
    using c by (simp add: r(4) InsertOrderIntoDepthBook_def GetBlockOrderNum_def SetOrder_def SetBlockOrderNum_def)
  with fresh show "ids_fresh (e_Height e) s'"
    by (simp add: ids_fresh_def g r(3) FormatOrderID_inject)
qed

lemma PlaceOrder_failure: "PlaceOrder S e x s = Some (s', x', Some er) \<Longrightarrow> coins_only s s' \<and> x' = x"
  by (auto simp: PlaceOrder_def Let_def dest: coins_only_TryPlaceOrder split: option.splits prod.splits)

lemma quitOrder_total:
  assumes "sdk_laws S" and "order_fees_ok x" and "2 \<le> length (symbols (o_Product x))"
  shows "quitOrder S e x f s \<noteq> None"
proof -
  let ?y = "if f = FeeTypeOrderCancel then Cancel x else Expire x"
  have y: "order_fees_ok ?y" "o_Product ?y = o_Product x" using assms(2) by (simp_all add: order_fees_ok_def Cancel_def Expire_def)
  obtain r where r: "coins_sub S (GetOrderNewFee S ?y) (GetOrderCostFee S e ?y) = Some r"
    using fee_sub_total [OF assms(1) y(1)] by blast
  moreover have "NeedUnlockCoins ?y \<noteq> None" using assms(3) y(2) by (auto simp: NeedUnlockCoins_def slice_get_def)
  ultimately show ?thesis by (auto simp: quitOrder_def Let_def)
qed

lemma quitOrder_success:
  assumes q: "quitOrder S e x f s = Some (s', fee)" and f: "f = FeeTypeOrderCancel \<or> f = FeeTypeOrderExpire"
  obtains y t where "coins_only s t" and "s' = RemoveOrderFromDepthBook e y f (SetOrder (o_OrderID y) y t)"
    and "o_OrderID y = o_OrderID x" and "key_of y = key_of x" and "o_RemainQuantity y = o_RemainQuantity x"
    and "o_RemainLocked y = 0" and "o_Status y \<noteq> OrderStatusOpen" and "fee = GetOrderCostFee S e x"
    and "o_Quantity y = o_Quantity x" and "order_fees_ok y = order_fees_ok x"
proof -
  define z where "z = (if f = FeeTypeOrderCancel then Cancel x else Expire x)"
  have z: "o_OrderID z = o_OrderID x" "key_of z = key_of x" "o_RemainQuantity z = o_RemainQuantity x"
    "o_Status z \<noteq> OrderStatusOpen" "GetOrderCostFee S e z = GetOrderCostFee S e x"
    "o_Quantity z = o_Quantity x" "order_fees_ok z = order_fees_ok x"
    using f by (auto simp: z_def Cancel_def Expire_def GetOrderCostFee_def order_fees_ok_def Let_def)
  obtain need r where nr: "NeedUnlockCoins z = Some need" "coins_sub S (GetOrderNewFee S z) (GetOrderCostFee S e z) = Some r"
    using q f unfolding quitOrder_def z_def [symmetric] Let_def by (auto split: option.splits)
  define s1 where "s1 = order_UnlockCoins S (o_Sender z) need LockCoinsTypeQuantity s"
  define s2 where "s2 = order_UnlockCoins S (o_Sender z) (GetOrderNewFee S z) LockCoinsTypeFee s1"
  define s3 where "s3 = order_AddFeeDetail S e (o_Sender z) r FeeTypeOrderReceive s2"
  define s4 where "s4 = fst (AddCollectedFees S e (GetOrderCostFee S e z) (o_Sender z) f False s3)"
  define y where "y = Unlock (RecordOrderReceiveFee S r z)"
  have "s' = RemoveOrderFromDepthBook e y f (SetOrder (o_OrderID y) y s4)" "fee = GetOrderCostFee S e z"
    using q f nr unfolding quitOrder_def z_def [symmetric] Let_def s4_def s3_def s2_def s1_def y_def by auto
  moreover have "coins_only s s1" "coins_only s1 s2" "coins_only s2 s3" "coins_only s3 s4"
    by (simp_all add: s1_def s2_def s3_def s4_def)
  then have "coins_only s s4" by (blast intro: coins_only_trans)
  moreover have "o_OrderID y = o_OrderID z" "key_of y = key_of z" "o_RemainQuantity y = o_RemainQuantity z"
    "o_RemainLocked y = 0" "o_Status y = o_Status z"
    "o_Quantity y = o_Quantity z" "order_fees_ok y = order_fees_ok z"
    by (simp_all add: y_def order_fees_ok_def Unlock_def RecordOrderReceiveFee_def setExtraInfoWithKeyValue_def)
  ultimately show thesis using that [of s4 y] z by simp
qed

lemma quitOrder_consistent:
  assumes ok: "orders_consistent s" and mem: "o_OrderID x \<in> set (getOrderIDs (dcache s) k)"
    and x: "GetOrder s (o_OrderID x) = Some x" and f: "f = FeeTypeOrderCancel \<or> f = FeeTypeOrderExpire"
    and q: "quitOrder S e x f s = Some (s', fee)"
  shows "orders_consistent s'"
    and "\<exists>y. GetOrder s' = (GetOrder s)(o_OrderID x \<mapsto> y) \<and> o_Status y \<noteq> OrderStatusOpen \<and> o_RemainLocked y = 0"
    and "getOrderIDs (dcache s') k' = (if k' = k then remove1 (o_OrderID x) (getOrderIDs (dcache s) k) else getOrderIDs (dcache s) k')"
    and "GetBlockOrderNum s' = GetBlockOrderNum s"
proof -
  obtain y t where y: "coins_only s t" "s' = RemoveOrderFromDepthBook e y f (SetOrder (o_OrderID y) y t)"
    "o_OrderID y = o_OrderID x" "key_of y = key_of x" "o_RemainQuantity y = o_RemainQuantity x"
    "o_RemainLocked y = 0" "o_Status y \<noteq> OrderStatusOpen" "fee = GetOrderCostFee S e x"
    by (rule quitOrder_success [OF q f]) blast
  note c = coins_only_orders [OF y(1)]
  have g: "GetOrder s' = (GetOrder s)(o_OrderID x \<mapsto> y)" and d: "dcache s' = removeOrder y (dcache s)"
    using c y(3) by (simp_all add: y(2))
  show "orders_consistent s'"
    using cache_ok_remove [OF ok [unfolded orders_consistent_def] x mem y(3-5), of y]
    by (simp add: orders_consistent_def g d)
  show "\<exists>y. GetOrder s' = (GetOrder s)(o_OrderID x \<mapsto> y) \<and> o_Status y \<noteq> OrderStatusOpen \<and> o_RemainLocked y = 0"
    using g y(6,7) by blast
  have "key_of x = k"
    using cache_okD(4) [OF ok [unfolded orders_consistent_def] mem] x by (simp add: queued_def)
  then show "getOrderIDs (dcache s') k' =
     (if k' = k then remove1 (o_OrderID x) (getOrderIDs (dcache s) k) else getOrderIDs (dcache s) k')"
    using y(3,4) by (simp add: d)
  show "GetBlockOrderNum s' = GetBlockOrderNum s"
    using c by (simp add: y(2) fun_eq_iff)
qed

subsection \<open>Coins of placing and quitting\<close>

lemma order_LockCoins_ok:
  assumes "escrow_ok S s" and "user_acc S a" and "coins_ok cs" and "order_LockCoins S s a cs t = (s', None)"
    and "lock_type_ok t"
  shows "escrow_ok S s'" and "escrow_gap S s' d = escrow_gap S s d"
    and "lock_type_ok t' \<Longrightarrow> locked_of s' b t' d = locked_of s b t' d + (if b = a \<and> t' = t then amt cs d else 0)"
    and "user_acc S b \<Longrightarrow> free_of S s' b d = free_of S s b d - (if b = a then amt cs d else 0)"
proof -
  have "escrow_ok S s' \<and> escrow_gap S s' d = escrow_gap S s d
    \<and> (lock_type_ok t' \<longrightarrow> locked_of s' b t' d = locked_of s b t' d + (if b = a \<and> t' = t then amt cs d else 0))
    \<and> (user_acc S b \<longrightarrow> free_of S s' b d = free_of S s b d - (if b = a then amt cs d else 0))" for d t' b
  proof (cases "coins_is_zero cs")
    case True
    with assms show ?thesis by (simp add: order_LockCoins_def amt_coins_is_zero)
  next
    case False
    with assms(4) have "LockCoins S s a cs t = (s', None)" by (simp add: order_LockCoins_def)
    from escrow.lock_law [OF assms(1-3) this] show ?thesis by simp
  qed
  then show "escrow_ok S s'" "escrow_gap S s' d = escrow_gap S s d"
    "lock_type_ok t' \<Longrightarrow> locked_of s' b t' d = locked_of s b t' d + (if b = a \<and> t' = t then amt cs d else 0)"
    "user_acc S b \<Longrightarrow> free_of S s' b d = free_of S s b d - (if b = a then amt cs d else 0)" by blast+
qed

lemma lock_types_ok [simp]: "lock_type_ok LockCoinsTypeQuantity" "lock_type_ok LockCoinsTypeFee"
  by (simp_all add: lock_type_ok_def)

lemma NeedLockCoins_ok: "NeedLockCoins S x = Some need \<Longrightarrow> coins_ok need"
  by (auto simp: NeedLockCoins_def split: if_splits)

lemma TryPlaceOrder_ok:
  assumes ok: "escrow_ok S s" and user: "user_acc S (o_Sender x)" and need: "NeedLockCoins S x = Some need"
    and t: "TryPlaceOrder S x s = Some (s', fee, None)"
  shows "escrow_ok S s'" and "escrow_gap S s' d = escrow_gap S s d" and "fee = GetOrderNewFee S x"
    and "locked_of s' a LockCoinsTypeQuantity d = locked_of s a LockCoinsTypeQuantity d + (if a = o_Sender x then amt need d else 0)"
    and "locked_of s' a LockCoinsTypeFee d = locked_of s a LockCoinsTypeFee d + (if a = o_Sender x then amt fee d else 0)"
    and "user_acc S a \<Longrightarrow> free_of S s' a d = free_of S s a d - (if a = o_Sender x then amt need d + amt fee d else 0)"
proof -
  obtain s1 where s1: "order_LockCoins S s (o_Sender x) need LockCoinsTypeQuantity = (s1, None)"
    and s2: "order_LockCoins S s1 (o_Sender x) fee LockCoinsTypeFee = (s', None)" and fee: "fee = GetOrderNewFee S x"
    using t need by (auto simp: TryPlaceOrder_def Let_def split: prod.splits option.splits)
  have cs: "coins_ok need" "coins_ok fee" using NeedLockCoins_ok [OF need] fee by (simp_all add: GetOrderNewFee_def)
  note l1 = order_LockCoins_ok [OF ok user cs(1) s1 lock_types_ok(1)]
  note l2 = order_LockCoins_ok [OF l1(1) user cs(2) s2 lock_types_ok(2)]
  show "escrow_ok S s'" "fee = GetOrderNewFee S x" using l2(1) fee by simp_all
  show "escrow_gap S s' d = escrow_gap S s d" using l1(2) l2(2) by simp
  show "locked_of s' a LockCoinsTypeQuantity d = locked_of s a LockCoinsTypeQuantity d + (if a = o_Sender x then amt need d else 0)"
    "locked_of s' a LockCoinsTypeFee d = locked_of s a LockCoinsTypeFee d + (if a = o_Sender x then amt fee d else 0)"
    using l1(3) l2(3) by simp_all
  show "free_of S s' a d = free_of S s a d - (if a = o_Sender x then amt need d + amt fee d else 0)" if "user_acc S a"
    using l1(4) [OF that] l2(4) [OF that] by simp
qed

text \<open>A failed transfer out of the escrow leaves coins behind, so the escrow never falls short.\<close>

lemma UnlockCoins_gap:
  assumes ok: "escrow_ok S s" and user: "user_acc S a" and cs: "coins_ok cs" "\<And>d. 0 \<le> amt cs d"
  shows "escrow_ok S (fst (UnlockCoins S s a cs t))" and "escrow_gap S s d \<le> escrow_gap S (fst (UnlockCoins S s a cs t)) d"
proof (atomize (full), cases "UnlockCoins S s a cs t")
  case (Pair s' er)
  show "escrow_ok S (fst (UnlockCoins S s a cs t)) \<and> escrow_gap S s d \<le> escrow_gap S (fst (UnlockCoins S s a cs t)) d"
  proof (cases er)
    case None
    with UnlockCoins_ok [OF ok user cs(1)] Pair ok show ?thesis by simp
  next
    case (Some y)
    show ?thesis
    proof (cases "updateLockedCoins S s a cs False t")
      case up: (Pair s1 er1)
      show ?thesis
      proof (cases er1)
        case None
        obtain m where m: "s1 = set_lock_store t m s" "lock_type_ok t" "kv_ok m" "\<forall>p\<in>set m. coins_ok (snd p)"
          "\<And>d. kv_sum (\<lambda>cs. amt cs d) m = kv_sum (\<lambda>cs. amt cs d) (lock_store s t) - amt cs d"
          by (rule updateLockedCoins_ok [OF up [unfolded None] sdk_lawsD(2) [OF conjunct1 [OF ok]] conjunct2 [OF ok] cs(1)])
            (rule that; auto)
        have "s' = s1" using Pair Some up None by (auto simp: UnlockCoins_def split: sum.splits)
        with set_lock_store_props [OF m(2) conjunct2 [OF ok] m(3,4)] m(1,5) Pair cs(2) [of d] ok show ?thesis
          by (simp add: escrow_gap_def)
      next
        case (Some z)
        have "s1 = s" using up Some by (auto simp: updateLockedCoins_def Let_def split: if_splits option.splits)
        with up Some have "UnlockCoins S s a cs t = (s, Some z)" by (simp add: UnlockCoins_def)
        with ok show ?thesis by simp
      qed
    qed
  qed
qed

lemma order_UnlockCoins_gap:
  assumes "escrow_ok S s" and "user_acc S a" and "coins_ok cs" and "\<And>d. 0 \<le> amt cs d"
  shows "escrow_ok S (order_UnlockCoins S a cs t s) \<and> (\<forall>d. escrow_gap S s d \<le> escrow_gap S (order_UnlockCoins S a cs t s) d)"
  using UnlockCoins_gap [OF assms] assms(1) by (simp add: order_UnlockCoins_def)

lemma gap_fee_detail [simp]: "escrow_gap S (order_AddFeeDetail S e a cs f s) = escrow_gap S s"
  "locks_ok (order_AddFeeDetail S e a cs f s) = locks_ok s"
  by (simp_all add: fun_eq_iff escrow_gap_def locked_sum_def locks_ok_def order_AddFeeDetail_def AddFeeDetail_def)

lemma AddCollectedFees_gap:
  assumes "escrow_ok S s" and "user_acc S a" and "b_mod_addr S (e_FeeCollector e) \<noteq> token_acc S"
  shows "escrow_ok S (fst (AddCollectedFees S e cs a f False s))
     \<and> (\<forall>d. escrow_gap S (fst (AddCollectedFees S e cs a f False s)) d = escrow_gap S s d)"
proof (cases "b_acc_to_mod S (bank s) a (e_FeeCollector e) cs")
  case (Inr b)
  then have "moves S (bank s) a (b_mod_addr S (e_FeeCollector e)) cs b"
    using assms(1) by (simp add: bank_moves(2) sdk_laws_def)
  from moves_bal [OF this] Inr assms show ?thesis
    by (simp add: AddCollectedFees_def escrow_gap_def locked_sum_def locks_ok_def user_acc_def)
qed (use assms(1) in \<open>simp add: AddCollectedFees_def\<close>)

lemma quitOrder_gap:
  assumes ok: "escrow_ok S s" and user: "user_acc S (o_Sender x)" and fees: "order_fees_ok x" and rem: "0 \<le> o_RemainLocked x"
    and fc: "b_mod_addr S (e_FeeCollector e) \<noteq> token_acc S" and f: "f = FeeTypeOrderCancel \<or> f = FeeTypeOrderExpire"
    and q: "quitOrder S e x f s = Some (s', fee)"
  shows "escrow_ok S s'" and "escrow_gap S s d \<le> escrow_gap S s' d"
proof -
  define z where "z = (if f = FeeTypeOrderCancel then Cancel x else Expire x)"
  have z: "o_Sender z = o_Sender x" "order_fees_ok z" "o_RemainLocked z = o_RemainLocked x"
    using fees by (auto simp: z_def Cancel_def Expire_def order_fees_ok_def)
  obtain need r where nr: "NeedUnlockCoins z = Some need" "coins_sub S (GetOrderNewFee S z) (GetOrderCostFee S e z) = Some r"
    using q f unfolding quitOrder_def z_def [symmetric] Let_def by (auto split: option.splits)
  have cs: "coins_ok need" "0 \<le> amt need d" "coins_ok (GetOrderNewFee S z)" "0 \<le> amt (GetOrderNewFee S z) d" for d
    using nr(1) rem z(2,3) cost_fee_bounds [OF conjunct1 [OF ok] z(2), of e d]
    by (auto simp: NeedUnlockCoins_def GetOrderNewFee_def split: if_splits)
  define s1 where "s1 = order_UnlockCoins S (o_Sender z) need LockCoinsTypeQuantity s"
  define s2 where "s2 = order_UnlockCoins S (o_Sender z) (GetOrderNewFee S z) LockCoinsTypeFee s1"
  define s3 where "s3 = order_AddFeeDetail S e (o_Sender z) r FeeTypeOrderReceive s2"
  define s4 where "s4 = fst (AddCollectedFees S e (GetOrderCostFee S e z) (o_Sender z) f False s3)"
  have s': "\<exists>y. s' = RemoveOrderFromDepthBook e y f (SetOrder (o_OrderID y) y s4)"
    using q f nr unfolding quitOrder_def z_def [symmetric] Let_def s4_def s3_def s2_def s1_def by auto
  have u: "user_acc S (o_Sender z)" using user z(1) by simp
  have 1: "escrow_ok S s1" "escrow_gap S s d \<le> escrow_gap S s1 d" for d
    using order_UnlockCoins_gap [OF ok u cs(1,2)] by (simp_all add: s1_def)
  have 2: "escrow_ok S s2" "escrow_gap S s1 d \<le> escrow_gap S s2 d" for d
    using order_UnlockCoins_gap [OF 1(1) u cs(3,4)] by (simp_all add: s2_def)
  have 3: "escrow_ok S s3" "escrow_gap S s3 = escrow_gap S s2" using 2(1) by (simp_all add: s3_def)
  have 4: "escrow_ok S s4" "escrow_gap S s4 d = escrow_gap S s3 d" for d
    using AddCollectedFees_gap [OF 3(1) u fc] by (simp_all add: s4_def)
  have fr: "escrow_gap S (RemoveOrderFromDepthBook e y f (SetOrder i y s4)) d = escrow_gap S s4 d"
    "locks_ok (RemoveOrderFromDepthBook e y f (SetOrder i y s4)) = locks_ok s4" for y i
    by (simp_all add: RemoveOrderFromDepthBook_def addUpdatedOrderID_def SetOrder_def Let_def escrow_gap_def
        locked_sum_def locks_ok_def)
  show "escrow_ok S s'" "escrow_gap S s d \<le> escrow_gap S s' d"
    using s' fr 4 3(2) 2(2) [of d] 1(2) [of d] by auto
qed

subsection \<open>Properties\<close>

definition demo_sell :: order where
  "demo_sell = NewOrder ref_sdk [] ''alice'' ''abc_okt'' SellOrder 200 300 0 10 (NativeToken, 0)"

lemma demo_orders: "orders_consistent demo_dex_chain" "ids_fresh h demo_dex_chain" "escrow_ok ref_sdk demo_dex_chain"
proof -
  have "dcache demo_dex_chain = newDiskCache"
    by (simp add: demo_dex_chain_def demo_chain_def newDiskCache_def)
  then show "orders_consistent demo_dex_chain" by (simp add: orders_consistent_def cache_ok_new)
  show "ids_fresh h demo_dex_chain" by (simp add: ids_fresh_def GetOrder_def demo_dex_chain_def demo_chain_def)
  show "escrow_ok ref_sdk demo_dex_chain" by (simp add: ref_sdk_laws locks_ok_def demo_dex_chain_def demo_chain_def)
qed

text \<open>
  C25. Placing an order: on success the order is stored under an id that no stored order has, the
  book and the queues take it in and stay consistent, exactly the coins of the order and the fee for its whole life
  move from the free to the locked balance of its sender, nobody else is touched and the escrow stays
  balanced; on failure neither the order store nor the caches change.
\<close>

theorem place_order_correct:
  assumes "escrow_ok S s" and "user_acc S (o_Sender x)" and "orders_consistent s" and "ids_fresh (e_Height e) s"
    and "order_live x" and "o_Status x = OrderStatusOpen" and "NeedLockCoins S x = Some need"
    and "PlaceOrder S e x s = Some (s', x', er)"
  shows "(er = None \<longrightarrow> GetOrder s (o_OrderID x') = None \<and> GetOrder s' = (GetOrder s)(o_OrderID x' \<mapsto> x')
       \<and> dcache s' = insertOrder x' (dcache s) \<and> orders_consistent s' \<and> ids_fresh (e_Height e) s'
       \<and> (\<forall>d. escrow_gap S s' d = escrow_gap S s d)
       \<and> (\<forall>a d. user_acc S a \<longrightarrow> free_of S s' a d =
             free_of S s a d - (if a = o_Sender x then amt need d + amt (GetOrderNewFee S x) d else 0))
       \<and> (\<forall>a d. locked_of s' a LockCoinsTypeQuantity d =
             locked_of s a LockCoinsTypeQuantity d + (if a = o_Sender x then amt need d else 0)))
     \<and> (er \<noteq> None \<longrightarrow> ord s' = ord s \<and> dcache s' = dcache s \<and> mcache s' = mcache s)"
proof (cases er)
  case None
  note p = assms(8) [unfolded None]
  obtain s1 s2 fee where r: "TryPlaceOrder S x s = Some (s1, fee, None)"
    "s2 = order_AddFeeDetail S e (o_Sender x) fee FeeTypeOrderNew s1"
    "s' = InsertOrderIntoDepthBook x' (SetOrder (o_OrderID x') x'
           (SetBlockOrderNum (e_Height e) (GetBlockOrderNum s (e_Height e) + 1) s2))"
    by (rule PlaceOrder_success [OF p]) blast
  have coins: "bank s' = bank s1" "tok s' = tok s1"
    by (simp_all add: r(2,3) InsertOrderIntoDepthBook_def SetOrder_def SetBlockOrderNum_def order_AddFeeDetail_def AddFeeDetail_def)
  then have eq: "escrow_gap S s' = escrow_gap S s1" "locked_of s' = locked_of s1"
    by (simp_all add: fun_eq_iff escrow_gap_def locked_sum_def locked_of_def lock_store_def)
  note t = TryPlaceOrder_ok [OF assms(1,2,7) r(1)]
  show ?thesis
    using None PlaceOrder_consistent [OF assms(3-6) p] t(2-4,6) by (simp add: eq coins)
next
  case (Some y)
  with PlaceOrder_failure [OF assms(8) [unfolded Some]] show ?thesis by (simp add: coins_onlyD)
qed

theorem place_order_correct_witness:
  "\<exists>s' x'. PlaceOrder ref_sdk demo_env demo_sell demo_dex_chain = Some (s', x', None) \<and> orders_consistent s'
     \<and> locked_of s' ''alice'' LockCoinsTypeQuantity ''abc'' = 300"
proof -
  have "case PlaceOrder ref_sdk demo_env demo_sell demo_dex_chain of Some (_, _, None) \<Rightarrow> True | _ \<Rightarrow> False" by code_simp
  then obtain s' x' where p: "PlaceOrder ref_sdk demo_env demo_sell demo_dex_chain = Some (s', x', None)"
    by (auto split: option.splits)
  have x: "user_acc ref_sdk (o_Sender demo_sell)" "order_live demo_sell" "o_Status demo_sell = OrderStatusOpen"
    "NeedLockCoins ref_sdk demo_sell = Some [(''abc'', 300)]"
    "locked_of demo_dex_chain ''alice'' LockCoinsTypeQuantity ''abc'' = 0" "o_Sender demo_sell = ''alice''"
    by (code_simp, code_simp, code_simp, code_simp, code_simp, code_simp)
  from place_order_correct [OF demo_orders(3) x(1) demo_orders(1,2) x(2-4) p]
  have "orders_consistent s'" "locked_of s' ''alice'' LockCoinsTypeQuantity ''abc'' = 300"
    using x(5,6) by simp_all
  with p show ?thesis by blast
qed

text \<open>
  C26. Cancelling or expiring a queued order never panics: the fee for the blocks it lived is never more than
  what was locked for it. The order is closed with nothing left locked, leaves its queue and its book,
  everything else stays queued in place, the caches stay consistent, and the escrow never falls short
  of the recorded locks, even when a transfer fails.
\<close>

theorem quit_order_correct:
  assumes "escrow_ok S s" and "user_acc S (o_Sender x)" and "orders_consistent s"
    and "GetOrder s (o_OrderID x) = Some x" and "o_OrderID x \<in> set (getOrderIDs (dcache s) k)"
    and "order_fees_ok x" and "0 \<le> o_RemainLocked x" and "2 \<le> length (symbols (o_Product x))"
    and "b_mod_addr S (e_FeeCollector e) \<noteq> token_acc S" and "f = FeeTypeOrderCancel \<or> f = FeeTypeOrderExpire"
  shows "\<exists>s' y. quitOrder S e x f s = Some (s', GetOrderCostFee S e x)
     \<and> GetOrder s' = (GetOrder s)(o_OrderID x \<mapsto> y) \<and> o_Status y \<noteq> OrderStatusOpen \<and> o_RemainLocked y = 0
     \<and> orders_consistent s'
     \<and> (\<forall>k'. getOrderIDs (dcache s') k' =
          (if k' = k then remove1 (o_OrderID x) (getOrderIDs (dcache s) k) else getOrderIDs (dcache s) k'))
     \<and> (\<forall>d. escrow_gap S s d \<le> escrow_gap S s' d)"
proof -
  obtain s' fee where q: "quitOrder S e x f s = Some (s', fee)"
    using quitOrder_total [OF conjunct1 [OF assms(1)] assms(6,8), of e f s] by auto
  have "fee = GetOrderCostFee S e x" by (rule quitOrder_success [OF q assms(10)]) blast
  moreover from quitOrder_consistent(2) [OF assms(3,5,4,10) q] obtain y where
    "GetOrder s' = (GetOrder s)(o_OrderID x \<mapsto> y)" "o_Status y \<noteq> OrderStatusOpen" "o_RemainLocked y = 0" by blast
  moreover note quitOrder_consistent(1,3) [OF assms(3,5,4,10) q]
    quitOrder_gap(2) [OF assms(1,2,6,7,9,10) q]
  ultimately show ?thesis using q by blast
qed

theorem quit_order_correct_witness:
  "\<exists>s x s'. GetOrder s (o_OrderID x) = Some x \<and> quitOrder ref_sdk demo_env x FeeTypeOrderCancel s = Some (s', [(NativeToken, 0)])
     \<and> orders_consistent s'"
proof -
  define s where "s = fst (the (PlaceOrder ref_sdk demo_env demo_sell demo_dex_chain))"
  define x where "x = fst (snd (the (PlaceOrder ref_sdk demo_env demo_sell demo_dex_chain)))"
  have "case PlaceOrder ref_sdk demo_env demo_sell demo_dex_chain of Some (_, _, None) \<Rightarrow> True | _ \<Rightarrow> False" by code_simp
  then have p: "PlaceOrder ref_sdk demo_env demo_sell demo_dex_chain = Some (s, x, None)"
    by (auto simp: s_def x_def split: option.splits)
  have live: "order_live demo_sell" "o_Status demo_sell = OrderStatusOpen" by (code_simp, code_simp)
  note c = PlaceOrder_consistent [OF demo_orders(1,2) live p]
  have x: "user_acc ref_sdk (o_Sender x)" "order_fees_ok x" "0 \<le> o_RemainLocked x" "2 \<le> length (symbols (o_Product x))"
    "GetOrderCostFee ref_sdk demo_env x = [(NativeToken, 0)]"
    "b_mod_addr ref_sdk (e_FeeCollector demo_env) \<noteq> token_acc ref_sdk" "escrow_ok ref_sdk s"
    unfolding x_def s_def by (code_simp, code_simp, code_simp, code_simp, code_simp, code_simp, simp add: ref_sdk_laws, code_simp)
  have g: "GetOrder s (o_OrderID x) = Some x" "o_OrderID x \<in> set (getOrderIDs (dcache s) (key_of x))"
    using c(4,5) by simp_all
  from quit_order_correct [OF x(7,1) c(1) g x(2-4,6), of FeeTypeOrderCancel] x(5) g(1) show ?thesis by auto
qed

text \<open>
  The best bid and ask query: the bid is the highest price with a buy quantity (zero when there is
  none), but the ask is zero whatever the book holds, because the search starts from zero and only goes down.
\<close>

theorem best_ask_always_zero:
  assumes "\<forall>item\<in>set (GetDepthBookFromDB s product). 0 < i_Price item"
  shows "GetBestBidAndAsk s product =
     (Max (set (0 # map i_Price (filter (\<lambda>item. 0 < i_BuyQuantity item) (GetDepthBookFromDB s product)))), 0)"
proof -
  let ?step = "\<lambda>item (bestBid, bestAsk).
         (if 0 < i_BuyQuantity item \<and> bestBid < i_Price item then i_Price item else bestBid,
          if 0 < i_SellQuantity item \<and> i_Price item < bestAsk then i_Price item else bestAsk)"
  have max2: "Max (insert a (insert b A)) = Max (insert (max a b) A)" if "finite A" for a b :: dec and A
    using that by (cases "A = {}") (simp_all add: max.assoc)
  have "fold ?step items (b, 0) = (Max (set (b # map i_Price (filter (\<lambda>item. 0 < i_BuyQuantity item) items))), 0)"
    if "\<forall>item\<in>set items. 0 < i_Price item" for items :: depth_book and b :: dec
    using that
  proof (induction items arbitrary: b)
    case (Cons x xs)
    have "?step x (b, 0) = (if 0 < i_BuyQuantity x then max b (i_Price x) else b, 0)"
      using Cons.prems by (auto simp: max_def)
    then show ?case using Cons by (simp add: max2 del: Max_insert)
  qed simp
  from this [OF assms, of 0] show ?thesis by (simp add: GetBestBidAndAsk_def)
qed

theorem best_ask_always_zero_witness:
  "\<exists>s :: ref_bank chain. GetDepthBookFromDB s ''abc_okt'' = [\<lparr>i_Price = 300, i_BuyQuantity = 0, i_SellQuantity = 5\<rparr>,
       \<lparr>i_Price = 200, i_BuyQuantity = 7, i_SellQuantity = 0\<rparr>] \<and> GetBestBidAndAsk s ''abc_okt'' = (200, 0)"
proof -
  let ?book = "[\<lparr>i_Price = 300, i_BuyQuantity = 0, i_SellQuantity = 5\<rparr>, \<lparr>i_Price = 200, i_BuyQuantity = 7, i_SellQuantity = 0\<rparr>]"
  define s where "s = StoreDepthBook ''abc_okt'' (Some ?book) demo_dex_chain"
  have b: "GetDepthBookFromDB s ''abc_okt'' = ?book"
    by (simp add: s_def GetDepthBookFromDB_def StoreDepthBook_def)
  with best_ask_always_zero [of s "''abc_okt''"] b show ?thesis by (intro exI [of _ s]) simp
qed

end
