(* ===== verification/MatchPrice.thy ===== *)
theory MatchPrice
  imports DepthBook
begin

text \<open>
  The price finding of the periodic auction (\<open>x/order/match/periodicauction/match.go\<close>,
  \<open>preMatchProcessing\<close> to \<open>bestPriceFromRefPrice\<close>). The amounts are exact; index expressions
  that are not in range by construction go through \<open>slice_get\<close>, so that \<open>None\<close> is a panic.
  The specification is the demand and the supply of a book at a price: the
  chosen price maximises the executable volume over all prices, and no well-formed book
  makes the computation panic.
\<close>

subsection \<open>The code\<close>

definition preMatchProcessing :: "depth_book \<Rightarrow> dec list \<times> dec list" where
  "preMatchProcessing items =
     (prefix_sums 0 (map i_BuyQuantity items), rev (prefix_sums 0 (rev (map i_SellQuantity items))))"

definition execRule0 :: "dec list \<Rightarrow> dec list \<Rightarrow> dec \<times> dec list" where
  "execRule0 buyAmountSum sellAmountSum =
     (let execution = map2 min buyAmountSum sellAmountSum
      in (fold (\<lambda>e maxExecution. max e maxExecution) execution 0, execution))"

definition execRule1 :: "dec \<Rightarrow> dec list \<Rightarrow> nat list" where
  "execRule1 maxExecution execution =
     filter (\<lambda>i. execution ! i = maxExecution) [0..<length execution]"

definition execRule2 :: "dec list \<Rightarrow> dec list \<Rightarrow> nat list \<Rightarrow> (nat list \<times> dec list) option" where
  "execRule2 buyAmountSum sellAmountSum indexesRule1 =
     (let imbalance = map (\<lambda>i. buyAmountSum ! i - sellAmountSum ! i) indexesRule1
      in case imbalance of
           [] \<Rightarrow> None
         | x # xs \<Rightarrow>
             (let minAbsImbalance = fold (\<lambda>y m. min m \<bar>y\<bar>) xs \<bar>x\<bar>
              in Some (map fst (filter (\<lambda>(i, y). \<bar>y\<bar> = minAbsImbalance) (zip indexesRule1 imbalance)),
                       imbalance)))"

definition bestPriceFromRefPrice :: "dec \<Rightarrow> dec \<Rightarrow> dec \<Rightarrow> dec" where
  "bestPriceFromRefPrice minPrice maxPrice refPrice =
     (if minPrice \<le> refPrice then minPrice
      else if refPrice \<le> maxPrice then maxPrice
      else refPrice)"

definition execRule3 ::
  "'b sdk \<Rightarrow> depth_book \<Rightarrow> nat \<Rightarrow> dec \<Rightarrow> int \<Rightarrow> nat list \<Rightarrow> dec list \<Rightarrow> dec option" where
  "execRule3 S items offset refPrice pricePrecision indexesRule2 imbalance =
     (let indexLen2 = int (length indexesRule2)
      in case (slice_get indexesRule2 0, slice_get indexesRule2 (indexLen2 - 1)) of
           (Some ixFirst, Some ixLast) \<Rightarrow>
             (case slice_get imbalance (int ixFirst - int offset) of
                None \<Rightarrow> None
              | Some imbFirst \<Rightarrow>
                  (case (slice_get items (int ixFirst), slice_get items (int ixLast)) of
                     (Some hi, Some lo) \<Rightarrow>
                       (if 0 < imbFirst
                        then Some (bestPriceFromRefPrice (i_Price hi) (i_Price lo)
                               (d_round S (d_mul S refPrice (105 * d_unit S div 100)) pricePrecision))
                        else (case slice_get imbalance (int ixLast - int offset) of
                                None \<Rightarrow> None
                              | Some imbLast \<Rightarrow>
                                  if imbLast < 0
                                  then Some (bestPriceFromRefPrice (i_Price hi) (i_Price lo)
                                    (d_round S (d_mul S refPrice (95 * d_unit S div 100)) pricePrecision))
                                  else Some (bestPriceFromRefPrice (i_Price hi) (i_Price lo)
                                    (d_round S refPrice pricePrecision))))
                   | _ \<Rightarrow> None))
         | _ \<Rightarrow> None)"

definition periodicAuctionMatchPrice ::
  "'b sdk \<Rightarrow> depth_book \<Rightarrow> int \<Rightarrow> dec \<Rightarrow> (dec \<times> dec) option" where
  "periodicAuctionMatchPrice S items pricePrecision refPrice =
     (let (buyAmountSum, sellAmountSum) = preMatchProcessing items
      in if length buyAmountSum = 0 then Some (0, 0)
         else
           (let (maxExecution, execution) = execRule0 buyAmountSum sellAmountSum
            in if maxExecution = 0 then Some (refPrice, maxExecution)
               else
                 (let indexesRule1 = execRule1 maxExecution execution
                  in if length indexesRule1 = 1
                     then map_option (\<lambda>x. (i_Price x, maxExecution))
                            (slice_get items (int (indexesRule1 ! 0)))
                     else (case execRule2 buyAmountSum sellAmountSum indexesRule1 of
                         None \<Rightarrow> None
                       | Some (indexesRule2, imbalance) \<Rightarrow>
                           if length indexesRule2 = 1
                           then map_option (\<lambda>x. (i_Price x, maxExecution))
                                  (slice_get items (int (indexesRule2 ! 0)))
                           else map_option (\<lambda>p. (p, maxExecution))
                                  (execRule3 S items (indexesRule1 ! 0) refPrice pricePrecision
                                     indexesRule2 imbalance)))))"

subsection \<open>Demand, supply and the executable volume\<close>

definition demand_at :: "depth_book \<Rightarrow> dec \<Rightarrow> dec" where
  "demand_at items p = sum_list (map i_BuyQuantity (filter (\<lambda>x. p \<le> i_Price x) items))"

definition supply_at :: "depth_book \<Rightarrow> dec \<Rightarrow> dec" where
  "supply_at items p = sum_list (map i_SellQuantity (filter (\<lambda>x. i_Price x \<le> p) items))"

definition volume :: "depth_book \<Rightarrow> dec \<Rightarrow> dec" where
  "volume items p = min (demand_at items p) (supply_at items p)"

lemma sum_filter_mono:
  fixes f :: "'a \<Rightarrow> int"
  assumes "\<forall>x\<in>set xs. 0 \<le> f x" and "\<And>x. x \<in> set xs \<Longrightarrow> P x \<Longrightarrow> Q x"
  shows "sum_list (map f (filter P xs)) \<le> sum_list (map f (filter Q xs))"
  using assms by (induction xs) (auto simp: add_increasing)

lemma demand_antimono: "book_ok items \<Longrightarrow> p \<le> q \<Longrightarrow> demand_at items q \<le> demand_at items p"
  unfolding demand_at_def by (rule sum_filter_mono) (auto simp: book_ok_def)

lemma supply_mono: "book_ok items \<Longrightarrow> p \<le> q \<Longrightarrow> supply_at items p \<le> supply_at items q"
  unfolding supply_at_def by (rule sum_filter_mono) (auto simp: book_ok_def)

lemma desc_filter_ge:
  "desc items \<Longrightarrow> i < length items \<Longrightarrow>
     filter (\<lambda>x. i_Price (items ! i) \<le> i_Price x) items = take (Suc i) items"
proof (induction items arbitrary: i)
  case (Cons x xs)
  show ?case
  proof (cases i)
    case 0
    have "filter (\<lambda>y. i_Price x \<le> i_Price y) xs = []"
      using Cons.prems by (auto simp: filter_empty_conv)
    with 0 show ?thesis by simp
  next
    case (Suc j)
    have "i_Price (xs ! j) < i_Price x" using Cons.prems Suc by simp
    then have "i_Price (xs ! j) \<le> i_Price x" "\<not> i_Price x \<le> i_Price (xs ! j)" by simp_all
    with Cons.prems Suc Cons.IH [of j] show ?thesis by simp
  qed
qed simp

lemma desc_filter_le:
  "desc items \<Longrightarrow> i < length items \<Longrightarrow>
     filter (\<lambda>x. i_Price x \<le> i_Price (items ! i)) items = drop i items"
proof (induction items arbitrary: i)
  case (Cons x xs)
  show ?case
  proof (cases i)
    case 0
    have "filter (\<lambda>y. i_Price y \<le> i_Price x) xs = xs"
      using Cons.prems by (auto simp: filter_id_conv)
    with 0 show ?thesis by simp
  next
    case (Suc j)
    have "i_Price (xs ! j) < i_Price x" using Cons.prems Suc by simp
    then have "i_Price (xs ! j) \<le> i_Price x" "\<not> i_Price x \<le> i_Price (xs ! j)" by simp_all
    with Cons.prems Suc Cons.IH [of j] show ?thesis by simp
  qed
qed simp

lemma preMatch_length [simp]:
  "length (fst (preMatchProcessing items)) = length items"
  "length (snd (preMatchProcessing items)) = length items"
  by (simp_all add: preMatchProcessing_def)

lemma buySum_demand:
  "desc items \<Longrightarrow> i < length items \<Longrightarrow>
     fst (preMatchProcessing items) ! i = demand_at items (i_Price (items ! i))"
  by (simp add: preMatchProcessing_def nth_prefix_sums demand_at_def desc_filter_ge take_map)

lemma sellSum_supply:
  assumes "desc items" and "i < length items"
  shows "snd (preMatchProcessing items) ! i = supply_at items (i_Price (items ! i))"
proof -
  let ?s = "map i_SellQuantity items"
  have "snd (preMatchProcessing items) ! i = sum_list (take (length items - i) (rev ?s))"
    using assms(2) by (simp add: preMatchProcessing_def rev_nth nth_prefix_sums Suc_diff_Suc)
  also have "\<dots> = sum_list (rev (drop i ?s))"
    using assms(2) by (simp add: take_rev)
  also have "\<dots> = supply_at items (i_Price (items ! i))"
    using assms by (simp add: supply_at_def desc_filter_le drop_map sum_list_rev)
  finally show ?thesis .
qed

lemma execution_volume:
  assumes "desc items" and "preMatchProcessing items = (b, s)"
  shows "map2 min b s = map (\<lambda>x. volume items (i_Price x)) items"
proof (rule nth_equalityI)
  have len: "length b = length items" "length s = length items"
    using preMatch_length [of items] assms(2) by simp_all
  then show "length (map2 min b s) = length (map (\<lambda>x. volume items (i_Price x)) items)" by simp
  show "map2 min b s ! i = map (\<lambda>x. volume items (i_Price x)) items ! i"
    if "i < length (map2 min b s)" for i
    using that len buySum_demand [OF assms(1), of i] sellSum_supply [OF assms(1), of i] assms(2)
    by (simp add: volume_def)
qed

lemma volume_between:
  assumes "book_ok items" and "lo \<le> p" and "p \<le> hi" and "m \<le> volume items lo" and "m \<le> volume items hi"
  shows "m \<le> volume items p"
  using demand_antimono [OF assms(1,3)] supply_mono [OF assms(1,2)] assms(4,5)
  by (simp add: volume_def)

text \<open>The volume at any price is at most the volume at some level, or zero.\<close>

lemma volume_le_level:
  assumes "book_ok items"
  shows "volume items p \<le> 0 \<or> (\<exists>x\<in>set items. volume items p \<le> volume items (i_Price x))"
proof (cases "filter (\<lambda>x. p \<le> i_Price x) items = []")
  case True
  then show ?thesis by (simp add: volume_def demand_at_def)
next
  case False
  define Q where "Q = i_Price ` set (filter (\<lambda>x. p \<le> i_Price x) items)"
  have Q: "finite Q" "Q \<noteq> {}" using False unfolding Q_def image_is_empty set_empty by simp_all
  then have min: "Min Q \<in> Q" "\<forall>q\<in>Q. Min Q \<le> q" by simp_all
  then obtain x where x: "x \<in> set items" "p \<le> i_Price x" "i_Price x = Min Q" by (auto simp: Q_def)
  have "p \<le> i_Price y \<longleftrightarrow> i_Price x \<le> i_Price y" if "y \<in> set items" for y
    using that min(2) x by (auto simp: Q_def)
  then have "demand_at items p = demand_at items (i_Price x)"
    by (simp add: demand_at_def cong: filter_cong)
  moreover have "supply_at items p \<le> supply_at items (i_Price x)"
    using assms x(2) by (rule supply_mono)
  ultimately have "volume items p \<le> volume items (i_Price x)" by (simp add: volume_def)
  with x(1) show ?thesis by blast
qed

subsection \<open>Rules 1 to 3\<close>

lemma filter_upt_convex:
  assumes conv: "\<And>i j k. P i \<Longrightarrow> P k \<Longrightarrow> i \<le> j \<Longrightarrow> j \<le> k \<Longrightarrow> k < n \<Longrightarrow> P j"
    and ne: "filter P [0..<n] \<noteq> []"
  obtains a b where "filter P [0..<n] = [a..<b]" and "a < b" and "b \<le> n"
proof -
  define xs where "xs = filter P [0..<n]"
  define a where "a = Min (set xs)"
  define m where "m = Max (set xs)"
  have "set xs \<noteq> {}" using ne unfolding xs_def set_empty .
  then have am: "a \<in> set xs" "m \<in> set xs" unfolding a_def m_def by (intro Min_in Max_in; simp)+
  then have P: "P a" "P m" "a < n" "m < n" by (simp_all add: xs_def)
  have bnd: "a \<le> j \<and> j \<le> m" if "j \<in> set xs" for j
    using that by (simp add: a_def m_def)
  have "set xs = set [a..<Suc m]"
  proof (rule set_eqI)
    fix j
    have "P j" if "a \<le> j" "j \<le> m" using conv [OF P(1,2) that P(4)] .
    with bnd [of j] P(4) show "j \<in> set xs \<longleftrightarrow> j \<in> set [a..<Suc m]"
      by (auto simp: xs_def)
  qed
  moreover have "sorted xs" "distinct xs"
    unfolding xs_def by (rule sorted_wrt_filter, rule sorted_upt) simp
  ultimately have "xs = [a..<Suc m]"
    by (intro sorted_distinct_set_unique) (simp_all del: upt_Suc)
  moreover have "a < Suc m" using bnd [OF am(1)] by simp
  ultimately show thesis using that [of a "Suc m"] P(4) by (simp add: xs_def)
qed

lemma fold_min_abs: "fold (\<lambda>y m. min m \<bar>y\<bar>) xs a = Min (insert a ((\<lambda>y. \<bar>y\<bar>) ` set xs))" for a :: int
proof -
  have "fold (\<lambda>y m. min m \<bar>y\<bar>) xs a = fold min (map (\<lambda>y. \<bar>y\<bar>) xs) a"
    by (induction xs arbitrary: a) (simp_all add: min.commute)
  also have "\<dots> = Min (set (a # map (\<lambda>y. \<bar>y\<bar>) xs))" by (rule Min.set_eq_fold [symmetric])
  finally show ?thesis by simp
qed

lemma zip_map_filter: "map fst (filter (\<lambda>(i, y). Q y) (zip xs (map f xs))) = filter (\<lambda>i. Q (f i)) xs"
  by (induction xs) auto

lemma execRule2_spec:
  fixes b s :: "dec list"
  assumes "idx \<noteq> []"
  defines "imb \<equiv> \<lambda>i. b ! i - s ! i"
  shows "execRule2 b s idx =
    Some (filter (\<lambda>i. \<forall>j\<in>set idx. \<bar>imb i\<bar> \<le> \<bar>imb j\<bar>) idx, map imb idx)"
proof -
  obtain x xs where idx: "idx = x # xs" using assms(1) by (cases idx) auto
  let ?A = "(\<lambda>i. \<bar>imb i\<bar>) ` set idx"
  have min: "\<bar>imb i\<bar> = Min ?A \<longleftrightarrow> (\<forall>j\<in>set idx. \<bar>imb i\<bar> \<le> \<bar>imb j\<bar>)" if "i \<in> set idx" for i
    using that by (subst eq_commute, subst Min_eq_iff) auto
  have m: "fold (\<lambda>y m. min m \<bar>y\<bar>) (map imb xs) \<bar>imb x\<bar> = Min ?A"
    by (simp add: fold_min_abs idx image_image)
  have "execRule2 b s idx =
      Some (map fst (filter (\<lambda>(i, y). \<bar>y\<bar> = Min ?A) (zip idx (map imb idx))), map imb idx)"
    using m by (simp add: execRule2_def Let_def imb_def idx)
  also have "map fst (filter (\<lambda>(i, y). \<bar>y\<bar> = Min ?A) (zip idx (map imb idx)))
      = filter (\<lambda>i. \<forall>j\<in>set idx. \<bar>imb i\<bar> \<le> \<bar>imb j\<bar>) idx"
    unfolding zip_map_filter by (rule filter_cong [OF refl]) (rule min)
  finally show ?thesis .
qed

lemma bestPriceFromRefPrice_clamp:
  "lo \<le> hi \<Longrightarrow> bestPriceFromRefPrice hi lo ref = max lo (min hi ref)"
  by (auto simp: bestPriceFromRefPrice_def)

lemma imbalance_mono:
  assumes "book_ok items" and "preMatchProcessing items = (b, s)" and "i \<le> j" and "j < length items"
  shows "b ! i - s ! i \<le> b ! j - s ! j"
proof -
  have d: "desc items" using assms(1) by (rule book_ok_desc)
  have "i_Price (items ! j) \<le> i_Price (items ! i)" using desc_mono [OF d assms(3,4)] .
  then show ?thesis
    using demand_antimono [OF assms(1)] supply_mono [OF assms(1)] assms(2-4)
      buySum_demand [OF d, of i] buySum_demand [OF d, of j]
      sellSum_supply [OF d, of i] sellSum_supply [OF d, of j]
    by (simp add: diff_mono)
qed

text \<open>
  Rule 3 on a contiguous block of rule 1 indices: no index expression is out of range, and
  the outcome is the reference price of the pressure case, clamped to the candidate prices.
\<close>

definition refPriceRule3 :: "'b sdk \<Rightarrow> dec \<Rightarrow> int \<Rightarrow> dec \<Rightarrow> dec \<Rightarrow> dec" where
  "refPriceRule3 S refPrice pricePrecision imbFirst imbLast =
     (if 0 < imbFirst then d_round S (d_mul S refPrice (105 * d_unit S div 100)) pricePrecision
      else if imbLast < 0 then d_round S (d_mul S refPrice (95 * d_unit S div 100)) pricePrecision
      else d_round S refPrice pricePrecision)"

lemma execRule3_spec:
  assumes "b \<le> length items" and "idx2 \<noteq> []" and "set idx2 \<subseteq> {a..<b}"
  shows "execRule3 S items a ref prec idx2 (map imb [a..<b]) =
    Some (bestPriceFromRefPrice (i_Price (items ! hd idx2)) (i_Price (items ! last idx2))
      (refPriceRule3 S ref prec (imb (hd idx2)) (imb (last idx2))))"
proof -
  have "hd idx2 \<in> {a..<b}" "last idx2 \<in> {a..<b}"
    using assms(2,3) hd_in_set last_in_set by blast+
  then have h: "a \<le> hd idx2" "hd idx2 < b" "a \<le> last idx2" "last idx2 < b" by auto
  have "slice_get (map imb [a..<b]) (int i - int a) = Some (imb i)" if "a \<le> i" "i < b" for i
    using that by (auto simp: slice_get_def nat_diff_distrib)
  moreover have "slice_get idx2 0 = Some (hd idx2)" "slice_get idx2 (int (length idx2) - 1) = Some (last idx2)"
    using assms(2) by (auto simp: slice_get_def hd_conv_nth last_conv_nth nat_diff_distrib Suc_le_eq)
  moreover have "slice_get items (int i) = Some (items ! i)" if "i < b" for i
    using that assms(1) by (simp add: slice_get_nat)
  ultimately show ?thesis
    using h by (simp add: execRule3_def Let_def refPriceRule3_def)
qed

subsection \<open>The match price\<close>

text \<open>The maximal executable volume over the levels, and the block of levels that reach it.\<close>

definition max_volume :: "depth_book \<Rightarrow> dec" where
  "max_volume items = fold max (map (\<lambda>x. volume items (i_Price x)) items) 0"

lemma max_volume_Max: "max_volume items = Max (set (0 # map (\<lambda>x. volume items (i_Price x)) items))"
  unfolding max_volume_def by (rule Max.set_eq_fold [symmetric])

lemma max_volume_ge:
  shows "0 \<le> max_volume items" and "x \<in> set items \<Longrightarrow> volume items (i_Price x) \<le> max_volume items"
  unfolding max_volume_Max by simp_all

lemma max_volume_bounds: "book_ok items \<Longrightarrow> volume items p \<le> max_volume items"
  using volume_le_level [of items p] max_volume_ge(1) [of items] max_volume_ge(2) [of _ items]
  by force

lemma max_volume_attained:
  assumes "max_volume items \<noteq> 0"
  obtains k where "k < length items" and "volume items (i_Price (items ! k)) = max_volume items"
proof -
  have "max_volume items \<in> set (0 # map (\<lambda>x. volume items (i_Price x)) items)"
    unfolding max_volume_Max by (rule Max_in) simp_all
  with assms show thesis using that by (auto simp: in_set_conv_nth)
qed

lemma execRule1_block:
  assumes ok: "book_ok items" and ne: "max_volume items \<noteq> 0"
  obtains a c where "execRule1 (max_volume items) (map (\<lambda>x. volume items (i_Price x)) items) = [a..<c]"
    and "a < c" and "c \<le> length items"
    and "\<And>k. k < length items \<Longrightarrow> volume items (i_Price (items ! k)) = max_volume items \<longleftrightarrow> a \<le> k \<and> k < c"
proof -
  let ?P = "\<lambda>i. map (\<lambda>x. volume items (i_Price x)) items ! i = max_volume items"
  let ?n = "length items"
  have d: "desc items" using ok by (rule book_ok_desc)
  have "?P j" if "?P i" "?P k" "i \<le> j" "j \<le> k" "k < ?n" for i j k
    using volume_between [OF ok desc_mono [OF d that(4,5)] desc_mono [OF d that(3)], of "max_volume items"]
      max_volume_bounds [OF ok, of "i_Price (items ! j)"] that by simp
  moreover obtain k where "k < ?n" "?P k" using max_volume_attained [OF ne] by auto
  then have "filter ?P [0..<?n] \<noteq> []" by (auto simp: filter_empty_conv)
  ultimately obtain a c where ac: "filter ?P [0..<?n] = [a..<c]" "a < c" "c \<le> ?n"
    by (rule filter_upt_convex)
  have "volume items (i_Price (items ! k)) = max_volume items \<longleftrightarrow> a \<le> k \<and> k < c" if "k < ?n" for k
  proof -
    have "?P k \<longleftrightarrow> k \<in> set (filter ?P [0..<?n])" using that by simp
    also have "\<dots> \<longleftrightarrow> a \<le> k \<and> k < c" unfolding ac(1) by simp
    finally show ?thesis using that by simp
  qed
  then show thesis using that [of a c] ac by (simp add: execRule1_def)
qed

lemma minimal_nonempty:
  fixes f :: "'a \<Rightarrow> int"
  shows "xs \<noteq> [] \<Longrightarrow> filter (\<lambda>i. \<forall>j\<in>set xs. f i \<le> f j) xs \<noteq> []"
  using arg_min_least [of "set xs" _ f] arg_min_if_finite(1) [of "set xs" f]
  by (fastforce simp: filter_empty_conv)

lemma sorted_hd_last: "sorted xs \<Longrightarrow> k \<in> set xs \<Longrightarrow> hd xs \<le> k \<and> k \<le> last xs"
  by (induction xs) (auto split: if_splits)

text \<open>
  The result of the auction when some volume is executable: the
  price lies between two levels that both reach the maximal volume with minimal
  absolute imbalance, and is the reference price of rule 3 clamped to them.
\<close>

lemma match_price_levels:
  assumes ok: "book_ok items" and pre: "preMatchProcessing items = (b, s)"
    and ne: "max_volume items \<noteq> 0"
  defines "imb \<equiv> \<lambda>k. b ! k - s ! k"
  obtains i j bp where "periodicAuctionMatchPrice S items prec ref = Some (bp, max_volume items)"
    and "i \<le> j" and "j < length items"
    and "volume items (i_Price (items ! i)) = max_volume items"
    and "volume items (i_Price (items ! j)) = max_volume items"
    and "\<And>k. k < length items \<Longrightarrow> volume items (i_Price (items ! k)) = max_volume items \<Longrightarrow>
           \<bar>imb i\<bar> \<le> \<bar>imb k\<bar> \<and> \<bar>imb j\<bar> \<le> \<bar>imb k\<bar>
           \<and> (\<bar>imb k\<bar> = \<bar>imb i\<bar> \<longrightarrow> i \<le> k \<and> k \<le> j)"
    and "bp = max (i_Price (items ! j)) (min (i_Price (items ! i)) (refPriceRule3 S ref prec (imb i) (imb j)))"
proof -
  let ?mx = "max_volume items" and ?E = "map (\<lambda>x. volume items (i_Price x)) items"
  obtain a c where ac: "execRule1 ?mx ?E = [a..<c]" "a < c" "c \<le> length items"
    "\<And>k. k < length items \<Longrightarrow> volume items (i_Price (items ! k)) = ?mx \<longleftrightarrow> a \<le> k \<and> k < c"
    using execRule1_block [OF ok ne] by blast
  define idx2 where "idx2 = filter (\<lambda>i. \<forall>j\<in>set [a..<c]. \<bar>imb i\<bar> \<le> \<bar>imb j\<bar>) [a..<c]"
  have idx2: "set idx2 \<subseteq> {a..<c}" "idx2 \<noteq> []" "sorted idx2"
    using ac(2) minimal_nonempty [of "[a..<c]" "\<lambda>i. \<bar>imb i\<bar>"]
    by (auto simp: idx2_def sorted_wrt_filter)
  let ?i = "hd idx2" and ?j = "last idx2"
  have mem: "?i \<in> set idx2" "?j \<in> set idx2" using idx2(2) by simp_all
  then have bnd: "?i < length items" "?j < length items" using idx2(1) ac(3) by auto
  have ij: "?i \<le> ?j" using idx2(2,3) by (cases idx2) auto
  have pr: "i_Price (items ! ?j) \<le> i_Price (items ! ?i)"
    using desc_mono [OF book_ok_desc [OF ok] ij bnd(2)] .
  let ?bp = "bestPriceFromRefPrice (i_Price (items ! ?i)) (i_Price (items ! ?j))
      (refPriceRule3 S ref prec (imb ?i) (imb ?j))"
  have r0: "execRule0 b s = (?mx, ?E)"
    by (simp add: execRule0_def Let_def execution_volume [OF book_ok_desc [OF ok] pre] max_volume_def)
  have r2: "execRule2 b s [a..<c] = Some (idx2, map imb [a..<c])"
    using execRule2_spec [of "[a..<c]" b s] ac(2) by (simp add: idx2_def imb_def)
  have single: "?i = ?j \<and> idx2 ! 0 = ?i" if "length idx2 = 1"
    using that by (cases idx2) auto
  have len: "length b \<noteq> 0"
    using pre preMatch_length(1) [of items] bnd by auto
  have pm: "periodicAuctionMatchPrice S items prec ref = Some (?bp, ?mx)"
  proof (cases "length [a..<c] = 1")
    case True
    then have "[a..<c] = [a]" by (simp add: upt_conv_Cons)
    then have "idx2 = [a]" by (simp add: idx2_def)
    with True ac len ne show ?thesis
      by (simp add: periodicAuctionMatchPrice_def pre r0 slice_get_nat bestPriceFromRefPrice_def)
  next
    case False
    with ac len ne idx2(2) single bnd show ?thesis
      by (auto simp: periodicAuctionMatchPrice_def pre r0 r2 slice_get_nat bestPriceFromRefPrice_def
          execRule3_spec [OF ac(3) idx2(2,1)] Let_def simp del: upt_Suc)
  qed
  show thesis
  proof (rule that [OF pm ij bnd(2)])
    show "volume items (i_Price (items ! ?i)) = ?mx" "volume items (i_Price (items ! ?j)) = ?mx"
      using mem bnd ac(4) idx2(1) by auto
    show "\<bar>imb ?i\<bar> \<le> \<bar>imb k\<bar> \<and> \<bar>imb ?j\<bar> \<le> \<bar>imb k\<bar>
        \<and> (\<bar>imb k\<bar> = \<bar>imb ?i\<bar> \<longrightarrow> ?i \<le> k \<and> k \<le> ?j)"
      if "k < length items" "volume items (i_Price (items ! k)) = ?mx" for k
    proof -
      have "\<bar>imb ?i\<bar> \<le> \<bar>imb k\<bar> \<and> \<bar>imb ?j\<bar> \<le> \<bar>imb k\<bar>"
        using mem ac(4) that by (auto simp: idx2_def)
      moreover have "k \<in> set idx2" if eq: "\<bar>imb k\<bar> = \<bar>imb ?i\<bar>"
        using mem(1) ac(4) \<open>k < length items\<close> \<open>volume items (i_Price (items ! k)) = ?mx\<close> eq
        by (auto simp: idx2_def)
      ultimately show ?thesis using sorted_hd_last [OF idx2(3)] by blast
    qed
  qed (use pr in \<open>simp add: bestPriceFromRefPrice_clamp\<close>)
qed

lemma match_price_total:
  assumes ok: "book_ok items"
  shows "\<exists>bp. periodicAuctionMatchPrice S items prec ref = Some (bp, max_volume items)
     \<and> (if items = [] then bp = 0 else if max_volume items = 0 then bp = ref
        else volume items bp = max_volume items)"
proof -
  obtain b s where pre: "preMatchProcessing items = (b, s)" by force
  have r0: "execRule0 b s = (max_volume items, map (\<lambda>x. volume items (i_Price x)) items)"
    by (simp add: execRule0_def Let_def execution_volume [OF book_ok_desc [OF ok] pre] max_volume_def)
  consider "items = []" | "items \<noteq> []" "max_volume items = 0" | "items \<noteq> []" "max_volume items \<noteq> 0"
    by blast
  then show ?thesis
  proof cases
    case 1
    then show ?thesis
      by (simp add: periodicAuctionMatchPrice_def preMatchProcessing_def max_volume_def)
  next
    case 2
    then have "length b \<noteq> 0" using pre preMatch_length(1) [of items] by auto
    with 2 show ?thesis by (simp add: periodicAuctionMatchPrice_def pre r0)
  next
    case 3
    obtain i j bp where r: "periodicAuctionMatchPrice S items prec ref = Some (bp, max_volume items)"
      "i \<le> j" "j < length items" "volume items (i_Price (items ! i)) = max_volume items"
      "volume items (i_Price (items ! j)) = max_volume items"
      "bp = max (i_Price (items ! j)) (min (i_Price (items ! i))
         (refPriceRule3 S ref prec (b ! i - s ! i) (b ! j - s ! j)))"
      by (rule match_price_levels [OF ok pre 3(2)]) blast
    have "i_Price (items ! j) \<le> i_Price (items ! i)"
      using desc_mono [OF book_ok_desc [OF ok] r(2,3)] .
    then have "i_Price (items ! j) \<le> bp" "bp \<le> i_Price (items ! i)" by (simp_all add: r(6))
    then have "max_volume items \<le> volume items bp"
      using volume_between [OF ok] r(4,5) by simp
    with r(1) 3 max_volume_bounds [OF ok, of bp] show ?thesis by auto
  qed
qed

lemma match_price_pos: "book_ok items \<Longrightarrow>
   periodicAuctionMatchPrice S items prec ref = Some (bp, mx) \<Longrightarrow> 0 \<le> mx"
  using match_price_total [of items S prec ref] max_volume_ge(1) [of items] by auto

subsection \<open>The rules as documented\<close>

text \<open>
  Rules 1 to 3 read declaratively: among the levels of maximal volume the candidates are
  those of minimal absolute imbalance. Demand pressure means that every candidate has positive
  imbalance, and supply pressure that every candidate has negative imbalance.
\<close>

definition imbalance_at :: "depth_book \<Rightarrow> dec \<Rightarrow> dec" where
  "imbalance_at items p = demand_at items p - supply_at items p"

definition full_levels :: "depth_book \<Rightarrow> dec set" where
  "full_levels items = {p \<in> i_Price ` set items. volume items p = max_volume items}"

definition candidates :: "depth_book \<Rightarrow> dec set" where
  "candidates items =
     {p \<in> full_levels items. \<forall>q\<in>full_levels items. \<bar>imbalance_at items p\<bar> \<le> \<bar>imbalance_at items q\<bar>}"

definition pressure_price :: "'b sdk \<Rightarrow> depth_book \<Rightarrow> dec \<Rightarrow> dec" where
  "pressure_price S items refPrice =
     (if \<forall>p\<in>candidates items. 0 < imbalance_at items p then d_mul S refPrice (105 * d_unit S div 100)
      else if \<forall>p\<in>candidates items. imbalance_at items p < 0 then d_mul S refPrice (95 * d_unit S div 100)
      else refPrice)"

lemma match_price_rules:
  assumes ok: "book_ok items" and ne: "max_volume items \<noteq> 0"
  shows "periodicAuctionMatchPrice S items prec ref =
    Some (max (Min (candidates items))
      (min (Max (candidates items)) (d_round S (pressure_price S items ref) prec)), max_volume items)"
proof -
  have d: "desc items" using ok by (rule book_ok_desc)
  obtain b s where pre: "preMatchProcessing items = (b, s)" by force
  let ?pr = "\<lambda>k. i_Price (items ! k)" and ?I = "imbalance_at items"
  have imb: "b ! k - s ! k = ?I (?pr k)" if "k < length items" for k
    using buySum_demand [OF d that] sellSum_supply [OF d that] pre by (simp add: imbalance_at_def)
  have full: "p \<in> full_levels items \<longleftrightarrow> (\<exists>k<length items. p = ?pr k \<and> volume items p = max_volume items)" for p
    unfolding full_levels_def by (fastforce simp: in_set_conv_nth)
  obtain i j bp where r: "periodicAuctionMatchPrice S items prec ref = Some (bp, max_volume items)"
    "i \<le> j" "j < length items" "volume items (?pr i) = max_volume items" "volume items (?pr j) = max_volume items"
    "\<And>k. k < length items \<Longrightarrow> volume items (?pr k) = max_volume items \<Longrightarrow>
       \<bar>b ! i - s ! i\<bar> \<le> \<bar>b ! k - s ! k\<bar> \<and> \<bar>b ! j - s ! j\<bar> \<le> \<bar>b ! k - s ! k\<bar>
       \<and> (\<bar>b ! k - s ! k\<bar> = \<bar>b ! i - s ! i\<bar> \<longrightarrow> i \<le> k \<and> k \<le> j)"
    "bp = max (?pr j) (min (?pr i) (refPriceRule3 S ref prec (b ! i - s ! i) (b ! j - s ! j)))"
    by (rule match_price_levels [OF ok pre ne]) blast
  have C: "?pr i \<in> candidates items" "?pr j \<in> candidates items"
    using r(2-6) imb order.strict_trans1 [OF r(2,3)] by (auto simp: candidates_def full)
  have bnd: "?pr j \<le> p \<and> p \<le> ?pr i \<and> ?I (?pr i) \<le> ?I p \<and> ?I p \<le> ?I (?pr j)"
    if "p \<in> candidates items" for p
  proof -
    have "p \<in> full_levels items" using that by (simp add: candidates_def)
    then obtain k where k: "k < length items" "p = ?pr k \<and> volume items p = max_volume items"
      unfolding full by (elim exE conjE) (rule that; simp)
    then have kv: "volume items (?pr k) = max_volume items" by metis
    have "\<bar>?I p\<bar> \<le> \<bar>?I (?pr i)\<bar>" using that C(1) by (simp add: candidates_def)
    then have "i \<le> k \<and> k \<le> j" using r(2,3) r(6) [OF k(1) kv] k imb by force
    with k r(3) desc_mono [OF d] imbalance_mono [OF ok pre, of i k] imbalance_mono [OF ok pre, of k j] imb
    show ?thesis by simp
  qed
  have fin: "finite (candidates items)" by (simp add: candidates_def full_levels_def)
  have "Min (candidates items) = ?pr j" "Max (candidates items) = ?pr i"
    using C bnd fin by (auto intro!: Min_eqI Max_eqI)
  moreover have "(\<forall>p\<in>candidates items. 0 < ?I p) \<longleftrightarrow> 0 < ?I (?pr i)"
    "(\<forall>p\<in>candidates items. ?I p < 0) \<longleftrightarrow> ?I (?pr j) < 0"
    using C bnd by (meson order_less_le_trans order_le_less_trans)+
  ultimately show ?thesis
    using r(1-3,7) imb by (simp add: refPriceRule3_def pressure_price_def)
qed

subsection \<open>Properties\<close>

text \<open>
  C22. On every well-formed depth book the auction returns (no index is out of range), the
  returned quantity is an upper bound of the volume \<open>min(demand, supply)\<close> executable at any
  price whatsoever, and when it is positive the returned price reaches it.
\<close>

theorem match_price_optimal:
  assumes "book_ok items"
  shows "\<exists>bp mx. periodicAuctionMatchPrice S items prec ref = Some (bp, mx)
     \<and> (\<forall>p. volume items p \<le> mx) \<and> 0 \<le> mx \<and> (mx \<noteq> 0 \<longrightarrow> volume items bp = mx)"
  using match_price_total [OF assms, of S prec ref] max_volume_bounds [OF assms] max_volume_ge(1) [of items]
  by (cases "items = []") (auto simp: max_volume_def)

theorem match_price_optimal_witness:
  "\<exists>bp mx. periodicAuctionMatchPrice
       (undefined::unit sdk) [\<lparr>i_Price = 12, i_BuyQuantity = 5, i_SellQuantity = 0\<rparr>,
         \<lparr>i_Price = 10, i_BuyQuantity = 3, i_SellQuantity = 4\<rparr>] 1 11 = Some (bp, mx)
     \<and> mx = 4 \<and> bp = 12"
  using match_price_optimal [of "[\<lparr>i_Price = 12, i_BuyQuantity = 5, i_SellQuantity = 0\<rparr>,
         \<lparr>i_Price = 10, i_BuyQuantity = 3, i_SellQuantity = 4\<rparr>]" "undefined::unit sdk" 1 11]
  by (simp add: book_ok_def periodicAuctionMatchPrice_def preMatchProcessing_def execRule0_def
      execRule1_def execRule2_def slice_get_def Let_def upt_rec)

text \<open>
  C23. On a well-formed book with a positive executable volume the auction follows the rules its
  documentation states: the price is the last price (plus 5 percent when all candidate levels have
  excess demand, minus 5 percent when all have excess supply), rounded to the precision of the pair and
  clamped to the range of the candidate levels, which are the levels of maximal volume with
  the least absolute imbalance.
\<close>

theorem match_price_documented_rules:
  assumes "book_ok items" and "max_volume items \<noteq> 0"
  shows "periodicAuctionMatchPrice S items prec ref =
    Some (max (Min (candidates items))
      (min (Max (candidates items)) (d_round S (pressure_price S items ref) prec)), max_volume items)"
  by (rule match_price_rules [OF assms])

theorem match_price_documented_rules_witness:
  "\<exists>p. periodicAuctionMatchPrice (undefined::unit sdk)
     [\<lparr>i_Price = 12, i_BuyQuantity = 5, i_SellQuantity = 0\<rparr>,
      \<lparr>i_Price = 10, i_BuyQuantity = 3, i_SellQuantity = 4\<rparr>] 1 11 = Some (p, 4)"
proof -
  let ?b = "[\<lparr>i_Price = 12, i_BuyQuantity = 5, i_SellQuantity = 0\<rparr>,
      \<lparr>i_Price = 10, i_BuyQuantity = 3, i_SellQuantity = 4\<rparr>]"
  have "max_volume ?b = 4" by (simp add: max_volume_def volume_def demand_at_def supply_at_def)
  moreover have "book_ok ?b" by (simp add: book_ok_def)
  ultimately show ?thesis
    using match_price_documented_rules [of ?b "undefined::unit sdk" 1 11] by simp
qed

end
