(* ===== verification/OrderFill.thy ===== *)
theory OrderFill
  imports OrderKeeper MatchPrice
begin

text \<open>
  The execution of a match (\<open>x/order/match/periodicauction/fill.go\<close>): filling one order, the orders
  of a price level, and the buy and the sell side of a depth book. \<open>None\<close> is a panic: a queue
  that ends before the amount is filled, an id without order, a division by zero, an index out of range.

  The lemmas show that on a consistent cache none of these happens, that every side is filled up to the executable
  quantity and never beyond it, and that book, queues and orders stay consistent.
\<close>

subsection \<open>One order\<close>

definition balanceAccount :: "'b sdk \<Rightarrow> order \<Rightarrow> dec \<Rightarrow> dec \<Rightarrow> 'b chain \<Rightarrow> 'b chain option" where
  "balanceAccount S x fillPrice fillQuantity s =
     (case (slice_get (symbols (o_Product x)) 0, slice_get (symbols (o_Product x)) 1) of
        (Some base, Some quote) \<Rightarrow>
          (let (outputCoins, inputCoins) =
                 (if o_Side x = BuyOrder
                  then ([(quote, d_mul S fillPrice fillQuantity)], [(base, fillQuantity)])
                  else ([(base, fillQuantity)], [(quote, d_mul S fillPrice fillQuantity)]))
           in Some (order_BalanceAccount S (o_Sender x) outputCoins inputCoins s))
      | _ \<Rightarrow> None)"

text \<open>What a filled order pays for the blocks it lived; an order that stays open pays nothing yet.\<close>

definition settle_life_fee :: "'b sdk \<Rightarrow> env \<Rightarrow> order \<Rightarrow> 'b chain \<Rightarrow> (coins \<times> order \<times> 'b chain) option" where
  "settle_life_fee S e x s =
     (if o_Status x = OrderStatusFilled
      then (let lockedFee = GetOrderNewFee S x;
                fee = GetOrderCostFee S e x
            in case coins_sub S lockedFee fee of
                 None \<Rightarrow> None
               | Some receiveFee \<Rightarrow>
                   (let s1 = order_UnlockCoins S (o_Sender x) lockedFee LockCoinsTypeFee s;
                        s2 = order_AddFeeDetail S e (o_Sender x) receiveFee FeeTypeOrderReceive s1;
                        s3 = fst (AddCollectedFees S e fee (o_Sender x) FeeTypeOrderNew False s2)
                    in Some (fee, RecordOrderReceiveFee S receiveFee x, s3)))
      else Some (GetZeroFee S, x, s))"

definition chargeFee ::
  "'b sdk \<Rightarrow> env \<Rightarrow> order \<Rightarrow> dec \<Rightarrow> dec \<Rightarrow> 'b chain \<Rightarrow> (order \<times> coins \<times> string \<times> 'b chain) option" where
  "chargeFee S e x fillQuantity tradeFeeRate s =
     (case settle_life_fee S e x s of
        None \<Rightarrow> None
      | Some (fee, x1, s1) \<Rightarrow>
          (case GetDealFee S x1 fillQuantity tradeFeeRate s1 of
             None \<Rightarrow> None
           | Some (dealFee, s2) \<Rightarrow>
               (case SendFeesToProductOwner S e dealFee (o_Sender x1) FeeTypeOrderDeal (o_Product x1) s2 of
                  (Inr feeReceiver, s3) \<Rightarrow> Some (RecordOrderDealFee S fee x1, dealFee, feeReceiver, s3)
                | (Inl er, s3) \<Rightarrow> Some (x1, dealFee, [], s3))))"

definition unlock_rest :: "'b sdk \<Rightarrow> order \<Rightarrow> 'b chain \<Rightarrow> (order \<times> 'b chain) option" where
  "unlock_rest S x s =
     (if o_Status x = OrderStatusFilled \<and> 0 < o_RemainLocked x
      then map_option (\<lambda>cs. (Unlock x, order_UnlockCoins S (o_Sender x) cs LockCoinsTypeQuantity s)) (NeedUnlockCoins x)
      else Some (x, s))"

definition fillOrder ::
  "'b sdk \<Rightarrow> env \<Rightarrow> order \<Rightarrow> dec \<Rightarrow> dec \<Rightarrow> dec \<Rightarrow> 'b chain \<Rightarrow> (deal \<times> 'b chain) option" where
  "fillOrder S e x fillPrice fillQuantity tradeFeeRate s =
     (case Fill S fillPrice fillQuantity x of
        None \<Rightarrow> None
      | Some x1 \<Rightarrow>
          (case balanceAccount S x1 fillPrice fillQuantity s of
             None \<Rightarrow> None
           | Some s1 \<Rightarrow>
               (case unlock_rest S x1 s1 of
                  None \<Rightarrow> None
                | Some (x2, s2) \<Rightarrow>
                    (case chargeFee S e x2 fillQuantity tradeFeeRate s2 of
                       None \<Rightarrow> None
                     | Some (x3, dealFee, feeReceiver, s3) \<Rightarrow>
                         Some (\<lparr>deal_OrderID = o_OrderID x3, deal_Side = o_Side x3, deal_Quantity = fillQuantity,
                                 deal_Fee = c_str S dealFee, deal_FeeReceiver = feeReceiver\<rparr>,
                               UpdateOrder e x3 s3)))))"

subsection \<open>One price level\<close>

text \<open>
  The loop of \<open>fillOrderByKey\<close> over the queue. It returns the deals, the filled amount, the number of
  orders filled completely, the rest of the queue and the state.
\<close>

fun fill_queue ::
  "'b sdk \<Rightarrow> env \<Rightarrow> dec \<Rightarrow> dec \<Rightarrow> dec \<Rightarrow> int \<Rightarrow> string list \<Rightarrow> dec \<Rightarrow> int \<Rightarrow> deal list \<Rightarrow> 'b chain
   \<Rightarrow> (deal list \<times> dec \<times> int \<times> string list \<times> 'b chain) option" where
  "fill_queue S e need price rate remainDeals ids filled cnt deals s =
     (if cnt < remainDeals \<and> filled < need
      then (case ids of
              [] \<Rightarrow> None
            | i # rest \<Rightarrow>
                (case GetOrder s i of
                   None \<Rightarrow> None
                 | Some x \<Rightarrow>
                     if filled + o_RemainQuantity x \<le> need
                     then (case fillOrder S e x price (o_RemainQuantity x) rate s of
                             None \<Rightarrow> None
                           | Some (deal, s') \<Rightarrow>
                               fill_queue S e need price rate remainDeals rest (filled + o_RemainQuantity x)
                                 (cnt + 1) (deals @ [deal]) s')
                     else (case fillOrder S e x price (need - filled) rate s of
                             None \<Rightarrow> None
                           | Some (deal, s') \<Rightarrow> Some (deals @ [deal], need, cnt, i # rest, s'))))
      else Some (deals, filled, cnt, ids, s))"

declare fill_queue.simps [simp del]

definition fillOrderByKey ::
  "'b sdk \<Rightarrow> env \<Rightarrow> ids_key \<Rightarrow> dec \<Rightarrow> dec \<Rightarrow> dec \<Rightarrow> int \<Rightarrow> 'b chain \<Rightarrow> (deal list \<times> dec \<times> int \<times> 'b chain) option" where
  "fillOrderByKey S e key needFillAmount fillPrice rate remainDeals s =
     (case map_of (GetOrderIDsMapCopy (dcache s)) key of
        None \<Rightarrow> Some ([], 0, 0, s)
      | Some orderIDs \<Rightarrow>
          (case fill_queue S e needFillAmount fillPrice rate remainDeals orderIDs 0 0 [] s of
             None \<Rightarrow> None
           | Some (deals, filledAmount, filledDealsCnt, unFilledOrderIDs, s') \<Rightarrow>
               Some (deals, filledAmount, filledDealsCnt, SetOrderIDs key unFilledOrderIDs s')))"

subsection \<open>The two sides of a book\<close>

lemma length_Sub: "Sub index q side book = Some book' \<Longrightarrow> length book' = length book"
  by (auto simp: Sub_def split: if_splits)

lemma length_RemoveIfEmpty:
  "RemoveIfEmpty index book = Some (book', res) \<Longrightarrow>
     index < length book \<and> length book' = (if res then length book - 1 else length book)"
  by (auto simp: RemoveIfEmpty_def Let_def remove_nth_def split: if_splits)

function fill_buy_levels ::
  "'b sdk \<Rightarrow> env \<Rightarrow> string \<Rightarrow> dec \<Rightarrow> dec \<Rightarrow> dec \<Rightarrow> nat \<Rightarrow> depth_book \<Rightarrow> dec \<Rightarrow> int \<Rightarrow> deal list \<Rightarrow> 'b chain
   \<Rightarrow> (deal list \<times> int \<times> dec \<times> depth_book \<times> 'b chain) option" where
  "fill_buy_levels S e product bestPrice maxExecution rate index book buyExecuted remain deals s =
     (if index < length book
      then
        (if \<not> (bestPrice \<le> i_Price (book ! index) \<and> buyExecuted < maxExecution)
         then Some (deals, remain, buyExecuted, book, s)
         else
           (let fillAmount = min (i_BuyQuantity (book ! index)) (maxExecution - buyExecuted)
            in if fillAmount = 0
               then fill_buy_levels S e product bestPrice maxExecution rate (index + 1) book buyExecuted remain deals s
               else
                 (case fillOrderByKey S e (FormatOrderIDsKey product (i_Price (book ! index)) BuyOrder)
                         fillAmount bestPrice rate remain s of
                    None \<Rightarrow> None
                  | Some (filledDeals, filledAmount, filledCnt, s') \<Rightarrow>
                      (case Sub index filledAmount BuyOrder book of
                         None \<Rightarrow> None
                       | Some book1 \<Rightarrow>
                           (case RemoveIfEmpty index book1 of
                              None \<Rightarrow> None
                            | Some (book2, res) \<Rightarrow>
                                if remain - filledCnt \<le> 0
                                then Some (deals @ filledDeals, remain - filledCnt, buyExecuted + filledAmount, book2, s')
                                else fill_buy_levels S e product bestPrice maxExecution rate
                                       (if res then index else index + 1) book2 (buyExecuted + filledAmount)
                                       (remain - filledCnt) (deals @ filledDeals) s')))))
      else Some (deals, remain, buyExecuted, book, s))"
  by pat_completeness auto

termination
  by (relation "measure (\<lambda>(S, e, p, bp, mx, r, index, book, rest). length book - index)")
    (auto dest!: length_Sub length_RemoveIfEmpty)

declare fill_buy_levels.simps [simp del]

definition fillBuyOrders ::
  "'b sdk \<Rightarrow> env \<Rightarrow> string \<Rightarrow> dec \<Rightarrow> dec \<Rightarrow> dec \<Rightarrow> int \<Rightarrow> dec \<Rightarrow> 'b chain \<Rightarrow> (deal list \<times> int \<times> dec \<times> 'b chain) option" where
  "fillBuyOrders S e product bestPrice maxExecution buyExecuted remain rate s =
     (case fill_buy_levels S e product bestPrice maxExecution rate 0 (GetDepthBookCopy s product) buyExecuted remain [] s of
        None \<Rightarrow> None
      | Some (deals, remain', executed, book, s') \<Rightarrow> Some (deals, remain', executed, SetDepthBook product book s'))"

text \<open>The sell side walks the levels from the last one up; \<open>n\<close> is the index plus one.\<close>

fun fill_sell_levels ::
  "'b sdk \<Rightarrow> env \<Rightarrow> string \<Rightarrow> dec \<Rightarrow> dec \<Rightarrow> dec \<Rightarrow> nat \<Rightarrow> depth_book \<Rightarrow> dec \<Rightarrow> int \<Rightarrow> deal list \<Rightarrow> 'b chain
   \<Rightarrow> (deal list \<times> int \<times> dec \<times> depth_book \<times> 'b chain) option" where
  "fill_sell_levels S e product bestPrice maxExecution rate 0 book sellExecuted remain deals s =
     Some (deals, remain, sellExecuted, book, s)"
| "fill_sell_levels S e product bestPrice maxExecution rate (Suc index) book sellExecuted remain deals s =
     (if \<not> (index < length book) then None
      else if \<not> (i_Price (book ! index) \<le> bestPrice \<and> sellExecuted < maxExecution)
      then Some (deals, remain, sellExecuted, book, s)
      else
        (let fillAmount = min (i_SellQuantity (book ! index)) (maxExecution - sellExecuted)
         in if fillAmount = 0
            then fill_sell_levels S e product bestPrice maxExecution rate index book sellExecuted remain deals s
            else
              (case fillOrderByKey S e (FormatOrderIDsKey product (i_Price (book ! index)) SellOrder)
                      fillAmount bestPrice rate remain s of
                 None \<Rightarrow> None
               | Some (filledDeals, filledAmount, filledCnt, s') \<Rightarrow>
                   (case Sub index filledAmount SellOrder book of
                      None \<Rightarrow> None
                    | Some book1 \<Rightarrow>
                        (case RemoveIfEmpty index book1 of
                           None \<Rightarrow> None
                         | Some (book2, res) \<Rightarrow>
                             if remain - filledCnt \<le> 0
                             then Some (deals @ filledDeals, remain - filledCnt, sellExecuted + filledAmount, book2, s')
                             else fill_sell_levels S e product bestPrice maxExecution rate index book2
                                    (sellExecuted + filledAmount) (remain - filledCnt) (deals @ filledDeals) s')))))"

definition fillSellOrders ::
  "'b sdk \<Rightarrow> env \<Rightarrow> string \<Rightarrow> dec \<Rightarrow> dec \<Rightarrow> dec \<Rightarrow> int \<Rightarrow> dec \<Rightarrow> 'b chain \<Rightarrow> (deal list \<times> int \<times> dec \<times> 'b chain) option" where
  "fillSellOrders S e product bestPrice maxExecution sellExecuted remain rate s =
     (case fill_sell_levels S e product bestPrice maxExecution rate (length (GetDepthBookCopy s product))
             (GetDepthBookCopy s product) sellExecuted remain [] s of
        None \<Rightarrow> None
      | Some (deals, remain', executed, book, s') \<Rightarrow> Some (deals, remain', executed, SetDepthBook product book s'))"

text \<open>The result: deals, remaining budget, executed quantities of both sides, state.\<close>

definition fillDepthBook ::
  "'b sdk \<Rightarrow> env \<Rightarrow> string \<Rightarrow> dec \<Rightarrow> dec \<Rightarrow> dec \<Rightarrow> dec \<Rightarrow> int \<Rightarrow> dec \<Rightarrow> 'b chain
   \<Rightarrow> (deal list \<times> int \<times> dec \<times> dec \<times> 'b chain) option" where
  "fillDepthBook S e product bestPrice maxExecution buyExecuted sellExecuted remain rate s =
     (if maxExecution = 0 then Some ([], remain, buyExecuted, sellExecuted, s)
      else
        (case fillBuyOrders S e product bestPrice maxExecution buyExecuted remain rate s of
           None \<Rightarrow> None
         | Some (buyDeals, remain1, buyExecuted', s1) \<Rightarrow>
             if remain1 \<le> 0 then Some (buyDeals, remain1, buyExecuted', sellExecuted, s1)
             else
               (case fillSellOrders S e product bestPrice maxExecution sellExecuted remain1 rate s1 of
                  None \<Rightarrow> None
                | Some (sellDeals, remain2, sellExecuted', s2) \<Rightarrow>
                    Some (buyDeals @ sellDeals, remain2, buyExecuted', sellExecuted', s2))))"

subsection \<open>Filling one order\<close>

definition order_wf :: "order \<Rightarrow> bool" where
  "order_wf x \<longleftrightarrow> o_RemainQuantity x \<le> o_Quantity x \<and> order_fees_ok x \<and> 2 \<le> length (symbols (o_Product x))"

text \<open>
  The ids reported as closed in this block or waiting to be dropped from the last one. None of them
  is an open order, and every open order is in its queue.
\<close>

definition closed_ids :: "'b chain \<Rightarrow> string set" where
  "closed_ids s = set (dk_closed (dcache s)) \<union> set (GetLastClosedOrderIDs s)"

definition is_done :: "(string \<Rightarrow> order option) \<Rightarrow> string \<Rightarrow> bool" where
  "is_done look i \<longleftrightarrow> (case look i of None \<Rightarrow> True | Some x \<Rightarrow> o_Status x \<noteq> OrderStatusOpen)"

definition closed_ok :: "'b chain \<Rightarrow> bool" where
  "closed_ok s \<longleftrightarrow> (\<forall>i\<in>closed_ids s. is_done (GetOrder s) i)"

definition open_queued :: "'b chain \<Rightarrow> bool" where
  "open_queued s \<longleftrightarrow> (\<forall>i x. GetOrder s i = Some x \<longrightarrow> o_Status x = OrderStatusOpen \<longrightarrow> i \<in> set (getOrderIDs (dcache s) (key_of x)))"

text \<open>A step that leaves the stored orders, the books, the queues and the closed ids alone.\<close>

definition keeps_orders :: "'b chain \<Rightarrow> 'b chain \<Rightarrow> bool" where
  "keeps_orders s s' \<longleftrightarrow> GetOrder s' = GetOrder s \<and> dk_books (dcache s') = dk_books (dcache s)
     \<and> dk_ids (dcache s') = dk_ids (dcache s) \<and> closed_ids s' = closed_ids s
     \<and> os_orders (ord s') = os_orders (ord s)"

text \<open>The heights, counters, pairs, locks and parameters stay as they are.\<close>

definition same_book_keeping :: "'b chain \<Rightarrow> 'b chain \<Rightarrow> bool" where
  "same_book_keeping s s' \<longleftrightarrow> dex s' = dex s \<and> ordP s' = ordP s \<and> os_expire (ord s') = os_expire (ord s)
     \<and> os_lastExpired (ord s') = os_lastExpired (ord s) \<and> os_orderNum (ord s') = os_orderNum (ord s)"

lemma same_book_keeping_refl [simp]: "same_book_keeping s s"
  by (simp add: same_book_keeping_def)

lemma same_book_keeping_trans: "same_book_keeping s s' \<Longrightarrow> same_book_keeping s' s'' \<Longrightarrow> same_book_keeping s s''"
  by (simp add: same_book_keeping_def)

definition same_orders :: "'b chain \<Rightarrow> 'b chain \<Rightarrow> bool" where
  "same_orders s s' \<longleftrightarrow> keeps_orders s s' \<and> same_book_keeping s s'"

lemma same_orders_refl [simp]: "same_orders s s"
  by (simp add: same_orders_def keeps_orders_def)

lemma same_orders_trans: "same_orders s s' \<Longrightarrow> same_orders s' s'' \<Longrightarrow> same_orders s s''"
  by (auto simp: same_orders_def keeps_orders_def intro: same_book_keeping_trans)

lemma coins_only_same_orders: "coins_only s s' \<Longrightarrow> same_orders s s'"
  using coins_onlyD [of s s'] by (auto simp: same_book_keeping_def same_orders_def keeps_orders_def coins_only_orders closed_ids_def GetLastClosedOrderIDs_def)

lemma same_orders_GetLastPrice: "same_orders s (snd (GetLastPrice product s))"
  by (auto simp: GetLastPrice_def Let_def same_book_keeping_def same_orders_def keeps_orders_def SetLastPrice_def dk_setLastPrice_def GetOrder_def fun_eq_iff
      closed_ids_def GetLastClosedOrderIDs_def split: option.splits)

definition same_order :: "order \<Rightarrow> order \<Rightarrow> bool" where
  "same_order x y \<longleftrightarrow> y = x\<lparr>o_RemainLocked := o_RemainLocked y, o_ExtraInfo := o_ExtraInfo y\<rparr>"

lemma same_order_refl [simp]: "same_order x x"
  by (simp add: same_order_def)

lemma same_order_trans: "same_order x y \<Longrightarrow> same_order y z \<Longrightarrow> same_order x z"
  unfolding same_order_def by (cases x; cases y; cases z) simp

lemma same_orderD:
  assumes "same_order x y"
  shows "o_OrderID y = o_OrderID x" and "key_of y = key_of x" and "o_RemainQuantity y = o_RemainQuantity x"
    and "o_Status y = o_Status x" and "order_wf y = order_wf x" and "o_Sender y = o_Sender x" and "o_Product y = o_Product x"
    and "o_Side y = o_Side x" and "order_fees_ok y = order_fees_ok x"
proof -
  have y: "y = x\<lparr>o_RemainLocked := o_RemainLocked y, o_ExtraInfo := o_ExtraInfo y\<rparr>" using assms by (simp add: same_order_def)
  show "o_OrderID y = o_OrderID x" "key_of y = key_of x" "o_RemainQuantity y = o_RemainQuantity x"
    "o_Status y = o_Status x" "order_wf y = order_wf x" "o_Sender y = o_Sender x" "o_Product y = o_Product x" "o_Side y = o_Side x"
    "order_fees_ok y = order_fees_ok x"
    by (subst y, simp add: order_wf_def order_fees_ok_def)+
qed

lemma same_order_ops [simp]:
  "same_order x (Unlock x)" "same_order x (setExtraInfoWithKeyValue k v x)" "same_order x (RecordOrderReceiveFee S cs x)"
  "same_order x (RecordOrderDealFee S cs x)"
  by (simp_all add: same_order_def Unlock_def setExtraInfoWithKeyValue_def RecordOrderReceiveFee_def RecordOrderDealFee_def
      Let_def split: option.splits)

lemma settle_life_fee_ok:
  assumes "sdk_laws S" and "order_fees_ok x"
  obtains fee y t where "settle_life_fee S e x s = Some (fee, y, t)" and "same_order x y" and "coins_only s t"
proof (cases "o_Status x = OrderStatusFilled")
  case True
  obtain r where r: "coins_sub S (GetOrderNewFee S x) (GetOrderCostFee S e x) = Some r"
    using fee_sub_total [OF assms] by blast
  define s1 where "s1 = order_UnlockCoins S (o_Sender x) (GetOrderNewFee S x) LockCoinsTypeFee s"
  define s2 where "s2 = order_AddFeeDetail S e (o_Sender x) r FeeTypeOrderReceive s1"
  define s3 where "s3 = fst (AddCollectedFees S e (GetOrderCostFee S e x) (o_Sender x) FeeTypeOrderNew False s2)"
  have "coins_only s s1" "coins_only s1 s2" "coins_only s2 s3" by (simp_all add: s1_def s2_def s3_def)
  then have "coins_only s s3" by (blast intro: coins_only_trans)
  moreover have "settle_life_fee S e x s = Some (GetOrderCostFee S e x, RecordOrderReceiveFee S r x, s3)"
    using True r by (simp add: settle_life_fee_def Let_def s1_def s2_def s3_def)
  ultimately show thesis using that by simp
qed (use that in \<open>simp add: settle_life_fee_def\<close>)

lemma GetDealFee_ok:
  assumes "2 \<le> length (symbols (o_Product x))"
  obtains cs t where "GetDealFee S x q rate s = Some (cs, t)" and "same_orders s t"
proof -
  have "slice_get (symbols (o_Product x)) 0 \<noteq> None" "slice_get (symbols (o_Product x)) 1 \<noteq> None"
    using assms by (auto simp: slice_get_def)
  then show thesis
    using that same_orders_GetLastPrice [of s "o_Product x"]
    by (cases "GetLastPrice (o_Product x) s"; cases "o_Side x = SellOrder") (auto simp: GetDealFee_def Let_def)
qed

lemma same_orders_SendFees: "same_orders s (snd (SendFeesToProductOwner S e cs a f p s))"
proof -
  have "coins_only s (fst (SendCoinsFromAccountToAccount S e (AddFeeDetail S e a cs f [] s) a d cs))" for d
    using coins_only_trans [OF coins_only_upd(3) coins_only_upd(1)]
    by (auto simp: SendCoinsFromAccountToAccount_def split: sum.splits)
  then show ?thesis
    by (auto simp: SendFeesToProductOwner_def intro!: coins_only_same_orders split: sum.splits prod.splits option.splits)
      (metis fst_conv)+
qed

lemma chargeFee_ok:
  assumes S: "sdk_laws S" and wf: "order_wf x"
  obtains y fee recv t where "chargeFee S e x q rate s = Some (y, fee, recv, t)" and "same_order x y" and "same_orders s t"
proof -
  have f: "order_fees_ok x" "2 \<le> length (symbols (o_Product x))" using wf by (simp_all add: order_wf_def)
  obtain lf x1 s1 where 1: "settle_life_fee S e x s = Some (lf, x1, s1)" "same_order x x1" "coins_only s s1"
    by (rule settle_life_fee_ok [OF S f(1)])
  have "2 \<le> length (symbols (o_Product x1))" using f(2) same_orderD(7) [OF 1(2)] by simp
  then obtain cs s2 where 2: "GetDealFee S x1 q rate s1 = Some (cs, s2)" "same_orders s1 s2" by (rule GetDealFee_ok)
  obtain r s3 where 3: "SendFeesToProductOwner S e cs (o_Sender x1) FeeTypeOrderDeal (o_Product x1) s2 = (r, s3)" by force
  have "same_orders s2 s3" using same_orders_SendFees [of s2 S e cs "o_Sender x1" FeeTypeOrderDeal "o_Product x1"] 3 by simp
  with 1(3) 2(2) have t: "same_orders s s3" by (blast intro: same_orders_trans coins_only_same_orders)
  show thesis
  proof (cases r)
    case (Inl er)
    with 1 2 3 t that show ?thesis by (simp add: chargeFee_def)
  next
    case (Inr recv)
    have "same_order x (RecordOrderDealFee S lf x1)" by (rule same_order_trans [OF 1(2)]) simp
    with Inr 1 2 3 t that [of "RecordOrderDealFee S lf x1"] show ?thesis by (simp add: chargeFee_def)
  qed
qed

lemma fillOrder_ok:
  assumes S: "sdk_laws S" and wf: "order_wf x" and q: "0 < q" "q \<le> o_RemainQuantity x"
  obtains deal y t where "fillOrder S e x price q rate s = Some (deal, UpdateOrder e y t)" and "same_orders s t"
    and "o_OrderID y = o_OrderID x" and "key_of y = key_of x" and "o_RemainQuantity y = o_RemainQuantity x - q"
    and "order_wf y" and "o_Status y = (if q = o_RemainQuantity x then OrderStatusFilled else o_Status x)"
    and "deal_Quantity deal = q" and "deal_OrderID deal = o_OrderID x"
proof -
  obtain x1 where fill: "Fill S price q x = Some x1"
    using wf q by (auto simp: Fill_def Let_def order_wf_def)
  have x1: "o_OrderID x1 = o_OrderID x" "key_of x1 = key_of x" "o_RemainQuantity x1 = o_RemainQuantity x - q"
    "order_wf x1" "o_Status x1 = (if q = o_RemainQuantity x then OrderStatusFilled else o_Status x)"
    using fill wf q by (auto simp: Fill_def Let_def order_wf_def order_fees_ok_def split: if_splits)
  have sym: "slice_get (symbols (o_Product x1)) 0 \<noteq> None" "slice_get (symbols (o_Product x1)) 1 \<noteq> None"
    using x1(4) by (auto simp: order_wf_def slice_get_def)
  obtain s1 where s1: "balanceAccount S x1 price q s = Some s1" "coins_only s s1"
    using sym by (cases "o_Side x1 = BuyOrder") (auto simp: balanceAccount_def Let_def)
  obtain x2 s2 where s2: "unlock_rest S x1 s1 = Some (x2, s2)" "same_order x1 x2" "coins_only s1 s2"
  proof (cases "o_Status x1 = OrderStatusFilled \<and> 0 < o_RemainLocked x1")
    case True
    have "NeedUnlockCoins x1 \<noteq> None" using sym by (simp add: NeedUnlockCoins_def)
    with True that show ?thesis by (auto simp: unlock_rest_def)
  qed (use that in \<open>auto simp: unlock_rest_def\<close>)
  have "order_wf x2" using same_orderD(5) [OF s2(2)] x1(4) by simp
  then obtain x3 fee recv s3 where s3: "chargeFee S e x2 q rate s2 = Some (x3, fee, recv, s3)" "same_order x2 x3" "same_orders s2 s3"
    by (rule chargeFee_ok [OF S])
  have "same_orders s s3" using s1(2) s2(3) s3(3) by (blast intro: same_orders_trans coins_only_same_orders)
  moreover note same_orderD [OF same_order_trans [OF s2(2) s3(2)]]
  ultimately show thesis
    using that [of _ x3 s3] fill s1(1) s2(1) s3(1) x1 by (simp add: fillOrder_def)
qed

subsection \<open>Filling a queue\<close>

definition orders_wf :: "'b chain \<Rightarrow> bool" where
  "orders_wf s \<longleftrightarrow> kv_ok (os_orders (ord s)) \<and> (\<forall>i x. GetOrder s i = Some x \<longrightarrow> order_wf x \<and> o_OrderID x = i)"

definition deals_sum :: "deal list \<Rightarrow> dec" where
  "deals_sum deals = sum_list (map deal_Quantity deals)"

lemma deals_sum_simps [simp]: "deals_sum [] = 0" "deals_sum (ds @ ds') = deals_sum ds + deals_sum ds'"
  "deals_sum [d] = deal_Quantity d"
  by (simp_all add: deals_sum_def)

text \<open>Filling adds and drops no orders and reports only stored orders as closed.\<close>

definition fill_frame :: "'b chain \<Rightarrow> 'b chain \<Rightarrow> bool" where
  "fill_frame s s' \<longleftrightarrow> same_book_keeping s s' \<and> dom (GetOrder s') = dom (GetOrder s)
     \<and> closed_ids s' \<subseteq> closed_ids s \<union> dom (GetOrder s)"

lemma fill_frame_refl [simp]: "fill_frame s s"
  by (simp add: fill_frame_def)

lemma fill_frame_trans: "fill_frame s s' \<Longrightarrow> fill_frame s' s'' \<Longrightarrow> fill_frame s s''"
  unfolding fill_frame_def by (auto intro: same_book_keeping_trans)

text \<open>What filling a queue guarantees, from the state before to the results.\<close>

definition queue_filled ::
  "dec \<Rightarrow> int \<Rightarrow> ids_key \<Rightarrow> string list \<Rightarrow> dec \<Rightarrow> int \<Rightarrow> deal list \<Rightarrow> 'b chain
   \<Rightarrow> deal list \<times> dec \<times> int \<times> string list \<times> 'b chain \<Rightarrow> bool" where
  "queue_filled need D k ids filled cnt deals s r \<longleftrightarrow>
     (case r of (deals', filled', cnt', rest, s') \<Rightarrow>
        suffix rest ids \<and> (\<forall>i\<in>set rest. queued (GetOrder s') k i)
        \<and> (\<forall>i\<in>set ids. i \<notin> set rest \<longrightarrow> is_done (GetOrder s') i) \<and> (closed_ok s \<longrightarrow> closed_ok s') \<and> fill_frame s s'
        \<and> (\<forall>i. i \<notin> set ids \<longrightarrow> GetOrder s' i = GetOrder s i) \<and> orders_wf s'
        \<and> dk_books (dcache s') = dk_books (dcache s) \<and> dk_ids (dcache s') = dk_ids (dcache s)
        \<and> filled' = filled + queue_sum (GetOrder s) ids - queue_sum (GetOrder s') rest
        \<and> deals_sum deals' = deals_sum deals + filled' - filled
        \<and> filled \<le> filled' \<and> filled' \<le> need \<and> cnt \<le> cnt' \<and> (cnt \<le> D \<longrightarrow> cnt' \<le> D)
        \<and> (filled' = need \<or> D \<le> cnt'))"

lemma orders_wf_upd:
  "orders_wf s \<Longrightarrow> os_orders (ord s') = kv_set i y (os_orders (ord s)) \<Longrightarrow> order_wf y \<Longrightarrow> o_OrderID y = i \<Longrightarrow> orders_wf s'"
  by (auto simp: orders_wf_def GetOrder_def kv_ok_set split: if_splits)

lemma UpdateOrder_stores [simp]: "dk_books (dcache (UpdateOrder e x s)) = dk_books (dcache s)"
  "dk_ids (dcache (UpdateOrder e x s)) = dk_ids (dcache s)"
  "os_orders (ord (UpdateOrder e x s)) = kv_set (o_OrderID x) x (os_orders (ord s))"
  "closed_ids (UpdateOrder e x s) = (if o_Status x = OrderStatusFilled then insert (o_OrderID x) (closed_ids s) else closed_ids s)"
  by (auto simp: UpdateOrder_def addUpdatedOrderID_def Let_def SetOrder_def closed_ids_def closeOrder_def GetLastClosedOrderIDs_def)

lemma closed_ok_UpdateOrder:
  assumes "same_orders s t" and "GetOrder s (o_OrderID y) = Some x" and "o_Status y = OrderStatusFilled \<or> o_Status y = o_Status x"
    and "closed_ok s"
  shows "closed_ok (UpdateOrder e y t)"
  using assms by (auto simp: closed_ok_def is_done_def same_orders_def keeps_orders_def split: option.splits)

lemma fill_frame_UpdateOrder:
  assumes "same_orders s t" and "GetOrder s (o_OrderID y) = Some x"
  shows "fill_frame s (UpdateOrder e y t)"
proof -
  have "same_book_keeping t (UpdateOrder e y t)"
    by (simp add: same_book_keeping_def UpdateOrder_def addUpdatedOrderID_def Let_def SetOrder_def)
  then show ?thesis
    using assms by (auto simp: fill_frame_def same_orders_def keeps_orders_def intro: same_book_keeping_trans)
qed

lemma fill_queue_ok:
  assumes "sdk_laws S" and "orders_wf s" and "distinct ids" and "\<forall>i\<in>set ids. queued (GetOrder s) k i"
    and "need - filled \<le> queue_sum (GetOrder s) ids" and "filled \<le> need"
  shows "\<exists>r. fill_queue S e need price rate D ids filled cnt deals s = Some r
    \<and> queue_filled need D k ids filled cnt deals s r"
  using assms
proof (induction ids arbitrary: filled cnt deals s)
  case Nil
  then show ?case by (simp add: fill_queue.simps queue_filled_def)
next
  case (Cons i ids)
  let ?look = "GetOrder s"
  show ?case
  proof (cases "cnt < D \<and> filled < need")
    case False
    with Cons.prems show ?thesis by (auto simp: fill_queue.simps queue_filled_def)
  next
    case go: True
    obtain x where x: "?look i = Some x" "o_OrderID x = i" "key_of x = k" "o_Status x = OrderStatusOpen" "order_live x"
      using Cons.prems(4) by (auto elim: queuedE)
    have wf: "order_wf x" using Cons.prems(2) x(1) by (simp add: orders_wf_def)
    have pos: "0 < o_RemainQuantity x" using x(5) by (simp add: order_live_def)
    have rem: "remain_of ?look i = o_RemainQuantity x" using x(1) by (simp add: remain_of_def)
    have ni: "i \<notin> set ids" using Cons.prems(3) by simp
    show ?thesis
    proof (cases "filled + o_RemainQuantity x \<le> need")
      case full: True
      obtain deal y t where f: "fillOrder S e x price (o_RemainQuantity x) rate s = Some (deal, UpdateOrder e y t)"
        "same_orders s t" "o_OrderID y = o_OrderID x" "order_wf y" "deal_Quantity deal = o_RemainQuantity x"
        "o_Status y = (if o_RemainQuantity x = o_RemainQuantity x then OrderStatusFilled else o_Status x)"
        by (rule fillOrder_ok [OF Cons.prems(1) wf pos order_refl])
      define u where "u = UpdateOrder e y t"
      note f1 = f(1) [folded u_def]
      have fr: "fill_frame s u" using fill_frame_UpdateOrder [OF f(2), of y x e] f(3) x(1,2) by (simp add: u_def)
      have cl: "closed_ok s \<longrightarrow> closed_ok u"
        using closed_ok_UpdateOrder [OF f(2), of y x e] f(3,6) x(1,2) by (simp add: u_def)
      have d: "dk_books (dcache u) = dk_books (dcache s)" "dk_ids (dcache u) = dk_ids (dcache s)"
        using f(2) by (simp_all add: u_def same_orders_def keeps_orders_def)
      have g: "GetOrder u = ?look(i \<mapsto> y)" using f(2,3) x(2) by (simp add: u_def same_orders_def keeps_orders_def)
      have gs: "os_orders (ord u) = kv_set i y (os_orders (ord s))" using f(2,3) x(2) by (simp add: u_def same_orders_def keeps_orders_def)
      have q: "\<forall>j\<in>set ids. queued (GetOrder u) k j"
        unfolding g using Cons.prems(4) ni by (metis list.set_intros(2) queued_other)
      have sum: "queue_sum (GetOrder u) ids = queue_sum ?look ids"
        unfolding g by (rule queue_sum_other [OF ni])
      have "\<exists>r. fill_queue S e need price rate D ids (filled + o_RemainQuantity x) (cnt + 1) (deals @ [deal]) u = Some r
        \<and> queue_filled need D k ids (filled + o_RemainQuantity x) (cnt + 1) (deals @ [deal]) u r"
        using Cons.IH [of u "filled + o_RemainQuantity x" "cnt + 1" "deals @ [deal]"] Cons.prems(1,3,5) full q sum rem
          orders_wf_upd [OF Cons.prems(2) gs f(4)] f(3) x(2) by simp
      then obtain r where r: "fill_queue S e need price rate D ids (filled + o_RemainQuantity x) (cnt + 1) (deals @ [deal]) u = Some r"
        "queue_filled need D k ids (filled + o_RemainQuantity x) (cnt + 1) (deals @ [deal]) u r" by blast
      have "fill_queue S e need price rate D (i # ids) filled cnt deals s = Some r"
        using go full x(1) f1 r(1) by (subst fill_queue.simps) simp
      moreover have done_i: "is_done (GetOrder s') i" if "\<And>j. j \<notin> set ids \<Longrightarrow> GetOrder s' j = GetOrder u j" for s' :: "'a chain"
        using that [OF ni] f(6) by (simp add: g is_done_def)
      have "queue_filled need D k (i # ids) filled cnt deals s r"
        using r(2) go sum rem pos f(5) g d ni cl done_i fr by (auto simp: queue_filled_def suffix_ConsI intro: fill_frame_trans split: prod.splits)
      ultimately show ?thesis by blast
    next
      case part: False
      let ?q = "need - filled"
      have "0 < ?q" "?q \<le> o_RemainQuantity x" using go part by auto
      then obtain deal y t where f: "fillOrder S e x price ?q rate s = Some (deal, UpdateOrder e y t)"
        "same_orders s t" "o_OrderID y = o_OrderID x" "key_of y = key_of x" "o_RemainQuantity y = o_RemainQuantity x - ?q"
        "order_wf y" "o_Status y = (if ?q = o_RemainQuantity x then OrderStatusFilled else o_Status x)" "deal_Quantity deal = ?q"
        by (rule fillOrder_ok [OF Cons.prems(1) wf])
      define u where "u = UpdateOrder e y t"
      note f1 = f(1) [folded u_def]
      have d: "dk_books (dcache u) = dk_books (dcache s)" "dk_ids (dcache u) = dk_ids (dcache s)"
        using f(2) by (simp_all add: u_def same_orders_def keeps_orders_def)
      have g: "GetOrder u = ?look(i \<mapsto> y)" using f(2,3) x(2) by (simp add: u_def same_orders_def keeps_orders_def)
      have gs: "os_orders (ord u) = kv_set i y (os_orders (ord s))" using f(2,3) x(2) by (simp add: u_def same_orders_def keeps_orders_def)
      have fr: "fill_frame s u" using fill_frame_UpdateOrder [OF f(2), of y x e] f(3) x(1,2) by (simp add: u_def)
      have cl: "closed_ok s \<longrightarrow> closed_ok u"
        using closed_ok_UpdateOrder [OF f(2), of y x e] f(3,7) x(1,2) by (simp add: u_def)
      have y: "queued (GetOrder u) k i"
        unfolding g using f(3-5,7) x part by (auto simp: queued_def order_live_def)
      have q: "\<forall>j\<in>set ids. queued (GetOrder u) k j"
        unfolding g using Cons.prems(4) ni by (metis list.set_intros(2) queued_other)
      have sum: "queue_sum (GetOrder u) ids = queue_sum ?look ids"
        unfolding g by (rule queue_sum_other [OF ni])
      have "remain_of (GetOrder u) i = o_RemainQuantity x - ?q" unfolding g using f(5) by (simp add: remain_of_def)
      then have "queue_filled need D k (i # ids) filled cnt deals s (deals @ [deal], need, cnt, i # ids, u)"
        using y q sum rem go f(3,8) x(2) g d cl fr orders_wf_upd [OF Cons.prems(2) gs f(6)] by (auto simp: queue_filled_def)
      moreover have "fill_queue S e need price rate D (i # ids) filled cnt deals s = Some (deals @ [deal], need, cnt, i # ids, u)"
        using go part x(1) f1 by (subst fill_queue.simps) simp
      ultimately show ?thesis by blast
    qed
  qed
qed

subsection \<open>Filling a price level\<close>

lemma cache_ok_ext:
  "cache_ok look c \<Longrightarrow> stores_ok c' \<Longrightarrow> book_of c' = book_of c \<Longrightarrow> getOrderIDs c' = getOrderIDs c \<Longrightarrow> cache_ok look c'"
  by (simp add: cache_ok_def)

lemma stores_cong:
  assumes "dk_books c = dk_books c'" and "dk_ids c = dk_ids c'"
  shows "stores_ok c = stores_ok c'" and "book_of c = book_of c'" and "getOrderIDs c = getOrderIDs c'"
  using assms by (auto simp: stores_ok_def book_of_def getOrderIDs_def fun_eq_iff)

text \<open>
  Consuming the front of a queue and the same amount of its level keeps the cache
  consistent.
\<close>

lemma cache_ok_fill:
  assumes ok: "cache_ok look c" and ids: "getOrderIDs c (p, k) = ids" "suffix rest ids"
    and other: "\<And>i. i \<notin> set ids \<Longrightarrow> look' i = look i" and rest: "\<forall>i\<in>set rest. queued look' (p, k) i"
    and b: "book_ok b" "\<And>k'. book_qty b k' = book_qty (book_of c p) k'
       - (if k' = k then queue_sum look ids - queue_sum look' rest else 0)"
  shows "cache_ok look' (setDepthBook p b (setOrderIDs (p, k) rest c))"
  unfolding cache_ok_def
proof (intro conjI allI ballI)
  let ?c = "setDepthBook p b (setOrderIDs (p, k) rest c)"
  note D = cache_okD [OF ok]
  have disj: "i \<notin> set ids" if "i \<in> set (getOrderIDs c k')" "k' \<noteq> (p, k)" for i k'
    using D(4) [OF that(1)] D(4) [of i "(p, k)"] ids(1) that(2) queued_unique by metis
  have same: "queued look' k' i = queued look k' i" if "i \<notin> set ids" for k' i
    using other [OF that] by (simp add: queued_def)
  have sum: "queue_sum look' (getOrderIDs c k') = queue_sum look (getOrderIDs c k')" if "k' \<noteq> (p, k)" for k'
    using disj [OF _ that] other by (auto simp: queue_sum_def remain_of_def intro!: arg_cong [of _ _ sum_list])
  show "stores_ok ?c" using D(1) by simp
  show "book_ok (book_of ?c q)" for q using D(2) b(1) by simp
  show "distinct (getOrderIDs ?c k')" for k'
    using D(3) [of k'] D(3) [of "(p, k)"] ids by (auto simp: suffix_def)
  show "queued look' k' i" if "i \<in> set (getOrderIDs ?c k')" for k' i
    using that rest D(4) [of i k'] disj [of i k'] same [of i k'] by (auto split: if_splits)
  show "book_qty (book_of ?c q) k' = queue_sum look' (getOrderIDs ?c (q, k'))" for q k'
  proof (cases "(q, k') = (p, k)")
    case True
    then show ?thesis using b(2) [of k] D(5) [of p k] ids(1) by simp
  next
    case False
    then show ?thesis using sum [OF False] b(2) [of k'] D(5) [of q k'] by auto
  qed
qed

definition level_inv :: "'b chain \<Rightarrow> string \<Rightarrow> depth_book \<Rightarrow> 'b chain \<Rightarrow> bool" where
  "level_inv s0 product book s \<longleftrightarrow> stores_ok (dcache s) \<and> cache_ok (GetOrder s) (setDepthBook product book (dcache s))
     \<and> orders_wf s \<and> open_queued s \<and> closed_ok s \<and> fill_frame s0 s"

text \<open>The invariant of orders, books and queues between the phases of a block.\<close>

definition orders_inv :: "'b chain \<Rightarrow> bool" where
  "orders_inv s \<longleftrightarrow> orders_consistent s \<and> orders_wf s \<and> open_queued s \<and> closed_ok s"

lemma level_invD:
  assumes "level_inv s0 product book s"
  shows "book_ok book" and "orders_wf s" and "distinct (getOrderIDs (dcache s) k)"
    and "i \<in> set (getOrderIDs (dcache s) k) \<Longrightarrow> queued (GetOrder s) k i"
    and "book_qty book k' = queue_sum (GetOrder s) (getOrderIDs (dcache s) (product, k'))"
    and "stores_ok (dcache s)"
proof -
  have ok: "cache_ok (GetOrder s) (setDepthBook product book (dcache s))" and wf: "orders_wf s"
    using assms by (simp_all add: level_inv_def)
  note D = cache_okD [OF ok]
  show "book_ok book" "distinct (getOrderIDs (dcache s) k)"
    "book_qty book k' = queue_sum (GetOrder s) (getOrderIDs (dcache s) (product, k'))"
    using D(2) [of product] D(3) [of k] D(5) [of product k'] by simp_all
  show "orders_wf s" by (rule wf)
  show "queued (GetOrder s) k i" if "i \<in> set (getOrderIDs (dcache s) k)" using D(4) [of i k] that by simp
  show "stores_ok (dcache s)" using assms by (simp add: level_inv_def)
qed

lemma level_inv_start: "orders_inv s \<Longrightarrow> fill_frame s0 s \<Longrightarrow> level_inv s0 product (book_of (dcache s) product) s"
  by (auto simp: orders_inv_def level_inv_def orders_consistent_def cache_ok_def)

lemma SetDepthBook_simps [simp]:
  "GetOrder (SetDepthBook product book s) = GetOrder s" "ord (SetDepthBook product book s) = ord s"
  "dex (SetDepthBook product book s) = dex s" "ordP (SetDepthBook product book s) = ordP s" "closed_ids (SetDepthBook product book s) = closed_ids s"
  "dcache (SetDepthBook product book s) = setDepthBook product book (dcache s)"
  by (simp_all add: SetDepthBook_def GetOrder_def fun_eq_iff closed_ids_def setDepthBook_def GetLastClosedOrderIDs_def)

lemma level_inv_end: "level_inv s0 product book s \<Longrightarrow> orders_inv (SetDepthBook product book s) \<and> fill_frame s0 (SetDepthBook product book s)"
  by (simp add: level_inv_def fill_frame_def same_book_keeping_def orders_inv_def orders_consistent_def orders_wf_def open_queued_def closed_ok_def)

lemma GetDepthBookCopy_book_of: "GetDepthBookCopy s product = book_of (dcache s) product"
  by (simp add: GetDepthBookCopy_def getDepthBook_def book_of_def)

lemma GetOrderIDsMapCopy_id: "kv_ok (dk_ids c) \<Longrightarrow> GetOrderIDsMapCopy c = dk_ids c"
  using fold_kv_set_sorted [of "[]" "dk_ids c"] by (simp add: GetOrderIDsMapCopy_def case_prod_unfold)

text \<open>\<open>Sub\<close> and \<open>RemoveIfEmpty\<close> at the index of a level are the reference operation on its price.\<close>

lemma sub_level_nth:
  assumes "desc book" and "index < length book"
  shows "sub_level (i_Price (book ! index)) qb qs book = take index book
    @ (if i_BuyQuantity (book ! index) = qb \<and> i_SellQuantity (book ! index) = qs then []
       else [(book ! index)\<lparr>i_BuyQuantity := i_BuyQuantity (book ! index) - qb, i_SellQuantity := i_SellQuantity (book ! index) - qs\<rparr>])
    @ drop (Suc index) book"
proof -
  have book: "book = take index book @ book ! index # drop (Suc index) book" using assms(2) by (rule id_take_nth_drop)
  have "desc (take index book @ book ! index # drop (Suc index) book)" using assms(1) book by simp
  then have "\<forall>y\<in>set (take index book). i_Price (book ! index) < i_Price y"
    unfolding sorted_wrt_append by simp
  from sub_level_append [OF this, of qb qs "book ! index # drop (Suc index) book"] show ?thesis
    using book by simp
qed

lemma Sub_RemoveIfEmpty:
  assumes "desc book" and "index < length book" and side: "side = BuyOrder \<or> side = SellOrder"
    and qs: "side_qty side q = (qb, qs)"
  shows "\<exists>b1. Sub index q side book = Some b1 \<and> RemoveIfEmpty index b1 =
    Some (sub_level (i_Price (book ! index)) qb qs book,
          i_BuyQuantity (book ! index) = qb \<and> i_SellQuantity (book ! index) = qs)"
proof -
  note sub = sub_level_nth [OF assms(1,2), of qb qs]
  have upd: "book[index := y] = take index book @ y # drop (Suc index) book" for y
    using assms(2) by (rule upd_conv_take_nth_drop)
  have rem: "remove_nth index (take index book @ y # drop (Suc index) book) = take index book @ drop (Suc index) book" for y
    using assms(2) by (simp add: remove_nth_def)
  from side show ?thesis
  proof
    assume "side = BuyOrder"
    with qs assms(2) sub upd rem show ?thesis
      by (auto simp: Sub_def RemoveIfEmpty_def side_qty_def Let_def nth_append min_def split: if_splits)
  next
    assume "side = SellOrder"
    with qs assms(2) sub upd rem show ?thesis
      by (auto simp: Sub_def RemoveIfEmpty_def side_qty_def Let_def nth_append min_def split: if_splits)
  qed
qed

lemma book_qty_sub_level:
  assumes "desc book" and "p \<in> i_Price ` set book" and "side = BuyOrder \<or> side = SellOrder" and "side_qty side q = (qb, qs)"
  shows "book_qty (sub_level p qb qs book) k = book_qty book k - (if k = (p, side) then q else 0)"
  using assms by (cases k) (auto simp: book_qty_def level_sub_level side_qty_def split: if_splits)

lemma level_nth: "desc book \<Longrightarrow> index < length book \<Longrightarrow>
    level book (i_Price (book ! index)) = (i_BuyQuantity (book ! index), i_SellQuantity (book ! index))"
proof (induction book arbitrary: index)
  case (Cons x xs)
  show ?case
  proof (cases index)
    case (Suc i)
    with Cons.prems have "i_Price (xs ! i) < i_Price x" by simp
    then have "i_Price x \<noteq> i_Price (xs ! i)" by simp
    with Suc Cons show ?thesis by simp
  qed simp
qed simp

end
