(* ===== verification/FillBook.thy ===== *)
theory FillBook
  imports OrderFill
begin

text \<open>
  The execution of a match on a whole book: every level, then both sides. On a consistent cache the loops of
  \<open>fillBuyOrders\<close> and \<open>fillSellOrders\<close> never panic, keep the cache consistent, never execute more than
  the executable quantity, and execute all of it unless the budget of deals runs out.
\<close>

subsection \<open>One level\<close>

lemma fillOrderByKey_ok:
  assumes S: "sdk_laws S" and inv: "level_inv s0 product book s" and need: "0 < need" "need \<le> book_qty book k"
  shows "\<exists>deals filled cnt s'. fillOrderByKey S e (product, k) need price rate D s = Some (deals, filled, cnt, s')
    \<and> 0 \<le> filled \<and> filled \<le> need \<and> deals_sum deals = filled \<and> 0 \<le> cnt \<and> (0 \<le> D \<longrightarrow> cnt \<le> D)
    \<and> (filled = need \<or> D \<le> cnt)
    \<and> (\<forall>b. book_ok b \<longrightarrow> (\<forall>k'. book_qty b k' = book_qty book k' - (if k' = k then filled else 0)) \<longrightarrow> level_inv s0 product b s')"
proof -
  note I = level_invD [OF inv]
  have kv: "kv_ok (dk_ids (dcache s))" using I(6) by (simp add: stores_ok_def)
  let ?ids = "getOrderIDs (dcache s) (product, k)"
  have q: "need \<le> queue_sum (GetOrder s) ?ids" using I(5) [of k] need(2) by simp
  then have "?ids \<noteq> []" using need(1) by auto
  then have get: "map_of (GetOrderIDsMapCopy (dcache s)) (product, k) = Some ?ids"
    by (auto simp: GetOrderIDsMapCopy_id kv getOrderIDs_def split: option.splits)
  have "\<exists>r. fill_queue S e need price rate D ?ids 0 0 [] s = Some r \<and> queue_filled need D (product, k) ?ids 0 0 [] s r"
    using fill_queue_ok [OF S I(2,3), of "(product, k)" "(product, k)" need 0] I(4) [of _ "(product, k)"] q need(1) by simp
  then obtain deals filled cnt rest t where r: "fill_queue S e need price rate D ?ids 0 0 [] s = Some (deals, filled, cnt, rest, t)"
    and f: "queue_filled need D (product, k) ?ids 0 0 [] s (deals, filled, cnt, rest, t)" by auto
  let ?s = "SetOrderIDs (product, k) rest t"
  have F: "suffix rest ?ids" "\<forall>i\<in>set rest. queued (GetOrder t) (product, k) i" "\<And>i. i \<notin> set ?ids \<Longrightarrow> GetOrder t i = GetOrder s i"
    "orders_wf t" "dk_books (dcache t) = dk_books (dcache s)" "dk_ids (dcache t) = dk_ids (dcache s)"
    "filled = queue_sum (GetOrder s) ?ids - queue_sum (GetOrder t) rest"
    "deals_sum deals = filled" "0 \<le> filled" "filled \<le> need" "0 \<le> cnt" "0 \<le> D \<longrightarrow> cnt \<le> D" "filled = need \<or> D \<le> cnt"
    using f by (auto simp: queue_filled_def)
  have fin: "\<forall>i\<in>set ?ids. i \<notin> set rest \<longrightarrow> is_done (GetOrder t) i" and cl: "closed_ok t" "fill_frame s0 t"
    using f inv by (auto simp: queue_filled_def level_inv_def intro: fill_frame_trans)
  have look: "GetOrder ?s = GetOrder t" "ord ?s = ord t" "dex ?s = dex t" "ordP ?s = ordP t" "closed_ids ?s = closed_ids t"
    by (auto simp: SetOrderIDs_def GetOrder_def fun_eq_iff closed_ids_def setOrderIDs_def GetLastClosedOrderIDs_def)
  have "i \<in> set (getOrderIDs (dcache ?s) (key_of x))" if x: "GetOrder t i = Some x" "o_Status x = OrderStatusOpen" for i x
  proof (cases "i \<in> set ?ids")
    case True
    then have "i \<in> set rest" using fin x by (auto simp: is_done_def)
    then have "queued (GetOrder t) (product, k) i" using F(2) by blast
    then have "key_of x = (product, k)" using x(1) by (simp add: queued_def)
    then show ?thesis using \<open>i \<in> set rest\<close> by (simp add: SetOrderIDs_def)
  next
    case False
    then have "i \<in> set (getOrderIDs (dcache s) (key_of x))"
      using F(3) [OF False] x inv by (simp add: level_inv_def open_queued_def)
    with False show ?thesis using stores_cong(3) [OF F(5,6)] by (auto simp: SetOrderIDs_def)
  qed
  then have opq: "open_queued ?s" by (simp add: open_queued_def look)
  have lev: "level_inv s0 product b ?s"
    if b: "book_ok b" "\<forall>k'. book_qty b k' = book_qty book k' - (if k' = k then filled else 0)" for b
  proof -
    have "cache_ok (GetOrder t) (setDepthBook product b (setOrderIDs (product, k) rest (setDepthBook product book (dcache s))))"
      using inv b F(7) by (intro cache_ok_fill [where ids = ?ids, OF _ _ F(1,3,2)]) (auto simp: level_inv_def)
    moreover have "stores_ok (dcache ?s)" "book_of (setDepthBook product b (dcache ?s)) =
        book_of (setDepthBook product b (setOrderIDs (product, k) rest (setDepthBook product book (dcache s))))"
      "getOrderIDs (setDepthBook product b (dcache ?s)) =
        getOrderIDs (setDepthBook product b (setOrderIDs (product, k) rest (setDepthBook product book (dcache s))))"
      using stores_cong [OF F(5,6)] I(6) by (auto simp: SetOrderIDs_def fun_eq_iff)
    ultimately have "cache_ok (GetOrder t) (setDepthBook product b (dcache ?s))" by (auto elim: cache_ok_ext)
    then show ?thesis using F(4) look opq cl \<open>stores_ok (dcache ?s)\<close> by (simp add: level_inv_def orders_wf_def closed_ok_def fill_frame_def same_book_keeping_def)
  qed
  show ?thesis
    using r get F(8-13) lev by (auto simp: fillOrderByKey_def)
qed

lemma fill_level:
  assumes S: "sdk_laws S" and inv: "level_inv s0 product book s" and ix: "index < length book"
    and side: "side = BuyOrder \<or> side = SellOrder"
    and need: "0 < need" "need \<le> (if side = BuyOrder then i_BuyQuantity (book ! index) else i_SellQuantity (book ! index))"
  obtains deals filled cnt s' b1 b2 res
  where "fillOrderByKey S e (FormatOrderIDsKey product (i_Price (book ! index)) side) need price rate D s = Some (deals, filled, cnt, s')"
    and "Sub index filled side book = Some b1" and "RemoveIfEmpty index b1 = Some (b2, res)"
    and "b2 = sub_level (i_Price (book ! index)) (fst (side_qty side filled)) (snd (side_qty side filled)) book"
    and "level_inv s0 product b2 s'" and "0 \<le> filled" and "filled \<le> need" and "deals_sum deals = filled"
    and "0 \<le> cnt" and "0 \<le> D \<Longrightarrow> cnt \<le> D" and "filled = need \<or> D \<le> cnt"
    and "take index b2 = take index book"
    and "drop (if res then index else Suc index) b2 = drop (Suc index) book"
    and "length b2 = (if res then length book - 1 else length book)"
proof -
  let ?p = "i_Price (book ! index)"
  have ok: "book_ok book" and d: "desc book" using level_invD(1) [OF inv] by (simp_all add: book_ok_def)
  have lv: "level book ?p = (i_BuyQuantity (book ! index), i_SellQuantity (book ! index))" by (rule level_nth [OF d ix])
  have bq: "book_qty book (?p, side) = (if side = BuyOrder then i_BuyQuantity (book ! index) else i_SellQuantity (book ! index))"
    using side lv by (auto simp: book_qty_def)
  obtain deals filled cnt s' where f: "fillOrderByKey S e (product, ?p, side) need price rate D s = Some (deals, filled, cnt, s')"
    "0 \<le> filled" "filled \<le> need" "deals_sum deals = filled" "0 \<le> cnt" "0 \<le> D \<longrightarrow> cnt \<le> D" "filled = need \<or> D \<le> cnt"
    "\<forall>b. book_ok b \<longrightarrow> (\<forall>k'. book_qty b k' = book_qty book k' - (if k' = (?p, side) then filled else 0)) \<longrightarrow> level_inv s0 product b s'"
    using fillOrderByKey_ok [OF S inv need(1), of "(?p, side)" e price rate D] need(2) bq by auto
  obtain qb qs where q: "side_qty side filled = (qb, qs)" by force
  let ?b = "sub_level ?p qb qs book" and ?res = "i_BuyQuantity (book ! index) = qb \<and> i_SellQuantity (book ! index) = qs"
  obtain b1 where b1: "Sub index filled side book = Some b1" "RemoveIfEmpty index b1 = Some (?b, ?res)"
    using Sub_RemoveIfEmpty [OF d ix side q] by blast
  have nn: "0 \<le> i_BuyQuantity (book ! index)" "0 \<le> i_SellQuantity (book ! index)" using ok ix by (auto simp: book_ok_def)
  have "book_ok ?b" using ok nn lv f(3) need(2) q side by (intro book_ok_sub_level) (auto simp: side_qty_def split: if_splits)
  moreover have "book_qty ?b k' = book_qty book k' - (if k' = (?p, side) then filled else 0)" for k'
    using ix by (intro book_qty_sub_level [OF d _ side q]) simp
  ultimately have "level_inv s0 product ?b s'" using f(8) by blast
  moreover note sub = sub_level_nth [OF d ix, of qb qs]
  ultimately show thesis
    using that [OF _ b1] f q ix by (simp add: FormatOrderIDsKey_def)
qed

subsection \<open>The buy side\<close>

text \<open>
  What one side guarantees: \<open>avail\<close> is what the levels still to visit offer at the match price.
\<close>

definition side_done ::
  "'b chain \<Rightarrow> string \<Rightarrow> dec \<Rightarrow> dec \<Rightarrow> dec \<Rightarrow> int \<Rightarrow> deal list \<Rightarrow> deal list \<times> int \<times> dec \<times> depth_book \<times> 'b chain \<Rightarrow> bool" where
  "side_done s0 product mx avail executed remain deals r \<longleftrightarrow>
     (case r of (deals', remain', executed', book', s') \<Rightarrow>
        level_inv s0 product book' s' \<and> executed \<le> executed' \<and> executed' \<le> mx \<and> 0 \<le> remain' \<and> remain' \<le> remain
        \<and> deals_sum deals' = deals_sum deals + executed' - executed
        \<and> (0 < remain' \<longrightarrow> min mx (executed + avail) \<le> executed'))"

lemma side_done_step:
  assumes "side_done s0 product mx avail' (executed + f) (remain - cnt) (deals @ ds) r" and "0 \<le> f" and "deals_sum ds = f" and "0 \<le> cnt"
    and "min mx (executed + avail) \<le> mx \<and> (f = need \<longrightarrow> min mx (executed + avail) \<le> min mx (executed + f + avail'))"
    and "f = need"
  shows "side_done s0 product mx avail executed remain deals r"
  using assms by (auto simp: side_done_def split: prod.splits)

lemma demand_at_stop: "desc (x # xs) \<Longrightarrow> i_Price x < p \<Longrightarrow> demand_at (x # xs) p = 0"
proof -
  assume "desc (x # xs)" "i_Price x < p"
  then have "filter (\<lambda>y. p \<le> i_Price y) (x # xs) = []" by (auto simp: filter_empty_conv)
  then show ?thesis by (simp add: demand_at_def)
qed

lemma demand_at_Cons: "demand_at (x # xs) p = (if p \<le> i_Price x then i_BuyQuantity x else 0) + demand_at xs p"
  by (simp add: demand_at_def)

lemma demand_at_nonneg: "book_ok items \<Longrightarrow> 0 \<le> demand_at items p"
  by (auto simp: demand_at_def book_ok_def intro!: sum_list_nonneg)

lemma book_ok_drop: "book_ok items \<Longrightarrow> book_ok (drop n items)"
  by (auto simp: book_ok_def sorted_wrt_drop dest: in_set_dropD)

lemma supply_sub_level: "supply_at (sub_level p b 0 items) r = supply_at items r"
  by (induction items) (auto simp: supply_at_def)

lemma demand_sub_level: "demand_at (sub_level p 0 q items) r = demand_at items r"
  by (induction items) (auto simp: demand_at_def)

lemma demand_sub_level_in:
  "desc book \<Longrightarrow> p \<in> i_Price ` set book \<Longrightarrow> r \<le> p \<Longrightarrow> demand_at (sub_level p b 0 book) r = demand_at book r - b"
proof (induction book)
  case (Cons x xs)
  then show ?case by (cases "i_Price x = p") (auto simp: demand_at_Cons)
qed simp

lemma supply_at_Cons: "supply_at (x # xs) p = (if i_Price x \<le> p then i_SellQuantity x else 0) + supply_at xs p"
  by (simp add: supply_at_def)

lemma supply_sub_level_in:
  "desc book \<Longrightarrow> p \<in> i_Price ` set book \<Longrightarrow> p \<le> r \<Longrightarrow> supply_at (sub_level p 0 q book) r = supply_at book r - q"
proof (induction book)
  case (Cons x xs)
  then show ?case by (cases "i_Price x = p") (auto simp: supply_at_Cons)
qed simp

lemma fill_buy_levels_ok:
  assumes S: "sdk_laws S"
  shows "level_inv s0 product book s \<Longrightarrow> executed \<le> mx \<Longrightarrow> 0 < remain \<Longrightarrow>
    \<exists>r. fill_buy_levels S e product bp mx rate index book executed remain deals s = Some r
      \<and> side_done s0 product mx (demand_at (drop index book) bp) executed remain deals r
      \<and> (\<forall>p. supply_at (fst (snd (snd (snd r)))) p = supply_at book p)
      \<and> demand_at (fst (snd (snd (snd r)))) bp = demand_at book bp + executed - fst (snd (snd r))"
proof (induction "length book - index" arbitrary: index book executed remain deals s rule: less_induct)
  case less
  let ?av = "demand_at (drop index book) bp"
  note inv = less.prems(1)
  have ok: "book_ok book" by (rule level_invD(1) [OF inv])
  show ?case
  proof (cases "index < length book")
    case False
    then have "fill_buy_levels S e product bp mx rate index book executed remain deals s = Some (deals, remain, executed, book, s)"
      by (subst fill_buy_levels.simps) simp
    with less.prems False show ?thesis by (simp add: side_done_def demand_at_def)
  next
    case ix: True
    let ?x = "book ! index"
    have dr: "drop index book = ?x # drop (Suc index) book" using ix by (simp add: Cons_nth_drop_Suc)
    have nn: "0 \<le> i_BuyQuantity ?x" using ok ix by (simp add: book_ok_def)
    have rest: "0 \<le> demand_at (drop (Suc index) book) bp" by (rule demand_at_nonneg [OF book_ok_drop [OF ok]])
    show ?thesis
    proof (cases "bp \<le> i_Price ?x \<and> executed < mx")
      case stop: False
      have "desc (drop index book)" using ok by (simp add: book_ok_def sorted_wrt_drop)
      with stop dr have "min mx (executed + ?av) \<le> executed"
        using demand_at_stop [of ?x "drop (Suc index) book" bp] by (cases "bp \<le> i_Price ?x") auto
      moreover have "fill_buy_levels S e product bp mx rate index book executed remain deals s = Some (deals, remain, executed, book, s)"
        using ix stop by (subst fill_buy_levels.simps) auto
      ultimately show ?thesis using less.prems by (simp add: side_done_def)
    next
      case go: True
      have av: "?av = i_BuyQuantity ?x + demand_at (drop (Suc index) book) bp" using go by (simp add: dr demand_at_Cons)
      let ?need = "min (i_BuyQuantity ?x) (mx - executed)"
      show ?thesis
      proof (cases "?need = 0")
        case True
        with go nn have "i_BuyQuantity ?x = 0" by (auto simp: min_def split: if_splits)
        moreover have "fill_buy_levels S e product bp mx rate index book executed remain deals s =
            fill_buy_levels S e product bp mx rate (index + 1) book executed remain deals s"
          using ix go True by (subst fill_buy_levels.simps) simp
        ultimately show ?thesis
          using less.hyps [of book "index + 1" s executed remain deals] less.prems ix av by simp
      next
        case nz: False
        then have need: "0 < ?need" "?need \<le> (if BuyOrder = BuyOrder then i_BuyQuantity ?x else i_SellQuantity ?x)" using nn go by auto
        obtain ds f cnt s' b1 b2 res where F:
          "fillOrderByKey S e (FormatOrderIDsKey product (i_Price ?x) BuyOrder) ?need bp rate remain s = Some (ds, f, cnt, s')"
          "Sub index f BuyOrder book = Some b1" "RemoveIfEmpty index b1 = Some (b2, res)"
          "b2 = sub_level (i_Price ?x) (fst (side_qty BuyOrder f)) (snd (side_qty BuyOrder f)) book"
          "level_inv s0 product b2 s'" "0 \<le> f" "f \<le> ?need" "deals_sum ds = f" "0 \<le> cnt" "0 \<le> remain \<Longrightarrow> cnt \<le> remain"
          "f = ?need \<or> remain \<le> cnt" "drop (if res then index else Suc index) b2 = drop (Suc index) book"
          "length b2 = (if res then length book - 1 else length book)"
          by (rule fill_level [OF S inv ix _ need, where e = e and price = bp and rate = rate and D = remain]) auto
        have sup: "supply_at b2 p = supply_at book p" for p by (simp add: F(4) side_qty_def supply_sub_level)
        have dem: "demand_at b2 bp = demand_at book bp - f"
          using ok ix go unfolding F(4) side_qty_def by (simp add: demand_sub_level_in book_ok_def)
        let ?ix = "if res then index else index + 1"
        show ?thesis
        proof (cases "remain - cnt \<le> 0")
          case True
          have "fill_buy_levels S e product bp mx rate index book executed remain deals s =
              Some (deals @ ds, remain - cnt, executed + f, b2, s')"
            using ix go nz F(1-3) True by (subst fill_buy_levels.simps) (simp add: Let_def)
          with F(5-10) True less.prems go sup dem show ?thesis by (auto simp: side_done_def)
        next
          case more: False
          have eq: "fill_buy_levels S e product bp mx rate index book executed remain deals s =
              fill_buy_levels S e product bp mx rate ?ix b2 (executed + f) (remain - cnt) (deals @ ds) s'"
            using ix go nz F(1-3) more by (subst fill_buy_levels.simps) (simp add: Let_def)
          have "length b2 - ?ix < length book - index" using F(13) ix by auto
          moreover have "executed + f \<le> mx" using F(7) by auto
          moreover have "drop ?ix b2 = drop (Suc index) book" using F(12) by auto
          ultimately obtain r where r: "fill_buy_levels S e product bp mx rate ?ix b2 (executed + f) (remain - cnt) (deals @ ds) s' = Some r"
            "side_done s0 product mx (demand_at (drop (Suc index) book) bp) (executed + f) (remain - cnt) (deals @ ds) r"
            "\<forall>p. supply_at (fst (snd (snd (snd r)))) p = supply_at b2 p"
            "demand_at (fst (snd (snd (snd r)))) bp = demand_at b2 bp + (executed + f) - fst (snd (snd r))"
            using less.hyps [of b2 ?ix s' "executed + f" "remain - cnt" "deals @ ds"] F(5) more by auto
          have "f = ?need" using F(11) more by auto
          then have "side_done s0 product mx ?av executed remain deals r"
            using rest av go by (intro side_done_step [OF r(2) F(6,8,9), where need = ?need]) (auto simp: min_def)
          with eq r(1,3,4) sup dem show ?thesis by simp
        qed
      qed
    qed
  qed
qed

subsection \<open>The sell side\<close>

lemma supply_at_snoc: "supply_at (xs @ [x]) p = supply_at xs p + (if i_Price x \<le> p then i_SellQuantity x else 0)"
  by (simp add: supply_at_def)

lemma supply_at_nonneg: "book_ok items \<Longrightarrow> 0 \<le> supply_at items p"
  by (auto simp: supply_at_def book_ok_def intro!: sum_list_nonneg)

lemma book_ok_take: "book_ok items \<Longrightarrow> book_ok (take n items)"
  by (auto simp: book_ok_def sorted_wrt_take dest: in_set_takeD)

lemma supply_at_stop:
  assumes "desc book" and "index < length book" and "p < i_Price (book ! index)"
  shows "supply_at (take (Suc index) book) p = 0"
proof -
  have "i_Price (book ! index) \<le> i_Price (book ! j)" if "j \<le> index" for j
    using desc_mono [OF assms(1) that assms(2)] .
  with assms(2,3) have "\<forall>j<length (take (Suc index) book). p < i_Price (take (Suc index) book ! j)"
    by (auto simp: less_Suc_eq_le intro: less_le_trans)
  then have "filter (\<lambda>y. i_Price y \<le> p) (take (Suc index) book) = []"
    unfolding filter_empty_conv by (metis in_set_conv_nth leD)
  then show ?thesis by (simp add: supply_at_def)
qed

lemma fill_sell_levels_ok:
  assumes S: "sdk_laws S"
  shows "level_inv s0 product book s \<Longrightarrow> executed \<le> mx \<Longrightarrow> 0 < remain \<Longrightarrow> n \<le> length book \<Longrightarrow>
    \<exists>r. fill_sell_levels S e product bp mx rate n book executed remain deals s = Some r
      \<and> side_done s0 product mx (supply_at (take n book) bp) executed remain deals r
      \<and> (\<forall>p. demand_at (fst (snd (snd (snd r)))) p = demand_at book p)
      \<and> supply_at (fst (snd (snd (snd r)))) bp = supply_at book bp + executed - fst (snd (snd r))"
proof (induction n arbitrary: book executed remain deals s)
  case 0
  then show ?case by (simp add: side_done_def supply_at_def)
next
  case (Suc index)
  note inv = Suc.prems(1)
  have ok: "book_ok book" and d: "desc book" using level_invD(1) [OF inv] by (simp_all add: book_ok_def)
  have ix: "index < length book" using Suc.prems(4) by simp
  let ?x = "book ! index" and ?av = "supply_at (take (Suc index) book) bp"
  have tk: "take (Suc index) book = take index book @ [?x]" using ix by (rule take_Suc_conv_app_nth)
  have nn: "0 \<le> i_SellQuantity ?x" using ok ix by (simp add: book_ok_def)
  have rest: "0 \<le> supply_at (take index book) bp" by (rule supply_at_nonneg [OF book_ok_take [OF ok]])
  show ?case
  proof (cases "i_Price ?x \<le> bp \<and> executed < mx")
    case stop: False
    then have "min mx (executed + ?av) \<le> executed"
      using supply_at_stop [OF d ix, of bp] by (cases "i_Price ?x \<le> bp") auto
    with ix stop Suc.prems show ?thesis by (auto simp: side_done_def)
  next
    case go: True
    have av: "?av = supply_at (take index book) bp + i_SellQuantity ?x" using go by (simp add: tk supply_at_snoc)
    let ?need = "min (i_SellQuantity ?x) (mx - executed)"
    show ?thesis
    proof (cases "?need = 0")
      case True
      with go nn have "i_SellQuantity ?x = 0" by (auto simp: min_def split: if_splits)
      with Suc.IH [OF Suc.prems(1-3), of deals] ix go True av show ?thesis by simp
    next
      case nz: False
      then have need: "0 < ?need" "?need \<le> (if SellOrder = BuyOrder then i_BuyQuantity ?x else i_SellQuantity ?x)" using nn go by auto
      obtain ds f cnt s' b1 b2 res where F:
        "fillOrderByKey S e (FormatOrderIDsKey product (i_Price ?x) SellOrder) ?need bp rate remain s = Some (ds, f, cnt, s')"
        "Sub index f SellOrder book = Some b1" "RemoveIfEmpty index b1 = Some (b2, res)"
        "b2 = sub_level (i_Price ?x) (fst (side_qty SellOrder f)) (snd (side_qty SellOrder f)) book"
        "level_inv s0 product b2 s'" "0 \<le> f" "f \<le> ?need" "deals_sum ds = f" "0 \<le> cnt" "0 \<le> remain \<Longrightarrow> cnt \<le> remain"
        "f = ?need \<or> remain \<le> cnt" "take index b2 = take index book" "length b2 = (if res then length book - 1 else length book)"
        by (rule fill_level [OF S inv ix _ need, where e = e and price = bp and rate = rate and D = remain]) auto
      have dem: "demand_at b2 p = demand_at book p" for p by (simp add: F(4) side_qty_def demand_sub_level)
      have sup: "supply_at b2 bp = supply_at book bp - f"
        using d ix go unfolding F(4) side_qty_def by (simp add: supply_sub_level_in BuyOrder_def SellOrder_def)
      show ?thesis
      proof (cases "remain - cnt \<le> 0")
        case True
        have "fill_sell_levels S e product bp mx rate (Suc index) book executed remain deals s =
            Some (deals @ ds, remain - cnt, executed + f, b2, s')"
          using ix go nz F(1-3) True by (simp add: Let_def)
        with F(5-10) True Suc.prems go dem sup show ?thesis by (auto simp: side_done_def simp del: fill_sell_levels.simps)
      next
        case more: False
        have eq: "fill_sell_levels S e product bp mx rate (Suc index) book executed remain deals s =
            fill_sell_levels S e product bp mx rate index b2 (executed + f) (remain - cnt) (deals @ ds) s'"
          using ix go nz F(1-3) more by (simp add: Let_def)
        have "executed + f \<le> mx" "index \<le> length b2" using F(7,13) ix by auto
        then obtain r where r: "fill_sell_levels S e product bp mx rate index b2 (executed + f) (remain - cnt) (deals @ ds) s' = Some r"
          "side_done s0 product mx (supply_at (take index book) bp) (executed + f) (remain - cnt) (deals @ ds) r"
          "\<forall>p. demand_at (fst (snd (snd (snd r)))) p = demand_at b2 p"
          "supply_at (fst (snd (snd (snd r)))) bp = supply_at b2 bp + (executed + f) - fst (snd (snd r))"
          using Suc.IH [of b2 s' "executed + f" "remain - cnt" "deals @ ds"] F(5,12) more by auto
        have "f = ?need" using F(11) more by auto
        then have "side_done s0 product mx ?av executed remain deals r"
          using rest av go by (intro side_done_step [OF r(2) F(6,8,9), where need = ?need]) (auto simp: min_def)
        with eq r(1,3,4) dem sup show ?thesis by simp
      qed
    qed
  qed
qed

subsection \<open>The whole book\<close>

lemma fillDepthBook_ok:
  assumes S: "sdk_laws S" and ok: "orders_inv s" and ex: "be \<le> mx" "se \<le> mx" and rem: "0 < remain"
  obtains deals remain' be' se' s' where
    "fillDepthBook S e product bp mx be se remain rate s = Some (deals, remain', be', se', s')"
    and "orders_inv s'" and "fill_frame s s'" and "be \<le> be'" and "be' \<le> mx" and "se \<le> se'" and "se' \<le> mx"
    and "0 \<le> remain'" and "remain' \<le> remain" and "deals_sum deals = (be' - be) + (se' - se)"
    and "demand_at (book_of (dcache s') product) bp = demand_at (book_of (dcache s) product) bp - (be' - be)"
    and "supply_at (book_of (dcache s') product) bp = supply_at (book_of (dcache s) product) bp - (se' - se)"
    and "mx \<noteq> 0 \<Longrightarrow> 0 < remain' \<Longrightarrow> min mx (be + demand_at (book_of (dcache s) product) bp) \<le> be'
          \<and> min mx (se + supply_at (book_of (dcache s) product) bp) \<le> se'"
proof (cases "mx = 0")
  case True
  with ok ex rem that [of "[]" remain be se s] show ?thesis by (simp add: fillDepthBook_def)
next
  case nz: False
  let ?b = "book_of (dcache s) product"
  obtain ds1 r1 e1 b1 t1 where 1: "fill_buy_levels S e product bp mx rate 0 ?b be remain [] s = Some (ds1, r1, e1, b1, t1)"
    "side_done s product mx (demand_at ?b bp) be remain [] (ds1, r1, e1, b1, t1)" "\<forall>p. supply_at b1 p = supply_at ?b p"
    "demand_at b1 bp = demand_at ?b bp + be - e1"
    using fill_buy_levels_ok [OF S level_inv_start [OF ok fill_frame_refl] ex(1) rem, where e = e and bp = bp and rate = rate and index = 0 and deals = "[]"
        and product = product] by auto
  let ?s1 = "SetDepthBook product b1 t1"
  have buy: "fillBuyOrders S e product bp mx be remain rate s = Some (ds1, r1, e1, ?s1)"
    using 1(1) by (simp add: fillBuyOrders_def GetDepthBookCopy_book_of)
  have D1: "level_inv s product b1 t1" "be \<le> e1" "e1 \<le> mx" "0 \<le> r1" "r1 \<le> remain" "deals_sum ds1 = e1 - be"
    "0 < r1 \<longrightarrow> min mx (be + demand_at ?b bp) \<le> e1" using 1(2) by (auto simp: side_done_def)
  have ok1: "orders_inv ?s1" "fill_frame s ?s1" using level_inv_end [OF D1(1)] by simp_all
  show ?thesis
  proof (cases "r1 \<le> 0")
    case True
    with nz buy D1 ok1 ex 1(3,4) that [of ds1 r1 e1 se ?s1] show ?thesis by (simp add: fillDepthBook_def)
  next
    case more: False
    have bk: "book_of (dcache ?s1) product = b1" by (simp add: SetDepthBook_def)
    obtain ds2 r2 e2 b2 t2 where 2: "fill_sell_levels S e product bp mx rate (length b1) b1 se r1 [] ?s1 = Some (ds2, r2, e2, b2, t2)"
      "side_done ?s1 product mx (supply_at b1 bp) se r1 [] (ds2, r2, e2, b2, t2)" "\<forall>p. demand_at b2 p = demand_at b1 p"
      "supply_at b2 bp = supply_at b1 bp + se - e2"
      using fill_sell_levels_ok [OF S level_inv_start [OF ok1(1) fill_frame_refl, of product] ex(2),
        where remain = r1 and n = "length b1" and e = e and bp = bp and rate = rate and deals = "[]"] more bk by auto
    let ?s2 = "SetDepthBook product b2 t2"
    have D2: "level_inv ?s1 product b2 t2" "se \<le> e2" "e2 \<le> mx" "0 \<le> r2" "r2 \<le> r1" "deals_sum ds2 = e2 - se"
      "0 < r2 \<longrightarrow> min mx (se + supply_at b1 bp) \<le> e2" using 2(2) by (auto simp: side_done_def)
    have "orders_inv ?s2" "fill_frame s ?s2" using level_inv_end [OF D2(1)] fill_frame_trans [OF ok1(2)] by simp_all
    moreover have "fillSellOrders S e product bp mx se r1 rate ?s1 = Some (ds2, r2, e2, ?s2)"
      using 2(1) bk by (simp add: fillSellOrders_def GetDepthBookCopy_book_of)
    ultimately show ?thesis
      using that [of "ds1 @ ds2" r2 e1 e2 ?s2] nz more buy D1 D2 1(3,4) 2(3,4) by (simp add: fillDepthBook_def)
  qed
qed

subsection \<open>Properties\<close>

lemma PlaceOrder_frame:
  assumes "PlaceOrder S e x s = Some (s', x', None)"
  shows "closed_ids s' = closed_ids s" and "o_OrderID x' = FormatOrderID (e_Height e) (GetBlockOrderNum s (e_Height e) + 1)"
    and "order_wf x' = order_wf x" and "o_Status x' = o_Status x" and "key_of x' = key_of x" and "order_live x' = order_live x"
    and "GetBlockOrderNum s' = (GetBlockOrderNum s)(e_Height e := GetBlockOrderNum s (e_Height e) + 1)"
    and "dex s' = dex s" and "ordP s' = ordP s" and "os_expire (ord s') = os_expire (ord s)"
    and "os_lastExpired (ord s') = os_lastExpired (ord s)" and "os_orders (ord s') = kv_set (o_OrderID x') x' (os_orders (ord s))"
proof -
  obtain s1 s2 fee where r: "TryPlaceOrder S x s = Some (s1, fee, None)"
    "s2 = order_AddFeeDetail S e (o_Sender x) fee FeeTypeOrderNew s1"
    "x' = (RecordOrderNewFee S fee x)\<lparr>o_OrderID := FormatOrderID (e_Height e) (GetBlockOrderNum s (e_Height e) + 1)\<rparr>"
    "s' = InsertOrderIntoDepthBook x' (SetOrder (o_OrderID x') x'
           (SetBlockOrderNum (e_Height e) (GetBlockOrderNum s (e_Height e) + 1) s2))"
    by (rule PlaceOrder_success [OF assms])
  have c: "coins_only s s2" unfolding r(2) using coins_only_TryPlaceOrder [OF r(1)] by (rule coins_only_trans) simp
  note d = coins_onlyD [OF c]
  show "closed_ids s' = closed_ids s"
    using d by (simp add: r(4) closed_ids_def InsertOrderIntoDepthBook_def insertOrder_def Let_def GetLastClosedOrderIDs_def
        SetOrder_def SetBlockOrderNum_def)
  show "GetBlockOrderNum s' = (GetBlockOrderNum s)(e_Height e := GetBlockOrderNum s (e_Height e) + 1)"
    using d by (auto simp: fun_eq_iff r(4) InsertOrderIntoDepthBook_def GetBlockOrderNum_def SetOrder_def SetBlockOrderNum_def)
  show "dex s' = dex s" "ordP s' = ordP s" "os_expire (ord s') = os_expire (ord s)" "os_lastExpired (ord s') = os_lastExpired (ord s)"
    "os_orders (ord s') = kv_set (o_OrderID x') x' (os_orders (ord s))"
    using d by (simp_all add: r(4) InsertOrderIntoDepthBook_def SetOrder_def SetBlockOrderNum_def)
  show "o_OrderID x' = FormatOrderID (e_Height e) (GetBlockOrderNum s (e_Height e) + 1)" by (simp add: r(3))
  show "order_wf x' = order_wf x" "o_Status x' = o_Status x" "key_of x' = key_of x" "order_live x' = order_live x"
    by (simp_all add: r(3) order_wf_def order_fees_ok_def order_live_def RecordOrderNewFee_def setExtraInfoWithKeyValue_def)
qed

lemma orders_inv_PlaceOrder:
  assumes inv: "orders_inv s" and fresh: "ids_fresh (e_Height e) s" "o_OrderID x' \<notin> closed_ids s"
    and x: "order_live x" "o_Status x = OrderStatusOpen" "order_wf x" and p: "PlaceOrder S e x s = Some (s', x', None)"
  shows "orders_inv s'"
proof -
  note I = inv [unfolded orders_inv_def]
  note c = PlaceOrder_consistent [OF conjunct1 [OF I] fresh(1) x(1,2) p] and f = PlaceOrder_frame [OF p]
  have "orders_wf s'" using orders_wf_upd [OF _ f(12)] I x(3) f(3) by simp
  moreover have "open_queued s'" using I f(5) by (auto simp: open_queued_def c(4,5))
  moreover have "closed_ok s'" using I fresh(2) by (auto simp: closed_ok_def f(1) is_done_def c(4))
  ultimately show ?thesis using c(1) by (simp add: orders_inv_def)
qed

lemma fill_auction:
  assumes S: "sdk_laws S" and ok: "orders_inv s" and rem: "0 < remain"
    and m: "periodicAuctionMatchPrice S (book_of (dcache s) product) prec ref = Some (bp, mx)"
  obtains deals remain' be se s' where
    "fillDepthBook S e product bp mx 0 0 remain rate s = Some (deals, remain', be, se, s')"
    and "orders_inv s'" and "fill_frame s s'" and "0 \<le> be" and "be \<le> mx" and "0 \<le> se" and "se \<le> mx"
    and "0 \<le> remain'" and "remain' \<le> remain" and "deals_sum deals = be + se" and "0 < remain' \<Longrightarrow> be = mx \<and> se = mx"
proof -
  let ?b = "book_of (dcache s) product"
  have b: "book_ok ?b" using ok by (simp add: orders_inv_def orders_consistent_def cache_ok_def)
  obtain nn: "0 \<le> mx" and v: "mx \<noteq> 0 \<Longrightarrow> volume ?b bp = mx"
    using match_price_total [OF b, of S prec ref] m max_volume_ge(1) [of ?b]
    by (cases "?b = []") (auto simp: max_volume_def)
  have dem: "mx \<noteq> 0 \<Longrightarrow> mx \<le> demand_at ?b bp \<and> mx \<le> supply_at ?b bp" using v by (simp add: volume_def min_def split: if_splits)
  obtain deals remain' be se s' where r: "fillDepthBook S e product bp mx 0 0 remain rate s = Some (deals, remain', be, se, s')"
    "orders_inv s'" "fill_frame s s'" "0 \<le> be" "be \<le> mx" "0 \<le> se" "se \<le> mx" "0 \<le> remain'" "remain' \<le> remain"
    "deals_sum deals = be + se" "mx \<noteq> 0 \<Longrightarrow> 0 < remain' \<Longrightarrow> min mx (demand_at ?b bp) \<le> be \<and> min mx (supply_at ?b bp) \<le> se"
    by (rule fillDepthBook_ok [OF S ok nn nn rem, of e product bp rate]) auto
  have "be = mx \<and> se = mx" if "0 < remain'"
    using r(4-7) r(11) [OF _ that] dem by (cases "mx = 0") auto
  then show thesis by (rule that [OF r(1-10)])
qed

text \<open>
  C2. Executing the result of the auction: on a consistent order book the filling of both sides at
  the auction price always returns, leaves book, queues and orders consistent, fills never more than the auction quantity
  on either side, and the deals it reports add up to what it filled. Unless the deal budget of
  the block runs out, both sides are filled for exactly the auction quantity.
\<close>

theorem auction_executed:
  assumes "sdk_laws S" and "orders_inv s" and "0 < remain"
    and "periodicAuctionMatchPrice S (GetDepthBookCopy s product) prec ref = Some (bp, mx)"
  shows "\<exists>deals remain' buyExecuted sellExecuted s'.
     fillDepthBook S e product bp mx 0 0 remain rate s = Some (deals, remain', buyExecuted, sellExecuted, s')
     \<and> orders_inv s' \<and> buyExecuted \<le> mx \<and> sellExecuted \<le> mx
     \<and> sum_list (map deal_Quantity deals) = buyExecuted + sellExecuted
     \<and> 0 \<le> remain' \<and> remain' \<le> remain
     \<and> (0 < remain' \<longrightarrow> buyExecuted = mx \<and> sellExecuted = mx)"
  by (rule fill_auction [OF assms(1-3) assms(4) [unfolded GetDepthBookCopy_book_of], of e rate])
    (auto simp: deals_sum_def)

definition demo_buy :: order where
  "demo_buy = NewOrder ref_sdk [] ''alice'' ''abc_okt'' BuyOrder 250 100 0 10 (NativeToken, 0)"

definition demo_book_chain :: "ref_bank chain" where
  "demo_book_chain = fst (the (PlaceOrder ref_sdk demo_env demo_buy
     (fst (the (PlaceOrder ref_sdk demo_env demo_sell demo_dex_chain)))))"

lemma demo_dex_inv: "orders_inv demo_dex_chain" "closed_ids demo_dex_chain = {}"
proof -
  show "closed_ids demo_dex_chain = {}"
    by (simp add: closed_ids_def GetLastClosedOrderIDs_def demo_dex_chain_def demo_chain_def)
  have "kv_ok (os_orders (ord demo_dex_chain))" "GetOrder demo_dex_chain i = None" for i by (simp_all add: GetOrder_def demo_dex_chain_def demo_chain_def)
  then show "orders_inv demo_dex_chain"
    using demo_orders(1) by (simp add: orders_inv_def orders_wf_def open_queued_def closed_ok_def is_done_def)
qed

lemma demo_book: "orders_inv demo_book_chain"
proof -
  define s where "s = fst (the (PlaceOrder ref_sdk demo_env demo_sell demo_dex_chain))"
  have "case PlaceOrder ref_sdk demo_env demo_sell demo_dex_chain of Some (_, _, None) \<Rightarrow> True | _ \<Rightarrow> False" by code_simp
  then obtain x where p1: "PlaceOrder ref_sdk demo_env demo_sell demo_dex_chain = Some (s, x, None)"
    by (auto simp: s_def split: option.splits)
  have "case PlaceOrder ref_sdk demo_env demo_buy s of Some (_, _, None) \<Rightarrow> True | _ \<Rightarrow> False"
    unfolding s_def by code_simp
  then obtain x' where p2: "PlaceOrder ref_sdk demo_env demo_buy s = Some (demo_book_chain, x', None)"
    by (auto simp: demo_book_chain_def s_def split: option.splits)
  have live: "order_live demo_sell" "o_Status demo_sell = OrderStatusOpen" "order_wf demo_sell"
    "order_live demo_buy" "o_Status demo_buy = OrderStatusOpen" "order_wf demo_buy"
    by (code_simp, code_simp, code_simp, code_simp, code_simp, code_simp)
  have inv: "orders_inv s" using demo_dex_inv by (intro orders_inv_PlaceOrder [OF _ demo_orders(2) _ live(1-3) p1]) simp_all
  have fr: "ids_fresh (e_Height demo_env) s" by (rule PlaceOrder_consistent(2) [OF demo_orders(1,2) live(1,2) p1])
  show ?thesis
    using PlaceOrder_frame(1) [OF p1] demo_dex_inv(2) by (intro orders_inv_PlaceOrder [OF inv fr _ live(4-6) p2]) simp
qed

theorem auction_executed_witness:
  "\<exists>deals remain' s'. periodicAuctionMatchPrice ref_sdk (GetDepthBookCopy demo_book_chain ''abc_okt'') 0 200 = Some (200, 100)
     \<and> fillDepthBook ref_sdk demo_env ''abc_okt'' 200 100 0 0 1000 0 demo_book_chain = Some (deals, remain', 100, 100, s')
     \<and> orders_inv s'"
proof -
  have m: "periodicAuctionMatchPrice ref_sdk (GetDepthBookCopy demo_book_chain ''abc_okt'') 0 200 = Some (200, 100)"
    by code_simp
  have "case fillDepthBook ref_sdk demo_env ''abc_okt'' 200 100 0 0 1000 0 demo_book_chain of
      Some (_, r, _, _, _) \<Rightarrow> 0 < r | _ \<Rightarrow> False" by code_simp
  with auction_executed [OF ref_sdk_laws demo_book _ m, of 1000 demo_env 0] m show ?thesis by auto
qed

end
