(* ===== verification/OrderMatch.thy ===== *)
theory OrderMatch
  imports FillBook
begin

text \<open>
  The end of a block in the periodic auction (\<open>x/order/match/periodicauction/match.go\<close> from
  \<open>markCurBlockToFutureExpireBlockList\<close> on, and \<open>impl.go\<close>): the bookkeeping of expiry heights, the quitting of expired orders and of
  the orders of delisted pairs, the auction of every product with new orders, and the execution of
  its results within the deal budget of the block. A product whose result is not fully
  executed is locked until a later block finishes it.

  \<open>None\<close> is a panic. The slice that \<open>cleanupOrdersByProduct\<close> ranges over may share its memory with the
  cached queue of buy orders; \<open>shared_list\<close> says when, given by \<open>spare\<close> whether the backing array of
  the queue at a key has room for the sell orders of the level, and \<open>cleanOrdersByOrderIDList\<close>
  follows what the removals do to the shared array.
\<close>

subsection \<open>Expiry\<close>

definition markCurBlockToFutureExpireBlockList :: "env \<Rightarrow> 'b chain \<Rightarrow> 'b chain" where
  "markCurBlockToFutureExpireBlockList e s =
     (let futureHeight = e_Height e + p_OrderExpireBlocks (ordP s)
      in SetExpireBlockHeight futureHeight (GetExpireBlockHeight s futureHeight @ [e_Height e]) s)"

definition cleanLastBlockClosedOrders :: "'b chain \<Rightarrow> 'b chain" where
  "cleanLastBlockClosedOrders s =
     (let lastClosedOrderIDs = GetLastClosedOrderIDs s
      in upd_dc (DecreaseStoreOrderNum (int (length lastClosedOrderIDs))) (fold DropOrder lastClosedOrderIDs s))"

definition expire_height :: "'b sdk \<Rightarrow> env \<Rightarrow> int \<Rightarrow> 'b chain \<Rightarrow> 'b chain option" where
  "expire_height S e height s = ofold (DropExpiredOrdersByBlockHeight S e) (GetExpireBlockHeight s height) s"

definition drop_height :: "int \<Rightarrow> 'b chain \<Rightarrow> 'b chain" where
  "drop_height height s = DropExpireBlockHeight height (fold DropBlockOrderNum (GetExpireBlockHeight s height) s)"

definition cacheExpiredBlockToCurrentHeight :: "'b sdk \<Rightarrow> env \<Rightarrow> 'b chain \<Rightarrow> 'b chain option" where
  "cacheExpiredBlockToCurrentHeight S e s =
     (let cur = e_Height e;
          lastExpired = (if GetLastExpiredBlockHeight s = 0 then cur - 1 else GetLastExpiredBlockHeight s)
      in case ofold (expire_height S e) [lastExpired + 1..cur] s of
           None \<Rightarrow> None
         | Some s1 \<Rightarrow>
             if AnyProductLocked s1 then Some s1
             else if 1 < cur
             then Some (SetLastExpiredBlockHeight (max lastExpired cur) (fold drop_height [lastExpired..cur - 1] s1))
             else Some (SetLastExpiredBlockHeight lastExpired s1))"

definition cleanupExpiredOrders :: "'b sdk \<Rightarrow> env \<Rightarrow> 'b chain \<Rightarrow> 'b chain option" where
  "cleanupExpiredOrders S e s =
     cacheExpiredBlockToCurrentHeight S e (cleanLastBlockClosedOrders (markCurBlockToFutureExpireBlockList e s))"

subsection \<open>Delisted pairs\<close>

text \<open>
  The range loop evaluates its slice once and reads element \<open>i\<close> of the backing array when it gets
  there. A removal from the cached queue moves the elements behind it one place forward in the
  array of the queue and leaves the last place as it was; the loop sees the move when the arrays
  are the same.
\<close>

definition after_removal :: "string list \<Rightarrow> string list \<Rightarrow> string list \<Rightarrow> string list" where
  "after_removal q q' arr = (if q' = q then arr else q' @ drop (length q') arr)"

fun cleanOrdersByOrderIDList ::
  "'b sdk \<Rightarrow> env \<Rightarrow> ids_key option \<Rightarrow> string list \<Rightarrow> nat list \<Rightarrow> 'b chain \<Rightarrow> 'b chain option" where
  "cleanOrdersByOrderIDList S e shared arr [] s = Some s"
| "cleanOrdersByOrderIDList S e shared arr (i # is) s =
     (case GetOrder s (arr ! i) of
        None \<Rightarrow> None
      | Some x \<Rightarrow>
          (case CancelOrder S e x s of
             None \<Rightarrow> None
           | Some (s', _) \<Rightarrow>
               cleanOrdersByOrderIDList S e shared
                 (case shared of
                    None \<Rightarrow> arr
                  | Some key \<Rightarrow> after_removal (GetProductPriceOrderIDs s key) (GetProductPriceOrderIDs s' key) arr)
                 is s'))"

definition shared_list :: "(ids_key \<Rightarrow> bool) \<Rightarrow> ids_key \<Rightarrow> string list \<Rightarrow> string list \<Rightarrow> ids_key option" where
  "shared_list spare buyKey buys sells =
     (if buys \<noteq> [] \<and> (sells = [] \<or> spare buyKey) then Some buyKey else None)"

definition clean_level ::
  "'b sdk \<Rightarrow> env \<Rightarrow> (ids_key \<Rightarrow> bool) \<Rightarrow> string \<Rightarrow> book_item \<Rightarrow> 'b chain \<Rightarrow> 'b chain option" where
  "clean_level S e spare product item s =
     (let buyKey = FormatOrderIDsKey product (i_Price item) BuyOrder;
          buys = GetProductPriceOrderIDs s buyKey;
          sells = GetProductPriceOrderIDs s (FormatOrderIDsKey product (i_Price item) SellOrder)
      in cleanOrdersByOrderIDList S e (shared_list spare buyKey buys sells) (buys @ sells)
           [0..<length (buys @ sells)] s)"

definition cleanupOrdersByProduct ::
  "'b sdk \<Rightarrow> env \<Rightarrow> (ids_key \<Rightarrow> bool) \<Rightarrow> string \<Rightarrow> 'b chain \<Rightarrow> 'b chain option" where
  "cleanupOrdersByProduct S e spare product s =
     ofold (clean_level S e spare product) (GetDepthBookCopy s product) s"

definition cleanupOrdersWhoseTokenPairHaveBeenDelisted ::
  "'b sdk \<Rightarrow> env \<Rightarrow> (ids_key \<Rightarrow> bool) \<Rightarrow> 'b chain \<Rightarrow> 'b chain option" where
  "cleanupOrdersWhoseTokenPairHaveBeenDelisted S e spare s =
     ofold (\<lambda>product t. if GetTokenPair t product = None then cleanupOrdersByProduct S e spare product t else Some t)
       (getProductsFromDepthBookMap (dcache s)) s"

subsection \<open>Auction and execution\<close>

definition calc_product ::
  "'b sdk \<Rightarrow> env \<Rightarrow> string \<Rightarrow> (string, match_result) kv \<times> 'b chain \<Rightarrow> ((string, match_result) kv \<times> 'b chain) option" where
  "calc_product S e product = (\<lambda>(resultMap, s).
     (case GetTokenPair s product of
        None \<Rightarrow> Some (resultMap, s)
      | Some tokenPair \<Rightarrow>
          (let book = GetDepthBookCopy s product;
               (ref, s1) = GetLastPrice product s
           in case periodicAuctionMatchPrice S book (pr_MaxPriceDigit tokenPair) ref of
                None \<Rightarrow> None
              | Some (bestPrice, maxExecution) \<Rightarrow>
                  if 0 < maxExecution
                  then Some (kv_set product \<lparr>m_BlockHeight = e_Height e, m_Price = bestPrice,
                          m_Quantity = maxExecution, m_Deals = []\<rparr> resultMap, SetLastPrice product bestPrice s1)
                  else Some (resultMap, s1))))"

definition calcMatchPriceAndExecution ::
  "'b sdk \<Rightarrow> env \<Rightarrow> string list \<Rightarrow> 'b chain \<Rightarrow> ((string, match_result) kv \<times> 'b chain) option" where
  "calcMatchPriceAndExecution S e products s = ofold (calc_product S e) products ([], s)"

definition lockProduct :: "string \<Rightarrow> match_result \<Rightarrow> dec \<Rightarrow> dec \<Rightarrow> 'b chain \<Rightarrow> 'b chain" where
  "lockProduct product matchResult buyExecutedCnt sellExecutedCnt =
     SetProductLock product \<lparr>l_BlockHeight = m_BlockHeight matchResult, l_Price = m_Price matchResult,
       l_Quantity = m_Quantity matchResult, l_BuyExecuted = buyExecutedCnt, l_SellExecuted = sellExecutedCnt\<rparr>"

text \<open>
  The execution threads the remaining deal budget, the result map, the copy of the locks (whose
  entries the code updates through pointers) and the state.
\<close>

type_synonym 'b exec = "int \<times> (string, match_result) kv \<times> (string, product_lock) kv \<times> 'b chain"

definition executeMatchedUpdatedProduct ::
  "'b sdk \<Rightarrow> env \<Rightarrow> string \<Rightarrow> match_result \<Rightarrow> 'b exec \<Rightarrow> 'b exec option" where
  "executeMatchedUpdatedProduct S e product matchResult = (\<lambda>(remain, results, lockMap, s).
     if remain \<le> 0 then Some (remain, results, lockMap, lockProduct product matchResult 0 0 s)
     else
       (case fillDepthBook S e product (m_Price matchResult) (m_Quantity matchResult) 0 0 remain
               (p_TradeFeeRate (ordP s)) s of
          None \<Rightarrow> None
        | Some (deals, remain', buyExecuted, sellExecuted, s') \<Rightarrow>
            Some (remain', kv_set product (matchResult\<lparr>m_Deals := deals\<rparr>) results, lockMap,
              if buyExecuted < m_Quantity matchResult \<or> sellExecuted < m_Quantity matchResult
              then lockProduct product matchResult buyExecuted sellExecuted s' else s')))"

definition executeLockedProduct :: "'b sdk \<Rightarrow> env \<Rightarrow> string \<Rightarrow> product_lock \<Rightarrow> 'b exec \<Rightarrow> 'b exec option" where
  "executeLockedProduct S e product lock = (\<lambda>(remain, results, lockMap, s).
     if remain \<le> 0 then Some (remain, results, lockMap, s)
     else
       (case fillDepthBook S e product (l_Price lock) (l_Quantity lock) (l_BuyExecuted lock) (l_SellExecuted lock) remain
               (p_TradeFeeRate (ordP s)) s of
          None \<Rightarrow> None
        | Some (deals, remain', buyExecuted, sellExecuted, s') \<Rightarrow>
            (let lock' = lock\<lparr>l_BuyExecuted := buyExecuted, l_SellExecuted := sellExecuted\<rparr>
             in Some (remain',
                  if deals = [] then results
                  else kv_set product \<lparr>m_BlockHeight = l_BlockHeight lock, m_Price = l_Price lock,
                         m_Quantity = l_Quantity lock, m_Deals = deals\<rparr> results,
                  kv_set product lock' lockMap,
                  if l_Quantity lock \<le> buyExecuted \<and> l_Quantity lock \<le> sellExecuted
                  then UnlockProduct product s' else SetProductLock product lock' s'))))"

definition execute_product :: "'b sdk \<Rightarrow> env \<Rightarrow> string \<Rightarrow> 'b exec \<Rightarrow> 'b exec option" where
  "execute_product S e product = (\<lambda>(remain, results, lockMap, s).
     (case map_of results product of
        Some matchResult \<Rightarrow> executeMatchedUpdatedProduct S e product matchResult (remain, results, lockMap, s)
      | None \<Rightarrow>
          (case map_of lockMap product of
             Some lock \<Rightarrow> executeLockedProduct S e product lock (remain, results, lockMap, s)
           | None \<Rightarrow> Some (remain, results, lockMap, s))))"

definition executeMatch ::
  "'b sdk \<Rightarrow> env \<Rightarrow> string list \<Rightarrow> (string, match_result) kv \<Rightarrow> (string, product_lock) kv \<Rightarrow> 'b chain \<Rightarrow> 'b exec option" where
  "executeMatch S e products results lockMap s =
     ofold (execute_product S e) products (p_MaxDealsPerBlock (ordP s), results, lockMap, s)"

definition matchOrders :: "'b sdk \<Rightarrow> env \<Rightarrow> 'b chain \<Rightarrow> 'b chain option" where
  "matchOrders S e s =
     (if GetBlockOrderNum s (e_Height e) = 0 \<and> \<not> AnyProductLocked s then Some s
      else
        (let products = SortProducts s (FilterDelistedProducts s (GetNewDepthbookKeys (dcache s)))
         in case calcMatchPriceAndExecution S e products s of
              None \<Rightarrow> None
            | Some (results, s1) \<Rightarrow>
                (let lockMap = GetLockedProductsCopy s1
                 in case executeMatch S e (SortProducts s1 (products @ map fst lockMap)) results lockMap s1 of
                      None \<Rightarrow> None
                    | Some (remain, results', lockMap', s2) \<Rightarrow>
                        if results' \<noteq> []
                        then Some (SetBlockMatchResult e \<lparr>bm_BlockHeight = e_Height e, bm_ResultMap = results',
                                     bm_TimeStamp = e_Time e\<rparr> s2)
                        else Some s2)))"

text \<open>The engine runs the three phases in order.\<close>

definition Run :: "'b sdk \<Rightarrow> env \<Rightarrow> (ids_key \<Rightarrow> bool) \<Rightarrow> 'b chain \<Rightarrow> 'b chain option" where
  "Run S e spare s =
     Option.bind (cleanupExpiredOrders S e s) (\<lambda>s1.
       Option.bind (cleanupOrdersWhoseTokenPairHaveBeenDelisted S e spare s1) (matchOrders S e))"

subsection \<open>Closing orders\<close>

text \<open>
  The cleaning phases only close orders: every order they change is no longer open, and
  the heights, pairs, locks and parameters stay as they are.
\<close>

definition only_closes :: "'b chain \<Rightarrow> 'b chain \<Rightarrow> bool" where
  "only_closes s s' \<longleftrightarrow> same_book_keeping s s'
     \<and> (\<forall>i. GetOrder s' i = GetOrder s i \<or> GetOrder s i \<noteq> None \<and> GetOrder s' i \<noteq> None \<and> is_done (GetOrder s') i)
     \<and> closed_ids s' \<subseteq> closed_ids s \<union> dom (GetOrder s)"

lemma only_closes_refl [simp]: "only_closes s s"
  by (simp add: only_closes_def)

lemma only_closes_trans:
  assumes "only_closes s s'" and "only_closes s' s''"
  shows "only_closes s s''"
proof -
  have "dom (GetOrder s') = dom (GetOrder s)" using assms(1) by (auto simp: only_closes_def dom_def) (metis option.distinct(1))+
  with assms show ?thesis
    unfolding only_closes_def by (auto intro: same_book_keeping_trans simp: is_done_def) (metis | blast)+
qed

lemma is_done_mono: "only_closes s s' \<Longrightarrow> is_done (GetOrder s) i \<Longrightarrow> is_done (GetOrder s') i"
  by (auto simp: only_closes_def is_done_def) (metis (no_types, lifting))

lemma orders_inv_quit:
  assumes inv: "orders_inv s" and x: "GetOrder s i = Some x" "o_Status x = OrderStatusOpen"
    and f: "f = FeeTypeOrderCancel \<or> f = FeeTypeOrderExpire" and S: "sdk_laws S"
  obtains s' fee where "quitOrder S e x f s = Some (s', fee)" and "orders_inv s'" and "only_closes s s'"
    and "is_done (GetOrder s') i" and "\<And>j. j \<noteq> i \<Longrightarrow> GetOrder s' j = GetOrder s j"
    and "\<And>k. getOrderIDs (dcache s') k = (if k = key_of x then remove1 i (getOrderIDs (dcache s) k) else getOrderIDs (dcache s) k)"
proof -
  note I = inv [unfolded orders_inv_def]
  have wf: "order_wf x" "o_OrderID x = i" using I x(1) by (auto simp: orders_wf_def)
  have mem: "o_OrderID x \<in> set (getOrderIDs (dcache s) (key_of x))" using I x wf(2) by (auto simp: open_queued_def)
  have gx: "GetOrder s (o_OrderID x) = Some x" using x(1) wf(2) by simp
  obtain s' fee where q: "quitOrder S e x f s = Some (s', fee)"
    using quitOrder_total [OF S, of x e f s] wf(1) by (auto simp: order_wf_def)
  obtain y t where y: "coins_only s t" "s' = RemoveOrderFromDepthBook e y f (SetOrder (o_OrderID y) y t)"
    "o_OrderID y = o_OrderID x" "key_of y = key_of x" "o_RemainQuantity y = o_RemainQuantity x"
    "o_Status y \<noteq> OrderStatusOpen" "o_Quantity y = o_Quantity x" "order_fees_ok y = order_fees_ok x"
    by (rule quitOrder_success [OF q f]) blast
  note c = quitOrder_consistent [OF conjunct1 [OF I] mem gx f q] and d = coins_onlyD [OF y(1)]
  have g: "GetOrder s' = (GetOrder s)(i \<mapsto> y)" using d(1) y(3) wf(2) by (simp add: y(2) GetOrder_def fun_eq_iff)
  have o: "os_orders (ord s') = kv_set i y (os_orders (ord s))" and k: "same_book_keeping s s'"
    using d y(3) wf(2) by (simp_all add: y(2) RemoveOrderFromDepthBook_def addUpdatedOrderID_def Let_def SetOrder_def same_book_keeping_def)
  have cl: "closed_ids s' = insert i (closed_ids s)"
    using d y(3) wf(2) by (auto simp: y(2) closed_ids_def removeOrder_def closeOrder_def Let_def GetLastClosedOrderIDs_def
        RemoveOrderFromDepthBook_def addUpdatedOrderID_def SetOrder_def setDepthBook_def setOrderIDs_def split: option.splits)
  have "orders_wf s'" using orders_wf_upd [OF _ o] I y wf by (simp add: order_wf_def)
  moreover have "j \<in> set (getOrderIDs (dcache s') (key_of z))" if "GetOrder s' j = Some z" "o_Status z = OrderStatusOpen" for j z
  proof -
    have j: "j \<noteq> i" "GetOrder s j = Some z" using that y(6) by (auto simp: g split: if_splits)
    then have "j \<in> set (getOrderIDs (dcache s) (key_of z))" using I that(2) unfolding open_queued_def by blast
    then show ?thesis using j(1) c(3) [of "key_of z"] wf(2) by (metis in_set_remove1)
  qed
  then have "open_queued s'" by (simp add: open_queued_def)
  moreover have "closed_ok s'" using I y(6) by (auto simp: closed_ok_def cl is_done_def g)
  ultimately have "orders_inv s'" using c(1) by (simp add: orders_inv_def)
  moreover have "only_closes s s'" using k cl x(1) y(6) by (auto simp: only_closes_def g is_done_def)
  moreover have "is_done (GetOrder s') i" using y(6) by (simp add: is_done_def g)
  ultimately show thesis using that [OF q] c(3) by (simp add: g wf(2))
qed

subsection \<open>Expired orders\<close>

text \<open>Orders that the expiry leaves alone although their height is due: closed ones and those of a locked product.\<close>

definition exempt :: "'b chain \<Rightarrow> order \<Rightarrow> bool" where
  "exempt s x \<longleftrightarrow> IsProductLocked s (o_Product x) \<or> o_Status x \<noteq> OrderStatusOpen"

lemma only_closes_locked: "only_closes s s' \<Longrightarrow> IsProductLocked s' = IsProductLocked s"
  by (auto simp: only_closes_def same_book_keeping_def IsProductLocked_def IsTokenPairLocked_def getProductLock_def fun_eq_iff)

lemma expire_orders_ok:
  assumes "sdk_laws S" and "orders_inv s" and "distinct (map o_OrderID xs)" and "\<forall>x\<in>set xs. GetOrder s (o_OrderID x) = Some x"
  shows "\<exists>s'. ofold (expire_if_open S e) xs s = Some s' \<and> orders_inv s' \<and> only_closes s s'
    \<and> (\<forall>i. i \<notin> o_OrderID ` set xs \<longrightarrow> GetOrder s' i = GetOrder s i)
    \<and> (\<forall>x\<in>set xs. \<not> IsProductLocked s (o_Product x) \<longrightarrow> is_done (GetOrder s') (o_OrderID x))
    \<and> (\<forall>x\<in>set xs. exempt s x \<longrightarrow> GetOrder s' (o_OrderID x) = Some x)"
  using assms
proof (induction xs arbitrary: s)
  case (Cons x xs)
  have ni: "o_OrderID x \<notin> o_OrderID ` set xs" using Cons.prems(3) by auto
  obtain t where t: "expire_if_open S e x s = Some t" "orders_inv t" "only_closes s t"
    "\<And>j. j \<noteq> o_OrderID x \<Longrightarrow> GetOrder t j = GetOrder s j"
    "\<not> IsProductLocked s (o_Product x) \<Longrightarrow> is_done (GetOrder t) (o_OrderID x)"
    "exempt s x \<Longrightarrow> GetOrder t (o_OrderID x) = Some x"
  proof (cases "o_Status x = OrderStatusOpen \<and> \<not> IsProductLocked s (o_Product x)")
    case True
    from Cons.prems(4) have gx: "GetOrder s (o_OrderID x) = Some x" by simp
    show ?thesis
      by (rule orders_inv_quit [OF Cons.prems(2) gx conjunct1 [OF True] _ Cons.prems(1), of FeeTypeOrderExpire e])
        (use True that in \<open>auto simp: expire_if_open_def ExpireOrder_def exempt_def\<close>)
  next
    case False
    show ?thesis
      by (rule that [of s]) (use False Cons.prems in \<open>auto simp: expire_if_open_def is_done_def\<close>)
  qed
  have "GetOrder t (o_OrderID y) = Some y" if "y \<in> set xs" for y
    using that Cons.prems(4) t(4) [of "o_OrderID y"] ni by (metis image_eqI list.set_intros(2))
  with Cons.IH [OF Cons.prems(1) t(2)] Cons.prems(3) obtain s' where s': "ofold (expire_if_open S e) xs t = Some s'" "orders_inv s'"
    "only_closes t s'" "\<And>i. i \<notin> o_OrderID ` set xs \<Longrightarrow> GetOrder s' i = GetOrder t i"
    "\<forall>x\<in>set xs. \<not> IsProductLocked t (o_Product x) \<longrightarrow> is_done (GetOrder s') (o_OrderID x)"
    "\<forall>x\<in>set xs. exempt t x \<longrightarrow> GetOrder s' (o_OrderID x) = Some x" by auto
  note locked = only_closes_locked [OF t(3)]
  have "\<forall>y\<in>set (x # xs). exempt s y \<longrightarrow> GetOrder s' (o_OrderID y) = Some y"
    using s'(4) [OF ni] s'(6) t(6) locked by (auto simp: exempt_def)
  moreover from locked s'(5) t(5) is_done_mono [OF s'(3), of "o_OrderID x"]
  have "\<forall>y\<in>set (x # xs). \<not> IsProductLocked s (o_Product y) \<longrightarrow> is_done (GetOrder s') (o_OrderID y)" by auto
  moreover have "\<forall>i. i \<notin> o_OrderID ` set (x # xs) \<longrightarrow> GetOrder s' i = GetOrder s i" using s'(4) t(4) by simp
  moreover have "ofold (expire_if_open S e) (x # xs) s = Some s'" using t(1) s'(1) by simp
  ultimately show ?case using s'(2) only_closes_trans [OF t(3) s'(3)] by blast
qed simp

lemma map_snd_filter_orders:
  assumes "orders_wf s"
  shows "distinct (map o_OrderID (map snd (filter P (os_orders (ord s)))))"
    and "x \<in> set (map snd (filter P (os_orders (ord s)))) \<longleftrightarrow> GetOrder s (o_OrderID x) = Some x \<and> P (o_OrderID x, x)"
proof -
  let ?m = "os_orders (ord s)"
  have d: "distinct (map fst ?m)" using assms by (simp add: orders_wf_def kv_ok_distinct)
  have id: "o_OrderID v = k" if "(k, v) \<in> set ?m" for k v
    using that assms d by (auto simp: orders_wf_def GetOrder_def)
  then have "map o_OrderID (map snd (filter P ?m)) = map fst (filter P ?m)" by auto
  with d show "distinct (map o_OrderID (map snd (filter P ?m)))" by (metis distinct_map_filter)
  show "x \<in> set (map snd (filter P ?m)) \<longleftrightarrow> GetOrder s (o_OrderID x) = Some x \<and> P (o_OrderID x, x)"
  proof
    assume "x \<in> set (map snd (filter P ?m))"
    then obtain k where "(k, x) \<in> set ?m" "P (k, x)" by auto
    with id [of k x] d show "GetOrder s (o_OrderID x) = Some x \<and> P (o_OrderID x, x)" by (simp add: GetOrder_def)
  next
    assume "GetOrder s (o_OrderID x) = Some x \<and> P (o_OrderID x, x)"
    then have "(o_OrderID x, x) \<in> set (filter P ?m)" by (simp add: GetOrder_def map_of_SomeD)
    then show "x \<in> set (map snd (filter P ?m))" by (metis image_eqI list.set_map snd_conv)
  qed
qed

definition at_height :: "int \<Rightarrow> string \<Rightarrow> bool" where
  "at_height h i \<longleftrightarrow> prefix (FormatOrderIDPrefix h) i"

lemma DropExpired_ok:
  assumes S: "sdk_laws S" and inv: "orders_inv s"
  shows "\<exists>s'. DropExpiredOrdersByBlockHeight S e h s = Some s' \<and> orders_inv s' \<and> only_closes s s'
    \<and> (\<forall>i. \<not> at_height h i \<longrightarrow> GetOrder s' i = GetOrder s i)
    \<and> (\<forall>i x. at_height h i \<and> GetOrder s i = Some x \<and> \<not> IsProductLocked s (o_Product x) \<longrightarrow> is_done (GetOrder s') i)
    \<and> (\<forall>i x. GetOrder s i = Some x \<and> exempt s x \<longrightarrow> GetOrder s' i = Some x)"
proof -
  let ?P = "\<lambda>p. prefix (FormatOrderIDPrefix h) (fst p)" 
  let ?xs = "map snd (filter ?P (os_orders (ord s)))"
  have wf: "orders_wf s" using inv by (simp add: orders_inv_def)
  note m = map_snd_filter_orders [OF wf, where P = ?P]
  obtain s' where s': "ofold (expire_if_open S e) ?xs s = Some s'" "orders_inv s'" "only_closes s s'"
    "\<forall>i. i \<notin> o_OrderID ` set ?xs \<longrightarrow> GetOrder s' i = GetOrder s i"
    "\<forall>x\<in>set ?xs. \<not> IsProductLocked s (o_Product x) \<longrightarrow> is_done (GetOrder s') (o_OrderID x)"
    "\<forall>x\<in>set ?xs. exempt s x \<longrightarrow> GetOrder s' (o_OrderID x) = Some x"
    using expire_orders_ok [OF S inv m(1), of e] m(2) by blast
  have "GetOrder s' i = GetOrder s i" if "\<not> at_height h i" for i
  proof (rule s'(4) [rule_format], rule)
    assume "i \<in> o_OrderID ` set ?xs"
    then obtain x where "x \<in> set ?xs" "i = o_OrderID x" by blast
    with m(2) [of x, THEN iffD1] that show False by (auto simp: at_height_def)
  qed
  moreover have "is_done (GetOrder s') i" if "at_height h i" "GetOrder s i = Some x" "\<not> IsProductLocked s (o_Product x)" for i x
  proof -
    have "o_OrderID x = i" using that(2) wf by (simp add: orders_wf_def)
    with that m(2) [of x] have "x \<in> set ?xs" by (simp add: at_height_def)
    with s'(5) that(3) \<open>o_OrderID x = i\<close> show ?thesis by blast
  qed
  moreover have "GetOrder s' i = Some x" if "GetOrder s i = Some x" "exempt s x" for i x
  proof -
    have "o_OrderID x = i" using that(1) wf by (simp add: orders_wf_def)
    with that s'(6) calculation(1) m(2) [of x] show ?thesis by (cases "at_height h i") (auto simp: at_height_def)
  qed
  ultimately show ?thesis using s'(1-3) by (auto simp: DropExpiredOrdersByBlockHeight_def)
qed

text \<open>All open orders in question are closed unless their product is locked, the others are untouched.\<close>

definition closes_all :: "(string \<Rightarrow> bool) \<Rightarrow> 'b chain \<Rightarrow> 'b chain \<Rightarrow> bool" where
  "closes_all P s s' \<longleftrightarrow> orders_inv s' \<and> only_closes s s' \<and> (\<forall>i. \<not> P i \<longrightarrow> GetOrder s' i = GetOrder s i)
     \<and> (\<forall>i x. P i \<and> GetOrder s i = Some x \<and> \<not> IsProductLocked s (o_Product x) \<longrightarrow> is_done (GetOrder s') i)
     \<and> (\<forall>i x. GetOrder s i = Some x \<and> exempt s x \<longrightarrow> GetOrder s' i = Some x)"

lemma closes_all_refl: "orders_inv s \<Longrightarrow> closes_all (\<lambda>_. False) s s"
  by (simp add: closes_all_def)

lemma closes_all_inv: "closes_all P s s' \<Longrightarrow> orders_inv s'"
  by (simp add: closes_all_def)

lemma closes_all_trans:
  assumes 1: "closes_all P s t" and 2: "closes_all Q t s'"
  shows "closes_all (\<lambda>i. P i \<or> Q i) s s'"
  unfolding closes_all_def
proof (intro conjI allI impI)
  have c: "only_closes s t" "only_closes t s'" using 1 2 by (simp_all add: closes_all_def)
  show "orders_inv s'" "only_closes s s'" using 2 only_closes_trans [OF c] by (simp_all add: closes_all_def)
  show "GetOrder s' i = GetOrder s i" if "\<not> (P i \<or> Q i)" for i using that 1 2 by (simp add: closes_all_def)
  show "is_done (GetOrder s') i" if a: "(P i \<or> Q i) \<and> GetOrder s i = Some x \<and> \<not> IsProductLocked s (o_Product x)" for i x
  proof (cases "is_done (GetOrder t) i")
    case True
    then show ?thesis by (rule is_done_mono [OF c(2)])
  next
    case False
    then have "GetOrder t i = GetOrder s i" using c(1) unfolding only_closes_def by metis
    moreover have "Q i" using False a 1 by (auto simp: closes_all_def)
    ultimately show ?thesis using a 2 only_closes_locked [OF c(1)] by (simp add: closes_all_def)
  qed
  show "GetOrder s' i = Some x" if "GetOrder s i = Some x \<and> exempt s x" for i x
  proof -
    have "GetOrder t i = Some x" "exempt t x"
      using that 1 only_closes_locked [OF c(1)] by (auto simp: closes_all_def exempt_def)
    with 2 show ?thesis by (simp add: closes_all_def)
  qed
qed

lemma expire_height_ok:
  assumes "sdk_laws S" and "orders_inv s"
  shows "\<exists>s'. expire_height S e height s = Some s'
    \<and> closes_all (\<lambda>i. \<exists>h\<in>set (GetExpireBlockHeight s height). at_height h i) s s'"
proof -
  have "\<exists>s'. ofold (DropExpiredOrdersByBlockHeight S e) hs s = Some s' \<and> closes_all (\<lambda>i. \<exists>h\<in>set hs. at_height h i) s s'" for hs
    using assms
  proof (induction hs arbitrary: s)
    case (Cons h hs)
    obtain t where t: "DropExpiredOrdersByBlockHeight S e h s = Some t" "closes_all (at_height h) s t"
      using DropExpired_ok [OF Cons.prems, of e h] by (auto simp: closes_all_def)
    obtain s' where "ofold (DropExpiredOrdersByBlockHeight S e) hs t = Some s'" "closes_all (\<lambda>i. \<exists>h\<in>set hs. at_height h i) t s'"
      using Cons.IH [OF Cons.prems(1) closes_all_inv [OF t(2)]] by blast
    with t closes_all_trans [OF t(2) this(2)] show ?case by simp
  qed (simp add: closes_all_refl)
  then show ?thesis by (simp add: expire_height_def)
qed

lemma expire_heights_ok:
  assumes "sdk_laws S" and "orders_inv s"
  shows "\<exists>s'. ofold (expire_height S e) heights s = Some s'
    \<and> closes_all (\<lambda>i. \<exists>height\<in>set heights. \<exists>h\<in>set (GetExpireBlockHeight s height). at_height h i) s s'"
  using assms
proof (induction heights arbitrary: s)
  case (Cons height heights)
  obtain t where t: "expire_height S e height s = Some t"
    "closes_all (\<lambda>i. \<exists>h\<in>set (GetExpireBlockHeight s height). at_height h i) s t"
    using expire_height_ok [OF Cons.prems] by blast
  have "GetExpireBlockHeight t = GetExpireBlockHeight s"
    using t(2) by (auto simp: closes_all_def only_closes_def same_book_keeping_def GetExpireBlockHeight_def fun_eq_iff)
  moreover obtain s' where "ofold (expire_height S e) heights t = Some s'"
    "closes_all (\<lambda>i. \<exists>height\<in>set heights. \<exists>h\<in>set (GetExpireBlockHeight t height). at_height h i) t s'"
    using Cons.IH [OF Cons.prems(1) closes_all_inv [OF t(2)]] by blast
  ultimately show ?case using t(1) closes_all_trans [OF t(2)] by fastforce
qed (simp add: closes_all_refl)

text \<open>Steps that leave orders, books and queues alone keep their invariant.\<close>

lemma orders_inv_cong:
  assumes "keeps_orders s s'" and "orders_inv s"
  shows "orders_inv s'"
  using assms stores_cong [of "dcache s'" "dcache s"]
  by (auto simp: orders_inv_def keeps_orders_def orders_consistent_def orders_wf_def open_queued_def closed_ok_def cache_ok_def)

lemma keeps_orders_refl [simp]: "keeps_orders s s"
  by (simp add: keeps_orders_def)

lemma keeps_orders_trans: "keeps_orders s s' \<Longrightarrow> keeps_orders s' s'' \<Longrightarrow> keeps_orders s s''"
  by (simp add: keeps_orders_def)

lemma keeps_orders_heights [simp]:
  "keeps_orders s (DropExpireBlockHeight h s)" "keeps_orders s (SetExpireBlockHeight h hs s)"
  "keeps_orders s (SetLastExpiredBlockHeight h s)" "keeps_orders s (DropBlockOrderNum h s)"
  by (simp_all add: keeps_orders_def closed_ids_def GetOrder_def fun_eq_iff GetLastClosedOrderIDs_def DropExpireBlockHeight_def
      SetExpireBlockHeight_def SetLastExpiredBlockHeight_def DropBlockOrderNum_def)

lemma keeps_orders_fold: "(\<And>x t. keeps_orders t (f x t)) \<Longrightarrow> keeps_orders s (fold f xs s)"
  by (induction xs arbitrary: s) (auto intro: keeps_orders_trans)

lemma keeps_orders_drop_height [simp]: "keeps_orders s (drop_height h s)"
  unfolding drop_height_def by (rule keeps_orders_trans [OF keeps_orders_fold keeps_orders_heights(1)]) simp

lemma cacheExpired_ok:
  assumes S: "sdk_laws S" and inv: "orders_inv s"
    and L: "lst = (if GetLastExpiredBlockHeight s = 0 then e_Height e - 1 else GetLastExpiredBlockHeight s)"
  obtains s1 s' where "cacheExpiredBlockToCurrentHeight S e s = Some s'" and "orders_inv s'" and "keeps_orders s1 s'"
    and "closes_all (\<lambda>i. \<exists>height\<in>{lst + 1..e_Height e}. \<exists>h\<in>set (GetExpireBlockHeight s height). at_height h i) s s1"
    and "s' = (if AnyProductLocked s then s1
         else SetLastExpiredBlockHeight (if 1 < e_Height e then max lst (e_Height e) else lst)
           (if 1 < e_Height e then fold drop_height [lst..e_Height e - 1] s1 else s1))"
proof -
  obtain s1 where s1: "ofold (expire_height S e) [lst + 1..e_Height e] s = Some s1"
    "closes_all (\<lambda>i. \<exists>height\<in>{lst + 1..e_Height e}. \<exists>h\<in>set (GetExpireBlockHeight s height). at_height h i) s s1"
    using expire_heights_ok [OF S inv, of e "[lst + 1..e_Height e]"] by auto
  define s' where "s' = (if AnyProductLocked s then s1
         else SetLastExpiredBlockHeight (if 1 < e_Height e then max lst (e_Height e) else lst)
           (if 1 < e_Height e then fold drop_height [lst..e_Height e - 1] s1 else s1))"
  have "AnyProductLocked s1 = AnyProductLocked s"
    using s1(2) by (simp add: closes_all_def only_closes_def same_book_keeping_def AnyProductLocked_def IsAnyProductLocked_def LoadProductLocks_def)
  then have r: "cacheExpiredBlockToCurrentHeight S e s = Some s'"
    using s1(1) by (simp add: cacheExpiredBlockToCurrentHeight_def L [symmetric] s'_def Let_def)
  have so: "keeps_orders s1 s'"
    using keeps_orders_fold [of drop_height s1 "[lst..e_Height e - 1]"] by (auto simp: s'_def intro: keeps_orders_trans)
  have "orders_inv s'" using orders_inv_cong [OF so] s1(2) by (simp add: closes_all_def)
  with r so s1(2) show thesis using that s'_def by blast
qed

subsection \<open>Closed orders leave the store\<close>

lemma cache_ok_drop:
  assumes ok: "cache_ok look c" and same: "\<And>i. \<not> is_done look i \<Longrightarrow> look' i = look i"
  shows "cache_ok look' c"
proof -
  note D = cache_okD [OF ok]
  have eq: "look' i = look i" if "i \<in> set (getOrderIDs c k)" for i k
    using D(4) [OF that] by (intro same) (auto simp: queued_def is_done_def split: option.splits)
  have "queued look' k i" if "i \<in> set (getOrderIDs c k)" for k i
    using D(4) [OF that] eq [OF that] by (simp add: queued_def)
  moreover have "queue_sum look' (getOrderIDs c k) = queue_sum look (getOrderIDs c k)" for k
    by (simp add: queue_sum_def remain_of_def eq [of _ k] cong: map_cong)
  ultimately show ?thesis using D by (simp add: cache_ok_def)
qed

lemma fold_DropOrder:
  "GetOrder (fold DropOrder ids s) i = (if i \<in> set ids then None else GetOrder s i)"
  "dcache (fold DropOrder ids s) = dcache s" "GetLastClosedOrderIDs (fold DropOrder ids s) = GetLastClosedOrderIDs s"
  "kv_ok (os_orders (ord s)) \<Longrightarrow> kv_ok (os_orders (ord (fold DropOrder ids s)))"
  "same_book_keeping s (fold DropOrder ids s)"
  by (induction ids arbitrary: s)
    (auto simp: DropOrder_def GetOrder_def GetLastClosedOrderIDs_def kv_ok_del same_book_keeping_def)

lemma cleanLast_ok:
  assumes "orders_inv s"
  shows "orders_inv (cleanLastBlockClosedOrders s)"
    and "GetOrder (cleanLastBlockClosedOrders s) i = (if i \<in> set (GetLastClosedOrderIDs s) then None else GetOrder s i)"
    and "closed_ids (cleanLastBlockClosedOrders s) = closed_ids s"
    and "same_book_keeping s (cleanLastBlockClosedOrders s)"
    and "getOrderIDs (dcache (cleanLastBlockClosedOrders s)) = getOrderIDs (dcache s)"
    and "book_of (dcache (cleanLastBlockClosedOrders s)) = book_of (dcache s)"
proof -
  let ?s = "cleanLastBlockClosedOrders s"
  note I = assms [unfolded orders_inv_def]
  have c: "dk_books (dcache ?s) = dk_books (dcache s)" "dk_ids (dcache ?s) = dk_ids (dcache s)"
    by (simp_all add: cleanLastBlockClosedOrders_def DecreaseStoreOrderNum_def Let_def fold_DropOrder)
  note st = stores_cong [OF c]
  show g: "GetOrder ?s i = (if i \<in> set (GetLastClosedOrderIDs s) then None else GetOrder s i)" for i
    using fold_DropOrder(1) [of "GetLastClosedOrderIDs s" s i] by (simp add: cleanLastBlockClosedOrders_def Let_def GetOrder_def)
  show cl: "closed_ids ?s = closed_ids s"
    using fold_DropOrder(2,3) [of "GetLastClosedOrderIDs s" s]
    by (simp add: cleanLastBlockClosedOrders_def Let_def closed_ids_def DecreaseStoreOrderNum_def GetLastClosedOrderIDs_def)
  show "getOrderIDs (dcache ?s) = getOrderIDs (dcache s)" "book_of (dcache ?s) = book_of (dcache s)" using st by simp_all
  show "same_book_keeping s ?s"
    using fold_DropOrder(5) [of s "GetLastClosedOrderIDs s"] by (simp add: cleanLastBlockClosedOrders_def Let_def same_book_keeping_def)
  have d: "GetOrder ?s i = GetOrder s i" if "\<not> is_done (GetOrder s) i" for i
    using that I by (auto simp: g closed_ok_def closed_ids_def)
  have "cache_ok (GetOrder ?s) (dcache s)" using I d by (auto simp: orders_consistent_def intro: cache_ok_drop)
  then have "orders_consistent ?s" unfolding orders_consistent_def using st by (auto simp: cache_ok_def)
  moreover have "orders_wf ?s"
  proof -
    have "kv_ok (os_orders (ord ?s))"
      using I fold_DropOrder(4) [of s "GetLastClosedOrderIDs s"] by (simp add: orders_wf_def cleanLastBlockClosedOrders_def Let_def)
    with I show ?thesis by (auto simp: orders_wf_def g split: if_splits)
  qed
  moreover have "open_queued ?s" using I st by (auto simp: open_queued_def g split: if_splits)
  moreover have "closed_ok ?s" using I by (auto simp: closed_ok_def cl is_done_def g)
  ultimately show "orders_inv ?s" by (simp add: orders_inv_def)
qed

lemma mark_ok [simp]: "keeps_orders s (markCurBlockToFutureExpireBlockList e s)"
  by (simp add: markCurBlockToFutureExpireBlockList_def Let_def)

lemma cleanupExpiredOrders_ok:
  assumes S: "sdk_laws S" and inv: "orders_inv s"
  obtains s' where "cleanupExpiredOrders S e s = Some s'" and "orders_inv s'" and "dex s' = dex s" and "ordP s' = ordP s"
    and "dom (GetOrder s') \<subseteq> dom (GetOrder s)"
    and "\<And>i x. GetOrder s' i = Some x \<Longrightarrow> o_Status x = OrderStatusOpen \<Longrightarrow> GetOrder s i = Some x"
    and "closed_ids s' \<subseteq> closed_ids s \<union> dom (GetOrder s)"
proof -
  let ?t = "markCurBlockToFutureExpireBlockList e s" and ?u = "cleanLastBlockClosedOrders (markCurBlockToFutureExpireBlockList e s)"
  have t: "orders_inv ?t" "GetOrder ?t = GetOrder s" "closed_ids ?t = closed_ids s"
    using orders_inv_cong [OF mark_ok inv] mark_ok [of s e] by (simp_all add: keeps_orders_def)
  note u = cleanLast_ok [OF t(1)]
  obtain s1 s' P where r: "cacheExpiredBlockToCurrentHeight S e ?u = Some s'" "orders_inv s'" "keeps_orders s1 s'"
    "closes_all P ?u s1" and s': "dex s' = dex s1" "ordP s' = ordP s1"
  proof (rule cacheExpired_ok [OF S u(1) refl, of e], goal_cases)
    case (1 s1 s')
    have "dex (fold drop_height hs x) = dex x \<and> ordP (fold drop_height hs x) = ordP x" for hs and x :: "'a chain"
    proof (induction hs arbitrary: x)
      case (Cons h hs)
      have "dex (fold DropBlockOrderNum ns x) = dex x \<and> ordP (fold DropBlockOrderNum ns x) = ordP x" for ns
        by (induction ns arbitrary: x) (simp_all add: DropBlockOrderNum_def)
      with Cons show ?case by (simp add: drop_height_def DropExpireBlockHeight_def)
    qed simp
    with 1 show ?case by (intro 1(1) [OF 1(2-5)]) (auto simp: SetLastExpiredBlockHeight_def)
  qed
  have oc: "only_closes ?u s1" "GetOrder s' = GetOrder s1" "closed_ids s' = closed_ids s1"
    using r(3,4) by (simp_all add: closes_all_def keeps_orders_def)
  have k: "dex ?u = dex s" "ordP ?u = ordP s"
    using u(4) by (simp_all add: same_book_keeping_def markCurBlockToFutureExpireBlockList_def Let_def SetExpireBlockHeight_def)
  show thesis
  proof (rule that)
    show "cleanupExpiredOrders S e s = Some s'" "orders_inv s'" using r by (simp_all add: cleanupExpiredOrders_def)
    show "dex s' = dex s" "ordP s' = ordP s" using s' k oc(1) by (simp_all add: only_closes_def same_book_keeping_def)
    have un: "GetOrder s' i = GetOrder ?u i \<or> GetOrder ?u i \<noteq> None \<and> is_done (GetOrder s') i" for i
      using oc unfolding only_closes_def by metis
    show "dom (GetOrder s') \<subseteq> dom (GetOrder s)"
      using un u(2) t(2) by (auto simp: dom_def split: if_splits) (metis option.distinct(1))
    show "GetOrder s i = Some x" if "GetOrder s' i = Some x" "o_Status x = OrderStatusOpen" for i x
      using un [of i] that u(2) [of i] t(2) by (auto simp: is_done_def split: if_splits)
    have "dom (GetOrder ?u) \<subseteq> dom (GetOrder s)" using u(2) t(2) by (auto simp: dom_def split: if_splits)
    then show "closed_ids s' \<subseteq> closed_ids s \<union> dom (GetOrder s)"
      using oc(1,3) u(3) t(3) unfolding only_closes_def by blast
  qed
qed

subsection \<open>Delisted pairs\<close>

abbreviation open_at :: "'b chain \<Rightarrow> string \<Rightarrow> bool" where
  "open_at s i \<equiv> \<not> is_done (GetOrder s) i"

lemma cancel_step:
  assumes S: "sdk_laws S" and inv: "orders_inv s" and op: "open_at s i"
  obtains x s' fee where "GetOrder s i = Some x" and "CancelOrder S e x s = Some (s', fee)" and "orders_inv s'" and "only_closes s s'"
    and "is_done (GetOrder s') i" and "\<And>j. j \<noteq> i \<Longrightarrow> GetOrder s' j = GetOrder s j"
    and "\<And>k. getOrderIDs (dcache s') k = (if k = key_of x then remove1 i (getOrderIDs (dcache s) k) else getOrderIDs (dcache s) k)"
proof -
  obtain x where x: "GetOrder s i = Some x" "o_Status x = OrderStatusOpen" using op by (auto simp: is_done_def split: option.splits)
  show thesis
    by (rule orders_inv_quit [OF inv x _ S, of FeeTypeOrderCancel e]) (use x(1) that in \<open>auto simp: CancelOrder_def\<close>)
qed

lemma open_at_other: "(\<And>j. j \<noteq> i \<Longrightarrow> GetOrder s' j = GetOrder s j) \<Longrightarrow> j \<noteq> i \<Longrightarrow> open_at s' j = open_at s j"
  by (simp add: is_done_def)

lemma clean_list_ok:
  assumes "sdk_laws S" and "orders_inv s" and "distinct (map ((!) arr) is)" and "\<forall>i\<in>set is. open_at s (arr ! i)"
  shows "\<exists>s'. cleanOrdersByOrderIDList S e None arr is s = Some s' \<and> orders_inv s' \<and> only_closes s s'
    \<and> (\<forall>j. j \<notin> (!) arr ` set is \<longrightarrow> GetOrder s' j = GetOrder s j) \<and> (\<forall>i\<in>set is. is_done (GetOrder s') (arr ! i))
    \<and> (\<forall>k. (\<forall>i\<in>set is. \<forall>x. GetOrder s (arr ! i) = Some x \<longrightarrow> key_of x \<noteq> k) \<longrightarrow> getOrderIDs (dcache s') k = getOrderIDs (dcache s) k)"
  using assms
proof (induction "is" arbitrary: s)
  case (Cons i "is")
  obtain x t fee where t: "GetOrder s (arr ! i) = Some x" "CancelOrder S e x s = Some (t, fee)" "orders_inv t" "only_closes s t"
    "is_done (GetOrder t) (arr ! i)" "\<And>j. j \<noteq> arr ! i \<Longrightarrow> GetOrder t j = GetOrder s j"
    "\<And>k. getOrderIDs (dcache t) k = (if k = key_of x then remove1 (arr ! i) (getOrderIDs (dcache s) k) else getOrderIDs (dcache s) k)"
    using Cons.prems(4) by (auto intro: cancel_step [OF Cons.prems(1,2), of "arr ! i" e])
  have "\<forall>k\<in>set is. open_at t (arr ! k)"
    using Cons.prems(3,4) open_at_other [OF t(6)] by (metis distinct.simps(2) image_eqI list.set_intros(2) list.set_map list.simps(9))
  with Cons.IH [OF Cons.prems(1) t(3)] Cons.prems(3) obtain s' where s': "cleanOrdersByOrderIDList S e None arr is t = Some s'"
    "orders_inv s'" "only_closes t s'" "\<forall>j. j \<notin> (!) arr ` set is \<longrightarrow> GetOrder s' j = GetOrder t j"
    "\<forall>i\<in>set is. is_done (GetOrder s') (arr ! i)"
    "\<forall>k. (\<forall>i\<in>set is. \<forall>x. GetOrder t (arr ! i) = Some x \<longrightarrow> key_of x \<noteq> k) \<longrightarrow> getOrderIDs (dcache s') k = getOrderIDs (dcache t) k"
    by auto
  have other: "GetOrder t (arr ! k) = GetOrder s (arr ! k)" if "k \<in> set is" for k
    using that Cons.prems(3) t(6) [of "arr ! k"] by (auto dest: sym)
  have "getOrderIDs (dcache s') k = getOrderIDs (dcache s) k"
    if "\<forall>i\<in>set (i # is). \<forall>x. GetOrder s (arr ! i) = Some x \<longrightarrow> key_of x \<noteq> k" for k
    using s'(6) [rule_format, of k] that other t(1,7) by (auto simp del: not_None_eq)
  moreover  have "cleanOrdersByOrderIDList S e None arr (i # is) s = Some s'" using t(1,2) s'(1) by simp
  moreover have "\<forall>k\<in>set (i # is). is_done (GetOrder s') (arr ! k)" using s'(5) is_done_mono [OF s'(3) t(5)] by simp
  moreover have "\<forall>j. j \<notin> (!) arr ` set (i # is) \<longrightarrow> GetOrder s' j = GetOrder s j" using s'(4) t(6) by simp
  ultimately show ?case using s'(2) only_closes_trans [OF t(4) s'(3)] by blast
qed simp

lemma clean_list_cong:
  "\<forall>i\<in>set is. arr' ! i = arr ! i \<Longrightarrow> cleanOrdersByOrderIDList S e None arr' is s = cleanOrdersByOrderIDList S e None arr is s"
  by (induction "is" arbitrary: s) (auto split: option.splits)

text \<open>Orders of other queues leave the shared array alone.\<close>

lemma clean_list_other:
  assumes "sdk_laws S" and "orders_inv s" and "distinct (map ((!) arr) is)" and "\<forall>i\<in>set is. open_at s (arr ! i)"
    and "\<forall>i\<in>set is. \<forall>x. GetOrder s (arr ! i) = Some x \<longrightarrow> key_of x \<noteq> key"
  shows "cleanOrdersByOrderIDList S e (Some key) arr is s = cleanOrdersByOrderIDList S e None arr is s"
  using assms
proof (induction "is" arbitrary: s)
  case (Cons i "is")
  obtain x t fee where t: "GetOrder s (arr ! i) = Some x" "CancelOrder S e x s = Some (t, fee)" "orders_inv t"
    "\<And>j. j \<noteq> arr ! i \<Longrightarrow> GetOrder t j = GetOrder s j"
    "\<And>k. getOrderIDs (dcache t) k = (if k = key_of x then remove1 (arr ! i) (getOrderIDs (dcache s) k) else getOrderIDs (dcache s) k)"
    using Cons.prems(4) by (auto intro: cancel_step [OF Cons.prems(1,2), of "arr ! i" e])
  have ne: "arr ! k \<noteq> arr ! i" if "k \<in> set is" for k using that Cons.prems(3) by (auto dest: sym)
  have "GetProductPriceOrderIDs t key = GetProductPriceOrderIDs s key"
    using t(1,5) Cons.prems(5) by (auto simp: GetProductPriceOrderIDs_def)
  moreover have "cleanOrdersByOrderIDList S e (Some key) arr is t = cleanOrdersByOrderIDList S e None arr is t"
    using Cons.prems(3-5) ne t(4) open_at_other [OF t(4)] by (intro Cons.IH [OF Cons.prems(1) t(3)]) (simp_all del: not_None_eq)
  ultimately show ?case using t(1,2) by (simp add: after_removal_def)
qed simp

lemma queued_open: "queued (GetOrder s) k i \<Longrightarrow> open_at s i"
  by (auto simp: queued_def is_done_def split: option.splits)

lemma queued_key: "queued look k i \<Longrightarrow> look i = Some x \<Longrightarrow> key_of x = k"
  by (simp add: queued_def)

lemma queued_same: "look' i = look i \<Longrightarrow> queued look' k i = queued look k i"
  by (simp add: queued_def)

lemma clean_sells:
  assumes S: "sdk_laws S" and inv: "orders_inv s" and n: "drop n arr = sells" "n + length sells = length arr" and d: "distinct sells"
    and q: "\<forall>i\<in>set sells. queued (GetOrder s) sellKey i" and ne: "sellKey \<noteq> key"
  shows "cleanOrdersByOrderIDList S e (Some key) arr [n..<length arr] s = cleanOrdersByOrderIDList S e None arr [n..<length arr] s"
proof (rule clean_list_other [OF S inv])
  have arr: "map ((!) arr) [n..<length arr] = sells" using n by (metis drop_map map_nth drop_upt add_0)
  then show "distinct (map ((!) arr) [n..<length arr])" using d by simp
  have "queued (GetOrder s) sellKey (arr ! i)" if "i \<in> set [n..<length arr]" for i
    using q arr that by (metis image_eqI list.set_map)
  then show "\<forall>i\<in>set [n..<length arr]. open_at s (arr ! i)" "\<forall>i\<in>set [n..<length arr]. \<forall>x. GetOrder s (arr ! i) = Some x \<longrightarrow> key_of x \<noteq> key"
    using ne queued_open queued_key by blast+
qed

text \<open>With at most two buy orders the loop still reads every order once.\<close>

lemma clean_shared:
  assumes S: "sdk_laws S" and inv: "orders_inv s" and ids: "getOrderIDs (dcache s) buyKey = buys" "getOrderIDs (dcache s) sellKey = sells"
    and ne: "sellKey \<noteq> buyKey" and short: "length buys \<le> 2"
  shows "cleanOrdersByOrderIDList S e (Some buyKey) (buys @ sells) [0..<length (buys @ sells)] s =
    cleanOrdersByOrderIDList S e None (buys @ sells) [0..<length (buys @ sells)] s"
proof -
  have ok: "cache_ok (GetOrder s) (dcache s)" using inv by (simp add: orders_inv_def orders_consistent_def)
  note D = cache_okD(3,4) [OF ok]
  have d: "distinct buys" "distinct sells" using D(1) [of buyKey] D(1) [of sellKey] ids by simp_all
  have qb: "queued (GetOrder s) buyKey i" if "i \<in> set buys" for i using D(2) [of i buyKey] that ids by simp
  have qs: "queued (GetOrder s) sellKey i" if "i \<in> set sells" for i using D(2) [of i sellKey] that ids by simp
  have disj: "i \<notin> set sells" if "i \<in> set buys" for i using qb [OF that] qs [of i] ne queued_unique by metis
  have q_op: "open_at s i" if "i \<in> set buys" for i using qb [OF that] by (rule queued_open)
  consider "buys = []" | A where "buys = [A]" | A B where "buys = [A, B]" using short
    by (cases buys; cases "tl buys") auto
  then show ?thesis
  proof cases
    case 1
    with clean_sells [OF S inv, of 0 sells sells sellKey buyKey e] d qs ne show ?thesis by simp
  next
    case (2 A)
    obtain x t fee where t: "GetOrder s A = Some x" "CancelOrder S e x s = Some (t, fee)" "orders_inv t"
      "\<And>j. j \<noteq> A \<Longrightarrow> GetOrder t j = GetOrder s j"
      "\<And>k. getOrderIDs (dcache t) k = (if k = key_of x then remove1 A (getOrderIDs (dcache s) k) else getOrderIDs (dcache s) k)"
      by (rule cancel_step [OF S inv q_op, of A e]) (use 2 in auto)
    have kx: "key_of x = buyKey" using qb [of A] 2 t(1) by (simp add: queued_def)
    have "\<forall>i\<in>set sells. queued (GetOrder t) sellKey i"
    proof
      fix i assume i: "i \<in> set sells"
      then have "i \<noteq> A" using disj [of A] 2 by auto
      then show "queued (GetOrder t) sellKey i" using queued_same [of "GetOrder t" i "GetOrder s"] t(4) qs [OF i] by simp
    qed
    then have "cleanOrdersByOrderIDList S e (Some buyKey) (A # sells) [1..<Suc (length sells)] t =
        cleanOrdersByOrderIDList S e None (A # sells) [1..<Suc (length sells)] t"
      using clean_sells [OF S t(3), of 1 "A # sells" sells sellKey buyKey e] d ne by simp
    moreover have "getOrderIDs (dcache t) buyKey = []" using t(5) [of buyKey] kx ids(1) 2 by simp
    moreover have "[0..<length (buys @ sells)] = 0 # [1..<Suc (length sells)]" using 2 by (simp add: upt_conv_Cons del: upt_Suc)
    ultimately show ?thesis
      using 2 t(1,2) ids(1) by (simp add: GetProductPriceOrderIDs_def after_removal_def del: upt_Suc)
  next
    case (3 A B)
    have AB: "A \<noteq> B" using 3 d by simp
    obtain x t fee where t: "GetOrder s A = Some x" "CancelOrder S e x s = Some (t, fee)" "orders_inv t"
      "\<And>j. j \<noteq> A \<Longrightarrow> GetOrder t j = GetOrder s j"
      "\<And>k. getOrderIDs (dcache t) k = (if k = key_of x then remove1 A (getOrderIDs (dcache s) k) else getOrderIDs (dcache s) k)"
      by (rule cancel_step [OF S inv q_op, of A e]) (use 3 in auto)
    have opB: "open_at t B" using q_op [of B] t(4) [of B] AB 3 by (simp add: is_done_def)
    obtain y u fee' where u: "GetOrder t B = Some y" "CancelOrder S e y t = Some (u, fee')" "orders_inv u"
      "\<And>j. j \<noteq> B \<Longrightarrow> GetOrder u j = GetOrder t j"
      "\<And>k. getOrderIDs (dcache u) k = (if k = key_of y then remove1 B (getOrderIDs (dcache t) k) else getOrderIDs (dcache t) k)"
      by (rule cancel_step [OF S t(3) opB, of e]) auto
    have kx: "key_of x = buyKey" "key_of y = buyKey"
      using qb [of A] qb [of B] 3 t(1) u(1) t(4) [of B] AB by (simp_all add: queued_def)
    have it: "getOrderIDs (dcache t) buyKey = [B]" and iu: "getOrderIDs (dcache u) buyKey = []"
      using t(5) [of buyKey] u(5) [of buyKey] kx ids(1) 3 by simp_all
    have "\<forall>i\<in>set sells. queued (GetOrder u) sellKey i"
    proof
      fix i assume i: "i \<in> set sells"
      then have "i \<noteq> A" "i \<noteq> B" using disj [of A] disj [of B] 3 by auto
      then show "queued (GetOrder u) sellKey i" using queued_same [of "GetOrder u" i "GetOrder s"] t(4) u(4) qs [OF i] by simp
    qed
    then have "cleanOrdersByOrderIDList S e (Some buyKey) (B # B # sells) [2..<Suc (Suc (length sells))] u =
        cleanOrdersByOrderIDList S e None (B # B # sells) [2..<Suc (Suc (length sells))] u"
      using clean_sells [OF S u(3), of 2 "B # B # sells" sells sellKey buyKey e] d ne by simp
    also have "\<dots> = cleanOrdersByOrderIDList S e None (A # B # sells) [2..<Suc (Suc (length sells))] u"
      by (rule clean_list_cong) (auto simp: nth_Cons split: nat.splits)
    finally have rest: "cleanOrdersByOrderIDList S e (Some buyKey) (B # B # sells) [2..<Suc (Suc (length sells))] u =
        cleanOrdersByOrderIDList S e None (A # B # sells) [2..<Suc (Suc (length sells))] u" .
    have "[0..<length (buys @ sells)] = 0 # 1 # [2..<Suc (Suc (length sells))]"
      using 3 by (simp add: upt_conv_Cons numeral_2_eq_2 del: upt_Suc)
    with rest show ?thesis
      using 3 t(1,2) u(1,2) ids(1) it iu by (simp add: GetProductPriceOrderIDs_def after_removal_def del: upt_Suc)
  qed
qed

text \<open>When the loop sees every order: the array is not shared, or there are at most two buy orders.\<close>

definition reads_all :: "(ids_key \<Rightarrow> bool) \<Rightarrow> 'b chain \<Rightarrow> string \<Rightarrow> bool" where
  "reads_all spare s product \<longleftrightarrow> (\<forall>price.
     let buyKey = FormatOrderIDsKey product price BuyOrder;
         buys = GetProductPriceOrderIDs s buyKey;
         sells = GetProductPriceOrderIDs s (FormatOrderIDsKey product price SellOrder)
     in length buys \<le> 2 \<or> shared_list spare buyKey buys sells = None)"

text \<open>Orders of a product at a price.\<close>

definition order_at :: "'b chain \<Rightarrow> string \<Rightarrow> dec set \<Rightarrow> string \<Rightarrow> bool" where
  "order_at s product prices i \<longleftrightarrow> (\<exists>x. GetOrder s i = Some x \<and> o_Product x = product \<and> o_Price x \<in> prices)"

definition cleans :: "string \<Rightarrow> dec set \<Rightarrow> 'b chain \<Rightarrow> 'b chain \<Rightarrow> bool" where
  "cleans product prices s s' \<longleftrightarrow> orders_inv s' \<and> only_closes s s'
     \<and> (\<forall>i. \<not> order_at s product prices i \<longrightarrow> GetOrder s' i = GetOrder s i)
     \<and> (\<forall>i. order_at s product prices i \<longrightarrow> is_done (GetOrder s') i)
     \<and> (\<forall>k. fst k \<noteq> product \<or> fst (snd k) \<notin> prices \<longrightarrow> getOrderIDs (dcache s') k = getOrderIDs (dcache s) k)"

lemma clean_level_ok:
  assumes S: "sdk_laws S" and inv: "orders_inv s"
    and ra: "length (getOrderIDs (dcache s) (product, p, BuyOrder)) \<le> 2 \<or>
      shared_list spare (product, p, BuyOrder) (getOrderIDs (dcache s) (product, p, BuyOrder)) (getOrderIDs (dcache s) (product, p, SellOrder)) = None"
    and p: "p = i_Price item"
  shows "\<exists>s'. clean_level S e spare product item s = Some s' \<and> cleans product {p} s s'"
proof -
  let ?b = "(product, p, BuyOrder)" and ?a = "(product, p, SellOrder)"
  let ?buys = "getOrderIDs (dcache s) ?b" and ?sells = "getOrderIDs (dcache s) ?a"
  let ?arr = "?buys @ ?sells" and ?is = "[0..<length (?buys @ ?sells)]"
  have ne: "?a \<noteq> ?b" by (simp add: BuyOrder_def SellOrder_def)
  have ok: "cache_ok (GetOrder s) (dcache s)" using inv by (simp add: orders_inv_def orders_consistent_def)
  note D = cache_okD(3,4) [OF ok]
  have arr: "map ((!) ?arr) ?is = ?arr" by (rule map_nth)
  have "x \<notin> set ?sells" if "x \<in> set ?buys" for x using D(2) [of x ?b] D(2) [of x ?a] that ne queued_unique by metis
  then have dis: "distinct ?arr" using D(1) [of ?b] D(1) [of ?a] by auto
  have key: "\<exists>k. queued (GetOrder s) k i \<and> (k = ?b \<or> k = ?a)" if "i \<in> set ?arr" for i
    using that D(2) [of i ?b] D(2) [of i ?a] by (metis Un_iff set_append)
  have pre: "distinct (map ((!) ?arr) ?is)" using dis arr by simp
  have opn: "\<forall>i\<in>set ?is. open_at s (?arr ! i)"
  proof
    fix i assume "i \<in> set ?is"
    then have "?arr ! i \<in> set ?arr" by (intro nth_mem) simp
    from key [OF this] show "open_at s (?arr ! i)" using queued_open by blast
  qed
  obtain s' where c: "cleanOrdersByOrderIDList S e None ?arr ?is s = Some s'" "orders_inv s'" "only_closes s s'"
    "\<forall>j. j \<notin> (!) ?arr ` set ?is \<longrightarrow> GetOrder s' j = GetOrder s j" "\<forall>i\<in>set ?is. is_done (GetOrder s') (?arr ! i)"
    "\<forall>k. (\<forall>i\<in>set ?is. \<forall>x. GetOrder s (?arr ! i) = Some x \<longrightarrow> key_of x \<noteq> k) \<longrightarrow> getOrderIDs (dcache s') k = getOrderIDs (dcache s) k"
    using clean_list_ok [OF S inv pre opn, of e] by blast
  have im: "(!) ?arr ` set ?is = set ?arr" using arr by (metis list.set_map)
  have run: "clean_level S e spare product item s = Some s'"
  proof (cases "shared_list spare ?b ?buys ?sells")
    case None
    with c(1) p show ?thesis by (simp add: clean_level_def FormatOrderIDsKey_def GetProductPriceOrderIDs_def Let_def del: upt_Suc)
  next
    case (Some k)
    then have "k = ?b" by (simp add: shared_list_def split: if_splits)
    moreover have "length ?buys \<le> 2" using ra Some by simp
    ultimately show ?thesis
      using c(1) p Some clean_shared [OF S inv refl refl ne, of e]
      by (simp add: clean_level_def FormatOrderIDsKey_def GetProductPriceOrderIDs_def Let_def del: upt_Suc)
  qed
  have "GetOrder s' i = GetOrder s i" if n: "\<not> order_at s product {p} i" for i
  proof -
    have "i \<notin> set ?arr" using key [of i] n by (auto simp: order_at_def elim!: queuedE)
    with c(4) im show ?thesis by blast
  qed
  moreover have "is_done (GetOrder s') i" if n: "order_at s product {p} i" for i
  proof (cases "is_done (GetOrder s) i")
    case True
    then show ?thesis by (rule is_done_mono [OF c(3)])
  next
    case False
    obtain x where x: "GetOrder s i = Some x" "o_Product x = product" "o_Price x = p" using n by (auto simp: order_at_def)
    have "o_Status x = OrderStatusOpen" using False x(1) by (simp add: is_done_def)
    then have i: "i \<in> set (getOrderIDs (dcache s) (key_of x))" using inv x(1) by (simp add: orders_inv_def open_queued_def)
    then have "order_live x" using D(2) [OF i] x(1) by (simp add: queued_def)
    then have "i \<in> set ?arr" using i x(2,3) by (auto simp: order_live_def)
    with c(5) im show ?thesis by (metis (no_types, lifting) image_iff)
  qed
  moreover have "getOrderIDs (dcache s') k = getOrderIDs (dcache s) k" if "fst k \<noteq> product \<or> fst (snd k) \<noteq> p" for k
  proof (rule c(6) [rule_format])
    fix i x assume "i \<in> set ?is" "GetOrder s (?arr ! i) = Some x"
    moreover from this im have "?arr ! i \<in> set ?arr" by blast
    ultimately show "key_of x \<noteq> k" using key [of "?arr ! i"] that queued_key by fastforce
  qed
  ultimately show ?thesis using run c(2,3) by (auto simp: cleans_def)
qed

lemma cleans_trans:
  assumes 1: "cleans product P s t" and 2: "cleans product Q t s'"
  shows "cleans product (P \<union> Q) s s'"
  unfolding cleans_def
proof (intro conjI allI impI)
  have c: "only_closes s t" "only_closes t s'" using 1 2 by (simp_all add: cleans_def)
  show "orders_inv s'" "only_closes s s'" using 2 only_closes_trans [OF c] by (simp_all add: cleans_def)
  show "GetOrder s' i = GetOrder s i" if "\<not> order_at s product (P \<union> Q) i" for i
  proof -
    have "GetOrder t i = GetOrder s i" using that 1 by (auto simp: cleans_def order_at_def)
    with that 2 show ?thesis by (auto simp: cleans_def order_at_def)
  qed
  show "is_done (GetOrder s') i" if a: "order_at s product (P \<union> Q) i" for i
  proof (cases "is_done (GetOrder t) i")
    case True
    then show ?thesis by (rule is_done_mono [OF c(2)])
  next
    case False
    then have "GetOrder t i = GetOrder s i" using c(1) unfolding only_closes_def by metis
    moreover have "\<not> order_at s product P i" using False 1 by (auto simp: cleans_def)
    ultimately have "order_at t product Q i" using a by (auto simp: order_at_def)
    with 2 show ?thesis by (simp add: cleans_def)
  qed
  show "getOrderIDs (dcache s') k = getOrderIDs (dcache s) k" if "fst k \<noteq> product \<or> fst (snd k) \<notin> P \<union> Q" for k
    using that 1 2 by (cases k) (auto simp: cleans_def)
qed

lemma clean_levels_ok:
  assumes "sdk_laws S" and "orders_inv s" and "reads_all spare s product" and "distinct (map i_Price items)"
  shows "\<exists>s'. ofold (clean_level S e spare product) items s = Some s' \<and> cleans product (i_Price ` set items) s s'"
  using assms
proof (induction items arbitrary: s)
  case Nil
  then show ?case by (simp add: cleans_def order_at_def)
next
  case (Cons item items)
  have ra: "length (getOrderIDs (dcache s) (product, p, BuyOrder)) \<le> 2 \<or>
      shared_list spare (product, p, BuyOrder) (getOrderIDs (dcache s) (product, p, BuyOrder)) (getOrderIDs (dcache s) (product, p, SellOrder)) = None" for p
    using Cons.prems(3) by (simp add: reads_all_def FormatOrderIDsKey_def GetProductPriceOrderIDs_def Let_def)
  obtain t where t: "clean_level S e spare product item s = Some t" "cleans product {i_Price item} s t"
    using clean_level_ok [OF Cons.prems(1,2) ra refl] by blast
  have "getOrderIDs (dcache t) (product, p, side) = getOrderIDs (dcache s) (product, p, side)" if "p \<noteq> i_Price item" for p side
    using t(2) that by (simp add: cleans_def)
  moreover have "getOrderIDs (dcache t) (product, i_Price item, side) = []" for side
  proof (rule ccontr)
    assume "getOrderIDs (dcache t) (product, i_Price item, side) \<noteq> []"
    then obtain i where "i \<in> set (getOrderIDs (dcache t) (product, i_Price item, side))" by (meson last_in_set)
    moreover have "cache_ok (GetOrder t) (dcache t)" using t(2) by (simp add: cleans_def orders_inv_def orders_consistent_def)
    ultimately have q: "queued (GetOrder t) (product, i_Price item, side) i" by (rule cache_okD(4) [rotated])
    then obtain x where x: "GetOrder t i = Some x" "o_Product x = product" "o_Price x = i_Price item" by (auto elim!: queuedE)
    have "open_at t i" by (rule queued_open [OF q])
    then have "GetOrder t i = GetOrder s i" using t(2) unfolding cleans_def only_closes_def by metis
    with x \<open>open_at t i\<close> t(2) show False by (auto simp: cleans_def order_at_def)
  qed
  ultimately have "reads_all spare t product"
    using ra unfolding reads_all_def FormatOrderIDsKey_def GetProductPriceOrderIDs_def Let_def
    by (metis le_numeral_extra(3) list.size(3) zero_le)
  moreover have "orders_inv t" using t(2) by (simp add: cleans_def)
  ultimately obtain s' where "ofold (clean_level S e spare product) items t = Some s'" "cleans product (i_Price ` set items) t s'"
    using Cons.IH [OF Cons.prems(1)] Cons.prems(4) by auto
  with t(1) cleans_trans [OF t(2)] show ?case by fastforce
qed

lemma open_order_level:
  assumes inv: "orders_inv s" and x: "GetOrder s i = Some x" "o_Status x = OrderStatusOpen"
  shows "o_Price x \<in> i_Price ` set (book_of (dcache s) (o_Product x))"
proof -
  have ok: "cache_ok (GetOrder s) (dcache s)" using inv by (simp add: orders_inv_def orders_consistent_def)
  let ?k = "(o_Price x, o_Side x)"
  have i: "i \<in> set (getOrderIDs (dcache s) (o_Product x, ?k))" using inv x by (auto simp: orders_inv_def open_queued_def)
  have q: "\<forall>j\<in>set (getOrderIDs (dcache s) (o_Product x, ?k)). queued (GetOrder s) (o_Product x, ?k) j"
    using cache_okD(4) [OF ok] by blast
  have "0 < remain_of (GetOrder s) i" using q i x(1) by (auto simp: queued_def remain_of_def order_live_def)
  then have "0 < book_qty (book_of (dcache s) (o_Product x)) ?k"
    using queue_sum_mem [OF q i] cache_okD(5) [OF ok, of "o_Product x" ?k] by simp
  then show ?thesis by (rule book_qty_pos_price [OF cache_okD(2) [OF ok]])
qed

lemma cleanup_product_ok:
  assumes S: "sdk_laws S" and inv: "orders_inv s" and ra: "reads_all spare s product"
  shows "\<exists>s'. cleanupOrdersByProduct S e spare product s = Some s' \<and> cleans product UNIV s s'"
proof -
  let ?b = "book_of (dcache s) product"
  have ok: "cache_ok (GetOrder s) (dcache s)" using inv by (simp add: orders_inv_def orders_consistent_def)
  have d: "desc ?b" using cache_okD(2) [OF ok, of product] by (simp add: book_ok_def)
  have "desc items \<Longrightarrow> distinct (map i_Price items)" for items by (induction items) auto
  with d have dp: "distinct (map i_Price ?b)" by blast
  obtain s' where s': "ofold (clean_level S e spare product) ?b s = Some s'" "cleans product (i_Price ` set ?b) s s'"
    using clean_levels_ok [OF S inv ra dp] by blast
  have lv: "order_at s product (i_Price ` set ?b) i" if o: "order_at s product UNIV i" "open_at s i" for i
  proof -
    obtain x where x: "GetOrder s i = Some x" "o_Product x = product" "o_Status x = OrderStatusOpen"
      using o by (auto simp: order_at_def is_done_def)
    have "o_Price x \<in> i_Price ` set ?b" using open_order_level [OF inv x(1,3)] x(2) by simp
    with x show ?thesis by (auto simp: order_at_def)
  qed
  have oc: "only_closes s s'" using s'(2) by (simp add: cleans_def)
  have "is_done (GetOrder s') i" if "order_at s product UNIV i" for i
    using lv [OF that] is_done_mono [OF oc, of i] s'(2) by (cases "is_done (GetOrder s) i") (simp_all add: cleans_def)
  moreover have "GetOrder s' i = GetOrder s i" if "\<not> order_at s product UNIV i" for i
    using that s'(2) by (auto simp: cleans_def order_at_def)
  ultimately have "cleans product UNIV s s'" using s'(2) by (auto simp: cleans_def)
  with s'(1) show ?thesis by (auto simp: cleanupOrdersByProduct_def GetDepthBookCopy_book_of)
qed

definition delisted :: "'b chain \<Rightarrow> string \<Rightarrow> bool" where
  "delisted s product \<longleftrightarrow> GetTokenPair s product = None"

lemma only_closes_delisted: "only_closes s s' \<Longrightarrow> delisted s' = delisted s"
  by (simp add: only_closes_def same_book_keeping_def delisted_def GetTokenPair_def fun_eq_iff)

lemma cleanup_products_ok:
  assumes "sdk_laws S" and "orders_inv s" and "\<forall>p\<in>set products. delisted s p \<longrightarrow> reads_all spare s p" and "distinct products"
  shows "\<exists>s'. ofold (\<lambda>product t. if GetTokenPair t product = None then cleanupOrdersByProduct S e spare product t else Some t) products s = Some s'
    \<and> orders_inv s' \<and> only_closes s s'
    \<and> (\<forall>i x. GetOrder s i = Some x \<longrightarrow>
         (if delisted s (o_Product x) \<and> o_Product x \<in> set products then is_done (GetOrder s') i else GetOrder s' i = Some x))"
  using assms
proof (induction products arbitrary: s)
  case (Cons p products)
  let ?f = "\<lambda>product t. if GetTokenPair t product = None then cleanupOrdersByProduct S e spare product t else Some t"
  obtain t where t: "?f p s = Some t" "orders_inv t" "only_closes s t"
    "\<And>i x. GetOrder s i = Some x \<Longrightarrow> if delisted s p \<and> o_Product x = p then is_done (GetOrder t) i else GetOrder t i = Some x"
    "\<And>q k. q \<noteq> p \<Longrightarrow> getOrderIDs (dcache t) (q, k) = getOrderIDs (dcache s) (q, k)"
  proof (cases "delisted s p")
    case True
    then obtain t where "cleanupOrdersByProduct S e spare p s = Some t" "cleans p UNIV s t"
      using cleanup_product_ok [OF Cons.prems(1,2), of spare p e] Cons.prems(3) by auto
    with True show ?thesis by (intro that [of t]) (auto simp: delisted_def cleans_def order_at_def)
  next
    case False
    with Cons.prems(2) show ?thesis by (intro that [of s]) (auto simp: delisted_def)
  qed
  have "reads_all spare t q = reads_all spare s q" if "q \<in> set products" for q
  proof -
    have "q \<noteq> p" using that Cons.prems(4) by auto
    then show ?thesis by (simp add: reads_all_def FormatOrderIDsKey_def GetProductPriceOrderIDs_def Let_def t(5))
  qed
  then have "\<forall>q\<in>set products. delisted t q \<longrightarrow> reads_all spare t q"
    using Cons.prems(3) only_closes_delisted [OF t(3)] by auto
  with Cons.IH [OF Cons.prems(1) t(2)] Cons.prems(4) obtain s' where s': "ofold ?f products t = Some s'" "orders_inv s'" "only_closes t s'"
    "\<And>i x. GetOrder t i = Some x \<Longrightarrow>
       if delisted t (o_Product x) \<and> o_Product x \<in> set products then is_done (GetOrder s') i else GetOrder s' i = Some x" by auto
  have "if delisted s (o_Product x) \<and> o_Product x \<in> set (p # products) then is_done (GetOrder s') i else GetOrder s' i = Some x"
    if "GetOrder s i = Some x" for i x
    using t(4) [OF that] s'(4) [of i x] is_done_mono [OF s'(3), of i] only_closes_delisted [OF t(3)]
    by (cases "delisted s p \<and> o_Product x = p") (auto split: if_splits)
  then show ?case using t(1) s'(1,2) only_closes_trans [OF t(3) s'(3)] by auto
qed simp

lemma cleanup_delisted_ok:
  assumes S: "sdk_laws S" and inv: "orders_inv s" and ra: "\<forall>p. delisted s p \<longrightarrow> reads_all spare s p"
  shows "\<exists>s'. cleanupOrdersWhoseTokenPairHaveBeenDelisted S e spare s = Some s' \<and> orders_inv s' \<and> only_closes s s'
    \<and> (\<forall>i x. GetOrder s i = Some x \<longrightarrow>
         (if delisted s (o_Product x) then is_done (GetOrder s') i else GetOrder s' i = Some x))"
proof -
  let ?ps = "getProductsFromDepthBookMap (dcache s)"
  have ok: "cache_ok (GetOrder s) (dcache s)" using inv by (simp add: orders_inv_def orders_consistent_def)
  then have "kv_ok (dk_books (dcache s))" by (simp add: cache_ok_def stores_ok_def)
  then have "distinct ?ps" by (simp add: getProductsFromDepthBookMap_def kv_ok_distinct)
  then obtain s' where s': "cleanupOrdersWhoseTokenPairHaveBeenDelisted S e spare s = Some s'" "orders_inv s'" "only_closes s s'"
    "\<And>i x. GetOrder s i = Some x \<Longrightarrow>
         if delisted s (o_Product x) \<and> o_Product x \<in> set ?ps then is_done (GetOrder s') i else GetOrder s' i = Some x"
    using cleanup_products_ok [OF S inv _ \<open>distinct ?ps\<close>, of spare e] ra
    by (auto simp: cleanupOrdersWhoseTokenPairHaveBeenDelisted_def)
  have listed: "o_Product x \<in> set ?ps" if "GetOrder s i = Some x" "o_Status x = OrderStatusOpen" for i x
  proof -
    have "book_of (dcache s) (o_Product x) \<noteq> []" using open_order_level [OF inv that] by auto
    then show ?thesis
      by (auto simp: book_of_def getProductsFromDepthBookMap_def split: option.splits) (metis image_eqI fst_conv map_of_SomeD)
  qed
  have "if delisted s (o_Product x) then is_done (GetOrder s') i else GetOrder s' i = Some x" if "GetOrder s i = Some x" for i x
    using s'(4) [OF that] listed [OF that] that by (cases "o_Product x \<in> set ?ps") (auto simp: is_done_def)
  with s'(1-3) show ?thesis by blast
qed

end
