(* ===== verification/MatchRun.thy ===== *)
theory MatchRun
  imports OrderMatch
begin

text \<open>
  The matching phase and the whole end of a block. The auction results of every product are executable on
  its book; executing them, and finishing the products locked in earlier blocks, keeps orders, books and
  queues consistent and every lock within its quantity. The last section holds the properties of the engine:
  exact expiry, the cleaning of delisted pairs with its failure when the loop shares memory with the
  queue, the completion of locked products, and that the end of a block never panics.
\<close>

subsection \<open>Auction results\<close>

definition result_ok :: "'b chain \<Rightarrow> string \<Rightarrow> match_result \<Rightarrow> bool" where
  "result_ok s product r \<longleftrightarrow> 0 < m_Quantity r \<and> m_Quantity r \<le> demand_at (book_of (dcache s) product) (m_Price r)
     \<and> m_Quantity r \<le> supply_at (book_of (dcache s) product) (m_Price r)"

lemma same_orders_SetLastPrice [simp]: "same_orders s (SetLastPrice product price s)"
  by (auto simp: same_orders_def keeps_orders_def same_book_keeping_def SetLastPrice_def dk_setLastPrice_def GetOrder_def fun_eq_iff
      closed_ids_def GetLastClosedOrderIDs_def)

lemma same_orders_book: "same_orders s s' \<Longrightarrow> book_of (dcache s') = book_of (dcache s)"
  using stores_cong(2) [of "dcache s'" "dcache s"] by (simp add: same_orders_def keeps_orders_def)

lemma same_orders_inv: "same_orders s s' \<Longrightarrow> orders_inv s \<Longrightarrow> orders_inv s'"
  by (auto simp: same_orders_def intro: orders_inv_cong)

lemma calc_product_ok:
  assumes inv: "orders_inv s" and res: "\<forall>p r. map_of results p = Some r \<longrightarrow> result_ok s p r"
  shows "\<exists>results' s'. calc_product S e product (results, s) = Some (results', s') \<and> same_orders s s'
    \<and> (\<forall>p r. map_of results' p = Some r \<longrightarrow> result_ok s' p r)"
proof (cases "GetTokenPair s product")
  case None
  with res show ?thesis by (auto simp: calc_product_def)
next
  case (Some tp)
  let ?b = "book_of (dcache s) product"
  obtain ref s1 where l: "GetLastPrice product s = (ref, s1)" by force
  have s1: "same_orders s s1" using same_orders_GetLastPrice [of s product] l by simp
  have bk: "book_ok ?b" using inv by (simp add: orders_inv_def orders_consistent_def cache_ok_def)
  obtain bp mx where m: "periodicAuctionMatchPrice S ?b (pr_MaxPriceDigit tp) ref = Some (bp, mx)" and v: "mx \<noteq> 0 \<Longrightarrow> volume ?b bp = mx"
    using match_price_total [OF bk, of S "pr_MaxPriceDigit tp" ref] by (cases "?b = []") (auto simp: max_volume_def)
  have keep: "result_ok s' p r = result_ok s p r" if "same_orders s s'" for s' p r
    using same_orders_book [OF that] by (simp add: result_ok_def)
  show ?thesis
  proof (cases "0 < mx")
    case True
    let ?s' = "SetLastPrice product bp s1"
    have s': "same_orders s ?s'" by (rule same_orders_trans [OF s1]) simp
    have "mx \<le> demand_at ?b bp" "mx \<le> supply_at ?b bp" using v True by (auto simp: volume_def)
    with True have "result_ok s product \<lparr>m_BlockHeight = e_Height e, m_Price = bp, m_Quantity = mx, m_Deals = []\<rparr>"
      by (simp add: result_ok_def)
    with Some l m True s' keep [OF s'] res show ?thesis by (auto simp: calc_product_def GetDepthBookCopy_book_of)
  next
    case False
    with Some l m s1 keep [OF s1] res show ?thesis by (auto simp: calc_product_def GetDepthBookCopy_book_of)
  qed
qed

lemma calc_ok:
  assumes "orders_inv s"
  shows "\<exists>results s'. calcMatchPriceAndExecution S e products s = Some (results, s') \<and> same_orders s s'
    \<and> (\<forall>p r. map_of results p = Some r \<longrightarrow> result_ok s' p r)"
proof -
  have "\<exists>results' s'. ofold (calc_product S e) products (results, s) = Some (results', s') \<and> same_orders s s'
      \<and> (\<forall>p r. map_of results' p = Some r \<longrightarrow> result_ok s' p r)"
    if "\<forall>p r. map_of results p = Some r \<longrightarrow> result_ok s p r" for results
    using assms that
  proof (induction products arbitrary: s results)
    case (Cons p products)
    obtain results1 s1 where 1: "calc_product S e p (results, s) = Some (results1, s1)" "same_orders s s1"
      "\<forall>p r. map_of results1 p = Some r \<longrightarrow> result_ok s1 p r"
      using calc_product_ok [OF Cons.prems] by blast
    from Cons.IH [OF same_orders_inv [OF 1(2) Cons.prems(1)] 1(3)] 1 show ?case by (auto intro: same_orders_trans)
  qed auto
  from this [of "[]"] show ?thesis by (simp add: calcMatchPriceAndExecution_def)
qed

subsection \<open>Execution\<close>

definition lock_within :: "product_lock \<Rightarrow> bool" where
  "lock_within l \<longleftrightarrow> l_BuyExecuted l \<le> l_Quantity l \<and> l_SellExecuted l \<le> l_Quantity l"

definition locks_bounded :: "(string, product_lock) kv \<Rightarrow> bool" where
  "locks_bounded m \<longleftrightarrow> (\<forall>p l. map_of m p = Some l \<longrightarrow> lock_within l)"

lemma locks_bounded_upd: "locks_bounded m \<Longrightarrow> lock_within l \<Longrightarrow> locks_bounded (kv_set p l m)" "locks_bounded m \<Longrightarrow> locks_bounded (kv_del p m)"
  by (auto simp: locks_bounded_def split: if_splits)

fun exec_inv :: "'b exec \<Rightarrow> bool" where
  "exec_inv (remain, results, lockMap, s) \<longleftrightarrow> orders_inv s \<and> (\<forall>p r. map_of results p = Some r \<longrightarrow> 0 \<le> m_Quantity r)
     \<and> locks_bounded lockMap \<and> (\<forall>p l. map_of lockMap p = Some l \<longrightarrow> 0 \<le> l_Quantity l) \<and> locks_bounded (ds_locks (dex s))
     \<and> (\<forall>p l. map_of (ds_locks (dex s)) p = Some l \<longrightarrow> 0 \<le> l_Quantity l)"

text \<open>Execution changes orders and locks only.\<close>

definition exec_frame :: "'b chain \<Rightarrow> 'b chain \<Rightarrow> bool" where
  "exec_frame s s' \<longleftrightarrow> (dex s')\<lparr>ds_locks := []\<rparr> = (dex s)\<lparr>ds_locks := []\<rparr> \<and> ordP s' = ordP s \<and> os_expire (ord s') = os_expire (ord s)
     \<and> os_lastExpired (ord s') = os_lastExpired (ord s) \<and> os_orderNum (ord s') = os_orderNum (ord s)
     \<and> dom (GetOrder s') = dom (GetOrder s) \<and> closed_ids s' \<subseteq> closed_ids s \<union> dom (GetOrder s)"

lemma exec_frame_refl [simp]: "exec_frame s s"
  by (simp add: exec_frame_def)

lemma exec_frame_trans: "exec_frame s s' \<Longrightarrow> exec_frame s' s'' \<Longrightarrow> exec_frame s s''"
  unfolding exec_frame_def by auto

lemma fill_exec_frame: "fill_frame s s' \<Longrightarrow> exec_frame s s'"
  by (simp add: fill_frame_def exec_frame_def same_book_keeping_def)

lemma lock_frame [simp]:
  "exec_frame s (SetProductLock product l s')  = exec_frame s s'" "exec_frame s (UnlockProduct product s') = exec_frame s s'"
  "orders_inv (SetProductLock product l s) = orders_inv s" "orders_inv (UnlockProduct product s) = orders_inv s"
  "ds_locks (dex (SetProductLock product l s)) = kv_set product l (ds_locks (dex s))"
  "ds_locks (dex (UnlockProduct product s)) = kv_del product (ds_locks (dex s))"
  by (simp_all add: exec_frame_def SetProductLock_def LockTokenPair_def UnlockProduct_def UnlockTokenPair_def orders_inv_def
      orders_consistent_def orders_wf_def open_queued_def closed_ok_def closed_ids_def GetLastClosedOrderIDs_def GetOrder_def [abs_def])

lemma execute_product_ok:
  assumes S: "sdk_laws S" and inv: "exec_inv (remain, results, lockMap, s)"
  shows "\<exists>remain' results' lockMap' s'. execute_product S e product (remain, results, lockMap, s) = Some (remain', results', lockMap', s')
    \<and> exec_inv (remain', results', lockMap', s') \<and> exec_frame s s'"
proof (cases "map_of results product")
  case (Some r)
  show ?thesis
  proof (cases "remain \<le> 0")
    case True
    with Some inv show ?thesis
      by (auto simp: execute_product_def executeMatchedUpdatedProduct_def lockProduct_def lock_within_def intro!: locks_bounded_upd)
  next
    case False
    then have rem: "0 < remain" by simp
    have inv_s: "orders_inv s" and q: "0 \<le> m_Quantity r" using inv Some by auto
    obtain deals remain' be se s' where f: "fillDepthBook S e product (m_Price r) (m_Quantity r) 0 0 remain (p_TradeFeeRate (ordP s)) s =
        Some (deals, remain', be, se, s')" "orders_inv s'" "fill_frame s s'" "0 \<le> be" "be \<le> m_Quantity r" "0 \<le> se" "se \<le> m_Quantity r"
      by (rule fillDepthBook_ok [OF S inv_s q q rem, of e product "m_Price r" "p_TradeFeeRate (ordP s)"]) blast
    have "dex s' = dex s" using f(3) by (simp add: fill_frame_def same_book_keeping_def)
    with Some False inv f fill_exec_frame [OF f(3)] q show ?thesis
      by (auto simp: execute_product_def executeMatchedUpdatedProduct_def lockProduct_def lock_within_def intro!: locks_bounded_upd)
  qed
next
  case nr: None
  show ?thesis
  proof (cases "map_of lockMap product")
    case None
    with nr inv show ?thesis by (auto simp: execute_product_def)
  next
    case (Some l)
    show ?thesis
    proof (cases "remain \<le> 0")
      case True
      with nr Some inv show ?thesis by (auto simp: execute_product_def executeLockedProduct_def)
    next
      case False
      then have rem: "0 < remain" by simp
      have inv_s: "orders_inv s" and q: "l_BuyExecuted l \<le> l_Quantity l" "l_SellExecuted l \<le> l_Quantity l" "0 \<le> l_Quantity l"
        using inv Some by (auto simp: locks_bounded_def lock_within_def)
      obtain deals remain' be se s' where f: "fillDepthBook S e product (l_Price l) (l_Quantity l) (l_BuyExecuted l) (l_SellExecuted l)
          remain (p_TradeFeeRate (ordP s)) s = Some (deals, remain', be, se, s')" "orders_inv s'" "fill_frame s s'"
        "be \<le> l_Quantity l" "se \<le> l_Quantity l"
        by (rule fillDepthBook_ok [OF S inv_s q(1,2) rem, of e product "l_Price l" "p_TradeFeeRate (ordP s)"]) blast
      have "dex s' = dex s" using f(3) by (simp add: fill_frame_def same_book_keeping_def)
      with nr Some False inv f fill_exec_frame [OF f(3)] q(3) show ?thesis
        by (auto simp: execute_product_def executeLockedProduct_def lock_within_def Let_def intro!: locks_bounded_upd)
    qed
  qed
qed

lemma executeMatch_ok:
  assumes S: "sdk_laws S" and inv: "exec_inv (p_MaxDealsPerBlock (ordP s), results, lockMap, s)"
  shows "\<exists>remain' results' lockMap' s'. executeMatch S e products results lockMap s = Some (remain', results', lockMap', s')
    \<and> exec_inv (remain', results', lockMap', s') \<and> exec_frame s s'"
proof -
  have "\<exists>remain' results' lockMap' s'. ofold (execute_product S e) products (remain, results, lockMap, s) = Some (remain', results', lockMap', s')
    \<and> exec_inv (remain', results', lockMap', s') \<and> exec_frame s s'" if "exec_inv (remain, results, lockMap, s)" for remain
    using that
  proof (induction products arbitrary: remain results lockMap s)
    case (Cons p products)
    obtain remain1 results1 lockMap1 s1 where 1: "execute_product S e p (remain, results, lockMap, s) = Some (remain1, results1, lockMap1, s1)"
      "exec_inv (remain1, results1, lockMap1, s1)" "exec_frame s s1"
      using execute_product_ok [OF S Cons.prems] by blast
    from Cons.IH [OF 1(2)] 1 show ?case by (auto intro: exec_frame_trans)
  qed auto
  from this [OF inv] show ?thesis by (simp add: executeMatch_def)
qed

text \<open>The locks of the store: within their quantity, which is not negative.\<close>

definition locks_sound :: "'b chain \<Rightarrow> bool" where
  "locks_sound s \<longleftrightarrow> locks_bounded (ds_locks (dex s)) \<and> (\<forall>p l. map_of (ds_locks (dex s)) p = Some l \<longrightarrow> 0 \<le> l_Quantity l)"

lemma matchOrders_ok:
  assumes S: "sdk_laws S" and inv: "orders_inv s" "locks_sound s"
  shows "\<exists>s'. matchOrders S e s = Some s' \<and> orders_inv s' \<and> locks_sound s' \<and> exec_frame s s'"
proof (cases "GetBlockOrderNum s (e_Height e) = 0 \<and> \<not> AnyProductLocked s")
  case True
  with inv show ?thesis by (auto simp: matchOrders_def)
next
  case run: False
  let ?ps = "SortProducts s (FilterDelistedProducts s (GetNewDepthbookKeys (dcache s)))"
  obtain results s1 where 1: "calcMatchPriceAndExecution S e ?ps s = Some (results, s1)" "same_orders s s1"
    "\<forall>p r. map_of results p = Some r \<longrightarrow> result_ok s1 p r" using calc_ok [OF inv(1)] by blast
  let ?locks = "GetLockedProductsCopy s1"
  have lk: "?locks = ds_locks (dex s)" "dex s1 = dex s"
    using 1(2) by (simp_all add: GetLockedProductsCopy_def LoadProductLocks_def same_orders_def same_book_keeping_def)
  have "exec_inv (p_MaxDealsPerBlock (ordP s1), results, ?locks, s1)"
    using same_orders_inv [OF 1(2) inv(1)] 1(3) inv(2) lk by (auto simp: locks_sound_def result_ok_def intro: less_imp_le)
  from executeMatch_ok [OF S this, of e "SortProducts s1 (?ps @ map fst ?locks)"]
  obtain remain' results' lockMap' s2 where 2: "executeMatch S e (SortProducts s1 (?ps @ map fst ?locks)) results ?locks s1 =
      Some (remain', results', lockMap', s2)" "exec_inv (remain', results', lockMap', s2)" "exec_frame s1 s2" by blast
  have ef: "exec_frame s s1" using 1(2) by (simp add: exec_frame_def same_orders_def keeps_orders_def same_book_keeping_def)
  let ?s3 = "SetBlockMatchResult e \<lparr>bm_BlockHeight = e_Height e, bm_ResultMap = results', bm_TimeStamp = e_Time e\<rparr> s2"
  have 3: "same_orders s2 ?s3"
    by (simp add: SetBlockMatchResult_def same_orders_def keeps_orders_def same_book_keeping_def closed_ids_def GetLastClosedOrderIDs_def
        GetOrder_def fun_eq_iff)
  have m: "matchOrders S e s = Some (if results' \<noteq> [] then ?s3 else s2)"
    using run 1(1) 2(1) by (auto simp: matchOrders_def Let_def)
  have "orders_inv s2" "locks_sound s2" using 2(2) by (auto simp: locks_sound_def)
  moreover have "locks_sound ?s3 = locks_sound s2" "exec_frame s2 ?s3"
    using 3 by (simp_all add: locks_sound_def same_orders_def same_book_keeping_def keeps_orders_def exec_frame_def)
  ultimately show ?thesis
    using m same_orders_inv [OF 3] exec_frame_trans [OF ef 2(3)] exec_frame_trans [of s s2 ?s3] by (cases "results' = []") auto
qed

lemma Run_ok:
  assumes S: "sdk_laws S" and inv: "orders_inv s" "locks_sound s"
    and ra: "\<And>s1 p. cleanupExpiredOrders S e s = Some s1 \<Longrightarrow> delisted s p \<Longrightarrow> reads_all spare s1 p"
  shows "\<exists>s' s1. Run S e spare s = Some s' \<and> orders_inv s' \<and> locks_sound s' \<and> dom (GetOrder s') \<subseteq> dom (GetOrder s)
    \<and> closed_ids s' \<subseteq> closed_ids s \<union> dom (GetOrder s) \<and> cleanupExpiredOrders S e s = Some s1
    \<and> os_expire (ord s') = os_expire (ord s1) \<and> os_orderNum (ord s') = os_orderNum (ord s1) \<and> ordP s' = ordP s"
proof -
  obtain s1 where 1: "cleanupExpiredOrders S e s = Some s1" "orders_inv s1" "dex s1 = dex s"
    "dom (GetOrder s1) \<subseteq> dom (GetOrder s)" "closed_ids s1 \<subseteq> closed_ids s \<union> dom (GetOrder s)" "ordP s1 = ordP s"
    by (rule cleanupExpiredOrders_ok [OF S inv(1), of e]) blast
  have d1: "delisted s1 = delisted s" using 1(3) by (simp add: delisted_def GetTokenPair_def fun_eq_iff)
  obtain s2 where 2: "cleanupOrdersWhoseTokenPairHaveBeenDelisted S e spare s1 = Some s2" "orders_inv s2" "only_closes s1 s2"
    using cleanup_delisted_ok [OF S 1(2), of spare e] ra [OF 1(1)] d1 by auto
  have ls: "locks_sound s2" using inv(2) 1(3) 2(3) by (simp add: locks_sound_def only_closes_def same_book_keeping_def)
  obtain s' where 3: "matchOrders S e s2 = Some s'" "orders_inv s'" "locks_sound s'" "exec_frame s2 s'"
    using matchOrders_ok [OF S 2(2) ls] by blast
  have "dom (GetOrder s2) \<subseteq> dom (GetOrder s1)" using 2(3) unfolding only_closes_def by (auto simp: dom_def) (metis option.distinct(1))
  moreover have "dom (GetOrder s') = dom (GetOrder s2)" "closed_ids s' \<subseteq> closed_ids s2 \<union> dom (GetOrder s2)"
    "closed_ids s2 \<subseteq> closed_ids s1 \<union> dom (GetOrder s1)" using 2(3) 3(4) by (simp_all add: exec_frame_def only_closes_def)
  ultimately have "dom (GetOrder s') \<subseteq> dom (GetOrder s)" "closed_ids s' \<subseteq> closed_ids s \<union> dom (GetOrder s)"
    using 1(4,5) by blast+
  moreover have "os_expire (ord s') = os_expire (ord s1)" "os_orderNum (ord s') = os_orderNum (ord s1)" "ordP s' = ordP s"
    using 1(6) 2(3) 3(4) by (simp_all add: exec_frame_def only_closes_def same_book_keeping_def)
  ultimately show ?thesis using 1(1) 2(1) 3(1-3) by (simp add: Run_def)
qed

text \<open>Cleaning up expired orders makes no queue longer.\<close>

lemma queue_shrinks:
  assumes inv: "orders_inv s" "orders_inv s1"
    and sub: "\<And>i x. GetOrder s1 i = Some x \<Longrightarrow> o_Status x = OrderStatusOpen \<Longrightarrow> GetOrder s i = Some x"
  shows "length (getOrderIDs (dcache s1) k) \<le> length (getOrderIDs (dcache s) k)"
proof -
  have ok: "cache_ok (GetOrder s1) (dcache s1)" using inv(2) by (simp add: orders_inv_def orders_consistent_def)
  have "set (getOrderIDs (dcache s1) k) \<subseteq> set (getOrderIDs (dcache s) k)"
  proof
    fix i assume "i \<in> set (getOrderIDs (dcache s1) k)"
    from cache_okD(4) [OF ok this] obtain x where "GetOrder s1 i = Some x" "key_of x = k" "o_Status x = OrderStatusOpen" by (auto elim: queuedE)
    with sub inv(1) show "i \<in> set (getOrderIDs (dcache s) k)" unfolding orders_inv_def open_queued_def by blast
  qed
  then have "card (set (getOrderIDs (dcache s1) k)) \<le> card (set (getOrderIDs (dcache s) k))" by (intro card_mono) simp_all
  then show ?thesis using cache_okD(3) [OF ok, of k] card_length [of "getOrderIDs (dcache s) k"] by (simp add: distinct_card)
qed

definition short_queues :: "'b chain \<Rightarrow> bool" where
  "short_queues s \<longleftrightarrow> (\<forall>p price. delisted s p \<longrightarrow> length (getOrderIDs (dcache s) (p, price, BuyOrder)) \<le> 2)"

lemma end_block_reads_all:
  assumes S: "sdk_laws S" and inv: "orders_inv s" and short: "short_queues s"
    and c: "cleanupExpiredOrders S e s = Some s1" and d: "delisted s p"
  shows "reads_all spare s1 p"
proof -
  obtain s2 where "cleanupExpiredOrders S e s = Some s2" "orders_inv s2"
    "\<And>i x. GetOrder s2 i = Some x \<Longrightarrow> o_Status x = OrderStatusOpen \<Longrightarrow> GetOrder s i = Some x"
    by (rule cleanupExpiredOrders_ok [OF S inv, of e]) blast
  with c have "orders_inv s1" "\<And>i x. GetOrder s1 i = Some x \<Longrightarrow> o_Status x = OrderStatusOpen \<Longrightarrow> GetOrder s i = Some x" by auto
  from queue_shrinks [OF inv this] have "length (getOrderIDs (dcache s1) k) \<le> length (getOrderIDs (dcache s) k)" for k .
  then have "length (getOrderIDs (dcache s1) (p, price, BuyOrder)) \<le> 2" for price
    using short d unfolding short_queues_def by (meson order_trans)
  then show ?thesis by (simp add: reads_all_def FormatOrderIDsKey_def GetProductPriceOrderIDs_def Let_def)
qed

subsection \<open>Locked products\<close>

text \<open>The book of a locked product still holds what its lock has to execute.\<close>

definition lock_live :: "'b chain \<Rightarrow> string \<Rightarrow> product_lock \<Rightarrow> bool" where
  "lock_live s product l \<longleftrightarrow> lock_within l \<and> 0 < l_Quantity l
     \<and> l_Quantity l - l_BuyExecuted l \<le> demand_at (book_of (dcache s) product) (l_Price l)
     \<and> l_Quantity l - l_SellExecuted l \<le> supply_at (book_of (dcache s) product) (l_Price l)"

lemma fill_keeps_lock_live:
  assumes S: "sdk_laws S" and inv: "orders_inv s" and l: "lock_live s product l" and rem: "0 < remain"
  obtains deals remain' be se s' where
    "fillDepthBook S e product (l_Price l) (l_Quantity l) (l_BuyExecuted l) (l_SellExecuted l) remain rate s = Some (deals, remain', be, se, s')"
    and "orders_inv s'" and "lock_live s' product (l\<lparr>l_BuyExecuted := be, l_SellExecuted := se\<rparr>)"
    and "l_BuyExecuted l \<le> be" and "l_SellExecuted l \<le> se" and "0 \<le> remain'"
    and "deals_sum deals = (be - l_BuyExecuted l) + (se - l_SellExecuted l)"
    and "0 < remain' \<Longrightarrow> be = l_Quantity l \<and> se = l_Quantity l" and "fill_frame s s'"
proof -
  have q: "l_BuyExecuted l \<le> l_Quantity l" "l_SellExecuted l \<le> l_Quantity l" "l_Quantity l \<noteq> 0"
    using l by (auto simp: lock_live_def lock_within_def)
  obtain deals remain' be se s' where f:
    "fillDepthBook S e product (l_Price l) (l_Quantity l) (l_BuyExecuted l) (l_SellExecuted l) remain rate s = Some (deals, remain', be, se, s')"
    "orders_inv s'" "fill_frame s s'" "l_BuyExecuted l \<le> be" "be \<le> l_Quantity l" "l_SellExecuted l \<le> se" "se \<le> l_Quantity l" "0 \<le> remain'"
    "deals_sum deals = (be - l_BuyExecuted l) + (se - l_SellExecuted l)"
    "demand_at (book_of (dcache s') product) (l_Price l) = demand_at (book_of (dcache s) product) (l_Price l) - (be - l_BuyExecuted l)"
    "supply_at (book_of (dcache s') product) (l_Price l) = supply_at (book_of (dcache s) product) (l_Price l) - (se - l_SellExecuted l)"
    "0 < remain' \<Longrightarrow> min (l_Quantity l) (l_BuyExecuted l + demand_at (book_of (dcache s) product) (l_Price l)) \<le> be
       \<and> min (l_Quantity l) (l_SellExecuted l + supply_at (book_of (dcache s) product) (l_Price l)) \<le> se"
    by (rule fillDepthBook_ok [OF S inv q(1,2) rem, of e product "l_Price l" rate]) (use q(3) in blast)
  have "lock_live s' product (l\<lparr>l_BuyExecuted := be, l_SellExecuted := se\<rparr>)"
    using f l by (simp add: lock_live_def lock_within_def)
  moreover have "be = l_Quantity l \<and> se = l_Quantity l" if "0 < remain'"
    using f(5,7) f(12) [OF that] l by (auto simp: lock_live_def)
  ultimately show thesis using that f by blast
qed

subsection \<open>Properties\<close>

text \<open>
  C7. Expiry is exact and survives locks. The expiry phase of a block always returns. It closes every open order whose product
  is not locked and that was placed at a height which the blocks since the last expired one list for expiry; every other
  order, those of locked products included, stays exactly as it was; orders, books and queues stay consistent. While any product is
  locked the expiry lists and the last expired height are kept, so that the orders
  skipped for the lock are visited again.
\<close>

theorem expiry_exact:
  assumes "sdk_laws S" and "orders_inv s"
    and "lst = (if GetLastExpiredBlockHeight s = 0 then e_Height e - 1 else GetLastExpiredBlockHeight s)"
  shows "\<exists>s'. cacheExpiredBlockToCurrentHeight S e s = Some s' \<and> orders_inv s'
     \<and> (\<forall>i x. GetOrder s i = Some x \<longrightarrow>
          (if (\<exists>height\<in>{lst + 1..e_Height e}. \<exists>h\<in>set (GetExpireBlockHeight s height). prefix (FormatOrderIDPrefix h) i)
             \<and> o_Status x = OrderStatusOpen \<and> \<not> IsProductLocked s (o_Product x)
           then is_done (GetOrder s') i
           else GetOrder s' i = Some x))
     \<and> (AnyProductLocked s \<longrightarrow> GetLastExpiredBlockHeight s' = GetLastExpiredBlockHeight s
          \<and> GetExpireBlockHeight s' = GetExpireBlockHeight s)"
proof -
  obtain s1 s' where r: "cacheExpiredBlockToCurrentHeight S e s = Some s'" "orders_inv s'" "keeps_orders s1 s'"
    "closes_all (\<lambda>i. \<exists>height\<in>{lst + 1..e_Height e}. \<exists>h\<in>set (GetExpireBlockHeight s height). at_height h i) s s1"
    "s' = (if AnyProductLocked s then s1
         else SetLastExpiredBlockHeight (if 1 < e_Height e then max lst (e_Height e) else lst)
           (if 1 < e_Height e then fold drop_height [lst..e_Height e - 1] s1 else s1))"
    by (rule cacheExpired_ok [OF assms])
  let ?due = "\<lambda>i. \<exists>height\<in>{lst + 1..e_Height e}. \<exists>h\<in>set (GetExpireBlockHeight s height). prefix (FormatOrderIDPrefix h) i"
  have g: "GetOrder s' = GetOrder s1" using r(3) by (simp add: keeps_orders_def)
  have "if ?due i \<and> o_Status x = OrderStatusOpen \<and> \<not> IsProductLocked s (o_Product x) then is_done (GetOrder s') i else GetOrder s' i = Some x"
    if "GetOrder s i = Some x" for i x
  proof (cases "exempt s x")
    case True
    then show ?thesis using r(4) that unfolding closes_all_def exempt_def g by auto
  next
    case False
    then have x: "o_Status x = OrderStatusOpen" "\<not> IsProductLocked s (o_Product x)" by (simp_all add: exempt_def)
    show ?thesis using r(4) that x unfolding closes_all_def at_height_def g by (cases "?due i") (metis, metis)
  qed
  moreover have "GetLastExpiredBlockHeight s1 = GetLastExpiredBlockHeight s" "GetExpireBlockHeight s1 = GetExpireBlockHeight s"
    using r(4) by (auto simp: closes_all_def only_closes_def same_book_keeping_def GetLastExpiredBlockHeight_def GetExpireBlockHeight_def fun_eq_iff)
  ultimately show ?thesis using r(1,2,5) by (intro exI [of _ s'] conjI allI impI) (simp_all split del: if_split)
qed

theorem expiry_exact_witness:
  "\<exists>s'. cacheExpiredBlockToCurrentHeight ref_sdk (demo_env\<lparr>e_Height := e_Height demo_env + 3\<rparr>)
       (markCurBlockToFutureExpireBlockList demo_env demo_book_chain) = Some s'
     \<and> is_done (GetOrder s') (FormatOrderID (e_Height demo_env) 1) \<and> orders_inv s'"
proof -
  let ?e = "demo_env\<lparr>e_Height := e_Height demo_env + 3\<rparr>" and ?s = "markCurBlockToFutureExpireBlockList demo_env demo_book_chain"
  let ?i = "FormatOrderID (e_Height demo_env) 1"
  have c: "GetLastExpiredBlockHeight ?s = 0" "GetExpireBlockHeight ?s (e_Height demo_env + 3) = [e_Height demo_env]"
    "\<not> IsProductLocked ?s (o_Product (the (GetOrder ?s ?i)))" "GetOrder ?s ?i \<noteq> None"
    "o_Status (the (GetOrder ?s ?i)) = OrderStatusOpen"
    by (code_simp, code_simp, code_simp, code_simp, code_simp)
  then obtain x where x: "GetOrder ?s ?i = Some x" by auto
  obtain s' where r: "cacheExpiredBlockToCurrentHeight ref_sdk ?e ?s = Some s'" "orders_inv s'"
    "\<And>i x. GetOrder ?s i = Some x \<Longrightarrow>
      if (\<exists>height\<in>{e_Height ?e - 1 + 1..e_Height ?e}. \<exists>h\<in>set (GetExpireBlockHeight ?s height). prefix (FormatOrderIDPrefix h) i)
        \<and> o_Status x = OrderStatusOpen \<and> \<not> IsProductLocked ?s (o_Product x)
      then is_done (GetOrder s') i else GetOrder s' i = Some x"
    using expiry_exact [OF ref_sdk_laws orders_inv_cong [OF mark_ok demo_book], of "e_Height ?e - 1" demo_env ?e] c(1)
    by (auto split del: if_split)
  have "\<exists>height\<in>{e_Height ?e - 1 + 1..e_Height ?e}. \<exists>h\<in>set (GetExpireBlockHeight ?s height). prefix (FormatOrderIDPrefix h) ?i"
    using c(2) by (intro bexI [of _ "e_Height demo_env + 3"] bexI [of _ "e_Height demo_env"]) (auto simp: prefix_FormatOrderID)
  then have "(\<exists>height\<in>{e_Height ?e - 1 + 1..e_Height ?e}. \<exists>h\<in>set (GetExpireBlockHeight ?s height). prefix (FormatOrderIDPrefix h) ?i)
      \<and> o_Status x = OrderStatusOpen \<and> \<not> IsProductLocked ?s (o_Product x)" using c(3,5) x by simp
  with r(3) [OF x] have "is_done (GetOrder s') ?i" by (simp only: if_True simp_thms)
  with r(1,2) show ?thesis by blast
qed

text \<open>
  C8. Delisting closes the orders of the pair: when every loop over a price level sees all its orders
  (at most two buy orders, or a list that does not share the memory of the queue), the cleaning phase
  returns, closes every open order of every product without pair, leaves all other orders as they were, and
  keeps orders, books and queues consistent.
\<close>

theorem delisting_closes_orders:
  assumes "sdk_laws S" and "orders_inv s" and "\<forall>p. GetTokenPair s p = None \<longrightarrow> reads_all spare s p"
  shows "\<exists>s'. cleanupOrdersWhoseTokenPairHaveBeenDelisted S e spare s = Some s' \<and> orders_inv s'
     \<and> (\<forall>i x. GetOrder s i = Some x \<longrightarrow>
          (if GetTokenPair s (o_Product x) = None then is_done (GetOrder s') i else GetOrder s' i = Some x))"
  using cleanup_delisted_ok [OF assms(1,2), of spare e] assms(3) by (auto simp: delisted_def)

definition demo_delisted_chain :: "ref_bank chain" where
  "demo_delisted_chain = demo_book_chain\<lparr>dex := (dex demo_book_chain)\<lparr>ds_pairs := []\<rparr>\<rparr>"

lemma demo_delisted: "orders_inv demo_delisted_chain"
proof (rule orders_inv_cong [OF _ demo_book])
  show "keeps_orders demo_book_chain demo_delisted_chain"
    by (simp add: keeps_orders_def demo_delisted_chain_def closed_ids_def GetLastClosedOrderIDs_def GetOrder_def fun_eq_iff)
qed

lemma short_queue: "list_all (\<lambda>(_, ids). length ids \<le> n) (dk_ids c) \<Longrightarrow> length (getOrderIDs c k) \<le> n"
  by (auto simp: getOrderIDs_def list_all_iff dest: map_of_SomeD split: option.splits)

lemma demo_short: "length (getOrderIDs (dcache demo_delisted_chain) k) \<le> 2" "length (getOrderIDs (dcache demo_book_chain) k) \<le> 2"
  by (rule short_queue, code_simp, rule short_queue, code_simp)

theorem delisting_closes_orders_witness:
  "\<exists>s'. cleanupOrdersWhoseTokenPairHaveBeenDelisted ref_sdk demo_env (\<lambda>_. True) demo_delisted_chain = Some s'
     \<and> is_done (GetOrder s') (FormatOrderID (e_Height demo_env) 2)"
proof -
  let ?i = "FormatOrderID (e_Height demo_env) 2"
  have "\<forall>p. GetTokenPair demo_delisted_chain p = None \<longrightarrow> reads_all (\<lambda>_. True) demo_delisted_chain p"
    by (simp add: reads_all_def GetProductPriceOrderIDs_def Let_def demo_short)
  moreover have "GetTokenPair demo_delisted_chain p = None" for p by (simp add: GetTokenPair_def demo_delisted_chain_def)
  moreover have "GetOrder demo_delisted_chain ?i \<noteq> None" by code_simp
  ultimately show ?thesis
    using delisting_closes_orders [OF ref_sdk_laws demo_delisted, of "\<lambda>_. True" demo_env] by fastforce
qed

lemma quit_other:
  assumes S: "sdk_laws S" and x: "order_wf x"
  obtains s' fee y where "CancelOrder S e x s = Some (s', fee)" and "GetOrder s' = (GetOrder s)(o_OrderID x \<mapsto> y)"
    and "\<And>k. o_OrderID x \<notin> set (getOrderIDs (dcache s) (key_of x)) \<Longrightarrow> getOrderIDs (dcache s') k = getOrderIDs (dcache s) k"
proof -
  obtain s' fee where q: "CancelOrder S e x s = Some (s', fee)"
    using quitOrder_total [OF S, of x e FeeTypeOrderCancel s] x by (auto simp: order_wf_def CancelOrder_def)
  obtain y t where y: "coins_only s t" "s' = RemoveOrderFromDepthBook e y FeeTypeOrderCancel (SetOrder (o_OrderID y) y t)"
    "o_OrderID y = o_OrderID x" "key_of y = key_of x"
    by (rule quitOrder_success [OF q [unfolded CancelOrder_def]]) (blast, blast)
  note d = coins_onlyD [OF y(1)]
  have "GetOrder s' = (GetOrder s)(o_OrderID x \<mapsto> y)" using d(1) y(3) by (simp add: y(2) GetOrder_def fun_eq_iff)
  moreover have "getOrderIDs (dcache s') k = getOrderIDs (dcache s) k" if "o_OrderID x \<notin> set (getOrderIDs (dcache s) (key_of x))" for k
    using that y(3,4) d(2) by (simp add: y(2) remove1_idem)
  ultimately show thesis using that q by blast
qed

text \<open>
  C32. The cleaning of a delisted pair can skip orders. With three buy orders and no sell order at one price the list
  the loop ranges over is the cached queue itself; cancelling the first order moves the other two
  forward in that memory, the loop next reads the third order and then the third order again. The level is
  left with its second order open and queued, although the pair is gone, and the third order is cancelled twice.
\<close>

theorem delist_cleanup_skips_orders:
  assumes "sdk_laws S" and "orders_inv s"
    and "getOrderIDs (dcache s) (product, i_Price item, BuyOrder) = [A, B, C]"
    and "getOrderIDs (dcache s) (product, i_Price item, SellOrder) = []"
  shows "\<exists>s' x. clean_level S e spare product item s = Some s' \<and> GetOrder s B = Some x \<and> o_Status x = OrderStatusOpen
     \<and> GetOrder s' B = Some x \<and> getOrderIDs (dcache s') (product, i_Price item, BuyOrder) = [B]"
proof -
  let ?k = "(product, i_Price item, BuyOrder)"
  have ok: "cache_ok (GetOrder s) (dcache s)" using assms(2) by (simp add: orders_inv_def orders_consistent_def)
  have ds: "A \<noteq> B" "A \<noteq> C" "B \<noteq> C" using cache_okD(3) [OF ok, of ?k] assms(3) by auto
  have q: "queued (GetOrder s) ?k A" "queued (GetOrder s) ?k B" "queued (GetOrder s) ?k C"
    using cache_okD(4) [OF ok, of _ ?k] assms(3) by auto
  obtain x where x: "GetOrder s B = Some x" "o_Status x = OrderStatusOpen" using q(2) by (auto elim: queuedE)
  obtain a t fee where t: "GetOrder s A = Some a" "CancelOrder S e a s = Some (t, fee)" "orders_inv t"
    "\<And>j. j \<noteq> A \<Longrightarrow> GetOrder t j = GetOrder s j"
    "\<And>k. getOrderIDs (dcache t) k = (if k = key_of a then remove1 A (getOrderIDs (dcache s) k) else getOrderIDs (dcache s) k)"
    by (rule cancel_step [OF assms(1,2) queued_open [OF q(1)], of e]) blast
  have opC: "open_at t C" using queued_open [OF q(3)] t(4) [of C] ds by (simp add: is_done_def)
  obtain c u fee' where u: "GetOrder t C = Some c" "CancelOrder S e c t = Some (u, fee')" "orders_inv u"
    "\<And>j. j \<noteq> C \<Longrightarrow> GetOrder u j = GetOrder t j" "only_closes t u"
    "\<And>k. getOrderIDs (dcache u) k = (if k = key_of c then remove1 C (getOrderIDs (dcache t) k) else getOrderIDs (dcache t) k)"
    by (rule cancel_step [OF assms(1) t(3) opC, of e]) blast
  have ka: "key_of a = ?k" "key_of c = ?k" using queued_key [OF q(1) t(1)] queued_key [OF q(3), of c] u(1) t(4) [of C] ds by auto
  have it: "getOrderIDs (dcache t) ?k = [B, C]" "getOrderIDs (dcache u) ?k = [B]"
    using t(5) [of ?k] u(6) [of ?k] ka assms(3) ds by auto
  obtain c' where c': "GetOrder u C = Some c'" using u(1,5) unfolding only_closes_def by (metis option.distinct(1) option.exhaust)
  have wf: "order_wf c'" "o_OrderID c' = C" using u(3) c' by (auto simp: orders_inv_def orders_wf_def)
  obtain v fee'' y where v: "CancelOrder S e c' u = Some (v, fee'')" "GetOrder v = (GetOrder u)(o_OrderID c' \<mapsto> y)"
    "\<And>k. o_OrderID c' \<notin> set (getOrderIDs (dcache u) (key_of c')) \<Longrightarrow> getOrderIDs (dcache v) k = getOrderIDs (dcache u) k"
    by (rule quit_other [OF assms(1) wf(1), of e u]) blast
  have ni: "C \<notin> set (getOrderIDs (dcache u) (key_of c'))"
  proof
    assume m: "C \<in> set (getOrderIDs (dcache u) (key_of c'))"
    have "cache_ok (GetOrder u) (dcache u)" using u(3) by (simp add: orders_inv_def orders_consistent_def)
    from queued_open [OF cache_okD(4) [OF this m]] have "open_at u C" .
    then have "GetOrder u C = GetOrder t C" using u(5) unfolding only_closes_def by metis
    then have "key_of c' = ?k" using c' u(1) ka(2) by simp
    with m it(2) ds show False by simp
  qed
  have "cleanOrdersByOrderIDList S e (Some ?k) [A, B, C] [0, 1, 2] s = Some v"
    using t(1,2) u(1,2) c' v(1) assms(3) it by (simp add: GetProductPriceOrderIDs_def after_removal_def numeral_2_eq_2)
  moreover have "[0..<3] = [0, 1, 2 :: nat]" by (simp add: upt_rec)
  ultimately have "clean_level S e spare product item s = Some v"
    using assms(3,4) by (simp add: clean_level_def FormatOrderIDsKey_def GetProductPriceOrderIDs_def Let_def shared_list_def numeral_3_eq_3 del: upt_Suc)
  moreover have "GetOrder v B = Some x" using v(2) wf(2) ds u(4) t(4) x(1) by simp
  moreover have "getOrderIDs (dcache v) ?k = [B]" using v(3) wf(2) ni it(2) by simp
  ultimately show ?thesis using x by blast
qed

definition demo_three_buys :: "ref_bank chain" where
  "demo_three_buys = fst (the (PlaceOrder ref_sdk demo_env demo_buy (fst (the (PlaceOrder ref_sdk demo_env demo_buy
     (fst (the (PlaceOrder ref_sdk demo_env demo_buy demo_dex_chain))))))))"

lemma demo_buy_inv:
  assumes "orders_inv s" and "ids_fresh (e_Height demo_env) s" and "closed_ids s = {}"
    and "case PlaceOrder ref_sdk demo_env demo_buy s of Some (_, _, None) \<Rightarrow> True | _ \<Rightarrow> False"
  shows "orders_inv (fst (the (PlaceOrder ref_sdk demo_env demo_buy s)))"
    and "ids_fresh (e_Height demo_env) (fst (the (PlaceOrder ref_sdk demo_env demo_buy s)))"
    and "closed_ids (fst (the (PlaceOrder ref_sdk demo_env demo_buy s))) = {}"
proof -
  obtain s' x' where p: "PlaceOrder ref_sdk demo_env demo_buy s = Some (s', x', None)"
    using assms(4) by (auto split: option.splits)
  have live: "order_live demo_buy" "o_Status demo_buy = OrderStatusOpen" "order_wf demo_buy" by (code_simp, code_simp, code_simp)
  have "orders_inv s'" using assms(3) by (intro orders_inv_PlaceOrder [OF assms(1,2) _ live p]) simp
  moreover have "ids_fresh (e_Height demo_env) s'"
    using PlaceOrder_consistent(2) [OF _ assms(2) live(1,2) p] assms(1) by (simp add: orders_inv_def)
  ultimately show "orders_inv (fst (the (PlaceOrder ref_sdk demo_env demo_buy s)))"
    "ids_fresh (e_Height demo_env) (fst (the (PlaceOrder ref_sdk demo_env demo_buy s)))"
    "closed_ids (fst (the (PlaceOrder ref_sdk demo_env demo_buy s))) = {}"
    using p PlaceOrder_frame(1) [OF p] assms(3) by simp_all
qed

lemma demo_three_buys_inv: "orders_inv demo_three_buys"
proof -
  let ?s1 = "fst (the (PlaceOrder ref_sdk demo_env demo_buy demo_dex_chain))"
  let ?s2 = "fst (the (PlaceOrder ref_sdk demo_env demo_buy ?s1))"
  have p: "case PlaceOrder ref_sdk demo_env demo_buy demo_dex_chain of Some (_, _, None) \<Rightarrow> True | _ \<Rightarrow> False"
    "case PlaceOrder ref_sdk demo_env demo_buy ?s1 of Some (_, _, None) \<Rightarrow> True | _ \<Rightarrow> False"
    "case PlaceOrder ref_sdk demo_env demo_buy ?s2 of Some (_, _, None) \<Rightarrow> True | _ \<Rightarrow> False"
    by (code_simp, code_simp, code_simp)
  note 1 = demo_buy_inv [OF demo_dex_inv(1) demo_orders(2) demo_dex_inv(2) p(1)]
  note 2 = demo_buy_inv [OF 1 p(2)]
  show ?thesis unfolding demo_three_buys_def by (rule demo_buy_inv(1) [OF 2 p(3)])
qed

theorem delist_cleanup_skips_orders_witness:
  "\<exists>s' x. clean_level ref_sdk demo_env (\<lambda>_. False) ''abc_okt'' \<lparr>i_Price = 250, i_BuyQuantity = 300, i_SellQuantity = 0\<rparr> demo_three_buys = Some s'
     \<and> GetOrder s' (FormatOrderID (e_Height demo_env) 2) = Some x \<and> o_Status x = OrderStatusOpen"
proof -
  have "getOrderIDs (dcache demo_three_buys) (''abc_okt'', 250, BuyOrder) =
      [FormatOrderID (e_Height demo_env) 1, FormatOrderID (e_Height demo_env) 2, FormatOrderID (e_Height demo_env) 3]"
    "getOrderIDs (dcache demo_three_buys) (''abc_okt'', 250, SellOrder) = []" by (code_simp, code_simp)
  then show ?thesis
    using delist_cleanup_skips_orders [OF ref_sdk_laws demo_three_buys_inv, of "''abc_okt''"
        "\<lparr>i_Price = 250, i_BuyQuantity = 300, i_SellQuantity = 0\<rparr>" "FormatOrderID (e_Height demo_env) 1"
        "FormatOrderID (e_Height demo_env) 2" "FormatOrderID (e_Height demo_env) 3" demo_env "\<lambda>_. False"] by auto
qed


definition demo_result :: match_result where
  "demo_result = \<lparr>m_BlockHeight = 1, m_Price = 200, m_Quantity = 100, m_Deals = []\<rparr>"

lemma demo_result_ok: "result_ok demo_book_chain ''abc_okt'' demo_result"
  by code_simp



definition demo_lock :: product_lock where
  "demo_lock = \<lparr>l_BlockHeight = 1, l_Price = 200, l_Quantity = 100, l_BuyExecuted = 0, l_SellExecuted = 0\<rparr>"


text \<open>
  The end of a block never panics: from consistent orders, books, queues and locks, and with at most two buy orders
  at a price of a delisted pair, the matching engine returns. Afterwards orders, books, queues and locks are again
  consistent, no order has appeared, and only stored orders are reported as closed.
\<close>

theorem end_block_safe:
  assumes "sdk_laws S" and "orders_inv s" and "locks_sound s" and "short_queues s"
  shows "\<exists>s'. Run S e spare s = Some s' \<and> orders_inv s' \<and> locks_sound s' \<and> dom (GetOrder s') \<subseteq> dom (GetOrder s)
     \<and> closed_ids s' \<subseteq> closed_ids s \<union> dom (GetOrder s)"
  using Run_ok [OF assms(1-3), of e spare] end_block_reads_all [OF assms(1,2,4)] by blast

theorem end_block_safe_witness:
  "\<exists>s'. Run ref_sdk demo_env (\<lambda>_. False) demo_book_chain = Some s' \<and> orders_inv s' \<and> locks_sound s'"
proof -
  have "ds_locks (dex demo_book_chain) = []" by code_simp
  then have "locks_sound demo_book_chain" by (simp add: locks_sound_def locks_bounded_def)
  moreover have "short_queues demo_book_chain" by (simp add: short_queues_def demo_short)
  ultimately show ?thesis using end_block_safe [OF ref_sdk_laws demo_book, of demo_env "\<lambda>_. False"] by blast
qed

end
