(* ===== verification/OrderHandler.thy ===== *)
theory OrderHandler
  imports MatchRun
begin

text \<open>
  The messages of the order module: \<open>x/order/types/msgs.go\<close>, the handlers and checks of \<open>x/order/handler.go\<close>, the
  hook that \<open>app/ante/validateMsg.go\<close> and \<open>validateMsgHook\<close> of \<open>app/app.go\<close> run before a transaction is admitted, the
  block hooks of \<open>beginblocker.go\<close> and \<open>endblocker.go\<close>, and \<open>genesis.go\<close>.

  Every order of a message works on its own cache of the stores, which is discarded when
  the order fails (\<open>discard_kv\<close>); the caches of the keeper are not part of it. \<open>None\<close> is a
  panic. The meter the message gas is charged to is the number of units it has left. Events and JSON results are
  output and left out; the results of the items are returned as values.
\<close>

subsection \<open>Messages\<close>

definition OrderItemLimit :: nat where "OrderItemLimit = 200"
definition MultiCancelOrderItemLimit :: nat where "MultiCancelOrderItemLimit = 200"

record order_item =
  it_Product :: string
  it_Side :: string
  it_Price :: dec
  it_Quantity :: dec

datatype order_msg =
    MsgNewOrders addr "order_item list"
  | MsgCancelOrders addr "string list"
  | OtherMsg string

definition order_item_ValidateBasic :: "order_item \<Rightarrow> order_error option" where
  "order_item_ValidateBasic item =
     (let syms = symbols (it_Product item)
      in if it_Product item = [] then Some ErrOrderItemProductCountsIsEmpty
         else if length syms \<noteq> 2 then Some ErrOrderItemProductFormat
         else if syms ! 0 = syms ! 1 then Some ErrOrderItemProductSymbolIsEqual
         else if it_Side item \<noteq> BuyOrder \<and> it_Side item \<noteq> SellOrder then Some ErrOrderItemSideIsNotBuyAndSell
         else if \<not> (0 < it_Price item \<and> 0 < it_Quantity item) then Some ErrOrderItemPriceOrQuantityIsNotPositive
         else None)"

definition MsgNewOrders_ValidateBasic :: "addr \<Rightarrow> order_item list \<Rightarrow> order_error option" where
  "MsgNewOrders_ValidateBasic sender items =
     (if sender = [] then Some (ErrInvalidAddress sender)
      else if items = [] then Some ErrOrderItemCountsIsEmpty
      else if OrderItemLimit < length items then Some (ErrOrderItemCountsBiggerThanLimit OrderItemLimit)
      else fold (\<lambda>item r. if r = None then order_item_ValidateBasic item else r) items None)"

fun hasDuplicatedID_loop :: "string list \<Rightarrow> string list \<Rightarrow> bool" where
  "hasDuplicatedID_loop idSet [] = False"
| "hasDuplicatedID_loop idSet (item # ids) =
     (if item \<notin> set idSet then hasDuplicatedID_loop (item # idSet) ids else True)"

definition hasDuplicatedID :: "string list \<Rightarrow> bool" where
  "hasDuplicatedID ids = hasDuplicatedID_loop [] ids"

definition MsgCancelOrders_ValidateBasic :: "addr \<Rightarrow> string list \<Rightarrow> order_error option" where
  "MsgCancelOrders_ValidateBasic sender ids =
     (if sender = [] then Some (ErrInvalidAddress sender)
      else if ids = [] then Some ErrOrderIDsIsEmpty
      else if MultiCancelOrderItemLimit < length ids then Some (ErrCancelOrderBiggerThanLimit MultiCancelOrderItemLimit)
      else if hasDuplicatedID ids then Some ErrOrderIDsHasDuplicatedID
      else if [] \<in> set ids then Some ErrUserInputOrderIDIsEmpty
      else None)"

fun order_ValidateBasic :: "order_msg \<Rightarrow> order_error option" where
  "order_ValidateBasic (MsgNewOrders sender items) = MsgNewOrders_ValidateBasic sender items"
| "order_ValidateBasic (MsgCancelOrders sender ids) = MsgCancelOrders_ValidateBasic sender ids"
| "order_ValidateBasic (OtherMsg t) = None"

text \<open>Gas is an unsigned 64-bit number; the product of count and unit wraps.\<close>

definition msg_CalculateGas :: "nat \<Rightarrow> nat \<Rightarrow> int" where
  "msg_CalculateGas n gasUnit = (int n * int gasUnit) mod 2 ^ 64"

fun CalculateGas :: "order_msg \<Rightarrow> order_params \<Rightarrow> int" where
  "CalculateGas (MsgNewOrders sender items) params = msg_CalculateGas (length items) (p_NewOrderMsgGasUnit params)"
| "CalculateGas (MsgCancelOrders sender ids) params = msg_CalculateGas (length ids) (p_CancelOrderMsgGasUnit params)"
| "CalculateGas (OtherMsg t) params = 2 ^ 64 - 1"

subsection \<open>Placing\<close>

datatype place_error = OrderErr order_error | DexErr dex_error | TokenErr token_error

definition checkOrderNewMsg :: "'b sdk \<Rightarrow> order_item \<Rightarrow> 'b chain \<Rightarrow> place_error option" where
  "checkOrderNewMsg S item s =
     (case GetTokenPair s (it_Product item) of
        None \<Rightarrow> Some (OrderErr (ErrTokenPairNotExist (it_Product item)))
      | Some tokenPair \<Rightarrow>
          (case CheckTokenPairUnderDexDelist s (it_Product item) of
             (_, Some er) \<Rightarrow> Some (DexErr er)
           | (isDelisting, None) \<Rightarrow>
               if isDelisting then Some (OrderErr (ErrTradingPairIsDelisting (it_Product item)))
               else if d_round S (it_Price item) (pr_MaxPriceDigit tokenPair) \<noteq> it_Price item
               then Some (OrderErr (ErrPriceOverAccuracy (it_Price item) (pr_MaxPriceDigit tokenPair)))
               else if d_round S (it_Quantity item) (pr_MaxQuantityDigit tokenPair) \<noteq> it_Quantity item
               then Some (OrderErr (ErrQuantityOverAccuracy (it_Quantity item) (pr_MaxQuantityDigit tokenPair)))
               else if it_Quantity item < pr_MinQuantity tokenPair
               then Some (OrderErr (ErrMsgQuantityLessThan (d_str S (pr_MinQuantity tokenPair))))
               else None))"

text \<open>The ratio is \<open>1\<close> for a single order and \<open>0.8\<close> for several; \<open>NewDecCoinFromDec\<close> panics on a negative amount.\<close>

definition order_ratio :: "'b sdk \<Rightarrow> nat \<Rightarrow> dec" where
  "order_ratio S n = (if 1 < n then 8 * d_unit S div 10 else d_unit S)"

definition getOrderFromMsg :: "'b sdk \<Rightarrow> env \<Rightarrow> addr \<Rightarrow> order_item \<Rightarrow> dec \<Rightarrow> 'b chain \<Rightarrow> order option" where
  "getOrderFromMsg S e sender item ratio s =
     (let feePerBlockAmount = d_mul S (snd (p_FeePerBlock (ordP s))) ratio
      in if feePerBlockAmount < 0 then None
         else Some (NewOrder S (e_TxHashUpper e) sender (it_Product item) (it_Side item) (it_Price item) (it_Quantity item)
                (e_Time e) (p_OrderExpireBlocks (ordP s)) (fst (p_FeePerBlock (ordP s)), feePerBlockAmount)))"

text \<open>The result of an item: its error and the id of the order.\<close>

type_synonym item_result = "place_error option \<times> string"

definition handleNewOrder :: "'b sdk \<Rightarrow> env \<Rightarrow> addr \<Rightarrow> order_item \<Rightarrow> dec \<Rightarrow> 'b chain \<Rightarrow> (item_result \<times> 'b chain) option" where
  "handleNewOrder S e sender item ratio s =
     (case getOrderFromMsg S e sender item ratio s of
        None \<Rightarrow> None
      | Some x \<Rightarrow>
          (case checkOrderNewMsg S item s of
             Some er \<Rightarrow> Some ((Some er, o_OrderID x), s)
           | None \<Rightarrow>
               if IsProductLocked s (it_Product item)
               then Some ((Some (OrderErr (ErrIsProductLocked (o_Product x))), o_OrderID x), s)
               else (case PlaceOrder S e x s of
                       None \<Rightarrow> None
                     | Some (s', x', None) \<Rightarrow> Some ((None, o_OrderID x'), s')
                     | Some (s', x', Some er) \<Rightarrow> Some ((Some (TokenErr er), o_OrderID x'), discard_kv s s'))))"

fun new_items :: "'b sdk \<Rightarrow> env \<Rightarrow> addr \<Rightarrow> dec \<Rightarrow> nat \<Rightarrow> order_item list \<Rightarrow> 'b chain \<Rightarrow> (item_result list \<times> nat list \<times> 'b chain) option" where
  "new_items S e sender ratio idx [] s = Some ([], [], s)"
| "new_items S e sender ratio idx (item # items) s =
     (case handleNewOrder S e sender item ratio s of
        None \<Rightarrow> None
      | Some (res, s') \<Rightarrow>
          (case new_items S e sender ratio (Suc idx) items s' of
             None \<Rightarrow> None
           | Some (rs, handlerResult, s'') \<Rightarrow>
               Some (res # rs, (if fst res = None then [idx] else []) @ handlerResult, s'')))"

definition handleMsgNewOrders ::
  "'b sdk \<Rightarrow> env \<Rightarrow> addr \<Rightarrow> order_item list \<Rightarrow> 'b chain \<Rightarrow> (order_error option \<times> item_result list \<times> 'b chain) option" where
  "handleMsgNewOrders S e sender items s =
     (case new_items S e sender (order_ratio S (length items)) 0 items s of
        None \<Rightarrow> None
      | Some (rs, handlerResult, s') \<Rightarrow>
          if handlerResult = [] then Some (Some ErrAllOrderFailedToExecute, rs, s')
          else Some (None, rs, AddTxHandlerMsgResult e handlerResult s'))"

text \<open>
  The check before a transaction is admitted runs on the state of the mempool and keeps what it locks there. The message
  text of its error \<open>ErrInsufficientCoins\<close> is left out.
\<close>

fun validate_items :: "'b sdk \<Rightarrow> env \<Rightarrow> addr \<Rightarrow> dec \<Rightarrow> order_item list \<Rightarrow> 'b chain \<Rightarrow> (place_error option \<times> 'b chain) option" where
  "validate_items S e sender ratio [] s = Some (None, s)"
| "validate_items S e sender ratio (item # items) s =
     (case checkOrderNewMsg S item s of
        Some er \<Rightarrow> Some (Some er, s)
      | None \<Rightarrow>
          if IsProductLocked s (it_Product item) then Some (Some (OrderErr (ErrIsProductLocked (it_Product item))), s)
          else
            (case getOrderFromMsg S e sender item ratio s of
               None \<Rightarrow> None
             | Some x \<Rightarrow>
                 (case TryPlaceOrder S x s of
                    None \<Rightarrow> None
                  | Some (s', _, Some er) \<Rightarrow> Some (Some (TokenErr (ErrInsufficientCoins [])), s')
                  | Some (s', _, None) \<Rightarrow> validate_items S e sender ratio items s')))"

definition ValidateMsgNewOrders :: "'b sdk \<Rightarrow> env \<Rightarrow> addr \<Rightarrow> order_item list \<Rightarrow> 'b chain \<Rightarrow> (place_error option \<times> 'b chain) option" where
  "ValidateMsgNewOrders S e sender items s = validate_items S e sender (order_ratio S (length items)) items s"

subsection \<open>Cancelling\<close>

definition validateCancelOrder :: "addr \<Rightarrow> string \<Rightarrow> 'b chain \<Rightarrow> order_error option" where
  "validateCancelOrder sender orderID s =
     (case GetOrder s orderID of
        None \<Rightarrow> Some (ErrOrderIsNotExistOrClosed orderID)
      | Some x \<Rightarrow>
          if o_Status x \<noteq> OrderStatusOpen then Some ErrOrderStatusIsNotOpen
          else if o_Sender x \<noteq> sender then Some (ErrNotOrderOwner orderID)
          else if IsProductLocked s (o_Product x) then Some (ErrIsProductLocked (o_Product x))
          else None)"

definition handleCancelOrder ::
  "'b sdk \<Rightarrow> env \<Rightarrow> addr \<Rightarrow> string \<Rightarrow> 'b chain \<Rightarrow> (order_error option \<times> 'b chain) option" where
  "handleCancelOrder S e sender orderID s =
     (case validateCancelOrder sender orderID s of
        Some er \<Rightarrow> Some (Some er, s)
      | None \<Rightarrow>
          (case GetOrder s orderID of
             None \<Rightarrow> None
           | Some x \<Rightarrow> map_option (\<lambda>(s', fee). (None, s')) (CancelOrder S e x s)))"

fun cancel_items ::
  "'b sdk \<Rightarrow> env \<Rightarrow> addr \<Rightarrow> nat \<Rightarrow> string list \<Rightarrow> 'b chain \<Rightarrow> (order_error option list \<times> nat list \<times> 'b chain) option" where
  "cancel_items S e sender idx [] s = Some ([], [], s)"
| "cancel_items S e sender idx (orderID # ids) s =
     (case handleCancelOrder S e sender orderID s of
        None \<Rightarrow> None
      | Some (er, s') \<Rightarrow>
          (case cancel_items S e sender (Suc idx) ids s' of
             None \<Rightarrow> None
           | Some (rs, handlerResult, s'') \<Rightarrow>
               Some (er # rs, (if er = None then [idx] else []) @ handlerResult, s'')))"

definition handleMsgCancelOrders ::
  "'b sdk \<Rightarrow> env \<Rightarrow> addr \<Rightarrow> string list \<Rightarrow> 'b chain \<Rightarrow> (order_error option \<times> order_error option list \<times> 'b chain) option" where
  "handleMsgCancelOrders S e sender ids s =
     (case cancel_items S e sender 0 ids s of
        None \<Rightarrow> None
      | Some (rs, handlerResult, s') \<Rightarrow>
          if handlerResult = [] then Some (Some ErrNoOrdersIsCanceled, rs, s')
          else Some (None, rs, AddTxHandlerMsgResult e handlerResult s'))"

definition ValidateMsgCancelOrders :: "addr \<Rightarrow> string list \<Rightarrow> 'b chain \<Rightarrow> order_error option" where
  "ValidateMsgCancelOrders sender ids s =
     fold (\<lambda>orderID r. if r = None then validateCancelOrder sender orderID s else r) ids None"

subsection \<open>The handler\<close>

datatype handler_error = OrderFailed order_error | UnknownRequest string

text \<open>\<open>gas\<close> is what the meter has left: charging more than that panics before anything else happens.\<close>

fun order_dispatch :: "'b sdk \<Rightarrow> env \<Rightarrow> order_msg \<Rightarrow> 'b chain \<Rightarrow> (handler_error option \<times> 'b chain) option" where
  "order_dispatch S e (MsgNewOrders sender items) s =
     map_option (\<lambda>(er, rs, s'). (map_option OrderFailed er, s')) (handleMsgNewOrders S e sender items s)"
| "order_dispatch S e (MsgCancelOrders sender ids) s =
     map_option (\<lambda>(er, rs, s'). (map_option OrderFailed er, s')) (handleMsgCancelOrders S e sender ids s)"
| "order_dispatch S e (OtherMsg t) s = Some (Some (UnknownRequest t), s)"

definition NewOrderHandler ::
  "'b sdk \<Rightarrow> env \<Rightarrow> int \<Rightarrow> order_msg \<Rightarrow> 'b chain \<Rightarrow> (handler_error option \<times> 'b chain) option" where
  "NewOrderHandler S e gas msg s =
     (if gas < CalculateGas msg (ordP s) then None
      else if e_CheckTx e then Some (None, s)
      else order_dispatch S e msg s)"

subsection \<open>Admission of transactions\<close>

datatype app_msg = OrderMsg order_msg | EvmMsg | ForeignMsg

datatype hook_error = WrongMsg | PlaceFailed place_error | CancelFailed order_error

fun hook_loop :: "'b sdk \<Rightarrow> env \<Rightarrow> nat \<Rightarrow> app_msg list \<Rightarrow> 'b chain \<Rightarrow> (hook_error option \<times> 'b chain) option" where
  "hook_loop S e n [] s = Some (None, s)"
| "hook_loop S e n (msg # msgs) s =
     (case msg of
        OrderMsg (MsgNewOrders sender items) \<Rightarrow>
          if 1 < n then Some (Some WrongMsg, s)
          else (case ValidateMsgNewOrders S e sender items s of
                  None \<Rightarrow> None
                | Some (Some er, s') \<Rightarrow> Some (Some (PlaceFailed er), s')
                | Some (None, s') \<Rightarrow> hook_loop S e n msgs s')
      | OrderMsg (MsgCancelOrders sender ids) \<Rightarrow>
          if 1 < n then Some (Some WrongMsg, s)
          else (case ValidateMsgCancelOrders sender ids s of
                  Some er \<Rightarrow> Some (Some (CancelFailed er), s)
                | None \<Rightarrow> hook_loop S e n msgs s)
      | EvmMsg \<Rightarrow> if 1 < n then Some (Some WrongMsg, s) else hook_loop S e n msgs s
      | _ \<Rightarrow> hook_loop S e n msgs s)"

definition validateMsgHook :: "'b sdk \<Rightarrow> env \<Rightarrow> app_msg list \<Rightarrow> 'b chain \<Rightarrow> (hook_error option \<times> 'b chain) option" where
  "validateMsgHook S e msgs s = hook_loop S e (length msgs) msgs s"

definition AnteHandle :: "'b sdk \<Rightarrow> env \<Rightarrow> bool \<Rightarrow> app_msg list \<Rightarrow> 'b chain \<Rightarrow> (hook_error option \<times> 'b chain) option" where
  "AnteHandle S e simulate msgs s =
     (if e_CheckTx e \<and> \<not> simulate then validateMsgHook S e msgs s else Some (None, s))"

subsection \<open>Blocks\<close>

definition order_BeginBlocker :: "bool \<Rightarrow> 'b chain \<Rightarrow> 'b chain" where
  "order_BeginBlocker startUp s = ResetCache startUp s"

definition order_EndBlocker :: "'b sdk \<Rightarrow> env \<Rightarrow> (ids_key \<Rightarrow> bool) \<Rightarrow> 'b chain \<Rightarrow> 'b chain option" where
  "order_EndBlocker S e spare s = map_option Cache2Disk (Run S e spare s)"

subsection \<open>Genesis\<close>

record order_genesis =
  og_Params :: order_params
  og_OpenOrders :: "order list"

definition init_order :: "order_params \<Rightarrow> order \<Rightarrow> 'b chain \<Rightarrow> 'b chain" where
  "init_order params x s =
     (let height = GetBlockHeightFromOrderID (o_OrderID x);
          futureHeight = height + p_OrderExpireBlocks params;
          s1 = SetExpireBlockHeight futureHeight (GetExpireBlockHeight s futureHeight @ [height]) s;
          s2 = SetBlockOrderNum height (GetBlockOrderNum s1 height + 1) s1
      in InsertOrderIntoDepthBook x (SetOrder (o_OrderID x) x s2))"

definition order_InitGenesis :: "order_genesis \<Rightarrow> 'b chain \<Rightarrow> 'b chain" where
  "order_InitGenesis data s =
     (let s1 = fold (init_order (og_Params data)) (og_OpenOrders data) (s\<lparr>ordP := og_Params data\<rparr>)
      in if og_OpenOrders data \<noteq> [] then Cache2Disk s1 else s1)"

definition open_ids :: "'b chain \<Rightarrow> string \<Rightarrow> string list" where
  "open_ids s product = concat (map (\<lambda>item.
     (if 0 < i_SellQuantity item
      then GetProductPriceOrderIDsFromDB s (FormatOrderIDsKey product (i_Price item) SellOrder) else [])
     @ (if 0 < i_BuyQuantity item
        then GetProductPriceOrderIDsFromDB s (FormatOrderIDsKey product (i_Price item) BuyOrder) else []))
     (GetDepthBookFromDB s product))"

definition export_pair :: "token_pair \<Rightarrow> order list \<times> 'b chain \<Rightarrow> (order list \<times> 'b chain) option" where
  "export_pair tp = (\<lambda>(xs, s).
     (let product = pair_name tp;
          (price, s1) = GetLastPrice product s;
          s2 = UpdateTokenPair product (tp\<lparr>pr_InitPrice := price\<rparr>) s1
      in if \<exists>i\<in>set (open_ids s2 product). GetOrder s2 i = None then None
         else Some (xs @ filter (\<lambda>x. o_Status x \<noteq> OrderStatusFilled \<and> o_Status x \<noteq> OrderStatusCancelled \<and> o_Status x \<noteq> OrderStatusExpired)
                (List.map_filter (GetOrder s2) (open_ids s2 product)), s2)))"

definition order_ExportGenesis :: "'b chain \<Rightarrow> (order_genesis \<times> 'b chain) option" where
  "order_ExportGenesis s =
     map_option (\<lambda>(xs, s'). (\<lparr>og_Params = ordP s, og_OpenOrders = xs\<rparr>, s')) (ofold export_pair (GetTokenPairs s) ([], s))"

end
