(* ===== verification/OrderChain.thy ===== *)
theory OrderChain
  imports OrderHandler
begin

text \<open>
  The order module as a machine: transactions, the end of a block with the start of the next one, and steps of other modules.
  Every reachable state has consistent orders, books, queues and locks and unused order ids ahead, and the
  end of the block returns in all of them. The properties of the handlers follow: failed orders leave no trace, only
  the owner cancels, a locked product is frozen for its users, gas does not wrap; and two
  failures: an order whose transaction is rolled back stays in the book, and an order placed after
  a genesis import can overwrite an imported one.
\<close>

subsection \<open>Fresh ids\<close>

definition ids_new :: "int \<Rightarrow> 'b chain \<Rightarrow> bool" where
  "ids_new H s \<longleftrightarrow> (\<forall>h\<ge>H. ids_fresh h s \<and> (\<forall>n>GetBlockOrderNum s h. FormatOrderID h n \<notin> closed_ids s))"

lemma ids_newD:
  assumes "ids_new H s" and "H \<le> h"
  shows "ids_fresh h s" and "GetBlockOrderNum s h < n \<Longrightarrow> FormatOrderID h n \<notin> closed_ids s"
  using assms by (auto simp: ids_new_def)

text \<open>Fewer orders, no fresh closed ids, the same counters: the ids stay fresh.\<close>

lemma ids_new_mono:
  assumes "ids_new H s" and "dom (GetOrder s') \<subseteq> dom (GetOrder s)" and "closed_ids s' \<subseteq> closed_ids s \<union> dom (GetOrder s)"
    and "\<And>h. H' \<le> h \<Longrightarrow> GetBlockOrderNum s' h = GetBlockOrderNum s h" and "H \<le> H'"
  shows "ids_new H' s'"
  unfolding ids_new_def ids_fresh_def
proof (intro allI impI conjI)
  fix h n assume h: "H' \<le> h" and n: "GetBlockOrderNum s' h < n"
  then have "GetOrder s (FormatOrderID h n) = None" "FormatOrderID h n \<notin> closed_ids s"
    using assms(1,4,5) by (auto simp: ids_new_def ids_fresh_def)
  with assms(2,3) show "GetOrder s' (FormatOrderID h n) = None" "FormatOrderID h n \<notin> closed_ids s'" by (auto simp: dom_def subset_iff)
qed

subsection \<open>Placing\<close>

definition params_ok :: "'b chain \<Rightarrow> bool" where
  "params_ok s \<longleftrightarrow> 0 \<le> snd (p_FeePerBlock (ordP s)) \<and> 0 \<le> p_OrderExpireBlocks (ordP s)"

text \<open>What a handler leaves alone: heights, pairs, locks, parameters.\<close>

definition handler_frame :: "'b chain \<Rightarrow> 'b chain \<Rightarrow> bool" where
  "handler_frame s s' \<longleftrightarrow> dex s' = dex s \<and> ordP s' = ordP s \<and> os_expire (ord s') = os_expire (ord s)
     \<and> os_lastExpired (ord s') = os_lastExpired (ord s)"

lemma handler_frame_refl [simp]: "handler_frame s s"
  by (simp add: handler_frame_def)

lemma handler_frame_trans: "handler_frame s s' \<Longrightarrow> handler_frame s' s'' \<Longrightarrow> handler_frame s s''"
  by (simp add: handler_frame_def)

lemma feeDetails_LockCoins: "feeDetails (fst (LockCoins S s a cs t)) = feeDetails s"
  by (auto simp: LockCoins_def updateLockedCoins_def set_lock_store_def Let_def split: sum.splits option.splits)

lemma feeDetails_order_LockCoins: "order_LockCoins S s a cs t = (s', er) \<Longrightarrow> feeDetails s' = feeDetails s"
  using feeDetails_LockCoins [of S s a cs t] by (auto simp: order_LockCoins_def split: if_splits)

lemma TryPlaceOrder_feeDetails: "TryPlaceOrder S x s = Some (s', fee, er) \<Longrightarrow> feeDetails s' = feeDetails s"
  by (auto simp: TryPlaceOrder_def Let_def dest!: feeDetails_order_LockCoins split: option.splits prod.splits)

lemma discard_failed:
  assumes "PlaceOrder S e x s = Some (s', x', Some er)"
  shows "discard_kv s s' = s"
proof -
  have c: "coins_only s s'" using PlaceOrder_failure [OF assms] by simp
  obtain fee where "TryPlaceOrder S x s = Some (s', fee, Some er)"
    using assms by (auto simp: PlaceOrder_def Let_def split: option.splits prod.splits)
  then have "feeDetails s' = feeDetails s" by (rule TryPlaceOrder_feeDetails)
  with coins_onlyD [OF c] show ?thesis by (cases s; cases s') (simp add: discard_kv_def)
qed

lemma PlaceOrder_total: "2 \<le> length (symbols (o_Product x)) \<Longrightarrow> PlaceOrder S e x s \<noteq> None"
  by (auto simp: PlaceOrder_def TryPlaceOrder_def NeedLockCoins_def slice_get_def Let_def split: prod.splits option.splits)

lemma getOrder_ok:
  assumes S: "sdk_laws S" and P: "params_ok s" and v: "order_item_ValidateBasic item = None" and r: "0 \<le> ratio"
  obtains x where "getOrderFromMsg S e sender item ratio s = Some x" and "order_live x" and "o_Status x = OrderStatusOpen"
    and "order_wf x" and "o_Sender x = sender" and "o_Product x = it_Product item" and "o_OrderID x = []"
proof -
  have "0 \<le> d_mul S (snd (p_FeePerBlock (ordP s))) ratio"
    using d_mul_nonneg [OF sdk_lawsD(1) [OF S]] P r by (simp add: params_ok_def)
  with v P show thesis
    by (intro that [of "NewOrder S (e_TxHashUpper e) sender (it_Product item) (it_Side item) (it_Price item) (it_Quantity item)
                (e_Time e) (p_OrderExpireBlocks (ordP s)) (fst (p_FeePerBlock (ordP s)), d_mul S (snd (p_FeePerBlock (ordP s))) ratio)"])
      (auto simp: getOrderFromMsg_def order_item_ValidateBasic_def NewOrder_def order_live_def order_wf_def order_fees_ok_def params_ok_def
        Let_def split: if_splits)
qed

lemma handleNewOrder_ok:
  assumes S: "sdk_laws S" and inv: "orders_inv s" "ids_new (e_Height e) s" "params_ok s"
    and v: "order_item_ValidateBasic item = None" and r: "0 \<le> ratio"
  obtains er i s' where "handleNewOrder S e sender item ratio s = Some ((er, i), s')" and "orders_inv s'" and "ids_new (e_Height e) s'"
    and "handler_frame s s'" and "er \<noteq> None \<Longrightarrow> s' = s"
    and "er = None \<Longrightarrow> GetOrder s i = None \<and> \<not> IsProductLocked s (it_Product item)
           \<and> (\<exists>x. GetOrder s' = (GetOrder s)(i \<mapsto> x) \<and> o_Sender x = sender \<and> o_Product x = it_Product item
                 \<and> i \<in> set (getOrderIDs (dcache s') (key_of x)))"
    and "\<And>p. p \<noteq> it_Product item \<or> er \<noteq> None \<Longrightarrow> book_of (dcache s') p = book_of (dcache s) p"
proof -
  obtain x where x: "getOrderFromMsg S e sender item ratio s = Some x" "order_live x" "o_Status x = OrderStatusOpen"
    "order_wf x" "o_Sender x = sender" "o_Product x = it_Product item" "o_OrderID x = []"
    by (rule getOrder_ok [OF S inv(3) v r])
  note unf = handleNewOrder_def x(1)
  show thesis
  proof (cases "checkOrderNewMsg S item s = None \<and> \<not> IsProductLocked s (it_Product item)")
    case False
    then obtain er where "handleNewOrder S e sender item ratio s = Some ((Some er, []), s)"
      using x(7) by (cases "checkOrderNewMsg S item s") (auto simp: unf)
    with inv show thesis by (intro that [of "Some er" "[]" s]) simp_all
  next
    case True
    obtain s' x' er where p: "PlaceOrder S e x s = Some (s', x', er)"
      using PlaceOrder_total [of x S e s] x(4) by (auto simp: order_wf_def)
    show thesis
    proof (cases er)
      case (Some y)
      with True p discard_failed [OF p [unfolded Some]] have "handleNewOrder S e sender item ratio s = Some ((Some (TokenErr y), o_OrderID x'), s)"
        by (simp add: unf)
      with inv show thesis by (intro that [of "Some (TokenErr y)" "o_OrderID x'" s]) simp_all
    next
      case None
      note p = p [unfolded None]
      have h: "handleNewOrder S e sender item ratio s = Some ((None, o_OrderID x'), s')" using True p by (simp add: unf)
      note f = PlaceOrder_frame [OF p] and N = ids_newD [OF inv(2) order_refl]
      have ncl: "o_OrderID x' \<notin> closed_ids s" using N(2) by (simp add: f(2))
      have oc: "orders_consistent s" using inv(1) by (simp add: orders_inv_def)
      note c = PlaceOrder_consistent [OF oc N(1) x(2,3) p]
      have inv': "orders_inv s'" by (rule orders_inv_PlaceOrder [OF inv(1) N(1) ncl x(2-4) p])
      have num: "GetBlockOrderNum s h \<le> GetBlockOrderNum s' h" for h by (simp add: f(7))
      have "ids_fresh h s' \<and> (\<forall>n>GetBlockOrderNum s' h. FormatOrderID h n \<notin> closed_ids s')" if "e_Height e \<le> h" for h
        using ids_newD [OF inv(2) that] num [of h] f(2)
        by (auto simp: ids_fresh_def c(4) f(1,7) FormatOrderID_inject split: if_splits)
      then have new: "ids_new (e_Height e) s'" by (simp add: ids_new_def)
      have hf: "handler_frame s s'" using f by (simp add: handler_frame_def)
      have px: "o_Sender x' = sender" "key_of x' = key_of x"
        using p x(5) f(5) by (auto simp: PlaceOrder_def RecordOrderNewFee_def setExtraInfoWithKeyValue_def Let_def split: option.splits prod.splits)
      show thesis
      proof (rule that [OF h inv' new hf])
        show "book_of (dcache s') p = book_of (dcache s) p" if "p \<noteq> it_Product item \<or> None \<noteq> None" for p
          using that px(2) x(6) by (auto simp: c(5) book_of_def insertOrder_def Let_def)
        show "GetOrder s (o_OrderID x') = None \<and> \<not> IsProductLocked s (it_Product item)
           \<and> (\<exists>x. GetOrder s' = (GetOrder s)(o_OrderID x' \<mapsto> x) \<and> o_Sender x = sender \<and> o_Product x = it_Product item
                 \<and> o_OrderID x' \<in> set (getOrderIDs (dcache s') (key_of x)))"
          using c(3,4) True px x(6) by (auto simp: c(5) getOrderIDs_def insertOrder_def FormatOrderIDsKey_def Let_def)
      qed simp
    qed
  qed
qed

text \<open>All items of a message.\<close>

lemma new_items_ok:
  assumes S: "sdk_laws S" and r: "0 \<le> ratio"
  shows "orders_inv s \<Longrightarrow> ids_new (e_Height e) s \<Longrightarrow> params_ok s \<Longrightarrow> \<forall>item\<in>set items. order_item_ValidateBasic item = None \<Longrightarrow>
    \<exists>rs hr s'. new_items S e sender ratio idx items s = Some (rs, hr, s') \<and> orders_inv s' \<and> ids_new (e_Height e) s'
      \<and> handler_frame s s' \<and> (hr = [] \<longrightarrow> s' = s)
      \<and> (\<forall>i x. GetOrder s i = Some x \<longrightarrow> GetOrder s' i = Some x)
      \<and> (\<forall>p. IsProductLocked s p \<longrightarrow> book_of (dcache s') p = book_of (dcache s) p)
      \<and> (\<forall>i x. GetOrder s' i = Some x \<longrightarrow> GetOrder s i = Some x \<or> o_Sender x = sender \<and> \<not> IsProductLocked s (o_Product x))"
proof (induction items arbitrary: s idx)
  case (Cons item items)
  have vi: "order_item_ValidateBasic item = None" using Cons.prems(4) by simp
  obtain er i t where t: "handleNewOrder S e sender item ratio s = Some ((er, i), t)" "orders_inv t" "ids_new (e_Height e) t"
    "handler_frame s t" "er \<noteq> None \<Longrightarrow> t = s"
    "er = None \<Longrightarrow> GetOrder s i = None \<and> \<not> IsProductLocked s (it_Product item)
       \<and> (\<exists>x. GetOrder t = (GetOrder s)(i \<mapsto> x) \<and> o_Sender x = sender \<and> o_Product x = it_Product item
             \<and> i \<in> set (getOrderIDs (dcache t) (key_of x)))"
    "\<And>p. p \<noteq> it_Product item \<or> er \<noteq> None \<Longrightarrow> book_of (dcache t) p = book_of (dcache s) p"
    by (rule handleNewOrder_ok [OF S Cons.prems(1-3) vi r, of sender]) blast
  have pt: "params_ok t" using t(4) Cons.prems(3) by (simp add: params_ok_def handler_frame_def)
  have vs: "\<forall>item\<in>set items. order_item_ValidateBasic item = None" using Cons.prems(4) by simp
  obtain rs hr s' where s': "new_items S e sender ratio (Suc idx) items t = Some (rs, hr, s')" "orders_inv s'" "ids_new (e_Height e) s'"
    "handler_frame t s'" "hr = [] \<longrightarrow> s' = t" "\<forall>i x. GetOrder t i = Some x \<longrightarrow> GetOrder s' i = Some x"
    "\<forall>p. IsProductLocked t p \<longrightarrow> book_of (dcache s') p = book_of (dcache t) p"
    "\<forall>i x. GetOrder s' i = Some x \<longrightarrow> GetOrder t i = Some x \<or> o_Sender x = sender \<and> \<not> IsProductLocked t (o_Product x)"
    using Cons.IH [OF t(2,3) pt vs, of "Suc idx"] by blast
  have lk: "IsProductLocked t = IsProductLocked s"
    using t(4) by (simp add: fun_eq_iff handler_frame_def IsProductLocked_def IsTokenPairLocked_def getProductLock_def)
  have old: "GetOrder t j = Some x" if "GetOrder s j = Some x" for j x using that t(5,6) by (cases er) auto
  have new: "GetOrder s j = Some x \<or> o_Sender x = sender \<and> \<not> IsProductLocked s (o_Product x)" if "GetOrder t j = Some x" for j x
    using that t(5,6) by (cases er) (auto split: if_splits)
  have bk: "book_of (dcache t) p = book_of (dcache s) p" if "IsProductLocked s p" for p
    using that t(6) t(7) [of p] by (cases er) auto
  have run: "new_items S e sender ratio idx (item # items) s = Some ((er, i) # rs, (if er = None then [idx] else []) @ hr, s')"
    using t(1) s'(1) by simp
  have "(if er = None then [idx] else []) @ hr = [] \<longrightarrow> s' = s" using s'(5) t(5) by auto
  moreover have "\<forall>j x. GetOrder s j = Some x \<longrightarrow> GetOrder s' j = Some x" using old s'(6) by blast
  moreover have "\<forall>p. IsProductLocked s p \<longrightarrow> book_of (dcache s') p = book_of (dcache s) p" using bk s'(7) lk by simp
  moreover have "\<forall>j x. GetOrder s' j = Some x \<longrightarrow> GetOrder s j = Some x \<or> o_Sender x = sender \<and> \<not> IsProductLocked s (o_Product x)"
    using new s'(8) lk by metis
  ultimately show ?case using run s'(2,3) handler_frame_trans [OF t(4) s'(4)] by blast
qed simp

lemma order_items_valid:
  "MsgNewOrders_ValidateBasic sender items = None \<Longrightarrow> \<forall>item\<in>set items. order_item_ValidateBasic item = None"
proof -
  assume a: "MsgNewOrders_ValidateBasic sender items = None"
  have stuck: "fold (\<lambda>item r. if r = None then order_item_ValidateBasic item else r) xs (Some er) = Some er" for xs er
    by (induction xs) simp_all
  have "fold (\<lambda>item r. if r = None then order_item_ValidateBasic item else r) xs None = None \<Longrightarrow>
      \<forall>item\<in>set xs. order_item_ValidateBasic item = None" for xs
  proof (induction xs)
    case (Cons x xs)
    then show ?case by (cases "order_item_ValidateBasic x") (simp_all add: stuck)
  qed simp
  with a show ?thesis by (auto simp: MsgNewOrders_ValidateBasic_def split: if_splits)
qed

lemma order_ratio_nonneg: "sdk_laws S \<Longrightarrow> 0 \<le> order_ratio S n"
  using dec_unit_pos [OF sdk_lawsD(1)] by (force simp: order_ratio_def)

lemma AddTxHandlerMsgResult_simps [simp]:
  "same_orders s (AddTxHandlerMsgResult e hr s)" "handler_frame s (AddTxHandlerMsgResult e hr s)"
  "dcache (AddTxHandlerMsgResult e hr s) = dcache s" "GetBlockOrderNum (AddTxHandlerMsgResult e hr s) = GetBlockOrderNum s"
  "dex (AddTxHandlerMsgResult e hr s) = dex s"
  by (simp_all add: AddTxHandlerMsgResult_def same_orders_def keeps_orders_def same_book_keeping_def handler_frame_def closed_ids_def
      GetLastClosedOrderIDs_def GetOrder_def GetBlockOrderNum_def fun_eq_iff)

lemma AddTxHandlerMsgResult_inv [simp]:
  "orders_inv (AddTxHandlerMsgResult e hr s) = orders_inv s" "ids_new H (AddTxHandlerMsgResult e hr s) = ids_new H s"
  "GetOrder (AddTxHandlerMsgResult e hr s) = GetOrder s"
proof -
  have k: "keeps_orders s (AddTxHandlerMsgResult e hr s)" using AddTxHandlerMsgResult_simps(1) [of s e hr] by (simp only: same_orders_def)
  then have k': "keeps_orders (AddTxHandlerMsgResult e hr s) s" by (simp add: keeps_orders_def)
  show "orders_inv (AddTxHandlerMsgResult e hr s) = orders_inv s" using orders_inv_cong [OF k] orders_inv_cong [OF k'] by blast
  show g: "GetOrder (AddTxHandlerMsgResult e hr s) = GetOrder s" using k by (simp add: keeps_orders_def)
  show "ids_new H (AddTxHandlerMsgResult e hr s) = ids_new H s" using k by (simp add: ids_new_def ids_fresh_def keeps_orders_def)
qed

lemma handleMsgNewOrders_ok:
  assumes S: "sdk_laws S" and inv: "orders_inv s" "ids_new (e_Height e) s" "params_ok s"
    and v: "MsgNewOrders_ValidateBasic sender items = None"
  obtains er rs s' where "handleMsgNewOrders S e sender items s = Some (er, rs, s')" and "orders_inv s'" and "ids_new (e_Height e) s'"
    and "handler_frame s s'" and "er \<noteq> None \<Longrightarrow> s' = s"
    and "\<And>i x. GetOrder s i = Some x \<Longrightarrow> GetOrder s' i = Some x"
    and "\<And>p. IsProductLocked s p \<Longrightarrow> book_of (dcache s') p = book_of (dcache s) p"
    and "\<And>i x. GetOrder s' i = Some x \<Longrightarrow> GetOrder s i = Some x \<or> o_Sender x = sender \<and> \<not> IsProductLocked s (o_Product x)"
proof -
  obtain rs hr t where t: "new_items S e sender (order_ratio S (length items)) 0 items s = Some (rs, hr, t)" "orders_inv t" "ids_new (e_Height e) t"
    "handler_frame s t" "hr = [] \<longrightarrow> t = s" "\<forall>i x. GetOrder s i = Some x \<longrightarrow> GetOrder t i = Some x"
    "\<forall>p. IsProductLocked s p \<longrightarrow> book_of (dcache t) p = book_of (dcache s) p"
    "\<forall>i x. GetOrder t i = Some x \<longrightarrow> GetOrder s i = Some x \<or> o_Sender x = sender \<and> \<not> IsProductLocked s (o_Product x)"
    using new_items_ok [OF S order_ratio_nonneg [OF S] inv order_items_valid [OF v]] by blast
  show thesis
  proof (cases "hr = []")
    case True
    with t show thesis by (intro that [of "Some ErrAllOrderFailedToExecute" rs t]) (simp_all add: handleMsgNewOrders_def)
  next
    case False
    with t show thesis
      by (intro that [of None rs "AddTxHandlerMsgResult e hr t"]) (auto simp: handleMsgNewOrders_def intro: handler_frame_trans)
  qed
qed

subsection \<open>Cancelling\<close>

lemma handleCancelOrder_ok:
  assumes S: "sdk_laws S" and inv: "orders_inv s"
  obtains er s' where "handleCancelOrder S e sender i s = Some (er, s')" and "orders_inv s'" and "only_closes s s'"
    and "er \<noteq> None \<Longrightarrow> s' = s"
    and "\<And>j. j \<noteq> i \<or> er \<noteq> None \<Longrightarrow> GetOrder s' j = GetOrder s j"
    and "er = None \<Longrightarrow> is_done (GetOrder s') i \<and> (\<exists>x. GetOrder s i = Some x \<and> o_Sender x = sender \<and> o_Status x = OrderStatusOpen
           \<and> \<not> IsProductLocked s (o_Product x))"
    and "\<And>p. IsProductLocked s p \<Longrightarrow> book_of (dcache s') p = book_of (dcache s) p"
proof (cases "validateCancelOrder sender i s")
  case (Some er)
  with inv show thesis by (intro that [of "Some er" s]) (simp_all add: handleCancelOrder_def)
next
  case None
  then obtain x where x: "GetOrder s i = Some x" "o_Status x = OrderStatusOpen" "o_Sender x = sender" "\<not> IsProductLocked s (o_Product x)"
    by (auto simp: validateCancelOrder_def split: option.splits if_splits)
  have op: "open_at s i" using x(1,2) by (simp add: is_done_def)
  obtain x' s' fee where c: "GetOrder s i = Some x'" "CancelOrder S e x' s = Some (s', fee)" "orders_inv s'" "only_closes s s'"
    "is_done (GetOrder s') i" "\<And>j. j \<noteq> i \<Longrightarrow> GetOrder s' j = GetOrder s j"
    by (rule cancel_step [OF S inv op, of e]) blast
  have eq: "x' = x" using x(1) c(1) by simp
  obtain y t where y: "coins_only s t" "s' = RemoveOrderFromDepthBook e y FeeTypeOrderCancel (SetOrder (o_OrderID y) y t)" "key_of y = key_of x"
    by (rule quitOrder_success [OF c(2) [unfolded CancelOrder_def eq]]) (blast, blast)
  have "book_of (dcache s') p = book_of (dcache s) p" if "p \<noteq> o_Product x" for p
    using that y(3) coins_onlyD(2) [OF y(1)]
    by (auto simp: y(2) removeOrder_def closeOrder_def Let_def book_of_def setDepthBook_def setOrderIDs_def split: option.splits)
  then have "book_of (dcache s') p = book_of (dcache s) p" if "IsProductLocked s p" for p using that x(4) by (cases "p = o_Product x") simp_all
  with None x c eq show thesis
    by (intro that [of None s']) (auto simp: handleCancelOrder_def)
qed

lemma only_closes_frame: "only_closes s s' \<Longrightarrow> handler_frame s s'"
  by (simp add: only_closes_def same_book_keeping_def handler_frame_def)

lemma cancel_items_ok:
  assumes S: "sdk_laws S"
  shows "orders_inv s \<Longrightarrow>
    \<exists>rs hr s'. cancel_items S e sender idx ids s = Some (rs, hr, s') \<and> orders_inv s' \<and> only_closes s s' \<and> (hr = [] \<longrightarrow> s' = s)
      \<and> (\<forall>i. GetOrder s' i \<noteq> GetOrder s i \<longrightarrow> i \<in> set ids \<and> is_done (GetOrder s') i
           \<and> (\<exists>x. GetOrder s i = Some x \<and> o_Sender x = sender \<and> o_Status x = OrderStatusOpen \<and> \<not> IsProductLocked s (o_Product x)))
      \<and> (\<forall>p. IsProductLocked s p \<longrightarrow> book_of (dcache s') p = book_of (dcache s) p)"
proof (induction ids arbitrary: s idx)
  case (Cons i ids)
  obtain er t where t: "handleCancelOrder S e sender i s = Some (er, t)" "orders_inv t" "only_closes s t" "er \<noteq> None \<Longrightarrow> t = s"
    "\<And>j. j \<noteq> i \<or> er \<noteq> None \<Longrightarrow> GetOrder t j = GetOrder s j"
    "er = None \<Longrightarrow> is_done (GetOrder t) i \<and> (\<exists>x. GetOrder s i = Some x \<and> o_Sender x = sender \<and> o_Status x = OrderStatusOpen
       \<and> \<not> IsProductLocked s (o_Product x))"
    and bk: "\<And>p. IsProductLocked s p \<Longrightarrow> book_of (dcache t) p = book_of (dcache s) p"
    by (rule handleCancelOrder_ok [OF S Cons.prems, of e sender i]) blast
  have lk: "IsProductLocked t = IsProductLocked s" by (rule only_closes_locked [OF t(3)])
  obtain rs hr s' where s': "cancel_items S e sender (Suc idx) ids t = Some (rs, hr, s')" "orders_inv s'" "only_closes t s'" "hr = [] \<longrightarrow> s' = t"
    "\<And>j. GetOrder s' j \<noteq> GetOrder t j \<Longrightarrow> j \<in> set ids \<and> is_done (GetOrder s') j
       \<and> (\<exists>x. GetOrder t j = Some x \<and> o_Sender x = sender \<and> o_Status x = OrderStatusOpen \<and> \<not> IsProductLocked t (o_Product x))"
    "\<forall>p. IsProductLocked t p \<longrightarrow> book_of (dcache s') p = book_of (dcache t) p"
    using Cons.IH [OF t(2), of "Suc idx"] by blast
  have ch: "j \<in> set (i # ids) \<and> is_done (GetOrder s') j
       \<and> (\<exists>x. GetOrder s j = Some x \<and> o_Sender x = sender \<and> o_Status x = OrderStatusOpen \<and> \<not> IsProductLocked s (o_Product x))"
    if n: "GetOrder s' j \<noteq> GetOrder s j" for j
  proof (cases "GetOrder t j = GetOrder s j")
    case True
    with s'(5) [of j] n lk show ?thesis by auto
  next
    case False
    then have "\<not> (j \<noteq> i \<or> er \<noteq> None)" using t(5) [of j] by blast
    then have "j = i" "er = None" by simp_all
    with t(6) is_done_mono [OF s'(3), of i] show ?thesis by auto
  qed
  have run: "cancel_items S e sender idx (i # ids) s = Some (er # rs, (if er = None then [idx] else []) @ hr, s')"
    using t(1) s'(1) by simp
  have "(if er = None then [idx] else []) @ hr = [] \<longrightarrow> s' = s" using s'(4) t(4) by auto
  moreover have "\<forall>p. IsProductLocked s p \<longrightarrow> book_of (dcache s') p = book_of (dcache s) p" using bk s'(6) lk by simp
  ultimately show ?case using run s'(2) only_closes_trans [OF t(3) s'(3)] ch by blast
qed simp

lemma handleMsgCancelOrders_ok:
  assumes S: "sdk_laws S" and inv: "orders_inv s"
  obtains er rs s' where "handleMsgCancelOrders S e sender ids s = Some (er, rs, s')" and "orders_inv s'" and "handler_frame s s'"
    and "er \<noteq> None \<Longrightarrow> s' = s" and "ids_new H s \<Longrightarrow> ids_new H s'"
    and "\<And>i. GetOrder s' i \<noteq> GetOrder s i \<Longrightarrow> i \<in> set ids \<and> is_done (GetOrder s') i
           \<and> (\<exists>x. GetOrder s i = Some x \<and> o_Sender x = sender \<and> o_Status x = OrderStatusOpen \<and> \<not> IsProductLocked s (o_Product x))"
    and "\<And>p. IsProductLocked s p \<Longrightarrow> book_of (dcache s') p = book_of (dcache s) p"
proof -
  obtain rs hr t where t: "cancel_items S e sender 0 ids s = Some (rs, hr, t)" "orders_inv t" "only_closes s t" "hr = [] \<longrightarrow> t = s"
    "\<And>i. GetOrder t i \<noteq> GetOrder s i \<Longrightarrow> i \<in> set ids \<and> is_done (GetOrder t) i
       \<and> (\<exists>x. GetOrder s i = Some x \<and> o_Sender x = sender \<and> o_Status x = OrderStatusOpen \<and> \<not> IsProductLocked s (o_Product x))"
    "\<forall>p. IsProductLocked s p \<longrightarrow> book_of (dcache t) p = book_of (dcache s) p"
    using cancel_items_ok [OF S inv, of e sender 0 ids] by blast
  have "dom (GetOrder t) \<subseteq> dom (GetOrder s)" using t(3) unfolding only_closes_def by (auto simp: dom_def) (metis option.distinct(1))
  moreover have "GetBlockOrderNum t h = GetBlockOrderNum s h" for h
    using t(3) by (simp add: only_closes_def same_book_keeping_def GetBlockOrderNum_def)
  moreover have "closed_ids t \<subseteq> closed_ids s \<union> dom (GetOrder s)" using t(3) by (simp add: only_closes_def)
  ultimately have new: "ids_new H t" if "ids_new H s" for H using that by (auto intro: ids_new_mono)
  show thesis
  proof (cases "hr = []")
    case True
    with t new only_closes_frame [OF t(3)] show thesis
      by (intro that [of "Some ErrNoOrdersIsCanceled" rs t]) (simp_all add: handleMsgCancelOrders_def)
  next
    case False
    with t new only_closes_frame [OF t(3)] show thesis
      by (intro that [of None rs "AddTxHandlerMsgResult e hr t"]) (auto simp: handleMsgCancelOrders_def intro: handler_frame_trans)
  qed
qed

subsection \<open>The end of a block\<close>

text \<open>The expiry lists name no future height.\<close>

definition expire_past :: "int \<Rightarrow> 'b chain \<Rightarrow> bool" where
  "expire_past H s \<longleftrightarrow> (\<forall>h. \<forall>x\<in>set (GetExpireBlockHeight s h). x \<le> H)"

text \<open>Steps that keep the lists in the past and the order counts of future heights.\<close>

definition future_kept :: "int \<Rightarrow> 'b chain \<Rightarrow> 'b chain \<Rightarrow> bool" where
  "future_kept H s s' \<longleftrightarrow> (expire_past H s \<longrightarrow> expire_past H s' \<and> (\<forall>h>H. GetBlockOrderNum s' h = GetBlockOrderNum s h))"

lemma future_kept_refl [simp]: "future_kept H s s"
  by (simp add: future_kept_def)

lemma future_kept_trans: "future_kept H s s' \<Longrightarrow> future_kept H s' s'' \<Longrightarrow> future_kept H s s''"
  by (auto simp: future_kept_def)

lemma future_kept_frame:
  "os_expire (ord s') = os_expire (ord s) \<Longrightarrow> os_orderNum (ord s') = os_orderNum (ord s) \<Longrightarrow> future_kept H s s'"
  by (simp add: future_kept_def expire_past_def GetExpireBlockHeight_def GetBlockOrderNum_def)

lemma future_kept_mark: "e_Height e \<le> H \<Longrightarrow> future_kept H s (markCurBlockToFutureExpireBlockList e s)"
  by (auto simp: future_kept_def expire_past_def GetExpireBlockHeight_def GetBlockOrderNum_def markCurBlockToFutureExpireBlockList_def
      SetExpireBlockHeight_def Let_def split: option.splits if_splits)

lemma fold_DropBlockOrderNum:
  "GetBlockOrderNum (fold DropBlockOrderNum hs s) h = (if h \<in> set hs then 0 else GetBlockOrderNum s h)"
  "GetExpireBlockHeight (fold DropBlockOrderNum hs s) = GetExpireBlockHeight s"
  by (induction hs arbitrary: s) (auto simp: DropBlockOrderNum_def GetBlockOrderNum_def GetExpireBlockHeight_def fun_eq_iff)

lemma future_kept_drop_height: "future_kept H s (drop_height h s)"
proof -
  let ?t = "fold DropBlockOrderNum (GetExpireBlockHeight s h) s"
  have "GetBlockOrderNum (drop_height h s) = GetBlockOrderNum ?t"
    "GetExpireBlockHeight (drop_height h s) h' = (if h' = h then [] else GetExpireBlockHeight ?t h')" for h'
    by (auto simp: drop_height_def DropExpireBlockHeight_def GetBlockOrderNum_def GetExpireBlockHeight_def fun_eq_iff)
  then show ?thesis by (fastforce simp: future_kept_def expire_past_def fold_DropBlockOrderNum)
qed

lemma future_kept_cleanup:
  assumes S: "sdk_laws S" and inv: "orders_inv s" and c: "cleanupExpiredOrders S e s = Some s'" and H: "e_Height e \<le> H"
  shows "future_kept H s s'"
proof -
  let ?t = "markCurBlockToFutureExpireBlockList e s" and ?u = "cleanLastBlockClosedOrders (markCurBlockToFutureExpireBlockList e s)"
  have t: "orders_inv ?t" by (rule orders_inv_cong [OF mark_ok inv])
  note u = cleanLast_ok [OF t]
  have tu: "future_kept H ?t ?u" using u(4) by (intro future_kept_frame) (simp_all add: same_book_keeping_def)
  obtain s1 P lst where r: "cacheExpiredBlockToCurrentHeight S e ?u = Some s'" "closes_all P ?u s1"
    "s' = (if AnyProductLocked ?u then s1
         else SetLastExpiredBlockHeight (if 1 < e_Height e then max lst (e_Height e) else lst)
           (if 1 < e_Height e then fold drop_height [lst..e_Height e - 1] s1 else s1))"
    by (rule cacheExpired_ok [OF S u(1) refl, of e]) (use c in \<open>auto simp: cleanupExpiredOrders_def\<close>)
  have us: "future_kept H ?u s1" using r(2) by (intro future_kept_frame) (simp_all add: closes_all_def only_closes_def same_book_keeping_def)
  have fd: "future_kept H x (fold drop_height hs x)" for hs and x :: "'a chain"
    by (induction hs arbitrary: x) (auto intro: future_kept_trans future_kept_drop_height)
  have sl: "future_kept H x (SetLastExpiredBlockHeight h x)" for h and x :: "'a chain"
    by (rule future_kept_frame) (simp_all add: SetLastExpiredBlockHeight_def)
  have "future_kept H s1 s'" unfolding r(3) using sl future_kept_trans [OF fd sl] by simp
  with future_kept_mark [OF H, of s] tu us show ?thesis by (blast intro: future_kept_trans)
qed

lemma fold_keeps: "(\<And>x t. f (g x t) = f t) \<Longrightarrow> f (fold g xs s) = f s"
  by (induction xs arbitrary: s) simp_all

lemma Cache2Disk_frame [simp]:
  "os_orders (ord (Cache2Disk s)) = os_orders (ord s)" "os_expire (ord (Cache2Disk s)) = os_expire (ord s)"
  "os_orderNum (ord (Cache2Disk s)) = os_orderNum (ord s)" "os_closed (ord (Cache2Disk s)) = Some (dk_closed (dcache s))"
  "dcache (Cache2Disk s) = dcache s" "dex (Cache2Disk s) = dex s" "ordP (Cache2Disk s) = ordP s"
  unfolding Cache2Disk_def Let_def
  by (simp_all add: fold_keeps [where f = "\<lambda>t. os_orders (ord t)"] fold_keeps [where f = "\<lambda>t. os_expire (ord t)"]
      fold_keeps [where f = "\<lambda>t. os_orderNum (ord t)"] fold_keeps [where f = "\<lambda>t. os_closed (ord t)"]
      fold_keeps [where f = dcache] fold_keeps [where f = dex] fold_keeps [where f = ordP]
      StoreDepthBook_def StoreOrderIDsMap_def setStoreOrderNum_def setOpenOrderNum_def SetLastClosedOrderIDs_def)

lemma BeginBlocker_frame [simp]:
  "ord (order_BeginBlocker False s) = ord s" "dex (order_BeginBlocker False s) = dex s" "ordP (order_BeginBlocker False s) = ordP s"
  "dk_books (dcache (order_BeginBlocker False s)) = dk_books (dcache s)" "dk_ids (dcache (order_BeginBlocker False s)) = dk_ids (dcache s)"
  "dk_closed (dcache (order_BeginBlocker False s)) = []"
  by (simp_all add: order_BeginBlocker_def ResetCache_def Let_def dk_reset_def)

lemma orders_inv_sub:
  assumes "orders_inv s" and "os_orders (ord s') = os_orders (ord s)" and "dk_books (dcache s') = dk_books (dcache s)"
    and "dk_ids (dcache s') = dk_ids (dcache s)" and "closed_ids s' \<subseteq> closed_ids s"
  shows "orders_inv s'"
proof -
  have g: "GetOrder s' = GetOrder s" using assms(2) by (simp add: GetOrder_def fun_eq_iff)
  with assms stores_cong [OF assms(3,4)] show ?thesis
    by (auto simp: orders_inv_def orders_consistent_def orders_wf_def open_queued_def closed_ok_def cache_ok_def)
qed

lemma EndBlocker_ok:
  assumes S: "sdk_laws S" and inv: "orders_inv s" "locks_sound s" "short_queues s" "params_ok s"
    and ids: "ids_new (e_Height e) s" "expire_past (e_Height e) s"
  obtains s' where "order_EndBlocker S e spare s = Some s'" and "orders_inv (order_BeginBlocker False s')"
    and "locks_sound (order_BeginBlocker False s')" and "params_ok (order_BeginBlocker False s')"
    and "ids_new (e_Height e + 1) (order_BeginBlocker False s')" and "expire_past (e_Height e) (order_BeginBlocker False s')"
proof -
  obtain t s1 where t: "Run S e spare s = Some t" "orders_inv t" "locks_sound t" "dom (GetOrder t) \<subseteq> dom (GetOrder s)"
    "closed_ids t \<subseteq> closed_ids s \<union> dom (GetOrder s)" "cleanupExpiredOrders S e s = Some s1"
    "os_expire (ord t) = os_expire (ord s1)" "os_orderNum (ord t) = os_orderNum (ord s1)" "ordP t = ordP s"
    using Run_ok [OF S inv(1,2), of e spare] end_block_reads_all [OF S inv(1,3)] by blast
  let ?u = "order_BeginBlocker False (Cache2Disk t)"
  have g: "GetOrder ?u = GetOrder t" by (simp add: GetOrder_def fun_eq_iff)
  have cl: "closed_ids ?u \<subseteq> closed_ids t" by (auto simp: closed_ids_def GetLastClosedOrderIDs_def)
  have "future_kept (e_Height e) s1 ?u" using t(7,8) by (intro future_kept_frame) simp_all
  from future_kept_trans [OF future_kept_cleanup [OF S inv(1) t(6) order_refl] this] ids(2)
  have k: "expire_past (e_Height e) ?u" "\<forall>h>e_Height e. GetBlockOrderNum ?u h = GetBlockOrderNum s h" by (simp_all add: future_kept_def)
  show thesis
  proof (rule that)
    show "order_EndBlocker S e spare s = Some (Cache2Disk t)" using t(1) by (simp add: order_EndBlocker_def)
    show "orders_inv ?u" by (rule orders_inv_sub [OF t(2) _ _ _ cl]) simp_all
    show "locks_sound ?u" using t(3) by (simp add: locks_sound_def)
    show "params_ok ?u" using inv(4) t(9) by (simp add: params_ok_def)
    show "ids_new (e_Height e + 1) ?u" by (rule ids_new_mono [OF ids(1)]) (use g cl t(4,5) k(2) in auto)
    show "expire_past (e_Height e) ?u" by (rule k(1))
  qed
qed

subsection \<open>The machine\<close>

text \<open>
  A state is the height of the running block and the chain. Transactions with an order message that passed its
  stateless validation are delivered; at the end of a block the engine runs, the caches are flushed and
  the next block begins; other modules change neither the order store, its caches and parameters nor
  the product locks.
\<close>

inductive order_step :: "'b sdk \<Rightarrow> int \<times> 'b chain \<Rightarrow> int \<times> 'b chain \<Rightarrow> bool" for S where
  deliver: "e_Height e = H \<Longrightarrow> order_ValidateBasic msg = None \<Longrightarrow> NewOrderHandler S e gas msg s = Some (er, s')
    \<Longrightarrow> order_step S (H, s) (H, s')"
| next_block: "e_Height e = H \<Longrightarrow> order_EndBlocker S e spare s = Some s'
    \<Longrightarrow> order_step S (H, s) (H + 1, order_BeginBlocker False s')"
| foreign: "ord s' = ord s \<Longrightarrow> dcache s' = dcache s \<Longrightarrow> ordP s' = ordP s \<Longrightarrow> ds_locks (dex s') = ds_locks (dex s)
    \<Longrightarrow> order_step S (H, s) (H, s')"

inductive_simps order_step_iff: "order_step S (H, s) (H', s')"

text \<open>
  A step of a tidy history: a block ends only while no delisted pair has more than two buy orders at a price. With three
  the cleanup cancels an order twice and leaves another one open (\<open>delist_cleanup_skips_orders\<close>), and the books no longer agree
  with the orders.
\<close>

definition tidy_step :: "'b sdk \<Rightarrow> int \<times> 'b chain \<Rightarrow> int \<times> 'b chain \<Rightarrow> bool" where
  "tidy_step S a b \<longleftrightarrow> order_step S a b \<and> (fst a \<noteq> fst b \<longrightarrow> short_queues (snd a))"

fun order_inv :: "int \<times> 'b chain \<Rightarrow> bool" where
  "order_inv (H, s) \<longleftrightarrow> orders_inv s \<and> locks_sound s \<and> params_ok s \<and> ids_new H s \<and> expire_past H s"

lemma frame_inv:
  assumes "handler_frame s s'"
  shows "locks_sound s' = locks_sound s" and "params_ok s' = params_ok s" and "expire_past H s' = expire_past H s"
    and "IsProductLocked s' = IsProductLocked s"
  using assms by (auto simp: handler_frame_def locks_sound_def params_ok_def expire_past_def GetExpireBlockHeight_def
      IsProductLocked_def IsTokenPairLocked_def getProductLock_def fun_eq_iff)

text \<open>What delivering a message guarantees.\<close>

lemma handler_ok:
  assumes S: "sdk_laws S" and inv: "order_inv (e_Height e, s)" and v: "order_ValidateBasic msg = None"
    and h: "NewOrderHandler S e gas msg s = Some (er, s')"
  shows "order_inv (e_Height e, s')" and "er \<noteq> None \<Longrightarrow> s' = s" and "handler_frame s s'"
    and "IsProductLocked s p \<Longrightarrow> book_of (dcache s') p = book_of (dcache s) p"
    and "GetOrder s i = Some x \<Longrightarrow> IsProductLocked s (o_Product x) \<Longrightarrow> GetOrder s' i = Some x"
    and "GetOrder s i = Some x \<Longrightarrow> GetOrder s' i \<noteq> Some x \<Longrightarrow>
           \<exists>ids. msg = MsgCancelOrders (o_Sender x) ids \<and> i \<in> set ids \<and> o_Status x = OrderStatusOpen \<and> is_done (GetOrder s') i"
proof -
  have "order_inv (e_Height e, s') \<and> (er \<noteq> None \<longrightarrow> s' = s) \<and> handler_frame s s'
    \<and> (\<forall>p. IsProductLocked s p \<longrightarrow> book_of (dcache s') p = book_of (dcache s) p)
    \<and> (\<forall>i x. GetOrder s i = Some x \<longrightarrow> IsProductLocked s (o_Product x) \<longrightarrow> GetOrder s' i = Some x)
    \<and> (\<forall>i x. GetOrder s i = Some x \<longrightarrow> GetOrder s' i \<noteq> Some x \<longrightarrow>
           (\<exists>ids. msg = MsgCancelOrders (o_Sender x) ids \<and> i \<in> set ids \<and> o_Status x = OrderStatusOpen \<and> is_done (GetOrder s') i))"
  proof (cases "e_CheckTx e \<or> (\<exists>t. msg = OtherMsg t)")
    case True
    then have "s' = s" using h by (auto simp: NewOrderHandler_def split: if_splits)
    with inv show ?thesis by simp
  next
    case False
    then have d: "order_dispatch S e msg s = Some (er, s')" using h by (simp add: NewOrderHandler_def split: if_splits)
    show ?thesis
    proof (cases msg)
      case (MsgNewOrders sender items)
      have I: "orders_inv s" "ids_new (e_Height e) s" "params_ok s" using inv by simp_all
      have v': "MsgNewOrders_ValidateBasic sender items = None" using v MsgNewOrders by simp
      obtain er' rs t where t: "handleMsgNewOrders S e sender items s = Some (er', rs, t)" "orders_inv t" "ids_new (e_Height e) t"
        "handler_frame s t" "er' \<noteq> None \<Longrightarrow> t = s" "\<And>i x. GetOrder s i = Some x \<Longrightarrow> GetOrder t i = Some x"
        "\<And>p. IsProductLocked s p \<Longrightarrow> book_of (dcache t) p = book_of (dcache s) p"
        by (rule handleMsgNewOrders_ok [OF S I v']) blast
      have "s' = t" "er = map_option OrderFailed er'" using d t(1) MsgNewOrders by simp_all
      with t inv frame_inv [OF t(4)] show ?thesis by auto
    next
      case (MsgCancelOrders sender ids)
      have I: "orders_inv s" using inv by simp
      obtain er' rs t where t: "handleMsgCancelOrders S e sender ids s = Some (er', rs, t)" "orders_inv t" "handler_frame s t"
        "er' \<noteq> None \<Longrightarrow> t = s" "ids_new (e_Height e) s \<Longrightarrow> ids_new (e_Height e) t"
        "\<And>i. GetOrder t i \<noteq> GetOrder s i \<Longrightarrow> i \<in> set ids \<and> is_done (GetOrder t) i
           \<and> (\<exists>x. GetOrder s i = Some x \<and> o_Sender x = sender \<and> o_Status x = OrderStatusOpen \<and> \<not> IsProductLocked s (o_Product x))"
        "\<And>p. IsProductLocked s p \<Longrightarrow> book_of (dcache t) p = book_of (dcache s) p"
        by (rule handleMsgCancelOrders_ok [OF S I, where H = "e_Height e" and e = e and sender = sender and ids = ids]) blast
      have st: "s' = t" "er = map_option OrderFailed er'" using d t(1) MsgCancelOrders by simp_all
      have "GetOrder t i = Some x" if "GetOrder s i = Some x" "IsProductLocked s (o_Product x)" for i x
        using t(6) [of i] that by (cases "GetOrder t i = GetOrder s i") auto
      moreover have "i \<in> set ids \<and> o_Sender x = sender \<and> o_Status x = OrderStatusOpen \<and> is_done (GetOrder t) i"
        if "GetOrder s i = Some x" "GetOrder t i \<noteq> Some x" for i x
        using t(6) [of i] that by auto
      then have "\<exists>ids. msg = MsgCancelOrders (o_Sender x) ids \<and> i \<in> set ids \<and> o_Status x = OrderStatusOpen \<and> is_done (GetOrder t) i"
        if "GetOrder s i = Some x" "GetOrder t i \<noteq> Some x" for i x using that MsgCancelOrders by blast
      moreover have "order_inv (e_Height e, t)" using inv t(2,5) frame_inv [OF t(3)] by simp
      moreover have "er \<noteq> None \<longrightarrow> t = s" using t(4) st(2) by (cases er') simp_all
      ultimately show ?thesis unfolding st(1) using t(3,7) by blast
    qed (use False in simp)
  qed
  then show "order_inv (e_Height e, s')" "er \<noteq> None \<Longrightarrow> s' = s" "handler_frame s s'"
    "IsProductLocked s p \<Longrightarrow> book_of (dcache s') p = book_of (dcache s) p"
    "GetOrder s i = Some x \<Longrightarrow> IsProductLocked s (o_Product x) \<Longrightarrow> GetOrder s' i = Some x"
    "GetOrder s i = Some x \<Longrightarrow> GetOrder s' i \<noteq> Some x \<Longrightarrow>
       \<exists>ids. msg = MsgCancelOrders (o_Sender x) ids \<and> i \<in> set ids \<and> o_Status x = OrderStatusOpen \<and> is_done (GetOrder s') i" by blast+
qed

lemma tidy_step_inv:
  assumes S: "sdk_laws S" and st: "tidy_step S (H, s) (H', s')" and inv: "order_inv (H, s)"
  shows "order_inv (H', s')"
proof -
  consider (deliver) e msg gas er where "H' = H" "e_Height e = H" "order_ValidateBasic msg = None" "NewOrderHandler S e gas msg s = Some (er, s')"
    | (next_block) e spare t where "H' = H + 1" "e_Height e = H" "order_EndBlocker S e spare s = Some t"
        "s' = order_BeginBlocker False t"
    | (foreign) "H' = H" "ord s' = ord s" "dcache s' = dcache s" "ordP s' = ordP s" "ds_locks (dex s') = ds_locks (dex s)"
    using conjunct1 [OF st [unfolded tidy_step_def]] unfolding order_step_iff by blast
  then show ?thesis
  proof cases
    case deliver
    with handler_ok(1) [OF S, of e s msg gas er s'] inv show ?thesis by simp
  next
    case next_block
    have short: "short_queues s" using st next_block(1) by (simp add: tidy_step_def)
    have I: "orders_inv s" "locks_sound s" "params_ok s" "ids_new (e_Height e) s" "expire_past (e_Height e) s"
      using inv next_block by simp_all
    obtain t' where t': "order_EndBlocker S e spare s = Some t'" "orders_inv (order_BeginBlocker False t')"
      "locks_sound (order_BeginBlocker False t')" "params_ok (order_BeginBlocker False t')"
      "ids_new (e_Height e + 1) (order_BeginBlocker False t')" "expire_past (e_Height e) (order_BeginBlocker False t')"
      by (rule EndBlocker_ok [OF S I(1,2) short I(3-5), of spare])
    then have "expire_past (e_Height e + 1) (order_BeginBlocker False t')" by (force simp: expire_past_def)
    with t' next_block show ?thesis by simp
  next
    case foreign
    have k: "keeps_orders s s'" using foreign by (simp add: keeps_orders_def closed_ids_def GetLastClosedOrderIDs_def GetOrder_def fun_eq_iff)
    have "orders_inv s'" using inv orders_inv_cong [OF k] by simp
    moreover have "ids_new H s'" using inv k foreign by (simp add: ids_new_def ids_fresh_def keeps_orders_def GetBlockOrderNum_def)
    ultimately show ?thesis using inv foreign by (simp add: locks_sound_def params_ok_def expire_past_def GetExpireBlockHeight_def)
  qed
qed

lemma order_reachable:
  assumes "sdk_laws S" and "(tidy_step S)\<^sup>*\<^sup>* a b" and "order_inv a"
  shows "order_inv b"
  using assms(2,3)
proof (induction rule: rtranclp_induct)
  case (step b c)
  then show ?case using tidy_step_inv [OF assms(1), of "fst b" "snd b" "fst c" "snd c"] by simp
qed simp

subsection \<open>Properties\<close>

text \<open>
  C1. The order module keeps itself consistent and does not stop the chain, as long as no delisted pair has more than two buy
  orders at a price when a block ends: in every state reachable by delivered messages, such ends of blocks and steps
  of other modules the orders, books and queues agree, every lock is within its quantity, and the ids of coming orders
  are unused; and under the same condition the end of the running block returns.
\<close>

theorem orders_always_consistent:
  assumes "sdk_laws S" and "order_inv (H\<^sub>0, s\<^sub>0)" and "(tidy_step S)\<^sup>*\<^sup>* (H\<^sub>0, s\<^sub>0) (H, s)"
  shows "cache_ok (GetOrder s) (dcache s) \<and> open_queued s \<and> locks_sound s \<and> ids_fresh H s
     \<and> (\<forall>e spare. e_Height e = H \<and> short_queues s \<longrightarrow> order_EndBlocker S e spare s \<noteq> None)"
proof -
  have inv: "order_inv (H, s)" by (rule order_reachable [OF assms(1,3,2)])
  then have I: "orders_inv s" "locks_sound s" "params_ok s" "ids_new H s" "expire_past H s" by simp_all
  have "order_EndBlocker S e spare s \<noteq> None" if "e_Height e = H" "short_queues s" for e spare
    by (rule EndBlocker_ok [OF assms(1) I(1,2) that(2) I(3), of e spare]) (use I(4,5) that(1) in auto)
  moreover have "ids_fresh H s" by (rule ids_newD(1) [OF I(4) order_refl])
  ultimately show ?thesis using I(1,2) by (auto simp: orders_inv_def orders_consistent_def)
qed

definition demo_item :: order_item where
  "demo_item = \<lparr>it_Product = ''abc_okt'', it_Side = SellOrder, it_Price = 200, it_Quantity = 300\<rparr>"

definition demo_tx :: order_msg where
  "demo_tx = MsgNewOrders ''alice'' [demo_item]"

lemma demo_order_inv: "order_inv (e_Height demo_env, demo_dex_chain)"
proof -
  have "ds_locks (dex demo_dex_chain) = []" "os_expire (ord demo_dex_chain) = []" by (simp_all add: demo_dex_chain_def demo_chain_def)
  then have "locks_sound demo_dex_chain" "expire_past h demo_dex_chain" for h
    by (simp_all add: locks_sound_def locks_bounded_def expire_past_def GetExpireBlockHeight_def)
  moreover have "params_ok demo_dex_chain" by code_simp
  ultimately show ?thesis using demo_dex_inv demo_orders(2) by (simp add: ids_new_def)
qed

theorem orders_always_consistent_witness:
  "\<exists>s. NewOrderHandler ref_sdk demo_env 1000000 demo_tx demo_dex_chain = Some (None, s) \<and> open_queued s
     \<and> (\<forall>spare. short_queues s \<longrightarrow> order_EndBlocker ref_sdk demo_env spare s \<noteq> None)"
proof -
  have "case NewOrderHandler ref_sdk demo_env 1000000 demo_tx demo_dex_chain of Some (None, _) \<Rightarrow> True | _ \<Rightarrow> False" by code_simp
  then obtain s where h: "NewOrderHandler ref_sdk demo_env 1000000 demo_tx demo_dex_chain = Some (None, s)"
    by (auto split: option.splits prod.splits)
  have "order_ValidateBasic demo_tx = None" by code_simp
  then have "tidy_step ref_sdk (e_Height demo_env, demo_dex_chain) (e_Height demo_env, s)"
    using h by (auto simp: tidy_step_def intro: order_step.deliver)
  from orders_always_consistent [OF ref_sdk_laws demo_order_inv r_into_rtranclp, OF this] h show ?thesis by blast
qed

text \<open>
  C9. A failed order leaves no trace: whatever the reason, an order item that is answered with an error leaves
  the stores and the caches exactly as they were before it.
\<close>

theorem failed_order_leaves_no_trace:
  assumes "handleNewOrder S e sender item ratio s = Some ((Some er, i), s')"
  shows "s' = s"
proof -
  obtain x where x: "getOrderFromMsg S e sender item ratio s = Some x" using assms by (auto simp: handleNewOrder_def split: option.splits)
  show ?thesis
  proof (cases "checkOrderNewMsg S item s = None \<and> \<not> IsProductLocked s (it_Product item)")
    case True
    then obtain t x' y where "PlaceOrder S e x s = Some (t, x', Some y)" "s' = discard_kv s t"
      using assms x by (auto simp: handleNewOrder_def split: option.splits)
    with discard_failed show ?thesis by metis
  next
    case False
    with assms x show ?thesis by (cases "checkOrderNewMsg S item s") (auto simp: handleNewOrder_def)
  qed
qed

theorem failed_order_leaves_no_trace_witness:
  "\<exists>er i. handleNewOrder ref_sdk demo_env ''alice'' (demo_item\<lparr>it_Quantity := 100000\<rparr>) 100 demo_dex_chain = Some ((Some er, i), demo_dex_chain)"
proof -
  have "case handleNewOrder ref_sdk demo_env ''alice'' (demo_item\<lparr>it_Quantity := 100000\<rparr>) 100 demo_dex_chain of
      Some ((Some _, _), _) \<Rightarrow> True | _ \<Rightarrow> False" by code_simp
  then obtain er i s' where h: "handleNewOrder ref_sdk demo_env ''alice'' (demo_item\<lparr>it_Quantity := 100000\<rparr>) 100 demo_dex_chain = Some ((Some er, i), s')"
    by (auto split: option.splits prod.splits)
  from failed_order_leaves_no_trace [OF h] h show ?thesis by blast
qed

text \<open>
  C5. Only its owner can take an order away: when delivering a message changes a stored order, the message is a cancellation
  signed by the sender of the order that names it, the order was open, its product was not locked, and
  it is closed afterwards. A message that is answered with an error changes nothing at all.
\<close>

theorem only_owner_cancels:
  assumes "sdk_laws S" and "order_inv (e_Height e, s)" and "order_ValidateBasic msg = None"
    and "NewOrderHandler S e gas msg s = Some (er, s')" and "GetOrder s i = Some x"
  shows "(er \<noteq> None \<longrightarrow> s' = s)
     \<and> (GetOrder s' i \<noteq> Some x \<longrightarrow> (\<exists>ids. msg = MsgCancelOrders (o_Sender x) ids \<and> i \<in> set ids) \<and> o_Status x = OrderStatusOpen
          \<and> \<not> IsProductLocked s (o_Product x) \<and> is_done (GetOrder s') i)"
  using handler_ok(2,5,6) [OF assms(1-4)] assms(5) by blast

definition demo_placed :: "ref_bank chain" where
  "demo_placed = snd (the (NewOrderHandler ref_sdk demo_env 1000000 demo_tx demo_dex_chain))"

lemma demo_placed: "order_inv (e_Height demo_env, demo_placed)"
  "NewOrderHandler ref_sdk demo_env 1000000 demo_tx demo_dex_chain = Some (None, demo_placed)"
proof -
  have "case NewOrderHandler ref_sdk demo_env 1000000 demo_tx demo_dex_chain of Some (None, _) \<Rightarrow> True | _ \<Rightarrow> False" by code_simp
  then show h: "NewOrderHandler ref_sdk demo_env 1000000 demo_tx demo_dex_chain = Some (None, demo_placed)"
    by (auto simp: demo_placed_def split: option.splits prod.splits)
  have "order_ValidateBasic demo_tx = None" by code_simp
  from handler_ok(1) [OF ref_sdk_laws demo_order_inv this h] show "order_inv (e_Height demo_env, demo_placed)" .
qed

theorem only_owner_cancels_witness:
  "\<exists>er s'. NewOrderHandler ref_sdk demo_env 1000000 (MsgCancelOrders ''bob'' [FormatOrderID (e_Height demo_env) 1]) demo_placed = Some (er, s')
     \<and> GetOrder s' (FormatOrderID (e_Height demo_env) 1) \<noteq> None"
proof -
  let ?m = "MsgCancelOrders ''bob'' [FormatOrderID (e_Height demo_env) 1]" and ?i = "FormatOrderID (e_Height demo_env) 1"
  have "NewOrderHandler ref_sdk demo_env 1000000 ?m demo_placed \<noteq> None" "GetOrder demo_placed ?i \<noteq> None"
    "o_Sender (the (GetOrder demo_placed ?i)) = ''alice''" "order_ValidateBasic ?m = None"
    by (code_simp, code_simp, code_simp, code_simp)
  then obtain er s' x where h: "NewOrderHandler ref_sdk demo_env 1000000 ?m demo_placed = Some (er, s')" "GetOrder demo_placed ?i = Some x"
    "o_Sender x = ''alice''" "order_ValidateBasic ?m = None" by auto
  from only_owner_cancels [OF ref_sdk_laws demo_placed(1) h(4,1,2)] h(1,3) show ?thesis by auto
qed

text \<open>
  C6. Users cannot touch a locked product: no message, successful or not, changes an order or the book of a product
  that is locked, and a lock that its book can still serve stays so until the engine executes it.
\<close>

theorem locked_product_frozen:
  assumes "sdk_laws S" and "order_inv (e_Height e, s)" and "order_ValidateBasic msg = None"
    and "NewOrderHandler S e gas msg s = Some (er, s')" and "getProductLock s product = Some lock"
  shows "getProductLock s' product = Some lock \<and> GetDepthBookCopy s' product = GetDepthBookCopy s product
     \<and> (\<forall>i x. GetOrder s i = Some x \<and> o_Product x = product \<longrightarrow> GetOrder s' i = Some x)
     \<and> (lock_live s product lock \<longrightarrow> lock_live s' product lock)"
proof -
  have l: "IsProductLocked s product" using assms(5) by (simp add: IsProductLocked_def IsTokenPairLocked_def)
  have b: "book_of (dcache s') product = book_of (dcache s) product" by (rule handler_ok(4) [OF assms(1-4) l])
  have "getProductLock s' product = Some lock"
    using handler_ok(3) [OF assms(1-4)] assms(5) by (simp add: getProductLock_def handler_frame_def)
  moreover have "GetOrder s' i = Some x" if "GetOrder s i = Some x" "o_Product x = product" for i x
    by (rule handler_ok(5) [OF assms(1-4) that(1)]) (use l that(2) in simp)
  ultimately show ?thesis using b by (auto simp: GetDepthBookCopy_book_of lock_live_def)
qed

theorem locked_product_frozen_witness:
  "\<exists>er s'. NewOrderHandler ref_sdk demo_env 1000000 demo_tx (SetProductLock ''abc_okt'' demo_lock demo_dex_chain) = Some (er, s')
     \<and> getProductLock s' ''abc_okt'' = Some demo_lock \<and> GetDepthBookCopy s' ''abc_okt'' = []"
proof -
  let ?s = "SetProductLock ''abc_okt'' demo_lock demo_dex_chain"
  have c: "NewOrderHandler ref_sdk demo_env 1000000 demo_tx ?s \<noteq> None" "order_ValidateBasic demo_tx = None"
    "getProductLock ?s ''abc_okt'' = Some demo_lock" "GetDepthBookCopy ?s ''abc_okt'' = []" "ds_locks (dex demo_dex_chain) = []"
    by (code_simp, code_simp, code_simp, code_simp, code_simp)
  have "keeps_orders demo_dex_chain ?s"
    by (simp add: keeps_orders_def SetProductLock_def LockTokenPair_def closed_ids_def GetLastClosedOrderIDs_def GetOrder_def fun_eq_iff)
  then have "ids_new H ?s = ids_new H demo_dex_chain" for H
    by (simp add: ids_new_def ids_fresh_def keeps_orders_def) (simp add: SetProductLock_def LockTokenPair_def GetBlockOrderNum_def)
  moreover have "params_ok ?s = params_ok demo_dex_chain" "expire_past H ?s = expire_past H demo_dex_chain" for H
    by (simp_all add: params_ok_def expire_past_def GetExpireBlockHeight_def SetProductLock_def LockTokenPair_def)
  moreover have "locks_sound ?s" by (auto simp: locks_sound_def locks_bounded_def c(5) lock_within_def demo_lock_def split: if_splits)
  ultimately have "order_inv (e_Height demo_env, ?s)" using demo_order_inv by simp
  moreover obtain er s' where "NewOrderHandler ref_sdk demo_env 1000000 demo_tx ?s = Some (er, s')" using c(1) by auto
  ultimately show ?thesis using locked_product_frozen [OF ref_sdk_laws _ c(2) _ c(3)] c(4) by metis
qed

text \<open>
  Gas is exact within the limits of the messages: as long as the gas unit is at most the 200th part of the 64-bit range, a
  message that passed its validation is charged the unit for every item. Beyond that the product wraps: with a unit
  of \<open>2 ^ 63\<close> a message with two orders is free.
\<close>

theorem order_gas_exact:
  "(order_ValidateBasic (MsgNewOrders sender items) = None \<and> p_NewOrderMsgGasUnit params \<le> (2 ^ 64 - 1) div 200 \<longrightarrow>
      CalculateGas (MsgNewOrders sender items) params = int (length items * p_NewOrderMsgGasUnit params))
   \<and> (order_ValidateBasic (MsgCancelOrders sender ids) = None \<and> p_CancelOrderMsgGasUnit params \<le> (2 ^ 64 - 1) div 200 \<longrightarrow>
      CalculateGas (MsgCancelOrders sender ids) params = int (length ids * p_CancelOrderMsgGasUnit params))
   \<and> CalculateGas (MsgNewOrders sender [item, item']) (params\<lparr>p_NewOrderMsgGasUnit := 2 ^ 63\<rparr>) = 0"
proof -
  have e: "msg_CalculateGas n u = int (n * u)" if "n \<le> 200" "u \<le> (2 ^ 64 - 1) div 200" for n u
  proof -
    have "n * u \<le> 200 * ((2 ^ 64 - 1) div 200)" using that by (intro mult_le_mono) simp_all
    also have "\<dots> \<le> 2 ^ 64 - 1" by simp
    finally have "int (n * u) \<le> int (2 ^ 64 - 1)" by (simp only: of_nat_le_iff)
    then show ?thesis by (simp add: msg_CalculateGas_def)
  qed
  have "length items \<le> 200" if "order_ValidateBasic (MsgNewOrders sender items) = None"
    using that by (auto simp: MsgNewOrders_ValidateBasic_def OrderItemLimit_def split: if_splits)
  moreover have "length ids \<le> 200" if "order_ValidateBasic (MsgCancelOrders sender ids) = None"
    using that by (auto simp: MsgCancelOrders_ValidateBasic_def MultiCancelOrderItemLimit_def split: if_splits)
  ultimately show ?thesis using e by (auto simp: msg_CalculateGas_def)
qed

theorem order_gas_exact_witness:
  "CalculateGas demo_tx \<lparr>p_OrderExpireBlocks = 1, p_MaxDealsPerBlock = 1, p_FeePerBlock = (''okt'', 0), p_TradeFeeRate = 0,
     p_NewOrderMsgGasUnit = 40000, p_CancelOrderMsgGasUnit = 1\<rparr> = 40000"
proof -
  have "order_ValidateBasic demo_tx = None" by code_simp
  with order_gas_exact [of "''alice''" "[demo_item]" "\<lparr>p_OrderExpireBlocks = 1, p_MaxDealsPerBlock = 1, p_FeePerBlock = (''okt'', 0),
      p_TradeFeeRate = 0, p_NewOrderMsgGasUnit = 40000, p_CancelOrderMsgGasUnit = 1\<rparr>"]
  show ?thesis by (simp add: demo_tx_def)
qed

text \<open>
  C35. Orders and roll-back do not go together: when the transaction of a placed order fails later, the stores are
  restored but the caches are not, and the id stays in the queue of its price although no such order exists. The
  check against it, one order message per transaction, runs when a node admits the transaction, and not when a block delivers it.
\<close>

theorem rolled_back_order_dangles:
  assumes "orders_consistent s" and "ids_fresh (e_Height e) s" and "order_live x" and "o_Status x = OrderStatusOpen"
    and "PlaceOrder S e x s = Some (s', x', None)"
  shows "GetOrder (discard_kv s s') (o_OrderID x') = None
     \<and> o_OrderID x' \<in> set (getOrderIDs (dcache (discard_kv s s')) (key_of x'))
     \<and> \<not> orders_consistent (discard_kv s s')
     \<and> (\<forall>e' simulate items msg t. AnteHandle S e' simulate [OrderMsg (MsgNewOrders (o_Sender x) items), msg] t =
          (if e_CheckTx e' \<and> \<not> simulate then Some (Some WrongMsg, t) else Some (None, t)))"
proof -
  note c = PlaceOrder_consistent [OF assms]
  have g: "GetOrder (discard_kv s s') = GetOrder s" by (simp add: GetOrder_def discard_kv_def fun_eq_iff)
  have d: "dcache (discard_kv s s') = dcache s'" by (simp add: discard_kv_def)
  have i: "o_OrderID x' \<in> set (getOrderIDs (dcache s') (key_of x'))"
    by (auto simp: c(5) getOrderIDs_def insertOrder_def FormatOrderIDsKey_def Let_def)
  have "\<not> orders_consistent (discard_kv s s')"
  proof
    assume "orders_consistent (discard_kv s s')"
    then have "cache_ok (GetOrder s) (dcache s')" by (simp add: orders_consistent_def g d)
    from cache_ok_fresh [OF this c(3)] i show False by blast
  qed
  with i c(3) show ?thesis by (simp add: g d AnteHandle_def validateMsgHook_def)
qed

theorem rolled_back_order_dangles_witness:
  "\<exists>s' x'. PlaceOrder ref_sdk demo_env demo_buy demo_dex_chain = Some (s', x', None) \<and> \<not> orders_consistent (discard_kv demo_dex_chain s')"
proof -
  have "case PlaceOrder ref_sdk demo_env demo_buy demo_dex_chain of Some (_, _, None) \<Rightarrow> True | _ \<Rightarrow> False"
    "order_live demo_buy" "o_Status demo_buy = OrderStatusOpen" by (code_simp, code_simp, code_simp)
  then obtain s' x' where "PlaceOrder ref_sdk demo_env demo_buy demo_dex_chain = Some (s', x', None)"
    "order_live demo_buy" "o_Status demo_buy = OrderStatusOpen" by (auto split: option.splits prod.splits)
  moreover have "orders_consistent demo_dex_chain" "ids_fresh (e_Height demo_env) demo_dex_chain"
    using demo_order_inv ids_newD(1) by (auto simp: orders_inv_def)
  ultimately show ?thesis using rolled_back_order_dangles by blast
qed

text \<open>
  A genesis import can hand out an id twice: the import counts the open orders of a height instead of keeping the highest
  number. Importing only the second order of a height makes the next order of that height overwrite it.
\<close>

theorem genesis_reuses_ids:
  assumes "o_OrderID y = FormatOrderID (e_Height e) 2" and "GetBlockOrderNum s (e_Height e) = 0"
    and "t = order_InitGenesis \<lparr>og_Params = params, og_OpenOrders = [y]\<rparr> s"
    and "PlaceOrder S e x t = Some (s', x', None)"
  shows "GetOrder t (o_OrderID y) = Some y \<and> o_OrderID x' = o_OrderID y \<and> GetOrder s' (o_OrderID y) = Some x'"
proof -
  note f = PlaceOrder_frame [OF assms(4)]
  have "GetOrder t (o_OrderID y) = Some y" "GetBlockOrderNum t (e_Height e) = 1"
    using assms(2) by (simp_all add: assms(1,3) order_InitGenesis_def init_order_def height_of_FormatOrderID Let_def GetOrder_def
        GetBlockOrderNum_def SetOrder_def SetBlockOrderNum_def SetExpireBlockHeight_def InsertOrderIntoDepthBook_def)
  moreover from this(2) f(2) have "o_OrderID x' = o_OrderID y" by (simp add: assms(1))
  moreover from this have "GetOrder s' (o_OrderID y) = Some x'" by (simp add: GetOrder_def f(12))
  ultimately show ?thesis by blast
qed

theorem genesis_reuses_ids_witness:
  "\<exists>s' x'. PlaceOrder ref_sdk demo_env demo_buy (order_InitGenesis \<lparr>og_Params = ordP demo_dex_chain,
       og_OpenOrders = [demo_buy\<lparr>o_OrderID := FormatOrderID 5 2\<rparr>]\<rparr> demo_dex_chain) = Some (s', x', None)
     \<and> o_OrderID x' = FormatOrderID 5 2"
proof -
  let ?y = "demo_buy\<lparr>o_OrderID := FormatOrderID 5 2\<rparr>"
  let ?t = "order_InitGenesis \<lparr>og_Params = ordP demo_dex_chain, og_OpenOrders = [?y]\<rparr> demo_dex_chain"
  have "case PlaceOrder ref_sdk demo_env demo_buy ?t of Some (_, _, None) \<Rightarrow> True | _ \<Rightarrow> False"
    "GetBlockOrderNum demo_dex_chain (e_Height demo_env) = 0" by (code_simp, code_simp)
  moreover have "o_OrderID ?y = FormatOrderID (e_Height demo_env) 2" by (simp add: demo_env_def)
  ultimately show ?thesis
    using genesis_reuses_ids [of ?y demo_env demo_dex_chain ?t "ordP demo_dex_chain" ref_sdk demo_buy] by (auto split: option.splits prod.splits)
qed

end
