(* ===== verification/EvmState.thy ===== *)
theory EvmState
  imports Sdk "HOL-Library.Word" "HOL-Library.Monad_Syntax"
begin

text \<open>
  The state of the EVM module: \<open>x/evm/types/access_list.go\<close>, \<open>journal.go\<close>, \<open>state_object.go\<close>
  and \<open>statedb.go\<close>, with \<open>Balance\<close> and \<open>SetBalance\<close> of \<open>app/types/account.go\<close>.

  A Go map is a partial function, a set of keys (\<open>map[K]struct\{\}\<close>) a set. Addresses and hashes are byte strings. The slice of
  state objects holds pointers; every pointer the code mutates is the one at the index of its address, so a
  mutation is an update of that entry. \<open>None\<close> is a panic: an index out of range, a method call
  on a missing object, or an explicit one. Account keeper and hash function are not in this repository
  and are fields of the record \<open>evm_ext\<close>.
\<close>

type_synonym bytes = string
type_synonym eth_addr = string
type_synonym eth_hash = string

definition zero_hash :: eth_hash where
  "zero_hash = replicate 32 (char_of (0 :: nat))"

definition BytesToHash :: "bytes \<Rightarrow> eth_hash" where
  "BytesToHash b = (if 32 < length b then drop (length b - 32) b else replicate (32 - length b) (char_of (0 :: nat)) @ b)"

definition ripemd :: eth_addr where
  "ripemd = replicate 19 (char_of (0 :: nat)) @ [char_of (3 :: nat)]"

subsection \<open>Accounts\<close>

record eth_account =
  ac_Address :: eth_addr
  ac_Coins :: coins
  ac_Sequence :: "64 word"
  ac_CodeHash :: bytes

text \<open>An account of the keeper is an Ethereum account or one of another type, such as a module account.\<close>

datatype account = EthAcc eth_account | OtherAcc

record 'b evm_ext =
  x_sdk :: "'b sdk"
  x_keccak :: "bytes \<Rightarrow> eth_hash"
  ak_get :: "'b \<Rightarrow> eth_addr \<Rightarrow> account option"
  ak_set :: "eth_account \<Rightarrow> 'b \<Rightarrow> 'b"
  ak_remove :: "eth_account \<Rightarrow> 'b \<Rightarrow> 'b"
  ak_new :: "eth_addr \<Rightarrow> 'b \<Rightarrow> eth_account \<times> 'b"

definition emptyCodeHash :: "'b evm_ext \<Rightarrow> bytes" where
  "emptyCodeHash X = x_keccak X []"

definition acc_Balance :: "denom \<Rightarrow> eth_account \<Rightarrow> dec" where
  "acc_Balance d acc = amt (ac_Coins acc) d"

definition acc_SetBalance :: "'b evm_ext \<Rightarrow> denom \<Rightarrow> dec \<Rightarrow> eth_account \<Rightarrow> eth_account option" where
  "acc_SetBalance X d a acc =
     (let diff = a - amt (ac_Coins acc) d
      in if 0 < diff then Some (acc\<lparr>ac_Coins := c_add2 (x_sdk X) (ac_Coins acc) [(d, diff)]\<rparr>)
         else if diff < 0
         then map_option (\<lambda>cs. acc\<lparr>ac_Coins := cs\<rparr>) (coins_sub (x_sdk X) (ac_Coins acc) [(d, - diff)])
         else Some acc)"

subsection \<open>Access list\<close>

record access_list =
  al_addresses :: "eth_addr \<rightharpoonup> int"
  al_slots :: "eth_hash set list"

definition newAccessList :: access_list where
  "newAccessList = \<lparr>al_addresses = Map.empty, al_slots = []\<rparr>"

definition ContainsAddress :: "eth_addr \<Rightarrow> access_list \<Rightarrow> bool" where
  "ContainsAddress a al = (al_addresses al a \<noteq> None)"

text \<open>The index of an address is \<open>-1\<close> or was a length of the slice when it was stored; it is never below \<open>-1\<close>.\<close>

definition Contains :: "eth_addr \<Rightarrow> eth_hash \<Rightarrow> access_list \<Rightarrow> bool \<times> bool" where
  "Contains a slot al =
     (case al_addresses al a of
        None \<Rightarrow> (False, False)
      | Some idx \<Rightarrow>
          if idx = -1 then (True, False)
          else if idx \<ge> int (length (al_slots al)) then (True, False)
          else (True, slot \<in> al_slots al ! nat idx))"

definition AddAddress :: "eth_addr \<Rightarrow> access_list \<Rightarrow> bool \<times> access_list" where
  "AddAddress a al =
     (if al_addresses al a \<noteq> None then (False, al)
      else (True, al\<lparr>al_addresses := (al_addresses al)(a \<mapsto> -1)\<rparr>))"

definition AddSlot :: "eth_addr \<Rightarrow> eth_hash \<Rightarrow> access_list \<Rightarrow> bool \<times> bool \<times> access_list" where
  "AddSlot a slot al =
     (let addrPresent = al_addresses al a \<noteq> None
      in if \<not> addrPresent \<or> al_addresses al a = Some (-1)
         then (\<not> addrPresent, True, al\<lparr>al_addresses := (al_addresses al)(a \<mapsto> int (length (al_slots al))),
                 al_slots := al_slots al @ [{slot}]\<rparr>)
         else
           (let idx = the (al_addresses al a)
            in if idx \<ge> int (length (al_slots al)) then (False, False, al)
               else if slot \<notin> al_slots al ! nat idx
               then (False, True, al\<lparr>al_slots := (al_slots al)[nat idx := insert slot (al_slots al ! nat idx)]\<rparr>)
               else (False, False, al)))"

definition DeleteSlot :: "eth_addr \<Rightarrow> eth_hash \<Rightarrow> access_list \<Rightarrow> access_list option" where
  "DeleteSlot a slot al =
     (case al_addresses al a of
        None \<Rightarrow> None
      | Some idx \<Rightarrow>
          if idx < 0 \<or> idx \<ge> int (length (al_slots al)) then None
          else
            (let slotmap = al_slots al ! nat idx - {slot}
             in if slotmap = {}
                then Some (al\<lparr>al_slots := take (nat idx) (al_slots al), al_addresses := (al_addresses al)(a \<mapsto> -1)\<rparr>)
                else Some (al\<lparr>al_slots := (al_slots al)[nat idx := slotmap]\<rparr>)))"

definition DeleteAddress :: "eth_addr \<Rightarrow> access_list \<Rightarrow> access_list" where
  "DeleteAddress a al = al\<lparr>al_addresses := (al_addresses al)(a := None)\<rparr>"

subsection \<open>State objects and the journal\<close>

type_synonym storage = "(eth_hash \<times> eth_hash) list"

datatype db_error = NoAccount eth_addr | NoCode bytes eth_addr

record state_object =
  so_code :: "bytes option"
  so_originStorage :: storage
  so_dirtyStorage :: storage
  so_dbErr :: "db_error option"
  so_account :: eth_account
  so_originIndex :: "eth_hash \<rightharpoonup> nat"
  so_dirtyIndex :: "eth_hash \<rightharpoonup> nat"
  so_address :: eth_addr
  so_dirtyCode :: bool
  so_suicided :: bool
  so_deleted :: bool

datatype journal_entry =
    createObjectChange eth_addr
  | resetObjectChange state_object
  | suicideChange eth_addr bool dec
  | balanceChange eth_addr dec
  | nonceChange eth_addr "64 word"
  | storageChange eth_addr eth_hash eth_hash
  | codeChange eth_addr "bytes option" bytes
  | refundChange "64 word"
  | addLogChange eth_hash
  | addPreimageChange eth_hash
  | touchChange eth_addr
  | accessListAddAccountChange eth_addr
  | accessListAddSlotChange eth_addr eth_hash

fun dirtied :: "journal_entry \<Rightarrow> eth_addr option" where
  "dirtied (createObjectChange a) = Some a"
| "dirtied (suicideChange a p b) = Some a"
| "dirtied (balanceChange a p) = Some a"
| "dirtied (nonceChange a p) = Some a"
| "dirtied (storageChange a k p) = Some a"
| "dirtied (codeChange a c h) = Some a"
| "dirtied (touchChange a) = Some a"
| "dirtied e = None"

record journal =
  j_entries :: "journal_entry list"
  j_dirties :: "(eth_addr \<times> nat) list"
  j_index :: "eth_addr \<rightharpoonup> nat"

definition newJournal :: journal where
  "newJournal = \<lparr>j_entries = [], j_dirties = [], j_index = Map.empty\<rparr>"

definition getDirty :: "eth_addr \<Rightarrow> journal \<Rightarrow> nat option" where
  "getDirty a j =
     (case j_index j a of
        None \<Rightarrow> Some 0
      | Some idx \<Rightarrow> if idx < length (j_dirties j) then Some (snd (j_dirties j ! idx)) else None)"

definition addDirty :: "eth_addr \<Rightarrow> journal \<Rightarrow> journal option" where
  "addDirty a j =
     (let (idx, j1) =
        (case j_index j a of
           Some idx \<Rightarrow> (idx, j)
         | None \<Rightarrow> (length (j_dirties j),
                      j\<lparr>j_dirties := j_dirties j @ [(a, 0)], j_index := (j_index j)(a \<mapsto> length (j_dirties j))\<rparr>))
      in if idx < length (j_dirties j1)
         then Some (j1\<lparr>j_dirties := (j_dirties j1)[idx := apsnd Suc (j_dirties j1 ! idx)]\<rparr>) else None)"

definition substractDirty :: "eth_addr \<Rightarrow> journal \<Rightarrow> journal option" where
  "substractDirty a j =
     (case j_index j a of
        None \<Rightarrow> Some j
      | Some idx \<Rightarrow>
          if idx < length (j_dirties j)
          then if snd (j_dirties j ! idx) = 0 then Some j
               else Some (j\<lparr>j_dirties := (j_dirties j)[idx := apsnd (\<lambda>n. n - 1) (j_dirties j ! idx)]\<rparr>)
          else None)"

text \<open>The indices of the entries behind the deleted one are not adjusted.\<close>

definition deleteDirty :: "eth_addr \<Rightarrow> journal \<Rightarrow> journal option" where
  "deleteDirty a j =
     (case j_index j a of
        None \<Rightarrow> Some j
      | Some idx \<Rightarrow>
          if idx < length (j_dirties j)
          then Some (j\<lparr>j_dirties := remove_nth idx (j_dirties j), j_index := (j_index j)(a := None)\<rparr>)
          else None)"

definition journal_append :: "journal_entry \<Rightarrow> journal \<Rightarrow> journal option" where
  "journal_append entry j =
     (let j1 = j\<lparr>j_entries := j_entries j @ [entry]\<rparr>
      in case dirtied entry of Some a \<Rightarrow> addDirty a j1 | None \<Rightarrow> Some j1)"

text \<open>The part of \<open>journal.revert\<close> that drops the dirty mark of one entry.\<close>

definition drop_dirty :: "journal_entry \<Rightarrow> journal \<Rightarrow> journal option" where
  "drop_dirty entry j =
     (case dirtied entry of
        None \<Rightarrow> Some j
      | Some a \<Rightarrow> do {
          j1 \<leftarrow> substractDirty a j;
          n \<leftarrow> getDirty a j1;
          if n = 0 then deleteDirty a j1 else Some j1
        })"

subsection \<open>The state database\<close>

record eth_log =
  lg_Address :: eth_addr
  lg_Topics :: "eth_hash list"
  lg_Data :: bytes
  lg_TxHash :: eth_hash
  lg_BlockHash :: eth_hash
  lg_TxIndex :: int
  lg_Index :: "64 word"

record evm_params =
  ep_EnableCreate :: bool
  ep_EnableCall :: bool
  ep_EvmDenom :: denom
  ep_ExtraEIPs :: "int list"

text \<open>The KV store of the module: storage per address and prefixed key, code, block hashes, parameters.\<close>

record evm_kv =
  kv_storage :: "eth_addr \<Rightarrow> eth_hash \<rightharpoonup> bytes"
  kv_code :: "bytes \<rightharpoonup> bytes"
  kv_heights :: "nat \<rightharpoonup> bytes"
  kv_params :: evm_params

record 'b csdb =
  s_bank :: 'b
  s_kv :: evm_kv
  s_objects :: "(eth_addr \<times> state_object) list"
  s_index :: "eth_addr \<rightharpoonup> nat"
  s_dirty :: "eth_addr set"
  s_refund :: "64 word"
  s_thash :: eth_hash
  s_bhash :: eth_hash
  s_txIndex :: int
  s_logSize :: "64 word"
  s_logs :: "eth_log list"
  s_preimages :: "(eth_hash \<times> bytes) list"
  s_preimageIndex :: "eth_hash \<rightharpoonup> nat"
  s_dbErr :: "db_error option"
  s_journal :: journal
  s_revisions :: "(nat \<times> nat) list"
  s_nextRevision :: nat
  s_access :: access_list
  s_params :: "evm_params option"

definition CreateEmptyCommitStateDB :: "'b \<Rightarrow> evm_kv \<Rightarrow> 'b csdb" where
  "CreateEmptyCommitStateDB b kv =
     \<lparr>s_bank = b, s_kv = kv, s_objects = [], s_index = Map.empty, s_dirty = {}, s_refund = 0, s_thash = zero_hash,
      s_bhash = zero_hash, s_txIndex = 0, s_logSize = 0, s_logs = [], s_preimages = [], s_preimageIndex = Map.empty,
      s_dbErr = None, s_journal = newJournal, s_revisions = [], s_nextRevision = 0, s_access = newAccessList, s_params = None\<rparr>"

definition params_of :: "'b csdb \<Rightarrow> evm_params" where
  "params_of s = (case s_params s of Some p \<Rightarrow> p | None \<Rightarrow> kv_params (s_kv s))"

definition evm_GetParams :: "'b csdb \<Rightarrow> evm_params \<times> 'b csdb" where
  "evm_GetParams s = (params_of s, s\<lparr>s_params := Some (params_of s)\<rparr>)"

definition evm_SetParams :: "evm_params \<Rightarrow> 'b csdb \<Rightarrow> 'b csdb" where
  "evm_SetParams p s = s\<lparr>s_params := Some p, s_kv := (s_kv s)\<lparr>kv_params := p\<rparr>\<rparr>"

definition csdb_append :: "journal_entry \<Rightarrow> 'b csdb \<Rightarrow> 'b csdb option" where
  "csdb_append entry s = map_option (\<lambda>j. s\<lparr>s_journal := j\<rparr>) (journal_append entry (s_journal s))"

subsection \<open>Finding and creating objects\<close>

definition newStateObject :: "'b evm_ext \<Rightarrow> account \<Rightarrow> state_object option" where
  "newStateObject X acc =
     (case acc of
        OtherAcc \<Rightarrow> None
      | EthAcc ea \<Rightarrow>
          (let ea' = (if ac_CodeHash ea = [] then ea\<lparr>ac_CodeHash := emptyCodeHash X\<rparr> else ea)
           in Some \<lparr>so_code = None, so_originStorage = [], so_dirtyStorage = [], so_dbErr = None, so_account = ea',
                so_originIndex = Map.empty, so_dirtyIndex = Map.empty, so_address = ac_Address ea',
                so_dirtyCode = False, so_suicided = False, so_deleted = False\<rparr>))"

definition setStateObject :: "state_object \<Rightarrow> 'b csdb \<Rightarrow> 'b csdb option" where
  "setStateObject so s =
     (case s_index s (so_address so) of
        Some idx \<Rightarrow>
          if idx < length (s_objects s)
          then Some (s\<lparr>s_objects := (s_objects s)[idx := (fst (s_objects s ! idx), so)]\<rparr>) else None
      | None \<Rightarrow>
          Some (s\<lparr>s_objects := s_objects s @ [(so_address so, so)],
                  s_index := (s_index s)(so_address so \<mapsto> length (s_objects s))\<rparr>))"

definition set_error :: "db_error \<Rightarrow> 'b csdb \<Rightarrow> 'b csdb" where
  "set_error er s = (if s_dbErr s = None then s\<lparr>s_dbErr := Some er\<rparr> else s)"

text \<open>The entries of the slice are never nil pointers: \<open>setStateObject\<close> is only called with an object.\<close>

definition getStateObject :: "'b evm_ext \<Rightarrow> eth_addr \<Rightarrow> 'b csdb \<Rightarrow> (state_object option \<times> 'b csdb) option" where
  "getStateObject X a s =
     (case s_index s a of
        Some idx \<Rightarrow>
          if idx < length (s_objects s)
          then Some (let so = snd (s_objects s ! idx) in if so_deleted so then None else Some so, s)
          else None
      | None \<Rightarrow>
          (case ak_get X (s_bank s) a of
             None \<Rightarrow> Some (None, set_error (NoAccount a) s)
           | Some acc \<Rightarrow> do {
               so \<leftarrow> newStateObject X acc;
               s1 \<leftarrow> setStateObject so s;
               Some (Some so, s1)
             }))"

definition createObject :: "'b evm_ext \<Rightarrow> eth_addr \<Rightarrow> 'b csdb \<Rightarrow> (state_object \<times> state_object option \<times> 'b csdb) option" where
  "createObject X a s = do {
     (prevObj, s1) \<leftarrow> getStateObject X a s;
     let (acc, b) = ak_new X a (s_bank s1);
     newObj \<leftarrow> newStateObject X (EthAcc acc);
     let newObj' = newObj\<lparr>so_account := (so_account newObj)\<lparr>ac_Sequence := 0\<rparr>\<rparr>;
     s2 \<leftarrow> csdb_append (case prevObj of None \<Rightarrow> createObjectChange a | Some p \<Rightarrow> resetObjectChange p) (s1\<lparr>s_bank := b\<rparr>);
     s3 \<leftarrow> setStateObject newObj' s2;
     Some (newObj', prevObj, s3)
   }"

definition GetOrNewStateObject :: "'b evm_ext \<Rightarrow> eth_addr \<Rightarrow> 'b csdb \<Rightarrow> (state_object \<times> 'b csdb) option" where
  "GetOrNewStateObject X a s = do {
     (so, s1) \<leftarrow> getStateObject X a s;
     (case so of
        Some x \<Rightarrow> if so_deleted x then map_option (\<lambda>(y, _, t). (y, t)) (createObject X a s1) else Some (x, s1)
      | None \<Rightarrow> map_option (\<lambda>(y, _, t). (y, t)) (createObject X a s1))
   }"

text \<open>
  The object of an address in the slice, and a mutation through its pointer. The object methods below take the address
  of the object they are called on; they are only called on objects that are in the slice.
\<close>

definition obj_at :: "eth_addr \<Rightarrow> 'b csdb \<Rightarrow> state_object option" where
  "obj_at a s =
     (case s_index s a of
        Some idx \<Rightarrow> if idx < length (s_objects s) then Some (snd (s_objects s ! idx)) else None
      | None \<Rightarrow> None)"

definition upd_obj :: "eth_addr \<Rightarrow> (state_object \<Rightarrow> state_object option) \<Rightarrow> 'b csdb \<Rightarrow> 'b csdb option" where
  "upd_obj a f s =
     (case s_index s a of
        Some idx \<Rightarrow>
          if idx < length (s_objects s)
          then map_option (\<lambda>so. s\<lparr>s_objects := (s_objects s)[idx := (fst (s_objects s ! idx), so)]\<rparr>)
                 (f (snd (s_objects s ! idx)))
          else None
      | None \<Rightarrow> None)"

end
