(* ===== verification/EvmStateDB.thy ===== *)
theory EvmStateDB
  imports EvmState
begin

text \<open>
  The operations of the EVM state: the methods of state objects (\<open>x/evm/types/state_object.go\<close>), the setters
  and getters of \<open>statedb.go\<close>, the undo of journal entries (\<open>journal.go\<close>), snapshots, and the writing of the state to the
  stores by \<open>Finalise\<close> and \<open>Commit\<close>. \<open>None\<close> is a panic.
\<close>

subsection \<open>Reading objects\<close>

definition so_CodeHash :: "'b evm_ext \<Rightarrow> state_object \<Rightarrow> bytes" where
  "so_CodeHash X so = (if ac_CodeHash (so_account so) = [] then emptyCodeHash X else ac_CodeHash (so_account so))"

definition so_setError :: "db_error \<Rightarrow> state_object \<Rightarrow> state_object" where
  "so_setError er so = (if so_dbErr so = None then so\<lparr>so_dbErr := Some er\<rparr> else so)"

definition so_Code :: "'b evm_ext \<Rightarrow> evm_kv \<Rightarrow> state_object \<Rightarrow> bytes option \<times> state_object" where
  "so_Code X kv so =
     (if so_code so \<noteq> None \<and> so_code so \<noteq> Some [] then (so_code so, so)
      else if so_CodeHash X so = emptyCodeHash X then (None, so)
      else
        (let code = kv_code kv (so_CodeHash X so)
         in (code, if code = None \<or> code = Some [] then so_setError (NoCode (so_CodeHash X so) (so_address so)) so else so)))"

definition GetStorageByAddressKey :: "'b evm_ext \<Rightarrow> bytes \<Rightarrow> state_object \<Rightarrow> eth_hash" where
  "GetStorageByAddressKey X key so = x_keccak X (so_address so @ key)"

definition so_GetCommittedState :: "'b evm_ext \<Rightarrow> evm_kv \<Rightarrow> eth_hash \<Rightarrow> state_object \<Rightarrow> (eth_hash \<times> state_object) option" where
  "so_GetCommittedState X kv key so =
     (let prefixKey = GetStorageByAddressKey X key so
      in case so_originIndex so prefixKey of
           Some idx \<Rightarrow>
             if idx < length (so_originStorage so) then Some (snd (so_originStorage so ! idx), so) else None
         | None \<Rightarrow>
             (let value = (case kv_storage kv (so_address so) prefixKey of
                             Some raw \<Rightarrow> if raw = [] then zero_hash else BytesToHash raw
                           | None \<Rightarrow> zero_hash)
              in Some (value, so\<lparr>so_originStorage := so_originStorage so @ [(prefixKey, value)],
                     so_originIndex := (so_originIndex so)(prefixKey \<mapsto> length (so_originStorage so))\<rparr>)))"

definition so_GetState :: "'b evm_ext \<Rightarrow> evm_kv \<Rightarrow> eth_hash \<Rightarrow> state_object \<Rightarrow> (eth_hash \<times> state_object) option" where
  "so_GetState X kv key so =
     (case so_dirtyIndex so (GetStorageByAddressKey X key so) of
        Some idx \<Rightarrow> if idx < length (so_dirtyStorage so) then Some (snd (so_dirtyStorage so ! idx), so) else None
      | None \<Rightarrow> so_GetCommittedState X kv key so)"

definition so_empty :: "'b evm_ext \<Rightarrow> denom \<Rightarrow> state_object \<Rightarrow> bool" where
  "so_empty X evmDenom so \<longleftrightarrow>
     ac_Sequence (so_account so) = 0 \<and> acc_Balance evmDenom (so_account so) = 0
     \<and> ac_CodeHash (so_account so) = emptyCodeHash X"

subsection \<open>Changing objects\<close>

definition setState :: "eth_hash \<Rightarrow> eth_hash \<Rightarrow> state_object \<Rightarrow> state_object option" where
  "setState key value so =
     (case so_dirtyIndex so key of
        Some idx \<Rightarrow>
          if idx < length (so_dirtyStorage so)
          then Some (so\<lparr>so_dirtyStorage := (so_dirtyStorage so)[idx := (fst (so_dirtyStorage so ! idx), value)]\<rparr>) else None
      | None \<Rightarrow>
          Some (so\<lparr>so_dirtyStorage := so_dirtyStorage so @ [(key, value)],
                   so_dirtyIndex := (so_dirtyIndex so)(key \<mapsto> length (so_dirtyStorage so))\<rparr>))"

definition setCode :: "eth_hash \<Rightarrow> bytes option \<Rightarrow> state_object \<Rightarrow> state_object" where
  "setCode codeHash code so =
     so\<lparr>so_code := code, so_account := (so_account so)\<lparr>ac_CodeHash := codeHash\<rparr>, so_dirtyCode := True\<rparr>"

definition setBalance :: "'b evm_ext \<Rightarrow> denom \<Rightarrow> dec \<Rightarrow> state_object \<Rightarrow> state_object option" where
  "setBalance X d amount so = map_option (\<lambda>acc. so\<lparr>so_account := acc\<rparr>) (acc_SetBalance X d amount (so_account so))"

definition setNonce :: "64 word \<Rightarrow> state_object \<Rightarrow> state_object" where
  "setNonce nonce so = so\<lparr>so_account := (so_account so)\<lparr>ac_Sequence := nonce\<rparr>\<rparr>"

definition so_SetState :: "'b evm_ext \<Rightarrow> eth_addr \<Rightarrow> eth_hash \<Rightarrow> eth_hash \<Rightarrow> 'b csdb \<Rightarrow> 'b csdb option" where
  "so_SetState X a key value s = do {
     so \<leftarrow> obj_at a s;
     (prev, so1) \<leftarrow> so_GetState X (s_kv s) key so;
     s1 \<leftarrow> upd_obj a (\<lambda>_. Some so1) s;
     if prev = value then Some s1
     else do {
       let prefixKey = GetStorageByAddressKey X key so1;
       s2 \<leftarrow> csdb_append (storageChange (so_address so1) prefixKey prev) s1;
       upd_obj a (setState prefixKey value) s2
     }
   }"

definition so_SetCode :: "'b evm_ext \<Rightarrow> eth_addr \<Rightarrow> eth_hash \<Rightarrow> bytes option \<Rightarrow> 'b csdb \<Rightarrow> 'b csdb option" where
  "so_SetCode X a codeHash code s = do {
     so \<leftarrow> obj_at a s;
     let (prevCode, so1) = so_Code X (s_kv s) so;
     s1 \<leftarrow> upd_obj a (\<lambda>_. Some so1) s;
     s2 \<leftarrow> csdb_append (codeChange (so_address so1) prevCode (so_CodeHash X so1)) s1;
     upd_obj a (\<lambda>so. Some (setCode codeHash code so)) s2
   }"

definition so_SetBalance :: "'b evm_ext \<Rightarrow> eth_addr \<Rightarrow> int \<Rightarrow> 'b csdb \<Rightarrow> 'b csdb option" where
  "so_SetBalance X a amount s = do {
     let (p, s1) = evm_GetParams s;
     so \<leftarrow> obj_at a s1;
     s2 \<leftarrow> csdb_append (balanceChange (so_address so) (acc_Balance (ep_EvmDenom p) (so_account so))) s1;
     upd_obj a (setBalance X (ep_EvmDenom p) amount) s2
   }"

definition so_SetNonce :: "eth_addr \<Rightarrow> 64 word \<Rightarrow> 'b csdb \<Rightarrow> 'b csdb option" where
  "so_SetNonce a nonce s = do {
     so \<leftarrow> obj_at a s;
     s1 \<leftarrow> csdb_append (nonceChange (so_address so) (ac_Sequence (so_account so))) s;
     upd_obj a (\<lambda>so. Some (setNonce nonce so)) s1
   }"

definition so_touch :: "eth_addr \<Rightarrow> 'b csdb \<Rightarrow> 'b csdb option" where
  "so_touch a s = do {
     s1 \<leftarrow> csdb_append (touchChange a) s;
     if a = ripemd then map_option (\<lambda>j. s1\<lparr>s_journal := j\<rparr>) (addDirty a (s_journal s1)) else Some s1
   }"

definition so_AddBalance :: "'b evm_ext \<Rightarrow> eth_addr \<Rightarrow> int \<Rightarrow> 'b csdb \<Rightarrow> 'b csdb option" where
  "so_AddBalance X a amount s = do {
     let (p, s1) = evm_GetParams s;
     so \<leftarrow> obj_at a s1;
     if amount = 0 then (if so_empty X (ep_EvmDenom p) so then so_touch (so_address so) s1 else Some s1)
     else so_SetBalance X a (amt (ac_Coins (so_account so)) (ep_EvmDenom p) + amount) s1
   }"

definition so_SubBalance :: "'b evm_ext \<Rightarrow> eth_addr \<Rightarrow> int \<Rightarrow> 'b csdb \<Rightarrow> 'b csdb option" where
  "so_SubBalance X a amount s =
     (if amount = 0 then Some s
      else do {
        let (p, s1) = evm_GetParams s;
        so \<leftarrow> obj_at a s1;
        so_SetBalance X a (amt (ac_Coins (so_account so)) (ep_EvmDenom p) - amount) s1
      })"

subsection \<open>Setters of the database\<close>

definition csdb_SetBalance :: "'b evm_ext \<Rightarrow> eth_addr \<Rightarrow> int \<Rightarrow> 'b csdb \<Rightarrow> 'b csdb option" where
  "csdb_SetBalance X a amount s = do { (so, s1) \<leftarrow> GetOrNewStateObject X a s; so_SetBalance X (so_address so) amount s1 }"

definition csdb_AddBalance :: "'b evm_ext \<Rightarrow> eth_addr \<Rightarrow> int \<Rightarrow> 'b csdb \<Rightarrow> 'b csdb option" where
  "csdb_AddBalance X a amount s = do { (so, s1) \<leftarrow> GetOrNewStateObject X a s; so_AddBalance X (so_address so) amount s1 }"

definition csdb_SubBalance :: "'b evm_ext \<Rightarrow> eth_addr \<Rightarrow> int \<Rightarrow> 'b csdb \<Rightarrow> 'b csdb option" where
  "csdb_SubBalance X a amount s = do { (so, s1) \<leftarrow> GetOrNewStateObject X a s; so_SubBalance X (so_address so) amount s1 }"

definition csdb_SetNonce :: "'b evm_ext \<Rightarrow> eth_addr \<Rightarrow> 64 word \<Rightarrow> 'b csdb \<Rightarrow> 'b csdb option" where
  "csdb_SetNonce X a nonce s = do { (so, s1) \<leftarrow> GetOrNewStateObject X a s; so_SetNonce (so_address so) nonce s1 }"

definition csdb_SetState :: "'b evm_ext \<Rightarrow> eth_addr \<Rightarrow> eth_hash \<Rightarrow> eth_hash \<Rightarrow> 'b csdb \<Rightarrow> 'b csdb option" where
  "csdb_SetState X a key value s = do { (so, s1) \<leftarrow> GetOrNewStateObject X a s; so_SetState X (so_address so) key value s1 }"

definition csdb_SetCode :: "'b evm_ext \<Rightarrow> eth_addr \<Rightarrow> bytes option \<Rightarrow> 'b csdb \<Rightarrow> 'b csdb option" where
  "csdb_SetCode X a code s = do {
     (so, s1) \<leftarrow> GetOrNewStateObject X a s;
     so_SetCode X (so_address so) (x_keccak X (case code of None \<Rightarrow> [] | Some c \<Rightarrow> c)) code s1
   }"

definition SetHeightHash :: "nat \<Rightarrow> eth_hash \<Rightarrow> 'b csdb \<Rightarrow> 'b csdb" where
  "SetHeightHash height h s = s\<lparr>s_kv := (s_kv s)\<lparr>kv_heights := (kv_heights (s_kv s))(height \<mapsto> h)\<rparr>\<rparr>"

definition SetLogs :: "eth_hash \<Rightarrow> eth_log list \<Rightarrow> 'b csdb \<Rightarrow> 'b csdb" where
  "SetLogs h ls s = s\<lparr>s_logs := ls\<rparr>"

definition DeleteLogs :: "eth_hash \<Rightarrow> 'b csdb \<Rightarrow> 'b csdb" where
  "DeleteLogs h s = s\<lparr>s_logs := []\<rparr>"

definition AddLog :: "eth_log \<Rightarrow> 'b csdb \<Rightarrow> 'b csdb option" where
  "AddLog l s = do {
     s1 \<leftarrow> csdb_append (addLogChange (s_thash s)) s;
     let l' = l\<lparr>lg_TxHash := s_thash s1, lg_BlockHash := s_bhash s1, lg_TxIndex := s_txIndex s1, lg_Index := s_logSize s1\<rparr>;
     Some (s1\<lparr>s_logSize := s_logSize s1 + 1, s_logs := s_logs s1 @ [l']\<rparr>)
   }"

definition AddPreimage :: "eth_hash \<Rightarrow> bytes \<Rightarrow> 'b csdb \<Rightarrow> 'b csdb option" where
  "AddPreimage h preimage s =
     (if s_preimageIndex s h = None
      then do {
        s1 \<leftarrow> csdb_append (addPreimageChange h) s;
        Some (s1\<lparr>s_preimages := s_preimages s1 @ [(h, preimage)],
                 s_preimageIndex := (s_preimageIndex s1)(h \<mapsto> length (s_preimages s1))\<rparr>)
      }
      else Some s)"

definition AddRefund :: "64 word \<Rightarrow> 'b csdb \<Rightarrow> 'b csdb option" where
  "AddRefund gas s = do {
     s1 \<leftarrow> csdb_append (refundChange (s_refund s)) s;
     Some (s1\<lparr>s_refund := s_refund s1 + gas\<rparr>)
   }"

definition SubRefund :: "64 word \<Rightarrow> 'b csdb \<Rightarrow> 'b csdb option" where
  "SubRefund gas s = do {
     s1 \<leftarrow> csdb_append (refundChange (s_refund s)) s;
     if gas > s_refund s1 then None else Some (s1\<lparr>s_refund := s_refund s1 - gas\<rparr>)
   }"

definition AddAddressToAccessList :: "eth_addr \<Rightarrow> 'b csdb \<Rightarrow> 'b csdb option" where
  "AddAddressToAccessList a s =
     (let (changed, al) = AddAddress a (s_access s); s1 = s\<lparr>s_access := al\<rparr>
      in if changed then csdb_append (accessListAddAccountChange a) s1 else Some s1)"

definition AddSlotToAccessList :: "eth_addr \<Rightarrow> eth_hash \<Rightarrow> 'b csdb \<Rightarrow> 'b csdb option" where
  "AddSlotToAccessList a slot s = do {
     let (addrMod, slotMod, al) = AddSlot a slot (s_access s);
     s1 \<leftarrow> (if addrMod then csdb_append (accessListAddAccountChange a) (s\<lparr>s_access := al\<rparr>) else Some (s\<lparr>s_access := al\<rparr>));
     if slotMod then csdb_append (accessListAddSlotChange a slot) s1 else Some s1
   }"

definition Suicide :: "'b evm_ext \<Rightarrow> eth_addr \<Rightarrow> 'b csdb \<Rightarrow> (bool \<times> 'b csdb) option" where
  "Suicide X a s = do {
     (obj, s1) \<leftarrow> getStateObject X a s;
     (case obj of
        None \<Rightarrow> Some (False, s1)
      | Some so \<Rightarrow> do {
          let (p, s2) = evm_GetParams s1;
          s3 \<leftarrow> csdb_append (suicideChange a (so_suicided so) (acc_Balance (ep_EvmDenom p) (so_account so))) s2;
          s4 \<leftarrow> upd_obj (so_address so) (\<lambda>x. Some (x\<lparr>so_suicided := True\<rparr>)) s3;
          s5 \<leftarrow> so_SetBalance X (so_address so) 0 s4;
          Some (True, s5)
        })
   }"

definition CreateAccount :: "'b evm_ext \<Rightarrow> eth_addr \<Rightarrow> 'b csdb \<Rightarrow> 'b csdb option" where
  "CreateAccount X a s = do {
     (newobj, prevobj, s1) \<leftarrow> createObject X a s;
     (case prevobj of
        None \<Rightarrow> Some s1
      | Some prev \<Rightarrow> do {
          let (p, s2) = evm_GetParams s1;
          upd_obj (so_address newobj) (setBalance X (ep_EvmDenom p) (acc_Balance (ep_EvmDenom p) (so_account prev))) s2
        })
   }"

subsection \<open>Getters of the database\<close>

definition csdb_GetBalance :: "'b evm_ext \<Rightarrow> eth_addr \<Rightarrow> 'b csdb \<Rightarrow> (int \<times> 'b csdb) option" where
  "csdb_GetBalance X a s = do {
     (obj, s1) \<leftarrow> getStateObject X a s;
     (case obj of
        None \<Rightarrow> Some (0, s1)
      | Some so \<Rightarrow> (let (p, s2) = evm_GetParams s1 in Some (acc_Balance (ep_EvmDenom p) (so_account so), s2)))
   }"

definition csdb_GetNonce :: "'b evm_ext \<Rightarrow> eth_addr \<Rightarrow> 'b csdb \<Rightarrow> (64 word \<times> 'b csdb) option" where
  "csdb_GetNonce X a s = do {
     (obj, s1) \<leftarrow> getStateObject X a s;
     Some (case obj of None \<Rightarrow> 0 | Some so \<Rightarrow> ac_Sequence (so_account so), s1)
   }"

definition csdb_GetCode :: "'b evm_ext \<Rightarrow> eth_addr \<Rightarrow> 'b csdb \<Rightarrow> (bytes option \<times> 'b csdb) option" where
  "csdb_GetCode X a s = do {
     (obj, s1) \<leftarrow> getStateObject X a s;
     (case obj of
        None \<Rightarrow> Some (None, s1)
      | Some so \<Rightarrow> do {
          let (code, so1) = so_Code X (s_kv s1) so;
          s2 \<leftarrow> upd_obj (so_address so) (\<lambda>_. Some so1) s1;
          Some (code, s2)
        })
   }"

definition csdb_GetCodeSize :: "'b evm_ext \<Rightarrow> eth_addr \<Rightarrow> 'b csdb \<Rightarrow> (nat \<times> 'b csdb) option" where
  "csdb_GetCodeSize X a s = do {
     (obj, s1) \<leftarrow> getStateObject X a s;
     (case obj of
        None \<Rightarrow> Some (0, s1)
      | Some so \<Rightarrow>
          (case so_code so of
             Some c \<Rightarrow> Some (length c, s1)
           | None \<Rightarrow> do {
               let (code, so1) = so_Code X (s_kv s1) so;
               s2 \<leftarrow> upd_obj (so_address so) (\<lambda>_. Some so1) s1;
               Some (case code of None \<Rightarrow> 0 | Some c \<Rightarrow> length c, s2)
             }))
   }"

definition csdb_GetCodeHash :: "'b evm_ext \<Rightarrow> eth_addr \<Rightarrow> 'b csdb \<Rightarrow> (eth_hash \<times> 'b csdb) option" where
  "csdb_GetCodeHash X a s = do {
     (obj, s1) \<leftarrow> getStateObject X a s;
     Some (case obj of None \<Rightarrow> zero_hash | Some so \<Rightarrow> BytesToHash (so_CodeHash X so), s1)
   }"

definition csdb_GetState :: "'b evm_ext \<Rightarrow> eth_addr \<Rightarrow> eth_hash \<Rightarrow> 'b csdb \<Rightarrow> (eth_hash \<times> 'b csdb) option" where
  "csdb_GetState X a key s = do {
     (obj, s1) \<leftarrow> getStateObject X a s;
     (case obj of
        None \<Rightarrow> Some (zero_hash, s1)
      | Some so \<Rightarrow> do {
          (value, so1) \<leftarrow> so_GetState X (s_kv s1) key so;
          s2 \<leftarrow> upd_obj (so_address so) (\<lambda>_. Some so1) s1;
          Some (value, s2)
        })
   }"

definition csdb_GetCommittedState :: "'b evm_ext \<Rightarrow> eth_addr \<Rightarrow> eth_hash \<Rightarrow> 'b csdb \<Rightarrow> (eth_hash \<times> 'b csdb) option" where
  "csdb_GetCommittedState X a key s = do {
     (obj, s1) \<leftarrow> getStateObject X a s;
     (case obj of
        None \<Rightarrow> Some (zero_hash, s1)
      | Some so \<Rightarrow> do {
          (value, so1) \<leftarrow> so_GetCommittedState X (s_kv s1) key so;
          s2 \<leftarrow> upd_obj (so_address so) (\<lambda>_. Some so1) s1;
          Some (value, s2)
        })
   }"

definition GetHeightHash :: "nat \<Rightarrow> 'b csdb \<Rightarrow> eth_hash" where
  "GetHeightHash height s =
     (case kv_heights (s_kv s) height of
        None \<Rightarrow> zero_hash
      | Some bz \<Rightarrow> if bz = [] then zero_hash else BytesToHash bz)"

definition HasSuicided :: "'b evm_ext \<Rightarrow> eth_addr \<Rightarrow> 'b csdb \<Rightarrow> (bool \<times> 'b csdb) option" where
  "HasSuicided X a s = do {
     (obj, s1) \<leftarrow> getStateObject X a s;
     Some (case obj of None \<Rightarrow> False | Some so \<Rightarrow> so_suicided so, s1)
   }"

definition Exist :: "'b evm_ext \<Rightarrow> eth_addr \<Rightarrow> 'b csdb \<Rightarrow> (bool \<times> 'b csdb) option" where
  "Exist X a s = do { (obj, s1) \<leftarrow> getStateObject X a s; Some (obj \<noteq> None, s1) }"

definition csdb_Empty :: "'b evm_ext \<Rightarrow> eth_addr \<Rightarrow> 'b csdb \<Rightarrow> (bool \<times> 'b csdb) option" where
  "csdb_Empty X a s = do {
     (obj, s1) \<leftarrow> getStateObject X a s;
     (case obj of
        None \<Rightarrow> Some (True, s1)
      | Some so \<Rightarrow> (let (p, s2) = evm_GetParams s1 in Some (so_empty X (ep_EvmDenom p) so, s2)))
   }"

subsection \<open>Undo\<close>

text \<open>
  Removing an entry from a slice with an index map: the elements behind it move one position to the left and their
  indices are stored again, one after the other.
\<close>

definition shift_step :: "nat \<Rightarrow> ('k \<times> 'v) list \<times> ('k \<rightharpoonup> nat) \<Rightarrow> ('k \<times> 'v) list \<times> ('k \<rightharpoonup> nat)" where
  "shift_step i = (\<lambda>(xs, m). (xs[i - 1 := xs ! i], m(fst (xs ! i) \<mapsto> i - 1)))"

definition remove_indexed :: "'k \<Rightarrow> ('k \<times> 'v) list \<Rightarrow> ('k \<rightharpoonup> nat) \<Rightarrow> ('k \<times> 'v) list \<times> ('k \<rightharpoonup> nat)" where
  "remove_indexed k xs m =
     (case m k of
        None \<Rightarrow> (xs, m)
      | Some idx \<Rightarrow>
          if length xs = 1 then ([], m(k := None))
          else apfst butlast (fold shift_step [Suc idx..<length xs] (xs, m(k := None))))"

fun entry_revert :: "'b evm_ext \<Rightarrow> journal_entry \<Rightarrow> 'b csdb \<Rightarrow> 'b csdb option" where
  "entry_revert X (createObjectChange a) s =
     (let (objs, ix) = remove_indexed a (s_objects s) (s_index s)
      in Some (s\<lparr>s_dirty := s_dirty s - {a}, s_objects := objs, s_index := ix\<rparr>))"
| "entry_revert X (resetObjectChange prev) s = setStateObject prev s"
| "entry_revert X (suicideChange a prev prevBalance) s = do {
     (obj, s1) \<leftarrow> getStateObject X a s;
     (case obj of
        None \<Rightarrow> Some s1
      | Some so \<Rightarrow> do {
          let (p, s2) = evm_GetParams s1;
          upd_obj (so_address so) (\<lambda>x. setBalance X (ep_EvmDenom p) prevBalance (x\<lparr>so_suicided := prev\<rparr>)) s2
        })
   }"
| "entry_revert X (touchChange a) s = Some s"
| "entry_revert X (balanceChange a prev) s = do {
     let (p, s1) = evm_GetParams s;
     (obj, s2) \<leftarrow> getStateObject X a s1;
     so \<leftarrow> obj;
     upd_obj (so_address so) (setBalance X (ep_EvmDenom p) prev) s2
   }"
| "entry_revert X (nonceChange a prev) s = do {
     (obj, s1) \<leftarrow> getStateObject X a s;
     so \<leftarrow> obj;
     upd_obj (so_address so) (\<lambda>x. Some (setNonce prev x)) s1
   }"
| "entry_revert X (codeChange a prevCode prevHash) s = do {
     (obj, s1) \<leftarrow> getStateObject X a s;
     so \<leftarrow> obj;
     upd_obj (so_address so) (\<lambda>x. Some (setCode (BytesToHash prevHash) prevCode x)) s1
   }"
| "entry_revert X (storageChange a key prevValue) s = do {
     (obj, s1) \<leftarrow> getStateObject X a s;
     so \<leftarrow> obj;
     upd_obj (so_address so) (setState key prevValue) s1
   }"
| "entry_revert X (refundChange prev) s = Some (s\<lparr>s_refund := prev\<rparr>)"
| "entry_revert X (addLogChange txhash) s =
     (let s1 = (if length (s_logs s) \<le> 1 then DeleteLogs txhash s else SetLogs txhash (butlast (s_logs s)) s)
      in Some (s1\<lparr>s_logSize := s_logSize s1 - 1\<rparr>))"
| "entry_revert X (addPreimageChange h) s =
     (let (ps, ix) = remove_indexed h (s_preimages s) (s_preimageIndex s)
      in Some (s\<lparr>s_preimages := ps, s_preimageIndex := ix\<rparr>))"
| "entry_revert X (accessListAddAccountChange a) s = Some (s\<lparr>s_access := DeleteAddress a (s_access s)\<rparr>)"
| "entry_revert X (accessListAddSlotChange a slot) s = map_option (\<lambda>al. s\<lparr>s_access := al\<rparr>) (DeleteSlot a slot (s_access s))"

text \<open>The loop of \<open>journal.revert\<close>, on the entries from the last one down to the snapshot.\<close>

fun undo_entries :: "'b evm_ext \<Rightarrow> journal_entry list \<Rightarrow> 'b csdb \<Rightarrow> 'b csdb option" where
  "undo_entries X [] s = Some s"
| "undo_entries X (e # es) s = do {
     s1 \<leftarrow> entry_revert X e s;
     j \<leftarrow> drop_dirty e (s_journal s1);
     undo_entries X es (s1\<lparr>s_journal := j\<rparr>)
   }"

definition journal_revert :: "'b evm_ext \<Rightarrow> nat \<Rightarrow> 'b csdb \<Rightarrow> 'b csdb option" where
  "journal_revert X snapshot s = do {
     s1 \<leftarrow> undo_entries X (rev (drop snapshot (j_entries (s_journal s)))) s;
     Some (s1\<lparr>s_journal := (s_journal s1)\<lparr>j_entries := take snapshot (j_entries (s_journal s1))\<rparr>\<rparr>)
   }"

definition Snapshot :: "'b csdb \<Rightarrow> nat \<times> 'b csdb" where
  "Snapshot s =
     (let id = s_nextRevision s
      in (id, s\<lparr>s_nextRevision := id + 1, s_revisions := s_revisions s @ [(id, length (j_entries (s_journal s)))]\<rparr>))"

definition RevertToSnapshot :: "'b evm_ext \<Rightarrow> nat \<Rightarrow> 'b csdb \<Rightarrow> 'b csdb option" where
  "RevertToSnapshot X revID s =
     (let idx = sort_search (length (s_revisions s)) (\<lambda>i. revID \<le> fst (s_revisions s ! i))
      in if idx = length (s_revisions s) \<or> fst (s_revisions s ! idx) \<noteq> revID then None
         else do {
           s1 \<leftarrow> journal_revert X (snd (s_revisions s ! idx)) s;
           Some (s1\<lparr>s_revisions := take idx (s_revisions s1)\<rparr>)
         })"

subsection \<open>Writing to the stores\<close>

definition clearJournalAndRefund :: "'b csdb \<Rightarrow> 'b csdb" where
  "clearJournalAndRefund s = s\<lparr>s_journal := newJournal, s_revisions := [], s_refund := 0\<rparr>"

text \<open>
  One step of the loop of \<open>commitState\<close>, on the object and the store of its address. A dirty value of a key that is not in the
  index of original values is not written.
\<close>

definition commit_slot ::
  "eth_hash \<times> eth_hash \<Rightarrow> state_object \<times> (eth_hash \<rightharpoonup> bytes) \<Rightarrow> (state_object \<times> (eth_hash \<rightharpoonup> bytes)) option" where
  "commit_slot = (\<lambda>(key, value) (so, store).
     (let store1 = (if value = zero_hash then store(key := None) else store);
          so1 = so\<lparr>so_dirtyIndex := (so_dirtyIndex so)(key := None)\<rparr>
      in case so_originIndex so1 key of
           None \<Rightarrow> Some (so1, store1)
         | Some idx \<Rightarrow>
             if value = zero_hash then Some (so1\<lparr>so_originIndex := (so_originIndex so1)(key := None)\<rparr>, store1)
             else if idx < length (so_originStorage so1)
             then if value = snd (so_originStorage so1 ! idx) then Some (so1, store1)
                  else Some (so1\<lparr>so_originStorage := (so_originStorage so1)[idx := (fst (so_originStorage so1 ! idx), value)]\<rparr>,
                         store1(key \<mapsto> value))
             else None))"

fun commit_slots ::
  "(eth_hash \<times> eth_hash) list \<Rightarrow> state_object \<times> (eth_hash \<rightharpoonup> bytes) \<Rightarrow> (state_object \<times> (eth_hash \<rightharpoonup> bytes)) option" where
  "commit_slots [] p = Some p"
| "commit_slots (kv # kvs) p = commit_slot kv p \<bind> commit_slots kvs"

definition so_commitState :: "eth_addr \<Rightarrow> 'b csdb \<Rightarrow> 'b csdb option" where
  "so_commitState a s = do {
     so \<leftarrow> obj_at a s;
     (so1, store) \<leftarrow> commit_slots (so_dirtyStorage so) (so, kv_storage (s_kv s) (so_address so));
     s1 \<leftarrow> upd_obj a (\<lambda>_. Some (so1\<lparr>so_dirtyStorage := []\<rparr>)) s;
     Some (s1\<lparr>s_kv := (s_kv s1)\<lparr>kv_storage := (kv_storage (s_kv s1))(so_address so := store)\<rparr>\<rparr>)
   }"

definition so_commitCode :: "'b evm_ext \<Rightarrow> eth_addr \<Rightarrow> 'b csdb \<Rightarrow> 'b csdb option" where
  "so_commitCode X a s = do {
     so \<leftarrow> obj_at a s;
     code \<leftarrow> so_code so;
     Some (s\<lparr>s_kv := (s_kv s)\<lparr>kv_code := (kv_code (s_kv s))(so_CodeHash X so \<mapsto> code)\<rparr>\<rparr>)
   }"

datatype evm_error = InvalidBalance coin | Blacklisted eth_addr | ErrCreateDisabled | ErrCallDisabled | VmError string
  | IntrinsicGasError | ErrChainConfigNotFound | InvalidChainID | InvalidSignature | UnrecognizedMessage | EvmCallFailed evm_error

definition updateStateObject :: "'b evm_ext \<Rightarrow> eth_addr \<Rightarrow> 'b csdb \<Rightarrow> (evm_error option \<times> 'b csdb) option" where
  "updateStateObject X a s = do {
     let (p, s1) = evm_GetParams s;
     so \<leftarrow> obj_at a s1;
     let newBalance = (ep_EvmDenom p, acc_Balance (ep_EvmDenom p) (so_account so));
     if \<not> c_coin_valid (x_sdk X) newBalance then Some (Some (InvalidBalance newBalance), s1)
     else if b_blacklisted (x_sdk X) (ac_Address (so_account so)) then Some (Some (Blacklisted (ac_Address (so_account so))), s1)
     else do {
       let balance = amt (ac_Coins (so_account so)) (fst newBalance);
       let cs = (if balance = 0 \<or> balance \<noteq> snd newBalance then c_add2 (x_sdk X) (ac_Coins (so_account so)) [newBalance]
                 else ac_Coins (so_account so));
       let acc = (so_account so)\<lparr>ac_Coins := cs\<rparr>;
       s2 \<leftarrow> upd_obj a (\<lambda>x. Some (x\<lparr>so_account := acc\<rparr>)) s1;
       Some (None, s2\<lparr>s_bank := ak_set X acc (s_bank s2)\<rparr>)
     }
   }"

definition deleteStateObject :: "'b evm_ext \<Rightarrow> eth_addr \<Rightarrow> 'b csdb \<Rightarrow> 'b csdb option" where
  "deleteStateObject X a s = do {
     so \<leftarrow> obj_at a s;
     s1 \<leftarrow> upd_obj a (\<lambda>x. Some (x\<lparr>so_deleted := True\<rparr>)) s;
     Some (s1\<lparr>s_bank := ak_remove X (so_account so) (s_bank s1)\<rparr>)
   }"

fun commit_objects :: "'b evm_ext \<Rightarrow> bool \<Rightarrow> nat list \<Rightarrow> 'b csdb \<Rightarrow> (evm_error option \<times> 'b csdb) option" where
  "commit_objects X deleteEmptyObjects [] s = Some (None, s)"
| "commit_objects X deleteEmptyObjects (i # is) s =
     (let (a, so) = s_objects s ! i;
          isDirty = a \<in> s_dirty s;
          clean = (\<lambda>t. t\<lparr>s_dirty := s_dirty t - {a}\<rparr>);
          asks = \<not> so_suicided so \<and> isDirty \<and> deleteEmptyObjects;
          s0 = (if asks then snd (evm_GetParams s) else s)
      in if so_suicided so \<or> (asks \<and> so_empty X (ep_EvmDenom (params_of s)) so)
         then deleteStateObject X a s0 \<bind> (\<lambda>s1. commit_objects X deleteEmptyObjects is (clean s1))
         else if isDirty
         then do {
           s1 \<leftarrow> (if so_code so \<noteq> None \<and> so_dirtyCode so
                  then so_commitCode X a s0 \<bind> upd_obj a (\<lambda>x. Some (x\<lparr>so_dirtyCode := False\<rparr>)) else Some s0);
           (er, s2) \<leftarrow> updateStateObject X a s1;
           (case er of
              Some e \<Rightarrow> Some (Some e, s2)
            | None \<Rightarrow> commit_objects X deleteEmptyObjects is (clean s2))
         }
         else commit_objects X deleteEmptyObjects is (clean s0))"

definition Commit :: "'b evm_ext \<Rightarrow> bool \<Rightarrow> 'b csdb \<Rightarrow> (evm_error option \<times> 'b csdb) option" where
  "Commit X deleteEmptyObjects s = do {
     let s1 = s\<lparr>s_dirty := s_dirty s \<union> fst ` set (j_dirties (s_journal s))\<rparr>;
     (er, s2) \<leftarrow> commit_objects X deleteEmptyObjects [0..<length (s_objects s1)] s1;
     Some (er, clearJournalAndRefund s2)
   }"

fun finalise_objects :: "'b evm_ext \<Rightarrow> bool \<Rightarrow> eth_addr list \<Rightarrow> 'b csdb \<Rightarrow> (evm_error option \<times> 'b csdb) option" where
  "finalise_objects X deleteEmptyObjects [] s = Some (None, s)"
| "finalise_objects X deleteEmptyObjects (a # as) s =
     (case s_index s a of
        None \<Rightarrow> finalise_objects X deleteEmptyObjects as s
      | Some idx \<Rightarrow> do {
          so \<leftarrow> obj_at a s;
          let asks = \<not> so_suicided so \<and> deleteEmptyObjects;
          let s0 = (if asks then snd (evm_GetParams s) else s);
          if so_suicided so \<or> (asks \<and> so_empty X (ep_EvmDenom (params_of s)) so)
          then deleteStateObject X a s0 \<bind>
            (\<lambda>s1. finalise_objects X deleteEmptyObjects as (s1\<lparr>s_dirty := insert a (s_dirty s1)\<rparr>))
          else do {
            s1 \<leftarrow> so_commitState a s0;
            (er, s2) \<leftarrow> updateStateObject X a s1;
            (case er of
               Some e \<Rightarrow> Some (Some e, s2)
             | None \<Rightarrow> finalise_objects X deleteEmptyObjects as (s2\<lparr>s_dirty := insert a (s_dirty s2)\<rparr>))
          }
        })"

definition Finalise :: "'b evm_ext \<Rightarrow> bool \<Rightarrow> 'b csdb \<Rightarrow> (evm_error option \<times> 'b csdb) option" where
  "Finalise X deleteEmptyObjects s = do {
     (er, s1) \<leftarrow> finalise_objects X deleteEmptyObjects (map fst (j_dirties (s_journal s))) s;
     (case er of
        Some e \<Rightarrow> Some (Some e, s1)
      | None \<Rightarrow> Some (None, DeleteLogs (s_thash s1) (clearJournalAndRefund s1)))
   }"

definition ClearStateObjects :: "'b csdb \<Rightarrow> 'b csdb" where
  "ClearStateObjects s = s\<lparr>s_objects := [], s_index := Map.empty, s_dirty := {}\<rparr>"

definition csdb_Reset :: "'b csdb \<Rightarrow> 'b csdb" where
  "csdb_Reset s = clearJournalAndRefund (s\<lparr>s_objects := [], s_index := Map.empty, s_dirty := {}, s_thash := zero_hash,
     s_bhash := zero_hash, s_txIndex := 0, s_logSize := 0, s_preimages := [], s_preimageIndex := Map.empty,
     s_access := newAccessList, s_params := None\<rparr>)"

definition Prepare :: "eth_hash \<Rightarrow> eth_hash \<Rightarrow> int \<Rightarrow> 'b csdb \<Rightarrow> 'b csdb" where
  "Prepare thash bhash txi s = s\<lparr>s_thash := thash, s_bhash := bhash, s_txIndex := txi\<rparr>"

definition csdb_SetBlockHash :: "eth_hash \<Rightarrow> 'b csdb \<Rightarrow> 'b csdb" where
  "csdb_SetBlockHash h s = s\<lparr>s_bhash := h\<rparr>"

definition SetLogSize :: "64 word \<Rightarrow> 'b csdb \<Rightarrow> 'b csdb" where
  "SetLogSize n s = s\<lparr>s_logSize := n\<rparr>"

text \<open>
  \<open>UpdateAccounts\<close> compares the two balances as pointers to fresh integers, which always differ; so the account is replaced
  whenever the balance is valid or the nonces differ.
\<close>

definition update_account :: "'b evm_ext \<Rightarrow> denom \<Rightarrow> account option \<Rightarrow> state_object \<Rightarrow> state_object" where
  "update_account X d kept so =
     (case kept of
        Some (EthAcc acc) \<Rightarrow>
          if c_coin_valid (x_sdk X) (d, amt (ac_Coins acc) d) \<or> ac_Sequence (so_account so) \<noteq> ac_Sequence acc
          then so\<lparr>so_account := acc\<rparr> else so
      | _ \<Rightarrow> so)"

definition UpdateAccounts :: "'b evm_ext \<Rightarrow> 'b csdb \<Rightarrow> 'b csdb" where
  "UpdateAccounts X s =
     (let isEth = (\<lambda>a. case ak_get X (s_bank s) a of Some (EthAcc acc) \<Rightarrow> True | _ \<Rightarrow> False);
          s1 = (if list_ex (\<lambda>e. isEth (fst e)) (s_objects s) then snd (evm_GetParams s) else s)
      in s1\<lparr>s_objects := map (\<lambda>(a, so). (a, update_account X (ep_EvmDenom (params_of s)) (ak_get X (s_bank s) a) so)) (s_objects s)\<rparr>)"

end
