(* ===== verification/IndexedSlice.thy ===== *)
theory IndexedSlice
  imports EvmStateDB
begin

text \<open>
  Slices with an index map, as the EVM module keeps them for state objects, storage entries and preimages: the map gives
  the position of every key. Update, append and the removal with its loop of moves keep this, and act on the
  lookup as on a map.
\<close>

subsection \<open>Slices with an index\<close>

definition indexed :: "('k \<times> 'v) list \<Rightarrow> ('k \<rightharpoonup> nat) \<Rightarrow> bool" where
  "indexed xs m \<longleftrightarrow> (\<forall>k i. m k = Some i \<longleftrightarrow> i < length xs \<and> fst (xs ! i) = k)"

lemma indexed_Nil [simp]: "indexed [] Map.empty"
  by (simp add: indexed_def)

lemma indexedD: "indexed xs m \<Longrightarrow> m k = Some i \<Longrightarrow> i < length xs \<and> fst (xs ! i) = k"
  by (simp add: indexed_def)

lemma indexed_distinct: "indexed xs m \<Longrightarrow> distinct (map fst xs)"
  unfolding distinct_conv_nth indexed_def by (metis length_map nth_map option.inject)

lemma indexed_nth: "indexed xs m \<Longrightarrow> m k = Some i \<Longrightarrow> map_of xs k = Some (snd (xs ! i))"
  using indexed_distinct [of xs m] indexedD [of xs m k i] by (metis map_of_eq_Some_iff nth_mem prod.collapse)

lemma indexed_none: "indexed xs m \<Longrightarrow> m k = None \<longleftrightarrow> map_of xs k = None"
proof (cases "m k")
  case None
  have "map_of xs k \<noteq> Some v" if "indexed xs m" for v
  proof
    assume "map_of xs k = Some v"
    then obtain i where "i < length xs" "xs ! i = (k, v)" by (meson in_set_conv_nth map_of_SomeD)
    with that have "m k = Some i" by (simp add: indexed_def)
    with None show False by simp
  qed
  with None show "indexed xs m \<Longrightarrow> ?thesis" by (cases "map_of xs k") auto
qed (auto dest: indexed_nth)

lemma map_of_list_update:
  "distinct (map fst xs) \<Longrightarrow> i < length xs \<Longrightarrow> fst (xs ! i) = k \<Longrightarrow> map_of (xs[i := (k, v)]) = (map_of xs)(k \<mapsto> v)"
proof (induction xs arbitrary: i)
  case (Cons x xs)
  then show ?case
  proof (cases i)
    case (Suc j)
    with Cons.prems have "k \<in> fst ` set xs" by (auto intro!: image_eqI [of _ _ "xs ! j"])
    then have "fst x \<noteq> k" using Cons.prems(1) by (metis distinct.simps(2) list.simps(9) set_map)
    with Cons Suc show ?thesis by (auto simp: fun_upd_twist)
  qed (auto simp: fun_eq_iff)
qed simp

lemma indexed_update:
  assumes "indexed xs m" and "m k = Some i"
  shows "indexed (xs[i := (fst (xs ! i), v)]) m" and "map_of (xs[i := (fst (xs ! i), v)]) = (map_of xs)(k \<mapsto> v)"
  using indexedD [OF assms] indexed_distinct [OF assms(1)] assms(1)
  by (auto simp: map_of_list_update indexed_def nth_list_update)

lemma indexed_append:
  assumes "indexed xs m" and "m k = None"
  shows "indexed (xs @ [(k, v)]) (m(k \<mapsto> length xs))" and "map_of (xs @ [(k, v)]) = (map_of xs)(k \<mapsto> v)"
proof -
  have n: "map_of xs k = None" using indexed_none [OF assms(1)] assms(2) by simp
  then show "map_of (xs @ [(k, v)]) = (map_of xs)(k \<mapsto> v)" by (auto simp: fun_eq_iff map_add_def split: option.splits)
  have k: "fst (xs ! i) \<noteq> k" if "i < length xs" for i using n that unfolding map_of_eq_None_iff by (metis imageI nth_mem)
  have m: "m k' = Some i \<longleftrightarrow> i < length xs \<and> fst (xs ! i) = k'" for k' i using assms(1) by (simp add: indexed_def)
  show "indexed (xs @ [(k, v)]) (m(k \<mapsto> length xs))"
    unfolding indexed_def
  proof (intro allI)
    fix k' i
    consider "i < length xs" | "i = length xs" | "length xs < i" by linarith
    then show "(m(k \<mapsto> length xs)) k' = Some i \<longleftrightarrow> i < length (xs @ [(k, v)]) \<and> fst ((xs @ [(k, v)]) ! i) = k'"
      by cases (use m [of k' i] k [of i] in \<open>auto simp: nth_append\<close>)
  qed
qed

lemma remove_nth_nth: "p < length xs - 1 \<Longrightarrow> i < length xs \<Longrightarrow> remove_nth i xs ! p = (if p < i then xs ! p else xs ! Suc p)"
  by (auto simp: remove_nth_def nth_append min_def)

text \<open>The loop that moves the elements behind \<open>i\<close> to the left.\<close>

lemma shift_loop:
  assumes "i < j" and "j \<le> length xs"
  shows "length (fst (fold shift_step [Suc i..<j] (xs, m))) = length xs
     \<and> (\<forall>p<length xs. fst (fold shift_step [Suc i..<j] (xs, m)) ! p = (if i \<le> p \<and> p < j - 1 then xs ! Suc p else xs ! p))
     \<and> (\<forall>k. (\<forall>p. i < p \<and> p < j \<longrightarrow> fst (xs ! p) \<noteq> k) \<longrightarrow> snd (fold shift_step [Suc i..<j] (xs, m)) k = m k)
     \<and> (distinct (map fst xs) \<longrightarrow> (\<forall>p. i < p \<and> p < j \<longrightarrow> snd (fold shift_step [Suc i..<j] (xs, m)) (fst (xs ! p)) = Some (p - 1)))"
  using assms
proof (induction j)
  case (Suc j)
  show ?case
  proof (cases "i = j")
    case True
    then show ?thesis by auto
  next
    case False
    then have ij: "i < j" "j < length xs" using Suc.prems by auto
    obtain ys m' where f: "fold shift_step [Suc i..<j] (xs, m) = (ys, m')" by force
    have IH: "length ys = length xs" "\<And>p. p < length xs \<Longrightarrow> ys ! p = (if i \<le> p \<and> p < j - 1 then xs ! Suc p else xs ! p)"
      "\<And>k. (\<forall>p. i < p \<and> p < j \<longrightarrow> fst (xs ! p) \<noteq> k) \<Longrightarrow> m' k = m k"
      "\<And>p. distinct (map fst xs) \<Longrightarrow> i < p \<Longrightarrow> p < j \<Longrightarrow> m' (fst (xs ! p)) = Some (p - 1)"
      using Suc.IH ij f by auto
    have g: "fold shift_step [Suc i..<Suc j] (xs, m) = (ys[j - 1 := xs ! j], m'(fst (xs ! j) \<mapsto> j - 1))"
      using ij f IH(2) [of j] by (auto simp: shift_step_def)
    have "fst (xs ! p) \<noteq> fst (xs ! j)" if "distinct (map fst xs)" "p < j" for p
      using that ij(2) by (auto simp: distinct_conv_nth)
    moreover have "ys[j - 1 := xs ! j] ! p = (if i \<le> p \<and> p < Suc j - 1 then xs ! Suc p else xs ! p)" if "p < length xs" for p
      using that ij IH(1,2) by (auto simp: nth_list_update)
    ultimately show ?thesis using g IH(1,3,4) ij by (auto simp: less_Suc_eq)
  qed
qed simp

lemma map_of_remove: "k \<notin> fst ` set A \<Longrightarrow> k \<notin> fst ` set B \<Longrightarrow> map_of (A @ B) = (map_of (A @ (k, v) # B))(k := None)"
proof (induction A)
  case Nil
  then have "map_of B k = None" by (simp add: map_of_eq_None_iff)
  then show ?case by (auto simp: fun_eq_iff)
next
  case (Cons x A)
  then show ?case by (auto simp: fun_upd_twist)
qed

lemma remove_indexed_ok:
  assumes "indexed xs m" and "remove_indexed k xs m = (ys, m')"
  shows "indexed ys m'" and "map_of ys = (map_of xs)(k := None)"
proof -
  have "indexed ys m' \<and> map_of ys = (map_of xs)(k := None)"
  proof (cases "m k")
    case None
    then have "ys = xs" "m' = m" using assms(2) by (simp_all add: remove_indexed_def)
    with assms(1) None indexed_none [OF assms(1), of k] show ?thesis by (simp add: fun_upd_idem)
  next
    case (Some i)
    note i = indexedD [OF assms(1) Some] and d = indexed_distinct [OF assms(1)]
    have ne: "fst (xs ! p) \<noteq> k" if "p < length xs" "p \<noteq> i" for p
      using assms(1) Some that unfolding indexed_def by (metis option.inject)
    have r: "ys = remove_nth i xs \<and> (\<forall>k'. m' k' = (if k' = k then None else case m k' of None \<Rightarrow> None | Some p \<Rightarrow> Some (if p < i then p else p - 1)))"
    proof (cases "length xs = 1")
      case True
      then obtain x where x: "xs = [x]" by (cases xs) auto
      with i have "i = 0" by simp
      moreover have "m k' = None" if "k' \<noteq> k" for k' using assms(1) x i \<open>i = 0\<close> that by (cases "m k'") (auto simp: indexed_def)
      ultimately show ?thesis using assms(2) Some x by (auto simp: remove_indexed_def remove_nth_def)
    next
      case False
      obtain zs n where f: "fold shift_step [Suc i..<length xs] (xs, m(k := None)) = (zs, n)" by force
      have eq: "ys = butlast zs" "m' = n" using assms(2) Some False f by (auto simp: remove_indexed_def)
      note L = shift_loop [OF conjunct1 [OF i] order_refl, of "m(k := None)", unfolded f fst_conv snd_conv]
      have "ys = remove_nth i xs"
      proof (rule nth_equalityI)
        show "length ys = length (remove_nth i xs)" using L i by (simp add: eq)
        fix p assume p: "p < length ys"
        then have "p < length xs - 1" using L by (simp add: eq)
        then show "ys ! p = remove_nth i xs ! p" using L i p by (auto simp: eq nth_butlast remove_nth_nth)
      qed
      moreover have "n k' = (if k' = k then None else case m k' of None \<Rightarrow> None | Some p \<Rightarrow> Some (if p < i then p else p - 1))" for k'
      proof (cases "m k'")
        case None
        then have "fst (xs ! p) \<noteq> k'" if "p < length xs" for p using that assms(1) unfolding indexed_def by (metis option.distinct(1))
        with L None have "n k' = (m(k := None)) k'" by blast
        with None show ?thesis by simp
      next
        case (Some p)
        note p = indexedD [OF assms(1) Some]
        have "i = p \<longleftrightarrow> k' = k" using p i ne by blast
        show ?thesis
        proof (cases "i < p")
          case True
          with L d p have "n k' = Some (p - 1)" by blast
          with True Some \<open>i = p \<longleftrightarrow> k' = k\<close> show ?thesis by auto
        next
          case False
          have "fst (xs ! q) \<noteq> k'" if "i < q" "q < length xs" for q
            using assms(1) Some that False unfolding indexed_def by (metis option.inject)
          with L have "n k' = (m(k := None)) k'" by blast
          with False Some \<open>i = p \<longleftrightarrow> k' = k\<close> show ?thesis by auto
        qed
      qed
      ultimately show ?thesis by (simp add: eq)
    qed
    have split: "take i xs @ (k, snd (xs ! i)) # drop (Suc i) xs = xs" using i by (metis id_take_nth_drop prod.collapse)
    have "distinct (map fst (take i xs @ (k, snd (xs ! i)) # drop (Suc i) xs))" using d by (simp only: split)
    then have "k \<notin> fst ` set (take i xs)" "k \<notin> fst ` set (drop (Suc i) xs)" by auto
    from map_of_remove [OF this, of "snd (xs ! i)"] have mo: "map_of ys = (map_of xs)(k := None)"
      using r by (simp only: split remove_nth_def)
    have "indexed ys m'"
      unfolding indexed_def
    proof (intro allI)
      fix k' q
      have len: "length ys = length xs - 1" using r i by simp
      show "m' k' = Some q \<longleftrightarrow> q < length ys \<and> fst (ys ! q) = k'"
      proof
        assume "m' k' = Some q"
        then obtain p where p: "k' \<noteq> k" "m k' = Some p" "q = (if p < i then p else p - 1)" using r by (auto split: if_splits option.splits)
        note pp = indexedD [OF assms(1) p(2)]
        have "p \<noteq> i" using pp i p(1) by auto
        then show "q < length ys \<and> fst (ys ! q) = k'" using p pp i r len by (auto simp: remove_nth_nth)
      next
        assume q: "q < length ys \<and> fst (ys ! q) = k'"
        define p where "p = (if q < i then q else Suc q)"
        have p: "p < length xs" "p \<noteq> i" "fst (xs ! p) = k'" using q r len i by (auto simp: p_def remove_nth_nth)
        then have "m k' = Some p" using assms(1) by (simp add: indexed_def)
        moreover have "k' \<noteq> k" using p ne by blast
        ultimately show "m' k' = Some q" using r by (auto simp: p_def)
      qed
    qed
    with mo show ?thesis by blast
  qed
  then show "indexed ys m'" "map_of ys = (map_of xs)(k := None)" by blast+
qed

lemma remove_indexed_last: "m k = None \<Longrightarrow> remove_indexed k (xs @ [(k, v)]) (m(k \<mapsto> length xs)) = (xs, m)"
  by (auto simp: remove_indexed_def fun_upd_idem)

end
