(* ===== verification/EvmRevert.thy ===== *)
theory EvmRevert
  imports IndexedSlice
begin

text \<open>
  Undo of journal entries. The state is related to what can be seen of it: per address the balance, nonce, code, storage
  and the suicide mark of the object, cached or in the account keeper (\<open>seen\<close>, \<open>obj_view\<close>). The locale \<open>undo_log\<close> states
  what a log with undo needs so that undoing all entries of a run restores what was seen before it; it is interpreted on
  the journal of the EVM state, where undoing an entry does the same on every state that looks the same.
\<close>

subsection \<open>Logs with undo\<close>

text \<open>
  \<open>undo_chain undo ok le es s s\<^sub>0\<close>: undoing the entries \<open>es\<close>, the last one first, from \<open>s\<close> succeeds through good
  states and ends in a state that shows at least what \<open>s\<^sub>0\<close> shows.
\<close>

fun undo_chain :: "('e \<Rightarrow> 's \<Rightarrow> 's option) \<Rightarrow> ('s \<Rightarrow> bool) \<Rightarrow> ('s \<Rightarrow> 's \<Rightarrow> bool) \<Rightarrow> 'e list \<Rightarrow> 's \<Rightarrow> 's \<Rightarrow> bool" where
  "undo_chain undo ok le [] s s\<^sub>0 = le s\<^sub>0 s"
| "undo_chain undo ok le (e # es) s s\<^sub>0 = (\<exists>s\<^sub>1. undo e s = Some s\<^sub>1 \<and> ok s\<^sub>1 \<and> undo_chain undo ok le es s\<^sub>1 s\<^sub>0)"

locale undo_log =
  fixes undo :: "'e \<Rightarrow> 's \<Rightarrow> 's option"
    and ok :: "'s \<Rightarrow> bool"
    and le :: "'s \<Rightarrow> 's \<Rightarrow> bool"
  assumes le_refl: "le s s"
    and le_trans: "le s t \<Longrightarrow> le t u \<Longrightarrow> le s u"
    and undo_mono: "le s u \<Longrightarrow> ok s \<Longrightarrow> ok u \<Longrightarrow> undo e s = Some s' \<Longrightarrow> ok s' \<Longrightarrow>
      \<exists>u'. undo e u = Some u' \<and> ok u' \<and> le s' u'"
begin

lemma chain_mono:
  "undo_chain undo ok le es s s\<^sub>0 \<Longrightarrow> le s u \<Longrightarrow> ok s \<Longrightarrow> ok u \<Longrightarrow> undo_chain undo ok le es u s\<^sub>0"
proof (induction es arbitrary: s u)
  case (Cons e es)
  then obtain s' where s': "undo e s = Some s'" "ok s'" "undo_chain undo ok le es s' s\<^sub>0" by auto
  from undo_mono [OF Cons.prems(2-4) s'(1,2)] obtain u' where "undo e u = Some u'" "ok u'" "le s' u'" by blast
  with Cons.IH [OF s'(3)] s'(2) show ?case by auto
qed (auto intro: le_trans)

lemma chain_append:
  "undo_chain undo ok le es s t \<Longrightarrow> undo_chain undo ok le es' t s\<^sub>0 \<Longrightarrow> ok s \<Longrightarrow> ok t \<Longrightarrow> undo_chain undo ok le (es @ es') s s\<^sub>0"
  by (induction es arbitrary: s) (auto intro: chain_mono)

lemma chain_prefix:
  "undo_chain undo ok le (es @ es') s s\<^sub>0 \<Longrightarrow> ok s \<Longrightarrow> \<exists>t. undo_chain undo ok le es s t \<and> ok t \<and> undo_chain undo ok le es' t s\<^sub>0"
proof (induction es arbitrary: s)
  case Nil
  then show ?case using le_refl by (intro exI [of _ s]) simp
next
  case (Cons e es)
  then obtain s' where "undo e s = Some s'" "ok s'" "undo_chain undo ok le (es @ es') s' s\<^sub>0" by auto
  with Cons.IH [of s'] show ?case by auto
qed

end

subsection \<open>Dirty marks\<close>

definition jok :: "journal \<Rightarrow> bool" where
  "jok j \<longleftrightarrow> (\<forall>a i. j_index j a = Some i \<longrightarrow> i < length (j_dirties j) \<and> fst (j_dirties j ! i) = a \<and> 0 < snd (j_dirties j ! i))"

definition same_marks :: "journal \<Rightarrow> journal \<Rightarrow> bool" where
  "same_marks j j' \<longleftrightarrow> j_dirties j = j_dirties j' \<and> j_index j = j_index j'"

lemma same_marks_simps [simp]: "same_marks j j" "same_marks (j\<lparr>j_entries := es\<rparr>) j' = same_marks j j'"
    "same_marks j (j'\<lparr>j_entries := es\<rparr>) = same_marks j j'"
  by (simp_all add: same_marks_def)

lemma jok_cong: "same_marks j j' \<Longrightarrow> jok j = jok j'"
  by (simp add: jok_def same_marks_def)

lemma drop_dirty_cong:
  assumes "same_marks j j'" and "drop_dirty e j = Some k"
  shows "\<exists>k'. drop_dirty e j' = Some k' \<and> same_marks k k'"
  using assms
  by (auto simp: drop_dirty_def substractDirty_def getDirty_def deleteDirty_def same_marks_def Let_def
      split: option.splits if_splits bind_splits)

lemma drop_dirty_entries: "drop_dirty e j = Some k \<Longrightarrow> j_entries k = j_entries j"
  by (auto simp: drop_dirty_def substractDirty_def getDirty_def deleteDirty_def Let_def
      split: option.splits if_splits bind_splits)

text \<open>Appending an entry succeeds, keeps the marks well-formed, and dropping the mark of the entry restores them.\<close>

lemma addDirty_ok:
  assumes "jok j"
  obtains j' where "addDirty a j = Some j'" and "jok j'" and "j_entries j' = j_entries j"
    and "\<exists>j1 n. substractDirty a j' = Some j1 \<and> getDirty a j1 = Some n \<and> same_marks j (if n = 0 then the (deleteDirty a j1) else j1)
      \<and> (n = 0 \<longrightarrow> deleteDirty a j1 \<noteq> None)"
proof (cases "j_index j a")
  case None
  let ?j = "j\<lparr>j_dirties := j_dirties j @ [(a, 1)], j_index := (j_index j)(a \<mapsto> length (j_dirties j))\<rparr>"
  let ?j1 = "?j\<lparr>j_dirties := j_dirties j @ [(a, 0)]\<rparr>"
  have "addDirty a j = Some ?j" using None by (simp add: addDirty_def)
  moreover have "jok ?j" using assms None by (auto simp: jok_def nth_append less_Suc_eq)
  moreover have "substractDirty a ?j = Some ?j1" "getDirty a ?j1 = Some 0" by (simp_all add: substractDirty_def getDirty_def)
  moreover have "deleteDirty a ?j1 = Some (j\<lparr>j_index := (j_index j)(a := None)\<rparr>)"
    by (simp add: deleteDirty_def remove_nth_def)
  ultimately show thesis using None by (intro that [of ?j]) (auto simp: same_marks_def fun_upd_idem)
next
  case (Some i)
  then have i: "i < length (j_dirties j)" "fst (j_dirties j ! i) = a" "0 < snd (j_dirties j ! i)" using assms by (auto simp: jok_def)
  let ?j = "j\<lparr>j_dirties := (j_dirties j)[i := apsnd Suc (j_dirties j ! i)]\<rparr>"
  have "addDirty a j = Some ?j" using Some i by (simp add: addDirty_def)
  moreover have "jok ?j" using assms i by (auto simp: jok_def nth_list_update)
  moreover have "apsnd (\<lambda>n. n - Suc 0) (apsnd Suc x) = x" for x :: "eth_addr \<times> nat" by (cases x) simp
  then have "substractDirty a ?j = Some j" using Some i by (simp add: substractDirty_def)
  moreover have "getDirty a j = Some (snd (j_dirties j ! i))" using Some i by (simp add: getDirty_def)
  ultimately show thesis using i(3) by (intro that [of ?j]) auto
qed

lemma journal_append_ok:
  assumes "jok j"
  obtains j' where "journal_append e j = Some j'" and "jok j'" and "j_entries j' = j_entries j @ [e]"
    and "\<And>k. same_marks j' k \<Longrightarrow> \<exists>k'. drop_dirty e k = Some k' \<and> same_marks j k'"
proof (cases "dirtied e")
  case None
  let ?j = "j\<lparr>j_entries := j_entries j @ [e]\<rparr>"
  have "jok ?j" using assms jok_cong [of ?j j] by simp
  with None show thesis by (intro that [of ?j]) (auto simp: journal_append_def drop_dirty_def)
next
  case (Some a)
  let ?j = "j\<lparr>j_entries := j_entries j @ [e]\<rparr>"
  have "jok ?j" using assms jok_cong [of ?j j] by simp
  then obtain j' j1 n where j: "addDirty a ?j = Some j'" "jok j'" "j_entries j' = j_entries ?j"
    "substractDirty a j' = Some j1" "getDirty a j1 = Some n" "same_marks ?j (if n = 0 then the (deleteDirty a j1) else j1)"
    "n = 0 \<longrightarrow> deleteDirty a j1 \<noteq> None" by (rule addDirty_ok [of ?j a]) blast
  obtain k0 where k0: "drop_dirty e j' = Some k0" "same_marks j k0" using Some j(4-7) by (auto simp: drop_dirty_def split: if_splits)
  have "\<exists>k'. drop_dirty e k = Some k' \<and> same_marks j k'" if "same_marks j' k" for k
    using drop_dirty_cong [OF that k0(1)] k0(2) by (auto simp: same_marks_def)
  with j(1-3) Some show thesis by (intro that [of j']) (auto simp: journal_append_def)
qed

subsection \<open>What the account keeper promises\<close>

text \<open>
  An account has the address it is found under, a well-formed list of non-negative coins and no code hash or one of 32 bytes;
  creating an account does not store it; hashes have 32 bytes.
\<close>

definition acc_ok :: "eth_addr \<Rightarrow> eth_account \<Rightarrow> bool" where
  "acc_ok a acc \<longleftrightarrow> ac_Address acc = a \<and> coins_ok (ac_Coins acc) \<and> (\<forall>d. 0 \<le> amt (ac_Coins acc) d)"

definition evm_laws :: "'b evm_ext \<Rightarrow> bool" where
  "evm_laws X \<longleftrightarrow> coins_laws (x_sdk X) \<and> (\<forall>b. length (x_keccak X b) = 32)
     \<and> (\<forall>b a acc. ak_get X b a = Some (EthAcc acc) \<longrightarrow> acc_ok a acc \<and> length (ac_CodeHash acc) \<in> {0, 32})
     \<and> (\<forall>b a. acc_ok a (fst (ak_new X a b)) \<and> length (ac_CodeHash (fst (ak_new X a b))) \<in> {0, 32})
     \<and> (\<forall>b a. ak_get X (snd (ak_new X a b)) = ak_get X b)"

lemma evm_lawsD:
  assumes "evm_laws X"
  shows "coins_laws (x_sdk X)" and "length (x_keccak X h) = 32"
    and "ak_get X b a = Some (EthAcc acc) \<Longrightarrow> acc_ok a acc \<and> length (ac_CodeHash acc) \<in> {0, 32}"
    and "acc_ok a (fst (ak_new X a b)) \<and> length (ac_CodeHash (fst (ak_new X a b))) \<in> {0, 32}"
    and "ak_get X (snd (ak_new X a b)) = ak_get X b"
  using assms unfolding evm_laws_def by blast+

text \<open>Setting a balance that is not negative succeeds and changes this balance only.\<close>

lemma acc_SetBalance_ok:
  assumes "evm_laws X" and "acc_ok a acc" and "0 \<le> v"
  obtains acc' where "acc_SetBalance X d v acc = Some acc'" and "acc_ok a acc'" and "amt (ac_Coins acc') = (amt (ac_Coins acc))(d := v)"
    and "ac_Sequence acc' = ac_Sequence acc" and "ac_CodeHash acc' = ac_CodeHash acc"
proof -
  let ?c = "ac_Coins acc" and ?diff = "v - amt (ac_Coins acc) d"
  note L = evm_lawsD(1) [OF assms(1)]
  have c: "coins_ok ?c" "\<And>d. 0 \<le> amt ?c d" "ac_Address acc = a" using assms(2) by (auto simp: acc_ok_def)
  consider "0 < ?diff" | "?diff < 0" | "?diff = 0" by linarith
  then show thesis
  proof cases
    case 1
    note p = coins_add2 [OF L c(1) coins_ok_single(1) [of "(d, ?diff)"]]
    have "amt (c_add2 (x_sdk X) ?c [(d, ?diff)]) = (amt ?c)(d := v)" by (auto simp: p fun_eq_iff)
    with 1 p(1) c show thesis
      by (intro that [of "acc\<lparr>ac_Coins := c_add2 (x_sdk X) ?c [(d, ?diff)]\<rparr>"]) (auto simp: acc_SetBalance_def acc_ok_def assms(3))
  next
    case 2
    let ?m = "[(d, amt ?c d - v)]"
    note p = coins_safe_sub [OF L c(1) coins_ok_single(1) [of "(d, amt ?c d - v)"]]
    have "\<not> snd (c_safe_sub (x_sdk X) ?c ?m)" using p(3) c(2) assms(3) by (auto simp: not_less)
    then obtain cs where cs: "c_safe_sub (x_sdk X) ?c ?m = (cs, False)" by (cases "c_safe_sub (x_sdk X) ?c ?m") auto
    have "amt cs x = ((amt ?c)(d := v)) x" for x using p(2) [of x] by (simp only: cs fst_conv) simp
    then have "amt cs = (amt ?c)(d := v)" by blast
    moreover have "coins_ok cs" using p(1) by (simp only: cs fst_conv)
    ultimately show thesis using 2 c
      by (intro that [of "acc\<lparr>ac_Coins := cs\<rparr>"]) (auto simp: acc_SetBalance_def coins_sub_def cs acc_ok_def assms(3))
  next
    case 3
    then show thesis using assms(2) by (intro that [of acc]) (auto simp: acc_SetBalance_def)
  qed
qed

subsection \<open>What can be seen of the state\<close>

lemma params_of_upd [simp]:
  "params_of (s\<lparr>s_bank := x1\<rparr>) = params_of s"
  "params_of (s\<lparr>s_objects := x2\<rparr>) = params_of s"
  "params_of (s\<lparr>s_index := x3\<rparr>) = params_of s"
  "params_of (s\<lparr>s_dirty := x4\<rparr>) = params_of s"
  "params_of (s\<lparr>s_refund := x5\<rparr>) = params_of s"
  "params_of (s\<lparr>s_thash := x6\<rparr>) = params_of s"
  "params_of (s\<lparr>s_bhash := x7\<rparr>) = params_of s"
  "params_of (s\<lparr>s_txIndex := x8\<rparr>) = params_of s"
  "params_of (s\<lparr>s_logSize := x9\<rparr>) = params_of s"
  "params_of (s\<lparr>s_logs := x10\<rparr>) = params_of s"
  "params_of (s\<lparr>s_preimages := x11\<rparr>) = params_of s"
  "params_of (s\<lparr>s_preimageIndex := x12\<rparr>) = params_of s"
  "params_of (s\<lparr>s_dbErr := x13\<rparr>) = params_of s"
  "params_of (s\<lparr>s_journal := x14\<rparr>) = params_of s"
  "params_of (s\<lparr>s_revisions := x15\<rparr>) = params_of s"
  "params_of (s\<lparr>s_nextRevision := x16\<rparr>) = params_of s"
  "params_of (s\<lparr>s_access := x17\<rparr>) = params_of s"
  "params_of (s\<lparr>s_params := Some p\<rparr>) = p"
  by (simp_all add: params_of_def split: option.splits)

definition stored :: "evm_kv \<Rightarrow> eth_addr \<Rightarrow> eth_hash \<Rightarrow> eth_hash" where
  "stored kv a k =
     (case kv_storage kv a k of Some raw \<Rightarrow> if raw = [] then zero_hash else BytesToHash raw | None \<Rightarrow> zero_hash)"

record obj_view =
  v_amt :: "denom \<Rightarrow> dec"
  v_seq :: "64 word"
  v_hash :: bytes
  v_code :: "bytes option"
  v_state :: "eth_hash \<Rightarrow> eth_hash"
  v_suicided :: bool

definition slot_of :: "evm_kv \<Rightarrow> state_object \<Rightarrow> eth_hash \<Rightarrow> eth_hash" where
  "slot_of kv so k = (case map_of (so_dirtyStorage so) k of Some v \<Rightarrow> v | None \<Rightarrow> stored kv (so_address so) k)"

definition view :: "'b evm_ext \<Rightarrow> evm_kv \<Rightarrow> state_object \<Rightarrow> obj_view" where
  "view X kv so = \<lparr>v_amt = amt (ac_Coins (so_account so)), v_seq = ac_Sequence (so_account so), v_hash = ac_CodeHash (so_account so),
     v_code = fst (so_Code X kv so), v_state = slot_of kv so, v_suicided = so_suicided so\<rparr>"

abbreviation objs :: "'b csdb \<Rightarrow> eth_addr \<rightharpoonup> state_object" where
  "objs s \<equiv> map_of (s_objects s)"

definition seen :: "'b evm_ext \<Rightarrow> 'b csdb \<Rightarrow> eth_addr \<rightharpoonup> state_object" where
  "seen X s a =
     (case objs s a of
        Some so \<Rightarrow> if so_deleted so then None else Some so
      | None \<Rightarrow> Option.bind (ak_get X (s_bank s) a) (newStateObject X))"

lemma seen_upd [simp]:
  "seen X (s\<lparr>s_index := x18\<rparr>) = seen X s"
  "seen X (s\<lparr>s_dirty := x19\<rparr>) = seen X s"
  "seen X (s\<lparr>s_refund := x20\<rparr>) = seen X s"
  "seen X (s\<lparr>s_thash := x21\<rparr>) = seen X s"
  "seen X (s\<lparr>s_bhash := x22\<rparr>) = seen X s"
  "seen X (s\<lparr>s_txIndex := x23\<rparr>) = seen X s"
  "seen X (s\<lparr>s_logSize := x24\<rparr>) = seen X s"
  "seen X (s\<lparr>s_logs := x25\<rparr>) = seen X s"
  "seen X (s\<lparr>s_preimages := x26\<rparr>) = seen X s"
  "seen X (s\<lparr>s_preimageIndex := x27\<rparr>) = seen X s"
  "seen X (s\<lparr>s_dbErr := x28\<rparr>) = seen X s"
  "seen X (s\<lparr>s_journal := x29\<rparr>) = seen X s"
  "seen X (s\<lparr>s_revisions := x30\<rparr>) = seen X s"
  "seen X (s\<lparr>s_nextRevision := x31\<rparr>) = seen X s"
  "seen X (s\<lparr>s_access := x32\<rparr>) = seen X s"
  "seen X (s\<lparr>s_params := x33\<rparr>) = seen X s"
  by (simp_all add: seen_def fun_eq_iff split: option.splits)

text \<open>Well-formed objects: cached original values are those of the store, and every dirty key is cached.\<close>

definition obj_ok :: "'b evm_ext \<Rightarrow> evm_kv \<Rightarrow> account option \<Rightarrow> eth_addr \<Rightarrow> state_object \<Rightarrow> bool" where
  "obj_ok X kv kept a so \<longleftrightarrow> so_address so = a \<and> acc_ok a (so_account so) \<and> length (ac_CodeHash (so_account so)) = 32
     \<and> indexed (so_dirtyStorage so) (so_dirtyIndex so)
     \<and> (\<forall>k i. so_originIndex so k = Some i \<longrightarrow> i < length (so_originStorage so) \<and> so_originStorage so ! i = (k, stored kv a k))
     \<and> dom (so_dirtyIndex so) \<subseteq> dom (so_originIndex so)
     \<and> (so_deleted so \<longrightarrow> kept = None) \<and> kept \<noteq> Some OtherAcc"

definition al_ok :: "access_list \<Rightarrow> bool" where
  "al_ok al \<longleftrightarrow> {} \<notin> set (al_slots al) \<and> (\<forall>a i. al_addresses al a = Some i \<longrightarrow> -1 \<le> i)"

definition csdb_ok :: "'b evm_ext \<Rightarrow> 'b csdb \<Rightarrow> bool" where
  "csdb_ok X s \<longleftrightarrow> indexed (s_objects s) (s_index s)
     \<and> (\<forall>a so. objs s a = Some so \<longrightarrow> obj_ok X (s_kv s) (ak_get X (s_bank s) a) a so)
     \<and> al_ok (s_access s) \<and> jok (s_journal s)"

lemma csdb_okD:
  assumes "csdb_ok X s"
  shows "indexed (s_objects s) (s_index s)" and "objs s a = Some so \<Longrightarrow> obj_ok X (s_kv s) (ak_get X (s_bank s) a) a so"
    and "al_ok (s_access s)" and "jok (s_journal s)"
  using assms by (auto simp: csdb_ok_def)

text \<open>
  \<open>obj_le\<close>: the second object shows the same and caches at least the same original values. \<open>rest\<close> collects
  what must be restored exactly.
\<close>

fun obj_le :: "'b evm_ext \<Rightarrow> evm_kv \<Rightarrow> state_object option \<Rightarrow> state_object option \<Rightarrow> bool" where
  "obj_le X kv None None = True"
| "obj_le X kv (Some so) (Some so') = (view X kv so = view X kv so' \<and> dom (so_originIndex so) \<subseteq> dom (so_originIndex so'))"
| "obj_le X kv _ _ = False"

definition rest :: "'b csdb \<Rightarrow> _" where
  "rest s = (s_kv s, params_of s, s_refund s, s_thash s, s_bhash s, s_txIndex s, s_logSize s, s_logs s, s_preimages s,
     s_preimageIndex s, s_access s)"

definition csdb_le :: "'b evm_ext \<Rightarrow> 'b csdb \<Rightarrow> 'b csdb \<Rightarrow> bool" where
  "csdb_le X s u \<longleftrightarrow> rest s = rest u \<and> same_marks (s_journal s) (s_journal u) \<and> ak_get X (s_bank s) = ak_get X (s_bank u)
     \<and> (\<forall>a. obj_le X (s_kv s) (seen X s a) (seen X u a))"

lemma obj_le_refl [simp]: "obj_le X kv x x"
  by (cases x) simp_all

lemma obj_le_trans: "obj_le X kv x y \<Longrightarrow> obj_le X kv y z \<Longrightarrow> obj_le X kv x z"
  by (cases x; cases y; cases z) auto

lemma csdb_le_refl [simp]: "csdb_le X s s"
  by (simp add: csdb_le_def)

lemma csdb_le_trans: "csdb_le X s t \<Longrightarrow> csdb_le X t u \<Longrightarrow> csdb_le X s u"
proof -
  assume st: "csdb_le X s t" and tu: "csdb_le X t u"
  then have "s_kv s = s_kv t" by (simp add: csdb_le_def rest_def)
  with st tu have "obj_le X (s_kv s) (seen X s a) (seen X u a)" for a
    unfolding csdb_le_def by (metis obj_le_trans)
  with st tu show "csdb_le X s u" by (simp add: csdb_le_def same_marks_def)
qed

subsection \<open>Objects\<close>

text \<open>\<open>s'\<close> is \<open>s\<close> with the object of one address replaced (or removed), and possibly another error or parameter cache.\<close>

definition writes :: "eth_addr \<Rightarrow> state_object option \<Rightarrow> 'b csdb \<Rightarrow> 'b csdb \<Rightarrow> bool" where
  "writes a v s s' \<longleftrightarrow> rest s' = rest s \<and> s_bank s' = s_bank s \<and> s_journal s' = s_journal s \<and> s_revisions s' = s_revisions s
     \<and> s_nextRevision s' = s_nextRevision s \<and> indexed (s_objects s') (s_index s') \<and> objs s' = (objs s)(a := v)"

lemma writesD:
  assumes "writes a v s s'"
  shows "rest s' = rest s" "s_bank s' = s_bank s" "s_journal s' = s_journal s" "s_revisions s' = s_revisions s"
    "s_nextRevision s' = s_nextRevision s" "indexed (s_objects s') (s_index s')" "objs s' = (objs s)(a := v)"
  using assms by (simp_all add: writes_def)

lemma rest_eqD: "rest s = rest u \<Longrightarrow> s_kv s = s_kv u \<and> params_of s = params_of u \<and> s_access s = s_access u"
  by (simp add: rest_def)

lemma writes_trans: "writes a v s t \<Longrightarrow> writes a w t u \<Longrightarrow> writes a w s u"
  by (simp add: writes_def)

lemma setStateObject_writes:
  assumes "indexed (s_objects s) (s_index s)"
  obtains s' where "setStateObject so s = Some s'" and "writes (so_address so) (Some so) s s'"
proof (cases "s_index s (so_address so)")
  case None
  note i = indexed_append [OF assms None, of so]
  from None that i show thesis by (auto simp: setStateObject_def writes_def rest_def)
next
  case (Some idx)
  note i = indexed_update [OF assms Some, of so]
  from Some that i indexedD [OF assms Some] show thesis by (auto simp: setStateObject_def writes_def rest_def)
qed

lemma upd_obj_writes:
  assumes "indexed (s_objects s) (s_index s)" and "objs s a = Some so" and "f so = Some so'"
  obtains s' where "upd_obj a f s = Some s'" and "writes a (Some so') s s'"
proof (cases "s_index s a")
  case None
  with assms(1,2) indexed_none show thesis by fastforce
next
  case (Some idx)
  note i = indexed_update [OF assms(1) Some, of so']
  have "snd (s_objects s ! idx) = so" using indexed_nth [OF assms(1) Some] assms(2) by simp
  with Some that i indexedD [OF assms(1) Some] assms(3) show thesis by (auto simp: upd_obj_def writes_def rest_def)
qed

lemma upd_obj_Some:
  assumes "indexed (s_objects s) (s_index s)" and "upd_obj a f s = Some s'"
  obtains so so' where "objs s a = Some so" and "f so = Some so'" and "writes a (Some so') s s'"
proof -
  obtain idx where idx: "s_index s a = Some idx" using assms(2) by (auto simp: upd_obj_def split: option.splits)
  obtain so' where f: "f (snd (s_objects s ! idx)) = Some so'" using assms(2) idx by (auto simp: upd_obj_def split: if_splits)
  note o = indexed_nth [OF assms(1) idx]
  obtain t where "upd_obj a f s = Some t" "writes a (Some so') s t" by (rule upd_obj_writes [of s a _ f, OF assms(1) o f])
  with that [OF o f] assms(2) show thesis by simp
qed

lemma obj_at_objs: "indexed (s_objects s) (s_index s) \<Longrightarrow> obj_at a s = objs s a"
proof -
  assume ix: "indexed (s_objects s) (s_index s)"
  show "obj_at a s = objs s a"
  proof (cases "s_index s a")
    case None
    have "objs s a = None" using indexed_none [OF ix, of a] None by simp
    with None show ?thesis by (simp add: obj_at_def)
  next
    case (Some i)
    with indexed_nth [OF ix] indexedD [OF ix] show ?thesis by (simp add: obj_at_def)
  qed
qed

lemma newStateObject_ok:
  assumes "evm_laws X" and "newStateObject X acc = Some so" and "ak_get X b a = Some acc"
  shows "obj_ok X kv (Some acc) a so" and "so_deleted so = False" and "so_originIndex so = Map.empty"
  using assms evm_lawsD(3) [OF assms(1), of b a] evm_lawsD(2) [OF assms(1)]
  by (auto simp: newStateObject_def obj_ok_def acc_ok_def emptyCodeHash_def Let_def split: account.splits if_splits)

lemma seen_writes:
  assumes "writes a v s s'"
  shows "seen X s' = (seen X s)(a := (case v of Some so \<Rightarrow> if so_deleted so then None else Some so
            | None \<Rightarrow> Option.bind (ak_get X (s_bank s) a) (newStateObject X)))"
  using writesD [OF assms] by (auto simp: seen_def fun_eq_iff split: option.splits)

lemma csdb_ok_writes:
  assumes "writes a (Some so) s s'" and "csdb_ok X s" and "obj_ok X (s_kv s) (ak_get X (s_bank s) a) a so"
  shows "csdb_ok X s'"
  using writesD [OF assms(1)] rest_eqD [OF writesD(1) [OF assms(1)]] assms(2,3) by (auto simp: csdb_ok_def)

text \<open>Looking up an object caches it; nothing that can be seen changes.\<close>

lemma getStateObject_ok:
  assumes "evm_laws X" and "csdb_ok X s" and "getStateObject X a s = Some (x, s')"
  shows "x = seen X s a" and "csdb_ok X s'" and "csdb_le X s s'" and "x \<noteq> None \<Longrightarrow> objs s' a = x"
    and "s_journal s' = s_journal s" and "s_revisions s' = s_revisions s" and "s_nextRevision s' = s_nextRevision s"
    and "x = None \<Longrightarrow> objs s' = objs s" and "s_bank s' = s_bank s" and "rest s' = rest s"
    and "x = None \<Longrightarrow> ak_get X (s_bank s) a = None" and "seen X s' = seen X s"
proof -
  note ix = csdb_okD(1) [OF assms(2)]
  have "x = seen X s a \<and> csdb_ok X s' \<and> csdb_le X s s' \<and> (x \<noteq> None \<longrightarrow> objs s' a = x) \<and> s_journal s' = s_journal s
    \<and> s_revisions s' = s_revisions s \<and> s_nextRevision s' = s_nextRevision s \<and> (x = None \<longrightarrow> objs s' = objs s) \<and> s_bank s' = s_bank s
    \<and> rest s' = rest s \<and> (x = None \<longrightarrow> ak_get X (s_bank s) a = None) \<and> seen X s' = seen X s"
  proof (cases "s_index s a")
    case (Some idx)
    then have "objs s a = Some (snd (s_objects s ! idx))" by (rule indexed_nth [OF ix])
    with Some assms(2,3) csdb_okD(2) [OF assms(2), of a] show ?thesis
      by (auto simp: getStateObject_def seen_def obj_ok_def Let_def split: if_splits)
  next
    case None
    have n: "objs s a = None" using None indexed_none [OF ix] by simp
    show ?thesis
    proof (cases "ak_get X (s_bank s) a")
      case k: None
      then have s': "s' = set_error (NoAccount a) s" "x = None" using None assms(3) by (auto simp: getStateObject_def)
      then show ?thesis using k n assms(2)
        by (auto simp: set_error_def csdb_le_def rest_def csdb_ok_def seen_def [of X s a])
    next
      case k: (Some acc)
      then obtain so where so: "newStateObject X acc = Some so" "setStateObject so s = Some s'" "x = Some so"
        using None assms(3) by (auto simp: getStateObject_def split: bind_splits)
      note o = newStateObject_ok [OF assms(1) so(1) k]
      have a: "so_address so = a" using o(1) by (simp add: obj_ok_def)
      have w: "writes a (Some so) s s'" using setStateObject_writes [OF ix, of so] so(2) a by (metis option.inject)
      have sx: "seen X s a = Some so" using n k so(1) by (simp add: seen_def)
      then have se: "seen X s' = seen X s" using seen_writes [OF w, of X] o(2) by (auto simp: fun_eq_iff)
      have "csdb_ok X s'" using csdb_ok_writes [OF w assms(2)] o(1) k by simp
      then show ?thesis using writesD [OF w] sx se so(3) by (auto simp: csdb_le_def)
    qed
  qed
  then show "x = seen X s a" "csdb_ok X s'" "csdb_le X s s'" "x \<noteq> None \<Longrightarrow> objs s' a = x"
    "s_journal s' = s_journal s" "s_revisions s' = s_revisions s" "s_nextRevision s' = s_nextRevision s"
    "x = None \<Longrightarrow> objs s' = objs s" "s_bank s' = s_bank s" "rest s' = rest s"
    "x = None \<Longrightarrow> ak_get X (s_bank s) a = None" "seen X s' = seen X s" by blast+
qed

lemma getStateObject_seen:
  assumes "evm_laws X" and "csdb_ok X s" and "seen X s a \<noteq> None \<or> ak_get X (s_bank s) a \<noteq> Some OtherAcc"
  shows "\<exists>s'. getStateObject X a s = Some (seen X s a, s')"
proof (cases "s_index s a")
  case (Some idx)
  note ix = csdb_okD(1) [OF assms(2)]
  from Some indexedD [OF ix Some] indexed_nth [OF ix Some] show ?thesis by (auto simp: getStateObject_def seen_def Let_def)
next
  case None
  note ix = csdb_okD(1) [OF assms(2)]
  have n: "objs s a = None" using indexed_none [OF ix, of a] None by simp
  show ?thesis
  proof (cases "ak_get X (s_bank s) a")
    case k: None
    with None n show ?thesis by (simp add: getStateObject_def seen_def)
  next
    case k: (Some acc)
    then obtain so where so: "newStateObject X acc = Some so"
      using assms(3) n by (cases acc) (auto simp: seen_def newStateObject_def Let_def)
    obtain s' where "setStateObject so s = Some s'" by (rule setStateObject_writes [OF ix])
    with None n k so show ?thesis by (simp add: getStateObject_def seen_def)
  qed
qed

subsection \<open>Undo does the same on states that look the same\<close>

definition modify :: "'b evm_ext \<Rightarrow> eth_addr \<Rightarrow> (state_object \<Rightarrow> state_object option) \<Rightarrow> 'b csdb \<Rightarrow> 'b csdb option" where
  "modify X a f s = do {
     (obj, s1) \<leftarrow> getStateObject X a s;
     so \<leftarrow> obj;
     upd_obj (so_address so) f s1
   }"

definition mono_change :: "'b evm_ext \<Rightarrow> evm_kv \<Rightarrow> (state_object \<Rightarrow> state_object option) \<Rightarrow> bool" where
  "mono_change X kv f \<longleftrightarrow>
     (\<forall>kept a so u so'. obj_ok X kv kept a so \<and> obj_ok X kv kept a u \<and> obj_le X kv (Some so) (Some u) \<and> f so = Some so' \<and> obj_ok X kv kept a so'
       \<longrightarrow> so_deleted so' = so_deleted so
         \<and> (\<exists>u'. f u = Some u' \<and> obj_ok X kv kept a u' \<and> obj_le X kv (Some so') (Some u') \<and> so_deleted u' = so_deleted u))"

lemma csdb_leD:
  assumes "csdb_le X s u"
  shows "rest s = rest u" and "same_marks (s_journal s) (s_journal u)" and "ak_get X (s_bank s) = ak_get X (s_bank u)"
    and "obj_le X (s_kv s) (seen X s a) (seen X u a)" and "s_kv u = s_kv s" and "params_of u = params_of s"
  using assms by (auto simp: csdb_le_def rest_def)

lemma seen_not_deleted: "seen X s a = Some so \<Longrightarrow> \<not> so_deleted so"
  by (auto simp: seen_def newStateObject_def Let_def split: option.splits if_splits bind_splits account.splits)

lemma modify_Some:
  assumes "evm_laws X" and "csdb_ok X s" and "modify X a f s = Some s'"
  obtains so so' s1 where "seen X s a = Some so" and "f so = Some so'" and "writes a (Some so') s1 s'" and "csdb_ok X s1"
    and "objs s1 a = Some so" and "getStateObject X a s = Some (Some so, s1)"
proof -
  obtain so s1 where g: "getStateObject X a s = Some (Some so, s1)" "upd_obj (so_address so) f s1 = Some s'"
    using assms(3) by (auto simp: modify_def split: bind_splits prod.splits)
  note k = getStateObject_ok [OF assms(1,2) g(1)]
  have o: "objs s1 a = Some so" using k(4) by simp
  then have "so_address so = a" using csdb_okD(2) [OF k(2) o] by (simp add: obj_ok_def)
  with g(2) upd_obj_Some [OF csdb_okD(1) [OF k(2)], of a f s'] o obtain so' where "f so = Some so'" "writes a (Some so') s1 s'" by auto
  moreover have "seen X s a = Some so" using k(1) by simp
  ultimately show thesis using that g(1) o k(2) by blast
qed

lemma modify_mono:
  assumes X: "evm_laws X" and le: "csdb_le X s u" and ok: "csdb_ok X s" "csdb_ok X u" and m: "modify X a f s = Some s'" "csdb_ok X s'"
    and f: "mono_change X (s_kv s) f"
  obtains u' where "modify X a f u = Some u'" and "csdb_ok X u'" and "csdb_le X s' u'" and "s_journal s' = s_journal s"
    and "s_journal u' = s_journal u"
proof -
  obtain so so' s1 where s: "seen X s a = Some so" "f so = Some so'" "writes a (Some so') s1 s'" "csdb_ok X s1" "objs s1 a = Some so"
    "getStateObject X a s = Some (Some so, s1)" by (rule modify_Some [OF X ok(1) m(1)])
  note g = getStateObject_ok [OF X ok(1) s(6)] and L = csdb_leD [OF le]
  obtain v where v: "seen X u a = Some v" using L(4) [of a] s(1) by (cases "seen X u a") auto
  then obtain u1 where u1: "getStateObject X a u = Some (Some v, u1)" using getStateObject_seen [OF X ok(2), of a] by auto
  note h = getStateObject_ok [OF X ok(2) u1]
  have kv: "s_kv s1 = s_kv s" "s_kv u1 = s_kv s" "s_kv s' = s_kv s"
    using rest_eqD [OF g(10)] rest_eqD [OF h(10)] rest_eqD [OF writesD(1) [OF s(3)]] L(5) by auto
  have bank: "ak_get X (s_bank u1) = ak_get X (s_bank s)" "s_bank s1 = s_bank s" "s_bank s' = s_bank s"
    using g(9) h(9) L(3) writesD(2) [OF s(3)] by auto
  have o: "objs u1 a = Some v" using h(4) by simp
  have os: "obj_ok X (s_kv s) (ak_get X (s_bank s) a) a so" using csdb_okD(2) [OF s(4,5)] by (simp add: kv bank)
  have ou: "obj_ok X (s_kv s) (ak_get X (s_bank s) a) a v" using csdb_okD(2) [OF h(2) o] by (simp add: kv bank)
  have os': "obj_ok X (s_kv s) (ak_get X (s_bank s) a) a so'"
    using csdb_okD(2) [OF m(2), of a so'] writesD(7) [OF s(3)] by (simp add: kv bank)
  have "obj_le X (s_kv s) (Some so) (Some v)" using L(4) [of a] s(1) v by simp
  with f os ou os' s(2) obtain v' where v': "f v = Some v'" "obj_ok X (s_kv s) (ak_get X (s_bank s) a) a v'"
    "obj_le X (s_kv s) (Some so') (Some v')" "so_deleted v' = so_deleted v" "so_deleted so' = so_deleted so"
    unfolding mono_change_def by blast
  have "so_address v = a" using ou by (simp add: obj_ok_def)
  with upd_obj_writes [of u1 a v f, OF csdb_okD(1) [OF h(2)] o v'(1)]
  obtain u' where u': "upd_obj (so_address v) f u1 = Some u'" "writes a (Some v') u1 u'" by metis
  show thesis
  proof (rule that)
    show "modify X a f u = Some u'" using u1 u'(1) by (simp add: modify_def)
    show "csdb_ok X u'" using csdb_ok_writes [OF u'(2) h(2)] v'(2) by (simp add: kv bank)
    have "seen X s' = (seen X s)(a := Some so')" "seen X u' = (seen X u)(a := Some v')"
      using seen_writes [OF s(3), of X] seen_writes [OF u'(2), of X] g(12) h(12) v'(4,5) seen_not_deleted s(1) v by auto
    then have "obj_le X (s_kv s) (seen X s' b) (seen X u' b)" for b using L(4) [of b] v'(3) by auto
    moreover have "rest s' = rest u'" using writesD(1) [OF s(3)] writesD(1) [OF u'(2)] g(10) h(10) L(1) by simp
    moreover have "s_journal s' = s_journal s" "s_journal u' = s_journal u"
      using writesD(3) [OF s(3)] writesD(3) [OF u'(2)] g(5) h(5) by auto
    moreover have "ak_get X (s_bank s') = ak_get X (s_bank u')" using writesD(2) [OF u'(2)] bank by simp
    ultimately show "csdb_le X s' u'" "s_journal s' = s_journal s" "s_journal u' = s_journal u" using L(2) by (auto simp: csdb_le_def kv)
  qed
qed

text \<open>The changes that undoing makes to an object.\<close>

lemma view_eq: "view X kv so = view X kv u \<longleftrightarrow> amt (ac_Coins (so_account so)) = amt (ac_Coins (so_account u))
     \<and> ac_Sequence (so_account so) = ac_Sequence (so_account u) \<and> ac_CodeHash (so_account so) = ac_CodeHash (so_account u)
     \<and> fst (so_Code X kv so) = fst (so_Code X kv u) \<and> slot_of kv so = slot_of kv u \<and> so_suicided so = so_suicided u"
  by (simp add: view_def)

lemma slot_of_upd [simp]:
  "slot_of kv (so\<lparr>so_account := acc\<rparr>) = slot_of kv so" "slot_of kv (so\<lparr>so_suicided := b\<rparr>) = slot_of kv so"
  "slot_of kv (so\<lparr>so_code := c\<rparr>) = slot_of kv so" "slot_of kv (so\<lparr>so_dirtyCode := b\<rparr>) = slot_of kv so"
  "slot_of kv (so\<lparr>so_dbErr := er\<rparr>) = slot_of kv so" "slot_of kv (so\<lparr>so_originStorage := os\<rparr>) = slot_of kv so"
  "slot_of kv (so\<lparr>so_originIndex := oi\<rparr>) = slot_of kv so"
  by (simp_all add: slot_of_def fun_eq_iff split: option.splits)

lemma so_Code_cong:
  "so_code u = so_code so \<Longrightarrow> ac_CodeHash (so_account u) = ac_CodeHash (so_account so) \<Longrightarrow> fst (so_Code X kv u) = fst (so_Code X kv so)"
  by (simp add: so_Code_def so_CodeHash_def Let_def)

lemma so_Code_upd [simp]:
  "fst (so_Code X kv (so\<lparr>so_suicided := b\<rparr>)) = fst (so_Code X kv so)"
  "ac_CodeHash acc = ac_CodeHash (so_account so) \<Longrightarrow> fst (so_Code X kv (so\<lparr>so_account := acc\<rparr>)) = fst (so_Code X kv so)"
  by (rule so_Code_cong; simp)+

lemma setNonce_mono: "mono_change X kv (\<lambda>x. Some (setNonce n x))"
  by (auto simp: mono_change_def setNonce_def obj_ok_def acc_ok_def view_eq)

lemma setBalance_mono:
  assumes "evm_laws X" and "0 \<le> v" and that: "f = id \<or> f = (\<lambda>x. x\<lparr>so_suicided := b\<rparr>)"
  shows "mono_change X kv (\<lambda>x. setBalance X d v (f x))"
  unfolding mono_change_def
proof (intro allI impI)
  fix kept a so u so'
  assume h: "obj_ok X kv kept a so \<and> obj_ok X kv kept a u \<and> obj_le X kv (Some so) (Some u) \<and> setBalance X d v (f so) = Some so' \<and> obj_ok X kv kept a so'"
  have A: "so_account (f x) = so_account x" for x using that by auto
  obtain acc where acc: "acc_SetBalance X d v (so_account so) = Some acc" "amt (ac_Coins acc) = (amt (ac_Coins (so_account so)))(d := v)"
    "ac_Sequence acc = ac_Sequence (so_account so)" "ac_CodeHash acc = ac_CodeHash (so_account so)"
    by (rule acc_SetBalance_ok [OF assms(1) _ assms(2), of a "so_account so" d]) (use h in \<open>auto simp: obj_ok_def\<close>)
  obtain acu where acu: "acc_SetBalance X d v (so_account u) = Some acu" "amt (ac_Coins acu) = (amt (ac_Coins (so_account u)))(d := v)"
    "ac_Sequence acu = ac_Sequence (so_account u)" "ac_CodeHash acu = ac_CodeHash (so_account u)" "acc_ok a acu"
    by (rule acc_SetBalance_ok [OF assms(1) _ assms(2), of a "so_account u" d]) (use h in \<open>auto simp: obj_ok_def\<close>)
  have v: "view X kv so = view X kv u" "dom (so_originIndex so) \<subseteq> dom (so_originIndex u)" using h by simp_all
  have so': "so' = (f so)\<lparr>so_account := acc\<rparr>" using h acc(1) by (simp add: setBalance_def A)
  let ?u = "(f u)\<lparr>so_account := acu\<rparr>"
  have "setBalance X d v (f u) = Some ?u" using acu(1) by (simp add: setBalance_def A)
  moreover have "obj_ok X kv kept a u" using h by blast
  then have "obj_ok X kv kept a ?u" using acu(4,5) that by (elim disjE) (simp_all add: obj_ok_def)
  moreover have "obj_le X kv (Some so') (Some ?u)"
    using that
  proof
    assume "f = id"
    with v acc(2-4) acu(2-4) show ?thesis by (simp add: so' view_eq)
  next
    assume "f = (\<lambda>x. x\<lparr>so_suicided := b\<rparr>)"
    with v acc(2-4) acu(2-4) show ?thesis by (simp add: so' view_eq)
  qed
  ultimately show "so_deleted so' = so_deleted so \<and> (\<exists>u'. setBalance X d v (f u) = Some u' \<and> obj_ok X kv kept a u'
      \<and> obj_le X kv (Some so') (Some u') \<and> so_deleted u' = so_deleted u)" using that unfolding so' by auto
qed

lemma setCode_mono: "mono_change X kv (\<lambda>x. Some (setCode h c x))"
proof -
  have "fst (so_Code X kv (setCode h c so)) = fst (so_Code X kv (setCode h c u))" for so u
    by (rule so_Code_cong) (simp_all add: setCode_def)
  then show ?thesis by (auto simp: mono_change_def setCode_def obj_ok_def acc_ok_def view_eq)
qed

lemma setState_ok:
  assumes "indexed (so_dirtyStorage so) (so_dirtyIndex so)"
  obtains ds di where "setState k v so = Some (so\<lparr>so_dirtyStorage := ds, so_dirtyIndex := di\<rparr>)" and "indexed ds di"
    and "map_of ds = (map_of (so_dirtyStorage so))(k \<mapsto> v)" and "dom di = insert k (dom (so_dirtyIndex so))"
proof (cases "so_dirtyIndex so k")
  case None
  note i = indexed_append [OF assms None, of v]
  have "setState k v so = Some (so\<lparr>so_dirtyStorage := so_dirtyStorage so @ [(k, v)],
      so_dirtyIndex := (so_dirtyIndex so)(k \<mapsto> length (so_dirtyStorage so))\<rparr>)" using None by (simp add: setState_def)
  then show thesis using i by (rule that) auto
next
  case (Some j)
  note i = indexed_update [OF assms Some, of v] and b = indexedD [OF assms Some]
  have "setState k v so = Some (so\<lparr>so_dirtyStorage := (so_dirtyStorage so)[j := (fst (so_dirtyStorage so ! j), v)], so_dirtyIndex := so_dirtyIndex so\<rparr>)"
    using Some b by (simp add: setState_def)
  then show thesis using i by (rule that) (use Some in auto)
qed

lemma slot_of_setState:
  "map_of ds = (map_of (so_dirtyStorage so))(k \<mapsto> v) \<Longrightarrow> slot_of kv (so\<lparr>so_dirtyStorage := ds, so_dirtyIndex := di\<rparr>) = (slot_of kv so)(k := v)"
  by (simp add: slot_of_def fun_eq_iff split: option.splits)

lemma setState_mono: "mono_change X kv (setState k v)"
  unfolding mono_change_def
proof (intro allI impI)
  fix kept a so u so'
  assume h: "obj_ok X kv kept a so \<and> obj_ok X kv kept a u \<and> obj_le X kv (Some so) (Some u) \<and> setState k v so = Some so' \<and> obj_ok X kv kept a so'"
  then have os: "obj_ok X kv kept a so" and ou: "obj_ok X kv kept a u" and os': "obj_ok X kv kept a so'"
    and v: "view X kv so = view X kv u" "dom (so_originIndex so) \<subseteq> dom (so_originIndex u)" by simp_all
  obtain ds di where d: "setState k v so = Some (so\<lparr>so_dirtyStorage := ds, so_dirtyIndex := di\<rparr>)" "indexed ds di"
    "map_of ds = (map_of (so_dirtyStorage so))(k \<mapsto> v)" "dom di = insert k (dom (so_dirtyIndex so))"
    by (rule setState_ok [of so k v]) (use os in \<open>simp add: obj_ok_def\<close>)
  obtain es ei where e: "setState k v u = Some (u\<lparr>so_dirtyStorage := es, so_dirtyIndex := ei\<rparr>)" "indexed es ei"
    "map_of es = (map_of (so_dirtyStorage u))(k \<mapsto> v)" "dom ei = insert k (dom (so_dirtyIndex u))"
    by (rule setState_ok [of u k v]) (use ou in \<open>simp add: obj_ok_def\<close>)
  let ?u = "u\<lparr>so_dirtyStorage := es, so_dirtyIndex := ei\<rparr>"
  have so': "so' = so\<lparr>so_dirtyStorage := ds, so_dirtyIndex := di\<rparr>" using h d(1) by simp
  have "k \<in> dom (so_originIndex so)" using os' d(4) by (auto simp: so' obj_ok_def)
  then have "obj_ok X kv kept a ?u" using ou v(2) e(2,4) by (auto simp: obj_ok_def)
  moreover have "fst (so_Code X kv (x\<lparr>so_dirtyStorage := ds', so_dirtyIndex := di'\<rparr>)) = fst (so_Code X kv x)" for x ds' di'
    by (rule so_Code_cong) simp_all
  then have "obj_le X kv (Some so') (Some ?u)" using v by (simp add: so' view_eq slot_of_setState [OF d(3)] slot_of_setState [OF e(3)])
  ultimately show "so_deleted so' = so_deleted so \<and> (\<exists>u'. setState k v u = Some u' \<and> obj_ok X kv kept a u'
      \<and> obj_le X kv (Some so') (Some u') \<and> so_deleted u' = so_deleted u)" using e(1) by (simp add: so')
qed

lemma le_writes:
  assumes "csdb_le X s u" and "writes a v s s'" and "writes a v u u'"
  shows "csdb_le X s' u'"
proof -
  note L = csdb_leD [OF assms(1)] and w = writesD [OF assms(2)] and z = writesD [OF assms(3)]
  have "obj_le X (s_kv s) (seen X s' b) (seen X u' b)" for b
    using L(4) [of b] by (cases v) (simp_all add: seen_writes [OF assms(2)] seen_writes [OF assms(3)] L(3))
  moreover have "s_kv s' = s_kv s" using rest_eqD [OF w(1)] by simp
  ultimately show ?thesis using L(1,2,3) w(1,2,3) z(1,2,3) by (simp add: csdb_le_def)
qed

lemma csdb_ok_erase: "writes a None s s' \<Longrightarrow> csdb_ok X s \<Longrightarrow> csdb_ok X s'"
proof -
  assume w: "writes a None s s'" and "csdb_ok X s"
  then show "csdb_ok X s'" using writesD [OF w] rest_eqD [OF writesD(1) [OF w]] by (auto simp: csdb_ok_def split: if_splits)
qed

definition undo1 :: "'b evm_ext \<Rightarrow> journal_entry \<Rightarrow> 'b csdb \<Rightarrow> 'b csdb option" where
  "undo1 X e s = do {
     s1 \<leftarrow> entry_revert X e s;
     j \<leftarrow> drop_dirty e (s_journal s1);
     Some (s1\<lparr>s_journal := j\<rparr>)
   }"

lemma undo_entries_Cons: "undo_entries X (e # es) s = undo1 X e s \<bind> undo_entries X es"
  by (auto simp: undo1_def split: bind_splits)

text \<open>A balance that is restored is never negative: the entries of the journal record balances of well-formed accounts.\<close>

fun entry_ok :: "journal_entry \<Rightarrow> bool" where
  "entry_ok (balanceChange a v) = (0 \<le> v)"
| "entry_ok (suicideChange a p v) = (0 \<le> v)"
| "entry_ok e = True"

definition undo_entry :: "'b evm_ext \<Rightarrow> journal_entry \<Rightarrow> 'b csdb \<Rightarrow> 'b csdb option" where
  "undo_entry X e s = (if entry_ok e then undo1 X e s else None)"

definition cached_params :: "'b csdb \<Rightarrow> 'b csdb" where
  "cached_params s = s\<lparr>s_params := Some (params_of s)\<rparr>"

lemma GetParams_simps [simp]: "evm_GetParams s = (params_of s, cached_params s)"
  by (simp add: evm_GetParams_def cached_params_def)

lemma cached_params_simps [simp]:
  "s_kv (cached_params s) = s_kv s" "s_bank (cached_params s) = s_bank s" "s_journal (cached_params s) = s_journal s"
  "s_objects (cached_params s) = s_objects s" "s_index (cached_params s) = s_index s" "s_revisions (cached_params s) = s_revisions s"
  "s_nextRevision (cached_params s) = s_nextRevision s" "params_of (cached_params s) = params_of s" "seen X (cached_params s) = seen X s"
  "rest (cached_params s) = rest s" "csdb_ok X (cached_params s) = csdb_ok X s"
  by (simp_all add: cached_params_def rest_def csdb_ok_def)

lemma cached_params_le [simp]: "csdb_le X (cached_params s) u = csdb_le X s u" "csdb_le X s (cached_params u) = csdb_le X s u"
  by (simp_all add: csdb_le_def)

lemma entry_revert_modify:
  "entry_revert X (nonceChange a n) s = modify X a (\<lambda>x. Some (setNonce n x)) s"
  "entry_revert X (codeChange a c h) s = modify X a (\<lambda>x. Some (setCode (BytesToHash h) c x)) s"
  "entry_revert X (storageChange a k v) s = modify X a (setState k v) s"
  "entry_revert X (balanceChange a b) s = modify X a (\<lambda>x. setBalance X (ep_EvmDenom (params_of s)) b (id x)) (cached_params s)"
  by (simp_all add: modify_def)

lemma upd_obj_cached_params: "upd_obj a f (cached_params s) = map_option cached_params (upd_obj a f s)"
  by (cases "f (snd (s_objects s ! the (s_index s a)))") (auto simp: upd_obj_def cached_params_def split: option.splits)

text \<open>Undoing a suicide restores mark and balance of the object if there is one.\<close>

lemma revert_suicide:
  assumes "evm_laws X" and "csdb_ok X s" and "entry_revert X (suicideChange a p v) s \<noteq> None \<or> seen X s a \<noteq> None"
  shows "entry_revert X (suicideChange a p v) s =
     (case seen X s a of
        None \<Rightarrow> map_option snd (getStateObject X a s)
      | Some _ \<Rightarrow> map_option cached_params (modify X a (\<lambda>x. setBalance X (ep_EvmDenom (params_of s)) v (x\<lparr>so_suicided := p\<rparr>)) s))"
proof -
  obtain x s1 where g: "getStateObject X a s = Some (x, s1)"
    using assms(3) getStateObject_seen [OF assms(1,2), of a] by (cases "getStateObject X a s") auto
  note k = getStateObject_ok [OF assms(1,2) g]
  have "params_of s1 = params_of s" using rest_eqD [OF k(10)] by simp
  moreover have "getStateObject X a s = Some (seen X s a, s1)" using g k(1) by simp
  ultimately show ?thesis by (cases "seen X s a") (auto simp: modify_def upd_obj_cached_params)
qed

text \<open>The undo of an entry apart from the dirty marks.\<close>

lemma revert_mono:
  assumes X: "evm_laws X" and le: "csdb_le X s u" and ok: "csdb_ok X s" "csdb_ok X u" and e: "entry_ok e"
    and r: "entry_revert X e s = Some s'" "csdb_ok X s'"
  shows "\<exists>u'. entry_revert X e u = Some u' \<and> csdb_ok X u' \<and> csdb_le X s' u' \<and> s_journal s' = s_journal s \<and> s_journal u' = s_journal u"
proof -
  note L = csdb_leD [OF le] and ix = csdb_okD(1) [OF ok(1)] csdb_okD(1) [OF ok(2)]
  have exact: ?thesis if "s' = g s" "entry_revert X e u = Some (g u)" "csdb_ok X (g u) = csdb_ok X u" "rest (g s) = rest (g u)"
    "s_journal (g s) = s_journal s" "s_journal (g u) = s_journal u" "s_bank (g s) = s_bank s" "s_bank (g u) = s_bank u"
    "seen X (g s) = seen X s" "seen X (g u) = seen X u" "s_kv (g s) = s_kv s" for g
    using that L ok by (auto simp: csdb_le_def)
  have mod: ?thesis if "mono_change X (s_kv t) f" "t = s \<and> w = u \<or> t = cached_params s \<and> w = cached_params u"
    "entry_revert X e s = modify X a f t" "entry_revert X e u = modify X a f w" for t w a f
  proof -
    note h = that
    have m: "csdb_le X t w" "csdb_ok X t" "csdb_ok X w" "s_journal t = s_journal s" "s_journal w = s_journal u"
      using that(2) le ok by auto
    have "modify X a f t = Some s'" using that(3) r(1) by simp
    then obtain u' where "modify X a f w = Some u'" "csdb_ok X u'" "csdb_le X s' u'" "s_journal s' = s_journal t" "s_journal u' = s_journal w"
      using modify_mono [OF X m(1-3) _ r(2) h(1)] by metis
    with m h(4) show ?thesis by simp
  qed
  show ?thesis
  proof (cases e)
    case (createObjectChange a)
    obtain xs m where x: "remove_indexed a (s_objects s) (s_index s) = (xs, m)" by force
    obtain ys n where y: "remove_indexed a (s_objects u) (s_index u) = (ys, n)" by force
    let ?s = "s\<lparr>s_dirty := s_dirty s - {a}, s_objects := xs, s_index := m\<rparr>" and ?u = "u\<lparr>s_dirty := s_dirty u - {a}, s_objects := ys, s_index := n\<rparr>"
    have "writes a None s ?s" "writes a None u ?u"
      using remove_indexed_ok [OF ix(1) x] remove_indexed_ok [OF ix(2) y] by (simp_all add: writes_def rest_def)
    then have "csdb_le X ?s ?u" "csdb_ok X ?u" using le_writes [OF le] csdb_ok_erase [OF _ ok(2)] by blast+
    then show ?thesis using r createObjectChange x y by auto
  next
    case (resetObjectChange prev)
    obtain t where t: "setStateObject prev s = Some t" "writes (so_address prev) (Some prev) s t" by (rule setStateObject_writes [OF ix(1)])
    obtain v where v: "setStateObject prev u = Some v" "writes (so_address prev) (Some prev) u v" by (rule setStateObject_writes [OF ix(2)])
    have "s' = t" using t(1) r resetObjectChange by simp
    then have "obj_ok X (s_kv s) (ak_get X (s_bank s) (so_address prev)) (so_address prev) prev"
      using csdb_okD(2) [OF r(2), of "so_address prev" prev] writesD(2,7) [OF t(2)] rest_eqD [OF writesD(1) [OF t(2)]] by simp
    then have "csdb_ok X v" using csdb_ok_writes [OF v(2) ok(2)] L(3,5) by simp
    with le_writes [OF le t(2) v(2)] v(1) \<open>s' = t\<close> resetObjectChange writesD(3) [OF t(2)] writesD(3) [OF v(2)] show ?thesis by auto
  next
    case (suicideChange a prev v)
    let ?f = "\<lambda>x. setBalance X (ep_EvmDenom (params_of s)) v (x\<lparr>so_suicided := prev\<rparr>)"
    have mf: "mono_change X (s_kv s) ?f" using setBalance_mono [OF X, of v "\<lambda>x. x\<lparr>so_suicided := prev\<rparr>" prev] e suicideChange by simp
    note rs = revert_suicide [OF X ok(1), of a prev v] and ru = revert_suicide [OF X ok(2), of a prev v]
    show ?thesis
    proof (cases "seen X s a")
      case None
      then have "map_option snd (getStateObject X a s) = Some s'" using r(1) rs suicideChange by simp
      then obtain x where x: "getStateObject X a s = Some (x, s')" by (cases "getStateObject X a s") auto
      note k = getStateObject_ok [OF X ok(1) x]
      have "seen X u a = None" using L(4) [of a] None by (cases "seen X u a") auto
      moreover have "ak_get X (s_bank u) a = None" using k(1,11) None L(3) by simp
      ultimately obtain u' where u': "getStateObject X a u = Some (None, u')" using getStateObject_seen [OF X ok(2), of a] by auto
      note h = getStateObject_ok [OF X ok(2) u']
      have "csdb_le X s' u'" using L k(5,9,10,12) h(5,9,10,12) rest_eqD [OF k(10)] by (auto simp: csdb_le_def)
      then show ?thesis using u' h(2,5) k(5) suicideChange by simp
    next
      case (Some so)
      then have "map_option cached_params (modify X a ?f s) = Some s'" using r(1) rs suicideChange by simp
      then obtain t where t: "modify X a ?f s = Some t" "s' = cached_params t" by auto
      then have "csdb_ok X t" using r(2) by simp
      then obtain w where w: "modify X a ?f u = Some w" "csdb_ok X w" "csdb_le X t w" "s_journal t = s_journal s" "s_journal w = s_journal u"
        using modify_mono [OF X le ok t(1) _ mf] by metis
      obtain v' where "seen X u a = Some v'" using L(4) [of a] Some by (cases "seen X u a") auto
      then have "entry_revert X e u = Some (cached_params w)" using ru w(1) L(6) suicideChange by simp
      then show ?thesis using w t(2) by simp
    qed
  next
    case (refundChange p)
    then show ?thesis using r by (intro exact [of "\<lambda>t. t\<lparr>s_refund := p\<rparr>"]) (use L(1) in \<open>auto simp: rest_def csdb_ok_def\<close>)
  next
    case (touchChange a)
    then show ?thesis using r le ok by simp
  next
    case (addLogChange h)
    then show ?thesis using r L(1) by (intro exact [of "\<lambda>t. t\<lparr>s_logs := (if length (s_logs t) \<le> 1 then [] else butlast (s_logs t)), s_logSize := s_logSize t - 1\<rparr>"])
      (auto simp: rest_def csdb_ok_def DeleteLogs_def SetLogs_def Let_def)
  next
    case (addPreimageChange h)
    then show ?thesis using r L(1)
      by (intro exact [of "\<lambda>t. t\<lparr>s_preimages := fst (remove_indexed h (s_preimages t) (s_preimageIndex t)),
          s_preimageIndex := snd (remove_indexed h (s_preimages t) (s_preimageIndex t))\<rparr>"])
        (auto simp: rest_def csdb_ok_def split: prod.splits)
  next
    case (accessListAddAccountChange a)
    then show ?thesis using r L(1) ok
      by (intro exact [of "\<lambda>t. t\<lparr>s_access := DeleteAddress a (s_access t)\<rparr>"]) (auto simp: rest_def csdb_ok_def al_ok_def DeleteAddress_def)
  next
    case (accessListAddSlotChange a slot)
    then obtain al where "DeleteSlot a slot (s_access s) = Some al" using r by auto
    then show ?thesis using r L(1) ok accessListAddSlotChange
      by (intro exact [of "\<lambda>t. t\<lparr>s_access := al\<rparr>"]) (auto simp: rest_def csdb_ok_def)
  next
    case (balanceChange a b)
    have "mono_change X (s_kv (cached_params s)) (\<lambda>x. setBalance X (ep_EvmDenom (params_of s)) b (id x))"
      using setBalance_mono [OF X, of b id] e balanceChange by simp
    then show ?thesis by (rule mod [of _ _ "cached_params u" a]) (simp_all only: balanceChange entry_revert_modify L(6) simp_thms)
  next
    case (nonceChange a n)
    show ?thesis by (rule mod [OF setNonce_mono, of s u a n]) (simp_all only: nonceChange entry_revert_modify simp_thms)
  next
    case (storageChange a k v)
    show ?thesis by (rule mod [OF setState_mono, of s u a k v]) (simp_all only: storageChange entry_revert_modify simp_thms)
  next
    case (codeChange a c h)
    show ?thesis by (rule mod [OF setCode_mono, of s u a "BytesToHash h" c]) (simp_all only: codeChange entry_revert_modify simp_thms)
  qed
qed

definition same_log :: "'b csdb \<Rightarrow> 'b csdb \<Rightarrow> bool" where
  "same_log s t \<longleftrightarrow> s_journal t = s_journal s \<and> s_revisions t = s_revisions s \<and> s_nextRevision t = s_nextRevision s"

lemma same_log_trans: "same_log s t \<Longrightarrow> same_log t u \<Longrightarrow> same_log s u"
  by (simp add: same_log_def)

lemma log_frame:
  "setStateObject so s = Some t \<Longrightarrow> same_log s t" "upd_obj a f s = Some t \<Longrightarrow> same_log s t"
  "getStateObject X a s = Some (x, t) \<Longrightarrow> same_log s t"
  by (auto simp: same_log_def setStateObject_def upd_obj_def getStateObject_def set_error_def Let_def split: option.splits if_splits bind_splits)

lemma revert_log: "entry_revert X e s = Some t \<Longrightarrow> same_log s t"
  by (cases e) (auto simp: Let_def DeleteLogs_def SetLogs_def same_log_def [of s] dest!: log_frame simp: same_log_def split: option.splits bind_splits prod.splits if_splits)

lemma undo_entry_log:
  assumes "undo_entry X e s = Some t"
  shows "s_revisions t = s_revisions s" and "s_nextRevision t = s_nextRevision s" and "j_entries (s_journal t) = j_entries (s_journal s)"
  using assms by (auto simp: undo_entry_def undo1_def same_log_def dest!: revert_log drop_dirty_entries split: if_splits bind_splits)

lemma undo_entry_mono:
  assumes X: "evm_laws X" and le: "csdb_le X s u" and ok: "csdb_ok X s" "csdb_ok X u" and r: "undo_entry X e s = Some s'" "csdb_ok X s'"
  shows "\<exists>u'. undo_entry X e u = Some u' \<and> csdb_ok X u' \<and> csdb_le X s' u'"
proof -
  obtain t j where t: "entry_ok e" "entry_revert X e s = Some t" "drop_dirty e (s_journal t) = Some j" "s' = t\<lparr>s_journal := j\<rparr>"
    using r(1) by (auto simp: undo_entry_def undo1_def split: if_splits bind_splits)
  have jt: "s_journal t = s_journal s" using revert_log [OF t(2)] by (simp add: same_log_def)
  then have "csdb_ok X t" using r(2) ok(1) by (simp add: t(4) csdb_ok_def)
  then obtain v where v: "entry_revert X e u = Some v" "csdb_ok X v" "csdb_le X t v" "s_journal v = s_journal u"
    using revert_mono [OF X le ok t(1,2)] by blast
  obtain k where k: "drop_dirty e (s_journal v) = Some k" "same_marks j k"
    using drop_dirty_cong [OF csdb_leD(2) [OF v(3)] t(3)] by blast
  have "jok k" using r(2) jok_cong [OF k(2)] by (simp add: t(4) csdb_ok_def)
  then have "csdb_ok X (v\<lparr>s_journal := k\<rparr>)" "csdb_le X s' (v\<lparr>s_journal := k\<rparr>)"
    using v(2,3) k(2) by (auto simp: csdb_ok_def csdb_le_def t(4) rest_def)
  then show ?thesis using t(1) v(1) k(1) by (simp add: undo_entry_def undo1_def)
qed

interpretation evm_log: undo_log "undo_entry X" "\<lambda>s. evm_laws X \<and> csdb_ok X s" "csdb_le X" for X
  by unfold_locales (auto intro: csdb_le_trans dest: undo_entry_mono)

abbreviation undoes :: "'b evm_ext \<Rightarrow> journal_entry list \<Rightarrow> 'b csdb \<Rightarrow> 'b csdb \<Rightarrow> bool" where
  "undoes X \<equiv> undo_chain (undo_entry X) (\<lambda>s. evm_laws X \<and> csdb_ok X s) (csdb_le X)"

lemma undoes_entries: "undoes X es s s\<^sub>0 \<Longrightarrow> csdb_ok X s \<Longrightarrow> \<exists>t. undo_entries X es s = Some t \<and> csdb_ok X t \<and> csdb_le X s\<^sub>0 t
     \<and> s_revisions t = s_revisions s \<and> s_nextRevision t = s_nextRevision s \<and> j_entries (s_journal t) = j_entries (s_journal s)"
proof (induction es arbitrary: s)
  case (Cons e es)
  then obtain s1 where s1: "undo_entry X e s = Some s1" "csdb_ok X s1" "undoes X es s1 s\<^sub>0" by auto
  then have "undo1 X e s = Some s1" by (simp add: undo_entry_def split: if_splits)
  with Cons.IH [OF s1(3,2)] undo_entry_log [OF s1(1)] show ?case unfolding undo_entries_Cons by auto
qed simp

end
