(* ===== verification/EvmSteps.thy ===== *)
theory EvmSteps
  imports EvmRevert
begin

text \<open>
  Steps of the EVM state: a step keeps the state well-formed, appends entries to the journal, and undoing
  them shows again what was seen before. Here for the operations on state objects.
\<close>

subsection \<open>Steps\<close>

definition stepped :: "'b evm_ext \<Rightarrow> 'b csdb \<Rightarrow> 'b csdb \<Rightarrow> bool" where
  "stepped X s t \<longleftrightarrow> csdb_ok X t \<and> s_revisions t = s_revisions s \<and> s_nextRevision t = s_nextRevision s
     \<and> (\<exists>new. j_entries (s_journal t) = j_entries (s_journal s) @ new \<and> undoes X (rev new) t s)"

lemma stepped_ok: "stepped X s t \<Longrightarrow> csdb_ok X t"
  by (simp add: stepped_def)

lemma stepped_silent: "csdb_ok X t \<Longrightarrow> csdb_le X s t \<Longrightarrow> same_log s t \<Longrightarrow> stepped X s t"
  by (simp add: stepped_def same_log_def)

lemma stepped_refl: "csdb_ok X s \<Longrightarrow> stepped X s s"
  by (simp add: stepped_silent same_log_def)

lemma stepped_trans:
  assumes "evm_laws X" and "stepped X s t" and "stepped X t u"
  shows "stepped X s u"
proof -
  obtain n m where n: "j_entries (s_journal t) = j_entries (s_journal s) @ n" "undoes X (rev n) t s"
    and m: "j_entries (s_journal u) = j_entries (s_journal t) @ m" "undoes X (rev m) u t" using assms(2,3) by (auto simp: stepped_def)
  have "undoes X (rev m @ rev n) u s"
    by (rule evm_log.chain_append [OF m(2) n(2)]) (use assms in \<open>auto dest: stepped_ok\<close>)
  then have "undoes X (rev (n @ m)) u s" by simp
  with n(1) m(1) assms(2,3) show ?thesis by (auto simp: stepped_def)
qed

lemma csdb_append_ok:
  assumes "csdb_ok X s"
  obtains j where "csdb_append e s = Some (s\<lparr>s_journal := j\<rparr>)" and "jok j" and "j_entries j = j_entries (s_journal s) @ [e]"
    and "\<And>k. same_marks j k \<Longrightarrow> \<exists>k'. drop_dirty e k = Some k' \<and> same_marks (s_journal s) k'"
proof (rule journal_append_ok [OF csdb_okD(4) [OF assms], of e])
  fix j assume j: "journal_append e (s_journal s) = Some j" "jok j" "j_entries j = j_entries (s_journal s) @ [e]"
    "\<And>k. same_marks j k \<Longrightarrow> \<exists>k'. drop_dirty e k = Some k' \<and> same_marks (s_journal s) k'"
  have "csdb_append e s = Some (s\<lparr>s_journal := j\<rparr>)" using j(1) by (simp add: csdb_append_def)
  from that [OF this j(2-4)] show thesis .
qed

text \<open>An entry whose undo gives back the state before the entry was appended.\<close>

lemma stepped_entry:
  assumes X: "evm_laws X" and ok: "csdb_ok X s" and e: "entry_ok e" and a: "csdb_append e s = Some s1"
    and t: "csdb_ok X t" "s_journal t = s_journal s1" "s_revisions t = s_revisions s" "s_nextRevision t = s_nextRevision s"
    and r: "entry_revert X e t = Some r" "csdb_ok X (r\<lparr>s_journal := s_journal s\<rparr>)" "csdb_le X s (r\<lparr>s_journal := s_journal s\<rparr>)"
  shows "stepped X s t"
proof -
  obtain j where j: "s1 = s\<lparr>s_journal := j\<rparr>" "j_entries j = j_entries (s_journal s) @ [e]"
    "\<And>k. same_marks j k \<Longrightarrow> \<exists>k'. drop_dirty e k = Some k' \<and> same_marks (s_journal s) k'"
    by (rule csdb_append_ok [OF ok, of e]) (use a in auto)
  have "s_journal r = j" using revert_log [OF r(1)] t(2) j(1) by (simp add: same_log_def)
  then obtain k where k: "drop_dirty e (s_journal r) = Some k" "same_marks (s_journal s) k" using j(3) [of j] by auto
  have "undo_entry X e t = Some (r\<lparr>s_journal := k\<rparr>)" using e r(1) k(1) by (simp add: undo_entry_def undo1_def)
  moreover have "csdb_ok X (r\<lparr>s_journal := k\<rparr>)" using r(2) jok_cong [OF k(2)] by (auto simp: csdb_ok_def)
  moreover have "csdb_le X s (r\<lparr>s_journal := k\<rparr>)" using r(3) k(2) by (auto simp: csdb_le_def rest_def)
  ultimately have "undoes X (rev [e]) t s" using X by auto
  then show ?thesis using t j(1,2) unfolding stepped_def by (intro conjI exI [of _ "[e]"]) auto
qed

text \<open>Replacing one object: undo has to bring back an object that shows the same.\<close>

definition shown :: "'b evm_ext \<Rightarrow> account option \<Rightarrow> state_object option \<Rightarrow> state_object option" where
  "shown X kept v = (case v of Some so \<Rightarrow> if so_deleted so then None else Some so | None \<Rightarrow> Option.bind kept (newStateObject X))"

lemma step_write:
  assumes X: "evm_laws X" and ok: "csdb_ok X s" and e: "entry_ok e" and b: "ak_get X b = ak_get X (s_bank s)"
    and a: "csdb_append e (s\<lparr>s_bank := b\<rparr>) = Some s1" and t: "writes a (Some n) s1 t" "obj_ok X (s_kv s) (ak_get X b a) a n"
    and r: "entry_revert X e t = Some r" "writes a v t r" "obj_le X (s_kv s) (seen X s a) (shown X (ak_get X b a) v)"
    and v: "\<And>so. v = Some so \<Longrightarrow> obj_ok X (s_kv s) (ak_get X b a) a so"
  shows "stepped X s t"
proof -
  have ok': "csdb_ok X (s\<lparr>s_bank := b\<rparr>)" using ok b by (simp add: csdb_ok_def)
  obtain j where j: "s1 = s\<lparr>s_bank := b, s_journal := j\<rparr>" "jok j"
    by (rule csdb_append_ok [OF ok', of e]) (use a in auto)
  have ok1: "csdb_ok X s1" using ok j b by (simp add: csdb_ok_def)
  note w = writesD [OF t(1)] and z = writesD [OF r(2)]
  have rt: "rest t = rest s" "rest r = rest s" using w(1) z(1) j by (simp_all add: rest_def)
  have okt: "csdb_ok X t" using csdb_ok_writes [OF t(1) ok1] t(2) by (simp add: j)
  have sr: "seen X r = (seen X s)(a := shown X (ak_get X b a) v)"
  proof -
    have "seen X s1 = seen X s" using b by (simp add: j(1) seen_def fun_eq_iff split: option.splits)
    then show ?thesis using seen_writes [OF r(2), of X] seen_writes [OF t(1), of X] w(2) by (cases v) (simp_all add: j(1) shown_def fun_eq_iff)
  qed
  have kv: "s_kv r = s_kv s" "s_access r = s_access s" using rest_eqD [OF rt(2)] by simp_all
  have bank: "s_bank r = b" using z(2) w(2) j by simp
  have okr: "csdb_ok X (r\<lparr>s_journal := s_journal s\<rparr>)"
    using z(6,7) w(7) v ok b by (auto simp: csdb_ok_def kv bank j split: if_splits)
  have le: "csdb_le X s (r\<lparr>s_journal := s_journal s\<rparr>)"
    using rt(2) b r(3) by (auto simp: csdb_le_def bank sr rest_def)
  have st: "stepped X (s\<lparr>s_bank := b\<rparr>) t"
  proof (rule stepped_entry [OF X ok' e a okt _ _ _ r(1)])
    show "csdb_ok X (r\<lparr>s_journal := s_journal (s\<lparr>s_bank := b\<rparr>)\<rparr>)" using okr by simp
    have "seen X (s\<lparr>s_bank := b\<rparr>) = seen X s" using b by (simp add: seen_def fun_eq_iff split: option.splits)
    then show "csdb_le X (s\<lparr>s_bank := b\<rparr>) (r\<lparr>s_journal := s_journal (s\<lparr>s_bank := b\<rparr>)\<rparr>)" using le b by (auto simp: csdb_le_def rest_def)
  qed (use w(3-5) in \<open>simp_all add: j\<close>)
  have "csdb_le X s (s\<lparr>s_bank := b\<rparr>)" using b by (simp add: csdb_le_def rest_def seen_def split: option.splits)
  with ok' have "stepped X s (s\<lparr>s_bank := b\<rparr>)" by (intro stepped_silent) (simp_all add: same_log_def)
  from stepped_trans [OF X this st] show ?thesis .
qed

lemma modify_at:
  assumes "csdb_ok X t" and "objs t a = Some so" and "\<not> so_deleted so" and "g so = Some so'" and "so_address so = a"
  shows "\<exists>r. modify X a g t = Some r \<and> writes a (Some so') t r"
proof -
  note ix = csdb_okD(1) [OF assms(1)]
  obtain i where i: "s_index t a = Some i" using indexed_none [OF ix, of a] assms(2) by (cases "s_index t a") auto
  have "getStateObject X a t = Some (Some so, t)"
    using i indexedD [OF ix i] indexed_nth [OF ix i] assms(2,3) by (simp add: getStateObject_def Let_def)
  moreover obtain r where "upd_obj a g t = Some r" "writes a (Some so') t r" by (rule upd_obj_writes [of t a so g, OF ix assms(2,4)])
  ultimately show ?thesis using assms(5) by (simp add: modify_def)
qed

text \<open>Changing the object of an address under an entry that changes it back.\<close>

lemma step_object:
  assumes X: "evm_laws X" and ok: "csdb_ok X s" and e: "entry_ok e" and o: "objs s a = Some so" "\<not> so_deleted so"
    and a: "csdb_append e s = Some s1" and u: "upd_obj a f s1 = Some t"
    and f: "f so = Some n" "obj_ok X (s_kv s) (ak_get X (s_bank s) a) a n" "\<not> so_deleted n"
    and r: "\<And>x. csdb_ok X x \<Longrightarrow> objs x a = Some n \<Longrightarrow> params_of x = params_of s \<Longrightarrow> \<exists>y. entry_revert X e x = Some y \<and> writes a (Some m) x y"
    and m: "obj_ok X (s_kv s) (ak_get X (s_bank s) a) a m" "\<not> so_deleted m" "obj_le X (s_kv s) (Some so) (Some m)"
  shows "stepped X s t"
proof -
  obtain j where j: "s1 = s\<lparr>s_journal := j\<rparr>" "jok j" by (rule csdb_append_ok [OF ok, of e]) (use a in auto)
  have ok1: "csdb_ok X s1" using ok j by (simp add: csdb_ok_def)
  obtain x y where "objs s1 a = Some x" "f x = Some y" "writes a (Some y) s1 t" by (rule upd_obj_Some [OF csdb_okD(1) [OF ok1] u])
  then have w: "writes a (Some n) s1 t" using o(1) f(1) j(1) by simp
  have "csdb_ok X t" using csdb_ok_writes [OF w ok1] f(2) by (simp add: j)
  moreover have "objs t a = Some n" using writesD(7) [OF w] by simp
  moreover have "params_of t = params_of s" using rest_eqD [OF writesD(1) [OF w]] by (simp add: j(1))
  ultimately obtain y where y: "entry_revert X e t = Some y" "writes a (Some m) t y" using r [of t] by blast
  have "seen X s a = Some so" using o by (simp add: seen_def)
  then show ?thesis
    by (intro step_write [OF X ok e refl _ w f(2) y]) (use a m in \<open>auto simp: shown_def\<close>)
qed

text \<open>Changing what is compared exactly, under an entry that restores it.\<close>

lemma step_exact:
  assumes X: "evm_laws X" and ok: "csdb_ok X s" and e: "entry_ok e" and a: "csdb_append e s = Some s1"
    and t: "csdb_ok X t" "same_log s1 t" and r: "entry_revert X e t = Some s1"
  shows "stepped X s t"
proof -
  obtain j where j: "s1 = s\<lparr>s_journal := j\<rparr>" by (rule csdb_append_ok [OF ok, of e]) (use a in auto)
  have "s1\<lparr>s_journal := s_journal s\<rparr> = s" by (simp add: j)
  then show ?thesis using t(2) ok by (intro stepped_entry [OF X ok e a t(1) _ _ _ r]) (simp_all add: same_log_def j)
qed

subsection \<open>Operations on objects\<close>

lemma live_object:
  assumes "csdb_ok X s" and "objs s a = Some so"
  shows "obj_ok X (s_kv s) (ak_get X (s_bank s) a) a so" and "so_address so = a" and "obj_at a s = Some so"
  using csdb_okD [OF assms(1)] assms(2) by (auto simp: obj_at_objs obj_ok_def)

lemma writes_cached: "writes a v (cached_params t) r \<Longrightarrow> writes a v t r" "writes a v t r \<Longrightarrow> writes a v t (cached_params r)"
  by (simp_all add: writes_def)

lemma BytesToHash_id: "length h = 32 \<Longrightarrow> BytesToHash h = h"
  by (simp add: BytesToHash_def)

lemma SetNonce_step:
  assumes X: "evm_laws X" and ok: "csdb_ok X s" and o: "objs s a = Some so" "\<not> so_deleted so" and t: "so_SetNonce a n s = Some t"
  shows "stepped X s t"
proof -
  note so = live_object [OF ok o(1)]
  obtain s1 where s1: "csdb_append (nonceChange a (ac_Sequence (so_account so))) s = Some s1" "upd_obj a (\<lambda>x. Some (setNonce n x)) s1 = Some t"
    using t so by (auto simp: so_SetNonce_def split: bind_splits)
  let ?n = "setNonce n so" and ?m = "setNonce (ac_Sequence (so_account so)) (setNonce n so)"
  have "?m = so" by (simp add: setNonce_def)
  show ?thesis
  proof (rule step_object [OF X ok _ o s1, where n = ?n and m = ?m])
    fix x assume x: "csdb_ok X x" "objs x a = Some ?n"
    show "\<exists>y. entry_revert X (nonceChange a (ac_Sequence (so_account so))) x = Some y \<and> writes a (Some ?m) x y"
      unfolding entry_revert_modify by (rule modify_at [OF x]) (use o so in \<open>simp_all add: setNonce_def\<close>)
  qed (use so o(2) \<open>?m = so\<close> in \<open>auto simp: setNonce_def obj_ok_def acc_ok_def\<close>)
qed

lemma obj_ok_account:
  "obj_ok X kv kept a so \<Longrightarrow> acc_ok a acc \<Longrightarrow> ac_CodeHash acc = ac_CodeHash (so_account so) \<Longrightarrow> obj_ok X kv kept a (so\<lparr>so_account := acc\<rparr>)"
  "obj_ok X kv kept a so \<Longrightarrow> obj_ok X kv kept a (so\<lparr>so_suicided := b\<rparr>)"
  by (simp_all add: obj_ok_def)

text \<open>Setting a balance can only succeed with an amount that is not negative.\<close>

lemma acc_SetBalance_nonneg:
  assumes "evm_laws X" and "acc_ok a acc" and "acc_SetBalance X d v acc \<noteq> None"
  shows "0 \<le> v"
proof (rule ccontr)
  assume "\<not> 0 \<le> v"
  note L = evm_lawsD(1) [OF assms(1)]
  have c: "coins_ok (ac_Coins acc)" "0 \<le> amt (ac_Coins acc) d" using assms(2) by (simp_all add: acc_ok_def)
  let ?m = "[(d, amt (ac_Coins acc) d - v)]"
  have "snd (c_safe_sub (x_sdk X) (ac_Coins acc) ?m)"
    unfolding coins_safe_sub(3) [OF L c(1) coins_ok_single(1)] using \<open>\<not> 0 \<le> v\<close> by (intro exI [of _ d]) simp
  then have "coins_sub (x_sdk X) (ac_Coins acc) ?m = None" by (simp add: coins_sub_def case_prod_unfold)
  with \<open>\<not> 0 \<le> v\<close> c(2) assms(3) show False by (simp add: acc_SetBalance_def)
qed

lemma SetBalance_step:
  assumes X: "evm_laws X" and ok: "csdb_ok X s" and o: "objs s a = Some so" "\<not> so_deleted so" and t: "so_SetBalance X a v s = Some t"
  shows "stepped X s t"
proof -
  let ?d = "ep_EvmDenom (params_of s)" and ?old = "acc_Balance (ep_EvmDenom (params_of s)) (so_account so)"
  note so = live_object [OF ok o(1)]
  have okc: "csdb_ok X (cached_params s)" and oc: "objs (cached_params s) a = Some so" using ok o by simp_all
  note so' = live_object [OF okc oc]
  have acc: "acc_ok a (so_account so)" using so(1) by (simp add: obj_ok_def)
  obtain s1 where s1: "csdb_append (balanceChange a ?old) (cached_params s) = Some s1" "upd_obj a (setBalance X ?d v) s1 = Some t"
    using t so' by (auto simp: so_SetBalance_def split: bind_splits)
  obtain j where "s1 = (cached_params s)\<lparr>s_journal := j\<rparr>" "jok j" by (rule csdb_append_ok [OF okc, of "balanceChange a ?old"]) (use s1 in auto)
  then have ix1: "indexed (s_objects s1) (s_index s1)" "objs s1 a = Some so" using csdb_okD(1) [OF ok] o by auto
  obtain x n where "objs s1 a = Some x" "setBalance X ?d v x = Some n" by (rule upd_obj_Some [OF ix1(1) s1(2)])
  then have n: "setBalance X ?d v so = Some n" using ix1(2) by simp
  then have "0 \<le> v" using acc_SetBalance_nonneg [OF X acc, of ?d v] by (auto simp: setBalance_def)
  obtain acc1 where a1: "acc_SetBalance X ?d v (so_account so) = Some acc1" "acc_ok a acc1" "amt (ac_Coins acc1) = (amt (ac_Coins (so_account so)))(?d := v)"
    "ac_Sequence acc1 = ac_Sequence (so_account so)" "ac_CodeHash acc1 = ac_CodeHash (so_account so)"
    by (rule acc_SetBalance_ok [OF X acc \<open>0 \<le> v\<close>, of ?d])
  have old: "0 \<le> ?old" using acc by (simp add: acc_ok_def acc_Balance_def)
  obtain acc2 where a2: "acc_SetBalance X ?d ?old acc1 = Some acc2" "acc_ok a acc2" "amt (ac_Coins acc2) = (amt (ac_Coins acc1))(?d := ?old)"
    "ac_Sequence acc2 = ac_Sequence acc1" "ac_CodeHash acc2 = ac_CodeHash acc1"
    by (rule acc_SetBalance_ok [OF X a1(2) old, of ?d])
  let ?n = "so\<lparr>so_account := acc1\<rparr>" and ?m = "so\<lparr>so_account := acc2\<rparr>"
  have "stepped X (cached_params s) t"
  proof (rule step_object [OF X okc _ oc o(2) s1, where n = ?n and m = ?m])
    fix x assume x: "csdb_ok X x" "objs x a = Some ?n" "params_of x = params_of (cached_params s)"
    have "\<exists>r. modify X a (\<lambda>x. setBalance X ?d ?old (id x)) (cached_params x) = Some r \<and> writes a (Some ?m) (cached_params x) r"
      by (rule modify_at [of X "cached_params x" a ?n]) (use x o so a2(1) in \<open>simp_all add: setBalance_def\<close>)
    then show "\<exists>y. entry_revert X (balanceChange a ?old) x = Some y \<and> writes a (Some ?m) x y"
      unfolding entry_revert_modify using x(3) writes_cached(1) by auto
  next
    have "amt (ac_Coins acc2) = amt (ac_Coins (so_account so))" using a1(3) a2(3) by (auto simp: acc_Balance_def)
    then show "obj_le X (s_kv (cached_params s)) (Some so) (Some ?m)" using a1(4,5) a2(4,5) by (simp add: view_eq)
  qed (use so(1) o(2) a1 a2 old in \<open>simp_all add: setBalance_def obj_ok_account\<close>)
  moreover have "stepped X s (cached_params s)" using ok by (intro stepped_silent) (simp_all add: same_log_def)
  ultimately show ?thesis using stepped_trans [OF X] by blast
qed

text \<open>Replacing an object by one that shows the same.\<close>

lemma silent_object:
  assumes X: "evm_laws X" and ok: "csdb_ok X s" and o: "objs s a = Some so" "\<not> so_deleted so"
    and n: "obj_ok X (s_kv s) (ak_get X (s_bank s) a) a n" "\<not> so_deleted n" "obj_le X (s_kv s) (Some so) (Some n)"
    and t: "upd_obj a (\<lambda>_. Some n) s = Some t"
  shows "stepped X s t" and "objs t a = Some n" and "s_kv t = s_kv s" and "s_bank t = s_bank s" and "csdb_le X s t" and "params_of t = params_of s"
proof -
  obtain x y where "objs s a = Some x" "Some n = Some y" "writes a (Some y) s t" by (rule upd_obj_Some [OF csdb_okD(1) [OF ok] t])
  then have w: "writes a (Some n) s t" by simp
  note w' = writesD [OF w]
  show "objs t a = Some n" "s_kv t = s_kv s" "s_bank t = s_bank s" "params_of t = params_of s" using w' rest_eqD [OF w'(1)] by simp_all
  have "csdb_ok X t" by (rule csdb_ok_writes [OF w ok n(1)])
  moreover have "seen X s a = Some so" using o by (simp add: seen_def)
  then show "csdb_le X s t" using w' n(2,3) by (simp add: csdb_le_def seen_writes [OF w])
  ultimately show "stepped X s t" using w' by (intro stepped_silent) (simp_all add: same_log_def)
qed

lemma GetCommittedState_ok:
  assumes "obj_ok X kv kept a so"
  obtains so1 where "so_GetCommittedState X kv key so = Some (stored kv a (GetStorageByAddressKey X key so), so1)" and "obj_ok X kv kept a so1"
    and "obj_le X kv (Some so) (Some so1)" and "GetStorageByAddressKey X key so \<in> dom (so_originIndex so1)"
    and "so_deleted so1 = so_deleted so" "so_dirtyIndex so1 = so_dirtyIndex so" "so_dirtyStorage so1 = so_dirtyStorage so" "so_address so1 = a"
proof (cases "so_originIndex so (GetStorageByAddressKey X key so)")
  case (Some i)
  then have "i < length (so_originStorage so)" "so_originStorage so ! i = (GetStorageByAddressKey X key so, stored kv a (GetStorageByAddressKey X key so))"
    using assms by (auto simp: obj_ok_def)
  with Some assms show thesis by (intro that [of so]) (auto simp: so_GetCommittedState_def Let_def obj_ok_def)
next
  case None
  let ?k = "GetStorageByAddressKey X key so"
  let ?so = "so\<lparr>so_originStorage := so_originStorage so @ [(?k, stored kv a ?k)], so_originIndex := (so_originIndex so)(?k \<mapsto> length (so_originStorage so))\<rparr>"
  have a: "so_address so = a" using assms by (simp add: obj_ok_def)
  have "so_GetCommittedState X kv key so = Some (stored kv a ?k, ?so)" using None by (simp add: so_GetCommittedState_def Let_def stored_def a)
  moreover have "obj_ok X kv kept a ?so" using assms by (auto simp: obj_ok_def nth_append less_Suc_eq)
  moreover have "fst (so_Code X kv ?so) = fst (so_Code X kv so)" by (rule so_Code_cong) simp_all
  ultimately show thesis using a by (intro that [of ?so]) (auto simp: view_eq)
qed

lemma GetState_ok:
  assumes ok: "obj_ok X kv kept a so"
  obtains so1 where "so_GetState X kv key so = Some (slot_of kv so (GetStorageByAddressKey X key so), so1)" and "obj_ok X kv kept a so1"
    and "obj_le X kv (Some so) (Some so1)" and "GetStorageByAddressKey X key so \<in> dom (so_originIndex so1)"
    and "so_deleted so1 = so_deleted so" "so_address so1 = a"
proof (cases "so_dirtyIndex so (GetStorageByAddressKey X key so)")
  case (Some i)
  have ix: "indexed (so_dirtyStorage so) (so_dirtyIndex so)" "so_address so = a" "dom (so_dirtyIndex so) \<subseteq> dom (so_originIndex so)"
    using ok by (simp_all add: obj_ok_def)
  note i = indexedD [OF ix(1) Some] indexed_nth [OF ix(1) Some]
  have "so_GetState X kv key so = Some (slot_of kv so (GetStorageByAddressKey X key so), so)" using Some i by (simp add: so_GetState_def slot_of_def)
  then show thesis using ok ix Some by (intro that [of so]) auto
next
  case None
  have ix: "indexed (so_dirtyStorage so) (so_dirtyIndex so)" "so_address so = a" using ok by (simp_all add: obj_ok_def)
  then have "map_of (so_dirtyStorage so) (GetStorageByAddressKey X key so) = None" using indexed_none [OF ix(1)] None by simp
  then have e: "so_GetState X kv key so = so_GetCommittedState X kv key so" "slot_of kv so (GetStorageByAddressKey X key so) = stored kv a (GetStorageByAddressKey X key so)"
    using None ix(2) by (simp_all add: so_GetState_def slot_of_def)
  show thesis by (rule GetCommittedState_ok [OF ok, of key]) (rule that; simp add: e)
qed

lemma SetState_step:
  assumes X: "evm_laws X" and ok: "csdb_ok X s" and o: "objs s a = Some so" "\<not> so_deleted so" and t: "so_SetState X a key value s = Some t"
  shows "stepped X s t"
proof -
  let ?k = "GetStorageByAddressKey X key so" and ?kv = "s_kv s" and ?kept = "ak_get X (s_bank s) a"
  note so = live_object [OF ok o(1)]
  obtain so1 where g: "so_GetState X ?kv key so = Some (slot_of ?kv so ?k, so1)" "obj_ok X ?kv ?kept a so1" "obj_le X ?kv (Some so) (Some so1)"
    "?k \<in> dom (so_originIndex so1)" "so_deleted so1 = so_deleted so" "so_address so1 = a" by (rule GetState_ok [OF so(1)])
  obtain s1 where s1: "upd_obj a (\<lambda>_. Some so1) s = Some s1" using t so g(1) by (auto simp: so_SetState_def split: bind_splits)
  have d1: "\<not> so_deleted so1" using g(5) o(2) by simp
  note q = silent_object [OF X ok o g(2) d1 g(3) s1]
  note ok1 = stepped_ok [OF q(1)]
  have k1: "GetStorageByAddressKey X key so1 = ?k" using g(6) so(2) by (simp add: GetStorageByAddressKey_def)
  show ?thesis
  proof (cases "slot_of ?kv so ?k = value")
    case True
    then have "t = s1" using t so g(1) s1 by (simp add: so_SetState_def)
    with q(1) show ?thesis by simp
  next
    case False
    let ?e = "storageChange a ?k (slot_of ?kv so ?k)"
    obtain s2 where s2: "csdb_append ?e s1 = Some s2" "upd_obj a (setState ?k value) s2 = Some t"
      using t so g(1,6) s1 k1 False by (auto simp: so_SetState_def Let_def split: bind_splits)
    have ix: "indexed (so_dirtyStorage so1) (so_dirtyIndex so1)" using g(2) by (simp add: obj_ok_def)
    obtain ds di where d: "setState ?k value so1 = Some (so1\<lparr>so_dirtyStorage := ds, so_dirtyIndex := di\<rparr>)" "indexed ds di"
      "map_of ds = (map_of (so_dirtyStorage so1))(?k \<mapsto> value)" "dom di = insert ?k (dom (so_dirtyIndex so1))" by (rule setState_ok [OF ix])
    let ?n = "so1\<lparr>so_dirtyStorage := ds, so_dirtyIndex := di\<rparr>"
    have on: "obj_ok X ?kv ?kept a ?n" using g(2,4) d(2,4) by (auto simp: obj_ok_def)
    obtain es ei where e: "setState ?k (slot_of ?kv so ?k) ?n = Some (?n\<lparr>so_dirtyStorage := es, so_dirtyIndex := ei\<rparr>)" "indexed es ei"
      "map_of es = (map_of (so_dirtyStorage ?n))(?k \<mapsto> slot_of ?kv so ?k)" "dom ei = insert ?k (dom (so_dirtyIndex ?n))"
      by (rule setState_ok [of ?n]) (use d(2) in simp)
    let ?m = "?n\<lparr>so_dirtyStorage := es, so_dirtyIndex := ei\<rparr>"
    have "stepped X s1 t"
    proof (rule step_object [OF X ok1 _ q(2) d1 s2 d(1), where m = ?m])
      fix x assume x: "csdb_ok X x" "objs x a = Some ?n"
      show "\<exists>y. entry_revert X ?e x = Some y \<and> writes a (Some ?m) x y"
        unfolding entry_revert_modify by (rule modify_at [OF x]) (use d1 g(6) e(1) in simp_all)
    next
      have "slot_of ?kv ?m = (slot_of ?kv so1)(?k := slot_of ?kv so ?k)"
        using slot_of_setState [OF e(3), of ?kv ei] slot_of_setState [OF d(3), of ?kv di] by simp
      also have "slot_of ?kv so1 = slot_of ?kv so" using g(3) by (simp add: view_eq)
      finally have "slot_of ?kv ?m = slot_of ?kv so1" using g(3) by (simp add: view_eq)
      moreover have "fst (so_Code X ?kv ?m) = fst (so_Code X ?kv so1)" by (rule so_Code_cong) simp_all
      ultimately show "obj_le X (s_kv s1) (Some so1) (Some ?m)" by (simp add: q(3) view_eq)
      show "obj_ok X (s_kv s1) (ak_get X (s_bank s1) a) a ?m" using on e(2,4) d(4) g(4) by (auto simp: q obj_ok_def)
    qed (use on d1 in \<open>simp_all add: q\<close>)
    with q(1) show ?thesis using stepped_trans [OF X] by blast
  qed
qed

lemma so_Code_silent:
  assumes "obj_ok X kv kept a so" and "so_Code X kv so = (c, so1)"
  shows "obj_ok X kv kept a so1" and "obj_le X kv (Some so) (Some so1)" and "so_deleted so1 = so_deleted so" and "so_account so1 = so_account so"
    and "so_address so1 = a" and "c = fst (so_Code X kv so1)" and "so_code so1 = so_code so"
proof -
  have e: "so1 = so \<or> (\<exists>er. so1 = so\<lparr>so_dbErr := er\<rparr>)" using assms(2) by (auto simp: so_Code_def so_setError_def Let_def split: if_splits)
  have c: "fst (so_Code X kv so1) = fst (so_Code X kv so)" by (rule so_Code_cong) (use e in auto)
  show "obj_ok X kv kept a so1" using e by (elim disjE exE) (use assms(1) in \<open>simp_all add: obj_ok_def\<close>)
  show "obj_le X kv (Some so) (Some so1)" using e c by (elim disjE exE) (simp_all add: view_eq)
  show "c = fst (so_Code X kv so1)" using c assms(2) by simp
  have "so_address so = a" using assms(1) by (simp add: obj_ok_def)
  then show "so_deleted so1 = so_deleted so" "so_account so1 = so_account so" "so_address so1 = a" "so_code so1 = so_code so" using e by auto
qed

lemma so_Code_again:
  assumes "so_CodeHash X m = so_CodeHash X so" and "so_code m = fst (so_Code X kv so)"
  shows "fst (so_Code X kv m) = fst (so_Code X kv so)"
proof (cases "so_code so \<noteq> None \<and> so_code so \<noteq> Some []")
  case True
  then have "fst (so_Code X kv so) = so_code so" by (simp add: so_Code_def)
  with True assms(2) show ?thesis by (simp add: so_Code_def)
next
  case False
  then have "fst (so_Code X kv so) = (if so_CodeHash X so = emptyCodeHash X then None else kv_code kv (so_CodeHash X so))"
    by (auto simp: so_Code_def Let_def)
  with assms show ?thesis by (auto simp: so_Code_def [of X kv m] Let_def)
qed

lemma SetCode_step:
  assumes X: "evm_laws X" and ok: "csdb_ok X s" and o: "objs s a = Some so" "\<not> so_deleted so"
    and t: "so_SetCode X a h c s = Some t" and h: "length h = 32"
  shows "stepped X s t"
proof -
  let ?kv = "s_kv s" and ?kept = "ak_get X (s_bank s) a"
  note so = live_object [OF ok o(1)]
  obtain pc so1 where g: "so_Code X ?kv so = (pc, so1)" by force
  note k = so_Code_silent [OF so(1) g]
  obtain s1 where s1: "upd_obj a (\<lambda>_. Some so1) s = Some s1" using t so g by (auto simp: so_SetCode_def split: bind_splits)
  have d1: "\<not> so_deleted so1" using k(3) o(2) by simp
  note q = silent_object [OF X ok o k(1) d1 k(2) s1]
  let ?e = "codeChange a pc (so_CodeHash X so1)" and ?n = "setCode h c so1"
  obtain s2 where s2: "csdb_append ?e s1 = Some s2" "upd_obj a (\<lambda>x. Some (setCode h c x)) s2 = Some t"
    using t so g s1 k(5) by (auto simp: so_SetCode_def split: bind_splits)
  have len: "length (ac_CodeHash (so_account so1)) = 32" using k(1) by (simp add: obj_ok_def)
  then have hash: "BytesToHash (so_CodeHash X so1) = ac_CodeHash (so_account so1)" by (auto simp: so_CodeHash_def BytesToHash_id)
  let ?m = "setCode (BytesToHash (so_CodeHash X so1)) pc ?n"
  have "stepped X s1 t"
  proof (rule step_object [OF X stepped_ok [OF q(1)] _ q(2) d1 s2, where n = ?n and m = ?m])
    fix x assume x: "csdb_ok X x" "objs x a = Some ?n"
    show "\<exists>y. entry_revert X ?e x = Some y \<and> writes a (Some ?m) x y"
      unfolding entry_revert_modify by (rule modify_at [OF x]) (use d1 k(5) in \<open>simp_all add: setCode_def\<close>)
  next
    have "ac_CodeHash (so_account so1) \<noteq> []" using len by auto
    then have "so_CodeHash X ?m = so_CodeHash X so1" using BytesToHash_id [OF len] by (simp add: so_CodeHash_def setCode_def)
    then have "fst (so_Code X ?kv ?m) = fst (so_Code X ?kv so1)"
      by (rule so_Code_again) (simp add: setCode_def k(6))
    then show "obj_le X (s_kv s1) (Some so1) (Some ?m)" by (simp add: q(3) view_eq setCode_def hash)
    show "obj_ok X (s_kv s1) (ak_get X (s_bank s1) a) a ?m" using k(1) by (simp add: q setCode_def hash obj_ok_def acc_ok_def)
  qed (use k(1) d1 h in \<open>simp_all add: q setCode_def obj_ok_def acc_ok_def\<close>)
  with q(1) show ?thesis using stepped_trans [OF X] by blast
qed

end
