(* ===== verification/EvmDbSteps.thy ===== *)
theory EvmDbSteps
  imports EvmSteps
begin

text \<open>
  Every operation of the EVM database is a step: it appends journal entries whose undo restores what was seen before it.
\<close>

subsection \<open>Operations of the database\<close>

lemma get_step:
  assumes "evm_laws X" and "csdb_ok X s" and "getStateObject X a s = Some (x, t)"
  shows "stepped X s t"
  using getStateObject_ok [OF assms] by (intro stepped_silent) (simp_all add: same_log_def)

lemma params_step: "csdb_ok X s \<Longrightarrow> stepped X s (cached_params s)"
  by (intro stepped_silent) (simp_all add: same_log_def)

lemma create_step:
  assumes X: "evm_laws X" and ok: "csdb_ok X s" and g: "getStateObject X a s = Some (prev, s1)"
    and e: "csdb_append (case prev of None \<Rightarrow> createObjectChange a | Some p \<Rightarrow> resetObjectChange p) (s1\<lparr>s_bank := b\<rparr>) = Some s2"
    and b: "ak_get X b = ak_get X (s_bank s)" and w: "writes a (Some n) s2 t" "obj_ok X (s_kv s) (ak_get X (s_bank s) a) a n"
  shows "stepped X s t"
proof -
  note k = getStateObject_ok [OF X ok g]
  have kv: "s_kv s1 = s_kv s" using rest_eqD [OF k(10)] by simp
  have b1: "ak_get X b = ak_get X (s_bank s1)" using b k(9) by simp
  have n1: "obj_ok X (s_kv s1) (ak_get X b a) a n" using w(2) b kv by simp
  have ix: "indexed (s_objects t) (s_index t)" by (rule writesD(6) [OF w(1)])
  have s1: "seen X s1 a = prev" using k(1,12) by simp
  have "stepped X s1 t"
  proof (cases prev)
    case None
    obtain ys m where r: "remove_indexed a (s_objects t) (s_index t) = (ys, m)" by force
    let ?r = "t\<lparr>s_dirty := s_dirty t - {a}, s_objects := ys, s_index := m\<rparr>"
    have "writes a None t ?r" using remove_indexed_ok [OF ix r] by (simp add: writes_def rest_def)
    then show ?thesis
      by (rule step_write [OF X k(2) _ b1 e w(1) n1, rotated 2]) (use None r s1 b k(11) in \<open>simp_all add: shown_def\<close>)
  next
    case (Some p)
    then have p: "objs s1 a = Some p" "\<not> so_deleted p" using k(4) s1 seen_not_deleted [of X s1 a p] by auto
    note lo = live_object [OF k(2) p(1)]
    obtain r where r: "setStateObject p t = Some r" "writes (so_address p) (Some p) t r" by (rule setStateObject_writes [OF ix])
    have "writes a (Some p) t r" using r(2) lo(2) by simp
    then show ?thesis
      by (rule step_write [OF X k(2) _ b1 e w(1) n1, rotated 2]) (use Some r s1 b1 lo p in \<open>simp_all add: shown_def\<close>)
  qed
  with get_step [OF X ok g] show ?thesis using stepped_trans [OF X] by blast
qed

lemma createObject_parts:
  assumes X: "evm_laws X" and ok: "csdb_ok X s" and c: "createObject X a s = Some (n, prev, t)"
  obtains s1 b s2 where "getStateObject X a s = Some (prev, s1)" and "ak_get X b = ak_get X (s_bank s)"
    and "csdb_append (case prev of None \<Rightarrow> createObjectChange a | Some p \<Rightarrow> resetObjectChange p) (s1\<lparr>s_bank := b\<rparr>) = Some s2"
    and "writes a (Some n) s2 t" and "obj_ok X (s_kv s) (ak_get X (s_bank s) a) a n" and "\<not> so_deleted n"
    and "prev = seen X s a"
proof -
  obtain s1 where g: "getStateObject X a s = Some (prev, s1)" using c by (auto simp: createObject_def Let_def split: bind_splits prod.splits)
  note k = getStateObject_ok [OF X ok g]
  obtain acc b where ab: "ak_new X a (s_bank s1) = (acc, b)" by force
  obtain n0 s2 where n0: "newStateObject X (EthAcc acc) = Some n0" "n = n0\<lparr>so_account := (so_account n0)\<lparr>ac_Sequence := 0\<rparr>\<rparr>"
    and s2: "csdb_append (case prev of None \<Rightarrow> createObjectChange a | Some p \<Rightarrow> resetObjectChange p) (s1\<lparr>s_bank := b\<rparr>) = Some s2"
    and t: "setStateObject n s2 = Some t"
    using c g ab by (auto simp: createObject_def Let_def split: bind_splits)
  have l: "acc_ok a acc" "length (ac_CodeHash acc) \<in> {0, 32}" "ak_get X b = ak_get X (s_bank s)"
    using evm_lawsD(4,5) [OF X, of a "s_bank s1"] ab k(9) by auto
  have kept: "ak_get X (s_bank s) a \<noteq> Some OtherAcc"
  proof (cases prev)
    case None
    with k(11) show ?thesis by simp
  next
    case (Some p)
    then have "objs s1 a = Some p" using k(4) by simp
    from live_object(1) [OF k(2) this] show ?thesis using k(9) by (simp add: obj_ok_def)
  qed
  have o: "obj_ok X (s_kv s) (ak_get X (s_bank s) a) a n" "\<not> so_deleted n"
    using n0 l(1,2) kept evm_lawsD(2) [OF X] by (auto simp: newStateObject_def obj_ok_def acc_ok_def emptyCodeHash_def Let_def split: if_splits)
  have adr: "so_address n = a" using o(1) by (simp add: obj_ok_def)
  have ok': "csdb_ok X (s1\<lparr>s_bank := b\<rparr>)" using k(2,9) l(3) by (simp add: csdb_ok_def)
  have "indexed (s_objects s2) (s_index s2)"
    by (rule csdb_append_ok [OF ok', of "case prev of None \<Rightarrow> createObjectChange a | Some p \<Rightarrow> resetObjectChange p"])
      (use s2 csdb_okD(1) [OF k(2)] in auto)
  then obtain t' where "setStateObject n s2 = Some t'" "writes (so_address n) (Some n) s2 t'" by (rule setStateObject_writes)
  then have w: "writes a (Some n) s2 t" using t adr by simp
  show thesis by (rule that [OF g l(3) s2 w o k(1)])
qed

lemma createObject_step:
  assumes X: "evm_laws X" and ok: "csdb_ok X s" and c: "createObject X a s = Some (n, prev, t)"
  shows "stepped X s t" and "objs t a = Some n" and "\<not> so_deleted n" and "so_address n = a"
proof -
  obtain s1 b s2 where p: "getStateObject X a s = Some (prev, s1)" "ak_get X b = ak_get X (s_bank s)"
    "csdb_append (case prev of None \<Rightarrow> createObjectChange a | Some p \<Rightarrow> resetObjectChange p) (s1\<lparr>s_bank := b\<rparr>) = Some s2"
    "writes a (Some n) s2 t" "obj_ok X (s_kv s) (ak_get X (s_bank s) a) a n" "\<not> so_deleted n"
    by (rule createObject_parts [OF X ok c])
  show "stepped X s t" by (rule create_step [OF X ok p(1,3,2,4,5)])
  show "objs t a = Some n" "\<not> so_deleted n" "so_address n = a" using writesD(7) [OF p(4)] p(5,6) by (simp_all add: obj_ok_def)
qed

lemma GetOrNew_step:
  assumes X: "evm_laws X" and ok: "csdb_ok X s" and g: "GetOrNewStateObject X a s = Some (so, t)"
  shows "stepped X s t" and "objs t a = Some so" and "\<not> so_deleted so" and "so_address so = a"
proof -
  obtain x s1 where x: "getStateObject X a s = Some (x, s1)" using g by (auto simp: GetOrNewStateObject_def split: bind_splits)
  note k = getStateObject_ok [OF X ok x] and st = get_step [OF X ok x]
  have "stepped X s t \<and> objs t a = Some so \<and> \<not> so_deleted so \<and> so_address so = a"
  proof (cases x)
    case None
    then obtain p where c: "createObject X a s1 = Some (so, p, t)" using g x by (auto simp: GetOrNewStateObject_def)
    note cs = createObject_step [OF X k(2) c]
    show ?thesis using cs stepped_trans [OF X st cs(1)] by simp
  next
    case (Some y)
    then have y: "objs s1 a = Some y" "\<not> so_deleted y" using k(1,4) seen_not_deleted [of X s a y] by auto
    then show ?thesis using st Some x g live_object(2) [OF k(2) y(1)] by (auto simp: GetOrNewStateObject_def)
  qed
  then show "stepped X s t" "objs t a = Some so" "\<not> so_deleted so" "so_address so = a" by simp_all
qed

lemma CreateAccount_step:
  assumes X: "evm_laws X" and ok: "csdb_ok X s" and c: "CreateAccount X a s = Some t"
  shows "stepped X s t"
proof -
  obtain n prev s3 where o: "createObject X a s = Some (n, prev, s3)" using c by (auto simp: CreateAccount_def split: bind_splits)
  note st = createObject_step [OF X ok o]
  show ?thesis
  proof (cases prev)
    case None
    then have "t = s3" using c o by (simp add: CreateAccount_def)
    with st(1) show ?thesis by simp
  next
    case (Some p)
    let ?d = "ep_EvmDenom (params_of s3)" and ?v = "acc_Balance (ep_EvmDenom (params_of s3)) (so_account p)"
    obtain s1 b s2 where k: "getStateObject X a s = Some (prev, s1)" "ak_get X b = ak_get X (s_bank s)"
      "csdb_append (case prev of None \<Rightarrow> createObjectChange a | Some p \<Rightarrow> resetObjectChange p) (s1\<lparr>s_bank := b\<rparr>) = Some s2"
      "writes a (Some n) s2 s3" "obj_ok X (s_kv s) (ak_get X (s_bank s) a) a n"
      by (rule createObject_parts [OF X ok o])
    note g = getStateObject_ok [OF X ok k(1)]
    have "objs s1 a = Some p" using g(4) Some by simp
    then have "0 \<le> ?v" using live_object(1) [OF g(2)] by (auto simp: obj_ok_def acc_ok_def acc_Balance_def)
    moreover have "acc_ok a (so_account n)" using k(5) by (simp add: obj_ok_def)
    ultimately obtain acc where acc: "acc_SetBalance X ?d ?v (so_account n) = Some acc" "acc_ok a acc" "ac_CodeHash acc = ac_CodeHash (so_account n)"
      using acc_SetBalance_ok [OF X, of a "so_account n" ?v ?d] by metis
    have u: "upd_obj a (setBalance X ?d ?v) (cached_params s3) = Some t" using c o Some st(4) by (simp add: CreateAccount_def)
    obtain x y where "objs (cached_params s3) a = Some x" "setBalance X ?d ?v x = Some y" "writes a (Some y) (cached_params s3) t"
      by (rule upd_obj_Some [OF _ u]) (use csdb_okD(1) [OF stepped_ok [OF st(1)]] in simp_all)
    then have w: "writes a (Some (n\<lparr>so_account := acc\<rparr>)) s3 t" using st(2) acc(1) by (auto simp: setBalance_def intro: writes_cached)
    show ?thesis
      by (rule create_step [OF X ok k(1,3,2) writes_trans [OF k(4) w]]) (rule obj_ok_account(1) [OF k(5) acc(2,3)])
  qed
qed

lemma touch_step:
  assumes X: "evm_laws X" and ok: "csdb_ok X s" and a: "a \<noteq> ripemd" and t: "so_touch a s = Some t"
  shows "stepped X s t"
proof -
  have t: "csdb_append (touchChange a) s = Some t" using t a by (auto simp: so_touch_def split: bind_splits)
  have "csdb_ok X t" by (rule csdb_append_ok [OF ok, of "touchChange a"]) (use t ok in \<open>auto simp: csdb_ok_def\<close>)
  then show ?thesis by (intro step_exact [OF X ok _ t]) (simp_all add: same_log_def)
qed

lemma AddBalance_step:
  assumes X: "evm_laws X" and ok: "csdb_ok X s" and o: "objs s a = Some so" "\<not> so_deleted so" and v: "a \<noteq> ripemd \<or> v \<noteq> 0"
    and t: "so_AddBalance X a v s = Some t"
  shows "stepped X s t"
proof -
  have ok': "csdb_ok X (cached_params s)" "objs (cached_params s) a = Some so" using ok o by simp_all
  note so = live_object [OF ok']
  have "stepped X (cached_params s) t"
  proof (cases "v = 0")
    case True
    then have "so_touch a (cached_params s) = Some t \<or> t = cached_params s" using t so by (auto simp: so_AddBalance_def split: if_splits)
    then show ?thesis using True v ok' stepped_refl touch_step [OF X ok'(1)] by auto
  next
    case False
    then show ?thesis using t so SetBalance_step [OF X ok' o(2)] by (simp add: so_AddBalance_def)
  qed
  with params_step [OF ok] show ?thesis using stepped_trans [OF X] by blast
qed

lemma SubBalance_step:
  assumes X: "evm_laws X" and ok: "csdb_ok X s" and o: "objs s a = Some so" "\<not> so_deleted so" and t: "so_SubBalance X a v s = Some t"
  shows "stepped X s t"
proof (cases "v = 0")
  case True
  then show ?thesis using t ok stepped_refl by (simp add: so_SubBalance_def)
next
  case False
  have ok': "csdb_ok X (cached_params s)" "objs (cached_params s) a = Some so" using ok o by simp_all
  have "stepped X (cached_params s) t"
    using False t live_object [OF ok'] SetBalance_step [OF X ok' o(2)] by (simp add: so_SubBalance_def)
  with params_step [OF ok] show ?thesis using stepped_trans [OF X] by blast
qed

lemma Suicide_step:
  assumes X: "evm_laws X" and ok: "csdb_ok X s" and t: "Suicide X a s = Some (b, t)"
  shows "stepped X s t"
proof -
  obtain x s1 where g: "getStateObject X a s = Some (x, s1)" using t by (auto simp: Suicide_def split: bind_splits)
  note k = getStateObject_ok [OF X ok g] and st = get_step [OF X ok g]
  show ?thesis
  proof (cases x)
    case None
    then have "t = s1" using t g by (simp add: Suicide_def)
    with st show ?thesis by simp
  next
    case (Some so)
    then have o: "objs s1 a = Some so" "\<not> so_deleted so" using k(1,4) seen_not_deleted [of X s a so] by auto
    let ?s = "cached_params s1" and ?v = "acc_Balance (ep_EvmDenom (params_of s1)) (so_account so)"
    have ok': "csdb_ok X ?s" "objs ?s a = Some so" using k(2) o by simp_all
    note so = live_object [OF ok']
    obtain s3 s4 where s: "csdb_append (suicideChange a (so_suicided so) ?v) ?s = Some s3"
      "upd_obj a (\<lambda>x. Some (x\<lparr>so_suicided := True\<rparr>)) s3 = Some s4" "so_SetBalance X a 0 s4 = Some t"
      using t g Some so(2) by (auto simp: Suicide_def split: bind_splits)
    have n: "obj_ok X (s_kv ?s) (ak_get X (s_bank ?s) a) a (so\<lparr>so_suicided := True\<rparr>)" by (rule obj_ok_account(2) [OF so(1)])
    have same: "setBalance X (ep_EvmDenom (params_of s1)) ?v so = Some so" by (simp add: setBalance_def acc_SetBalance_def acc_Balance_def)
    have s4: "stepped X ?s s4"
    proof (rule step_object [OF X ok'(1) _ ok'(2) o(2) s(1,2) refl n, where m = so])
      fix x assume x: "csdb_ok X x" "objs x a = Some (so\<lparr>so_suicided := True\<rparr>)" "params_of x = params_of ?s"
      have se: "seen X x a = Some (so\<lparr>so_suicided := True\<rparr>)" using x(2) o(2) by (simp add: seen_def)
      have "\<exists>r. modify X a (\<lambda>y. setBalance X (ep_EvmDenom (params_of s1)) ?v (y\<lparr>so_suicided := so_suicided so\<rparr>)) x = Some r
          \<and> writes a (Some so) x r"
        by (rule modify_at [OF x(1,2)]) (use o(2) so(2) same in simp_all)
      then show "\<exists>y. entry_revert X (suicideChange a (so_suicided so) ?v) x = Some y \<and> writes a (Some so) x y"
        using x(3) writes_cached(2) by (auto simp: revert_suicide [OF X x(1)] se simp del: entry_revert.simps)
    qed (use so(1) o(2) in \<open>auto simp: obj_ok_def acc_ok_def acc_Balance_def\<close>)
    have "objs s4 a = Some (so\<lparr>so_suicided := True\<rparr>)"
    proof -
      have ix: "indexed (s_objects s3) (s_index s3)" "objs s3 a = Some so"
        using s(1) csdb_okD(1) [OF ok'(1)] o(1) by (auto simp: csdb_append_def)
      obtain y z where "objs s3 a = Some y" "Some (y\<lparr>so_suicided := True\<rparr>) = Some z" "writes a (Some z) s3 s4" by (rule upd_obj_Some [OF ix(1) s(2)])
      then show ?thesis using ix(2) writesD(7) [of a "Some z" s3 s4] by auto
    qed
    then have "stepped X s4 t" by (rule SetBalance_step [OF X stepped_ok [OF s4] _ _ s(3)]) (use o(2) in simp)
    with s4 have "stepped X ?s t" using stepped_trans [OF X] by blast
    with st params_step [OF k(2)] show ?thesis using stepped_trans [OF X] by blast
  qed
qed

subsection \<open>Refunds, logs, preimages and the access list\<close>

lemma append_Some:
  assumes "csdb_ok X s" and "csdb_append e s = Some s1"
  obtains j where "s1 = s\<lparr>s_journal := j\<rparr>" and "jok j" and "csdb_ok X s1"
proof (rule csdb_append_ok [OF assms(1), of e])
  fix j assume "csdb_append e s = Some (s\<lparr>s_journal := j\<rparr>)" "jok j"
  then show thesis using that [of j] assms by (auto simp: csdb_ok_def)
qed

lemma refund_step:
  assumes X: "evm_laws X" and ok: "csdb_ok X s" and a: "csdb_append (refundChange (s_refund s)) s = Some s1"
  shows "stepped X s (s1\<lparr>s_refund := g\<rparr>)"
proof (rule append_Some [OF ok a])
  fix j assume j: "s1 = s\<lparr>s_journal := j\<rparr>" "jok j" "csdb_ok X s1"
  show ?thesis
    by (rule step_exact [OF X ok _ a]) (use j in \<open>auto simp: csdb_ok_def same_log_def\<close>)
qed

lemma AddLog_step:
  assumes X: "evm_laws X" and ok: "csdb_ok X s" and t: "AddLog l s = Some t"
  shows "stepped X s t"
proof -
  obtain s1 where a: "csdb_append (addLogChange (s_thash s)) s = Some s1" using t by (auto simp: AddLog_def split: bind_splits)
  then obtain x where x: "t = s1\<lparr>s_logSize := s_logSize s1 + 1, s_logs := s_logs s1 @ [x]\<rparr>" using t by (auto simp: AddLog_def Let_def)
  show ?thesis
  proof (rule append_Some [OF ok a])
    fix j assume j: "s1 = s\<lparr>s_journal := j\<rparr>" "jok j" "csdb_ok X s1"
    show ?thesis
      by (rule step_exact [OF X ok _ a]) (use j in \<open>auto simp: x csdb_ok_def same_log_def DeleteLogs_def SetLogs_def Let_def\<close>)
  qed
qed

lemma AddPreimage_step:
  assumes X: "evm_laws X" and ok: "csdb_ok X s" and t: "AddPreimage h v s = Some t"
  shows "stepped X s t"
proof (cases "s_preimageIndex s h")
  case (Some i)
  then show ?thesis using t ok stepped_refl by (simp add: AddPreimage_def)
next
  case None
  obtain s1 where a: "csdb_append (addPreimageChange h) s = Some s1" using t None by (auto simp: AddPreimage_def split: bind_splits)
  then have x: "t = s1\<lparr>s_preimages := s_preimages s1 @ [(h, v)], s_preimageIndex := (s_preimageIndex s1)(h \<mapsto> length (s_preimages s1))\<rparr>"
    using t None by (simp add: AddPreimage_def)
  show ?thesis
  proof (rule append_Some [OF ok a])
    fix j assume j: "s1 = s\<lparr>s_journal := j\<rparr>" "jok j" "csdb_ok X s1"
    have "remove_indexed h (s_preimages s @ [(h, v)]) ((s_preimageIndex s)(h \<mapsto> length (s_preimages s))) = (s_preimages s, s_preimageIndex s)"
      by (rule remove_indexed_last [where m = "s_preimageIndex s", OF None])
    then show ?thesis
      by (intro step_exact [OF X ok _ a]) (use j in \<open>auto simp: x csdb_ok_def same_log_def\<close>)
  qed
qed

lemma append_access:
  "csdb_append e (s\<lparr>s_access := al\<rparr>) = map_option (\<lambda>t. t\<lparr>s_access := al\<rparr>) (csdb_append e s)"
  by (cases "journal_append e (s_journal s)") (simp_all add: csdb_append_def)

lemma access_step:
  assumes X: "evm_laws X" and ok: "csdb_ok X s" and e: "entry_ok e" and al: "al_ok al"
    and t: "csdb_append e (s\<lparr>s_access := al\<rparr>) = Some t"
    and r: "\<And>j. entry_revert X e (s\<lparr>s_journal := j, s_access := al\<rparr>) = Some (s\<lparr>s_journal := j\<rparr>)"
  shows "stepped X s t" and "s_access t = al"
proof -
  obtain s1 where a: "csdb_append e s = Some s1" and t': "t = s1\<lparr>s_access := al\<rparr>" using t by (auto simp: append_access)
  show "s_access t = al" by (simp add: t')
  show "stepped X s t"
  proof (rule append_Some [OF ok a])
    fix j assume j: "s1 = s\<lparr>s_journal := j\<rparr>" "jok j" "csdb_ok X s1"
    show ?thesis
      by (rule step_exact [OF X ok e a]) (use j al r [of j] in \<open>auto simp: t' csdb_ok_def same_log_def\<close>)
  qed
qed

lemma AddAddress_step:
  assumes X: "evm_laws X" and ok: "csdb_ok X s" and t: "AddAddressToAccessList a s = Some t"
  shows "stepped X s t"
proof (cases "al_addresses (s_access s) a")
  case (Some i)
  then show ?thesis using t ok stepped_refl by (simp add: AddAddressToAccessList_def AddAddress_def)
next
  case None
  let ?al = "(s_access s)\<lparr>al_addresses := (al_addresses (s_access s))(a \<mapsto> -1)\<rparr>"
  have t: "csdb_append (accessListAddAccountChange a) (s\<lparr>s_access := ?al\<rparr>) = Some t"
    using t None by (simp add: AddAddressToAccessList_def AddAddress_def)
  have "al_ok ?al" using csdb_okD(3) [OF ok] by (auto simp: al_ok_def)
  moreover have "DeleteAddress a ?al = s_access s" using None by (simp add: DeleteAddress_def fun_upd_idem)
  ultimately show ?thesis by (intro access_step(1) [OF X ok _ _ t]) simp_all
qed

text \<open>Adding a slot is adding the address, when it is new, and then the slot.\<close>

lemma slot_step:
  assumes X: "evm_laws X" and ok: "csdb_ok X s" and p: "al_addresses (s_access s) a \<noteq> None"
    and al: "AddSlot a slot (s_access s) = (False, True, al)" and t: "csdb_append (accessListAddSlotChange a slot) (s\<lparr>s_access := al\<rparr>) = Some t"
  shows "stepped X s t"
proof -
  note k = csdb_okD(3) [OF ok]
  obtain i where i: "al_addresses (s_access s) a = Some i" using p by auto
  have "al_ok al \<and> DeleteSlot a slot al = Some (s_access s)"
  proof (cases "i = -1")
    case True
    then have al': "al = (s_access s)\<lparr>al_addresses := (al_addresses (s_access s))(a \<mapsto> int (length (al_slots (s_access s)))),
        al_slots := al_slots (s_access s) @ [{slot}]\<rparr>" using al i by (simp add: AddSlot_def)
    have "(al_addresses (s_access s))(a \<mapsto> -1) = al_addresses (s_access s)" using i True by (simp add: fun_upd_idem)
    with k show ?thesis by (auto simp: al' al_ok_def DeleteSlot_def Let_def)
  next
    case False
    let ?o = "al_slots (s_access s) ! nat i"
    have b: "0 \<le> i" "nat i < length (al_slots (s_access s))" "slot \<notin> ?o"
      and al': "al = (s_access s)\<lparr>al_slots := (al_slots (s_access s))[nat i := insert slot ?o]\<rparr>"
      using False i al k by (auto simp: AddSlot_def al_ok_def Let_def split: if_splits dest!: spec [of _ a])
    have "?o \<noteq> {}" using b(2) k by (metis al_ok_def nth_mem)
    moreover have "insert slot ?o - {slot} = ?o" using b(3) by simp
    moreover have "{} \<notin> set ((al_slots (s_access s))[nat i := insert slot ?o])" using k set_update_subset_insert by (fastforce simp: al_ok_def)
    ultimately show ?thesis using b i k by (simp add: al' al_ok_def DeleteSlot_def Let_def)
  qed
  then show ?thesis by (intro access_step(1) [OF X ok _ _ t]) simp_all
qed

lemma AddSlot_step:
  assumes X: "evm_laws X" and ok: "csdb_ok X s" and t: "AddSlotToAccessList a slot s = Some t"
  shows "stepped X s t"
proof (cases "al_addresses (s_access s) a")
  case (Some i)
  have "fst (AddSlot a slot (s_access s)) = False" using Some by (simp add: AddSlot_def Let_def)
  then obtain sm al where al: "AddSlot a slot (s_access s) = (False, sm, al)" by (metis prod.collapse)
  show ?thesis
  proof (cases sm)
    case True
    then show ?thesis using t Some al by (intro slot_step [OF X ok, of a slot al]) (simp_all add: AddSlotToAccessList_def)
  next
    case False
    then have "al = s_access s" using al by (auto simp: AddSlot_def Let_def split: if_splits)
    then show ?thesis using False al t ok stepped_refl by (simp add: AddSlotToAccessList_def)
  qed
next
  case None
  let ?m = "al_addresses (s_access s)" and ?n = "length (al_slots (s_access s))"
  let ?al = "(s_access s)\<lparr>al_addresses := ?m(a \<mapsto> -1)\<rparr>"
  let ?al2 = "(s_access s)\<lparr>al_addresses := ?m(a \<mapsto> int ?n), al_slots := al_slots (s_access s) @ [{slot}]\<rparr>"
  have "AddSlot a slot (s_access s) = (True, True, ?al2)" using None by (simp add: AddSlot_def)
  then obtain s1 where s1: "csdb_append (accessListAddAccountChange a) (s\<lparr>s_access := ?al2\<rparr>) = Some s1"
    "csdb_append (accessListAddSlotChange a slot) s1 = Some t" using t by (auto simp: AddSlotToAccessList_def split: bind_splits)
  then obtain s0 where s0: "csdb_append (accessListAddAccountChange a) (s\<lparr>s_access := ?al\<rparr>) = Some s0" "s1 = s0\<lparr>s_access := ?al2\<rparr>"
    by (auto simp: append_access)
  have a0: "AddAddressToAccessList a s = Some s0" using None s0(1) by (simp add: AddAddressToAccessList_def AddAddress_def)
  have "s_access s0 = ?al" using s0(1) by (auto simp: append_access)
  moreover have "?m(a \<mapsto> int ?n) = (?m(a \<mapsto> -1))(a \<mapsto> int ?n)" by simp
  ultimately have "AddSlot a slot (s_access s0) = (False, True, ?al2)" by (simp add: AddSlot_def)
  then have "stepped X s0 t"
    by (rule slot_step [OF X stepped_ok [OF AddAddress_step [OF X ok a0]], rotated 1]) (use s1(2) s0(2) \<open>s_access s0 = ?al\<close> in simp_all)
  with AddAddress_step [OF X ok a0] show ?thesis using stepped_trans [OF X] by blast
qed

end
