(* ===== verification/EvmSnapshot.thy ===== *)
theory EvmSnapshot
  imports EvmDbSteps
begin

text \<open>
  Snapshots of the EVM state: reverting to a snapshot, after any sequence of operations of the database with nested
  snapshots and reverts, returns and restores what was seen at the snapshot. The exception is the precompiled contract
  at address 3, whose touch marks are kept on purpose; with the unadjusted indices of \<open>deleteDirty\<close> such a
  mark makes a later touch panic.
\<close>

subsection \<open>Getters\<close>

lemma got_object:
  assumes X: "evm_laws X" and ok: "csdb_ok X s" and g: "getStateObject X a s = Some (Some so, s1)"
  shows "csdb_ok X s1" and "objs s1 a = Some so" and "\<not> so_deleted so" and "so_address so = a" and "s_kv s1 = s_kv s"
    and "obj_ok X (s_kv s1) (ak_get X (s_bank s1) a) a so"
proof -
  note k = getStateObject_ok [OF X ok g]
  have "objs s1 a = Some so" using k(4) by simp
  moreover have "\<not> so_deleted so" using k(1) seen_not_deleted [of X s a so] by simp
  ultimately show o: "csdb_ok X s1" "objs s1 a = Some so" "\<not> so_deleted so" "s_kv s1 = s_kv s"
    using k(2) rest_eqD [OF k(10)] by simp_all
  show "so_address so = a" "obj_ok X (s_kv s1) (ak_get X (s_bank s1) a) a so" using live_object [OF o(1,2)] by simp_all
qed

lemma read_step:
  assumes X: "evm_laws X" and ok: "csdb_ok X s" and g: "getStateObject X a s = Some (Some so, s1)"
    and n: "obj_ok X (s_kv s1) (ak_get X (s_bank s1) a) a n" "so_deleted n = so_deleted so" "obj_le X (s_kv s1) (Some so) (Some n)"
  obtains t where "upd_obj (so_address so) (\<lambda>_. Some n) s1 = Some t" and "stepped X s t"
proof -
  note o = got_object [OF X ok g]
  obtain t where t: "upd_obj a (\<lambda>_. Some n) s1 = Some t" by (rule upd_obj_writes [of s1 a so, OF csdb_okD(1) [OF o(1)] o(2)]) simp
  have "stepped X s1 t" by (rule silent_object(1) [OF X o(1,2,3) n(1) _ n(3) t]) (use n(2) o(3) in simp)
  from stepped_trans [OF X get_step [OF X ok g] this] show thesis using t o(4) by (intro that [of t]) simp_all
qed

text \<open>The object that a lookup returns, or a panic for an account of another type.\<close>

definition found :: "'b evm_ext \<Rightarrow> 'b csdb \<Rightarrow> eth_addr \<Rightarrow> state_object option option" where
  "found X s a = (if ak_get X (s_bank s) a = Some OtherAcc then None else Some (seen X s a))"

lemma get_found:
  assumes X: "evm_laws X" and ok: "csdb_ok X s"
  obtains (panic) "getStateObject X a s = None" and "found X s a = None"
    | (hit) x s1 where "getStateObject X a s = Some (x, s1)" and "found X s a = Some x"
proof (cases "ak_get X (s_bank s) a = Some OtherAcc")
  case True
  have "s_index s a = None"
  proof (cases "s_index s a")
    case (Some i)
    note o = indexed_nth [OF csdb_okD(1) [OF ok] Some]
    from True live_object(1) [OF ok o] show ?thesis by (simp add: obj_ok_def)
  qed simp
  with True show thesis by (intro panic) (simp_all add: getStateObject_def newStateObject_def found_def)
next
  case False
  then obtain s1 where g: "getStateObject X a s = Some (seen X s a, s1)" using getStateObject_seen [OF X ok, of a] by blast
  from that(2) [OF g] False show thesis by (simp add: found_def)
qed

lemma GetBalance_reads:
  assumes "evm_laws X" and "csdb_ok X s"
  shows "map_option fst (csdb_GetBalance X a s) =
      map_option (\<lambda>x. case x of None \<Rightarrow> 0 | Some so \<Rightarrow> amt (ac_Coins (so_account so)) (ep_EvmDenom (params_of s))) (found X s a)"
    and "csdb_GetBalance X a s = Some (v, t) \<Longrightarrow> stepped X s t"
proof -
  have p: "params_of s1 = params_of s" if "getStateObject X a s = Some (x, s1)" for x s1
    using rest_eqD [OF getStateObject_ok(10) [OF assms that]] by simp
  show "map_option fst (csdb_GetBalance X a s) =
      map_option (\<lambda>x. case x of None \<Rightarrow> 0 | Some so \<Rightarrow> amt (ac_Coins (so_account so)) (ep_EvmDenom (params_of s))) (found X s a)"
    by (rule get_found [OF assms, of a]) (use p in \<open>auto simp: csdb_GetBalance_def acc_Balance_def split: option.splits\<close>)
  show "stepped X s t" if "csdb_GetBalance X a s = Some (v, t)"
    by (rule get_found [OF assms, of a])
      (use that stepped_trans [OF assms(1)] get_step [OF assms] getStateObject_ok(2) [OF assms] params_step in \<open>fastforce simp: csdb_GetBalance_def split: option.splits\<close>)+
qed

lemma Empty_reads:
  assumes "evm_laws X" and "csdb_ok X s"
  shows "map_option fst (csdb_Empty X a s) =
      map_option (\<lambda>x. case x of None \<Rightarrow> True | Some so \<Rightarrow> so_empty X (ep_EvmDenom (params_of s)) so) (found X s a)"
    and "csdb_Empty X a s = Some (b, t) \<Longrightarrow> stepped X s t"
proof -
  have p: "params_of s1 = params_of s" if "getStateObject X a s = Some (x, s1)" for x s1
    using rest_eqD [OF getStateObject_ok(10) [OF assms that]] by simp
  show "map_option fst (csdb_Empty X a s) =
      map_option (\<lambda>x. case x of None \<Rightarrow> True | Some so \<Rightarrow> so_empty X (ep_EvmDenom (params_of s)) so) (found X s a)"
    by (rule get_found [OF assms, of a]) (use p in \<open>auto simp: csdb_Empty_def split: option.splits\<close>)
  show "stepped X s t" if "csdb_Empty X a s = Some (b, t)"
    by (rule get_found [OF assms, of a])
      (use that stepped_trans [OF assms(1)] get_step [OF assms] getStateObject_ok(2) [OF assms] params_step in \<open>fastforce simp: csdb_Empty_def split: option.splits\<close>)+
qed

lemma lookup_reads:
  assumes "evm_laws X" and "csdb_ok X s"
  shows "map_option fst (csdb_GetNonce X a s) = map_option (\<lambda>x. case x of None \<Rightarrow> 0 | Some so \<Rightarrow> ac_Sequence (so_account so)) (found X s a)"
    and "map_option fst (csdb_GetCodeHash X a s) = map_option (\<lambda>x. case x of None \<Rightarrow> zero_hash | Some so \<Rightarrow> BytesToHash (so_CodeHash X so)) (found X s a)"
    and "map_option fst (HasSuicided X a s) = map_option (\<lambda>x. case x of None \<Rightarrow> False | Some so \<Rightarrow> so_suicided so) (found X s a)"
    and "map_option fst (Exist X a s) = map_option (\<lambda>x. x \<noteq> None) (found X s a)"
    and "csdb_GetNonce X a s = Some (n, t) \<Longrightarrow> stepped X s t" and "csdb_GetCodeHash X a s = Some (h, t) \<Longrightarrow> stepped X s t"
    and "HasSuicided X a s = Some (b, t) \<Longrightarrow> stepped X s t" and "Exist X a s = Some (b, t) \<Longrightarrow> stepped X s t"
  by (rule get_found [OF assms, of a];
      use get_step [OF assms] in \<open>auto simp: csdb_GetNonce_def csdb_GetCodeHash_def HasSuicided_def Exist_def split: bind_splits\<close>)+

lemma GetCode_reads:
  assumes X: "evm_laws X" and ok: "csdb_ok X s"
  shows "map_option fst (csdb_GetCode X a s) = map_option (\<lambda>x. case x of None \<Rightarrow> None | Some so \<Rightarrow> fst (so_Code X (s_kv s) so)) (found X s a)"
    and "csdb_GetCode X a s = Some (c, t) \<Longrightarrow> stepped X s t" and "csdb_GetCodeSize X a s = Some (n, u) \<Longrightarrow> stepped X s u"
proof -
  show "map_option fst (csdb_GetCode X a s) = map_option (\<lambda>x. case x of None \<Rightarrow> None | Some so \<Rightarrow> fst (so_Code X (s_kv s) so)) (found X s a)"
    and "csdb_GetCode X a s = Some (c, t) \<Longrightarrow> stepped X s t" and "csdb_GetCodeSize X a s = Some (n, u) \<Longrightarrow> stepped X s u"
  proof (atomize (full), cases rule: get_found [OF X ok, of a, case_names panic hit])
    case (hit x s1)
    note st = get_step [OF X ok hit(1)]
    show "map_option fst (csdb_GetCode X a s) = map_option (\<lambda>x. case x of None \<Rightarrow> None | Some so \<Rightarrow> fst (so_Code X (s_kv s) so)) (found X s a) \<and>
      (csdb_GetCode X a s = Some (c, t) \<longrightarrow> stepped X s t) \<and> (csdb_GetCodeSize X a s = Some (n, u) \<longrightarrow> stepped X s u)"
    proof (cases x)
      case None
      with hit st show ?thesis by (auto simp: csdb_GetCode_def csdb_GetCodeSize_def)
    next
      case (Some so)
      note g = hit(1) [unfolded Some]
      note o = got_object [OF X ok g]
      obtain c1 so1 where c: "so_Code X (s_kv s1) so = (c1, so1)" by force
      note k = so_Code_silent [OF o(6) c]
      obtain v where v: "upd_obj (so_address so) (\<lambda>_. Some so1) s1 = Some v" "stepped X s v" by (rule read_step [OF X ok g k(1,3,2)])
      have "fst (so_Code X (s_kv s) so) = c1" using c o(5) by simp
      with hit Some v c st show ?thesis by (auto simp: csdb_GetCode_def csdb_GetCodeSize_def split: option.splits)
    qed
  qed (simp add: csdb_GetCode_def csdb_GetCodeSize_def)
qed

lemma GetState_reads:
  assumes X: "evm_laws X" and ok: "csdb_ok X s"
  shows "map_option fst (csdb_GetState X a key s) =
      map_option (\<lambda>x. case x of None \<Rightarrow> zero_hash | Some so \<Rightarrow> slot_of (s_kv s) so (x_keccak X (a @ key))) (found X s a) \<and>
    map_option fst (csdb_GetCommittedState X a key s) =
      map_option (\<lambda>x. case x of None \<Rightarrow> zero_hash | Some so \<Rightarrow> stored (s_kv s) a (x_keccak X (a @ key))) (found X s a) \<and>
    (csdb_GetState X a key s = Some (v, t) \<longrightarrow> stepped X s t) \<and> (csdb_GetCommittedState X a key s = Some (w, u) \<longrightarrow> stepped X s u)"
proof (cases rule: get_found [OF X ok, of a, case_names panic hit])
  case (hit x s1)
  note st = get_step [OF X ok hit(1)]
  show ?thesis
  proof (cases x)
    case None
    with hit st show ?thesis by (auto simp: csdb_GetState_def csdb_GetCommittedState_def)
  next
    case (Some so)
    note g = hit(1) [unfolded Some]
    note o = got_object [OF X ok g]
    have key: "GetStorageByAddressKey X key so = x_keccak X (a @ key)" using o(4) by (simp add: GetStorageByAddressKey_def)
    obtain n where n: "so_GetState X (s_kv s1) key so = Some (slot_of (s_kv s1) so (x_keccak X (a @ key)), n)"
      "obj_ok X (s_kv s1) (ak_get X (s_bank s1) a) a n" "so_deleted n = so_deleted so" "obj_le X (s_kv s1) (Some so) (Some n)"
      by (rule GetState_ok [OF o(6), of key]) (simp only: key)
    obtain m where m: "so_GetCommittedState X (s_kv s1) key so = Some (stored (s_kv s1) a (x_keccak X (a @ key)), m)"
      "obj_ok X (s_kv s1) (ak_get X (s_bank s1) a) a m" "so_deleted m = so_deleted so" "obj_le X (s_kv s1) (Some so) (Some m)"
      by (rule GetCommittedState_ok [OF o(6), of key]) (simp only: key)
    obtain y where y: "upd_obj (so_address so) (\<lambda>_. Some n) s1 = Some y" "stepped X s y" by (rule read_step [OF X ok g n(2-4)])
    obtain z where z: "upd_obj (so_address so) (\<lambda>_. Some m) s1 = Some z" "stepped X s z" by (rule read_step [OF X ok g m(2-4)])
    from hit Some n(1) m(1) y z o(5) show ?thesis by (auto simp: csdb_GetState_def csdb_GetCommittedState_def)
  qed
qed (simp add: csdb_GetState_def csdb_GetCommittedState_def)

text \<open>What contracts can read, apart from the values that are compared exactly.\<close>

definition evm_reads :: "'b evm_ext \<Rightarrow> eth_addr \<Rightarrow> eth_hash \<Rightarrow> 'b csdb \<Rightarrow> _" where
  "evm_reads X a key s =
     (map_option fst (csdb_GetBalance X a s), map_option fst (csdb_GetNonce X a s), map_option fst (csdb_GetCode X a s),
      map_option fst (csdb_GetCodeHash X a s), map_option fst (csdb_GetState X a key s), map_option fst (csdb_GetCommittedState X a key s),
      map_option fst (HasSuicided X a s), map_option fst (Exist X a s), map_option fst (csdb_Empty X a s))"

lemma reads_same:
  assumes X: "evm_laws X" and le: "csdb_le X s u" and ok: "csdb_ok X s" "csdb_ok X u"
  shows "evm_reads X a key u = evm_reads X a key s"
proof -
  have r: "rest s = rest u" "ak_get X (s_bank s) = ak_get X (s_bank u)" "obj_le X (s_kv s) (seen X s a) (seen X u a)" using le by (auto simp: csdb_le_def)
  note re = rest_eqD [OF r(1)]
  note f = found_def
  consider "seen X s a = None" "seen X u a = None" | so so' where "seen X s a = Some so" "seen X u a = Some so'" "view X (s_kv s) so = view X (s_kv s) so'"
    using r(3) by (cases "seen X s a"; cases "seen X u a") auto
  then show ?thesis
  proof cases
    case 1
    then show ?thesis
      by (simp add: evm_reads_def GetBalance_reads(1) [OF X] lookup_reads(1-4) [OF X] GetCode_reads(1) [OF X] GetState_reads [OF X]
          Empty_reads(1) [OF X] ok f r(2) re)
  next
    case 2
    then show ?thesis
      by (simp add: evm_reads_def GetBalance_reads(1) [OF X] lookup_reads(1-4) [OF X] GetCode_reads(1) [OF X] GetState_reads [OF X]
          Empty_reads(1) [OF X] ok f r(2) re view_eq so_CodeHash_def so_empty_def acc_Balance_def)
  qed
qed

subsection \<open>Sequences of operations\<close>

datatype evm_op =
    OpSetBalance eth_addr int | OpAddBalance eth_addr int | OpSubBalance eth_addr int | OpSetNonce eth_addr "64 word"
  | OpSetState eth_addr eth_hash eth_hash | OpSetCode eth_addr "bytes option" | OpAddLog eth_log | OpAddPreimage eth_hash bytes
  | OpAddRefund "64 word" | OpSubRefund "64 word" | OpAddAddress eth_addr | OpAddSlot eth_addr eth_hash
  | OpSuicide eth_addr | OpCreateAccount eth_addr
  | OpGetBalance eth_addr | OpGetNonce eth_addr | OpGetCode eth_addr | OpGetCodeSize eth_addr | OpGetCodeHash eth_addr
  | OpGetState eth_addr eth_hash | OpGetCommittedState eth_addr eth_hash | OpHasSuicided eth_addr | OpExist eth_addr | OpEmpty eth_addr
  | OpSnapshot | OpRevert nat

fun exec :: "'b evm_ext \<Rightarrow> evm_op \<Rightarrow> 'b csdb \<Rightarrow> 'b csdb option" where
  "exec X (OpSetBalance a v) s = csdb_SetBalance X a v s"
| "exec X (OpAddBalance a v) s = csdb_AddBalance X a v s"
| "exec X (OpSubBalance a v) s = csdb_SubBalance X a v s"
| "exec X (OpSetNonce a n) s = csdb_SetNonce X a n s"
| "exec X (OpSetState a k v) s = csdb_SetState X a k v s"
| "exec X (OpSetCode a c) s = csdb_SetCode X a c s"
| "exec X (OpAddLog l) s = AddLog l s"
| "exec X (OpAddPreimage h p) s = AddPreimage h p s"
| "exec X (OpAddRefund g) s = AddRefund g s"
| "exec X (OpSubRefund g) s = SubRefund g s"
| "exec X (OpAddAddress a) s = AddAddressToAccessList a s"
| "exec X (OpAddSlot a k) s = AddSlotToAccessList a k s"
| "exec X (OpSuicide a) s = map_option snd (Suicide X a s)"
| "exec X (OpCreateAccount a) s = CreateAccount X a s"
| "exec X (OpGetBalance a) s = map_option snd (csdb_GetBalance X a s)"
| "exec X (OpGetNonce a) s = map_option snd (csdb_GetNonce X a s)"
| "exec X (OpGetCode a) s = map_option snd (csdb_GetCode X a s)"
| "exec X (OpGetCodeSize a) s = map_option snd (csdb_GetCodeSize X a s)"
| "exec X (OpGetCodeHash a) s = map_option snd (csdb_GetCodeHash X a s)"
| "exec X (OpGetState a k) s = map_option snd (csdb_GetState X a k s)"
| "exec X (OpGetCommittedState a k) s = map_option snd (csdb_GetCommittedState X a k s)"
| "exec X (OpHasSuicided a) s = map_option snd (HasSuicided X a s)"
| "exec X (OpExist a) s = map_option snd (Exist X a s)"
| "exec X (OpEmpty a) s = map_option snd (csdb_Empty X a s)"
| "exec X OpSnapshot s = Some (snd (Snapshot s))"
| "exec X (OpRevert n) s = RevertToSnapshot X n s"

fun exec_all :: "'b evm_ext \<Rightarrow> evm_op list \<Rightarrow> 'b csdb \<Rightarrow> 'b csdb option" where
  "exec_all X [] s = Some s"
| "exec_all X (p # ps) s = exec X p s \<bind> exec_all X ps"

text \<open>Adding nothing to the balance of the precompiled contract at address 3 may touch it; its mark survives a revert.\<close>

fun quiet :: "evm_op \<Rightarrow> bool" where
  "quiet (OpAddBalance a v) = (a \<noteq> ripemd \<or> v \<noteq> 0)"
| "quiet _ = True"

lemma on_object:
  assumes X: "evm_laws X" and ok: "csdb_ok X s" and g: "GetOrNewStateObject X a s \<bind> (\<lambda>(so, s1). f (so_address so) s1) = Some t"
    and f: "\<And>s1 so. csdb_ok X s1 \<Longrightarrow> objs s1 a = Some so \<Longrightarrow> \<not> so_deleted so \<Longrightarrow> f a s1 = Some t \<Longrightarrow> stepped X s1 t"
  shows "stepped X s t"
proof -
  obtain so s1 where s1: "GetOrNewStateObject X a s = Some (so, s1)" "f (so_address so) s1 = Some t" using g by (auto split: bind_splits)
  note k = GetOrNew_step [OF X ok s1(1)]
  have "stepped X s1 t" by (rule f [OF stepped_ok [OF k(1)] k(2,3)]) (use s1(2) k(4) in simp)
  from stepped_trans [OF X k(1) this] show ?thesis .
qed

lemma balance_ops_step:
  assumes X: "evm_laws X" and ok: "csdb_ok X s"
  shows "csdb_SetBalance X a v s = Some t \<Longrightarrow> stepped X s t" and "csdb_SubBalance X a v s = Some t \<Longrightarrow> stepped X s t"
    and "a \<noteq> ripemd \<or> v \<noteq> 0 \<Longrightarrow> csdb_AddBalance X a v s = Some t \<Longrightarrow> stepped X s t"
proof -
  show "stepped X s t" if "csdb_SetBalance X a v s = Some t"
    using that unfolding csdb_SetBalance_def by (rule on_object [OF X ok]) (rule SetBalance_step [OF X])
  show "stepped X s t" if "csdb_SubBalance X a v s = Some t"
    using that unfolding csdb_SubBalance_def by (rule on_object [OF X ok]) (rule SubBalance_step [OF X])
  show "stepped X s t" if "a \<noteq> ripemd \<or> v \<noteq> 0" "csdb_AddBalance X a v s = Some t"
    using that(2) unfolding csdb_AddBalance_def by (rule on_object [OF X ok]) (rule AddBalance_step [OF X _ _ _ that(1)])
qed

lemma object_ops_step:
  assumes X: "evm_laws X" and ok: "csdb_ok X s"
  shows "csdb_SetNonce X a n s = Some t \<Longrightarrow> stepped X s t" and "csdb_SetState X a k v s = Some t \<Longrightarrow> stepped X s t"
    and "csdb_SetCode X a c s = Some t \<Longrightarrow> stepped X s t"
proof -
  show "stepped X s t" if "csdb_SetNonce X a n s = Some t"
    using that unfolding csdb_SetNonce_def by (rule on_object [OF X ok]) (rule SetNonce_step [OF X])
  show "stepped X s t" if "csdb_SetState X a k v s = Some t"
    using that unfolding csdb_SetState_def by (rule on_object [OF X ok]) (rule SetState_step [OF X])
  show "stepped X s t" if "csdb_SetCode X a c s = Some t"
    using that unfolding csdb_SetCode_def by (rule on_object [OF X ok]) (rule SetCode_step [OF X _ _ _ _ evm_lawsD(2) [OF X]])
qed

lemma refund_ops_step:
  assumes X: "evm_laws X" and ok: "csdb_ok X s"
  shows "AddRefund g s = Some t \<Longrightarrow> stepped X s t" and "SubRefund g s = Some t \<Longrightarrow> stepped X s t"
  using refund_step [OF X ok] by (auto simp: AddRefund_def SubRefund_def split: bind_splits if_splits)

lemma exec_step:
  assumes X: "evm_laws X" and ok: "csdb_ok X s" and q: "quiet p" and p: "p \<noteq> OpSnapshot" "\<And>n. p \<noteq> OpRevert n" and e: "exec X p s = Some t"
  shows "stepped X s t"
  using q p e
  by (cases p) (auto dest: balance_ops_step(1,2) [OF X ok] balance_ops_step(3) [OF X ok disjI1] balance_ops_step(3) [OF X ok disjI2] object_ops_step [OF X ok] refund_ops_step [OF X ok] AddLog_step [OF X ok]
      AddPreimage_step [OF X ok] AddAddress_step [OF X ok] AddSlot_step [OF X ok] Suicide_step [OF X ok] CreateAccount_step [OF X ok]
      GetBalance_reads(2) [OF X ok] Empty_reads(2) [OF X ok] lookup_reads(5-8) [OF X ok] GetCode_reads(2,3) [OF X ok]
      GetState_reads [OF X ok, THEN conjunct2, THEN conjunct2, THEN conjunct1, rule_format]
      GetState_reads [OF X ok, THEN conjunct2, THEN conjunct2, THEN conjunct2, rule_format])

subsection \<open>Histories\<close>

text \<open>
  \<open>T\<close> gives the state at the time of each snapshot. The revisions that are still valid are ordered, and undoing the entries
  above one of them leads back to its state.
\<close>

definition revision_ok :: "'b evm_ext \<Rightarrow> (nat \<Rightarrow> 'b csdb) \<Rightarrow> 'b csdb \<Rightarrow> nat \<times> nat \<Rightarrow> bool" where
  "revision_ok X T s = (\<lambda>(r, n). r < s_nextRevision s \<and> n \<le> length (j_entries (s_journal s)) \<and> csdb_ok X (T r)
     \<and> take n (j_entries (s_journal s)) = j_entries (s_journal (T r)) \<and> undoes X (rev (drop n (j_entries (s_journal s)))) s (T r))"

definition history_ok :: "'b evm_ext \<Rightarrow> (nat \<Rightarrow> 'b csdb) \<Rightarrow> 'b csdb \<Rightarrow> bool" where
  "history_ok X T s \<longleftrightarrow> csdb_ok X s \<and> sorted_wrt (\<lambda>p q. fst p < fst q \<and> snd p \<le> snd q) (s_revisions s)
     \<and> (\<forall>p\<in>set (s_revisions s). revision_ok X T s p)"

lemma history_step:
  assumes X: "evm_laws X" and h: "history_ok X T s" and st: "stepped X s t"
  shows "history_ok X T t"
proof -
  obtain new where n: "j_entries (s_journal t) = j_entries (s_journal s) @ new" "undoes X (rev new) t s"
    and r: "s_revisions t = s_revisions s" "s_nextRevision t = s_nextRevision s" and ok: "csdb_ok X t" "csdb_ok X s"
    using st h by (auto simp: stepped_def history_ok_def)
  have "revision_ok X T t p" if "revision_ok X T s p" for p
    using that n(1) r evm_log.chain_append [OF n(2)] X ok by (auto simp: revision_ok_def)
  then show ?thesis using h r ok by (auto simp: history_ok_def)
qed

lemma history_snapshot:
  assumes X: "evm_laws X" and h: "history_ok X T s" and s: "Snapshot s = (r, t)"
  shows "history_ok X (T(r := s)) t" and "r = s_nextRevision s" and "csdb_ok X t"
proof -
  have t: "r = s_nextRevision s" "t = s\<lparr>s_nextRevision := r + 1, s_revisions := s_revisions s @ [(r, length (j_entries (s_journal s)))]\<rparr>"
    using s by (auto simp: Snapshot_def Let_def)
  have ok: "csdb_ok X s" "csdb_ok X t" using h by (simp_all add: t(2) history_ok_def csdb_ok_def)
  have le: "csdb_le X s t" by (simp add: t(2) csdb_le_def rest_def)
  have "revision_ok X (T(r := s)) t p" if "p \<in> set (s_revisions s)" for p
  proof -
    have p: "revision_ok X T s p" using h that by (simp add: history_ok_def)
    then have "undoes X (rev (drop (snd p) (j_entries (s_journal s)))) t (T (fst p))"
      by (intro evm_log.chain_mono [OF _ le]) (use X ok in \<open>auto simp: revision_ok_def\<close>)
    with p show ?thesis by (auto simp: revision_ok_def t)
  qed
  moreover have "revision_ok X (T(r := s)) t (r, length (j_entries (s_journal s)))" using ok le by (simp add: revision_ok_def t(2))
  moreover have "\<forall>p\<in>set (s_revisions s). fst p < r \<and> snd p \<le> length (j_entries (s_journal s))"
    using h by (auto simp: history_ok_def revision_ok_def t(1))
  ultimately show "history_ok X (T(r := s)) t" using h ok by (auto simp: history_ok_def t(2) sorted_wrt_append)
  show "r = s_nextRevision s" "csdb_ok X t" by (fact t(1), fact ok(2))
qed

text \<open>The search of \<open>RevertToSnapshot\<close> finds the revision.\<close>

lemma find_revision:
  fixes revs :: "(nat \<times> nat) list"
  assumes s: "sorted_wrt (\<lambda>p q. fst p < fst q \<and> snd p \<le> snd q) revs" and r: "revs = before @ (r, n) # after"
  shows "sort_search (length revs) (\<lambda>i. r \<le> fst (revs ! i)) = length before"
proof (rule sort_search_unique)
  fix k l assume kl: "k \<le> l" "l < length revs" "r \<le> fst (revs ! k)"
  show "r \<le> fst (revs ! l)"
  proof (cases "k = l")
    case False
    then have "fst (revs ! k) < fst (revs ! l)" using s kl by (simp add: sorted_wrt_iff_nth_less)
    with kl(3) show ?thesis by simp
  qed (use kl in simp)
next
  fix k assume k: "k < length before"
  then have "fst (revs ! k) < fst (revs ! length before)" using sorted_wrt_nth_less [OF s, of k "length before"] by (simp add: r)
  then show "\<not> r \<le> fst (revs ! k)" by (simp add: r)
qed (simp_all add: r)

lemma history_revert:
  assumes X: "evm_laws X" and h: "history_ok X T s" and r: "(r, n) \<in> set (s_revisions s)"
  obtains t where "RevertToSnapshot X r s = Some t" and "history_ok X T t" and "csdb_le X (T r) t"
    and "j_entries (s_journal t) = j_entries (s_journal (T r))" and "r \<notin> fst ` set (s_revisions t)" and "s_nextRevision t = s_nextRevision s"
proof -
  let ?es = "j_entries (s_journal s)"
  obtain before after where b: "s_revisions s = before @ (r, n) # after" using r by (meson split_list)
  have k: "sort_search (length (s_revisions s)) (\<lambda>i. r \<le> fst (s_revisions s ! i)) = length before"
    by (rule find_revision [OF _ b]) (use h in \<open>simp add: history_ok_def\<close>)
  have rn: "revision_ok X T s (r, n)" and ok: "csdb_ok X s" using h r by (auto simp: history_ok_def)
  then have u: "undoes X (rev (drop n ?es)) s (T r)" "n \<le> length ?es" "take n ?es = j_entries (s_journal (T r))" by (simp_all add: revision_ok_def)
  obtain v where v: "undo_entries X (rev (drop n ?es)) s = Some v" "csdb_ok X v" "csdb_le X (T r) v"
    "s_revisions v = s_revisions s" "s_nextRevision v = s_nextRevision s" "j_entries (s_journal v) = ?es"
    using undoes_entries [OF u(1) ok] by blast
  let ?t = "v\<lparr>s_journal := (s_journal v)\<lparr>j_entries := take n ?es\<rparr>, s_revisions := before\<rparr>"
  have t: "RevertToSnapshot X r s = Some ?t" using k v by (simp add: RevertToSnapshot_def journal_revert_def b Let_def)
  have okt: "csdb_ok X ?t" using v(2) by (simp add: csdb_ok_def jok_def)
  have vt: "csdb_le X v ?t" by (simp add: csdb_le_def rest_def)
  have "revision_ok X T ?t p" if p: "p \<in> set before" for p
  proof -
    obtain r' m where p': "p = (r', m)" by force
    have m: "m \<le> n" "revision_ok X T s (r', m)" using h p by (auto simp: history_ok_def b p' sorted_wrt_append)
    have "drop m ?es = drop m (take n ?es) @ drop n ?es" using m(1)
      by (metis append_take_drop_id drop_drop drop_take le_add_diff_inverse2)
    then have "undoes X (rev (drop n ?es) @ rev (drop m (take n ?es))) s (T r')" using m(2) by (simp add: revision_ok_def)
    then obtain w where w: "undoes X (rev (drop n ?es)) s w" "csdb_ok X w" "undoes X (rev (drop m (take n ?es))) w (T r')"
      using evm_log.chain_prefix X ok by blast
    have "csdb_le X w v" using undoes_entries [OF w(1) ok] v(1) by auto
    then have "undoes X (rev (drop m (take n ?es))) ?t (T r')"
      by (intro evm_log.chain_mono [OF w(3) csdb_le_trans [OF _ vt]]) (use X w(2) okt in simp_all)
    with m u(2) v(5) show ?thesis by (auto simp: revision_ok_def p' min_def)
  qed
  then have "history_ok X T ?t" using okt h by (auto simp: history_ok_def b sorted_wrt_append)
  moreover have "csdb_le X (T r) ?t" by (rule csdb_le_trans [OF v(3) vt])
  moreover have "r \<notin> fst ` set before" using h by (auto simp: history_ok_def b sorted_wrt_append)
  ultimately show thesis using t v(5) u(3) by (intro that [of ?t]) auto
qed

lemma reverted:
  assumes "RevertToSnapshot X r s = Some t"
  shows "\<exists>n. (r, n) \<in> set (s_revisions s)"
proof -
  let ?k = "sort_search (length (s_revisions s)) (\<lambda>i. r \<le> fst (s_revisions s ! i))"
  have k: "?k \<noteq> length (s_revisions s)" "fst (s_revisions s ! ?k) = r"
    using assms by (auto simp: RevertToSnapshot_def Let_def split: if_splits)
  have "?k < length (s_revisions s)" using k(1) sort_search_le [of "length (s_revisions s)" "\<lambda>i. r \<le> fst (s_revisions s ! i)"] by simp
  then have "s_revisions s ! ?k \<in> set (s_revisions s)" by simp
  with k(2) show ?thesis by (metis prod.collapse)
qed

lemma exec_history:
  assumes X: "evm_laws X" and h: "history_ok X T s" and q: "quiet p" and e: "exec X p s = Some t"
  shows "\<exists>T'. history_ok X T' t \<and> (\<forall>r < s_nextRevision s. T' r = T r) \<and> s_nextRevision s \<le> s_nextRevision t"
proof -
  consider "p = OpSnapshot" | r where "p = OpRevert r" | "p \<noteq> OpSnapshot" "\<And>n. p \<noteq> OpRevert n" by blast
  then show ?thesis
  proof cases
    case 1
    then have "Snapshot s = (s_nextRevision s, t)" "s_nextRevision t = s_nextRevision s + 1" using e by (auto simp: Snapshot_def Let_def)
    with history_snapshot(1) [OF X h this(1)] show ?thesis by (intro exI [of _ "T(s_nextRevision s := s)"]) simp
  next
    case (2 r)
    then have r: "RevertToSnapshot X r s = Some t" using e by simp
    obtain n where n: "(r, n) \<in> set (s_revisions s)" using reverted [OF r] by blast
    show ?thesis by (rule history_revert [OF X h n]) (use r in auto)
  next
    case 3
    have ok: "csdb_ok X s" using h by (simp add: history_ok_def)
    note st = exec_step [OF X ok q 3 e]
    from history_step [OF X h st] st show ?thesis by (intro exI [of _ T]) (simp add: stepped_def)
  qed
qed

lemma exec_all_history:
  assumes X: "evm_laws X"
  shows "history_ok X T s \<Longrightarrow> list_all quiet ps \<Longrightarrow> exec_all X ps s = Some t \<Longrightarrow>
    \<exists>T'. history_ok X T' t \<and> (\<forall>r < s_nextRevision s. T' r = T r) \<and> s_nextRevision s \<le> s_nextRevision t"
proof (induction ps arbitrary: s T)
  case (Cons p ps)
  then obtain s1 where s1: "exec X p s = Some s1" "exec_all X ps s1 = Some t" by (auto split: bind_splits)
  have q: "quiet p" "list_all quiet ps" using Cons.prems(2) by simp_all
  obtain T1 where T1: "history_ok X T1 s1" "\<forall>r < s_nextRevision s. T1 r = T r" "s_nextRevision s \<le> s_nextRevision s1"
    using exec_history [OF X Cons.prems(1) q(1) s1(1)] by blast
  obtain T2 where "history_ok X T2 t" "\<forall>r < s_nextRevision s1. T2 r = T1 r" "s_nextRevision s1 \<le> s_nextRevision t"
    using Cons.IH [OF T1(1) q(2) s1(2)] by blast
  with T1 show ?case by (intro exI [of _ T2]) auto
qed auto

lemma fresh_history: "history_ok X T (Prepare th bh i (CreateEmptyCommitStateDB b kv))"
  by (simp add: history_ok_def Prepare_def CreateEmptyCommitStateDB_def csdb_ok_def jok_def newJournal_def al_ok_def newAccessList_def)

subsection \<open>A reference instance\<close>

text \<open>
  An account keeper as a list of accounts, which only hands out well-formed accounts, with the coin operations of the
  reference instance and a hash that pads to 32 bytes.
\<close>

definition good_account :: "eth_addr \<Rightarrow> account \<Rightarrow> bool" where
  "good_account a acc = (case acc of OtherAcc \<Rightarrow> True | EthAcc e \<Rightarrow> ac_Address e = a \<and> sorted_wrt (<) (map fst (ac_Coins e))
     \<and> list_all (\<lambda>c. 0 \<le> snd c) (ac_Coins e) \<and> (length (ac_CodeHash e) = 0 \<or> length (ac_CodeHash e) = 32))"

definition fresh_account :: "eth_addr \<Rightarrow> eth_account" where
  "fresh_account a = \<lparr>ac_Address = a, ac_Coins = [], ac_Sequence = 0, ac_CodeHash = []\<rparr>"

definition credit_account :: "(eth_addr \<times> account) list \<Rightarrow> eth_addr \<Rightarrow> coins \<Rightarrow> (eth_addr \<times> account) list" where
  "credit_account b a cs =
     (case map_of b a of
        Some (EthAcc acc) \<Rightarrow> (a, EthAcc (acc\<lparr>ac_Coins := c_add2 ref_sdk (ac_Coins acc) cs\<rparr>)) # b
      | _ \<Rightarrow> (a, EthAcc ((fresh_account a)\<lparr>ac_Coins := cs\<rparr>)) # b)"

definition ref_evm_sdk :: "(eth_addr \<times> account) list sdk" where
  "ref_evm_sdk =
     \<lparr>d_unit = d_unit ref_sdk, d_mul = d_mul ref_sdk, d_quo = d_quo ref_sdk, d_round = d_round ref_sdk, d_str = d_str ref_sdk,
      d_of_str = d_of_str ref_sdk, c_add2 = c_add2 ref_sdk, c_safe_sub = c_safe_sub ref_sdk, c_sort = c_sort ref_sdk, c_str = c_str ref_sdk,
      c_parse = c_parse ref_sdk, c_to_coins = c_to_coins ref_sdk, c_zero_fee = c_zero_fee ref_sdk, c_coin_valid = c_coin_valid ref_sdk,
      c_valid = c_valid ref_sdk, c_all_positive = c_all_positive ref_sdk, b_coins = (\<lambda>b a. []), b_supply = (\<lambda>b d. 0), b_mod_addr = rb_mod,
      b_send = (\<lambda>b src dst cs. Inl []), b_acc_to_mod = (\<lambda>b src m cs. Inl []), b_mod_to_acc = (\<lambda>b m dst cs. Inr (credit_account b dst cs)),
      b_mint = (\<lambda>b m cs. Inl []), b_burn = (\<lambda>b m cs. Inl []), b_blacklisted = (\<lambda>a. False), b_send_enabled = (\<lambda>b. True),
      b_code_hash = (\<lambda>b a. None), k_keccak_empty = [], s_mercury = (\<lambda>h. False), s_validate_denom = (\<lambda>d. d \<noteq> [])\<rparr>"

definition ref_evm :: "(eth_addr \<times> account) list evm_ext" where
  "ref_evm =
     \<lparr>x_sdk = ref_evm_sdk, x_keccak = BytesToHash,
      ak_get = (\<lambda>b a. case map_of b a of None \<Rightarrow> None | Some acc \<Rightarrow> if good_account a acc then Some acc else None),
      ak_set = (\<lambda>acc b. (ac_Address acc, EthAcc acc) # b), ak_remove = (\<lambda>acc b. filter (\<lambda>e. fst e \<noteq> ac_Address acc) b),
      ak_new = (\<lambda>a b. (fresh_account a, b))\<rparr>"

lemma amt_nonneg: "list_all (\<lambda>c. 0 \<le> snd c) cs \<Longrightarrow> 0 \<le> amt cs d"
  by (induction cs) auto

lemma ref_evm_laws: "evm_laws ref_evm"
proof -
  have "coins_laws ref_evm_sdk" using ref_coins_laws by (simp add: coins_laws_def ref_evm_sdk_def)
  then show ?thesis
    by (auto simp: evm_laws_def ref_evm_def BytesToHash_def good_account_def fresh_account_def acc_ok_def coins_ok_def amt_nonneg split: option.splits if_splits account.splits)
qed

definition ref_kv :: evm_kv where
  "ref_kv = \<lparr>kv_storage = (\<lambda>a k. None), kv_code = (\<lambda>h. None), kv_heights = (\<lambda>h. None), kv_params = \<lparr>ep_EnableCreate = True, ep_EnableCall = True, ep_EvmDenom = ''okt'', ep_ExtraEIPs = []\<rparr>\<rparr>"

abbreviation ref_start :: "(eth_addr \<times> account) list csdb" where
  "ref_start \<equiv> Prepare [] [] 0 (CreateEmptyCommitStateDB [] ref_kv)"

definition before_ops :: "evm_op list" where
  "before_ops = [OpAddBalance ''a'' 5, OpSetState ''a'' ''k'' ''v'', OpAddRefund 7]"

definition after_ops :: "evm_op list" where
  "after_ops = [OpSetState ''a'' ''k'' ''w'', OpSnapshot, OpCreateAccount ''b'', OpAddSlot ''b'' ''s'', OpSetCode ''a'' (Some ''c''), OpRevert 1,
     OpSubBalance ''a'' 2, OpSuicide ''a'', OpAddBalance ''b'' 9]"

subsection \<open>Reverting to a snapshot\<close>

text \<open>
  C36. After operations on a fresh database (balances, nonces, code, storage, logs, refunds, access lists, self-destructs,
  account creations, reads, snapshots and reverts) a snapshot is taken and further operations follow that do not revert past
  it. They can be any but zero additions to the balance of address 3, whose dirty mark the code keeps on purpose and after
  which a revert may even panic (\<open>ripemd_mark_panics\<close>). Then \<open>RevertToSnapshot\<close> returns, all that contracts can read is what it was at the snapshot, and so are the refund
  counter, logs, preimages, access list and the journal with its dirty marks; the identifier is spent.
\<close>

theorem snapshot_restores:
  assumes X: "evm_laws X" and s: "exec_all X ps (Prepare th bh i (CreateEmptyCommitStateDB b kv)) = Some s"
    and r: "Snapshot s = (r, s')" and t: "exec_all X qs s' = Some t" and q: "list_all quiet (ps @ qs)"
    and live: "r \<in> fst ` set (s_revisions t)"
  shows "\<exists>u. RevertToSnapshot X r t = Some u \<and> (\<forall>a key. evm_reads X a key u = evm_reads X a key s) \<and> s_refund u = s_refund s
    \<and> s_logs u = s_logs s \<and> s_logSize u = s_logSize s \<and> s_preimages u = s_preimages s \<and> s_access u = s_access s
    \<and> s_journal u = s_journal s \<and> r \<notin> fst ` set (s_revisions u)"
proof -
  have qs: "list_all quiet ps" "list_all quiet qs" using q by simp_all
  obtain T where T: "history_ok X T s" using exec_all_history [OF X fresh_history [of X undefined] qs(1) s] by blast
  note sn = history_snapshot [OF X T r]
  have "s_nextRevision s' = r + 1" using r by (auto simp: Snapshot_def Let_def)
  then obtain T' where T': "history_ok X T' t" "T' r = s" using exec_all_history [OF X sn(1) qs(2) t] by auto
  obtain n where n: "(r, n) \<in> set (s_revisions t)" using live by force
  obtain u where u: "RevertToSnapshot X r t = Some u" "history_ok X T' u" "csdb_le X s u" "j_entries (s_journal u) = j_entries (s_journal s)"
    and revs: "r \<notin> fst ` set (s_revisions u)"
    by (rule history_revert [OF X T'(1) n]) (use T'(2) in auto)
  have ok: "csdb_ok X s" "csdb_ok X u" using T u(2) by (simp_all add: history_ok_def)
  have "s_journal u = s_journal s" using u(3,4) by (simp add: csdb_le_def same_marks_def)
  moreover have "rest u = rest s" using u(3) by (simp add: csdb_le_def)
  ultimately show ?thesis using u(1) revs reads_same [OF X u(3) ok] by (intro exI [of _ u]) (simp add: rest_def)
qed

theorem snapshot_restores_witness:
  "\<exists>u. RevertToSnapshot ref_evm 0 (the (exec_all ref_evm after_ops (snd (Snapshot (the (exec_all ref_evm before_ops ref_start)))))) = Some u
     \<and> s_refund u = 7 \<and> map_option fst (csdb_GetBalance ref_evm ''a'' u) = Some 5
     \<and> map_option fst (csdb_GetState ref_evm ''a'' ''k'' u) = Some ''v'' \<and> map_option fst (Exist ref_evm ''b'' u) = Some False"
proof -
  let ?s = "the (exec_all ref_evm before_ops ref_start)"
  let ?s' = "snd (Snapshot ?s)"
  let ?t = "the (exec_all ref_evm after_ops ?s')"
  have s: "exec_all ref_evm before_ops ref_start = Some ?s"
  proof -
    have "\<not> Option.is_none (exec_all ref_evm before_ops ref_start)" by code_simp
    then show ?thesis by (simp add: Option.is_none_def)
  qed
  have t: "exec_all ref_evm after_ops ?s' = Some ?t"
  proof -
    have "\<not> Option.is_none (exec_all ref_evm after_ops ?s')" by code_simp
    then show ?thesis by (simp add: Option.is_none_def)
  qed
  have r: "Snapshot ?s = (0, ?s')"
  proof -
    have "fst (Snapshot ?s) = 0" by code_simp
    then show ?thesis by (simp add: prod_eq_iff)
  qed
  have q: "list_all quiet (before_ops @ after_ops)" by code_simp
  have l: "0 \<in> fst ` set (s_revisions ?t)" by code_simp
  have g: "s_refund ?s = 7" "map_option fst (csdb_GetBalance ref_evm ''a'' ?s) = Some 5"
    "map_option fst (csdb_GetState ref_evm ''a'' ''k'' ?s) = Some ''v''" "map_option fst (Exist ref_evm ''b'' ?s) = Some False" by code_simp+
  obtain u where u: "RevertToSnapshot ref_evm 0 ?t = Some u" "\<And>a key. evm_reads ref_evm a key u = evm_reads ref_evm a key ?s" "s_refund u = s_refund ?s"
    using snapshot_restores [OF ref_evm_laws s r t q l] by blast
  have "map_option fst (csdb_GetBalance ref_evm ''a'' u) = Some 5" "map_option fst (csdb_GetState ref_evm ''a'' ''k'' u) = Some ''v''"
    "map_option fst (Exist ref_evm ''b'' u) = Some False"
    using u(2) [of "''a''" "''k''"] u(2) [of "''b''" "''k''"] g(2-4) by (simp_all add: evm_reads_def)
  with u(1,3) g(1) show ?thesis by auto
qed

text \<open>
  A touch of address 3 that is reverted together with an earlier change of another account leaves an index that points
  behind the list of dirty accounts, because \<open>deleteDirty\<close> does not adjust the indices: the revert succeeds, but the next touch of
  address 3, which succeeds on a fresh database, indexes out of range and panics.
\<close>

theorem ripemd_mark_panics:
  "exec_all ref_evm [OpAddBalance ripemd 0] ref_start \<noteq> None
   \<and> exec_all ref_evm [OpSnapshot, OpAddBalance ''a'' 5, OpAddBalance ripemd 0, OpRevert 0] ref_start \<noteq> None
   \<and> exec_all ref_evm [OpSnapshot, OpAddBalance ''a'' 5, OpAddBalance ripemd 0, OpRevert 0, OpAddBalance ripemd 0] ref_start = None"
proof -
  have "\<not> Option.is_none (exec_all ref_evm [OpAddBalance ripemd 0] ref_start)"
    "\<not> Option.is_none (exec_all ref_evm [OpSnapshot, OpAddBalance ''a'' 5, OpAddBalance ripemd 0, OpRevert 0] ref_start)"
    "Option.is_none (exec_all ref_evm [OpSnapshot, OpAddBalance ''a'' 5, OpAddBalance ripemd 0, OpRevert 0, OpAddBalance ripemd 0] ref_start)"
    by code_simp+
  then show ?thesis by (simp add: Option.is_none_def)
qed

end
