(* ===== verification/EvmCommit.thy ===== *)
theory EvmCommit
  imports EvmSnapshot
begin

text \<open>
  Writing the EVM state to the stores: \<open>Finalise\<close> brings the accounts and the storage of every surviving dirty account
  to the account keeper and the KV store, so a fresh database reads what the old one showed, and removes the accounts of the
  others. The storage of a removed account stays in the KV store, and a contract created again at the address
  reads it.
\<close>

subsection \<open>Storage\<close>

definition slot_value :: "bytes option \<Rightarrow> eth_hash" where
  "slot_value raw = (case raw of Some b \<Rightarrow> if b = [] then zero_hash else BytesToHash b | None \<Rightarrow> zero_hash)"

lemma stored_slot: "stored kv a k = slot_value (kv_storage kv a k)"
  by (simp add: stored_def slot_value_def)

text \<open>The cached original values are those of the store.\<close>

definition origin_ok :: "state_object \<Rightarrow> (eth_hash \<rightharpoonup> bytes) \<Rightarrow> bool" where
  "origin_ok so store \<longleftrightarrow> (\<forall>k i. so_originIndex so k = Some i \<longrightarrow> i < length (so_originStorage so) \<and> so_originStorage so ! i = (k, slot_value (store k)))"

definition same_object :: "state_object \<Rightarrow> state_object \<Rightarrow> bool" where
  "same_object so so' \<longleftrightarrow> so_code so' = so_code so \<and> so_account so' = so_account so \<and> so_address so' = so_address so
     \<and> so_dirtyCode so' = so_dirtyCode so \<and> so_suicided so' = so_suicided so \<and> so_deleted so' = so_deleted so"

lemma commit_slot_ok:
  assumes o: "origin_ok so store" and k: "k \<in> dom (so_originIndex so)" and v: "length v = 32"
  obtains so' store' where "commit_slot (k, v) (so, store) = Some (so', store')" and "origin_ok so' store'" and "same_object so so'"
    and "so_dirtyIndex so' = (so_dirtyIndex so)(k := None)" and "dom (so_originIndex so) - {k} \<subseteq> dom (so_originIndex so')"
    and "slot_value (store' k) = v" and "\<And>q. q \<noteq> k \<Longrightarrow> store' q = store q"
proof -
  obtain i where i: "so_originIndex so k = Some i" "i < length (so_originStorage so)" "so_originStorage so ! i = (k, slot_value (store k))"
    using o k by (auto simp: origin_ok_def)
  have z: "slot_value None = zero_hash" "slot_value (Some v) = v" using v by (auto simp: slot_value_def BytesToHash_id)
  have other: "j \<noteq> i" if "so_originIndex so q = Some j" "q \<noteq> k" for q j using o that i(3) by (auto simp: origin_ok_def)
  consider (zero) "v = zero_hash" | (same) "v \<noteq> zero_hash" "v = slot_value (store k)" | (new) "v \<noteq> zero_hash" "v \<noteq> slot_value (store k)" by blast
  then show thesis
  proof cases
    case zero
    let ?so = "so\<lparr>so_dirtyIndex := (so_dirtyIndex so)(k := None), so_originIndex := (so_originIndex so)(k := None)\<rparr>"
    have "commit_slot (k, v) (so, store) = Some (?so, store(k := None))" using zero i(1) by (simp add: commit_slot_def Let_def)
    moreover have "origin_ok ?so (store(k := None))" using o by (auto simp: origin_ok_def)
    ultimately show thesis using zero z(1) by (intro that [of ?so "store(k := None)"]) (auto simp: same_object_def)
  next
    case same
    let ?so = "so\<lparr>so_dirtyIndex := (so_dirtyIndex so)(k := None)\<rparr>"
    have "commit_slot (k, v) (so, store) = Some (?so, store)" using same i by (simp add: commit_slot_def Let_def)
    moreover have "origin_ok ?so store" using o by (simp add: origin_ok_def)
    ultimately show thesis using same by (intro that [of ?so store]) (auto simp: same_object_def)
  next
    case new
    let ?so = "so\<lparr>so_dirtyIndex := (so_dirtyIndex so)(k := None), so_originStorage := (so_originStorage so)[i := (k, v)]\<rparr>"
    have "commit_slot (k, v) (so, store) = Some (?so, store(k \<mapsto> v))" using new i by (simp add: commit_slot_def Let_def)
    moreover have "origin_ok ?so (store(k \<mapsto> v))"
      unfolding origin_ok_def
    proof (intro allI impI)
      fix q j assume q: "so_originIndex ?so q = Some j"
      then show "j < length (so_originStorage ?so) \<and> so_originStorage ?so ! j = (q, slot_value ((store(k \<mapsto> v)) q))"
        using o i z(2) other [of q j] by (cases "q = k") (auto simp: origin_ok_def)
    qed
    ultimately show thesis using z(2) by (intro that [of ?so "store(k \<mapsto> v)"]) (auto simp: same_object_def)
  qed
qed

lemma commit_slots_ok:
  assumes "origin_ok so store" and "distinct (map fst kvs)" and "fst ` set kvs \<subseteq> dom (so_originIndex so)" and "\<forall>e\<in>set kvs. length (snd e) = 32"
  shows "\<exists>so' store'. commit_slots kvs (so, store) = Some (so', store') \<and> origin_ok so' store' \<and> same_object so so'
    \<and> so_dirtyIndex so' = (so_dirtyIndex so) |` (- fst ` set kvs)
    \<and> (\<forall>k. slot_value (store' k) = (case map_of kvs k of Some v \<Rightarrow> v | None \<Rightarrow> slot_value (store k)))"
  using assms
proof (induction kvs arbitrary: so store)
  case Nil
  then show ?case by (simp add: same_object_def)
next
  case (Cons e kvs)
  obtain k v where e: "e = (k, v)" by force
  have kv: "k \<in> dom (so_originIndex so)" "length v = 32" using Cons.prems e by auto
  obtain so1 store1 where 1: "commit_slot (k, v) (so, store) = Some (so1, store1)" "origin_ok so1 store1" "same_object so so1"
    "so_dirtyIndex so1 = (so_dirtyIndex so)(k := None)" "dom (so_originIndex so) - {k} \<subseteq> dom (so_originIndex so1)"
    "slot_value (store1 k) = v" "\<And>q. q \<noteq> k \<Longrightarrow> store1 q = store q" by (rule commit_slot_ok [OF Cons.prems(1) kv]) blast
  have "fst ` set kvs \<subseteq> dom (so_originIndex so) - {k}" using Cons.prems(2,3) e by auto
  then have "fst ` set kvs \<subseteq> dom (so_originIndex so1)" using 1(5) by (rule subset_trans)
  then obtain so2 store2 where 2: "commit_slots kvs (so1, store1) = Some (so2, store2)" "origin_ok so2 store2" "same_object so1 so2"
    "so_dirtyIndex so2 = (so_dirtyIndex so1) |` (- fst ` set kvs)"
    "\<forall>q. slot_value (store2 q) = (case map_of kvs q of Some v \<Rightarrow> v | None \<Rightarrow> slot_value (store1 q))"
    using Cons.IH [OF 1(2)] Cons.prems(2,4) by auto
  have "map_of kvs k = None" using Cons.prems(2) e by (simp add: map_of_eq_None_iff)
  then have "\<forall>q. slot_value (store2 q) = (case map_of (e # kvs) q of Some v \<Rightarrow> v | None \<Rightarrow> slot_value (store q))"
    using 2(5) 1(6,7) e by (auto split: option.splits)
  moreover have "same_object so so2" using 1(3) 2(3) by (simp add: same_object_def)
  moreover have "so_dirtyIndex so2 = (so_dirtyIndex so) |` (- fst ` set (e # kvs))"
    unfolding 2(4) 1(4) using e by (auto simp: fun_eq_iff restrict_map_def)
  ultimately show ?case using 1(1) 2(1,2) e by (intro exI [of _ so2] exI [of _ store2]) simp
qed

subsection \<open>Accounts\<close>

text \<open>The account keeper returns what was stored and nothing after a removal.\<close>

definition keeper_laws :: "'b evm_ext \<Rightarrow> bool" where
  "keeper_laws X \<longleftrightarrow> evm_laws X
     \<and> (\<forall>acc b. acc_ok (ac_Address acc) acc \<and> length (ac_CodeHash acc) = 32 \<longrightarrow> ak_get X (ak_set X acc b) = (ak_get X b)(ac_Address acc \<mapsto> EthAcc acc))
     \<and> (\<forall>acc b. ak_get X (ak_remove X acc b) = (ak_get X b)(ac_Address acc := None))"

text \<open>What is in the stores for an account after it was written.\<close>

definition persisted :: "'b evm_ext \<Rightarrow> denom \<Rightarrow> bool \<Rightarrow> evm_kv \<Rightarrow> state_object \<Rightarrow> eth_addr \<Rightarrow> 'b \<Rightarrow> evm_kv \<Rightarrow> bool" where
  "persisted X d del kv so a b' kv' \<longleftrightarrow>
     (if so_suicided so \<or> del \<and> so_empty X d so then ak_get X b' a = None \<and> kv_storage kv' a = kv_storage kv a
      else (\<exists>acc. ak_get X b' a = Some (EthAcc acc) \<and> amt (ac_Coins acc) = amt (ac_Coins (so_account so))
               \<and> ac_Sequence acc = ac_Sequence (so_account so) \<and> ac_CodeHash acc = ac_CodeHash (so_account so))
           \<and> (\<forall>k. stored kv' a k = slot_of kv so k))"

definition dirty_ok :: "eth_addr \<Rightarrow> (eth_hash \<rightharpoonup> bytes) \<Rightarrow> state_object \<Rightarrow> bool" where
  "dirty_ok a store so \<longleftrightarrow> so_address so = a \<and> acc_ok a (so_account so) \<and> length (ac_CodeHash (so_account so)) = 32
     \<and> indexed (so_dirtyStorage so) (so_dirtyIndex so) \<and> origin_ok so store \<and> dom (so_dirtyIndex so) \<subseteq> dom (so_originIndex so)
     \<and> (\<forall>e\<in>set (so_dirtyStorage so). length (snd e) = 32)"

text \<open>Only one address of the stores and the objects is touched.\<close>

definition only_at :: "'b evm_ext \<Rightarrow> eth_addr \<Rightarrow> 'b csdb \<Rightarrow> 'b csdb \<Rightarrow> bool" where
  "only_at X a s t \<longleftrightarrow> indexed (s_objects t) (s_index t) \<and> params_of t = params_of s \<and> kv_params (s_kv t) = kv_params (s_kv s)
     \<and> (\<forall>c. c \<noteq> a \<longrightarrow> objs t c = objs s c \<and> ak_get X (s_bank t) c = ak_get X (s_bank s) c \<and> kv_storage (s_kv t) c = kv_storage (s_kv s) c)"

lemma only_at_refl: "indexed (s_objects s) (s_index s) \<Longrightarrow> only_at X a s s"
  by (simp add: only_at_def)

lemma only_at_trans: "only_at X a s t \<Longrightarrow> only_at X a t u \<Longrightarrow> only_at X a s u"
  by (simp add: only_at_def)

lemma only_at_cached [simp]: "only_at X a (cached_params s) t = only_at X a s t"
  by (simp add: only_at_def)

lemma writes_only_at: "writes a v s t \<Longrightarrow> only_at X a s t"
  using writesD [of a v s t] rest_eqD [of t s] by (simp add: only_at_def)

lemma delete_persists:
  assumes X: "keeper_laws X" and ix: "indexed (s_objects s) (s_index s)" and o: "objs s a = Some so" "dirty_ok a store so"
    and t: "deleteStateObject X a s = Some t"
  shows "only_at X a s t" and "ak_get X (s_bank t) a = None" and "kv_storage (s_kv t) a = kv_storage (s_kv s) a"
proof -
  obtain s1 where s1: "upd_obj a (\<lambda>x. Some (x\<lparr>so_deleted := True\<rparr>)) s = Some s1" "t = s1\<lparr>s_bank := ak_remove X (so_account so) (s_bank s1)\<rparr>"
    using t o(1) obj_at_objs [OF ix] by (auto simp: deleteStateObject_def split: bind_splits)
  obtain x y where "writes a (Some y) s s1" by (rule upd_obj_Some [OF ix s1(1)])
  note w = writesD [OF this] and n = writes_only_at [OF this, of X]
  have adr: "ac_Address (so_account so) = a" using o(2) by (simp add: dirty_ok_def acc_ok_def)
  have g: "ak_get X (s_bank t) = (ak_get X (s_bank s))(a := None)" using X adr w(2) by (simp add: s1(2) keeper_laws_def)
  then show "ak_get X (s_bank t) a = None" by simp
  show "kv_storage (s_kv t) a = kv_storage (s_kv s) a" using rest_eqD [OF w(1)] by (simp add: s1(2))
  show "only_at X a s t" using n g by (simp add: only_at_def s1(2))
qed

lemma commitState_persists:
  assumes ix: "indexed (s_objects s) (s_index s)" and o: "objs s a = Some so" "dirty_ok a (kv_storage (s_kv s) a) so"
  obtains t n where "so_commitState a s = Some t" and "only_at X a s t" and "objs t a = Some n" and "same_object so n" and "s_bank t = s_bank s"
    and "\<forall>k. stored (s_kv t) a k = slot_of (s_kv s) so k"
proof -
  have d: "indexed (so_dirtyStorage so) (so_dirtyIndex so)" "origin_ok so (kv_storage (s_kv s) a)" "so_address so = a" using o(2) by (simp_all add: dirty_ok_def)
  have "fst ` set (so_dirtyStorage so) \<subseteq> dom (so_originIndex so)"
  proof
    fix k assume "k \<in> fst ` set (so_dirtyStorage so)"
    then have "map_of (so_dirtyStorage so) k \<noteq> None" by (simp add: map_of_eq_None_iff)
    then have "k \<in> dom (so_dirtyIndex so)" using indexed_none [OF d(1), of k] by auto
    then show "k \<in> dom (so_originIndex so)" using o(2) by (auto simp: dirty_ok_def)
  qed
  then obtain n store where n: "commit_slots (so_dirtyStorage so) (so, kv_storage (s_kv s) a) = Some (n, store)" "same_object so n"
    "\<forall>k. slot_value (store k) = (case map_of (so_dirtyStorage so) k of Some v \<Rightarrow> v | None \<Rightarrow> slot_value (kv_storage (s_kv s) a k))"
    using commit_slots_ok [OF d(2) indexed_distinct [OF d(1)]] o(2) by (auto simp: dirty_ok_def)
  let ?n = "n\<lparr>so_dirtyStorage := []\<rparr>"
  obtain s1 where s1: "upd_obj a (\<lambda>_. Some ?n) s = Some s1" "writes a (Some ?n) s s1" by (rule upd_obj_writes [of s a so, OF ix o(1)]) simp
  let ?t = "s1\<lparr>s_kv := (s_kv s1)\<lparr>kv_storage := (kv_storage (s_kv s1))(a := store)\<rparr>\<rparr>"
  note w = writesD [OF s1(2)] and re = rest_eqD [OF writesD(1) [OF s1(2)]]
  have "so_commitState a s = Some ?t" using obj_at_objs [OF ix] o(1) n(1) s1(1) d(3) by (simp add: so_commitState_def)
  moreover have "params_of ?t = params_of s" using re by (simp add: params_of_def split: option.splits)
  then have "only_at X a s ?t" using writes_only_at [OF s1(2), of X] by (simp add: only_at_def)
  moreover have "\<forall>k. stored (s_kv ?t) a k = slot_of (s_kv s) so k" using n(3) d(3) by (simp add: stored_slot slot_of_def split: option.splits)
  moreover have "objs ?t a = Some ?n" "same_object so ?n" "s_bank ?t = s_bank s" using w n(2) by (simp_all add: same_object_def)
  ultimately show thesis by (intro that [of ?t ?n])
qed

lemma update_persists:
  assumes X: "keeper_laws X" and ix: "indexed (s_objects s) (s_index s)" and o: "objs s a = Some so" "acc_ok a (so_account so)" "length (ac_CodeHash (so_account so)) = 32"
    and t: "updateStateObject X a s = Some (None, t)"
  shows "only_at X a s t" and "s_kv t = s_kv s"
    and "\<exists>acc. ak_get X (s_bank t) a = Some (EthAcc acc) \<and> amt (ac_Coins acc) = amt (ac_Coins (so_account so))
               \<and> ac_Sequence acc = ac_Sequence (so_account so) \<and> ac_CodeHash acc = ac_CodeHash (so_account so)"
proof -
  let ?d = "ep_EvmDenom (params_of s)" and ?v = "acc_Balance (ep_EvmDenom (params_of s)) (so_account so)" and ?c = "ac_Coins (so_account so)"
  define cs where "cs = (if amt ?c ?d = 0 \<or> amt ?c ?d \<noteq> ?v then c_add2 (x_sdk X) ?c [(?d, ?v)] else ?c)"
  define acc where "acc = (so_account so)\<lparr>ac_Coins := cs\<rparr>"
  have ix': "indexed (s_objects (cached_params s)) (s_index (cached_params s))" using ix by simp
  have at: "obj_at a (cached_params s) = Some so" using obj_at_objs [OF ix'] o(1) by simp
  obtain s2 where s2: "upd_obj a (\<lambda>x. Some (x\<lparr>so_account := acc\<rparr>)) (cached_params s) = Some s2" "t = s2\<lparr>s_bank := ak_set X acc (s_bank s2)\<rparr>"
    using t at by (auto simp: updateStateObject_def Let_def acc_def cs_def split: if_splits bind_splits)
  obtain x y where "writes a (Some y) (cached_params s) s2" by (rule upd_obj_Some [OF ix' s2(1)])
  note w = writesD [OF this] and n = writes_only_at [OF this, of X]
  have L: "coins_laws (x_sdk X)" using X evm_lawsD(1) by (auto simp: keeper_laws_def)
  have ok: "coins_ok ?c" "\<And>d. 0 \<le> amt ?c d" "ac_Address (so_account so) = a" using o(2) by (simp_all add: acc_ok_def)
  have "amt cs = amt ?c \<and> coins_ok cs"
  proof (cases "amt ?c ?d = 0")
    case True
    then have "?v = 0" by (simp add: acc_Balance_def)
    with True coins_add2 [OF L ok(1) coins_ok_single(1), of "(?d, ?v)"] show ?thesis by (auto simp: cs_def)
  next
    case False
    then show ?thesis using ok(1) by (simp add: cs_def acc_Balance_def)
  qed
  then have acc: "amt (ac_Coins acc) = amt ?c" "acc_ok a acc" "ac_Sequence acc = ac_Sequence (so_account so)"
    "ac_CodeHash acc = ac_CodeHash (so_account so)" using ok by (simp_all add: acc_def acc_ok_def)
  then have g: "ak_get X (s_bank t) = (ak_get X (s_bank s))(a \<mapsto> EthAcc acc)"
    using X o(3) w(2) by (simp add: keeper_laws_def s2(2) acc_ok_def)
  show "only_at X a s t" using n g by (simp add: only_at_def s2(2))
  show "s_kv t = s_kv s" using rest_eqD [OF w(1)] by (simp add: s2(2))
  show "\<exists>acc. ak_get X (s_bank t) a = Some (EthAcc acc) \<and> amt (ac_Coins acc) = amt ?c
      \<and> ac_Sequence acc = ac_Sequence (so_account so) \<and> ac_CodeHash acc = ac_CodeHash (so_account so)" using g acc by auto
qed

lemma finalise_one:
  assumes X: "keeper_laws X" and ix: "indexed (s_objects s) (s_index s)" and o: "objs s a = Some so" "dirty_ok a (kv_storage (s_kv s) a) so"
    and t: "finalise_objects X del (a # as) s = Some (None, t)"
  obtains u where "finalise_objects X del as u = Some (None, t)" and "only_at X a s u"
    and "persisted X (ep_EvmDenom (params_of s)) del (s_kv s) so a (s_bank u) (s_kv u)"
proof -
  let ?d = "ep_EvmDenom (params_of s)"
  define s0 where "s0 = (if \<not> so_suicided so \<and> del then snd (evm_GetParams s) else s)"
  have s0: "indexed (s_objects s0) (s_index s0)" "objs s0 = objs s" "s_kv s0 = s_kv s" "s_bank s0 = s_bank s" "only_at X a s0 = only_at X a s" "params_of s0 = params_of s"
    using ix by (auto simp: s0_def fun_eq_iff)
  have o0: "objs s0 a = Some so" "dirty_ok a (kv_storage (s_kv s0) a) so" using o s0 by simp_all
  obtain i where i: "s_index s a = Some i" using indexed_none [OF ix, of a] o(1) by (cases "s_index s a") auto
  note at = obj_at_objs [OF ix, of a, unfolded o(1)]
  show thesis
  proof (cases "so_suicided so \<or> del \<and> so_empty X ?d so")
    case True
    have "deleteStateObject X a s0 \<bind> (\<lambda>s1. finalise_objects X del as (s1\<lparr>s_dirty := insert a (s_dirty s1)\<rparr>)) = Some (None, t)"
      using t i at True by (auto simp: s0_def split: if_splits)
    then obtain s1 where s1: "deleteStateObject X a s0 = Some s1" "finalise_objects X del as (s1\<lparr>s_dirty := insert a (s_dirty s1)\<rparr>) = Some (None, t)"
      by (auto split: bind_splits)
    note p = delete_persists [OF X s0(1) o0 s1(1)]
    show thesis by (rule that [OF s1(2)]) (use p s0 True in \<open>simp_all add: only_at_def persisted_def\<close>)
  next
    case False
    obtain s1 n where s1: "so_commitState a s0 = Some s1" "only_at X a s0 s1" "objs s1 a = Some n" "same_object so n" "s_bank s1 = s_bank s0"
      "\<forall>k. stored (s_kv s1) a k = slot_of (s_kv s0) so k" by (rule commitState_persists [OF s0(1) o0, where X = X])
    have "updateStateObject X a s1 \<bind> (\<lambda>(er, s2). case er of Some e \<Rightarrow> Some (Some e, s2)
        | None \<Rightarrow> finalise_objects X del as (s2\<lparr>s_dirty := insert a (s_dirty s2)\<rparr>)) = Some (None, t)"
      using t i at False s1(1) by (auto simp: s0_def split: if_splits)
    then obtain s2 where s2: "updateStateObject X a s1 = Some (None, s2)" "finalise_objects X del as (s2\<lparr>s_dirty := insert a (s_dirty s2)\<rparr>) = Some (None, t)"
      by (auto split: bind_splits option.splits)
    have n: "acc_ok a (so_account n)" "length (ac_CodeHash (so_account n)) = 32" "so_account n = so_account so"
      using s1(4) o(2) by (simp_all add: same_object_def dirty_ok_def)
    have ix1: "indexed (s_objects s1) (s_index s1)" using s1(2) by (simp add: only_at_def)
    note p = update_persists [OF X ix1 s1(3) n(1,2) s2(1)]
    have "only_at X a s s2" using only_at_trans [of X a s s1 s2] p(1) s1(2) s0(5) by simp
    then show thesis
      by (intro that [OF s2(2)]) (use p(2,3) s0 s1(6) n(3) False in \<open>auto simp: only_at_def persisted_def\<close>)
  qed
qed

lemma finalise_all:
  assumes X: "keeper_laws X"
  shows "indexed (s_objects s) (s_index s) \<Longrightarrow> distinct as \<Longrightarrow> \<forall>a\<in>set as. \<forall>so. objs s a = Some so \<longrightarrow> dirty_ok a (kv_storage (s_kv s) a) so \<Longrightarrow>
    finalise_objects X del as s = Some (None, t) \<Longrightarrow>
    (\<forall>a\<in>set as. \<forall>so. objs s a = Some so \<longrightarrow> persisted X (ep_EvmDenom (params_of s)) del (s_kv s) so a (s_bank t) (s_kv t))
    \<and> (\<forall>a. a \<notin> set as \<or> objs s a = None \<longrightarrow> ak_get X (s_bank t) a = ak_get X (s_bank s) a \<and> kv_storage (s_kv t) a = kv_storage (s_kv s) a)
    \<and> kv_params (s_kv t) = kv_params (s_kv s)"
proof (induction as arbitrary: s)
  case (Cons a as)
  show ?case
  proof (cases "objs s a")
    case None
    then have "s_index s a = None" using indexed_none [OF Cons.prems(1), of a] by simp
    then have "finalise_objects X del as s = Some (None, t)" using Cons.prems(4) by simp
    from Cons.IH [OF Cons.prems(1) _ _ this] Cons.prems(2,3) None show ?thesis by auto
  next
    case (Some so)
    then have d: "dirty_ok a (kv_storage (s_kv s) a) so" using Cons.prems(3) by simp
    obtain u where u: "finalise_objects X del as u = Some (None, t)" "only_at X a s u"
      "persisted X (ep_EvmDenom (params_of s)) del (s_kv s) so a (s_bank u) (s_kv u)" by (rule finalise_one [OF X Cons.prems(1) Some d Cons.prems(4)])
    have n: "a \<notin> set as" "distinct as" using Cons.prems(2) by simp_all
    have at: "objs u c = objs s c" "ak_get X (s_bank u) c = ak_get X (s_bank s) c" "kv_storage (s_kv u) c = kv_storage (s_kv s) c" if "c \<noteq> a" for c
      using u(2) that by (simp_all add: only_at_def)
    have d': "\<forall>c\<in>set as. \<forall>x. objs u c = Some x \<longrightarrow> dirty_ok c (kv_storage (s_kv u) c) x"
    proof (intro ballI allI impI)
      fix c x assume c: "c \<in> set as" "objs u c = Some x"
      then have "c \<noteq> a" using n by auto
      with at [OF this] c Cons.prems(3) show "dirty_ok c (kv_storage (s_kv u) c) x" by auto
    qed
    have ix: "indexed (s_objects u) (s_index u)" "params_of u = params_of s" using u(2) by (simp_all add: only_at_def)
    note IH = Cons.IH [OF ix(1) n(2) d' u(1)]
    have same: "persisted X (ep_EvmDenom (params_of s)) del (s_kv s) x c (s_bank t) (s_kv t)" if "c \<in> set as" "objs s c = Some x" for c x
    proof -
      have c: "c \<noteq> a" using that(1) n by auto
      have p: "persisted X (ep_EvmDenom (params_of u)) del (s_kv u) x c (s_bank t) (s_kv t)" using IH that at(1) [OF c] by simp
      have "so_address x = c" using Cons.prems(3) that by (auto simp: dirty_ok_def)
      then have "slot_of (s_kv u) x = slot_of (s_kv s) x" using at(3) [OF c] by (simp add: slot_of_def stored_slot fun_eq_iff split: option.splits)
      with p at(3) [OF c] ix(2) show ?thesis by (simp add: persisted_def)
    qed
    have "ak_get X (s_bank t) a = ak_get X (s_bank u) a" "kv_storage (s_kv t) a = kv_storage (s_kv u) a" using IH n(1) by simp_all
    moreover from this(2) have "stored (s_kv t) a = stored (s_kv u) a" by (simp add: stored_slot fun_eq_iff)
    ultimately have "persisted X (ep_EvmDenom (params_of s)) del (s_kv s) so a (s_bank t) (s_kv t)" using u(3) by (simp add: persisted_def)
    with same have "\<forall>c\<in>set (a # as). \<forall>x. objs s c = Some x \<longrightarrow> persisted X (ep_EvmDenom (params_of s)) del (s_kv s) x c (s_bank t) (s_kv t)"
      using Some by auto
    moreover have "ak_get X (s_bank t) c = ak_get X (s_bank s) c \<and> kv_storage (s_kv t) c = kv_storage (s_kv s) c"
      if "c \<notin> set (a # as) \<or> objs s c = None" for c
    proof -
      have c: "c \<noteq> a" using that Some by auto
      with IH that at [OF c] show ?thesis by auto
    qed
    moreover have "kv_params (s_kv t) = kv_params (s_kv s)" using IH u(2) by (simp add: only_at_def)
    ultimately show ?thesis by blast
  qed
qed auto

subsection \<open>Operations before the state is written leave the store alone\<close>

definition kvp :: "'b evm_ext \<Rightarrow> 'b csdb \<Rightarrow> evm_kv \<times> evm_params \<times> (eth_addr \<Rightarrow> account option)" where
  "kvp X s = (s_kv s, params_of s, ak_get X (s_bank s))"

lemma kvp_simps [simp]:
  "kvp X (cached_params s) = kvp X s" "kvp X (s\<lparr>s_journal := j\<rparr>) = kvp X s" "kvp X (s\<lparr>s_access := al\<rparr>) = kvp X s" "kvp X (s\<lparr>s_refund := g\<rparr>) = kvp X s"
  "kvp X (s\<lparr>s_dirty := d\<rparr>) = kvp X s" "kvp X (s\<lparr>s_logs := l\<rparr>) = kvp X s" "kvp X (s\<lparr>s_logSize := n\<rparr>) = kvp X s"
  "kvp X (s\<lparr>s_preimages := p\<rparr>) = kvp X s" "kvp X (s\<lparr>s_preimageIndex := ix\<rparr>) = kvp X s" "kvp X (s\<lparr>s_objects := os\<rparr>) = kvp X s" "kvp X (s\<lparr>s_index := ix'\<rparr>) = kvp X s"
  "kvp X (s\<lparr>s_revisions := r\<rparr>) = kvp X s" "kvp X (s\<lparr>s_nextRevision := m\<rparr>) = kvp X s" "kvp X (s\<lparr>s_dbErr := er\<rparr>) = kvp X s"
  by (simp_all add: kvp_def)

lemma kvp_frame:
  "setStateObject so s = Some t \<Longrightarrow> kvp X t = kvp X s" "upd_obj a f s = Some t \<Longrightarrow> kvp X t = kvp X s"
  "getStateObject X a s = Some (x, t) \<Longrightarrow> kvp X t = kvp X s" "csdb_append e s = Some t \<Longrightarrow> kvp X t = kvp X s"
  by (auto simp: setStateObject_def upd_obj_def getStateObject_def csdb_append_def set_error_def Let_def split: option.splits if_splits bind_splits)

lemma kvp_create:
  assumes X: "evm_laws X"
  shows "createObject X a s = Some (n, p, t) \<Longrightarrow> kvp X t = kvp X s" "GetOrNewStateObject X a s = Some (so, t) \<Longrightarrow> kvp X t = kvp X s"
proof -
  have b: "kvp X (s\<lparr>s_bank := snd (ak_new X a (s_bank s))\<rparr>) = kvp X s" for s by (simp add: kvp_def evm_lawsD(5) [OF X])
  show c: "kvp X t = kvp X s" if h: "createObject X a s = Some (n, p, t)" for s t n p
  proof -
    obtain s1 s2 n1 where "getStateObject X a s = Some (p, s1)" "csdb_append (case p of None \<Rightarrow> createObjectChange a | Some p \<Rightarrow> resetObjectChange p)
        (s1\<lparr>s_bank := snd (ak_new X a (s_bank s1))\<rparr>) = Some s2" "setStateObject n1 s2 = Some t"
      using h by (auto simp: createObject_def Let_def split: bind_splits prod.splits)
    then show ?thesis using kvp_frame(1,3,4) b by metis
  qed
  show "kvp X t = kvp X s" if "GetOrNewStateObject X a s = Some (so, t)"
    using that by (auto simp: GetOrNewStateObject_def dest!: kvp_frame(3) c split: bind_splits option.splits if_splits)
qed

lemma kvp_object_ops:
  "so_SetBalance X a v s = Some t \<Longrightarrow> kvp X t = kvp X s" "so_SetNonce a n s = Some t \<Longrightarrow> kvp X t = kvp X s"
  "so_SetState X a k w s = Some t \<Longrightarrow> kvp X t = kvp X s" "so_SetCode X a h c s = Some t \<Longrightarrow> kvp X t = kvp X s" "so_touch a s = Some t \<Longrightarrow> kvp X t = kvp X s"
  by (auto simp: so_SetBalance_def so_SetNonce_def so_SetState_def so_SetCode_def so_touch_def Let_def dest!: kvp_frame [where X = X] split: bind_splits if_splits prod.splits)

lemma kvp_balance_ops: "so_AddBalance X a v s = Some t \<Longrightarrow> kvp X t = kvp X s" "so_SubBalance X a v s = Some t \<Longrightarrow> kvp X t = kvp X s"
  by (auto simp: so_AddBalance_def so_SubBalance_def dest!: kvp_object_ops [where X = X] split: bind_splits if_splits)

lemma kvp_revert: "entry_revert X e s = Some t \<Longrightarrow> kvp X t = kvp X s"
  by (cases e) (auto simp: Let_def DeleteLogs_def SetLogs_def dest!: kvp_frame [where X = X] split: option.splits bind_splits prod.splits if_splits)

lemma kvp_undo: "undo_entries X es s = Some t \<Longrightarrow> kvp X t = kvp X s"
proof (induction es arbitrary: s)
  case (Cons e es)
  then obtain s1 j where "entry_revert X e s = Some s1" "undo_entries X es (s1\<lparr>s_journal := j\<rparr>) = Some t" by (auto split: bind_splits)
  with Cons.IH [of "s1\<lparr>s_journal := j\<rparr>"] kvp_revert [of X e s s1] show ?case by simp
qed simp

lemma kvp_getters:
  "csdb_GetBalance X a s = Some (v, t) \<Longrightarrow> kvp X t = kvp X s" "csdb_GetNonce X a s = Some (n, t) \<Longrightarrow> kvp X t = kvp X s"
  "csdb_GetCode X a s = Some (c, t) \<Longrightarrow> kvp X t = kvp X s" "csdb_GetCodeSize X a s = Some (m, t) \<Longrightarrow> kvp X t = kvp X s"
  "csdb_GetCodeHash X a s = Some (h, t) \<Longrightarrow> kvp X t = kvp X s" "csdb_GetState X a k s = Some (w, t) \<Longrightarrow> kvp X t = kvp X s"
  "csdb_GetCommittedState X a k s = Some (w, t) \<Longrightarrow> kvp X t = kvp X s" "HasSuicided X a s = Some (b, t) \<Longrightarrow> kvp X t = kvp X s"
  "Exist X a s = Some (b, t) \<Longrightarrow> kvp X t = kvp X s" "csdb_Empty X a s = Some (b, t) \<Longrightarrow> kvp X t = kvp X s"
  by (auto simp: csdb_GetBalance_def csdb_GetNonce_def csdb_GetCode_def csdb_GetCodeSize_def csdb_GetCodeHash_def csdb_GetState_def
      csdb_GetCommittedState_def HasSuicided_def Exist_def csdb_Empty_def Let_def dest!: kvp_frame [where X = X] split: bind_splits option.splits prod.splits)

lemma kvp_db_ops:
  assumes "evm_laws X"
  shows "csdb_SetBalance X a v s = Some t \<Longrightarrow> kvp X t = kvp X s" "csdb_AddBalance X a v s = Some t \<Longrightarrow> kvp X t = kvp X s"
    "csdb_SubBalance X a v s = Some t \<Longrightarrow> kvp X t = kvp X s" "csdb_SetNonce X a n s = Some t \<Longrightarrow> kvp X t = kvp X s"
    "csdb_SetState X a k w s = Some t \<Longrightarrow> kvp X t = kvp X s" "csdb_SetCode X a c s = Some t \<Longrightarrow> kvp X t = kvp X s"
    "Suicide X a s = Some (b, t) \<Longrightarrow> kvp X t = kvp X s" "CreateAccount X a s = Some t \<Longrightarrow> kvp X t = kvp X s"
  by (auto simp: csdb_SetBalance_def csdb_AddBalance_def csdb_SubBalance_def csdb_SetNonce_def csdb_SetState_def csdb_SetCode_def Suicide_def
      CreateAccount_def dest!: kvp_create [OF assms] kvp_object_ops [where X = X] kvp_balance_ops kvp_frame [where X = X] split: bind_splits option.splits)

lemma kvp_exact_ops:
  "AddLog l s = Some t \<Longrightarrow> kvp X t = kvp X s" "AddPreimage h pr s = Some t \<Longrightarrow> kvp X t = kvp X s" "AddRefund g s = Some t \<Longrightarrow> kvp X t = kvp X s"
  "SubRefund g s = Some t \<Longrightarrow> kvp X t = kvp X s" "AddAddressToAccessList a s = Some t \<Longrightarrow> kvp X t = kvp X s" "AddSlotToAccessList a k s = Some t \<Longrightarrow> kvp X t = kvp X s"
  by (auto simp: AddLog_def AddPreimage_def AddRefund_def SubRefund_def AddAddressToAccessList_def AddSlotToAccessList_def Let_def
      dest!: kvp_frame [where X = X] split: bind_splits if_splits prod.splits)

lemma exec_kvp:
  assumes X: "evm_laws X"
  shows "exec X p s = Some t \<Longrightarrow> kvp X t = kvp X s"
  by (cases p) (auto simp: Snapshot_def Let_def RevertToSnapshot_def journal_revert_def dest!: kvp_db_ops [OF X] kvp_exact_ops [where X = X] kvp_getters kvp_undo
      split: bind_splits if_splits)

lemma exec_all_kvp: "evm_laws X \<Longrightarrow> exec_all X ps s = Some t \<Longrightarrow> kvp X t = kvp X s"
  by (induction ps arbitrary: s) (auto dest!: exec_kvp split: bind_splits)

subsection \<open>Finalising\<close>

definition word_values :: "'b csdb \<Rightarrow> bool" where
  "word_values s = list_all (\<lambda>(a, so). list_all (\<lambda>e. length (snd e) = 32) (so_dirtyStorage so)) (s_objects s)"

lemma object_dirty_ok:
  assumes ok: "csdb_ok X s" and w: "word_values s" and o: "objs s a = Some so"
  shows "dirty_ok a (kv_storage (s_kv s) a) so"
proof -
  have "obj_ok X (s_kv s) (ak_get X (s_bank s) a) a so" by (rule live_object(1) [OF ok o])
  moreover have "\<forall>e\<in>set (so_dirtyStorage so). length (snd e) = 32"
    using w map_of_SomeD [OF o] by (auto simp: word_values_def list_all_iff)
  ultimately show ?thesis by (simp add: obj_ok_def dirty_ok_def origin_ok_def stored_slot)
qed

lemma Finalise_parts:
  assumes "Finalise X del s = Some (None, t)"
  obtains u where "finalise_objects X del (map fst (j_dirties (s_journal s))) s = Some (None, u)" and "s_bank t = s_bank u" and "s_kv t = s_kv u"
proof -
  obtain u where "finalise_objects X del (map fst (j_dirties (s_journal s))) s = Some (None, u)" "t = DeleteLogs (s_thash u) (clearJournalAndRefund u)"
    using assms by (auto simp: Finalise_def split: bind_splits option.splits)
  then show thesis using that [of u] by (simp add: DeleteLogs_def clearJournalAndRefund_def)
qed

lemma fresh_ok: "csdb_ok X (CreateEmptyCommitStateDB b kv)"
  by (simp add: CreateEmptyCommitStateDB_def csdb_ok_def jok_def newJournal_def al_ok_def newAccessList_def)

lemma fresh_reads: "found X (CreateEmptyCommitStateDB b kv) a = (case ak_get X b a of None \<Rightarrow> Some None | Some OtherAcc \<Rightarrow> None
    | Some (EthAcc acc) \<Rightarrow> Some (newStateObject X (EthAcc acc)))"
  by (simp add: found_def seen_def CreateEmptyCommitStateDB_def split: option.splits account.splits)

text \<open>The account with its storage that a fresh database reads after \<open>Finalise\<close>.\<close>

lemma finalised:
  assumes K: "keeper_laws X" and ok: "csdb_ok X s" and w: "word_values s" and d: "distinct (map fst (j_dirties (s_journal s)))"
    and f: "Finalise X del s = Some (None, t)" and a: "a \<in> fst ` set (j_dirties (s_journal s))" and o: "objs s a = Some so"
  shows "persisted X (ep_EvmDenom (params_of s)) del (s_kv s) so a (s_bank t) (s_kv t)" and "kv_params (s_kv t) = kv_params (s_kv s)"
proof -
  obtain u where u: "finalise_objects X del (map fst (j_dirties (s_journal s))) s = Some (None, u)" "s_bank t = s_bank u" "s_kv t = s_kv u"
    by (rule Finalise_parts [OF f])
  note all = finalise_all [OF K csdb_okD(1) [OF ok] d _ u(1)]
  have "\<forall>c\<in>set (map fst (j_dirties (s_journal s))). \<forall>x. objs s c = Some x \<longrightarrow> dirty_ok c (kv_storage (s_kv s) c) x"
    using object_dirty_ok [OF ok w] by blast
  with all a o u(2,3) show "persisted X (ep_EvmDenom (params_of s)) del (s_kv s) so a (s_bank t) (s_kv t)" "kv_params (s_kv t) = kv_params (s_kv s)" by auto
qed

lemma run_ok:
  assumes X: "evm_laws X" and run: "exec_all X ps (Prepare th bh i (CreateEmptyCommitStateDB b kv)) = Some s" and q: "list_all quiet ps"
  shows "csdb_ok X s" and "s_kv s = kv" and "params_of s = kv_params kv"
proof -
  show "csdb_ok X s" using exec_all_history [OF X fresh_history [of X undefined] q run] by (auto simp: history_ok_def)
  show "s_kv s = kv" "params_of s = kv_params kv" using exec_all_kvp [OF X run] by (simp_all add: kvp_def Prepare_def CreateEmptyCommitStateDB_def params_of_def)
qed

text \<open>
  C37. A transaction on a fresh database ends with \<open>Finalise\<close>. For every account with a dirty mark: if it destroyed itself, or is
  empty and empty accounts are to be deleted, a fresh database on the resulting stores does not find it; otherwise the fresh
  database reads the balance, nonce, code hash and every storage value that the old one showed.
\<close>

theorem finalise_persists:
  assumes K: "keeper_laws X" and run: "exec_all X ps (Prepare th bh i (CreateEmptyCommitStateDB b kv)) = Some s" and q: "list_all quiet ps"
    and w: "word_values s" and d: "distinct (map fst (j_dirties (s_journal s)))" and f: "Finalise X del s = Some (None, t)"
    and a: "a \<in> fst ` set (j_dirties (s_journal s))" and e: "obj_at a s = Some so" "\<not> so_deleted so"
  shows "(let fresh = CreateEmptyCommitStateDB (s_bank t) (s_kv t)
     in if so_suicided so \<or> del \<and> map_option fst (csdb_Empty X a s) = Some True then map_option fst (Exist X a fresh) = Some False
        else map_option fst (csdb_GetBalance X a fresh) = map_option fst (csdb_GetBalance X a s)
           \<and> map_option fst (csdb_GetNonce X a fresh) = map_option fst (csdb_GetNonce X a s)
           \<and> map_option fst (csdb_GetCodeHash X a fresh) = map_option fst (csdb_GetCodeHash X a s)
           \<and> (\<forall>key. map_option fst (csdb_GetState X a key fresh) = map_option fst (csdb_GetState X a key s)))"
proof -
  have X: "evm_laws X" using K by (simp add: keeper_laws_def)
  note r = run_ok [OF X run q]
  let ?f = "CreateEmptyCommitStateDB (s_bank t) (s_kv t)"
  have o: "objs s a = Some so" using e obj_at_objs [OF csdb_okD(1) [OF r(1)]] by simp
  note p = finalised [OF K r(1) w d f a o]
  have fs: "found X s a = Some (Some so)" using o e(2) live_object(1) [OF r(1) o] by (simp add: found_def seen_def obj_ok_def)
  have em: "map_option fst (csdb_Empty X a s) = Some (so_empty X (ep_EvmDenom (params_of s)) so)" using Empty_reads(1) [OF X r(1), of a] fs by simp
  have pf: "params_of ?f = params_of s" "s_kv ?f = s_kv t" using r(2,3) p(2) by (simp_all add: CreateEmptyCommitStateDB_def params_of_def)
  note reads = GetBalance_reads(1) [OF X] lookup_reads(1-4) [OF X] GetState_reads [OF X] fresh_ok r(1) fs pf
  show ?thesis
  proof (cases "so_suicided so \<or> del \<and> so_empty X (ep_EvmDenom (params_of s)) so")
    case True
    then have "found X ?f a = Some None" using p(1) by (auto simp: persisted_def fresh_reads)
    then have ex: "map_option fst (Exist X a ?f) = Some False" using lookup_reads(4) [OF X fresh_ok, of a] by simp
    have c: "so_suicided so \<or> del \<and> map_option fst (csdb_Empty X a s) = Some True" using True em by auto
    show ?thesis unfolding Let_def if_P [OF c] by (rule ex)
  next
    case False
    then obtain acc where acc: "ak_get X (s_bank t) a = Some (EthAcc acc)" "amt (ac_Coins acc) = amt (ac_Coins (so_account so))"
      "ac_Sequence acc = ac_Sequence (so_account so)" "ac_CodeHash acc = ac_CodeHash (so_account so)"
      and st: "\<forall>k. stored (s_kv t) a k = slot_of (s_kv s) so k" using p(1) by (auto simp: persisted_def)
    have h: "ac_CodeHash acc \<noteq> []" using live_object(1) [OF r(1) o] acc(4) by (auto simp: obj_ok_def)
    have adr: "ac_Address acc = a" using evm_lawsD(3) [OF X acc(1)] by (simp add: acc_ok_def)
    obtain n where n: "newStateObject X (EthAcc acc) = Some n" "so_account n = acc" "so_dirtyStorage n = []" "so_address n = a"
      using h adr by (simp add: newStateObject_def)
    have "found X ?f a = Some (Some n)" using acc(1) n(1) by (simp add: fresh_reads)
    then have "map_option fst (csdb_GetBalance X a ?f) = map_option fst (csdb_GetBalance X a s)
        \<and> map_option fst (csdb_GetNonce X a ?f) = map_option fst (csdb_GetNonce X a s)
        \<and> map_option fst (csdb_GetCodeHash X a ?f) = map_option fst (csdb_GetCodeHash X a s)
        \<and> (\<forall>key. map_option fst (csdb_GetState X a key ?f) = map_option fst (csdb_GetState X a key s))"
      using st by (simp add: reads n(2-4) acc(2-4) so_CodeHash_def slot_of_def [of "s_kv t"])
    moreover have c: "\<not> (so_suicided so \<or> del \<and> map_option fst (csdb_Empty X a s) = Some True)" using False em by auto
    ultimately show ?thesis unfolding Let_def if_not_P [OF c] by blast
  qed
qed

lemma map_of_filter_key: "map_of (filter (\<lambda>e. fst e \<noteq> a) b) = (map_of b)(a := None)"
  by (induction b) (auto simp: fun_eq_iff)

lemma acc_ok_good:
  assumes "acc_ok a acc" and "length (ac_CodeHash acc) = 32"
  shows "good_account a (EthAcc acc)"
proof -
  have c: "coins_ok (ac_Coins acc)" "\<And>d. 0 \<le> amt (ac_Coins acc) d" "ac_Address acc = a" using assms(1) by (auto simp: acc_ok_def)
  then have "\<not> list_ex (\<lambda>c. snd c < 0) (ac_Coins acc)" using some_negative [OF c(1)] by (simp add: not_less)
  then have "list_all (\<lambda>c. 0 \<le> snd c) (ac_Coins acc)" by (simp add: list_all_iff list_ex_iff not_less)
  with c assms(2) show ?thesis by (simp add: good_account_def coins_ok_def)
qed

lemma ref_keeper_laws: "keeper_laws ref_evm"
  using ref_evm_laws acc_ok_good by (auto simp: keeper_laws_def ref_evm_def map_of_filter_key fun_eq_iff)

definition word_v :: eth_hash where
  "word_v = replicate 32 (CHR ''v'')"

definition tx_ops :: "evm_op list" where
  "tx_ops = [OpAddBalance ''a'' 5, OpSetNonce ''a'' 3, OpSetState ''a'' ''k'' word_v, OpSnapshot, OpAddBalance ''b'' 2, OpSuicide ''b'', OpSetState ''a'' ''k'' zero_hash, OpRevert 0]"

theorem finalise_persists_witness:
  "\<exists>t. Finalise ref_evm True (the (exec_all ref_evm tx_ops ref_start)) = Some (None, t)
     \<and> map_option fst (csdb_GetState ref_evm ''a'' ''k'' (CreateEmptyCommitStateDB (s_bank t) (s_kv t))) = Some word_v
     \<and> map_option fst (csdb_GetBalance ref_evm ''a'' (CreateEmptyCommitStateDB (s_bank t) (s_kv t))) = Some 5"
proof -
  let ?s = "the (exec_all ref_evm tx_ops ref_start)"
  let ?f = "Finalise ref_evm True ?s"
  have "\<not> Option.is_none (exec_all ref_evm tx_ops ref_start)" by code_simp
  then have s: "exec_all ref_evm tx_ops ref_start = Some ?s" by (simp add: Option.is_none_def)
  have "\<not> Option.is_none ?f" "fst (the ?f) = None" by code_simp+
  then obtain t where t: "?f = Some (None, t)" by (cases ?f) (auto simp: Option.is_none_def)
  have h: "list_all quiet tx_ops" "word_values ?s" "distinct (map fst (j_dirties (s_journal ?s)))" "''a'' \<in> fst ` set (j_dirties (s_journal ?s))" by code_simp+
  have "\<not> Option.is_none (obj_at ''a'' ?s)" by code_simp
  then obtain so where o: "obj_at ''a'' ?s = Some so" by (auto simp: Option.is_none_def)
  have "\<not> so_deleted (the (obj_at ''a'' ?s))" "\<not> so_suicided (the (obj_at ''a'' ?s))" by code_simp+
  then have so: "\<not> so_deleted so" "\<not> so_suicided so" using o by simp_all
  have g: "map_option fst (csdb_Empty ref_evm ''a'' ?s) = Some False" "map_option fst (csdb_GetState ref_evm ''a'' ''k'' ?s) = Some word_v"
    "map_option fst (csdb_GetBalance ref_evm ''a'' ?s) = Some 5" by code_simp+
  from finalise_persists [OF ref_keeper_laws s h(1-3) t h(4) o so(1)] so(2) g t show ?thesis by (simp add: Let_def del: map_option_eq_Some)
qed

text \<open>
  C38. Self-destruction removes the account but not its storage: after a contract destroyed itself and the state was finalised, no
  account is found at the address; a contract created there later reads every storage value the destroyed one had in the store.
\<close>

theorem recreated_contract_reads_old_storage:
  assumes K: "keeper_laws X" and run: "exec_all X ps (Prepare th bh i (CreateEmptyCommitStateDB b kv)) = Some s" and q: "list_all quiet ps"
    and w: "word_values s" and d: "distinct (map fst (j_dirties (s_journal s)))" and f: "Finalise X del s = Some (None, t)"
    and a: "a \<in> fst ` set (j_dirties (s_journal s))" and e: "obj_at a s = Some so" "\<not> so_deleted so" "so_suicided so"
    and g: "CreateAccount X a (CreateEmptyCommitStateDB (s_bank t) (s_kv t)) = Some g"
  shows "map_option fst (Exist X a (CreateEmptyCommitStateDB (s_bank t) (s_kv t))) = Some False
     \<and> map_option fst (csdb_GetState X a key g) = map_option fst (csdb_GetCommittedState X a key s)"
proof -
  have X: "evm_laws X" using K by (simp add: keeper_laws_def)
  note r = run_ok [OF X run q]
  let ?f = "CreateEmptyCommitStateDB (s_bank t) (s_kv t)"
  have o: "objs s a = Some so" using e obj_at_objs [OF csdb_okD(1) [OF r(1)]] by simp
  note p = finalised [OF K r(1) w d f a o]
  have gone: "ak_get X (s_bank t) a = None" "kv_storage (s_kv t) a = kv_storage (s_kv s) a" using p(1) e(3) by (simp_all add: persisted_def)
  have fs: "found X s a = Some (Some so)" using o e(2) live_object(1) [OF r(1) o] by (simp add: found_def seen_def obj_ok_def)
  have ff: "found X ?f a = Some None" using gone(1) by (simp add: fresh_reads)
  have ex: "map_option fst (Exist X a ?f) = Some False" using lookup_reads(4) [OF X fresh_ok, of a] ff by simp
  obtain n prev g1 where c: "createObject X a ?f = Some (n, prev, g1)" using g by (auto simp: CreateAccount_def split: bind_splits)
  have prev: "prev = None" by (rule createObject_parts [OF X fresh_ok c]) (use gone(1) in \<open>simp add: seen_def CreateEmptyCommitStateDB_def\<close>)
  then have g1: "g1 = g" using g c by (simp add: CreateAccount_def)
  note cs = createObject_step [OF X fresh_ok c]
  have n: "so_dirtyStorage n = []" using c by (auto simp: createObject_def newStateObject_def Let_def split: bind_splits prod.splits)
  have okg: "csdb_ok X g" using stepped_ok [OF cs(1)] g1 by simp
  have kvg: "s_kv g = s_kv t" using kvp_create(1) [OF X c] g1 by (simp add: kvp_def CreateEmptyCommitStateDB_def)
  have "found X g a = Some (Some n)" using cs(2,3) g1 live_object(1) [OF okg, of a n] by (simp add: found_def seen_def obj_ok_def)
  then have "map_option fst (csdb_GetState X a key g) = Some (stored (s_kv t) a (x_keccak X (a @ key)))"
    using GetState_reads [OF X okg, of a key] n cs(4) kvg by (simp add: slot_of_def)
  moreover have "map_option fst (csdb_GetCommittedState X a key s) = Some (stored (s_kv s) a (x_keccak X (a @ key)))"
    using GetState_reads [OF X r(1), of a key] fs by simp
  ultimately show ?thesis using ex gone(2) by (simp add: stored_slot del: map_option_eq_Some)
qed

definition old_kv :: evm_kv where
  "old_kv = ref_kv\<lparr>kv_storage := (\<lambda>a k. if a = ''c'' then Some word_v else None)\<rparr>"

abbreviation old_start :: "(eth_addr \<times> account) list csdb" where
  "old_start \<equiv> Prepare [] [] 0 (CreateEmptyCommitStateDB [(''c'', EthAcc (fresh_account ''c''))] old_kv)"

theorem recreated_contract_reads_old_storage_witness:
  "\<exists>t g. Finalise ref_evm True (the (exec_all ref_evm [OpSuicide ''c''] old_start)) = Some (None, t)
     \<and> map_option fst (Exist ref_evm ''c'' (CreateEmptyCommitStateDB (s_bank t) (s_kv t))) = Some False
     \<and> CreateAccount ref_evm ''c'' (CreateEmptyCommitStateDB (s_bank t) (s_kv t)) = Some g
     \<and> map_option fst (csdb_GetState ref_evm ''c'' ''k'' g) = Some word_v"
proof -
  let ?s = "the (exec_all ref_evm [OpSuicide ''c''] old_start)"
  let ?f = "Finalise ref_evm True ?s"
  let ?g = "CreateAccount ref_evm ''c'' (CreateEmptyCommitStateDB (s_bank (snd (the ?f))) (s_kv (snd (the ?f))))"
  have "\<not> Option.is_none (exec_all ref_evm [OpSuicide ''c''] old_start)" by code_simp
  then have s: "exec_all ref_evm [OpSuicide ''c''] old_start = Some ?s" by (simp add: Option.is_none_def)
  have "\<not> Option.is_none ?f" "fst (the ?f) = None" "\<not> Option.is_none ?g" by code_simp+
  then obtain t g where t: "?f = Some (None, t)" and g: "CreateAccount ref_evm ''c'' (CreateEmptyCommitStateDB (s_bank t) (s_kv t)) = Some g"
    by (cases ?f) (auto simp: Option.is_none_def)
  have h: "list_all quiet [OpSuicide ''c'']" "word_values ?s" "distinct (map fst (j_dirties (s_journal ?s)))" "''c'' \<in> fst ` set (j_dirties (s_journal ?s))" by code_simp+
  have "\<not> Option.is_none (obj_at ''c'' ?s)" by code_simp
  then obtain so where o: "obj_at ''c'' ?s = Some so" by (auto simp: Option.is_none_def)
  have "\<not> so_deleted (the (obj_at ''c'' ?s))" "so_suicided (the (obj_at ''c'' ?s))" by code_simp+
  then have so: "\<not> so_deleted so" "so_suicided so" using o by simp_all
  have "map_option fst (csdb_GetCommittedState ref_evm ''c'' ''k'' ?s) = Some word_v" by code_simp
  with recreated_contract_reads_old_storage [OF ref_keeper_laws s h(1-3) t h(4) o so g, of "''k''"] t g show ?thesis by auto
qed

end
