(* ===== verification/EvmTransition.thy ===== *)
theory EvmTransition
  imports EvmCommit
begin

text \<open>
  Ethereum transactions: \<open>x/evm/types/state_transition.go\<close>, \<open>handler.go\<close>, \<open>types/msg.go\<close>, \<open>types/chain_config.go\<close>,
  \<open>keeper/keeper.go\<close> and \<open>keeper/abci.go\<close>.

  The virtual machine, the intrinsic gas, the gas meter, the bloom filter and the recovery of public keys are code of other
  repositories: they are the record \<open>evm_vm\<close>. A virtual machine acts on the state database through
  its operations only (\<open>vm_laws\<close>).
\<close>

subsection \<open>Messages\<close>

record tx_data =
  td_AccountNonce :: "64 word"
  td_Price :: int
  td_GasLimit :: "64 word"
  td_Recipient :: "eth_addr option"
  td_Amount :: int
  td_Payload :: bytes
  td_V :: int
  td_R :: int
  td_S :: int

record msg_ethermint =
  me_AccountNonce :: "64 word"
  me_Price :: int
  me_GasLimit :: "64 word"
  me_Recipient :: "eth_addr option"
  me_Amount :: int
  me_Payload :: bytes
  me_From :: eth_addr

datatype msg_error = ZeroPrice | NegativePrice | NegativeAmount | ZeroChainID | BadSignature | BadPublicKey | RecoverFailed

definition msg_ValidateBasic :: "int \<Rightarrow> int \<Rightarrow> msg_error option" where
  "msg_ValidateBasic price amount =
     (if price = 0 then Some ZeroPrice else if price < 0 then Some NegativePrice else if amount < 0 then Some NegativeAmount else None)"

definition tx_ValidateBasic :: "tx_data \<Rightarrow> msg_error option" where
  "tx_ValidateBasic d = msg_ValidateBasic (td_Price d) (td_Amount d)"

definition ethermint_ValidateBasic :: "msg_ethermint \<Rightarrow> msg_error option" where
  "ethermint_ValidateBasic m = msg_ValidateBasic (me_Price m) (me_Amount m)"

definition tx_Fee :: "tx_data \<Rightarrow> int" where
  "tx_Fee d = td_Price d * uint (td_GasLimit d)"

definition tx_Cost :: "tx_data \<Rightarrow> int" where
  "tx_Cost d = tx_Fee d + td_Amount d"

subsection \<open>The virtual machine and the gas meter\<close>

record chain_config =
  cc_HomesteadBlock :: int
  cc_DAOForkBlock :: int
  cc_DAOForkSupport :: bool
  cc_EIP150Block :: int
  cc_EIP150Hash :: string
  cc_EIP155Block :: int
  cc_EIP158Block :: int
  cc_ByzantiumBlock :: int
  cc_ConstantinopleBlock :: int
  cc_PetersburgBlock :: int
  cc_IstanbulBlock :: int
  cc_MuirGlacierBlock :: int
  cc_YoloV2Block :: int
  cc_EWASMBlock :: int

record eth_chain_config =
  pc_ChainID :: int
  pc_HomesteadBlock :: "int option"
  pc_DAOForkBlock :: "int option"
  pc_DAOForkSupport :: bool
  pc_EIP150Block :: "int option"
  pc_EIP150Hash :: eth_hash
  pc_EIP155Block :: "int option"
  pc_EIP158Block :: "int option"
  pc_ByzantiumBlock :: "int option"
  pc_ConstantinopleBlock :: "int option"
  pc_PetersburgBlock :: "int option"
  pc_IstanbulBlock :: "int option"
  pc_MuirGlacierBlock :: "int option"
  pc_YoloV2Block :: "int option"
  pc_EWASMBlock :: "int option"

definition getBlockValue :: "int \<Rightarrow> int option" where
  "getBlockValue block = (if block < 0 then None else Some block)"

text \<open>\<open>h\<close> is \<open>common.HexToHash\<close> of go-ethereum.\<close>

definition EthereumConfig :: "(string \<Rightarrow> eth_hash) \<Rightarrow> int \<Rightarrow> chain_config \<Rightarrow> eth_chain_config" where
  "EthereumConfig h chainID cc =
     \<lparr>pc_ChainID = chainID, pc_HomesteadBlock = getBlockValue (cc_HomesteadBlock cc), pc_DAOForkBlock = getBlockValue (cc_DAOForkBlock cc),
      pc_DAOForkSupport = cc_DAOForkSupport cc, pc_EIP150Block = getBlockValue (cc_EIP150Block cc), pc_EIP150Hash = h (cc_EIP150Hash cc),
      pc_EIP155Block = getBlockValue (cc_EIP155Block cc), pc_EIP158Block = getBlockValue (cc_EIP158Block cc), pc_ByzantiumBlock = getBlockValue
      (cc_ByzantiumBlock cc), pc_ConstantinopleBlock = getBlockValue (cc_ConstantinopleBlock cc), pc_PetersburgBlock = getBlockValue
      (cc_PetersburgBlock cc), pc_IstanbulBlock = getBlockValue (cc_IstanbulBlock cc), pc_MuirGlacierBlock = getBlockValue (cc_MuirGlacierBlock cc),
      pc_YoloV2Block = getBlockValue (cc_YoloV2Block cc), pc_EWASMBlock = getBlockValue (cc_EWASMBlock cc)\<rparr>"

definition zero_hash_hex :: string where
  "zero_hash_hex = ''0x'' @ replicate 64 (CHR ''0'')"

definition DefaultChainConfig :: chain_config where
  "DefaultChainConfig =
     \<lparr>cc_HomesteadBlock = 0, cc_DAOForkBlock = 0, cc_DAOForkSupport = True, cc_EIP150Block = 0, cc_EIP150Hash = zero_hash_hex, cc_EIP155Block =
      0, cc_EIP158Block = 0, cc_ByzantiumBlock = 0, cc_ConstantinopleBlock = 0, cc_PetersburgBlock = 0, cc_IstanbulBlock = 0, cc_MuirGlacierBlock = 0,
      cc_YoloV2Block = -1, cc_EWASMBlock = -1\<rparr>"

definition IsIstanbul :: "chain_config \<Rightarrow> bool" where
  "IsIstanbul cc = (getBlockValue (cc_IstanbulBlock cc) \<noteq> None)"

definition IsHomestead :: "chain_config \<Rightarrow> bool" where
  "IsHomestead cc = (getBlockValue (cc_HomesteadBlock cc) \<noteq> None)"

record evm_context =
  ec_Coinbase :: eth_addr
  ec_Height :: int
  ec_Time :: int
  ec_TxHash :: eth_hash
  ec_CheckTx :: bool

record 'b vm_ret =
  r_data :: "bytes option"
  r_address :: eth_addr
  r_left :: "64 word"
  r_err :: "string option"
  r_db :: "'b csdb"

text \<open>
  \<open>v_create\<close> and \<open>v_call\<close> get the block, the function for block hashes, the configuration with the extra EIPs, the gas price, sender,
  payload, gas limit, amount and the database, \<open>v_call\<close> the recipient too. \<open>g_consume\<close> answers with \<open>True\<close> when it panics.
\<close>

record ('b, 'g) evm_vm =
  g_consumed :: "'g \<Rightarrow> 64 word"
  g_consume :: "64 word \<Rightarrow> 'g \<Rightarrow> 'g \<times> bool"
  v_intrinsic :: "bytes \<Rightarrow> bool \<Rightarrow> bool \<Rightarrow> bool \<Rightarrow> (64 word) option"
  v_create :: "evm_context \<Rightarrow> ('b csdb \<Rightarrow> 64 word \<Rightarrow> eth_hash) \<Rightarrow> eth_chain_config \<Rightarrow> int list \<Rightarrow> int \<Rightarrow> eth_addr \<Rightarrow> bytes \<Rightarrow> 64 word \<Rightarrow> int
    \<Rightarrow> 'b csdb \<Rightarrow> 'b vm_ret option"
  v_call :: "evm_context \<Rightarrow> ('b csdb \<Rightarrow> 64 word \<Rightarrow> eth_hash) \<Rightarrow> eth_chain_config \<Rightarrow> int list \<Rightarrow> int \<Rightarrow> eth_addr \<Rightarrow> eth_addr \<Rightarrow> bytes \<Rightarrow> 64 word \<Rightarrow> int
    \<Rightarrow> 'b csdb \<Rightarrow> 'b vm_ret option"
  v_hexHash :: "string \<Rightarrow> eth_hash"
  v_bloom :: "eth_log list \<Rightarrow> int"
  v_validSig :: "nat \<Rightarrow> int \<Rightarrow> int \<Rightarrow> bool"
  v_recover :: "eth_hash \<Rightarrow> int \<Rightarrow> int \<Rightarrow> nat \<Rightarrow> bytes option"
  v_rlpHash :: "64 word \<Rightarrow> int \<Rightarrow> 64 word \<Rightarrow> eth_addr option \<Rightarrow> int \<Rightarrow> bytes \<Rightarrow> int option \<Rightarrow> eth_hash"

subsection \<open>Signatures\<close>

text \<open>
  \<open>BitLen\<close> and \<open>Uint64\<close> of a big integer look at its absolute value; \<open>BitLen\<close> is at most 8 when that is below 256. The cache of
  the sender in the message holds the result for the same signer.
\<close>

definition RLPSignBytes :: "('b, 'g) evm_vm \<Rightarrow> tx_data \<Rightarrow> int \<Rightarrow> eth_hash" where
  "RLPSignBytes M d chainID =
     v_rlpHash M (td_AccountNonce d) (td_Price d) (td_GasLimit d) (td_Recipient d) (td_Amount d) (td_Payload d) (Some chainID)"

definition HomesteadSignHash :: "('b, 'g) evm_vm \<Rightarrow> tx_data \<Rightarrow> eth_hash" where
  "HomesteadSignHash M d =
     v_rlpHash M (td_AccountNonce d) (td_Price d) (td_GasLimit d) (td_Recipient d) (td_Amount d) (td_Payload d) None"

definition isProtectedV :: "int \<Rightarrow> bool" where
  "isProtectedV v = (if \<bar>v\<bar> < 256 then nat \<bar>v\<bar> \<noteq> 27 \<and> nat \<bar>v\<bar> \<noteq> 28 else True)"

definition recoverEthSig :: "'b evm_ext \<Rightarrow> ('b, 'g) evm_vm \<Rightarrow> int \<Rightarrow> int \<Rightarrow> int \<Rightarrow> eth_hash \<Rightarrow> msg_error + eth_addr" where
  "recoverEthSig X M r s vb sigHash =
     (if 256 \<le> \<bar>vb\<bar> then Inl BadSignature
      else
        (let v = nat ((\<bar>vb\<bar> - 27) mod 256)
         in if \<not> v_validSig M v r s then Inl BadSignature
            else
              (case v_recover M sigHash r s v of
                 None \<Rightarrow> Inl RecoverFailed
               | Some pub \<Rightarrow>
                   if pub = [] \<or> hd pub \<noteq> char_of (4 :: nat) then Inl BadPublicKey else Inr (drop 12 (x_keccak X (tl pub))))))"

definition VerifySig :: "'b evm_ext \<Rightarrow> ('b, 'g) evm_vm \<Rightarrow> int \<Rightarrow> tx_data \<Rightarrow> msg_error + eth_addr" where
  "VerifySig X M chainID d =
     (if isProtectedV (td_V d)
      then if chainID = 0 then Inl ZeroChainID
           else recoverEthSig X M (td_R d) (td_S d) (td_V d - chainID * 2 - 8) (RLPSignBytes M d chainID)
      else recoverEthSig X M (td_R d) (td_S d) (td_V d) (HomesteadSignHash M d))"

subsection \<open>State transition\<close>

record state_transition =
  st_AccountNonce :: "64 word"
  st_Price :: int
  st_GasLimit :: "64 word"
  st_Recipient :: "eth_addr option"
  st_Amount :: int
  st_Payload :: bytes
  st_ChainID :: int
  st_TxHash :: eth_hash
  st_Sender :: eth_addr
  st_Simulate :: bool
  st_CoinDenom :: denom
  st_GasReturn :: "64 word"

record execution_result =
  er_Logs :: "eth_log list"
  er_Bloom :: int
  er_Ret :: "bytes option"
  er_ContractAddress :: "eth_addr option"
  er_GasLimit :: "64 word"
  er_GasConsumed :: "64 word"
  er_GasRefunded :: "64 word"

datatype 'a outcome = Done 'a | Failed evm_error | Panicked

definition GetHashFn :: "int \<Rightarrow> 'b csdb \<Rightarrow> 64 word \<Rightarrow> eth_hash" where
  "GetHashFn blockHeight s height =
     (if blockHeight = sint height then s_bhash s
      else if blockHeight > sint height then GetHeightHash (unat height) s
      else zero_hash)"

text \<open>The deferred consumption of the gas of the execution; it may turn every result into a panic.\<close>

definition deferred_gas :: "('b, 'g) evm_vm \<Rightarrow> 64 word \<Rightarrow> 'a outcome \<Rightarrow> 'g \<Rightarrow> 'b csdb \<Rightarrow> 'a outcome \<times> 'g \<times> 'b csdb" where
  "deferred_gas M gasConsumed res g s = (let (g1, bad) = g_consume M gasConsumed g in (if bad then Panicked else res, g1, s))"

text \<open>
  The part of \<open>TransitionDb\<close> after the virtual machine returned without an error. \<open>TxHash\<close> is set by both handlers.
\<close>

definition finish_transition ::
  "'b evm_ext \<Rightarrow> ('b, 'g) evm_vm \<Rightarrow> state_transition \<Rightarrow> 64 word \<Rightarrow> 64 word \<Rightarrow> 'b vm_ret \<Rightarrow> 'b csdb \<Rightarrow> execution_result outcome \<times> 'b csdb" where
  "finish_transition X M st currentNonce gasLimit ret s =
     (case csdb_SetNonce X (st_Sender st) currentNonce s of
        None \<Rightarrow> (Panicked, s)
      | Some s1 \<Rightarrow>
          (let logs = (if st_Simulate st then [] else s_logs s1);
               result = \<lparr>er_Logs = logs, er_Bloom = (if st_Simulate st then 0 else v_bloom M logs), er_Ret = r_data ret,
                 er_ContractAddress = (if st_Recipient st = None then Some (r_address ret) else None), er_GasLimit = gasLimit,
                 er_GasConsumed = gasLimit - r_left ret, er_GasRefunded = r_left ret\<rparr>
           in if st_Simulate st then (Done result, s1)
              else
                (case Finalise X True s1 of
                   None \<Rightarrow> (Panicked, s1)
                 | Some (Some e, s2) \<Rightarrow> (Failed e, s2)
                 | Some (None, s2) \<Rightarrow>
                     (case Commit X True s2 of
                        None \<Rightarrow> (Panicked, s2)
                      | Some (Some e, s3) \<Rightarrow> (Failed e, s3)
                      | Some (None, s3) \<Rightarrow> (Done result, s3)))))"

text \<open>
  Running the virtual machine: the nonce of the sender is set to the nonce of the message, and for a call increased by one.
\<close>

definition run_vm ::
  "'b evm_ext \<Rightarrow> ('b, 'g) evm_vm \<Rightarrow> evm_context \<Rightarrow> chain_config \<Rightarrow> evm_params \<Rightarrow> state_transition \<Rightarrow> 64 word \<Rightarrow> 'b csdb \<Rightarrow> 'b vm_ret outcome \<times> 'b csdb" where
  "run_vm X M c cfg p st gasLimit s =
     (case csdb_SetNonce X (st_Sender st) (st_AccountNonce st) s of
        None \<Rightarrow> (Panicked, s)
      | Some s1 \<Rightarrow>
          (case st_Recipient st of
             None \<Rightarrow>
               if \<not> ep_EnableCreate p then (Failed ErrCreateDisabled, s1)
               else (case v_create M c (GetHashFn (ec_Height c)) (EthereumConfig (v_hexHash M) (st_ChainID st) cfg) (ep_ExtraEIPs p) (st_Price st) (st_Sender st) (st_Payload st) gasLimit (st_Amount st) s1 of
                       None \<Rightarrow> (Panicked, s1)
                     | Some ret \<Rightarrow> (Done ret, r_db ret))
           | Some to \<Rightarrow>
               if \<not> ep_EnableCall p then (Failed ErrCallDisabled, s1)
               else
                 (case csdb_GetNonce X (st_Sender st) s1 of
                    None \<Rightarrow> (Panicked, s1)
                  | Some (n, s2) \<Rightarrow>
                      (case csdb_SetNonce X (st_Sender st) (n + 1) s2 of
                         None \<Rightarrow> (Panicked, s2)
                       | Some s3 \<Rightarrow>
                           (case v_call M c (GetHashFn (ec_Height c)) (EthereumConfig (v_hexHash M) (st_ChainID st) cfg) (ep_ExtraEIPs p) (st_Price st) (st_Sender st) to (st_Payload st) gasLimit (st_Amount st) s3 of
                              None \<Rightarrow> (Panicked, s3)
                            | Some ret \<Rightarrow> (Done ret, r_db ret))))))"

definition maxRefund :: "64 word \<Rightarrow> 'b csdb \<Rightarrow> 64 word" where
  "maxRefund gasConsumed s = (if gasConsumed div 2 > s_refund s then s_refund s else gasConsumed div 2)"

text \<open>
  \<open>TransitionDb\<close> has a value receiver: its copy of the transition, with \<open>GasReturn\<close> set, is the second component of the
  result and is dropped when it returns.
\<close>

definition TransitionDb ::
  "'b evm_ext \<Rightarrow> ('b, 'g) evm_vm \<Rightarrow> evm_context \<Rightarrow> chain_config \<Rightarrow> state_transition \<Rightarrow> 'g \<Rightarrow> 'b csdb
    \<Rightarrow> (execution_result outcome \<times> 'g \<times> 'b csdb) \<times> state_transition" where
  "TransitionDb X M c cfg st g s =
     (case v_intrinsic M (st_Payload st) (st_Recipient st = None) (IsHomestead cfg) (IsIstanbul cfg) of
        None \<Rightarrow> ((Failed IntrinsicGasError, g, s), st)
      | Some cost \<Rightarrow>
          (let gasLimit = (if st_Simulate st then st_GasLimit st - cost else st_GasLimit st - g_consumed M g);
               (g1, bad) = (if st_Simulate st \<and> g_consumed M g < cost then g_consume M (cost - g_consumed M g) g else (g, False))
           in if bad then ((Panicked, g1, s), st)
              else
                (let (p, s1) = evm_GetParams s
                 in case csdb_GetNonce X (st_Sender st) s1 of
                      None \<Rightarrow> ((Panicked, g1, s1), st)
                    | Some (currentNonce, s2) \<Rightarrow>
                        (case run_vm X M c cfg p st gasLimit s2 of
                           (Panicked, s3) \<Rightarrow> ((Panicked, g1, s3), st)
                         | (Failed e, s3) \<Rightarrow> ((Failed e, g1, s3), st)
                         | (Done ret, s3) \<Rightarrow>
                             (let gasConsumed = gasLimit - r_left ret;
                                  st' = st\<lparr>st_GasReturn := maxRefund gasConsumed s3\<rparr>
                              in case r_err ret of
                                   Some e \<Rightarrow> (deferred_gas M gasConsumed (Failed (VmError e)) g1 s3, st')
                                 | None \<Rightarrow>
                                     (let (res, s4) = finish_transition X M st currentNonce gasLimit ret s3
                                      in (deferred_gas M gasConsumed res g1 s4, st')))))))"

text \<open>\<open>None\<close> is an error of the transfer, which the handler turns into a panic.\<close>

definition RefundGas :: "'b evm_ext \<Rightarrow> ('b, 'g) evm_vm \<Rightarrow> state_transition \<Rightarrow> 'g \<Rightarrow> 'b \<Rightarrow> 'b option" where
  "RefundGas X M st g b =
     (let gasRemaining = st_GasLimit st - g_consumed M g + st_GasReturn st;
          feeReturn = st_Price st * uint gasRemaining
      in if feeReturn = 0 then Some b
         else (case b_mod_to_acc (x_sdk X) b ''fee_collector'' (st_Sender st) [(st_CoinDenom st, feeReturn)] of
                 Inl er \<Rightarrow> None
               | Inr b' \<Rightarrow> Some b'))"

subsection \<open>Keeper and handlers\<close>

record 'b evm_keeper =
  k_TxCount :: int
  k_Bloom :: int
  k_Bhash :: eth_hash
  k_LogSize :: "64 word"
  e_bank :: 'b
  e_kv :: evm_kv
  e_blockHash :: "bytes \<rightharpoonup> 64 word"
  e_blooms :: "int \<rightharpoonup> int"
  e_config :: "chain_config option"

definition GetBlockHash :: "bytes \<Rightarrow> 'b evm_keeper \<Rightarrow> int \<times> bool" where
  "GetBlockHash h k = (case e_blockHash k h of None \<Rightarrow> (0, False) | Some height \<Rightarrow> (sint height, True))"

definition k_SetBlockHash :: "bytes \<Rightarrow> int \<Rightarrow> 'b evm_keeper \<Rightarrow> 'b evm_keeper" where
  "k_SetBlockHash h height k = k\<lparr>e_blockHash := (e_blockHash k)(h \<mapsto> word_of_int height)\<rparr>"

definition k_GetHeightHash :: "nat \<Rightarrow> 'b evm_keeper \<Rightarrow> eth_hash" where
  "k_GetHeightHash height k = GetHeightHash height (CreateEmptyCommitStateDB (e_bank k) (e_kv k))"

definition k_SetHeightHash :: "nat \<Rightarrow> eth_hash \<Rightarrow> 'b evm_keeper \<Rightarrow> 'b evm_keeper" where
  "k_SetHeightHash height h k = k\<lparr>e_kv := s_kv (SetHeightHash height h (CreateEmptyCommitStateDB (e_bank k) (e_kv k)))\<rparr>"

definition GetBlockBloom :: "int \<Rightarrow> 'b evm_keeper \<Rightarrow> int" where
  "GetBlockBloom height k = (case e_blooms k height of None \<Rightarrow> 0 | Some b \<Rightarrow> b)"

definition SetBlockBloom :: "int \<Rightarrow> int \<Rightarrow> 'b evm_keeper \<Rightarrow> 'b evm_keeper" where
  "SetBlockBloom height bloom k = k\<lparr>e_blooms := (e_blooms k)(height \<mapsto> bloom)\<rparr>"

definition GetChainConfig :: "'b evm_keeper \<Rightarrow> chain_config option" where
  "GetChainConfig k = e_config k"

definition SetChainConfig :: "chain_config \<Rightarrow> 'b evm_keeper \<Rightarrow> 'b evm_keeper" where
  "SetChainConfig cfg k = k\<lparr>e_config := Some cfg\<rparr>"

definition evm_BeginBlock :: "bytes \<Rightarrow> bytes \<Rightarrow> int \<Rightarrow> 'b evm_keeper \<Rightarrow> 'b evm_keeper" where
  "evm_BeginBlock currentHash lastHash headerHeight k =
     (if lastHash = [] \<or> headerHeight < 1 then k
      else
        (let height = headerHeight - 1;
             k1 = k_SetBlockHash lastHash height (k_SetHeightHash (nat height) (BytesToHash lastHash) k)
         in k1\<lparr>k_Bloom := 0, k_TxCount := 0, k_LogSize := 0, k_Bhash := BytesToHash currentHash\<rparr>))"

definition evm_EndBlock :: "int \<Rightarrow> 'b evm_keeper \<Rightarrow> 'b evm_keeper" where
  "evm_EndBlock height k = SetBlockBloom height (k_Bloom k) k"

text \<open>
  The deferred refund uses the transition of the handler. A refund that fails turns the result into a panic.
\<close>

definition deferred_refund ::
  "'b evm_ext \<Rightarrow> ('b, 'g) evm_vm \<Rightarrow> state_transition \<Rightarrow> 'a outcome \<Rightarrow> 'g \<Rightarrow> 'b evm_keeper \<Rightarrow> 'a outcome \<times> 'g \<times> 'b evm_keeper" where
  "deferred_refund X M st res g k =
     (if st_Simulate st then (res, g, k)
      else (case RefundGas X M st g (e_bank k) of
              None \<Rightarrow> (Panicked, g, k)
            | Some b \<Rightarrow> (res, g, k\<lparr>e_bank := b\<rparr>)))"

text \<open>What the two handlers have in common once the transition is set up.\<close>

definition handle_transition ::
  "'b evm_ext \<Rightarrow> ('b, 'g) evm_vm \<Rightarrow> evm_context \<Rightarrow> state_transition \<Rightarrow> 'g \<Rightarrow> 'b evm_keeper \<Rightarrow> execution_result outcome \<times> 'g \<times> 'b evm_keeper" where
  "handle_transition X M c st g k =
     (let s0 = CreateEmptyCommitStateDB (e_bank k) (e_kv k);
          s1 = (if st_Simulate st then s0 else SetLogSize (k_LogSize k) (Prepare (ec_TxHash c) (k_Bhash k) (k_TxCount k) s0));
          k1 = (if st_Simulate st then k else k\<lparr>k_TxCount := k_TxCount k + 1\<rparr>)
      in case GetChainConfig k1 of
           None \<Rightarrow> deferred_refund X M st (Failed ErrChainConfigNotFound) g k1
         | Some cfg \<Rightarrow>
             (let ((res, g1, s2), st') = TransitionDb X M c cfg st g s1;
                  k2 = k1\<lparr>e_bank := s_bank s2, e_kv := s_kv s2\<rparr>
              in case res of
                   Done r \<Rightarrow>
                     deferred_refund X M st res g1
                       (if st_Simulate st then k2 else k2\<lparr>k_Bloom := or (k_Bloom k2) (er_Bloom r), k_LogSize := s_logSize s2\<rparr>)
                 | _ \<Rightarrow> deferred_refund X M st res g1 k2))"

definition handleMsgEthereumTx ::
  "'b evm_ext \<Rightarrow> ('b, 'g) evm_vm \<Rightarrow> evm_context \<Rightarrow> int option \<Rightarrow> tx_data \<Rightarrow> 'g \<Rightarrow> 'b evm_keeper \<Rightarrow> execution_result outcome \<times> 'g \<times> 'b evm_keeper" where
  "handleMsgEthereumTx X M c chainID d g k =
     (case chainID of
        None \<Rightarrow> (Failed InvalidChainID, g, k)
      | Some epoch \<Rightarrow>
          (case VerifySig X M epoch d of
             Inl er \<Rightarrow> (Failed InvalidSignature, g, k)
           | Inr sender \<Rightarrow>
               handle_transition X M c
                 \<lparr>st_AccountNonce = td_AccountNonce d, st_Price = td_Price d, st_GasLimit = td_GasLimit d, st_Recipient = td_Recipient d,
                  st_Amount = td_Amount d, st_Payload = td_Payload d, st_ChainID = epoch, st_TxHash = ec_TxHash c, st_Sender = sender, st_Simulate = ec_CheckTx c,
                  st_CoinDenom = ep_EvmDenom (kv_params (e_kv k)), st_GasReturn = 0\<rparr> g k))"

definition handleMsgEthermint ::
  "'b evm_ext \<Rightarrow> ('b, 'g) evm_vm \<Rightarrow> evm_context \<Rightarrow> int option \<Rightarrow> msg_ethermint \<Rightarrow> 'g \<Rightarrow> 'b evm_keeper \<Rightarrow> execution_result outcome \<times> 'g \<times> 'b evm_keeper" where
  "handleMsgEthermint X M c chainID m g k =
     (case chainID of
        None \<Rightarrow> (Failed InvalidChainID, g, k)
      | Some epoch \<Rightarrow>
          handle_transition X M c
            \<lparr>st_AccountNonce = me_AccountNonce m, st_Price = me_Price m, st_GasLimit = me_GasLimit m, st_Recipient = me_Recipient m,
             st_Amount = me_Amount m, st_Payload = me_Payload m, st_ChainID = epoch, st_TxHash = ec_TxHash c, st_Sender = me_From m, st_Simulate = ec_CheckTx c,
             st_CoinDenom = ep_EvmDenom (kv_params (e_kv k)), st_GasReturn = 0\<rparr> g k)"

datatype evm_msg = EthereumTx tx_data | Ethermint msg_ethermint | OtherMsg

definition evm_NewHandler ::
  "'b evm_ext \<Rightarrow> ('b, 'g) evm_vm \<Rightarrow> evm_context \<Rightarrow> int option \<Rightarrow> evm_msg \<Rightarrow> 'g \<Rightarrow> 'b evm_keeper \<Rightarrow> execution_result outcome \<times> 'g \<times> 'b evm_keeper" where
  "evm_NewHandler X M c chainID msg g k =
     (let wrap = (\<lambda>(res, g', k').
            (case res of
               Failed e \<Rightarrow> if s_mercury (x_sdk X) (ec_Height c) then Failed (EvmCallFailed e) else Failed e
             | _ \<Rightarrow> res, g', k'))
      in case msg of
           EthereumTx d \<Rightarrow> wrap (handleMsgEthereumTx X M c chainID d g k)
         | Ethermint m \<Rightarrow> wrap (handleMsgEthermint X M c chainID m g k)
         | OtherMsg \<Rightarrow> (Failed UnrecognizedMessage, g, k))"

subsection \<open>What the virtual machine may do\<close>

definition vm_laws :: "'b evm_ext \<Rightarrow> ('b, 'g) evm_vm \<Rightarrow> bool" where
  "vm_laws X M \<longleftrightarrow>
     (\<forall>c h cfg eips pr a code gas v s ret. v_create M c h cfg eips pr a code gas v s = Some ret \<longrightarrow> (\<exists>ops. exec_all X ops s = Some (r_db ret)))
     \<and> (\<forall>c h cfg eips pr a to code gas v s ret. v_call M c h cfg eips pr a to code gas v s = Some ret \<longrightarrow> (\<exists>ops. exec_all X ops s = Some (r_db ret)))
     \<and> (\<forall>n g g'. g_consume M n g = (g', False) \<longrightarrow> g_consumed M g' = g_consumed M g + n)"

lemma vm_lawsD:
  assumes "vm_laws X M"
  shows "v_create M c h cfg eips pr a code gas v s = Some ret \<Longrightarrow> \<exists>ops. exec_all X ops s = Some (r_db ret)"
    and "v_call M c h cfg eips pr a to code gas v s = Some ret \<Longrightarrow> \<exists>ops. exec_all X ops s = Some (r_db ret)"
    and "g_consume M n g = (g', False) \<Longrightarrow> g_consumed M g' = g_consumed M g + n"
proof -
  note L = assms [unfolded vm_laws_def]
  show "v_create M c h cfg eips pr a code gas v s = Some ret \<Longrightarrow> \<exists>ops. exec_all X ops s = Some (r_db ret)" using L [THEN conjunct1] by blast
  show "v_call M c h cfg eips pr a to code gas v s = Some ret \<Longrightarrow> \<exists>ops. exec_all X ops s = Some (r_db ret)" using L [THEN conjunct2, THEN conjunct1] by blast
  show "g_consume M n g = (g', False) \<Longrightarrow> g_consumed M g' = g_consumed M g + n" using L [THEN conjunct2, THEN conjunct2] by blast
qed

lemma run_vm_kvp:
  assumes X: "evm_laws X" and V: "vm_laws X M" and r: "run_vm X M c cfg p st gas s = (res, t)"
  shows "kvp X t = kvp X s"
proof -
  have v: "kvp X (r_db ret) = kvp X u" if "\<exists>ops. exec_all X ops u = Some (r_db ret)" for ret u using that exec_all_kvp [OF X] by blast
  from r show ?thesis
    by (auto simp: run_vm_def dest!: kvp_db_ops(4) [OF X] kvp_getters(2) vm_lawsD(1,2) [OF V] v split: option.splits prod.splits if_splits)
qed

text \<open>The errors of writing the state are those of invalid balances and blacklisted accounts.\<close>

definition write_error :: "evm_error \<Rightarrow> bool" where
  "write_error e = (case e of InvalidBalance c \<Rightarrow> True | Blacklisted a \<Rightarrow> True | _ \<Rightarrow> False)"

lemma update_error: "updateStateObject X a s = Some (Some e, t) \<Longrightarrow> write_error e"
  by (auto simp: updateStateObject_def write_error_def Let_def split: bind_splits if_splits)

lemma finalise_errors: "finalise_objects X del as s = Some (Some e, t) \<Longrightarrow> write_error e"
  by (induction as arbitrary: s) (auto simp: Let_def dest: update_error split: option.splits bind_splits if_splits)

lemma commit_errors: "commit_objects X del is s = Some (Some e, t) \<Longrightarrow> write_error e"
proof (induction "is" arbitrary: s)
  case (Cons i "is")
  obtain a so where o: "s_objects s ! i = (a, so)" by force
  from Cons.prems Cons.IH show ?case by (auto simp: Let_def o dest: update_error split: option.splits bind_splits if_splits)
qed simp

lemma finish_cases:
  assumes X: "evm_laws X" and f: "finish_transition X M st n gas ret s = (res, t)"
  shows "st_Simulate st \<Longrightarrow> kvp X t = kvp X s" and "res = Failed e \<Longrightarrow> write_error e"
    and "res = Done r \<Longrightarrow> er_GasRefunded r = r_left ret"
proof -
  show "kvp X t = kvp X s" if "st_Simulate st"
    using f that by (auto simp: finish_transition_def Let_def dest!: kvp_db_ops(4) [OF X] split: option.splits)
  show "write_error e" if "res = Failed e"
    using f that by (auto simp: finish_transition_def Let_def Finalise_def Commit_def dest: finalise_errors commit_errors
        split: option.splits bind_splits if_splits prod.splits)
  show "er_GasRefunded r = r_left ret" if "res = Done r"
    using f that by (auto simp: finish_transition_def Let_def split: option.splits bind_splits if_splits prod.splits)
qed

text \<open>The ways through \<open>TransitionDb\<close>: it ends before the virtual machine returned, or after it.\<close>

lemma TransitionDb_cases:
  assumes "TransitionDb X M c cfg st g s = ((res, g', t), st')"
  obtains (intrinsic) "t = s" and "res = Failed IntrinsicGasError"
    | (gas) "t = s" and "res = Panicked"
    | (nonce) "t = cached_params s" and "res = Panicked"
    | (early) n s2 cost r where "csdb_GetNonce X (st_Sender st) (cached_params s) = Some (n, s2)"
        and "run_vm X M c cfg (params_of s) st (if st_Simulate st then st_GasLimit st - cost else st_GasLimit st - g_consumed M g) s2 = (r, t)"
        and "r = Panicked \<and> res = Panicked \<or> (\<exists>e. r = Failed e \<and> res = Failed e)"
    | (late) n s2 cost ret s3 g1 gas res1 where "csdb_GetNonce X (st_Sender st) (cached_params s) = Some (n, s2)"
        and "gas = (if st_Simulate st then st_GasLimit st - cost else st_GasLimit st - g_consumed M g)" and "\<not> st_Simulate st \<Longrightarrow> g1 = g"
        and "run_vm X M c cfg (params_of s) st gas s2 = (Done ret, s3)" and "st' = st\<lparr>st_GasReturn := maxRefund (gas - r_left ret) s3\<rparr>"
        and "case r_err ret of Some e \<Rightarrow> res1 = Failed (VmError e) \<and> t = s3 | None \<Rightarrow> finish_transition X M st n gas ret s3 = (res1, t)"
        and "deferred_gas M (gas - r_left ret) res1 g1 t = (res, g', t)"
proof (cases "v_intrinsic M (st_Payload st) (st_Recipient st = None) (IsHomestead cfg) (IsIstanbul cfg)")
  case None
  then show thesis using assms by (intro intrinsic) (simp_all add: TransitionDb_def)
next
  case (Some cost)
  define gas where "gas = (if st_Simulate st then st_GasLimit st - cost else st_GasLimit st - g_consumed M g)"
  obtain g1 bad where g1: "(if st_Simulate st \<and> g_consumed M g < cost then g_consume M (cost - g_consumed M g) g else (g, False)) = (g1, bad)" by force
  note T = assms [unfolded TransitionDb_def Some option.case Let_def gas_def [symmetric] g1 prod.case GetParams_simps]
  show thesis
  proof (cases bad)
    case True
    then show thesis using T by (intro gas) simp_all
  next
    case b: False
    show thesis
    proof (cases "csdb_GetNonce X (st_Sender st) (cached_params s)")
      case None
      then show thesis using T b by (intro nonce) simp_all
    next
      case n: (Some ns)
      obtain n s2 where ns: "ns = (n, s2)" by force
      obtain r s3 where r: "run_vm X M c cfg (params_of s) st gas s2 = (r, s3)" by force
      show thesis
      proof (cases r)
        case (Done ret)
        have g: "\<not> st_Simulate st \<Longrightarrow> g1 = g" using g1 by simp
        obtain res1 t1 where f: "(case r_err ret of Some e \<Rightarrow> (Failed (VmError e), s3) | None \<Rightarrow> finish_transition X M st n gas ret s3) = (res1, t1)" by force
        have d: "deferred_gas M (gas - r_left ret) res1 g1 t1 = (res, g', t)" "st' = st\<lparr>st_GasReturn := maxRefund (gas - r_left ret) s3\<rparr>"
          using T b n ns r Done f by (auto split: option.splits prod.splits)
        then have "t1 = t" by (auto simp: deferred_gas_def split: prod.splits)
        with d f show thesis using n ns r Done g gas_def by (intro late [of n s2 gas cost g1 ret s3 res1]) (auto split: option.splits)
      next
        case (Failed e)
        then show thesis using T b n ns r by (intro early [of n s2 cost r]) (auto simp: gas_def)
      next
        case Panicked
        then show thesis using T b n ns r by (intro early [of n s2 cost r]) (auto simp: gas_def)
      qed
    qed
  qed
qed

text \<open>
  C39. An Ethereum transaction that is only simulated, or that fails before its state is written (in the virtual machine, for lack
  of intrinsic gas, or because creation or calls are disabled), writes nothing: the KV store and the accounts are as before. A
  failure while the state is written, at a blacklisted address or an invalid balance (\<open>write_error\<close>), is not covered: the
  objects before it have been written, and the transaction relies on the SDK to drop them.
\<close>

theorem failed_execution_writes_nothing:
  assumes X: "evm_laws X" and V: "vm_laws X M" and t: "TransitionDb X M c cfg st g s = ((res, g', t), st')"
    and f: "st_Simulate st \<or> (\<exists>e. res = Failed e \<and> \<not> write_error e)"
  shows "s_kv t = s_kv s \<and> ak_get X (s_bank t) = ak_get X (s_bank s)"
proof -
  have "kvp X t = kvp X s"
    using t
  proof (cases rule: TransitionDb_cases [case_names intrinsic gas nonce early late])
    case (early n s2 cost r)
    then show ?thesis using run_vm_kvp [OF X V early(2)] kvp_getters(2) [OF early(1)] by simp
  next
    case (late n s2 cost ret s3 g1 gas res1)
    have s3: "kvp X s3 = kvp X s" using run_vm_kvp [OF X V late(4)] kvp_getters(2) [OF late(1)] by simp
    show ?thesis
    proof (cases "r_err ret")
      case None
      then have fin: "finish_transition X M st n gas ret s3 = (res1, t)" using late(6) by simp
      have "st_Simulate st" if "res = Failed e" "\<not> write_error e" for e
      proof -
        have "res1 = Failed e" using late(7) that(1) by (auto simp: deferred_gas_def split: prod.splits if_splits)
        with finish_cases(2) [OF X fin] that(2) show ?thesis by simp
      qed
      then have "st_Simulate st" using f by blast
      with finish_cases(1) [OF X fin] s3 show ?thesis by simp
    next
      case (Some e)
      with late(6) s3 show ?thesis by simp
    qed
  qed simp_all
  then show ?thesis by (simp add: kvp_def)
qed

subsection \<open>A reference machine\<close>

text \<open>A machine that runs a fixed list of operations, with a gas meter that counts.\<close>

definition ref_vm :: "evm_op list \<Rightarrow> string option \<Rightarrow> 64 word \<Rightarrow> ((eth_addr \<times> account) list, 64 word) evm_vm" where
  "ref_vm ops er left =
     (let run = (\<lambda>s. map_option (\<lambda>db. \<lparr>r_data = None, r_address = ''n'', r_left = left, r_err = er, r_db = db\<rparr>) (exec_all ref_evm ops s))
      in \<lparr>g_consumed = (\<lambda>g. g), g_consume = (\<lambda>n g. (g + n, False)), v_intrinsic = (\<lambda>d create h i. Some 21000),
          v_create = (\<lambda>c h cfg eips pr a code gas v s. run s), v_call = (\<lambda>c h cfg eips pr a to code gas v s. run s),
          v_hexHash = (\<lambda>x. zero_hash), v_bloom = (\<lambda>ls. int (length ls)), v_validSig = (\<lambda>v r s. v < 2), v_recover = (\<lambda>h r s v. Some (char_of (4 :: nat) # ''pub'')),
          v_rlpHash = (\<lambda>n pr gl to v d c. zero_hash)\<rparr>)"

lemma ref_vm_laws: "vm_laws ref_evm (ref_vm ops er left)"
  by (auto simp: vm_laws_def ref_vm_def Let_def)

definition ref_st :: state_transition where
  "ref_st = \<lparr>st_AccountNonce = 7, st_Price = 2, st_GasLimit = 100000, st_Recipient = Some ''c'', st_Amount = 0, st_Payload = [], st_ChainID = 66, st_TxHash = zero_hash,
     st_Sender = ''a'', st_Simulate = False, st_CoinDenom = ''okt'', st_GasReturn = 0\<rparr>"

definition ref_ctx :: evm_context where
  "ref_ctx = \<lparr>ec_Coinbase = [], ec_Height = 5, ec_Time = 0, ec_TxHash = zero_hash, ec_CheckTx = False\<rparr>"

definition ref_cfg :: chain_config where
  "ref_cfg = DefaultChainConfig"

abbreviation rich_start :: "(eth_addr \<times> account) list csdb" where
  "rich_start \<equiv> CreateEmptyCommitStateDB [(''a'', EthAcc ((fresh_account ''a'')\<lparr>ac_Coins := [(''okt'', 50)]\<rparr>))] ref_kv"

theorem failed_execution_writes_nothing_witness:
  "\<exists>g t st. TransitionDb ref_evm (ref_vm [OpSetState ''c'' ''k'' word_v] (Some ''reverted'') 3000) ref_ctx ref_cfg ref_st 21000 rich_start
      = ((Failed (VmError ''reverted''), g, t), st)
     \<and> s_kv t = s_kv rich_start \<and> ak_get ref_evm (s_bank t) = ak_get ref_evm (s_bank rich_start)"
proof -
  let ?T = "TransitionDb ref_evm (ref_vm [OpSetState ''c'' ''k'' word_v] (Some ''reverted'') 3000) ref_ctx ref_cfg ref_st 21000 rich_start"
  have r: "fst (fst ?T) = Failed (VmError ''reverted'')" by code_simp
  obtain g t st where T: "?T = ((Failed (VmError ''reverted''), g, t), st)" using r by (cases ?T) auto
  from failed_execution_writes_nothing [OF ref_evm_laws ref_vm_laws T] show ?thesis using T by (auto simp: write_error_def)
qed

subsection \<open>Gas\<close>

lemma deferred_refund_Done:
  assumes "\<not> st_Simulate st" and "deferred_refund X M st res g k = (Done r, g', k')"
  shows "res = Done r" and "g' = g" and "\<exists>b. RefundGas X M st g (e_bank k) = Some b \<and> k' = k\<lparr>e_bank := b\<rparr>"
  using assms by (auto simp: deferred_refund_def split: option.splits)

text \<open>
  C40. After a successful Ethereum transaction the gas meter stands at the gas limit less the gas the virtual machine left, and the sender gets back
  the gas price times exactly the gas that was left. The refund that \<open>TransitionDb\<close> computed from the refund counter (at most half of the gas used) is
  stored in its own copy of the transition and is never paid.
\<close>

theorem refund_is_unused_gas_only:
  assumes V: "vm_laws X M" and st: "\<not> st_Simulate st" "st_GasReturn st = 0" and h: "handle_transition X M c st g k = (Done r, g', k')"
  shows "\<exists>cfg s st'. TransitionDb X M c cfg st g (SetLogSize (k_LogSize k) (Prepare (ec_TxHash c) (k_Bhash k) (k_TxCount k)
        (CreateEmptyCommitStateDB (e_bank k) (e_kv k)))) = ((Done r, g', s), st')
     \<and> g_consumed M g' = st_GasLimit st - er_GasRefunded r
     \<and> (let fee = st_Price st * uint (er_GasRefunded r)
        in if fee = 0 then e_bank k' = s_bank s
           else b_mod_to_acc (x_sdk X) (s_bank s) ''fee_collector'' (st_Sender st) [(st_CoinDenom st, fee)] = Inr (e_bank k'))"
proof -
  let ?s1 = "SetLogSize (k_LogSize k) (Prepare (ec_TxHash c) (k_Bhash k) (k_TxCount k) (CreateEmptyCommitStateDB (e_bank k) (e_kv k)))"
  obtain cfg where cfg: "e_config k = Some cfg"
    using h st(1) by (cases "e_config k") (auto simp: handle_transition_def GetChainConfig_def Let_def dest!: deferred_refund_Done(1) [OF st(1)])
  obtain res g1 s st' where T: "TransitionDb X M c cfg st g ?s1 = ((res, g1, s), st')" by (metis prod.collapse)
  obtain k2 where k2: "deferred_refund X M st res g1 k2 = (Done r, g', k')" "e_bank k2 = s_bank s"
    using h st(1) cfg T by (auto simp: handle_transition_def GetChainConfig_def Let_def split: outcome.splits)
  note d = deferred_refund_Done [OF st(1) k2(1)]
  obtain b where b: "RefundGas X M st g1 (s_bank s) = Some b" "e_bank k' = b" using d(3) k2(2) by auto
  have gas: "g_consumed M g1 = st_GasLimit st - er_GasRefunded r"
    using T
  proof (cases rule: TransitionDb_cases [case_names intrinsic gas nonce early late])
    case (late n s2 cost ret s3 g0 gl res1)
    have "gl = st_GasLimit st - g_consumed M g" "g0 = g" using late(2,3) st(1) by simp_all
    moreover have c: "g_consume M (gl - r_left ret) g0 = (g1, False)" "res1 = res"
      using late(7) d(1) by (auto simp: deferred_gas_def split: prod.splits if_splits)
    moreover have "er_GasRefunded r = r_left ret"
    proof (cases "r_err ret")
      case None
      then have "finish_transition X M st n gl ret s3 = (res1, s)" using late(6) by simp
      then show ?thesis using c(2) d(1) by (auto simp: finish_transition_def Let_def split: option.splits if_splits prod.splits)
    qed (use late(6) c(2) d(1) in simp)
    ultimately show ?thesis using vm_lawsD(3) [OF V c(1)] by simp
  qed (use d(1) in auto)
  then have "st_GasLimit st - g_consumed M g1 + st_GasReturn st = er_GasRefunded r" using st(2) by simp
  with b have "let fee = st_Price st * uint (er_GasRefunded r) in if fee = 0 then e_bank k' = s_bank s
      else b_mod_to_acc (x_sdk X) (s_bank s) ''fee_collector'' (st_Sender st) [(st_CoinDenom st, fee)] = Inr (e_bank k')"
    by (auto simp: RefundGas_def Let_def split: if_splits sum.splits)
  with T d(1,2) gas show ?thesis by blast
qed

definition ref_keeper :: "(eth_addr \<times> account) list evm_keeper" where
  "ref_keeper = \<lparr>k_TxCount = 0, k_Bloom = 0, k_Bhash = zero_hash, k_LogSize = 0, e_bank = [(''a'', EthAcc ((fresh_account ''a'')\<lparr>ac_Coins := [(''okt'', 50)]\<rparr>))],
     e_kv = ref_kv, e_blockHash = Map.empty, e_blooms = Map.empty, e_config = Some ref_cfg\<rparr>"

theorem refund_is_unused_gas_only_witness:
  "\<exists>r k s cfg st'. handle_transition ref_evm (ref_vm [OpAddRefund 15000] None 40000) ref_ctx ref_st 21000 ref_keeper = (Done r, 60000, k)
     \<and> TransitionDb ref_evm (ref_vm [OpAddRefund 15000] None 40000) ref_ctx cfg ref_st 21000 (SetLogSize 0 (Prepare zero_hash zero_hash 0 rich_start)) = ((Done r, 60000, s), st')
     \<and> b_mod_to_acc (x_sdk ref_evm) (s_bank s) ''fee_collector'' ''a'' [(''okt'', 80000)] = Inr (e_bank k)"
proof -
  let ?M = "ref_vm [OpAddRefund 15000] None 40000"
  let ?h = "handle_transition ref_evm ?M ref_ctx ref_st 21000 ref_keeper"
  have r: "(case fst ?h of Done r \<Rightarrow> er_GasRefunded r = 40000 | _ \<Rightarrow> False)" "fst (snd ?h) = 60000" by code_simp+
  then obtain r k where h: "?h = (Done r, 60000, k)" and left: "er_GasRefunded r = 40000" by (cases ?h) (auto split: outcome.splits)
  have st: "\<not> st_Simulate ref_st" "st_GasReturn ref_st = 0" by (simp_all add: ref_st_def)
  from refund_is_unused_gas_only [OF ref_vm_laws st h] left h show ?thesis by (auto simp: Let_def ref_st_def ref_ctx_def ref_keeper_def)
qed

lemma refund_counter_lost:
  "st_GasReturn (snd (TransitionDb ref_evm (ref_vm [OpAddRefund 15000] None 40000) ref_ctx ref_cfg ref_st 21000 rich_start)) = 15000"
  by code_simp

subsection \<open>Signatures\<close>

text \<open>
  The signature value \<open>V\<close> is malleable: recovery looks at the absolute value of \<open>V - 2 * chainID - 8\<close> only and the chain identifier inside \<open>V\<close> is not
  checked, so the mirrored value is accepted with the same sender although the transaction bytes differ.
\<close>

theorem signature_v_malleable:
  assumes "isProtectedV (td_V d)" and "isProtectedV (4 * chainID + 16 - td_V d)"
  shows "VerifySig X M chainID (d\<lparr>td_V := 4 * chainID + 16 - td_V d\<rparr>) = VerifySig X M chainID d"
proof -
  have "\<bar>4 * chainID + 16 - td_V d - chainID * 2 - 8\<bar> = \<bar>td_V d - chainID * 2 - 8\<bar>" by linarith
  then show ?thesis using assms by (simp add: VerifySig_def recoverEthSig_def RLPSignBytes_def)
qed

definition ref_tx :: tx_data where
  "ref_tx = \<lparr>td_AccountNonce = 0, td_Price = 1, td_GasLimit = 21000, td_Recipient = Some ''c'', td_Amount = 0, td_Payload = [], td_V = 167, td_R = 1, td_S = 1\<rparr>"

theorem signature_v_malleable_witness:
  "\<exists>a. VerifySig ref_evm (ref_vm [] None 0) 66 ref_tx = Inr a \<and> VerifySig ref_evm (ref_vm [] None 0) 66 (ref_tx\<lparr>td_V := 113\<rparr>) = Inr a"
proof -
  have p: "isProtectedV (td_V ref_tx)" "isProtectedV (4 * 66 + 16 - td_V ref_tx)" by code_simp+
  have "\<not> isl (VerifySig ref_evm (ref_vm [] None 0) 66 ref_tx)" by code_simp
  then obtain a where a: "VerifySig ref_evm (ref_vm [] None 0) 66 ref_tx = Inr a" by (cases "VerifySig ref_evm (ref_vm [] None 0) 66 ref_tx") auto
  have "4 * 66 + 16 - td_V ref_tx = 113" by (simp add: ref_tx_def)
  with signature_v_malleable [OF p, of ref_evm "ref_vm [] None 0"] a show ?thesis by auto
qed

end
