(* ===== verification/AmmSwap.thy ===== *)
theory AmmSwap
  imports DexHandler TokenHandler
begin

text \<open>
  The automated market maker: pools and pricing (\<open>x/ammswap/types/swap.go\<close>,
  \<open>keeper/keeper.go\<close>, \<open>keeper/swap.go\<close>, \<open>x/common/util.go\<close>), the messages with their stateless
  validation (\<open>types/msgs.go\<close>), the handlers (\<open>handler.go\<close>), the queries (\<open>keeper/querier.go\<close>), parameters
  and genesis.

  The state \<open>amm\<close> is the chain with the pairs of the module's store, its fee rate and
  the calls made to the observer keepers. The decimal and coin functions of the Cosmos SDK that only
  this module uses are the record \<open>coin_ext\<close>: they return \<open>None\<close> where the code panics. A panic
  of a handler is the error \<open>SwapPanic\<close>; like every error it discards the transaction.
\<close>

record coin_ext =
  x_mulT :: "dec \<Rightarrow> dec \<Rightarrow> dec option"
  x_quoT :: "dec \<Rightarrow> dec \<Rightarrow> dec option"
  x_new_coin :: "denom \<Rightarrow> dec \<Rightarrow> coin option"
  x_coin_add :: "coin \<Rightarrow> coin \<Rightarrow> coin option"
  x_coin_sub :: "coin \<Rightarrow> coin \<Rightarrow> coin option"
  x_coin_lt :: "coin \<Rightarrow> coin \<Rightarrow> bool option"
  x_parse_coin :: "string \<Rightarrow> coin option"

datatype swap_error =
    SwapPanic | SwapBank string | ErrNonExistSwapTokenPair string | ErrNonExistPoolToken string
  | ErrCodeMinCoinsFailed swap_error | ErrSendCoinsFromAccountToModule swap_error
  | ErrBaseAmountNameBiggerThanQuoteAmountName | ErrValidateSwapAmountName | ErrBaseNameEqualQuoteName
  | ErrValidateDenom string | ErrNotAllowedOriginSymbol | ErrInsufficientPoolToken | ErrTokenNotExist
  | ErrSwapInvalidCoins | ErrInvalidTokenPair | ErrAddressIsRequire string | ErrIsZeroValue string
  | ErrBlockTimeBigThanDeadline | ErrLessThan string string | ErrMintPoolTokenFailed swap_error
  | ErrSendCoinsFromPoolToAccountFailed swap_error | ErrBurnPoolTokenFailed swap_error
  | ErrSendCoinsToPoolFailed swap_error | ErrMinLiquidityIsNegative | ErrMaxBaseAmountOrQuoteAmountIsNegative
  | ErrMaxBaseAmount | ErrQuoteAmount | ErrMinBaseAmount | ErrMinQuoteAmount | ErrSoldTokenAmountIsNegative
  | ErrToken0NameEqualToken1Name | ErrSoldTokenAmount | ErrMinBoughtTokenAmount | ErrSwapSendCoinsFailed swap_error
  | ErrMsgDeadlineLessThanBlockTime | ErrBaseTokensAmountBiggerThanMax | ErrSwapTokenPairExist
  | ErrPoolTokenPairExist | ErrSwapInsufficientCoins | ErrSellAmountOrBuyTokenIsEmpty
  | ErrConvertSellTokenAmount string | ErrSellAmountEqualBuyToken | ErrQueryParamsQuoteTokenAmountIsEmpty
  | ErrQueryParamsBaseTokenIsEmpty | ErrConvertQuoteTokenAmount string | ErrParseDec string

definition panicked :: "'a option \<Rightarrow> swap_error + 'a" where
  "panicked r = (case r of None \<Rightarrow> Inl SwapPanic | Some a \<Rightarrow> Inr a)"

definition wrap_err :: "('e \<Rightarrow> 'f) \<Rightarrow> 'e + 'a \<Rightarrow> 'f + 'a" where
  "wrap_err f r = (case r of Inl e \<Rightarrow> Inl (f e) | Inr a \<Rightarrow> Inr a)"

subsection \<open>Pairs\<close>

definition PoolTokenPrefix :: string where "PoolTokenPrefix = ''ammswap_''"
definition ammswapModule :: string where "ammswapModule = ''ammswap''"
definition GenerateTokenType :: int where "GenerateTokenType = 2"

record swap_pair =
  sp_Quote :: coin
  sp_Base :: coin
  sp_PoolTokenName :: string

definition GetBaseQuoteTokenName :: "string \<Rightarrow> string \<Rightarrow> string \<times> string" where
  "GetBaseQuoteTokenName token0 token1 = (if token0 < token1 then (token0, token1) else (token1, token0))"

definition GetSwapTokenPairName :: "string \<Rightarrow> string \<Rightarrow> string" where
  "GetSwapTokenPairName token0 token1 =
     (let (base, quote) = GetBaseQuoteTokenName token0 token1 in base @ ''_'' @ quote)"

definition GetPoolTokenName :: "string \<Rightarrow> string \<Rightarrow> string" where
  "GetPoolTokenName token1 token2 = PoolTokenPrefix @ GetSwapTokenPairName token1 token2"

definition NewSwapPair :: "coin_ext \<Rightarrow> string \<Rightarrow> string \<Rightarrow> swap_error + swap_pair" where
  "NewSwapPair X token0 token1 =
     (let (base, quote) = GetBaseQuoteTokenName token0 token1
      in rbind (panicked (x_new_coin X quote 0)) (\<lambda>q.
         rbind (panicked (x_new_coin X base 0)) (\<lambda>b.
         Inr \<lparr>sp_Quote = q, sp_Base = b, sp_PoolTokenName = GetPoolTokenName token0 token1\<rparr>)))"

definition TokenPairName :: "swap_pair \<Rightarrow> string" where
  "TokenPairName p = fst (sp_Base p) @ ''_'' @ fst (sp_Quote p)"

definition InitPoolToken :: "'b sdk \<Rightarrow> string \<Rightarrow> token" where
  "InitPoolToken S poolTokenName =
     \<lparr>tk_Description = poolTokenName, tk_Symbol = poolTokenName, tk_OriginalSymbol = poolTokenName,
      tk_WholeName = poolTokenName, tk_OriginalTotalSupply = 0, tk_Type = GenerateTokenType,
      tk_Owner = b_mod_addr S ammswapModule, tk_Mintable = True\<rparr>"

definition ValidateSwapAmountName :: "'b sdk \<Rightarrow> string \<Rightarrow> swap_error option" where
  "ValidateSwapAmountName S amountName =
     (if \<not> s_validate_denom S amountName then Some (ErrValidateDenom amountName)
      else if NotAllowedOriginSymbol amountName then Some ErrNotAllowedOriginSymbol
      else None)"

definition ValidateBaseAndQuoteAmount :: "'b sdk \<Rightarrow> string \<Rightarrow> string \<Rightarrow> swap_error option" where
  "ValidateBaseAndQuoteAmount S baseAmountName quoteAmountName =
     (if quoteAmountName < baseAmountName then Some ErrBaseAmountNameBiggerThanQuoteAmountName
      else if baseAmountName = quoteAmountName then Some ErrBaseNameEqualQuoteName
      else case ValidateSwapAmountName S baseAmountName of
             Some er \<Rightarrow> Some er
           | None \<Rightarrow> ValidateSwapAmountName S quoteAmountName)"

definition IsPoolToken :: "string \<Rightarrow> bool" where
  "IsPoolToken symbol = NotAllowedOriginSymbol symbol"

subsection \<open>Pricing\<close>

text \<open>
  \<open>MulAndQuo\<close> of \<open>x/common/util.go\<close>. The auxiliary decimal is ten to the precision, whose
  integer representation is the square of the unit.
\<close>

definition MulAndQuo :: "'b sdk \<Rightarrow> coin_ext \<Rightarrow> dec \<Rightarrow> dec \<Rightarrow> dec \<Rightarrow> swap_error + dec" where
  "MulAndQuo S X a b c =
     (let auxiliaryDec = d_unit S * d_unit S
      in rbind (panicked (x_mulT X a auxiliaryDec)) (\<lambda>a.
         rbind (panicked (x_mulT X a b)) (\<lambda>ab.
         rbind (panicked (x_quoT X ab c)) (\<lambda>q.
         panicked (x_quoT X q auxiliaryDec)))))"

definition GetInputPrice :: "'b sdk \<Rightarrow> coin_ext \<Rightarrow> dec \<Rightarrow> dec \<Rightarrow> dec \<Rightarrow> dec \<Rightarrow> swap_error + dec" where
  "GetInputPrice S X inputAmount inputReserve outputReserve feeRate =
     rbind (panicked (x_mulT X (d_unit S - feeRate) (1000 * d_unit S))) (\<lambda>rate.
     rbind (panicked (x_mulT X inputAmount rate)) (\<lambda>inputAmountWithFee.
     rbind (panicked (x_mulT X inputReserve (1000 * d_unit S))) (\<lambda>scaled.
     MulAndQuo S X inputAmountWithFee outputReserve (scaled + inputAmountWithFee))))"

definition CalculateTokenToBuy ::
  "'b sdk \<Rightarrow> coin_ext \<Rightarrow> swap_pair \<Rightarrow> coin \<Rightarrow> denom \<Rightarrow> dec \<Rightarrow> swap_error + coin" where
  "CalculateTokenToBuy S X pair sellToken buyTokenDenom feeRate =
     (let (inputReserve, outputReserve) =
            (if buyTokenDenom < fst sellToken then (snd (sp_Quote pair), snd (sp_Base pair))
             else (snd (sp_Base pair), snd (sp_Quote pair)))
      in rbind (GetInputPrice S X (snd sellToken) inputReserve outputReserve feeRate) (\<lambda>amount.
         panicked (x_new_coin X buyTokenDenom amount)))"

subsection \<open>State and keeper\<close>

datatype swap_note = NoteCreate swap_pair | NoteSwap addr swap_pair coin coin

record 'b amm =
  am_chain :: "'b chain"
  am_pairs :: "(string, swap_pair) kv"
  am_FeeRate :: dec
  am_notes :: "swap_note list"

abbreviation am_bank :: "'b amm \<Rightarrow> 'b" where
  "am_bank s \<equiv> bank (am_chain s)"

definition set_am_bank :: "'b \<Rightarrow> 'b amm \<Rightarrow> 'b amm" where
  "set_am_bank b s = s\<lparr>am_chain := (am_chain s)\<lparr>bank := b\<rparr>\<rparr>"

definition GetSwapTokenPair :: "'b amm \<Rightarrow> string \<Rightarrow> swap_error + swap_pair" where
  "GetSwapTokenPair s name =
     (case map_of (am_pairs s) name of None \<Rightarrow> Inl (ErrNonExistSwapTokenPair name) | Some p \<Rightarrow> Inr p)"

definition SetSwapTokenPair :: "string \<Rightarrow> swap_pair \<Rightarrow> 'b amm \<Rightarrow> 'b amm" where
  "SetSwapTokenPair name p s = s\<lparr>am_pairs := kv_set name p (am_pairs s)\<rparr>"

definition DeleteSwapTokenPair :: "string \<Rightarrow> 'b amm \<Rightarrow> 'b amm" where
  "DeleteSwapTokenPair name s = s\<lparr>am_pairs := kv_del name (am_pairs s)\<rparr>"

definition GetSwapTokenPairs :: "'b amm \<Rightarrow> swap_pair list" where
  "GetSwapTokenPairs s = map snd (am_pairs s)"

definition NewPoolToken :: "'b sdk \<Rightarrow> string \<Rightarrow> 'b amm \<Rightarrow> 'b amm" where
  "NewPoolToken S symbol s = s\<lparr>am_chain := NewToken (InitPoolToken S symbol) (am_chain s)\<rparr>"

definition GetPoolTokenInfo :: "'b amm \<Rightarrow> string \<Rightarrow> swap_error + token" where
  "GetPoolTokenInfo s symbol =
     (let poolToken = GetTokenInfo (am_chain s) symbol
      in if tk_Owner poolToken = [] then Inl (ErrNonExistPoolToken symbol) else Inr poolToken)"

definition GetPoolTokenAmount :: "'b sdk \<Rightarrow> 'b amm \<Rightarrow> string \<Rightarrow> dec" where
  "GetPoolTokenAmount S s poolTokenName = b_supply S (am_bank s) poolTokenName"

definition with_bank :: "'b amm \<Rightarrow> string + 'b \<Rightarrow> swap_error + 'b amm" where
  "with_bank s r = (case r of Inl er \<Rightarrow> Inl (SwapBank er) | Inr b \<Rightarrow> Inr (set_am_bank b s))"

definition SendCoinsToPool :: "'b sdk \<Rightarrow> coins \<Rightarrow> addr \<Rightarrow> 'b amm \<Rightarrow> swap_error + 'b amm" where
  "SendCoinsToPool S cs a s = with_bank s (b_acc_to_mod S (am_bank s) a ammswapModule cs)"

definition SendCoinsFromPoolToAccount :: "'b sdk \<Rightarrow> coins \<Rightarrow> addr \<Rightarrow> 'b amm \<Rightarrow> swap_error + 'b amm" where
  "SendCoinsFromPoolToAccount S cs a s = with_bank s (b_mod_to_acc S (am_bank s) ammswapModule a cs)"

definition MintPoolCoinsToUser :: "'b sdk \<Rightarrow> coins \<Rightarrow> addr \<Rightarrow> 'b amm \<Rightarrow> swap_error + 'b amm" where
  "MintPoolCoinsToUser S cs a s =
     rbind (wrap_err ErrCodeMinCoinsFailed (with_bank s (b_mint S (am_bank s) ammswapModule cs))) (\<lambda>s.
     with_bank s (b_mod_to_acc S (am_bank s) ammswapModule a cs))"

definition BurnPoolCoinsFromUser :: "'b sdk \<Rightarrow> coins \<Rightarrow> addr \<Rightarrow> 'b amm \<Rightarrow> swap_error + 'b amm" where
  "BurnPoolCoinsFromUser S cs a s =
     rbind (wrap_err ErrSendCoinsFromAccountToModule
              (with_bank s (b_acc_to_mod S (am_bank s) a ammswapModule cs))) (\<lambda>s.
     with_bank s (b_burn S (am_bank s) ammswapModule cs))"

definition GetRedeemableAssets ::
  "'b sdk \<Rightarrow> coin_ext \<Rightarrow> 'b amm \<Rightarrow> string \<Rightarrow> string \<Rightarrow> dec \<Rightarrow> swap_error + coin \<times> coin" where
  "GetRedeemableAssets S X s baseAmountName quoteAmountName liquidity =
     (if ValidateBaseAndQuoteAmount S baseAmountName quoteAmountName \<noteq> None then Inl ErrValidateSwapAmountName
      else rbind (GetSwapTokenPair s (GetSwapTokenPairName baseAmountName quoteAmountName)) (\<lambda>pair.
        (let poolTokenAmount = GetPoolTokenAmount S s (sp_PoolTokenName pair)
         in if poolTokenAmount < liquidity then Inl ErrInsufficientPoolToken
            else
              rbind (MulAndQuo S X (snd (sp_Base pair)) liquidity poolTokenAmount) (\<lambda>baseDec.
              rbind (MulAndQuo S X (snd (sp_Quote pair)) liquidity poolTokenAmount) (\<lambda>quoteDec.
              rbind (panicked (x_new_coin X (fst (sp_Base pair)) baseDec)) (\<lambda>baseAmount.
              rbind (panicked (x_new_coin X (fst (sp_Quote pair)) quoteDec)) (\<lambda>quoteAmount.
              Inr (baseAmount, quoteAmount))))))))"

definition OnSwapToken :: "addr \<Rightarrow> swap_pair \<Rightarrow> coin \<Rightarrow> coin \<Rightarrow> 'b amm \<Rightarrow> 'b amm" where
  "OnSwapToken a pair sellAmount buyAmount s = s\<lparr>am_notes := am_notes s @ [NoteSwap a pair sellAmount buyAmount]\<rparr>"

definition OnCreateExchange :: "swap_pair \<Rightarrow> 'b amm \<Rightarrow> 'b amm" where
  "OnCreateExchange pair s = s\<lparr>am_notes := am_notes s @ [NoteCreate pair]\<rparr>"

definition IsTokenExist :: "'b amm \<Rightarrow> string \<Rightarrow> swap_error option" where
  "IsTokenExist s symbol =
     (if \<not> TokenExist (am_chain s) symbol then Some ErrTokenNotExist
      else if tk_Type (GetTokenInfo (am_chain s) symbol) = GenerateTokenType then Some ErrSwapInvalidCoins
      else None)"

subsection \<open>Messages\<close>

record msg_add_liquidity =
  al_MinLiquidity :: dec
  al_MaxBaseAmount :: coin
  al_QuoteAmount :: coin
  al_Deadline :: int
  al_Sender :: addr

definition MsgAddLiquidity_ValidateBasic :: "'b sdk \<Rightarrow> msg_add_liquidity \<Rightarrow> swap_error option" where
  "MsgAddLiquidity_ValidateBasic S msg =
     (if al_Sender msg = [] then Some (ErrAddressIsRequire ''sender'')
      else if al_MinLiquidity msg < 0 then Some ErrMinLiquidityIsNegative
      else if \<not> (0 < snd (al_MaxBaseAmount msg) \<and> 0 < snd (al_QuoteAmount msg))
      then Some ErrMaxBaseAmountOrQuoteAmountIsNegative
      else if \<not> c_coin_valid S (al_MaxBaseAmount msg) then Some ErrMaxBaseAmount
      else if \<not> c_coin_valid S (al_QuoteAmount msg) then Some ErrQuoteAmount
      else ValidateBaseAndQuoteAmount S (fst (al_MaxBaseAmount msg)) (fst (al_QuoteAmount msg)))"

definition al_pair_name :: "msg_add_liquidity \<Rightarrow> string" where
  "al_pair_name msg = GetSwapTokenPairName (fst (al_MaxBaseAmount msg)) (fst (al_QuoteAmount msg))"

record msg_remove_liquidity =
  rl_Liquidity :: dec
  rl_MinBaseAmount :: coin
  rl_MinQuoteAmount :: coin
  rl_Deadline :: int
  rl_Sender :: addr

definition MsgRemoveLiquidity_ValidateBasic :: "'b sdk \<Rightarrow> msg_remove_liquidity \<Rightarrow> swap_error option" where
  "MsgRemoveLiquidity_ValidateBasic S msg =
     (if rl_Sender msg = [] then Some (ErrAddressIsRequire ''sender'')
      else if \<not> 0 < rl_Liquidity msg then Some ErrMinLiquidityIsNegative
      else if \<not> c_coin_valid S (rl_MinBaseAmount msg) then Some ErrMinBaseAmount
      else if \<not> c_coin_valid S (rl_MinQuoteAmount msg) then Some ErrMinQuoteAmount
      else ValidateBaseAndQuoteAmount S (fst (rl_MinBaseAmount msg)) (fst (rl_MinQuoteAmount msg)))"

definition rl_pair_name :: "msg_remove_liquidity \<Rightarrow> string" where
  "rl_pair_name msg = GetSwapTokenPairName (fst (rl_MinBaseAmount msg)) (fst (rl_MinQuoteAmount msg))"

record msg_create_exchange =
  ce_Token0Name :: string
  ce_Token1Name :: string
  ce_Sender :: addr

definition MsgCreateExchange_ValidateBasic :: "'b sdk \<Rightarrow> msg_create_exchange \<Rightarrow> swap_error option" where
  "MsgCreateExchange_ValidateBasic S msg =
     (if ce_Sender msg = [] then Some (ErrAddressIsRequire ''sender'')
      else case ValidateSwapAmountName S (ce_Token0Name msg) of
             Some er \<Rightarrow> Some er
           | None \<Rightarrow>
               (case ValidateSwapAmountName S (ce_Token1Name msg) of
                  Some er \<Rightarrow> Some er
                | None \<Rightarrow> if ce_Token0Name msg = ce_Token1Name msg then Some ErrToken0NameEqualToken1Name else None))"

record msg_token_to_token =
  tt_SoldTokenAmount :: coin
  tt_MinBoughtTokenAmount :: coin
  tt_Deadline :: int
  tt_Recipient :: addr
  tt_Sender :: addr

definition MsgTokenToToken_ValidateBasic :: "'b sdk \<Rightarrow> msg_token_to_token \<Rightarrow> swap_error option" where
  "MsgTokenToToken_ValidateBasic S msg =
     (if tt_Sender msg = [] then Some (ErrAddressIsRequire ''sender'')
      else if tt_Recipient msg = [] then Some (ErrAddressIsRequire ''recipient'')
      else if \<not> 0 < snd (tt_SoldTokenAmount msg) then Some ErrSoldTokenAmountIsNegative
      else if \<not> c_coin_valid S (tt_SoldTokenAmount msg) then Some ErrSoldTokenAmount
      else if \<not> c_coin_valid S (tt_MinBoughtTokenAmount msg) then Some ErrMinBoughtTokenAmount
      else (let (base, quote) = GetBaseQuoteTokenName (fst (tt_SoldTokenAmount msg)) (fst (tt_MinBoughtTokenAmount msg))
            in ValidateBaseAndQuoteAmount S base quote))"

definition tt_pair_name :: "msg_token_to_token \<Rightarrow> string" where
  "tt_pair_name msg = GetSwapTokenPairName (fst (tt_MinBoughtTokenAmount msg)) (fst (tt_SoldTokenAmount msg))"

subsection \<open>Handlers\<close>

definition coinSort :: "'b sdk \<Rightarrow> coins \<Rightarrow> coins" where
  "coinSort S cs = c_sort S (filter (\<lambda>c. 0 < snd c) cs)"

definition handleMsgCreateExchange ::
  "'b sdk \<Rightarrow> coin_ext \<Rightarrow> 'b amm \<Rightarrow> msg_create_exchange \<Rightarrow> swap_error + 'b amm" where
  "handleMsgCreateExchange S X s msg =
     (case IsTokenExist s (ce_Token0Name msg) of
        Some er \<Rightarrow> Inl er
      | None \<Rightarrow>
     (case IsTokenExist s (ce_Token1Name msg) of
        Some er \<Rightarrow> Inl er
      | None \<Rightarrow>
        (let tokenPairName = GetSwapTokenPairName (ce_Token0Name msg) (ce_Token1Name msg);
             poolTokenName = GetPoolTokenName (ce_Token0Name msg) (ce_Token1Name msg)
         in if is_ok (GetSwapTokenPair s tokenPairName) then Inl ErrSwapTokenPairExist
            else if is_ok (GetPoolTokenInfo s poolTokenName) then Inl ErrPoolTokenPairExist
            else
              (let s = NewPoolToken S poolTokenName s
               in rbind (NewSwapPair X (ce_Token0Name msg) (ce_Token1Name msg)) (\<lambda>swapTokenPair.
                  Inr (OnCreateExchange swapTokenPair (SetSwapTokenPair tokenPairName swapTokenPair s)))))))"

text \<open>The amounts of a deposit: the base tokens to pay and the liquidity to mint.\<close>

definition add_amounts ::
  "'b sdk \<Rightarrow> coin_ext \<Rightarrow> 'b amm \<Rightarrow> msg_add_liquidity \<Rightarrow> swap_pair \<Rightarrow> swap_error + dec \<times> dec" where
  "add_amounts S X s msg pair =
     (if snd (sp_Quote pair) = 0 \<and> snd (sp_Base pair) = 0
      then Inr (snd (al_MaxBaseAmount msg), d_unit S)
      else if 0 < snd (sp_Base pair) \<and> 0 < snd (sp_Quote pair)
      then
        rbind (MulAndQuo S X (snd (al_QuoteAmount msg)) (snd (sp_Base pair)) (snd (sp_Quote pair))) (\<lambda>amount.
        (let totalSupply = GetPoolTokenAmount S s (sp_PoolTokenName pair);
             amount = (if amount = 0 then 1 else amount)
         in if totalSupply = 0 then Inl (ErrIsZeroValue ''totalSupply'')
            else
              rbind (MulAndQuo S X (snd (al_QuoteAmount msg)) totalSupply (snd (sp_Quote pair))) (\<lambda>liquidity.
              if liquidity = 0 then Inl (ErrIsZeroValue ''liquidity'') else Inr (amount, liquidity))))
      else Inl ErrInvalidTokenPair)"

definition handleMsgAddLiquidity ::
  "'b sdk \<Rightarrow> coin_ext \<Rightarrow> env \<Rightarrow> 'b amm \<Rightarrow> msg_add_liquidity \<Rightarrow> swap_error + 'b amm" where
  "handleMsgAddLiquidity S X e s msg =
     (if al_Deadline msg < e_Time e then Inl ErrBlockTimeBigThanDeadline
      else
        rbind (GetSwapTokenPair s (al_pair_name msg)) (\<lambda>pair.
        rbind (panicked (x_new_coin X (fst (al_MaxBaseAmount msg)) 0)) (\<lambda>zeroBase.
        rbind (GetPoolTokenInfo s (sp_PoolTokenName pair)) (\<lambda>poolToken.
        rbind (add_amounts S X s msg pair) (\<lambda>(amount, liquidity).
        (let baseTokens = (fst zeroBase, amount)
         in if snd (al_MaxBaseAmount msg) < amount then Inl ErrBaseTokensAmountBiggerThanMax
            else if liquidity < al_MinLiquidity msg then Inl (ErrLessThan ''liquidity'' ''min liquidity'')
            else
              rbind (wrap_err ErrSwapSendCoinsFailed
                       (SendCoinsToPool S (coinSort S [al_QuoteAmount msg, baseTokens]) (al_Sender msg) s)) (\<lambda>s.
              rbind (panicked (x_coin_add X (sp_Quote pair) (al_QuoteAmount msg))) (\<lambda>quote.
              rbind (panicked (x_coin_add X (sp_Base pair) baseTokens)) (\<lambda>base.
              (let s = SetSwapTokenPair (al_pair_name msg) (pair\<lparr>sp_Quote := quote, sp_Base := base\<rparr>) s
               in rbind (panicked (x_new_coin X (tk_Symbol poolToken) liquidity)) (\<lambda>poolCoins.
                  wrap_err ErrMintPoolTokenFailed (MintPoolCoinsToUser S [poolCoins] (al_Sender msg) s))))))))))))"

definition handleMsgRemoveLiquidity ::
  "'b sdk \<Rightarrow> coin_ext \<Rightarrow> env \<Rightarrow> 'b amm \<Rightarrow> msg_remove_liquidity \<Rightarrow> swap_error + 'b amm" where
  "handleMsgRemoveLiquidity S X e s msg =
     (if rl_Deadline msg < e_Time e then Inl ErrMsgDeadlineLessThanBlockTime
      else
        rbind (GetSwapTokenPair s (rl_pair_name msg)) (\<lambda>pair.
        (let liquidity = rl_Liquidity msg;
             poolTokenAmount = GetPoolTokenAmount S s (sp_PoolTokenName pair)
         in if poolTokenAmount < liquidity then Inl (ErrLessThan ''pool token amount'' ''liquidity'')
            else
              rbind (MulAndQuo S X (snd (sp_Base pair)) liquidity poolTokenAmount) (\<lambda>baseDec.
              rbind (MulAndQuo S X (snd (sp_Quote pair)) liquidity poolTokenAmount) (\<lambda>quoteDec.
              rbind (panicked (x_new_coin X (fst (sp_Base pair)) baseDec)) (\<lambda>baseAmount.
              rbind (panicked (x_new_coin X (fst (sp_Quote pair)) quoteDec)) (\<lambda>quoteAmount.
              rbind (panicked (x_coin_lt X baseAmount (rl_MinBaseAmount msg))) (\<lambda>lessBase.
              if lessBase then Inl (ErrLessThan ''base amount'' ''min base amount'')
              else
              rbind (panicked (x_coin_lt X quoteAmount (rl_MinQuoteAmount msg))) (\<lambda>lessQuote.
              if lessQuote then Inl (ErrLessThan ''quote amount'' ''min quote amount'')
              else
              rbind (wrap_err ErrSendCoinsFromPoolToAccountFailed
                       (SendCoinsFromPoolToAccount S (coinSort S [baseAmount, quoteAmount]) (rl_Sender msg) s)) (\<lambda>s.
              rbind (panicked (x_coin_sub X (sp_Quote pair) quoteAmount)) (\<lambda>quote.
              rbind (panicked (x_coin_sub X (sp_Base pair) baseAmount)) (\<lambda>base.
              (let s = SetSwapTokenPair (rl_pair_name msg) (pair\<lparr>sp_Quote := quote, sp_Base := base\<rparr>) s
               in rbind (panicked (x_new_coin X (sp_PoolTokenName pair) liquidity)) (\<lambda>poolCoins.
                  wrap_err ErrBurnPoolTokenFailed (BurnPoolCoinsFromUser S [poolCoins] (rl_Sender msg) s)))))))))))))))"

definition swapTokenNativeToken ::
  "'b sdk \<Rightarrow> coin_ext \<Rightarrow> 'b amm \<Rightarrow> swap_pair \<Rightarrow> coin \<Rightarrow> msg_token_to_token \<Rightarrow> swap_error + 'b amm" where
  "swapTokenNativeToken S X s pair tokenBuy msg =
     rbind (wrap_err ErrSendCoinsToPoolFailed (SendCoinsToPool S [tt_SoldTokenAmount msg] (tt_Sender msg) s)) (\<lambda>s.
     rbind (wrap_err ErrSendCoinsFromPoolToAccountFailed
              (SendCoinsFromPoolToAccount S [tokenBuy] (tt_Recipient msg) s)) (\<lambda>s.
     rbind (if fst (tt_MinBoughtTokenAmount msg) < fst (tt_SoldTokenAmount msg)
            then
              rbind (panicked (x_coin_add X (sp_Quote pair) (tt_SoldTokenAmount msg))) (\<lambda>quote.
              rbind (panicked (x_coin_sub X (sp_Base pair) tokenBuy)) (\<lambda>base.
              Inr (pair\<lparr>sp_Quote := quote, sp_Base := base\<rparr>)))
            else
              rbind (panicked (x_coin_sub X (sp_Quote pair) tokenBuy)) (\<lambda>quote.
              rbind (panicked (x_coin_add X (sp_Base pair) (tt_SoldTokenAmount msg))) (\<lambda>base.
              Inr (pair\<lparr>sp_Quote := quote, sp_Base := base\<rparr>)))) (\<lambda>pair.
     Inr (OnSwapToken (tt_Recipient msg) pair (tt_SoldTokenAmount msg) tokenBuy
            (SetSwapTokenPair (tt_pair_name msg) pair s)))))"

definition empty_pool :: "swap_pair \<Rightarrow> bool" where
  "empty_pool pair \<longleftrightarrow> snd (sp_Base pair) = 0 \<or> snd (sp_Quote pair) = 0"

definition swapToken ::
  "'b sdk \<Rightarrow> coin_ext \<Rightarrow> env \<Rightarrow> 'b amm \<Rightarrow> msg_token_to_token \<Rightarrow> swap_error + 'b amm" where
  "swapToken S X e s msg =
     (if \<not> HasSufficientCoins S (GetCoins S (am_chain s) (tt_Sender msg)) [tt_SoldTokenAmount msg]
      then Inl ErrSwapInsufficientCoins
      else if tt_Deadline msg < e_Time e then Inl ErrBlockTimeBigThanDeadline
      else
        rbind (GetSwapTokenPair s (tt_pair_name msg)) (\<lambda>pair.
        if empty_pool pair then Inl (ErrIsZeroValue ''base pooled coin or quote pooled coin'')
        else
          rbind (CalculateTokenToBuy S X pair (tt_SoldTokenAmount msg) (fst (tt_MinBoughtTokenAmount msg))
                   (am_FeeRate s)) (\<lambda>tokenBuy.
          if snd tokenBuy = 0 then Inl (ErrIsZeroValue ''token buy'')
          else if snd tokenBuy < snd (tt_MinBoughtTokenAmount msg)
          then Inl (ErrLessThan ''token buy amount'' ''min bought token amount'')
          else swapTokenNativeToken S X s pair tokenBuy msg)))"

definition swapTokenByRouter ::
  "'b sdk \<Rightarrow> coin_ext \<Rightarrow> env \<Rightarrow> 'b amm \<Rightarrow> msg_token_to_token \<Rightarrow> swap_error + 'b amm" where
  "swapTokenByRouter S X e s msg =
     (if tt_Deadline msg < e_Time e then Inl ErrBlockTimeBigThanDeadline
      else if \<not> HasSufficientCoins S (GetCoins S (am_chain s) (tt_Sender msg)) [tt_SoldTokenAmount msg]
      then Inl ErrSwapInsufficientCoins
      else
        rbind (wrap_err (\<lambda>_. ErrNonExistSwapTokenPair (tt_pair_name msg))
                 (GetSwapTokenPair s (GetSwapTokenPairName (fst (tt_SoldTokenAmount msg)) NativeToken))) (\<lambda>pairOne.
        if empty_pool pairOne then Inl (ErrIsZeroValue ''base pooled coin or quote pooled coin'')
        else
        rbind (wrap_err (\<lambda>_. ErrNonExistSwapTokenPair (tt_pair_name msg))
                 (GetSwapTokenPair s (GetSwapTokenPairName (fst (tt_MinBoughtTokenAmount msg)) NativeToken))) (\<lambda>pairTwo.
        if empty_pool pairTwo then Inl (ErrIsZeroValue ''base pooled coin or quote pooled coin'')
        else
        rbind (panicked (x_new_coin X NativeToken 0)) (\<lambda>nativeAmount.
        (let msgOne = msg\<lparr>tt_MinBoughtTokenAmount := nativeAmount\<rparr>
         in rbind (CalculateTokenToBuy S X pairOne (tt_SoldTokenAmount msgOne)
                     (fst (tt_MinBoughtTokenAmount msgOne)) (am_FeeRate s)) (\<lambda>tokenNative.
            if snd tokenNative = 0 then Inl (ErrIsZeroValue ''token native'')
            else
            (let msgTwo = msg\<lparr>tt_SoldTokenAmount := tokenNative\<rparr>
             in rbind (CalculateTokenToBuy S X pairTwo (tt_SoldTokenAmount msgTwo)
                         (fst (tt_MinBoughtTokenAmount msgTwo)) (am_FeeRate s)) (\<lambda>tokenBuy.
                if snd tokenBuy = 0 then Inl (ErrIsZeroValue ''token to buy amount'')
                else if snd tokenBuy < snd (tt_MinBoughtTokenAmount msg)
                then Inl (ErrLessThan ''token buy amount'' ''min bought token amount'')
                else
                rbind (swapTokenNativeToken S X s pairOne tokenNative msgOne) (\<lambda>s.
                swapTokenNativeToken S X s pairTwo tokenBuy msgTwo)))))))))"

definition handleMsgTokenToToken ::
  "'b sdk \<Rightarrow> coin_ext \<Rightarrow> env \<Rightarrow> 'b amm \<Rightarrow> msg_token_to_token \<Rightarrow> swap_error + 'b amm" where
  "handleMsgTokenToToken S X e s msg =
     (case GetSwapTokenPair s (tt_pair_name msg) of
        Inl _ \<Rightarrow> swapTokenByRouter S X e s msg
      | Inr _ \<Rightarrow> swapToken S X e s msg)"

datatype swap_msg =
    MsgAddLiquidity msg_add_liquidity
  | MsgRemoveLiquidity msg_remove_liquidity
  | MsgCreateExchange msg_create_exchange
  | MsgTokenToToken msg_token_to_token

fun swap_ValidateBasic :: "'b sdk \<Rightarrow> swap_msg \<Rightarrow> swap_error option" where
  "swap_ValidateBasic S (MsgAddLiquidity msg) = MsgAddLiquidity_ValidateBasic S msg"
| "swap_ValidateBasic S (MsgRemoveLiquidity msg) = MsgRemoveLiquidity_ValidateBasic S msg"
| "swap_ValidateBasic S (MsgCreateExchange msg) = MsgCreateExchange_ValidateBasic S msg"
| "swap_ValidateBasic S (MsgTokenToToken msg) = MsgTokenToToken_ValidateBasic S msg"

fun swap_handler :: "'b sdk \<Rightarrow> coin_ext \<Rightarrow> env \<Rightarrow> 'b amm \<Rightarrow> swap_msg \<Rightarrow> swap_error + 'b amm" where
  "swap_handler S X e s (MsgAddLiquidity msg) = handleMsgAddLiquidity S X e s msg"
| "swap_handler S X e s (MsgRemoveLiquidity msg) = handleMsgRemoveLiquidity S X e s msg"
| "swap_handler S X e s (MsgCreateExchange msg) = handleMsgCreateExchange S X s msg"
| "swap_handler S X e s (MsgTokenToToken msg) = handleMsgTokenToToken S X e s msg"

fun swap_GetSigners :: "swap_msg \<Rightarrow> addr list" where
  "swap_GetSigners (MsgAddLiquidity msg) = [al_Sender msg]"
| "swap_GetSigners (MsgRemoveLiquidity msg) = [rl_Sender msg]"
| "swap_GetSigners (MsgCreateExchange msg) = [ce_Sender msg]"
| "swap_GetSigners (MsgTokenToToken msg) = [tt_Sender msg]"

subsection \<open>Parameters and genesis\<close>

definition swap_validateParams :: "'b sdk \<Rightarrow> dec \<Rightarrow> bool" where
  "swap_validateParams S v \<longleftrightarrow> \<not> v < 0 \<and> \<not> d_unit S < v"

definition defaultFeeRate :: "'b sdk \<Rightarrow> dec" where
  "defaultFeeRate S = 3 * (d_unit S div 1000)"

record swap_genesis =
  sg_FeeRate :: dec
  sg_Records :: "swap_pair list"

definition swap_ValidateGenesis :: "'b sdk \<Rightarrow> swap_genesis \<Rightarrow> bool" where
  "swap_ValidateGenesis S g =
     list_all (\<lambda>r. c_coin_valid S (sp_Quote r) \<and> c_coin_valid S (sp_Base r)
       \<and> NotAllowedOriginSymbol (sp_PoolTokenName r)) (sg_Records g)"

definition swap_InitGenesis :: "swap_genesis \<Rightarrow> 'b amm \<Rightarrow> 'b amm" where
  "swap_InitGenesis g s =
     fold (\<lambda>r. SetSwapTokenPair (TokenPairName r) r) (sg_Records g) (s\<lparr>am_FeeRate := sg_FeeRate g\<rparr>)"

definition swap_ExportGenesis :: "'b amm \<Rightarrow> swap_genesis" where
  "swap_ExportGenesis s = \<lparr>sg_FeeRate = am_FeeRate s, sg_Records = map snd (am_pairs s)\<rparr>"

definition swap_DefaultGenesisState :: "'b sdk \<Rightarrow> swap_genesis" where
  "swap_DefaultGenesisState S = \<lparr>sg_FeeRate = defaultFeeRate S, sg_Records = []\<rparr>"

subsection \<open>Queries\<close>

definition queryBuyAmount ::
  "'b sdk \<Rightarrow> coin_ext \<Rightarrow> 'b amm \<Rightarrow> coin \<Rightarrow> denom \<Rightarrow> swap_error + dec" where
  "queryBuyAmount S X s soldToken tokenToBuy =
     (case ValidateSwapAmountName S tokenToBuy of
        Some er \<Rightarrow> Inl er
      | None \<Rightarrow>
     (case ValidateSwapAmountName S (fst soldToken) of
        Some er \<Rightarrow> Inl er
      | None \<Rightarrow>
     (case GetSwapTokenPair s (GetSwapTokenPairName (fst soldToken) tokenToBuy) of
        Inr pair \<Rightarrow>
          if empty_pool pair then Inl (ErrIsZeroValue ''base pooled coin or quote pooled coin'')
          else rbind (CalculateTokenToBuy S X pair soldToken tokenToBuy (am_FeeRate s)) (\<lambda>c. Inr (snd c))
      | Inl _ \<Rightarrow>
          rbind (GetSwapTokenPair s (GetSwapTokenPairName (fst soldToken) NativeToken)) (\<lambda>pair1.
          if empty_pool pair1 then Inl (ErrIsZeroValue ''base pooled coin or quote pooled coin'')
          else
          rbind (GetSwapTokenPair s (GetSwapTokenPairName tokenToBuy NativeToken)) (\<lambda>pair2.
          if empty_pool pair2 then Inl (ErrIsZeroValue ''base pooled coin or quote pooled coin'')
          else
          rbind (CalculateTokenToBuy S X pair1 soldToken NativeToken (am_FeeRate s)) (\<lambda>nativeToken.
          rbind (CalculateTokenToBuy S X pair2 nativeToken tokenToBuy (am_FeeRate s)) (\<lambda>c. Inr (snd c))))))))"

definition queryRedeemableAssets ::
  "'b sdk \<Rightarrow> coin_ext \<Rightarrow> 'b amm \<Rightarrow> string \<Rightarrow> string \<Rightarrow> swap_error + coins" where
  "queryRedeemableAssets S X s tokenPairName liquidityStr =
     rbind (GetSwapTokenPair s tokenPairName) (\<lambda>pair.
     (case d_of_str S liquidityStr of
        None \<Rightarrow> Inl (ErrParseDec liquidityStr)
      | Some liquidity \<Rightarrow>
          rbind (GetRedeemableAssets S X s (fst (sp_Base pair)) (fst (sp_Quote pair)) liquidity)
            (\<lambda>(baseToken, quoteToken). Inr [baseToken, quoteToken])))"

record swap_buy_info =
  bi_BuyAmount :: dec
  bi_Price :: dec
  bi_PriceImpact :: "dec option"
  bi_Fee :: coin
  bi_Route :: string

text \<open>The market price of one token of a pair in the other.\<close>

definition market_price :: "'b sdk \<Rightarrow> swap_pair \<Rightarrow> denom \<Rightarrow> dec" where
  "market_price S pair d =
     (if fst (sp_Base pair) = d then d_quo S (snd (sp_Quote pair)) (snd (sp_Base pair))
      else d_quo S (snd (sp_Base pair)) (snd (sp_Quote pair)))"

definition quote_by_route ::
  "'b sdk \<Rightarrow> coin_ext \<Rightarrow> 'b amm \<Rightarrow> coin \<Rightarrow> denom \<Rightarrow> swap_error + dec \<times> dec \<times> coin" where
  "quote_by_route S X s sellAmount buyToken =
     rbind (GetSwapTokenPair s (GetSwapTokenPairName (fst sellAmount) NativeToken)) (\<lambda>pair1.
     if empty_pool pair1 then Inl (ErrIsZeroValue ''base pooled coin or quote pooled coin'')
     else
     rbind (GetSwapTokenPair s (GetSwapTokenPairName buyToken NativeToken)) (\<lambda>pair2.
     if empty_pool pair2 then Inl (ErrIsZeroValue ''base pooled coin or quote pooled coin'')
     else
     rbind (CalculateTokenToBuy S X pair1 sellAmount NativeToken (am_FeeRate s)) (\<lambda>nativeToken.
     rbind (CalculateTokenToBuy S X pair2 nativeToken buyToken (am_FeeRate s)) (\<lambda>buy.
     (let sellTokenMarketPrice = market_price S pair1 (fst sellAmount);
          routeTokenMarketPrice = market_price S pair2 NativeToken;
          marketPrice = (if 0 < routeTokenMarketPrice \<and> 0 < sellTokenMarketPrice
                         then d_mul S sellTokenMarketPrice routeTokenMarketPrice else 0)
      in rbind (panicked (x_new_coin X (fst sellAmount) (d_mul S (snd sellAmount) (am_FeeRate s)))) (\<lambda>fee1.
         rbind (panicked (x_new_coin X NativeToken (d_mul S (snd nativeToken) (am_FeeRate s)))) (\<lambda>routeTokenFee.
         rbind (CalculateTokenToBuy S X pair1 routeTokenFee (fst sellAmount) (am_FeeRate s)) (\<lambda>fee2.
         rbind (panicked (x_coin_add X fee1 fee2)) (\<lambda>fee.
         Inr (snd buy, marketPrice, fee))))))))))"

definition querySwapQuoteInfo ::
  "'b sdk \<Rightarrow> coin_ext \<Rightarrow> 'b amm \<Rightarrow> string \<Rightarrow> string \<Rightarrow> swap_error + swap_buy_info" where
  "querySwapQuoteInfo S X s sellTokenAmount buyToken =
     (if sellTokenAmount = [] \<or> buyToken = [] then Inl ErrSellAmountOrBuyTokenIsEmpty
      else case x_parse_coin X sellTokenAmount of
        None \<Rightarrow> Inl (ErrConvertSellTokenAmount sellTokenAmount)
      | Some sellAmount \<Rightarrow>
          if fst sellAmount = buyToken then Inl ErrSellAmountEqualBuyToken
          else
            rbind (case GetSwapTokenPair s (GetSwapTokenPairName (fst sellAmount) buyToken) of
                     Inr pair \<Rightarrow>
                       if empty_pool pair then Inl (ErrIsZeroValue ''base pooled coin or quote pooled coin'')
                       else
                         rbind (CalculateTokenToBuy S X pair sellAmount buyToken (am_FeeRate s)) (\<lambda>buy.
                         rbind (panicked (x_new_coin X (fst sellAmount)
                                  (d_mul S (snd sellAmount) (am_FeeRate s)))) (\<lambda>fee.
                         Inr (snd buy, market_price S pair (fst sellAmount), fee, [])))
                   | Inl _ \<Rightarrow>
                       rbind (quote_by_route S X s sellAmount buyToken) (\<lambda>(buy, marketPrice, fee).
                       Inr (buy, marketPrice, fee, NativeToken)))
              (\<lambda>(buyAmount, marketPrice, fee, route).
                 (let price = (if 0 < snd sellAmount then d_quo S buyAmount (snd sellAmount) else 0);
                      priceImpact =
                        (if 0 < marketPrice
                         then Some (if price < marketPrice then d_quo S (marketPrice - price) marketPrice
                                    else d_quo S (price - marketPrice) marketPrice)
                         else None)
                  in Inr \<lparr>bi_BuyAmount = buyAmount, bi_Price = price, bi_PriceImpact = priceImpact,
                         bi_Fee = fee, bi_Route = route\<rparr>)))"

record swap_add_info =
  ai_BaseTokenAmount :: dec
  ai_PoolShare :: dec
  ai_Liquidity :: dec

definition querySwapAddLiquidityQuote ::
  "'b sdk \<Rightarrow> coin_ext \<Rightarrow> 'b amm \<Rightarrow> string \<Rightarrow> string \<Rightarrow> swap_error + swap_add_info" where
  "querySwapAddLiquidityQuote S X s quoteTokenAmount baseToken =
     (if quoteTokenAmount = [] then Inl ErrQueryParamsQuoteTokenAmountIsEmpty
      else if baseToken = [] then Inl ErrQueryParamsBaseTokenIsEmpty
      else case x_parse_coin X quoteTokenAmount of
        None \<Rightarrow> Inl (ErrConvertQuoteTokenAmount quoteTokenAmount)
      | Some amount \<Rightarrow>
          rbind (GetSwapTokenPair s (GetSwapTokenPairName baseToken (fst amount))) (\<lambda>pair.
          if snd (sp_Base pair) = 0 \<and> snd (sp_Quote pair) = 0
          then Inl (ErrIsZeroValue ''base pooled coin or quote pooled coin'')
          else
          (let totalSupply = GetPoolTokenAmount S s (sp_PoolTokenName pair)
           in if totalSupply = 0 then Inl (ErrIsZeroValue ''total supply'')
              else
              rbind (if fst (sp_Base pair) = fst amount
                     then rbind (MulAndQuo S X (snd amount) (snd (sp_Quote pair)) (snd (sp_Base pair))) (\<lambda>addAmount.
                          rbind (MulAndQuo S X addAmount totalSupply (snd (sp_Quote pair))) (\<lambda>liquidity.
                          Inr (addAmount, liquidity)))
                     else rbind (MulAndQuo S X (snd amount) (snd (sp_Base pair)) (snd (sp_Quote pair))) (\<lambda>addAmount.
                          rbind (MulAndQuo S X (snd amount) totalSupply (snd (sp_Quote pair))) (\<lambda>liquidity.
                          Inr (addAmount, liquidity))))
                (\<lambda>(addAmount, liquidity).
                   Inr \<lparr>ai_BaseTokenAmount = addAmount,
                        ai_PoolShare = d_quo S liquidity (totalSupply + liquidity),
                        ai_Liquidity = liquidity\<rparr>))))"

end
