(* ===== verification/Farm.thy ===== *)
theory Farm
  imports AmmSwap
begin

text \<open>
  Yield farming: \<open>x/farm\<close>. Users lock a token in a pool and share, block by block, the tokens its owner
  provides and the native tokens minted for white-listed pools. Pools, locks and the white list (\<open>keeper/farm_pool.go\<close>,
  \<open>keeper/whitelist.go\<close>), reward periods (\<open>keeper/calc.go\<close>, \<open>keeper/historical_reward.go\<close>), messages
  (\<open>types/msg.go\<close>, \<open>handler.go\<close>, \<open>handler_pool.go\<close>, \<open>handler_lock.go\<close>), the proposals of the white list
  (\<open>proposal_handler.go\<close>, \<open>keeper/proposal.go\<close>), the begin of a block (\<open>abci.go\<close>), the earnings query and genesis.

  The history of reward ratios is stored under the bytes of the pool name followed by the eight bytes of the period, and
  deleted by prefix; the model keeps these keys, because the prefix of one pool can match the keys of another. So are the
  keys of the index from pools to addresses. The locks are keyed by the pair of address and pool name: addresses have a fixed
  length. The SDK functions on coin lists that only this module uses are the record \<open>farm_fns\<close>; they return \<open>None\<close>
  where the code panics.
\<close>

record 'b farm_fns =
  y_quo :: "coins \<Rightarrow> dec \<Rightarrow> coins option"
  y_mul :: "coins \<Rightarrow> dec \<Rightarrow> coins option"
  y_from_dec :: "denom \<Rightarrow> dec \<Rightarrow> coins option"
  y_all_lt :: "coins \<Rightarrow> coins \<Rightarrow> bool"
  y_mod_to_mod :: "'b \<Rightarrow> string \<Rightarrow> string \<Rightarrow> coins \<Rightarrow> string + 'b"

datatype farm_error =
    FarmPanic | FarmBank string | ErrFarmInvalidInput string | ErrPoolAlreadyExist string | ErrNoFarmPoolFound string
  | ErrPoolNameNotExistedInWhiteList string | ErrNoLockInfoFound addr string | ErrFarmTokenNotExist string
  | ErrPoolNotFinished string | ErrNilAddress | ErrRemainingAmountNotZero coin | ErrInvalidPoolOwner addr string
  | ErrInvalidDenom denom denom | ErrFarmSendToModule string | ErrInvalidInputAmount coin
  | ErrInsufficientAmount coin coin | ErrInvalidStartHeight | ErrPoolNameLength string
  | ErrLockAmountBelowMinimum dec dec | ErrFarmSendToAccount string | ErrSwapTokenPairNotExist string
  | ErrFarmInsufficientCoins string | ErrInvalidProposalContent string

definition farm_panic :: "'a option \<Rightarrow> farm_error + 'a" where
  "farm_panic r = (case r of None \<Rightarrow> Inl FarmPanic | Some a \<Rightarrow> Inr a)"

definition farmModule :: string where "farmModule = ''farm''"
definition MintFarmingAccount :: string where "MintFarmingAccount = ''mint_farming_account''"
definition YieldFarmingAccount :: string where "YieldFarmingAccount = ''yield_farming_account''"
definition MaxPoolNameLength :: nat where "MaxPoolNameLength = 128"

subsection \<open>State\<close>

record yield_info =
  yi_Remaining :: coin
  yi_StartHeight :: int
  yi_PerBlock :: dec

record farm_pool =
  fp_Owner :: addr
  fp_Name :: string
  fp_MinLockAmount :: coin
  fp_DepositAmount :: coin
  fp_TotalValueLocked :: coin
  fp_Yields :: "yield_info list"
  fp_Accumulated :: coins

record lock_info =
  li_Owner :: addr
  li_PoolName :: string
  li_Amount :: coin
  li_StartHeight :: int
  li_Period :: int

record pool_history =
  ph_Ratio :: coins
  ph_Count :: int

record pool_current =
  pc_StartHeight :: int
  pc_Period :: int
  pc_Rewards :: coins

record farm_params =
  fpa_QuoteSymbol :: string
  fpa_CreatePoolFee :: coin
  fpa_CreatePoolDeposit :: coin
  fpa_YieldNativeToken :: bool

datatype farm_note = NoteClaim addr string coins

record 'b farm =
  fm_amm :: "'b amm"
  fm_pools :: "(string, farm_pool) kv"
  fm_locks :: "(addr \<times> string, lock_info) kv"
  fm_members :: "(string, unit) kv"
  fm_white :: "(string, unit) kv"
  fm_hist :: "(string, pool_history) kv"
  fm_cur :: "(string, pool_current) kv"
  fm_params :: farm_params
  fm_notes :: "farm_note list"

abbreviation fm_bank :: "'b farm \<Rightarrow> 'b" where
  "fm_bank s \<equiv> am_bank (fm_amm s)"

definition set_fm_bank :: "'b \<Rightarrow> 'b farm \<Rightarrow> 'b farm" where
  "set_fm_bank b s = s\<lparr>fm_amm := set_am_bank b (fm_amm s)\<rparr>"

definition farm_banked :: "'b farm \<Rightarrow> (string \<Rightarrow> farm_error) \<Rightarrow> string + 'b \<Rightarrow> farm_error + 'b farm" where
  "farm_banked s err r = (case r of Inl er \<Rightarrow> Inl (err er) | Inr b \<Rightarrow> Inr (set_fm_bank b s))"

subsection \<open>Keys\<close>

text \<open>\<open>binary.LittleEndian.PutUint64\<close>.\<close>

fun le_bytes :: "nat \<Rightarrow> int \<Rightarrow> string" where
  "le_bytes 0 n = []"
| "le_bytes (Suc k) n = char_of (n mod 256) # le_bytes k (n div 256)"

text \<open>\<open>binary.LittleEndian.Uint64\<close>.\<close>

fun le_value :: "string \<Rightarrow> int" where
  "le_value [] = 0"
| "le_value (c # cs) = of_char c + 256 * le_value cs"

definition GetPoolHistoricalRewardsKey :: "string \<Rightarrow> int \<Rightarrow> string" where
  "GetPoolHistoricalRewardsKey poolName period = poolName @ le_bytes 8 period"

definition GetAddressInFarmPoolKey :: "string \<Rightarrow> addr \<Rightarrow> string" where
  "GetAddressInFarmPoolKey poolName a = poolName @ a"

subsection \<open>Pools, locks and white list\<close>

definition GetFarmPool :: "'b farm \<Rightarrow> string \<Rightarrow> farm_pool option" where
  "GetFarmPool s poolName = map_of (fm_pools s) poolName"

definition SetFarmPool :: "farm_pool \<Rightarrow> 'b farm \<Rightarrow> 'b farm" where
  "SetFarmPool pool s = s\<lparr>fm_pools := kv_set (fp_Name pool) pool (fm_pools s)\<rparr>"

definition DeleteFarmPool :: "string \<Rightarrow> 'b farm \<Rightarrow> 'b farm" where
  "DeleteFarmPool poolName s =
     s\<lparr>fm_white := kv_del poolName (fm_white s), fm_pools := kv_del poolName (fm_pools s)\<rparr>"

definition GetFarmPools :: "'b farm \<Rightarrow> farm_pool list" where
  "GetFarmPools s = map snd (fm_pools s)"

definition getPoolNum :: "'b farm \<Rightarrow> nat" where
  "getPoolNum s = length (fm_pools s)"

definition GetFarmPoolNamesForAccount :: "'b farm \<Rightarrow> addr \<Rightarrow> string list" where
  "GetFarmPoolNamesForAccount s a = map (snd \<circ> fst) (filter (\<lambda>((b, _), _). b = a) (fm_locks s))"

definition getAccountsLockedTo :: "'b farm \<Rightarrow> string \<Rightarrow> addr list" where
  "getAccountsLockedTo s poolName =
     map (drop (length poolName) \<circ> fst) (filter (\<lambda>(k, _). prefix poolName k) (fm_members s))"

definition SetAddressInFarmPool :: "string \<Rightarrow> addr \<Rightarrow> 'b farm \<Rightarrow> 'b farm" where
  "SetAddressInFarmPool poolName a s = s\<lparr>fm_members := kv_set (GetAddressInFarmPoolKey poolName a) () (fm_members s)\<rparr>"

definition DeleteAddressInFarmPool :: "string \<Rightarrow> addr \<Rightarrow> 'b farm \<Rightarrow> 'b farm" where
  "DeleteAddressInFarmPool poolName a s = s\<lparr>fm_members := kv_del (GetAddressInFarmPoolKey poolName a) (fm_members s)\<rparr>"

definition SetLockInfo :: "lock_info \<Rightarrow> 'b farm \<Rightarrow> 'b farm" where
  "SetLockInfo l s = s\<lparr>fm_locks := kv_set (li_Owner l, li_PoolName l) l (fm_locks s)\<rparr>"

definition GetLockInfo :: "'b farm \<Rightarrow> addr \<Rightarrow> string \<Rightarrow> lock_info option" where
  "GetLockInfo s a poolName = map_of (fm_locks s) (a, poolName)"

definition HasLockInfo :: "'b farm \<Rightarrow> addr \<Rightarrow> string \<Rightarrow> bool" where
  "HasLockInfo s a poolName = (map_of (fm_locks s) (a, poolName) \<noteq> None)"

definition DeleteLockInfo :: "addr \<Rightarrow> string \<Rightarrow> 'b farm \<Rightarrow> 'b farm" where
  "DeleteLockInfo a poolName s = s\<lparr>fm_locks := kv_del (a, poolName) (fm_locks s)\<rparr>"

definition GetWhitelist :: "'b farm \<Rightarrow> string list" where
  "GetWhitelist s = map fst (fm_white s)"

definition SetWhitelist :: "string \<Rightarrow> 'b farm \<Rightarrow> 'b farm" where
  "SetWhitelist poolName s = s\<lparr>fm_white := kv_set poolName () (fm_white s)\<rparr>"

definition DeleteWhiteList :: "string \<Rightarrow> 'b farm \<Rightarrow> 'b farm" where
  "DeleteWhiteList poolName s = s\<lparr>fm_white := kv_del poolName (fm_white s)\<rparr>"

definition isPoolNameExistedInWhiteList :: "'b farm \<Rightarrow> string \<Rightarrow> bool" where
  "isPoolNameExistedInWhiteList s poolName = (map_of (fm_white s) poolName \<noteq> None)"

text \<open>\<open>Finished\<close>: nothing left to yield and nothing locked.\<close>

definition Finished :: "farm_pool \<Rightarrow> bool" where
  "Finished fp \<longleftrightarrow> list_all (\<lambda>y. \<not> 0 < snd (yi_Remaining y)) (fp_Yields fp) \<and> snd (fp_TotalValueLocked fp) = 0"

subsection \<open>Reward periods\<close>

text \<open>Decoding a missing entry panics.\<close>

definition GetPoolHistoricalRewards :: "'b farm \<Rightarrow> string \<Rightarrow> int \<Rightarrow> farm_error + pool_history" where
  "GetPoolHistoricalRewards s poolName period =
     farm_panic (map_of (fm_hist s) (GetPoolHistoricalRewardsKey poolName period))"

definition SetPoolHistoricalRewards :: "string \<Rightarrow> int \<Rightarrow> pool_history \<Rightarrow> 'b farm \<Rightarrow> 'b farm" where
  "SetPoolHistoricalRewards poolName period rewards s =
     s\<lparr>fm_hist := kv_set (GetPoolHistoricalRewardsKey poolName period) rewards (fm_hist s)\<rparr>"

definition DeletePoolHistoricalReward :: "string \<Rightarrow> int \<Rightarrow> 'b farm \<Rightarrow> 'b farm" where
  "DeletePoolHistoricalReward poolName period s =
     s\<lparr>fm_hist := kv_del (GetPoolHistoricalRewardsKey poolName period) (fm_hist s)\<rparr>"

text \<open>\<open>IteratePoolHistoricalRewards\<close> with the handler that deletes: every key that starts with the name.\<close>

definition delete_history :: "string \<Rightarrow> 'b farm \<Rightarrow> 'b farm" where
  "delete_history poolName s = s\<lparr>fm_hist := filter (\<lambda>(k, _). \<not> prefix poolName k) (fm_hist s)\<rparr>"

definition GetPoolCurrentRewards :: "'b farm \<Rightarrow> string \<Rightarrow> farm_error + pool_current" where
  "GetPoolCurrentRewards s poolName = farm_panic (map_of (fm_cur s) poolName)"

definition SetPoolCurrentRewards :: "string \<Rightarrow> pool_current \<Rightarrow> 'b farm \<Rightarrow> 'b farm" where
  "SetPoolCurrentRewards poolName rewards s = s\<lparr>fm_cur := kv_set poolName rewards (fm_cur s)\<rparr>"

definition DeletePoolCurrentRewards :: "string \<Rightarrow> 'b farm \<Rightarrow> 'b farm" where
  "DeletePoolCurrentRewards poolName s = s\<lparr>fm_cur := kv_del poolName (fm_cur s)\<rparr>"

text \<open>
  The loop of \<open>CalculateAmountYieldedBetween\<close> over the provided tokens, from the start of the current period to the
  current height: the infos, the accumulated rewards and the tokens yielded. It writes into the
  slice of the pool it was given; its callers read only other fields of that pool afterwards.
\<close>

fun yield_loop ::
  "'b sdk \<Rightarrow> coin_ext \<Rightarrow> 'b farm_fns \<Rightarrow> int \<Rightarrow> int \<Rightarrow> yield_info list \<Rightarrow> coins \<Rightarrow> coins \<Rightarrow>
     farm_error + yield_info list \<times> coins \<times> coins" where
  "yield_loop S X Y periodStart height [] acc tot = Inr ([], acc, tot)"
| "yield_loop S X Y periodStart height (y # ys) acc tot =
     (let startBlockHeight = (if periodStart \<le> yi_StartHeight y then yi_StartHeight y else periodStart)
      in if yi_StartHeight y = 0 \<or> height \<le> startBlockHeight
         then rbind (yield_loop S X Y periodStart height ys acc tot) (\<lambda>(ys', r). Inr (y # ys', r))
         else
           rbind (farm_panic (x_mulT X ((height - startBlockHeight) * d_unit S) (yi_PerBlock y))) (\<lambda>amount.
           rbind (if amount < snd (yi_Remaining y)
                  then
                    rbind (farm_panic (y_from_dec Y (fst (yi_Remaining y)) amount)) (\<lambda>yielded.
                    Inr (y\<lparr>yi_Remaining := (fst (yi_Remaining y), snd (yi_Remaining y) - amount)\<rparr>, yielded))
                  else
                    rbind (farm_panic (x_new_coin X (fst (yi_Remaining y)) 0)) (\<lambda>zero.
                    rbind (farm_panic (y_from_dec Y (fst (yi_Remaining y)) (snd (yi_Remaining y)))) (\<lambda>yielded.
                    Inr (\<lparr>yi_Remaining = zero, yi_StartHeight = 0, yi_PerBlock = 0\<rparr>, yielded)))) (\<lambda>(y', yielded).
           rbind (yield_loop S X Y periodStart height ys (c_add2 S acc yielded) (c_add2 S tot yielded)) (\<lambda>(ys', r).
           Inr (y' # ys', r)))))"

definition CalculateAmountYieldedBetween ::
  "'b sdk \<Rightarrow> coin_ext \<Rightarrow> 'b farm_fns \<Rightarrow> env \<Rightarrow> 'b farm \<Rightarrow> farm_pool \<Rightarrow> farm_error + farm_pool \<times> coins" where
  "CalculateAmountYieldedBetween S X Y e s pool =
     rbind (GetPoolCurrentRewards s (fp_Name pool)) (\<lambda>cur.
     rbind (yield_loop S X Y (pc_StartHeight cur) (e_Height e) (fp_Yields pool) (fp_Accumulated pool) []) (\<lambda>(ys, acc, tot).
     Inr (pool\<lparr>fp_Yields := ys, fp_Accumulated := acc\<rparr>, tot)))"

text \<open>Reference counts are \<open>uint16\<close> and stay far below the bound.\<close>

definition incrementReferenceCount :: "string \<Rightarrow> int \<Rightarrow> 'b farm \<Rightarrow> farm_error + 'b farm" where
  "incrementReferenceCount poolName period s =
     rbind (GetPoolHistoricalRewards s poolName period) (\<lambda>h.
     if 2 < ph_Count h then Inl FarmPanic
     else Inr (SetPoolHistoricalRewards poolName period (h\<lparr>ph_Count := ph_Count h + 1\<rparr>) s))"

definition decrementReferenceCount :: "string \<Rightarrow> int \<Rightarrow> 'b farm \<Rightarrow> farm_error + 'b farm" where
  "decrementReferenceCount poolName period s =
     rbind (GetPoolHistoricalRewards s poolName period) (\<lambda>h.
     if ph_Count h = 0 then Inl FarmPanic
     else if ph_Count h - 1 = 0 then Inr (DeletePoolHistoricalReward poolName period s)
     else Inr (SetPoolHistoricalRewards poolName period (h\<lparr>ph_Count := ph_Count h - 1\<rparr>) s))"

text \<open>Periods are \<open>uint64\<close> and wrap.\<close>

definition period_before :: "int \<Rightarrow> int" where
  "period_before p = (p - 1) mod 2 ^ 64"

definition IncrementPoolPeriod ::
  "'b sdk \<Rightarrow> 'b farm_fns \<Rightarrow> env \<Rightarrow> string \<Rightarrow> coin \<Rightarrow> coins \<Rightarrow> 'b farm \<Rightarrow> farm_error + int \<times> 'b farm" where
  "IncrementPoolPeriod S Y e poolName totalValueLocked yieldedTokens s =
     rbind (GetPoolCurrentRewards s poolName) (\<lambda>cur.
     (let rewards = c_add2 S (pc_Rewards cur) yieldedTokens
      in rbind (if snd totalValueLocked = 0 then Inr [] else farm_panic (y_quo Y rewards (snd totalValueLocked))) (\<lambda>currentRatio.
         rbind (GetPoolHistoricalRewards s poolName (period_before (pc_Period cur))) (\<lambda>historical.
         rbind (decrementReferenceCount poolName (period_before (pc_Period cur)) s) (\<lambda>s.
         (let s = SetPoolHistoricalRewards poolName (pc_Period cur)
                    \<lparr>ph_Ratio = c_add2 S (ph_Ratio historical) currentRatio, ph_Count = 1\<rparr> s;
              s = SetPoolCurrentRewards poolName
                    \<lparr>pc_StartHeight = e_Height e, pc_Period = (pc_Period cur + 1) mod 2 ^ 64, pc_Rewards = []\<rparr> s
          in Inr (pc_Period cur, s)))))))"

definition calculateLockRewardsBetween ::
  "'b sdk \<Rightarrow> 'b farm_fns \<Rightarrow> 'b farm \<Rightarrow> string \<Rightarrow> int \<Rightarrow> int \<Rightarrow> coin \<Rightarrow> farm_error + coins" where
  "calculateLockRewardsBetween S Y s poolName startingPeriod endingPeriod amount =
     (if endingPeriod < startingPeriod then Inl FarmPanic
      else if snd amount < 0 then Inl FarmPanic
      else
        rbind (GetPoolHistoricalRewards s poolName startingPeriod) (\<lambda>starting.
        rbind (GetPoolHistoricalRewards s poolName endingPeriod) (\<lambda>ending.
        rbind (farm_panic (coins_sub S (ph_Ratio ending) (ph_Ratio starting))) (\<lambda>difference.
        farm_panic (y_mul Y difference (snd amount))))))"

definition calculateRewards ::
  "'b sdk \<Rightarrow> 'b farm_fns \<Rightarrow> env \<Rightarrow> 'b farm \<Rightarrow> string \<Rightarrow> int \<Rightarrow> lock_info \<Rightarrow> farm_error + coins" where
  "calculateRewards S Y e s poolName endingPeriod lockInfo =
     (if li_StartHeight lockInfo = e_Height e then Inr []
      else calculateLockRewardsBetween S Y s poolName (li_Period lockInfo) endingPeriod (li_Amount lockInfo))"

definition WithdrawRewards ::
  "'b sdk \<Rightarrow> 'b farm_fns \<Rightarrow> env \<Rightarrow> string \<Rightarrow> coin \<Rightarrow> coins \<Rightarrow> addr \<Rightarrow> 'b farm \<Rightarrow> farm_error + coins \<times> 'b farm" where
  "WithdrawRewards S Y e poolName totalValueLocked yieldedTokens a s =
     (case GetLockInfo s a poolName of
        None \<Rightarrow> Inl (ErrNoLockInfoFound a poolName)
      | Some lockInfo \<Rightarrow>
          rbind (IncrementPoolPeriod S Y e poolName totalValueLocked yieldedTokens s) (\<lambda>(endingPeriod, s).
          rbind (calculateRewards S Y e s poolName endingPeriod lockInfo) (\<lambda>rewards.
          rbind (if coins_is_zero rewards then Inr s
                 else farm_banked s FarmBank (b_mod_to_acc S (fm_bank s) YieldFarmingAccount a rewards)) (\<lambda>s.
          rbind (decrementReferenceCount poolName (li_Period lockInfo) s) (\<lambda>s.
          Inr (rewards, s))))))"

definition UpdateLockInfo :: "env \<Rightarrow> addr \<Rightarrow> string \<Rightarrow> dec \<Rightarrow> 'b farm \<Rightarrow> farm_error + 'b farm" where
  "UpdateLockInfo e a poolName changedAmount s =
     rbind (GetPoolCurrentRewards s poolName) (\<lambda>cur.
     (let previousPeriod = period_before (pc_Period cur)
      in case GetLockInfo s a poolName of
           None \<Rightarrow> Inl FarmPanic
         | Some l \<Rightarrow>
             (let l = l\<lparr>li_StartHeight := e_Height e, li_Period := previousPeriod,
                        li_Amount := (fst (li_Amount l), snd (li_Amount l) + changedAmount)\<rparr>
              in if snd (li_Amount l) = 0
                 then Inr (DeleteAddressInFarmPool (li_PoolName l) (li_Owner l)
                            (DeleteLockInfo (li_Owner l) (li_PoolName l) s))
                 else
                   rbind (incrementReferenceCount poolName previousPeriod s) (\<lambda>s.
                   Inr (SetAddressInFarmPool (li_PoolName l) (li_Owner l) (SetLockInfo l s))))))"

definition OnClaim :: "addr \<Rightarrow> string \<Rightarrow> coins \<Rightarrow> 'b farm \<Rightarrow> 'b farm" where
  "OnClaim a poolName claimed s = s\<lparr>fm_notes := fm_notes s @ [NoteClaim a poolName claimed]\<rparr>"

subsection \<open>Messages\<close>

record msg_create_pool =
  mc_Owner :: addr
  mc_PoolName :: string
  mc_MinLockAmount :: coin
  mc_YieldedSymbol :: string

record msg_destroy_pool =
  md_Owner :: addr
  md_PoolName :: string

record msg_provide =
  mp_PoolName :: string
  mp_Address :: addr
  mp_Amount :: coin
  mp_PerBlock :: dec
  mp_StartHeight :: int

record msg_lock =
  ml_PoolName :: string
  ml_Address :: addr
  ml_Amount :: coin

record msg_claim =
  mcl_PoolName :: string
  mcl_Address :: addr

datatype farm_msg =
    MsgCreatePool msg_create_pool
  | MsgDestroyPool msg_destroy_pool
  | MsgProvide msg_provide
  | MsgLock msg_lock
  | MsgUnlock msg_lock
  | MsgClaim msg_claim

definition bad_pool_name :: "string \<Rightarrow> bool" where
  "bad_pool_name n \<longleftrightarrow> n = [] \<or> MaxPoolNameLength < length n"

text \<open>\<open>MsgLock\<close> and \<open>MsgUnlock\<close> have the same fields and the same checks. Errors carry the value that the code prints.\<close>

definition lock_ValidateBasic :: "'b sdk \<Rightarrow> msg_lock \<Rightarrow> farm_error option" where
  "lock_ValidateBasic S m =
     (if bad_pool_name (ml_PoolName m) then Some (ErrFarmInvalidInput (ml_PoolName m))
      else if ml_Address m = [] then Some ErrNilAddress
      else if snd (ml_Amount m) \<le> 0 \<or> \<not> c_coin_valid S (ml_Amount m) then Some (ErrInvalidInputAmount (ml_Amount m))
      else None)"

definition MsgCreatePool_ValidateBasic :: "'b sdk \<Rightarrow> msg_create_pool \<Rightarrow> farm_error option" where
  "MsgCreatePool_ValidateBasic S m =
     (if mc_Owner m = [] then Some ErrNilAddress
      else if bad_pool_name (mc_PoolName m) then Some (ErrPoolNameLength (mc_PoolName m))
      else if snd (mc_MinLockAmount m) < 0 \<or> \<not> c_coin_valid S (mc_MinLockAmount m)
      then Some (ErrInvalidInputAmount (mc_MinLockAmount m))
      else if mc_YieldedSymbol m = [] then Some (ErrFarmInvalidInput ''yielded symbol is empty'')
      else None)"

definition MsgDestroyPool_ValidateBasic :: "msg_destroy_pool \<Rightarrow> farm_error option" where
  "MsgDestroyPool_ValidateBasic m =
     (if md_Owner m = [] then Some ErrNilAddress
      else if bad_pool_name (md_PoolName m) then Some (ErrPoolNameLength (md_PoolName m))
      else None)"

definition MsgProvide_ValidateBasic :: "'b sdk \<Rightarrow> msg_provide \<Rightarrow> farm_error option" where
  "MsgProvide_ValidateBasic S m =
     (if bad_pool_name (mp_PoolName m) then Some (ErrFarmInvalidInput (mp_PoolName m))
      else if mp_Address m = [] then Some ErrNilAddress
      else if snd (mp_Amount m) \<le> 0 \<or> \<not> c_coin_valid S (mp_Amount m) then Some (ErrInvalidInputAmount (mp_Amount m))
      else if mp_PerBlock m \<le> 0 then Some (ErrFarmInvalidInput ''amount yielded per block must be > 0'')
      else if snd (mp_Amount m) < mp_PerBlock m
      then Some (ErrFarmInvalidInput ''provided amount must be bigger than amount_yielded_per_block'')
      else if mp_StartHeight m \<le> 0 then Some (ErrFarmInvalidInput ''start height to yield must be > 0'')
      else None)"

definition MsgClaim_ValidateBasic :: "msg_claim \<Rightarrow> farm_error option" where
  "MsgClaim_ValidateBasic m =
     (if bad_pool_name (mcl_PoolName m) then Some (ErrFarmInvalidInput (mcl_PoolName m))
      else if mcl_Address m = [] then Some ErrNilAddress
      else None)"

fun farm_ValidateBasic :: "'b sdk \<Rightarrow> farm_msg \<Rightarrow> farm_error option" where
  "farm_ValidateBasic S (MsgCreatePool m) = MsgCreatePool_ValidateBasic S m"
| "farm_ValidateBasic S (MsgDestroyPool m) = MsgDestroyPool_ValidateBasic m"
| "farm_ValidateBasic S (MsgProvide m) = MsgProvide_ValidateBasic S m"
| "farm_ValidateBasic S (MsgLock m) = lock_ValidateBasic S m"
| "farm_ValidateBasic S (MsgUnlock m) = lock_ValidateBasic S m"
| "farm_ValidateBasic S (MsgClaim m) = MsgClaim_ValidateBasic m"

fun farm_GetSigners :: "farm_msg \<Rightarrow> addr list" where
  "farm_GetSigners (MsgCreatePool m) = [mc_Owner m]"
| "farm_GetSigners (MsgDestroyPool m) = [md_Owner m]"
| "farm_GetSigners (MsgProvide m) = [mp_Address m]"
| "farm_GetSigners (MsgLock m) = [ml_Address m]"
| "farm_GetSigners (MsgUnlock m) = [ml_Address m]"
| "farm_GetSigners (MsgClaim m) = [mcl_Address m]"

subsection \<open>Handlers\<close>

definition handleMsgCreatePool ::
  "'b sdk \<Rightarrow> coin_ext \<Rightarrow> env \<Rightarrow> 'b farm \<Rightarrow> msg_create_pool \<Rightarrow> farm_error + 'b farm" where
  "handleMsgCreatePool S X e s m =
     (if GetFarmPool s (mc_PoolName m) \<noteq> None then Inl (ErrPoolAlreadyExist (mc_PoolName m))
      else if \<not> TokenExist (am_chain (fm_amm s)) (fst (mc_MinLockAmount m))
      then Inl (ErrFarmTokenNotExist (fst (mc_MinLockAmount m)))
      else if \<not> TokenExist (am_chain (fm_amm s)) (mc_YieldedSymbol m) then Inl (ErrFarmTokenNotExist (mc_YieldedSymbol m))
      else
        rbind (farm_banked s ErrFarmInsufficientCoins
                 (b_acc_to_mod S (fm_bank s) (mc_Owner m) (e_FeeCollector e)
                    (c_to_coins S (fpa_CreatePoolFee (fm_params s))))) (\<lambda>s.
        (let depositAmount = fpa_CreatePoolDeposit (fm_params s)
         in rbind (farm_banked s ErrFarmInsufficientCoins
                     (b_acc_to_mod S (fm_bank s) (mc_Owner m) farmModule (c_to_coins S depositAmount))) (\<lambda>s.
            rbind (farm_panic (x_new_coin X (mc_YieldedSymbol m) 0)) (\<lambda>zeroYield.
            rbind (farm_panic (x_new_coin X (fst (mc_MinLockAmount m)) 0)) (\<lambda>zeroLocked.
            (let pool = \<lparr>fp_Owner = mc_Owner m, fp_Name = mc_PoolName m, fp_MinLockAmount = mc_MinLockAmount m,
                         fp_DepositAmount = depositAmount, fp_TotalValueLocked = zeroLocked,
                         fp_Yields = [\<lparr>yi_Remaining = zeroYield, yi_StartHeight = 0, yi_PerBlock = 0\<rparr>],
                         fp_Accumulated = []\<rparr>;
                 s = SetFarmPool pool s;
                 s = SetPoolHistoricalRewards (mc_PoolName m) 0 \<lparr>ph_Ratio = [], ph_Count = 1\<rparr> s
             in Inr (SetPoolCurrentRewards (mc_PoolName m)
                       \<lparr>pc_StartHeight = e_Height e, pc_Period = 1, pc_Rewards = []\<rparr> s))))))))"

definition handleMsgDestroyPool ::
  "'b sdk \<Rightarrow> coin_ext \<Rightarrow> 'b farm_fns \<Rightarrow> env \<Rightarrow> 'b farm \<Rightarrow> msg_destroy_pool \<Rightarrow> farm_error + 'b farm" where
  "handleMsgDestroyPool S X Y e s m =
     (case GetFarmPool s (md_PoolName m) of
        None \<Rightarrow> Inl (ErrNoFarmPoolFound (md_PoolName m))
      | Some pool \<Rightarrow>
          if fp_Owner pool \<noteq> md_Owner m then Inl (ErrInvalidPoolOwner (md_Owner m) (md_PoolName m))
          else
            rbind (CalculateAmountYieldedBetween S X Y e s pool) (\<lambda>(updatedPool, _).
            if \<not> Finished updatedPool then Inl (ErrPoolNotFinished (md_PoolName m))
            else
              rbind (if coins_is_zero (fp_Accumulated updatedPool) then Inr s
                     else farm_banked s ErrFarmInsufficientCoins
                            (b_mod_to_acc S (fm_bank s) YieldFarmingAccount (md_Owner m) (fp_Accumulated updatedPool))) (\<lambda>s.
              rbind (if 0 < snd (fp_DepositAmount pool)
                     then farm_banked s ErrFarmInsufficientCoins
                            (b_mod_to_acc S (fm_bank s) farmModule (md_Owner m) (c_to_coins S (fp_DepositAmount pool)))
                     else Inr s) (\<lambda>s.
              Inr (DeletePoolCurrentRewards (md_PoolName m)
                     (delete_history (md_PoolName m) (DeleteFarmPool (md_PoolName m) s)))))))"

definition handleMsgProvide ::
  "'b sdk \<Rightarrow> coin_ext \<Rightarrow> 'b farm_fns \<Rightarrow> env \<Rightarrow> 'b farm \<Rightarrow> msg_provide \<Rightarrow> farm_error + 'b farm" where
  "handleMsgProvide S X Y e s m =
     (if mp_StartHeight m \<le> e_Height e then Inl ErrInvalidStartHeight
      else case GetFarmPool s (mp_PoolName m) of
        None \<Rightarrow> Inl (ErrNoFarmPoolFound (mp_PoolName m))
      | Some pool \<Rightarrow>
          if fp_Owner pool \<noteq> mp_Address m then Inl (ErrInvalidPoolOwner (mp_Address m) (mp_PoolName m))
          else if length (fp_Yields pool) \<noteq> 1 then Inl FarmPanic
          else if fst (yi_Remaining (fp_Yields pool ! 0)) \<noteq> fst (mp_Amount m)
          then Inl (ErrInvalidDenom (fst (yi_Remaining (fp_Yields pool ! 0))) (fst (mp_Amount m)))
          else
            rbind (CalculateAmountYieldedBetween S X Y e s pool) (\<lambda>(updatedPool, yieldedTokens).
            (let remainingAmount = yi_Remaining (fp_Yields updatedPool ! 0)
             in if snd remainingAmount \<noteq> 0 then Inl (ErrRemainingAmountNotZero remainingAmount)
                else
                  rbind (IncrementPoolPeriod S Y e (fp_Name pool) (fp_TotalValueLocked pool) yieldedTokens s) (\<lambda>(_, s).
                  rbind (farm_banked s ErrFarmSendToModule
                           (b_acc_to_mod S (fm_bank s) (mp_Address m) YieldFarmingAccount (c_to_coins S (mp_Amount m)))) (\<lambda>s.
                  Inr (SetFarmPool
                         (updatedPool\<lparr>fp_Yields := (fp_Yields updatedPool)[0 :=
                            \<lparr>yi_Remaining = mp_Amount m, yi_StartHeight = mp_StartHeight m,
                             yi_PerBlock = mp_PerBlock m\<rparr>]\<rparr>) s))))))"

text \<open>The check and the subtraction of paid rewards, shared by claim, lock and unlock.\<close>

definition take_rewards :: "'b sdk \<Rightarrow> 'b farm_fns \<Rightarrow> farm_pool \<Rightarrow> coins \<Rightarrow> farm_error + farm_pool" where
  "take_rewards S Y pool rewards =
     (if y_all_lt Y (fp_Accumulated pool) rewards then Inl FarmPanic
      else rbind (farm_panic (coins_sub S (fp_Accumulated pool) rewards)) (\<lambda>acc. Inr (pool\<lparr>fp_Accumulated := acc\<rparr>)))"

definition handleMsgClaim ::
  "'b sdk \<Rightarrow> coin_ext \<Rightarrow> 'b farm_fns \<Rightarrow> env \<Rightarrow> 'b farm \<Rightarrow> msg_claim \<Rightarrow> farm_error + 'b farm" where
  "handleMsgClaim S X Y e s m =
     (case GetFarmPool s (mcl_PoolName m) of
        None \<Rightarrow> Inl (ErrNoFarmPoolFound (mcl_PoolName m))
      | Some pool \<Rightarrow>
          rbind (CalculateAmountYieldedBetween S X Y e s pool) (\<lambda>(updatedPool, yieldedTokens).
          rbind (WithdrawRewards S Y e (fp_Name pool) (fp_TotalValueLocked pool) yieldedTokens (mcl_Address m) s) (\<lambda>(rewards, s).
          rbind (UpdateLockInfo e (mcl_Address m) (fp_Name pool) 0 s) (\<lambda>s.
          rbind (take_rewards S Y updatedPool rewards) (\<lambda>updatedPool.
          Inr (OnClaim (mcl_Address m) (fp_Name pool) rewards (SetFarmPool updatedPool s)))))))"

definition handleMsgLock ::
  "'b sdk \<Rightarrow> coin_ext \<Rightarrow> 'b farm_fns \<Rightarrow> env \<Rightarrow> 'b farm \<Rightarrow> msg_lock \<Rightarrow> farm_error + 'b farm" where
  "handleMsgLock S X Y e s m =
     (case GetFarmPool s (ml_PoolName m) of
        None \<Rightarrow> Inl (ErrNoFarmPoolFound (ml_PoolName m))
      | Some pool \<Rightarrow>
          if fst (fp_MinLockAmount pool) \<noteq> fst (ml_Amount m)
          then Inl (ErrInvalidDenom (fst (fp_MinLockAmount pool)) (fst (ml_Amount m)))
          else
            (let hasLocked = HasLockInfo s (ml_Address m) (ml_PoolName m)
             in if \<not> hasLocked \<and> snd (ml_Amount m) < snd (fp_MinLockAmount pool)
                then Inl (ErrLockAmountBelowMinimum (snd (fp_MinLockAmount pool)) (snd (ml_Amount m)))
                else
                  rbind (CalculateAmountYieldedBetween S X Y e s pool) (\<lambda>(updatedPool, yieldedTokens).
                  rbind (if hasLocked
                         then
                           rbind (WithdrawRewards S Y e (fp_Name pool) (fp_TotalValueLocked pool) yieldedTokens
                                    (ml_Address m) s) (\<lambda>(rewards, s).
                           rbind (take_rewards S Y updatedPool rewards) (\<lambda>updatedPool.
                           Inr (rewards, updatedPool, s)))
                         else
                           rbind (IncrementPoolPeriod S Y e (fp_Name pool) (fp_TotalValueLocked pool) yieldedTokens s) (\<lambda>(_, s).
                           rbind (farm_panic (x_new_coin X (fst (fp_MinLockAmount pool)) 0)) (\<lambda>zero.
                           Inr ([], updatedPool,
                                SetAddressInFarmPool (ml_PoolName m) (ml_Address m)
                                  (SetLockInfo \<lparr>li_Owner = ml_Address m, li_PoolName = fp_Name pool, li_Amount = zero,
                                                li_StartHeight = e_Height e, li_Period = 0\<rparr> s)))))
                    (\<lambda>(rewards, updatedPool, s).
                  rbind (UpdateLockInfo e (ml_Address m) (ml_PoolName m) (snd (ml_Amount m)) s) (\<lambda>s.
                  rbind (farm_banked s ErrFarmSendToModule
                           (b_acc_to_mod S (fm_bank s) (ml_Address m) farmModule (c_to_coins S (ml_Amount m)))) (\<lambda>s.
                  rbind (farm_panic (x_coin_add X (fp_TotalValueLocked updatedPool) (ml_Amount m))) (\<lambda>locked.
                  (let s = SetFarmPool (updatedPool\<lparr>fp_TotalValueLocked := locked\<rparr>) s
                   in Inr (if hasLocked then OnClaim (ml_Address m) (fp_Name pool) rewards s else s)))))))))"

definition handleMsgUnlock ::
  "'b sdk \<Rightarrow> coin_ext \<Rightarrow> 'b farm_fns \<Rightarrow> env \<Rightarrow> 'b farm \<Rightarrow> msg_lock \<Rightarrow> farm_error + 'b farm" where
  "handleMsgUnlock S X Y e s m =
     (case GetLockInfo s (ml_Address m) (ml_PoolName m) of
        None \<Rightarrow> Inl (ErrNoLockInfoFound (ml_Address m) (ml_PoolName m))
      | Some lockInfo \<Rightarrow>
          if fst (li_Amount lockInfo) \<noteq> fst (ml_Amount m)
          then Inl (ErrInvalidDenom (fst (li_Amount lockInfo)) (fst (ml_Amount m)))
          else
            rbind (farm_panic (x_coin_lt X (li_Amount lockInfo) (ml_Amount m))) (\<lambda>less.
            if less then Inl (ErrInsufficientAmount (li_Amount lockInfo) (ml_Amount m))
            else case GetFarmPool s (ml_PoolName m) of
              None \<Rightarrow> Inl (ErrNoFarmPoolFound (ml_PoolName m))
            | Some pool \<Rightarrow>
                if fst (fp_MinLockAmount pool) \<noteq> fst (ml_Amount m)
                then Inl (ErrInvalidDenom (fst (fp_MinLockAmount pool)) (fst (ml_Amount m)))
                else
                  (let remainAmount = snd (li_Amount lockInfo) - snd (ml_Amount m)
                   in if remainAmount \<noteq> 0 \<and> remainAmount < snd (fp_MinLockAmount pool)
                      then Inl (ErrLockAmountBelowMinimum (snd (fp_MinLockAmount pool)) remainAmount)
                      else
                        rbind (CalculateAmountYieldedBetween S X Y e s pool) (\<lambda>(updatedPool, yieldedTokens).
                        rbind (WithdrawRewards S Y e (fp_Name pool) (fp_TotalValueLocked pool) yieldedTokens
                                 (ml_Address m) s) (\<lambda>(rewards, s).
                        rbind (UpdateLockInfo e (ml_Address m) (ml_PoolName m) (- snd (ml_Amount m)) s) (\<lambda>s.
                        rbind (farm_banked s ErrFarmSendToAccount
                                 (b_mod_to_acc S (fm_bank s) farmModule (ml_Address m) (c_to_coins S (ml_Amount m)))) (\<lambda>s.
                        rbind (farm_panic (x_coin_sub X (fp_TotalValueLocked updatedPool) (ml_Amount m))) (\<lambda>locked.
                        rbind (take_rewards S Y (updatedPool\<lparr>fp_TotalValueLocked := locked\<rparr>) rewards) (\<lambda>updatedPool.
                        Inr (OnClaim (ml_Address m) (fp_Name pool) rewards (SetFarmPool updatedPool s)))))))))))"

fun farm_handler ::
  "'b sdk \<Rightarrow> coin_ext \<Rightarrow> 'b farm_fns \<Rightarrow> env \<Rightarrow> 'b farm \<Rightarrow> farm_msg \<Rightarrow> farm_error + 'b farm" where
  "farm_handler S X Y e s (MsgCreatePool m) = handleMsgCreatePool S X e s m"
| "farm_handler S X Y e s (MsgDestroyPool m) = handleMsgDestroyPool S X Y e s m"
| "farm_handler S X Y e s (MsgProvide m) = handleMsgProvide S X Y e s m"
| "farm_handler S X Y e s (MsgLock m) = handleMsgLock S X Y e s m"
| "farm_handler S X Y e s (MsgUnlock m) = handleMsgUnlock S X Y e s m"
| "farm_handler S X Y e s (MsgClaim m) = handleMsgClaim S X Y e s m"

end
