(* ===== verification/AmmPool.thy ===== *)
theory AmmPool
  imports AmmSwap
begin

text \<open>
  What the pools of the automated market maker promise: the laws of the decimal and coin
  functions it calls (\<open>swap_laws\<close>), exact arithmetic of \<open>MulAndQuo\<close> and \<open>GetInputPrice\<close>, the
  invariant of the pools over every message (\<open>amm_ok\<close>), the backing of the pooled coins by the
  module account, and what single messages do to the accounts.
\<close>

subsection \<open>Laws and a reference instance\<close>

text \<open>
  Truncating multiplication and division round towards zero, so on non-negative numbers
  downwards; they and the coin functions return \<open>None\<close> where they panic. Division by zero panics. Coins of
  different denominations are not added, subtracted or compared, and no coin is negative. Sorting permutes.
\<close>

definition swap_laws :: "'b sdk \<Rightarrow> coin_ext \<Rightarrow> bool" where
  "swap_laws S X \<longleftrightarrow> sdk_laws S
     \<and> (\<forall>a b r. 0 \<le> a \<longrightarrow> 0 \<le> b \<longrightarrow> x_mulT X a b = Some r \<longrightarrow> r = a * b div d_unit S)
     \<and> (\<forall>a b r. 0 \<le> a \<longrightarrow> 0 < b \<longrightarrow> x_quoT X a b = Some r \<longrightarrow> r = a * d_unit S div b)
     \<and> (\<forall>a. x_quoT X a 0 = None)
     \<and> (\<forall>d a c. x_new_coin X d a = Some c \<longrightarrow> c = (d, a) \<and> 0 \<le> a)
     \<and> (\<forall>c c' r. x_coin_add X c c' = Some r \<longrightarrow> fst c = fst c' \<and> r = (fst c, snd c + snd c'))
     \<and> (\<forall>c c' r. x_coin_sub X c c' = Some r \<longrightarrow> fst c = fst c' \<and> r = (fst c, snd c - snd c') \<and> snd c' \<le> snd c)
     \<and> (\<forall>c c' r. x_coin_lt X c c' = Some r \<longrightarrow> fst c = fst c' \<and> r = (snd c < snd c'))
     \<and> (\<forall>cs. mset (c_sort S cs) = mset cs)"

definition ref_coin_ext :: coin_ext where
  "ref_coin_ext =
     \<lparr>x_mulT = (\<lambda>a b. Some (a * b div 100)),
      x_quoT = (\<lambda>a b. if b = 0 then None else Some (a * 100 div b)),
      x_new_coin = (\<lambda>d a. if a < 0 then None else Some (d, a)),
      x_coin_add = (\<lambda>c c'. if fst c = fst c' then Some (fst c, snd c + snd c') else None),
      x_coin_sub = (\<lambda>c c'. if fst c = fst c' \<and> snd c' \<le> snd c then Some (fst c, snd c - snd c') else None),
      x_coin_lt = (\<lambda>c c'. if fst c = fst c' then Some (snd c < snd c') else None),
      x_parse_coin = (\<lambda>s. Some (s, 100))\<rparr>"

lemma swap_laws_unit: "swap_laws S X \<Longrightarrow> 0 < d_unit S"
  by (simp add: swap_laws_def sdk_laws_def dec_laws_def)

lemma swap_lawsD:
  assumes "swap_laws S X"
  shows "sdk_laws S"
    and "x_mulT X a b = Some r \<Longrightarrow> 0 \<le> a \<Longrightarrow> 0 \<le> b \<Longrightarrow> r = a * b div d_unit S"
    and "x_quoT X a b = Some r \<Longrightarrow> 0 \<le> a \<Longrightarrow> 0 < b \<Longrightarrow> r = a * d_unit S div b"
    and "x_quoT X a 0 = None"
    and "x_new_coin X d a = Some c \<Longrightarrow> c = (d, a) \<and> 0 \<le> a"
    and "x_coin_add X c c' = Some q \<Longrightarrow> fst c = fst c' \<and> q = (fst c, snd c + snd c')"
    and "x_coin_sub X c c' = Some q \<Longrightarrow> fst c = fst c' \<and> q = (fst c, snd c - snd c') \<and> snd c' \<le> snd c"
    and "x_coin_lt X c c' = Some t \<Longrightarrow> fst c = fst c' \<and> t = (snd c < snd c')"
    and "mset (c_sort S cs) = mset cs"
  using assms unfolding swap_laws_def by blast+

lemma panicked_Inr [simp]: "panicked r = Inr a \<longleftrightarrow> r = Some a"
  by (simp add: panicked_def split: option.splits)

lemma wrap_err_Inr [simp]: "wrap_err f r = Inr a \<longleftrightarrow> r = Inr a"
  by (simp add: wrap_err_def split: sum.splits)

lemma GetSwapTokenPair_Inr [simp]: "GetSwapTokenPair s n = Inr p \<longleftrightarrow> map_of (am_pairs s) n = Some p"
  by (simp add: GetSwapTokenPair_def split: option.splits)

subsection \<open>Arithmetic\<close>

text \<open>The two-step division of \<open>MulAndQuo\<close> loses nothing: it is the exact quotient rounded down.\<close>

lemma MulAndQuo_exact:
  assumes laws: "swap_laws S X" and "0 \<le> a" and "0 \<le> b" and r: "MulAndQuo S X a b c = Inr r" and "0 \<le> c"
  shows "0 < c" and "r = a * b div c"
proof -
  let ?u = "d_unit S"
  have u: "0 < ?u" using swap_laws_unit [OF laws] .
  obtain a1 a2 q where steps: "x_mulT X a (?u * ?u) = Some a1" "x_mulT X a1 b = Some a2"
    "x_quoT X a2 c = Some q" "x_quoT X q (?u * ?u) = Some r"
    using r by (auto simp: MulAndQuo_def rbind_Inr_iff Let_def)
  show c: "0 < c" using steps(3) swap_lawsD(4) [OF laws] \<open>0 \<le> c\<close> by (cases "c = 0") auto
  have a1: "a1 = a * ?u" using swap_lawsD(2) [OF laws steps(1)] assms(2) u by simp
  then have a2: "a2 = a * b" using swap_lawsD(2) [OF laws steps(2)] assms(2,3) u by (simp add: ac_simps)
  then have q: "q = a * b * ?u div c" using swap_lawsD(3) [OF laws steps(3)] assms(2,3) c by simp
  then have "0 \<le> q" using assms(2,3) u c by (simp add: pos_imp_zdiv_nonneg_iff)
  then have "r = q * ?u div (?u * ?u)" using swap_lawsD(3) [OF laws steps(4)] u by simp
  also have "\<dots> = q div ?u" using u by simp
  also have "\<dots> = a * b * ?u div (c * ?u)" using q u by (simp add: zdiv_zmult2_eq)
  finally show "r = a * b div c" using u by simp
qed

text \<open>
  The price of a swap: less than the whole reserve is paid out and the product of the
  reserves does not fall, whatever is lost to rounding.
\<close>

lemma price_product:
  fixes f x i out y :: int
  assumes "0 \<le> f" and "f \<le> 1000 * x" and "0 < i" and "0 < out" and y: "y = f * out div (1000 * i + f)"
  shows "0 \<le> y" and "y < out" and "i * out \<le> (i + x) * (out - y)"
proof -
  let ?d = "1000 * i + f"
  have d: "0 < ?d" using assms by simp
  show "0 \<le> y" using assms d by (simp add: pos_imp_zdiv_nonneg_iff)
  have le: "y * ?d \<le> f * out" unfolding y using d by (simp add: minus_mod_eq_div_mult [symmetric])
  then show "y < out"
  proof -
    have "f * out < out * ?d" using assms by (simp add: algebra_simps)
    then have "y * ?d < out * ?d" using le by simp
    then show ?thesis using d by simp
  qed
  then have "y * (1000 * i) \<le> f * (out - y)" using le by (simp add: algebra_simps)
  also have "\<dots> \<le> 1000 * x * (out - y)" using \<open>y < out\<close> assms(2) by (intro mult_right_mono) simp_all
  finally show "i * out \<le> (i + x) * (out - y)" by (simp add: algebra_simps)
qed

lemma GetInputPrice_ok:
  assumes laws: "swap_laws S X" and "0 \<le> x" and "0 < i" and "0 < out" and fee: "0 \<le> fee" "fee \<le> d_unit S"
    and r: "GetInputPrice S X x i out fee = Inr y"
  shows "0 \<le> y" and "y < out" and "i * out \<le> (i + x) * (out - y)"
proof -
  let ?u = "d_unit S"
  have u: "0 < ?u" using swap_laws_unit [OF laws] .
  obtain rate f sc where steps: "x_mulT X (?u - fee) (1000 * ?u) = Some rate" "x_mulT X x rate = Some f"
    "x_mulT X i (1000 * ?u) = Some sc" "MulAndQuo S X f out (sc + f) = Inr y"
    using r by (auto simp: GetInputPrice_def rbind_Inr_iff)
  have sc: "sc = 1000 * i" using swap_lawsD(2) [OF laws steps(3)] assms(3) u by (simp add: ac_simps)
  have rate: "rate = (?u - fee) * 1000" "0 \<le> rate"
    using swap_lawsD(2) [OF laws steps(1)] fee u by (simp_all add: mult.assoc [symmetric])
  then have f: "f = x * rate div ?u" using swap_lawsD(2) [OF laws steps(2)] assms(2) by simp
  then have f0: "0 \<le> f" using assms(2) rate u by (simp add: pos_imp_zdiv_nonneg_iff)
  have "x * rate \<le> x * (1000 * ?u)" using assms(2) rate(1) fee by (intro mult_left_mono) simp_all
  then have "x * rate \<le> 1000 * x * ?u" by (simp add: ac_simps)
  then have "f \<le> 1000 * x" using f u by (metis less_irrefl nonzero_mult_div_cancel_right zdiv_mono1)
  moreover have "y = f * out div (1000 * i + f)"
    using MulAndQuo_exact(2) [OF laws f0 _ steps(4)] assms(3,4) f0 sc by simp
  ultimately show "0 \<le> y" "y < out" "i * out \<le> (i + x) * (out - y)"
    using price_product [of f x i out y] f0 assms(3,4) by blast+
qed

subsection \<open>Moves of coins\<close>

abbreviation amm_acc :: "'b sdk \<Rightarrow> addr" where
  "amm_acc S \<equiv> b_mod_addr S ammswapModule"

abbreviation am_bal :: "'b sdk \<Rightarrow> 'b amm \<Rightarrow> addr \<Rightarrow> denom \<Rightarrow> dec" where
  "am_bal S s \<equiv> bank_bal S (am_bank s)"

abbreviation am_supply :: "'b sdk \<Rightarrow> 'b amm \<Rightarrow> denom \<Rightarrow> dec" where
  "am_supply S s \<equiv> b_supply S (am_bank s)"

definition same_but_bank :: "'b amm \<Rightarrow> 'b amm \<Rightarrow> bool" where
  "same_but_bank s s' \<longleftrightarrow> s' = set_am_bank (am_bank s') s"

lemma set_am_bank_simps [simp]:
  "am_bank (set_am_bank b s) = b" "am_pairs (set_am_bank b s) = am_pairs s"
  "am_FeeRate (set_am_bank b s) = am_FeeRate s" "tok (am_chain (set_am_bank b s)) = tok (am_chain s)"
  "same_but_bank s (set_am_bank b s)"
  by (simp_all add: set_am_bank_def same_but_bank_def)

lemma same_but_bankD:
  assumes "same_but_bank s s'"
  shows "am_pairs s' = am_pairs s" and "am_FeeRate s' = am_FeeRate s"
    and "tok (am_chain s') = tok (am_chain s)"
  using assms unfolding same_but_bank_def
  by (metis set_am_bank_simps(2), metis set_am_bank_simps(3), metis set_am_bank_simps(4))

lemma with_bank_Inr: "with_bank s r = Inr s' \<longleftrightarrow> (\<exists>b. r = Inr b \<and> s' = set_am_bank b s)"
  by (auto simp: with_bank_def split: sum.splits)

lemma pool_sends:
  assumes "swap_laws S X"
  shows "SendCoinsToPool S cs a s = Inr s' \<Longrightarrow>
      same_but_bank s s' \<and> moves S (am_bank s) a (amm_acc S) cs (am_bank s')"
    and "SendCoinsFromPoolToAccount S cs a s = Inr s' \<Longrightarrow>
      same_but_bank s s' \<and> moves S (am_bank s) (amm_acc S) a cs (am_bank s')"
  using bank_moves [OF sdk_lawsD(3) [OF swap_lawsD(1) [OF assms]]]
  by (auto simp: SendCoinsToPool_def SendCoinsFromPoolToAccount_def with_bank_Inr)

text \<open>Minting to a user and burning from one leave the module account as it was.\<close>

lemma pool_mint:
  assumes laws: "swap_laws S X" and "a \<noteq> amm_acc S" and "MintPoolCoinsToUser S cs a s = Inr s'"
  shows "same_but_bank s s'"
    and "am_bal S s' a' d = am_bal S s a' d + (if a' = a then amt cs d else 0)"
    and "am_supply S s' d = am_supply S s d + amt cs d"
proof -
  have bank: "bank_laws S" using laws sdk_lawsD(3) swap_lawsD(1) by blast
  obtain b b' where b: "b_mint S (am_bank s) ammswapModule cs = Inr b"
    "b_mod_to_acc S b ammswapModule a cs = Inr b'" and s': "s' = set_am_bank b' (set_am_bank b s)"
    using assms(3) by (auto simp: MintPoolCoinsToUser_def rbind_Inr_iff with_bank_Inr)
  have mint: "bank_bal S b a' d = am_bal S s a' d + (if a' = amm_acc S then amt cs d else 0)"
    "b_supply S b d = am_supply S s d + amt cs d" for a' d
    using bank b(1) unfolding bank_laws_def by blast+
  note mv = bank_moves(3) [OF bank b(2)]
  show "same_but_bank s s'" using s' by (simp add: same_but_bank_def set_am_bank_def)
  show "am_bal S s' a' d = am_bal S s a' d + (if a' = a then amt cs d else 0)"
    using s' assms(2) moves_bal [OF mv] mint(1) by simp
  show "am_supply S s' d = am_supply S s d + amt cs d" using s' moves_supply [OF mv] mint(2) by simp
qed

lemma pool_burn:
  assumes laws: "swap_laws S X" and "a \<noteq> amm_acc S" and "BurnPoolCoinsFromUser S cs a s = Inr s'"
  shows "same_but_bank s s'"
    and "am_bal S s' a' d = am_bal S s a' d - (if a' = a then amt cs d else 0)"
    and "am_supply S s' d = am_supply S s d - amt cs d"
proof -
  have bank: "bank_laws S" using laws sdk_lawsD(3) swap_lawsD(1) by blast
  obtain b b' where b: "b_acc_to_mod S (am_bank s) a ammswapModule cs = Inr b"
    "b_burn S b ammswapModule cs = Inr b'" and s': "s' = set_am_bank b' (set_am_bank b s)"
    using assms(3) by (auto simp: BurnPoolCoinsFromUser_def rbind_Inr_iff with_bank_Inr)
  have burn: "bank_bal S b' a' d = bank_bal S b a' d - (if a' = amm_acc S then amt cs d else 0)"
    "b_supply S b' d = b_supply S b d - amt cs d" for a' d
    using bank b(2) unfolding bank_laws_def by blast+
  note mv = bank_moves(2) [OF bank b(1)]
  show "same_but_bank s s'" using s' by (simp add: same_but_bank_def set_am_bank_def)
  show "am_bal S s' a' d = am_bal S s a' d - (if a' = a then amt cs d else 0)"
    using s' assms(2) moves_bal [OF mv] burn(1) by simp
  show "am_supply S s' d = am_supply S s d - amt cs d" using s' moves_supply [OF mv] burn(2) by simp
qed

lemma amt_coinSort:
  assumes "swap_laws S X" and "\<forall>c\<in>set cs. 0 \<le> snd c"
  shows "amt (coinSort S cs) d = amt cs d"
proof -
  let ?pos = "filter (\<lambda>c. 0 < snd c) cs"
  have "mset (map snd (filter (\<lambda>c. fst c = d) (c_sort S ?pos))) = mset (map snd (filter (\<lambda>c. fst c = d) ?pos))"
    using swap_lawsD(9) [OF assms(1)] by (simp add: filter_filter_mset)
  then have "amt (coinSort S cs) d = amt ?pos d"
    unfolding amt_def coinSort_def by (metis sum_mset_sum_list)
  also have "\<dots> = amt cs d" using assms(2) by (induction cs) auto
  finally show ?thesis .
qed

subsection \<open>Names of pairs\<close>

lemma pair_name_commute: "GetSwapTokenPairName a b = GetSwapTokenPairName b a"
  by (cases a b rule: linorder_cases)
    (auto simp: GetSwapTokenPairName_def GetBaseQuoteTokenName_def dest: less_asym)

lemma native_no_underscore: "CHR ''_'' \<notin> set NativeToken"
  by (simp add: NativeToken_def)

lemma native_pair_name:
  "GetSwapTokenPairName a NativeToken =
     (if a < NativeToken then a @ ''_'' @ NativeToken else NativeToken @ ''_'' @ a)"
  by (auto simp: GetSwapTokenPairName_def GetBaseQuoteTokenName_def)

lemma string_append_le: "(a::string) \<le> a @ b"
  by (induction a) auto

text \<open>The two hops of a route use different pairs.\<close>

lemma native_pair_inj:
  assumes "GetSwapTokenPairName a NativeToken = GetSwapTokenPairName b NativeToken"
  shows "a = b"
proof -
  have mixed: False if "x < NativeToken" "x @ ''_'' @ NativeToken = NativeToken @ ''_'' @ y" for x y :: string
  proof -
    from that(2) consider us where "x = NativeToken @ us" | us where "NativeToken = x @ us" "us @ ''_'' @ y = ''_'' @ NativeToken"
      by (auto simp: append_eq_append_conv2)
    then show False
    proof cases
      case 1
      then show False using that(1) string_append_le [of NativeToken us] by simp
    next
      case 2
      then have "us \<noteq> []" using that(1) by auto
      with 2(2) have "CHR ''_'' \<in> set us" by (cases us) auto
      then show False using 2(1) native_no_underscore by (metis Un_iff set_append)
    qed
  qed
  show ?thesis
    using assms mixed [of a b] mixed [of b a] by (auto simp: native_pair_name split: if_splits)
qed

subsection \<open>The invariant of the pools\<close>

definition reserve :: "swap_pair \<Rightarrow> denom \<Rightarrow> dec" where
  "reserve p d = amt [sp_Base p, sp_Quote p] d"

definition pool_product :: "swap_pair \<Rightarrow> int" where
  "pool_product p = snd (sp_Base p) * snd (sp_Quote p)"

text \<open>Either everything is empty or both reserves and the supply of pool tokens are positive.\<close>

definition pool_state :: "dec \<Rightarrow> dec \<Rightarrow> dec \<Rightarrow> bool" where
  "pool_state b q l \<longleftrightarrow> b = 0 \<and> q = 0 \<and> l = 0 \<or> 0 < b \<and> 0 < q \<and> 0 < l"

definition pool_named :: "string \<Rightarrow> swap_pair \<Rightarrow> bool" where
  "pool_named n p \<longleftrightarrow> n = TokenPairName p \<and> sp_PoolTokenName p = PoolTokenPrefix @ n \<and> fst (sp_Base p) < fst (sp_Quote p)"

definition pool_ok :: "'b sdk \<Rightarrow> 'b amm \<Rightarrow> string \<Rightarrow> swap_pair \<Rightarrow> bool" where
  "pool_ok S s n p \<longleftrightarrow> pool_named n p
     \<and> tk_Symbol (GetTokenInfo (am_chain s) (sp_PoolTokenName p)) = sp_PoolTokenName p
     \<and> pool_state (snd (sp_Base p)) (snd (sp_Quote p)) (am_supply S s (sp_PoolTokenName p))"

definition amm_ok :: "'b sdk \<Rightarrow> 'b amm \<Rightarrow> bool" where
  "amm_ok S s \<longleftrightarrow> kv_ok (am_pairs s) \<and> 0 \<le> am_FeeRate s \<and> am_FeeRate s \<le> d_unit S
     \<and> (\<forall>n p. map_of (am_pairs s) n = Some p \<longrightarrow> pool_ok S s n p)
     \<and> (\<forall>n. map_of (am_pairs s) n = None \<longrightarrow> am_supply S s (PoolTokenPrefix @ n) = 0)"

text \<open>What the module account holds beyond the reserves of the pools.\<close>

definition amm_gap :: "'b sdk \<Rightarrow> 'b amm \<Rightarrow> denom \<Rightarrow> dec" where
  "amm_gap S s = (\<lambda>d. am_bal S s (amm_acc S) d - kv_sum (\<lambda>p. reserve p d) (am_pairs s))"

text \<open>A change of one pool; \<open>pool_update\<close>: with exactly the coins that go with it.\<close>

definition pool_change :: "'b sdk \<Rightarrow> 'b amm \<Rightarrow> string \<Rightarrow> swap_pair \<Rightarrow> swap_pair \<Rightarrow> 'b amm \<Rightarrow> bool" where
  "pool_change S s n p p' s' \<longleftrightarrow>
     map_of (am_pairs s) n = Some p \<and> am_pairs s' = kv_set n p' (am_pairs s)
     \<and> am_FeeRate s' = am_FeeRate s \<and> tok (am_chain s') = tok (am_chain s)
     \<and> fst (sp_Base p') = fst (sp_Base p) \<and> fst (sp_Quote p') = fst (sp_Quote p)
     \<and> sp_PoolTokenName p' = sp_PoolTokenName p
     \<and> (\<forall>t. t \<noteq> sp_PoolTokenName p \<longrightarrow> am_supply S s' t = am_supply S s t)"

definition pool_update :: "'b sdk \<Rightarrow> 'b amm \<Rightarrow> string \<Rightarrow> swap_pair \<Rightarrow> swap_pair \<Rightarrow> 'b amm \<Rightarrow> bool" where
  "pool_update S s n p p' s' \<longleftrightarrow> pool_change S s n p p' s'
     \<and> (\<forall>d. am_bal S s' (amm_acc S) d = am_bal S s (amm_acc S) d - reserve p d + reserve p' d)"

lemma amm_okD:
  assumes "amm_ok S s"
  shows "kv_ok (am_pairs s)" and "0 \<le> am_FeeRate s" and "am_FeeRate s \<le> d_unit S"
    and "map_of (am_pairs s) n = Some p \<Longrightarrow> pool_ok S s n p"
    and "map_of (am_pairs s) n = None \<Longrightarrow> am_supply S s (PoolTokenPrefix @ n) = 0"
  using assms by (simp_all add: amm_ok_def)

lemma pool_change_gap:
  assumes "amm_ok S s" and "pool_change S s n p p' s'"
  shows "amm_gap S s' d = amm_gap S s d + (am_bal S s' (amm_acc S) d - am_bal S s (amm_acc S) d) - (reserve p' d - reserve p d)"
  using assms by (auto simp: amm_gap_def pool_change_def kv_sum_set [OF amm_okD(1)] kv_val_def)

lemma pool_update_gap:
  assumes "amm_ok S s" and "pool_update S s n p p' s'"
  shows "amm_gap S s' = amm_gap S s"
  using assms pool_change_gap [OF assms(1)] by (auto simp: pool_update_def)

lemma pool_change_ok:
  assumes ok: "amm_ok S s" and up: "pool_change S s n p p' s'"
    and state: "pool_state (snd (sp_Base p')) (snd (sp_Quote p')) (am_supply S s' (sp_PoolTokenName p))"
  shows "amm_ok S s'"
proof -
  note u = up [unfolded pool_change_def]
  have tok: "GetTokenInfo (am_chain s') t = GetTokenInfo (am_chain s) t" for t
    using u by (simp add: GetTokenInfo_def)
  have p: "pool_ok S s n p" using ok u by (simp add: amm_okD)
  have other: "PoolTokenPrefix @ m \<noteq> sp_PoolTokenName p" if "m \<noteq> n" for m
    using that p by (simp add: pool_ok_def pool_named_def)
  have "pool_ok S s' m r" if "map_of (am_pairs s') m = Some r" for m r
  proof (cases "m = n")
    case True
    then have "r = p'" using that u by simp
    moreover have "TokenPairName p' = TokenPairName p" using u by (simp add: TokenPairName_def)
    ultimately show ?thesis using True p u state tok by (auto simp: pool_ok_def pool_named_def)
  next
    case False
    then have r: "pool_ok S s m r" using that u ok by (simp add: amm_okD)
    then have "sp_PoolTokenName r \<noteq> sp_PoolTokenName p" using other [OF False] by (simp add: pool_ok_def pool_named_def)
    then show ?thesis using r u tok by (simp add: pool_ok_def)
  qed
  moreover have "am_supply S s' (PoolTokenPrefix @ m) = 0" if "map_of (am_pairs s') m = None" for m
  proof -
    have "m \<noteq> n" "map_of (am_pairs s) m = None" using that u by (auto split: if_splits)
    then show ?thesis using u other [of m] amm_okD(5) [OF ok] by simp
  qed
  ultimately show ?thesis using ok u by (simp add: amm_ok_def kv_ok_set)
qed

lemma pool_update_ok:
  assumes "amm_ok S s" and "pool_update S s n p p' s'"
    and "pool_state (snd (sp_Base p')) (snd (sp_Quote p')) (am_supply S s' (sp_PoolTokenName p))"
  shows "amm_ok S s'"
  using assms(1) conjunct1 [OF assms(2) [unfolded pool_update_def]] assms(3) by (rule pool_change_ok)

subsection \<open>Swaps\<close>

lemma CalculateTokenToBuy_ok:
  assumes laws: "swap_laws S X" and fee: "0 \<le> fee" "fee \<le> d_unit S"
    and pos: "0 < snd (sp_Base p)" "0 < snd (sp_Quote p)" and x: "0 \<le> snd sold"
    and r: "CalculateTokenToBuy S X p sold d fee = Inr tb"
  shows "fst tb = d" and "0 \<le> snd tb"
    and "d < fst sold \<Longrightarrow> snd tb < snd (sp_Base p)
      \<and> pool_product p \<le> (snd (sp_Base p) - snd tb) * (snd (sp_Quote p) + snd sold)"
    and "\<not> d < fst sold \<Longrightarrow> snd tb < snd (sp_Quote p)
      \<and> pool_product p \<le> (snd (sp_Base p) + snd sold) * (snd (sp_Quote p) - snd tb)"
proof -
  let ?i = "if d < fst sold then snd (sp_Quote p) else snd (sp_Base p)"
  let ?o = "if d < fst sold then snd (sp_Base p) else snd (sp_Quote p)"
  obtain y where y: "GetInputPrice S X (snd sold) ?i ?o fee = Inr y" and c: "x_new_coin X d y = Some tb"
    using r by (auto simp: CalculateTokenToBuy_def rbind_Inr_iff split: if_splits)
  have tb: "tb = (d, y)" using swap_lawsD(5) [OF laws c] by simp
  show "fst tb = d" using tb by simp
  note price = GetInputPrice_ok [OF laws x _ _ fee y]
  show "0 \<le> snd tb" using price(1) pos tb by simp
  show "snd tb < snd (sp_Base p) \<and> pool_product p \<le> (snd (sp_Base p) - snd tb) * (snd (sp_Quote p) + snd sold)"
    if "d < fst sold" using that price(2,3) pos tb by (simp add: pool_product_def mult.commute)
  show "snd tb < snd (sp_Quote p) \<and> pool_product p \<le> (snd (sp_Base p) + snd sold) * (snd (sp_Quote p) - snd tb)"
    if "\<not> d < fst sold" using that price(2,3) pos tb by (simp add: pool_product_def)
qed

text \<open>
  One hop: the pool takes the sold coin from the sender and pays the bought one to the recipient. Nothing forbids that
  the recipient is the module account itself: then the account keeps coins that belong to no pool.
\<close>

lemma swapTokenNativeToken_ok:
  assumes laws: "swap_laws S X" and acc: "tt_Sender msg \<noteq> amm_acc S"
    and p: "map_of (am_pairs s) (tt_pair_name msg) = Some p"
    and r: "swapTokenNativeToken S X s p tb msg = Inr s'"
  obtains p' where "pool_change S s (tt_pair_name msg) p p' s'" and "\<And>t. am_supply S s' t = am_supply S s t"
    and "\<And>d. reserve p' d = reserve p d + amt [tt_SoldTokenAmount msg] d - amt [tb] d"
    and "\<And>a d. am_bal S s' a d = am_bal S s a d
           + (if a = amm_acc S then amt [tt_SoldTokenAmount msg] d - amt [tb] d else 0)
           + (if a = tt_Recipient msg then amt [tb] d else 0)
           - (if a = tt_Sender msg then amt [tt_SoldTokenAmount msg] d else 0)"
    and "if fst (tt_MinBoughtTokenAmount msg) < fst (tt_SoldTokenAmount msg)
         then snd (sp_Quote p') = snd (sp_Quote p) + snd (tt_SoldTokenAmount msg)
           \<and> snd (sp_Base p') = snd (sp_Base p) - snd tb \<and> fst (sp_Quote p) = fst (tt_SoldTokenAmount msg)
           \<and> fst (sp_Base p) = fst tb
         else snd (sp_Base p') = snd (sp_Base p) + snd (tt_SoldTokenAmount msg)
           \<and> snd (sp_Quote p') = snd (sp_Quote p) - snd tb \<and> fst (sp_Base p) = fst (tt_SoldTokenAmount msg)
           \<and> fst (sp_Quote p) = fst tb"
proof -
  let ?sold = "tt_SoldTokenAmount msg" and ?n = "tt_pair_name msg"
  let ?lt = "fst (tt_MinBoughtTokenAmount msg) < fst ?sold"
  obtain s1 s2 q b where steps: "SendCoinsToPool S [?sold] (tt_Sender msg) s = Inr s1"
    "SendCoinsFromPoolToAccount S [tb] (tt_Recipient msg) s1 = Inr s2"
    and res: "s' = OnSwapToken (tt_Recipient msg) (p\<lparr>sp_Quote := q, sp_Base := b\<rparr>) ?sold tb
       (SetSwapTokenPair ?n (p\<lparr>sp_Quote := q, sp_Base := b\<rparr>) s2)"
    "if ?lt then x_coin_add X (sp_Quote p) ?sold = Some q \<and> x_coin_sub X (sp_Base p) tb = Some b
       else x_coin_sub X (sp_Quote p) tb = Some q \<and> x_coin_add X (sp_Base p) ?sold = Some b"
    using r by (auto simp: swapTokenNativeToken_def rbind_Inr_iff split: if_splits)
  define p' where "p' = p\<lparr>sp_Quote := q, sp_Base := b\<rparr>"
  have s': "s' = OnSwapToken (tt_Recipient msg) p' ?sold tb (SetSwapTokenPair ?n p' s2)"
    and p': "if ?lt then x_coin_add X (sp_Quote p) ?sold = Some (sp_Quote p') \<and> x_coin_sub X (sp_Base p) tb = Some (sp_Base p')
       else x_coin_sub X (sp_Quote p) tb = Some (sp_Quote p') \<and> x_coin_add X (sp_Base p) ?sold = Some (sp_Base p')"
      "sp_PoolTokenName p' = sp_PoolTokenName p"
    using res by (simp_all add: p'_def)
  note m1 = pool_sends(1) [OF laws steps(1)] and m2 = pool_sends(2) [OF laws steps(2)]
  have s'_simps: "am_bank s' = am_bank s2" "am_pairs s' = kv_set ?n p' (am_pairs s)" "am_FeeRate s' = am_FeeRate s"
    "tok (am_chain s') = tok (am_chain s)"
    using s' same_but_bankD [OF conjunct1 [OF m1]] same_but_bankD [OF conjunct1 [OF m2]]
    by (simp_all add: OnSwapToken_def SetSwapTokenPair_def)
  have parts: "if ?lt
         then snd (sp_Quote p') = snd (sp_Quote p) + snd ?sold
           \<and> snd (sp_Base p') = snd (sp_Base p) - snd tb \<and> fst (sp_Quote p) = fst ?sold \<and> fst (sp_Base p) = fst tb
         else snd (sp_Base p') = snd (sp_Base p) + snd ?sold
           \<and> snd (sp_Quote p') = snd (sp_Quote p) - snd tb \<and> fst (sp_Base p) = fst ?sold \<and> fst (sp_Quote p) = fst tb"
    and denoms: "fst (sp_Base p') = fst (sp_Base p)" "fst (sp_Quote p') = fst (sp_Quote p)"
    using p'(1) by (auto dest!: swap_lawsD(6,7) [OF laws] split: if_splits)
  have sup: "am_supply S s' t = am_supply S s t" for t
    using s'_simps(1) m1 m2 moves_supply by metis
  have bal: "am_bal S s' a d = am_bal S s a d
           + (if a = amm_acc S then amt [?sold] d - amt [tb] d else 0)
           + (if a = tt_Recipient msg then amt [tb] d else 0)
           - (if a = tt_Sender msg then amt [?sold] d else 0)" for a d
    using acc moves_bal [OF conjunct2 [OF m1], of a d] moves_bal [OF conjunct2 [OF m2], of a d] s'_simps(1) by simp
  have res: "reserve p' d = reserve p d + amt [?sold] d - amt [tb] d" for d
  proof -
    have pair: "c = (fst c, snd c)" for c :: coin by simp
    show ?thesis unfolding reserve_def
      using parts denoms
      by (subst pair [of "sp_Base p'"], subst pair [of "sp_Quote p'"], subst pair [of "sp_Base p"],
          subst pair [of "sp_Quote p"], subst pair [of ?sold], subst pair [of tb], unfold amt_Cons amt_Nil)
        (simp split: if_splits)
  qed
  have "pool_change S s ?n p p' s'"
    using p p'(2) s'_simps denoms sup by (simp add: pool_change_def)
  then show thesis by (rule that [OF _ sup res bal parts])
qed

definition pools_grow :: "'b amm \<Rightarrow> 'b amm \<Rightarrow> bool" where
  "pools_grow s s' \<longleftrightarrow> (\<forall>n p. map_of (am_pairs s) n = Some p \<longrightarrow>
     (\<exists>p'. map_of (am_pairs s') n = Some p' \<and> pool_product p \<le> pool_product p'))"

lemma pools_grow_trans: "pools_grow s s' \<Longrightarrow> pools_grow s' s'' \<Longrightarrow> pools_grow s s''"
  unfolding pools_grow_def by (meson order_trans)

lemma live_pool:
  assumes "amm_ok S s" and "map_of (am_pairs s) n = Some p" and "\<not> empty_pool p"
  shows "0 < snd (sp_Base p)" and "0 < snd (sp_Quote p)" and "0 < am_supply S s (sp_PoolTokenName p)"
  using amm_okD(4) [OF assms(1,2)] assms(3) by (auto simp: pool_ok_def pool_state_def empty_pool_def)

lemma swap_hop:
  assumes laws: "swap_laws S X" and ok: "amm_ok S s"
    and acc: "tt_Sender msg \<noteq> amm_acc S"
    and p: "map_of (am_pairs s) (tt_pair_name msg) = Some p" "\<not> empty_pool p" and x: "0 \<le> snd (tt_SoldTokenAmount msg)"
    and calc: "CalculateTokenToBuy S X p (tt_SoldTokenAmount msg) (fst (tt_MinBoughtTokenAmount msg)) (am_FeeRate s) = Inr tb"
    and r: "swapTokenNativeToken S X s p tb msg = Inr s'"
  shows "amm_ok S s'"
    and "\<And>d. amm_gap S s' d = amm_gap S s d + (if tt_Recipient msg = amm_acc S then amt [tb] d else 0)"
    and "pools_grow s s'" and "am_FeeRate s' = am_FeeRate s"
    and "\<And>n. n \<noteq> tt_pair_name msg \<Longrightarrow> map_of (am_pairs s') n = map_of (am_pairs s) n"
    and "\<And>a d. a \<noteq> amm_acc S \<Longrightarrow> am_bal S s' a d = am_bal S s a d
           + (if a = tt_Recipient msg then amt [tb] d else 0)
           - (if a = tt_Sender msg then amt [tt_SoldTokenAmount msg] d else 0)"
proof -
  let ?sold = "tt_SoldTokenAmount msg" and ?n = "tt_pair_name msg"
  note pos = live_pool [OF ok p]
  note c = CalculateTokenToBuy_ok [OF laws amm_okD(2,3) [OF ok] pos(1,2) x calc]
  obtain p' where up: "pool_change S s ?n p p' s'" and sup: "\<And>t. am_supply S s' t = am_supply S s t"
    and res: "\<And>d. reserve p' d = reserve p d + amt [?sold] d - amt [tb] d"
    and bal: "\<And>a d. am_bal S s' a d = am_bal S s a d
           + (if a = amm_acc S then amt [?sold] d - amt [tb] d else 0)
           + (if a = tt_Recipient msg then amt [tb] d else 0)
           - (if a = tt_Sender msg then amt [?sold] d else 0)"
    and parts: "if fst (tt_MinBoughtTokenAmount msg) < fst ?sold
         then snd (sp_Quote p') = snd (sp_Quote p) + snd ?sold \<and> snd (sp_Base p') = snd (sp_Base p) - snd tb
           \<and> fst (sp_Quote p) = fst ?sold \<and> fst (sp_Base p) = fst tb
         else snd (sp_Base p') = snd (sp_Base p) + snd ?sold \<and> snd (sp_Quote p') = snd (sp_Quote p) - snd tb
           \<and> fst (sp_Base p) = fst ?sold \<and> fst (sp_Quote p) = fst tb"
    by (rule swapTokenNativeToken_ok [OF laws acc p(1) r]) (rule that)
  have "0 < snd (sp_Base p') \<and> 0 < snd (sp_Quote p') \<and> pool_product p \<le> pool_product p'"
    using parts c(3,4) pos x by (auto simp: pool_product_def split: if_splits)
  then have p': "0 < snd (sp_Base p')" "0 < snd (sp_Quote p')" "pool_product p \<le> pool_product p'" by simp_all
  show "amm_ok S s'" using pool_change_ok [OF ok up] p' pos(3) sup by (simp add: pool_state_def)
  show "amm_gap S s' d = amm_gap S s d + (if tt_Recipient msg = amm_acc S then amt [tb] d else 0)" for d
    using pool_change_gap [OF ok up, of d] bal [of "amm_acc S" d] res [of d] acc by auto
  show "pools_grow s s'" using up p'(3) p(1) by (auto simp: pools_grow_def pool_change_def)
  show "am_FeeRate s' = am_FeeRate s" using up by (simp add: pool_change_def)
  show "map_of (am_pairs s') n = map_of (am_pairs s) n" if "n \<noteq> ?n" for n
    using up that by (simp add: pool_change_def)
  show "am_bal S s' a d = am_bal S s a d + (if a = tt_Recipient msg then amt [tb] d else 0)
       - (if a = tt_Sender msg then amt [?sold] d else 0)" if "a \<noteq> amm_acc S" for a d
    using bal that by simp
qed

lemma swapToken_Inr:
  assumes "swapToken S X e s msg = Inr s'"
  obtains p tb where "map_of (am_pairs s) (tt_pair_name msg) = Some p" and "\<not> empty_pool p"
    and "CalculateTokenToBuy S X p (tt_SoldTokenAmount msg) (fst (tt_MinBoughtTokenAmount msg)) (am_FeeRate s) = Inr tb"
    and "snd (tt_MinBoughtTokenAmount msg) \<le> snd tb" and "swapTokenNativeToken S X s p tb msg = Inr s'"
  using assms by (auto simp: swapToken_def rbind_Inr_iff not_less split: if_splits)

lemma swapTokenByRouter_Inr:
  assumes laws: "swap_laws S X" and "swapTokenByRouter S X e s msg = Inr s'"
  obtains p1 p2 tn tb s1 where
    "map_of (am_pairs s) (GetSwapTokenPairName (fst (tt_SoldTokenAmount msg)) NativeToken) = Some p1" and "\<not> empty_pool p1"
    and "map_of (am_pairs s) (GetSwapTokenPairName (fst (tt_MinBoughtTokenAmount msg)) NativeToken) = Some p2" and "\<not> empty_pool p2"
    and "CalculateTokenToBuy S X p1 (tt_SoldTokenAmount msg) NativeToken (am_FeeRate s) = Inr tn"
    and "CalculateTokenToBuy S X p2 tn (fst (tt_MinBoughtTokenAmount msg)) (am_FeeRate s) = Inr tb"
    and "snd tn \<noteq> 0" and "snd (tt_MinBoughtTokenAmount msg) \<le> snd tb"
    and "swapTokenNativeToken S X s p1 tn (msg\<lparr>tt_MinBoughtTokenAmount := (NativeToken, 0)\<rparr>) = Inr s1"
    and "swapTokenNativeToken S X s1 p2 tb (msg\<lparr>tt_SoldTokenAmount := tn\<rparr>) = Inr s'"
proof -
  obtain c0 where c0: "x_new_coin X NativeToken 0 = Some c0"
    using assms(2) by (auto simp: swapTokenByRouter_def rbind_Inr_iff split: if_splits)
  then have "c0 = (NativeToken, 0)" using swap_lawsD(5) [OF laws] by blast
  with c0 assms(2) that show thesis
    by (auto simp: swapTokenByRouter_def rbind_Inr_iff not_less panicked_def Let_def split: if_splits)
qed

lemma ValidateBaseAndQuote_less:
  assumes "ValidateBaseAndQuoteAmount S b q = None"
  shows "b < q"
  using assms by (auto simp: ValidateBaseAndQuoteAmount_def not_less_iff_gr_or_eq split: if_splits)

lemma valid_swap:
  assumes "MsgTokenToToken_ValidateBasic S msg = None"
  shows "0 < snd (tt_SoldTokenAmount msg)" and "fst (tt_SoldTokenAmount msg) \<noteq> fst (tt_MinBoughtTokenAmount msg)"
  using assms by (auto simp: MsgTokenToToken_ValidateBasic_def GetBaseQuoteTokenName_def
      dest!: ValidateBaseAndQuote_less split: if_splits)

text \<open>
  A routed swap is two hops over the pools with the native token. The first pays the native
  tokens to the recipient; the second takes them from the sender.
\<close>

lemma router_ok:
  assumes laws: "swap_laws S X" and ok: "amm_ok S s" and valid: "MsgTokenToToken_ValidateBasic S msg = None"
    and acc: "tt_Sender msg \<noteq> amm_acc S"
    and r: "swapTokenByRouter S X e s msg = Inr s'"
  obtains p1 p2 tn tb where
    "map_of (am_pairs s) (GetSwapTokenPairName (fst (tt_SoldTokenAmount msg)) NativeToken) = Some p1" and "\<not> empty_pool p1"
    and "map_of (am_pairs s) (GetSwapTokenPairName (fst (tt_MinBoughtTokenAmount msg)) NativeToken) = Some p2" and "\<not> empty_pool p2"
    and "CalculateTokenToBuy S X p1 (tt_SoldTokenAmount msg) NativeToken (am_FeeRate s) = Inr tn"
    and "CalculateTokenToBuy S X p2 tn (fst (tt_MinBoughtTokenAmount msg)) (am_FeeRate s) = Inr tb"
    and "snd (tt_MinBoughtTokenAmount msg) \<le> snd tb" and "fst tn = NativeToken" and "0 < snd tn"
    and "fst tb = fst (tt_MinBoughtTokenAmount msg)"
    and "amm_ok S s'" and "0 \<le> snd tb"
    and "\<And>d. amm_gap S s' d = amm_gap S s d + (if tt_Recipient msg = amm_acc S then amt [tn] d + amt [tb] d else 0)" and "pools_grow s s'"
    and "\<And>a d. a \<noteq> amm_acc S \<Longrightarrow> am_bal S s' a d = am_bal S s a d
           + (if a = tt_Recipient msg then amt [tn] d + amt [tb] d else 0)
           - (if a = tt_Sender msg then amt [tt_SoldTokenAmount msg] d + amt [tn] d else 0)"
proof -
  let ?one = "msg\<lparr>tt_MinBoughtTokenAmount := (NativeToken, 0)\<rparr>"
  note v = valid_swap [OF valid]
  obtain p1 p2 tn tb s1 where
    p1: "map_of (am_pairs s) (GetSwapTokenPairName (fst (tt_SoldTokenAmount msg)) NativeToken) = Some p1" "\<not> empty_pool p1"
    and p2: "map_of (am_pairs s) (GetSwapTokenPairName (fst (tt_MinBoughtTokenAmount msg)) NativeToken) = Some p2" "\<not> empty_pool p2"
    and c1: "CalculateTokenToBuy S X p1 (tt_SoldTokenAmount msg) NativeToken (am_FeeRate s) = Inr tn"
    and c2: "CalculateTokenToBuy S X p2 tn (fst (tt_MinBoughtTokenAmount msg)) (am_FeeRate s) = Inr tb"
    and nz: "snd tn \<noteq> 0" and min: "snd (tt_MinBoughtTokenAmount msg) \<le> snd tb"
    and h1: "swapTokenNativeToken S X s p1 tn ?one = Inr s1"
    and h2: "swapTokenNativeToken S X s1 p2 tb (msg\<lparr>tt_SoldTokenAmount := tn\<rparr>) = Inr s'"
    by (rule swapTokenByRouter_Inr [OF laws r]) (rule that)
  let ?two = "msg\<lparr>tt_SoldTokenAmount := tn\<rparr>"
  have n1: "tt_pair_name ?one = GetSwapTokenPairName (fst (tt_SoldTokenAmount msg)) NativeToken"
    by (simp add: tt_pair_name_def pair_name_commute)
  note t1 = CalculateTokenToBuy_ok(1,2) [OF laws amm_okD(2,3) [OF ok] live_pool(1,2) [OF ok p1] less_imp_le [OF v(1)] c1]
  note one = swap_hop [OF laws ok, of ?one p1 tn s1, simplified n1, simplified, OF acc p1 less_imp_le [OF v(1)] c1 h1]
  have n2: "tt_pair_name ?two = GetSwapTokenPairName (fst (tt_MinBoughtTokenAmount msg)) NativeToken"
    using t1(1) by (simp add: tt_pair_name_def)
  have p2': "map_of (am_pairs s1) (tt_pair_name ?two) = Some p2"
    unfolding n2 using one(5) native_pair_inj v(2) p2(1) by metis
  have c2': "CalculateTokenToBuy S X p2 (tt_SoldTokenAmount ?two) (fst (tt_MinBoughtTokenAmount ?two)) (am_FeeRate s1) = Inr tb"
    using c2 one(4) by simp
  have acc2: "tt_Sender ?two \<noteq> amm_acc S" and x2: "0 \<le> snd (tt_SoldTokenAmount ?two)"
    using acc t1(2) by simp_all
  note two = swap_hop [OF laws one(1) acc2 p2' p2(2) x2 c2' h2]
  note tb = CalculateTokenToBuy_ok(1,2) [OF laws amm_okD(2,3) [OF ok] live_pool(1,2) [OF ok p2] t1(2) c2]
  show thesis
  proof (rule that [OF p1 p2 c1 c2 min t1(1) _ tb(1) two(1) tb(2)])
    show "0 < snd tn" using t1(2) nz by simp
    show "amm_gap S s' d = amm_gap S s d + (if tt_Recipient msg = amm_acc S then amt [tn] d + amt [tb] d else 0)" for d
      using one(2) [of d] two(2) [of d] by simp
    show "pools_grow s s'" using one(3) two(3) by (rule pools_grow_trans)
    show "am_bal S s' a d = am_bal S s a d + (if a = tt_Recipient msg then amt [tn] d + amt [tb] d else 0)
           - (if a = tt_Sender msg then amt [tt_SoldTokenAmount msg] d + amt [tn] d else 0)"
      if "a \<noteq> amm_acc S" for a d
      using one(6) [OF that, of d] two(6) [OF that, of d] by simp
  qed
qed

lemma swapToken_ok:
  assumes laws: "swap_laws S X" and ok: "amm_ok S s" and valid: "MsgTokenToToken_ValidateBasic S msg = None"
    and acc: "tt_Sender msg \<noteq> amm_acc S"
    and r: "swapToken S X e s msg = Inr s'"
  obtains p tb where "map_of (am_pairs s) (tt_pair_name msg) = Some p" and "\<not> empty_pool p"
    and "CalculateTokenToBuy S X p (tt_SoldTokenAmount msg) (fst (tt_MinBoughtTokenAmount msg)) (am_FeeRate s) = Inr tb"
    and "snd (tt_MinBoughtTokenAmount msg) \<le> snd tb" and "fst tb = fst (tt_MinBoughtTokenAmount msg)"
    and "amm_ok S s'" and "0 \<le> snd tb"
    and "\<And>d. amm_gap S s' d = amm_gap S s d + (if tt_Recipient msg = amm_acc S then amt [tb] d else 0)" and "pools_grow s s'"
    and "\<And>a d. a \<noteq> amm_acc S \<Longrightarrow> am_bal S s' a d = am_bal S s a d
           + (if a = tt_Recipient msg then amt [tb] d else 0)
           - (if a = tt_Sender msg then amt [tt_SoldTokenAmount msg] d else 0)"
proof -
  note v = valid_swap [OF valid]
  obtain p tb where p: "map_of (am_pairs s) (tt_pair_name msg) = Some p" "\<not> empty_pool p"
    and c: "CalculateTokenToBuy S X p (tt_SoldTokenAmount msg) (fst (tt_MinBoughtTokenAmount msg)) (am_FeeRate s) = Inr tb"
    and min: "snd (tt_MinBoughtTokenAmount msg) \<le> snd tb" and h: "swapTokenNativeToken S X s p tb msg = Inr s'"
    using r by (rule swapToken_Inr)
  note hop = swap_hop [OF laws ok acc p less_imp_le [OF v(1)] c h]
  note tb = CalculateTokenToBuy_ok(1,2) [OF laws amm_okD(2,3) [OF ok] live_pool(1,2) [OF ok p] less_imp_le [OF v(1)] c]
  show thesis by (rule that [OF p c min tb(1) hop(1) tb(2) hop(2,3,6)])
qed

lemma amt_single_nonneg: "0 \<le> snd c \<Longrightarrow> 0 \<le> amt [c] d"
  by (cases c) simp

lemma handleMsgTokenToToken_ok:
  assumes "swap_laws S X" and "amm_ok S s" and "MsgTokenToToken_ValidateBasic S msg = None"
    and "tt_Sender msg \<noteq> amm_acc S" and "handleMsgTokenToToken S X e s msg = Inr s'"
  shows "amm_ok S s'" and "amm_gap S s d \<le> amm_gap S s' d"
    and "tt_Recipient msg \<noteq> amm_acc S \<Longrightarrow> amm_gap S s' d = amm_gap S s d" and "pools_grow s s'"
proof -
  consider (direct) "swapToken S X e s msg = Inr s'" | (routed) "swapTokenByRouter S X e s msg = Inr s'"
    using assms(5) by (auto simp: handleMsgTokenToToken_def split: sum.splits if_splits)
  then have "amm_ok S s' \<and> amm_gap S s d \<le> amm_gap S s' d
      \<and> (tt_Recipient msg \<noteq> amm_acc S \<longrightarrow> amm_gap S s' d = amm_gap S s d) \<and> pools_grow s s'"
  proof cases
    case direct
    then show ?thesis by (rule swapToken_ok [OF assms(1-4)]) (use amt_single_nonneg in auto)
  next
    case routed
    then show ?thesis
      by (rule router_ok [OF assms(1-4)]) (use amt_single_nonneg [OF less_imp_le] amt_single_nonneg in \<open>auto simp: add_nonneg_nonneg\<close>)
  qed
  then show "amm_ok S s'" "amm_gap S s d \<le> amm_gap S s' d"
    "tt_Recipient msg \<noteq> amm_acc S \<Longrightarrow> amm_gap S s' d = amm_gap S s d" "pools_grow s s'" by simp_all
qed

end
