(* ===== verification/AmmLiquidity.thy ===== *)
theory AmmLiquidity
  imports AmmPool
begin

text \<open>
  Adding and removing liquidity and creating pools: what each handler does to the pool, to the
  supply of its pool token and to the accounts, and that it keeps the invariant \<open>amm_ok\<close>.
\<close>

subsection \<open>Adding\<close>

lemma pool_cases:
  assumes "amm_ok S s" and "map_of (am_pairs s) n = Some p"
  shows "snd (sp_Base p) = 0 \<and> snd (sp_Quote p) = 0 \<and> am_supply S s (sp_PoolTokenName p) = 0
     \<or> 0 < snd (sp_Base p) \<and> 0 < snd (sp_Quote p) \<and> 0 < am_supply S s (sp_PoolTokenName p)"
  using amm_okD(4) [OF assms] by (simp add: pool_ok_def pool_state_def)

lemma add_amounts_ok:
  assumes laws: "swap_laws S X" and ok: "amm_ok S s" and p: "map_of (am_pairs s) n = Some p"
    and pos: "0 < snd (al_MaxBaseAmount msg)" "0 < snd (al_QuoteAmount msg)"
    and r: "add_amounts S X s msg p = Inr (b, l)"
  shows "0 < b" and "0 < l"
    and "snd (sp_Quote p) = 0 \<Longrightarrow> b = snd (al_MaxBaseAmount msg) \<and> l = d_unit S"
    and "snd (sp_Quote p) \<noteq> 0 \<Longrightarrow>
      l = snd (al_QuoteAmount msg) * am_supply S s (sp_PoolTokenName p) div snd (sp_Quote p)
      \<and> b = max 1 (snd (al_QuoteAmount msg) * snd (sp_Base p) div snd (sp_Quote p))"
proof -
  let ?q = "snd (al_QuoteAmount msg)" and ?sup = "am_supply S s (sp_PoolTokenName p)"
  have empty: "b = snd (al_MaxBaseAmount msg) \<and> l = d_unit S" if "snd (sp_Quote p) = 0"
    using that pool_cases [OF ok p] r by (auto simp: add_amounts_def)
  have live: "l = ?q * ?sup div snd (sp_Quote p) \<and> l \<noteq> 0 \<and> b = max 1 (?q * snd (sp_Base p) div snd (sp_Quote p))"
    if "snd (sp_Quote p) \<noteq> 0"
  proof -
    have pp: "0 < snd (sp_Base p)" "0 < snd (sp_Quote p)" "0 < ?sup" using that pool_cases [OF ok p] by auto
    obtain b0 where b0: "MulAndQuo S X ?q (snd (sp_Base p)) (snd (sp_Quote p)) = Inr b0"
      and l: "MulAndQuo S X ?q ?sup (snd (sp_Quote p)) = Inr l" "l \<noteq> 0" and b: "b = (if b0 = 0 then 1 else b0)"
      using r pp by (auto simp: add_amounts_def rbind_Inr_iff Let_def GetPoolTokenAmount_def split: if_splits)
    have "b0 = ?q * snd (sp_Base p) div snd (sp_Quote p)"
      using MulAndQuo_exact(2) [OF laws _ _ b0] pos pp by simp
    moreover from this have "0 \<le> b0" using pos pp by (simp add: pos_imp_zdiv_nonneg_iff)
    moreover have "l = ?q * ?sup div snd (sp_Quote p)"
      using MulAndQuo_exact(2) [OF laws _ _ l(1)] pos pp by simp
    ultimately show ?thesis using b l(2) by auto
  qed
  show "b = snd (al_MaxBaseAmount msg) \<and> l = d_unit S" if "snd (sp_Quote p) = 0" using empty that .
  show "l = ?q * ?sup div snd (sp_Quote p) \<and> b = max 1 (?q * snd (sp_Base p) div snd (sp_Quote p))"
    if "snd (sp_Quote p) \<noteq> 0" using live [OF that] by simp
  show "0 < b" using empty live pos by (cases "snd (sp_Quote p) = 0") auto
  have "0 \<le> ?q * ?sup div snd (sp_Quote p)" if "snd (sp_Quote p) \<noteq> 0"
    using that pos pool_cases [OF ok p] by (auto simp: pos_imp_zdiv_nonneg_iff)
  then show "0 < l" using empty live swap_laws_unit [OF laws] by (cases "snd (sp_Quote p) = 0") force+
qed

lemma valid_add:
  assumes "MsgAddLiquidity_ValidateBasic S msg = None"
  shows "0 < snd (al_MaxBaseAmount msg)" and "0 < snd (al_QuoteAmount msg)"
    and "fst (al_MaxBaseAmount msg) < fst (al_QuoteAmount msg)"
  using assms by (auto simp: MsgAddLiquidity_ValidateBasic_def dest: ValidateBaseAndQuote_less split: if_splits)

lemma amt_pair: "amt [c] d = (if fst c = d then snd c else 0)"
  by (cases c) simp

lemma reserve_eq:
  "reserve p d = (if fst (sp_Base p) = d then snd (sp_Base p) else 0) + (if fst (sp_Quote p) = d then snd (sp_Quote p) else 0)"
  using amt_append [of "[sp_Base p]" "[sp_Quote p]" d] by (simp add: reserve_def amt_pair)

lemma handleMsgAddLiquidity_ok:
  assumes laws: "swap_laws S X" and ok: "amm_ok S s" and valid: "MsgAddLiquidity_ValidateBasic S msg = None"
    and acc: "al_Sender msg \<noteq> amm_acc S" and r: "handleMsgAddLiquidity S X e s msg = Inr s'"
  obtains p p' b l where "add_amounts S X s msg p = Inr (b, l)" and "pool_update S s (al_pair_name msg) p p' s'"
    and "fst (sp_Base p) = fst (al_MaxBaseAmount msg)" and "fst (sp_Quote p) = fst (al_QuoteAmount msg)"
    and "snd (sp_Base p') = snd (sp_Base p) + b" and "snd (sp_Quote p') = snd (sp_Quote p) + snd (al_QuoteAmount msg)"
    and "b \<le> snd (al_MaxBaseAmount msg)" and "al_MinLiquidity msg \<le> l"
    and "am_supply S s' (sp_PoolTokenName p) = am_supply S s (sp_PoolTokenName p) + l"
    and "\<And>a d. a \<noteq> amm_acc S \<Longrightarrow> am_bal S s' a d = am_bal S s a d + (if a = al_Sender msg
           then amt [(sp_PoolTokenName p, l)] d - amt [al_QuoteAmount msg, (fst (sp_Base p), b)] d else 0)"
proof -
  let ?n = "al_pair_name msg"
  obtain p z pt b l s1 q' b' c where p: "map_of (am_pairs s) ?n = Some p"
    and z: "x_new_coin X (fst (al_MaxBaseAmount msg)) 0 = Some z"
    and pt: "GetPoolTokenInfo s (sp_PoolTokenName p) = Inr pt"
    and bl: "add_amounts S X s msg p = Inr (b, l)"
    and limits: "b \<le> snd (al_MaxBaseAmount msg)" "al_MinLiquidity msg \<le> l"
    and send: "SendCoinsToPool S (coinSort S [al_QuoteAmount msg, (fst z, b)]) (al_Sender msg) s = Inr s1"
    and add: "x_coin_add X (sp_Quote p) (al_QuoteAmount msg) = Some q'" "x_coin_add X (sp_Base p) (fst z, b) = Some b'"
    and c: "x_new_coin X (tk_Symbol pt) l = Some c"
    and mint: "MintPoolCoinsToUser S [c] (al_Sender msg) (SetSwapTokenPair ?n (p\<lparr>sp_Quote := q', sp_Base := b'\<rparr>) s1) = Inr s'"
    using r by (auto simp: handleMsgAddLiquidity_def rbind_Inr_iff Let_def not_less split: if_splits)
  define p' where "p' = p\<lparr>sp_Quote := q', sp_Base := b'\<rparr>"
  have zc: "fst z = fst (al_MaxBaseAmount msg)" using swap_lawsD(5) [OF laws z] by simp
  have denoms: "fst (sp_Base p) = fst (al_MaxBaseAmount msg)" "fst (sp_Quote p) = fst (al_QuoteAmount msg)"
    and amounts: "b' = (fst (sp_Base p), snd (sp_Base p) + b)" "q' = (fst (sp_Quote p), snd (sp_Quote p) + snd (al_QuoteAmount msg))"
    using swap_lawsD(6) [OF laws add(1)] swap_lawsD(6) [OF laws add(2)] zc by auto
  have sym: "c = (sp_PoolTokenName p, l)"
    using swap_lawsD(5) [OF laws c] pt amm_okD(4) [OF ok p]
    by (auto simp: GetPoolTokenInfo_def pool_ok_def Let_def split: if_splits)
  note pos = valid_add(1,2) [OF valid]
  note amts = add_amounts_ok(1,2) [OF laws ok p pos bl]
  note m1 = pool_sends(1) [OF laws send]
  note m2 = pool_mint [OF laws acc mint]
  have coins: "amt (coinSort S [al_QuoteAmount msg, (fst z, b)]) d = amt [al_QuoteAmount msg, (fst (sp_Base p), b)] d" for d
    using amt_coinSort [OF laws, of "[al_QuoteAmount msg, (fst z, b)]" d] pos amts(1) zc denoms(1) by simp
  have simps: "am_pairs s' = kv_set ?n p' (am_pairs s)" "am_FeeRate s' = am_FeeRate s" "tok (am_chain s') = tok (am_chain s)"
    using same_but_bankD [OF m2(1)] same_but_bankD [OF conjunct1 [OF m1]] by (simp_all add: SetSwapTokenPair_def p'_def)
  have b1: "am_bank (SetSwapTokenPair ?n (p\<lparr>sp_Quote := q', sp_Base := b'\<rparr>) s1) = am_bank s1"
    by (simp add: SetSwapTokenPair_def)
  have sup: "am_supply S s' t = am_supply S s t + amt [(sp_PoolTokenName p, l)] t" for t
    using m2(3) moves_supply [OF conjunct2 [OF m1]] sym b1 by simp
  have bal: "am_bal S s' a d = am_bal S s a d + (if a = amm_acc S then amt [al_QuoteAmount msg, (fst (sp_Base p), b)] d else 0)
      + (if a = al_Sender msg then amt [(sp_PoolTokenName p, l)] d - amt [al_QuoteAmount msg, (fst (sp_Base p), b)] d else 0)" for a d
    using m2(2) [of a d] moves_bal [OF conjunct2 [OF m1], of a d] coins [of d] sym b1 acc by auto
  have res: "reserve p' d = reserve p d + amt [al_QuoteAmount msg, (fst (sp_Base p), b)] d" for d
    using amt_append [of "[al_QuoteAmount msg]" "[(fst (sp_Base p), b)]" d] denoms amounts
    by (simp add: reserve_eq p'_def amt_pair)
  have "pool_update S s ?n p p' s'"
    using p simps sup bal res acc amounts by (simp add: pool_update_def pool_change_def p'_def)
  then show thesis
    using that [OF bl, of p'] denoms amounts limits sup bal by (simp add: p'_def)
qed

lemma add_liquidity_inv:
  assumes laws: "swap_laws S X" and ok: "amm_ok S s" and valid: "MsgAddLiquidity_ValidateBasic S msg = None"
    and acc: "al_Sender msg \<noteq> amm_acc S" and r: "handleMsgAddLiquidity S X e s msg = Inr s'"
  shows "amm_ok S s'" and "amm_gap S s' = amm_gap S s"
proof -
  obtain p p' b l where *: "add_amounts S X s msg p = Inr (b, l)" "pool_update S s (al_pair_name msg) p p' s'"
    "snd (sp_Base p') = snd (sp_Base p) + b" "snd (sp_Quote p') = snd (sp_Quote p) + snd (al_QuoteAmount msg)"
    "am_supply S s' (sp_PoolTokenName p) = am_supply S s (sp_PoolTokenName p) + l"
    by (rule handleMsgAddLiquidity_ok [OF assms]) (rule that)
  have p: "map_of (am_pairs s) (al_pair_name msg) = Some p" using *(2) by (simp add: pool_update_def pool_change_def)
  note amts = add_amounts_ok(1,2) [OF laws ok p valid_add(1,2) [OF valid] *(1)]
  show "amm_ok S s'"
    using pool_update_ok [OF ok *(2)] *(3-5) amts valid_add(2) [OF valid] pool_cases [OF ok p] by (auto simp: pool_state_def)
  show "amm_gap S s' = amm_gap S s" by (rule pool_update_gap [OF ok *(2)])
qed

subsection \<open>Removing\<close>

lemma valid_remove:
  assumes "MsgRemoveLiquidity_ValidateBasic S msg = None"
  shows "0 < rl_Liquidity msg" and "fst (rl_MinBaseAmount msg) < fst (rl_MinQuoteAmount msg)"
  using assms by (auto simp: MsgRemoveLiquidity_ValidateBasic_def dest: ValidateBaseAndQuote_less split: if_splits)

text \<open>The share of a reserve that a fraction of the pool tokens redeems.\<close>

definition redeem :: "dec \<Rightarrow> dec \<Rightarrow> dec \<Rightarrow> dec" where
  "redeem res liquidity tokens = res * liquidity div tokens"

lemma redeem_bounds:
  assumes "0 < res" and "0 < l" and "l \<le> t"
  shows "0 \<le> redeem res l t" and "redeem res l t \<le> res" and "l < t \<Longrightarrow> redeem res l t < res" and "l = t \<Longrightarrow> redeem res l t = res"
proof -
  have t: "0 < t" using assms by simp
  show "0 \<le> redeem res l t" using assms t by (simp add: redeem_def pos_imp_zdiv_nonneg_iff)
  have "res * l div t \<le> res * t div t" using assms t by (intro zdiv_mono1 mult_left_mono) simp_all
  then show "redeem res l t \<le> res" using t by (simp add: redeem_def)
  show "redeem res l t < res" if "l < t"
  proof (rule ccontr)
    assume "\<not> redeem res l t < res"
    then have "res * t \<le> redeem res l t * t" using t by simp
    also have "\<dots> \<le> res * l" using t by (simp add: redeem_def minus_mod_eq_div_mult [symmetric])
    finally show False using that assms(1) by simp
  qed
  show "redeem res l t = res" if "l = t" using that t by (simp add: redeem_def)
qed

lemma handleMsgRemoveLiquidity_ok:
  assumes laws: "swap_laws S X" and ok: "amm_ok S s" and valid: "MsgRemoveLiquidity_ValidateBasic S msg = None"
    and acc: "rl_Sender msg \<noteq> amm_acc S" and r: "handleMsgRemoveLiquidity S X e s msg = Inr s'"
  obtains p p' b q where "pool_update S s (rl_pair_name msg) p p' s'"
    and "rl_Liquidity msg \<le> am_supply S s (sp_PoolTokenName p)" and "0 < snd (sp_Base p)" and "0 < snd (sp_Quote p)"
    and "b = redeem (snd (sp_Base p)) (rl_Liquidity msg) (am_supply S s (sp_PoolTokenName p))"
    and "q = redeem (snd (sp_Quote p)) (rl_Liquidity msg) (am_supply S s (sp_PoolTokenName p))"
    and "fst (sp_Base p) = fst (rl_MinBaseAmount msg)" and "fst (sp_Quote p) = fst (rl_MinQuoteAmount msg)"
    and "snd (sp_Base p') = snd (sp_Base p) - b" and "snd (sp_Quote p') = snd (sp_Quote p) - q"
    and "snd (rl_MinBaseAmount msg) \<le> b" and "snd (rl_MinQuoteAmount msg) \<le> q"
    and "am_supply S s' (sp_PoolTokenName p) = am_supply S s (sp_PoolTokenName p) - rl_Liquidity msg"
    and "\<And>a d. a \<noteq> amm_acc S \<Longrightarrow> am_bal S s' a d = am_bal S s a d + (if a = rl_Sender msg
           then amt [(fst (sp_Base p), b), (fst (sp_Quote p), q)] d - amt [(sp_PoolTokenName p, rl_Liquidity msg)] d else 0)"
proof -
  let ?n = "rl_pair_name msg" and ?l = "rl_Liquidity msg"
  obtain p b q bc qc s1 q' b' c where p: "map_of (am_pairs s) ?n = Some p"
    and enough: "?l \<le> am_supply S s (sp_PoolTokenName p)"
    and b: "MulAndQuo S X (snd (sp_Base p)) ?l (am_supply S s (sp_PoolTokenName p)) = Inr b"
    and q: "MulAndQuo S X (snd (sp_Quote p)) ?l (am_supply S s (sp_PoolTokenName p)) = Inr q"
    and bc: "x_new_coin X (fst (sp_Base p)) b = Some bc" and qc: "x_new_coin X (fst (sp_Quote p)) q = Some qc"
    and lt: "x_coin_lt X bc (rl_MinBaseAmount msg) = Some False" "x_coin_lt X qc (rl_MinQuoteAmount msg) = Some False"
    and send: "SendCoinsFromPoolToAccount S (coinSort S [bc, qc]) (rl_Sender msg) s = Inr s1"
    and sub: "x_coin_sub X (sp_Quote p) qc = Some q'" "x_coin_sub X (sp_Base p) bc = Some b'"
    and c: "x_new_coin X (sp_PoolTokenName p) ?l = Some c"
    and burn: "BurnPoolCoinsFromUser S [c] (rl_Sender msg) (SetSwapTokenPair ?n (p\<lparr>sp_Quote := q', sp_Base := b'\<rparr>) s1) = Inr s'"
    using r by (auto simp: handleMsgRemoveLiquidity_def rbind_Inr_iff Let_def not_less GetPoolTokenAmount_def split: if_splits)
  define p' where "p' = p\<lparr>sp_Quote := q', sp_Base := b'\<rparr>"
  have l: "0 < ?l" using valid_remove [OF valid] by simp
  have pos: "0 < snd (sp_Base p)" "0 < snd (sp_Quote p)" "0 < am_supply S s (sp_PoolTokenName p)"
    using pool_cases [OF ok p] enough l by auto
  have bq: "b = redeem (snd (sp_Base p)) ?l (am_supply S s (sp_PoolTokenName p))"
    "q = redeem (snd (sp_Quote p)) ?l (am_supply S s (sp_PoolTokenName p))"
    using MulAndQuo_exact(2) [OF laws _ _ b] MulAndQuo_exact(2) [OF laws _ _ q] pos l by (simp_all add: redeem_def)
  have cs: "bc = (fst (sp_Base p), b)" "qc = (fst (sp_Quote p), q)" "0 \<le> b" "0 \<le> q" "c = (sp_PoolTokenName p, ?l)"
    using swap_lawsD(5) [OF laws bc] swap_lawsD(5) [OF laws qc] swap_lawsD(5) [OF laws c] by simp_all
  have mins: "fst (sp_Base p) = fst (rl_MinBaseAmount msg)" "fst (sp_Quote p) = fst (rl_MinQuoteAmount msg)"
    "snd (rl_MinBaseAmount msg) \<le> b" "snd (rl_MinQuoteAmount msg) \<le> q"
    using swap_lawsD(8) [OF laws lt(1)] swap_lawsD(8) [OF laws lt(2)] cs by simp_all
  have amounts: "b' = (fst (sp_Base p), snd (sp_Base p) - b)" "q' = (fst (sp_Quote p), snd (sp_Quote p) - q)"
    using swap_lawsD(7) [OF laws sub(1)] swap_lawsD(7) [OF laws sub(2)] cs by simp_all
  note m1 = pool_sends(2) [OF laws send]
  note m2 = pool_burn [OF laws acc burn]
  have coins: "amt (coinSort S [bc, qc]) d = amt [(fst (sp_Base p), b), (fst (sp_Quote p), q)] d" for d
    using amt_coinSort [OF laws, of "[bc, qc]" d] cs by simp
  have simps: "am_pairs s' = kv_set ?n p' (am_pairs s)" "am_FeeRate s' = am_FeeRate s" "tok (am_chain s') = tok (am_chain s)"
    using same_but_bankD [OF m2(1)] same_but_bankD [OF conjunct1 [OF m1]] by (simp_all add: SetSwapTokenPair_def p'_def)
  have b1: "am_bank (SetSwapTokenPair ?n (p\<lparr>sp_Quote := q', sp_Base := b'\<rparr>) s1) = am_bank s1"
    by (simp add: SetSwapTokenPair_def)
  have sup: "am_supply S s' t = am_supply S s t - amt [(sp_PoolTokenName p, ?l)] t" for t
    using m2(3) moves_supply [OF conjunct2 [OF m1]] cs(5) b1 by simp
  have bal: "am_bal S s' a d = am_bal S s a d - (if a = amm_acc S then amt [(fst (sp_Base p), b), (fst (sp_Quote p), q)] d else 0)
      + (if a = rl_Sender msg then amt [(fst (sp_Base p), b), (fst (sp_Quote p), q)] d - amt [(sp_PoolTokenName p, ?l)] d else 0)" for a d
    using m2(2) [of a d] moves_bal [OF conjunct2 [OF m1], of a d] coins [of d] cs(5) b1 acc by auto
  have res: "reserve p' d = reserve p d - amt [(fst (sp_Base p), b), (fst (sp_Quote p), q)] d" for d
    using amounts by (simp add: reserve_eq p'_def)
  have "pool_update S s ?n p p' s'"
    using p simps sup bal res acc amounts by (simp add: pool_update_def pool_change_def p'_def)
  then show thesis
    using that [of p p' b q] enough pos bq mins amounts sup bal by (simp add: p'_def)
qed

lemma remove_liquidity_inv:
  assumes laws: "swap_laws S X" and ok: "amm_ok S s" and valid: "MsgRemoveLiquidity_ValidateBasic S msg = None"
    and acc: "rl_Sender msg \<noteq> amm_acc S" and r: "handleMsgRemoveLiquidity S X e s msg = Inr s'"
  shows "amm_ok S s'" and "amm_gap S s' = amm_gap S s"
proof -
  obtain p p' where *: "pool_update S s (rl_pair_name msg) p p' s'"
    "rl_Liquidity msg \<le> am_supply S s (sp_PoolTokenName p)" "0 < snd (sp_Base p)" "0 < snd (sp_Quote p)"
    "snd (sp_Base p') = snd (sp_Base p) - redeem (snd (sp_Base p)) (rl_Liquidity msg) (am_supply S s (sp_PoolTokenName p))"
    "snd (sp_Quote p') = snd (sp_Quote p) - redeem (snd (sp_Quote p)) (rl_Liquidity msg) (am_supply S s (sp_PoolTokenName p))"
    "am_supply S s' (sp_PoolTokenName p) = am_supply S s (sp_PoolTokenName p) - rl_Liquidity msg"
    by (rule handleMsgRemoveLiquidity_ok [OF assms]) (rule that; simp)
  note l = valid_remove(1) [OF valid]
  show "amm_ok S s'"
    using pool_update_ok [OF ok *(1)] redeem_bounds [OF *(3) l *(2)] redeem_bounds [OF *(4) l *(2)] *(2,5-7)
    by (cases "rl_Liquidity msg = am_supply S s (sp_PoolTokenName p)") (simp_all add: pool_state_def)
  show "amm_gap S s' = amm_gap S s" by (rule pool_update_gap [OF ok *(1)])
qed

subsection \<open>Creating\<close>

lemma create_exchange_inv:
  assumes laws: "swap_laws S X" and ok: "amm_ok S s" and valid: "MsgCreateExchange_ValidateBasic S msg = None"
    and r: "handleMsgCreateExchange S X s msg = Inr s'"
  shows "amm_ok S s'" and "amm_gap S s' = amm_gap S s"
proof -
  let ?a = "ce_Token0Name msg" and ?b = "ce_Token1Name msg"
  let ?n = "GetSwapTokenPairName ?a ?b"
  have pt: "GetPoolTokenName ?a ?b = PoolTokenPrefix @ ?n" by (simp add: GetPoolTokenName_def)
  obtain p where fresh: "map_of (am_pairs s) ?n = None" and p: "NewSwapPair X ?a ?b = Inr p"
    and s': "s' = OnCreateExchange p (SetSwapTokenPair ?n p (NewPoolToken S (GetPoolTokenName ?a ?b) s))"
    using r by (auto simp: handleMsgCreateExchange_def Let_def rbind_Inr_iff is_ok_iff
        split: option.splits if_splits)
  have ne: "?a \<noteq> ?b" using valid by (auto simp: MsgCreateExchange_ValidateBasic_def split: if_splits option.splits)
  obtain base quote where bq: "GetBaseQuoteTokenName ?a ?b = (base, quote)" "base < quote"
    using ne that by (cases ?a ?b rule: linorder_cases) (auto simp: GetBaseQuoteTokenName_def dest: less_asym)
  have p_eq: "p = \<lparr>sp_Quote = (quote, 0), sp_Base = (base, 0), sp_PoolTokenName = PoolTokenPrefix @ ?n\<rparr>"
    using p bq pt by (auto simp: NewSwapPair_def rbind_Inr_iff dest!: swap_lawsD(5) [OF laws])
  have named: "pool_named ?n p"
    using bq by (simp add: pool_named_def p_eq TokenPairName_def GetSwapTokenPairName_def)
  have simps: "am_pairs s' = kv_set ?n p (am_pairs s)" "am_FeeRate s' = am_FeeRate s" "am_bank s' = am_bank s"
    "am_chain s' = NewToken (InitPoolToken S (PoolTokenPrefix @ ?n)) (am_chain s)"
    using s' pt by (simp_all add: OnCreateExchange_def SetSwapTokenPair_def NewPoolToken_def NewToken_def)
  have tok: "GetTokenInfo (am_chain s') t =
      (if t = PoolTokenPrefix @ ?n then InitPoolToken S (PoolTokenPrefix @ ?n) else GetTokenInfo (am_chain s) t)" for t
    using simps(4) by (simp add: GetTokenInfo_def NewToken_def InitPoolToken_def)
  have "pool_ok S s' m r" if "map_of (am_pairs s') m = Some r" for m r
  proof (cases "m = ?n")
    case True
    then show ?thesis using that simps tok named amm_okD(5) [OF ok fresh]
      by (auto simp: pool_ok_def pool_state_def p_eq InitPoolToken_def)
  next
    case False
    then have "pool_ok S s m r" using that simps ok by (simp add: amm_okD)
    then show ?thesis using False tok simps(3) by (auto simp: pool_ok_def pool_named_def)
  qed
  moreover have "am_supply S s' (PoolTokenPrefix @ m) = 0" if "map_of (am_pairs s') m = None" for m
    using that simps amm_okD(5) [OF ok, of m] by (auto split: if_splits)
  ultimately show "amm_ok S s'" using ok simps by (simp add: amm_ok_def kv_ok_set)
  have "reserve p d = 0" for d by (simp add: reserve_eq p_eq)
  then show "amm_gap S s' = amm_gap S s"
    using simps(1,3) fresh by (simp add: amm_gap_def kv_sum_set [OF amm_okD(1) [OF ok]] kv_val_def)
qed

end
