(* ===== verification/FarmCalc.thy ===== *)
theory FarmCalc
  imports Farm AmmLiquidity
begin

text \<open>
  The accounting of the reward periods: the laws of the coin functions the farm calls, the keys of
  the history, and the invariant \<open>acct\<close> of one pool. What all locks of a pool can still claim, computed from the
  ratios their reference periods recorded, is at most what the pool has accumulated; ending a period,
  paying a lock and changing its amount keep it so (\<open>acct_end\<close>, \<open>acct_pay\<close>).
\<close>

subsection \<open>Laws\<close>

definition coins_nn :: "coins \<Rightarrow> bool" where
  "coins_nn cs \<longleftrightarrow> coins_ok cs \<and> (\<forall>d. 0 \<le> amt cs d)"

text \<open>
  Dividing and multiplying a coin list truncates each amount and drops zero coins; a list made of
  one decimal has just that coin; \<open>IsAllLT\<close> holds only if some amount is smaller; a transfer between module accounts
  moves the coins, and the three module accounts of the farm have different addresses.
\<close>

definition farm_laws :: "'b sdk \<Rightarrow> coin_ext \<Rightarrow> 'b farm_fns \<Rightarrow> bool" where
  "farm_laws S X Y \<longleftrightarrow> swap_laws S X
     \<and> (\<forall>cs q r. coins_nn cs \<longrightarrow> 0 < q \<longrightarrow> y_quo Y cs q = Some r \<longrightarrow>
          coins_nn r \<and> (\<forall>d. amt r d = amt cs d * d_unit S div q))
     \<and> (\<forall>cs m r. coins_nn cs \<longrightarrow> 0 \<le> m \<longrightarrow> y_mul Y cs m = Some r \<longrightarrow>
          coins_nn r \<and> (\<forall>d. amt r d = amt cs d * m div d_unit S) \<and> (\<forall>c\<in>set r. 0 < snd c))
     \<and> (\<forall>d a cs. y_from_dec Y d a = Some cs \<longrightarrow> 0 \<le> a \<and> coins_nn cs \<and> (\<forall>d'. amt cs d' = amt [(d, a)] d'))
     \<and> (\<forall>a b. coins_nn a \<longrightarrow> coins_ok b \<longrightarrow> (\<forall>c\<in>set b. 0 < snd c) \<longrightarrow> y_all_lt Y a b \<longrightarrow> (\<exists>d. amt a d < amt b d))
     \<and> (\<forall>b m m' cs b'. y_mod_to_mod Y b m m' cs = Inr b' \<longrightarrow> moves S b (b_mod_addr S m) (b_mod_addr S m') cs b')
     \<and> distinct [b_mod_addr S farmModule, b_mod_addr S YieldFarmingAccount, b_mod_addr S MintFarmingAccount]"

lemma farm_lawsD:
  assumes "farm_laws S X Y"
  shows "swap_laws S X" and "sdk_laws S" and "0 < d_unit S"
    and "y_quo Y cs a = Some rs \<Longrightarrow> coins_nn cs \<Longrightarrow> 0 < a \<Longrightarrow> coins_nn rs \<and> (\<forall>d. amt rs d = amt cs d * d_unit S div a)"
    and "y_mul Y cs a = Some rs \<Longrightarrow> coins_nn cs \<Longrightarrow> 0 \<le> a \<Longrightarrow>
      coins_nn rs \<and> (\<forall>d. amt rs d = amt cs d * a div d_unit S) \<and> (\<forall>c\<in>set rs. 0 < snd c)"
    and "y_from_dec Y d a = Some cs \<Longrightarrow> 0 \<le> a \<and> coins_nn cs \<and> (\<forall>d'. amt cs d' = amt [(d, a)] d')"
    and "coins_nn cs \<Longrightarrow> coins_ok cs' \<Longrightarrow> (\<forall>c\<in>set cs'. 0 < snd c) \<Longrightarrow> y_all_lt Y cs cs' \<Longrightarrow> \<exists>d. amt cs d < amt cs' d"
    and "y_mod_to_mod Y bk m m' cs = Inr bk' \<Longrightarrow> moves S bk (b_mod_addr S m) (b_mod_addr S m') cs bk'"
    and "distinct [b_mod_addr S farmModule, b_mod_addr S YieldFarmingAccount, b_mod_addr S MintFarmingAccount]"
proof -
  show l: "swap_laws S X" using assms by (simp add: farm_laws_def)
  show "sdk_laws S" "0 < d_unit S" using swap_lawsD(1) [OF l] swap_laws_unit [OF l] .
qed (use assms [unfolded farm_laws_def] in \<open>(elim conjE; blast)+\<close>)

lemma coins_nn_Nil [simp]: "coins_nn []"
  by (simp add: coins_nn_def)

lemma coins_nn_add:
  assumes "sdk_laws S" and "coins_nn a" and "coins_nn b"
  shows "coins_nn (c_add2 S a b)" and "amt (c_add2 S a b) d = amt a d + amt b d"
  using coins_add2 [OF sdk_lawsD(2) [OF assms(1)]] assms(2,3) by (auto simp: coins_nn_def)

lemma coins_sub_Some:
  assumes "sdk_laws S" and "coins_ok a" and "coins_ok b" and "coins_sub S a b = Some c"
  shows "coins_nn c" and "amt c d = amt a d - amt b d"
proof -
  obtain neg where c: "c_safe_sub S a b = (c, neg)" "\<not> neg"
    using assms(4) by (auto simp: coins_sub_def split: prod.splits if_splits)
  note l = coins_safe_sub [OF sdk_lawsD(2) [OF assms(1)] assms(2,3)]
  show *: "amt c d = amt a d - amt b d" for d using l(2) [of d] c by simp
  show "coins_nn c" using l(1,3) c * by (auto simp: coins_nn_def not_less)
qed

lemma farm_panic_Inr [simp]: "farm_panic r = Inr a \<longleftrightarrow> r = Some a"
  by (simp add: farm_panic_def split: option.splits)

lemma farm_banked_Inr: "farm_banked s f r = Inr s' \<longleftrightarrow> (\<exists>b. r = Inr b \<and> s' = set_fm_bank b s)"
  by (auto simp: farm_banked_def split: sum.splits)

lemma set_fm_bank_simps [simp]:
  "fm_bank (set_fm_bank b s) = b" "fm_pools (set_fm_bank b s) = fm_pools s" "fm_locks (set_fm_bank b s) = fm_locks s"
  "fm_members (set_fm_bank b s) = fm_members s" "fm_white (set_fm_bank b s) = fm_white s"
  "fm_hist (set_fm_bank b s) = fm_hist s" "fm_cur (set_fm_bank b s) = fm_cur s" "fm_params (set_fm_bank b s) = fm_params s"
  by (simp_all add: set_fm_bank_def set_am_bank_def)

subsection \<open>Keys\<close>

lemma length_le_bytes [simp]: "length (le_bytes k n) = k"
  by (induction k arbitrary: n) simp_all

lemma le_value_bytes: "0 \<le> n \<Longrightarrow> n < 256 ^ k \<Longrightarrow> le_value (le_bytes k n) = n"
proof (induction k arbitrary: n)
  case (Suc k)
  have "n < 256 * x \<Longrightarrow> n div 256 < x" for x :: int
    using pos_mod_sign [of 256 n] div_mult_mod_eq [of n 256] by linarith
  then have "n div 256 < 256 ^ k" using Suc.prems by simp
  with Suc show ?case by simp
qed simp

definition period_ok :: "int \<Rightarrow> bool" where
  "period_ok p \<longleftrightarrow> 0 \<le> p \<and> p < 2 ^ 64"

lemma history_key_inj:
  assumes "period_ok p" and "period_ok q"
  shows "GetPoolHistoricalRewardsKey n p = GetPoolHistoricalRewardsKey m q \<longleftrightarrow> n = m \<and> p = q"
proof -
  have v: "le_value (le_bytes 8 x) = x" if "period_ok x" for x
    using that le_value_bytes [of x 8] by (simp add: period_ok_def)
  have "p = q" if "le_bytes 8 p = le_bytes 8 q"
    using arg_cong [OF that, of le_value] unfolding v [OF assms(1)] v [OF assms(2)] .
  then show ?thesis by (auto simp: GetPoolHistoricalRewardsKey_def)
qed

lemma period_before: "period_ok p \<Longrightarrow> 1 \<le> p \<Longrightarrow> period_before p = p - 1" "period_ok p \<Longrightarrow> 1 \<le> p \<Longrightarrow> period_ok (p - 1)"
  by (simp_all add: period_before_def period_ok_def)

subsection \<open>Sums\<close>

lemma kv_sum_mono:
  assumes "kv_ok m" and "\<And>k l. map_of m k = Some l \<Longrightarrow> f l \<le> g l"
  shows "kv_sum f m \<le> kv_sum g m"
  using assms kv_ok_distinct [OF assms(1)] unfolding kv_sum_def by (intro sum_list_mono) auto

lemma kv_sum_add: "kv_sum (\<lambda>l. f l + g l) m = kv_sum f m + kv_sum g m"
  by (induction m) (auto simp: kv_sum_def)

lemma kv_sum_scale: "kv_sum (\<lambda>l. f l * c) m = kv_sum f m * c"
  by (induction m) (auto simp: kv_sum_def distrib_right)

lemma kv_sum_nonneg:
  assumes "kv_ok m" and "\<And>k l. map_of m k = Some l \<Longrightarrow> 0 \<le> f l"
  shows "0 \<le> kv_sum f m"
  using kv_sum_mono [OF assms(1), of "\<lambda>_. 0" f] assms(2) by (simp add: kv_sum_def)

lemma kv_sum_ge:
  assumes "kv_ok m" and "\<And>k l. map_of m k = Some l \<Longrightarrow> 0 \<le> f l" and "map_of m k = Some l"
  shows "f l \<le> kv_sum f m"
proof -
  have "0 \<le> kv_sum f (kv_del k m)"
    by (rule kv_sum_nonneg [OF kv_ok_del [OF assms(1)]]) (use assms(2) in \<open>simp split: if_splits\<close>)
  then show ?thesis using assms(3) by (simp add: kv_sum_del [OF assms(1)] kv_val_def)
qed

subsection \<open>Claims\<close>

text \<open>The reward ratio a pool recorded at the end of a period.\<close>

definition ratio :: "'b farm \<Rightarrow> string \<Rightarrow> int \<Rightarrow> coins option" where
  "ratio s n p =
     (if period_ok p then map_option ph_Ratio (map_of (fm_hist s) (GetPoolHistoricalRewardsKey n p)) else None)"

text \<open>What a lock can claim, in units, when the pool's ratio is \<open>H\<close>; nothing if its reference is gone.\<close>

definition claim :: "(int \<Rightarrow> coins option) \<Rightarrow> string \<Rightarrow> coins \<Rightarrow> denom \<Rightarrow> lock_info \<Rightarrow> int" where
  "claim rt n H d l =
     (if li_PoolName l = n
      then (case rt (li_Period l) of None \<Rightarrow> 0 | Some r \<Rightarrow> snd (li_Amount l) * (amt H d - amt r d)) else 0)"

definition in_pool :: "string \<Rightarrow> lock_info \<Rightarrow> int" where
  "in_pool n l = (if li_PoolName l = n then snd (li_Amount l) else 0)"

type_synonym locks = "(addr \<times> string, lock_info) kv"

text \<open>
  The accounts of one pool: the ratios are coin lists, the locks of the pool refer to ended periods with
  smaller ratios, and what they can claim together is covered by the accumulated rewards \<open>A\<close> without the
  rewards \<open>R\<close> of the current period.
\<close>

definition lock_ref :: "(int \<Rightarrow> coins option) \<Rightarrow> string \<Rightarrow> int \<Rightarrow> lock_info \<Rightarrow> bool" where
  "lock_ref rt n p l \<longleftrightarrow> li_PoolName l = n \<longrightarrow> 0 \<le> li_Period l \<and> li_Period l < p \<and> 0 < snd (li_Amount l)
     \<and> (\<forall>r H d. rt (li_Period l) = Some r \<longrightarrow> rt (p - 1) = Some H \<longrightarrow> amt r d \<le> amt H d)"

definition acct ::
  "int \<Rightarrow> (int \<Rightarrow> coins option) \<Rightarrow> locks \<Rightarrow> string \<Rightarrow> int \<Rightarrow> (denom \<Rightarrow> int) \<Rightarrow> (denom \<Rightarrow> int) \<Rightarrow> bool" where
  "acct u rt ls n p A R \<longleftrightarrow> (\<forall>q r. q < p \<longrightarrow> rt q = Some r \<longrightarrow> coins_nn r)
     \<and> (\<forall>k l. map_of ls k = Some l \<longrightarrow> lock_ref rt n p l)
     \<and> (\<forall>H d. rt (p - 1) = Some H \<longrightarrow> kv_sum (claim rt n H d) ls \<le> u * (A d - R d))
     \<and> (\<forall>d. 0 \<le> R d \<and> R d \<le> A d)"

lemma acctD:
  assumes "acct u rt ls n p A R"
  shows "rt q = Some r \<Longrightarrow> q < p \<Longrightarrow> coins_nn r" and "map_of ls k = Some l \<Longrightarrow> lock_ref rt n p l"
    and "rt (p - 1) = Some H \<Longrightarrow> kv_sum (claim rt n H d) ls \<le> u * (A d - R d)" and "0 \<le> R d" and "R d \<le> A d"
  using assms unfolding acct_def by blast+

lemma claim_nonneg:
  assumes "lock_ref rt n p l" and "rt (p - 1) = Some H"
  shows "0 \<le> claim rt n H d l"
  using assms by (auto simp: claim_def lock_ref_def split: option.splits)

text \<open>Forgetting ratios only forgets claims.\<close>

lemma acct_mono:
  assumes "acct u rt ls n p A R" and sub: "rt' \<subseteq>\<^sub>m rt" and "kv_ok ls"
  shows "acct u rt' ls n p A R"
proof -
  have keep: "rt q = Some r" if "rt' q = Some r" for q r using sub that by (auto simp: map_le_def dom_def)
  have "kv_sum (claim rt' n H d) ls \<le> u * (A d - R d)" if H: "rt' (p - 1) = Some H" for H d
  proof -
    have "claim rt' n H d l \<le> claim rt n H d l" if "map_of ls k = Some l" for k l
      using claim_nonneg [OF acctD(2) [OF assms(1) that] keep [OF H], of d] keep
      by (auto simp: claim_def split: option.splits)
    then have "kv_sum (claim rt' n H d) ls \<le> kv_sum (claim rt n H d) ls" using kv_sum_mono [OF assms(3)] by blast
    then show ?thesis using acctD(3) [OF assms(1) keep [OF H], of d] by simp
  qed
  moreover have "lock_ref rt' n p l" if "map_of ls k = Some l" for k l
    using acctD(2) [OF assms(1) that] keep by (simp add: lock_ref_def)
  ultimately show ?thesis using keep acctD(1,4,5) [OF assms(1)] unfolding acct_def by blast
qed

text \<open>Ending a period turns the current rewards into claims.\<close>

lemma acct_end:
  assumes "acct u rt ls n p A R" and "kv_ok ls" and H: "rt (p - 1) = Some H"
    and q: "\<And>d. 0 \<le> q d" "\<And>d. kv_sum (in_pool n) ls * q d \<le> u * (R d + y d)" and y: "\<And>d. 0 \<le> y d"
    and H': "rt' p = Some H'" "coins_nn H'" "\<And>d. amt H' d = amt H d + q d"
    and old: "\<And>x. x \<noteq> p \<Longrightarrow> rt' x = None \<or> rt' x = rt x"
  shows "acct u rt' ls n (p + 1) (\<lambda>d. A d + y d) (\<lambda>_. 0)"
proof -
  have old': "rt x = Some r" if "rt' x = Some r" "x < p" for x r using old [of x] that by auto
  have ref: "lock_ref rt n p l" if "map_of ls k = Some l" for k l by (rule acctD(2) [OF assms(1) that])
  have "kv_sum (claim rt' n H' d) ls \<le> u * (A d + y d)" for d
  proof -
    have "claim rt' n H' d l \<le> claim rt n H d l + in_pool n l * q d" if "map_of ls k = Some l" for k l
    proof (cases "li_PoolName l = n")
      case True
      then have l: "li_Period l < p" "0 < snd (li_Amount l)" using ref [OF that] by (simp_all add: lock_ref_def)
      show ?thesis
        using True l old' [OF _ l(1)] claim_nonneg [OF ref [OF that] H, of d] q(1) [of d]
        by (auto simp: claim_def in_pool_def H'(3) algebra_simps split: option.splits)
    qed (simp add: claim_def in_pool_def)
    then have "kv_sum (claim rt' n H' d) ls \<le> kv_sum (\<lambda>l. claim rt n H d l + in_pool n l * q d) ls"
      by (rule kv_sum_mono [OF assms(2)])
    also have "\<dots> = kv_sum (claim rt n H d) ls + kv_sum (in_pool n) ls * q d" by (simp add: kv_sum_add kv_sum_scale)
    also have "\<dots> \<le> u * (A d - R d) + u * (R d + y d)"
      using acctD(3) [OF assms(1) H, of d] q(2) [of d] by (rule add_mono)
    finally show ?thesis by (simp add: algebra_simps)
  qed
  moreover have "lock_ref rt' n (p + 1) l" if "map_of ls k = Some l" for k l
    using ref [OF that] old' H H' q(1) unfolding lock_ref_def by (fastforce intro: order_trans)
  moreover have "coins_nn r" if "rt' x = Some r" "x < p + 1" for x r
    using acctD(1) [OF assms(1)] old [of x] H' that by (cases "x = p") auto
  moreover have "0 \<le> A d + y d" for d using acctD(4) [OF assms(1), of d] acctD(5) [OF assms(1), of d] y [of d] by simp
  ultimately show ?thesis using H' unfolding acct_def by simp
qed

text \<open>A claim is covered by what the pool has accumulated.\<close>

lemma acct_covers:
  assumes "acct u rt ls n p A (\<lambda>_. 0)" and "kv_ok ls" and "0 < u" and "rt (p - 1) = Some H"
    and "map_of ls k = Some l" and "u * w \<le> claim rt n H d l"
  shows "w \<le> A d"
proof -
  have "claim rt n H d l \<le> kv_sum (claim rt n H d) ls"
    using claim_nonneg [OF acctD(2) [OF assms(1)] assms(4)] by (intro kv_sum_ge [OF assms(2) _ assms(5)])
  then have "u * w \<le> u * A d" using acctD(3) [OF assms(1,4), of d] assms(6) by simp
  then show ?thesis using assms(3) by simp
qed

text \<open>Changing the locks of a pool: one is set to the period just ended or removed, after its claim \<open>w\<close> was paid.\<close>

definition lock_update :: "locks \<Rightarrow> addr \<Rightarrow> string \<Rightarrow> locks \<Rightarrow> bool" where
  "lock_update ls a n ls' \<longleftrightarrow> ls' = kv_del (a, n) ls
     \<or> (\<exists>l. ls' = kv_set (a, n) l ls \<and> li_Owner l = a \<and> li_PoolName l = n \<and> 0 < snd (li_Amount l))"

definition locks_named :: "locks \<Rightarrow> bool" where
  "locks_named ls \<longleftrightarrow> kv_ok ls \<and> (\<forall>a n l. map_of ls (a, n) = Some l \<longrightarrow>
     li_Owner l = a \<and> li_PoolName l = n \<and> 0 < snd (li_Amount l))"

lemma locks_namedD:
  "locks_named ls \<Longrightarrow> kv_ok ls"
  "locks_named ls \<Longrightarrow> map_of ls (a, n) = Some l \<Longrightarrow> li_Owner l = a \<and> li_PoolName l = n \<and> 0 < snd (li_Amount l)"
  by (simp_all add: locks_named_def)

lemma lock_update_named: "locks_named ls \<Longrightarrow> lock_update ls a n ls' \<Longrightarrow> locks_named ls'"
  by (auto simp: locks_named_def lock_update_def kv_ok_set kv_ok_del split: if_splits)

text \<open>Sums that do not see the pool do not change.\<close>

lemma lock_update_sum:
  assumes "locks_named ls" and "lock_update ls a n ls'" and "\<And>l. li_PoolName l = n \<Longrightarrow> f l = 0"
  shows "kv_sum f ls' = kv_sum f ls"
  using assms locks_namedD(2) [OF assms(1)]
  by (auto simp: lock_update_def kv_sum_set [OF locks_namedD(1)] kv_sum_del [OF locks_namedD(1)] kv_val_def split: option.splits)

lemma acct_other:
  assumes "acct u rt ls m p A R" and "locks_named ls" and "lock_update ls a n ls'" and "m \<noteq> n"
  shows "acct u rt ls' m p A R"
proof -
  have "kv_sum (claim rt m H d) ls' = kv_sum (claim rt m H d) ls" for H d
    using assms(4) by (intro lock_update_sum [OF assms(2,3)]) (simp add: claim_def)
  moreover have "lock_ref rt m p l" if "map_of ls' k = Some l" for k l
  proof (cases "map_of ls k = Some l")
    case False
    then have "li_PoolName l = n" using that assms(3) by (auto simp: lock_update_def split: if_splits)
    then show ?thesis using assms(4) by (simp add: lock_ref_def)
  qed (rule acctD(2) [OF assms(1)])
  ultimately show ?thesis using assms(1) unfolding acct_def by simp
qed

lemma acct_pay:
  assumes "acct u rt ls n p A (\<lambda>_. 0)" and "locks_named ls" and "0 < u" and H: "rt (p - 1) = Some H" and "0 < p"
    and w: "\<And>d. u * w d \<le> (case map_of ls (a, n) of None \<Rightarrow> 0 | Some l \<Rightarrow> claim rt n H d l)"
    and upd: "lock_update ls a n ls'" and per: "\<And>l. map_of ls' (a, n) = Some l \<Longrightarrow> li_Period l = p - 1"
  shows "acct u rt ls' n p (\<lambda>d. A d - w d) (\<lambda>_. 0)"
proof -
  note ok = locks_namedD(1) [OF assms(2)]
  have le: "w d \<le> A d" for d
  proof (cases "map_of ls (a, n)")
    case None
    then have "u * w d \<le> 0" using w [of d] by simp
    then show ?thesis using assms(3) acctD(5) [OF assms(1), of d] by (simp add: mult_le_0_iff)
  next
    case (Some l)
    then show ?thesis using acct_covers [OF assms(1) ok assms(3) H Some] w [of d] by simp
  qed
  have "kv_sum (claim rt n H d) ls' \<le> u * (A d - w d)" for d
  proof -
    have zero: "claim rt n H d l = 0" if "li_Period l = p - 1" for l using that H by (simp add: claim_def)
    have "kv_sum (claim rt n H d) ls' = kv_sum (claim rt n H d) ls - kv_val (claim rt n H d) ls (a, n)"
      using upd per zero by (auto simp: lock_update_def kv_sum_set [OF ok] kv_sum_del [OF ok])
    also have "\<dots> \<le> u * A d - u * w d"
      using acctD(3) [OF assms(1) H, of d] w [of d] by (simp add: kv_val_def)
    finally show ?thesis by (simp add: right_diff_distrib)
  qed
  moreover have "lock_ref rt n p l" if "map_of ls' k = Some l" for k l
  proof (cases "k = (a, n)")
    case True
    then have "li_Period l = p - 1" "0 < snd (li_Amount l)"
      using per that locks_namedD(2) [OF lock_update_named [OF assms(2) upd]] by (auto simp del: map_of_kv_set)
    then show ?thesis using H assms(5) by (simp add: lock_ref_def)
  next
    case False
    then have "map_of ls k = Some l" using that upd by (auto simp: lock_update_def)
    then show ?thesis by (rule acctD(2) [OF assms(1)])
  qed
  ultimately show ?thesis using acctD(1) [OF assms(1)] H le unfolding acct_def by auto
qed

lemma acct_reward:
  assumes "acct u rt ls n p A R" and "\<And>d. 0 \<le> c d"
  shows "acct u rt ls n p (\<lambda>d. A d + c d) (\<lambda>d. R d + c d)"
  using assms unfolding acct_def by (simp add: add_increasing2)

end
