(* ===== verification/FarmSteps.thy ===== *)
theory FarmSteps
  imports FarmCalc
begin

text \<open>
  What the operations of the farm keeper do to the accounts of a pool: the yield of the
  provided tokens, the end of a period, the payment of a lock and the change of its amount.
\<close>

subsection \<open>Yield\<close>

definition yields_ok :: "yield_info list \<Rightarrow> bool" where
  "yields_ok ys \<longleftrightarrow> (\<forall>y\<in>set ys. 0 \<le> snd (yi_Remaining y) \<and> 0 \<le> yi_PerBlock y)"

definition yet :: "yield_info list \<Rightarrow> denom \<Rightarrow> dec" where
  "yet ys d = sum_list (map (\<lambda>y. amt [yi_Remaining y] d) ys)"

lemma yields_ok_simps [simp]:
  "yields_ok []" "yields_ok (y # ys) \<longleftrightarrow> 0 \<le> snd (yi_Remaining y) \<and> 0 \<le> yi_PerBlock y \<and> yields_ok ys"
  by (auto simp: yields_ok_def)

lemma yet_simps [simp]: "yet [] d = 0" "yet (y # ys) d = amt [yi_Remaining y] d + yet ys d"
  by (simp_all add: yet_def)

lemma yet_nonneg: "yields_ok ys \<Longrightarrow> 0 \<le> yet ys d"
  by (induction ys) (auto simp: amt_pair)

definition yield_split ::
  "yield_info list \<Rightarrow> coins \<Rightarrow> coins \<Rightarrow> yield_info list \<Rightarrow> coins \<Rightarrow> coins \<Rightarrow> bool" where
  "yield_split ys acc tot ys' acc' tot' \<longleftrightarrow> yields_ok ys' \<and> length ys' = length ys \<and> coins_nn acc' \<and> coins_nn tot'
     \<and> (\<forall>d. amt acc' d = amt acc d + (yet ys d - yet ys' d) \<and> amt tot' d = amt tot d + (yet ys d - yet ys' d))"

lemma yield_loop_ok:
  assumes laws: "farm_laws S X Y"
  shows "yield_loop S X Y p h ys acc tot = Inr (ys', acc', tot') \<Longrightarrow> yields_ok ys \<Longrightarrow> coins_nn acc \<Longrightarrow> coins_nn tot \<Longrightarrow>
    yield_split ys acc tot ys' acc' tot'"
proof (induction ys arbitrary: acc tot ys')
  case (Cons y ys)
  let ?start = "if p \<le> yi_StartHeight y then yi_StartHeight y else p"
  note sdk = farm_lawsD(2) [OF laws]
  show ?case
  proof (cases "yi_StartHeight y = 0 \<or> h \<le> ?start")
    case True
    then obtain zs where "yield_loop S X Y p h ys acc tot = Inr (zs, acc', tot')" "ys' = y # zs"
      using Cons.prems(1) by (auto simp: rbind_Inr_iff Let_def)
    then show ?thesis using Cons.IH [of acc tot zs] Cons.prems(2-4) by (simp add: yield_split_def)
  next
    case False
    then obtain amount y' yielded zs
      where m: "x_mulT X ((h - ?start) * d_unit S) (yi_PerBlock y) = Some amount"
        and y': "(if amount < snd (yi_Remaining y)
                  then
                    rbind (farm_panic (y_from_dec Y (fst (yi_Remaining y)) amount)) (\<lambda>yielded.
                    Inr (y\<lparr>yi_Remaining := (fst (yi_Remaining y), snd (yi_Remaining y) - amount)\<rparr>, yielded))
                  else
                    rbind (farm_panic (x_new_coin X (fst (yi_Remaining y)) 0)) (\<lambda>zero.
                    rbind (farm_panic (y_from_dec Y (fst (yi_Remaining y)) (snd (yi_Remaining y)))) (\<lambda>yielded.
                    Inr (\<lparr>yi_Remaining = zero, yi_StartHeight = 0, yi_PerBlock = 0\<rparr>, yielded))))
              = Inr (y', yielded)"
        and r: "yield_loop S X Y p h ys (c_add2 S acc yielded) (c_add2 S tot yielded) = Inr (zs, acc', tot')"
        and ys': "ys' = y' # zs"
      using Cons.prems(1) by (auto simp: rbind_Inr_iff Let_def)
    have "0 \<le> amount"
      using swap_lawsD(2) [OF farm_lawsD(1) [OF laws] m] False Cons.prems(2) farm_lawsD(3) [OF laws]
      by (simp add: pos_imp_zdiv_nonneg_iff)
    then have y: "0 \<le> snd (yi_Remaining y') \<and> 0 \<le> yi_PerBlock y' \<and> coins_nn yielded
      \<and> (\<forall>d. amt yielded d = amt [yi_Remaining y] d - amt [yi_Remaining y'] d)"
      using y' Cons.prems(2)
      by (auto simp: rbind_Inr_iff amt_pair dest!: farm_lawsD(6) [OF laws] swap_lawsD(5) [OF farm_lawsD(1) [OF laws]]
          split: if_splits)
    have nn: "coins_nn (c_add2 S acc yielded)" "coins_nn (c_add2 S tot yielded)"
      using coins_nn_add(1) [OF sdk] Cons.prems(3,4) y by blast+
    have eq: "amt (c_add2 S acc yielded) d = amt acc d + amt yielded d"
      "amt (c_add2 S tot yielded) d = amt tot d + amt yielded d" for d
      using coins_nn_add(2) [OF sdk] Cons.prems(3,4) y by blast+
    from Cons.IH [OF r _ nn] Cons.prems(2) y show ?thesis
      by (auto simp: yield_split_def ys' eq)
  qed
qed (auto simp: yield_split_def)

lemma CalculateAmountYieldedBetween_ok:
  assumes "farm_laws S X Y" and "CalculateAmountYieldedBetween S X Y e s pool = Inr (up, y)"
    and "yields_ok (fp_Yields pool)" and "coins_nn (fp_Accumulated pool)"
  obtains ys acc where "up = pool\<lparr>fp_Yields := ys, fp_Accumulated := acc\<rparr>" and "coins_nn y" and "coins_nn acc"
    and "yields_ok ys" and "length ys = length (fp_Yields pool)" and "\<And>d. amt acc d = amt (fp_Accumulated pool) d + amt y d"
    and "\<And>d. amt acc d + yet ys d = amt (fp_Accumulated pool) d + yet (fp_Yields pool) d"
proof -
  obtain c :: pool_current and r where r: "yield_loop S X Y (pc_StartHeight c) (e_Height e) (fp_Yields pool) (fp_Accumulated pool) [] = Inr r"
    "(case r of (ys, acc, tot) \<Rightarrow> Inr (pool\<lparr>fp_Yields := ys, fp_Accumulated := acc\<rparr>, tot)) = (Inr (up, y) :: farm_error + farm_pool \<times> coins)"
    using assms(2) unfolding CalculateAmountYieldedBetween_def rbind_Inr_iff by blast
  obtain ys acc where "r = (ys, acc, y)" "up = pool\<lparr>fp_Yields := ys, fp_Accumulated := acc\<rparr>"
    using r(2) by (cases r) simp
  with yield_loop_ok [OF assms(1) r(1) [unfolded this] assms(3,4)] show ?thesis
    by (intro that [of acc ys]) (simp_all add: yield_split_def)
qed

subsection \<open>History\<close>

lemma ratio_cong: "fm_hist s' = fm_hist s \<Longrightarrow> ratio s' = ratio s"
  by (intro ext) (simp add: ratio_def)

lemma ratio_frame [simp]:
  "ratio (SetPoolCurrentRewards n c s) = ratio s" "ratio (SetFarmPool pool s) = ratio s" "ratio (set_fm_bank b s) = ratio s"
  "ratio (SetLockInfo l s) = ratio s" "ratio (DeleteLockInfo a n s) = ratio s" "ratio (OnClaim a n cs s) = ratio s"
  "ratio (SetAddressInFarmPool n a s) = ratio s" "ratio (DeleteAddressInFarmPool n a s) = ratio s"
  by (rule ratio_cong; simp add: SetPoolCurrentRewards_def SetFarmPool_def set_fm_bank_def SetLockInfo_def DeleteLockInfo_def
      OnClaim_def SetAddressInFarmPool_def DeleteAddressInFarmPool_def)+

lemma ratio_get: "GetPoolHistoricalRewards s n p = Inr h \<Longrightarrow> period_ok p \<Longrightarrow> ratio s n p = Some (ph_Ratio h)"
  by (simp add: GetPoolHistoricalRewards_def ratio_def)

lemma ratio_set:
  "period_ok p \<Longrightarrow> ratio (SetPoolHistoricalRewards n p h s) m x = (if m = n \<and> x = p then Some (ph_Ratio h) else ratio s m x)"
  by (simp add: ratio_def SetPoolHistoricalRewards_def history_key_inj)

lemma ratio_del:
  "period_ok p \<Longrightarrow> ratio (DeletePoolHistoricalReward n p s) m x = (if m = n \<and> x = p then None else ratio s m x)"
  by (simp add: ratio_def DeletePoolHistoricalReward_def history_key_inj)

text \<open>Reference counts: at most the entry of the period itself is dropped.\<close>

definition forgets :: "'b farm \<Rightarrow> string \<Rightarrow> int \<Rightarrow> 'b farm \<Rightarrow> bool" where
  "forgets s n p s' \<longleftrightarrow> (\<exists>h. s' = s\<lparr>fm_hist := h\<rparr>)
     \<and> (\<forall>m x. ratio s' m x = ratio s m x \<or> m = n \<and> x = p \<and> ratio s' m x = None)"

lemma decrement_forgets:
  assumes "decrementReferenceCount n p s = Inr s'" and p: "period_ok p"
  shows "forgets s n p s'"
proof -
  obtain h where h: "GetPoolHistoricalRewards s n p = Inr h"
    and s': "s' = DeletePoolHistoricalReward n p s \<or> s' = SetPoolHistoricalRewards n p (h\<lparr>ph_Count := ph_Count h - 1\<rparr>) s"
    using assms(1) by (auto simp: decrementReferenceCount_def rbind_Inr_iff split: if_splits)
  from s' show ?thesis
  proof
    assume "s' = DeletePoolHistoricalReward n p s"
    then show ?thesis by (simp add: forgets_def ratio_del [OF p]) (simp add: DeletePoolHistoricalReward_def, blast)
  next
    assume "s' = SetPoolHistoricalRewards n p (h\<lparr>ph_Count := ph_Count h - 1\<rparr>) s"
    then show ?thesis using ratio_get [OF h p]
      by (simp add: forgets_def ratio_set [OF p]) (simp add: SetPoolHistoricalRewards_def, blast)
  qed
qed

lemma increment_keeps:
  assumes "incrementReferenceCount n p s = Inr s'" and p: "period_ok p"
  shows "\<exists>h. s' = s\<lparr>fm_hist := h\<rparr>" and "ratio s' = ratio s"
proof -
  obtain h where h: "GetPoolHistoricalRewards s n p = Inr h"
    and s': "s' = SetPoolHistoricalRewards n p (h\<lparr>ph_Count := ph_Count h + 1\<rparr>) s"
    using assms(1) by (auto simp: incrementReferenceCount_def rbind_Inr_iff split: if_splits)
  show "\<exists>h. s' = s\<lparr>fm_hist := h\<rparr>" using s' by (auto simp: SetPoolHistoricalRewards_def)
  show "ratio s' = ratio s" using s' ratio_get [OF h p] by (intro ext) (simp add: ratio_set [OF p])
qed

subsection \<open>The end of a period\<close>

lemma IncrementPoolPeriod_ok:
  assumes laws: "farm_laws S X Y" and c: "map_of (fm_cur s) n = Some c" "coins_nn (pc_Rewards c)" "coins_nn y"
    and p: "1 \<le> pc_Period c" "pc_Period c < 2 ^ 64 - 1" and T: "0 \<le> snd T"
    and nn: "\<And>r. ratio s n (pc_Period c - 1) = Some r \<Longrightarrow> coins_nn r"
    and inc: "IncrementPoolPeriod S Y e n T y s = Inr (ep, s1)"
  obtains h1 c1 H H' q where "s1 = s\<lparr>fm_hist := h1, fm_cur := kv_set n c1 (fm_cur s)\<rparr>" and "ep = pc_Period c"
    and "pc_Period c1 = pc_Period c + 1" and "pc_Rewards c1 = []"
    and "ratio s n (ep - 1) = Some H" and "ratio s1 n ep = Some H'" and "coins_nn H'"
    and "\<And>d. amt H' d = amt H d + q d" and "\<And>d. 0 \<le> q d"
    and "\<And>d. snd T * q d \<le> d_unit S * (amt (pc_Rewards c) d + amt y d)"
    and "\<And>x. x \<noteq> ep \<Longrightarrow> ratio s1 n x = None \<or> ratio s1 n x = ratio s n x" and "\<And>m. m \<noteq> n \<Longrightarrow> ratio s1 m = ratio s m"
proof -
  note sdk = farm_lawsD(2) [OF laws] and u = farm_lawsD(3) [OF laws]
  have pok: "period_ok (pc_Period c)" using p by (simp add: period_ok_def)
  note pb = period_before [OF pok p(1)]
  let ?R = "c_add2 S (pc_Rewards c) y"
  let ?c1 = "\<lparr>pc_StartHeight = e_Height e, pc_Period = (pc_Period c + 1) mod 2 ^ 64, pc_Rewards = []\<rparr>"
  have R: "coins_nn ?R" "\<And>d. amt ?R d = amt (pc_Rewards c) d + amt y d" using coins_nn_add [OF sdk c(2,3)] by auto
  obtain cr h s2 where cr: "(if snd T = 0 then Inr [] else farm_panic (y_quo Y ?R (snd T))) = Inr cr"
    and h: "GetPoolHistoricalRewards s n (pc_Period c - 1) = Inr h"
    and s2: "decrementReferenceCount n (pc_Period c - 1) s = Inr s2"
    and ep: "ep = pc_Period c"
    and s1: "s1 = SetPoolCurrentRewards n ?c1
      (SetPoolHistoricalRewards n (pc_Period c) \<lparr>ph_Ratio = c_add2 S (ph_Ratio h) cr, ph_Count = 1\<rparr> s2)"
    using inc c(1) by (auto simp: IncrementPoolPeriod_def rbind_Inr_iff GetPoolCurrentRewards_def Let_def pb(1))
  have q: "coins_nn cr" "0 \<le> amt cr d" "snd T * amt cr d \<le> d_unit S * (amt (pc_Rewards c) d + amt y d)" for d
  proof -
    have "coins_nn cr \<and> snd T * amt cr d \<le> d_unit S * amt ?R d"
    proof (cases "snd T = 0")
      case True
      then show ?thesis using cr u R(1) by (simp add: coins_nn_def)
    next
      case False
      then have "coins_nn cr \<and> (\<forall>d. amt cr d = amt ?R d * d_unit S div snd T)"
        using cr T R(1) farm_lawsD(4) [OF laws, of ?R "snd T" cr] by simp
      then show ?thesis using T False pos_mod_sign [of "snd T" "amt ?R d * d_unit S"]
        by (simp add: minus_mod_eq_mult_div [symmetric] mult.commute)
    qed
    then show "coins_nn cr" "0 \<le> amt cr d" "snd T * amt cr d \<le> d_unit S * (amt (pc_Rewards c) d + amt y d)"
      using R(2) by (simp_all add: coins_nn_def)
  qed
  note H = ratio_get [OF h pb(2)]
  note H' = coins_nn_add [OF sdk nn [OF H] q(1)]
  note f = decrement_forgets [OF s2 pb(2)]
  obtain h2 where h2: "s2 = s\<lparr>fm_hist := h2\<rparr>" using f by (auto simp: forgets_def)
  have r1: "ratio s1 m x = (if m = n \<and> x = pc_Period c then Some (c_add2 S (ph_Ratio h) cr) else ratio s2 m x)" for m x
    by (simp add: s1 ratio_set [OF pok])
  show ?thesis
  proof (rule that)
    show "s1 = s\<lparr>fm_hist := kv_set (GetPoolHistoricalRewardsKey n (pc_Period c))
        \<lparr>ph_Ratio = c_add2 S (ph_Ratio h) cr, ph_Count = 1\<rparr> h2, fm_cur := kv_set n ?c1 (fm_cur s)\<rparr>"
      by (simp add: s1 h2 SetPoolCurrentRewards_def SetPoolHistoricalRewards_def)
    show "ratio s n (ep - 1) = Some (ph_Ratio h)" using H ep by simp
    show "ratio s1 n ep = Some (c_add2 S (ph_Ratio h) cr)" using r1 ep by simp
    show "ratio s1 m = ratio s m" if "m \<noteq> n" for m using that r1 f by (intro ext) (auto simp: forgets_def)
    show "ratio s1 n x = None \<or> ratio s1 n x = ratio s n x" if "x \<noteq> ep" for x
      using that r1 f ep by (auto simp: forgets_def)
  qed (use ep H' q p in simp_all)
qed

subsection \<open>The invariant\<close>

definition pool_good :: "'b sdk \<Rightarrow> 'b farm \<Rightarrow> string \<Rightarrow> farm_pool \<Rightarrow> bool" where
  "pool_good S s n pool \<longleftrightarrow> fp_Name pool = n \<and> 0 \<le> snd (fp_DepositAmount pool)
     \<and> fst (fp_TotalValueLocked pool) = fst (fp_MinLockAmount pool)
     \<and> snd (fp_TotalValueLocked pool) = kv_sum (in_pool n) (fm_locks s)
     \<and> yields_ok (fp_Yields pool) \<and> coins_nn (fp_Accumulated pool)
     \<and> (\<exists>c. map_of (fm_cur s) n = Some c \<and> period_ok (pc_Period c) \<and> 1 \<le> pc_Period c \<and> coins_nn (pc_Rewards c)
          \<and> acct (d_unit S) (ratio s n) (fm_locks s) n (pc_Period c) (amt (fp_Accumulated pool)) (amt (pc_Rewards c)))"

definition lock_pool :: "'b farm \<Rightarrow> bool" where
  "lock_pool s \<longleftrightarrow> (\<forall>a n l. map_of (fm_locks s) (a, n) = Some l \<longrightarrow>
     (\<exists>pool. map_of (fm_pools s) n = Some pool \<and> fst (li_Amount l) = fst (fp_MinLockAmount pool)))"

definition farm_ok :: "'b sdk \<Rightarrow> 'b farm \<Rightarrow> bool" where
  "farm_ok S s \<longleftrightarrow> locks_named (fm_locks s) \<and> kv_ok (fm_pools s) \<and> kv_ok (fm_white s) \<and> lock_pool s
     \<and> 0 \<le> snd (fpa_CreatePoolDeposit (fm_params s))
     \<and> (\<forall>n pool. map_of (fm_pools s) n = Some pool \<longrightarrow> pool_good S s n pool)"

lemma farm_okD:
  assumes "farm_ok S s"
  shows "locks_named (fm_locks s)" and "kv_ok (fm_pools s)" and "kv_ok (fm_locks s)"
    and "0 \<le> snd (fpa_CreatePoolDeposit (fm_params s))" and "map_of (fm_pools s) n = Some pool \<Longrightarrow> pool_good S s n pool"
    and "map_of (fm_locks s) (a, n) = Some l \<Longrightarrow> map_of (fm_pools s) n = Some pool \<Longrightarrow>
      fst (li_Amount l) = fst (fp_MinLockAmount pool)"
    and "lock_pool s" and "kv_ok (fm_white s)"
  using assms locks_namedD(1) by (auto simp: farm_ok_def lock_pool_def) fastforce

text \<open>The period counters are far from their bound.\<close>

definition periods_left :: "'b farm \<Rightarrow> bool" where
  "periods_left s \<longleftrightarrow> (\<forall>n c. map_of (fm_cur s) n = Some c \<longrightarrow> pc_Period c < 2 ^ 64 - 1)"

text \<open>The state after the current period of a pool has ended: \<open>up\<close> is the pool with what it yielded.\<close>

definition period_ended :: "'b sdk \<Rightarrow> 'b farm \<Rightarrow> string \<Rightarrow> farm_pool \<Rightarrow> int \<Rightarrow> farm_pool \<Rightarrow> coins \<Rightarrow> 'b farm \<Rightarrow> bool" where
  "period_ended S s n pool ep up H s1 \<longleftrightarrow> (\<exists>h1 c1 ys acc.
     s1 = s\<lparr>fm_hist := h1, fm_cur := kv_set n c1 (fm_cur s)\<rparr>
     \<and> 1 \<le> ep \<and> pc_Period c1 = ep + 1 \<and> period_ok (ep + 1) \<and> pc_Rewards c1 = []
     \<and> ratio s1 n ep = Some H \<and> (\<forall>m. m \<noteq> n \<longrightarrow> ratio s1 m = ratio s m)
     \<and> (\<forall>a l. map_of (fm_locks s) (a, n) = Some l \<longrightarrow> li_Period l < ep)
     \<and> up = pool\<lparr>fp_Yields := ys, fp_Accumulated := acc\<rparr> \<and> coins_nn acc \<and> yields_ok ys \<and> length ys = length (fp_Yields pool)
     \<and> (\<forall>d. amt acc d + yet ys d = amt (fp_Accumulated pool) d + yet (fp_Yields pool) d)
     \<and> acct (d_unit S) (ratio s1 n) (fm_locks s) n (ep + 1) (amt acc) (\<lambda>_. 0))"

lemma end_period:
  assumes laws: "farm_laws S X Y" and ok: "farm_ok S s" and pool: "map_of (fm_pools s) n = Some pool" and left: "periods_left s"
    and y: "CalculateAmountYieldedBetween S X Y e s pool = Inr (up, y)"
    and inc: "IncrementPoolPeriod S Y e n (fp_TotalValueLocked pool) y s = Inr (ep, s1)"
  obtains H where "period_ended S s n pool ep up H s1"
proof -
  note g = farm_okD(5) [OF ok pool, unfolded pool_good_def]
  obtain c where c: "map_of (fm_cur s) n = Some c" "period_ok (pc_Period c)" "1 \<le> pc_Period c" "coins_nn (pc_Rewards c)"
    and ac: "acct (d_unit S) (ratio s n) (fm_locks s) n (pc_Period c) (amt (fp_Accumulated pool)) (amt (pc_Rewards c))"
    using g by blast
  have lt: "pc_Period c < 2 ^ 64 - 1" using left c(1) by (simp add: periods_left_def)
  have T: "0 \<le> snd (fp_TotalValueLocked pool)"
    using g kv_sum_nonneg [OF farm_okD(3) [OF ok], of "in_pool n"] locks_namedD(2) [OF farm_okD(1) [OF ok]]
    by (fastforce simp: in_pool_def)
  obtain ys acc where u: "up = pool\<lparr>fp_Yields := ys, fp_Accumulated := acc\<rparr>" "coins_nn y" "coins_nn acc" "yields_ok ys"
    "length ys = length (fp_Yields pool)" and acc: "\<And>d. amt acc d = amt (fp_Accumulated pool) d + amt y d"
    "\<And>d. amt acc d + yet ys d = amt (fp_Accumulated pool) d + yet (fp_Yields pool) d"
    by (rule CalculateAmountYieldedBetween_ok [OF laws y]) (use g that in blast)+
  obtain h1 c1 H H' q where s1: "s1 = s\<lparr>fm_hist := h1, fm_cur := kv_set n c1 (fm_cur s)\<rparr>" "ep = pc_Period c"
    "pc_Period c1 = pc_Period c + 1" "pc_Rewards c1 = []" "ratio s n (ep - 1) = Some H" "ratio s1 n ep = Some H'" "coins_nn H'"
    and q: "\<And>d. amt H' d = amt H d + q d" "\<And>d. 0 \<le> q d"
      "\<And>d. snd (fp_TotalValueLocked pool) * q d \<le> d_unit S * (amt (pc_Rewards c) d + amt y d)"
    and r: "\<And>x. x \<noteq> ep \<Longrightarrow> ratio s1 n x = None \<or> ratio s1 n x = ratio s n x" "\<And>m. m \<noteq> n \<Longrightarrow> ratio s1 m = ratio s m"
    by (rule IncrementPoolPeriod_ok [OF laws c(1,4) u(2) c(3) lt T _ inc]) (rule acctD(1) [OF ac], assumption, simp, rule that)
  have "acct (d_unit S) (ratio s1 n) (fm_locks s) n (ep + 1) (\<lambda>d. amt (fp_Accumulated pool) d + amt y d) (\<lambda>_. 0)"
    using ac s1(5,6,7) q g u(2) r unfolding s1(2)
    by (intro acct_end [OF ac farm_okD(3) [OF ok], where q = q and H = H and H' = H']) (auto simp: coins_nn_def)
  moreover have "(\<lambda>d. amt (fp_Accumulated pool) d + amt y d) = amt acc" using acc(1) by (intro ext) simp
  moreover have "li_Period l < ep" if "map_of (fm_locks s) (a, n) = Some l" for a l
    using acctD(2) [OF ac that] locks_namedD(2) [OF farm_okD(1) [OF ok] that] s1(2) by (simp add: lock_ref_def)
  ultimately have "period_ended S s n pool ep up H' s1"
    using s1 u acc(2) r(2) c(3) lt unfolding period_ended_def period_ok_def by auto
  then show ?thesis by (rule that)
qed

subsection \<open>Payment\<close>

abbreviation farm_bal :: "'b sdk \<Rightarrow> 'b farm \<Rightarrow> addr \<Rightarrow> denom \<Rightarrow> dec" where
  "farm_bal S s a d \<equiv> bank_bal S (fm_bank s) a d"

abbreviation farm_acc :: "'b sdk \<Rightarrow> addr" where
  "farm_acc S \<equiv> b_mod_addr S farmModule"

abbreviation yield_acc :: "'b sdk \<Rightarrow> addr" where
  "yield_acc S \<equiv> b_mod_addr S YieldFarmingAccount"

lemma rewards_ok:
  assumes laws: "farm_laws S X Y" and ac: "acct (d_unit S) (ratio s n) ls n (ep + 1) A (\<lambda>_. 0)" and ls: "locks_named ls"
    and l: "map_of ls (a, n) = Some l" and H: "ratio s n ep = Some H" and ep: "period_ok ep"
    and r: "calculateRewards S Y e s n ep l = Inr rewards"
  shows "coins_nn rewards" and "\<forall>c\<in>set rewards. 0 < snd c" and "d_unit S * amt rewards d \<le> claim (ratio s n) n H d l"
proof -
  note ref = acctD(2) [OF ac l] and nl = locks_namedD(2) [OF ls l] and u = farm_lawsD(3) [OF laws]
  have "coins_nn rewards \<and> (\<forall>c\<in>set rewards. 0 < snd c) \<and> (\<forall>d. d_unit S * amt rewards d \<le> claim (ratio s n) n H d l)"
  proof (cases "li_StartHeight l = e_Height e")
    case True
    then have "rewards = []" using r by (simp add: calculateRewards_def)
    then show ?thesis using claim_nonneg [OF ref, of H] H by simp
  next
    case False
    have lp: "period_ok (li_Period l)" using ref nl ep by (simp add: lock_ref_def period_ok_def)
    obtain h h' df where h: "GetPoolHistoricalRewards s n (li_Period l) = Inr h" "GetPoolHistoricalRewards s n ep = Inr h'"
      and df: "coins_sub S (ph_Ratio h') (ph_Ratio h) = Some df" and m: "y_mul Y df (snd (li_Amount l)) = Some rewards"
      using False r by (auto simp: calculateRewards_def calculateLockRewardsBetween_def rbind_Inr_iff split: if_splits)
    have rt: "ratio s n (li_Period l) = Some (ph_Ratio h)" "H = ph_Ratio h'"
      using ratio_get [OF h(1) lp] ratio_get [OF h(2) ep] H by simp_all
    have "coins_ok (ph_Ratio h')" "coins_ok (ph_Ratio h)"
      using acctD(1) [OF ac rt(1)] acctD(1) [OF ac H] rt(2) ref nl by (simp_all add: coins_nn_def lock_ref_def)
    note d = coins_sub_Some [OF farm_lawsD(2) [OF laws] this df]
    have "0 \<le> snd (li_Amount l)" using nl by simp
    note w = farm_lawsD(5) [OF laws m d(1) this]
    have "d_unit S * amt rewards d \<le> snd (li_Amount l) * (amt H d - amt (ph_Ratio h) d)" for d
      using w d(2) [of d] u rt(2) pos_mod_sign [of "d_unit S" "amt df d * snd (li_Amount l)"]
      by (simp add: minus_mod_eq_mult_div [symmetric] mult.commute)
    then show ?thesis using w nl rt(1) by (simp add: claim_def)
  qed
  then show "coins_nn rewards" and "\<forall>c\<in>set rewards. 0 < snd c" and "d_unit S * amt rewards d \<le> claim (ratio s n) n H d l"
    by simp_all
qed

lemma WithdrawRewards_ok:
  assumes laws: "farm_laws S X Y" and l: "GetLockInfo s a n = Some l"
    and w: "WithdrawRewards S Y e n T y a s = Inr (rewards, s2)" and lp: "period_ok (li_Period l)"
  obtains ep s1 where "IncrementPoolPeriod S Y e n T y s = Inr (ep, s1)" and "calculateRewards S Y e s1 n ep l = Inr rewards"
    and "\<exists>b h. s2 = (set_fm_bank b s1)\<lparr>fm_hist := h\<rparr>"
    and "\<And>x d. farm_bal S s2 x d = farm_bal S s1 x d + (if x = a then amt rewards d else 0) - (if x = yield_acc S then amt rewards d else 0)"
    and "ratio s2 n \<subseteq>\<^sub>m ratio s1 n" and "\<And>m. m \<noteq> n \<Longrightarrow> ratio s2 m = ratio s1 m"
    and "\<And>x. x \<noteq> li_Period l \<Longrightarrow> ratio s2 n x = ratio s1 n x"
proof -
  obtain ep s1 sb where i: "IncrementPoolPeriod S Y e n T y s = Inr (ep, s1)" "calculateRewards S Y e s1 n ep l = Inr rewards"
    and b: "(if coins_is_zero rewards then Inr s1
             else farm_banked s1 FarmBank (b_mod_to_acc S (fm_bank s1) YieldFarmingAccount a rewards)) = Inr sb"
    and dec: "decrementReferenceCount n (li_Period l) sb = Inr s2"
    using w l by (auto simp: WithdrawRewards_def rbind_Inr_iff)
  have sb: "(\<exists>b. sb = set_fm_bank b s1) \<and> (\<forall>x d. farm_bal S sb x d =
      farm_bal S s1 x d + (if x = a then amt rewards d else 0) - (if x = yield_acc S then amt rewards d else 0))"
  proof (cases "coins_is_zero rewards")
    case True
    then have "sb = s1" using b by simp
    then show ?thesis using amt_coins_is_zero [OF True] by (intro conjI exI [of _ "fm_bank s1"]) (simp_all add: set_fm_bank_def set_am_bank_def)
  next
    case False
    then obtain bk where "b_mod_to_acc S (fm_bank s1) YieldFarmingAccount a rewards = Inr bk" "sb = set_fm_bank bk s1"
      using b by (auto simp: farm_banked_Inr)
    then show ?thesis
      using bank_moves(3) [OF sdk_lawsD(3) [OF farm_lawsD(2) [OF laws]]] by (auto simp: moves_bal)
  qed
  note f = decrement_forgets [OF dec lp]
  obtain h where s2: "s2 = sb\<lparr>fm_hist := h\<rparr>" using f by (auto simp: forgets_def)
  have "ratio sb = ratio s1" using sb by auto
  then have r: "ratio s2 m x = ratio s1 m x \<or> m = n \<and> x = li_Period l \<and> ratio s2 m x = None" for m x
    using f by (auto simp: forgets_def)
  show ?thesis
  proof (rule that [OF i])
    show "\<exists>b h. s2 = (set_fm_bank b s1)\<lparr>fm_hist := h\<rparr>" using s2 sb by blast
    show "farm_bal S s2 x d = farm_bal S s1 x d + (if x = a then amt rewards d else 0) - (if x = yield_acc S then amt rewards d else 0)" for x d
      using sb s2 by simp
    show "ratio s2 n \<subseteq>\<^sub>m ratio s1 n" using r by (fastforce simp: map_le_def dom_def)
    show "ratio s2 m = ratio s1 m" if "m \<noteq> n" for m using r that by (intro ext) blast
    show "ratio s2 n x = ratio s1 n x" if "x \<noteq> li_Period l" for x using r that by blast
  qed
qed

subsection \<open>Locks\<close>

lemma kv_set_set: "kv_set k v (kv_set k w m) = kv_set k v m"
  by (induction k w m rule: kv_set.induct) auto

definition set_lock :: "addr \<Rightarrow> string \<Rightarrow> lock_info \<Rightarrow> locks \<Rightarrow> locks" where
  "set_lock a n l ls = (if snd (li_Amount l) = 0 then kv_del (a, n) ls else kv_set (a, n) l ls)"

lemma set_lock_update: "li_Owner l = a \<Longrightarrow> li_PoolName l = n \<Longrightarrow> 0 \<le> snd (li_Amount l) \<Longrightarrow> lock_update ls a n (set_lock a n l ls)"
  by (auto simp: set_lock_def lock_update_def)

lemma set_lock_get: "map_of (set_lock a n l ls) (a, n) = Some l' \<Longrightarrow> l' = l"
  by (simp add: set_lock_def split: if_splits)

lemma set_lock_sum:
  "kv_ok ls \<Longrightarrow> (snd (li_Amount l) = 0 \<Longrightarrow> f l = 0) \<Longrightarrow> kv_sum f (set_lock a n l ls) = kv_sum f ls - kv_val f ls (a, n) + f l"
  by (simp add: set_lock_def kv_sum_set kv_sum_del)

text \<open>The stores other than the locks, the index of addresses and the history.\<close>

definition same_pools :: "'b farm \<Rightarrow> 'b farm \<Rightarrow> bool" where
  "same_pools s s' \<longleftrightarrow> fm_amm s' = fm_amm s \<and> fm_pools s' = fm_pools s \<and> fm_cur s' = fm_cur s \<and> fm_params s' = fm_params s
     \<and> fm_white s' = fm_white s"

lemma UpdateLockInfo_ok:
  assumes "UpdateLockInfo e a n ch s = Inr s'" and "GetLockInfo s a n = Some l" and "li_Owner l = a" and "li_PoolName l = n"
    and "map_of (fm_cur s) n = Some c" and "period_ok (pc_Period c)" and "1 \<le> pc_Period c"
  shows "ratio s' = ratio s" and "same_pools s s'"
    and "fm_locks s' = set_lock a n (l\<lparr>li_StartHeight := e_Height e, li_Period := pc_Period c - 1,
      li_Amount := (fst (li_Amount l), snd (li_Amount l) + ch)\<rparr>) (fm_locks s)" (is "_ = set_lock a n ?l _")
proof -
  note pb = period_before [OF assms(6,7)]
  have "ratio s' = ratio s \<and> same_pools s s' \<and> fm_locks s' = set_lock a n ?l (fm_locks s)"
  proof (cases "snd (li_Amount l) + ch = 0")
    case True
    then have s': "s' = DeleteAddressInFarmPool n a (DeleteLockInfo a n s)"
      using assms(1-5) by (simp add: UpdateLockInfo_def GetPoolCurrentRewards_def rbind_Inr_iff Let_def)
    then have "ratio s' = ratio s" by simp
    then show ?thesis using True s'
      by (simp add: DeleteAddressInFarmPool_def DeleteLockInfo_def set_lock_def same_pools_def)
  next
    case False
    then obtain s2 where s2: "incrementReferenceCount n (pc_Period c - 1) s = Inr s2"
      and s': "s' = SetAddressInFarmPool n a (SetLockInfo ?l s2)"
      using assms(1-5) pb by (auto simp: UpdateLockInfo_def GetPoolCurrentRewards_def rbind_Inr_iff Let_def)
    note k = increment_keeps [OF s2 pb(2)]
    then obtain h where h: "s2 = s\<lparr>fm_hist := h\<rparr>" by blast
    have "ratio s' = ratio s" using k(2) s' by simp
    then show ?thesis using h s' False assms(3,4)
      by (simp add: SetAddressInFarmPool_def SetLockInfo_def set_lock_def same_pools_def)
  qed
  then show "ratio s' = ratio s" and "same_pools s s'" and "fm_locks s' = set_lock a n ?l (fm_locks s)" by blast+
qed

end
