(* ===== verification/FarmBlock.thy ===== *)
theory FarmBlock
  imports Farm
begin

text \<open>
  The farm module beyond its messages: the value of a pool in the quote token (\<open>GetPoolLockedValue\<close> of
  \<open>keeper/farm_pool.go\<close>, over the pools of the market maker), the begin of a block, which allocates the minted native
  tokens (\<open>abci.go\<close>), the proposals of the white list, the earnings query and genesis.
\<close>

subsection \<open>Value of a pool\<close>

text \<open>\<open>SplitPoolToken\<close>: indexing a missing part panics.\<close>

definition SplitPoolToken :: "string \<Rightarrow> farm_error + string \<times> string" where
  "SplitPoolToken symbol =
     (case tl (split_on CHR ''_'' symbol) of
        token0 # token1 # _ \<Rightarrow> Inr (token0, token1)
      | _ \<Rightarrow> Inl FarmPanic)"

definition calculateBaseValueInQuote :: "coin_ext \<Rightarrow> 'b farm \<Rightarrow> coin \<Rightarrow> string \<Rightarrow> farm_error + dec" where
  "calculateBaseValueInQuote X s base quoteSymbol =
     (if fst base = quoteSymbol then Inr (snd base)
      else case GetSwapTokenPair (fm_amm s) (GetSwapTokenPairName (fst base) quoteSymbol) of
        Inl _ \<Rightarrow> Inr 0
      | Inr pair \<Rightarrow>
          if snd (sp_Base pair) = 0 \<or> snd (sp_Quote pair) = 0 then Inr 0
          else if fst (sp_Quote pair) = quoteSymbol
          then rbind (farm_panic (x_mulT X (snd base) (snd (sp_Quote pair)))) (\<lambda>v.
               farm_panic (x_quoT X v (snd (sp_Base pair))))
          else rbind (farm_panic (x_mulT X (snd base) (snd (sp_Base pair)))) (\<lambda>v.
               farm_panic (x_quoT X v (snd (sp_Quote pair)))))"

definition calculateLockedLPTValue ::
  "'b sdk \<Rightarrow> coin_ext \<Rightarrow> 'b farm \<Rightarrow> farm_pool \<Rightarrow> string \<Rightarrow> farm_error + dec" where
  "calculateLockedLPTValue S X s pool quoteSymbol =
     rbind (SplitPoolToken (fst (fp_MinLockAmount pool))) (\<lambda>(token0Symbol, token1Symbol).
     (case GetRedeemableAssets S X (fm_amm s) token0Symbol token1Symbol (snd (fp_TotalValueLocked pool)) of
        Inl SwapPanic \<Rightarrow> Inl FarmPanic
      | Inl _ \<Rightarrow> Inr 0
      | Inr (token0Amount, token1Amount) \<Rightarrow>
          rbind (calculateBaseValueInQuote X s token0Amount quoteSymbol) (\<lambda>quote0.
          rbind (calculateBaseValueInQuote X s token1Amount quoteSymbol) (\<lambda>quote1.
          Inr (quote0 + quote1)))))"

definition GetPoolLockedValue :: "'b sdk \<Rightarrow> coin_ext \<Rightarrow> 'b farm \<Rightarrow> farm_pool \<Rightarrow> farm_error + dec" where
  "GetPoolLockedValue S X s pool =
     (if snd (fp_TotalValueLocked pool) \<le> 0 then Inr 0
      else if IsPoolToken (fst (fp_MinLockAmount pool))
      then calculateLockedLPTValue S X s pool (fpa_QuoteSymbol (fm_params s))
      else calculateBaseValueInQuote X s (fp_TotalValueLocked pool) (fpa_QuoteSymbol (fm_params s)))"

subsection \<open>Begin of a block\<close>

text \<open>
  \<open>calculateAllocateInfo\<close>: the white-listed pools with a positive value, in key order, and the sum of the values.
  The map from names to values is the list of pairs.
\<close>

fun allocate_info ::
  "'b sdk \<Rightarrow> coin_ext \<Rightarrow> 'b farm \<Rightarrow> string list \<Rightarrow> farm_error + (farm_pool \<times> dec) list \<times> dec" where
  "allocate_info S X s [] = Inr ([], 0)"
| "allocate_info S X s (poolName # names) =
     (case GetFarmPool s poolName of
        None \<Rightarrow> Inl FarmPanic
      | Some pool \<Rightarrow>
          rbind (GetPoolLockedValue S X s pool) (\<lambda>poolValue.
          rbind (allocate_info S X s names) (\<lambda>(pools, tot).
          if poolValue \<le> 0 then Inr (pools, tot) else Inr ((pool, poolValue) # pools, poolValue + tot))))"

text \<open>The loop over the pools: the last one gets what remains.\<close>

fun allocate ::
  "'b sdk \<Rightarrow> coin_ext \<Rightarrow> 'b farm_fns \<Rightarrow> dec \<Rightarrow> dec \<Rightarrow> (farm_pool \<times> dec) list \<Rightarrow> dec \<Rightarrow> 'b farm \<Rightarrow> farm_error + dec \<times> 'b farm" where
  "allocate S X Y yielded tot [] remaining s = Inr (remaining, s)"
| "allocate S X Y yielded tot ((pool, v) # pools) remaining s =
     rbind (if pools = [] then Inr remaining
            else rbind (farm_panic (x_mulT X v yielded)) (\<lambda>x. farm_panic (x_quoT X x tot))) (\<lambda>allocatedAmt.
     rbind (farm_panic (y_from_dec Y NativeToken allocatedAmt)) (\<lambda>allocatedCoins.
     rbind (GetPoolCurrentRewards s (fp_Name pool)) (\<lambda>current.
     (let s = SetPoolCurrentRewards (fp_Name pool)
                (current\<lparr>pc_Rewards := c_add2 S (pc_Rewards current) allocatedCoins\<rparr>) s;
          s = SetFarmPool (pool\<lparr>fp_Accumulated := c_add2 S (fp_Accumulated pool) allocatedCoins\<rparr>) s
      in allocate S X Y yielded tot pools (remaining - allocatedAmt) s))))"

definition farm_BeginBlocker :: "'b sdk \<Rightarrow> coin_ext \<Rightarrow> 'b farm_fns \<Rightarrow> 'b farm \<Rightarrow> farm_error + 'b farm" where
  "farm_BeginBlocker S X Y s =
     (let yieldedAmt = amt (b_coins S (fm_bank s) (b_mod_addr S MintFarmingAccount)) NativeToken
      in if yieldedAmt \<le> 0 then Inr s
         else
           rbind (farm_panic (y_from_dec Y NativeToken yieldedAmt)) (\<lambda>yieldedNativeToken.
           if \<not> fpa_YieldNativeToken (fm_params s)
           then farm_banked s (\<lambda>_. FarmPanic) (b_burn S (fm_bank s) MintFarmingAccount yieldedNativeToken)
           else
             rbind (allocate_info S X s (GetWhitelist s)) (\<lambda>(pools, totalPoolsValue).
             if totalPoolsValue \<le> 0 then Inr s
             else
               rbind (allocate S X Y yieldedAmt totalPoolsValue pools yieldedAmt s) (\<lambda>(remaining, s).
               if remaining \<noteq> 0 then Inl FarmPanic
               else farm_banked s (\<lambda>_. FarmPanic)
                      (y_mod_to_mod Y (fm_bank s) MintFarmingAccount YieldFarmingAccount yieldedNativeToken)))))"

subsection \<open>Proposals\<close>

definition isSwapTokenPairExisted :: "'b farm \<Rightarrow> string \<Rightarrow> string \<Rightarrow> bool" where
  "isSwapTokenPairExisted s base quote = is_ok (GetSwapTokenPair (fm_amm s) (GetSwapTokenPairName base quote))"

definition satisfyWhiteListAdmittance :: "'b farm \<Rightarrow> farm_pool \<Rightarrow> farm_error + unit" where
  "satisfyWhiteListAdmittance s pool =
     (let quote = fpa_QuoteSymbol (fm_params s); d = fst (fp_MinLockAmount pool)
      in if d = quote then Inr ()
         else if \<not> IsPoolToken d
         then (if \<not> isSwapTokenPairExisted s d quote then Inl (ErrSwapTokenPairNotExist (GetSwapTokenPairName d quote))
               else Inr ())
         else
           rbind (SplitPoolToken d) (\<lambda>(token0, token1).
           if token0 = quote \<or> token1 = quote
           then (if \<not> isSwapTokenPairExisted s token0 token1 then Inl (ErrFarmTokenNotExist d) else Inr ())
           else if \<not> isSwapTokenPairExisted s token0 quote
           then Inl (ErrSwapTokenPairNotExist (GetSwapTokenPairName token0 quote))
           else if \<not> isSwapTokenPairExisted s token1 quote
           then Inl (ErrSwapTokenPairNotExist (GetSwapTokenPairName token1 quote))
           else Inr ()))"

record white_list_proposal =
  wl_PoolName :: string
  wl_IsAdded :: bool

definition CheckMsgManageWhiteListProposal :: "'b farm \<Rightarrow> white_list_proposal \<Rightarrow> farm_error + unit" where
  "CheckMsgManageWhiteListProposal s p =
     (if wl_IsAdded p
      then (case GetFarmPool s (wl_PoolName p) of
              None \<Rightarrow> Inl (ErrNoFarmPoolFound (wl_PoolName p))
            | Some pool \<Rightarrow> satisfyWhiteListAdmittance s pool)
      else if \<not> isPoolNameExistedInWhiteList s (wl_PoolName p)
      then Inl (ErrPoolNameNotExistedInWhiteList (wl_PoolName p))
      else Inr ())"

definition handleManageWhiteListProposal :: "'b farm \<Rightarrow> white_list_proposal \<Rightarrow> farm_error + 'b farm" where
  "handleManageWhiteListProposal s p =
     rbind (CheckMsgManageWhiteListProposal s p) (\<lambda>_.
     Inr (if wl_IsAdded p then SetWhitelist (wl_PoolName p) s else DeleteWhiteList (wl_PoolName p) s))"

subsection \<open>Earnings\<close>

text \<open>\<open>GetEarnings\<close> ends the current period on the state of the query, which is discarded.\<close>

record earnings =
  ea_Height :: int
  ea_Locked :: coin
  ea_Yielded :: coins

definition GetEarnings ::
  "'b sdk \<Rightarrow> coin_ext \<Rightarrow> 'b farm_fns \<Rightarrow> env \<Rightarrow> 'b farm \<Rightarrow> string \<Rightarrow> addr \<Rightarrow> farm_error + earnings" where
  "GetEarnings S X Y e s poolName a =
     (case GetLockInfo s a poolName of
        None \<Rightarrow> Inl (ErrNoLockInfoFound a poolName)
      | Some lockInfo \<Rightarrow>
          (case GetFarmPool s poolName of
             None \<Rightarrow> Inl (ErrNoFarmPoolFound poolName)
           | Some pool \<Rightarrow>
               rbind (CalculateAmountYieldedBetween S X Y e s pool) (\<lambda>(updatedPool, yieldedTokens).
               rbind (IncrementPoolPeriod S Y e poolName (fp_TotalValueLocked updatedPool) yieldedTokens s) (\<lambda>(endingPeriod, s).
               rbind (calculateRewards S Y e s poolName endingPeriod lockInfo) (\<lambda>rewards.
               Inr \<lparr>ea_Height = e_Height e, ea_Locked = li_Amount lockInfo, ea_Yielded = rewards\<rparr>)))))"

subsection \<open>Invariants\<close>

text \<open>
  \<open>keeper/invariants.go\<close>: the coins that the module account and the yield account are expected to hold, and whether the
  invariant of the mint account is broken. The amounts of locks are positive, so \<open>NewDecCoins\<close> of one is the list of that coin.
\<close>

definition moduleAccountInvariant :: "'b sdk \<Rightarrow> 'b farm \<Rightarrow> coins" where
  "moduleAccountInvariant S s =
     c_add2 S (fold (\<lambda>pool acc. c_add2 S acc (c_to_coins S (fp_DepositAmount pool))) (GetFarmPools s) [])
       (fold (\<lambda>(_, l) acc. c_add2 S acc [li_Amount l]) (fm_locks s) [])"

definition yieldFarmingAccountInvariant :: "'b sdk \<Rightarrow> 'b farm \<Rightarrow> coins" where
  "yieldFarmingAccountInvariant S s =
     fold (\<lambda>pool acc. fold (\<lambda>y acc. c_add2 S acc [yi_Remaining y]) (fp_Yields pool) (c_add2 S acc (fp_Accumulated pool)))
       (GetFarmPools s) []"

definition mintFarmingAccountInvariant :: "'b sdk \<Rightarrow> 'b farm \<Rightarrow> bool" where
  "mintFarmingAccountInvariant S s \<longleftrightarrow>
     GetWhitelist s \<noteq> [] \<and> \<not> coins_is_zero (b_coins S (fm_bank s) (b_mod_addr S MintFarmingAccount))"

subsection \<open>Genesis\<close>

record farm_genesis =
  fg_Pools :: "farm_pool list"
  fg_LockInfos :: "lock_info list"
  fg_Histories :: "(string \<times> int \<times> pool_history) list"
  fg_Currents :: "(string \<times> pool_current) list"
  fg_WhiteList :: "string list"
  fg_Params :: farm_params

text \<open>\<open>GetPoolHistoricalRewardsPoolNamePeriod\<close> splits a key into name and period; the key prefix byte is not part of it here.\<close>

definition split_history_key :: "string \<Rightarrow> (string \<times> int) option" where
  "split_history_key key =
     (if MaxPoolNameLength < length key - 8 \<or> length key \<le> 8 then None
      else Some (take (length key - 8) key, le_value (drop (length key - 8) key)))"

definition farm_ExportGenesis :: "'b farm \<Rightarrow> farm_genesis option" where
  "farm_ExportGenesis s =
     (if list_all (\<lambda>(k, _). split_history_key k \<noteq> None) (fm_hist s)
      then Some \<lparr>fg_Pools = GetFarmPools s, fg_LockInfos = map snd (fm_locks s),
             fg_Histories = map (\<lambda>(k, h). case the (split_history_key k) of (n, p) \<Rightarrow> (n, p, h)) (fm_hist s),
             fg_Currents = fm_cur s, fg_WhiteList = GetWhitelist s, fg_Params = fm_params s\<rparr>
      else None)"

text \<open>
  The stores of \<open>InitGenesis\<close>. The module accounts are filled only when they are empty, which is the auth
  module's business at genesis; \<open>farm_holdings\<close> are the coins they are given then.
\<close>

definition farm_InitGenesis :: "farm_genesis \<Rightarrow> 'b farm \<Rightarrow> 'b farm" where
  "farm_InitGenesis g s =
     (let s = fold SetFarmPool (fg_Pools g) s;
          s = fold SetLockInfo (fg_LockInfos g) s;
          s = fold (\<lambda>(n, p, h). SetPoolHistoricalRewards n p h) (fg_Histories g) s;
          s = fold (\<lambda>(n, c). SetPoolCurrentRewards n c) (fg_Currents g) s;
          s = fold SetWhitelist (fg_WhiteList g) s
      in s\<lparr>fm_params := fg_Params g\<rparr>)"

definition farm_holdings :: "'b sdk \<Rightarrow> farm_genesis \<Rightarrow> coins \<times> coins" where
  "farm_holdings S g =
     fold (\<lambda>pool (moduleAcc, yieldAcc).
         (c_add2 S (c_add2 S moduleAcc [fp_TotalValueLocked pool]) [fp_DepositAmount pool],
          c_add2 S yieldAcc (fp_Accumulated pool))) (fg_Pools g) ([], [])"

text \<open>\<open>ValidateGenesis\<close>; the sum of the counts is a \<open>uint16\<close> and wraps.\<close>

definition farm_ValidateGenesis :: "farm_genesis \<Rightarrow> bool" where
  "farm_ValidateGenesis g \<longleftrightarrow> length (fg_Pools g) = length (fg_Currents g)
     \<and> int (length (fg_LockInfos g) + length (fg_Currents g))
         = sum_list (map (\<lambda>(_, _, h). ph_Count h) (fg_Histories g)) mod 2 ^ 16"

end
