(* ===== verification/FarmSettle.thy ===== *)
theory FarmSettle
  imports FarmSteps FarmBlock
begin

text \<open>
  The handlers of the farm: each keeps the invariant \<open>farm_ok\<close> and what the two module accounts
  hold beyond what they owe (\<open>farm_gap\<close>).
\<close>

subsection \<open>Obligations\<close>

definition farm_owed :: "'b farm \<Rightarrow> denom \<Rightarrow> dec" where
  "farm_owed s d = kv_sum (\<lambda>p. amt [fp_DepositAmount p] d) (fm_pools s) + kv_sum (\<lambda>l. amt [li_Amount l] d) (fm_locks s)"

definition yield_owed :: "'b farm \<Rightarrow> denom \<Rightarrow> dec" where
  "yield_owed s d = kv_sum (\<lambda>p. amt (fp_Accumulated p) d + yet (fp_Yields p) d) (fm_pools s)"

definition farm_gap :: "'b sdk \<Rightarrow> 'b farm \<Rightarrow> denom \<Rightarrow> dec \<times> dec" where
  "farm_gap S s d = (farm_bal S s (farm_acc S) d - farm_owed s d, farm_bal S s (yield_acc S) d - yield_owed s d)"

subsection \<open>Settling a lock\<close>

text \<open>
  The state in which the period of pool \<open>n\<close> has ended, the lock of \<open>a\<close> was paid \<open>w\<close>, its amount was changed by
  \<open>ch\<close> and the pool \<open>up\<close> is still to be stored.
\<close>

definition settled ::
  "'b sdk \<Rightarrow> 'b farm \<Rightarrow> string \<Rightarrow> farm_pool \<Rightarrow> addr \<Rightarrow> dec \<Rightarrow> (denom \<Rightarrow> dec) \<Rightarrow> farm_pool \<Rightarrow> 'b farm \<Rightarrow> bool" where
  "settled S s n pool a ch w up s3 \<longleftrightarrow> (\<exists>c1 ys acc.
     fm_pools s3 = fm_pools s \<and> fm_params s3 = fm_params s \<and> fm_white s3 = fm_white s \<and> fm_cur s3 = kv_set n c1 (fm_cur s)
     \<and> pc_Rewards c1 = [] \<and> period_ok (pc_Period c1) \<and> 1 \<le> pc_Period c1
     \<and> lock_update (fm_locks s) a n (fm_locks s3)
     \<and> (\<forall>l. map_of (fm_locks s3) (a, n) = Some l \<longrightarrow> fst (li_Amount l) = fst (fp_MinLockAmount pool))
     \<and> kv_sum (in_pool n) (fm_locks s3) = kv_sum (in_pool n) (fm_locks s) + ch
     \<and> (\<forall>d. kv_sum (\<lambda>l. amt [li_Amount l] d) (fm_locks s3)
          = kv_sum (\<lambda>l. amt [li_Amount l] d) (fm_locks s) + amt [(fst (fp_MinLockAmount pool), ch)] d)
     \<and> (\<forall>x d. farm_bal S s3 x d = farm_bal S s x d + (if x = a then w d else 0) - (if x = yield_acc S then w d else 0))
     \<and> (\<forall>m. m \<noteq> n \<longrightarrow> ratio s3 m = ratio s m)
     \<and> up = pool\<lparr>fp_Yields := ys, fp_Accumulated := acc\<rparr> \<and> coins_nn acc \<and> yields_ok ys
     \<and> (\<forall>d. amt acc d + yet ys d = amt (fp_Accumulated pool) d + yet (fp_Yields pool) d)
     \<and> (\<forall>d. 0 \<le> w d \<and> w d \<le> amt acc d)
     \<and> acct (d_unit S) (ratio s3 n) (fm_locks s3) n (pc_Period c1) (\<lambda>d. amt acc d - w d) (\<lambda>_. 0))"

lemma kv_del_set: "kv_del k (kv_set k w m) = kv_del k m"
  by (induction k w m rule: kv_set.induct) (auto simp: kv_del_def)

lemma settle_lock:
  assumes laws: "farm_laws S X Y" and ok: "farm_ok S s" and ended: "period_ended S s n pool ep up H s1"
    and ls: "fm_locks s2 = kv_set (a, n) l (fm_locks s) \<or> fm_locks s2 = fm_locks s \<and> map_of (fm_locks s) (a, n) = Some l"
    and l: "li_Owner l = a" "li_PoolName l = n" "fst (li_Amount l) = fst (fp_MinLockAmount pool)" "0 \<le> snd (li_Amount l) + ch"
      "snd (li_Amount l) = kv_val (in_pool n) (fm_locks s) (a, n)"
      "\<And>d. amt [li_Amount l] d = kv_val (\<lambda>l. amt [li_Amount l] d) (fm_locks s) (a, n)"
    and w: "\<And>d. 0 \<le> w d"
      "\<And>d. d_unit S * w d \<le> (case map_of (fm_locks s) (a, n) of None \<Rightarrow> 0 | Some l \<Rightarrow> claim (ratio s1 n) n H d l)"
    and s2: "fm_pools s2 = fm_pools s" "fm_params s2 = fm_params s" "fm_white s2 = fm_white s" "fm_cur s2 = fm_cur s1"
      "\<And>x d. farm_bal S s2 x d = farm_bal S s x d + (if x = a then w d else 0) - (if x = yield_acc S then w d else 0)"
      "ratio s2 n \<subseteq>\<^sub>m ratio s1 n" "\<And>m. m \<noteq> n \<Longrightarrow> ratio s2 m = ratio s m"
    and upd: "UpdateLockInfo e a n ch s2 = Inr s3"
  shows "settled S s n pool a ch w up s3"
proof -
  note lsok = farm_okD(1) [OF ok] and kvok = farm_okD(3) [OF ok] and u = farm_lawsD(3) [OF laws]
  obtain h1 c1 ys acc where s1: "s1 = s\<lparr>fm_hist := h1, fm_cur := kv_set n c1 (fm_cur s)\<rparr>"
    and c1: "1 \<le> ep" "pc_Period c1 = ep + 1" "period_ok (ep + 1)" "pc_Rewards c1 = []" and H: "ratio s1 n ep = Some H"
    and up: "up = pool\<lparr>fp_Yields := ys, fp_Accumulated := acc\<rparr>" "coins_nn acc" "yields_ok ys"
      "\<And>d. amt acc d + yet ys d = amt (fp_Accumulated pool) d + yet (fp_Yields pool) d"
    and ac: "acct (d_unit S) (ratio s1 n) (fm_locks s) n (ep + 1) (amt acc) (\<lambda>_. 0)"
    using ended unfolding period_ended_def by blast
  let ?l = "l\<lparr>li_StartHeight := e_Height e, li_Period := pc_Period c1 - 1, li_Amount := (fst (li_Amount l), snd (li_Amount l) + ch)\<rparr>"
  have cur: "map_of (fm_cur s2) n = Some c1" using s2(4) s1 by simp
  have get: "GetLockInfo s2 a n = Some l" using ls by (auto simp: GetLockInfo_def)
  have c1': "period_ok (pc_Period c1)" "1 \<le> pc_Period c1" using c1 by simp_all
  note U = UpdateLockInfo_ok [OF upd get l(1,2) cur c1']
  have locks: "fm_locks s3 = set_lock a n ?l (fm_locks s)"
    using U(3) ls by (auto simp: set_lock_def kv_set_set kv_del_set)
  have lu: "lock_update (fm_locks s) a n (fm_locks s3)"
    unfolding locks using l by (intro set_lock_update) simp_all
  have A: "acct (d_unit S) (ratio s1 n) (fm_locks s3) n (ep + 1) (\<lambda>d. amt acc d - w d) (\<lambda>_. 0)"
    by (rule acct_pay [OF ac lsok u _ _ w(2) lu]) (use H c1 in \<open>auto simp: locks dest!: set_lock_get\<close>)
  have "acct (d_unit S) (ratio s3 n) (fm_locks s3) n (ep + 1) (\<lambda>d. amt acc d - w d) (\<lambda>_. 0)"
    by (rule acct_mono [OF A]) (use U(1) s2(6) lock_update_named [OF lsok lu] locks_namedD(1) in auto)
  moreover have "kv_sum (in_pool n) (fm_locks s3) = kv_sum (in_pool n) (fm_locks s) + ch"
    unfolding locks using l(2,5) by (subst set_lock_sum [OF kvok]) (simp_all add: in_pool_def)
  moreover have "kv_sum (\<lambda>l. amt [li_Amount l] d) (fm_locks s3)
      = kv_sum (\<lambda>l. amt [li_Amount l] d) (fm_locks s) + amt [(fst (fp_MinLockAmount pool), ch)] d" for d
    unfolding locks using l(3) l(6) [of d] by (subst set_lock_sum [OF kvok]) (auto simp: amt_pair)
  moreover have "fst (li_Amount l') = fst (fp_MinLockAmount pool)" if "map_of (fm_locks s3) (a, n) = Some l'" for l'
    using set_lock_get [OF that [unfolded locks]] l(3) by simp
  moreover have "w d \<le> amt acc d" for d using acctD(5) [OF A, of d] by simp
  moreover have "fm_pools s3 = fm_pools s" "fm_params s3 = fm_params s" "fm_white s3 = fm_white s" "fm_cur s3 = kv_set n c1 (fm_cur s)"
    "fm_amm s3 = fm_amm s2" using U(2) s2(1-4) s1 by (simp_all add: same_pools_def)
  moreover have "ratio s3 m = ratio s m" if "m \<noteq> n" for m using U(1) s2(7) that by simp
  ultimately show ?thesis
    unfolding settled_def using c1 c1' up lu w(1) s2(5)
    by (intro exI [of _ c1] exI [of _ ys] exI [of _ acc]) simp
qed

text \<open>A pool is stored after its locks changed; the other pools are not concerned.\<close>

lemma pool_good_other:
  assumes "pool_good S s m p" and "locks_named (fm_locks s)" and "m \<noteq> n"
    and "fm_locks s' = fm_locks s \<or> lock_update (fm_locks s) a n (fm_locks s')"
    and "map_of (fm_cur s') m = map_of (fm_cur s) m" and "ratio s' m \<subseteq>\<^sub>m ratio s m"
  shows "pool_good S s' m p"
proof -
  obtain c where c: "map_of (fm_cur s) m = Some c" "period_ok (pc_Period c)" "1 \<le> pc_Period c" "coins_nn (pc_Rewards c)"
    and ac: "acct (d_unit S) (ratio s m) (fm_locks s) m (pc_Period c) (amt (fp_Accumulated p)) (amt (pc_Rewards c))"
    using assms(1) unfolding pool_good_def by blast
  have "acct (d_unit S) (ratio s' m) (fm_locks s) m (pc_Period c) (amt (fp_Accumulated p)) (amt (pc_Rewards c))"
    by (rule acct_mono [OF ac assms(6) locks_namedD(1) [OF assms(2)]])
  then have "acct (d_unit S) (ratio s' m) (fm_locks s') m (pc_Period c) (amt (fp_Accumulated p)) (amt (pc_Rewards c))"
    using assms(4) acct_other [OF _ assms(2) _ assms(3)] by auto
  moreover have "kv_sum (in_pool m) (fm_locks s') = kv_sum (in_pool m) (fm_locks s)"
    using assms(4) lock_update_sum [OF assms(2), of a n _ "in_pool m"] assms(3) by (auto simp: in_pool_def)
  ultimately show ?thesis using assms(1,5) c unfolding pool_good_def by auto
qed

lemma farm_ok_store:
  assumes ok: "farm_ok S s" and pool: "map_of (fm_pools s) n = Some pool"
    and pools: "fm_pools s' = kv_set n pool' (fm_pools s)" "fp_MinLockAmount pool' = fp_MinLockAmount pool"
    and good: "pool_good S s' n pool'" and params: "fm_params s' = fm_params s" "fm_white s' = fm_white s"
    and locks: "fm_locks s' = fm_locks s \<or> lock_update (fm_locks s) a n (fm_locks s')"
    and denom: "\<And>l. map_of (fm_locks s') (a, n) = Some l \<Longrightarrow> fst (li_Amount l) = fst (fp_MinLockAmount pool)"
    and cur: "\<And>m. m \<noteq> n \<Longrightarrow> map_of (fm_cur s') m = map_of (fm_cur s) m"
    and rat: "\<And>m. m \<noteq> n \<Longrightarrow> ratio s' m = ratio s m"
  shows "farm_ok S s'"
proof -
  note ln = farm_okD(1) [OF ok]
  have "pool_good S s' m p" if "map_of (fm_pools s') m = Some p" for m p
  proof (cases "m = n")
    case True
    then show ?thesis using that good pools by simp
  next
    case False
    then have "map_of (fm_pools s) m = Some p" using that pools by simp
    from pool_good_other [OF farm_okD(5) [OF ok this] ln False locks cur [OF False]] show ?thesis
      using rat [OF False] by (simp add: map_le_refl)
  qed
  moreover have "\<exists>p. map_of (fm_pools s') m = Some p \<and> fst (li_Amount l) = fst (fp_MinLockAmount p)"
    if "map_of (fm_locks s') (b, m) = Some l" for b m l
  proof (cases "map_of (fm_locks s) (b, m) = Some l")
    case True
    then obtain p where "map_of (fm_pools s) m = Some p" "fst (li_Amount l) = fst (fp_MinLockAmount p)"
      using farm_okD(7) [OF ok] unfolding lock_pool_def by blast
    then show ?thesis using pools pool by (cases "m = n") auto
  next
    case False
    then have "b = a \<and> m = n" using that locks by (auto simp: lock_update_def split: if_splits)
    then show ?thesis using denom that pools by auto
  qed
  moreover have "locks_named (fm_locks s')" using locks lock_update_named [OF ln] ln by auto
  ultimately show ?thesis
    using kv_ok_set [OF farm_okD(2) [OF ok]] farm_okD(4) [OF ok] farm_okD(8) [OF ok] pools params unfolding farm_ok_def lock_pool_def by simp
qed

lemma farm_gap_store:
  assumes ok: "farm_ok S s" and pool: "map_of (fm_pools s) n = Some pool" and pools: "fm_pools s' = kv_set n pool' (fm_pools s)"
    and "fp_DepositAmount pool' = fp_DepositAmount pool"
    and "\<And>d. farm_bal S s' (farm_acc S) d - farm_bal S s (farm_acc S) d
      = kv_sum (\<lambda>l. amt [li_Amount l] d) (fm_locks s') - kv_sum (\<lambda>l. amt [li_Amount l] d) (fm_locks s)"
    and "\<And>d. farm_bal S s' (yield_acc S) d - farm_bal S s (yield_acc S) d
      = (amt (fp_Accumulated pool') d + yet (fp_Yields pool') d) - (amt (fp_Accumulated pool) d + yet (fp_Yields pool) d)"
  shows "farm_gap S s' = farm_gap S s"
proof
  fix d
  show "farm_gap S s' d = farm_gap S s d"
    using assms(4) assms(5) [of d] assms(6) [of d] pool
    by (simp add: farm_gap_def farm_owed_def yield_owed_def pools kv_sum_set [OF farm_okD(2) [OF ok]] kv_val_def)
qed

text \<open>The last part of a claim, a lock or an unlock: the pool is stored without the rewards.\<close>

lemma settled_store:
  assumes laws: "farm_laws S X Y" and ok: "farm_ok S s" and pool: "map_of (fm_pools s) n = Some pool"
    and st: "settled S s n pool a ch w up s3" and a: "a \<noteq> farm_acc S" "a \<noteq> yield_acc S"
    and s': "fm_pools s' = kv_set n pool' (fm_pools s3)" "fm_params s' = fm_params s3" "fm_white s' = fm_white s3" "fm_cur s' = fm_cur s3"
      "fm_locks s' = fm_locks s3" "ratio s' = ratio s3"
    and bal: "\<And>x d. x \<noteq> a \<Longrightarrow> farm_bal S s' x d
      = farm_bal S s3 x d + (if x = farm_acc S then amt [(fst (fp_MinLockAmount pool), ch)] d else 0)"
    and p': "fp_Name pool' = fp_Name up" "fp_MinLockAmount pool' = fp_MinLockAmount up" "fp_DepositAmount pool' = fp_DepositAmount up"
      "fp_TotalValueLocked pool' = (fst (fp_TotalValueLocked up), snd (fp_TotalValueLocked up) + ch)"
      "fp_Yields pool' = fp_Yields up" "coins_nn (fp_Accumulated pool')"
      "\<And>d. amt (fp_Accumulated pool') d = amt (fp_Accumulated up) d - w d"
  shows "farm_ok S s'" and "farm_gap S s' = farm_gap S s"
proof -
  obtain c1 ys acc where q: "fm_pools s3 = fm_pools s" "fm_params s3 = fm_params s" "fm_white s3 = fm_white s" "fm_cur s3 = kv_set n c1 (fm_cur s)"
      "pc_Rewards c1 = []" "period_ok (pc_Period c1)" "1 \<le> pc_Period c1" "lock_update (fm_locks s) a n (fm_locks s3)"
    and dn: "\<And>l. map_of (fm_locks s3) (a, n) = Some l \<Longrightarrow> fst (li_Amount l) = fst (fp_MinLockAmount pool)"
    and sums: "kv_sum (in_pool n) (fm_locks s3) = kv_sum (in_pool n) (fm_locks s) + ch"
      "\<And>d. kv_sum (\<lambda>l. amt [li_Amount l] d) (fm_locks s3)
         = kv_sum (\<lambda>l. amt [li_Amount l] d) (fm_locks s) + amt [(fst (fp_MinLockAmount pool), ch)] d"
    and bal3: "\<And>x d. farm_bal S s3 x d = farm_bal S s x d + (if x = a then w d else 0) - (if x = yield_acc S then w d else 0)"
    and rat: "\<And>m. m \<noteq> n \<Longrightarrow> ratio s3 m = ratio s m"
    and up: "up = pool\<lparr>fp_Yields := ys, fp_Accumulated := acc\<rparr>" "yields_ok ys"
      "\<And>d. amt acc d + yet ys d = amt (fp_Accumulated pool) d + yet (fp_Yields pool) d"
    and ac: "acct (d_unit S) (ratio s3 n) (fm_locks s3) n (pc_Period c1) (\<lambda>d. amt acc d - w d) (\<lambda>_. 0)"
    using st unfolding settled_def by blast
  note g = farm_okD(5) [OF ok pool]
  have e: "amt (fp_Accumulated pool') = (\<lambda>d. amt acc d - w d)" "amt [] = (\<lambda>_. 0 :: int)"
    using p'(7) up(1) by (intro ext; simp)+
  have good: "pool_good S s' n pool'"
    using g q ac up(2) p' s' sums(1) e unfolding pool_good_def up(1) by simp
  show "farm_ok S s'"
    by (rule farm_ok_store [OF ok pool _ _ good, where a = a]) (use s' q dn rat up(1) p'(2) in auto)
  have ne: "farm_acc S \<noteq> yield_acc S" using farm_lawsD(9) [OF laws] by simp
  have b: "farm_bal S s' (farm_acc S) d = farm_bal S s (farm_acc S) d + amt [(fst (fp_MinLockAmount pool), ch)] d"
    "farm_bal S s' (yield_acc S) d = farm_bal S s (yield_acc S) d - w d" for d
    using bal [of "farm_acc S" d] bal3 [of "farm_acc S" d] bal [of "yield_acc S" d] bal3 [of "yield_acc S" d] a ne by simp_all
  have "amt (fp_Accumulated pool') d + yet (fp_Yields pool') d = amt (fp_Accumulated pool) d + yet (fp_Yields pool) d - w d" for d
    using up(1) up(3) [of d] p'(5) p'(7) [of d] by simp
  then show "farm_gap S s' = farm_gap S s"
    using farm_gap_store [OF ok pool s'(1) [unfolded q(1)]] p'(3) up(1) b sums(2) s'(5) by simp
qed

subsection \<open>Rewards\<close>

lemma take_rewards_ok:
  assumes "farm_laws S X Y" and "coins_nn (fp_Accumulated p)" and "coins_nn rewards" and "take_rewards S Y p rewards = Inr p'"
  obtains acc where "p' = p\<lparr>fp_Accumulated := acc\<rparr>" and "coins_nn acc"
    and "\<And>d. amt acc d = amt (fp_Accumulated p) d - amt rewards d"
proof -
  obtain acc where acc: "coins_sub S (fp_Accumulated p) rewards = Some acc" and "p' = p\<lparr>fp_Accumulated := acc\<rparr>"
    using assms(4) by (auto simp: take_rewards_def rbind_Inr_iff split: if_splits)
  have "coins_ok (fp_Accumulated p)" "coins_ok rewards" using assms(2,3) by (simp_all add: coins_nn_def)
  from that [OF \<open>p' = _\<close>] coins_sub_Some [OF farm_lawsD(2) [OF assms(1)] this acc] show ?thesis by blast
qed

lemma take_rewards_total:
  assumes "farm_laws S X Y" and "coins_nn (fp_Accumulated p)" and "coins_nn rewards" and "\<forall>c\<in>set rewards. 0 < snd c"
    and le: "\<And>d. amt rewards d \<le> amt (fp_Accumulated p) d"
  shows "\<exists>p'. take_rewards S Y p rewards = Inr p'"
proof -
  have ok: "coins_ok (fp_Accumulated p)" "coins_ok rewards" using assms(2,3) by (simp_all add: coins_nn_def)
  have "\<not> y_all_lt Y (fp_Accumulated p) rewards"
    using farm_lawsD(7) [OF assms(1,2) ok(2) assms(4)] le by (meson linorder_not_le)
  moreover have "\<not> snd (c_safe_sub S (fp_Accumulated p) rewards)"
    using coins_safe_sub(3) [OF sdk_lawsD(2) [OF farm_lawsD(2) [OF assms(1)]] ok] le by (meson linorder_not_le)
  then obtain acc where "coins_sub S (fp_Accumulated p) rewards = Some acc"
    by (cases "c_safe_sub S (fp_Accumulated p) rewards") (simp add: coins_sub_def)
  ultimately show ?thesis by (simp add: take_rewards_def farm_panic_def)
qed

lemma withdraw_ended:
  assumes laws: "farm_laws S X Y" and ok: "farm_ok S s" and pool: "map_of (fm_pools s) n = Some pool" and left: "periods_left s"
    and y: "CalculateAmountYieldedBetween S X Y e s pool = Inr (up, y)"
    and wd: "WithdrawRewards S Y e n (fp_TotalValueLocked pool) y a s = Inr (rewards, s2)"
  obtains ep s1 H l where "period_ended S s n pool ep up H s1" and "map_of (fm_locks s) (a, n) = Some l"
    and "coins_nn rewards" and "\<forall>c\<in>set rewards. 0 < snd c" and "\<And>d. d_unit S * amt rewards d \<le> claim (ratio s1 n) n H d l"
    and "\<exists>b h. s2 = (set_fm_bank b s1)\<lparr>fm_hist := h\<rparr>"
    and "\<And>x d. farm_bal S s2 x d = farm_bal S s x d + (if x = a then amt rewards d else 0) - (if x = yield_acc S then amt rewards d else 0)"
    and "ratio s2 n \<subseteq>\<^sub>m ratio s1 n" and "\<And>m. m \<noteq> n \<Longrightarrow> ratio s2 m = ratio s m"
    and "IncrementPoolPeriod S Y e n (fp_TotalValueLocked pool) y s = Inr (ep, s1)" and "calculateRewards S Y e s1 n ep l = Inr rewards"
proof -
  obtain l where l: "map_of (fm_locks s) (a, n) = Some l"
    using wd by (auto simp: WithdrawRewards_def GetLockInfo_def split: option.splits)
  then have get: "GetLockInfo s a n = Some l" by (simp add: GetLockInfo_def)
  obtain c where c: "map_of (fm_cur s) n = Some c" "period_ok (pc_Period c)"
    and ac: "acct (d_unit S) (ratio s n) (fm_locks s) n (pc_Period c) (amt (fp_Accumulated pool)) (amt (pc_Rewards c))"
    using farm_okD(5) [OF ok pool] unfolding pool_good_def by blast
  have lp: "period_ok (li_Period l)"
    using acctD(2) [OF ac l] locks_namedD(2) [OF farm_okD(1) [OF ok] l] c by (simp add: lock_ref_def period_ok_def)
  obtain ep s1 where i: "IncrementPoolPeriod S Y e n (fp_TotalValueLocked pool) y s = Inr (ep, s1)"
    "calculateRewards S Y e s1 n ep l = Inr rewards" "\<exists>b h. s2 = (set_fm_bank b s1)\<lparr>fm_hist := h\<rparr>"
    and b: "\<And>x d. farm_bal S s2 x d = farm_bal S s1 x d + (if x = a then amt rewards d else 0) - (if x = yield_acc S then amt rewards d else 0)"
    and r: "ratio s2 n \<subseteq>\<^sub>m ratio s1 n" "\<And>m. m \<noteq> n \<Longrightarrow> ratio s2 m = ratio s1 m"
    by (rule WithdrawRewards_ok [OF laws get wd lp]) (rule that)
  obtain H where H: "period_ended S s n pool ep up H s1" by (rule end_period [OF laws ok pool left y i(1)])
  obtain h1 c1 acc where s1: "s1 = s\<lparr>fm_hist := h1, fm_cur := kv_set n c1 (fm_cur s)\<rparr>" "period_ok (ep + 1)" "1 \<le> ep"
    "ratio s1 n ep = Some H" "\<And>m. m \<noteq> n \<Longrightarrow> ratio s1 m = ratio s m"
    and ac: "acct (d_unit S) (ratio s1 n) (fm_locks s) n (ep + 1) (amt acc) (\<lambda>_. 0)"
    using H unfolding period_ended_def by blast
  have "period_ok ep" using s1(2,3) by (simp add: period_ok_def)
  note rw = rewards_ok [OF laws ac farm_okD(1) [OF ok] l s1(4) this i(2)]
  have "farm_bal S s1 x d = farm_bal S s x d" for x d using s1(1) by simp
  then show ?thesis using b r s1(5) by (intro that [OF H l rw i(3) _ _ _ i(1,2)]) simp_all
qed

text \<open>The accumulated rewards cover every payment.\<close>

lemma withdraw_covered:
  assumes "farm_laws S X Y" and "farm_ok S s" and "map_of (fm_pools s) n = Some pool" and "periods_left s"
    and "CalculateAmountYieldedBetween S X Y e s pool = Inr (up, y)"
    and "WithdrawRewards S Y e n (fp_TotalValueLocked pool) y a s = Inr (rewards, s2)"
  shows "coins_nn (fp_Accumulated up)" and "coins_nn rewards" and "\<forall>c\<in>set rewards. 0 < snd c" and "amt rewards d \<le> amt (fp_Accumulated up) d"
proof -
  obtain ep s1 H l where w: "period_ended S s n pool ep up H s1" "map_of (fm_locks s) (a, n) = Some l"
    "coins_nn rewards" "\<forall>c\<in>set rewards. 0 < snd c" and le: "\<And>d. d_unit S * amt rewards d \<le> claim (ratio s1 n) n H d l"
    by (rule withdraw_ended [OF assms]) (rule that)
  obtain acc where acc: "coins_nn acc" "fp_Accumulated up = acc" "ratio s1 n ep = Some H"
    and ac: "acct (d_unit S) (ratio s1 n) (fm_locks s) n (ep + 1) (amt acc) (\<lambda>_. 0)"
    using w(1) unfolding period_ended_def by fastforce
  show "coins_nn (fp_Accumulated up)" "coins_nn rewards" "\<forall>c\<in>set rewards. 0 < snd c" using acc w by simp_all
  show "amt rewards d \<le> amt (fp_Accumulated up) d"
    using acct_covers [OF ac farm_okD(3) [OF assms(2)] farm_lawsD(3) [OF assms(1)] _ w(2) le] acc by simp
qed

lemma withdraw_settled:
  assumes laws: "farm_laws S X Y" and ok: "farm_ok S s" and pool: "map_of (fm_pools s) n = Some pool" and left: "periods_left s"
    and y: "CalculateAmountYieldedBetween S X Y e s pool = Inr (up, y)"
    and wd: "WithdrawRewards S Y e n (fp_TotalValueLocked pool) y a s = Inr (rewards, s2)"
    and ch: "\<And>l. map_of (fm_locks s) (a, n) = Some l \<Longrightarrow> 0 \<le> snd (li_Amount l) + ch"
    and upd: "UpdateLockInfo e a n ch s2 = Inr s3"
  shows "settled S s n pool a ch (amt rewards) up s3"
proof -
  obtain ep s1 H l where w: "period_ended S s n pool ep up H s1" "map_of (fm_locks s) (a, n) = Some l"
    "coins_nn rewards" "\<forall>c\<in>set rewards. 0 < snd c" and le: "\<And>d. d_unit S * amt rewards d \<le> claim (ratio s1 n) n H d l"
    and s2: "\<exists>b h. s2 = (set_fm_bank b s1)\<lparr>fm_hist := h\<rparr>"
      "\<And>x d. farm_bal S s2 x d = farm_bal S s x d + (if x = a then amt rewards d else 0) - (if x = yield_acc S then amt rewards d else 0)"
      "ratio s2 n \<subseteq>\<^sub>m ratio s1 n" "\<And>m. m \<noteq> n \<Longrightarrow> ratio s2 m = ratio s m"
    by (rule withdraw_ended [OF laws ok pool left y wd]) (rule that)
  note nl = locks_namedD(2) [OF farm_okD(1) [OF ok] w(2)]
  obtain h1 c1 where s1: "s1 = s\<lparr>fm_hist := h1, fm_cur := kv_set n c1 (fm_cur s)\<rparr>"
    using w(1) unfolding period_ended_def by blast
  have st: "fm_locks s2 = fm_locks s" "fm_pools s2 = fm_pools s" "fm_params s2 = fm_params s" "fm_white s2 = fm_white s"
    "fm_cur s2 = fm_cur s1" using s2(1) s1 by auto
  show ?thesis
  proof (rule settle_lock [OF laws ok w(1) _ _ _ _ ch [OF w(2)] _ _ _ _ st(2-5) s2(2-4) upd])
    show "fst (li_Amount l) = fst (fp_MinLockAmount pool)" by (rule farm_okD(6) [OF ok w(2) pool])
    show "0 \<le> amt rewards d" for d using w(3) by (simp add: coins_nn_def)
  qed (use w(2) st nl le in \<open>simp_all add: kv_val_def in_pool_def\<close>)
qed

end
