(* ===== verification/FarmHandlers.thy ===== *)
theory FarmHandlers
  imports FarmSettle
begin

text \<open>
  Every message of the farm keeps the invariant and the gap between what the module accounts hold
  and what they owe.
\<close>

definition keeps :: "'b sdk \<Rightarrow> 'b farm \<Rightarrow> 'b farm \<Rightarrow> bool" where
  "keeps S s s' \<longleftrightarrow> farm_ok S s' \<and> farm_gap S s' = farm_gap S s"

lemma farm_pays:
  assumes "farm_laws S X Y" and "farm_banked s f (b_acc_to_mod S (fm_bank s) a m cs) = Inr s'"
  shows "\<exists>b. s' = set_fm_bank b s"
    and "farm_bal S s' x d = farm_bal S s x d + (if x = b_mod_addr S m then amt cs d else 0) - (if x = a then amt cs d else 0)"
  using assms(2)
  by (auto simp: farm_banked_Inr moves_bal dest!: bank_moves(2) [OF sdk_lawsD(3) [OF farm_lawsD(2) [OF assms(1)]]])

lemma farm_returns:
  assumes "farm_laws S X Y" and "farm_banked s f (b_mod_to_acc S (fm_bank s) m a cs) = Inr s'"
  shows "\<exists>b. s' = set_fm_bank b s"
    and "farm_bal S s' x d = farm_bal S s x d + (if x = a then amt cs d else 0) - (if x = b_mod_addr S m then amt cs d else 0)"
  using assms(2)
  by (auto simp: farm_banked_Inr moves_bal dest!: bank_moves(3) [OF sdk_lawsD(3) [OF farm_lawsD(2) [OF assms(1)]]])

lemma stored_simps [simp]:
  "fm_pools (SetFarmPool p s) = kv_set (fp_Name p) p (fm_pools s)" "fm_cur (SetFarmPool p s) = fm_cur s"
  "fm_locks (SetFarmPool p s) = fm_locks s" "fm_params (SetFarmPool p s) = fm_params s" "fm_amm (SetFarmPool p s) = fm_amm s"
  "fm_hist (SetFarmPool p s) = fm_hist s" "fm_white (SetFarmPool p s) = fm_white s"
  by (simp_all add: SetFarmPool_def)

lemma noted_simps [simp]:
  "fm_pools (OnClaim a n cs s) = fm_pools s" "fm_cur (OnClaim a n cs s) = fm_cur s" "fm_locks (OnClaim a n cs s) = fm_locks s"
  "fm_params (OnClaim a n cs s) = fm_params s" "fm_amm (OnClaim a n cs s) = fm_amm s" "fm_hist (OnClaim a n cs s) = fm_hist s"
  "fm_white (OnClaim a n cs s) = fm_white s"
  by (simp_all add: OnClaim_def)

lemma amt_to_coins: "farm_laws S X Y \<Longrightarrow> amt (c_to_coins S c) d = amt [c] d"
  using coins_to_coins(2) [OF sdk_lawsD(2) [OF farm_lawsD(2)]] by blast

subsection \<open>Claim\<close>

lemma claim_keeps:
  assumes laws: "farm_laws S X Y" and ok: "farm_ok S s" and left: "periods_left s"
    and a: "mcl_Address m \<noteq> farm_acc S" "mcl_Address m \<noteq> yield_acc S" and h: "handleMsgClaim S X Y e s m = Inr s'"
  shows "keeps S s s'"
proof -
  obtain pool up y rewards s2 s3 p' where pool: "map_of (fm_pools s) (mcl_PoolName m) = Some pool"
    and y: "CalculateAmountYieldedBetween S X Y e s pool = Inr (up, y)"
    and w: "WithdrawRewards S Y e (fp_Name pool) (fp_TotalValueLocked pool) y (mcl_Address m) s = Inr (rewards, s2)"
    and u: "UpdateLockInfo e (mcl_Address m) (fp_Name pool) 0 s2 = Inr s3"
    and t: "take_rewards S Y up rewards = Inr p'"
    and s': "s' = OnClaim (mcl_Address m) (fp_Name pool) rewards (SetFarmPool p' s3)"
    using h by (auto simp: handleMsgClaim_def GetFarmPool_def rbind_Inr_iff split: option.splits)
  have n: "fp_Name pool = mcl_PoolName m" using farm_okD(5) [OF ok pool] by (simp add: pool_good_def)
  note w = w [unfolded n] and u = u [unfolded n]
  have st: "settled S s (mcl_PoolName m) pool (mcl_Address m) 0 (amt rewards) up s3"
    by (rule withdraw_settled [OF laws ok pool left y w _ u])
      (use locks_namedD(2) [OF farm_okD(1) [OF ok]] in fastforce)
  note cov = withdraw_covered [OF laws ok pool left y w]
  obtain acc where acc: "p' = up\<lparr>fp_Accumulated := acc\<rparr>" "coins_nn acc"
    "\<And>d. amt acc d = amt (fp_Accumulated up) d - amt rewards d"
    by (rule take_rewards_ok [OF laws cov(1,2) t]) (rule that)
  have "fp_Name up = mcl_PoolName m" using st n unfolding settled_def by auto
  note k = settled_store [OF laws ok pool st a, of s' p']
  show ?thesis unfolding keeps_def using acc \<open>fp_Name up = _\<close> by (intro conjI k) (simp_all add: s' amt_pair)
qed

subsection \<open>Lock\<close>

lemma valid_lock:
  "lock_ValidateBasic S m = None \<Longrightarrow> 0 < snd (ml_Amount m)"
  by (auto simp: lock_ValidateBasic_def split: if_splits)

lemma new_lock_settled:
  assumes laws: "farm_laws S X Y" and ok: "farm_ok S s" and pool: "map_of (fm_pools s) n = Some pool" and left: "periods_left s"
    and y: "CalculateAmountYieldedBetween S X Y e s pool = Inr (up, y)"
    and inc: "IncrementPoolPeriod S Y e n (fp_TotalValueLocked pool) y s = Inr (ep, s1)"
    and new: "map_of (fm_locks s) (a, n) = None" and x: "0 \<le> x"
    and s2: "s2 = SetAddressInFarmPool n a (SetLockInfo \<lparr>li_Owner = a, li_PoolName = n, li_Amount = (fst (fp_MinLockAmount pool), 0),
       li_StartHeight = e_Height e, li_Period = 0\<rparr> s1)"
    and upd: "UpdateLockInfo e a n x s2 = Inr s3"
  shows "settled S s n pool a x (\<lambda>_. 0) up s3"
proof -
  obtain H where H: "period_ended S s n pool ep up H s1" by (rule end_period [OF laws ok pool left y inc])
  obtain h1 c1 where s1: "s1 = s\<lparr>fm_hist := h1, fm_cur := kv_set n c1 (fm_cur s)\<rparr>" "\<And>m. m \<noteq> n \<Longrightarrow> ratio s1 m = ratio s m"
    using H unfolding period_ended_def by blast
  have rt: "ratio s2 = ratio s1" by (simp add: s2)
  show ?thesis
    by (rule settle_lock [OF laws ok H, where l = "\<lparr>li_Owner = a, li_PoolName = n, li_Amount = (fst (fp_MinLockAmount pool), 0),
       li_StartHeight = e_Height e, li_Period = 0\<rparr>" and ?s2.0 = s2, OF _ _ _ _ _ _ _ _ _ _ _ _ _ _ _ _ upd])
      (use s1 rt new x in \<open>simp_all add: s2 SetAddressInFarmPool_def SetLockInfo_def kv_val_def amt_pair map_le_refl\<close>)
qed

lemma lock_keeps:
  assumes laws: "farm_laws S X Y" and ok: "farm_ok S s" and left: "periods_left s" and valid: "lock_ValidateBasic S m = None"
    and a: "ml_Address m \<noteq> farm_acc S" "ml_Address m \<noteq> yield_acc S" and h: "handleMsgLock S X Y e s m = Inr s'"
  shows "keeps S s s'"
proof -
  let ?n = "ml_PoolName m" and ?a = "ml_Address m"
  let ?has = "HasLockInfo s ?a ?n"
  obtain pool where pool: "map_of (fm_pools s) ?n = Some pool" and dn: "fst (fp_MinLockAmount pool) = fst (ml_Amount m)"
    and min: "\<not> (\<not> ?has \<and> snd (ml_Amount m) < snd (fp_MinLockAmount pool))"
    using h by (auto simp: handleMsgLock_def GetFarmPool_def Let_def split: option.splits if_splits)
  have n: "fp_Name pool = ?n" using farm_okD(5) [OF ok pool] by (simp add: pool_good_def)
  obtain up y rewards p2 s2 s3 s4 tv where y: "CalculateAmountYieldedBetween S X Y e s pool = Inr (up, y)"
    and br: "(if ?has
       then rbind (WithdrawRewards S Y e (fp_Name pool) (fp_TotalValueLocked pool) y ?a s) (\<lambda>(rewards, s).
            rbind (take_rewards S Y up rewards) (\<lambda>up. Inr (rewards, up, s)))
       else rbind (IncrementPoolPeriod S Y e (fp_Name pool) (fp_TotalValueLocked pool) y s) (\<lambda>(_, s).
            rbind (farm_panic (x_new_coin X (fst (fp_MinLockAmount pool)) 0)) (\<lambda>zero.
            Inr ([], up, SetAddressInFarmPool ?n ?a (SetLockInfo \<lparr>li_Owner = ?a, li_PoolName = fp_Name pool, li_Amount = zero,
                   li_StartHeight = e_Height e, li_Period = 0\<rparr> s))))) = Inr (rewards, p2, s2)"
    and u: "UpdateLockInfo e ?a ?n (snd (ml_Amount m)) s2 = Inr s3"
    and b: "farm_banked s3 ErrFarmSendToModule (b_acc_to_mod S (fm_bank s3) ?a farmModule (c_to_coins S (ml_Amount m))) = Inr s4"
    and tv: "x_coin_add X (fp_TotalValueLocked p2) (ml_Amount m) = Some tv"
    and s': "s' = (if ?has then OnClaim ?a (fp_Name pool) rewards (SetFarmPool (p2\<lparr>fp_TotalValueLocked := tv\<rparr>) s4)
       else SetFarmPool (p2\<lparr>fp_TotalValueLocked := tv\<rparr>) s4)"
    using h pool dn min by (auto simp: handleMsgLock_def GetFarmPool_def rbind_Inr_iff Let_def split del: if_split)
  have x: "0 < snd (ml_Amount m)" by (rule valid_lock [OF valid])
  have "\<exists>w acc. settled S s ?n pool ?a (snd (ml_Amount m)) w up s3 \<and> p2 = up\<lparr>fp_Accumulated := acc\<rparr> \<and> coins_nn acc
    \<and> (\<forall>d. amt acc d = amt (fp_Accumulated up) d - w d)"
  proof (cases ?has)
    case True
    then have w: "WithdrawRewards S Y e ?n (fp_TotalValueLocked pool) y ?a s = Inr (rewards, s2)"
      and t: "take_rewards S Y up rewards = Inr p2"
      using br n by (auto simp: rbind_Inr_iff)
    have "settled S s ?n pool ?a (snd (ml_Amount m)) (amt rewards) up s3"
      by (rule withdraw_settled [OF laws ok pool left y w _ u])
        (use locks_namedD(2) [OF farm_okD(1) [OF ok]] x in fastforce)
    moreover note cov = withdraw_covered [OF laws ok pool left y w]
    ultimately show ?thesis using take_rewards_ok [OF laws cov(1,2) t] by metis
  next
    case False
    then obtain ep s1 where i: "IncrementPoolPeriod S Y e ?n (fp_TotalValueLocked pool) y s = Inr (ep, s1)" "p2 = up"
      and s2: "s2 = SetAddressInFarmPool ?n ?a (SetLockInfo \<lparr>li_Owner = ?a, li_PoolName = ?n,
        li_Amount = (fst (fp_MinLockAmount pool), 0), li_StartHeight = e_Height e, li_Period = 0\<rparr> s1)"
      using br n by (auto simp: rbind_Inr_iff dest!: swap_lawsD(5) [OF farm_lawsD(1) [OF laws]])
    have new: "map_of (fm_locks s) (?a, ?n) = None" using False by (simp add: HasLockInfo_def)
    have st: "settled S s ?n pool ?a (snd (ml_Amount m)) (\<lambda>_. 0) up s3"
      by (rule new_lock_settled [OF laws ok pool left y i(1) new _ s2 u]) (use x in simp)
    have "p2 = up\<lparr>fp_Accumulated := fp_Accumulated up\<rparr>" "coins_nn (fp_Accumulated up)"
      using i(2) st by (auto simp: settled_def)
    with st show ?thesis by (intro exI [of _ "\<lambda>_. 0"] exI [of _ "fp_Accumulated up"]) simp
  qed
  then obtain w acc where st: "settled S s ?n pool ?a (snd (ml_Amount m)) w up s3" and acc: "p2 = up\<lparr>fp_Accumulated := acc\<rparr>"
    "coins_nn acc" "\<And>d. amt acc d = amt (fp_Accumulated up) d - w d" by blast
  have nu: "fp_Name up = ?n" using st n unfolding settled_def by auto
  obtain bk where bk: "s4 = set_fm_bank bk s3" using farm_pays(1) [OF laws b] by blast
  have amm: "fm_amm s' = fm_amm s4" by (simp add: s')
  have bal: "farm_bal S s' z d = farm_bal S s3 z d + (if z = farm_acc S then amt [(fst (fp_MinLockAmount pool), snd (ml_Amount m))] d else 0)"
    if "z \<noteq> ?a" for z d
    using farm_pays(2) [OF laws b, of z d] that dn by (simp add: amm amt_to_coins [OF laws])
  have tv: "tv = (fst (fp_TotalValueLocked up), snd (fp_TotalValueLocked up) + snd (ml_Amount m))"
    using swap_lawsD(6) [OF farm_lawsD(1) [OF laws] tv] acc(1) by simp
  have rt: "ratio s' = ratio s3" by (simp add: s' bk)
  note k = settled_store [OF laws ok pool st a, of s' "p2\<lparr>fp_TotalValueLocked := tv\<rparr>", OF _ _ _ _ _ rt bal]
  show ?thesis unfolding keeps_def using acc nu tv by (intro conjI k) (simp_all add: s' bk)
qed

subsection \<open>Unlock\<close>

lemma unlock_keeps:
  assumes laws: "farm_laws S X Y" and ok: "farm_ok S s" and left: "periods_left s" and valid: "lock_ValidateBasic S m = None"
    and a: "ml_Address m \<noteq> farm_acc S" "ml_Address m \<noteq> yield_acc S" and h: "handleMsgUnlock S X Y e s m = Inr s'"
  shows "keeps S s s'"
proof -
  let ?n = "ml_PoolName m" and ?a = "ml_Address m" and ?x = "snd (ml_Amount m)"
  obtain l pool up y rewards s2 s3 s4 tv p' where l: "map_of (fm_locks s) (?a, ?n) = Some l"
    and lt: "x_coin_lt X (li_Amount l) (ml_Amount m) = Some False"
    and pool: "map_of (fm_pools s) ?n = Some pool" and dn: "fst (fp_MinLockAmount pool) = fst (ml_Amount m)"
    and y: "CalculateAmountYieldedBetween S X Y e s pool = Inr (up, y)"
    and w: "WithdrawRewards S Y e (fp_Name pool) (fp_TotalValueLocked pool) y ?a s = Inr (rewards, s2)"
    and u: "UpdateLockInfo e ?a ?n (- ?x) s2 = Inr s3"
    and b: "farm_banked s3 ErrFarmSendToAccount (b_mod_to_acc S (fm_bank s3) farmModule ?a (c_to_coins S (ml_Amount m))) = Inr s4"
    and tv: "x_coin_sub X (fp_TotalValueLocked up) (ml_Amount m) = Some tv"
    and t: "take_rewards S Y (up\<lparr>fp_TotalValueLocked := tv\<rparr>) rewards = Inr p'"
    and s': "s' = OnClaim ?a (fp_Name pool) rewards (SetFarmPool p' s4)"
    using h by (auto simp: handleMsgUnlock_def GetLockInfo_def GetFarmPool_def rbind_Inr_iff Let_def split: option.splits if_splits)
  have n: "fp_Name pool = ?n" using farm_okD(5) [OF ok pool] by (simp add: pool_good_def)
  note w = w [unfolded n]
  have "?x \<le> snd (li_Amount l)" using swap_lawsD(8) [OF farm_lawsD(1) [OF laws] lt] by simp
  then have st: "settled S s ?n pool ?a (- ?x) (amt rewards) up s3"
    by (intro withdraw_settled [OF laws ok pool left y w _ u]) (use l in simp)
  note cov = withdraw_covered [OF laws ok pool left y w]
  have cov1: "coins_nn (fp_Accumulated (up\<lparr>fp_TotalValueLocked := tv\<rparr>))" using cov(1) by simp
  obtain acc where acc: "p' = up\<lparr>fp_TotalValueLocked := tv, fp_Accumulated := acc\<rparr>" "coins_nn acc"
    "\<And>d. amt acc d = amt (fp_Accumulated up) d - amt rewards d"
    by (rule take_rewards_ok [OF laws cov1 cov(2) t]) (rule that; simp)
  have nu: "fp_Name up = ?n" using st n unfolding settled_def by auto
  obtain bk where bk: "s4 = set_fm_bank bk s3" using farm_returns(1) [OF laws b] by blast
  have amm: "fm_amm s' = fm_amm s4" by (simp add: s')
  have bal: "farm_bal S s' z d = farm_bal S s3 z d + (if z = farm_acc S then amt [(fst (fp_MinLockAmount pool), - ?x)] d else 0)"
    if "z \<noteq> ?a" for z d
    using farm_returns(2) [OF laws b, of z d] that dn by (simp add: amm amt_to_coins [OF laws] amt_pair)
  have tv: "tv = (fst (fp_TotalValueLocked up), snd (fp_TotalValueLocked up) + - ?x)"
    using swap_lawsD(7) [OF farm_lawsD(1) [OF laws] tv] by simp
  have rt: "ratio s' = ratio s3" by (simp add: s' bk)
  note k = settled_store [OF laws ok pool st a, of s' p', OF _ _ _ _ _ rt bal]
  show ?thesis unfolding keeps_def using acc nu tv by (intro conjI k) (simp_all add: s' bk)
qed

subsection \<open>Provide\<close>

lemma provide_keeps:
  assumes laws: "farm_laws S X Y" and ok: "farm_ok S s" and left: "periods_left s"
    and valid: "farm_ValidateBasic S (MsgProvide m) = None"
    and a: "mp_Address m \<noteq> farm_acc S" "mp_Address m \<noteq> yield_acc S" and h: "handleMsgProvide S X Y e s m = Inr s'"
  shows "keeps S s s'"
proof -
  let ?n = "mp_PoolName m" and ?a = "mp_Address m"
  let ?y = "\<lparr>yi_Remaining = mp_Amount m, yi_StartHeight = mp_StartHeight m, yi_PerBlock = mp_PerBlock m\<rparr>"
  obtain pool up y ep s1 s2 where pool: "map_of (fm_pools s) ?n = Some pool" and len: "length (fp_Yields pool) = 1"
    and y: "CalculateAmountYieldedBetween S X Y e s pool = Inr (up, y)" and rem: "snd (yi_Remaining (fp_Yields up ! 0)) = 0"
    and inc: "IncrementPoolPeriod S Y e (fp_Name pool) (fp_TotalValueLocked pool) y s = Inr (ep, s1)"
    and b: "farm_banked s1 ErrFarmSendToModule (b_acc_to_mod S (fm_bank s1) ?a YieldFarmingAccount (c_to_coins S (mp_Amount m))) = Inr s2"
    and s': "s' = SetFarmPool (up\<lparr>fp_Yields := (fp_Yields up)[0 := ?y]\<rparr>) s2"
    using h by (auto simp: handleMsgProvide_def GetFarmPool_def rbind_Inr_iff Let_def split: option.splits if_splits)
  have n: "fp_Name pool = ?n" using farm_okD(5) [OF ok pool] by (simp add: pool_good_def)
  obtain H where H: "period_ended S s ?n pool ep up H s1" by (rule end_period [OF laws ok pool left y inc [unfolded n]])
  obtain h1 c1 ys acc where s1: "s1 = s\<lparr>fm_hist := h1, fm_cur := kv_set ?n c1 (fm_cur s)\<rparr>"
    and c1: "1 \<le> ep" "pc_Period c1 = ep + 1" "period_ok (ep + 1)" "pc_Rewards c1 = []"
    and rt: "\<And>m. m \<noteq> ?n \<Longrightarrow> ratio s1 m = ratio s m"
    and up: "up = pool\<lparr>fp_Yields := ys, fp_Accumulated := acc\<rparr>" "coins_nn acc" "yields_ok ys" "length ys = length (fp_Yields pool)"
      "\<And>d. amt acc d + yet ys d = amt (fp_Accumulated pool) d + yet (fp_Yields pool) d"
    and ac: "acct (d_unit S) (ratio s1 ?n) (fm_locks s) ?n (ep + 1) (amt acc) (\<lambda>_. 0)"
    using H unfolding period_ended_def by blast
  obtain z where z: "ys = [z]" using up(4) len by (auto simp: length_Suc_conv)
  obtain bk where bk: "s2 = set_fm_bank bk s1" using farm_pays(1) [OF laws b] by blast
  let ?p = "up\<lparr>fp_Yields := [?y]\<rparr>"
  have s': "s' = SetFarmPool ?p s2" using s' up(1) z by simp
  have r': "ratio s' = ratio s1" by (simp add: s' bk)
  have e: "amt [] = (\<lambda>_. 0 :: int)" by (rule ext) simp
  have "0 \<le> snd (mp_Amount m)" "0 \<le> mp_PerBlock m" using valid by (auto simp: MsgProvide_ValidateBasic_def split: if_splits)
  then have good: "pool_good S s' ?n ?p"
    using farm_okD(5) [OF ok pool] c1 ac up(1,2) r' unfolding pool_good_def by (simp add: s' bk s1 e)
  have "farm_ok S s'"
    by (rule farm_ok_store [OF ok pool _ _ good, where a = ?a]) (use farm_okD(6) [OF ok _ pool] r' rt n up(1) in \<open>auto simp: s' bk s1\<close>)
  moreover have "farm_gap S s' = farm_gap S s"
  proof (rule farm_gap_store [OF ok pool, of _ ?p])
    have ne: "farm_acc S \<noteq> yield_acc S" using farm_lawsD(9) [OF laws] by simp
    have bal: "farm_bal S s' x d = farm_bal S s x d + (if x = yield_acc S then amt [mp_Amount m] d else 0) - (if x = ?a then amt [mp_Amount m] d else 0)"
      for x d using farm_pays(2) [OF laws b, of x d] by (simp add: s' s1 amt_to_coins [OF laws])
    show "farm_bal S s' (farm_acc S) d - farm_bal S s (farm_acc S) d
        = kv_sum (\<lambda>l. amt [li_Amount l] d) (fm_locks s') - kv_sum (\<lambda>l. amt [li_Amount l] d) (fm_locks s)" for d
      using bal [of "farm_acc S" d] a ne by (simp add: s' bk s1)
    show "farm_bal S s' (yield_acc S) d - farm_bal S s (yield_acc S) d
        = (amt (fp_Accumulated ?p) d + yet (fp_Yields ?p) d) - (amt (fp_Accumulated pool) d + yet (fp_Yields pool) d)" for d
      using bal [of "yield_acc S" d] a up(1) up(5) [of d] z rem by (auto simp: amt_pair split: if_splits)
  qed (use n up(1) in \<open>simp_all add: s' bk s1\<close>)
  ultimately show ?thesis by (simp add: keeps_def)
qed

subsection \<open>Create and destroy\<close>

lemma no_locks_sum:
  assumes "\<And>k l. map_of ls k = Some l \<Longrightarrow> li_PoolName l \<noteq> n" and "kv_ok ls" and "\<And>l. li_PoolName l \<noteq> n \<Longrightarrow> f l = 0"
  shows "kv_sum f ls = 0"
  using kv_sum_mono [OF assms(2), of f "\<lambda>_. 0"] kv_sum_mono [OF assms(2), of "\<lambda>_. 0" f] assms(1,3) by (force simp: kv_sum_def)

lemma create_keeps:
  assumes laws: "farm_laws S X Y" and ok: "farm_ok S s"
    and a: "mc_Owner m \<notin> {farm_acc S, yield_acc S}" "b_mod_addr S (e_FeeCollector e) \<notin> {farm_acc S, yield_acc S}"
    and h: "handleMsgCreatePool S X e s m = Inr s'"
  shows "keeps S s s'"
proof -
  let ?n = "mc_PoolName m" and ?a = "mc_Owner m" and ?dep = "fpa_CreatePoolDeposit (fm_params s)"
  let ?y = "\<lparr>yi_Remaining = (mc_YieldedSymbol m, 0), yi_StartHeight = 0, yi_PerBlock = 0\<rparr>"
  let ?p = "\<lparr>fp_Owner = ?a, fp_Name = ?n, fp_MinLockAmount = mc_MinLockAmount m, fp_DepositAmount = ?dep,
    fp_TotalValueLocked = (fst (mc_MinLockAmount m), 0), fp_Yields = [?y], fp_Accumulated = []\<rparr>"
  let ?c = "\<lparr>pc_StartHeight = e_Height e, pc_Period = 1, pc_Rewards = []\<rparr>"
  have new: "map_of (fm_pools s) ?n = None" using h by (auto simp: handleMsgCreatePool_def GetFarmPool_def split: if_splits)
  obtain s1 s2 where b1: "farm_banked s ErrFarmInsufficientCoins
       (b_acc_to_mod S (fm_bank s) ?a (e_FeeCollector e) (c_to_coins S (fpa_CreatePoolFee (fm_params s)))) = Inr s1"
    and b2: "farm_banked s1 ErrFarmInsufficientCoins
       (b_acc_to_mod S (fm_bank s1) ?a farmModule (c_to_coins S (fpa_CreatePoolDeposit (fm_params s1)))) = Inr s2"
    and s': "s' = SetPoolCurrentRewards ?n ?c (SetPoolHistoricalRewards ?n 0 \<lparr>ph_Ratio = [], ph_Count = 1\<rparr>
       (SetFarmPool (?p\<lparr>fp_DepositAmount := fpa_CreatePoolDeposit (fm_params s1)\<rparr>) s2))"
    using h by (auto simp: handleMsgCreatePool_def rbind_Inr_iff Let_def dest!: swap_lawsD(5) [OF farm_lawsD(1) [OF laws]] split: if_splits)
  obtain k1 where k1: "s1 = set_fm_bank k1 s" using farm_pays(1) [OF laws b1] by blast
  obtain k2 where k2: "s2 = set_fm_bank k2 s1" using farm_pays(1) [OF laws b2] by blast
  have f: "fm_pools s' = kv_set ?n ?p (fm_pools s)" "fm_locks s' = fm_locks s" "fm_cur s' = kv_set ?n ?c (fm_cur s)"
    "fm_params s' = fm_params s" "fm_white s' = fm_white s" "fm_amm s' = fm_amm s2"
    by (simp_all add: s' k1 k2 SetPoolCurrentRewards_def SetPoolHistoricalRewards_def)
  have p0: "period_ok 0" by (simp add: period_ok_def)
  have rt: "ratio s' m x = (if m = ?n \<and> x = 0 then Some [] else ratio s m x)" for m x
    by (simp add: s' k1 k2 ratio_set [OF p0])
  have none: "li_PoolName l \<noteq> ?n" if "map_of (fm_locks s) k = Some l" for k l
    using farm_okD(7) [OF ok] locks_namedD(2) [OF farm_okD(1) [OF ok]] that new
    unfolding lock_pool_def by (cases k) fastforce
  have "acct (d_unit S) (ratio s' ?n) (fm_locks s) ?n 1 (\<lambda>_. 0) (\<lambda>_. 0)"
    unfolding acct_def
  proof (intro conjI allI impI)
    show "coins_nn r" if "q < 1" "ratio s' ?n q = Some r" for q r
      using that rt [of ?n q] by (cases "q = 0") (auto simp: ratio_def period_ok_def)
    show "lock_ref (ratio s' ?n) ?n 1 l" if "map_of (fm_locks s) k = Some l" for k l
      using none [OF that] by (simp add: lock_ref_def)
    show "kv_sum (claim (ratio s' ?n) ?n H d) (fm_locks s) \<le> d_unit S * (0 - 0)" for H d
      using no_locks_sum [OF none farm_okD(3) [OF ok], where f = "claim (ratio s' ?n) ?n H d"] by (simp add: claim_def)
  qed simp_all
  moreover have "kv_sum (in_pool ?n) (fm_locks s) = 0"
    by (rule no_locks_sum [OF none farm_okD(3) [OF ok]]) (simp_all add: in_pool_def)
  moreover have "amt [] = (\<lambda>_. 0 :: int)" by (rule ext) simp
  ultimately have good: "pool_good S s' ?n ?p"
    using farm_okD(4) [OF ok] by (simp add: pool_good_def f period_ok_def)
  have "pool_good S s' m p" if "map_of (fm_pools s') m = Some p" for m p
  proof (cases "m = ?n")
    case False
    then have "map_of (fm_pools s) m = Some p" using that f by simp
    moreover have "ratio s' m = ratio s m" using rt False by (intro ext) simp
    ultimately show ?thesis
      using pool_good_other [OF farm_okD(5) [OF ok] farm_okD(1) [OF ok] False] f False by (simp add: map_le_refl)
  qed (use that f good in simp)
  moreover have "lock_pool s'"
    unfolding lock_pool_def f(1,2)
  proof (intro allI impI)
    fix b m l assume l: "map_of (fm_locks s) (b, m) = Some l"
    then obtain q where "map_of (fm_pools s) m = Some q" "fst (li_Amount l) = fst (fp_MinLockAmount q)"
      using farm_okD(7) [OF ok] unfolding lock_pool_def by blast
    then show "\<exists>q. map_of (kv_set ?n ?p (fm_pools s)) m = Some q \<and> fst (li_Amount l) = fst (fp_MinLockAmount q)"
      using new by (cases "m = ?n") simp_all
  qed
  ultimately have "farm_ok S s'"
    using ok f unfolding farm_ok_def by (simp add: kv_ok_set)
  moreover have "farm_gap S s' = farm_gap S s"
  proof
    fix d
    have "farm_acc S \<noteq> yield_acc S" using farm_lawsD(9) [OF laws] by simp
    then have "farm_bal S s' (farm_acc S) d = farm_bal S s (farm_acc S) d + amt [?dep] d" "farm_bal S s' (yield_acc S) d = farm_bal S s (yield_acc S) d"
      using farm_pays(2) [OF laws b1, of _ d] farm_pays(2) [OF laws b2, of _ d] a k1 by (auto simp: f amt_to_coins [OF laws])
    then show "farm_gap S s' d = farm_gap S s d"
      using new by (simp add: farm_gap_def farm_owed_def yield_owed_def f kv_sum_set [OF farm_okD(2) [OF ok]] kv_val_def amt_pair)
  qed
  ultimately show ?thesis by (simp add: keeps_def)
qed

lemma ratio_delete: "ratio (delete_history n s) m \<subseteq>\<^sub>m ratio s m"
proof -
  have "map_of (filter (\<lambda>(k, _). \<not> prefix n k) xs) k = (if prefix n k then None else map_of xs k)"
    for xs :: "(string, pool_history) kv" and k
    by (induction xs) auto
  then show ?thesis by (auto simp: map_le_def ratio_def delete_history_def dom_def split: if_splits)
qed

lemma finished_empty:
  assumes "yields_ok ys" and "list_all (\<lambda>y. \<not> 0 < snd (yi_Remaining y)) ys"
  shows "yet ys d = 0"
  using assms by (induction ys) (auto simp: amt_pair)

lemma destroy_keeps:
  assumes laws: "farm_laws S X Y" and ok: "farm_ok S s" and a: "md_Owner m \<notin> {farm_acc S, yield_acc S}"
    and h: "handleMsgDestroyPool S X Y e s m = Inr s'"
  shows "keeps S s s'"
proof -
  let ?n = "md_PoolName m" and ?a = "md_Owner m"
  obtain pool up y where pool: "map_of (fm_pools s) ?n = Some pool" "fp_Owner pool = ?a"
    and y: "CalculateAmountYieldedBetween S X Y e s pool = Inr (up, y)" and fin: "Finished up"
    using h by (auto simp: handleMsgDestroyPool_def GetFarmPool_def rbind_Inr_iff split: option.splits if_splits)
  obtain s1 s2 where
    b1: "(if coins_is_zero (fp_Accumulated up) then Inr s
              else farm_banked s ErrFarmInsufficientCoins (b_mod_to_acc S (fm_bank s) YieldFarmingAccount ?a (fp_Accumulated up))) = Inr s1"
    and b2: "(if 0 < snd (fp_DepositAmount pool)
              then farm_banked s1 ErrFarmInsufficientCoins (b_mod_to_acc S (fm_bank s1) farmModule ?a (c_to_coins S (fp_DepositAmount pool)))
              else Inr s1) = Inr s2"
    and s': "s' = DeletePoolCurrentRewards ?n (delete_history ?n (DeleteFarmPool ?n s2))"
    using h pool y fin by (auto simp: handleMsgDestroyPool_def GetFarmPool_def rbind_Inr_iff split del: if_split)
  note pool = pool(1)
  note g = farm_okD(5) [OF ok pool, unfolded pool_good_def]
  obtain ys acc where up: "up = pool\<lparr>fp_Yields := ys, fp_Accumulated := acc\<rparr>" "yields_ok ys"
    "\<And>d. amt acc d + yet ys d = amt (fp_Accumulated pool) d + yet (fp_Yields pool) d"
    by (rule CalculateAmountYieldedBetween_ok [OF laws y]) (use g that in blast)+
  have acc: "amt acc d = amt (fp_Accumulated pool) d + yet (fp_Yields pool) d" for d
    using up(1) up(3) [of d] finished_empty [OF up(2), of d] fin by (simp add: Finished_def)
  have "kv_sum (in_pool ?n) (fm_locks s) = 0" using g fin up(1) by (simp add: Finished_def)
  then have none: "m \<noteq> ?n" if "map_of (fm_locks s) (b, m) = Some l" for b m l
    using kv_sum_ge [OF farm_okD(3) [OF ok], of "in_pool ?n", OF _ that] locks_namedD(2) [OF farm_okD(1) [OF ok]] that
    by (fastforce simp: in_pool_def)
  have e1: "(\<exists>b. s1 = set_fm_bank b s) \<and> (\<forall>x d. farm_bal S s1 x d
      = farm_bal S s x d + (if x = ?a then amt acc d else 0) - (if x = yield_acc S then amt acc d else 0))"
  proof (cases "coins_is_zero acc")
    case True
    then show ?thesis using b1 up(1) amt_coins_is_zero [OF True]
      by (intro conjI exI [of _ "fm_bank s"]) (simp_all add: set_fm_bank_def set_am_bank_def)
  next
    case False
    then have b1: "farm_banked s ErrFarmInsufficientCoins (b_mod_to_acc S (fm_bank s) YieldFarmingAccount ?a acc) = Inr s1"
      using b1 up(1) by simp
    show ?thesis using farm_returns [OF laws b1] by blast
  qed
  have e2: "(\<exists>b. s2 = set_fm_bank b s1) \<and> (\<forall>x d. farm_bal S s2 x d = farm_bal S s1 x d
      + (if x = ?a then amt [fp_DepositAmount pool] d else 0) - (if x = farm_acc S then amt [fp_DepositAmount pool] d else 0))"
  proof (cases "0 < snd (fp_DepositAmount pool)")
    case True
    then show ?thesis using farm_returns [OF laws b2 [unfolded if_P [OF True]]] by (auto simp: amt_to_coins [OF laws])
  next
    case False
    then have "snd (fp_DepositAmount pool) = 0" using g by simp
    then show ?thesis using b2 by (intro conjI exI [of _ "fm_bank s1"]) (simp_all add: set_fm_bank_def set_am_bank_def amt_pair)
  qed
  obtain k1 k2 where k: "s1 = set_fm_bank k1 s" "s2 = set_fm_bank k2 s1" using e1 e2 by blast
  have f: "fm_pools s' = kv_del ?n (fm_pools s)" "fm_locks s' = fm_locks s" "fm_cur s' = kv_del ?n (fm_cur s)"
    "fm_params s' = fm_params s" "fm_white s' = kv_del ?n (fm_white s)" "fm_amm s' = fm_amm s2"
    by (simp_all add: s' k DeletePoolCurrentRewards_def delete_history_def DeleteFarmPool_def)
  have "ratio s' = ratio (delete_history ?n s)"
    by (rule ratio_cong) (simp add: s' k DeletePoolCurrentRewards_def delete_history_def DeleteFarmPool_def)
  then have rt: "ratio s' m \<subseteq>\<^sub>m ratio s m" for m using ratio_delete by simp
  have "pool_good S s' m p" if "map_of (fm_pools s') m = Some p" for m p
  proof -
    have "m \<noteq> ?n" "map_of (fm_pools s) m = Some p" using that f by (auto split: if_splits)
    then show ?thesis
      using pool_good_other [OF farm_okD(5) [OF ok] farm_okD(1) [OF ok] \<open>m \<noteq> ?n\<close>] f rt by simp
  qed
  then have "farm_ok S s'"
    using ok f none unfolding farm_ok_def lock_pool_def by (auto simp: kv_ok_del)
  moreover have "farm_gap S s' = farm_gap S s"
  proof
    fix d
    have "farm_acc S \<noteq> yield_acc S" using farm_lawsD(9) [OF laws] by simp
    then have "farm_bal S s' (farm_acc S) d = farm_bal S s (farm_acc S) d - amt [fp_DepositAmount pool] d"
      "farm_bal S s' (yield_acc S) d = farm_bal S s (yield_acc S) d - amt acc d"
      using e1 e2 a by (auto simp: f)
    then show "farm_gap S s' d = farm_gap S s d"
      using pool acc by (simp add: farm_gap_def farm_owed_def yield_owed_def f kv_sum_del [OF farm_okD(2) [OF ok]] kv_val_def)
  qed
  ultimately show ?thesis by (simp add: keeps_def)
qed

end
