(* ===== verification/AmmMarket.thy ===== *)
theory AmmMarket
  imports AmmLiquidity
begin

text \<open>
  The properties of the automated market maker over whole histories (\<open>amm_step\<close>, an interpretation of the
  locale \<open>growing_steps\<close>, and of \<open>conserving_steps\<close> when no swap pays to the module account) and over single messages.
\<close>

subsection \<open>Steps\<close>

fun swap_recipient :: "swap_msg \<Rightarrow> addr option" where
  "swap_recipient (MsgTokenToToken msg) = Some (tt_Recipient msg)"
| "swap_recipient m = None"

text \<open>
  The market maker between two messages of other modules: a handled message, or any change of
  the chain that leaves the module account, the pool tokens and their supply alone. Nobody signs for the module account,
  but a swap may name it as its recipient; with \<open>gifts = False\<close> no swap does.
\<close>

inductive amm_step :: "'b sdk \<Rightarrow> coin_ext \<Rightarrow> bool \<Rightarrow> 'b amm \<Rightarrow> 'b amm \<Rightarrow> bool" for S X gifts where
  message: "swap_ValidateBasic S m = None \<Longrightarrow> amm_acc S \<notin> set (swap_GetSigners m) \<Longrightarrow>
    gifts \<or> swap_recipient m \<noteq> Some (amm_acc S) \<Longrightarrow> swap_handler S X e s m = Inr s' \<Longrightarrow> amm_step S X gifts s s'"
| failed: "swap_handler S X e s m = Inl er \<Longrightarrow> amm_step S X gifts s s"
| other: "(\<And>d. bank_bal S (bank c) (amm_acc S) d = am_bal S s (amm_acc S) d) \<Longrightarrow>
    (\<And>n. b_supply S (bank c) (PoolTokenPrefix @ n) = am_supply S s (PoolTokenPrefix @ n)) \<Longrightarrow>
    (\<And>n. GetTokenInfo c (PoolTokenPrefix @ n) = GetTokenInfo (am_chain s) (PoolTokenPrefix @ n)) \<Longrightarrow>
    amm_step S X gifts s (s\<lparr>am_chain := c\<rparr>)"

lemma swap_handler_inv:
  assumes "swap_laws S X" and "amm_ok S s" and "swap_ValidateBasic S m = None"
    and "amm_acc S \<notin> set (swap_GetSigners m)" and "swap_handler S X e s m = Inr s'"
  shows "amm_ok S s' \<and> amm_gap S s \<le> amm_gap S s' \<and> (swap_recipient m \<noteq> Some (amm_acc S) \<longrightarrow> amm_gap S s' = amm_gap S s)"
proof (cases m)
  case (MsgAddLiquidity msg)
  then show ?thesis using assms add_liquidity_inv [OF assms(1,2), of msg] by auto
next
  case (MsgRemoveLiquidity msg)
  then show ?thesis using assms remove_liquidity_inv [OF assms(1,2), of msg] by auto
next
  case (MsgCreateExchange msg)
  then show ?thesis using assms create_exchange_inv [OF assms(1,2), of msg] by auto
next
  case (MsgTokenToToken msg)
  then show ?thesis using assms handleMsgTokenToToken_ok [OF assms(1,2), of msg] by (auto simp: le_fun_def fun_eq_iff)
qed

lemma amm_other:
  assumes ok: "amm_ok S s"
    and sup: "\<And>n. b_supply S (bank c) (PoolTokenPrefix @ n) = am_supply S s (PoolTokenPrefix @ n)"
    and tok: "\<And>n. GetTokenInfo c (PoolTokenPrefix @ n) = GetTokenInfo (am_chain s) (PoolTokenPrefix @ n)"
  shows "amm_ok S (s\<lparr>am_chain := c\<rparr>)"
proof -
  have "pool_ok S (s\<lparr>am_chain := c\<rparr>) n p" if "pool_ok S s n p" for n p
    using that sup tok by (auto simp: pool_ok_def pool_named_def)
  then show ?thesis using ok sup by (simp add: amm_ok_def)
qed

lemma amm_step_inv:
  "amm_step S X gifts s s' \<Longrightarrow> swap_laws S X \<Longrightarrow> amm_ok S s \<Longrightarrow>
     amm_ok S s' \<and> amm_gap S s \<le> amm_gap S s' \<and> (\<not> gifts \<longrightarrow> amm_gap S s' = amm_gap S s)"
proof (induction rule: amm_step.induct)
  case (message m e s s')
  then show ?case using swap_handler_inv by blast
next
  case (other c s)
  then show ?case using amm_other [of S s c] by (simp add: amm_gap_def)
qed simp

interpretation amm_machine: growing_steps "amm_step S X gifts" "\<lambda>s. swap_laws S X \<and> amm_ok S s" "amm_gap S" for S X gifts
  by unfold_locales (auto dest: amm_step_inv)

interpretation amm_exact: conserving_steps "amm_step S X False" "\<lambda>s. swap_laws S X \<and> amm_ok S s" "amm_gap S" for S X
  by unfold_locales (auto dest: amm_step_inv)

subsection \<open>A concrete market\<close>

text \<open>The reference bank with coin lists that are really sorted.\<close>

definition amm_sdk :: "ref_bank sdk" where
  "amm_sdk = ref_sdk\<lparr>c_sort := sort_key fst\<rparr>"

lemma amm_swap_laws: "swap_laws amm_sdk ref_coin_ext"
proof -
  have "sort_key fst cs = cs" if "coins_ok cs" for cs :: coins
    using that unfolding coins_ok_def by (intro sort_key_id_if_sorted strict_sorted_imp_sorted)
  then have "sdk_laws amm_sdk"
    using ref_sdk_laws
    by (simp add: amm_sdk_def sdk_laws_def dec_laws_def coins_laws_def bank_laws_def moves_def bank_bal_def)
  moreover have "d_unit amm_sdk = 100" "c_sort amm_sdk = sort_key fst" by (simp_all add: amm_sdk_def ref_sdk_def)
  ultimately show ?thesis by (auto simp: swap_laws_def ref_coin_ext_def split: if_splits)
qed

definition demo_pool :: "denom \<Rightarrow> denom \<Rightarrow> dec \<Rightarrow> dec \<Rightarrow> swap_pair" where
  "demo_pool base quote b q = \<lparr>sp_Quote = (quote, q), sp_Base = (base, b),
     sp_PoolTokenName = PoolTokenPrefix @ base @ ''_'' @ quote\<rparr>"

text \<open>Two pools with the native token, a seller and a bank that holds the reserves.\<close>

definition demo_amm :: "ref_bank amm" where
  "demo_amm =
     \<lparr>am_chain =
        demo_chain\<lparr>bank :=
            \<lparr>rb_bal = [(rb_mod ammswapModule, [(''abc'', 1000), (''okt'', 3000), (''xyz'', 1000)]),
                       (''al'', [(''abc'', 500), (''okt'', 500), (''xyz'', 500)])],
             rb_sup = [(''ammswap_abc_okt'', 100), (''ammswap_okt_xyz'', 100)]\<rparr>,
          tok := (tok demo_chain)\<lparr>ts_tokens :=
            [(''ammswap_abc_okt'', InitPoolToken amm_sdk ''ammswap_abc_okt''),
             (''ammswap_okt_xyz'', InitPoolToken amm_sdk ''ammswap_okt_xyz'')]\<rparr>\<rparr>,
      am_pairs = [(''abc_okt'', demo_pool ''abc'' ''okt'' 1000 2000), (''okt_xyz'', demo_pool ''okt'' ''xyz'' 1000 1000)],
      am_FeeRate = 0, am_notes = []\<rparr>"

lemma demo_amm_ok: "amm_ok amm_sdk demo_amm"
proof -
  let ?p1 = "demo_pool ''abc'' ''okt'' 1000 2000" and ?p2 = "demo_pool ''okt'' ''xyz'' 1000 1000"
  have sup: "am_supply amm_sdk demo_amm t = amt [(''ammswap_abc_okt'', 100), (''ammswap_okt_xyz'', 100)] t" for t
    by (simp add: demo_amm_def amm_sdk_def ref_sdk_def)
  have "pool_ok amm_sdk demo_amm ''abc_okt'' ?p1" "pool_ok amm_sdk demo_amm ''okt_xyz'' ?p2"
    unfolding pool_ok_def sup
    by (simp_all add: pool_named_def pool_state_def demo_pool_def TokenPairName_def PoolTokenPrefix_def
        GetTokenInfo_def demo_amm_def InitPoolToken_def)
  moreover have "map_of (am_pairs demo_amm) = [''abc_okt'' \<mapsto> ?p1, ''okt_xyz'' \<mapsto> ?p2]"
    by (auto simp: demo_amm_def)
  moreover have "am_supply amm_sdk demo_amm (PoolTokenPrefix @ n) = 0" if "n \<noteq> ''abc_okt''" "n \<noteq> ''okt_xyz''" for n
    using that unfolding sup by (auto simp: PoolTokenPrefix_def)
  moreover have "kv_ok (am_pairs demo_amm)" "am_FeeRate demo_amm = 0" "d_unit amm_sdk = 100"
    by (simp_all add: demo_amm_def kv_ok_def kv_keys_def amm_sdk_def ref_sdk_def)
  ultimately show ?thesis by (auto simp: amm_ok_def split: if_splits)
qed

definition demo_swap :: "addr \<Rightarrow> denom \<Rightarrow> msg_token_to_token" where
  "demo_swap recipient d = \<lparr>tt_SoldTokenAmount = (''abc'', 100), tt_MinBoughtTokenAmount = (d, 1), tt_Deadline = 200,
     tt_Recipient = recipient, tt_Sender = ''al''\<rparr>"

lemma demo_swap_valid:
  "d \<in> {''okt'', ''xyz''} \<Longrightarrow> recipient \<noteq> [] \<Longrightarrow> MsgTokenToToken_ValidateBasic amm_sdk (demo_swap recipient d) = None"
  by (auto simp: MsgTokenToToken_ValidateBasic_def demo_swap_def amm_sdk_def ref_sdk_def GetBaseQuoteTokenName_def
      ValidateBaseAndQuoteAmount_def ValidateSwapAmountName_def NotAllowedOriginSymbol_def)

lemma demo_swaps:
  "is_ok (handleMsgTokenToToken amm_sdk ref_coin_ext demo_env demo_amm (demo_swap ''al'' ''okt''))"
  "is_ok (handleMsgTokenToToken amm_sdk ref_coin_ext demo_env demo_amm (demo_swap ''bo'' ''xyz''))"
  by code_simp+

lemma demo_accounts: "''al'' \<noteq> amm_acc amm_sdk" "''bo'' \<noteq> amm_acc amm_sdk"
  by (simp_all add: amm_sdk_def ref_sdk_def rb_mod_def)

subsection \<open>Properties\<close>

text \<open>
  C19. A swap never lowers the constant product of a pool: after every successful swap
  message, direct or routed over the native token, every pool still exists and the product of its
  two reserves is at least what it was, whatever the truncating divisions lose.
\<close>

theorem swap_product_never_falls:
  assumes "swap_laws S X" and "amm_ok S s" and "MsgTokenToToken_ValidateBasic S msg = None"
    and "tt_Sender msg \<noteq> amm_acc S" and "handleMsgTokenToToken S X e s msg = Inr s'" and "map_of (am_pairs s) n = Some p"
  shows "\<exists>p'. map_of (am_pairs s') n = Some p'
    \<and> snd (sp_Base p) * snd (sp_Quote p) \<le> snd (sp_Base p') * snd (sp_Quote p')"
  using handleMsgTokenToToken_ok(4) [OF assms(1-5)] assms(6) unfolding pools_grow_def pool_product_def by blast

theorem swap_product_never_falls_witness:
  "\<exists>s' p'. handleMsgTokenToToken amm_sdk ref_coin_ext demo_env demo_amm (demo_swap ''al'' ''okt'') = Inr s'
    \<and> map_of (am_pairs s') ''abc_okt'' = Some p' \<and> 1000 * 2000 \<le> snd (sp_Base p') * snd (sp_Quote p')"
proof -
  obtain s' where s': "handleMsgTokenToToken amm_sdk ref_coin_ext demo_env demo_amm (demo_swap ''al'' ''okt'') = Inr s'"
    using demo_swaps(1) by (auto simp: is_ok_iff)
  have "map_of (am_pairs demo_amm) ''abc_okt'' = Some (demo_pool ''abc'' ''okt'' 1000 2000)"
    by (simp add: demo_amm_def)
  from swap_product_never_falls [OF amm_swap_laws demo_amm_ok demo_swap_valid _ s' this] s' demo_accounts
  show ?thesis by (auto simp: demo_swap_def demo_pool_def)
qed

text \<open>
  C10. The pools are always backed: in every state reachable by messages and by steps of other modules, starting
  from a state in which the module account holds exactly the reserves of all pools, it holds at least the reserves, for
  every denomination, and exactly the reserves if no swap named the module account as its recipient; and every pool is
  either empty with no pool tokens in circulation or has two positive reserves and a positive supply of pool tokens, so no
  pool tokens without reserves exist.
\<close>

theorem pools_always_backed:
  assumes "swap_laws S X" and "amm_ok S s"
    and "\<forall>d. am_bal S s (amm_acc S) d = kv_sum (\<lambda>p. reserve p d) (am_pairs s)"
    and "(amm_step S X gifts)\<^sup>*\<^sup>* s s'"
  shows "kv_sum (\<lambda>p. reserve p d) (am_pairs s') \<le> am_bal S s' (amm_acc S) d
    \<and> (\<not> gifts \<longrightarrow> am_bal S s' (amm_acc S) d = kv_sum (\<lambda>p. reserve p d) (am_pairs s'))
    \<and> (map_of (am_pairs s') n = Some p \<longrightarrow>
        pool_state (snd (sp_Base p)) (snd (sp_Quote p)) (am_supply S s' (sp_PoolTokenName p)))"
proof -
  have zero: "amm_gap S s d = 0" using assms(3) by (simp add: amm_gap_def)
  have *: "amm_ok S s'" "amm_gap S s \<le> amm_gap S s'" using amm_machine.reachable [OF assms(4)] assms(1,2) by auto
  have "0 \<le> amm_gap S s' d" using le_funD [OF *(2), of d] zero by simp
  moreover have "amm_gap S s' d = 0" if "\<not> gifts"
    using amm_exact.reachable [of S X s s'] assms(1,2,4) that zero by simp
  ultimately show ?thesis using amm_okD(4) [OF *(1)] by (auto simp: amm_gap_def pool_ok_def)
qed

theorem pools_always_backed_witness:
  "\<exists>s'. amm_step amm_sdk ref_coin_ext False demo_amm s' \<and> s' \<noteq> demo_amm
    \<and> am_bal amm_sdk s' (amm_acc amm_sdk) ''abc'' = kv_sum (\<lambda>p. reserve p ''abc'') (am_pairs s')"
proof -
  let ?msg = "demo_swap ''al'' ''okt''"
  obtain s' where s': "handleMsgTokenToToken amm_sdk ref_coin_ext demo_env demo_amm ?msg = Inr s'"
    using demo_swaps(1) by (auto simp: is_ok_iff)
  have step: "amm_step amm_sdk ref_coin_ext False demo_amm s'"
    by (rule amm_step.message [where m = "MsgTokenToToken ?msg" and e = demo_env])
      (use s' demo_swap_valid demo_accounts in \<open>auto simp: demo_swap_def\<close>)
  have backed: "\<forall>d. am_bal amm_sdk demo_amm (amm_acc amm_sdk) d = kv_sum (\<lambda>p. reserve p d) (am_pairs demo_amm)"
    by (simp add: bank_bal_def demo_amm_def amm_sdk_def ref_sdk_def rb_get_def reserve_eq demo_pool_def)
  have "am_notes s' \<noteq> []"
    using s' by (auto simp: handleMsgTokenToToken_def swapToken_def swapTokenByRouter_def swapTokenNativeToken_def
        rbind_Inr_iff OnSwapToken_def split: sum.splits if_splits)
  then have "s' \<noteq> demo_amm" by (auto simp: demo_amm_def)
  with step pools_always_backed [OF amm_swap_laws demo_amm_ok backed r_into_rtranclp, OF step, of "''abc''"]
  show ?thesis by blast
qed

lemma div_bounds:
  fixes x t b :: int
  assumes "0 < t"
  shows "x < (b + 1) * t \<Longrightarrow> x div t \<le> b" and "x < (x div t + 1) * t" and "x div t * t \<le> x"
proof -
  show le: "x div t * t \<le> x" using assms by (simp add: minus_mod_eq_div_mult [symmetric])
  show "x < (x div t + 1) * t"
    using assms pos_mod_bound [OF assms, of x] by (simp add: distrib_right minus_mod_eq_div_mult [symmetric])
  show "x div t \<le> b" if "x < (b + 1) * t"
  proof -
    have "x div t * t < (b + 1) * t" using le that by simp
    then have "x div t < b + 1" using assms by simp
    then show ?thesis by simp
  qed
qed

text \<open>
  The truncation of the deposit favours the depositor, that of the redemption the pool, and
  the second wins.
\<close>

lemma share_rounding:
  fixes base quote sup q b l :: int
  assumes pos: "0 < base" "0 < quote" "0 < sup" "0 < q" "0 < l" and l: "l = q * sup div quote"
    and b: "b = max 1 (q * base div quote)"
  shows "redeem (base + b) l (sup + l) \<le> b" and "redeem (quote + q) l (sup + l) \<le> q"
proof -
  have t: "0 < sup + l" using pos by simp
  have lq: "l * quote \<le> q * sup" unfolding l by (rule div_bounds(3) [OF pos(2)])
  have "q * base < (q * base div quote + 1) * quote" by (rule div_bounds(2) [OF pos(2)])
  also have "\<dots> \<le> (b + 1) * quote" using b pos(2) by (intro mult_right_mono) simp_all
  finally have qb: "q * base < (b + 1) * quote" .
  have "base * l * quote \<le> q * base * sup" using mult_left_mono [OF lq, of base] pos by (simp add: ac_simps)
  also have "\<dots> < (b + 1) * quote * sup" using qb pos by simp
  finally have "base * l * quote < (b + 1) * sup * quote" by (simp add: ac_simps)
  then have "base * l < (b + 1) * sup" using pos(2) by simp
  then have "(base + b) * l < (b + 1) * (sup + l)" using pos by (simp add: algebra_simps)
  then show "redeem (base + b) l (sup + l) \<le> b" unfolding redeem_def by (rule div_bounds(1) [OF t])
  have "(quote + q) * l < (q + 1) * (sup + l)" using lq pos by (simp add: algebra_simps)
  then show "redeem (quote + q) l (sup + l) \<le> q" unfolding redeem_def by (rule div_bounds(1) [OF t])
qed

lemma round_trip_amounts:
  assumes laws: "swap_laws S X" and ok: "amm_ok S s" and valid: "MsgAddLiquidity_ValidateBasic S msg = None"
    and p: "map_of (am_pairs s) n = Some p" and bl: "add_amounts S X s msg p = Inr (b, l)"
  shows "redeem (snd (sp_Base p) + b) l (am_supply S s (sp_PoolTokenName p) + l) \<le> b"
    and "redeem (snd (sp_Quote p) + snd (al_QuoteAmount msg)) l (am_supply S s (sp_PoolTokenName p) + l)
      \<le> snd (al_QuoteAmount msg)"
proof -
  note v = valid_add(1,2) [OF valid]
  note a = add_amounts_ok [OF laws ok p v bl]
  have "redeem (snd (sp_Base p) + b) l (am_supply S s (sp_PoolTokenName p) + l) \<le> b
    \<and> redeem (snd (sp_Quote p) + snd (al_QuoteAmount msg)) l (am_supply S s (sp_PoolTokenName p) + l) \<le> snd (al_QuoteAmount msg)"
  proof (cases "snd (sp_Quote p) = 0")
    case True
    then show ?thesis using pool_cases [OF ok p] a(2) by (auto simp: redeem_def)
  next
    case False
    then have "0 < snd (sp_Base p)" "0 < snd (sp_Quote p)" "0 < am_supply S s (sp_PoolTokenName p)"
      using pool_cases [OF ok p] by auto
    from share_rounding [OF this v(2) a(2)] a(4) [OF False] show ?thesis by blast
  qed
  then show "redeem (snd (sp_Base p) + b) l (am_supply S s (sp_PoolTokenName p) + l) \<le> b"
    and "redeem (snd (sp_Quote p) + snd (al_QuoteAmount msg)) l (am_supply S s (sp_PoolTokenName p) + l)
      \<le> snd (al_QuoteAmount msg)" by simp_all
qed

text \<open>
  C20. Adding liquidity and removing it again earns nothing: if a deposit succeeds and the same sender
  then removes exactly the pool tokens it was given, no balance of the sender is higher than before the
  deposit, although the deposit rounds the base tokens to pay down.
\<close>

theorem add_then_remove_no_profit:
  assumes laws: "swap_laws S X" and ok: "amm_ok S s" and va: "MsgAddLiquidity_ValidateBasic S add = None"
    and vr: "MsgRemoveLiquidity_ValidateBasic S rem = None" and acc: "al_Sender add \<noteq> amm_acc S"
    and add: "handleMsgAddLiquidity S X e s add = Inr s1" and rem: "handleMsgRemoveLiquidity S X e' s1 rem = Inr s2"
    and same: "rl_Sender rem = al_Sender add" "rl_pair_name rem = al_pair_name add"
    and all: "rl_Liquidity rem = am_supply S s1 (PoolTokenPrefix @ al_pair_name add)
      - am_supply S s (PoolTokenPrefix @ al_pair_name add)"
  shows "am_bal S s2 (al_Sender add) d \<le> am_bal S s (al_Sender add) d"
proof -
  obtain p p' b l where a: "add_amounts S X s add p = Inr (b, l)" "pool_update S s (al_pair_name add) p p' s1"
    "fst (sp_Quote p) = fst (al_QuoteAmount add)"
    "snd (sp_Base p') = snd (sp_Base p) + b" "snd (sp_Quote p') = snd (sp_Quote p) + snd (al_QuoteAmount add)"
    "am_supply S s1 (sp_PoolTokenName p) = am_supply S s (sp_PoolTokenName p) + l"
    and bals: "\<And>a d. a \<noteq> amm_acc S \<Longrightarrow> am_bal S s1 a d = am_bal S s a d + (if a = al_Sender add
       then amt [(sp_PoolTokenName p, l)] d - amt [al_QuoteAmount add, (fst (sp_Base p), b)] d else 0)"
    by (rule handleMsgAddLiquidity_ok [OF laws ok va acc add]) (rule that)
  note bal1 = bals [OF acc]
  have p: "map_of (am_pairs s) (al_pair_name add) = Some p" and p': "map_of (am_pairs s1) (al_pair_name add) = Some p'"
    and d: "fst (sp_Base p') = fst (sp_Base p)" "fst (sp_Quote p') = fst (sp_Quote p)" "sp_PoolTokenName p' = sp_PoolTokenName p"
    using a(2) by (simp_all add: pool_update_def pool_change_def)
  have "sp_PoolTokenName p = PoolTokenPrefix @ al_pair_name add"
    using amm_okD(4) [OF ok p] by (simp add: pool_ok_def pool_named_def)
  then have l: "rl_Liquidity rem = l" using all a(6) by simp
  have acc': "rl_Sender rem \<noteq> amm_acc S" using acc same by simp
  note ok1 = add_liquidity_inv(1) [OF laws ok va acc add]
  obtain r r' where r: "pool_update S s1 (rl_pair_name rem) r r' s2"
    and balr: "\<And>a d. a \<noteq> amm_acc S \<Longrightarrow> am_bal S s2 a d = am_bal S s1 a d + (if a = rl_Sender rem
       then amt [(fst (sp_Base r), redeem (snd (sp_Base r)) (rl_Liquidity rem) (am_supply S s1 (sp_PoolTokenName r))),
                 (fst (sp_Quote r), redeem (snd (sp_Quote r)) (rl_Liquidity rem) (am_supply S s1 (sp_PoolTokenName r)))] d
          - amt [(sp_PoolTokenName r, rl_Liquidity rem)] d else 0)"
    by (rule handleMsgRemoveLiquidity_ok [OF laws ok1 vr acc' rem]) (rule that; blast)
  note bal2 = balr [OF acc', unfolded l]
  have "r = p'" using r p' same(2) by (simp add: pool_update_def pool_change_def)
  moreover note round_trip_amounts [OF laws ok va p a(1)]
  ultimately show ?thesis
    using bal1 [of d] bal2 [of d] same(1) d a(3-6) amt_append [of "[al_QuoteAmount add]" "[(fst (sp_Base p), b)]" d]
    by (auto simp: amt_pair)
qed

definition demo_add :: msg_add_liquidity where
  "demo_add = \<lparr>al_MinLiquidity = 1, al_MaxBaseAmount = (''abc'', 100), al_QuoteAmount = (''okt'', 35), al_Deadline = 200,
     al_Sender = ''al''\<rparr>"

definition demo_remove :: msg_remove_liquidity where
  "demo_remove = \<lparr>rl_Liquidity = 1, rl_MinBaseAmount = (''abc'', 1), rl_MinQuoteAmount = (''okt'', 1), rl_Deadline = 200,
     rl_Sender = ''al''\<rparr>"

lemma demo_liquidity:
  "case handleMsgAddLiquidity amm_sdk ref_coin_ext demo_env demo_amm demo_add of
     Inl _ \<Rightarrow> False
   | Inr s1 \<Rightarrow> am_supply amm_sdk s1 ''ammswap_abc_okt'' = 101
       \<and> is_ok (handleMsgRemoveLiquidity amm_sdk ref_coin_ext demo_env s1 demo_remove)"
  by code_simp

theorem add_then_remove_no_profit_witness:
  "\<exists>s1 s2. handleMsgAddLiquidity amm_sdk ref_coin_ext demo_env demo_amm demo_add = Inr s1
    \<and> handleMsgRemoveLiquidity amm_sdk ref_coin_ext demo_env s1 demo_remove = Inr s2
    \<and> am_bal amm_sdk s2 ''al'' ''abc'' \<le> am_bal amm_sdk demo_amm ''al'' ''abc''"
proof -
  obtain s1 s2 where s: "handleMsgAddLiquidity amm_sdk ref_coin_ext demo_env demo_amm demo_add = Inr s1"
    "handleMsgRemoveLiquidity amm_sdk ref_coin_ext demo_env s1 demo_remove = Inr s2"
    "am_supply amm_sdk s1 ''ammswap_abc_okt'' = 101"
    using demo_liquidity by (auto simp: is_ok_iff split: sum.splits)
  have v: "MsgAddLiquidity_ValidateBasic amm_sdk demo_add = None" "MsgRemoveLiquidity_ValidateBasic amm_sdk demo_remove = None"
    by code_simp+
  have n: "al_pair_name demo_add = ''abc_okt''" "rl_pair_name demo_remove = ''abc_okt''"
    by (simp_all add: al_pair_name_def rl_pair_name_def demo_add_def demo_remove_def GetSwapTokenPairName_def
        GetBaseQuoteTokenName_def)
  have sup: "am_supply amm_sdk demo_amm ''ammswap_abc_okt'' = 100" by (simp add: demo_amm_def amm_sdk_def ref_sdk_def)
  have "am_bal amm_sdk s2 (al_Sender demo_add) ''abc'' \<le> am_bal amm_sdk demo_amm (al_Sender demo_add) ''abc''"
    by (rule add_then_remove_no_profit [OF amm_swap_laws demo_amm_ok v _ s(1,2)])
      (use s(3) n sup demo_accounts in \<open>simp_all add: demo_add_def demo_remove_def PoolTokenPrefix_def\<close>)
  then show ?thesis using s by (auto simp: demo_add_def)
qed

lemma no_native_pair:
  assumes "amm_ok S s"
  shows "map_of (am_pairs s) (GetSwapTokenPairName NativeToken NativeToken) = None"
proof (rule ccontr)
  assume "map_of (am_pairs s) (GetSwapTokenPairName NativeToken NativeToken) \<noteq> None"
  then obtain p where "map_of (am_pairs s) (GetSwapTokenPairName NativeToken NativeToken) = Some p" by auto
  then have "pool_named (GetSwapTokenPairName NativeToken NativeToken) p"
    using amm_okD(4) [OF assms] by (simp add: pool_ok_def)
  then have eq: "NativeToken @ ''_'' @ NativeToken = fst (sp_Base p) @ ''_'' @ fst (sp_Quote p)"
    and less: "fst (sp_Base p) < fst (sp_Quote p)"
    by (simp_all add: pool_named_def TokenPairName_def native_pair_name)
  from eq consider us where "NativeToken = fst (sp_Base p) @ us" "us @ ''_'' @ NativeToken = ''_'' @ fst (sp_Quote p)"
    | us where "NativeToken @ us = fst (sp_Base p)" "''_'' @ NativeToken = us @ ''_'' @ fst (sp_Quote p)"
    unfolding append_eq_append_conv2 by blast
  then show False
  proof cases
    case 1
    then show False using less native_no_underscore by (cases us) (auto, metis Un_iff list.set_intros(1) set_append)
  next
    case 2
    then show False using less native_no_underscore by (cases us) (auto, metis Un_iff list.set_intros(1) set_append)
  qed
qed

lemma routed_denoms:
  assumes "amm_ok S s" and "map_of (am_pairs s) (GetSwapTokenPairName d NativeToken) = Some p"
  shows "d \<noteq> NativeToken"
  using assms no_native_pair by fastforce

text \<open>
  A routed swap charges the sender in the native token as well: when the pair of a swap does not
  exist, the message is routed over the native token, and if sender and recipient differ the first hop pays
  the native tokens to the recipient while the second takes the same amount from the sender. So besides the
  sold tokens the sender loses a positive amount of native tokens that the recipient gains on top of the bought ones.
\<close>

theorem route_charges_native_twice:
  assumes "swap_laws S X" and "amm_ok S s" and "MsgTokenToToken_ValidateBasic S msg = None"
    and "tt_Sender msg \<noteq> amm_acc S" and "tt_Recipient msg \<noteq> amm_acc S"
    and "map_of (am_pairs s) (tt_pair_name msg) = None" and "handleMsgTokenToToken S X e s msg = Inr s'"
    and ne: "tt_Sender msg \<noteq> tt_Recipient msg"
  shows "\<exists>native bought. 0 < native \<and> snd (tt_MinBoughtTokenAmount msg) \<le> bought
    \<and> am_bal S s' (tt_Sender msg) (fst (tt_SoldTokenAmount msg))
        = am_bal S s (tt_Sender msg) (fst (tt_SoldTokenAmount msg)) - snd (tt_SoldTokenAmount msg)
    \<and> am_bal S s' (tt_Sender msg) NativeToken = am_bal S s (tt_Sender msg) NativeToken - native
    \<and> am_bal S s' (tt_Recipient msg) NativeToken = am_bal S s (tt_Recipient msg) NativeToken + native
    \<and> am_bal S s' (tt_Recipient msg) (fst (tt_MinBoughtTokenAmount msg))
        = am_bal S s (tt_Recipient msg) (fst (tt_MinBoughtTokenAmount msg)) + bought"
proof -
  have r: "swapTokenByRouter S X e s msg = Inr s'"
    using assms(6,7) by (simp add: handleMsgTokenToToken_def GetSwapTokenPair_def)
  obtain p1 p2 tn tb where *: "map_of (am_pairs s) (GetSwapTokenPairName (fst (tt_SoldTokenAmount msg)) NativeToken) = Some p1"
    "map_of (am_pairs s) (GetSwapTokenPairName (fst (tt_MinBoughtTokenAmount msg)) NativeToken) = Some p2"
    "snd (tt_MinBoughtTokenAmount msg) \<le> snd tb" "fst tn = NativeToken" "0 < snd tn" "fst tb = fst (tt_MinBoughtTokenAmount msg)"
    and bal: "\<And>a d. a \<noteq> amm_acc S \<Longrightarrow> am_bal S s' a d = am_bal S s a d
           + (if a = tt_Recipient msg then amt [tn] d + amt [tb] d else 0)
           - (if a = tt_Sender msg then amt [tt_SoldTokenAmount msg] d + amt [tn] d else 0)"
    by (rule router_ok [OF assms(1-4) r]) (rule that)
  note d = routed_denoms [OF assms(2) *(1)] routed_denoms [OF assms(2) *(2)]
  have "0 < snd tn \<and> snd (tt_MinBoughtTokenAmount msg) \<le> snd tb
    \<and> am_bal S s' (tt_Sender msg) (fst (tt_SoldTokenAmount msg))
        = am_bal S s (tt_Sender msg) (fst (tt_SoldTokenAmount msg)) - snd (tt_SoldTokenAmount msg)
    \<and> am_bal S s' (tt_Sender msg) NativeToken = am_bal S s (tt_Sender msg) NativeToken - snd tn
    \<and> am_bal S s' (tt_Recipient msg) NativeToken = am_bal S s (tt_Recipient msg) NativeToken + snd tn
    \<and> am_bal S s' (tt_Recipient msg) (fst (tt_MinBoughtTokenAmount msg))
        = am_bal S s (tt_Recipient msg) (fst (tt_MinBoughtTokenAmount msg)) + snd tb"
    using *(3-6) d ne bal [OF assms(4)] bal [OF assms(5)] by (auto simp: amt_pair)
  then show ?thesis by blast
qed

theorem route_charges_native_twice_witness:
  "\<exists>s' native. handleMsgTokenToToken amm_sdk ref_coin_ext demo_env demo_amm (demo_swap ''bo'' ''xyz'') = Inr s'
    \<and> 0 < native \<and> am_bal amm_sdk s' ''al'' NativeToken = am_bal amm_sdk demo_amm ''al'' NativeToken - native"
proof -
  obtain s' where s': "handleMsgTokenToToken amm_sdk ref_coin_ext demo_env demo_amm (demo_swap ''bo'' ''xyz'') = Inr s'"
    using demo_swaps(2) by (auto simp: is_ok_iff)
  have none: "map_of (am_pairs demo_amm) (tt_pair_name (demo_swap ''bo'' ''xyz'')) = None"
    by (simp add: demo_amm_def tt_pair_name_def demo_swap_def GetSwapTokenPairName_def GetBaseQuoteTokenName_def)
  from route_charges_native_twice [OF amm_swap_laws demo_amm_ok demo_swap_valid _ _ none s'] demo_accounts s'
  show ?thesis by (auto simp: demo_swap_def)
qed

text \<open>
  The price query predicts the swap: on the same state, a swap message that succeeds gives the
  recipient exactly the amount that \<open>queryBuyAmount\<close> answers for its sold coin, direct or routed, and this is
  at least the minimum the message asks for.
\<close>

theorem query_predicts_swap:
  assumes "swap_laws S X" and "amm_ok S s" and valid: "MsgTokenToToken_ValidateBasic S msg = None"
    and "tt_Sender msg \<noteq> amm_acc S" and "tt_Recipient msg \<noteq> amm_acc S"
    and q: "queryBuyAmount S X s (tt_SoldTokenAmount msg) (fst (tt_MinBoughtTokenAmount msg)) = Inr y"
    and h: "handleMsgTokenToToken S X e s msg = Inr s'"
  shows "am_bal S s' (tt_Recipient msg) (fst (tt_MinBoughtTokenAmount msg))
      = am_bal S s (tt_Recipient msg) (fst (tt_MinBoughtTokenAmount msg)) + y
    \<and> snd (tt_MinBoughtTokenAmount msg) \<le> y"
proof (cases "map_of (am_pairs s) (tt_pair_name msg)")
  case (Some p)
  then have name: "GetSwapTokenPair s (GetSwapTokenPairName (fst (tt_SoldTokenAmount msg)) (fst (tt_MinBoughtTokenAmount msg))) = Inr p"
    by (simp add: tt_pair_name_def pair_name_commute)
  have r: "swapToken S X e s msg = Inr s'" using Some h by (simp add: handleMsgTokenToToken_def GetSwapTokenPair_def)
  obtain tb where *: "CalculateTokenToBuy S X p (tt_SoldTokenAmount msg) (fst (tt_MinBoughtTokenAmount msg)) (am_FeeRate s) = Inr tb"
    "snd (tt_MinBoughtTokenAmount msg) \<le> snd tb" "fst tb = fst (tt_MinBoughtTokenAmount msg)"
    and bal: "\<And>a d. a \<noteq> amm_acc S \<Longrightarrow> am_bal S s' a d = am_bal S s a d
           + (if a = tt_Recipient msg then amt [tb] d else 0) - (if a = tt_Sender msg then amt [tt_SoldTokenAmount msg] d else 0)"
    by (rule swapToken_ok [OF assms(1-4) r]) (rule that; simp add: Some)
  have "y = snd tb" using q name *(1)
    by (simp add: queryBuyAmount_def del: GetSwapTokenPair_Inr split: option.splits if_splits)
  then show ?thesis using *(2,3) bal [OF assms(5)] valid_swap(2) [OF valid] by (simp add: amt_pair)
next
  case None
  then have name: "\<exists>er. GetSwapTokenPair s (GetSwapTokenPairName (fst (tt_SoldTokenAmount msg)) (fst (tt_MinBoughtTokenAmount msg))) = Inl er"
    by (simp add: tt_pair_name_def pair_name_commute GetSwapTokenPair_def)
  have r: "swapTokenByRouter S X e s msg = Inr s'" using None h by (simp add: handleMsgTokenToToken_def GetSwapTokenPair_def)
  obtain p1 p2 tn tb where p1: "map_of (am_pairs s) (GetSwapTokenPairName (fst (tt_SoldTokenAmount msg)) NativeToken) = Some p1"
    and p2: "map_of (am_pairs s) (GetSwapTokenPairName (fst (tt_MinBoughtTokenAmount msg)) NativeToken) = Some p2"
    and c: "CalculateTokenToBuy S X p1 (tt_SoldTokenAmount msg) NativeToken (am_FeeRate s) = Inr tn"
      "CalculateTokenToBuy S X p2 tn (fst (tt_MinBoughtTokenAmount msg)) (am_FeeRate s) = Inr tb"
    and *: "snd (tt_MinBoughtTokenAmount msg) \<le> snd tb" "fst tn = NativeToken" "fst tb = fst (tt_MinBoughtTokenAmount msg)"
    and bal: "\<And>a d. a \<noteq> amm_acc S \<Longrightarrow> am_bal S s' a d = am_bal S s a d
           + (if a = tt_Recipient msg then amt [tn] d + amt [tb] d else 0)
           - (if a = tt_Sender msg then amt [tt_SoldTokenAmount msg] d + amt [tn] d else 0)"
    by (rule router_ok [OF assms(1-4) r]) (rule that)
  have "y = snd tb"
    using q name c p1 p2 by (auto simp: queryBuyAmount_def rbind_Inr_iff split: option.splits if_splits)
  then show ?thesis
    using * bal [OF assms(5)] valid_swap(2) [OF valid] routed_denoms [OF assms(2) p2] by (simp add: amt_pair)
qed

theorem query_predicts_swap_witness:
  "\<exists>s'. handleMsgTokenToToken amm_sdk ref_coin_ext demo_env demo_amm (demo_swap ''bo'' ''xyz'') = Inr s'
    \<and> queryBuyAmount amm_sdk ref_coin_ext demo_amm (''abc'', 100) ''xyz'' = Inr 153
    \<and> am_bal amm_sdk s' ''bo'' ''xyz'' = am_bal amm_sdk demo_amm ''bo'' ''xyz'' + 153"
proof -
  obtain s' where s': "handleMsgTokenToToken amm_sdk ref_coin_ext demo_env demo_amm (demo_swap ''bo'' ''xyz'') = Inr s'"
    using demo_swaps(2) by (auto simp: is_ok_iff)
  have q: "queryBuyAmount amm_sdk ref_coin_ext demo_amm (tt_SoldTokenAmount (demo_swap ''bo'' ''xyz''))
      (fst (tt_MinBoughtTokenAmount (demo_swap ''bo'' ''xyz''))) = Inr 153"
    by code_simp
  from query_predicts_swap [OF amm_swap_laws demo_amm_ok demo_swap_valid _ _ q s'] demo_accounts s' q
  show ?thesis by (auto simp: demo_swap_def)
qed

end
