(* ===== verification/FarmMarket.thy ===== *)
theory FarmMarket
  imports FarmHandlers AmmMarket
begin

text \<open>
  The farm over whole histories: messages, the begin of a block, proposals of the white list and
  steps of other modules (\<open>farm_step\<close>, an interpretation of the locale \<open>conserving_steps\<close>), and the
  properties of the module.
\<close>

subsection \<open>Begin of a block\<close>

lemma allocate_one:
  assumes laws: "farm_laws S X Y" and ok: "farm_ok S s" and pool: "map_of (fm_pools s) (fp_Name pool) = Some pool"
    and c: "GetPoolCurrentRewards s (fp_Name pool) = Inr cur" and cs: "coins_nn cs"
    and s': "s' = SetFarmPool (pool\<lparr>fp_Accumulated := c_add2 S (fp_Accumulated pool) cs\<rparr>)
       (SetPoolCurrentRewards (fp_Name pool) (cur\<lparr>pc_Rewards := c_add2 S (pc_Rewards cur) cs\<rparr>) s)"
  shows "farm_ok S s'" and "farm_owed s' d = farm_owed s d" and "yield_owed s' d = yield_owed s d + amt cs d"
proof -
  let ?p = "pool\<lparr>fp_Accumulated := c_add2 S (fp_Accumulated pool) cs\<rparr>"
  note g = farm_okD(5) [OF ok pool, unfolded pool_good_def] and add = coins_nn_add [OF farm_lawsD(2) [OF laws] _ cs]
  have cur: "map_of (fm_cur s) (fp_Name pool) = Some cur" using c by (simp add: GetPoolCurrentRewards_def)
  then have nn: "coins_nn (fp_Accumulated pool)" "coins_nn (pc_Rewards cur)" using g by auto
  have f: "fm_pools s' = kv_set (fp_Name pool) ?p (fm_pools s)" "fm_locks s' = fm_locks s" "fm_params s' = fm_params s"
    "fm_white s' = fm_white s" "fm_cur s' = kv_set (fp_Name pool) (cur\<lparr>pc_Rewards := c_add2 S (pc_Rewards cur) cs\<rparr>) (fm_cur s)"
    by (simp_all add: s' SetPoolCurrentRewards_def)
  have rt: "ratio s' = ratio s" by (simp add: s')
  have e: "amt (c_add2 S (fp_Accumulated pool) cs) = (\<lambda>d. amt (fp_Accumulated pool) d + amt cs d)"
    "amt (c_add2 S (pc_Rewards cur) cs) = (\<lambda>d. amt (pc_Rewards cur) d + amt cs d)"
    using add(2) nn by auto
  have "acct (d_unit S) (ratio s' (fp_Name pool)) (fm_locks s) (fp_Name pool) (pc_Period cur)
      (amt (c_add2 S (fp_Accumulated pool) cs)) (amt (c_add2 S (pc_Rewards cur) cs))"
    unfolding e rt by (rule acct_reward) (use g cur cs in \<open>auto simp: coins_nn_def\<close>)
  then have good: "pool_good S s' (fp_Name pool) ?p"
    using g cur add(1) nn unfolding pool_good_def by (simp add: f)
  show "farm_ok S s'"
    by (rule farm_ok_store [OF ok pool _ _ good, where a = "[]"]) (use farm_okD(6) [OF ok _ pool] in \<open>auto simp: f rt\<close>)
  show "farm_owed s' d = farm_owed s d" "yield_owed s' d = yield_owed s d + amt cs d"
    using pool add(2) [OF nn(1)] by (simp_all add: farm_owed_def yield_owed_def f kv_sum_set [OF farm_okD(2) [OF ok]] kv_val_def)
qed

lemma allocate_ok:
  assumes laws: "farm_laws S X Y"
  shows "allocate S X Y yielded tot ps remaining s = Inr (r, s') \<Longrightarrow> farm_ok S s \<Longrightarrow> distinct (map (\<lambda>q. fp_Name (fst q)) ps) \<Longrightarrow>
    (\<And>p v. (p, v) \<in> set ps \<Longrightarrow> map_of (fm_pools s) (fp_Name p) = Some p) \<Longrightarrow>
    farm_ok S s' \<and> fm_amm s' = fm_amm s \<and> (\<forall>d. farm_owed s' d = farm_owed s d)
    \<and> (\<forall>d. yield_owed s' d = yield_owed s d + amt [(NativeToken, remaining - r)] d)"
proof (induction ps arbitrary: remaining s)
  case (Cons pv ps)
  obtain pool v where pv: "pv = (pool, v)" by force
  obtain a cs cur where cs: "y_from_dec Y NativeToken a = Some cs" and c: "GetPoolCurrentRewards s (fp_Name pool) = Inr cur"
    and r: "allocate S X Y yielded tot ps (remaining - a)
      (SetFarmPool (pool\<lparr>fp_Accumulated := c_add2 S (fp_Accumulated pool) cs\<rparr>)
       (SetPoolCurrentRewards (fp_Name pool) (cur\<lparr>pc_Rewards := c_add2 S (pc_Rewards cur) cs\<rparr>) s)) = Inr (r, s')"
    using Cons.prems(1) by (auto simp: pv rbind_Inr_iff Let_def split del: if_split)
  note l = farm_lawsD(6) [OF laws cs]
  have pool: "map_of (fm_pools s) (fp_Name pool) = Some pool" using Cons.prems(4) [of pool v] pv by simp
  let ?s1 = "SetFarmPool (pool\<lparr>fp_Accumulated := c_add2 S (fp_Accumulated pool) cs\<rparr>)
       (SetPoolCurrentRewards (fp_Name pool) (cur\<lparr>pc_Rewards := c_add2 S (pc_Rewards cur) cs\<rparr>) s)"
  have nn: "coins_nn cs" using l by simp
  note one = allocate_one [OF laws Cons.prems(2) pool c nn refl]
  have "map_of (fm_pools ?s1) (fp_Name p) = Some p" if "(p, v) \<in> set ps" for p v
  proof -
    have "fp_Name p \<noteq> fp_Name pool" using Cons.prems(3) that by (force simp: pv)
    then show ?thesis using Cons.prems(4) [of p v] that by (simp add: SetPoolCurrentRewards_def)
  qed
  moreover have "distinct (map (\<lambda>q. fp_Name (fst q)) ps)" using Cons.prems(3) by simp
  moreover have "fm_amm ?s1 = fm_amm s" by (simp add: SetPoolCurrentRewards_def)
  moreover have "amt [(NativeToken, a)] d + amt [(NativeToken, remaining - a - r)] d = amt [(NativeToken, remaining - r)] d" for d
    by (simp add: amt_pair)
  ultimately show ?case using Cons.IH [OF r one(1)] one(2,3) l by (simp add: add.assoc)
qed simp

lemma allocate_info_ok:
  assumes ok: "farm_ok S s"
  shows "allocate_info S X s names = Inr (ps, tot) \<Longrightarrow> distinct names \<Longrightarrow>
    distinct (map (\<lambda>q. fp_Name (fst q)) ps) \<and> (\<forall>(p, v)\<in>set ps. fp_Name p \<in> set names \<and> map_of (fm_pools s) (fp_Name p) = Some p)"
proof (induction names arbitrary: ps tot)
  case (Cons n names)
  then obtain pool v qs t where pool: "map_of (fm_pools s) n = Some pool" and r: "allocate_info S X s names = Inr (qs, t)"
    and ps: "ps = qs \<or> ps = (pool, v) # qs"
    by (auto simp: rbind_Inr_iff GetFarmPool_def split: option.splits if_splits)
  have "fp_Name pool = n" using farm_okD(5) [OF ok pool] by (simp add: pool_good_def)
  moreover have "distinct (map (\<lambda>q. fp_Name (fst q)) qs)" and qs: "\<And>p v. (p, v) \<in> set qs \<Longrightarrow> fp_Name p \<in> set names \<and> map_of (fm_pools s) (fp_Name p) = Some p"
    using Cons.IH [OF r] Cons.prems(2) by auto
  moreover have "n \<notin> fp_Name ` fst ` set qs" using qs Cons.prems(2) by auto
  ultimately show ?case using pool ps by (auto simp: image_image)
qed simp

lemma begin_keeps:
  assumes laws: "farm_laws S X Y" and ok: "farm_ok S s" and h: "farm_BeginBlocker S X Y s = Inr s'"
  shows "keeps S s s'"
proof -
  let ?mint = "b_mod_addr S MintFarmingAccount"
  let ?y = "amt (b_coins S (fm_bank s) ?mint) NativeToken"
  have acc: "farm_acc S \<noteq> ?mint" "yield_acc S \<noteq> ?mint" "farm_acc S \<noteq> yield_acc S" using farm_lawsD(9) [OF laws] by auto
  have bk: "farm_ok S (set_fm_bank b t)" "farm_owed (set_fm_bank b t) = farm_owed t" "yield_owed (set_fm_bank b t) = yield_owed t"
    if "farm_ok S t" for b t
    using that by (auto simp: farm_ok_def lock_pool_def pool_good_def farm_owed_def yield_owed_def)
  consider "s' = s"
    | b cs where "b_burn S (fm_bank s) MintFarmingAccount cs = Inr b" "s' = set_fm_bank b s"
    | cs ps tot s1 b where "y_from_dec Y NativeToken ?y = Some cs" "allocate_info S X s (GetWhitelist s) = Inr (ps, tot)"
        "allocate S X Y ?y tot ps ?y s = Inr (0, s1)"
        "y_mod_to_mod Y (fm_bank s1) MintFarmingAccount YieldFarmingAccount cs = Inr b" "s' = set_fm_bank b s1"
  proof (cases "?y \<le> 0")
    case True
    then show ?thesis using h by (intro that(1)) (simp add: farm_BeginBlocker_def)
  next
    case False
    then obtain cs where cs: "y_from_dec Y NativeToken ?y = Some cs"
      and br: "(if \<not> fpa_YieldNativeToken (fm_params s)
         then farm_banked s (\<lambda>_. FarmPanic) (b_burn S (fm_bank s) MintFarmingAccount cs)
         else rbind (allocate_info S X s (GetWhitelist s)) (\<lambda>(pools, tot).
           if tot \<le> 0 then Inr s
           else rbind (allocate S X Y ?y tot pools ?y s) (\<lambda>(remaining, s).
             if remaining \<noteq> 0 then Inl FarmPanic
             else farm_banked s (\<lambda>_. FarmPanic) (y_mod_to_mod Y (fm_bank s) MintFarmingAccount YieldFarmingAccount cs)))) = Inr s'"
      using h unfolding farm_BeginBlocker_def Let_def if_not_P [OF False] rbind_Inr_iff farm_panic_Inr by blast
    show ?thesis
    proof (cases "fpa_YieldNativeToken (fm_params s)")
      case False
      then show ?thesis using br that(2) by (auto simp: farm_banked_Inr)
    next
      case True
      then obtain ps tot where i: "allocate_info S X s (GetWhitelist s) = Inr (ps, tot)"
        and br: "(if tot \<le> 0 then Inr s
           else rbind (allocate S X Y ?y tot ps ?y s) (\<lambda>(remaining, s).
             if remaining \<noteq> 0 then Inl FarmPanic
             else farm_banked s (\<lambda>_. FarmPanic) (y_mod_to_mod Y (fm_bank s) MintFarmingAccount YieldFarmingAccount cs))) = Inr s'"
        using br by (auto simp: rbind_Inr_iff)
      then show ?thesis using that(1) that(3) [OF cs i] by (auto simp: rbind_Inr_iff farm_banked_Inr split: if_splits)
    qed
  qed
  then show ?thesis
  proof cases
    case 1
    then show ?thesis using ok by (simp add: keeps_def)
  next
    case 2
    have "bank_bal S b x d = farm_bal S s x d" if "x \<noteq> ?mint" for x d
      using 2(1) that sdk_lawsD(3) [OF farm_lawsD(2) [OF laws]] by (simp add: bank_laws_def)
    then show ?thesis using bk [OF ok] acc 2(2) by (simp add: keeps_def farm_gap_def fun_eq_iff)
  next
    case 3
    have "distinct (GetWhitelist s)" using kv_ok_distinct [OF farm_okD(8) [OF ok]] by (simp add: GetWhitelist_def)
    note i = allocate_info_ok [OF ok 3(2) this]
    have a: "farm_ok S s1 \<and> fm_amm s1 = fm_amm s \<and> (\<forall>d. farm_owed s1 d = farm_owed s d)
      \<and> (\<forall>d. yield_owed s1 d = yield_owed s d + amt [(NativeToken, ?y - 0)] d)"
      by (rule allocate_ok [OF laws 3(3) ok]) (use i in auto)
    have "bank_bal S b x d = farm_bal S s x d + (if x = yield_acc S then amt cs d else 0) - (if x = ?mint then amt cs d else 0)" for x d
      using moves_bal [OF farm_lawsD(8) [OF laws 3(4)], of x d] a by simp
    then show ?thesis using bk [of s1] a acc 3(5) farm_lawsD(6) [OF laws 3(1)] by (simp add: keeps_def farm_gap_def fun_eq_iff)
  qed
qed

subsection \<open>Steps\<close>

text \<open>
  The farm between two steps: a handled message, whose signer is no module account of the farm, a failed one,
  the begin of a block, a passed proposal, or any change of the rest of the chain and of the parameters that leaves
  the two module accounts alone. The period counters are \<open>uint64\<close>; a pool advances its counter once per message.
\<close>

inductive farm_step :: "'b sdk \<Rightarrow> coin_ext \<Rightarrow> 'b farm_fns \<Rightarrow> 'b farm \<Rightarrow> 'b farm \<Rightarrow> bool" for S X Y where
  message: "farm_ValidateBasic S m = None \<Longrightarrow>
    set (b_mod_addr S (e_FeeCollector e) # farm_GetSigners m) \<inter> {farm_acc S, yield_acc S} = {} \<Longrightarrow>
    periods_left s \<Longrightarrow> farm_handler S X Y e s m = Inr s' \<Longrightarrow> farm_step S X Y s s'"
| failed: "farm_handler S X Y e s m = Inl er \<Longrightarrow> farm_step S X Y s s"
| begin_block: "farm_BeginBlocker S X Y s = Inr s' \<Longrightarrow> farm_step S X Y s s'"
| proposal: "handleManageWhiteListProposal s p = Inr s' \<Longrightarrow> farm_step S X Y s s'"
| other: "(\<And>d. bank_bal S (am_bank am) (farm_acc S) d = farm_bal S s (farm_acc S) d) \<Longrightarrow>
    (\<And>d. bank_bal S (am_bank am) (yield_acc S) d = farm_bal S s (yield_acc S) d) \<Longrightarrow>
    0 \<le> snd (fpa_CreatePoolDeposit ps) \<Longrightarrow> farm_step S X Y s (s\<lparr>fm_amm := am, fm_params := ps\<rparr>)"

lemma farm_handler_keeps:
  assumes laws: "farm_laws S X Y" and ok: "farm_ok S s" and left: "periods_left s" and valid: "farm_ValidateBasic S m = None"
    and acc: "set (b_mod_addr S (e_FeeCollector e) # farm_GetSigners m) \<inter> {farm_acc S, yield_acc S} = {}"
    and h: "farm_handler S X Y e s m = Inr s'"
  shows "keeps S s s'"
proof (cases m)
  case (MsgCreatePool c)
  then show ?thesis using create_keeps [OF laws ok, of c e s'] acc h by auto
next
  case (MsgDestroyPool d)
  then show ?thesis using destroy_keeps [OF laws ok, of d e s'] acc h by auto
next
  case (MsgProvide p)
  then show ?thesis using provide_keeps [OF laws ok left, of p e s'] valid acc h by auto
next
  case (MsgLock l)
  then show ?thesis using lock_keeps [OF laws ok left, of l e s'] valid acc h by auto
next
  case (MsgUnlock l)
  then show ?thesis using unlock_keeps [OF laws ok left, of l e s'] valid acc h by auto
next
  case (MsgClaim c)
  then show ?thesis using claim_keeps [OF laws ok left, of c e s'] acc h by auto
qed

lemma farm_other:
  assumes "farm_ok S s" and "fm_pools s' = fm_pools s" "fm_locks s' = fm_locks s" "fm_cur s' = fm_cur s" "fm_hist s' = fm_hist s"
    and "kv_ok (fm_white s')" and "0 \<le> snd (fpa_CreatePoolDeposit (fm_params s'))"
    and "\<And>d. farm_bal S s' (farm_acc S) d = farm_bal S s (farm_acc S) d" "\<And>d. farm_bal S s' (yield_acc S) d = farm_bal S s (yield_acc S) d"
  shows "keeps S s s'"
proof -
  have "ratio s' = ratio s" by (rule ratio_cong) (rule assms(5))
  then have "farm_ok S s'" using assms by (simp add: farm_ok_def lock_pool_def pool_good_def)
  moreover have "farm_gap S s' = farm_gap S s"
    using assms by (intro ext) (simp add: farm_gap_def farm_owed_def yield_owed_def)
  ultimately show ?thesis by (simp add: keeps_def)
qed

lemma farm_step_keeps:
  assumes "farm_step S X Y s s'" and "farm_laws S X Y" and "farm_ok S s"
  shows "keeps S s s'"
  using assms(1)
proof cases
  case (message m e)
  then show ?thesis using farm_handler_keeps [OF assms(2,3)] by blast
next
  case begin_block
  then show ?thesis by (rule begin_keeps [OF assms(2,3)])
next
  case (proposal p)
  then have "s' = SetWhitelist (wl_PoolName p) s \<or> s' = DeleteWhiteList (wl_PoolName p) s"
    by (auto simp: handleManageWhiteListProposal_def rbind_Inr_iff split: if_splits)
  then show ?thesis using farm_okD(4,8) [OF assms(3)]
    by (intro farm_other [OF assms(3)]) (auto simp: SetWhitelist_def DeleteWhiteList_def kv_ok_set kv_ok_del)
next
  case (other am ps)
  then show ?thesis using farm_okD(8) [OF assms(3)] by (intro farm_other [OF assms(3)]) simp_all
qed (use assms(3) in \<open>simp add: keeps_def\<close>)

interpretation farm_machine: conserving_steps "farm_step S X Y" "\<lambda>s. farm_laws S X Y \<and> farm_ok S s" "farm_gap S" for S X Y
  by unfold_locales (auto dest: farm_step_keeps simp: keeps_def)

subsection \<open>The invariants of the module\<close>

lemma farm_owed_invariant:
  assumes "sdk_laws S"
  shows "amt (moduleAccountInvariant S s) d = farm_owed s d"
proof -
  note l = sdk_lawsD(2) [OF assms]
  have "coins_ok (c_to_coins S c)" for c by (rule coins_to_coins(1) [OF l])
  note a = coins_fold [OF assms, of "GetFarmPools s" "\<lambda>p. c_to_coins S (fp_DepositAmount p)" "[]", OF this]
    and b = coins_fold [OF assms, of "fm_locks s" "\<lambda>kl. [li_Amount (snd kl)]" "[]"]
  show ?thesis
    using a b coins_add2(2) [OF l, of _ _ d]
    by (simp add: moduleAccountInvariant_def farm_owed_def kv_sum_def GetFarmPools_def coins_to_coins(2) [OF l] comp_def case_prod_unfold)
qed

lemma yield_owed_invariant:
  assumes laws: "sdk_laws S" and ok: "farm_ok S s"
  shows "amt (yieldFarmingAccountInvariant S s) d = yield_owed s d"
proof -
  let ?g = "\<lambda>pool acc. fold (\<lambda>y acc. c_add2 S acc [yi_Remaining y]) (fp_Yields pool) (c_add2 S acc (fp_Accumulated pool))"
  note add = coins_add2 [OF sdk_lawsD(2) [OF laws]]
  have one: "coins_ok (?g pool acc)" "amt (?g pool acc) d = amt acc d + (amt (fp_Accumulated pool) d + yet (fp_Yields pool) d)"
    if "coins_ok acc" "coins_ok (fp_Accumulated pool)" for pool acc
    using coins_fold [OF laws, of "fp_Yields pool" "\<lambda>y. [yi_Remaining y]" "c_add2 S acc (fp_Accumulated pool)"] add that
    by (simp_all add: yet_def)
  have sum: "amt (fold ?g ps acc) d = amt acc d + sum_list (map (\<lambda>p. amt (fp_Accumulated p) d + yet (fp_Yields p) d) ps)"
    if "coins_ok acc" "\<And>p. p \<in> set ps \<Longrightarrow> coins_ok (fp_Accumulated p)" for ps acc
    using that
  proof (induction ps arbitrary: acc)
    case (Cons p ps)
    have p: "coins_ok (fp_Accumulated p)" by (rule Cons.prems(2)) simp
    show ?case using Cons.IH [OF one(1) [OF Cons.prems(1) p]] one(2) [OF Cons.prems(1) p] Cons.prems(2) by simp
  qed simp
  have "coins_ok (fp_Accumulated p)" if p: "p \<in> set (GetFarmPools s)" for p
  proof -
    obtain n where "(n, p) \<in> set (fm_pools s)" using p by (auto simp: GetFarmPools_def)
    then have "map_of (fm_pools s) n = Some p" using kv_ok_distinct [OF farm_okD(2) [OF ok]] by simp
    then show ?thesis using farm_okD(5) [OF ok] by (auto simp: pool_good_def coins_nn_def)
  qed
  then show ?thesis using sum [of "[]" "GetFarmPools s"]
    by (simp add: yieldFarmingAccountInvariant_def yield_owed_def kv_sum_def GetFarmPools_def comp_def)
qed

subsection \<open>A concrete farm\<close>

definition scale_coins :: "(dec \<Rightarrow> dec) \<Rightarrow> coins \<Rightarrow> coins" where
  "scale_coins f cs = filter (\<lambda>c. snd c \<noteq> 0) (map (\<lambda>(d, x). (d, f x)) cs)"

definition ref_farm_fns :: "ref_bank farm_fns" where
  "ref_farm_fns =
     \<lparr>y_quo = (\<lambda>cs q. if q = 0 then None else Some (scale_coins (\<lambda>x. x * 100 div q) cs)),
      y_mul = (\<lambda>cs m. Some (scale_coins (\<lambda>x. x * m div 100) cs)),
      y_from_dec = (\<lambda>d a. if a < 0 then None else Some (if a = 0 then [] else [(d, a)])),
      y_all_lt = (\<lambda>a b. b \<noteq> [] \<and> list_all (\<lambda>(d, x). amt a d < x) b),
      y_mod_to_mod = (\<lambda>b m m' cs. rb_move b (rb_mod m) (rb_mod m') cs)\<rparr>"

lemma scale_coins_ok:
  assumes "f 0 = 0"
  shows "coins_ok cs \<Longrightarrow> coins_ok (scale_coins f cs) \<and> amt (scale_coins f cs) d = f (amt cs d)"
proof (induction cs)
  case (Cons c cs)
  obtain e x where c: "c = (e, x)" by force
  have sub: "fst ` set (scale_coins f cs) \<subseteq> fst ` set cs" by (force simp: scale_coins_def)
  have ok: "coins_ok ((e, x) # cs)" "coins_ok cs" "\<forall>d\<in>fst ` set cs. e < d" using Cons.prems by (simp_all add: c coins_ok_Cons)
  have "amt cs e = 0" using coins_ok_amt [OF ok(1), of e x] by simp
  then have "amt (scale_coins f ((e, x) # cs)) d = f (amt ((e, x) # cs) d)"
    using Cons.IH ok(2) assms by (cases "d = e") (auto simp: scale_coins_def)
  moreover have "coins_ok (scale_coins f ((e, x) # cs))"
    using Cons.IH ok sub by (auto simp: scale_coins_def coins_ok_Cons)
  ultimately show ?case by (simp add: c)
qed (use assms in \<open>simp add: scale_coins_def\<close>)

lemma scale_coins_pos: "\<forall>c\<in>set (scale_coins f cs). snd c \<noteq> 0"
  by (auto simp: scale_coins_def)

lemma coins_nn_pos: "coins_nn cs \<Longrightarrow> \<forall>c\<in>set cs. snd c \<noteq> 0 \<Longrightarrow> \<forall>c\<in>set cs. 0 < snd c"
  using coins_ok_amt unfolding coins_nn_def by (metis order_less_le prod.collapse)

lemma demo_farm_laws: "farm_laws amm_sdk ref_coin_ext ref_farm_fns"
proof -
  have u: "d_unit amm_sdk = 100" by (simp add: amm_sdk_def ref_sdk_def)
  have q: "coins_nn (scale_coins (\<lambda>x. x * 100 div q) cs) \<and> (\<forall>d. amt (scale_coins (\<lambda>x. x * 100 div q) cs) d = amt cs d * 100 div q)"
    if "coins_nn cs" "0 < q" for cs q
    using that scale_coins_ok [of "\<lambda>x. x * 100 div q" cs] by (auto simp: coins_nn_def pos_imp_zdiv_nonneg_iff)
  have m: "coins_nn (scale_coins (\<lambda>x. x * m div 100) cs) \<and> (\<forall>d. amt (scale_coins (\<lambda>x. x * m div 100) cs) d = amt cs d * m div 100)"
    if "coins_nn cs" "0 \<le> m" for cs m
    using that scale_coins_ok [of "\<lambda>x. x * m div 100" cs] by (auto simp: coins_nn_def pos_imp_zdiv_nonneg_iff)
  have pos: "0 < x" if "coins_nn cs" "0 \<le> m" "(d, x) \<in> set (scale_coins (\<lambda>x. x * m div 100) cs)" for cs m d x
    using coins_nn_pos [OF _ scale_coins_pos, of "\<lambda>x. x * m div 100" cs] m [OF that(1,2)] that(3) by fastforce
  have lt: "\<exists>d. amt a d < amt b d" if "coins_ok b" "b \<noteq> []" "list_all (\<lambda>(d, x). amt a d < x) b" for a b
  proof -
    have "(fst (hd b), snd (hd b)) \<in> set b" using that(2) by simp
    then show ?thesis using coins_ok_amt [OF that(1)] that(3) by (fastforce simp: list_all_iff)
  qed
  have mv: "moves amm_sdk b src dst cs b' \<longleftrightarrow> moves ref_sdk b src dst cs b'" for b src dst cs b'
    by (simp add: moves_def bank_bal_def amm_sdk_def)
  have one: "coins_nn [(d, a)]" if "0 < a" for d a using that by (simp add: coins_nn_def amt_pair)
  have ad: "b_mod_addr amm_sdk = rb_mod" by (simp add: amm_sdk_def ref_sdk_def)
  show ?thesis
    unfolding farm_laws_def u mv ad
    using amm_swap_laws q m pos lt ref_moves one
    by (auto simp: ref_farm_fns_def rb_mod_def farmModule_def YieldFarmingAccount_def MintFarmingAccount_def split: if_splits)
qed

text \<open>
  Two pools of the same owner, whose names share a prefix: an empty one, and one with a lock of two tokens that has
  yielded since height one.
\<close>

definition demo_farm_pool :: "string \<Rightarrow> dec \<Rightarrow> dec \<Rightarrow> farm_pool" where
  "demo_farm_pool n locked remaining =
     \<lparr>fp_Owner = ''ow'', fp_Name = n, fp_MinLockAmount = (''lpt'', 100), fp_DepositAmount = (''okt'', 10),
      fp_TotalValueLocked = (''lpt'', locked),
      fp_Yields = [\<lparr>yi_Remaining = (''yld'', remaining), yi_StartHeight = (if remaining = 0 then 0 else 1),
                    yi_PerBlock = (if remaining = 0 then 0 else 100)\<rparr>],
      fp_Accumulated = []\<rparr>"

definition demo_lock :: lock_info where
  "demo_lock = \<lparr>li_Owner = ''al'', li_PoolName = ''ab'', li_Amount = (''lpt'', 200), li_StartHeight = 1, li_Period = 1\<rparr>"

definition demo_farm :: "ref_bank farm" where
  "demo_farm =
     SetPoolHistoricalRewards ''a'' 0 \<lparr>ph_Ratio = [], ph_Count = 1\<rparr> (SetPoolHistoricalRewards ''ab'' 1 \<lparr>ph_Ratio = [], ph_Count = 2\<rparr>
     \<lparr>fm_amm = demo_amm\<lparr>am_chain := demo_chain\<lparr>bank :=
        \<lparr>rb_bal = [(rb_mod farmModule, [(''lpt'', 200), (''okt'', 20)]), (rb_mod YieldFarmingAccount, [(''yld'', 1000)])], rb_sup = []\<rparr>\<rparr>\<rparr>,
      fm_pools = [(''a'', demo_farm_pool ''a'' 0 0), (''ab'', demo_farm_pool ''ab'' 200 1000)],
      fm_locks = [((''al'', ''ab''), demo_lock)], fm_members = [], fm_white = [], fm_hist = [],
      fm_cur = [(''a'', \<lparr>pc_StartHeight = 1, pc_Period = 1, pc_Rewards = []\<rparr>), (''ab'', \<lparr>pc_StartHeight = 1, pc_Period = 2, pc_Rewards = []\<rparr>)],
      fm_params = \<lparr>fpa_QuoteSymbol = ''okt'', fpa_CreatePoolFee = (''okt'', 0), fpa_CreatePoolDeposit = (''okt'', 10), fpa_YieldNativeToken = True\<rparr>,
      fm_notes = []\<rparr>)"

lemma demo_farm_simps:
  "fm_pools demo_farm = [(''a'', demo_farm_pool ''a'' 0 0), (''ab'', demo_farm_pool ''ab'' 200 1000)]"
  "fm_locks demo_farm = [((''al'', ''ab''), demo_lock)]" "fm_white demo_farm = []"
  "fm_cur demo_farm = [(''a'', \<lparr>pc_StartHeight = 1, pc_Period = 1, pc_Rewards = []\<rparr>), (''ab'', \<lparr>pc_StartHeight = 1, pc_Period = 2, pc_Rewards = []\<rparr>)]"
  "snd (fpa_CreatePoolDeposit (fm_params demo_farm)) = 10"
  "fm_bank demo_farm = \<lparr>rb_bal = [(rb_mod farmModule, [(''lpt'', 200), (''okt'', 20)]), (rb_mod YieldFarmingAccount, [(''yld'', 1000)])], rb_sup = []\<rparr>"
  by (simp_all add: demo_farm_def SetPoolHistoricalRewards_def)

lemma demo_ratio: "ratio demo_farm n p = (if n = ''a'' \<and> p = 0 \<or> n = ''ab'' \<and> p = 1 then Some [] else None)"
proof -
  have "period_ok 0" "period_ok 1" by (simp_all add: period_ok_def)
  then show ?thesis by (simp add: demo_farm_def ratio_set) (simp add: ratio_def)
qed

lemma demo_farm_ok: "farm_ok amm_sdk demo_farm"
proof -
  have "acct (d_unit amm_sdk) (ratio demo_farm n) (fm_locks demo_farm) n p (\<lambda>_. 0) (\<lambda>_. 0)" if "(n, p) \<in> {(''a'', 1), (''ab'', 2)}" for n p
    using that by (auto simp: acct_def demo_ratio demo_farm_simps lock_ref_def claim_def demo_lock_def split: if_splits)
  moreover have "amt [] = (\<lambda>_. 0 :: int)" by (rule ext) simp
  ultimately have "pool_good amm_sdk demo_farm ''a'' (demo_farm_pool ''a'' 0 0)" "pool_good amm_sdk demo_farm ''ab'' (demo_farm_pool ''ab'' 200 1000)"
    by (simp_all add: pool_good_def demo_farm_pool_def demo_farm_simps in_pool_def demo_lock_def period_ok_def)
  then show ?thesis
    by (auto simp: farm_ok_def demo_farm_simps locks_named_def kv_ok_def lock_pool_def demo_lock_def demo_farm_pool_def split: if_splits)
qed

definition demo_claim :: msg_claim where
  "demo_claim = \<lparr>mcl_PoolName = ''ab'', mcl_Address = ''al''\<rparr>"

lemma demo_claims:
  "is_ok (handleMsgClaim amm_sdk ref_coin_ext ref_farm_fns demo_env demo_farm demo_claim)"
  "GetEarnings amm_sdk ref_coin_ext ref_farm_fns demo_env demo_farm ''ab'' ''al''
    = Inr \<lparr>ea_Height = 5, ea_Locked = (''lpt'', 200), ea_Yielded = [(''yld'', 400)]\<rparr>"
  "is_ok (handleMsgDestroyPool amm_sdk ref_coin_ext ref_farm_fns demo_env demo_farm \<lparr>md_Owner = ''ow'', md_PoolName = ''a''\<rparr>)"
  by code_simp+

lemma demo_farm_accounts: "''al'' \<noteq> farm_acc amm_sdk" "''al'' \<noteq> yield_acc amm_sdk"
  "b_mod_addr amm_sdk (e_FeeCollector demo_env) \<notin> {farm_acc amm_sdk, yield_acc amm_sdk}"
  by (simp_all add: amm_sdk_def ref_sdk_def rb_mod_def demo_env_def farmModule_def YieldFarmingAccount_def)

lemma demo_periods: "periods_left demo_farm"
  by (simp add: periods_left_def demo_farm_simps)

subsection \<open>Properties\<close>

text \<open>
  C11. The module accounts of the farm are always backed: in every state reachable by messages, begins of blocks,
  proposals and steps of other modules, the farm account holds exactly the deposits of all pools and all locked tokens,
  and the yield account exactly the accumulated rewards and the tokens still to be yielded, for every denomination, as
  the registered invariants demand.
\<close>

theorem farm_accounts_backed:
  assumes laws: "farm_laws S X Y" and ok: "farm_ok S s"
    and "\<forall>d. farm_bal S s (farm_acc S) d = amt (moduleAccountInvariant S s) d"
    and "\<forall>d. farm_bal S s (yield_acc S) d = amt (yieldFarmingAccountInvariant S s) d"
    and "(farm_step S X Y)\<^sup>*\<^sup>* s s'"
  shows "farm_bal S s' (farm_acc S) d = amt (moduleAccountInvariant S s') d
    \<and> farm_bal S s' (yield_acc S) d = amt (yieldFarmingAccountInvariant S s') d"
proof -
  note sdk = farm_lawsD(2) [OF laws]
  have *: "farm_ok S s'" "farm_gap S s' = farm_gap S s"
    using farm_machine.reachable [OF assms(5)] laws ok by auto
  have "farm_gap S s d = (0, 0)"
    using assms(3,4) by (simp add: farm_gap_def farm_owed_invariant [OF sdk] yield_owed_invariant [OF sdk ok])
  with *(2) have "farm_gap S s' d = (0, 0)" by simp
  then show ?thesis by (simp add: farm_gap_def farm_owed_invariant [OF sdk] yield_owed_invariant [OF sdk *(1)])
qed

theorem farm_accounts_backed_witness:
  "\<exists>s'. farm_step amm_sdk ref_coin_ext ref_farm_fns demo_farm s'
    \<and> handleMsgClaim amm_sdk ref_coin_ext ref_farm_fns demo_env demo_farm demo_claim = Inr s'
    \<and> farm_bal amm_sdk s' (yield_acc amm_sdk) ''yld'' = amt (yieldFarmingAccountInvariant amm_sdk s') ''yld''"
proof -
  obtain s' where s': "handleMsgClaim amm_sdk ref_coin_ext ref_farm_fns demo_env demo_farm demo_claim = Inr s'"
    using demo_claims(1) by (auto simp: is_ok_iff)
  have step: "farm_step amm_sdk ref_coin_ext ref_farm_fns demo_farm s'"
    by (rule farm_step.message [where m = "MsgClaim demo_claim" and e = demo_env])
      (use s' demo_farm_accounts demo_periods in \<open>auto simp: demo_claim_def MsgClaim_ValidateBasic_def bad_pool_name_def MaxPoolNameLength_def\<close>)
  have b: "bank_bal amm_sdk bk a d = amt (rb_get bk a) d" for bk a d
    by (simp add: bank_bal_def amm_sdk_def ref_sdk_def)
  have mods: "farm_acc amm_sdk = rb_mod farmModule" "yield_acc amm_sdk = rb_mod YieldFarmingAccount"
    by (simp_all add: amm_sdk_def ref_sdk_def)
  have "rb_mod YieldFarmingAccount \<noteq> rb_mod farmModule" by (simp add: rb_mod_def farmModule_def YieldFarmingAccount_def)
  then have "\<forall>d. farm_bal amm_sdk demo_farm (farm_acc amm_sdk) d = farm_owed demo_farm d"
    "\<forall>d. farm_bal amm_sdk demo_farm (yield_acc amm_sdk) d = yield_owed demo_farm d"
    by (simp_all add: b mods rb_get_def demo_farm_simps farm_owed_def yield_owed_def demo_farm_pool_def demo_lock_def)
  note bal = this [folded farm_owed_invariant [OF farm_lawsD(2) [OF demo_farm_laws]]
      yield_owed_invariant [OF farm_lawsD(2) [OF demo_farm_laws] demo_farm_ok]]
  from step s' farm_accounts_backed [OF demo_farm_laws demo_farm_ok bal r_into_rtranclp, OF step, of "''yld''"]
  show ?thesis by blast
qed

text \<open>
  C12. Rewards never exceed what a pool has accumulated: in every reachable state, whatever lock is paid by a claim,
  a lock or an unlock message, the rewards are covered by the accumulated rewards of the pool in every denomination, so
  the subtraction succeeds and the panic \<open>should not happen\<close> of the three handlers is unreachable.
\<close>

theorem rewards_always_covered:
  assumes laws: "farm_laws S X Y" and ok: "farm_ok S s" and reach: "(farm_step S X Y)\<^sup>*\<^sup>* s s'" and left: "periods_left s'"
    and pool: "GetFarmPool s' n = Some pool"
    and y: "CalculateAmountYieldedBetween S X Y e s' pool = Inr (up, yielded)"
    and w: "WithdrawRewards S Y e n (fp_TotalValueLocked pool) yielded a s' = Inr (rewards, s2)"
  shows "amt rewards d \<le> amt (fp_Accumulated up) d \<and> (\<exists>p. take_rewards S Y up rewards = Inr p)"
proof -
  have "farm_ok S s'" using farm_machine.reachable [OF reach] laws ok by auto
  from withdraw_covered [OF laws this pool [unfolded GetFarmPool_def] left y w] take_rewards_total [OF laws]
  show ?thesis by blast
qed

theorem rewards_always_covered_witness:
  "\<exists>pool up yielded rewards s2.
    CalculateAmountYieldedBetween amm_sdk ref_coin_ext ref_farm_fns demo_env demo_farm pool = Inr (up, yielded)
    \<and> WithdrawRewards amm_sdk ref_farm_fns demo_env ''ab'' (fp_TotalValueLocked pool) yielded ''al'' demo_farm = Inr (rewards, s2)
    \<and> amt rewards ''yld'' \<le> amt (fp_Accumulated up) ''yld'' \<and> is_ok (take_rewards amm_sdk ref_farm_fns up rewards)"
proof -
  let ?pool = "demo_farm_pool ''ab'' 200 1000"
  have pool: "GetFarmPool demo_farm ''ab'' = Some ?pool" by (simp add: GetFarmPool_def demo_farm_simps)
  have n: "fp_Name ?pool = ''ab''" by (simp add: demo_farm_pool_def)
  obtain up y rewards s2 where c: "CalculateAmountYieldedBetween amm_sdk ref_coin_ext ref_farm_fns demo_env demo_farm ?pool = Inr (up, y)"
    "WithdrawRewards amm_sdk ref_farm_fns demo_env ''ab'' (fp_TotalValueLocked ?pool) y ''al'' demo_farm = Inr (rewards, s2)"
    using demo_claims(1) pool n by (auto simp: is_ok_iff handleMsgClaim_def demo_claim_def rbind_Inr_iff)
  from c rewards_always_covered [OF demo_farm_laws demo_farm_ok rtranclp.rtrancl_refl demo_periods pool c, of "''yld''"]
  show ?thesis unfolding is_ok_iff by blast
qed

lemma history_gone:
  assumes "prefix n m" and "fm_hist s' = fm_hist (delete_history n s)"
  shows "GetPoolHistoricalRewards s' m p = Inl FarmPanic"
proof -
  have "map_of (filter (\<lambda>(k, _). \<not> prefix n k) xs) k = None" if "prefix n k" for xs :: "(string, pool_history) kv" and k
    using that by (auto simp: map_of_eq_None_iff)
  moreover have "prefix n (GetPoolHistoricalRewardsKey m p)" using assms(1) by (simp add: GetPoolHistoricalRewardsKey_def)
  ultimately show ?thesis using assms(2) by (simp add: GetPoolHistoricalRewards_def delete_history_def farm_panic_def)
qed

lemma frozen_pool:
  assumes "\<And>p. GetPoolHistoricalRewards s n p = Inl FarmPanic"
  shows "\<not> is_ok (IncrementPoolPeriod S Y e n T y s)" and "\<not> is_ok (WithdrawRewards S Y e n T y a s)"
proof -
  show i: "\<not> is_ok (IncrementPoolPeriod S Y e n T y s)"
    using assms by (auto simp: is_ok_iff IncrementPoolPeriod_def rbind_Inr_iff Let_def)
  show "\<not> is_ok (WithdrawRewards S Y e n T y a s)"
    using i by (auto simp: is_ok_iff WithdrawRewards_def rbind_Inr_iff split: option.splits)
qed

lemma frozen_messages:
  assumes "map_of (fm_pools s) n = Some pool" and "fp_Name pool = n" and "\<And>p. GetPoolHistoricalRewards s n p = Inl FarmPanic"
  shows "\<not> is_ok (handleMsgClaim S X Y e s \<lparr>mcl_PoolName = n, mcl_Address = a\<rparr>)"
    and "\<not> is_ok (handleMsgLock S X Y e s \<lparr>ml_PoolName = n, ml_Address = a, ml_Amount = c\<rparr>)"
    and "\<not> is_ok (handleMsgUnlock S X Y e s \<lparr>ml_PoolName = n, ml_Address = a, ml_Amount = c\<rparr>)"
  using assms(1,2) frozen_pool [OF assms(3)]
  by (auto simp: is_ok_iff handleMsgClaim_def handleMsgLock_def handleMsgUnlock_def GetFarmPool_def rbind_Inr_iff Let_def
      split: option.splits if_splits)

text \<open>
  C34. Destroying a pool freezes every other pool whose name extends its name: the history of reward ratios is deleted by
  key prefix, and the keys of the longer names match. The other pool and its locks are still there, but every claim,
  lock and unlock of it fails from then on, so the locked tokens cannot be withdrawn.
\<close>

theorem destroy_freezes_other_pool:
  assumes ok: "farm_ok S s" and h: "handleMsgDestroyPool S X Y e s m = Inr s'"
    and n: "prefix (md_PoolName m) n" "n \<noteq> md_PoolName m" and pool: "map_of (fm_pools s) n = Some pool"
  shows "map_of (fm_pools s') n = Some pool \<and> fm_locks s' = fm_locks s
    \<and> \<not> is_ok (handleMsgClaim S X Y e' s' \<lparr>mcl_PoolName = n, mcl_Address = a\<rparr>)
    \<and> \<not> is_ok (handleMsgLock S X Y e' s' \<lparr>ml_PoolName = n, ml_Address = a, ml_Amount = c\<rparr>)
    \<and> \<not> is_ok (handleMsgUnlock S X Y e' s' \<lparr>ml_PoolName = n, ml_Address = a, ml_Amount = c\<rparr>)"
proof -
  have "fm_pools s' = kv_del (md_PoolName m) (fm_pools s)" and locks: "fm_locks s' = fm_locks s"
    and hist: "fm_hist s' = fm_hist (delete_history (md_PoolName m) s)"
    using h by (auto simp: handleMsgDestroyPool_def rbind_Inr_iff farm_banked_Inr DeletePoolCurrentRewards_def delete_history_def
        DeleteFarmPool_def split: option.splits if_splits)
  then have f: "map_of (fm_pools s') n = Some pool" "fm_locks s' = fm_locks s" using n pool by simp_all
  note gone = history_gone [OF n(1) hist]
  have "fp_Name pool = n" using farm_okD(5) [OF ok pool] by (simp add: pool_good_def)
  from f frozen_messages [OF f(1) this gone] show ?thesis by blast
qed

theorem destroy_freezes_other_pool_witness:
  "\<exists>s'. handleMsgDestroyPool amm_sdk ref_coin_ext ref_farm_fns demo_env demo_farm \<lparr>md_Owner = ''ow'', md_PoolName = ''a''\<rparr> = Inr s'
    \<and> map_of (fm_locks s') (''al'', ''ab'') = Some demo_lock
    \<and> \<not> is_ok (handleMsgUnlock amm_sdk ref_coin_ext ref_farm_fns demo_env s' \<lparr>ml_PoolName = ''ab'', ml_Address = ''al'', ml_Amount = (''lpt'', 200)\<rparr>)"
proof -
  let ?m = "\<lparr>md_Owner = ''ow'', md_PoolName = ''a''\<rparr>"
  obtain s' where s': "handleMsgDestroyPool amm_sdk ref_coin_ext ref_farm_fns demo_env demo_farm ?m = Inr s'"
    using demo_claims(3) by (auto simp: is_ok_iff)
  have pool: "map_of (fm_pools demo_farm) ''ab'' = Some (demo_farm_pool ''ab'' 200 1000)" by (simp add: demo_farm_simps)
  have "map_of (fm_pools s') ''ab'' = Some (demo_farm_pool ''ab'' 200 1000) \<and> fm_locks s' = fm_locks demo_farm
    \<and> \<not> is_ok (handleMsgClaim amm_sdk ref_coin_ext ref_farm_fns demo_env s' \<lparr>mcl_PoolName = ''ab'', mcl_Address = ''al''\<rparr>)
    \<and> \<not> is_ok (handleMsgLock amm_sdk ref_coin_ext ref_farm_fns demo_env s' \<lparr>ml_PoolName = ''ab'', ml_Address = ''al'', ml_Amount = (''lpt'', 200)\<rparr>)
    \<and> \<not> is_ok (handleMsgUnlock amm_sdk ref_coin_ext ref_farm_fns demo_env s' \<lparr>ml_PoolName = ''ab'', ml_Address = ''al'', ml_Amount = (''lpt'', 200)\<rparr>)"
    by (rule destroy_freezes_other_pool [OF demo_farm_ok s' _ _ pool]) simp_all
  then show ?thesis using s' by (simp add: demo_farm_simps)
qed

lemma decrement_frame: "decrementReferenceCount n p s = Inr s' \<Longrightarrow> fm_amm s' = fm_amm s \<and> fm_notes s' = fm_notes s"
  by (auto simp: decrementReferenceCount_def rbind_Inr_iff SetPoolHistoricalRewards_def DeletePoolHistoricalReward_def split: if_splits)

lemma increment_frame: "IncrementPoolPeriod S Y e n T y s = Inr (ep, s1) \<Longrightarrow> fm_amm s1 = fm_amm s \<and> fm_notes s1 = fm_notes s"
  unfolding IncrementPoolPeriod_def rbind_Inr_iff Let_def
  by (elim exE conjE, drule decrement_frame) (auto simp: SetPoolCurrentRewards_def SetPoolHistoricalRewards_def)

lemma update_lock_frame: "UpdateLockInfo e a n ch s = Inr s' \<Longrightarrow> fm_amm s' = fm_amm s \<and> fm_notes s' = fm_notes s"
  by (auto simp: UpdateLockInfo_def rbind_Inr_iff Let_def incrementReferenceCount_def SetPoolHistoricalRewards_def
      SetAddressInFarmPool_def SetLockInfo_def DeleteAddressInFarmPool_def DeleteLockInfo_def split: option.splits if_splits)

text \<open>
  C21. The earnings query predicts the claim: on the same state and height, a claim that succeeds pays the owner of the lock
  exactly the yielded coins that \<open>GetEarnings\<close> answers, out of the yield account, and reports them.
\<close>

theorem earnings_predict_claim:
  assumes laws: "farm_laws S X Y" and ok: "farm_ok S s" and left: "periods_left s" and acc: "mcl_Address m \<noteq> yield_acc S"
    and q: "GetEarnings S X Y e s (mcl_PoolName m) (mcl_Address m) = Inr ea" and h: "handleMsgClaim S X Y e s m = Inr s'"
  shows "farm_bal S s' (mcl_Address m) d = farm_bal S s (mcl_Address m) d + amt (ea_Yielded ea) d
    \<and> farm_bal S s' (yield_acc S) d = farm_bal S s (yield_acc S) d - amt (ea_Yielded ea) d
    \<and> fm_notes s' = fm_notes s @ [NoteClaim (mcl_Address m) (mcl_PoolName m) (ea_Yielded ea)]"
proof -
  let ?n = "mcl_PoolName m" and ?a = "mcl_Address m"
  obtain pool up y rewards s2 s3 p' where pool: "map_of (fm_pools s) ?n = Some pool"
    and y: "CalculateAmountYieldedBetween S X Y e s pool = Inr (up, y)"
    and w: "WithdrawRewards S Y e (fp_Name pool) (fp_TotalValueLocked pool) y ?a s = Inr (rewards, s2)"
    and u: "UpdateLockInfo e ?a (fp_Name pool) 0 s2 = Inr s3"
    and s': "s' = OnClaim ?a (fp_Name pool) rewards (SetFarmPool p' s3)"
    using h by (auto simp: handleMsgClaim_def GetFarmPool_def rbind_Inr_iff split: option.splits)
  note g = farm_okD(5) [OF ok pool, unfolded pool_good_def]
  have n: "fp_Name pool = ?n" using g by simp
  obtain ep s1 H l where l: "map_of (fm_locks s) (?a, ?n) = Some l" and s2: "\<exists>b h. s2 = (set_fm_bank b s1)\<lparr>fm_hist := h\<rparr>"
    and b: "\<And>x d. farm_bal S s2 x d = farm_bal S s x d + (if x = ?a then amt rewards d else 0) - (if x = yield_acc S then amt rewards d else 0)"
    and i: "IncrementPoolPeriod S Y e ?n (fp_TotalValueLocked pool) y s = Inr (ep, s1)" "calculateRewards S Y e s1 ?n ep l = Inr rewards"
    by (rule withdraw_ended [OF laws ok pool left y w [unfolded n]]) (rule that)
  have "fp_TotalValueLocked up = fp_TotalValueLocked pool"
    by (rule CalculateAmountYieldedBetween_ok [OF laws y]) (use g in auto)
  then have "ea_Yielded ea = rewards"
    using q l pool y i by (auto simp: GetEarnings_def GetLockInfo_def GetFarmPool_def)
  moreover have "fm_notes s2 = fm_notes s" using s2 increment_frame [OF i(1)] by (auto simp: set_fm_bank_def)
  moreover have "fm_amm s' = fm_amm s2" "fm_notes s' = fm_notes s2 @ [NoteClaim ?a ?n rewards]"
    using update_lock_frame [OF u] n by (simp_all add: s' OnClaim_def SetFarmPool_def)
  ultimately show ?thesis using b [of ?a d] b [of "yield_acc S" d] acc by simp
qed

theorem earnings_predict_claim_witness:
  "\<exists>s'. handleMsgClaim amm_sdk ref_coin_ext ref_farm_fns demo_env demo_farm demo_claim = Inr s'
    \<and> farm_bal amm_sdk s' ''al'' ''yld'' = farm_bal amm_sdk demo_farm ''al'' ''yld'' + 400"
proof -
  obtain s' where s': "handleMsgClaim amm_sdk ref_coin_ext ref_farm_fns demo_env demo_farm demo_claim = Inr s'"
    using demo_claims(1) by (auto simp: is_ok_iff)
  have q: "GetEarnings amm_sdk ref_coin_ext ref_farm_fns demo_env demo_farm (mcl_PoolName demo_claim) (mcl_Address demo_claim)
    = Inr \<lparr>ea_Height = 5, ea_Locked = (''lpt'', 200), ea_Yielded = [(''yld'', 400)]\<rparr>"
    using demo_claims(2) by (simp add: demo_claim_def)
  from earnings_predict_claim [OF demo_farm_laws demo_farm_ok demo_periods _ q s', of "''yld''"] s' demo_farm_accounts
  show ?thesis by (auto simp: demo_claim_def)
qed

text \<open>
  The registered invariant of the mint account is broken by an ordinary block: when no white-listed pool has a value, for
  example because nothing is locked yet, the begin of the block leaves the minted tokens where they are.
\<close>

theorem mint_invariant_breaks:
  assumes "GetWhitelist s \<noteq> []" and "fpa_YieldNativeToken (fm_params s)"
    and "0 < amt (b_coins S (fm_bank s) (b_mod_addr S MintFarmingAccount)) NativeToken"
    and "y_from_dec Y NativeToken (amt (b_coins S (fm_bank s) (b_mod_addr S MintFarmingAccount)) NativeToken) = Some cs"
    and "allocate_info S X s (GetWhitelist s) = Inr (ps, tot)" and "tot \<le> 0"
  shows "farm_BeginBlocker S X Y s = Inr s \<and> mintFarmingAccountInvariant S s"
  using assms amt_coins_is_zero [of "b_coins S (fm_bank s) (b_mod_addr S MintFarmingAccount)" NativeToken]
  by (auto simp: farm_BeginBlocker_def mintFarmingAccountInvariant_def farm_panic_def)

end
