(* ===== verification/FarmGenesis.thy ===== *)
theory FarmGenesis
  imports FarmMarket
begin

text \<open>Export and import of the farm's genesis.\<close>

lemma le_bytes_value: "length b = k \<Longrightarrow> le_bytes k (le_value b) = b"
proof (induction b arbitrary: k)
  case (Cons c b)
  have c: "0 \<le> (of_char c :: int)" "(of_char c :: int) < 256" using pos_mod_bound [of 256 "of_char c :: int"] pos_mod_sign [of 256 "of_char c :: int"] by simp_all
  then have "(of_char c + 256 * le_value b) div 256 = le_value b" by simp
  moreover have "(of_char c + 256 * le_value b) mod 256 = of_char c" using c by simp
  ultimately show ?case using Cons by (cases k) (auto simp del: of_char_mod_256)
qed simp

lemma split_key:
  assumes "split_history_key k = Some (n, p)"
  shows "GetPoolHistoricalRewardsKey n p = k"
  using assms le_bytes_value [of "drop (length k - 8) k" 8]
  by (auto simp: split_history_key_def GetPoolHistoricalRewardsKey_def split: if_splits)

lemma genesis_folds:
  "fold SetFarmPool ps t = t\<lparr>fm_pools := fold (\<lambda>p. kv_set (fp_Name p) p) ps (fm_pools t)\<rparr>"
  "fold SetLockInfo ls t = t\<lparr>fm_locks := fold (\<lambda>l. kv_set (li_Owner l, li_PoolName l) l) ls (fm_locks t)\<rparr>"
  "fold (\<lambda>(n, p, h). SetPoolHistoricalRewards n p h) hs t
     = t\<lparr>fm_hist := fold (\<lambda>(n, p, h). kv_set (GetPoolHistoricalRewardsKey n p) h) hs (fm_hist t)\<rparr>"
  "fold (\<lambda>(n, c). SetPoolCurrentRewards n c) cs t = t\<lparr>fm_cur := fold (\<lambda>(n, c). kv_set n c) cs (fm_cur t)\<rparr>"
  "fold SetWhitelist ws t = t\<lparr>fm_white := fold (\<lambda>n. kv_set n ()) ws (fm_white t)\<rparr>"
proof -
  show "fold SetFarmPool ps t = t\<lparr>fm_pools := fold (\<lambda>p. kv_set (fp_Name p) p) ps (fm_pools t)\<rparr>"
    by (induction ps arbitrary: t) (simp_all add: SetFarmPool_def)
  show "fold SetLockInfo ls t = t\<lparr>fm_locks := fold (\<lambda>l. kv_set (li_Owner l, li_PoolName l) l) ls (fm_locks t)\<rparr>"
    by (induction ls arbitrary: t) (simp_all add: SetLockInfo_def)
  show "fold (\<lambda>(n, p, h). SetPoolHistoricalRewards n p h) hs t
     = t\<lparr>fm_hist := fold (\<lambda>(n, p, h). kv_set (GetPoolHistoricalRewardsKey n p) h) hs (fm_hist t)\<rparr>"
    by (induction hs arbitrary: t) (auto simp: SetPoolHistoricalRewards_def)
  show "fold (\<lambda>(n, c). SetPoolCurrentRewards n c) cs t = t\<lparr>fm_cur := fold (\<lambda>(n, c). kv_set n c) cs (fm_cur t)\<rparr>"
    by (induction cs arbitrary: t) (auto simp: SetPoolCurrentRewards_def)
  show "fold SetWhitelist ws t = t\<lparr>fm_white := fold (\<lambda>n. kv_set n ()) ws (fm_white t)\<rparr>"
    by (induction ws arbitrary: t) (simp_all add: SetWhitelist_def)
qed

text \<open>Storing every entry of a store under the key it came from rebuilds the store.\<close>

lemma fold_rebuild:
  assumes "kv_ok m" and "\<And>k v. (k, v) \<in> set m \<Longrightarrow> key (f (k, v)) = k \<and> val (f (k, v)) = v"
  shows "fold (\<lambda>x. kv_set (key x) (val x)) (map f m) [] = m"
proof -
  have "fold (\<lambda>x. kv_set (key x) (val x)) (map f m) [] = fold (\<lambda>p. kv_set (fst p) (snd p)) m []"
    unfolding fold_map by (intro fold_cong) (use assms(2) in auto)
  then show ?thesis using fold_kv_set_sorted [of "[]" m] assms(1) by simp
qed

text \<open>
  C30. The farm genesis round trip: importing an exported farm into empty stores restores pools, locks, the history of
  reward ratios, the current rewards, the white list and the parameters. The index from pools to addresses is not part of
  the genesis and stays empty.
\<close>

theorem farm_genesis_roundtrip:
  assumes ok: "farm_ok S s" and kv: "kv_ok (fm_hist s)" "kv_ok (fm_cur s)" and g: "farm_ExportGenesis s = Some g"
    and t: "fm_pools t = []" "fm_locks t = []" "fm_hist t = []" "fm_cur t = []" "fm_white t = []"
  shows "fm_pools (farm_InitGenesis g t) = fm_pools s \<and> fm_locks (farm_InitGenesis g t) = fm_locks s
    \<and> fm_hist (farm_InitGenesis g t) = fm_hist s \<and> fm_cur (farm_InitGenesis g t) = fm_cur s
    \<and> fm_white (farm_InitGenesis g t) = fm_white s \<and> fm_params (farm_InitGenesis g t) = fm_params s
    \<and> fm_members (farm_InitGenesis g t) = fm_members t"
proof -
  let ?h = "\<lambda>(k, h). case the (split_history_key k) of (n, p) \<Rightarrow> (n, p, h)"
  have keys: "split_history_key k \<noteq> None" if "(k, h) \<in> set (fm_hist s)" for k h
    using g that by (auto simp: farm_ExportGenesis_def list_all_iff split: if_splits)
  have e: "fg_Pools g = map snd (fm_pools s)" "fg_LockInfos g = map snd (fm_locks s)" "fg_Histories g = map ?h (fm_hist s)"
    "fg_Currents g = fm_cur s" "fg_WhiteList g = map fst (fm_white s)" "fg_Params g = fm_params s"
    using g by (auto simp: farm_ExportGenesis_def GetFarmPools_def GetWhitelist_def split: if_splits)
  have "fold (\<lambda>p. kv_set (fp_Name p) p) (map snd (fm_pools s)) [] = fm_pools s"
    using kv_ok_distinct [OF farm_okD(2) [OF ok]] farm_okD(5) [OF ok]
    by (intro fold_rebuild [OF farm_okD(2) [OF ok]]) (auto simp: pool_good_def)
  moreover have "fold (\<lambda>l. kv_set (li_Owner l, li_PoolName l) l) (map snd (fm_locks s)) [] = fm_locks s"
    using locks_namedD(2) [OF farm_okD(1) [OF ok]] kv_ok_distinct [OF farm_okD(3) [OF ok]]
    by (intro fold_rebuild [OF farm_okD(3) [OF ok]]) auto
  moreover have "fold (\<lambda>(n, p, h). kv_set (GetPoolHistoricalRewardsKey n p) h) (map ?h (fm_hist s)) [] = fm_hist s"
  proof -
    have "fold (\<lambda>x. kv_set (GetPoolHistoricalRewardsKey (fst x) (fst (snd x))) (snd (snd x))) (map ?h (fm_hist s)) [] = fm_hist s"
      by (rule fold_rebuild [OF kv(1)]) (use keys split_key in \<open>fastforce split: prod.splits\<close>)
    then show ?thesis by (simp add: case_prod_unfold)
  qed
  moreover have "fold (\<lambda>(n, c). kv_set n c) (fm_cur s) [] = fm_cur s"
    using fold_kv_set_sorted [of "[]" "fm_cur s"] kv(2) by (simp add: case_prod_unfold)
  moreover have "fold (\<lambda>n. kv_set n ()) (map fst (fm_white s)) [] = fm_white s"
    by (intro fold_rebuild [OF farm_okD(8) [OF ok]]) simp
  ultimately show ?thesis using e t by (simp add: farm_InitGenesis_def Let_def genesis_folds)
qed

theorem farm_genesis_roundtrip_witness:
  "\<exists>g. farm_ExportGenesis demo_farm = Some g
    \<and> fm_hist (farm_InitGenesis g (demo_farm\<lparr>fm_pools := [], fm_locks := [], fm_hist := [], fm_cur := [], fm_white := []\<rparr>)) = fm_hist demo_farm"
proof -
  have kv: "kv_ok (fm_hist demo_farm)" "kv_ok (fm_cur demo_farm)"
    by (simp_all add: demo_farm_def SetPoolHistoricalRewards_def kv_ok_set kv_ok_Cons del: kv_set.simps)
  have "farm_ExportGenesis demo_farm \<noteq> None" by code_simp
  then obtain g where g: "farm_ExportGenesis demo_farm = Some g" by blast
  from farm_genesis_roundtrip [OF demo_farm_ok kv g, of "demo_farm\<lparr>fm_pools := [], fm_locks := [], fm_hist := [], fm_cur := [], fm_white := []\<rparr>"] g
  show ?thesis by simp
qed

end
