(* ===== verification/Gov.thy ===== *)
theory Gov
  imports FarmBlock DexHandler
begin

text \<open>
  Governance: \<open>x/gov\<close>. Proposals collect deposits, are voted on by validators and delegators and, once passed, run the
  handler of the module they are routed to. This theory has the data (\<open>types/\<close>), the store (\<open>keeper/keeper.go\<close>,
  \<open>keeper/proposal.go\<close>) and the proposal handlers of the modules that \<open>app/app.go\<close> registers: governance itself,
  \<open>x/params\<close>, \<open>x/distribution\<close> (the community pool), \<open>x/dex\<close> and \<open>x/farm\<close>.

  The state \<open>gov\<close> is the farm state (and below it the swap, the exchange, the tokens and the bank) with the governance
  store, the parameters of governance and of \<open>x/params\<close>, the community pool, and what governance reads of the staking
  module: the bonded validators by power with their shares, and for each delegator the validators it added shares to and
  the shares. Proposal ids are stored as the eight little-endian bytes of a \<open>uint64\<close>, which fixes the order of iteration;
  end times and heights are stored in an encoding that sorts like the number. Times are nanoseconds since the zero
  \<open>time.Time\<close>.
\<close>

datatype gov_error =
    GovPanic | GovBank string | ErrUnknownProposal int | ErrInvalidateProposalStatus | ErrInvalidVote
  | ErrGovInvalidGenesis | ErrNoProposalHandlerExists | ErrGovInvalidCoins | ErrInitialDepositNotEnough coins
  | ErrGovInsufficientCoins | ErrGovInvalidProposer | ErrGovInvalidHeight int int int | ErrGovInvalidProposalContent string
  | ErrInvalidProposalType string | ErrGovInvalidAddress | ErrInvalidParamsNum | ErrUnknownSubspace string
  | ErrSettingParameter string | ErrBadDistribution | ErrBlacklisted addr | ErrInvalidProposalAmount
  | ErrEmptyProposalRecipient | ErrGovUnknownRequest | GovDex dex_error | GovFarm farm_error

subsection \<open>Statuses and votes\<close>

datatype proposal_status =
  StatusNil | StatusDepositPeriod | StatusVotingPeriod | StatusPassed | StatusRejected | StatusFailed

definition ProposalStatusFromString :: "string \<Rightarrow> proposal_status option" where
  "ProposalStatusFromString str =
     (if str = ''DepositPeriod'' then Some StatusDepositPeriod
      else if str = ''VotingPeriod'' then Some StatusVotingPeriod
      else if str = ''Passed'' then Some StatusPassed
      else if str = ''Rejected'' then Some StatusRejected
      else if str = ''Failed'' then Some StatusFailed
      else if str = '''' then Some StatusNil
      else None)"

fun ValidProposalStatus :: "proposal_status \<Rightarrow> bool" where
  "ValidProposalStatus StatusNil = False"
| "ValidProposalStatus _ = True"

fun ProposalStatus_String :: "proposal_status \<Rightarrow> string" where
  "ProposalStatus_String StatusDepositPeriod = ''DepositPeriod''"
| "ProposalStatus_String StatusVotingPeriod = ''VotingPeriod''"
| "ProposalStatus_String StatusPassed = ''Passed''"
| "ProposalStatus_String StatusRejected = ''Rejected''"
| "ProposalStatus_String StatusFailed = ''Failed''"
| "ProposalStatus_String StatusNil = ''''"

text \<open>A vote option is a byte: \<open>OptionByte\<close> stands for the bytes without a name.\<close>

datatype vote_option = OptionEmpty | OptionYes | OptionAbstain | OptionNo | OptionNoWithVeto | OptionByte nat

definition VoteOptionFromString :: "string \<Rightarrow> vote_option option" where
  "VoteOptionFromString str =
     (if str = ''Yes'' then Some OptionYes
      else if str = ''Abstain'' then Some OptionAbstain
      else if str = ''No'' then Some OptionNo
      else if str = ''NoWithVeto'' then Some OptionNoWithVeto
      else None)"

definition ValidVoteOption :: "vote_option \<Rightarrow> bool" where
  "ValidVoteOption opt \<longleftrightarrow>
     opt = OptionYes \<or> opt = OptionAbstain \<or> opt = OptionNo \<or> opt = OptionNoWithVeto"

fun VoteOption_String :: "vote_option \<Rightarrow> string" where
  "VoteOption_String OptionYes = ''Yes''"
| "VoteOption_String OptionAbstain = ''Abstain''"
| "VoteOption_String OptionNo = ''No''"
| "VoteOption_String OptionNoWithVeto = ''NoWithVeto''"
| "VoteOption_String _ = ''''"

subsection \<open>Contents\<close>

record param_change =
  ch_Subspace :: string
  ch_Key :: string
  ch_Value :: string

text \<open>The implementations of the interface \<open>Content\<close>; each carries its title and its description first.\<close>

datatype content =
    TextProposal string string
  | SoftwareUpgradeProposal string string
  | ParameterChangeProposal string string "param_change list" int
  | CommunityPoolSpendProposal string string addr coins
  | DelistProposal string string delist_proposal
  | ManageWhiteListProposal string string white_list_proposal

fun ProposalRoute :: "content \<Rightarrow> string" where
  "ProposalRoute (TextProposal t d) = ''gov''"
| "ProposalRoute (SoftwareUpgradeProposal t d) = ''gov''"
| "ProposalRoute (ParameterChangeProposal t d cs h) = ''params''"
| "ProposalRoute (CommunityPoolSpendProposal t d r a) = ''distribution''"
| "ProposalRoute (DelistProposal t d p) = ''dex''"
| "ProposalRoute (ManageWhiteListProposal t d p) = ''farm''"

fun GetTitle :: "content \<Rightarrow> string" where
  "GetTitle (TextProposal t d) = t"
| "GetTitle (SoftwareUpgradeProposal t d) = t"
| "GetTitle (ParameterChangeProposal t d cs h) = t"
| "GetTitle (CommunityPoolSpendProposal t d r a) = t"
| "GetTitle (DelistProposal t d p) = t"
| "GetTitle (ManageWhiteListProposal t d p) = t"

fun GetDescription :: "content \<Rightarrow> string" where
  "GetDescription (TextProposal t d) = d"
| "GetDescription (SoftwareUpgradeProposal t d) = d"
| "GetDescription (ParameterChangeProposal t d cs h) = d"
| "GetDescription (CommunityPoolSpendProposal t d r a) = d"
| "GetDescription (DelistProposal t d p) = d"
| "GetDescription (ManageWhiteListProposal t d p) = d"

text \<open>
  \<open>strings.TrimSpace\<close> leaves nothing exactly when the bytes spell white space only: the code points with the property
  \<open>White_Space\<close>, in UTF-8.
\<close>

definition byte_of :: "char \<Rightarrow> nat" where
  "byte_of c = of_char c"

fun is_blank :: "string \<Rightarrow> bool" where
  "is_blank [] = True"
| "is_blank (c # cs) =
     (if byte_of c = 32 \<or> 9 \<le> byte_of c \<and> byte_of c \<le> 13 then is_blank cs
      else case cs of
        c2 # cs2 \<Rightarrow>
          if byte_of c = 194 \<and> (byte_of c2 = 133 \<or> byte_of c2 = 160) then is_blank cs2
          else (case cs2 of
                  c3 # cs3 \<Rightarrow>
                    (byte_of c, byte_of c2, byte_of c3) \<in>
                      {(225, 154, 128), (226, 128, 168), (226, 128, 169), (226, 128, 175), (226, 129, 159), (227, 128, 128)}
                      \<union> (\<lambda>k. (226, 128, k)) ` {128..138} \<and> is_blank cs3
                | [] \<Rightarrow> False)
      | [] \<Rightarrow> False)"

definition MaxDescriptionLength :: nat where "MaxDescriptionLength = 5000"
definition MaxTitleLength :: nat where "MaxTitleLength = 140"

definition ValidateAbstract :: "content \<Rightarrow> gov_error option" where
  "ValidateAbstract c =
     (if is_blank (GetTitle c) then Some (ErrGovInvalidProposalContent ''title is required'')
      else if MaxTitleLength < length (GetTitle c)
      then Some (ErrGovInvalidProposalContent ''title length is bigger than max title length'')
      else if GetDescription c = [] then Some (ErrGovInvalidProposalContent ''description is required'')
      else if MaxDescriptionLength < length (GetDescription c)
      then Some (ErrGovInvalidProposalContent ''description length is bigger than max description length'')
      else None)"

subsection \<open>Proposals, deposits and parameters\<close>

record tally_result =
  tr_TotalPower :: dec
  tr_TotalVotedPower :: dec
  tr_Yes :: dec
  tr_Abstain :: dec
  tr_No :: dec
  tr_NoWithVeto :: dec

definition EmptyTallyResult :: "dec \<Rightarrow> tally_result" where
  "EmptyTallyResult totalVoting =
     \<lparr>tr_TotalPower = totalVoting, tr_TotalVotedPower = 0, tr_Yes = 0, tr_Abstain = 0, tr_No = 0, tr_NoWithVeto = 0\<rparr>"

record proposal =
  pp_Content :: content
  pp_ID :: int
  pp_Status :: proposal_status
  pp_FinalTallyResult :: tally_result
  pp_SubmitTime :: int
  pp_DepositEndTime :: int
  pp_TotalDeposit :: coins
  pp_VotingStartTime :: int
  pp_VotingEndTime :: int

definition NewProposal :: "dec \<Rightarrow> content \<Rightarrow> int \<Rightarrow> int \<Rightarrow> int \<Rightarrow> proposal" where
  "NewProposal totalVoting c proposalID submitTime depositEndTime =
     \<lparr>pp_Content = c, pp_ID = proposalID, pp_Status = StatusDepositPeriod, pp_FinalTallyResult = EmptyTallyResult totalVoting,
      pp_SubmitTime = submitTime, pp_DepositEndTime = depositEndTime, pp_TotalDeposit = [],
      pp_VotingStartTime = 0, pp_VotingEndTime = 0\<rparr>"

record deposit =
  de_ProposalID :: int
  de_Depositor :: addr
  de_Amount :: coins

record vote =
  vo_ProposalID :: int
  vo_Voter :: addr
  vo_Option :: vote_option

record deposit_params =
  dpa_MinDeposit :: coins
  dpa_MaxDepositPeriod :: int

record tally_params =
  tpa_Quorum :: dec
  tpa_Threshold :: dec
  tpa_Veto :: dec
  tpa_YesInVotePeriod :: dec

record change_params =
  cpa_MaxDepositPeriod :: int
  cpa_MinDeposit :: coins
  cpa_VotingPeriod :: int
  cpa_MaxBlockHeight :: int

record staking_view =
  sv_Bonded :: "(addr \<times> dec) list"
  sv_Delegators :: "(addr, addr list \<times> dec) kv"

record 'b gov =
  gv_farm :: "'b farm"
  gv_staking :: staking_view
  gv_CommunityPool :: coins
  gv_DepositParams :: deposit_params
  gv_VotingPeriod :: int
  gv_TallyParams :: tally_params
  gv_ChangeParams :: change_params
  gv_nextID :: "int option"
  gv_proposals :: "(string, proposal) kv"
  gv_active :: "(int \<times> string, int) kv"
  gv_inactive :: "(int \<times> string, int) kv"
  gv_waiting :: "(int \<times> string, int) kv"
  gv_deposits :: "(string \<times> addr, deposit) kv"
  gv_votes :: "(string \<times> addr, vote) kv"

abbreviation gv_chain :: "'b gov \<Rightarrow> 'b chain" where
  "gv_chain s \<equiv> am_chain (fm_amm (gv_farm s))"

abbreviation gv_bank :: "'b gov \<Rightarrow> 'b" where
  "gv_bank s \<equiv> bank (gv_chain s)"

definition set_gv_chain :: "'b chain \<Rightarrow> 'b gov \<Rightarrow> 'b gov" where
  "set_gv_chain c s = s\<lparr>gv_farm := (gv_farm s)\<lparr>fm_amm := (fm_amm (gv_farm s))\<lparr>am_chain := c\<rparr>\<rparr>\<rparr>"

definition set_gv_bank :: "'b \<Rightarrow> 'b gov \<Rightarrow> 'b gov" where
  "set_gv_bank b s = set_gv_chain ((gv_chain s)\<lparr>bank := b\<rparr>) s"

text \<open>
  SDK functions that only governance calls: \<open>IsAllGTE\<close>, \<open>MulDec\<close> by one tenth, transfers between modules, and of the
  parameter store \<open>ValidateChanges\<close>, the existence of a subspace and \<open>Update\<close>. \<open>Update\<close> panics on a key that is not registered,
  which ends a message as an error does; a proposal with such a key is not accepted, since its changes are tried out
  when it is submitted.
\<close>

record 'b gov_fns =
  g_all_gte :: "coins \<Rightarrow> coins \<Rightarrow> bool"
  g_tenth :: "coins \<Rightarrow> coins"
  g_mod_to_mod :: "'b \<Rightarrow> string \<Rightarrow> string \<Rightarrow> coins \<Rightarrow> string + 'b"
  g_validate_changes :: "param_change list \<Rightarrow> gov_error option"
  g_has_subspace :: "string \<Rightarrow> bool"
  g_update :: "'b gov \<Rightarrow> string \<Rightarrow> string \<Rightarrow> string \<Rightarrow> string + 'b gov"

definition govModule :: string where "govModule = ''gov''"
definition distrModule :: string where "distrModule = ''distribution''"

subsection \<open>Store\<close>

definition ProposalKey :: "int \<Rightarrow> string" where
  "ProposalKey proposalID = le_bytes 8 proposalID"

definition GetProposal :: "'b gov \<Rightarrow> int \<Rightarrow> proposal option" where
  "GetProposal s proposalID = map_of (gv_proposals s) (ProposalKey proposalID)"

definition SetProposal :: "proposal \<Rightarrow> 'b gov \<Rightarrow> 'b gov" where
  "SetProposal p s = s\<lparr>gv_proposals := kv_set (ProposalKey (pp_ID p)) p (gv_proposals s)\<rparr>"

definition GetProposalID :: "'b gov \<Rightarrow> gov_error + int" where
  "GetProposalID s = (case gv_nextID s of None \<Rightarrow> Inl ErrGovInvalidGenesis | Some n \<Rightarrow> Inr n)"

definition SetProposalID :: "int \<Rightarrow> 'b gov \<Rightarrow> 'b gov" where
  "SetProposalID n s = s\<lparr>gv_nextID := Some n\<rparr>"

definition InsertActiveProposalQueue :: "int \<Rightarrow> int \<Rightarrow> 'b gov \<Rightarrow> 'b gov" where
  "InsertActiveProposalQueue proposalID endTime s =
     s\<lparr>gv_active := kv_set (endTime, ProposalKey proposalID) proposalID (gv_active s)\<rparr>"

definition RemoveFromActiveProposalQueue :: "int \<Rightarrow> int \<Rightarrow> 'b gov \<Rightarrow> 'b gov" where
  "RemoveFromActiveProposalQueue proposalID endTime s =
     s\<lparr>gv_active := kv_del (endTime, ProposalKey proposalID) (gv_active s)\<rparr>"

definition InsertInactiveProposalQueue :: "int \<Rightarrow> int \<Rightarrow> 'b gov \<Rightarrow> 'b gov" where
  "InsertInactiveProposalQueue proposalID endTime s =
     s\<lparr>gv_inactive := kv_set (endTime, ProposalKey proposalID) proposalID (gv_inactive s)\<rparr>"

definition RemoveFromInactiveProposalQueue :: "int \<Rightarrow> int \<Rightarrow> 'b gov \<Rightarrow> 'b gov" where
  "RemoveFromInactiveProposalQueue proposalID endTime s =
     s\<lparr>gv_inactive := kv_del (endTime, ProposalKey proposalID) (gv_inactive s)\<rparr>"

definition InsertWaitingProposalQueue :: "int \<Rightarrow> int \<Rightarrow> 'b gov \<Rightarrow> 'b gov" where
  "InsertWaitingProposalQueue blockHeight proposalID s =
     s\<lparr>gv_waiting := kv_set (blockHeight, ProposalKey proposalID) proposalID (gv_waiting s)\<rparr>"

definition RemoveFromWaitingProposalQueue :: "int \<Rightarrow> int \<Rightarrow> 'b gov \<Rightarrow> 'b gov" where
  "RemoveFromWaitingProposalQueue blockHeight proposalID s =
     s\<lparr>gv_waiting := kv_del (blockHeight, ProposalKey proposalID) (gv_waiting s)\<rparr>"

text \<open>
  The iterator of a queue visits the entries up to a bound; \<open>SplitActiveProposalQueueKey\<close> and its siblings read the id
  from the last eight bytes of the key.
\<close>

definition queue_upto :: "int \<Rightarrow> (int \<times> string, int) kv \<Rightarrow> int list" where
  "queue_upto bound q = map (\<lambda>e. le_value (snd (fst e))) (filter (\<lambda>e. fst (fst e) \<le> bound) q)"

definition DeleteProposal :: "int \<Rightarrow> 'b gov \<Rightarrow> gov_error + 'b gov" where
  "DeleteProposal proposalID s =
     (case GetProposal s proposalID of
        None \<Rightarrow> Inl GovPanic
      | Some p \<Rightarrow>
          (let s = RemoveFromInactiveProposalQueue proposalID (pp_DepositEndTime p) s;
               s = RemoveFromActiveProposalQueue proposalID (pp_VotingEndTime p) s
           in Inr (s\<lparr>gv_proposals := kv_del (ProposalKey proposalID) (gv_proposals s)\<rparr>)))"

definition GetDeposit :: "'b gov \<Rightarrow> int \<Rightarrow> addr \<Rightarrow> deposit option" where
  "GetDeposit s proposalID a = map_of (gv_deposits s) (ProposalKey proposalID, a)"

definition SetDeposit :: "deposit \<Rightarrow> 'b gov \<Rightarrow> 'b gov" where
  "SetDeposit d s = s\<lparr>gv_deposits := kv_set (ProposalKey (de_ProposalID d), de_Depositor d) d (gv_deposits s)\<rparr>"

definition deleteDeposit :: "int \<Rightarrow> addr \<Rightarrow> 'b gov \<Rightarrow> 'b gov" where
  "deleteDeposit proposalID a s = s\<lparr>gv_deposits := kv_del (ProposalKey proposalID, a) (gv_deposits s)\<rparr>"

definition GetDeposits :: "'b gov \<Rightarrow> int \<Rightarrow> deposit list" where
  "GetDeposits s proposalID = map snd (filter (\<lambda>e. fst (fst e) = ProposalKey proposalID) (gv_deposits s))"

definition GetAllDeposits :: "'b gov \<Rightarrow> deposit list" where
  "GetAllDeposits s = map snd (gv_deposits s)"

definition GetVote :: "'b gov \<Rightarrow> int \<Rightarrow> addr \<Rightarrow> vote option" where
  "GetVote s proposalID a = map_of (gv_votes s) (ProposalKey proposalID, a)"

definition SetVote :: "int \<Rightarrow> vote \<Rightarrow> 'b gov \<Rightarrow> 'b gov" where
  "SetVote proposalID v s = s\<lparr>gv_votes := kv_set (ProposalKey proposalID, vo_Voter v) v (gv_votes s)\<rparr>"

definition deleteVote :: "int \<Rightarrow> addr \<Rightarrow> 'b gov \<Rightarrow> 'b gov" where
  "deleteVote proposalID a s = s\<lparr>gv_votes := kv_del (ProposalKey proposalID, a) (gv_votes s)\<rparr>"

definition GetVotes :: "'b gov \<Rightarrow> int \<Rightarrow> vote list" where
  "GetVotes s proposalID = map snd (filter (\<lambda>e. fst (fst e) = ProposalKey proposalID) (gv_votes s))"

definition GetAllVotes :: "'b gov \<Rightarrow> vote list" where
  "GetAllVotes s = map snd (gv_votes s)"

definition DeleteVotes :: "int \<Rightarrow> 'b gov \<Rightarrow> 'b gov" where
  "DeleteVotes proposalID s = fold (\<lambda>v. deleteVote (vo_ProposalID v) (vo_Voter v)) (GetVotes s proposalID) s"

text \<open>
  \<open>GetProposalsFiltered\<close>: the loop runs over \<open>uint64\<close> ids from \<open>maxProposalID - numLatest\<close>, which wraps around. An empty
  address and \<open>StatusNil\<close> do not filter.
\<close>

definition proposal_matches :: "'b gov \<Rightarrow> addr \<Rightarrow> addr \<Rightarrow> proposal_status \<Rightarrow> int \<Rightarrow> proposal option" where
  "proposal_matches s voter depositor status proposalID =
     (if voter \<noteq> [] \<and> GetVote s proposalID voter = None then None
      else if depositor \<noteq> [] \<and> GetDeposit s proposalID depositor = None then None
      else case GetProposal s proposalID of
             None \<Rightarrow> None
           | Some p \<Rightarrow> if ValidProposalStatus status \<and> pp_Status p \<noteq> status then None else Some p)"

definition GetProposalsFiltered :: "'b gov \<Rightarrow> addr \<Rightarrow> addr \<Rightarrow> proposal_status \<Rightarrow> int \<Rightarrow> proposal list" where
  "GetProposalsFiltered s voter depositor status numLatest =
     (case GetProposalID s of
        Inl er \<Rightarrow> []
      | Inr maxProposalID \<Rightarrow>
          (let numLatest = (if numLatest = 0 then maxProposalID else numLatest)
           in List.map_filter (proposal_matches s voter depositor status)
                [(maxProposalID - numLatest) mod 2 ^ 64 .. maxProposalID - 1]))"

end
