(* ===== verification/GovRoutes.thy ===== *)
theory GovRoutes
  imports Gov
begin

text \<open>
  The routers of governance (\<open>keeper/router.go\<close>, \<open>keeper/proposal_handler_router.go\<close>), the handlers registered in
  them, and the messages. \<open>Router\<close> maps a route to the function that runs a passed proposal; \<open>ProposalHandlerRouter\<close>
  maps it to the module's \<open>ProposalHandler\<close>, which sets the deposit and the periods of its proposals, checks them at
  submission and follows their votes. \<open>x/distribution\<close> registers only the former, so its proposals follow the
  defaults of governance. A handler runs on a cache context that is dropped when it returns an error, so a result
  \<open>Inl\<close> carries no state.
\<close>

subsection \<open>Routers\<close>

record router =
  rt_routes :: "string list"
  rt_sealed :: bool

definition isAlphaNumeric :: "string \<Rightarrow> bool" where
  "isAlphaNumeric path \<longleftrightarrow> path \<noteq> []
     \<and> list_all (\<lambda>c. 48 \<le> byte_of c \<and> byte_of c \<le> 57 \<or> 65 \<le> byte_of c \<and> byte_of c \<le> 90
                  \<or> 97 \<le> byte_of c \<and> byte_of c \<le> 122) path"

definition NewRouter :: router where
  "NewRouter = \<lparr>rt_routes = [], rt_sealed = False\<rparr>"

definition HasRoute :: "router \<Rightarrow> string \<Rightarrow> bool" where
  "HasRoute r path \<longleftrightarrow> path \<in> set (rt_routes r)"

definition AddRoute :: "string \<Rightarrow> router \<Rightarrow> router option" where
  "AddRoute path r =
     (if rt_sealed r then None
      else if \<not> isAlphaNumeric path then None
      else if HasRoute r path then None
      else Some (r\<lparr>rt_routes := rt_routes r @ [path]\<rparr>))"

definition Seal :: "router \<Rightarrow> router option" where
  "Seal r = (if rt_sealed r then None else Some (r\<lparr>rt_sealed := True\<rparr>))"

text \<open>The routers as \<open>app/app.go\<close> and \<open>NewKeeper\<close> fill them; \<open>NewKeeper\<close> seals the first and adds governance to the second.\<close>

definition govRouter :: router where
  "govRouter = \<lparr>rt_routes = [''gov'', ''params'', ''distribution'', ''dex'', ''farm''], rt_sealed = True\<rparr>"

definition proposalHandlerRouter :: router where
  "proposalHandlerRouter = \<lparr>rt_routes = [''params'', ''dex'', ''farm'', ''gov''], rt_sealed = False\<rparr>"

lemma app_builds_routers:
  "ofold AddRoute [''gov'', ''params'', ''distribution'', ''dex'', ''farm''] NewRouter =
     Some (govRouter\<lparr>rt_sealed := False\<rparr>)"
  "Seal (govRouter\<lparr>rt_sealed := False\<rparr>) = Some govRouter"
  "ofold AddRoute [''params'', ''dex'', ''farm'', ''gov''] NewRouter = Some proposalHandlerRouter"
  by (simp_all add: AddRoute_def Seal_def NewRouter_def HasRoute_def isAlphaNumeric_def byte_of_def govRouter_def
        proposalHandlerRouter_def)

subsection \<open>Changes of parameters\<close>

fun changeParams :: "'b gov_fns \<Rightarrow> param_change list \<Rightarrow> 'b gov \<Rightarrow> gov_error + 'b gov" where
  "changeParams G [] s = Inr s"
| "changeParams G (c # cs) s =
     (if \<not> g_has_subspace G (ch_Subspace c) then Inl (ErrUnknownSubspace (ch_Subspace c))
      else case g_update G s (ch_Subspace c) (ch_Key c) (ch_Value c) of
             Inl er \<Rightarrow> Inl (ErrSettingParameter er)
           | Inr s' \<Rightarrow> changeParams G cs s')"

text \<open>The removal from the waiting queue is deferred; after an error it is lost with the cache context.\<close>

definition handleParameterChangeProposal ::
  "'b gov_fns \<Rightarrow> env \<Rightarrow> int \<Rightarrow> param_change list \<Rightarrow> int \<Rightarrow> 'b gov \<Rightarrow> gov_error + 'b gov" where
  "handleParameterChangeProposal G e proposalID changes height s =
     (if e_Height e < height then Inr (InsertWaitingProposalQueue height proposalID s)
      else rbind (changeParams G changes s) (\<lambda>s'. Inr (RemoveFromWaitingProposalQueue height proposalID s')))"

fun checkDenom :: "param_change list \<Rightarrow> gov_error option" where
  "checkDenom [] = None"
| "checkDenom (c # cs) =
     (if ch_Subspace c = ''evm'' \<and> ch_Key c = ''EVMDenom''
      then Some (ErrSettingParameter ''evm denom can not be reset'')
      else if ch_Subspace c = ''staking'' \<and> ch_Key c = ''BondDenom''
      then Some (ErrSettingParameter ''staking bond denom can not be reset'')
      else checkDenom cs)"

definition IsValidator :: "'b gov \<Rightarrow> addr \<Rightarrow> bool" where
  "IsValidator s a \<longleftrightarrow> a \<in> fst ` set (sv_Bonded (gv_staking s))"

text \<open>Heights and their bound are \<open>uint64\<close>: the sums wrap around.\<close>

definition params_CheckMsgSubmitProposal ::
  "'b sdk \<Rightarrow> 'b gov_fns \<Rightarrow> env \<Rightarrow> 'b gov \<Rightarrow> param_change list \<Rightarrow> int \<Rightarrow> coins \<Rightarrow> addr \<Rightarrow> gov_error option" where
  "params_CheckMsgSubmitProposal S G e s changes height initialDeposit proposer =
     (if s_mercury S (e_Height e) \<and> checkDenom changes \<noteq> None then checkDenom changes
      else if \<not> IsValidator s proposer then Some ErrGovInvalidProposer
      else if \<not> HasSufficientCoins S initialDeposit (g_tenth G (cpa_MinDeposit (gv_ChangeParams s)))
      then Some ErrGovInvalidCoins
      else if \<not> HasSufficientCoins S (b_coins S (gv_bank s) proposer) initialDeposit then Some ErrGovInvalidCoins
      else
        (let curHeight = e_Height e;
             maxHeight = (if cpa_MaxBlockHeight (gv_ChangeParams s) = 0 then (2 ^ 63 - 1 - height) mod 2 ^ 64
                          else cpa_MaxBlockHeight (gv_ChangeParams s))
         in if height < curHeight \<or> (curHeight + maxHeight) mod 2 ^ 64 < height
            then Some (ErrGovInvalidHeight height curHeight maxHeight)
            else case changeParams G changes s of Inl er \<Rightarrow> Some er | Inr _ \<Rightarrow> None))"

subsection \<open>The community pool\<close>

definition HandleCommunityPoolSpendProposal :: "'b sdk \<Rightarrow> addr \<Rightarrow> coins \<Rightarrow> 'b gov \<Rightarrow> gov_error + 'b gov" where
  "HandleCommunityPoolSpendProposal S recipient amount s =
     (if b_blacklisted S recipient then Inl (ErrBlacklisted recipient)
      else
        (let (newPool, negative) = c_safe_sub S (gv_CommunityPool s) amount
         in if negative then Inl ErrBadDistribution
            else case b_mod_to_acc S (gv_bank s) distrModule recipient amount of
                   Inl er \<Rightarrow> Inl (GovBank er)
                 | Inr b \<Rightarrow> Inr ((set_gv_bank b s)\<lparr>gv_CommunityPool := newPool\<rparr>)))"

subsection \<open>Handlers of passed proposals\<close>

definition run_delist :: "env \<Rightarrow> proposal \<Rightarrow> delist_proposal \<Rightarrow> 'b gov \<Rightarrow> gov_error + 'b gov" where
  "run_delist e p d s =
     (case handleDelistProposal e d (gv_chain s) of
        Inl er \<Rightarrow> Inl (GovDex er)
      | Inr c \<Rightarrow> Inr (RemoveFromActiveProposalQueue (pp_ID p) (pp_VotingEndTime p) (set_gv_chain c s)))"

definition run_white_list :: "white_list_proposal \<Rightarrow> 'b gov \<Rightarrow> gov_error + 'b gov" where
  "run_white_list w s =
     (case handleManageWhiteListProposal (gv_farm s) w of
        Inl er \<Rightarrow> Inl (GovFarm er)
      | Inr f \<Rightarrow> Inr (s\<lparr>gv_farm := f\<rparr>))"

fun proposal_handler :: "'b sdk \<Rightarrow> 'b gov_fns \<Rightarrow> env \<Rightarrow> proposal \<Rightarrow> content \<Rightarrow> 'b gov \<Rightarrow> gov_error + 'b gov" where
  "proposal_handler S G e p (TextProposal t d) s = Inr s"
| "proposal_handler S G e p (SoftwareUpgradeProposal t d) s = Inr s"
| "proposal_handler S G e p (ParameterChangeProposal t d cs h) s = handleParameterChangeProposal G e (pp_ID p) cs h s"
| "proposal_handler S G e p (CommunityPoolSpendProposal t d r a) s = HandleCommunityPoolSpendProposal S r a s"
| "proposal_handler S G e p (DelistProposal t d q) s = run_delist e p q s"
| "proposal_handler S G e p (ManageWhiteListProposal t d w) s = run_white_list w s"

text \<open>\<open>Router.GetRoute\<close> panics on a route that is not registered.\<close>

definition run_proposal :: "'b sdk \<Rightarrow> 'b gov_fns \<Rightarrow> env \<Rightarrow> proposal \<Rightarrow> 'b gov \<Rightarrow> (gov_error + 'b gov) option" where
  "run_proposal S G e p s =
     (if HasRoute govRouter (ProposalRoute (pp_Content p)) then Some (proposal_handler S G e p (pp_Content p) s) else None)"

subsection \<open>Proposal handlers\<close>

definition gov_GetMinDeposit :: "'b gov \<Rightarrow> coins" where
  "gov_GetMinDeposit s = dpa_MinDeposit (gv_DepositParams s)"

fun route_GetMinDeposit :: "'b gov \<Rightarrow> content \<Rightarrow> coins" where
  "route_GetMinDeposit s (ParameterChangeProposal t d cs h) = cpa_MinDeposit (gv_ChangeParams s)"
| "route_GetMinDeposit s (DelistProposal t d q) = dp_DelistMinDeposit (dexP (gv_chain s))"
| "route_GetMinDeposit s (ManageWhiteListProposal t d w) = dpa_MinDeposit (gv_DepositParams s)"
| "route_GetMinDeposit s c = gov_GetMinDeposit s"

fun route_GetMaxDepositPeriod :: "'b gov \<Rightarrow> content \<Rightarrow> int" where
  "route_GetMaxDepositPeriod s (ParameterChangeProposal t d cs h) = cpa_MaxDepositPeriod (gv_ChangeParams s)"
| "route_GetMaxDepositPeriod s (DelistProposal t d q) = dp_DelistMaxDepositPeriod (dexP (gv_chain s))"
| "route_GetMaxDepositPeriod s (ManageWhiteListProposal t d w) = dpa_MaxDepositPeriod (gv_DepositParams s)"
| "route_GetMaxDepositPeriod s c = dpa_MaxDepositPeriod (gv_DepositParams s)"

fun route_GetVotingPeriod :: "'b gov \<Rightarrow> content \<Rightarrow> int" where
  "route_GetVotingPeriod s (ParameterChangeProposal t d cs h) = cpa_VotingPeriod (gv_ChangeParams s)"
| "route_GetVotingPeriod s (DelistProposal t d q) = dp_DelistVotingPeriod (dexP (gv_chain s))"
| "route_GetVotingPeriod s (ManageWhiteListProposal t d w) = gv_VotingPeriod s"
| "route_GetVotingPeriod s c = gv_VotingPeriod s"

text \<open>The branch on \<open>ProposalHandlerRouter.HasRoute\<close> of the keeper.\<close>

definition min_deposit_of :: "'b gov \<Rightarrow> content \<Rightarrow> coins" where
  "min_deposit_of s c =
     (if \<not> HasRoute proposalHandlerRouter (ProposalRoute c) then dpa_MinDeposit (gv_DepositParams s)
      else route_GetMinDeposit s c)"

definition deposit_period_of :: "'b gov \<Rightarrow> content \<Rightarrow> int" where
  "deposit_period_of s c =
     (if \<not> HasRoute proposalHandlerRouter (ProposalRoute c) then dpa_MaxDepositPeriod (gv_DepositParams s)
      else route_GetMaxDepositPeriod s c)"

definition voting_period_of :: "'b gov \<Rightarrow> content \<Rightarrow> int" where
  "voting_period_of s c =
     (if \<not> HasRoute proposalHandlerRouter (ProposalRoute c) then gv_VotingPeriod s else route_GetVotingPeriod s c)"

definition gov_CheckMsgSubmitProposal ::
  "'b sdk \<Rightarrow> 'b gov_fns \<Rightarrow> 'b gov \<Rightarrow> coins \<Rightarrow> addr \<Rightarrow> gov_error option" where
  "gov_CheckMsgSubmitProposal S G s initialDeposit proposer =
     (let initDeposit = g_tenth G (dpa_MinDeposit (gv_DepositParams s))
      in if \<not> HasSufficientCoins S initialDeposit initDeposit then Some (ErrInitialDepositNotEnough initDeposit)
         else if \<not> HasSufficientCoins S (b_coins S (gv_bank s) proposer) initialDeposit
         then Some ErrGovInsufficientCoins else None)"

fun route_CheckMsgSubmitProposal ::
  "'b sdk \<Rightarrow> 'b gov_fns \<Rightarrow> env \<Rightarrow> 'b gov \<Rightarrow> content \<Rightarrow> coins \<Rightarrow> addr \<Rightarrow> gov_error option" where
  "route_CheckMsgSubmitProposal S G e s (ParameterChangeProposal t d cs h) dep a =
     params_CheckMsgSubmitProposal S G e s cs h dep a"
| "route_CheckMsgSubmitProposal S G e s (DelistProposal t d q) dep a =
     map_option GovDex (checkMsgDelistProposal S (IsValidator s) (g_tenth G) (gv_chain s) q a dep)"
| "route_CheckMsgSubmitProposal S G e s (ManageWhiteListProposal t d w) dep a =
     (case CheckMsgManageWhiteListProposal (gv_farm s) w of Inl er \<Rightarrow> Some (GovFarm er) | Inr _ \<Rightarrow> None)"
| "route_CheckMsgSubmitProposal S G e s c dep a = gov_CheckMsgSubmitProposal S G s dep a"

definition check_submit ::
  "'b sdk \<Rightarrow> 'b gov_fns \<Rightarrow> env \<Rightarrow> 'b gov \<Rightarrow> content \<Rightarrow> coins \<Rightarrow> addr \<Rightarrow> gov_error option" where
  "check_submit S G e s c dep a =
     (if \<not> HasRoute proposalHandlerRouter (ProposalRoute c) then gov_CheckMsgSubmitProposal S G s dep a
      else route_CheckMsgSubmitProposal S G e s c dep a)"

text \<open>Only the exchange follows the votes: it refuses them while the pair is locked and marks the pair as delisting.\<close>

fun gov_VoteHandler :: "'b gov \<Rightarrow> content \<Rightarrow> gov_error option" where
  "gov_VoteHandler s (DelistProposal t d q) = map_option GovDex (dex_VoteHandler (gv_chain s) q)"
| "gov_VoteHandler s c = None"

fun gov_AfterDepositPeriodPassed :: "content \<Rightarrow> 'b gov \<Rightarrow> 'b gov" where
  "gov_AfterDepositPeriodPassed (DelistProposal t d q) s = set_gv_chain (AfterDepositPeriodPassed q (gv_chain s)) s"
| "gov_AfterDepositPeriodPassed c s = s"

fun gov_RejectedHandler :: "content \<Rightarrow> 'b gov \<Rightarrow> 'b gov" where
  "gov_RejectedHandler (DelistProposal t d q) s = set_gv_chain (RejectedHandler q (gv_chain s)) s"
| "gov_RejectedHandler c s = s"

subsection \<open>Messages\<close>

datatype gov_msg =
    MsgSubmitProposal content coins addr
  | GovMsgDeposit int addr coins
  | MsgVote int addr vote_option

definition coins_any_negative :: "coins \<Rightarrow> bool" where
  "coins_any_negative cs \<longleftrightarrow> list_ex (\<lambda>c. snd c < 0) cs"

fun content_ValidateBasic :: "'b sdk \<Rightarrow> 'b gov_fns \<Rightarrow> content \<Rightarrow> gov_error option" where
  "content_ValidateBasic S G (ParameterChangeProposal t d cs h) =
     (case ValidateAbstract (ParameterChangeProposal t d cs h) of
        Some er \<Rightarrow> Some er
      | None \<Rightarrow> if length cs \<noteq> 1 then Some ErrInvalidParamsNum else g_validate_changes G cs)"
| "content_ValidateBasic S G (CommunityPoolSpendProposal t d r a) =
     (case ValidateAbstract (CommunityPoolSpendProposal t d r a) of
        Some er \<Rightarrow> Some er
      | None \<Rightarrow> if \<not> c_valid S a then Some ErrInvalidProposalAmount
                else if r = [] then Some ErrEmptyProposalRecipient else None)"
| "content_ValidateBasic S G (DelistProposal t d q) =
     (case ValidateAbstract (DelistProposal t d q) of
        Some er \<Rightarrow> Some er
      | None \<Rightarrow> if dl_Proposer q = [] then Some ErrGovInvalidAddress
                else if dl_BaseAsset q = dl_QuoteAsset q then Some ErrGovInvalidCoins else None)"
| "content_ValidateBasic S G (ManageWhiteListProposal t d w) =
     (case ValidateAbstract (ManageWhiteListProposal t d w) of
        Some er \<Rightarrow> Some er
      | None \<Rightarrow> if wl_PoolName w = [] then Some (ErrGovInvalidProposalContent ''pool name is required'') else None)"
| "content_ValidateBasic S G c = ValidateAbstract c"

definition hasOnlyDefaultBondDenom :: "'b sdk \<Rightarrow> coins \<Rightarrow> gov_error option" where
  "hasOnlyDefaultBondDenom S decCoins =
     (case decCoins of
        [c] \<Rightarrow> if fst c \<noteq> NativeToken \<or> \<not> c_valid S decCoins then Some ErrGovInvalidCoins else None
      | _ \<Rightarrow> Some ErrGovInvalidCoins)"

text \<open>Every content type of the model is registered as a valid proposal type; software upgrades are disabled.\<close>

fun gov_ValidateBasic :: "'b sdk \<Rightarrow> 'b gov_fns \<Rightarrow> gov_msg \<Rightarrow> gov_error option" where
  "gov_ValidateBasic S G (MsgSubmitProposal c dep a) =
     (if (case c of SoftwareUpgradeProposal t d \<Rightarrow> True | _ \<Rightarrow> False)
      then Some (ErrInvalidProposalType ''SoftwareUpgrade'')
      else if a = [] then Some ErrGovInvalidAddress
      else if \<not> c_valid S dep then Some ErrGovInvalidCoins
      else if coins_any_negative dep then Some ErrGovInvalidCoins
      else if hasOnlyDefaultBondDenom S dep \<noteq> None then Some ErrGovInvalidCoins
      else content_ValidateBasic S G c)"
| "gov_ValidateBasic S G (GovMsgDeposit i a cs) =
     (if a = [] then Some ErrGovInvalidAddress
      else if \<not> c_valid S cs then Some ErrGovInvalidCoins
      else if coins_any_negative cs then Some ErrGovInvalidCoins
      else None)"
| "gov_ValidateBasic S G (MsgVote i a opt) =
     (if a = [] then Some ErrGovInvalidAddress
      else if \<not> ValidVoteOption opt then Some ErrInvalidVote
      else None)"

end
