(* ===== verification/GovHandler.thy ===== *)
theory GovHandler
  imports GovRoutes
begin

text \<open>
  Governance at work: the tally (\<open>keeper/tally.go\<close>), deposits (\<open>keeper/deposit.go\<close>), votes (\<open>keeper/vote.go\<close>), the
  message handlers (\<open>handler.go\<close>), the end of a block (\<open>endblocker.go\<close>), the tally query and the registered invariant (\<open>invariants.go\<close>). Loops over an
  iterator whose body changes the store visit the entries that the iterator had at its start.
\<close>

subsection \<open>Tally\<close>

text \<open>
  \<open>validatorGovInfo\<close> without the bonded tokens, which the tally never reads. The map of results has an entry for each
  of the four valid options; adding to another entry panics (\<open>None\<close>) on the nil number of a missing decimal.
\<close>

record validator_gov_info =
  vg_DelegatorShares :: dec
  vg_DelegatorDeductions :: dec
  vg_Vote :: vote_option

record tally_state =
  ty_validators :: "(addr, validator_gov_info) kv"
  ty_results :: "vote_option \<Rightarrow> dec option"
  ty_totalVotedPower :: dec
  ty_voterPower :: dec
  ty_totalPower :: dec

definition add_power :: "vote_option \<Rightarrow> dec \<Rightarrow> tally_state \<Rightarrow> tally_state option" where
  "add_power opt x st =
     (case ty_results st opt of
        None \<Rightarrow> None
      | Some r \<Rightarrow> Some (st\<lparr>ty_results := (ty_results st)(opt \<mapsto> r + x),
                          ty_totalVotedPower := ty_totalVotedPower st + x\<rparr>))"

text \<open>The statement \<open>voterPower.Add(votedPower)\<close> of the inner loop drops its result and has no effect.\<close>

definition tally_delegation :: "vote_option \<Rightarrow> dec \<Rightarrow> addr \<Rightarrow> tally_state \<Rightarrow> tally_state option" where
  "tally_delegation opt shares val st =
     (case map_of (ty_validators st) val of
        None \<Rightarrow> Some st
      | Some valInfo \<Rightarrow>
          add_power opt shares
            (st\<lparr>ty_validators := kv_set val
                (valInfo\<lparr>vg_DelegatorDeductions := vg_DelegatorDeductions valInfo + shares\<rparr>) (ty_validators st)\<rparr>))"

definition tally_vote :: "'b gov \<Rightarrow> vote \<Rightarrow> tally_state \<Rightarrow> tally_state option" where
  "tally_vote s v st =
     (case map_of (ty_validators st) (vo_Voter v) of
        Some val \<Rightarrow>
          Some (st\<lparr>ty_validators := kv_set (vo_Voter v) (val\<lparr>vg_Vote := vo_Option v\<rparr>) (ty_validators st)\<rparr>)
      | None \<Rightarrow>
          (case map_of (sv_Delegators (gv_staking s)) (vo_Voter v) of
             None \<Rightarrow> Some st
           | Some (vals, shares) \<Rightarrow> ofold (tally_delegation (vo_Option v) shares) vals st))"

definition tallyDelegatorVotes :: "'b gov \<Rightarrow> int \<Rightarrow> vote option \<Rightarrow> tally_state \<Rightarrow> tally_state option" where
  "tallyDelegatorVotes s proposalID voteP st =
     ofold (tally_vote s) (GetVotes s proposalID @ (case voteP of None \<Rightarrow> [] | Some v \<Rightarrow> [v])) st"

definition tally_validator :: "vote option \<Rightarrow> addr \<times> validator_gov_info \<Rightarrow> tally_state \<Rightarrow> tally_state option" where
  "tally_validator voteP entry st =
     (let (key, val) = entry;
          st = st\<lparr>ty_totalPower := ty_totalPower st + vg_DelegatorShares val\<rparr>;
          valValidVotedPower = vg_DelegatorShares val - vg_DelegatorDeductions val
      in if vg_Vote val = OptionEmpty then Some st
         else add_power (vg_Vote val) valValidVotedPower
                (if (case voteP of None \<Rightarrow> False | Some v \<Rightarrow> vo_Voter v = key)
                 then st\<lparr>ty_voterPower := ty_voterPower st + valValidVotedPower\<rparr> else st))"

text \<open>The code visits the validators in the random order of a map; the sums do not depend on it.\<close>

definition tallyValidatorVotes :: "vote option \<Rightarrow> tally_state \<Rightarrow> tally_state option" where
  "tallyValidatorVotes voteP st = ofold (tally_validator voteP) (ty_validators st) st"

definition start_tally :: "'b gov \<Rightarrow> tally_state" where
  "start_tally s =
     \<lparr>ty_validators =
        fold (\<lambda>(a, shares). kv_set a \<lparr>vg_DelegatorShares = shares, vg_DelegatorDeductions = 0, vg_Vote = OptionEmpty\<rparr>)
          (sv_Bonded (gv_staking s)) [],
      ty_results = [OptionYes \<mapsto> 0, OptionAbstain \<mapsto> 0, OptionNo \<mapsto> 0, OptionNoWithVeto \<mapsto> 0],
      ty_totalVotedPower = 0, ty_voterPower = 0, ty_totalPower = 0\<rparr>"

definition preTally ::
  "'b sdk \<Rightarrow> 'b gov \<Rightarrow> proposal \<Rightarrow> vote option \<Rightarrow> ((vote_option \<Rightarrow> dec option) \<times> dec \<times> dec) option" where
  "preTally S s p voteP =
     (case tallyDelegatorVotes s (pp_ID p) voteP (start_tally s) of
        None \<Rightarrow> None
      | Some st \<Rightarrow>
          (case tallyValidatorVotes voteP st of
             None \<Rightarrow> None
           | Some st \<Rightarrow>
               Some (ty_results st, ty_totalVotedPower st,
                 (if 0 < ty_totalPower st then d_quo S (ty_voterPower st) (ty_totalPower st) else 0))))"

definition totalPower :: "'b gov \<Rightarrow> dec" where
  "totalPower s = sum_list (map snd (sv_Bonded (gv_staking s)))"

definition result_of :: "(vote_option \<Rightarrow> dec option) \<Rightarrow> vote_option \<Rightarrow> dec" where
  "result_of results opt = (case results opt of None \<Rightarrow> 0 | Some x \<Rightarrow> x)"

definition NewTallyResultFromMap :: "(vote_option \<Rightarrow> dec option) \<Rightarrow> dec \<Rightarrow> dec \<Rightarrow> tally_result" where
  "NewTallyResultFromMap results totalPow voted =
     \<lparr>tr_TotalPower = totalPow, tr_TotalVotedPower = voted, tr_Yes = result_of results OptionYes,
      tr_Abstain = result_of results OptionAbstain, tr_No = result_of results OptionNo,
      tr_NoWithVeto = result_of results OptionNoWithVeto\<rparr>"

definition tallyStatusInVotePeriod :: "'b sdk \<Rightarrow> tally_params \<Rightarrow> tally_result \<Rightarrow> proposal_status \<times> bool" where
  "tallyStatusInVotePeriod S tp r =
     (if tr_TotalPower r = 0 then (StatusRejected, False)
      else if tr_TotalPower r - tr_Abstain r = 0 then (StatusRejected, False)
      else if tpa_Veto tp < d_quo S (tr_NoWithVeto r) (tr_TotalPower r) then (StatusRejected, True)
      else if tpa_Threshold tp \<le> d_quo S (tr_NoWithVeto r + tr_No r) (tr_TotalPower r - tr_Abstain r)
      then (StatusRejected, False)
      else if tpa_YesInVotePeriod tp < d_quo S (tr_Yes r) (tr_TotalPower r) then (StatusPassed, False)
      else (StatusVotingPeriod, False))"

definition tallyStatusExpireVotePeriod :: "'b sdk \<Rightarrow> tally_params \<Rightarrow> tally_result \<Rightarrow> proposal_status \<times> bool" where
  "tallyStatusExpireVotePeriod S tp r =
     (if tr_TotalPower r = 0 then (StatusRejected, False)
      else if d_quo S (tr_TotalVotedPower r) (tr_TotalPower r) < tpa_Quorum tp then (StatusRejected, True)
      else if tr_TotalVotedPower r - tr_Abstain r = 0 then (StatusRejected, False)
      else if tpa_Veto tp < d_quo S (tr_NoWithVeto r) (tr_TotalVotedPower r) then (StatusRejected, True)
      else if tpa_Threshold tp < d_quo S (tr_Yes r) (tr_TotalVotedPower r - tr_Abstain r) then (StatusPassed, False)
      else (StatusRejected, False))"

definition Tally :: "'b sdk \<Rightarrow> 'b gov \<Rightarrow> proposal \<Rightarrow> bool \<Rightarrow> (proposal_status \<times> bool \<times> tally_result) option" where
  "Tally S s p isExpireVoteEndTime =
     (case preTally S s p None of
        None \<Rightarrow> None
      | Some (results, voted, _) \<Rightarrow>
          (let r = NewTallyResultFromMap results (totalPower s) voted;
               (status, distribute) = (if isExpireVoteEndTime then tallyStatusExpireVotePeriod S (gv_TallyParams s) r
                                       else tallyStatusInVotePeriod S (gv_TallyParams s) r)
           in Some (status, distribute, r)))"

subsection \<open>Deposits\<close>

definition activateVotingPeriod :: "env \<Rightarrow> proposal \<Rightarrow> 'b gov \<Rightarrow> proposal \<times> 'b gov" where
  "activateVotingPeriod e p s =
     (let p = p\<lparr>pp_VotingStartTime := e_Time e, pp_VotingEndTime := e_Time e + voting_period_of s (pp_Content p),
                pp_Status := StatusVotingPeriod\<rparr>;
          s = RemoveFromInactiveProposalQueue (pp_ID p) (pp_DepositEndTime p) s
      in (p, InsertActiveProposalQueue (pp_ID p) (pp_VotingEndTime p) s))"

definition tryEnterVotingPeriod :: "'b sdk \<Rightarrow> 'b gov_fns \<Rightarrow> env \<Rightarrow> proposal \<Rightarrow> coins \<Rightarrow> 'b gov \<Rightarrow> 'b gov" where
  "tryEnterVotingPeriod S G e p depositAmount s =
     (let p = p\<lparr>pp_TotalDeposit := c_add2 S (pp_TotalDeposit p) depositAmount\<rparr>
      in if pp_Status p = StatusDepositPeriod \<and> g_all_gte G (pp_TotalDeposit p) (min_deposit_of s (pp_Content p))
         then (let (p, s) = activateVotingPeriod e p s;
                   p = p\<lparr>pp_DepositEndTime := e_Time e\<rparr>
               in gov_AfterDepositPeriodPassed (pp_Content p) (SetProposal p s))
         else SetProposal p s)"

definition updateDeposit :: "'b sdk \<Rightarrow> int \<Rightarrow> addr \<Rightarrow> coins \<Rightarrow> 'b gov \<Rightarrow> 'b gov" where
  "updateDeposit S proposalID depositor depositAmount s =
     (case GetDeposit s proposalID depositor of
        Some d \<Rightarrow> SetDeposit (d\<lparr>de_Amount := c_add2 S (de_Amount d) depositAmount\<rparr>) s
      | None \<Rightarrow> SetDeposit \<lparr>de_ProposalID = proposalID, de_Depositor = depositor, de_Amount = depositAmount\<rparr> s)"

definition AddDeposit ::
  "'b sdk \<Rightarrow> 'b gov_fns \<Rightarrow> env \<Rightarrow> int \<Rightarrow> addr \<Rightarrow> coins \<Rightarrow> 'b gov \<Rightarrow> gov_error + 'b gov" where
  "AddDeposit S G e proposalID depositor depositAmount s =
     (case GetProposal s proposalID of
        None \<Rightarrow> Inl (ErrUnknownProposal proposalID)
      | Some p \<Rightarrow>
          if pp_Status p \<noteq> StatusDepositPeriod then Inl ErrInvalidateProposalStatus
          else case b_acc_to_mod S (gv_bank s) depositor govModule depositAmount of
                 Inl er \<Rightarrow> Inl (GovBank er)
               | Inr b \<Rightarrow>
                   Inr (updateDeposit S proposalID depositor depositAmount
                          (tryEnterVotingPeriod S G e p depositAmount (set_gv_bank b s))))"

text \<open>A failing transfer panics.\<close>

definition refund_deposit :: "'b sdk \<Rightarrow> int \<Rightarrow> deposit \<Rightarrow> 'b gov \<Rightarrow> 'b gov option" where
  "refund_deposit S proposalID d s =
     (case b_mod_to_acc S (gv_bank s) govModule (de_Depositor d) (de_Amount d) of
        Inl er \<Rightarrow> None
      | Inr b \<Rightarrow> Some (deleteDeposit proposalID (de_Depositor d) (set_gv_bank b s)))"

definition RefundDeposits :: "'b sdk \<Rightarrow> int \<Rightarrow> 'b gov \<Rightarrow> 'b gov option" where
  "RefundDeposits S proposalID s = ofold (refund_deposit S proposalID) (GetDeposits s proposalID) s"

definition distribute_deposit :: "'b gov_fns \<Rightarrow> env \<Rightarrow> int \<Rightarrow> deposit \<Rightarrow> 'b gov \<Rightarrow> 'b gov option" where
  "distribute_deposit G e proposalID d s =
     (case g_mod_to_mod G (gv_bank s) govModule (e_FeeCollector e) (de_Amount d) of
        Inl er \<Rightarrow> None
      | Inr b \<Rightarrow> Some (deleteDeposit proposalID (de_Depositor d) (set_gv_bank b s)))"

definition DistributeDeposits :: "'b gov_fns \<Rightarrow> env \<Rightarrow> int \<Rightarrow> 'b gov \<Rightarrow> 'b gov option" where
  "DistributeDeposits G e proposalID s = ofold (distribute_deposit G e proposalID) (GetDeposits s proposalID) s"

text \<open>\<open>DeleteDeposits\<close> burns the deposits of a proposal; no handler calls it.\<close>

definition burn_deposit :: "'b sdk \<Rightarrow> int \<Rightarrow> deposit \<Rightarrow> 'b gov \<Rightarrow> 'b gov option" where
  "burn_deposit S proposalID d s =
     (case b_burn S (gv_bank s) govModule (de_Amount d) of
        Inl er \<Rightarrow> None
      | Inr b \<Rightarrow> Some (deleteDeposit proposalID (de_Depositor d) (set_gv_bank b s)))"

definition DeleteDeposits :: "'b sdk \<Rightarrow> int \<Rightarrow> 'b gov \<Rightarrow> 'b gov option" where
  "DeleteDeposits S proposalID s = ofold (burn_deposit S proposalID) (GetDeposits s proposalID) s"

subsection \<open>Proposals and votes\<close>

definition SubmitProposal :: "env \<Rightarrow> content \<Rightarrow> 'b gov \<Rightarrow> gov_error + (proposal \<times> 'b gov)" where
  "SubmitProposal e c s =
     (if \<not> HasRoute govRouter (ProposalRoute c) then Inl ErrNoProposalHandlerExists
      else
        rbind (GetProposalID s) (\<lambda>proposalID.
        let p = NewProposal (totalPower s) c proposalID (e_Time e) (e_Time e + deposit_period_of s c);
            s = SetProposal p s;
            s = InsertInactiveProposalQueue proposalID (pp_DepositEndTime p) s;
            s = SetProposalID ((proposalID + 1) mod 2 ^ 64) s
        in Inr (p, s)))"

definition AddVote :: "int \<Rightarrow> addr \<Rightarrow> vote_option \<Rightarrow> 'b gov \<Rightarrow> gov_error + 'b gov" where
  "AddVote proposalID voter opt s =
     (case GetProposal s proposalID of
        None \<Rightarrow> Inl (ErrUnknownProposal proposalID)
      | Some p \<Rightarrow>
          if pp_Status p \<noteq> StatusVotingPeriod then Inl ErrInvalidateProposalStatus
          else if \<not> ValidVoteOption opt then Inl ErrInvalidVote
          else case (if HasRoute proposalHandlerRouter (ProposalRoute (pp_Content p))
                     then gov_VoteHandler s (pp_Content p) else None) of
                 Some er \<Rightarrow> Inl er
               | None \<Rightarrow> Inr (SetVote proposalID \<lparr>vo_ProposalID = proposalID, vo_Voter = voter, vo_Option = opt\<rparr> s))"

subsection \<open>Handlers\<close>

definition handleMsgSubmitProposal ::
  "'b sdk \<Rightarrow> 'b gov_fns \<Rightarrow> env \<Rightarrow> content \<Rightarrow> coins \<Rightarrow> addr \<Rightarrow> 'b gov \<Rightarrow> gov_error + 'b gov" where
  "handleMsgSubmitProposal S G e c initialDeposit proposer s =
     (case hasOnlyDefaultBondDenom S initialDeposit of
        Some er \<Rightarrow> Inl er
      | None \<Rightarrow>
          (case check_submit S G e s c initialDeposit proposer of
             Some er \<Rightarrow> Inl er
           | None \<Rightarrow>
               rbind (SubmitProposal e c s) (\<lambda>(p, s).
               AddDeposit S G e (pp_ID p) proposer initialDeposit s)))"

definition gov_handleMsgDeposit ::
  "'b sdk \<Rightarrow> 'b gov_fns \<Rightarrow> env \<Rightarrow> int \<Rightarrow> addr \<Rightarrow> coins \<Rightarrow> 'b gov \<Rightarrow> gov_error + 'b gov" where
  "gov_handleMsgDeposit S G e proposalID depositor amount s =
     (case hasOnlyDefaultBondDenom S amount of
        Some er \<Rightarrow> Inl er
      | None \<Rightarrow>
          if \<not> HasSufficientCoins S (b_coins S (gv_bank s) depositor) amount then Inl ErrGovInsufficientCoins
          else AddDeposit S G e proposalID depositor amount s)"

text \<open>\<open>handleProposalAfterTally\<close> updates the proposal through its pointer and returns texts for the log.\<close>

definition handleProposalAfterTally ::
  "'b sdk \<Rightarrow> 'b gov_fns \<Rightarrow> env \<Rightarrow> proposal \<Rightarrow> bool \<Rightarrow> proposal_status \<Rightarrow> 'b gov \<Rightarrow> (proposal \<times> 'b gov) option" where
  "handleProposalAfterTally S G e p distribute status s =
     (case (if distribute then DistributeDeposits G e (pp_ID p) s else RefundDeposits S (pp_ID p) s) of
        None \<Rightarrow> None
      | Some s \<Rightarrow>
          if status = StatusPassed
          then (case run_proposal S G e p s of
                  None \<Rightarrow> None
                | Some (Inr s') \<Rightarrow> Some (p\<lparr>pp_Status := StatusPassed\<rparr>, s')
                | Some (Inl er) \<Rightarrow> Some (p\<lparr>pp_Status := StatusFailed\<rparr>, s))
          else if status = StatusRejected
          then Some (p\<lparr>pp_Status := StatusRejected\<rparr>,
                 (if HasRoute proposalHandlerRouter (ProposalRoute (pp_Content p))
                  then gov_RejectedHandler (pp_Content p) s else s))
          else Some (p, s))"

definition handleMsgVote ::
  "'b sdk \<Rightarrow> 'b gov_fns \<Rightarrow> env \<Rightarrow> int \<Rightarrow> addr \<Rightarrow> vote_option \<Rightarrow> 'b gov \<Rightarrow> gov_error + 'b gov" where
  "handleMsgVote S G e proposalID voter opt s =
     (case GetProposal s proposalID of
        None \<Rightarrow> Inl (ErrUnknownProposal proposalID)
      | Some p \<Rightarrow>
          rbind (AddVote proposalID voter opt s) (\<lambda>s.
          case Tally S s p False of
            None \<Rightarrow> Inl GovPanic
          | Some (status, distribute, tallyResults) \<Rightarrow>
              (let p = p\<lparr>pp_FinalTallyResult := tallyResults\<rparr>
               in if status \<noteq> StatusVotingPeriod
                  then (case handleProposalAfterTally S G e p distribute status s of
                          None \<Rightarrow> Inl GovPanic
                        | Some (p, s) \<Rightarrow>
                            (let s = RemoveFromActiveProposalQueue (pp_ID p) (pp_VotingEndTime p) s;
                                 p = p\<lparr>pp_VotingEndTime := e_Time e\<rparr>;
                                 s = DeleteVotes (pp_ID p) s
                             in Inr (SetProposal p s)))
                  else Inr (SetProposal p s))))"

fun gov_handler :: "'b sdk \<Rightarrow> 'b gov_fns \<Rightarrow> env \<Rightarrow> gov_msg \<Rightarrow> 'b gov \<Rightarrow> gov_error + 'b gov" where
  "gov_handler S G e (MsgSubmitProposal c dep a) s = handleMsgSubmitProposal S G e c dep a s"
| "gov_handler S G e (GovMsgDeposit i a cs) s = gov_handleMsgDeposit S G e i a cs s"
| "gov_handler S G e (MsgVote i a opt) s = handleMsgVote S G e i a opt s"

subsection \<open>The end of a block\<close>

definition wait_step :: "'b sdk \<Rightarrow> 'b gov_fns \<Rightarrow> env \<Rightarrow> int \<Rightarrow> 'b gov \<Rightarrow> 'b gov option" where
  "wait_step S G e proposalID s =
     (case GetProposal s proposalID of
        None \<Rightarrow> None
      | Some p \<Rightarrow>
          (case run_proposal S G e p s of
             None \<Rightarrow> None
           | Some (Inl er) \<Rightarrow> Some s
           | Some (Inr s') \<Rightarrow> Some s'))"

definition handleWaitingProposals :: "'b sdk \<Rightarrow> 'b gov_fns \<Rightarrow> env \<Rightarrow> 'b gov \<Rightarrow> 'b gov option" where
  "handleWaitingProposals S G e s = ofold (wait_step S G e) (queue_upto (e_Height e) (gv_waiting s)) s"

definition inactive_step :: "'b gov_fns \<Rightarrow> env \<Rightarrow> int \<Rightarrow> 'b gov \<Rightarrow> 'b gov option" where
  "inactive_step G e proposalID s =
     (case GetProposal s proposalID of
        None \<Rightarrow> None
      | Some p \<Rightarrow>
          (case DeleteProposal (pp_ID p) s of
             Inl er \<Rightarrow> None
           | Inr s \<Rightarrow> DistributeDeposits G e (pp_ID p) s))"

definition handleInActiveProposals :: "'b gov_fns \<Rightarrow> env \<Rightarrow> 'b gov \<Rightarrow> 'b gov option" where
  "handleInActiveProposals G e s = ofold (inactive_step G e) (queue_upto (e_Time e) (gv_inactive s)) s"

definition active_step :: "'b sdk \<Rightarrow> 'b gov_fns \<Rightarrow> env \<Rightarrow> int \<Rightarrow> 'b gov \<Rightarrow> 'b gov option" where
  "active_step S G e proposalID s =
     (case GetProposal s proposalID of
        None \<Rightarrow> None
      | Some p \<Rightarrow>
          (case Tally S s p True of
             None \<Rightarrow> None
           | Some (status, distribute, tallyResults) \<Rightarrow>
               (case handleProposalAfterTally S G e p distribute status s of
                  None \<Rightarrow> None
                | Some (p, s) \<Rightarrow>
                    (let p = p\<lparr>pp_FinalTallyResult := tallyResults\<rparr>;
                         s = SetProposal p s;
                         s = RemoveFromActiveProposalQueue (pp_ID p) (pp_VotingEndTime p) s
                     in Some (DeleteVotes (pp_ID p) s)))))"

definition handleActiveProposals :: "'b sdk \<Rightarrow> 'b gov_fns \<Rightarrow> env \<Rightarrow> 'b gov \<Rightarrow> 'b gov option" where
  "handleActiveProposals S G e s = ofold (active_step S G e) (queue_upto (e_Time e) (gv_active s)) s"

definition gov_EndBlocker :: "'b sdk \<Rightarrow> 'b gov_fns \<Rightarrow> env \<Rightarrow> 'b gov \<Rightarrow> 'b gov option" where
  "gov_EndBlocker S G e s =
     (case handleWaitingProposals S G e s of
        None \<Rightarrow> None
      | Some s \<Rightarrow>
          (case handleInActiveProposals G e s of
             None \<Rightarrow> None
           | Some s \<Rightarrow> handleActiveProposals S G e s))"

subsection \<open>The tally query and the registered invariant\<close>

definition queryTally :: "'b sdk \<Rightarrow> 'b gov \<Rightarrow> int \<Rightarrow> (gov_error + tally_result) option" where
  "queryTally S s proposalID =
     (case GetProposal s proposalID of
        None \<Rightarrow> Some (Inl (ErrUnknownProposal proposalID))
      | Some p \<Rightarrow>
          (case pp_Status p of
             StatusDepositPeriod \<Rightarrow> Some (Inr (EmptyTallyResult (totalPower s)))
           | StatusPassed \<Rightarrow> Some (Inr (pp_FinalTallyResult p))
           | StatusRejected \<Rightarrow> Some (Inr (pp_FinalTallyResult p))
           | StatusFailed \<Rightarrow> Some (Inr (pp_FinalTallyResult p))
           | _ \<Rightarrow> (case Tally S s p True of None \<Rightarrow> None | Some (_, _, r) \<Rightarrow> Some (Inr r))))"

text \<open>The module account holds the sum of the deposits (\<open>invariants.go\<close>).\<close>

definition gov_ModuleAccountInvariant :: "'b sdk \<Rightarrow> 'b gov \<Rightarrow> denom \<Rightarrow> bool" where
  "gov_ModuleAccountInvariant S s d \<longleftrightarrow>
     bank_bal S (gv_bank s) (b_mod_addr S govModule) d = amt (fold (\<lambda>x acc. c_add2 S acc (de_Amount x)) (GetAllDeposits s) []) d"

end
