(* ===== verification/GovCore.thy ===== *)
theory GovCore
  imports GovHandler FarmCalc
begin

text \<open>
  The invariant of the governance store (\<open>gov_ok\<close>), the laws of the SDK functions governance relies on (\<open>gov_laws\<close>), and
  what paying out deposits and running the handlers of passed proposals leave alone. The locale \<open>deposit_payout\<close> is
  the contract of a transfer that pays a deposit out of the module account, interpreted for the refund to the depositor
  and the transfer to the fee collector.
\<close>

subsection \<open>Filters of stores\<close>

lemma map_of_kept_keys: "map_of (filter (\<lambda>e. P (fst e)) m) x = (if P x then map_of m x else None)"
  by (induction m) auto

lemma kv_ok_filter: "kv_ok m \<Longrightarrow> kv_ok (filter P m)"
  by (induction m) (auto simp: kv_ok_def)

lemma kv_sum_filter: "kv_sum f (filter P m) = kv_sum f m - kv_sum f (filter (\<lambda>e. \<not> P e) m)"
  by (induction m) auto

lemma kv_sum_values: "kv_sum f m = sum_list (map f (map snd m))"
  by (induction m) auto

lemma kv_ok_entry: "kv_ok m \<Longrightarrow> e \<in> set m \<Longrightarrow> map_of m (fst e) = Some (snd e)"
  by (cases e) (simp add: kv_ok_distinct)

lemma le_value_ProposalKey: "0 \<le> n \<Longrightarrow> n < 2 ^ 64 \<Longrightarrow> le_value (ProposalKey n) = n"
  unfolding ProposalKey_def by (rule le_value_bytes) simp_all

lemma ProposalKey_inj:
  "ProposalKey x = ProposalKey y \<Longrightarrow> 0 \<le> x \<Longrightarrow> x < 2 ^ 64 \<Longrightarrow> 0 \<le> y \<Longrightarrow> y < 2 ^ 64 \<Longrightarrow> x = y"
  by (metis le_value_ProposalKey)

subsection \<open>Frames\<close>

lemma set_gv_chain_simps [simp]:
  "gv_chain (set_gv_chain c s) = c" "gv_staking (set_gv_chain c s) = gv_staking s"
  "gv_CommunityPool (set_gv_chain c s) = gv_CommunityPool s" "gv_DepositParams (set_gv_chain c s) = gv_DepositParams s"
  "gv_VotingPeriod (set_gv_chain c s) = gv_VotingPeriod s" "gv_TallyParams (set_gv_chain c s) = gv_TallyParams s"
  "gv_ChangeParams (set_gv_chain c s) = gv_ChangeParams s" "gv_nextID (set_gv_chain c s) = gv_nextID s"
  "gv_proposals (set_gv_chain c s) = gv_proposals s" "gv_active (set_gv_chain c s) = gv_active s"
  "gv_inactive (set_gv_chain c s) = gv_inactive s" "gv_waiting (set_gv_chain c s) = gv_waiting s"
  "gv_deposits (set_gv_chain c s) = gv_deposits s" "gv_votes (set_gv_chain c s) = gv_votes s"
  by (simp_all add: set_gv_chain_def)

lemma set_gv_bank_simps [simp]:
  "gv_bank (set_gv_bank b s) = b" "gv_staking (set_gv_bank b s) = gv_staking s"
  "gv_CommunityPool (set_gv_bank b s) = gv_CommunityPool s" "gv_DepositParams (set_gv_bank b s) = gv_DepositParams s"
  "gv_VotingPeriod (set_gv_bank b s) = gv_VotingPeriod s" "gv_TallyParams (set_gv_bank b s) = gv_TallyParams s"
  "gv_ChangeParams (set_gv_bank b s) = gv_ChangeParams s" "gv_nextID (set_gv_bank b s) = gv_nextID s"
  "gv_proposals (set_gv_bank b s) = gv_proposals s" "gv_active (set_gv_bank b s) = gv_active s"
  "gv_inactive (set_gv_bank b s) = gv_inactive s" "gv_waiting (set_gv_bank b s) = gv_waiting s"
  "gv_deposits (set_gv_bank b s) = gv_deposits s" "gv_votes (set_gv_bank b s) = gv_votes s"
  by (simp_all add: set_gv_bank_def)

lemma set_gv_bank_again [simp]:
  "set_gv_bank b (set_gv_bank b' s) = set_gv_bank b s"
  "set_gv_bank b (s\<lparr>gv_deposits := ds\<rparr>) = (set_gv_bank b s)\<lparr>gv_deposits := ds\<rparr>"
  by (simp_all add: set_gv_bank_def set_gv_chain_def)

lemma set_gv_bank_same [simp]: "set_gv_bank (gv_bank s) s = s"
  by (simp add: set_gv_bank_def set_gv_chain_def)

text \<open>The governance store.\<close>

definition gov_core where
  "gov_core s = (gv_nextID s, gv_proposals s, gv_active s, gv_inactive s, gv_waiting s, gv_deposits s, gv_votes s)"

abbreviation gov_addr :: "'b sdk \<Rightarrow> addr" where
  "gov_addr S \<equiv> b_mod_addr S govModule"

definition coins_pos :: "coins \<Rightarrow> bool" where
  "coins_pos cs \<longleftrightarrow> coins_ok cs \<and> (\<forall>c\<in>set cs. 0 < snd c)"

definition gov_laws :: "'b sdk \<Rightarrow> 'b gov_fns \<Rightarrow> bool" where
  "gov_laws S G \<longleftrightarrow> sdk_laws S
     \<and> (\<forall>cs. c_valid S cs \<longrightarrow> coins_pos cs)
     \<and> (\<forall>a b. coins_pos a \<longrightarrow> coins_pos b \<longrightarrow> coins_pos (c_add2 S a b))
     \<and> (\<forall>b m m' cs b'. g_mod_to_mod G b m m' cs = Inr b' \<longrightarrow> moves S b (b_mod_addr S m) (b_mod_addr S m') cs b')
     \<and> b_mod_addr S distrModule \<noteq> gov_addr S \<and> b_blacklisted S (gov_addr S)
     \<and> (\<forall>s x k v s'. g_update G s x k v = Inr s' \<longrightarrow> gov_core s' = gov_core s \<and> gv_bank s' = gv_bank s)"

lemma gov_lawsD:
  assumes "gov_laws S G"
  shows "sdk_laws S" and "bank_laws S" and "coins_laws S" and "c_valid S cs \<Longrightarrow> coins_pos cs"
    and "coins_pos a \<Longrightarrow> coins_pos b \<Longrightarrow> coins_pos (c_add2 S a b)"
    and "g_mod_to_mod G bk m m' cs = Inr bk' \<Longrightarrow> moves S bk (b_mod_addr S m) (b_mod_addr S m') cs bk'"
    and "b_mod_addr S distrModule \<noteq> gov_addr S" and "b_blacklisted S (gov_addr S)"
    and "g_update G s x k v = Inr s' \<Longrightarrow> gov_core s' = gov_core s \<and> gv_bank s' = gv_bank s"
  using assms sdk_lawsD unfolding gov_laws_def by blast+

subsection \<open>Paying out deposits\<close>

definition paid_out :: "'b sdk \<Rightarrow> (deposit \<Rightarrow> addr) \<Rightarrow> deposit list \<Rightarrow> 'b \<Rightarrow> 'b \<Rightarrow> bool" where
  "paid_out S dest ds b b' \<longleftrightarrow>
     (\<forall>a d. bank_bal S b' a d = bank_bal S b a d
        + sum_list (map (\<lambda>x. (if dest x = a then amt (de_Amount x) d else 0)
                           - (if a = gov_addr S then amt (de_Amount x) d else 0)) ds))"

locale deposit_payout =
  fixes S :: "'b sdk"
    and pay :: "'b \<Rightarrow> deposit \<Rightarrow> string + 'b"
    and dest :: "deposit \<Rightarrow> addr"
    and laws :: bool
  assumes pay_moves: "laws \<Longrightarrow> pay b d = Inr b' \<Longrightarrow> moves S b (gov_addr S) (dest d) (de_Amount d) b'"
begin

lemma payout_all:
  assumes laws
    and "ofold (\<lambda>d s. case pay (gv_bank s) d of Inl er \<Rightarrow> None
           | Inr b \<Rightarrow> Some (deleteDeposit n (de_Depositor d) (set_gv_bank b s))) ds s = Some s'"
  shows "\<exists>b'. s' = (set_gv_bank b' s)\<lparr>gv_deposits := filter (\<lambda>e. fst e \<notin> (\<lambda>d. (ProposalKey n, de_Depositor d)) ` set ds)
                     (gv_deposits s)\<rparr> \<and> paid_out S dest ds (gv_bank s) b'"
  using assms(2)
proof (induction ds arbitrary: s)
  case Nil
  then show ?case by (intro exI [of _ "gv_bank s"]) (simp add: paid_out_def)
next
  case (Cons d ds)
  then obtain b where b: "pay (gv_bank s) d = Inr b"
    and rest: "ofold (\<lambda>d s. case pay (gv_bank s) d of Inl er \<Rightarrow> None
           | Inr b \<Rightarrow> Some (deleteDeposit n (de_Depositor d) (set_gv_bank b s))) ds
             (deleteDeposit n (de_Depositor d) (set_gv_bank b s)) = Some s'"
    by (auto split: sum.splits)
  note m = pay_moves [OF assms(1) b, unfolded moves_def]
  from Cons.IH [OF rest] obtain b' where b':
    "s' = (set_gv_bank b' s)\<lparr>gv_deposits := filter (\<lambda>e. fst e \<notin> (\<lambda>d. (ProposalKey n, de_Depositor d)) ` set ds)
             (kv_del (ProposalKey n, de_Depositor d) (gv_deposits s))\<rparr>" "paid_out S dest ds b b'"
    by (auto simp: deleteDeposit_def)
  show ?case
  proof (intro exI conjI)
    show "s' = (set_gv_bank b' s)\<lparr>gv_deposits := filter (\<lambda>e. fst e \<notin> (\<lambda>d. (ProposalKey n, de_Depositor d)) ` set (d # ds))
             (gv_deposits s)\<rparr>"
      unfolding b'(1) kv_del_def by (simp add: conj_commute)
    show "paid_out S dest (d # ds) (gv_bank s) b'"
      using b'(2) m by (auto simp: paid_out_def)
  qed
qed

lemma payout_succeeds:
  assumes "\<And>b d. B b \<Longrightarrow> d \<in> set ds \<Longrightarrow> (\<forall>c. amt (de_Amount d) c \<le> bank_bal S b (gov_addr S) c) \<Longrightarrow>
             \<exists>b'. pay b d = Inr b' \<and> B b'"
    and laws and "B (gv_bank s)" and "\<forall>d\<in>set ds. dest d \<noteq> gov_addr S \<and> (\<forall>c. 0 \<le> amt (de_Amount d) c)"
    and "\<forall>c. sum_list (map (\<lambda>x. amt (de_Amount x) c) ds) \<le> bank_bal S (gv_bank s) (gov_addr S) c"
  shows "\<exists>s'. ofold (\<lambda>d s. case pay (gv_bank s) d of Inl er \<Rightarrow> None
           | Inr b \<Rightarrow> Some (deleteDeposit n (de_Depositor d) (set_gv_bank b s))) ds s = Some s' \<and> B (gv_bank s')"
  using assms
proof (induction ds arbitrary: s)
  case (Cons d ds)
  have nn: "0 \<le> sum_list (map (\<lambda>x. amt (de_Amount x) c) ds)" for c
    using Cons.prems(4) by (auto intro!: sum_list_nonneg)
  have "\<forall>c. amt (de_Amount d) c \<le> bank_bal S (gv_bank s) (gov_addr S) c"
    using Cons.prems(5) nn by (metis (no_types, lifting) add_le_cancel_left add.right_neutral dual_order.trans list.map(2) sum_list.Cons)
  with Cons.prems(1,3) obtain b where b: "pay (gv_bank s) d = Inr b" "B b" by (metis list.set_intros(1))
  from pay_moves [OF Cons.prems(2) b(1)] Cons.prems(4)
  have bal: "bank_bal S b (gov_addr S) c = bank_bal S (gv_bank s) (gov_addr S) c - amt (de_Amount d) c" for c
    by (auto simp: moves_def)
  let ?s = "deleteDeposit n (de_Depositor d) (set_gv_bank b s)"
  have "\<exists>s'. ofold (\<lambda>d s. case pay (gv_bank s) d of Inl er \<Rightarrow> None
           | Inr b \<Rightarrow> Some (deleteDeposit n (de_Depositor d) (set_gv_bank b s))) ds ?s = Some s' \<and> B (gv_bank s')"
  proof (rule Cons.IH)
    show "\<And>b d. B b \<Longrightarrow> d \<in> set ds \<Longrightarrow> (\<forall>c. amt (de_Amount d) c \<le> bank_bal S b (gov_addr S) c) \<Longrightarrow>
        \<exists>b'. pay b d = Inr b' \<and> B b'"
      using Cons.prems(1) by (metis list.set_intros(2))
    show "\<forall>c. sum_list (map (\<lambda>x. amt (de_Amount x) c) ds) \<le> bank_bal S (gv_bank ?s) (gov_addr S) c"
      using Cons.prems(5) bal by (simp add: deleteDeposit_def le_diff_eq add.commute)
  qed (use Cons.prems(2,4) b(2) in \<open>auto simp: deleteDeposit_def\<close>)
  with b(1) show ?case by simp
qed simp

end

interpretation refund: deposit_payout S "\<lambda>b d. b_mod_to_acc S b govModule (de_Depositor d) (de_Amount d)"
  de_Depositor "bank_laws S" for S
  by unfold_locales (auto dest: bank_moves(3))

interpretation distribution: deposit_payout S "\<lambda>b d. g_mod_to_mod G b govModule (e_FeeCollector e) (de_Amount d)"
  "\<lambda>d. b_mod_addr S (e_FeeCollector e)" "gov_laws S G" for S G e
  by unfold_locales (auto dest: gov_lawsD(6))

end
