(* ===== verification/GovInv.thy ===== *)
theory GovInv
  imports GovCore
begin

text \<open>
  The invariant of the governance store, clause by clause, and how it survives the change of one proposal. Every
  proposal is stored under its own id, below the next one; the two queues hold exactly the proposals that collect
  deposits and the proposals in their voting period, under their end times; deposits belong to proposals that are not
  decided, votes to proposals in their voting period; what waits is a passed change of parameters.
\<close>

definition ids_ok :: "int option \<Rightarrow> (string, proposal) kv \<Rightarrow> bool" where
  "ids_ok next ps \<longleftrightarrow> kv_ok ps \<and> (\<exists>n. next = Some n \<and> 0 \<le> n \<and> n < 2 ^ 64
     \<and> (\<forall>k p. map_of ps k = Some p \<longrightarrow> 0 \<le> pp_ID p \<and> pp_ID p < n \<and> k = ProposalKey (pp_ID p)))"

definition queue_ok ::
  "(int \<times> string, int) kv \<Rightarrow> (string, proposal) kv \<Rightarrow> proposal_status \<Rightarrow> (proposal \<Rightarrow> int) \<Rightarrow> bool" where
  "queue_ok q ps st end_time \<longleftrightarrow> kv_ok q
     \<and> (\<forall>t k v. map_of q (t, k) = Some v \<longleftrightarrow>
          (\<exists>p. map_of ps k = Some p \<and> pp_Status p = st \<and> end_time p = t \<and> v = pp_ID p))"

definition waiting_ok :: "(int \<times> string, int) kv \<Rightarrow> (string, proposal) kv \<Rightarrow> bool" where
  "waiting_ok w ps \<longleftrightarrow> kv_ok w
     \<and> (\<forall>h k v. map_of w (h, k) = Some v \<longrightarrow>
          (\<exists>p t d cs. map_of ps k = Some p \<and> pp_Status p = StatusPassed
             \<and> pp_Content p = ParameterChangeProposal t d cs h \<and> v = pp_ID p))"

definition open_status :: "proposal_status \<Rightarrow> bool" where
  "open_status st \<longleftrightarrow> st = StatusDepositPeriod \<or> st = StatusVotingPeriod"

definition deposits_ok :: "'b sdk \<Rightarrow> (string \<times> addr, deposit) kv \<Rightarrow> (string, proposal) kv \<Rightarrow> bool" where
  "deposits_ok S ds ps \<longleftrightarrow> kv_ok ds
     \<and> (\<forall>k a x. map_of ds (k, a) = Some x \<longrightarrow>
          de_Depositor x = a \<and> k = ProposalKey (de_ProposalID x) \<and> a \<noteq> gov_addr S \<and> coins_pos (de_Amount x)
          \<and> (\<exists>p. map_of ps k = Some p \<and> open_status (pp_Status p)))"

definition votes_ok :: "(string \<times> addr, vote) kv \<Rightarrow> (string, proposal) kv \<Rightarrow> bool" where
  "votes_ok vs ps \<longleftrightarrow> kv_ok vs
     \<and> (\<forall>k a x. map_of vs (k, a) = Some x \<longrightarrow>
          vo_Voter x = a \<and> k = ProposalKey (vo_ProposalID x) \<and> ValidVoteOption (vo_Option x)
          \<and> (\<exists>p. map_of ps k = Some p \<and> pp_Status p = StatusVotingPeriod))"

definition gov_ok :: "'b sdk \<Rightarrow> 'b gov \<Rightarrow> bool" where
  "gov_ok S s \<longleftrightarrow> ids_ok (gv_nextID s) (gv_proposals s)
     \<and> queue_ok (gv_active s) (gv_proposals s) StatusVotingPeriod pp_VotingEndTime
     \<and> queue_ok (gv_inactive s) (gv_proposals s) StatusDepositPeriod pp_DepositEndTime
     \<and> waiting_ok (gv_waiting s) (gv_proposals s)
     \<and> deposits_ok S (gv_deposits s) (gv_proposals s)
     \<and> votes_ok (gv_votes s) (gv_proposals s)"

lemma gov_okD:
  assumes "gov_ok S s"
  shows "ids_ok (gv_nextID s) (gv_proposals s)"
    and "queue_ok (gv_active s) (gv_proposals s) StatusVotingPeriod pp_VotingEndTime"
    and "queue_ok (gv_inactive s) (gv_proposals s) StatusDepositPeriod pp_DepositEndTime"
    and "waiting_ok (gv_waiting s) (gv_proposals s)"
    and "deposits_ok S (gv_deposits s) (gv_proposals s)"
    and "votes_ok (gv_votes s) (gv_proposals s)"
  using assms by (simp_all add: gov_ok_def)

lemma gov_ok_core: "gov_core s' = gov_core s \<Longrightarrow> gov_ok S s' = gov_ok S s"
  by (simp add: gov_core_def gov_ok_def)

subsection \<open>One proposal changes\<close>

lemma ids_ok_get:
  assumes "ids_ok next ps" and "map_of ps k = Some p"
  shows "k = ProposalKey (pp_ID p)" and "0 \<le> pp_ID p" and "pp_ID p < 2 ^ 64"
  using assms by (fastforce simp: ids_ok_def)+

lemma ids_ok_set:
  assumes "ids_ok next ps" and "map_of ps k = Some p" and "pp_ID p' = pp_ID p"
  shows "ids_ok next (kv_set k p' ps)"
  using assms unfolding ids_ok_def by (auto simp: kv_ok_set split: if_splits)

lemma ids_ok_del: "ids_ok next ps \<Longrightarrow> ids_ok next (kv_del k ps)"
  unfolding ids_ok_def by (auto simp: kv_ok_del split: if_splits)

lemma queue_at:
  assumes "queue_ok q ps st end_time"
  shows "map_of q (t, k) = (case map_of ps k of
           Some p \<Rightarrow> if pp_Status p = st \<and> end_time p = t then Some (pp_ID p) else None | None \<Rightarrow> None)"
proof (cases "map_of q (t, k)")
  case None
  then have "\<not> (\<exists>p. map_of ps k = Some p \<and> pp_Status p = st \<and> end_time p = t)"
    using assms unfolding queue_ok_def by (metis option.distinct(1))
  with None show ?thesis by (auto split: option.splits)
next
  case (Some v)
  with assms show ?thesis by (auto simp: queue_ok_def)
qed

lemma queue_ok_change:
  assumes "queue_ok q ps st end_time" and "kv_ok q'"
    and "\<And>t k'. k' \<noteq> k \<Longrightarrow> map_of q' (t, k') = map_of q (t, k')" and "\<And>k'. k' \<noteq> k \<Longrightarrow> map_of ps' k' = map_of ps k'"
    and "\<And>t. map_of q' (t, k) = (case map_of ps' k of
           Some p \<Rightarrow> if pp_Status p = st \<and> end_time p = t then Some (pp_ID p) else None | None \<Rightarrow> None)"
  shows "queue_ok q' ps' st end_time"
proof -
  have "map_of q' (t, k') = (case map_of ps' k' of
           Some p \<Rightarrow> if pp_Status p = st \<and> end_time p = t then Some (pp_ID p) else None | None \<Rightarrow> None)" for t k'
    using assms(3-5) queue_at [OF assms(1), of t k'] by (cases "k' = k") auto
  then show ?thesis
    using assms(2) unfolding queue_ok_def by (auto split: option.splits)
qed

lemma waiting_ok_change:
  assumes "waiting_ok w ps" and "map_of ps k = Some p" and "pp_Status p \<noteq> StatusPassed"
    and "\<And>k'. k' \<noteq> k \<Longrightarrow> map_of ps' k' = map_of ps k'"
  shows "waiting_ok w ps'"
  using assms unfolding waiting_ok_def by (metis option.inject)

lemma waiting_ok_fresh:
  assumes "waiting_ok w ps" and "map_of ps k = None"
  shows "waiting_ok w (kv_set k p ps)"
  using assms unfolding waiting_ok_def by (auto, (metis option.distinct(1))+)

lemma waiting_ok_insert:
  assumes "waiting_ok w ps" and "map_of ps k = Some p" and "pp_Status p = StatusPassed"
    and "pp_Content p = ParameterChangeProposal t d cs h"
  shows "waiting_ok (kv_set (h, k) (pp_ID p) w) ps"
  using assms unfolding waiting_ok_def by (auto simp: kv_ok_set)

lemma waiting_ok_del: "waiting_ok w ps \<Longrightarrow> waiting_ok (kv_del x w) ps"
  unfolding waiting_ok_def by (auto simp: kv_ok_del split: if_splits)

lemma deposits_ok_change:
  assumes "deposits_ok S ds ps" and "\<And>k'. k' \<noteq> k \<Longrightarrow> map_of ps' k' = map_of ps k'"
  shows "deposits_ok S (filter (\<lambda>e. fst (fst e) \<noteq> k) ds) ps'"
  using assms by (auto simp: deposits_ok_def kv_ok_filter map_of_kept_keys [where P = "\<lambda>x. fst x \<noteq> k"] split: if_splits)

lemma deposits_ok_open:
  assumes "deposits_ok S ds ps" and "open_status (pp_Status p)"
  shows "deposits_ok S ds (kv_set k p ps)"
  using assms unfolding deposits_ok_def by fastforce

lemma deposits_ok_set:
  assumes "deposits_ok S ds ps" and "map_of ps k = Some p" and "open_status (pp_Status p)"
    and "ProposalKey (de_ProposalID x) = k" and "de_Depositor x \<noteq> gov_addr S" and "coins_pos (de_Amount x)"
  shows "deposits_ok S (kv_set (k, de_Depositor x) x ds) ps"
  using assms unfolding deposits_ok_def by (auto simp: kv_ok_set)

lemma votes_ok_change:
  assumes "votes_ok vs ps" and "\<And>k'. k' \<noteq> k \<Longrightarrow> map_of ps' k' = map_of ps k'"
  shows "votes_ok (filter (\<lambda>e. fst (fst e) \<noteq> k) vs) ps'"
  using assms by (auto simp: votes_ok_def kv_ok_filter map_of_kept_keys [where P = "\<lambda>x. fst x \<noteq> k"] split: if_splits)

lemma votes_ok_keep:
  assumes "votes_ok vs ps" and "map_of ps k = Some p" and "pp_Status p' = StatusVotingPeriod \<or> pp_Status p \<noteq> StatusVotingPeriod"
    and "\<And>k'. k' \<noteq> k \<Longrightarrow> map_of ps' k' = map_of ps k'" and "map_of ps' k = Some p'"
  shows "votes_ok vs ps'"
  unfolding votes_ok_def
proof (intro conjI allI impI)
  fix k0 a x
  assume x: "map_of vs (k0, a) = Some x"
  note v = assms(1) [unfolded votes_ok_def, THEN conjunct2, rule_format, OF x]
  then show "vo_Voter x = a" "k0 = ProposalKey (vo_ProposalID x)" "ValidVoteOption (vo_Option x)" by simp_all
  from v obtain p0 where p0: "map_of ps k0 = Some p0" "pp_Status p0 = StatusVotingPeriod" by blast
  then show "\<exists>p. map_of ps' k0 = Some p \<and> pp_Status p = StatusVotingPeriod"
    using assms(2-5) by (cases "k0 = k") auto
qed (use assms(1) in \<open>simp add: votes_ok_def\<close>)

lemma votes_ok_fresh:
  assumes "votes_ok vs ps" and "map_of ps k = None"
  shows "votes_ok vs (kv_set k p ps)"
  using assms unfolding votes_ok_def by fastforce

lemma deposits_ok_del:
  assumes "deposits_ok S ds ps"
  shows "deposits_ok S (filter (\<lambda>e. fst (fst e) \<noteq> k) ds) (kv_del k ps)"
  using deposits_ok_change [OF assms] by simp

subsection \<open>Deposits and votes of one proposal\<close>

lemma filter_owned:
  assumes "\<And>e. e \<in> set m \<Longrightarrow> fst (fst e) = k \<Longrightarrow> key (snd e) = fst e"
  shows "filter (\<lambda>e. fst e \<notin> key ` set (map snd (filter (\<lambda>e. fst (fst e) = k) m))) m = filter (\<lambda>e. fst (fst e) \<noteq> k) m"
proof (rule filter_cong [OF refl])
  fix e
  assume e: "e \<in> set m"
  have "fst (fst e) = k" if "fst e \<in> key ` set (map snd (filter (\<lambda>e. fst (fst e) = k) m))"
    using that assms by fastforce
  moreover have "fst e \<in> key ` set (map snd (filter (\<lambda>e. fst (fst e) = k) m))" if "fst (fst e) = k"
  proof -
    have "snd e \<in> set (map snd (filter (\<lambda>e. fst (fst e) = k) m))" using e that by force
    from imageI [OF this, of key] assms [OF e that] show ?thesis by simp
  qed
  ultimately show "(fst e \<notin> key ` set (map snd (filter (\<lambda>e. fst (fst e) = k) m))) = (fst (fst e) \<noteq> k)" by blast
qed

lemma deposits_owned:
  assumes "deposits_ok S ds ps" and "e \<in> set ds"
  shows "(ProposalKey (de_ProposalID (snd e)), de_Depositor (snd e)) = fst e" and "de_Depositor (snd e) \<noteq> gov_addr S"
    and "coins_pos (de_Amount (snd e))"
  using assms kv_ok_entry [of ds e] unfolding deposits_ok_def by (cases e; cases "fst e"; force)+

lemma GetDeposits_filter:
  assumes "deposits_ok S (gv_deposits s) ps"
  shows "filter (\<lambda>e. fst e \<notin> (\<lambda>d. (ProposalKey n, de_Depositor d)) ` set (GetDeposits s n)) (gv_deposits s)
     = filter (\<lambda>e. fst (fst e) \<noteq> ProposalKey n) (gv_deposits s)"
  unfolding GetDeposits_def
  by (rule filter_owned) (metis deposits_owned(1) [OF assms] fst_conv snd_conv prod.collapse)

lemma votes_owned:
  assumes "votes_ok vs ps" and "e \<in> set vs"
  shows "(ProposalKey (vo_ProposalID (snd e)), vo_Voter (snd e)) = fst e"
  using assms kv_ok_entry [of vs e] unfolding votes_ok_def by (cases e; cases "fst e"; force)

lemma fold_deleteVote:
  "fold (\<lambda>v. deleteVote (vo_ProposalID v) (vo_Voter v)) xs s =
     s\<lparr>gv_votes := filter (\<lambda>e. fst e \<notin> (\<lambda>v. (ProposalKey (vo_ProposalID v), vo_Voter v)) ` set xs) (gv_votes s)\<rparr>"
proof (induction xs arbitrary: s)
  case (Cons v xs)
  show ?case
    unfolding fold_simps(2) Cons.IH by (simp add: deleteVote_def kv_del_def conj_commute)
qed simp

lemma DeleteVotes_filter:
  assumes "votes_ok (gv_votes s) ps"
  shows "DeleteVotes n s = s\<lparr>gv_votes := filter (\<lambda>e. fst (fst e) \<noteq> ProposalKey n) (gv_votes s)\<rparr>"
  unfolding DeleteVotes_def fold_deleteVote GetVotes_def
  by (subst filter_owned) (simp_all add: votes_owned [OF assms])

subsection \<open>The module account\<close>

definition gov_total :: "'b gov \<Rightarrow> denom \<Rightarrow> dec" where
  "gov_total s d = kv_sum (\<lambda>x. amt (de_Amount x) d) (gv_deposits s)"

definition gov_gap :: "'b sdk \<Rightarrow> 'b gov \<Rightarrow> denom \<Rightarrow> dec" where
  "gov_gap S s d = bank_bal S (gv_bank s) (gov_addr S) d - gov_total s d"

lemma total_without:
  "kv_sum (\<lambda>x. amt (de_Amount x) d) (filter (\<lambda>e. fst (fst e) \<noteq> ProposalKey n) (gv_deposits s)) =
     gov_total s d - sum_list (map (\<lambda>x. amt (de_Amount x) d) (GetDeposits s n))"
  by (subst kv_sum_filter) (simp add: gov_total_def GetDeposits_def kv_sum_values)

lemma paid_out_gov:
  assumes "paid_out S dest ds b b'" and "\<forall>d\<in>set ds. dest d \<noteq> gov_addr S"
  shows "bank_bal S b' (gov_addr S) c = bank_bal S b (gov_addr S) c - sum_list (map (\<lambda>x. amt (de_Amount x) c) ds)"
proof -
  have "sum_list (map (\<lambda>x. (if dest x = gov_addr S then amt (de_Amount x) c else 0) - amt (de_Amount x) c) ds)
      = - sum_list (map (\<lambda>x. amt (de_Amount x) c) ds)"
    using assms(2) by (induction ds) auto
  with assms(1) show ?thesis by (simp add: paid_out_def)
qed

lemma payout_gap:
  assumes "deposits_ok S (gv_deposits s) ps" and "paid_out S dest (GetDeposits s n) (gv_bank s) b'"
    and "\<forall>d\<in>set (GetDeposits s n). dest d \<noteq> gov_addr S"
    and "s' = (set_gv_bank b' s)\<lparr>gv_deposits := filter (\<lambda>e. fst (fst e) \<noteq> ProposalKey n) (gv_deposits s)\<rparr>"
  shows "gov_gap S s' d = gov_gap S s d"
  using paid_out_gov [OF assms(2,3)] by (simp add: gov_gap_def gov_total_def assms(4) total_without)

definition env_ok :: "'b sdk \<Rightarrow> env \<Rightarrow> bool" where
  "env_ok S e \<longleftrightarrow> b_mod_addr S (e_FeeCollector e) \<noteq> gov_addr S \<and> 0 \<le> e_Height e"

text \<open>Deposits leave in one of two ways, and in both the module account pays exactly what it owes for them.\<close>

definition cleared :: "'b sdk \<Rightarrow> int \<Rightarrow> 'b gov \<Rightarrow> 'b gov \<Rightarrow> bool" where
  "cleared S n s s' \<longleftrightarrow> (\<exists>b'. s' = (set_gv_bank b' s)\<lparr>gv_deposits := filter (\<lambda>e. fst (fst e) \<noteq> ProposalKey n) (gv_deposits s)\<rparr>)
     \<and> (\<forall>d. gov_gap S s' d = gov_gap S s d)"

lemma RefundDeposits_spec:
  assumes "bank_laws S" and "deposits_ok S (gv_deposits s) ps" and "RefundDeposits S n s = Some s'"
  shows "cleared S n s s' \<and> paid_out S de_Depositor (GetDeposits s n) (gv_bank s) (gv_bank s')"
proof -
  from refund.payout_all [OF assms(1), where n = n and ds = "GetDeposits s n" and s = s and s' = s'] assms(3) obtain b' where
    b': "s' = (set_gv_bank b' s)\<lparr>gv_deposits := filter (\<lambda>e. fst (fst e) \<noteq> ProposalKey n) (gv_deposits s)\<rparr>"
    "paid_out S de_Depositor (GetDeposits s n) (gv_bank s) b'"
    unfolding GetDeposits_filter [OF assms(2)] by (auto simp: RefundDeposits_def refund_deposit_def [abs_def])
  have "\<forall>d\<in>set (GetDeposits s n). de_Depositor d \<noteq> gov_addr S"
    using deposits_owned(2) [OF assms(2)] by (auto simp: GetDeposits_def)
  from payout_gap [OF assms(2) b'(2) this b'(1)] b' show ?thesis
    unfolding cleared_def by (auto simp del: set_gv_bank_again)
qed

lemma DistributeDeposits_spec:
  assumes "gov_laws S G" and "deposits_ok S (gv_deposits s) ps" and "env_ok S e" and "DistributeDeposits G e n s = Some s'"
  shows "cleared S n s s' \<and>
    paid_out S (\<lambda>d. b_mod_addr S (e_FeeCollector e)) (GetDeposits s n) (gv_bank s) (gv_bank s')"
proof -
  from distribution.payout_all [OF assms(1), where e = e and n = n and ds = "GetDeposits s n" and s = s and s' = s'] assms(4) obtain b' where
    b': "s' = (set_gv_bank b' s)\<lparr>gv_deposits := filter (\<lambda>e. fst (fst e) \<noteq> ProposalKey n) (gv_deposits s)\<rparr>"
    "paid_out S (\<lambda>d. b_mod_addr S (e_FeeCollector e)) (GetDeposits s n) (gv_bank s) b'"
    unfolding GetDeposits_filter [OF assms(2)] by (auto simp: DistributeDeposits_def distribute_deposit_def [abs_def])
  have "\<forall>d\<in>set (GetDeposits s n). b_mod_addr S (e_FeeCollector e) \<noteq> gov_addr S"
    using assms(3) by (simp add: env_ok_def)
  from payout_gap [OF assms(2) b'(2) this b'(1)] b' show ?thesis
    unfolding cleared_def by (auto simp del: set_gv_bank_again)
qed

end
