(* ===== verification/GovSteps.thy ===== *)
theory GovSteps
  imports GovInv
begin

text \<open>
  Every operation of governance keeps the invariant of its store and the gap between the module account and the
  deposits; a decided proposal is never touched again (\<open>keeps_decided\<close>).
\<close>

subsection \<open>Handlers of proposals\<close>

lemma changeParams_core:
  assumes "gov_laws S G"
  shows "changeParams G cs s = Inr s' \<Longrightarrow> gov_core s' = gov_core s \<and> gv_bank s' = gv_bank s"
proof (induction cs arbitrary: s)
  case (Cons c cs)
  then obtain s1 where s1: "g_update G s (ch_Subspace c) (ch_Key c) (ch_Value c) = Inr s1" "changeParams G cs s1 = Inr s'"
    by (auto split: if_splits sum.splits)
  from Cons.IH [OF s1(2)] gov_lawsD(9) [OF assms s1(1)] show ?case by simp
qed simp

text \<open>What a handler may do to the governance store: take its own proposal out of the active queue, and let a change of
  parameters wait or stop waiting.\<close>

definition queues_after :: "proposal \<Rightarrow> 'b gov \<Rightarrow> 'b gov \<Rightarrow> bool" where
  "queues_after p s s' \<longleftrightarrow>
     (gv_active s' = gv_active s \<or> gv_active s' = kv_del (pp_VotingEndTime p, ProposalKey (pp_ID p)) (gv_active s))
     \<and> (gv_waiting s' = gv_waiting s
        \<or> (\<exists>t d cs h. pp_Content p = ParameterChangeProposal t d cs h
             \<and> (gv_waiting s' = kv_set (h, ProposalKey (pp_ID p)) (pp_ID p) (gv_waiting s)
                \<or> gv_waiting s' = kv_del (h, ProposalKey (pp_ID p)) (gv_waiting s))))"

definition handled :: "'b sdk \<Rightarrow> proposal \<Rightarrow> 'b gov \<Rightarrow> 'b gov \<Rightarrow> bool" where
  "handled S p s s' \<longleftrightarrow> queues_after p s s' \<and> gv_nextID s' = gv_nextID s \<and> gv_proposals s' = gv_proposals s
     \<and> gv_inactive s' = gv_inactive s \<and> gv_deposits s' = gv_deposits s \<and> gv_votes s' = gv_votes s
     \<and> (\<forall>d. bank_bal S (gv_bank s') (gov_addr S) d = bank_bal S (gv_bank s) (gov_addr S) d)
     \<and> (gv_bank s' = gv_bank s \<or> (\<exists>m a cs. b_mod_to_acc S (gv_bank s) m a cs = Inr (gv_bank s')))"

lemma handled_refl: "handled S p s s"
  by (simp add: handled_def queues_after_def)

lemma handled_same: "gov_core s' = gov_core s \<Longrightarrow> gv_bank s' = gv_bank s \<Longrightarrow> handled S p s s'"
  by (simp add: handled_def queues_after_def gov_core_def)

lemma UpdateTokenPair_bank: "bank (UpdateTokenPair n tp c) = bank c"
  by (simp add: UpdateTokenPair_def Let_def split: option.splits)

lemma set_delisting_bank: "bank (set_delisting b p c) = bank c"
  by (simp add: set_delisting_def UpdateTokenPair_bank split: option.splits)

lemma Withdraw_bank: "Withdraw e product dst amount c = Inr c' \<Longrightarrow> bank c' = bank c"
  by (auto simp: Withdraw_def Let_def SetWithdrawInfo_def SetWithdrawCompleteTimeAddress_def
      DeleteWithdrawCompleteTimeAddress_def UpdateTokenPair_bank split: option.splits if_splits prod.splits)

lemma delist_bank: "handleDelistProposal e p c = Inr c' \<Longrightarrow> bank c' = bank c"
  by (auto simp: handleDelistProposal_def withdraw_all_def rbind_Inr_iff DeleteTokenPairByName_def
      dest!: Withdraw_bank split: option.splits if_splits sum.splits)

lemma parameter_change_handled:
  assumes "gov_laws S G" and "pp_Content p = ParameterChangeProposal t d cs h"
    and "handleParameterChangeProposal G e (pp_ID p) cs h s = Inr s'"
  shows "handled S p s s'"
proof (cases "e_Height e < h")
  case True
  then show ?thesis
    using assms(2,3) by (auto simp: handleParameterChangeProposal_def InsertWaitingProposalQueue_def handled_def queues_after_def)
next
  case False
  then obtain s1 where s1: "changeParams G cs s = Inr s1" "s' = RemoveFromWaitingProposalQueue h (pp_ID p) s1"
    using assms(3) by (auto simp: handleParameterChangeProposal_def rbind_Inr_iff)
  from changeParams_core [OF assms(1) s1(1)] show ?thesis
    using assms(2) by (simp add: handled_def queues_after_def gov_core_def s1(2) RemoveFromWaitingProposalQueue_def)
qed

lemma pool_spend_handled:
  assumes "gov_laws S G" and "HandleCommunityPoolSpendProposal S r cs s = Inr s'"
  shows "handled S p s s'"
proof -
  from assms(2) obtain b pool where b: "\<not> b_blacklisted S r" "b_mod_to_acc S (gv_bank s) distrModule r cs = Inr b"
    "s' = (set_gv_bank b s)\<lparr>gv_CommunityPool := pool\<rparr>"
    by (auto simp: HandleCommunityPoolSpendProposal_def split: if_splits prod.splits sum.splits)
  have "r \<noteq> gov_addr S" using b(1) gov_lawsD(8) [OF assms(1)] by blast
  then have "bank_bal S b (gov_addr S) d = bank_bal S (gv_bank s) (gov_addr S) d" for d
    using bank_moves(3) [OF gov_lawsD(2) [OF assms(1)] b(2)] gov_lawsD(7) [OF assms(1)] by (simp add: moves_def)
  with b(2) show ?thesis by (auto simp: handled_def queues_after_def b(3))
qed

lemma proposal_handler_handled:
  assumes "gov_laws S G" and "proposal_handler S G e p (pp_Content p) s = Inr s'"
  shows "handled S p s s'"
proof (cases "pp_Content p")
  case (ParameterChangeProposal t d cs h)
  with assms(2) show ?thesis by (auto intro: parameter_change_handled [OF assms(1)])
next
  case (CommunityPoolSpendProposal t d r cs)
  with assms(2) show ?thesis by (auto intro: pool_spend_handled [OF assms(1)])
next
  case (DelistProposal t d q)
  with assms(2) show ?thesis
    by (auto simp: run_delist_def RemoveFromActiveProposalQueue_def handled_def queues_after_def dest!: delist_bank split: sum.splits)
next
  case (ManageWhiteListProposal t d w)
  with assms(2) show ?thesis
    by (auto simp: run_white_list_def handleManageWhiteListProposal_def rbind_Inr_iff SetWhitelist_def DeleteWhiteList_def
        handled_def queues_after_def split: sum.splits if_splits)
qed (use assms(2) in \<open>simp_all add: handled_refl\<close>)

lemma run_proposal_Some: "run_proposal S G e p s = Some (proposal_handler S G e p (pp_Content p) s)"
  by (cases "pp_Content p") (simp_all add: run_proposal_def HasRoute_def govRouter_def)

lemma gov_hooks [simp]:
  "gov_core (gov_RejectedHandler c s) = gov_core s" "gv_bank (gov_RejectedHandler c s) = gv_bank s"
  "gov_core (gov_AfterDepositPeriodPassed c s) = gov_core s" "gv_bank (gov_AfterDepositPeriodPassed c s) = gv_bank s"
  by (cases c; simp add: gov_core_def RejectedHandler_def AfterDepositPeriodPassed_def set_delisting_bank)+

subsection \<open>A proposal is decided\<close>

definition decided_status :: "proposal_status \<Rightarrow> bool" where
  "decided_status st \<longleftrightarrow> st = StatusPassed \<or> st = StatusRejected \<or> st = StatusFailed"

definition after_tally :: "'b sdk \<Rightarrow> proposal \<Rightarrow> proposal \<Rightarrow> 'b gov \<Rightarrow> 'b gov \<Rightarrow> bool" where
  "after_tally S p p' s s' \<longleftrightarrow> (\<exists>st. p' = p\<lparr>pp_Status := st\<rparr> \<and> decided_status st)
     \<and> queues_after p s s' \<and> (gv_waiting s' = gv_waiting s \<or> pp_Status p' = StatusPassed)
     \<and> gv_nextID s' = gv_nextID s \<and> gv_proposals s' = gv_proposals s \<and> gv_inactive s' = gv_inactive s
     \<and> gv_votes s' = gv_votes s \<and> gv_deposits s' = filter (\<lambda>e. fst (fst e) \<noteq> ProposalKey (pp_ID p)) (gv_deposits s)
     \<and> (\<forall>d. gov_gap S s' d = gov_gap S s d)"

lemma handled_gap: "handled S p s s' \<Longrightarrow> gov_gap S s' d = gov_gap S s d"
  by (simp add: handled_def gov_gap_def gov_total_def)

lemma cleared_frame:
  assumes "cleared S n s s'"
  shows "gv_nextID s' = gv_nextID s" "gv_proposals s' = gv_proposals s" "gv_inactive s' = gv_inactive s"
    "gv_active s' = gv_active s" "gv_waiting s' = gv_waiting s" "gv_votes s' = gv_votes s"
    "gv_deposits s' = filter (\<lambda>e. fst (fst e) \<noteq> ProposalKey n) (gv_deposits s)" "gov_gap S s' d = gov_gap S s d"
    "gv_staking s' = gv_staking s"
  using assms by (auto simp: cleared_def)

lemma handleProposalAfterTally_spec:
  assumes laws: "gov_laws S G" "env_ok S e" and ds: "deposits_ok S (gv_deposits s) ps"
    and st: "status = StatusPassed \<or> status = StatusRejected"
    and h: "handleProposalAfterTally S G e p distribute status s = Some (p', s')"
  shows "after_tally S p p' s s'"
proof -
  obtain s1 where s1: "(if distribute then DistributeDeposits G e (pp_ID p) s else RefundDeposits S (pp_ID p) s) = Some s1"
    using h by (auto simp: handleProposalAfterTally_def split: option.splits)
  have c: "cleared S (pp_ID p) s s1"
    using s1 DistributeDeposits_spec [OF laws(1) ds laws(2)] RefundDeposits_spec [OF gov_lawsD(2) [OF laws(1)] ds]
    by (auto split: if_splits)
  note f = cleared_frame [OF c]
  consider (ran) "proposal_handler S G e p (pp_Content p) s1 = Inr s'" "p' = p\<lparr>pp_Status := StatusPassed\<rparr>"
    | (failed) "s' = s1" "p' = p\<lparr>pp_Status := StatusFailed\<rparr>"
    | (rejected) "gov_core s' = gov_core s1" "gv_bank s' = gv_bank s1" "p' = p\<lparr>pp_Status := StatusRejected\<rparr>"
    using h s1 st by (auto simp: handleProposalAfterTally_def run_proposal_Some split: sum.splits if_splits)
  then show ?thesis
  proof cases
    case ran
    from proposal_handler_handled [OF laws(1) ran(1)] show ?thesis
      using f ran(2) handled_gap [of S p s1 s'] by (auto simp: after_tally_def handled_def queues_after_def decided_status_def)
  next
    case failed
    then show ?thesis using f by (auto simp: after_tally_def queues_after_def decided_status_def)
  next
    case rejected
    then show ?thesis using f by (auto simp: after_tally_def queues_after_def decided_status_def gov_core_def gov_gap_def gov_total_def)
  qed
qed

text \<open>The store once a proposal in its voting period is decided, its queue entry and its votes are gone.\<close>

lemma decided_ok:
  assumes ok: "gov_ok S s" and p: "map_of (gv_proposals s) k = Some p" "pp_Status p = StatusVotingPeriod"
    and q: "pp_ID q = pp_ID p" "pp_VotingEndTime q = pp_VotingEndTime p"
    and a: "after_tally S q p' s s'"
    and p'': "pp_ID p'' = pp_ID p'" "pp_Status p'' = pp_Status p'" "pp_Content p'' = pp_Content p'"
    and t: "gv_nextID t = gv_nextID s'" "gv_proposals t = kv_set k p'' (gv_proposals s')" "gv_inactive t = gv_inactive s'"
      "gv_active t = kv_del (pp_VotingEndTime p, k) (gv_active s')" "gv_waiting t = gv_waiting s'"
      "gv_deposits t = gv_deposits s'" "gv_votes t = filter (\<lambda>e. fst (fst e) \<noteq> k) (gv_votes s')"
  shows "gov_ok S t"
proof -
  note o = gov_okD [OF ok]
  note k = ids_ok_get [OF o(1) p(1)]
  from a obtain st where st: "p' = q\<lparr>pp_Status := st\<rparr>" "decided_status st" by (auto simp: after_tally_def)
  then have d: "\<not> open_status (pp_Status p'')" and st': "pp_Status p'' = st" and i: "pp_ID p'' = pp_ID p"
    using p'' q(1) by (auto simp: decided_status_def open_status_def)
  have ps: "gv_proposals t = kv_set k p'' (gv_proposals s)" using a t(2) by (simp add: after_tally_def)
  have other: "k' \<noteq> k \<Longrightarrow> map_of (gv_proposals t) k' = map_of (gv_proposals s) k'" for k' by (simp add: ps)
  have act: "map_of (gv_active t) = (map_of (gv_active s))((pp_VotingEndTime p, k) := None)" "kv_ok (gv_active t)"
    using a o(2) k(1) q by (auto simp: after_tally_def queues_after_def t(4) queue_ok_def kv_ok_del)
  have act_k: "map_of (gv_active s) (x, k) = (if pp_VotingEndTime p = x then Some (pp_ID p) else None)" for x
    using queue_at [OF o(2), of x k] p by simp
  have "ids_ok (gv_nextID t) (gv_proposals t)"
    using ids_ok_set [OF o(1) p(1) i] a t(1) by (simp add: ps after_tally_def)
  moreover have "queue_ok (gv_active t) (gv_proposals t) StatusVotingPeriod pp_VotingEndTime"
    by (rule queue_ok_change [OF o(2) act(2), of k]) (use d act_k in \<open>auto simp: act(1) ps open_status_def\<close>)
  moreover have "queue_ok (gv_inactive t) (gv_proposals t) StatusDepositPeriod pp_DepositEndTime"
  proof (rule queue_ok_change [OF o(3), of _ k])
    show "kv_ok (gv_inactive t)" using o(3) a t(3) by (simp add: after_tally_def queue_ok_def)
    show "map_of (gv_inactive t) (x, k) = (case map_of (gv_proposals t) k of Some p \<Rightarrow>
        if pp_Status p = StatusDepositPeriod \<and> pp_DepositEndTime p = x then Some (pp_ID p) else None | None \<Rightarrow> None)" for x
      using queue_at [OF o(3), of x k] p d a t(3) by (simp add: ps after_tally_def open_status_def)
  qed (use a t(3) other in \<open>simp_all add: after_tally_def\<close>)
  moreover have "waiting_ok (gv_waiting t) (gv_proposals t)"
  proof -
    have w: "waiting_ok (gv_waiting s) (gv_proposals t)"
      by (rule waiting_ok_change [OF o(4) p(1)]) (use p(2) other in simp_all)
    from a q(1) k(1) consider "gv_waiting s' = gv_waiting s" | x where "gv_waiting s' = kv_del x (gv_waiting s)"
      | (waits) t0 d0 cs h where "pp_Content q = ParameterChangeProposal t0 d0 cs h" "pp_Status p' = StatusPassed"
        "gv_waiting s' = kv_set (h, k) (pp_ID p) (gv_waiting s)"
      unfolding after_tally_def queues_after_def by metis
    then show ?thesis
    proof cases
      case waits
      then show ?thesis
        using waiting_ok_insert [OF w, of k p''] p''(2,3) st(1) by (simp add: t(5) ps i)
    qed (use w waiting_ok_del [OF w] in \<open>simp_all add: t(5)\<close>)
  qed
  moreover have "deposits_ok S (gv_deposits t) (gv_proposals t)"
    using deposits_ok_change [OF o(5) other] a k(1) q(1) by (simp add: after_tally_def t(6))
  moreover have "votes_ok (gv_votes t) (gv_proposals t)"
    using votes_ok_change [OF o(6) other] a by (simp add: after_tally_def t(7))
  ultimately show ?thesis by (simp add: gov_ok_def)
qed

end
