(* ===== verification/GovBlock.thy ===== *)
theory GovBlock
  imports GovSteps
begin

text \<open>
  Messages and the end of a block keep the invariant, the gap and every decided proposal (\<open>gov_keeps\<close>); the end of a
  block leaves no proposal whose period is over.
\<close>

definition keeps_decided :: "'b gov \<Rightarrow> 'b gov \<Rightarrow> bool" where
  "keeps_decided s s' \<longleftrightarrow> (\<forall>k p. map_of (gv_proposals s) k = Some p \<longrightarrow> decided_status (pp_Status p)
     \<longrightarrow> map_of (gv_proposals s') k = Some p)"

definition gov_keeps :: "'b sdk \<Rightarrow> 'b gov \<Rightarrow> 'b gov \<Rightarrow> bool" where
  "gov_keeps S s s' \<longleftrightarrow> gov_ok S s' \<and> (\<forall>d. gov_gap S s' d = gov_gap S s d) \<and> keeps_decided s s'"

lemma gov_keeps_refl: "gov_ok S s \<Longrightarrow> gov_keeps S s s"
  by (simp add: gov_keeps_def keeps_decided_def)

lemma gov_keeps_trans: "gov_keeps S s t \<Longrightarrow> gov_keeps S t u \<Longrightarrow> gov_keeps S s u"
  by (auto simp: gov_keeps_def keeps_decided_def)

lemma keeps_decided_set:
  "map_of (gv_proposals s) k = Some p \<Longrightarrow> \<not> decided_status (pp_Status p) \<Longrightarrow> gv_proposals t = kv_set k p' (gv_proposals s)
    \<Longrightarrow> keeps_decided s t"
  by (auto simp: keeps_decided_def)

lemma decided_not_open: "decided_status st \<Longrightarrow> \<not> open_status st"
  by (auto simp: decided_status_def open_status_def)

subsection \<open>Deposits\<close>

lemma still_open_ok:
  assumes ok: "gov_ok S s" and p: "map_of (gv_proposals s) k = Some p" "open_status (pp_Status p)"
    and p': "pp_ID p' = pp_ID p" "open_status (pp_Status p')" "pp_Status p' = StatusVotingPeriod \<or> pp_Status p \<noteq> StatusVotingPeriod"
    and t: "gv_nextID t = gv_nextID s" "gv_proposals t = kv_set k p' (gv_proposals s)" "gv_waiting t = gv_waiting s"
      "gv_deposits t = gv_deposits s" "gv_votes t = gv_votes s"
    and q: "queue_ok (gv_active t) (gv_proposals t) StatusVotingPeriod pp_VotingEndTime"
      "queue_ok (gv_inactive t) (gv_proposals t) StatusDepositPeriod pp_DepositEndTime"
  shows "gov_ok S t"
proof -
  note o = gov_okD [OF ok]
  have w: "waiting_ok (gv_waiting s) (kv_set k p' (gv_proposals s))"
    by (rule waiting_ok_change [OF o(4) p(1)]) (use p(2) in \<open>auto simp: open_status_def\<close>)
  have v: "votes_ok (gv_votes s) (kv_set k p' (gv_proposals s))"
    by (rule votes_ok_keep [OF o(6) p(1) p'(3)]) simp_all
  show ?thesis
    using ids_ok_set [OF o(1) p(1) p'(1)] w v deposits_ok_open [OF o(5) p'(2)] q by (simp add: gov_ok_def t)
qed

lemma tryEnterVotingPeriod_ok:
  assumes ok: "gov_ok S s" and p: "map_of (gv_proposals s) k = Some p" "pp_Status p = StatusDepositPeriod"
    and t: "t = tryEnterVotingPeriod S G e p cs s"
  shows "gov_ok S t" and "gv_bank t = gv_bank s" and "gv_deposits t = gv_deposits s" and "keeps_decided s t"
    and "\<exists>p'. map_of (gv_proposals t) k = Some p' \<and> open_status (pp_Status p')"
proof -
  note o = gov_okD [OF ok]
  note k = ids_ok_get [OF o(1) p(1)]
  let ?p = "p\<lparr>pp_TotalDeposit := c_add2 S (pp_TotalDeposit p) cs\<rparr>"
  let ?stop = "e_Time e + voting_period_of s (pp_Content p)"
  let ?v = "?p\<lparr>pp_VotingStartTime := e_Time e, pp_VotingEndTime := ?stop, pp_Status := StatusVotingPeriod,
     pp_DepositEndTime := e_Time e\<rparr>"
  have op: "open_status (pp_Status p)" and nd: "\<not> decided_status (pp_Status p)"
    by (simp_all add: p(2) open_status_def decided_status_def)
  have in_k: "map_of (gv_inactive s) (x, k) = (if pp_DepositEndTime p = x then Some (pp_ID p) else None)"
    "map_of (gv_active s) (x, k) = None" for x
    using queue_at [OF o(3), of x k] queue_at [OF o(2), of x k] p by simp_all
  consider (stay) "t = SetProposal ?p s"
    | (enter) "gov_core t = (gv_nextID s, kv_set k ?v (gv_proposals s), kv_set (?stop, k) (pp_ID p) (gv_active s),
        kv_del (pp_DepositEndTime p, k) (gv_inactive s), gv_waiting s, gv_deposits s, gv_votes s)" "gv_bank t = gv_bank s"
  proof (cases "g_all_gte G (c_add2 S (pp_TotalDeposit p) cs) (min_deposit_of s (pp_Content p))")
    case True
    then have "t = gov_AfterDepositPeriodPassed (pp_Content p) (SetProposal ?v
        (InsertActiveProposalQueue (pp_ID p) ?stop (RemoveFromInactiveProposalQueue (pp_ID p) (pp_DepositEndTime p) s)))"
      by (simp add: t tryEnterVotingPeriod_def activateVotingPeriod_def Let_def p(2))
    then show ?thesis
      using enter by (simp add: k(1) [symmetric])
        (simp add: gov_core_def SetProposal_def RemoveFromInactiveProposalQueue_def InsertActiveProposalQueue_def k(1) [symmetric])
  qed (use stay in \<open>simp add: t tryEnterVotingPeriod_def Let_def\<close>)
  then have *: "gov_ok S t \<and> gv_bank t = gv_bank s \<and> gv_deposits t = gv_deposits s \<and> keeps_decided s t
     \<and> (\<exists>p'. map_of (gv_proposals t) k = Some p' \<and> open_status (pp_Status p'))"
  proof cases
    case stay
    then have ps: "gv_proposals t = kv_set k ?p (gv_proposals s)" by (simp add: SetProposal_def k(1))
    have "gov_ok S t"
    proof (rule still_open_ok [OF ok p(1) op, of ?p])
      show "queue_ok (gv_active t) (gv_proposals t) StatusVotingPeriod pp_VotingEndTime"
        by (rule queue_ok_change [OF o(2), of _ k]) (use o(2) p in_k in \<open>auto simp: ps, auto simp: stay SetProposal_def queue_ok_def\<close>)
      show "queue_ok (gv_inactive t) (gv_proposals t) StatusDepositPeriod pp_DepositEndTime"
        by (rule queue_ok_change [OF o(3), of _ k]) (use o(3) p in_k in \<open>auto simp: ps, auto simp: stay SetProposal_def queue_ok_def\<close>)
    qed (use op p(2) ps in \<open>simp_all add: stay SetProposal_def\<close>)
    then show ?thesis
      using keeps_decided_set [OF p(1) nd ps] op by (simp add: ps) (simp add: stay SetProposal_def)
  next
    case enter
    then have c: "gv_nextID t = gv_nextID s" "gv_proposals t = kv_set k ?v (gv_proposals s)"
      "gv_active t = kv_set (?stop, k) (pp_ID p) (gv_active s)" "gv_inactive t = kv_del (pp_DepositEndTime p, k) (gv_inactive s)"
      "gv_waiting t = gv_waiting s" "gv_deposits t = gv_deposits s" "gv_votes t = gv_votes s"
      by (simp_all add: gov_core_def)
    have "gov_ok S t"
    proof (rule still_open_ok [OF ok p(1) op, of ?v])
      show "queue_ok (gv_active t) (gv_proposals t) StatusVotingPeriod pp_VotingEndTime"
        by (rule queue_ok_change [OF o(2), of _ k]) (use o(2) in_k in \<open>auto simp: c queue_ok_def kv_ok_set\<close>)
      show "queue_ok (gv_inactive t) (gv_proposals t) StatusDepositPeriod pp_DepositEndTime"
        by (rule queue_ok_change [OF o(3), of _ k]) (use o(3) in_k in \<open>auto simp: c queue_ok_def kv_ok_del\<close>)
    qed (simp_all add: c open_status_def)
    then show ?thesis
      using keeps_decided_set [OF p(1) nd c(2)] enter(2) by (simp add: c open_status_def)
  qed
  then show "gov_ok S t" "gv_bank t = gv_bank s" "gv_deposits t = gv_deposits s" "keeps_decided s t"
    "\<exists>p'. map_of (gv_proposals t) k = Some p' \<and> open_status (pp_Status p')" by simp_all
qed

lemma updateDeposit_ok:
  assumes laws: "gov_laws S G" and ok: "gov_ok S s" and p: "map_of (gv_proposals s) (ProposalKey n) = Some p" "open_status (pp_Status p)"
    and a: "a \<noteq> gov_addr S" "coins_pos cs" and t: "t = updateDeposit S n a cs s"
  shows "gov_ok S t" and "gv_bank t = gv_bank s" and "gov_total t d = gov_total s d + amt cs d" and "gv_proposals t = gv_proposals s"
proof -
  note o = gov_okD [OF ok]
  let ?k = "ProposalKey n"
  obtain x where x: "t = s\<lparr>gv_deposits := kv_set (?k, a) x (gv_deposits s)\<rparr>" "ProposalKey (de_ProposalID x) = ?k" "de_Depositor x = a"
    "coins_pos (de_Amount x)"
    "amt (de_Amount x) d = kv_val (\<lambda>x. amt (de_Amount x) d) (gv_deposits s) (?k, a) + amt cs d"
  proof (cases "GetDeposit s n a")
    case None
    then show ?thesis
      using that [of "\<lparr>de_ProposalID = n, de_Depositor = a, de_Amount = cs\<rparr>"] a
      by (simp add: t updateDeposit_def SetDeposit_def GetDeposit_def kv_val_def)
  next
    case (Some y)
    then have y: "de_Depositor y = a" "ProposalKey (de_ProposalID y) = ?k" "coins_pos (de_Amount y)"
      using o(5) by (auto simp: deposits_ok_def GetDeposit_def)
    have "coins_ok (de_Amount y)" "coins_ok cs" using y(3) a(2) by (simp_all add: coins_pos_def)
    with that [of "y\<lparr>de_Amount := c_add2 S (de_Amount y) cs\<rparr>"] Some y coins_add2 [OF gov_lawsD(3) [OF laws]]
      gov_lawsD(5) [OF laws y(3) a(2)]
    show ?thesis by (simp add: t updateDeposit_def SetDeposit_def GetDeposit_def kv_val_def)
  qed
  have "deposits_ok S (gv_deposits t) (gv_proposals t)"
    using deposits_ok_set [OF o(5) p x(2)] x(3,4) a(1) by (simp add: x(1))
  with ok show "gov_ok S t" by (simp add: gov_ok_def x(1))
  show "gov_total t d = gov_total s d + amt cs d"
    using kv_sum_set [of "gv_deposits s" "\<lambda>x. amt (de_Amount x) d" "(?k, a)" x] o(5) x(5)
    by (simp add: gov_total_def x(1) deposits_ok_def)
qed (simp_all add: t updateDeposit_def SetDeposit_def split: option.splits)

lemma set_gv_bank_ok: "gov_ok S (set_gv_bank b s) = gov_ok S s"
  by (rule gov_ok_core) (simp add: gov_core_def)

lemma AddDeposit_keeps:
  assumes laws: "gov_laws S G" and ok: "gov_ok S s" and a: "a \<noteq> gov_addr S" "coins_pos cs"
    and h: "AddDeposit S G e n a cs s = Inr s'"
  shows "gov_keeps S s s'"
proof -
  from h obtain p b where p: "map_of (gv_proposals s) (ProposalKey n) = Some p" "pp_Status p = StatusDepositPeriod"
    and b: "b_acc_to_mod S (gv_bank s) a govModule cs = Inr b"
    and s': "s' = updateDeposit S n a cs (tryEnterVotingPeriod S G e p cs (set_gv_bank b s))"
    by (auto simp: AddDeposit_def GetProposal_def split: option.splits if_splits sum.splits)
  define t where "t = tryEnterVotingPeriod S G e p cs (set_gv_bank b s)"
  have ok1: "gov_ok S (set_gv_bank b s)" using ok by (simp add: set_gv_bank_ok)
  note e = tryEnterVotingPeriod_ok [OF ok1 _ p(2) t_def, of "ProposalKey n", simplified, OF p(1)]
  from e(5) obtain p' where p': "map_of (gv_proposals t) (ProposalKey n) = Some p'" "open_status (pp_Status p')" by blast
  note u = updateDeposit_ok [OF laws e(1) p' a s' [folded t_def]]
  have "gov_gap S s' d = gov_gap S s d" for d
    using bank_moves(2) [OF gov_lawsD(2) [OF laws] b] a(1) u(2) u(3) [of d] e(2,3)
    by (simp add: gov_gap_def gov_total_def moves_def)
  then show ?thesis
    using u(1,4) e(4) by (simp add: gov_keeps_def keeps_decided_def)
qed

subsection \<open>Messages\<close>

lemma only_bond_denom_pos:
  assumes "gov_laws S G" and "hasOnlyDefaultBondDenom S cs = None"
  shows "coins_pos cs"
  using assms(2) gov_lawsD(4) [OF assms(1)] by (auto simp: hasOnlyDefaultBondDenom_def split: list.splits if_splits)

lemma SubmitProposal_keeps:
  assumes ok: "gov_ok S s" and n: "gv_nextID s = Some n" "n + 1 < 2 ^ 64" and h: "SubmitProposal e c s = Inr (p, s')"
  shows "gov_keeps S s s'" and "pp_ID p = n" and "0 \<le> n"
proof -
  note o = gov_okD [OF ok]
  let ?k = "ProposalKey n"
  have ids: "0 \<le> n" "\<And>k q. map_of (gv_proposals s) k = Some q \<Longrightarrow> 0 \<le> pp_ID q \<and> pp_ID q < n \<and> k = ProposalKey (pp_ID q)"
    using o(1) n(1) by (auto simp: ids_ok_def)
  have fresh: "map_of (gv_proposals s) ?k = None"
  proof (rule ccontr)
    assume "map_of (gv_proposals s) ?k \<noteq> None"
    then obtain q where q: "map_of (gv_proposals s) ?k = Some q" by blast
    from ids(2) [OF q] ids(1) n(2) have "n = pp_ID q" by (intro ProposalKey_inj) auto
    with ids(2) [OF q] show False by simp
  qed
  from h n have p: "p = NewProposal (totalPower s) c n (e_Time e) (e_Time e + deposit_period_of s c)"
    and s': "gov_core s' = (Some (n + 1), kv_set ?k p (gv_proposals s), gv_active s,
       kv_set (pp_DepositEndTime p, ?k) n (gv_inactive s), gv_waiting s, gv_deposits s, gv_votes s)" "gv_bank s' = gv_bank s"
    using ids(1) by (auto simp: SubmitProposal_def GetProposalID_def Let_def gov_core_def SetProposal_def NewProposal_def
        InsertInactiveProposalQueue_def SetProposalID_def split: if_splits)
  have pf: "pp_ID p = n" "pp_Status p = StatusDepositPeriod" by (simp_all add: p NewProposal_def)
  then show "pp_ID p = n" "0 \<le> n" using ids(1) by simp_all
  have c: "gv_nextID s' = Some (n + 1)" "gv_proposals s' = kv_set ?k p (gv_proposals s)" "gv_active s' = gv_active s"
    "gv_inactive s' = kv_set (pp_DepositEndTime p, ?k) n (gv_inactive s)" "gv_waiting s' = gv_waiting s"
    "gv_deposits s' = gv_deposits s" "gv_votes s' = gv_votes s"
    using s'(1) by (simp_all add: gov_core_def)
  have none: "map_of (gv_active s) (x, ?k) = None" "map_of (gv_inactive s) (x, ?k) = None" for x
    using queue_at [OF o(2), of x ?k] queue_at [OF o(3), of x ?k] fresh by simp_all
  have "ids_ok (gv_nextID s') (gv_proposals s')"
    using o(1) n ids by (auto simp: ids_ok_def c kv_ok_set pf dest: ids(2))
  moreover have "queue_ok (gv_active s') (gv_proposals s') StatusVotingPeriod pp_VotingEndTime"
    by (rule queue_ok_change [OF o(2), of _ ?k]) (use o(2) none pf in \<open>auto simp: c queue_ok_def\<close>)
  moreover have "queue_ok (gv_inactive s') (gv_proposals s') StatusDepositPeriod pp_DepositEndTime"
    by (rule queue_ok_change [OF o(3), of _ ?k]) (use o(3) none pf in \<open>auto simp: c queue_ok_def kv_ok_set\<close>)
  moreover have "waiting_ok (gv_waiting s') (gv_proposals s')" "votes_ok (gv_votes s') (gv_proposals s')"
    using waiting_ok_fresh [OF o(4) fresh] votes_ok_fresh [OF o(6) fresh] by (simp_all add: c)
  moreover have "deposits_ok S (gv_deposits s') (gv_proposals s')"
    using deposits_ok_open [OF o(5)] pf(2) by (simp add: c open_status_def)
  moreover have "keeps_decided s s'" using fresh by (auto simp: keeps_decided_def c)
  ultimately show "gov_keeps S s s'"
    by (simp add: gov_keeps_def gov_ok_def) (simp add: gov_gap_def gov_total_def c s'(2))
qed

lemma handleMsgSubmitProposal_keeps:
  assumes laws: "gov_laws S G" and ok: "gov_ok S s" and n: "gv_nextID s = Some n" "n + 1 < 2 ^ 64" and a: "a \<noteq> gov_addr S"
    and h: "handleMsgSubmitProposal S G e c cs a s = Inr s'"
  shows "gov_keeps S s s'"
proof -
  from h obtain p t where cs: "hasOnlyDefaultBondDenom S cs = None"
    and t: "SubmitProposal e c s = Inr (p, t)" "AddDeposit S G e (pp_ID p) a cs t = Inr s'"
    by (auto simp: handleMsgSubmitProposal_def rbind_Inr_iff split: option.splits)
  note k = SubmitProposal_keeps [OF ok n t(1)]
  have "gov_keeps S t s'"
    by (rule AddDeposit_keeps [OF laws _ a only_bond_denom_pos [OF laws cs] t(2)]) (use k(1) in \<open>simp add: gov_keeps_def\<close>)
  with k(1) show ?thesis by (rule gov_keeps_trans)
qed

lemma handleMsgDeposit_keeps:
  assumes laws: "gov_laws S G" and ok: "gov_ok S s" and a: "a \<noteq> gov_addr S"
    and h: "gov_handleMsgDeposit S G e i a cs s = Inr s'"
  shows "gov_keeps S s s'"
proof -
  from h have "hasOnlyDefaultBondDenom S cs = None" "AddDeposit S G e i a cs s = Inr s'"
    by (auto simp: gov_handleMsgDeposit_def split: option.splits if_splits)
  with AddDeposit_keeps [OF laws ok a only_bond_denom_pos [OF laws]] show ?thesis by blast
qed

text \<open>A tally decides or leaves the proposal in its voting period.\<close>

lemma Tally_status:
  "Tally S s p x = Some (status, distribute, r) \<Longrightarrow> status = StatusPassed \<or> status = StatusRejected \<or> (\<not> x \<and> status = StatusVotingPeriod)"
  by (auto simp: Tally_def Let_def tallyStatusInVotePeriod_def tallyStatusExpireVotePeriod_def split: option.splits if_splits prod.splits)

lemma decide_keeps:
  assumes laws: "gov_laws S G" "env_ok S e" and ok: "gov_ok S s"
    and p: "map_of (gv_proposals s) k = Some p" "pp_Status p = StatusVotingPeriod"
    and q: "pp_ID q = pp_ID p" "pp_VotingEndTime q = pp_VotingEndTime p"
    and st: "status = StatusPassed \<or> status = StatusRejected"
    and h: "handleProposalAfterTally S G e q distribute status s = Some (q', s')"
    and r: "pp_ID r = pp_ID q'" "pp_Status r = pp_Status q'" "pp_Content r = pp_Content q'"
    and t: "gov_core t = (gv_nextID s', kv_set k r (gv_proposals s'), kv_del (pp_VotingEndTime p, k) (gv_active s'), gv_inactive s',
       gv_waiting s', gv_deposits s', filter (\<lambda>e. fst (fst e) \<noteq> k) (gv_votes s'))" "gv_bank t = gv_bank s'"
  shows "gov_keeps S s t" and "gv_proposals t = kv_set k r (gv_proposals s)" and "decided_status (pp_Status r)"
proof -
  note o = gov_okD [OF ok]
  note a = handleProposalAfterTally_spec [OF laws o(5) st h]
  have c: "gv_nextID t = gv_nextID s'" "gv_proposals t = kv_set k r (gv_proposals s')" "gv_inactive t = gv_inactive s'"
    "gv_active t = kv_del (pp_VotingEndTime p, k) (gv_active s')" "gv_waiting t = gv_waiting s'" "gv_deposits t = gv_deposits s'"
    "gv_votes t = filter (\<lambda>e. fst (fst e) \<noteq> k) (gv_votes s')"
    using t(1) by (simp_all add: gov_core_def)
  show ps: "gv_proposals t = kv_set k r (gv_proposals s)" using a by (simp add: c after_tally_def)
  show "decided_status (pp_Status r)" using a r(2) by (auto simp: after_tally_def)
  have "gov_gap S t d = gov_gap S s' d" for d by (simp add: gov_gap_def gov_total_def c t(2))
  with a have "gov_gap S t d = gov_gap S s d" for d by (simp add: after_tally_def)
  moreover have "keeps_decided s t"
    by (rule keeps_decided_set [OF p(1) _ ps]) (simp add: p(2) decided_status_def)
  ultimately show "gov_keeps S s t"
    using decided_ok [OF ok p q a r c] by (simp add: gov_keeps_def)
qed

lemma SetVote_ok:
  assumes ok: "gov_ok S s" and p: "map_of (gv_proposals s) (ProposalKey n) = Some p" "pp_Status p = StatusVotingPeriod" "ValidVoteOption opt"
  shows "gov_ok S (SetVote n \<lparr>vo_ProposalID = n, vo_Voter = a, vo_Option = opt\<rparr> s)"
proof -
  have "votes_ok (kv_set (ProposalKey n, a) \<lparr>vo_ProposalID = n, vo_Voter = a, vo_Option = opt\<rparr> (gv_votes s)) (gv_proposals s)"
    using gov_okD(6) [OF ok] p by (auto simp: votes_ok_def kv_ok_set)
  with ok show ?thesis by (simp add: gov_ok_def SetVote_def)
qed

lemma handleMsgVote_keeps:
  assumes laws: "gov_laws S G" "env_ok S e" and ok: "gov_ok S s" and h: "handleMsgVote S G e n a opt s = Inr s'"
  shows "gov_keeps S s s'"
proof -
  let ?k = "ProposalKey n"
  let ?s = "SetVote n \<lparr>vo_ProposalID = n, vo_Voter = a, vo_Option = opt\<rparr> s"
  from h obtain p status distribute r where p: "map_of (gv_proposals s) ?k = Some p" "pp_Status p = StatusVotingPeriod" "ValidVoteOption opt"
    and r: "Tally S ?s p False = Some (status, distribute, r)"
    and h': "(let p = p\<lparr>pp_FinalTallyResult := r\<rparr> in if status \<noteq> StatusVotingPeriod
        then (case handleProposalAfterTally S G e p distribute status ?s of None \<Rightarrow> Inl GovPanic
              | Some (p, s) \<Rightarrow> (let s = RemoveFromActiveProposalQueue (pp_ID p) (pp_VotingEndTime p) s;
                                 p = p\<lparr>pp_VotingEndTime := e_Time e\<rparr>; s = DeleteVotes (pp_ID p) s in Inr (SetProposal p s)))
        else Inr (SetProposal p ?s)) = Inr s'"
    by (auto simp: handleMsgVote_def AddVote_def GetProposal_def rbind_Inr_iff split: option.splits if_splits prod.splits)
  have ok1: "gov_ok S ?s" by (rule SetVote_ok [OF ok p])
  have s1: "gov_keeps S s ?s" using ok1 by (simp add: gov_keeps_def keeps_decided_def gov_gap_def gov_total_def SetVote_def)
  have p1: "map_of (gv_proposals ?s) ?k = Some p" using p(1) by (simp add: SetVote_def)
  note k = ids_ok_get [OF gov_okD(1) [OF ok1] p1]
  let ?q = "p\<lparr>pp_FinalTallyResult := r\<rparr>"
  have "gov_keeps S ?s s'"
  proof (cases "status = StatusVotingPeriod")
    case True
    then have s': "s' = SetProposal ?q ?s" using h' by simp
    then have ps: "gv_proposals s' = kv_set ?k ?q (gv_proposals ?s)" by (simp add: SetProposal_def k(1))
    note o = gov_okD [OF ok1]
    have in_k: "map_of (gv_active ?s) (x, ?k) = (if pp_VotingEndTime p = x then Some (pp_ID p) else None)"
      "map_of (gv_inactive ?s) (x, ?k) = None" for x
      using queue_at [OF o(2), of x ?k] queue_at [OF o(3), of x ?k] p1 p(2) by simp_all
    have fr: "gv_active s' = gv_active ?s" "gv_inactive s' = gv_inactive ?s" by (simp_all add: s' SetProposal_def)
    have "gov_ok S s'"
    proof (rule still_open_ok [OF ok1 p1, of ?q])
      show "queue_ok (gv_active s') (gv_proposals s') StatusVotingPeriod pp_VotingEndTime"
        by (rule queue_ok_change [OF o(2), of _ ?k]) (use o(2) in_k p(2) in \<open>auto simp: fr ps, auto simp: queue_ok_def\<close>)
      show "queue_ok (gv_inactive s') (gv_proposals s') StatusDepositPeriod pp_DepositEndTime"
        by (rule queue_ok_change [OF o(3), of _ ?k]) (use o(3) in_k p(2) in \<open>auto simp: fr ps, auto simp: queue_ok_def\<close>)
    qed (use p(2) ps in \<open>simp_all add: open_status_def s' SetProposal_def\<close>)
    moreover have "keeps_decided ?s s'" by (rule keeps_decided_set [OF p1 _ ps]) (simp add: p(2) decided_status_def)
    ultimately show ?thesis by (simp add: gov_keeps_def gov_gap_def gov_total_def s' SetProposal_def)
  next
    case False
    with h' obtain q' t where t: "handleProposalAfterTally S G e ?q distribute status ?s = Some (q', t)"
      "s' = SetProposal (q'\<lparr>pp_VotingEndTime := e_Time e\<rparr>) (DeleteVotes (pp_ID q')
         (RemoveFromActiveProposalQueue (pp_ID q') (pp_VotingEndTime q') t))"
      by (auto simp: Let_def split: option.splits)
    have st: "status = StatusPassed \<or> status = StatusRejected" using Tally_status [OF r] False by blast
    note a = handleProposalAfterTally_spec [OF laws gov_okD(5) [OF ok1] st t(1), unfolded after_tally_def]
    then have q': "pp_ID q' = pp_ID p" "pp_VotingEndTime q' = pp_VotingEndTime p" by auto
    have "votes_ok (gv_votes (RemoveFromActiveProposalQueue (pp_ID q') (pp_VotingEndTime q') t)) (gv_proposals ?s)"
      using gov_okD(6) [OF ok1] a by (simp add: RemoveFromActiveProposalQueue_def)
    note s' = t(2) [unfolded DeleteVotes_filter [OF this]]
    show ?thesis
      by (rule decide_keeps(1) [OF laws ok1 p1 p(2) _ _ st t(1), of "q'\<lparr>pp_VotingEndTime := e_Time e\<rparr>"])
        (simp_all add: s' SetProposal_def RemoveFromActiveProposalQueue_def gov_core_def q' k(1) [symmetric])
  qed
  with s1 show ?thesis by (rule gov_keeps_trans)
qed

end
