(* ===== verification/GovTally.thy ===== *)
theory GovTally
  imports GovInv
begin

text \<open>
  The tally: the four results add up to the voted power, no more power is counted than the bonded validators hold,
  whoever votes independently of their validator, and a decision before the end of the voting period is the decision the
  same votes give at its end.
\<close>

subsection \<open>What the tally keeps\<close>

abbreviation tallied :: "vote_option set" where
  "tallied \<equiv> {OptionYes, OptionAbstain, OptionNo, OptionNoWithVeto}"

definition tally_sum :: "(vote_option \<Rightarrow> dec option) \<Rightarrow> dec" where
  "tally_sum results = result_of results OptionYes + result_of results OptionAbstain
     + result_of results OptionNo + result_of results OptionNoWithVeto"

definition tally_ok :: "tally_state \<Rightarrow> bool" where
  "tally_ok st \<longleftrightarrow> dom (ty_results st) = tallied \<and> tally_sum (ty_results st) = ty_totalVotedPower st
     \<and> (\<forall>opt. 0 \<le> result_of (ty_results st) opt) \<and> kv_ok (ty_validators st)"

lemma add_power_valid:
  assumes "tally_ok st" and "ValidVoteOption opt" and "0 \<le> x"
  shows "\<exists>st'. add_power opt x st = Some st' \<and> tally_ok st' \<and> ty_validators st' = ty_validators st
    \<and> ty_totalVotedPower st' = ty_totalVotedPower st + x"
proof -
  have "opt \<in> dom (ty_results st)" using assms(1,2) by (auto simp: tally_ok_def ValidVoteOption_def)
  then obtain r where r: "ty_results st opt = Some r" by blast
  let ?st = "st\<lparr>ty_results := (ty_results st)(opt \<mapsto> r + x), ty_totalVotedPower := ty_totalVotedPower st + x\<rparr>"
  have "0 \<le> result_of (ty_results st) opt" using assms(1) by (simp add: tally_ok_def)
  then have "result_of (ty_results ?st) o' = result_of (ty_results st) o' + (if o' = opt then x else 0)" "0 \<le> r" for o'
    by (simp_all add: result_of_def r)
  moreover have "dom (ty_results ?st) = tallied"
    using assms(1) \<open>opt \<in> dom (ty_results st)\<close> by (auto simp: tally_ok_def)
  ultimately have "tally_ok ?st"
    using assms by (auto simp: tally_ok_def tally_sum_def ValidVoteOption_def)
  then show ?thesis by (simp add: add_power_def r)
qed

subsection \<open>Votes\<close>

text \<open>The shares the voter added to a validator.\<close>

definition weight :: "staking_view \<Rightarrow> addr \<Rightarrow> addr \<Rightarrow> dec" where
  "weight sv voter a = (case map_of (sv_Delegators sv) voter of None \<Rightarrow> 0 | Some (vals, x) \<Rightarrow> if a \<in> set vals then x else 0)"

text \<open>
  What the staking module keeps: validators and the validators of a delegator are distinct, shares are not negative, and
  the shares that delegators added to a validator are among its shares.
\<close>

definition staking_ok :: "staking_view \<Rightarrow> bool" where
  "staking_ok sv \<longleftrightarrow> distinct (map fst (sv_Bonded sv)) \<and> kv_ok (sv_Delegators sv)
     \<and> (\<forall>e\<in>set (sv_Delegators sv). distinct (fst (snd e)) \<and> 0 \<le> snd (snd e))
     \<and> (\<forall>b\<in>set (sv_Bonded sv). kv_sum (\<lambda>(vals, x). if fst b \<in> set vals then x else 0) (sv_Delegators sv) \<le> snd b)"

text \<open>During the count: shares stay, deductions add up to the voted power, and grow by at most the weight of the voter.\<close>

definition counted :: "staking_view \<Rightarrow> (addr \<Rightarrow> dec) \<Rightarrow> tally_state \<Rightarrow> tally_state \<Rightarrow> bool" where
  "counted sv w st st' \<longleftrightarrow> tally_ok st'
     \<and> (\<forall>a. map_option vg_DelegatorShares (map_of (ty_validators st') a) = map_option vg_DelegatorShares (map_of (ty_validators st) a))
     \<and> kv_sum vg_DelegatorDeductions (ty_validators st')
         = kv_sum vg_DelegatorDeductions (ty_validators st) + (ty_totalVotedPower st' - ty_totalVotedPower st)
     \<and> kv_sum vg_DelegatorShares (ty_validators st') = kv_sum vg_DelegatorShares (ty_validators st)
     \<and> (\<forall>a. kv_val vg_DelegatorDeductions (ty_validators st') a \<le> kv_val vg_DelegatorDeductions (ty_validators st) a + w a)
     \<and> ((\<forall>e\<in>set (ty_validators st). vg_Vote (snd e) = OptionEmpty \<or> ValidVoteOption (vg_Vote (snd e))) \<longrightarrow>
          (\<forall>e\<in>set (ty_validators st'). vg_Vote (snd e) = OptionEmpty \<or> ValidVoteOption (vg_Vote (snd e))))"

lemma counted_refl: "tally_ok st \<Longrightarrow> (\<forall>a. 0 \<le> w a) \<Longrightarrow> counted sv w st st"
  by (simp add: counted_def)

lemma counted_trans:
  assumes "counted sv w st st'" and "counted sv w' st' st''"
  shows "counted sv (\<lambda>a. w a + w' a) st st''"
proof -
  have "kv_val vg_DelegatorDeductions (ty_validators st'') a \<le>
      kv_val vg_DelegatorDeductions (ty_validators st) a + (w a + w' a)" for a
  proof -
    have "kv_val vg_DelegatorDeductions (ty_validators st') a \<le> kv_val vg_DelegatorDeductions (ty_validators st) a + w a"
      "kv_val vg_DelegatorDeductions (ty_validators st'') a \<le> kv_val vg_DelegatorDeductions (ty_validators st') a + w' a"
      using assms by (simp_all add: counted_def)
    then show ?thesis by linarith
  qed
  then show ?thesis
    using assms unfolding counted_def by (intro conjI) (metis+, linarith, metis+)
qed

lemma tally_delegation_counted:
  assumes "tally_ok st" and "ValidVoteOption opt" and "0 \<le> x"
  shows "\<exists>st'. tally_delegation opt x val st = Some st' \<and> counted sv (\<lambda>a. if a = val then x else 0) st st'"
proof (cases "map_of (ty_validators st) val")
  case None
  then show ?thesis using counted_refl [OF assms(1)] assms(3) by (simp add: tally_delegation_def)
next
  case (Some i)
  let ?i = "i\<lparr>vg_DelegatorDeductions := vg_DelegatorDeductions i + x\<rparr>"
  let ?st = "st\<lparr>ty_validators := kv_set val ?i (ty_validators st)\<rparr>"
  have kv: "kv_ok (ty_validators st)" using assms(1) by (simp add: tally_ok_def)
  have "tally_ok ?st" using assms(1) by (simp add: tally_ok_def kv_ok_set)
  from add_power_valid [OF this assms(2,3)] obtain st' where st': "add_power opt x ?st = Some st'" "tally_ok st'"
    "ty_validators st' = kv_set val ?i (ty_validators st)" "ty_totalVotedPower st' = ty_totalVotedPower st + x"
    by auto
  have "counted sv (\<lambda>a. if a = val then x else 0) st st'"
    unfolding counted_def
  proof (intro conjI allI impI)
    show "kv_sum vg_DelegatorDeductions (ty_validators st')
         = kv_sum vg_DelegatorDeductions (ty_validators st) + (ty_totalVotedPower st' - ty_totalVotedPower st)"
      by (simp add: st'(3,4) kv_sum_set [OF kv] kv_val_def Some)
    show "kv_sum vg_DelegatorShares (ty_validators st') = kv_sum vg_DelegatorShares (ty_validators st)"
      by (simp add: st'(3) kv_sum_set [OF kv] kv_val_def Some)
    show "\<forall>e\<in>set (ty_validators st'). vg_Vote (snd e) = OptionEmpty \<or> ValidVoteOption (vg_Vote (snd e))"
      if v: "\<forall>e\<in>set (ty_validators st). vg_Vote (snd e) = OptionEmpty \<or> ValidVoteOption (vg_Vote (snd e))"
      using kv_vals_set [OF v, of ?i val] kv_vals_get [OF v Some] by (simp add: st'(3))
  qed (auto simp: st' Some kv_val_def)
  then show ?thesis using st'(1) by (simp add: tally_delegation_def Some)
qed

lemma tally_delegations_counted:
  assumes "tally_ok st" and "ValidVoteOption opt" and "0 \<le> x" and "distinct vals"
  shows "\<exists>st'. ofold (tally_delegation opt x) vals st = Some st' \<and> counted sv (\<lambda>a. if a \<in> set vals then x else 0) st st'"
  using assms(1,4)
proof (induction vals arbitrary: st)
  case Nil
  then show ?case using counted_refl by simp
next
  case (Cons v vals)
  from tally_delegation_counted [OF Cons.prems(1) assms(2,3), of v sv] obtain s1 where
    s1: "tally_delegation opt x v st = Some s1" "counted sv (\<lambda>a. if a = v then x else 0) st s1" by blast
  have "tally_ok s1" using s1(2) by (simp add: counted_def)
  with Cons.IH [of s1] Cons.prems(2) obtain s2 where
    s2: "ofold (tally_delegation opt x) vals s1 = Some s2" "counted sv (\<lambda>a. if a \<in> set vals then x else 0) s1 s2" by auto
  have "(\<lambda>a. (if a = v then x else 0) + (if a \<in> set vals then x else 0)) = (\<lambda>a. if a \<in> set (v # vals) then x else 0)"
    using Cons.prems(2) by (auto intro!: ext)
  then show ?case using counted_trans [OF s1(2) s2(2)] s1(1) s2(1) by simp
qed

lemma tally_vote_counted:
  assumes "staking_ok (gv_staking s)" and "tally_ok st" and "ValidVoteOption (vo_Option v)"
  shows "\<exists>st'. tally_vote s v st = Some st' \<and> counted (gv_staking s) (weight (gv_staking s) (vo_Voter v)) st st'"
proof -
  let ?sv = "gv_staking s"
  have d: "distinct vals \<and> 0 \<le> x" if "map_of (sv_Delegators ?sv) a = Some (vals, x)" for a vals x
    using assms(1) [unfolded staking_ok_def, THEN conjunct2, THEN conjunct2, THEN conjunct1, THEN bspec, OF map_of_SomeD [OF that]]
    by simp
  have w: "0 \<le> weight ?sv (vo_Voter v) a" for a
    by (auto simp: weight_def dest!: d split: option.splits)
  show ?thesis
  proof (cases "map_of (ty_validators st) (vo_Voter v)")
    case (Some i)
    let ?st = "st\<lparr>ty_validators := kv_set (vo_Voter v) (i\<lparr>vg_Vote := vo_Option v\<rparr>) (ty_validators st)\<rparr>"
    have kv: "kv_ok (ty_validators st)" using assms(2) by (simp add: tally_ok_def)
    have "counted ?sv (weight ?sv (vo_Voter v)) st ?st"
      unfolding counted_def
    proof (intro conjI allI impI)
      show "tally_ok ?st" using assms(2) by (simp add: tally_ok_def kv_ok_set)
      show "\<forall>e\<in>set (ty_validators ?st). vg_Vote (snd e) = OptionEmpty \<or> ValidVoteOption (vg_Vote (snd e))"
        if v: "\<forall>e\<in>set (ty_validators st). vg_Vote (snd e) = OptionEmpty \<or> ValidVoteOption (vg_Vote (snd e))"
        using kv_vals_set [OF v, of "i\<lparr>vg_Vote := vo_Option v\<rparr>" "vo_Voter v"] assms(3) by simp
      show "kv_val vg_DelegatorDeductions (ty_validators ?st) a \<le>
          kv_val vg_DelegatorDeductions (ty_validators st) a + weight ?sv (vo_Voter v) a" for a
        using w [of a] by (auto simp: kv_val_def Some)
      show "map_option vg_DelegatorShares (map_of (ty_validators ?st) a) = map_option vg_DelegatorShares (map_of (ty_validators st) a)" for a
        by (simp add: Some)
      show "kv_sum vg_DelegatorShares (ty_validators ?st) = kv_sum vg_DelegatorShares (ty_validators st)"
        by (simp add: kv_sum_set [OF kv] kv_val_def Some)
      show "kv_sum vg_DelegatorDeductions (ty_validators ?st)
         = kv_sum vg_DelegatorDeductions (ty_validators st) + (ty_totalVotedPower ?st - ty_totalVotedPower st)"
        by (simp add: kv_sum_set [OF kv] kv_val_def Some)
    qed
    then show ?thesis by (simp add: tally_vote_def Some)
  next
    case None
    show ?thesis
    proof (cases "map_of (sv_Delegators ?sv) (vo_Voter v)")
      case None
      with \<open>map_of (ty_validators st) (vo_Voter v) = None\<close> counted_refl [OF assms(2)] w show ?thesis
        by (simp add: tally_vote_def)
    next
      case (Some vx)
      obtain vals x where vx: "vx = (vals, x)" by (cases vx)
      have "weight ?sv (vo_Voter v) = (\<lambda>a. if a \<in> set vals then x else 0)" by (auto simp: weight_def Some vx)
      with tally_delegations_counted [OF assms(2,3), of x vals ?sv] d [of "vo_Voter v" vals x] Some vx None
      show ?thesis by (simp add: tally_vote_def)
    qed
  qed
qed

lemma tally_votes_counted:
  assumes "staking_ok (gv_staking s)"
  shows "tally_ok st \<Longrightarrow> \<forall>v\<in>set vs. ValidVoteOption (vo_Option v) \<Longrightarrow>
    \<exists>st'. ofold (tally_vote s) vs st = Some st' \<and>
      counted (gv_staking s) (\<lambda>a. sum_list (map (\<lambda>v. weight (gv_staking s) (vo_Voter v) a) vs)) st st'"
proof (induction vs arbitrary: st)
  case Nil
  then show ?case using counted_refl by simp
next
  case (Cons v vs)
  then obtain s1 where s1: "tally_vote s v st = Some s1" "counted (gv_staking s) (weight (gv_staking s) (vo_Voter v)) st s1"
    using tally_vote_counted [OF assms] by (meson list.set_intros(1))
  have "tally_ok s1" using s1(2) by (simp add: counted_def)
  with Cons obtain s2 where s2: "ofold (tally_vote s) vs s1 = Some s2"
    "counted (gv_staking s) (\<lambda>a. sum_list (map (\<lambda>v. weight (gv_staking s) (vo_Voter v) a) vs)) s1 s2" by auto
  from counted_trans [OF s1(2) s2(2)] s1(1) s2(1) show ?case by simp
qed

subsection \<open>Every delegator counts once\<close>

lemma kv_vals_distinct:
  assumes "\<forall>e\<in>set m. 0 \<le> f (snd e)"
  shows "kv_ok m \<Longrightarrow> distinct ks \<Longrightarrow> sum_list (map (kv_val f m) ks) \<le> kv_sum f m"
  using assms
proof (induction ks arbitrary: m)
  case Nil
  then show ?case by (auto simp: kv_sum_values intro!: sum_list_nonneg)
next
  case (Cons k ks)
  have "sum_list (map (kv_val f (kv_del k m)) ks) \<le> kv_sum f (kv_del k m)"
    using Cons.prems by (intro Cons.IH) (auto simp: kv_ok_del, auto simp: kv_del_def)
  moreover have "map (kv_val f (kv_del k m)) ks = map (kv_val f m) ks"
    using Cons.prems(2) by (auto simp: kv_val_def)
  ultimately show ?case using Cons.prems(1) by (simp add: kv_sum_del)
qed

lemma weights_bounded:
  assumes "staking_ok sv" and "distinct ks" and "(a, sh) \<in> set (sv_Bonded sv)"
  shows "sum_list (map (\<lambda>k. weight sv k a) ks) \<le> sh"
proof -
  let ?f = "\<lambda>(vals, x). if a \<in> set vals then x else (0::dec)"
  have "weight sv k a = kv_val ?f (sv_Delegators sv) k" for k
    by (auto simp: weight_def kv_val_def split: option.splits)
  moreover have "sum_list (map (kv_val ?f (sv_Delegators sv)) ks) \<le> kv_sum ?f (sv_Delegators sv)"
    by (rule kv_vals_distinct) (use assms(1,2) in \<open>auto simp: staking_ok_def split: prod.splits\<close>)
  moreover have "kv_sum ?f (sv_Delegators sv) \<le> sh"
    using assms(1,3) by (auto simp: staking_ok_def)
  ultimately show ?thesis by simp
qed

subsection \<open>The whole count\<close>

lemma fold_validators:
  "distinct (map fst xs) \<Longrightarrow> kv_ok m \<Longrightarrow> fst ` set m \<inter> fst ` set xs = {} \<Longrightarrow>
     kv_ok (fold (\<lambda>(a, sh). kv_set a (f sh)) xs m)
     \<and> (\<forall>b. map_of (fold (\<lambda>(a, sh). kv_set a (f sh)) xs m) b =
          (case map_of xs b of Some sh \<Rightarrow> Some (f sh) | None \<Rightarrow> map_of m b))
     \<and> (\<forall>g. kv_sum g (fold (\<lambda>(a, sh). kv_set a (f sh)) xs m) = kv_sum g m + sum_list (map (\<lambda>e. g (f (snd e))) xs))"
proof (induction xs arbitrary: m)
  case (Cons x xs)
  obtain a sh where x: "x = (a, sh)" by (cases x)
  have m: "kv_ok (kv_set a (f sh) m)" "fst ` set (kv_set a (f sh) m) \<inter> fst ` set xs = {}"
    using Cons.prems by (auto simp: x kv_ok_set set_kv_set)
  have "map_of m a = None" using Cons.prems(3) by (auto simp: x map_of_eq_None_iff)
  then have sum: "kv_sum g (kv_set a (f sh) m) = kv_sum g m + g (f sh)" for g
    by (simp add: kv_sum_set [OF Cons.prems(2)] kv_val_def)
  have "map_of xs a = None" using Cons.prems(1) by (simp add: x map_of_eq_None_iff)
  with Cons.IH [OF _ m] Cons.prems(1) sum show ?case by (auto simp: x split: option.splits)
qed simp

lemma start_tally_ok:
  assumes "staking_ok (gv_staking s)"
  shows "tally_ok (start_tally s)" and "kv_sum vg_DelegatorDeductions (ty_validators (start_tally s)) = 0"
    and "kv_sum vg_DelegatorShares (ty_validators (start_tally s)) = totalPower s"
    and "map_of (ty_validators (start_tally s)) a =
      map_option (\<lambda>sh. \<lparr>vg_DelegatorShares = sh, vg_DelegatorDeductions = 0, vg_Vote = OptionEmpty\<rparr>) (map_of (sv_Bonded (gv_staking s)) a)"
proof -
  have d: "distinct (map fst (sv_Bonded (gv_staking s)))" using assms by (simp add: staking_ok_def)
  note * = fold_validators [OF d, of "[]" "\<lambda>sh. \<lparr>vg_DelegatorShares = sh, vg_DelegatorDeductions = 0, vg_Vote = OptionEmpty\<rparr>"]
  note f = * [simplified, THEN conjunct1] * [simplified, THEN conjunct2, THEN conjunct1, rule_format]
    * [simplified, THEN conjunct2, THEN conjunct2, rule_format]
  show "tally_ok (start_tally s)"
    using f(1) by (auto simp: tally_ok_def start_tally_def tally_sum_def result_of_def)
  show "kv_sum vg_DelegatorDeductions (ty_validators (start_tally s)) = 0"
    "kv_sum vg_DelegatorShares (ty_validators (start_tally s)) = totalPower s"
    by (simp_all add: start_tally_def f(3) totalPower_def)
  show "map_of (ty_validators (start_tally s)) a =
      map_option (\<lambda>sh. \<lparr>vg_DelegatorShares = sh, vg_DelegatorDeductions = 0, vg_Vote = OptionEmpty\<rparr>) (map_of (sv_Bonded (gv_staking s)) a)"
    by (simp add: start_tally_def f(2) split: option.splits)
qed

definition own_power :: "validator_gov_info \<Rightarrow> dec" where
  "own_power i = (if vg_Vote i = OptionEmpty then 0 else vg_DelegatorShares i - vg_DelegatorDeductions i)"

lemma tally_validators_ok:
  "tally_ok st \<Longrightarrow>
   \<forall>e\<in>set vs. (vg_Vote (snd e) = OptionEmpty \<or> ValidVoteOption (vg_Vote (snd e))) \<and> vg_DelegatorDeductions (snd e) \<le> vg_DelegatorShares (snd e)
   \<Longrightarrow> \<exists>st'. ofold (tally_validator voteP) vs st = Some st' \<and> tally_ok st'
      \<and> ty_totalVotedPower st' = ty_totalVotedPower st + kv_sum own_power vs"
proof (induction vs arbitrary: st)
  case (Cons e vs)
  obtain a i where e: "e = (a, i)" by (cases e)
  let ?st = "st\<lparr>ty_totalPower := ty_totalPower st + vg_DelegatorShares i\<rparr>"
  let ?u = "if (case voteP of None \<Rightarrow> False | Some v \<Rightarrow> vo_Voter v = a)
     then ?st\<lparr>ty_voterPower := ty_voterPower ?st + (vg_DelegatorShares i - vg_DelegatorDeductions i)\<rparr> else ?st"
  have u: "tally_ok ?st" "tally_ok ?u" "ty_totalVotedPower ?u = ty_totalVotedPower st" using Cons.prems(1) by (simp_all add: tally_ok_def)
  obtain s1 where s1: "tally_validator voteP e st = Some s1" "tally_ok s1"
    "ty_totalVotedPower s1 = ty_totalVotedPower st + own_power i"
  proof (cases "vg_Vote i = OptionEmpty")
    case True
    then show ?thesis using that [of ?st] u(1) by (simp add: tally_validator_def e own_power_def)
  next
    case False
    then have "ValidVoteOption (vg_Vote i)" "0 \<le> vg_DelegatorShares i - vg_DelegatorDeductions i"
      using Cons.prems(2) by (auto simp: e)
    from add_power_valid [OF u(2) this] False u(3) that show ?thesis
      by (auto simp: tally_validator_def e own_power_def Let_def)
  qed
  with Cons.IH [of s1] Cons.prems(2) show ?case by (auto simp: e)
qed simp

lemma votes_distinct:
  assumes "votes_ok (gv_votes s) ps"
  shows "distinct (map vo_Voter (GetVotes s n))" and "\<forall>v\<in>set (GetVotes s n). ValidVoteOption (vo_Option v)"
proof -
  let ?es = "filter (\<lambda>e. fst (fst e) = ProposalKey n) (gv_votes s)"
  have es: "vo_Voter (snd e) = snd (fst e)" "fst (fst e) = ProposalKey n" if "e \<in> set ?es" for e
    using that votes_owned [OF assms, of e] by (auto simp: prod_eq_iff)
  have "distinct (map fst ?es)"
    using assms kv_ok_distinct [OF kv_ok_filter [of "gv_votes s"]] by (simp add: votes_ok_def)
  then have d: "distinct ?es" "inj_on fst (set ?es)" by (simp_all only: distinct_map)
  have "inj_on (\<lambda>e. snd (fst e)) (set ?es)"
  proof (rule inj_onI)
    fix x y assume xy: "x \<in> set ?es" "y \<in> set ?es" and "snd (fst x) = snd (fst y)"
    then have "fst x = fst y" using es(2) by (metis prod_eqI)
    with xy show "x = y" using d(2) by (metis inj_onD)
  qed
  with d(1) have "distinct (map (\<lambda>e. snd (fst e)) ?es)" by (simp only: distinct_map)
  moreover have "map vo_Voter (GetVotes s n) = map (\<lambda>e. snd (fst e)) ?es"
    unfolding GetVotes_def map_map comp_def by (rule map_cong [OF refl]) (rule es(1))
  ultimately show "distinct (map vo_Voter (GetVotes s n))" by simp
  show "\<forall>v\<in>set (GetVotes s n). ValidVoteOption (vo_Option v)"
  proof
    fix v assume "v \<in> set (GetVotes s n)"
    then obtain e where e: "e \<in> set (gv_votes s)" "v = snd e" by (auto simp: GetVotes_def)
    with assms have "map_of (gv_votes s) (fst (fst e), snd (fst e)) = Some v"
      using kv_ok_entry [of "gv_votes s" e] by (simp add: votes_ok_def)
    with assms show "ValidVoteOption (vo_Option v)" unfolding votes_ok_def by blast
  qed
qed

lemma preTally_ok:
  assumes sv: "staking_ok (gv_staking s)" and vs: "votes_ok (gv_votes s) ps"
  shows "\<exists>results voted rate. preTally S s p None = Some (results, voted, rate) \<and> tally_sum results = voted
     \<and> (\<forall>opt. 0 \<le> result_of results opt) \<and> voted \<le> totalPower s"
proof -
  let ?sv = "gv_staking s"
  note st = start_tally_ok [OF sv]
  let ?w = "\<lambda>a. sum_list (map (\<lambda>v. weight ?sv (vo_Voter v) a) (GetVotes s (pp_ID p)))"
  from tally_votes_counted [OF sv st(1) votes_distinct(2) [OF vs]] obtain s1 where
    s1: "tallyDelegatorVotes s (pp_ID p) None (start_tally s) = Some s1" "counted ?sv ?w (start_tally s) s1"
    by (auto simp: tallyDelegatorVotes_def)
  note c = s1(2) [unfolded counted_def]
  have kv: "kv_ok (ty_validators s1)" using c by (simp add: tally_ok_def)
  have v0: "\<forall>e\<in>set (ty_validators (start_tally s)). vg_Vote (snd e) = OptionEmpty \<or> ValidVoteOption (vg_Vote (snd e))"
  proof
    fix e assume "e \<in> set (ty_validators (start_tally s))"
    then have "map_of (ty_validators (start_tally s)) (fst e) = Some (snd e)"
      using st(1) kv_ok_entry [of "ty_validators (start_tally s)" e] by (simp add: tally_ok_def)
    then obtain z where "\<lparr>vg_DelegatorShares = z, vg_DelegatorDeductions = 0, vg_Vote = OptionEmpty\<rparr> = snd e"
      by (auto simp: st(4))
    from this [symmetric] show "vg_Vote (snd e) = OptionEmpty \<or> ValidVoteOption (vg_Vote (snd e))" by simp
  qed
  have bound: "vg_DelegatorDeductions (snd e) \<le> vg_DelegatorShares (snd e)" if "e \<in> set (ty_validators s1)" for e
  proof -
    have e: "map_of (ty_validators s1) (fst e) = Some (snd e)" by (rule kv_ok_entry [OF kv that])
    then have "map_option vg_DelegatorShares (map_of (ty_validators (start_tally s)) (fst e)) = Some (vg_DelegatorShares (snd e))"
      using c by (metis option.simps(9))
    then have "map_of (sv_Bonded ?sv) (fst e) = Some (vg_DelegatorShares (snd e))"
      by (auto simp: st(4))
    from weights_bounded [OF sv votes_distinct(1) [OF vs] map_of_SomeD [OF this], of "pp_ID p"]
    have "?w (fst e) \<le> vg_DelegatorShares (snd e)" by (simp add: comp_def)
    moreover have "kv_val vg_DelegatorDeductions (ty_validators s1) (fst e) \<le>
        kv_val vg_DelegatorDeductions (ty_validators (start_tally s)) (fst e) + ?w (fst e)" using c by blast
    moreover have "kv_val vg_DelegatorDeductions (ty_validators (start_tally s)) (fst e) = 0"
      by (auto simp: kv_val_def st(4) split: option.splits)
    ultimately show ?thesis by (simp add: kv_val_def e)
  qed
  from c v0 bound tally_validators_ok [of s1 "ty_validators s1" None] obtain s2 where
    s2: "tallyValidatorVotes None s1 = Some s2" "tally_ok s2"
    "ty_totalVotedPower s2 = ty_totalVotedPower s1 + kv_sum own_power (ty_validators s1)"
    unfolding tallyValidatorVotes_def by blast
  have "kv_sum own_power (ty_validators s1) \<le> kv_sum (\<lambda>i. vg_DelegatorShares i - vg_DelegatorDeductions i) (ty_validators s1)"
    by (rule kv_sum_mono [OF kv]) (use bound in \<open>force simp: own_power_def dest!: map_of_SomeD\<close>)
  also have "\<dots> = totalPower s - ty_totalVotedPower s1"
  proof -
    have "ty_totalVotedPower (start_tally s) = 0" by (simp add: start_tally_def)
    moreover have "kv_sum vg_DelegatorDeductions (ty_validators s1) =
        kv_sum vg_DelegatorDeductions (ty_validators (start_tally s)) + (ty_totalVotedPower s1 - ty_totalVotedPower (start_tally s))"
      "kv_sum vg_DelegatorShares (ty_validators s1) = kv_sum vg_DelegatorShares (ty_validators (start_tally s))"
      using c by blast+
    ultimately show ?thesis using kv_sum_add [of vg_DelegatorShares "\<lambda>i. - vg_DelegatorDeductions i" "ty_validators s1"]
        kv_sum_scale [of vg_DelegatorDeductions "-1" "ty_validators s1"] st(2,3) by simp
  qed
  finally have "ty_totalVotedPower s2 \<le> totalPower s" using s2(3) by simp
  with s1(1) s2(1,2) show ?thesis by (simp add: preTally_def tally_ok_def)
qed

lemma Tally_ok:
  assumes "staking_ok (gv_staking s)" and "votes_ok (gv_votes s) ps"
  obtains r where "Tally S s p True = Some (fst (tallyStatusExpireVotePeriod S (gv_TallyParams s) r),
        snd (tallyStatusExpireVotePeriod S (gv_TallyParams s) r), r)"
    and "Tally S s p False = Some (fst (tallyStatusInVotePeriod S (gv_TallyParams s) r),
        snd (tallyStatusInVotePeriod S (gv_TallyParams s) r), r)"
    and "tr_Yes r + tr_Abstain r + tr_No r + tr_NoWithVeto r = tr_TotalVotedPower r"
    and "0 \<le> tr_Yes r" and "0 \<le> tr_Abstain r" and "0 \<le> tr_No r" and "0 \<le> tr_NoWithVeto r"
    and "tr_TotalVotedPower r \<le> tr_TotalPower r" and "tr_TotalPower r = totalPower s"
proof -
  from preTally_ok [OF assms, of S p] obtain results voted rate where
    t: "preTally S s p None = Some (results, voted, rate)" "tally_sum results = voted"
    "\<forall>opt. 0 \<le> result_of results opt" "voted \<le> totalPower s" by blast
  show ?thesis
    by (rule that [of "NewTallyResultFromMap results (totalPower s) voted"])
      (use t in \<open>simp_all add: Tally_def Let_def case_prod_unfold NewTallyResultFromMap_def tally_sum_def\<close>)
qed

subsection \<open>Early decisions\<close>

text \<open>
  What the decision relies on in \<open>Dec.Quo\<close>: monotone in the numerator, antitone in the denominator, and rounding never
  makes a part and the rest of it more than the whole.
\<close>

definition quo_laws :: "'b sdk \<Rightarrow> bool" where
  "quo_laws S \<longleftrightarrow> (\<forall>a b c. 0 < c \<longrightarrow> a \<le> b \<longrightarrow> d_quo S a c \<le> d_quo S b c)
     \<and> (\<forall>a b c. 0 \<le> a \<longrightarrow> 0 < b \<longrightarrow> b \<le> c \<longrightarrow> d_quo S a c \<le> d_quo S a b)
     \<and> (\<forall>a b. 0 \<le> a \<longrightarrow> a \<le> b \<longrightarrow> 0 < b \<longrightarrow> d_quo S a b + d_quo S (b - a) b \<le> d_unit S)
     \<and> (\<forall>b. 0 < b \<longrightarrow> d_quo S 0 b = 0)"

text \<open>The parameters: the threshold is at least one half, a majority that ends the vote early excludes a veto and reaches
  the quorum and the threshold.\<close>

definition tally_params_ok :: "'b sdk \<Rightarrow> tally_params \<Rightarrow> bool" where
  "tally_params_ok S tp \<longleftrightarrow> d_unit S \<le> 2 * tpa_Threshold tp \<and> d_unit S \<le> tpa_Veto tp + tpa_YesInVotePeriod tp
     \<and> tpa_Quorum tp \<le> tpa_YesInVotePeriod tp \<and> tpa_Threshold tp \<le> tpa_YesInVotePeriod tp \<and> 0 \<le> tpa_YesInVotePeriod tp"

lemma quo_lawsD:
  assumes "quo_laws S"
  shows "0 < c \<Longrightarrow> a \<le> b \<Longrightarrow> d_quo S a c \<le> d_quo S b c"
    and "0 \<le> a \<Longrightarrow> 0 < b \<Longrightarrow> b \<le> c \<Longrightarrow> d_quo S a c \<le> d_quo S a b"
    and "0 \<le> a \<Longrightarrow> a \<le> b \<Longrightarrow> 0 < b \<Longrightarrow> d_quo S a b + d_quo S (b - a) b \<le> d_unit S"
    and "0 < b \<Longrightarrow> d_quo S 0 b = 0"
  using assms by (simp_all add: quo_laws_def)

lemma early_status:
  assumes q: "quo_laws S" and tp: "tally_params_ok S tp"
    and r: "tr_Yes r + tr_Abstain r + tr_No r + tr_NoWithVeto r = tr_TotalVotedPower r" "0 \<le> tr_Yes r" "0 \<le> tr_Abstain r"
      "0 \<le> tr_No r" "0 \<le> tr_NoWithVeto r" "tr_TotalVotedPower r \<le> tr_TotalPower r"
    and early: "fst (tallyStatusInVotePeriod S tp r) \<noteq> StatusVotingPeriod"
  shows "fst (tallyStatusExpireVotePeriod S tp r) = fst (tallyStatusInVotePeriod S tp r)"
proof -
  let ?T = "tr_TotalPower r" and ?V = "tr_TotalVotedPower r" and ?A = "tr_Abstain r" and ?Y = "tr_Yes r" and ?N = "tr_NoWithVeto r"
  let ?W = "?N + tr_No r"
  note Q = quo_lawsD [OF q]
  show ?thesis
  proof (cases "0 < ?V - ?A")
    case False
    then have va: "?V - ?A = 0" and y: "?Y = 0" using r by simp_all
    have "\<not> tpa_YesInVotePeriod tp < d_quo S ?Y ?T" if "?T \<noteq> 0"
    proof -
      have "0 < ?T" using that va r(3,6) by linarith
      from Q(4) [OF this] tp show ?thesis unfolding y by (simp add: tally_params_ok_def)
    qed
    with va early show ?thesis
      unfolding tallyStatusInVotePeriod_def tallyStatusExpireVotePeriod_def by (auto split: if_splits)
  next
    case True
    then have V: "0 < ?V" "0 < ?T" "0 < ?T - ?A" using r by simp_all
    have yes: "d_quo S ?Y ?T \<le> d_quo S ?V ?T" "d_quo S ?Y ?T \<le> d_quo S ?Y (?V - ?A)" "d_quo S ?N ?V + d_quo S ?Y ?T \<le> d_unit S"
    proof -
      show "d_quo S ?Y ?T \<le> d_quo S ?V ?T" by (rule Q(1)) (use V r in simp_all)
      show "d_quo S ?Y ?T \<le> d_quo S ?Y (?V - ?A)" by (rule Q(2)) (use True r in simp_all)
      have "d_quo S ?N ?V \<le> d_quo S (?V - ?Y) ?V" by (rule Q(1)) (use V r in simp_all)
      moreover have "d_quo S ?Y ?V + d_quo S (?V - ?Y) ?V \<le> d_unit S" by (rule Q(3)) (use V r in simp_all)
      moreover have "d_quo S ?Y ?T \<le> d_quo S ?Y ?V" by (rule Q(2)) (use V r in simp_all)
      ultimately show "d_quo S ?N ?V + d_quo S ?Y ?T \<le> d_unit S" by linarith
    qed
    have no: "d_quo S ?N ?T \<le> d_quo S ?N ?V" "d_quo S ?Y (?V - ?A) + d_quo S ?W (?T - ?A) \<le> d_unit S"
    proof -
      show "d_quo S ?N ?T \<le> d_quo S ?N ?V" by (rule Q(2)) (use V r in simp_all)
      have w: "?V - ?A - ?Y = ?W" using r(1) by simp
      have "d_quo S ?W (?T - ?A) \<le> d_quo S ?W (?V - ?A)" by (rule Q(2)) (use True r in simp_all)
      moreover have "d_quo S ?Y (?V - ?A) + d_quo S ?W (?V - ?A) \<le> d_unit S"
        using Q(3) [of ?Y "?V - ?A"] True r unfolding w by simp
      ultimately show "d_quo S ?Y (?V - ?A) + d_quo S ?W (?T - ?A) \<le> d_unit S" by linarith
    qed
    have "?V - ?A \<noteq> 0" "?T \<noteq> 0" "?T - ?A \<noteq> 0" using V True by simp_all
    with early tp yes no show ?thesis
      unfolding tallyStatusInVotePeriod_def tallyStatusExpireVotePeriod_def tally_params_ok_def
      by (auto split: if_splits)
  qed
qed

end
