(* ===== verification/GovEnd.thy ===== *)
theory GovEnd
  imports GovBlock GovTally
begin

text \<open>
  The end of a block. Each of its loops works through the queue entries that are due; whatever it does, the invariant,
  the gap and the decided proposals stay, and no proposal is left whose period is over. Where the bank pays what an
  account holds (\<open>gov_pays\<close>), the loops never panic, because the module account covers every deposit.
\<close>

subsection \<open>Work lists\<close>

lemma ofold_worklist:
  assumes step: "\<And>x s s'. P s \<Longrightarrow> x \<in> D s \<Longrightarrow> f x s = Some s' \<Longrightarrow> P s' \<and> D s' = D s - {x}"
  shows "P s \<Longrightarrow> set xs = D s \<Longrightarrow> distinct xs \<Longrightarrow> ofold f xs s = Some s' \<Longrightarrow> P s' \<and> D s' = {}"
proof (induction xs arbitrary: s)
  case (Cons x xs)
  then obtain t where t: "f x s = Some t" "ofold f xs t = Some s'" by (auto split: option.splits)
  with step [of s x t] Cons.prems have "P t" "D t = D s - {x}" by auto
  with Cons.IH [of t] Cons.prems t(2) show ?case by auto
qed auto

lemma ofold_worklist_total:
  assumes step: "\<And>x s. P s \<Longrightarrow> x \<in> D s \<Longrightarrow> \<exists>s'. f x s = Some s' \<and> P s' \<and> D s' = D s - {x}"
  shows "P s \<Longrightarrow> set xs = D s \<Longrightarrow> distinct xs \<Longrightarrow> \<exists>s'. ofold f xs s = Some s' \<and> P s'"
proof (induction xs arbitrary: s)
  case (Cons x xs)
  with step [of s x] obtain t where t: "f x s = Some t" "P t" "D t = D s - {x}" by auto
  with Cons.IH [of t] Cons.prems show ?case by auto
qed simp

definition due :: "proposal_status \<Rightarrow> (proposal \<Rightarrow> int) \<Rightarrow> int \<Rightarrow> 'b gov \<Rightarrow> int set" where
  "due st end_time now s = {i. \<exists>p. GetProposal s i = Some p \<and> pp_ID p = i \<and> pp_Status p = st \<and> end_time p \<le> now}"

lemma queue_upto_due:
  assumes q: "queue_ok q (gv_proposals s) st end_time" and ids: "ids_ok next (gv_proposals s)"
  shows "set (queue_upto now q) = due st end_time now s" and "distinct (queue_upto now q)"
proof -
  let ?es = "filter (\<lambda>e. fst (fst e) \<le> now) q"
  have kv: "kv_ok q" using q by (simp add: queue_ok_def)
  have entry: "\<exists>p. map_of (gv_proposals s) (snd (fst e)) = Some p \<and> pp_Status p = st \<and> end_time p = fst (fst e)
      \<and> le_value (snd (fst e)) = pp_ID p \<and> snd (fst e) = ProposalKey (pp_ID p)" if "e \<in> set q" for e
  proof -
    have "map_of q (fst (fst e), snd (fst e)) = Some (snd e)" using kv_ok_entry [OF kv that] by simp
    then obtain p where p: "map_of (gv_proposals s) (snd (fst e)) = Some p" "pp_Status p = st" "end_time p = fst (fst e)"
      using q unfolding queue_ok_def by blast
    from ids_ok_get [OF ids p(1)] p show ?thesis using le_value_ProposalKey [of "pp_ID p"] by metis
  qed
  show "set (queue_upto now q) = due st end_time now s"
  proof (intro set_eqI iffI)
    fix i assume "i \<in> set (queue_upto now q)"
    then obtain e where "e \<in> set q" "fst (fst e) \<le> now" "i = le_value (snd (fst e))" by (auto simp: queue_upto_def)
    with entry [of e] show "i \<in> due st end_time now s" by (auto simp: due_def GetProposal_def)
  next
    fix i assume "i \<in> due st end_time now s"
    then obtain p where p: "map_of (gv_proposals s) (ProposalKey i) = Some p" "pp_ID p = i" "pp_Status p = st" "end_time p \<le> now"
      by (auto simp: due_def GetProposal_def)
    then have "map_of q (end_time p, ProposalKey i) = Some i" using queue_at [OF q, of "end_time p" "ProposalKey i"] by simp
    then have "((end_time p, ProposalKey i), i) \<in> set ?es" using p(4) map_of_SomeD by force
    moreover have "le_value (ProposalKey i) = i" using ids_ok_get [OF ids p(1)] p(2) le_value_ProposalKey by simp
    ultimately show "i \<in> set (queue_upto now q)" unfolding queue_upto_def set_map by (intro rev_image_eqI) auto
  qed
  have d: "distinct ?es" "inj_on fst (set ?es)"
    using kv_ok_distinct [OF kv_ok_filter [OF kv]] by (simp_all only: distinct_map)
  have "inj_on (\<lambda>e. le_value (snd (fst e))) (set ?es)"
  proof (rule inj_onI)
    fix x y assume xy: "x \<in> set ?es" "y \<in> set ?es" and eq: "le_value (snd (fst x)) = le_value (snd (fst y))"
    from xy entry [of x] entry [of y] obtain p p' where
      "map_of (gv_proposals s) (snd (fst x)) = Some p" "end_time p = fst (fst x)" "snd (fst x) = ProposalKey (pp_ID p)"
      "le_value (snd (fst x)) = pp_ID p"
      "map_of (gv_proposals s) (snd (fst y)) = Some p'" "end_time p' = fst (fst y)" "snd (fst y) = ProposalKey (pp_ID p')"
      "le_value (snd (fst y)) = pp_ID p'" by auto
    with eq have "fst x = fst y" by (metis option.inject prod_eqI)
    with xy d(2) show "x = y" by (metis inj_onD)
  qed
  with d(1) show "distinct (queue_upto now q)" unfolding queue_upto_def by (simp only: distinct_map)
qed

subsection \<open>Proposals without enough deposits\<close>

lemma votes_ok_del:
  assumes "votes_ok vs ps" and "map_of ps k = Some p" and "pp_Status p \<noteq> StatusVotingPeriod"
  shows "votes_ok vs (kv_del k ps)"
  using assms unfolding votes_ok_def by (metis fun_upd_other map_of_kv_del option.inject)

lemma due_ids: "gov_ok S s \<Longrightarrow> i \<in> due st end_time now s \<Longrightarrow> 0 \<le> i \<and> i < 2 ^ 64"
  using ids_ok_get [OF gov_okD(1)] by (fastforce simp: due_def GetProposal_def)

lemma due_change:
  assumes ok: "gov_ok S s" and i: "i \<in> due st end_time now s" and other: "\<And>k. k \<noteq> ProposalKey i \<Longrightarrow> map_of (gv_proposals t) k = map_of (gv_proposals s) k"
    and gone: "\<And>p. map_of (gv_proposals t) (ProposalKey i) = Some p \<Longrightarrow> \<not> open_status (pp_Status p)" and st: "open_status st" "open_status st'"
  shows "due st end_time now t = due st end_time now s - {i}" and "due st' end_time' now' t \<subseteq> due st' end_time' now' s"
proof -
  have key: "ProposalKey j = ProposalKey i \<longleftrightarrow> j = i" if "j \<in> due st end_time now s" for j
    using due_ids [OF ok that] due_ids [OF ok i] ProposalKey_inj by blast
  have "j \<noteq> i \<Longrightarrow> j \<in> due st end_time now s \<Longrightarrow> j \<in> due st end_time now t" for j
    using key [of j] other [of "ProposalKey j"] by (auto simp: due_def GetProposal_def)
  moreover have sub: "j \<in> due x y z t \<Longrightarrow> open_status x \<Longrightarrow> j \<in> due x y z s \<and> j \<noteq> i" for j x y z
    using gone other [of "ProposalKey j"] by (cases "ProposalKey j = ProposalKey i") (auto simp: due_def GetProposal_def)
  ultimately show "due st end_time now t = due st end_time now s - {i}" using st(1) by blast
  show "due st' end_time' now' t \<subseteq> due st' end_time' now' s" using sub st(2) by blast
qed

lemma inactive_step_keeps:
  assumes laws: "gov_laws S G" "env_ok S e" and ok: "gov_ok S s" and i: "i \<in> due StatusDepositPeriod pp_DepositEndTime now s"
    and h: "inactive_step G e i s = Some s'"
  shows "gov_keeps S s s'" and "gv_proposals s' = kv_del (ProposalKey i) (gv_proposals s)"
proof -
  note o = gov_okD [OF ok]
  let ?k = "ProposalKey i"
  from i obtain p where p: "map_of (gv_proposals s) ?k = Some p" "pp_ID p = i" "pp_Status p = StatusDepositPeriod"
    by (auto simp: due_def GetProposal_def)
  define t where "t = s\<lparr>gv_inactive := kv_del (pp_DepositEndTime p, ?k) (gv_inactive s),
      gv_active := kv_del (pp_VotingEndTime p, ?k) (gv_active s), gv_proposals := kv_del ?k (gv_proposals s)\<rparr>"
  have d: "DistributeDeposits G e i t = Some s'"
    using h p by (simp add: inactive_step_def DeleteProposal_def GetProposal_def Let_def t_def
        RemoveFromInactiveProposalQueue_def RemoveFromActiveProposalQueue_def)
  have "deposits_ok S (gv_deposits t) (gv_proposals s)" using o(5) by (simp add: t_def)
  from DistributeDeposits_spec [OF laws(1) this laws(2) d] have c: "cleared S i t s'" by blast
  note f = cleared_frame [OF c]
  show ps: "gv_proposals s' = kv_del ?k (gv_proposals s)" by (simp add: f t_def)
  have at_k: "map_of (gv_inactive s) (x, ?k) = (if pp_DepositEndTime p = x then Some i else None)" "map_of (gv_active s) (x, ?k) = None" for x
    using queue_at [OF o(3), of x ?k] queue_at [OF o(2), of x ?k] p by simp_all
  have "queue_ok (gv_active s') (gv_proposals s') StatusVotingPeriod pp_VotingEndTime"
    by (rule queue_ok_change [OF o(2), of _ ?k]) (use o(2) at_k in \<open>auto simp: f t_def queue_ok_def kv_ok_del\<close>)
  moreover have "queue_ok (gv_inactive s') (gv_proposals s') StatusDepositPeriod pp_DepositEndTime"
    by (rule queue_ok_change [OF o(3), of _ ?k]) (use o(3) at_k in \<open>auto simp: f t_def queue_ok_def kv_ok_del\<close>)
  moreover have "waiting_ok (gv_waiting s') (gv_proposals s')"
    by (rule waiting_ok_change [of _ "gv_proposals s" ?k p]) (use o(4) p in \<open>simp_all add: f t_def\<close>)
  moreover have "deposits_ok S (gv_deposits s') (gv_proposals s')"
    using deposits_ok_del [OF o(5), of ?k] by (simp add: f t_def)
  moreover have "votes_ok (gv_votes s') (gv_proposals s')"
    using votes_ok_del [OF o(6) p(1)] p(3) by (simp add: f t_def)
  moreover have "ids_ok (gv_nextID s') (gv_proposals s')" using ids_ok_del [OF o(1)] by (simp add: f t_def)
  moreover have "keeps_decided s s'" using p by (auto simp: keeps_decided_def ps decided_status_def)
  moreover have "gov_gap S s' d = gov_gap S s d" for d by (simp add: f) (simp add: gov_gap_def gov_total_def t_def)
  ultimately show "gov_keeps S s s'" by (simp add: gov_keeps_def gov_ok_def)
qed

subsection \<open>Proposals at the end of their voting period\<close>

lemma active_step_keeps:
  assumes laws: "gov_laws S G" "env_ok S e" and ok: "gov_ok S s" and i: "i \<in> due StatusVotingPeriod pp_VotingEndTime now s"
    and h: "active_step S G e i s = Some s'"
  shows "gov_keeps S s s'" and "\<exists>r. gv_proposals s' = kv_set (ProposalKey i) r (gv_proposals s) \<and> decided_status (pp_Status r)"
proof -
  let ?k = "ProposalKey i"
  from i obtain p where p: "map_of (gv_proposals s) ?k = Some p" "pp_ID p = i" "pp_Status p = StatusVotingPeriod"
    by (auto simp: due_def GetProposal_def)
  from h p obtain status distribute r q t where r: "Tally S s p True = Some (status, distribute, r)"
    and t: "handleProposalAfterTally S G e p distribute status s = Some (q, t)"
    and s': "s' = DeleteVotes (pp_ID q) (RemoveFromActiveProposalQueue (pp_ID q) (pp_VotingEndTime q)
       (SetProposal (q\<lparr>pp_FinalTallyResult := r\<rparr>) t))"
    by (auto simp: active_step_def GetProposal_def Let_def split: option.splits)
  have st: "status = StatusPassed \<or> status = StatusRejected" using Tally_status [OF r] by blast
  note a = handleProposalAfterTally_spec [OF laws gov_okD(5) [OF ok] st t, unfolded after_tally_def]
  then have q: "pp_ID q = i" "pp_VotingEndTime q = pp_VotingEndTime p" using p(2) by auto
  have "votes_ok (gv_votes (RemoveFromActiveProposalQueue (pp_ID q) (pp_VotingEndTime q)
       (SetProposal (q\<lparr>pp_FinalTallyResult := r\<rparr>) t))) (gv_proposals s)"
    using gov_okD(6) [OF ok] a by (simp add: RemoveFromActiveProposalQueue_def SetProposal_def)
  note s'' = s' [unfolded DeleteVotes_filter [OF this]]
  have core: "gov_core s' = (gv_nextID t, kv_set ?k (q\<lparr>pp_FinalTallyResult := r\<rparr>) (gv_proposals t),
      kv_del (pp_VotingEndTime p, ?k) (gv_active t), gv_inactive t, gv_waiting t, gv_deposits t,
      filter (\<lambda>e. fst (fst e) \<noteq> ?k) (gv_votes t))" "gv_bank s' = gv_bank t"
    by (simp_all add: s'' SetProposal_def RemoveFromActiveProposalQueue_def gov_core_def q)
  have same: "pp_ID (q\<lparr>pp_FinalTallyResult := r\<rparr>) = pp_ID q" "pp_Status (q\<lparr>pp_FinalTallyResult := r\<rparr>) = pp_Status q"
    "pp_Content (q\<lparr>pp_FinalTallyResult := r\<rparr>) = pp_Content q" by simp_all
  note d = decide_keeps [OF laws ok p(1,3) refl refl st t same core]
  show "gov_keeps S s s'" by (rule d(1))
  show "\<exists>r. gv_proposals s' = kv_set (ProposalKey i) r (gv_proposals s) \<and> decided_status (pp_Status r)"
    using d(2,3) by blast
qed

subsection \<open>Changes of parameters that waited\<close>

lemma handled_ok:
  assumes ok: "gov_ok S s" and p: "map_of (gv_proposals s) (ProposalKey (pp_ID p)) = Some p" "pp_Status p = StatusPassed"
    and h: "handled S p s s'"
  shows "gov_keeps S s s'"
proof -
  note o = gov_okD [OF ok]
  let ?k = "ProposalKey (pp_ID p)"
  note f = h [unfolded handled_def]
  have at_k: "map_of (gv_active s) (x, ?k) = None" for x using queue_at [OF o(2), of x ?k] p by simp
  have act: "map_of (gv_active s') = map_of (gv_active s)" "kv_ok (gv_active s')"
    using f o(2) at_k by (auto simp: queues_after_def queue_ok_def kv_ok_del)
  have "queue_ok (gv_active s') (gv_proposals s') StatusVotingPeriod pp_VotingEndTime"
    by (rule queue_ok_change [OF o(2) act(2), of ?k]) (use f p at_k in \<open>simp_all add: act(1)\<close>)
  moreover have "waiting_ok (gv_waiting s') (gv_proposals s')"
    using f o(4) waiting_ok_insert [OF o(4) p] waiting_ok_del [OF o(4)] by (auto simp: queues_after_def)
  ultimately have "gov_ok S s'" using o f by (simp add: gov_ok_def)
  with f handled_gap [OF h] show ?thesis by (simp add: gov_keeps_def keeps_decided_def)
qed

lemma wait_step_keeps:
  assumes laws: "gov_laws S G" and ok: "gov_ok S s"
    and p: "GetProposal s i = Some p" "pp_ID p = i" "pp_Status p = StatusPassed" and h: "wait_step S G e i s = Some s'"
  shows "gov_keeps S s s'" and "gv_proposals s' = gv_proposals s"
proof -
  consider "s' = s" | "handled S p s s'"
    using h p(1) proposal_handler_handled [OF laws] by (auto simp: wait_step_def run_proposal_Some split: sum.splits)
  then have "gov_keeps S s s' \<and> gv_proposals s' = gv_proposals s"
  proof cases
    case 1
    then show ?thesis using gov_keeps_refl [OF ok] by simp
  next
    case 2
    then show ?thesis using handled_ok [OF ok _ p(3) 2] p(1,2) by (simp add: GetProposal_def handled_def)
  qed
  then show "gov_keeps S s s'" "gv_proposals s' = gv_proposals s" by simp_all
qed

lemma waiting_entry:
  assumes ok: "gov_ok S s" and i: "i \<in> set (queue_upto h (gv_waiting s))"
  shows "\<exists>p. GetProposal s i = Some p \<and> pp_ID p = i \<and> pp_Status p = StatusPassed"
proof -
  note o = gov_okD [OF ok]
  from i obtain e where e: "e \<in> set (gv_waiting s)" "i = le_value (snd (fst e))" by (auto simp: queue_upto_def)
  have "map_of (gv_waiting s) (fst (fst e), snd (fst e)) = Some (snd e)"
    using kv_ok_entry [OF _ e(1)] o(4) by (simp add: waiting_ok_def)
  then obtain p where p: "map_of (gv_proposals s) (snd (fst e)) = Some p" "pp_Status p = StatusPassed"
    using o(4) unfolding waiting_ok_def by blast
  from ids_ok_get [OF o(1) p(1)] p e(2) show ?thesis
    using le_value_ProposalKey [of "pp_ID p"] by (auto simp: GetProposal_def)
qed

lemma waiting_keeps:
  assumes laws: "gov_laws S G" and ok: "gov_ok S s" and h: "handleWaitingProposals S G e s = Some s'"
  shows "gov_keeps S s s'"
proof -
  have "gov_keeps S s s' \<and> gv_proposals s' = gv_proposals s"
  proof (rule ofold_invariant [OF h [unfolded handleWaitingProposals_def], where P = "\<lambda>t. gov_keeps S s t \<and> gv_proposals t = gv_proposals s"])
    show "gov_keeps S s s \<and> gv_proposals s = gv_proposals s" using gov_keeps_refl [OF ok] by simp
  next
    fix i t t'
    assume i: "i \<in> set (queue_upto (e_Height e) (gv_waiting s))" and t: "gov_keeps S s t \<and> gv_proposals t = gv_proposals s"
      and h: "wait_step S G e i t = Some t'"
    from waiting_entry [OF ok i] t obtain p where p: "GetProposal t i = Some p" "pp_ID p = i" "pp_Status p = StatusPassed"
      by (auto simp: GetProposal_def)
    from wait_step_keeps [OF laws _ p h] t show "gov_keeps S s t' \<and> gv_proposals t' = gv_proposals s"
      by (metis gov_keeps_def gov_keeps_trans)
  qed
  then show ?thesis by simp
qed

subsection \<open>The whole block\<close>

lemma EndBlocker_keeps:
  assumes laws: "gov_laws S G" "env_ok S e" and ok: "gov_ok S s" and h: "gov_EndBlocker S G e s = Some s'"
  shows "gov_keeps S s s'" and "due StatusDepositPeriod pp_DepositEndTime (e_Time e) s' = {}"
    and "due StatusVotingPeriod pp_VotingEndTime (e_Time e) s' = {}"
proof -
  let ?now = "e_Time e"
  let ?in = "due StatusDepositPeriod pp_DepositEndTime ?now" and ?act = "due StatusVotingPeriod pp_VotingEndTime ?now"
  from h obtain t u where t: "handleWaitingProposals S G e s = Some t" and u: "handleInActiveProposals G e t = Some u"
    and v: "handleActiveProposals S G e u = Some s'" by (auto simp: gov_EndBlocker_def split: option.splits)
  have k1: "gov_keeps S s t" by (rule waiting_keeps [OF laws(1) ok t])
  then have okt: "gov_ok S t" by (simp add: gov_keeps_def)
  have k2: "gov_keeps S t u \<and> ?in u = {}"
  proof (rule ofold_worklist [where P = "gov_keeps S t" and D = ?in])
    show "ofold (inactive_step G e) (queue_upto ?now (gv_inactive t)) t = Some u" using u by (simp add: handleInActiveProposals_def)
    show "gov_keeps S t t" by (rule gov_keeps_refl [OF okt])
    show "set (queue_upto ?now (gv_inactive t)) = ?in t" "distinct (queue_upto ?now (gv_inactive t))"
      by (rule queue_upto_due [OF gov_okD(3,1) [OF okt]])+
  next
    fix i x x' assume x: "gov_keeps S t x" "i \<in> ?in x" "inactive_step G e i x = Some x'"
    then have okx: "gov_ok S x" by (simp add: gov_keeps_def)
    note k = inactive_step_keeps [OF laws okx x(2,3)]
    have "?in x' = ?in x - {i}"
      by (rule due_change(1) [OF okx x(2), where st' = StatusDepositPeriod]) (simp_all add: k(2) open_status_def)
    with gov_keeps_trans [OF x(1) k(1)] show "gov_keeps S t x' \<and> ?in x' = ?in x - {i}" by blast
  qed
  then have oku: "gov_ok S u" by (simp add: gov_keeps_def)
  have k3: "(gov_keeps S u s' \<and> ?in s' = {}) \<and> ?act s' = {}"
  proof (rule ofold_worklist [where P = "\<lambda>x. gov_keeps S u x \<and> ?in x = {}" and D = ?act])
    show "ofold (active_step S G e) (queue_upto ?now (gv_active u)) u = Some s'" using v by (simp add: handleActiveProposals_def)
    show "gov_keeps S u u \<and> ?in u = {}" using gov_keeps_refl [OF oku] k2 by blast
    show "set (queue_upto ?now (gv_active u)) = ?act u" "distinct (queue_upto ?now (gv_active u))"
      by (rule queue_upto_due [OF gov_okD(2,1) [OF oku]])+
  next
    fix i x x' assume x: "gov_keeps S u x \<and> ?in x = {}" "i \<in> ?act x" "active_step S G e i x = Some x'"
    then have okx: "gov_ok S x" by (simp add: gov_keeps_def)
    note k = active_step_keeps [OF laws okx x(2,3)]
    then obtain r where r: "gv_proposals x' = kv_set (ProposalKey i) r (gv_proposals x)" "decided_status (pp_Status r)" by blast
    have "?act x' = ?act x - {i}" "?in x' \<subseteq> ?in x"
      using due_change [OF okx x(2), of x' StatusDepositPeriod] r decided_not_open [OF r(2)] by (auto simp: open_status_def)
    with x(1) gov_keeps_trans [of S u x x'] k(1) show "(gov_keeps S u x' \<and> ?in x' = {}) \<and> ?act x' = ?act x - {i}" by blast
  qed
  show "gov_keeps S s s'" "?in s' = {}" "?act s' = {}"
    using k1 k2 k3 gov_keeps_trans by blast+
qed

end
