(* ===== verification/GovPay.thy ===== *)
theory GovPay
  imports GovEnd
begin

text \<open>
  The end of a block returns: the module account covers the deposits it pays out, and every queue entry has its
  proposal. What this needs of the bank is \<open>gov_pays\<close>: on the states described by the predicate \<open>B\<close>, which transfers
  keep, a module pays whatever it holds.
\<close>

definition gov_pays :: "'b sdk \<Rightarrow> 'b gov_fns \<Rightarrow> ('b \<Rightarrow> bool) \<Rightarrow> bool" where
  "gov_pays S G B \<longleftrightarrow>
     (\<forall>b m a cs. B b \<longrightarrow> coins_pos cs \<longrightarrow> (\<forall>d. amt cs d \<le> bank_bal S b (b_mod_addr S m) d) \<longrightarrow> is_ok (b_mod_to_acc S b m a cs))
     \<and> (\<forall>b m m' cs. B b \<longrightarrow> coins_pos cs \<longrightarrow> (\<forall>d. amt cs d \<le> bank_bal S b (b_mod_addr S m) d) \<longrightarrow> is_ok (g_mod_to_mod G b m m' cs))
     \<and> (\<forall>b m a cs b'. B b \<longrightarrow> b_mod_to_acc S b m a cs = Inr b' \<longrightarrow> B b')
     \<and> (\<forall>b m m' cs b'. B b \<longrightarrow> g_mod_to_mod G b m m' cs = Inr b' \<longrightarrow> B b')
     \<and> (\<forall>s x k v s'. g_update G s x k v = Inr s' \<longrightarrow> staking_ok (gv_staking s) \<longrightarrow> staking_ok (gv_staking s'))"

lemma gov_paysD:
  assumes "gov_pays S G B" and "B b"
  shows "coins_pos cs \<Longrightarrow> \<forall>d. amt cs d \<le> bank_bal S b (b_mod_addr S m) d \<Longrightarrow> \<exists>b'. b_mod_to_acc S b m a cs = Inr b' \<and> B b'"
    and "coins_pos cs \<Longrightarrow> \<forall>d. amt cs d \<le> bank_bal S b (b_mod_addr S m) d \<Longrightarrow> \<exists>b'. g_mod_to_mod G b m m' cs = Inr b' \<and> B b'"
    and "b_mod_to_acc S b m a cs = Inr b' \<Longrightarrow> B b'"
  using assms unfolding gov_pays_def is_ok_iff by metis+

definition solvent :: "'b sdk \<Rightarrow> ('b \<Rightarrow> bool) \<Rightarrow> 'b gov \<Rightarrow> bool" where
  "solvent S B s \<longleftrightarrow> gov_ok S s \<and> (\<forall>d. 0 \<le> gov_gap S s d) \<and> B (gv_bank s) \<and> staking_ok (gv_staking s)"

lemma amt_coins_pos: "coins_pos cs \<Longrightarrow> 0 \<le> amt cs d"
  unfolding coins_pos_def amt_def by (rule sum_list_nonneg) (auto intro: order_less_imp_le)

lemma deposits_covered:
  assumes "deposits_ok S (gv_deposits s) ps" and "\<forall>d. 0 \<le> gov_gap S s d"
  shows "sum_list (map (\<lambda>x. amt (de_Amount x) d) (GetDeposits s n)) \<le> bank_bal S (gv_bank s) (gov_addr S) d"
    and "x \<in> set (GetDeposits s n) \<Longrightarrow> coins_pos (de_Amount x) \<and> de_Depositor x \<noteq> gov_addr S"
proof -
  have pos: "coins_pos (de_Amount (snd e))" if "e \<in> set (gv_deposits s)" for e
    by (rule deposits_owned(3) [OF assms(1) that])
  have "0 \<le> kv_sum (\<lambda>x. amt (de_Amount x) d) (filter (\<lambda>e. fst (fst e) \<noteq> ProposalKey n) (gv_deposits s))"
    using pos by (auto simp: kv_sum_values intro!: sum_list_nonneg amt_coins_pos)
  with assms(2) show "sum_list (map (\<lambda>x. amt (de_Amount x) d) (GetDeposits s n)) \<le> bank_bal S (gv_bank s) (gov_addr S) d"
    unfolding total_without gov_gap_def by (smt (verit))
  show "coins_pos (de_Amount x) \<and> de_Depositor x \<noteq> gov_addr S" if "x \<in> set (GetDeposits s n)"
    using that deposits_owned(2,3) [OF assms(1)] by (auto simp: GetDeposits_def)
qed

lemma RefundDeposits_total:
  assumes "gov_laws S G" and "gov_pays S G B" and "deposits_ok S (gv_deposits s) ps" and "\<forall>d. 0 \<le> gov_gap S s d" and "B (gv_bank s)"
  shows "\<exists>s'. RefundDeposits S n s = Some s' \<and> B (gv_bank s')"
proof -
  note c = deposits_covered [OF assms(3,4)]
  have "\<exists>s'. ofold (\<lambda>d s. case b_mod_to_acc S (gv_bank s) govModule (de_Depositor d) (de_Amount d) of Inl er \<Rightarrow> None
           | Inr b \<Rightarrow> Some (deleteDeposit n (de_Depositor d) (set_gv_bank b s))) (GetDeposits s n) s = Some s' \<and> B (gv_bank s')"
  proof (rule refund.payout_succeeds)
    show "\<exists>b'. b_mod_to_acc S b govModule (de_Depositor d) (de_Amount d) = Inr b' \<and> B b'"
      if "B b" "d \<in> set (GetDeposits s n)" "\<forall>c. amt (de_Amount d) c \<le> bank_bal S b (gov_addr S) c" for b d
      using gov_paysD(1) [OF assms(2) that(1)] c(2) that(2,3) by blast
  qed (use gov_lawsD(2) [OF assms(1)] assms(5) c amt_coins_pos in auto)
  then show ?thesis by (simp add: RefundDeposits_def refund_deposit_def [abs_def])
qed

lemma DistributeDeposits_total:
  assumes "gov_laws S G" and "gov_pays S G B" and "deposits_ok S (gv_deposits s) ps" and "\<forall>d. 0 \<le> gov_gap S s d" and "B (gv_bank s)"
    and "env_ok S e"
  shows "\<exists>s'. DistributeDeposits G e n s = Some s' \<and> B (gv_bank s')"
proof -
  note c = deposits_covered [OF assms(3,4)]
  have "\<exists>s'. ofold (\<lambda>d s. case g_mod_to_mod G (gv_bank s) govModule (e_FeeCollector e) (de_Amount d) of Inl er \<Rightarrow> None
           | Inr b \<Rightarrow> Some (deleteDeposit n (de_Depositor d) (set_gv_bank b s))) (GetDeposits s n) s = Some s' \<and> B (gv_bank s')"
  proof (rule distribution.payout_succeeds)
    show "\<exists>b'. g_mod_to_mod G b govModule (e_FeeCollector e) (de_Amount d) = Inr b' \<and> B b'"
      if "B b" "d \<in> set (GetDeposits s n)" "\<forall>c. amt (de_Amount d) c \<le> bank_bal S b (gov_addr S) c" for b d
      using gov_paysD(2) [OF assms(2) that(1)] c(2) that(2,3) by blast
  qed (use assms c amt_coins_pos in \<open>auto simp: env_ok_def\<close>)
  then show ?thesis by (simp add: DistributeDeposits_def distribute_deposit_def [abs_def])
qed

lemma changeParams_staking:
  assumes "gov_pays S G B"
  shows "changeParams G cs s = Inr s' \<Longrightarrow> staking_ok (gv_staking s) \<Longrightarrow> staking_ok (gv_staking s')"
proof (induction cs arbitrary: s)
  case (Cons c cs)
  then obtain s1 where s1: "g_update G s (ch_Subspace c) (ch_Key c) (ch_Value c) = Inr s1" "changeParams G cs s1 = Inr s'"
    by (auto split: if_splits sum.splits)
  then have "staking_ok (gv_staking s1)" using assms Cons.prems(2) unfolding gov_pays_def by blast
  with Cons.IH [OF s1(2)] show ?case .
qed simp

lemma handler_staking:
  assumes "gov_pays S G B" and "proposal_handler S G e p (pp_Content p) s = Inr s'" and "staking_ok (gv_staking s)"
  shows "staking_ok (gv_staking s')"
proof (cases "pp_Content p")
  case (ParameterChangeProposal t d cs h)
  with assms(2) changeParams_staking [OF assms(1), of cs s] assms(3) show ?thesis
    by (auto simp: handleParameterChangeProposal_def InsertWaitingProposalQueue_def RemoveFromWaitingProposalQueue_def rbind_Inr_iff split: if_splits)
next
  case (CommunityPoolSpendProposal t d r cs)
  with assms(2,3) show ?thesis
    by (auto simp: HandleCommunityPoolSpendProposal_def split: if_splits prod.splits sum.splits)
next
  case (DelistProposal t d q)
  with assms(2,3) show ?thesis by (auto simp: run_delist_def RemoveFromActiveProposalQueue_def split: sum.splits)
next
  case (ManageWhiteListProposal t d w)
  with assms(2,3) show ?thesis by (auto simp: run_white_list_def split: sum.splits)
qed (use assms(2,3) in simp_all)

lemma handler_bank:
  assumes "gov_laws S G" and "gov_pays S G B" and "proposal_handler S G e p (pp_Content p) s = Inr s'" and "B (gv_bank s)"
  shows "B (gv_bank s')"
  using proposal_handler_handled [OF assms(1,3)] gov_paysD(3) [OF assms(2,4)] assms(4) unfolding handled_def by metis

lemma rejected_staking: "gv_staking (gov_RejectedHandler c s) = gv_staking s"
  by (cases c) simp_all

lemma AfterTally_total:
  assumes laws: "gov_laws S G" "gov_pays S G B" "env_ok S e" and s: "solvent S B s"
  shows "\<exists>p' s'. handleProposalAfterTally S G e p distribute status s = Some (p', s') \<and> B (gv_bank s') \<and> staking_ok (gv_staking s')"
proof -
  have ds: "deposits_ok S (gv_deposits s) (gv_proposals s)" "\<forall>d. 0 \<le> gov_gap S s d" "B (gv_bank s)" "staking_ok (gv_staking s)"
    using s by (simp_all add: solvent_def gov_okD)
  obtain t where t: "(if distribute then DistributeDeposits G e (pp_ID p) s else RefundDeposits S (pp_ID p) s) = Some t" "B (gv_bank t)"
    using RefundDeposits_total [OF laws(1,2) ds(1-3)] DistributeDeposits_total [OF laws(1,2) ds(1-3) laws(3)] by (cases distribute) auto
  have "cleared S (pp_ID p) s t"
    using t(1) DistributeDeposits_spec [OF laws(1) ds(1) laws(3)] RefundDeposits_spec [OF gov_lawsD(2) [OF laws(1)] ds(1)]
    by (auto split: if_splits)
  then have st: "staking_ok (gv_staking t)" using cleared_frame(9) ds(4) by metis
  show ?thesis
    using t st handler_staking [OF laws(2) _ st] handler_bank [OF laws(1,2) _ t(2)]
    by (auto simp: handleProposalAfterTally_def run_proposal_Some rejected_staking split: sum.splits)
qed

lemma solvent_keeps: "solvent S B s \<Longrightarrow> gov_keeps S s s' \<Longrightarrow> B (gv_bank s') \<Longrightarrow> staking_ok (gv_staking s') \<Longrightarrow> solvent S B s'"
  by (simp add: solvent_def gov_keeps_def)

lemma DeleteVotes_frame: "gv_bank (DeleteVotes n s) = gv_bank s" "gv_staking (DeleteVotes n s) = gv_staking s"
  by (simp_all add: DeleteVotes_def fold_deleteVote)

lemma active_step_total:
  assumes laws: "gov_laws S G" "gov_pays S G B" "env_ok S e" and s: "solvent S B s" and i: "i \<in> due StatusVotingPeriod pp_VotingEndTime now s"
  shows "\<exists>s'. active_step S G e i s = Some s' \<and> solvent S B s' \<and> due StatusVotingPeriod pp_VotingEndTime now s' = due StatusVotingPeriod pp_VotingEndTime now s - {i}"
proof -
  have ok: "gov_ok S s" "staking_ok (gv_staking s)" using s by (simp_all add: solvent_def)
  from i obtain p where p: "GetProposal s i = Some p" by (auto simp: due_def)
  obtain status distribute r where r: "Tally S s p True = Some (status, distribute, r)"
    by (rule Tally_ok [OF ok(2) gov_okD(6) [OF ok(1)]]) blast
  from AfterTally_total [OF laws s, of p distribute status] obtain q t where
    t: "handleProposalAfterTally S G e p distribute status s = Some (q, t)" "B (gv_bank t)" "staking_ok (gv_staking t)" by blast
  define s' where "s' = DeleteVotes (pp_ID q) (RemoveFromActiveProposalQueue (pp_ID q) (pp_VotingEndTime q)
       (SetProposal (q\<lparr>pp_FinalTallyResult := r\<rparr>) t))"
  have h: "active_step S G e i s = Some s'" by (simp add: active_step_def p r t(1) Let_def s'_def)
  have b: "B (gv_bank s')" "staking_ok (gv_staking s')"
    using t(2,3) by (simp_all add: s'_def DeleteVotes_frame RemoveFromActiveProposalQueue_def SetProposal_def)
  note k = active_step_keeps [OF laws(1,3) ok(1) i h]
  then obtain u where u: "gv_proposals s' = kv_set (ProposalKey i) u (gv_proposals s)" "decided_status (pp_Status u)" by blast
  have "due StatusVotingPeriod pp_VotingEndTime now s' = due StatusVotingPeriod pp_VotingEndTime now s - {i}"
    by (rule due_change(1) [OF ok(1) i, where st' = StatusVotingPeriod])
      (use u decided_not_open [OF u(2)] in \<open>auto simp: open_status_def\<close>)
  with h solvent_keeps [OF s k(1) b] show ?thesis by blast
qed

lemma inactive_step_total:
  assumes laws: "gov_laws S G" "gov_pays S G B" "env_ok S e" and s: "solvent S B s" and i: "i \<in> due StatusDepositPeriod pp_DepositEndTime now s"
  shows "\<exists>s'. inactive_step G e i s = Some s' \<and> solvent S B s' \<and> due StatusDepositPeriod pp_DepositEndTime now s' = due StatusDepositPeriod pp_DepositEndTime now s - {i}"
proof -
  have ok: "gov_ok S s" "staking_ok (gv_staking s)" "B (gv_bank s)" "\<forall>d. 0 \<le> gov_gap S s d" using s by (simp_all add: solvent_def)
  from i obtain p where p: "map_of (gv_proposals s) (ProposalKey i) = Some p" "pp_ID p = i" by (auto simp: due_def GetProposal_def)
  define t where "t = s\<lparr>gv_inactive := kv_del (pp_DepositEndTime p, ProposalKey i) (gv_inactive s),
      gv_active := kv_del (pp_VotingEndTime p, ProposalKey i) (gv_active s), gv_proposals := kv_del (ProposalKey i) (gv_proposals s)\<rparr>"
  have "deposits_ok S (gv_deposits t) (gv_proposals s)" "\<forall>d. 0 \<le> gov_gap S t d" "B (gv_bank t)"
    using ok gov_okD(5) [OF ok(1)] by (simp_all add: t_def gov_gap_def gov_total_def)
  note d = this DistributeDeposits_total [OF laws(1,2) this laws(3), of i]
  then obtain s' where s': "DistributeDeposits G e i t = Some s'" "B (gv_bank s')" by blast
  have h: "inactive_step G e i s = Some s'"
    using s'(1) p by (simp add: inactive_step_def DeleteProposal_def GetProposal_def Let_def t_def
        RemoveFromInactiveProposalQueue_def RemoveFromActiveProposalQueue_def)
  have "cleared S i t s'" using DistributeDeposits_spec [OF laws(1) d(1) laws(3) s'(1)] by blast
  then have st: "staking_ok (gv_staking s')" using cleared_frame(9) [of S i t s'] ok(2) by (simp add: t_def)
  note k = inactive_step_keeps [OF laws(1,3) ok(1) i h]
  have "due StatusDepositPeriod pp_DepositEndTime now s' = due StatusDepositPeriod pp_DepositEndTime now s - {i}"
    by (rule due_change(1) [OF ok(1) i, where st' = StatusVotingPeriod]) (simp_all add: k(2) open_status_def)
  with h solvent_keeps [OF s k(1) s'(2) st] show ?thesis by blast
qed

lemma waiting_total:
  assumes laws: "gov_laws S G" "gov_pays S G B" and s: "solvent S B s"
  shows "\<exists>s'. handleWaitingProposals S G e s = Some s' \<and> solvent S B s'"
proof -
  have ok: "gov_ok S s" using s by (simp add: solvent_def)
  have "\<exists>s'. ofold (wait_step S G e) is t = Some s' \<and> solvent S B s'"
    if "set is \<subseteq> set (queue_upto (e_Height e) (gv_waiting s))" "solvent S B t" "gv_proposals t = gv_proposals s" for "is" t
    using that
  proof (induction "is" arbitrary: t)
    case (Cons i "is")
    have okt: "gov_ok S t" "B (gv_bank t)" "staking_ok (gv_staking t)" using Cons.prems(2) by (simp_all add: solvent_def)
    from waiting_entry [OF ok, of i "e_Height e"] Cons.prems(1,3) obtain p where
      p: "GetProposal t i = Some p" "pp_ID p = i" "pp_Status p = StatusPassed" by (auto simp: GetProposal_def)
    obtain t' where h: "wait_step S G e i t = Some t'" and b: "B (gv_bank t')" "staking_ok (gv_staking t')"
      using p(1) okt handler_staking [OF laws(2) _ okt(3)] handler_bank [OF laws _ okt(2)]
      by (cases "proposal_handler S G e p (pp_Content p) t") (auto simp: wait_step_def run_proposal_Some)
    note k = wait_step_keeps [OF laws(1) okt(1) p h]
    from solvent_keeps [OF Cons.prems(2) k(1) b] Cons.IH [of t'] Cons.prems(1,3) k(2) h show ?case by simp
  qed simp
  from this [OF subset_refl s refl] show ?thesis by (simp add: handleWaitingProposals_def)
qed

lemma EndBlocker_total:
  assumes laws: "gov_laws S G" "gov_pays S G B" "env_ok S e" and s: "solvent S B s"
  shows "\<exists>s'. gov_EndBlocker S G e s = Some s'"
proof -
  let ?now = "e_Time e"
  let ?in = "due StatusDepositPeriod pp_DepositEndTime ?now" and ?act = "due StatusVotingPeriod pp_VotingEndTime ?now"
  obtain t where t: "handleWaitingProposals S G e s = Some t" "solvent S B t" using waiting_total [OF laws(1,2) s] by blast
  then have okt: "gov_ok S t" by (simp add: solvent_def)
  have "\<exists>u. ofold (inactive_step G e) (queue_upto ?now (gv_inactive t)) t = Some u \<and> solvent S B u"
    by (rule ofold_worklist_total [where D = ?in, OF inactive_step_total [OF laws] t(2) queue_upto_due [OF gov_okD(3,1) [OF okt]]])
  then obtain u where u: "handleInActiveProposals G e t = Some u" "solvent S B u" by (auto simp: handleInActiveProposals_def)
  then have oku: "gov_ok S u" by (simp add: solvent_def)
  have "\<exists>v. ofold (active_step S G e) (queue_upto ?now (gv_active u)) u = Some v \<and> solvent S B v"
    by (rule ofold_worklist_total [where D = ?act, OF active_step_total [OF laws] u(2) queue_upto_due [OF gov_okD(2,1) [OF oku]]])
  then show ?thesis by (auto simp: gov_EndBlocker_def t(1) u(1) handleActiveProposals_def)
qed

end
