(* ===== verification/GovMarket.thy ===== *)
theory GovMarket
  imports GovPay OrderHandler
begin

text \<open>
  Governance as a state machine: messages, ends of blocks and steps of other modules (\<open>gov_step\<close>, an interpretation of
  the locale \<open>conserving_steps\<close>), and the properties of the module.
\<close>

subsection \<open>Steps\<close>

fun gov_signer :: "gov_msg \<Rightarrow> addr" where
  "gov_signer (MsgSubmitProposal c cs a) = a"
| "gov_signer (GovMsgDeposit i a cs) = a"
| "gov_signer (MsgVote i a opt) = a"

text \<open>The next id does not wrap around, the signer is not the module account (which has no key), and another module
  neither writes the governance store nor moves coins of the module account.\<close>

inductive gov_step :: "'b sdk \<Rightarrow> 'b gov_fns \<Rightarrow> 'b gov \<Rightarrow> 'b gov \<Rightarrow> bool" for S G where
  message: "gov_ValidateBasic S G m = None \<Longrightarrow> gov_signer m \<noteq> gov_addr S \<Longrightarrow> env_ok S e \<Longrightarrow>
    (\<And>n. gv_nextID s = Some n \<Longrightarrow> n + 1 < 2 ^ 64) \<Longrightarrow> gov_handler S G e m s = Inr s' \<Longrightarrow> gov_step S G s s'"
| failed: "gov_handler S G e m s = Inl er \<Longrightarrow> gov_step S G s s"
| end_block: "env_ok S e \<Longrightarrow> gov_EndBlocker S G e s = Some s' \<Longrightarrow> gov_step S G s s'"
| other: "gov_core s' = gov_core s \<Longrightarrow> (\<And>d. bank_bal S (gv_bank s') (gov_addr S) d = bank_bal S (gv_bank s) (gov_addr S) d)
    \<Longrightarrow> gov_step S G s s'"

lemma gov_handler_keeps:
  assumes laws: "gov_laws S G" "env_ok S e" and ok: "gov_ok S s" and a: "gov_signer m \<noteq> gov_addr S"
    and n: "\<And>n. gv_nextID s = Some n \<Longrightarrow> n + 1 < 2 ^ 64" and h: "gov_handler S G e m s = Inr s'"
  shows "gov_keeps S s s'"
proof (cases m)
  case (MsgSubmitProposal c cs a')
  obtain n' where "gv_nextID s = Some n'" using gov_okD(1) [OF ok] by (auto simp: ids_ok_def)
  with MsgSubmitProposal a h handleMsgSubmitProposal_keeps [OF laws(1) ok _ n] show ?thesis by simp
next
  case (GovMsgDeposit i a' cs)
  with a h handleMsgDeposit_keeps [OF laws(1) ok] show ?thesis by simp
next
  case (MsgVote i a' opt)
  with h handleMsgVote_keeps [OF laws ok] show ?thesis by simp
qed

lemma gov_step_keeps:
  assumes "gov_step S G s s'" and "gov_laws S G" and "gov_ok S s"
  shows "gov_keeps S s s'"
  using assms
proof cases
  case (message m e)
  then show ?thesis using gov_handler_keeps [OF assms(2) _ assms(3)] by blast
next
  case (failed e m er)
  then show ?thesis using gov_keeps_refl [OF assms(3)] by simp
next
  case (end_block e)
  then show ?thesis using EndBlocker_keeps(1) [OF assms(2) _ assms(3)] by blast
next
  case other
  then show ?thesis
    using assms(3) gov_ok_core [OF other(1)] by (auto simp: gov_keeps_def keeps_decided_def gov_core_def gov_gap_def gov_total_def)
qed

interpretation gov_machine: conserving_steps "gov_step S G" "\<lambda>s. gov_laws S G \<and> gov_ok S s" "gov_gap S" for S G
  by unfold_locales (auto dest!: gov_step_keeps simp: gov_keeps_def fun_eq_iff)

lemma gov_run_decided:
  assumes "(gov_step S G)\<^sup>*\<^sup>* s s'" and "gov_laws S G" and "gov_ok S s"
  shows "keeps_decided s s'"
  using assms(1)
proof (induction rule: rtranclp_induct)
  case (step t u)
  have "gov_ok S t" using gov_machine.reachable [OF step(1)] assms(2,3) by blast
  from gov_step_keeps [OF step(2) assms(2) this] step(3) show ?case by (auto simp: gov_keeps_def keeps_decided_def)
qed (simp add: keeps_decided_def)

lemma module_account_gap:
  assumes "sdk_laws S" and "gov_ok S s"
  shows "gov_ModuleAccountInvariant S s d \<longleftrightarrow> gov_gap S s d = 0"
proof -
  have "coins_ok (de_Amount x)" if "x \<in> set (GetAllDeposits s)" for x
    using that deposits_owned(3) [OF gov_okD(5) [OF assms(2)]] by (auto simp: GetAllDeposits_def coins_pos_def)
  from coins_fold(2) [OF assms(1), of "GetAllDeposits s" de_Amount "[]" d, OF this]
  show ?thesis by (simp add: gov_ModuleAccountInvariant_def gov_gap_def gov_total_def kv_sum_values GetAllDeposits_def)
qed

subsection \<open>A concrete state\<close>

text \<open>The reference bank with checked coin lists, the module account of governance blacklisted; \<open>Update\<close> knows the voting
  period of governance only.\<close>

definition gov_sdk :: "ref_bank sdk" where
  "gov_sdk = ref_sdk\<lparr>c_valid := (\<lambda>cs. coins_ok cs \<and> list_all (\<lambda>c. 0 < snd c) cs), b_blacklisted := (\<lambda>a. a = rb_mod govModule)\<rparr>"

definition gov_ref_fns :: "ref_bank gov_fns" where
  "gov_ref_fns = \<lparr>g_all_gte = (\<lambda>a b. list_all (\<lambda>(d, x). x \<le> amt a d) b), g_tenth = map (\<lambda>(d, x). (d, x div 10)),
     g_mod_to_mod = (\<lambda>b m m' cs. rb_move b (rb_mod m) (rb_mod m') cs), g_validate_changes = (\<lambda>cs. None),
     g_has_subspace = (\<lambda>x. x = ''gov''),
     g_update = (\<lambda>s x k v. if k = ''votingparams'' then Inr (s\<lparr>gv_VotingPeriod := int (length v)\<rparr>) else Inl ''unknown key'')\<rparr>"

lemma merge_coins_pos: "\<forall>c\<in>set as. 0 < snd c \<Longrightarrow> \<forall>c\<in>set bs. 0 < snd c \<Longrightarrow> \<forall>c\<in>set (merge_coins as bs). 0 < snd c"
  by (induction as bs rule: merge_coins.induct) auto

lemma gov_sdk_laws: "sdk_laws gov_sdk"
  using ref_sdk_laws by (simp add: gov_sdk_def sdk_laws_def dec_laws_def coins_laws_def bank_laws_def moves_def bank_bal_def)

lemma gov_sdk_bal: "bank_bal gov_sdk b a d = amt (rb_get b a) d" "b_mod_addr gov_sdk m = rb_mod m"
  by (simp_all add: gov_sdk_def bank_bal_def ref_sdk_def)

lemma gov_ref_laws: "gov_laws gov_sdk gov_ref_fns"
proof -
  have mv: "moves gov_sdk b src dst cs b'" if "rb_move b src dst cs = Inr b'" for b src dst cs b'
    using ref_moves [OF that] by (simp add: moves_def bank_bal_def gov_sdk_def)
  show ?thesis
    unfolding gov_laws_def
  proof (intro conjI allI impI)
    show "moves gov_sdk b (b_mod_addr gov_sdk m) (b_mod_addr gov_sdk m') cs b'"
      if "g_mod_to_mod gov_ref_fns b m m' cs = Inr b'" for b m m' cs b'
      using that mv by (simp add: gov_ref_fns_def gov_sdk_bal)
    show "coins_pos (c_add2 gov_sdk a b)" if "coins_pos a" "coins_pos b" for a b
      using that merge_coins_pos [of a b] coins_ok_merge [of a b] by (simp add: coins_pos_def gov_sdk_def ref_sdk_def)
  qed (simp_all add: gov_sdk_laws, auto simp: gov_sdk_def ref_sdk_def coins_pos_def list_all_iff rb_mod_def distrModule_def govModule_def
      gov_ref_fns_def gov_core_def split: if_splits)
qed

definition ref_bank_ok :: "ref_bank \<Rightarrow> bool" where
  "ref_bank_ok b \<longleftrightarrow> list_all (\<lambda>e. coins_ok (snd e)) (rb_bal b)"

lemma ref_bank_get: "ref_bank_ok b \<Longrightarrow> coins_ok (rb_get b a)"
  by (auto simp: ref_bank_ok_def rb_get_def list_all_iff split: option.splits dest!: map_of_SomeD)

lemma ref_bank_add: "ref_bank_ok b \<Longrightarrow> coins_ok cs \<Longrightarrow> ref_bank_ok (rb_add a cs b)"
  using kv_vals_set [of "rb_bal b" coins_ok "merge_coins (rb_get b a) cs" a] coins_ok_merge [OF ref_bank_get]
  by (simp add: ref_bank_ok_def rb_add_def rb_put_def list_all_iff)

lemma ref_bank_move:
  assumes "ref_bank_ok b"
  shows "rb_move b src dst cs = Inr b' \<Longrightarrow> ref_bank_ok b'"
    and "coins_pos cs \<Longrightarrow> \<forall>d. amt cs d \<le> amt (rb_get b src) d \<Longrightarrow> is_ok (rb_move b src dst cs)"
proof -
  show "rb_move b src dst cs = Inr b' \<Longrightarrow> ref_bank_ok b'"
    using assms by (auto simp: rb_move_def rb_pays_def ref_bank_add split: if_splits)
  assume cs: "coins_pos cs" and le: "\<forall>d. amt cs d \<le> amt (rb_get b src) d"
  have "coins_ok (merge_coins (rb_get b src) (neg_coins cs))"
    using cs ref_bank_get [OF assms] by (simp add: coins_ok_merge coins_pos_def)
  from some_negative [OF this] le have "\<not> list_ex (\<lambda>c. snd c < 0) (merge_coins (rb_get b src) (neg_coins cs))"
    by (simp add: amt_merge_coins not_less)
  with cs show "is_ok (rb_move b src dst cs)" by (simp add: rb_move_def rb_pays_def coins_pos_def list_all_iff)
qed

lemma gov_ref_pays: "gov_pays gov_sdk gov_ref_fns ref_bank_ok"
proof -
  have eq: "b_mod_to_acc gov_sdk b m a cs = rb_move b (rb_mod m) a cs" "g_mod_to_mod gov_ref_fns b m m' cs = rb_move b (rb_mod m) (rb_mod m') cs"
    for b m a cs m' by (simp_all add: gov_sdk_def ref_sdk_def gov_ref_fns_def)
  show ?thesis
    unfolding gov_pays_def eq gov_sdk_bal using ref_bank_move
    by (auto simp: gov_ref_fns_def split: if_splits)
qed

lemma gov_quo_laws: "quo_laws gov_sdk"
  unfolding quo_laws_def
proof (intro conjI allI impI)
  fix a b :: int
  assume b: "0 < b"
  have part: "x div b * b \<le> x" for x using b pos_mod_sign [of b x] by (simp add: minus_mod_eq_div_mult [symmetric])
  have "(a * 100 div b + (b - a) * 100 div b) * b \<le> 100 * b"
    using part [of "a * 100"] part [of "(b - a) * 100"] by (simp add: algebra_simps)
  then have "a * 100 div b + (b - a) * 100 div b \<le> 100" using b by (simp only: mult_le_cancel_right_pos)
  then show "d_quo gov_sdk a b + d_quo gov_sdk (b - a) b \<le> d_unit gov_sdk" by (simp add: gov_sdk_def ref_sdk_def)
qed (auto simp: gov_sdk_def ref_sdk_def intro!: zdiv_mono1 zdiv_mono2)

text \<open>One proposal with the id 1, its votes and its deposits, on a chain; two validators and a delegator of the first.\<close>

definition demo_proposal :: "content \<Rightarrow> proposal_status \<Rightarrow> proposal" where
  "demo_proposal c st = \<lparr>pp_Content = c, pp_ID = 1, pp_Status = st, pp_FinalTallyResult = EmptyTallyResult 100, pp_SubmitTime = 1,
     pp_DepositEndTime = 3, pp_TotalDeposit = [(''okt'', 30)], pp_VotingStartTime = 3, pp_VotingEndTime = 10\<rparr>"

definition demo_deposit :: deposit where
  "demo_deposit = \<lparr>de_ProposalID = 1, de_Depositor = ''al'', de_Amount = [(''okt'', 30)]\<rparr>"

definition demo_vote :: "addr \<Rightarrow> vote_option \<Rightarrow> (string \<times> addr) \<times> vote" where
  "demo_vote a opt = ((ProposalKey 1, a), \<lparr>vo_ProposalID = 1, vo_Voter = a, vo_Option = opt\<rparr>)"

definition demo_gov :: "ref_bank chain \<Rightarrow> proposal \<Rightarrow> deposit list \<Rightarrow> ((string \<times> addr) \<times> vote) list \<Rightarrow> ref_bank gov" where
  "demo_gov c p ds vs =
     \<lparr>gv_farm = \<lparr>fm_amm = \<lparr>am_chain = c\<lparr>bank := \<lparr>rb_bal = [(rb_mod govModule, map (\<lambda>d. (''okt'', 30)) ds), (''al'', [(''okt'', 50)])], rb_sup = []\<rparr>\<rparr>,
          am_pairs = [], am_FeeRate = 0, am_notes = []\<rparr>, fm_pools = [], fm_locks = [], fm_members = [], fm_white = [],
        fm_hist = [], fm_cur = [], fm_params = \<lparr>fpa_QuoteSymbol = ''okt'', fpa_CreatePoolFee = (''okt'', 0),
          fpa_CreatePoolDeposit = (''okt'', 10), fpa_YieldNativeToken = True\<rparr>, fm_notes = []\<rparr>,
      gv_staking = \<lparr>sv_Bonded = [(''v1'', 60), (''v2'', 40)], sv_Delegators = [(''dd'', ([''v1''], 20))]\<rparr>,
      gv_CommunityPool = [], gv_DepositParams = \<lparr>dpa_MinDeposit = [(''okt'', 30)], dpa_MaxDepositPeriod = 2\<rparr>,
      gv_VotingPeriod = 7, gv_TallyParams = \<lparr>tpa_Quorum = 34, tpa_Threshold = 50, tpa_Veto = 34, tpa_YesInVotePeriod = 67\<rparr>,
      gv_ChangeParams = \<lparr>cpa_MaxDepositPeriod = 2, cpa_MinDeposit = [(''okt'', 30)], cpa_VotingPeriod = 7, cpa_MaxBlockHeight = 100\<rparr>,
      gv_nextID = Some 2, gv_proposals = [(ProposalKey 1, p)],
      gv_active = (if pp_Status p = StatusVotingPeriod then [((10, ProposalKey 1), 1)] else []), gv_inactive = [], gv_waiting = [],
      gv_deposits = map (\<lambda>d. ((ProposalKey 1, ''al''), d)) ds, gv_votes = vs\<rparr>"

lemma demo_gov_ok:
  assumes "p = demo_proposal c st" and "st = StatusVotingPeriod \<and> ds = [demo_deposit] \<or> st = StatusPassed \<and> ds = [] \<and> vs = []"
    and "kv_ok vs" and "\<forall>v\<in>set vs. \<exists>a opt. v = demo_vote a opt \<and> ValidVoteOption opt"
  shows "gov_ok gov_sdk (demo_gov ch p ds vs)"
proof -
  have v: "vo_Voter x = a \<and> k = ProposalKey (vo_ProposalID x) \<and> ValidVoteOption (vo_Option x) \<and> k = ProposalKey 1"
    if "map_of vs (k, a) = Some x" for k a x
    using assms(4) map_of_SomeD [OF that] by (auto simp: demo_vote_def)
  then have "votes_ok vs [(ProposalKey 1, p)]"
    using assms(1-3) by (auto simp: votes_ok_def demo_proposal_def)
  with assms(1,2) show ?thesis
    by (auto simp: gov_ok_def demo_gov_def ids_ok_def queue_ok_def waiting_ok_def deposits_ok_def kv_ok_def demo_proposal_def
        demo_deposit_def gov_sdk_bal rb_mod_def coins_pos_def open_status_def split: if_splits)
qed

lemma demo_gov_gap: "ds = [demo_deposit] \<or> ds = [] \<Longrightarrow> gov_gap gov_sdk (demo_gov ch p ds vs) d = 0"
  by (auto simp: gov_gap_def gov_total_def gov_sdk_bal demo_gov_def rb_get_def kv_sum_def demo_deposit_def)

lemma demo_gov_staking: "staking_ok (gv_staking (demo_gov ch p ds vs))"
  by (simp add: staking_ok_def demo_gov_def kv_ok_def kv_sum_def)

lemma demo_gov_bank: "ds = [demo_deposit] \<or> ds = [] \<Longrightarrow> ref_bank_ok (gv_bank (demo_gov ch p ds vs))"
  by (auto simp: ref_bank_ok_def demo_gov_def)

lemma demo_solvent:
  "gov_ok gov_sdk (demo_gov ch p ds vs) \<Longrightarrow> ds = [demo_deposit] \<or> ds = [] \<Longrightarrow> solvent gov_sdk ref_bank_ok (demo_gov ch p ds vs)"
  using demo_gov_gap demo_gov_staking demo_gov_bank by (auto simp: solvent_def)

definition gov_env :: env where
  "gov_env = \<lparr>e_Height = 5, e_Time = 10, e_TxHash = [], e_TxHashUpper = [], e_CheckTx = False, e_Backend = False, e_FeeCollector = ''fee_collector''\<rparr>"

lemma gov_env_ok: "env_ok gov_sdk gov_env"
  by (simp add: env_ok_def gov_env_def gov_sdk_bal rb_mod_def govModule_def)

definition voting_gov :: "ref_bank gov" where
  "voting_gov = demo_gov demo_chain (demo_proposal (TextProposal ''t'' ''d'') StatusVotingPeriod) [demo_deposit]
     [demo_vote ''dd'' OptionNo, demo_vote ''v1'' OptionYes]"

lemma voting_gov_ok: "gov_ok gov_sdk voting_gov"
  unfolding voting_gov_def
  by (rule demo_gov_ok) (auto simp: kv_ok_def demo_vote_def ValidVoteOption_def)

lemma voting_gov_solvent: "solvent gov_sdk ref_bank_ok voting_gov"
  using demo_solvent voting_gov_ok unfolding voting_gov_def by blast

lemma voting_gov_ends: "\<exists>s'. gov_EndBlocker gov_sdk gov_ref_fns gov_env voting_gov = Some s'"
  by (rule EndBlocker_total [OF gov_ref_laws gov_ref_pays gov_env_ok voting_gov_solvent])

subsection \<open>Properties\<close>

text \<open>
  C13. The registered invariant of the module account survives every run of messages, ends of blocks and steps of other
  modules: the account of governance holds exactly the sum of the stored deposits.
\<close>

theorem gov_account_backed:
  assumes "gov_laws S G" and "gov_ok S s" and "(gov_step S G)\<^sup>*\<^sup>* s s'" and "gov_ModuleAccountInvariant S s d"
  shows "gov_ModuleAccountInvariant S s' d"
proof -
  have "gov_ok S s'" "gov_gap S s' = gov_gap S s" using gov_machine.reachable [OF assms(3)] assms(1,2) by blast+
  with module_account_gap [OF gov_lawsD(1) [OF assms(1)]] assms(2,4) show ?thesis by simp
qed

theorem gov_account_backed_witness:
  "\<exists>s'. (gov_step gov_sdk gov_ref_fns)\<^sup>*\<^sup>* voting_gov s' \<and> s' \<noteq> voting_gov \<and> gov_ModuleAccountInvariant gov_sdk s' ''okt''"
proof -
  obtain s' where h: "gov_EndBlocker gov_sdk gov_ref_fns gov_env voting_gov = Some s'" using voting_gov_ends by blast
  have run: "(gov_step gov_sdk gov_ref_fns)\<^sup>*\<^sup>* voting_gov s'" using gov_step.end_block [OF gov_env_ok h] by blast
  have "gov_ModuleAccountInvariant gov_sdk voting_gov ''okt''"
    using module_account_gap [OF gov_sdk_laws voting_gov_ok] demo_gov_gap by (simp add: voting_gov_def)
  from gov_account_backed [OF gov_ref_laws voting_gov_ok run this] run show ?thesis
  proof (intro exI conjI)
    have "1 \<in> due StatusVotingPeriod pp_VotingEndTime (e_Time gov_env) voting_gov"
      by (simp add: due_def GetProposal_def voting_gov_def demo_gov_def demo_proposal_def gov_env_def)
    with EndBlocker_keeps(3) [OF gov_ref_laws gov_env_ok voting_gov_ok h] show "s' \<noteq> voting_gov" by auto
  qed
qed

text \<open>
  C14. Once a proposal has passed, has been rejected or has failed, no message, no end of a block and no step of another
  module changes it: its status, tally and content are final.
\<close>

theorem decided_proposals_are_final:
  assumes "gov_laws S G" and "gov_ok S s" and "(gov_step S G)\<^sup>*\<^sup>* s s'"
    and "GetProposal s i = Some p" and "pp_Status p \<in> {StatusPassed, StatusRejected, StatusFailed}"
  shows "GetProposal s' i = Some p"
  using gov_run_decided [OF assms(3,1,2)] assms(4,5) by (auto simp: keeps_decided_def GetProposal_def decided_status_def)

theorem decided_proposals_are_final_witness:
  "\<exists>s'. gov_EndBlocker gov_sdk gov_ref_fns gov_env (demo_gov demo_chain (demo_proposal (TextProposal ''t'' ''d'') StatusPassed) [] []) = Some s'
     \<and> GetProposal s' 1 = Some (demo_proposal (TextProposal ''t'' ''d'') StatusPassed)"
proof -
  let ?s = "demo_gov demo_chain (demo_proposal (TextProposal ''t'' ''d'') StatusPassed) [] []"
  have ok: "gov_ok gov_sdk ?s" by (rule demo_gov_ok) (auto simp: kv_ok_def)
  obtain s' where h: "gov_EndBlocker gov_sdk gov_ref_fns gov_env ?s = Some s'"
    using EndBlocker_total [OF gov_ref_laws gov_ref_pays gov_env_ok demo_solvent [OF ok]] by blast
  have "(gov_step gov_sdk gov_ref_fns)\<^sup>*\<^sup>* ?s s'" using gov_step.end_block [OF gov_env_ok h] by blast
  from decided_proposals_are_final [OF gov_ref_laws ok this, of 1] h show ?thesis
    by (auto simp: GetProposal_def demo_gov_def demo_proposal_def)
qed

text \<open>
  C15. Where the bank lets a module pay what it holds, the end of a block returns, and afterwards every proposal that still
  collects deposits or votes has time left: those whose deposit period was over are gone, and those whose voting period
  was over are decided.
\<close>

theorem end_block_settles_expired:
  assumes "gov_laws S G" and "gov_pays S G B" and "env_ok S e" and "gov_ok S s" and "staking_ok (gv_staking s)"
    and "B (gv_bank s)" and "\<forall>d. 0 \<le> gov_gap S s d"
  shows "\<exists>s'. gov_EndBlocker S G e s = Some s' \<and> (\<forall>p\<in>snd ` set (gv_proposals s').
     (pp_Status p = StatusDepositPeriod \<longrightarrow> e_Time e < pp_DepositEndTime p)
     \<and> (pp_Status p = StatusVotingPeriod \<longrightarrow> e_Time e < pp_VotingEndTime p))"
proof -
  have "solvent S B s" using assms(4-7) by (simp add: solvent_def)
  from EndBlocker_total [OF assms(1-3) this] obtain s' where h: "gov_EndBlocker S G e s = Some s'" by blast
  note k = EndBlocker_keeps [OF assms(1,3,4) h]
  from k(1) have "gov_ok S s'" by (simp add: gov_keeps_def)
  note ids = gov_okD(1) [OF this]
  have "(pp_Status p = StatusDepositPeriod \<longrightarrow> e_Time e < pp_DepositEndTime p)
     \<and> (pp_Status p = StatusVotingPeriod \<longrightarrow> e_Time e < pp_VotingEndTime p)" if "p \<in> snd ` set (gv_proposals s')" for p
  proof -
    from that obtain x where "x \<in> set (gv_proposals s')" "p = snd x" by blast
    with kv_ok_entry [of "gv_proposals s'" x] ids have x: "map_of (gv_proposals s') (fst x) = Some p" by (simp add: ids_ok_def)
    then have "GetProposal s' (pp_ID p) = Some p" using ids_ok_get(1) [OF ids x] by (simp add: GetProposal_def)
    with k(2,3) show ?thesis by (auto simp: due_def not_le)
  qed
  with h show ?thesis by blast
qed

theorem end_block_settles_expired_witness:
  "\<exists>s'. gov_EndBlocker gov_sdk gov_ref_fns gov_env voting_gov = Some s'
     \<and> filter (\<lambda>p. pp_Status p = StatusVotingPeriod \<and> pp_VotingEndTime p \<le> 10) (map snd (gv_proposals s')) = []"
proof -
  have t: "e_Time gov_env = 10" by (simp add: gov_env_def)
  show ?thesis
    using end_block_settles_expired [OF gov_ref_laws gov_ref_pays gov_env_ok voting_gov_ok, unfolded t] voting_gov_solvent
    by (fastforce simp: solvent_def filter_empty_conv)
qed

text \<open>
  C16. The tally always returns. Its four results are not negative and add up to the voted power, which never exceeds the
  power of the bonded validators: shares of delegators that vote themselves are taken from their validators.
\<close>

theorem tally_counts_once:
  assumes "gov_ok S s" and "staking_ok (gv_staking s)"
  shows "\<exists>st distribute r. Tally S s p expired = Some (st, distribute, r)
     \<and> tr_Yes r + tr_Abstain r + tr_No r + tr_NoWithVeto r = tr_TotalVotedPower r
     \<and> 0 \<le> tr_Yes r \<and> 0 \<le> tr_Abstain r \<and> 0 \<le> tr_No r \<and> 0 \<le> tr_NoWithVeto r
     \<and> tr_TotalVotedPower r \<le> tr_TotalPower r \<and> tr_TotalPower r = totalPower s"
proof -
  obtain r where "Tally S s p True = Some (fst (tallyStatusExpireVotePeriod S (gv_TallyParams s) r),
        snd (tallyStatusExpireVotePeriod S (gv_TallyParams s) r), r)"
    "Tally S s p False = Some (fst (tallyStatusInVotePeriod S (gv_TallyParams s) r),
        snd (tallyStatusInVotePeriod S (gv_TallyParams s) r), r)"
    "tr_Yes r + tr_Abstain r + tr_No r + tr_NoWithVeto r = tr_TotalVotedPower r"
    "0 \<le> tr_Yes r" "0 \<le> tr_Abstain r" "0 \<le> tr_No r" "0 \<le> tr_NoWithVeto r"
    "tr_TotalVotedPower r \<le> tr_TotalPower r" "tr_TotalPower r = totalPower s"
    by (rule Tally_ok [OF assms(2) gov_okD(6) [OF assms(1)]])
  then show ?thesis by (cases expired) auto
qed

theorem tally_counts_once_witness:
  "\<exists>st distribute r. Tally gov_sdk voting_gov (demo_proposal (TextProposal ''t'' ''d'') StatusVotingPeriod) True = Some (st, distribute, r)
     \<and> tr_TotalVotedPower r \<le> 100"
proof -
  have "totalPower voting_gov = 100" by (simp add: totalPower_def voting_gov_def demo_gov_def)
  with tally_counts_once [OF voting_gov_ok, of "demo_proposal (TextProposal ''t'' ''d'') StatusVotingPeriod" True] demo_gov_staking
  show ?thesis unfolding voting_gov_def by fastforce
qed

text \<open>
  C17. For parameters like the default ones (threshold at least one half, and a majority that ends the vote early
  excludes a veto and reaches quorum and threshold) a vote that ends the voting period early decides as the tally at the
  end of the period would on the same votes.
\<close>

theorem early_decision_stands:
  assumes "quo_laws S" and "tally_params_ok S (gv_TallyParams s)" and "gov_ok S s" and "staking_ok (gv_staking s)"
    and "Tally S s p False = Some (st, distribute, r)" and "st \<noteq> StatusVotingPeriod"
  shows "\<exists>distribute'. Tally S s p True = Some (st, distribute', r)"
proof -
  obtain r' where t: "Tally S s p True = Some (fst (tallyStatusExpireVotePeriod S (gv_TallyParams s) r'),
        snd (tallyStatusExpireVotePeriod S (gv_TallyParams s) r'), r')"
    "Tally S s p False = Some (fst (tallyStatusInVotePeriod S (gv_TallyParams s) r'),
        snd (tallyStatusInVotePeriod S (gv_TallyParams s) r'), r')"
    and r': "tr_Yes r' + tr_Abstain r' + tr_No r' + tr_NoWithVeto r' = tr_TotalVotedPower r'"
    "0 \<le> tr_Yes r'" "0 \<le> tr_Abstain r'" "0 \<le> tr_No r'" "0 \<le> tr_NoWithVeto r'"
    "tr_TotalVotedPower r' \<le> tr_TotalPower r'" "tr_TotalPower r' = totalPower s"
    by (rule Tally_ok [OF assms(4) gov_okD(6) [OF assms(3)]])
  have st: "st = fst (tallyStatusInVotePeriod S (gv_TallyParams s) r')" "r' = r" using t(2) assms(5) by simp_all
  from early_status [OF assms(1,2) r'(1-6)] assms(6) st t(1) show ?thesis by simp
qed

definition agreed_gov :: "ref_bank gov" where
  "agreed_gov = demo_gov demo_chain (demo_proposal (TextProposal ''t'' ''d'') StatusVotingPeriod) [demo_deposit]
     [demo_vote ''v1'' OptionYes, demo_vote ''v2'' OptionYes]"

theorem early_decision_stands_witness:
  "\<exists>r distribute. Tally gov_sdk agreed_gov (demo_proposal (TextProposal ''t'' ''d'') StatusVotingPeriod) True
     = Some (StatusPassed, distribute, r)"
proof -
  let ?p = "demo_proposal (TextProposal ''t'' ''d'') StatusVotingPeriod"
  have ok: "gov_ok gov_sdk agreed_gov"
    unfolding agreed_gov_def by (rule demo_gov_ok) (auto simp: kv_ok_def demo_vote_def ValidVoteOption_def)
  have st: "staking_ok (gv_staking agreed_gov)" unfolding agreed_gov_def by (rule demo_gov_staking)
  have tp: "tally_params_ok gov_sdk (gv_TallyParams agreed_gov)"
    by (simp add: tally_params_ok_def agreed_gov_def demo_gov_def gov_sdk_def ref_sdk_def)
  have "\<exists>r. Tally gov_sdk agreed_gov ?p False = Some (StatusPassed, False, r)"
    by (simp add: Tally_def preTally_def tallyDelegatorVotes_def GetVotes_def agreed_gov_def demo_gov_def demo_proposal_def demo_vote_def
        start_tally_def tally_vote_def tallyValidatorVotes_def tally_validator_def add_power_def Let_def totalPower_def
        NewTallyResultFromMap_def result_of_def tallyStatusInVotePeriod_def gov_sdk_def ref_sdk_def)
  then obtain r where "Tally gov_sdk agreed_gov ?p False = Some (StatusPassed, False, r)" by blast
  from early_decision_stands [OF gov_quo_laws tp ok st this] show ?thesis by blast
qed

text \<open>
  The condition on the parameters is needed, and the validation of the genesis does not demand it: with a threshold below one
  half, the votes of 60 percent for and 40 percent against a proposal reject it at once, but pass it at the end of the period.
\<close>

definition split_gov :: "ref_bank gov" where
  "split_gov = (demo_gov demo_chain (demo_proposal (TextProposal ''t'' ''d'') StatusVotingPeriod) [demo_deposit]
     [demo_vote ''v1'' OptionYes, demo_vote ''v2'' OptionNo])\<lparr>gv_TallyParams :=
       \<lparr>tpa_Quorum = 34, tpa_Threshold = 34, tpa_Veto = 34, tpa_YesInVotePeriod = 67\<rparr>\<rparr>"

theorem low_threshold_decides_differently:
  "\<exists>r r'. Tally gov_sdk split_gov (demo_proposal (TextProposal ''t'' ''d'') StatusVotingPeriod) False = Some (StatusRejected, False, r)
     \<and> Tally gov_sdk split_gov (demo_proposal (TextProposal ''t'' ''d'') StatusVotingPeriod) True = Some (StatusPassed, False, r')"
  by (simp add: Tally_def preTally_def tallyDelegatorVotes_def GetVotes_def split_gov_def demo_gov_def demo_proposal_def demo_vote_def
      start_tally_def tally_vote_def tallyValidatorVotes_def tally_validator_def add_power_def Let_def totalPower_def
      NewTallyResultFromMap_def result_of_def tallyStatusInVotePeriod_def tallyStatusExpireVotePeriod_def gov_sdk_def ref_sdk_def)

lemma kv_group_sum:
  assumes "kv_ok m"
  shows "sum_list (map (\<lambda>e. if snd (fst e) = a then f (snd e) else 0) (filter (\<lambda>e. fst (fst e) = k) m)) = kv_val f m (k, a)"
  using assms
proof (induction m)
  case (Cons e m)
  obtain k' a' x where e: "e = ((k', a'), x)" by (metis prod.collapse)
  have m: "kv_ok m" "map_of m (k', a') = None"
    using Cons.prems by (auto simp: e kv_ok_Cons map_of_eq_None_iff)
  then show ?case using Cons.IH by (auto simp: e kv_val_def split: option.splits)
qed (simp add: kv_val_def)

text \<open>
  C18. Refunding a proposal returns, where the bank lets a module pay what it holds: every depositor gets back exactly its
  own deposit, nobody else is paid, and exactly the deposits of the proposal are deleted.
\<close>

theorem refund_returns_deposits:
  assumes "gov_laws S G" and "gov_pays S G B" and "gov_ok S s" and "B (gv_bank s)" and "\<forall>d. 0 \<le> gov_gap S s d"
  shows "\<exists>s'. RefundDeposits S i s = Some s'
     \<and> (\<forall>a d. a \<noteq> b_mod_addr S govModule \<longrightarrow> bank_bal S (gv_bank s') a d = bank_bal S (gv_bank s) a d
           + (case GetDeposit s i a of None \<Rightarrow> 0 | Some x \<Rightarrow> amt (de_Amount x) d))
     \<and> gv_deposits s' = filter (\<lambda>e. fst (fst e) \<noteq> ProposalKey i) (gv_deposits s)"
proof -
  note ds = gov_okD(5) [OF assms(3)]
  obtain s' where h: "RefundDeposits S i s = Some s'" using RefundDeposits_total [OF assms(1,2) ds assms(5,4)] by blast
  note r = RefundDeposits_spec [OF gov_lawsD(2) [OF assms(1)] ds h]
  have "bank_bal S (gv_bank s') a d = bank_bal S (gv_bank s) a d + (case GetDeposit s i a of None \<Rightarrow> 0 | Some x \<Rightarrow> amt (de_Amount x) d)"
    if a: "a \<noteq> gov_addr S" for a d
  proof -
    let ?es = "filter (\<lambda>e. fst (fst e) = ProposalKey i) (gv_deposits s)"
    have own: "de_Depositor (snd e) = snd (fst e)" if "e \<in> set (gv_deposits s)" for e
      using arg_cong [OF deposits_owned(1) [OF ds that], of snd] by simp
    have eq: "map (\<lambda>e. (if de_Depositor (snd e) = a then amt (de_Amount (snd e)) d else 0)) ?es
        = map (\<lambda>e. if snd (fst e) = a then amt (de_Amount (snd e)) d else 0) ?es"
      by (intro map_cong refl) (simp add: own)
    have kv: "kv_ok (gv_deposits s)" using ds by (simp add: deposits_ok_def)
    have "sum_list (map (\<lambda>x. if de_Depositor x = a then amt (de_Amount x) d else 0) (GetDeposits s i))
        = kv_val (\<lambda>x. amt (de_Amount x) d) (gv_deposits s) (ProposalKey i, a)"
      unfolding GetDeposits_def map_map comp_def eq by (rule kv_group_sum [OF kv])
    with r a show ?thesis by (simp add: paid_out_def GetDeposit_def kv_val_def)
  qed
  moreover have "gv_deposits s' = filter (\<lambda>e. fst (fst e) \<noteq> ProposalKey i) (gv_deposits s)"
    using cleared_frame(7) r by blast
  ultimately show ?thesis using h by blast
qed

theorem refund_returns_deposits_witness:
  "\<exists>s'. RefundDeposits gov_sdk 1 voting_gov = Some s' \<and> bank_bal gov_sdk (gv_bank s') ''al'' ''okt'' = 80 \<and> gv_deposits s' = []"
proof -
  have v: "bank_bal gov_sdk (gv_bank voting_gov) ''al'' ''okt'' = 50" "GetDeposit voting_gov 1 ''al'' = Some demo_deposit"
    "filter (\<lambda>e. fst (fst e) \<noteq> ProposalKey 1) (gv_deposits voting_gov) = []" "amt (de_Amount demo_deposit) ''okt'' = 30"
    "''al'' \<noteq> b_mod_addr gov_sdk govModule"
    by (simp_all add: gov_sdk_bal voting_gov_def demo_gov_def rb_get_def rb_mod_def GetDeposit_def demo_deposit_def)
  obtain s' where s': "RefundDeposits gov_sdk 1 voting_gov = Some s'"
    "\<forall>a d. a \<noteq> b_mod_addr gov_sdk govModule \<longrightarrow> bank_bal gov_sdk (gv_bank s') a d = bank_bal gov_sdk (gv_bank voting_gov) a d
       + (case GetDeposit voting_gov 1 a of None \<Rightarrow> 0 | Some x \<Rightarrow> amt (de_Amount x) d)"
    "gv_deposits s' = filter (\<lambda>e. fst (fst e) \<noteq> ProposalKey 1) (gv_deposits voting_gov)"
    using refund_returns_deposits [OF gov_ref_laws gov_ref_pays voting_gov_ok, of 1] voting_gov_solvent by (auto simp: solvent_def)
  from s'(2) v have "bank_bal gov_sdk (gv_bank s') ''al'' ''okt'' = 80" by simp
  with s'(1,3) v(3) show ?thesis by simp
qed

subsection \<open>Where the module falls short\<close>

text \<open>
  C33. A delist proposal marks its pair as delisting when its voting period starts. When it passes while the pair is
  locked, its execution fails: the proposal is marked as failed, but the mark of the pair is not taken back, as it is
  after a rejection, so that the pair stays listed and no new order for it is accepted.
\<close>

theorem failed_delist_freezes_pair:
  assumes "pp_Content p = DelistProposal title description q" and "GetTokenPair (gv_chain s) (delist_name q) = Some tp" and "pr_Delisting tp"
    and "IsTokenPairLocked (gv_chain s) (delist_name q)" and "gov_laws S G" and "env_ok S e" and "gov_ok S s"
    and "handleProposalAfterTally S G e p distribute StatusPassed s = Some (p', s')"
  shows "pp_Status p' = StatusFailed \<and> GetTokenPair (gv_chain s') (delist_name q) = Some tp
     \<and> (\<forall>item. it_Product item = delist_name q \<longrightarrow>
          checkOrderNewMsg S item (gv_chain s') = Some (OrderErr (ErrTradingPairIsDelisting (delist_name q))))"
proof -
  note ds = gov_okD(5) [OF assms(7)]
  obtain t where t: "(if distribute then DistributeDeposits G e (pp_ID p) s else RefundDeposits S (pp_ID p) s) = Some t"
    using assms(8) by (auto simp: handleProposalAfterTally_def split: option.splits)
  then have "cleared S (pp_ID p) s t"
    using DistributeDeposits_spec [OF assms(5) ds assms(6)] RefundDeposits_spec [OF gov_lawsD(2) [OF assms(5)] ds] by (auto split: if_splits)
  then obtain b where c: "gv_chain t = (gv_chain s)\<lparr>bank := b\<rparr>" by (auto simp: cleared_def set_gv_bank_def)
  have pair: "GetTokenPair (gv_chain t) (delist_name q) = Some tp" using assms(2) by (simp add: c GetTokenPair_def)
  have "run_delist e p q t = Inl (GovDex (ErrIsTokenPairLocked (delist_name q)))"
    using assms(4) pair by (simp add: run_delist_def handleDelistProposal_def c IsTokenPairLocked_def getProductLock_def)
  then have r: "p' = p\<lparr>pp_Status := StatusFailed\<rparr>" "s' = t"
    using assms(8) t by (auto simp: handleProposalAfterTally_def run_proposal_Some assms(1))
  have "checkOrderNewMsg S item (gv_chain t) = Some (OrderErr (ErrTradingPairIsDelisting (delist_name q)))"
    if "it_Product item = delist_name q" for item
    using pair assms(3) that by (simp add: checkOrderNewMsg_def CheckTokenPairUnderDexDelist_def)
  with r pair show ?thesis by simp
qed

definition frozen_chain :: "ref_bank chain" where
  "frozen_chain = demo_dex_chain\<lparr>dex := (dex demo_dex_chain)\<lparr>ds_pairs := [(''abc_okt'', demo_pair\<lparr>pr_Delisting := True\<rparr>)],
     ds_locks := [(''abc_okt'', \<lparr>l_BlockHeight = 1, l_Price = 1, l_Quantity = 1, l_BuyExecuted = 0, l_SellExecuted = 0\<rparr>)]\<rparr>\<rparr>"

theorem failed_delist_freezes_pair_witness:
  "\<exists>p' s'. handleProposalAfterTally gov_sdk gov_ref_fns gov_env
       (demo_proposal (DelistProposal ''t'' ''d'' \<lparr>dl_Proposer = ''v1'', dl_BaseAsset = ''abc'', dl_QuoteAsset = ''okt''\<rparr>) StatusVotingPeriod)
       False StatusPassed (demo_gov frozen_chain (demo_proposal (DelistProposal ''t'' ''d''
         \<lparr>dl_Proposer = ''v1'', dl_BaseAsset = ''abc'', dl_QuoteAsset = ''okt''\<rparr>) StatusVotingPeriod) [demo_deposit] []) = Some (p', s')
     \<and> pp_Status p' = StatusFailed \<and> GetTokenPair (gv_chain s') ''abc_okt'' = Some (demo_pair\<lparr>pr_Delisting := True\<rparr>)"
proof -
  let ?q = "\<lparr>dl_Proposer = ''v1'', dl_BaseAsset = ''abc'', dl_QuoteAsset = ''okt''\<rparr>"
  let ?p = "demo_proposal (DelistProposal ''t'' ''d'' ?q) StatusVotingPeriod"
  let ?s = "demo_gov frozen_chain ?p [demo_deposit] []"
  have ok: "gov_ok gov_sdk ?s" by (rule demo_gov_ok) (auto simp: kv_ok_def)
  from AfterTally_total [OF gov_ref_laws gov_ref_pays gov_env_ok demo_solvent [OF ok], of ?p False StatusPassed] obtain p' s' where
    h: "handleProposalAfterTally gov_sdk gov_ref_fns gov_env ?p False StatusPassed ?s = Some (p', s')" by blast
  have n: "delist_name ?q = ''abc_okt''" by (simp add: delist_name_def)
  from failed_delist_freezes_pair [OF _ _ _ _ gov_ref_laws gov_env_ok ok h, of "''t''" "''d''" ?q "demo_pair\<lparr>pr_Delisting := True\<rparr>"] h show ?thesis
    by (simp add: n demo_proposal_def demo_gov_def frozen_chain_def GetTokenPair_def IsTokenPairLocked_def getProductLock_def)
qed

text \<open>
  A change of parameters that fails when its height has come stays in the waiting queue, because the deferred removal is
  dropped with the cache of the failed execution: every later block runs it again.
\<close>

theorem failed_change_waits_forever:
  assumes "GetProposal s i = Some p" and "pp_Content p = ParameterChangeProposal t d cs h" and "changeParams G cs s = Inl er"
    and "gv_waiting s = [((h, ProposalKey i), i)]" and "0 \<le> i" and "i < 2 ^ 64" and "h \<le> e_Height e"
  shows "handleWaitingProposals S G e s = Some s"
proof -
  have "queue_upto (e_Height e) (gv_waiting s) = [i]"
    using assms(4-7) le_value_ProposalKey [of i] by (simp add: queue_upto_def)
  moreover have "wait_step S G e i s = Some s"
    using assms(1-3,7) by (simp add: wait_step_def run_proposal_Some handleParameterChangeProposal_def)
  ultimately show ?thesis by (simp add: handleWaitingProposals_def)
qed

text \<open>
  Asking for more of the latest proposals than there are ids answers none instead of all: the start of the range wraps
  around.
\<close>

theorem proposal_limit_wraps:
  assumes "gv_nextID s = Some n" and "0 \<le> n" and "n < numLatest" and "numLatest < 2 ^ 64"
  shows "GetProposalsFiltered s voter depositor status numLatest = []"
proof -
  have "(n - numLatest) mod 2 ^ 64 = (n - numLatest + 2 ^ 64) mod 2 ^ 64" by (simp only: mod_add_self2)
  also have "\<dots> = n - numLatest + 2 ^ 64" using assms(2-4) by (intro mod_pos_pos_trivial) simp_all
  finally have "(n - numLatest) mod 2 ^ 64 = n - numLatest + 2 ^ 64" .
  with assms show ?thesis by (simp add: GetProposalsFiltered_def GetProposalID_def Let_def map_filter_simps)
qed

end
