(* ===== verification/GovGenesis.thy ===== *)
theory GovGenesis
  imports GovMarket
begin

text \<open>
  Genesis of governance (\<open>genesis.go\<close>) and the round trip: a state that is exported and imported again has the same
  store. The proposals that wait are exported as a map from the decimal id to the height.
\<close>

record gov_genesis =
  gg_StartingProposalID :: int
  gg_Deposits :: "deposit list"
  gg_Votes :: "vote list"
  gg_Proposals :: "proposal list"
  gg_WaitingProposals :: "(string, int) kv"
  gg_DepositParams :: deposit_params
  gg_VotingPeriod :: int
  gg_TallyParams :: tally_params

definition gov_ValidateGenesis :: "'b sdk \<Rightarrow> gov_genesis \<Rightarrow> bool" where
  "gov_ValidateGenesis S g \<longleftrightarrow>
     list_all (\<lambda>x. 0 \<le> x \<and> x \<le> d_unit S)
       [tpa_Threshold (gg_TallyParams g), tpa_Veto (gg_TallyParams g), tpa_Quorum (gg_TallyParams g), tpa_YesInVotePeriod (gg_TallyParams g)]
     \<and> c_valid S (dpa_MinDeposit (gg_DepositParams g))"

text \<open>\<open>strconv.ParseUint(s, 10, 64)\<close>.\<close>

definition ParseUint :: "string \<Rightarrow> int option" where
  "ParseUint str = (if str \<noteq> [] \<and> list_all is_digit str \<and> value_of str < 2 ^ 64 then Some (int (value_of str)) else None)"

definition init_proposal :: "proposal \<Rightarrow> 'b gov \<Rightarrow> 'b gov" where
  "init_proposal p s =
     SetProposal p
       (if pp_Status p = StatusDepositPeriod then InsertInactiveProposalQueue (pp_ID p) (pp_DepositEndTime p) s
        else if pp_Status p = StatusVotingPeriod then InsertActiveProposalQueue (pp_ID p) (pp_VotingEndTime p) s
        else s)"

definition init_waiting :: "string \<times> int \<Rightarrow> 'b gov \<Rightarrow> 'b gov option" where
  "init_waiting e s = (case ParseUint (fst e) of None \<Rightarrow> None | Some proposalID \<Rightarrow> Some (InsertWaitingProposalQueue (snd e) proposalID s))"

text \<open>\<open>setCoins\<close> is \<open>SetCoins\<close> and \<open>SetModuleAccount\<close> of the SDK; \<open>GetGovernanceAccount\<close> creates a missing account.\<close>

definition gov_InitGenesis :: "'b sdk \<Rightarrow> ('b \<Rightarrow> string \<Rightarrow> coins \<Rightarrow> 'b) \<Rightarrow> gov_genesis \<Rightarrow> 'b gov \<Rightarrow> 'b gov option" where
  "gov_InitGenesis S setCoins g s =
     (let s = SetProposalID (gg_StartingProposalID g) s;
          s = s\<lparr>gv_DepositParams := gg_DepositParams g, gv_VotingPeriod := gg_VotingPeriod g, gv_TallyParams := gg_TallyParams g\<rparr>;
          totalDeposits = fold (\<lambda>d acc. c_add2 S acc (de_Amount d)) (gg_Deposits g) [];
          s = fold SetDeposit (gg_Deposits g) s;
          s = fold (\<lambda>v. SetVote (vo_ProposalID v) v) (gg_Votes g) s;
          s = fold init_proposal (gg_Proposals g) s
      in case ofold init_waiting (gg_WaitingProposals g) s of
           None \<Rightarrow> None
         | Some s \<Rightarrow>
             Some (if coins_is_zero (b_coins S (gv_bank s) (b_mod_addr S govModule))
                   then set_gv_bank (setCoins (gv_bank s) govModule totalDeposits) s else s))"

definition export_waiting :: "'b gov \<Rightarrow> (int \<times> string) \<times> int \<Rightarrow> (string, int) kv \<Rightarrow> (string, int) kv option" where
  "export_waiting s e acc =
     (let proposalID = le_value (snd (fst e)); height = fst (fst e)
      in case GetProposal s proposalID of
           None \<Rightarrow> None
         | Some p \<Rightarrow> Some (kv_set (digits (nat proposalID)) height acc))"

definition gov_ExportGenesis :: "'b gov \<Rightarrow> gov_genesis option" where
  "gov_ExportGenesis s =
     (case GetProposalID s of
        Inl er \<Rightarrow> None
      | Inr startingProposalID \<Rightarrow>
          (let proposals = GetProposalsFiltered s [] [] StatusNil 0
           in case ofold (export_waiting s) (gv_waiting s) [] of
                None \<Rightarrow> None
              | Some waitingProposals \<Rightarrow>
                  Some \<lparr>gg_StartingProposalID = startingProposalID,
                        gg_Deposits = concat (map (\<lambda>p. GetDeposits s (pp_ID p)) proposals),
                        gg_Votes = concat (map (\<lambda>p. GetVotes s (pp_ID p)) proposals),
                        gg_Proposals = proposals, gg_WaitingProposals = waitingProposals,
                        gg_DepositParams = gv_DepositParams s, gg_VotingPeriod = gv_VotingPeriod s,
                        gg_TallyParams = gv_TallyParams s\<rparr>))"

subsection \<open>Rebuilding a store\<close>

lemma fold_kv_entries:
  assumes "\<And>x. x \<in> set xs \<Longrightarrow> F (key x) = Some (val x)"
  shows "kv_ok m \<Longrightarrow> kv_ok (fold (\<lambda>x. kv_set (key x) (val x)) xs m)"
    and "map_of (fold (\<lambda>x. kv_set (key x) (val x)) xs m) k = (if k \<in> key ` set xs then F k else map_of m k)"
  using assms by (induction xs arbitrary: m) (auto simp: kv_ok_set)

lemma fold_kv_same:
  assumes "kv_ok m" and "\<And>k v. (\<exists>x\<in>set xs. key x = k \<and> val x = v) \<longleftrightarrow> map_of m k = Some v"
  shows "fold (\<lambda>x. kv_set (key x) (val x)) xs [] = m"
proof (rule kv_ext [OF _ assms(1)])
  have F: "map_of m (key x) = Some (val x)" if "x \<in> set xs" for x using assms(2) that by blast
  note f = fold_kv_entries [of xs "map_of m" key val "[]", OF F]
  show "kv_ok (fold (\<lambda>x. kv_set (key x) (val x)) xs [])" by (rule f(1)) simp_all
  show "map_of (fold (\<lambda>x. kv_set (key x) (val x)) xs []) = map_of m"
  proof
    fix k
    have "k \<in> key ` set xs \<longleftrightarrow> map_of m k \<noteq> None" using assms(2) [of k] by fastforce
    then show "map_of (fold (\<lambda>x. kv_set (key x) (val x)) xs []) k = map_of m k" using f(2) [of k] by auto
  qed
qed

lemma genesis_store_folds:
  "fold SetDeposit ds t = t\<lparr>gv_deposits := fold (\<lambda>d. kv_set (ProposalKey (de_ProposalID d), de_Depositor d) d) ds (gv_deposits t)\<rparr>"
  "fold (\<lambda>v. SetVote (vo_ProposalID v) v) vs t =
     t\<lparr>gv_votes := fold (\<lambda>v. kv_set (ProposalKey (vo_ProposalID v), vo_Voter v) v) vs (gv_votes t)\<rparr>"
  "fold init_proposal ps t =
     t\<lparr>gv_proposals := fold (\<lambda>p. kv_set (ProposalKey (pp_ID p)) p) ps (gv_proposals t),
       gv_active := fold (\<lambda>p. kv_set (pp_VotingEndTime p, ProposalKey (pp_ID p)) (pp_ID p))
          (filter (\<lambda>p. pp_Status p = StatusVotingPeriod) ps) (gv_active t),
       gv_inactive := fold (\<lambda>p. kv_set (pp_DepositEndTime p, ProposalKey (pp_ID p)) (pp_ID p))
          (filter (\<lambda>p. pp_Status p = StatusDepositPeriod) ps) (gv_inactive t)\<rparr>"
proof -
  show "fold SetDeposit ds t = t\<lparr>gv_deposits := fold (\<lambda>d. kv_set (ProposalKey (de_ProposalID d), de_Depositor d) d) ds (gv_deposits t)\<rparr>"
    by (induction ds arbitrary: t) (simp_all add: SetDeposit_def)
  show "fold (\<lambda>v. SetVote (vo_ProposalID v) v) vs t =
     t\<lparr>gv_votes := fold (\<lambda>v. kv_set (ProposalKey (vo_ProposalID v), vo_Voter v) v) vs (gv_votes t)\<rparr>"
    by (induction vs arbitrary: t) (simp_all add: SetVote_def)
  show "fold init_proposal ps t =
     t\<lparr>gv_proposals := fold (\<lambda>p. kv_set (ProposalKey (pp_ID p)) p) ps (gv_proposals t),
       gv_active := fold (\<lambda>p. kv_set (pp_VotingEndTime p, ProposalKey (pp_ID p)) (pp_ID p))
          (filter (\<lambda>p. pp_Status p = StatusVotingPeriod) ps) (gv_active t),
       gv_inactive := fold (\<lambda>p. kv_set (pp_DepositEndTime p, ProposalKey (pp_ID p)) (pp_ID p))
          (filter (\<lambda>p. pp_Status p = StatusDepositPeriod) ps) (gv_inactive t)\<rparr>"
    by (induction ps arbitrary: t)
      (simp_all add: init_proposal_def SetProposal_def InsertActiveProposalQueue_def InsertInactiveProposalQueue_def)
qed

subsection \<open>What is exported\<close>

lemma exported_proposals:
  assumes "ids_ok (gv_nextID s) (gv_proposals s)"
  shows "p \<in> set (GetProposalsFiltered s [] [] StatusNil 0) \<longleftrightarrow> map_of (gv_proposals s) (ProposalKey (pp_ID p)) = Some p"
proof -
  obtain n where n: "gv_nextID s = Some n" "0 \<le> n" "n < 2 ^ 64"
    and ids: "\<And>k q. map_of (gv_proposals s) k = Some q \<Longrightarrow> 0 \<le> pp_ID q \<and> pp_ID q < n \<and> k = ProposalKey (pp_ID q)"
    using assms by (auto simp: ids_ok_def)
  have "set (GetProposalsFiltered s [] [] StatusNil 0) = {p. \<exists>i\<in>{0..n - 1}. GetProposal s i = Some p}"
    using n by (force simp: GetProposalsFiltered_def GetProposalID_def Let_def map_filter_def proposal_matches_def split: option.splits)
  then have "p \<in> set (GetProposalsFiltered s [] [] StatusNil 0) \<longleftrightarrow> (\<exists>i\<in>{0..n - 1}. map_of (gv_proposals s) (ProposalKey i) = Some p)"
    by (simp add: GetProposal_def)
  moreover have "\<exists>i\<in>{0..n - 1}. map_of (gv_proposals s) (ProposalKey i) = Some p"
    if "map_of (gv_proposals s) (ProposalKey (pp_ID p)) = Some p"
    using ids [OF that] that by (intro bexI [of _ "pp_ID p"]) auto
  ultimately show ?thesis using ids by metis
qed

lemma rebuilt_stores:
  assumes ok: "gov_ok S s" and ps: "ps = GetProposalsFiltered s [] [] StatusNil 0"
  shows "fold (\<lambda>p. kv_set (ProposalKey (pp_ID p)) p) ps [] = gv_proposals s"
    and "fold (\<lambda>p. kv_set (pp_VotingEndTime p, ProposalKey (pp_ID p)) (pp_ID p)) (filter (\<lambda>p. pp_Status p = StatusVotingPeriod) ps) [] = gv_active s"
    and "fold (\<lambda>p. kv_set (pp_DepositEndTime p, ProposalKey (pp_ID p)) (pp_ID p)) (filter (\<lambda>p. pp_Status p = StatusDepositPeriod) ps) [] = gv_inactive s"
    and "fold (\<lambda>d. kv_set (ProposalKey (de_ProposalID d), de_Depositor d) d) (concat (map (\<lambda>p. GetDeposits s (pp_ID p)) ps)) [] = gv_deposits s"
    and "fold (\<lambda>v. kv_set (ProposalKey (vo_ProposalID v), vo_Voter v) v) (concat (map (\<lambda>p. GetVotes s (pp_ID p)) ps)) [] = gv_votes s"
proof -
  note o = gov_okD [OF ok]
  have mem: "p \<in> set ps \<longleftrightarrow> map_of (gv_proposals s) (ProposalKey (pp_ID p)) = Some p" for p
    unfolding ps by (rule exported_proposals [OF o(1)])
  have key: "k = ProposalKey (pp_ID p)" if "map_of (gv_proposals s) k = Some p" for k p by (rule ids_ok_get(1) [OF o(1) that])
  have kv: "kv_ok (gv_proposals s)" "kv_ok (gv_active s)" "kv_ok (gv_inactive s)" "kv_ok (gv_deposits s)" "kv_ok (gv_votes s)"
    using o by (simp_all add: ids_ok_def queue_ok_def deposits_ok_def votes_ok_def)
  show "fold (\<lambda>p. kv_set (ProposalKey (pp_ID p)) p) ps [] = gv_proposals s"
    by (rule fold_kv_same [OF kv(1), where key = "\<lambda>p. ProposalKey (pp_ID p)" and val = "\<lambda>p. p"]) (use mem key in metis)
  show "fold (\<lambda>p. kv_set (pp_VotingEndTime p, ProposalKey (pp_ID p)) (pp_ID p)) (filter (\<lambda>p. pp_Status p = StatusVotingPeriod) ps) [] = gv_active s"
  proof (rule fold_kv_same [OF kv(2), where key = "\<lambda>p. (pp_VotingEndTime p, ProposalKey (pp_ID p))" and val = pp_ID])
    fix k v
    show "(\<exists>p\<in>set (filter (\<lambda>p. pp_Status p = StatusVotingPeriod) ps). (pp_VotingEndTime p, ProposalKey (pp_ID p)) = k \<and> pp_ID p = v)
        \<longleftrightarrow> map_of (gv_active s) k = Some v"
      using o(2) mem key by (cases k) (auto simp: queue_ok_def)
  qed
  show "fold (\<lambda>p. kv_set (pp_DepositEndTime p, ProposalKey (pp_ID p)) (pp_ID p)) (filter (\<lambda>p. pp_Status p = StatusDepositPeriod) ps) [] = gv_inactive s"
  proof (rule fold_kv_same [OF kv(3), where key = "\<lambda>p. (pp_DepositEndTime p, ProposalKey (pp_ID p))" and val = pp_ID])
    fix k v
    show "(\<exists>p\<in>set (filter (\<lambda>p. pp_Status p = StatusDepositPeriod) ps). (pp_DepositEndTime p, ProposalKey (pp_ID p)) = k \<and> pp_ID p = v)
        \<longleftrightarrow> map_of (gv_inactive s) k = Some v"
      using o(3) mem key by (cases k) (auto simp: queue_ok_def)
  qed
  have dep: "x \<in> set (concat (map (\<lambda>p. GetDeposits s (pp_ID p)) ps)) \<longleftrightarrow> map_of (gv_deposits s) (ProposalKey (de_ProposalID x), de_Depositor x) = Some x" for x
  proof
    assume "x \<in> set (concat (map (\<lambda>p. GetDeposits s (pp_ID p)) ps))"
    then obtain e where e: "e \<in> set (gv_deposits s)" "x = snd e" by (auto simp: GetDeposits_def)
    then show "map_of (gv_deposits s) (ProposalKey (de_ProposalID x), de_Depositor x) = Some x"
      using kv_ok_entry [OF kv(4) e(1)] deposits_owned(1) [OF o(5) e(1)] by simp
  next
    assume x: "map_of (gv_deposits s) (ProposalKey (de_ProposalID x), de_Depositor x) = Some x"
    with o(5) obtain p where p: "map_of (gv_proposals s) (ProposalKey (de_ProposalID x)) = Some p" unfolding deposits_ok_def by blast
    then have "p \<in> set ps" "ProposalKey (pp_ID p) = ProposalKey (de_ProposalID x)" using mem key by metis+
    moreover have "x \<in> set (GetDeposits s (pp_ID p))"
      using map_of_SomeD [OF x] calculation(2) by (force simp: GetDeposits_def)
    ultimately show "x \<in> set (concat (map (\<lambda>p. GetDeposits s (pp_ID p)) ps))" by auto
  qed
  show "fold (\<lambda>d. kv_set (ProposalKey (de_ProposalID d), de_Depositor d) d) (concat (map (\<lambda>p. GetDeposits s (pp_ID p)) ps)) [] = gv_deposits s"
  proof (rule fold_kv_same [OF kv(4), where key = "\<lambda>d. (ProposalKey (de_ProposalID d), de_Depositor d)" and val = "\<lambda>d. d"])
    fix k v
    show "(\<exists>d\<in>set (concat (map (\<lambda>p. GetDeposits s (pp_ID p)) ps)). (ProposalKey (de_ProposalID d), de_Depositor d) = k \<and> d = v)
        \<longleftrightarrow> map_of (gv_deposits s) k = Some v"
      using o(5) dep [of v] unfolding deposits_ok_def by (cases k) blast
  qed
  have vot: "x \<in> set (concat (map (\<lambda>p. GetVotes s (pp_ID p)) ps)) \<longleftrightarrow> map_of (gv_votes s) (ProposalKey (vo_ProposalID x), vo_Voter x) = Some x" for x
  proof
    assume "x \<in> set (concat (map (\<lambda>p. GetVotes s (pp_ID p)) ps))"
    then obtain e where e: "e \<in> set (gv_votes s)" "x = snd e" by (auto simp: GetVotes_def)
    then show "map_of (gv_votes s) (ProposalKey (vo_ProposalID x), vo_Voter x) = Some x"
      using kv_ok_entry [OF kv(5) e(1)] votes_owned [OF o(6) e(1)] by simp
  next
    assume x: "map_of (gv_votes s) (ProposalKey (vo_ProposalID x), vo_Voter x) = Some x"
    with o(6) obtain p where p: "map_of (gv_proposals s) (ProposalKey (vo_ProposalID x)) = Some p" unfolding votes_ok_def by blast
    then have "p \<in> set ps" "ProposalKey (pp_ID p) = ProposalKey (vo_ProposalID x)" using mem key by metis+
    moreover have "x \<in> set (GetVotes s (pp_ID p))"
      using map_of_SomeD [OF x] calculation(2) by (force simp: GetVotes_def)
    ultimately show "x \<in> set (concat (map (\<lambda>p. GetVotes s (pp_ID p)) ps))" by auto
  qed
  show "fold (\<lambda>v. kv_set (ProposalKey (vo_ProposalID v), vo_Voter v) v) (concat (map (\<lambda>p. GetVotes s (pp_ID p)) ps)) [] = gv_votes s"
  proof (rule fold_kv_same [OF kv(5), where key = "\<lambda>v. (ProposalKey (vo_ProposalID v), vo_Voter v)" and val = "\<lambda>v. v"])
    fix k v
    show "(\<exists>d\<in>set (concat (map (\<lambda>p. GetVotes s (pp_ID p)) ps)). (ProposalKey (vo_ProposalID d), vo_Voter d) = k \<and> d = v)
        \<longleftrightarrow> map_of (gv_votes s) k = Some v"
      using o(6) vot [of v] unfolding votes_ok_def by (cases k) blast
  qed
qed

subsection \<open>Waiting proposals\<close>

lemma waiting_id:
  assumes ok: "gov_ok S s" and e: "e \<in> set (gv_waiting s)"
  obtains p t d cs where "GetProposal s (le_value (snd (fst e))) = Some p" and "pp_Content p = ParameterChangeProposal t d cs (fst (fst e))"
    and "snd (fst e) = ProposalKey (le_value (snd (fst e)))" and "snd e = le_value (snd (fst e))"
    and "0 \<le> le_value (snd (fst e))" and "le_value (snd (fst e)) < 2 ^ 64"
proof -
  note o = gov_okD [OF ok]
  have "map_of (gv_waiting s) (fst (fst e), snd (fst e)) = Some (snd e)"
    using kv_ok_entry [OF _ e] o(4) by (simp add: waiting_ok_def)
  then obtain p t d cs where p: "map_of (gv_proposals s) (snd (fst e)) = Some p"
    "pp_Content p = ParameterChangeProposal t d cs (fst (fst e))" "snd e = pp_ID p"
    using o(4) unfolding waiting_ok_def by blast
  note k = ids_ok_get [OF o(1) p(1)]
  have v: "le_value (snd (fst e)) = pp_ID p" using le_value_ProposalKey [OF k(2,3)] k(1) by simp
  show ?thesis
    by (rule that [of p t d cs]) (use p k v in \<open>simp_all add: GetProposal_def\<close>)
qed

lemma waiting_exported:
  assumes ok: "gov_ok S s"
  shows "ofold (export_waiting s) (gv_waiting s) [] =
     Some (fold (\<lambda>e. kv_set (digits (nat (le_value (snd (fst e))))) (fst (fst e))) (gv_waiting s) [])"
proof -
  have "ofold (export_waiting s) es acc = Some (fold (\<lambda>e. kv_set (digits (nat (le_value (snd (fst e))))) (fst (fst e))) es acc)"
    if "set es \<subseteq> set (gv_waiting s)" for es acc
    using that
  proof (induction es arbitrary: acc)
    case (Cons e es)
    then have "e \<in> set (gv_waiting s)" by simp
    then obtain p where "GetProposal s (le_value (snd (fst e))) = Some p" using waiting_id [OF ok] by blast
    then have "export_waiting s e acc = Some (kv_set (digits (nat (le_value (snd (fst e))))) (fst (fst e)) acc)"
      by (simp add: export_waiting_def Let_def)
    with Cons show ?case by simp
  qed simp
  then show ?thesis by blast
qed

lemma ParseUint_digits: "n < 2 ^ 64 \<Longrightarrow> ParseUint (digits n) = Some (int n)"
  using digits_all by (auto simp: ParseUint_def list_all_iff)

lemma waiting_entries:
  assumes ok: "gov_ok S s" and w: "w = fold (\<lambda>e. kv_set (digits (nat (le_value (snd (fst e))))) (fst (fst e))) (gv_waiting s) []"
  shows "kv_ok w" and "map_of w k = Some h \<longleftrightarrow> (\<exists>e\<in>set (gv_waiting s). digits (nat (le_value (snd (fst e)))) = k \<and> fst (fst e) = h)"
proof -
  define F where "F k = (case GetProposal s (int (value_of k)) of Some p \<Rightarrow>
     (case pp_Content p of ParameterChangeProposal t d cs h \<Rightarrow> Some h | _ \<Rightarrow> None) | None \<Rightarrow> None)" for k
  have F: "F (digits (nat (le_value (snd (fst e))))) = Some (fst (fst e))" if e: "e \<in> set (gv_waiting s)" for e
  proof -
    obtain p t d cs where p: "GetProposal s (le_value (snd (fst e))) = Some p"
      "pp_Content p = ParameterChangeProposal t d cs (fst (fst e))" "0 \<le> le_value (snd (fst e))"
      by (rule waiting_id [OF ok e])
    then show ?thesis by (simp add: F_def)
  qed
  note f = fold_kv_entries [of "gv_waiting s" F "\<lambda>e. digits (nat (le_value (snd (fst e))))" "\<lambda>e. fst (fst e)" "[]", OF F]
  show "kv_ok w" unfolding w by (rule f(1)) simp_all
  show "map_of w k = Some h \<longleftrightarrow> (\<exists>e\<in>set (gv_waiting s). digits (nat (le_value (snd (fst e)))) = k \<and> fst (fst e) = h)"
  proof -
    have "map_of w k = (if k \<in> (\<lambda>e. digits (nat (le_value (snd (fst e))))) ` set (gv_waiting s) then F k else None)"
      using f(2) [of k] unfolding w by simp
    moreover have "F k = Some (fst (fst e))" if "e \<in> set (gv_waiting s)" "digits (nat (le_value (snd (fst e)))) = k" for e
      using F [OF that(1)] that(2) by simp
    ultimately show ?thesis by (cases "k \<in> (\<lambda>e. digits (nat (le_value (snd (fst e))))) ` set (gv_waiting s)") (simp_all add: image_iff, fastforce+)
  qed
qed

lemma waiting_imported:
  assumes ok: "gov_ok S s" and w: "w = fold (\<lambda>e. kv_set (digits (nat (le_value (snd (fst e))))) (fst (fst e))) (gv_waiting s) []"
    and t: "gv_waiting t = []"
  shows "ofold init_waiting w t = Some (t\<lparr>gv_waiting := gv_waiting s\<rparr>)"
proof -
  note entries = waiting_entries [OF ok w]
  have parse: "ParseUint (fst x) = Some (int (value_of (fst x)))" if x: "x \<in> set w" for x
  proof -
    have "map_of w (fst x) = Some (snd x)" by (rule kv_ok_entry [OF entries(1) x])
    then obtain e where e: "e \<in> set (gv_waiting s)" "digits (nat (le_value (snd (fst e)))) = fst x" using entries(2) by blast
    then have "nat (le_value (snd (fst e))) < 2 ^ 64" using waiting_id [OF ok e(1)] by (metis nat_less_numeral_power_cancel_iff)
    then show ?thesis using ParseUint_digits e(2) by (metis value_of_digits)
  qed
  have import: "ofold init_waiting xs u =
      Some (u\<lparr>gv_waiting := fold (\<lambda>x. kv_set (snd x, ProposalKey (int (value_of (fst x)))) (int (value_of (fst x)))) xs (gv_waiting u)\<rparr>)"
    if "set xs \<subseteq> set w" for xs u
    using that by (induction xs arbitrary: u) (simp_all add: init_waiting_def parse InsertWaitingProposalQueue_def)
  have kv: "kv_ok (gv_waiting s)" using gov_okD(4) [OF ok] by (simp add: waiting_ok_def)
  have "fold (\<lambda>x. kv_set (snd x, ProposalKey (int (value_of (fst x)))) (int (value_of (fst x)))) w [] = gv_waiting s"
  proof (rule fold_kv_same [OF kv, where key = "\<lambda>x. (snd x, ProposalKey (int (value_of (fst x))))" and val = "\<lambda>x. int (value_of (fst x))"])
    fix k :: "int \<times> string" and v
    show "(\<exists>x\<in>set w. (snd x, ProposalKey (int (value_of (fst x)))) = k \<and> int (value_of (fst x)) = v) \<longleftrightarrow> map_of (gv_waiting s) k = Some v"
    proof
      assume "\<exists>x\<in>set w. (snd x, ProposalKey (int (value_of (fst x)))) = k \<and> int (value_of (fst x)) = v"
      then obtain x where x: "x \<in> set w" "(snd x, ProposalKey (int (value_of (fst x)))) = k" "int (value_of (fst x)) = v" by blast
      have "map_of w (fst x) = Some (snd x)" by (rule kv_ok_entry [OF entries(1) x(1)])
      then obtain e where e: "e \<in> set (gv_waiting s)" "digits (nat (le_value (snd (fst e)))) = fst x" "fst (fst e) = snd x"
        using entries(2) by blast
      note i = waiting_id [OF ok e(1)]
      have v: "int (value_of (fst x)) = le_value (snd (fst e))" using i e(2) by (metis nat_0_le value_of_digits)
      then have "k = fst e" "v = snd e" using i x(2,3) e(3) by (metis prod.collapse)+
      then show "map_of (gv_waiting s) k = Some v" using kv_ok_entry [OF kv e(1)] by simp
    next
      assume "map_of (gv_waiting s) k = Some v"
      then have e: "(k, v) \<in> set (gv_waiting s)" by (rule map_of_SomeD)
      note i = waiting_id [OF ok e]
      have le: "snd k = ProposalKey (le_value (snd k))" "v = le_value (snd k)" "0 \<le> le_value (snd k)" using i by (metis fst_conv snd_conv)+
      have "map_of w (digits (nat (le_value (snd k)))) = Some (fst k)" using entries(2) e by force
      then have "(digits (nat (le_value (snd k))), fst k) \<in> set w" by (rule map_of_SomeD)
      then show "\<exists>x\<in>set w. (snd x, ProposalKey (int (value_of (fst x)))) = k \<and> int (value_of (fst x)) = v"
        using le by (intro bexI [of _ "(digits (nat (le_value (snd k))), fst k)"]) (auto simp: prod_eq_iff)
    qed
  qed
  then show ?thesis using import [of w t] t by simp
qed

subsection \<open>The round trip\<close>

definition gov_fresh :: "'b gov \<Rightarrow> bool" where
  "gov_fresh t \<longleftrightarrow> gv_proposals t = [] \<and> gv_active t = [] \<and> gv_inactive t = [] \<and> gv_waiting t = [] \<and> gv_deposits t = [] \<and> gv_votes t = []"

text \<open>
  C31. Exporting a consistent state returns, and importing the result on empty stores returns and restores proposals, both
  queues, the waiting proposals, deposits, votes, the next id and the parameters.
\<close>

theorem gov_genesis_roundtrip:
  assumes ok: "gov_ok S s" and t: "gov_fresh t"
  shows "\<exists>g t'. gov_ExportGenesis s = Some g \<and> gov_InitGenesis S setCoins g t = Some t' \<and> gov_core t' = gov_core s
     \<and> gv_DepositParams t' = gv_DepositParams s \<and> gv_VotingPeriod t' = gv_VotingPeriod s \<and> gv_TallyParams t' = gv_TallyParams s"
proof -
  obtain n where n: "gv_nextID s = Some n" using gov_okD(1) [OF ok] by (auto simp: ids_ok_def)
  note stores = rebuilt_stores [OF ok refl]
  note w = waiting_exported [OF ok] waiting_imported [OF ok refl]
  show ?thesis
    using t n stores
    by (simp add: gov_fresh_def gov_ExportGenesis_def gov_InitGenesis_def GetProposalID_def Let_def genesis_store_folds w SetProposalID_def
        gov_core_def set_gv_bank_def set_gv_chain_def)
qed

definition blank_gov :: "ref_bank gov" where
  "blank_gov = voting_gov\<lparr>gv_nextID := None, gv_proposals := [], gv_active := [], gv_deposits := [], gv_votes := []\<rparr>"

theorem gov_genesis_roundtrip_witness:
  "\<exists>g t'. gov_ExportGenesis voting_gov = Some g \<and> gov_InitGenesis gov_sdk (\<lambda>b m cs. rb_put (rb_mod m) cs b) g blank_gov = Some t'
     \<and> gv_active t' = [((10, ProposalKey 1), 1)] \<and> map snd (gv_deposits t') = [demo_deposit]"
proof -
  have "gov_fresh blank_gov" by (simp add: gov_fresh_def blank_gov_def voting_gov_def demo_gov_def)
  from gov_genesis_roundtrip [OF voting_gov_ok this] obtain g t' where
    "gov_ExportGenesis voting_gov = Some g" "gov_InitGenesis gov_sdk (\<lambda>b m cs. rb_put (rb_mod m) cs b) g blank_gov = Some t'"
    "gov_core t' = gov_core voting_gov" by blast
  moreover have "gv_active voting_gov = [((10, ProposalKey 1), 1)]" "map snd (gv_deposits voting_gov) = [demo_deposit]"
    by (simp_all add: voting_gov_def demo_gov_def demo_proposal_def)
  ultimately show ?thesis by (auto simp: gov_core_def)
qed

end
