(* ===== verification/Spec2Isabelle.thy ===== *)
theory Spec2Isabelle
  imports OrderChain EvmTransition FarmGenesis GovMarket GovGenesis
begin

text \<open>
  \<^bold>\<open>OKExChain: the exchange modules and the EVM state of a Cosmos SDK chain.\<close>

  The program is a blockchain node. Its own logic is in \<open>src/x\<close>: the token module issues tokens and keeps
  coins in escrow, the dex module lists token pairs and holds their deposits, the order module keeps order books and
  matches them at the end of every block in a periodic auction, the ammswap module trades against pools of
  coins, the farm module pays rewards for locked tokens, the gov module lets validators and delegators vote on proposals
  that change parameters or act on the other modules, and the evm module runs Ethereum transactions on state kept in the
  same stores. A module is a keeper (state and
  operations), a handler (messages), hooks at the beginning and end of a block, and a genesis import and export.

  \<^bold>\<open>How the code is modelled.\<close> A KV store is an ordered association list (\<open>kv\<close> of theory \<open>Prelude\<close>, the
  interface \<open>ordered_store\<close>), because iteration order matters; one field per key prefix. A module's store and its
  in-memory caches are records; \<open>chain\<close> (theory \<open>Chain\<close>) holds them beside the bank state, \<open>amm\<close>, \<open>farm\<close>, \<open>gov\<close> and the
  records of the EVM theories extend it. Go structs are records, enumerations are datatypes, every error code the code
  returns is a constructor of an error datatype, and a panic is \<open>None\<close> or an explicit error, so that no
  branch is left out. A call whose caller goes on after an error returns the state it leaves behind. Decimals are
  integers of smallest units; \<open>uint64\<close> counters are reduced modulo \<open>2 ^ 64\<close>; EVM words are bounded integers with
  their bounds as invariants. Loops are structural recursions or functions with a measure; no fuel is used.

  \<^bold>\<open>What is a parameter.\<close> Code outside the repository is an argument of the definitions: the Cosmos SDK's decimals, coins,
  bank and supply keepers are the record \<open>sdk\<close> with the laws \<open>sdk_laws\<close> (theory \<open>Sdk\<close>, with a reference instance
  \<open>ref_sdk\<close> that meets them); the truncating decimal and single-coin functions are \<open>coin_ext\<close> with \<open>swap_laws\<close> (theory
  \<open>AmmPool\<close>), those on coin lists that the farm uses are \<open>farm_fns\<close> with \<open>farm_laws\<close> (theory \<open>FarmCalc\<close>); the parameter
  subspaces and coin functions of governance are \<open>gov_fns\<close> with \<open>gov_laws\<close> and, where a transfer has to succeed, \<open>gov_pays\<close>
  (theories \<open>GovCore\<close>, \<open>GovPay\<close>); hashing, encoding and the account keeper of the EVM are \<open>evm_ext\<close> with \<open>evm_laws\<close> and \<open>keeper_laws\<close>;
  the virtual machine itself is \<open>evm_vm\<close> with \<open>vm_laws\<close>, which say that it acts on the state only through the
  operations of the state database. Whether a Go slice has spare capacity, which decides if \<open>append\<close> shares memory, is the argument
  \<open>spare\<close> of the auction's cleanup. Every law that a property assumes is met by an instance its witness evaluates.

  \<^bold>\<open>Theories and what they show.\<close>

  \<^item> \<open>Prelude\<close>, \<open>Sdk\<close>, \<open>Chain\<close>: lists, stores, binary search, the SDK's interface, the shared state. \<open>conserving_steps\<close>
    is the contract of a step relation that keeps an invariant and a quantity, \<open>growing_steps\<close> of one whose quantity may
    grow; the dex, the market maker, the farm and governance interpret them.
  \<^item> \<open>Token\<close>, \<open>TokenHandler\<close> (\<open>x/token\<close>): registry, escrow locks, messages, genesis. The locale \<open>coin_escrow\<close> is what the
    order module relies on. Registry invariant, supply accounting, consent of owners, genesis round trip.
  \<^item> \<open>Dex\<close>, \<open>DexHandler\<close> (\<open>x/dex\<close>): pairs, deposits, withdrawals, operators, proposals, product locks. Deposits are
    always backed by the module account; no withdrawal is paid early; a stale transfer can take over a pair.
  \<^item> \<open>OrderTypes\<close>, \<open>OrderId\<close>, \<open>DepthBook\<close> (\<open>x/order/types\<close>): orders, ids, price levels. The book refines a map from
    prices to quantities.
  \<^item> \<open>OrderCache\<close>, \<open>OrderKeeper\<close> (\<open>x/order/keeper\<close>): caches with their flush and reload, placing, cancelling, expiring,
    fees.
  \<^item> \<open>MatchPrice\<close> (\<open>match.go\<close>): the auction price, which is optimal in executed volume and agrees with the documented rules.
  \<^item> \<open>OrderFill\<close>, \<open>FillBook\<close> (\<open>fill.go\<close>), \<open>OrderMatch\<close>, \<open>MatchRun\<close> (\<open>match.go\<close>, \<open>impl.go\<close>): filling of queues within the
    budget of deals, expiry, delisting, product locks. The engine always returns and keeps the books; a matched product is
    executed or locked, and a locked one makes progress; the cleanup of delisted pairs skips orders when slices share memory.
  \<^item> \<open>OrderHandler\<close>, \<open>OrderChain\<close> (\<open>handler.go\<close>, \<open>endblocker.go\<close>, \<open>genesis.go\<close>, \<open>app/ante/validateMsg.go\<close>): messages with
    their validation and gas, the admission hook, blocks, genesis, and the invariant of the whole module over
    every history of messages, blocks and steps of other modules in which no delisted pair has more than two buy orders at a
    price when a block ends.
  \<^item> \<open>AmmSwap\<close>, \<open>AmmPool\<close>, \<open>AmmLiquidity\<close>, \<open>AmmMarket\<close> (\<open>x/ammswap\<close>, \<open>MulAndQuo\<close> of \<open>x/common\<close>): pools, pricing, swaps, liquidity,
    queries. Pools stay backed (exactly, unless a swap pays to the module account), products never fall, deposits earn nothing by themselves, the query predicts the swap.
  \<^item> \<open>Farm\<close>, \<open>FarmBlock\<close> (\<open>x/farm\<close>): pools, locks, reward periods, messages; the value of a pool, the begin of a block, proposals,
    the earnings query, the registered invariants, genesis. \<open>FarmCalc\<close> is the accounting of one pool: what all its locks can claim
    from the recorded ratios is covered by what it has accumulated (\<open>acct\<close>), through the end of a period and every payment;
    \<open>FarmSteps\<close>, \<open>FarmSettle\<close>, \<open>FarmHandlers\<close> carry it through the keeper and the handlers. \<open>FarmMarket\<close>: both module accounts
    stay backed, rewards are always covered, the query predicts the claim, and destroying a pool freezes the pools whose name
    extends its name. \<open>FarmGenesis\<close>: the round trip of the genesis. The steps assume that a period counter is below
    its last \<open>uint64\<close> value, which a pool reaches after that many messages.
  \<^item> \<open>Gov\<close>, \<open>GovRoutes\<close>, \<open>GovHandler\<close> (\<open>x/gov\<close>): proposals, queues, deposits, votes and the tally; the routers with the handlers
    that \<open>app/app.go\<close> registers (governance, \<open>x/params/proposal_handler.go\<close>, the community pool of \<open>x/distribution\<close>, the delist
    proposals of \<open>x/dex\<close>, the white list of \<open>x/farm\<close>); messages, the end of a block, the registered invariant. What governance reads
    of the staking module (bonded validators, shares of delegators) is a field of its state, which steps of other
    modules may change. \<open>GovCore\<close> has the contract of a payment of deposits (the locale \<open>deposit_payout\<close>, interpreted by
    refund and distribution), \<open>GovInv\<close> the invariant that ties proposals, queues, deposits and votes together; \<open>GovSteps\<close>, \<open>GovBlock\<close>,
    \<open>GovEnd\<close> carry it through messages and blocks, \<open>GovTally\<close> is the arithmetic of the tally, \<open>GovPay\<close> shows that a solvent module
    never panics. \<open>GovMarket\<close>: the module account is backed, decided proposals are final, the end of a block settles what has
    expired, votes count once, an early decision stands, refunds are exact; a failed delisting freezes its pair.
    \<open>GovGenesis\<close>: the round trip of the genesis. The steps assume that the next proposal id stays below its last \<open>uint64\<close> value.
  \<^item> \<open>EvmState\<close>, \<open>EvmStateDB\<close>, \<open>IndexedSlice\<close> (\<open>x/evm/types/statedb.go\<close>, \<open>state_object.go\<close>, \<open>journal.go\<close>, \<open>access_list.go\<close>): the
    journaled state database with its slices and index maps. \<open>EvmRevert\<close>, \<open>EvmSteps\<close>, \<open>EvmDbSteps\<close>, \<open>EvmSnapshot\<close>: every
    operation records what undoes it, so a revert restores everything contracts can read. \<open>EvmCommit\<close>: what a
    block finalises is what the next one reads. \<open>EvmTransition\<close> (\<open>state_transition.go\<close>, \<open>handler.go\<close>, \<open>msg.go\<close>): transactions, signatures,
    gas, refunds.

  \<^bold>\<open>Not modelled.\<close> Staking, slashing, evidence and genesis transactions, and of distribution and params all but their
  proposals: forks of Cosmos SDK modules. The query side (\<open>x/backend\<close>, \<open>x/stream\<close>: SQL and message queues); JSON-RPC and REST
  servers, command line, wiring (\<open>app\<close>, \<open>cmd\<close>): input and output around the modules. Inside the modelled modules:
  events, logs, metrics, JSON and RLP encodings, most \<open>String\<close> methods, and the EVM genesis with its worker routines and data
  bases.
\<close>

end
